(* ===== verification/Prelude.thy ===== *)
theory Prelude
  imports Main "HOL-Library.AList"
begin

text \<open>
  The values every component shares: Python datetimes, dictionaries, strings and results, with
  the lemmas that carry the component proofs.

  Datetimes.  A \<open>datetime\<close> is its number of microseconds since 1970-01-01, with the
  zone collapsed to what the code can observe: an aware value is its UTC instant (Python compares
  and subtracts aware values by instant), a naive value is its wall-clock reading.
  \<open>epoch_ms\<close> is \<open>int(aware_utc(now).timestamp() * 1000)\<close>.  The code goes through a
  double; for instants between November 2004 and January 2038 the two roundings together stay
  below 2.5e-4 ms, less than the 1e-3 ms that separates a microsecond reading from the next
  integer, and a reading that is a whole number of milliseconds is returned exactly, so the
  result is the floor used here.

  Strings.  A Python \<open>str\<close> is a \<open>char list\<close> whose characters are the code points
  U+0000 to U+00FF; \<open>length\<close> counts code points as \<open>len\<close> does.

  Dictionaries.  A Python \<open>dict\<close> keeps insertion order, overwrites in place and appends
  new keys, which is \<open>AList.update\<close> on an association list with distinct keys.
\<close>

named_theorems dict_simps "lookup equations for association-list dictionaries"
named_theorems time_simps "equations for datetimes and their millisecond readings"

section \<open>Results\<close>

text \<open>A fallible pure function returns \<open>Inl e\<close> where the source raises \<open>e\<close>.\<close>

definition and_then :: "'e + 'a \<Rightarrow> ('a \<Rightarrow> 'e + 'b) \<Rightarrow> 'e + 'b" where
  "and_then r k = (case r of Inl e \<Rightarrow> Inl e | Inr x \<Rightarrow> k x)"

lemma and_then_simps [simp]:
  "and_then (Inl e) k = Inl e"
  "and_then (Inr x) k = k x"
  by (simp_all add: and_then_def)

lemma and_then_Inr_iff: "and_then r k = Inr y \<longleftrightarrow> (\<exists>x. r = Inr x \<and> k x = Inr y)"
  by (cases r) auto

definition is_ok :: "'e + 'a \<Rightarrow> bool" where
  "is_ok r = (case r of Inl _ \<Rightarrow> False | Inr _ \<Rightarrow> True)"

lemma is_ok_simps [simp]: "\<not> is_ok (Inl e)" "is_ok (Inr x)"
  by (simp_all add: is_ok_def)

lemma is_ok_iff: "is_ok r \<longleftrightarrow> (\<exists>x. r = Inr x)"
  by (cases r) auto

section \<open>Datetimes\<close>

datatype datetime = Naive int | Aware int

fun is_aware :: "datetime \<Rightarrow> bool" where
  "is_aware (Naive _) = False"
| "is_aware (Aware _) = True"

text \<open>The microseconds of the reading, whatever its zone.\<close>

fun micros :: "datetime \<Rightarrow> int" where
  "micros (Naive u) = u"
| "micros (Aware u) = u"

text \<open>\<open>aware_utc\<close>: a naive value is taken to be UTC, an aware one is converted to UTC.\<close>

fun aware_utc :: "datetime \<Rightarrow> datetime" where
  "aware_utc (Naive u) = Aware u"
| "aware_utc (Aware u) = Aware u"

definition epoch_ms :: "datetime \<Rightarrow> int" where
  "epoch_ms d = micros (aware_utc d) div 1000"

definition from_epoch_ms :: "int \<Rightarrow> datetime" where
  "from_epoch_ms m = Aware (m * 1000)"

text \<open>\<open>d + timedelta(seconds=s)\<close> and \<open>d + timedelta(milliseconds=m)\<close>.\<close>

fun plus_micros :: "datetime \<Rightarrow> int \<Rightarrow> datetime" where
  "plus_micros (Naive u) n = Naive (u + n)"
| "plus_micros (Aware u) n = Aware (u + n)"

definition plus_seconds :: "datetime \<Rightarrow> int \<Rightarrow> datetime" where
  "plus_seconds d s = plus_micros d (s * 1000000)"

definition plus_millis :: "datetime \<Rightarrow> int \<Rightarrow> datetime" where
  "plus_millis d m = plus_micros d (m * 1000)"

text \<open>
  \<open>a < b\<close> on datetimes.  Comparing an aware with a naive value raises \<open>TypeError\<close>: the
  result is then \<open>None\<close>.
\<close>

fun dt_less :: "datetime \<Rightarrow> datetime \<Rightarrow> bool option" where
  "dt_less (Aware a) (Aware b) = Some (a < b)"
| "dt_less (Naive a) (Naive b) = Some (a < b)"
| "dt_less _ _ = None"

lemma micros_aware_utc [simp, time_simps]: "micros (aware_utc d) = micros d"
  by (cases d) simp_all

lemma is_aware_aware_utc [simp]: "is_aware (aware_utc d)"
  by (cases d) simp_all

lemma aware_utc_idem [simp]: "aware_utc (aware_utc d) = aware_utc d"
  by (cases d) simp_all

lemma aware_utc_aware: "is_aware d \<Longrightarrow> aware_utc d = d"
  by (cases d) simp_all

lemma aware_eq_iff: "is_aware a \<Longrightarrow> is_aware b \<Longrightarrow> a = b \<longleftrightarrow> micros a = micros b"
  by (cases a; cases b) simp_all

lemma micros_plus_micros [simp, time_simps]: "micros (plus_micros d n) = micros d + n"
  by (cases d) simp_all

lemma is_aware_plus_micros [simp]: "is_aware (plus_micros d n) = is_aware d"
  by (cases d) simp_all

lemma micros_plus_seconds [simp, time_simps]: "micros (plus_seconds d s) = micros d + s * 1000000"
  by (simp add: plus_seconds_def)

lemma micros_plus_millis [simp, time_simps]: "micros (plus_millis d m) = micros d + m * 1000"
  by (simp add: plus_millis_def)

lemma is_aware_plus_seconds [simp]: "is_aware (plus_seconds d s) = is_aware d"
  by (simp add: plus_seconds_def)

lemma is_aware_plus_millis [simp]: "is_aware (plus_millis d m) = is_aware d"
  by (simp add: plus_millis_def)

lemma epoch_ms_micros: "epoch_ms d = micros d div 1000"
  by (simp add: epoch_ms_def)

lemma epoch_ms_aware_utc [simp, time_simps]: "epoch_ms (aware_utc d) = epoch_ms d"
  by (simp add: epoch_ms_def)

lemma epoch_ms_from_epoch_ms [simp, time_simps]: "epoch_ms (from_epoch_ms m) = m"
  by (simp add: epoch_ms_def from_epoch_ms_def)

lemma epoch_ms_plus_seconds [simp, time_simps]:
  "epoch_ms (plus_seconds d s) = epoch_ms d + s * 1000"
proof -
  have "(micros d + s * 1000000) div 1000 = (micros d + (s * 1000) * 1000) div 1000"
    by simp
  also have "\<dots> = s * 1000 + micros d div 1000"
    by (rule div_mult_self1) simp
  finally show ?thesis by (simp add: epoch_ms_micros)
qed

lemma div_next_bound:
  fixes x c :: int
  assumes "0 < c"
  shows "x < (x div c + 1) * c"
  using pos_mod_bound [OF assms, of x] div_mult_mod_eq [of x c] unfolding distrib_right by linarith

lemma epoch_ms_mono: "micros a \<le> micros b \<Longrightarrow> epoch_ms a \<le> epoch_ms b"
  by (simp add: epoch_ms_micros zdiv_mono1)

lemma dt_less_aware: "is_aware a \<Longrightarrow> is_aware b \<Longrightarrow> dt_less a b = Some (micros a < micros b)"
  by (cases a; cases b) simp_all

section \<open>Dictionaries\<close>

type_synonym ('k, 'v) dict = "('k \<times> 'v) list"

abbreviation dict_get :: "('k, 'v) dict \<Rightarrow> 'k \<Rightarrow> 'v option" where
  "dict_get d k \<equiv> map_of d k"

abbreviation dict_set :: "'k \<Rightarrow> 'v \<Rightarrow> ('k, 'v) dict \<Rightarrow> ('k, 'v) dict" where
  "dict_set k v d \<equiv> AList.update k v d"

abbreviation dict_del :: "'k \<Rightarrow> ('k, 'v) dict \<Rightarrow> ('k, 'v) dict" where
  "dict_del k d \<equiv> AList.delete k d"

text \<open>The shape of a Python dict: every key once.\<close>

definition dict_ok :: "('k, 'v) dict \<Rightarrow> bool" where
  "dict_ok d = distinct (map fst d)"

text \<open>\<open>for key in keys: del rows[key]\<close>\<close>

definition dict_del_all :: "'k list \<Rightarrow> ('k, 'v) dict \<Rightarrow> ('k, 'v) dict" where
  "dict_del_all ks d = fold (\<lambda>k acc. dict_del k acc) ks d"

lemma dict_get_set [dict_simps]: "dict_get (dict_set k v d) k' = (if k' = k then Some v else dict_get d k')"
  by (simp add: update_conv')

lemma dict_get_del [dict_simps]: "dict_get (dict_del k d) k' = (if k' = k then None else dict_get d k')"
  by (simp add: delete_conv')

lemma dict_get_set_map: "dict_get (dict_set k v d) = (dict_get d)(k \<mapsto> v)"
  by (simp add: fun_eq_iff dict_get_set)

lemma dict_get_del_map: "dict_get (dict_del k d) = (dict_get d)(k := None)"
  by (simp add: fun_eq_iff dict_get_del)

lemma dict_ok_Nil [simp, intro]: "dict_ok []"
  by (simp add: dict_ok_def)

lemma dict_ok_set [simp, intro]: "dict_ok d \<Longrightarrow> dict_ok (dict_set k v d)"
  by (simp add: dict_ok_def distinct_update)

lemma dict_ok_del [simp, intro]: "dict_ok d \<Longrightarrow> dict_ok (dict_del k d)"
  by (simp add: dict_ok_def distinct_delete)

lemma dict_ok_filter [simp, intro]: "dict_ok d \<Longrightarrow> dict_ok (filter P d)"
  by (simp add: dict_ok_def distinct_map_filter)

lemma dict_del_fst_notin: "k \<notin> fst ` set d \<Longrightarrow> dict_del k d = d"
  by (simp add: delete_idem)

lemma dict_del_all_get: "dict_get (dict_del_all ks d) k = (if k \<in> set ks then None else dict_get d k)"
  unfolding dict_del_all_def
  by (induction ks arbitrary: d) (auto simp: dict_simps)

lemma dict_ok_del_all [simp, intro]: "dict_ok d \<Longrightarrow> dict_ok (dict_del_all ks d)"
  unfolding dict_del_all_def
  by (induction ks arbitrary: d) auto

lemma dict_get_in_set: "dict_ok d \<Longrightarrow> dict_get d k = Some v \<longleftrightarrow> (k, v) \<in> set d"
  by (simp add: dict_ok_def)

text \<open>Deleting the keys collected by a comprehension keeps exactly the rows that fail its test.\<close>

lemma dict_purge_get:
  assumes "dict_ok d"
  shows "dict_get (dict_del_all (map fst (filter (\<lambda>(k, v). P k v) d)) d) k =
    (case dict_get d k of None \<Rightarrow> None | Some v \<Rightarrow> if P k v then None else Some v)"
proof (cases "dict_get d k")
  case None
  then show ?thesis by (simp add: dict_del_all_get)
next
  case (Some v)
  have "k \<in> set (map fst (filter (\<lambda>(k, v). P k v) d)) \<longleftrightarrow> P k v"
    using Some assms by (force simp: dict_get_in_set [symmetric])
  with Some show ?thesis by (simp add: dict_del_all_get)
qed

lemma dict_get_filter:
  assumes "dict_ok d"
  shows "dict_get (filter (\<lambda>(k, v). P k v) d) k =
    (case dict_get d k of None \<Rightarrow> None | Some v \<Rightarrow> if P k v then Some v else None)"
  using assms by (induction d) (auto simp: dict_ok_def split: option.splits dest: map_of_SomeD, force+)

lemma dict_get_map_val: "dict_get (map (\<lambda>(k, v). (k, f k v)) d) k = map_option (f k) (dict_get d k)"
  by (induction d) auto

lemma dict_ok_map_val [simp]: "dict_ok (map (\<lambda>(k, v). (k, f k v)) d) = dict_ok d"
  by (simp add: dict_ok_def comp_def case_prod_unfold)

text \<open>\<open>for key, row in list(rows.items()): if P(row): rows[key] = f(row)\<close>\<close>

definition dict_rewrite :: "('v \<Rightarrow> bool) \<Rightarrow> ('v \<Rightarrow> 'v) \<Rightarrow> ('k, 'v) dict \<Rightarrow> ('k, 'v) dict" where
  "dict_rewrite P f d = foldl (\<lambda>acc (k, r). if P r then dict_set k (f r) acc else acc) d d"

lemma dict_rewrite_aux:
  "distinct (map fst xs) \<Longrightarrow>
   dict_get (foldl (\<lambda>acc (k, r). if P r then dict_set k (f r) acc else acc) acc xs) k =
     (case dict_get xs k of
        None \<Rightarrow> dict_get acc k
      | Some r \<Rightarrow> if P r then Some (f r) else dict_get acc k)"
proof (induction xs arbitrary: acc)
  case Nil
  then show ?case by simp
next
  case (Cons kr xs)
  obtain k' r where kr: "kr = (k', r)" by (cases kr)
  with Cons.prems have "dict_get xs k' = None" by (auto simp: map_of_eq_None_iff)
  then show ?case
    using Cons by (auto simp: kr dict_simps split: option.splits)
qed

lemma dict_rewrite_get [dict_simps]:
  "dict_ok d \<Longrightarrow> dict_get (dict_rewrite P f d) k = map_option (\<lambda>r. if P r then f r else r) (dict_get d k)"
  by (simp add: dict_rewrite_def dict_ok_def dict_rewrite_aux split: option.splits)

lemma dict_ok_rewrite [simp, intro]:
  assumes "dict_ok d"
  shows "dict_ok (dict_rewrite P f d)"
proof -
  have "dict_ok acc \<Longrightarrow>
      dict_ok (foldl (\<lambda>acc (k, r). if P r then dict_set k (f r) acc else acc) acc xs)" for acc xs
    by (induction xs arbitrary: acc) auto
  with assms show ?thesis by (simp add: dict_rewrite_def)
qed

section \<open>Strings\<close>

definition code :: "char \<Rightarrow> nat" where
  "code c = (of_char c :: nat)"

text \<open>\<open>str.isspace\<close> and the characters \<open>str.strip\<close> removes, for U+0000 to U+00FF.\<close>

definition isspace :: "char \<Rightarrow> bool" where
  "isspace c = (let n = code c in
     (9 \<le> n \<and> n \<le> 13) \<or> (28 \<le> n \<and> n \<le> 32) \<or> n = 133 \<or> n = 160)"

definition lstrip :: "string \<Rightarrow> string" where
  "lstrip s = dropWhile isspace s"

definition strip :: "string \<Rightarrow> string" where
  "strip s = rev (lstrip (rev (lstrip s)))"

definition contains_char :: "char \<Rightarrow> string \<Rightarrow> bool" where
  "contains_char c s = (c \<in> set s)"

definition is_lower_hex :: "char \<Rightarrow> bool" where
  "is_lower_hex c = (c \<in> set ''0123456789abcdef'')"

text \<open>The shape of a sha256 hex digest, \<open>^[0-9a-f]{64}$\<close>.\<close>

definition hex64 :: "string \<Rightarrow> bool" where
  "hex64 s = (length s = 64 \<and> list_all is_lower_hex s)"

lemma lstrip_lstrip [simp]: "lstrip (lstrip s) = lstrip s"
  by (simp add: lstrip_def)

lemma lstrip_no_space: "list_all (\<lambda>c. \<not> isspace c) s \<Longrightarrow> lstrip s = s"
  by (cases s) (simp_all add: lstrip_def)

lemma strip_no_space: "list_all (\<lambda>c. \<not> isspace c) s \<Longrightarrow> strip s = s"
  by (simp add: strip_def lstrip_no_space)

lemma lstrip_subset: "set (lstrip s) \<subseteq> set s"
  by (auto simp: lstrip_def dest: set_dropWhileD)

lemma strip_subset: "set (strip s) \<subseteq> set s"
  using lstrip_subset [of "rev (lstrip s)"] lstrip_subset [of s] by (auto simp: strip_def)

text \<open>
  \<open>str.lower\<close> and \<open>str.upper\<close> for U+0000 to U+00FF.  U+00B5 and U+00FF have no upper case in
  that range and are kept; the code compares the results with ASCII literals only.
\<close>

definition to_lower :: "char \<Rightarrow> char" where
  "to_lower c = (let n = code c in
     if (65 \<le> n \<and> n \<le> 90) \<or> (192 \<le> n \<and> n \<le> 222 \<and> n \<noteq> 215) then char_of (n + 32) else c)"

fun starts_with :: "string \<Rightarrow> string \<Rightarrow> bool" where
  "starts_with _ [] = True"
| "starts_with [] (_ # _) = False"
| "starts_with (c # cs) (p # ps) = (c = p \<and> starts_with cs ps)"

fun contains :: "string \<Rightarrow> string \<Rightarrow> bool" where
  "contains [] p = (p = [])"
| "contains (c # cs) p = (starts_with (c # cs) p \<or> contains cs p)"

definition to_upper :: "char \<Rightarrow> string" where
  "to_upper c = (let n = code c in
     if (97 \<le> n \<and> n \<le> 122) \<or> (224 \<le> n \<and> n \<le> 254 \<and> n \<noteq> 247) then [char_of (n - 32)]
     else if n = 223 then ''SS'' else [c])"

definition upper :: "string \<Rightarrow> string" where
  "upper s = concat (map to_upper s)"

definition ends_with :: "string \<Rightarrow> string \<Rightarrow> bool" where
  "ends_with s p = starts_with (rev s) (rev p)"

text \<open>\<open>s.split(c, 1)[0]\<close>, and \<open>s.partition(c)\<close> with whether the separator was found.\<close>

definition split_head :: "char \<Rightarrow> string \<Rightarrow> string" where
  "split_head c s = takeWhile (\<lambda>x. x \<noteq> c) s"

definition partition_at :: "char \<Rightarrow> string \<Rightarrow> string \<times> bool \<times> string" where
  "partition_at c s = (takeWhile (\<lambda>x. x \<noteq> c) s, c \<in> set s, tl (dropWhile (\<lambda>x. x \<noteq> c) s))"

definition rstrip_char :: "char \<Rightarrow> string \<Rightarrow> string" where
  "rstrip_char c s = rev (dropWhile (\<lambda>x. x = c) (rev s))"

lemma rstrip_char_append: "rstrip_char c (p @ replicate n c) = rstrip_char c p"
proof -
  have "dropWhile (\<lambda>x. x = c) (replicate n c @ ys) = dropWhile (\<lambda>x. x = c) ys" for ys
    by (induction n) auto
  then show ?thesis by (simp add: rstrip_char_def)
qed

lemma split_head_append: "c \<notin> set p \<Longrightarrow> split_head c (p @ q) = p @ split_head c q"
  by (induction p) (auto simp: split_head_def)

lemma split_head_id: "c \<notin> set p \<Longrightarrow> split_head c p = p"
  by (induction p) (auto simp: split_head_def)

lemma split_head_simps: "split_head c (x # q) = (if x = c then [] else x # split_head c q)" "split_head c [] = []"
  by (simp_all add: split_head_def)

lemma starts_with_iff: "starts_with s p \<longleftrightarrow> (\<exists>r. s = p @ r)"
  by (induction s p rule: starts_with.induct) auto

lemma ends_with_iff: "ends_with s p \<longleftrightarrow> (\<exists>r. s = r @ p)"
  unfolding ends_with_def starts_with_iff by (metis rev_append rev_rev_ident)

lemma contains_iff: "contains s p \<longleftrightarrow> (\<exists>l r. s = l @ p @ r)"
proof (induction s)
  case Nil
  then show ?case by auto
next
  case (Cons c cs)
  have "(\<exists>l r. c # cs = l @ p @ r) \<longleftrightarrow> (\<exists>r. c # cs = p @ r) \<or> (\<exists>l r. cs = l @ p @ r)"
    by (metis append_Cons append_Nil list.exhaust list.inject)
  then show ?case using Cons by (simp add: starts_with_iff)
qed

text \<open>A string is stripped when it is empty or neither starts nor ends with a space.\<close>

lemma strip_iff: "strip s = s \<longleftrightarrow> s = [] \<or> (\<not> isspace (hd s) \<and> \<not> isspace (last s))"
proof
  assume eq: "strip s = s"
  show "s = [] \<or> (\<not> isspace (hd s) \<and> \<not> isspace (last s))"
  proof (cases "s = []")
    case False
    have "length (strip s) \<le> length (lstrip s)"
      using length_dropWhile_le [of isspace "rev (lstrip s)"] by (simp add: strip_def lstrip_def)
    then have "length s \<le> length (lstrip s)" using eq by simp
    then have l: "\<not> isspace (hd s)"
      using False by (cases s) (auto simp: lstrip_def dest: order_trans [OF _ length_dropWhile_le] split: if_splits)
    then have "lstrip s = s" by (cases s) (simp_all add: lstrip_def)
    then have "dropWhile isspace (rev s) = rev s"
      using eq unfolding strip_def lstrip_def by (metis rev_swap)
    then have "\<not> isspace (hd (rev s))"
      using False by (metis dropWhile_eq_Cons_conv hd_Cons_tl rev_is_Nil_conv)
    with l show ?thesis by (simp add: hd_rev)
  qed simp
next
  assume "s = [] \<or> (\<not> isspace (hd s) \<and> \<not> isspace (last s))"
  moreover have "strip s = s" if "s \<noteq> []" "\<not> isspace (hd s)" "\<not> isspace (last s)"
  proof -
    have "lstrip s = s" using that by (cases s) (simp_all add: lstrip_def)
    moreover have "lstrip (rev s) = rev s"
      using that by (cases s rule: rev_cases) (simp_all add: lstrip_def)
    ultimately show ?thesis by (simp add: strip_def)
  qed
  ultimately show "strip s = s" by (cases "s = []") (auto simp: strip_def lstrip_def)
qed

lemma strip_Nil [simp]: "strip [] = []"
  by (simp add: strip_def lstrip_def)

lemma strip_strip [simp]: "strip (strip s) = strip s"
proof (cases "strip s = []")
  case False
  define t where "t = lstrip s"
  have st: "strip s = rev (dropWhile isspace (rev t))" by (simp add: strip_def t_def lstrip_def)
  with False have "t \<noteq> []" by auto
  moreover from this have "\<not> isspace (hd t)" unfolding t_def lstrip_def by (rule hd_dropWhile)
  ultimately obtain c u where t: "t = c # u" "\<not> isspace c" by (cases t) auto
  then have "dropWhile isspace (rev t) = dropWhile isspace (rev u) @ [c]"
    by (simp add: dropWhile_append)
  then have "hd (strip s) = c" by (simp add: st)
  moreover have "\<not> isspace (last (strip s))"
    using False unfolding st last_rev by (intro hd_dropWhile) auto
  ultimately show ?thesis using t(2) by (simp add: strip_iff)
next
  case True
  then show ?thesis by simp
qed

lemma code_char_of [simp]: "code (char_of n) = n mod 256"
  by (simp add: code_def)

lemma code_less [simp]: "code c < 256"
  by (simp add: code_def)

lemma to_upper_shape:
  "to_upper c \<noteq> [] \<and> (\<forall>x\<in>set (to_upper c). to_upper x = [x] \<and> (\<not> isspace c \<longrightarrow> \<not> isspace x))"
proof -
  let ?n = "code c"
  consider (lower) "(97 \<le> ?n \<and> ?n \<le> 122) \<or> (224 \<le> ?n \<and> ?n \<le> 254 \<and> ?n \<noteq> 247)" | (sharp) "?n = 223"
    | (other) "\<not> ((97 \<le> ?n \<and> ?n \<le> 122) \<or> (224 \<le> ?n \<and> ?n \<le> 254 \<and> ?n \<noteq> 247))" "?n \<noteq> 223"
    by blast
  then show ?thesis
  proof cases
    case lower
    define x :: char where "x = char_of (?n - 32)"
    have c: "to_upper c = [x]" using lower by (simp add: to_upper_def x_def)
    have "?n - 32 < 256" using code_less [of c] by linarith
    then have "code x = ?n - 32" by (simp add: x_def)
    then have "to_upper x = [x] \<and> \<not> isspace x"
      using lower by (auto simp: to_upper_def isspace_def Let_def)
    then show ?thesis by (simp add: c)
  next
    case sharp
    have "to_upper (CHR ''S'') = ''S''" and "\<not> isspace (CHR ''S'')" by code_simp+
    with sharp show ?thesis by (simp add: to_upper_def)
  next
    case other
    then have "to_upper c = [c]" by (auto simp: to_upper_def Let_def)
    then show ?thesis by simp
  qed
qed

lemma upper_simps [simp]:
  "upper [] = []" "upper (c # s) = to_upper c @ upper s" "upper (s @ t) = upper s @ upper t"
  by (simp_all add: upper_def)

lemma upper_upper [simp]: "upper (upper s) = upper s"
proof -
  have "upper xs = xs" if "\<forall>x\<in>set xs. to_upper x = [x]" for xs
    using that by (induction xs) (auto simp: upper_def)
  moreover have "\<forall>x\<in>set (upper s). to_upper x = [x]"
    using to_upper_shape by (auto simp: upper_def)
  ultimately show ?thesis by blast
qed

lemma upper_stripped:
  assumes "strip s = s"
  shows "strip (upper s) = upper s"
proof (cases "s = []")
  case False
  then obtain c u where c: "s = c # u" by (cases s) auto
  obtain v d where d: "s = v @ [d]" using False by (cases s rule: rev_cases) auto
  have "\<not> isspace (hd s)" "\<not> isspace (last s)"
    using assms False by (simp_all add: strip_iff)
  moreover have "hd s = c" by (simp add: c)
  moreover have "last s = d" by (simp add: d)
  ultimately have "\<not> isspace c" "\<not> isspace d" by simp_all
  moreover have ne: "to_upper e \<noteq> []" for e using to_upper_shape by blast
  moreover have "\<not> isspace x" if "x \<in> set (to_upper e)" "\<not> isspace e" for x e
    using to_upper_shape that by blast
  ultimately have "\<not> isspace (hd (to_upper c))" "\<not> isspace (last (to_upper d))"
    by (metis hd_in_set, metis last_in_set)
  moreover have "hd (upper s) = hd (to_upper c)" by (simp add: c ne)
  moreover have "last (upper s) = last (to_upper d)" by (simp add: d ne)
  ultimately show ?thesis by (simp add: strip_iff)
qed simp

lemma partition_at_first: "c \<notin> set p \<Longrightarrow> partition_at c (p @ c # q) = (p, True, q)"
  by (induction p) (auto simp: partition_at_def)

section \<open>Lists without repetition\<close>

text \<open>The seen-set loop that keeps first occurrences, and \<open>dict.fromkeys\<close>.\<close>

fun dedupe_from :: "'a list \<Rightarrow> 'a list \<Rightarrow> 'a list" where
  "dedupe_from seen [] = []"
| "dedupe_from seen (x # xs) =
     (if x \<in> set seen then dedupe_from seen xs else x # dedupe_from (x # seen) xs)"

definition dedupe :: "'a list \<Rightarrow> 'a list" where
  "dedupe xs = dedupe_from [] xs"

lemma dedupe_from_set: "set (dedupe_from seen xs) = set xs - set seen"
  by (induction seen xs rule: dedupe_from.induct) auto

lemma dedupe_set [simp]: "set (dedupe xs) = set xs"
  by (simp add: dedupe_def dedupe_from_set)

lemma dedupe_empty [simp]: "dedupe xs = [] \<longleftrightarrow> xs = []"
  using dedupe_set [of xs] by (metis set_empty)

lemma dedupe_from_distinct: "distinct (dedupe_from seen xs)"
  by (induction seen xs rule: dedupe_from.induct) (auto simp: dedupe_from_set)

lemma dedupe_distinct [simp]: "distinct (dedupe xs)"
  by (simp add: dedupe_def dedupe_from_distinct)

lemma hd_dedupe [simp]: "hd (dedupe (x # xs)) = x"
  by (simp add: dedupe_def)

end
