(* ===== verification/Countries.thy ===== *)
theory Countries
  imports Prelude
begin

text \<open>
  app/core/countries.py: the ISO 3166-1 table and the normalisation of country codes that the
  reliability, certification and authorization records use for their market.
\<close>

definition ISO_3166_1_ALPHA2 :: "(string \<times> string) list" where
  "ISO_3166_1_ALPHA2 = [
    (''AF'', ''Afghanistan''), (''AX'', [CHR 0xC5] @ ''land Islands''), (''AL'', ''Albania''),
    (''DZ'', ''Algeria''), (''AS'', ''American Samoa''), (''AD'', ''Andorra''), (''AO'', ''Angola''),
    (''AI'', ''Anguilla''), (''AQ'', ''Antarctica''), (''AG'', ''Antigua and Barbuda''),
    (''AR'', ''Argentina''), (''AM'', ''Armenia''), (''AW'', ''Aruba''), (''AU'', ''Australia''),
    (''AT'', ''Austria''), (''AZ'', ''Azerbaijan''), (''BS'', ''Bahamas''), (''BH'', ''Bahrain''),
    (''BD'', ''Bangladesh''), (''BB'', ''Barbados''), (''BY'', ''Belarus''), (''BE'', ''Belgium''),
    (''BZ'', ''Belize''), (''BJ'', ''Benin''), (''BM'', ''Bermuda''), (''BT'', ''Bhutan''),
    (''BO'', ''Bolivia''), (''BQ'', ''Bonaire, Sint Eustatius and Saba''),
    (''BA'', ''Bosnia and Herzegovina''), (''BW'', ''Botswana''), (''BV'', ''Bouvet Island''),
    (''BR'', ''Brazil''), (''IO'', ''British Indian Ocean Territory''), (''BN'', ''Brunei Darussalam''),
    (''BG'', ''Bulgaria''), (''BF'', ''Burkina Faso''), (''BI'', ''Burundi''), (''CV'', ''Cabo Verde''),
    (''KH'', ''Cambodia''), (''CM'', ''Cameroon''), (''CA'', ''Canada''), (''KY'', ''Cayman Islands''),
    (''CF'', ''Central African Republic''), (''TD'', ''Chad''), (''CL'', ''Chile''), (''CN'', ''China''),
    (''CX'', ''Christmas Island''), (''CC'', ''Cocos (Keeling) Islands''), (''CO'', ''Colombia''),
    (''KM'', ''Comoros''), (''CG'', ''Congo''), (''CD'', ''Congo, Democratic Republic of the''),
    (''CK'', ''Cook Islands''), (''CR'', ''Costa Rica''),
    (''CI'', ''C'' @ [CHR 0xF4] @ ''te d'' @ [CHR 0x27] @ ''Ivoire''), (''HR'', ''Croatia''),
    (''CU'', ''Cuba''), (''CW'', ''Cura'' @ [CHR 0xE7] @ ''ao''), (''CY'', ''Cyprus''),
    (''CZ'', ''Czechia''), (''DK'', ''Denmark''), (''DJ'', ''Djibouti''), (''DM'', ''Dominica''),
    (''DO'', ''Dominican Republic''), (''EC'', ''Ecuador''), (''EG'', ''Egypt''),
    (''SV'', ''El Salvador''), (''GQ'', ''Equatorial Guinea''), (''ER'', ''Eritrea''),
    (''EE'', ''Estonia''), (''SZ'', ''Eswatini''), (''ET'', ''Ethiopia''),
    (''FK'', ''Falkland Islands''), (''FO'', ''Faroe Islands''), (''FJ'', ''Fiji''),
    (''FI'', ''Finland''), (''FR'', ''France''), (''GF'', ''French Guiana''),
    (''PF'', ''French Polynesia''), (''TF'', ''French Southern Territories''), (''GA'', ''Gabon''),
    (''GM'', ''Gambia''), (''GE'', ''Georgia''), (''DE'', ''Germany''), (''GH'', ''Ghana''),
    (''GI'', ''Gibraltar''), (''GR'', ''Greece''), (''GL'', ''Greenland''), (''GD'', ''Grenada''),
    (''GP'', ''Guadeloupe''), (''GU'', ''Guam''), (''GT'', ''Guatemala''), (''GG'', ''Guernsey''),
    (''GN'', ''Guinea''), (''GW'', ''Guinea-Bissau''), (''GY'', ''Guyana''), (''HT'', ''Haiti''),
    (''HM'', ''Heard Island and McDonald Islands''), (''VA'', ''Holy See''), (''HN'', ''Honduras''),
    (''HK'', ''Hong Kong''), (''HU'', ''Hungary''), (''IS'', ''Iceland''), (''IN'', ''India''),
    (''ID'', ''Indonesia''), (''IR'', ''Iran''), (''IQ'', ''Iraq''), (''IE'', ''Ireland''),
    (''IM'', ''Isle of Man''), (''IL'', ''Israel''), (''IT'', ''Italy''), (''JM'', ''Jamaica''),
    (''JP'', ''Japan''), (''JE'', ''Jersey''), (''JO'', ''Jordan''), (''KZ'', ''Kazakhstan''),
    (''KE'', ''Kenya''), (''KI'', ''Kiribati''),
    (''KP'', ''Korea, Democratic People'' @ [CHR 0x27] @ ''s Republic of''),
    (''KR'', ''Korea, Republic of''), (''KW'', ''Kuwait''), (''KG'', ''Kyrgyzstan''),
    (''LA'', ''Lao People'' @ [CHR 0x27] @ ''s Democratic Republic''), (''LV'', ''Latvia''),
    (''LB'', ''Lebanon''), (''LS'', ''Lesotho''), (''LR'', ''Liberia''), (''LY'', ''Libya''),
    (''LI'', ''Liechtenstein''), (''LT'', ''Lithuania''), (''LU'', ''Luxembourg''), (''MO'', ''Macao''),
    (''MG'', ''Madagascar''), (''MW'', ''Malawi''), (''MY'', ''Malaysia''), (''MV'', ''Maldives''),
    (''ML'', ''Mali''), (''MT'', ''Malta''), (''MH'', ''Marshall Islands''), (''MQ'', ''Martinique''),
    (''MR'', ''Mauritania''), (''MU'', ''Mauritius''), (''YT'', ''Mayotte''), (''MX'', ''Mexico''),
    (''FM'', ''Micronesia''), (''MD'', ''Moldova''), (''MC'', ''Monaco''), (''MN'', ''Mongolia''),
    (''ME'', ''Montenegro''), (''MS'', ''Montserrat''), (''MA'', ''Morocco''), (''MZ'', ''Mozambique''),
    (''MM'', ''Myanmar''), (''NA'', ''Namibia''), (''NR'', ''Nauru''), (''NP'', ''Nepal''),
    (''NL'', ''Netherlands''), (''NC'', ''New Caledonia''), (''NZ'', ''New Zealand''),
    (''NI'', ''Nicaragua''), (''NE'', ''Niger''), (''NG'', ''Nigeria''), (''NU'', ''Niue''),
    (''NF'', ''Norfolk Island''), (''MK'', ''North Macedonia''), (''MP'', ''Northern Mariana Islands''),
    (''NO'', ''Norway''), (''OM'', ''Oman''), (''PK'', ''Pakistan''), (''PW'', ''Palau''),
    (''PS'', ''Palestine, State of''), (''PA'', ''Panama''), (''PG'', ''Papua New Guinea''),
    (''PY'', ''Paraguay''), (''PE'', ''Peru''), (''PH'', ''Philippines''), (''PN'', ''Pitcairn''),
    (''PL'', ''Poland''), (''PT'', ''Portugal''), (''PR'', ''Puerto Rico''), (''QA'', ''Qatar''),
    (''RE'', ''R'' @ [CHR 0xE9] @ ''union''), (''RO'', ''Romania''), (''RU'', ''Russian Federation''),
    (''RW'', ''Rwanda''), (''BL'', ''Saint Barth'' @ [CHR 0xE9] @ ''lemy''),
    (''SH'', ''Saint Helena, Ascension and Tristan da Cunha''), (''KN'', ''Saint Kitts and Nevis''),
    (''LC'', ''Saint Lucia''), (''MF'', ''Saint Martin (French part)''),
    (''PM'', ''Saint Pierre and Miquelon''), (''VC'', ''Saint Vincent and the Grenadines''),
    (''WS'', ''Samoa''), (''SM'', ''San Marino''), (''ST'', ''Sao Tome and Principe''),
    (''SA'', ''Saudi Arabia''), (''SN'', ''Senegal''), (''RS'', ''Serbia''), (''SC'', ''Seychelles''),
    (''SL'', ''Sierra Leone''), (''SG'', ''Singapore''), (''SX'', ''Sint Maarten (Dutch part)''),
    (''SK'', ''Slovakia''), (''SI'', ''Slovenia''), (''SB'', ''Solomon Islands''), (''SO'', ''Somalia''),
    (''ZA'', ''South Africa''), (''GS'', ''South Georgia and the South Sandwich Islands''),
    (''SS'', ''South Sudan''), (''ES'', ''Spain''), (''LK'', ''Sri Lanka''), (''SD'', ''Sudan''),
    (''SR'', ''Suriname''), (''SJ'', ''Svalbard and Jan Mayen''), (''SE'', ''Sweden''),
    (''CH'', ''Switzerland''), (''SY'', ''Syrian Arab Republic''), (''TW'', ''Taiwan''),
    (''TJ'', ''Tajikistan''), (''TZ'', ''Tanzania''), (''TH'', ''Thailand''), (''TL'', ''Timor-Leste''),
    (''TG'', ''Togo''), (''TK'', ''Tokelau''), (''TO'', ''Tonga''), (''TT'', ''Trinidad and Tobago''),
    (''TN'', ''Tunisia''), (''TR'', ''T'' @ [CHR 0xFC] @ ''rkiye''), (''TM'', ''Turkmenistan''),
    (''TC'', ''Turks and Caicos Islands''), (''TV'', ''Tuvalu''), (''UG'', ''Uganda''),
    (''UA'', ''Ukraine''), (''AE'', ''United Arab Emirates''), (''GB'', ''United Kingdom''),
    (''US'', ''United States''), (''UM'', ''United States Minor Outlying Islands''),
    (''UY'', ''Uruguay''), (''UZ'', ''Uzbekistan''), (''VU'', ''Vanuatu''), (''VE'', ''Venezuela''),
    (''VN'', ''Viet Nam''), (''VG'', ''Virgin Islands (British)''), (''VI'', ''Virgin Islands (U.S.)''),
    (''WF'', ''Wallis and Futuna''), (''EH'', ''Western Sahara''), (''YE'', ''Yemen''),
    (''ZM'', ''Zambia''), (''ZW'', ''Zimbabwe'')]"

definition country_codes :: "string list" where
  "country_codes = map fst ISO_3166_1_ALPHA2"

definition normalize_country_code :: "string option \<Rightarrow> string option" where
  "normalize_country_code v =
     (case v of None \<Rightarrow> None
      | Some s \<Rightarrow> (let cleaned = upper (strip s) in if cleaned = [] then None else Some cleaned))"

definition is_valid_country_code :: "string option \<Rightarrow> bool" where
  "is_valid_country_code v =
     (case normalize_country_code v of None \<Rightarrow> False | Some c \<Rightarrow> c \<in> set country_codes)"

text \<open>\<open>country_name\<close>: \<open>None\<close> is the KeyError.\<close>

definition country_name :: "string \<Rightarrow> string option" where
  "country_name c = map_of ISO_3166_1_ALPHA2 (upper (strip c))"

lemma country_codes_shape:
  "list_all (\<lambda>c. length c = 2 \<and> list_all (\<lambda>x. 65 \<le> code x \<and> code x \<le> 90) c) country_codes"
  by code_simp

lemma upper_id: "list_all (\<lambda>x. 65 \<le> code x \<and> code x \<le> 90) c \<Longrightarrow> upper c = c"
  by (induction c) (auto simp: upper_def to_upper_def Let_def)

lemma normalize_of_code:
  assumes "c \<in> set country_codes"
  shows "normalize_country_code (Some c) = Some c"
proof -
  have "length c = 2 \<and> list_all (\<lambda>x. 65 \<le> code x \<and> code x \<le> 90) c"
    using assms country_codes_shape by (auto simp: list_all_iff)
  then have "upper c = c" and "strip c = c" and "c \<noteq> []"
    by (auto intro!: upper_id strip_no_space) (force simp: list_all_iff isspace_def Let_def)
  then show ?thesis by (simp add: normalize_country_code_def)
qed

text \<open>Normalising a valid code again changes nothing.\<close>

lemma normalize_valid:
  assumes "is_valid_country_code v" and "normalize_country_code v = Some c"
  shows "c \<in> set country_codes" and "normalize_country_code (Some c) = Some c"
    and "is_valid_country_code (Some c)"
  using assms normalize_of_code [of c] by (auto simp: is_valid_country_code_def)

lemma normalize_twice:
  assumes "normalize_country_code v = Some c"
  shows "normalize_country_code (Some c) = Some c"
proof -
  obtain m where "c = upper (strip m)" and "c \<noteq> []"
    using assms by (auto simp: normalize_country_code_def Let_def split: option.splits if_splits)
  then show ?thesis
    by (simp add: normalize_country_code_def upper_stripped)
qed

lemma normalized_code:
  "normalize_country_code v = Some c \<Longrightarrow> is_valid_country_code (Some c) \<Longrightarrow> c \<in> set country_codes"
  using normalize_twice [of v c] by (simp add: is_valid_country_code_def)

lemma valid_of_code: "c \<in> set country_codes \<Longrightarrow> is_valid_country_code (Some c)"
  by (simp add: is_valid_country_code_def normalize_of_code)

lemma country_code_no_bar: "c \<in> set country_codes \<Longrightarrow> CHR ''|'' \<notin> set c"
  using country_codes_shape by (fastforce simp: list_all_iff code_def)

lemma valid_example: "''PH'' \<in> set country_codes"
  by code_simp

text \<open>
  an accepted country code is canonical.  Whatever spelling was accepted, its normal form is one
  of the ISO codes, has two characters A to Z, and is its own normal form.
\<close>

theorem accepted_country_canonical:
  assumes "is_valid_country_code v"
  shows "\<exists>c. normalize_country_code v = Some c \<and> c \<in> set country_codes \<and> length c = 2 \<and>
    list_all (\<lambda>x. 65 \<le> code x \<and> code x \<le> 90) c \<and> normalize_country_code (Some c) = Some c \<and>
    is_valid_country_code (Some c)"
proof -
  obtain c where c: "normalize_country_code v = Some c" "c \<in> set country_codes"
    using assms by (auto simp: is_valid_country_code_def split: option.splits)
  moreover have "length c = 2 \<and> list_all (\<lambda>x. 65 \<le> code x \<and> code x \<le> 90) c"
    using c(2) country_codes_shape by (auto simp: list_all_iff)
  ultimately show ?thesis using normalize_of_code valid_of_code by blast
qed

theorem accepted_country_canonical_witness: "normalize_country_code (Some '' ph '') = Some ''PH''"
proof -
  have "is_valid_country_code (Some '' ph '')" by code_simp
  from accepted_country_canonical [OF this] have "normalize_country_code (Some '' ph '') \<noteq> None" by auto
  moreover have "upper (strip '' ph '') = ''PH''" by code_simp
  ultimately show ?thesis by (simp add: normalize_country_code_def)
qed

text \<open>
  the one-character spelling U+00DF is accepted as a country: its upper case is the two letters
  of South Sudan.
\<close>

theorem sharp_s_is_a_country:
  "is_valid_country_code (Some [CHR 0xDF]) \<and> normalize_country_code (Some [CHR 0xDF]) = Some ''SS'' \<and>
   country_name [CHR 0xDF] = Some ''South Sudan''"
  by (intro conjI; code_simp)

end
