(* ===== verification/Digest.thy ===== *)
theory Digest
  imports Prelude "HOL-Library.Word" "HOL-Library.List_Lexorder" "HOL-Library.Char_ord"
begin

text \<open>
  The hashing the ledgers and the research services use: \<open>hashlib.sha256(b).hexdigest()\<close>
  (FIPS 180-4, on 32-bit words), \<open>str.encode("utf-8")\<close> for the code points U+0000 to U+00FF,
  the canonical form of \<open>json.dumps\<close> (sorted keys, no blanks, no ASCII escaping) and
  app/research/digest.py on top of them.  Nothing here assumes the hash to be injective: the
  properties compare digests, and the only fact they need of a digest is its shape.
\<close>

unbundle bit_operations_syntax

section \<open>SHA-256\<close>

type_synonym w32 = "32 word"

definition sha256_k :: "w32 list" where
  "sha256_k = [
    1116352408, 1899447441, 3049323471, 3921009573, 961987163, 1508970993,
    2453635748, 2870763221, 3624381080, 310598401, 607225278, 1426881987,
    1925078388, 2162078206, 2614888103, 3248222580, 3835390401, 4022224774,
    264347078, 604807628, 770255983, 1249150122, 1555081692, 1996064986,
    2554220882, 2821834349, 2952996808, 3210313671, 3336571891, 3584528711,
    113926993, 338241895, 666307205, 773529912, 1294757372, 1396182291,
    1695183700, 1986661051, 2177026350, 2456956037, 2730485921, 2820302411,
    3259730800, 3345764771, 3516065817, 3600352804, 4094571909, 275423344,
    430227734, 506948616, 659060556, 883997877, 958139571, 1322822218,
    1537002063, 1747873779, 1955562222, 2024104815, 2227730452, 2361852424,
    2428436474, 2756734187, 3204031479, 3329325298]"

type_synonym sha_state = "w32 \<times> w32 \<times> w32 \<times> w32 \<times> w32 \<times> w32 \<times> w32 \<times> w32"

definition sha256_init :: sha_state where
  "sha256_init = (1779033703, 3144134277, 1013904242, 2773480762, 1359893119, 2600822924, 528734635, 1541459225)"

definition rotr :: "nat \<Rightarrow> w32 \<Rightarrow> w32" where
  "rotr n x = (drop_bit n x) OR (push_bit (32 - n) x)"

definition be_word :: "nat list \<Rightarrow> w32" where
  "be_word bs = foldl (\<lambda>w b. w * 256 + of_nat b) 0 bs"

fun be_words :: "nat list \<Rightarrow> w32 list" where
  "be_words (a # b # c # d # rest) = be_word [a, b, c, d] # be_words rest"
| "be_words _ = []"

text \<open>The schedule is kept newest first, so that the words 2, 7, 15 and 16 back are at 1, 6, 14, 15.\<close>

fun extend_schedule :: "nat \<Rightarrow> w32 list \<Rightarrow> w32 list" where
  "extend_schedule 0 ws = ws"
| "extend_schedule (Suc n) ws =
     (let x = ws ! 14; y = ws ! 1;
          s0 = rotr 7 x XOR rotr 18 x XOR drop_bit 3 x;
          s1 = rotr 17 y XOR rotr 19 y XOR drop_bit 10 y
      in extend_schedule n ((ws ! 15 + s0 + ws ! 6 + s1) # ws))"

fun sha256_round :: "sha_state \<Rightarrow> w32 \<times> w32 \<Rightarrow> sha_state" where
  "sha256_round (a, b, c, d, e, f, g, h) (k, w) =
     (let s1 = rotr 6 e XOR rotr 11 e XOR rotr 25 e;
          ch = (e AND f) XOR (NOT e AND g);
          t1 = h + s1 + ch + k + w;
          s0 = rotr 2 a XOR rotr 13 a XOR rotr 22 a;
          mj = (a AND b) XOR (a AND c) XOR (b AND c)
      in (t1 + (s0 + mj), a, b, c, d + t1, e, f, g))"

fun sha_add :: "sha_state \<Rightarrow> sha_state \<Rightarrow> sha_state" where
  "sha_add (a, b, c, d, e, f, g, h) (a', b', c', d', e', f', g', h') =
     (a + a', b + b', c + c', d + d', e + e', f + f', g + g', h + h')"

definition sha256_block :: "sha_state \<Rightarrow> nat list \<Rightarrow> sha_state" where
  "sha256_block st block =
     (let ws = rev (extend_schedule 48 (rev (be_words block)))
      in sha_add st (foldl sha256_round st (zip sha256_k ws)))"

fun be_bytes :: "nat \<Rightarrow> nat \<Rightarrow> nat list" where
  "be_bytes 0 n = []"
| "be_bytes (Suc k) n = be_bytes k (n div 256) @ [n mod 256]"

definition sha256_pad :: "nat list \<Rightarrow> nat list" where
  "sha256_pad m =
     m @ [128] @ replicate ((119 - length m mod 64) mod 64) 0 @ be_bytes 8 (8 * length m)"

fun sha256_blocks :: "nat \<Rightarrow> sha_state \<Rightarrow> nat list \<Rightarrow> sha_state" where
  "sha256_blocks 0 st m = st"
| "sha256_blocks (Suc n) st m = sha256_blocks n (sha256_block st (take 64 m)) (drop 64 m)"

definition hex_digit :: "nat \<Rightarrow> char" where
  "hex_digit n = ''0123456789abcdef'' ! (n mod 16)"

definition hex_word :: "w32 \<Rightarrow> string" where
  "hex_word w = map (\<lambda>i. hex_digit (unat (drop_bit (28 - 4 * i) w))) [0..<8]"

fun sha_hex :: "sha_state \<Rightarrow> string" where
  "sha_hex (a, b, c, d, e, f, g, h) =
     hex_word a @ hex_word b @ hex_word c @ hex_word d @
     hex_word e @ hex_word f @ hex_word g @ hex_word h"

definition sha256_hex :: "nat list \<Rightarrow> string" where
  "sha256_hex m =
     (let p = sha256_pad m in sha_hex (sha256_blocks (length p div 64) sha256_init p))"

lemma hex_digit_lower_hex: "is_lower_hex (hex_digit n)"
proof -
  have "hex_digit n \<in> set ''0123456789abcdef''"
    unfolding hex_digit_def by (rule nth_mem) simp
  then show ?thesis by (simp add: is_lower_hex_def)
qed

lemma hex_word_shape: "length (hex_word w) = 8 \<and> list_all is_lower_hex (hex_word w)"
  by (simp add: hex_word_def list_all_iff hex_digit_lower_hex)

lemma sha_hex_shape: "hex64 (sha_hex st)"
  by (cases st rule: sha_hex.cases) (simp add: hex64_def hex_word_shape)

text \<open>Every digest is 64 lower-case hexadecimal characters.\<close>

lemma sha256_hex64 [simp]: "hex64 (sha256_hex m)"
  by (simp add: sha256_hex_def Let_def sha_hex_shape)

section \<open>UTF-8 and canonical JSON\<close>

definition utf8_char :: "char \<Rightarrow> nat list" where
  "utf8_char c = (let n = code c in if n < 128 then [n] else [192 + n div 64, 128 + n mod 64])"

definition utf8 :: "string \<Rightarrow> nat list" where
  "utf8 s = concat (map utf8_char s)"

text \<open>\<open>JWhole\<close> is a float without a fractional part, printed \<open>5.0\<close>.\<close>

datatype json =
    JNull
  | JBool bool
  | JInt int
  | JWhole int
  | JStr string
  | JArr "json list"
  | JObj "(string \<times> json) list"

fun nat_digits :: "nat \<Rightarrow> string" where
  "nat_digits n = (if n < 10 then [char_of (48 + n)] else nat_digits (n div 10) @ [char_of (48 + n mod 10)])"

declare nat_digits.simps [simp del]

definition int_text :: "int \<Rightarrow> string" where
  "int_text i = (if i < 0 then CHR ''-'' # nat_digits (nat (- i)) else nat_digits (nat i))"

text \<open>The escapes of \<open>json.dumps(..., ensure_ascii=False)\<close>.\<close>

definition json_escape :: "char \<Rightarrow> string" where
  "json_escape c =
     (let n = code c; bs = char_of (92 :: nat) in
      if n = 34 then [bs, c] else if n = 92 then [bs, bs]
      else if n = 10 then bs # ''n'' else if n = 13 then bs # ''r'' else if n = 9 then bs # ''t''
      else if n = 8 then bs # ''b'' else if n = 12 then bs # ''f''
      else if n < 32 then bs # ''u00'' @ [hex_digit (n div 16), hex_digit n]
      else [c])"

definition json_string :: "string \<Rightarrow> string" where
  "json_string s = CHR 0x22 # concat (map json_escape s) @ [CHR 0x22]"

definition comma_join :: "string list \<Rightarrow> string" where
  "comma_join xs = concat (case xs of [] \<Rightarrow> [] | y # ys \<Rightarrow> y # map (\<lambda>z. CHR '','' # z) ys)"

fun json_dumps :: "json \<Rightarrow> string" where
  "json_dumps JNull = ''null''"
| "json_dumps (JBool b) = (if b then ''true'' else ''false'')"
| "json_dumps (JInt i) = int_text i"
| "json_dumps (JWhole i) = int_text i @ ''.0''"
| "json_dumps (JStr s) = json_string s"
| "json_dumps (JArr xs) = ''['' @ comma_join (map json_dumps xs) @ '']''"
| "json_dumps (JObj kvs) =
     ''{'' @ comma_join (map snd (sort_key fst (map (\<lambda>(k, v). (k, json_string k @ '':'' @ json_dumps v)) kvs)))
       @ ''}''"

section \<open>app/research/digest.py\<close>

definition stable_sha256 :: "json \<Rightarrow> string" where
  "stable_sha256 v = sha256_hex (utf8 (json_dumps v))"

lemma stable_sha256_hex64 [simp]: "hex64 (stable_sha256 v)"
  by (simp add: stable_sha256_def)

lemma hex64_nonempty: "hex64 s \<Longrightarrow> s \<noteq> []"
  by (auto simp: hex64_def)

lemma stable_sha256_length [simp]: "length (stable_sha256 v) = 64"
  using stable_sha256_hex64 [of v] by (simp add: hex64_def)

lemma stable_sha256_nonempty [simp]: "stable_sha256 v \<noteq> []"
  using stable_sha256_length [of v] by (metis length_0_conv zero_neq_numeral)

end
