(* ===== verification/Reliability.thy ===== *)
theory Reliability
  imports Countries Digest
begin

text \<open>
  app/domain/entities/connector_reliability.py (the enums and the kill switch) and
  app/research/reliability_state.py: the circuit breaker of one provider and market, with the
  validation of its constructor, its transitions, the execution gate, the half-open probe lease
  and the health row.  A transition returns \<open>Inl\<close> where the source raises; \<open>replace\<close> runs the
  constructor's checks again, which here is \<open>check_state\<close>.  Not modelled:
  \<open>production_research_provider_health\<close>, which reads the provider registry.
\<close>

section \<open>Kinds and states\<close>

datatype failure_kind =
  TIMEOUT | QUOTA | RATE_LIMIT | CREDENTIAL | PARTIAL | UNAVAILABLE | KILL_SWITCH | CIRCUIT_OPEN | UNKNOWN

datatype breaker = CLOSED | OPEN | HALF_OPEN

datatype operational_status = AVAILABLE | DISABLED | OPUNAVAILABLE

record kill_switch =
  engaged :: bool
  kill_reason :: "string option"

datatype rel_error = RelValueError | RelTypeError | HalfOpenProbeAlreadyClaimed

definition failure_affects_breaker :: "failure_kind \<Rightarrow> bool" where
  "failure_affects_breaker k = (k \<in> {TIMEOUT, UNAVAILABLE, UNKNOWN})"

definition reliability_record_key :: "string \<Rightarrow> string \<Rightarrow> rel_error + string" where
  "reliability_record_key provider_id market =
     (let provider = strip provider_id in
      if provider = [] \<or> contains_char (CHR ''|'') provider then Inl RelValueError
      else
        (case normalize_country_code (Some market) of
           None \<Rightarrow> Inl RelValueError
         | Some c \<Rightarrow> if is_valid_country_code (Some c) then Inr (provider @ ''|'' @ c)
                     else Inl RelValueError))"

record breaker_policy =
  failure_threshold :: int
  recovery_window_ms :: int

definition check_breaker_policy :: "breaker_policy \<Rightarrow> rel_error + breaker_policy" where
  "check_breaker_policy p =
     (if failure_threshold p < 1 then Inl RelValueError
      else if recovery_window_ms p < 1 then Inl RelValueError
      else Inr p)"

definition default_breaker_policy :: breaker_policy where
  "default_breaker_policy = \<lparr>failure_threshold = 3, recovery_window_ms = 30000\<rparr>"

section \<open>ProviderReliabilityState\<close>

record provider_state =
  ps_provider_id :: string
  ps_market :: string
  ps_updated_at :: datetime
  ps_state :: breaker
  failures :: int
  last_failure_category :: "failure_kind option"
  opened_at :: "datetime option"
  last_attempt_at :: "datetime option"
  last_success_at :: "datetime option"
  reopen_at :: "datetime option"
  ps_revision :: int
  probe_digest :: "string option"
  probe_claimed_at :: "datetime option"
  probe_expires_at :: "datetime option"

definition require_aware :: "datetime \<Rightarrow> rel_error + unit" where
  "require_aware d = (if is_aware d then Inr () else Inl RelValueError)"

definition require_aware_option :: "datetime option \<Rightarrow> rel_error + unit" where
  "require_aware_option d = (case d of None \<Rightarrow> Inr () | Some t \<Rightarrow> require_aware t)"

definition require_digest :: "string \<Rightarrow> rel_error + unit" where
  "require_digest s = (if length s \<noteq> 64 \<or> list_ex (\<lambda>c. \<not> is_lower_hex c) s then Inl RelValueError else Inr ())"

definition validate_probe_lease :: "provider_state \<Rightarrow> rel_error + unit" where
  "validate_probe_lease s =
     (let present = probe_digest s \<noteq> None \<or> probe_claimed_at s \<noteq> None \<or> probe_expires_at s \<noteq> None in
      if ps_state s \<noteq> HALF_OPEN then (if present then Inl RelValueError else Inr ())
      else if \<not> present then Inr ()
      else
        (case (probe_digest s, probe_claimed_at s, probe_expires_at s) of
           (Some digest, Some claimed, Some expires) \<Rightarrow>
             if digest = [] then Inl RelValueError
             else and_then (require_digest digest) (\<lambda>_.
               case dt_less claimed expires of
                 None \<Rightarrow> Inl RelTypeError
               | Some ok \<Rightarrow> if ok then Inr () else Inl RelValueError)
         | _ \<Rightarrow> Inl RelValueError))"

text \<open>\<open>__post_init__\<close>: the checked state, with its provider and market normalised.\<close>

definition check_state :: "provider_state \<Rightarrow> rel_error + provider_state" where
  "check_state s0 =
     and_then (require_aware (ps_updated_at s0)) (\<lambda>_.
     and_then (reliability_record_key (ps_provider_id s0) (ps_market s0)) (\<lambda>key.
     let (provider, _, market) = partition_at (CHR ''|'') key;
         s = s0\<lparr>ps_provider_id := provider, ps_market := market\<rparr> in
     if failures s < 0 \<or> ps_revision s < 0 then Inl RelValueError else
     and_then (require_aware_option (opened_at s)) (\<lambda>_.
     and_then (require_aware_option (last_attempt_at s)) (\<lambda>_.
     and_then (require_aware_option (last_success_at s)) (\<lambda>_.
     and_then (require_aware_option (reopen_at s)) (\<lambda>_.
     and_then (require_aware_option (probe_claimed_at s)) (\<lambda>_.
     and_then (require_aware_option (probe_expires_at s)) (\<lambda>_.
     and_then (validate_probe_lease s) (\<lambda>_.
     case ps_state s of
       OPEN \<Rightarrow>
         if opened_at s = None \<or> reopen_at s = None then Inl RelValueError
         else if failures s < 1 then Inl RelValueError
         else Inr s
     | CLOSED \<Rightarrow>
         if opened_at s \<noteq> None \<or> reopen_at s \<noteq> None then Inl RelValueError else Inr s
     | HALF_OPEN \<Rightarrow> Inr s)))))))))"

definition closed_reliability_state :: "string \<Rightarrow> string \<Rightarrow> datetime \<Rightarrow> rel_error + provider_state" where
  "closed_reliability_state provider_id market now = check_state
     \<lparr>ps_provider_id = provider_id, ps_market = market, ps_updated_at = now, ps_state = CLOSED,
      failures = 0, last_failure_category = None, opened_at = None, last_attempt_at = None,
      last_success_at = None, reopen_at = None, ps_revision = 0, probe_digest = None,
      probe_claimed_at = None, probe_expires_at = None\<rparr>"

text \<open>\<open>_NO_PROBE_LEASE\<close>\<close>

definition no_probe_lease :: "provider_state \<Rightarrow> provider_state" where
  "no_probe_lease s = s\<lparr>probe_digest := None, probe_claimed_at := None, probe_expires_at := None\<rparr>"

section \<open>Transitions\<close>

definition advance_recovery :: "provider_state \<Rightarrow> datetime \<Rightarrow> rel_error + provider_state" where
  "advance_recovery s now =
     and_then (require_aware now) (\<lambda>_.
     if ps_state s \<noteq> OPEN then Inr s
     else
       (case reopen_at s of
          None \<Rightarrow> Inr s
        | Some r \<Rightarrow>
            (case dt_less now r of
               None \<Rightarrow> Inl RelTypeError
             | Some True \<Rightarrow> Inr s
             | Some False \<Rightarrow> check_state (s\<lparr>ps_state := HALF_OPEN, ps_updated_at := now\<rparr>))))"

definition record_failure ::
  "provider_state \<Rightarrow> failure_kind \<Rightarrow> datetime \<Rightarrow> breaker_policy \<Rightarrow> rel_error + provider_state" where
  "record_failure s kind now policy =
     and_then (require_aware now) (\<lambda>_.
     and_then (advance_recovery s now) (\<lambda>current.
     and_then (check_state (current\<lparr>last_failure_category := Some kind, last_attempt_at := Some now,
                              ps_updated_at := now\<rparr>)) (\<lambda>recorded.
     if \<not> failure_affects_breaker kind then Inr recorded
     else
       (let count = failures recorded + 1 in
        if ps_state recorded = HALF_OPEN \<or> count \<ge> failure_threshold policy
        then check_state (no_probe_lease (recorded\<lparr>ps_state := OPEN, failures := count,
               opened_at := Some now,
               reopen_at := Some (plus_millis now (recovery_window_ms policy))\<rparr>))
        else check_state (no_probe_lease (recorded\<lparr>ps_state := CLOSED, failures := count,
               opened_at := None, reopen_at := None\<rparr>))))))"

definition record_success :: "provider_state \<Rightarrow> datetime \<Rightarrow> rel_error + provider_state" where
  "record_success s now =
     and_then (require_aware now) (\<lambda>_.
     if ps_state s = OPEN then Inr s
     else check_state (no_probe_lease (s\<lparr>ps_state := CLOSED, failures := 0, opened_at := None,
            reopen_at := None, last_success_at := Some now, last_attempt_at := Some now,
            ps_updated_at := now\<rparr>)))"

section \<open>The execution gate\<close>

record reliability_decision =
  execution_permitted :: bool
  block_reason :: "string option"
  decision_breaker :: provider_state

text \<open>
  \<open>ReliabilityDecision.__post_init__\<close>; the three invocation flags keep their default False.
\<close>

definition check_decision :: "reliability_decision \<Rightarrow> rel_error + reliability_decision" where
  "check_decision d =
     (if execution_permitted d \<and> block_reason d \<noteq> None then Inl RelValueError
      else if \<not> execution_permitted d \<and> (block_reason d = None \<or> block_reason d = Some []) then Inl RelValueError
      else Inr d)"

definition assess_execution_permission ::
  "provider_state \<Rightarrow> operational_status \<Rightarrow> kill_switch \<Rightarrow> datetime \<Rightarrow> rel_error + reliability_decision"
  where
  "assess_execution_permission s status ks now =
     and_then (require_aware now) (\<lambda>_.
     if engaged ks then
       check_decision \<lparr>execution_permitted = False, block_reason = Some ''kill_switch'', decision_breaker = s\<rparr>
     else if status = DISABLED then
       check_decision \<lparr>execution_permitted = False, block_reason = Some ''provider_disabled'', decision_breaker = s\<rparr>
     else if status \<noteq> AVAILABLE then
       check_decision \<lparr>execution_permitted = False, block_reason = Some ''provider_unavailable'', decision_breaker = s\<rparr>
     else
       and_then (advance_recovery s now) (\<lambda>advanced.
       if ps_state advanced = OPEN then
         check_decision \<lparr>execution_permitted = False, block_reason = Some ''circuit_open'', decision_breaker = advanced\<rparr>
       else
         check_decision \<lparr>execution_permitted = True, block_reason = None, decision_breaker = advanced\<rparr>))"

section \<open>The half-open probe lease\<close>

definition half_open_probe_digest :: "string \<Rightarrow> rel_error + string" where
  "half_open_probe_digest capability =
     (if length capability < 16 then Inl RelValueError
      else Inr (stable_sha256 (JObj [(''kind'', JStr ''sprint38_half_open_probe_lease_v1''),
                                     (''capability'', JStr capability)])))"

definition probe_lease_is_active :: "provider_state \<Rightarrow> datetime \<Rightarrow> rel_error + bool" where
  "probe_lease_is_active s now =
     and_then (require_aware now) (\<lambda>_.
     if ps_state s \<noteq> HALF_OPEN then Inr False
     else if probe_digest s = None \<or> probe_digest s = Some [] then Inr False
     else
       (case probe_expires_at s of
          None \<Rightarrow> Inr False
        | Some expires \<Rightarrow> (case dt_less now expires of None \<Rightarrow> Inl RelTypeError | Some b \<Rightarrow> Inr b)))"

definition apply_half_open_probe_lease ::
  "provider_state \<Rightarrow> datetime \<Rightarrow> int \<Rightarrow> string \<Rightarrow> rel_error + provider_state" where
  "apply_half_open_probe_lease s now lease_micros capability =
     and_then (require_aware now) (\<lambda>_.
     if lease_micros \<le> 0 then Inl RelValueError
     else
       and_then (advance_recovery s now) (\<lambda>advanced.
       if ps_state advanced = CLOSED then Inl RelValueError
       else if ps_state advanced = OPEN then Inl RelValueError
       else
         and_then (probe_lease_is_active advanced now) (\<lambda>active.
         if active then Inl HalfOpenProbeAlreadyClaimed
         else
           and_then (half_open_probe_digest capability) (\<lambda>digest.
           check_state (advanced\<lparr>probe_digest := Some digest, probe_claimed_at := Some now,
             probe_expires_at := Some (plus_micros now lease_micros), ps_updated_at := now\<rparr>)))))"

section \<open>Health\<close>

fun status_value :: "operational_status \<Rightarrow> string" where
  "status_value AVAILABLE = ''available''"
| "status_value DISABLED = ''disabled''"
| "status_value OPUNAVAILABLE = ''unavailable''"

fun breaker_value :: "breaker \<Rightarrow> string" where
  "breaker_value CLOSED = ''closed''"
| "breaker_value OPEN = ''open''"
| "breaker_value HALF_OPEN = ''half_open''"

fun kind_value :: "failure_kind \<Rightarrow> string" where
  "kind_value TIMEOUT = ''timeout''"
| "kind_value QUOTA = ''quota''"
| "kind_value RATE_LIMIT = ''rate_limit''"
| "kind_value CREDENTIAL = ''credential''"
| "kind_value PARTIAL = ''partial''"
| "kind_value UNAVAILABLE = ''unavailable''"
| "kind_value KILL_SWITCH = ''kill_switch''"
| "kind_value CIRCUIT_OPEN = ''circuit_open''"
| "kind_value UNKNOWN = ''unknown''"

record provider_health =
  ph_provider_id :: string
  ph_market :: string
  ph_operational_status :: string
  ph_kill_switch_engaged :: bool
  ph_breaker_state :: string
  ph_failures :: int
  ph_last_failure_category :: "string option"
  ph_last_success_at :: "datetime option"
  routing_present :: bool
  certification_present :: bool
  certified :: bool
  test_fixture :: bool
  operationally_available :: bool
  healthy :: bool
  merchant_available :: bool
  live :: bool
  live_block_reasons :: "string list"
  breaker_revision :: int

definition is_operationally_available :: "string \<Rightarrow> bool \<Rightarrow> string \<Rightarrow> bool \<Rightarrow> bool" where
  "is_operationally_available status kill breaker_state fixture =
     (status = status_value AVAILABLE \<and> \<not> kill \<and> breaker_state = breaker_value CLOSED \<and> \<not> fixture)"

definition is_merchant_available :: "string \<Rightarrow> bool \<Rightarrow> string \<Rightarrow> bool \<Rightarrow> bool" where
  "is_merchant_available status kill breaker_state fixture =
     is_operationally_available status kill breaker_state fixture"

definition evidence_backed_healthy :: "bool \<Rightarrow> datetime option \<Rightarrow> bool" where
  "evidence_backed_healthy available last_success = (available \<and> last_success \<noteq> None)"

definition check_health :: "provider_health \<Rightarrow> rel_error + provider_health" where
  "check_health h =
     (let available = is_merchant_available (ph_operational_status h) (ph_kill_switch_engaged h)
            (ph_breaker_state h) (test_fixture h) in
      if operationally_available h \<noteq> available then Inl RelValueError
      else if merchant_available h \<noteq> available then Inl RelValueError
      else if healthy h \<noteq> evidence_backed_healthy available (ph_last_success_at h) then Inl RelValueError
      else if live h then Inl RelValueError
      else if certified h \<noteq> certification_present h then Inl RelValueError
      else if ''live_execution_not_operational'' \<notin> set (live_block_reasons h) then Inl RelValueError
      else if \<not> routing_present h \<and> ''routing_absent'' \<notin> set (live_block_reasons h) then Inl RelValueError
      else Inr h)"

definition build_research_provider_health ::
  "string \<Rightarrow> string \<Rightarrow> operational_status \<Rightarrow> bool \<Rightarrow> provider_state \<Rightarrow> bool \<Rightarrow> bool \<Rightarrow> bool
     \<Rightarrow> rel_error + provider_health" where
  "build_research_provider_health provider_id market status kill brk routing cert fixture =
     (let available = is_operationally_available (status_value status) kill
            (breaker_value (ps_state brk)) fixture;
          reasons = [''live_execution_not_operational''] @
            (if \<not> routing then [''routing_absent''] else []) @
            (if \<not> available then [''merchant_unavailable''] else [])
      in check_health
        \<lparr>ph_provider_id = provider_id, ph_market = market,
         ph_operational_status = status_value status, ph_kill_switch_engaged = kill,
         ph_breaker_state = breaker_value (ps_state brk), ph_failures = failures brk,
         ph_last_failure_category = map_option kind_value (last_failure_category brk),
         ph_last_success_at = last_success_at brk, routing_present = routing,
         certification_present = cert, certified = cert, test_fixture = fixture,
         operationally_available = available,
         healthy = evidence_backed_healthy available (last_success_at brk),
         merchant_available = available, live = False, live_block_reasons = reasons,
         breaker_revision = ps_revision brk\<rparr>)"

record health_report =
  report_rows :: "provider_health list"
  report_merchant_available :: bool
  report_live :: bool
  report_live_evidence :: bool

definition check_health_report :: "health_report \<Rightarrow> rel_error + health_report" where
  "check_health_report r =
     (if report_live r \<or> report_live_evidence r then Inl RelValueError
      else if report_merchant_available r \<noteq> list_ex merchant_available (report_rows r)
      then Inl RelValueError
      else Inr r)"

definition aggregate_research_provider_health :: "provider_health list \<Rightarrow> rel_error + health_report" where
  "aggregate_research_provider_health rows = check_health_report
     \<lparr>report_rows = rows, report_merchant_available = list_ex merchant_available rows,
      report_live = False, report_live_evidence = False\<rparr>"

section \<open>Valid states\<close>

definition ident_ok :: "string \<Rightarrow> string \<Rightarrow> bool" where
  "ident_ok p m = (strip p = p \<and> p \<noteq> [] \<and> CHR ''|'' \<notin> set p \<and> m \<in> set country_codes)"

lemma record_key_of_ident: "ident_ok p m \<Longrightarrow> reliability_record_key p m = Inr (p @ ''|'' @ m)"
  by (simp add: ident_ok_def reliability_record_key_def contains_char_def normalize_of_code valid_of_code)

lemma record_key_ident:
  assumes "reliability_record_key p m = Inr k"
  shows "\<exists>p' m'. k = p' @ ''|'' @ m' \<and> ident_ok p' m'"
proof -
  obtain c where c: "normalize_country_code (Some m) = Some c" "is_valid_country_code (Some c)"
    "k = strip p @ ''|'' @ c" "strip p \<noteq> []" "CHR ''|'' \<notin> set (strip p)"
    using assms by (auto simp: reliability_record_key_def Let_def contains_char_def
        split: option.splits if_splits)
  then have "ident_ok (strip p) c" using normalized_code by (simp add: ident_ok_def)
  with c(3) show ?thesis by blast
qed

definition aware_opt :: "datetime option \<Rightarrow> bool" where
  "aware_opt d = (case d of None \<Rightarrow> True | Some t \<Rightarrow> is_aware t)"

lemma require_aware_iff [simp]: "require_aware d = Inr u \<longleftrightarrow> is_aware d"
  by (cases u) (simp add: require_aware_def)

lemma require_aware_option_iff [simp]: "require_aware_option d = Inr u \<longleftrightarrow> aware_opt d"
  by (cases u) (simp add: require_aware_option_def aware_opt_def split: option.splits)

lemma require_digest_iff [simp]: "require_digest s = Inr u \<longleftrightarrow> hex64 s"
  by (cases u) (auto simp: require_digest_def hex64_def list_ex_iff list_all_iff)

text \<open>The lease facts of a valid state.\<close>

definition no_lease :: "provider_state \<Rightarrow> bool" where
  "no_lease s = (probe_digest s = None \<and> probe_claimed_at s = None \<and> probe_expires_at s = None)"

definition has_lease :: "provider_state \<Rightarrow> bool" where
  "has_lease s = (ps_state s = HALF_OPEN \<and> (\<exists>d a b. probe_digest s = Some d \<and> probe_claimed_at s = Some a \<and>
     probe_expires_at s = Some b \<and> hex64 d \<and> is_aware a \<and> is_aware b \<and> micros a < micros b))"

lemma validate_probe_lease_iff:
  assumes "aware_opt (probe_claimed_at s)" and "aware_opt (probe_expires_at s)"
  shows "validate_probe_lease s = Inr u \<longleftrightarrow> no_lease s \<or> has_lease s"
proof (cases "probe_digest s = None \<or> probe_claimed_at s = None \<or> probe_expires_at s = None")
  case True
  then show ?thesis
    by (cases u) (auto simp: validate_probe_lease_def Let_def no_lease_def has_lease_def split: option.splits)
next
  case False
  then obtain d a b where "probe_digest s = Some d" "probe_claimed_at s = Some a" "probe_expires_at s = Some b"
    by auto
  then show ?thesis
    using assms hex64_nonempty [of d]
    by (cases u) (auto simp: validate_probe_lease_def Let_def no_lease_def has_lease_def aware_opt_def
        and_then_Inr_iff dt_less_aware split: if_splits)
qed

definition window_ok :: "provider_state \<Rightarrow> bool" where
  "window_ok s = (case ps_state s of
     OPEN \<Rightarrow> opened_at s \<noteq> None \<and> reopen_at s \<noteq> None \<and> 1 \<le> failures s
   | CLOSED \<Rightarrow> opened_at s = None \<and> reopen_at s = None
   | HALF_OPEN \<Rightarrow> True)"

definition valid_state :: "provider_state \<Rightarrow> bool" where
  "valid_state s =
     (is_aware (ps_updated_at s) \<and> ident_ok (ps_provider_id s) (ps_market s) \<and>
      0 \<le> failures s \<and> 0 \<le> ps_revision s \<and>
      aware_opt (opened_at s) \<and> aware_opt (last_attempt_at s) \<and> aware_opt (last_success_at s) \<and>
      aware_opt (reopen_at s) \<and> aware_opt (probe_claimed_at s) \<and> aware_opt (probe_expires_at s) \<and>
      (no_lease s \<or> has_lease s) \<and> window_ok s)"

lemma check_state_iff:
  assumes "ident_ok (ps_provider_id s) (ps_market s)"
  shows "check_state s = Inr s' \<longleftrightarrow> s' = s \<and> valid_state s"
proof -
  have s: "s\<lparr>ps_provider_id := ps_provider_id s, ps_market := ps_market s\<rparr> = s" by simp
  have bar: "CHR ''|'' \<notin> set (ps_provider_id s)" using assms by (simp add: ident_ok_def)
  have key: "reliability_record_key (ps_provider_id s) (ps_market s) =
      Inr (ps_provider_id s @ CHR ''|'' # ps_market s)"
    using record_key_of_ident [OF assms] by simp
  show ?thesis
    unfolding check_state_def key and_then_simps partition_at_first [OF bar] Let_def prod.case s
    using assms
    by (auto simp: and_then_Inr_iff valid_state_def window_ok_def validate_probe_lease_iff
        split: breaker.splits if_splits)
qed

lemma check_valid: "valid_state s \<Longrightarrow> check_state s = Inr s"
  using check_state_iff [of s s] by (simp add: valid_state_def)

text \<open>The constructor only builds valid states.\<close>

lemma check_state_valid:
  assumes "check_state s0 = Inr s"
  shows "valid_state s" and "\<exists>p m. s = s0\<lparr>ps_provider_id := p, ps_market := m\<rparr>"
proof -
  obtain k where k: "reliability_record_key (ps_provider_id s0) (ps_market s0) = Inr k"
    using assms by (auto simp: check_state_def and_then_Inr_iff)
  then obtain p m where pm: "k = p @ CHR ''|'' # m" "ident_ok p m"
    using record_key_ident by force
  have bar: "CHR ''|'' \<notin> set p" using pm(2) by (simp add: ident_ok_def)
  let ?s = "s0\<lparr>ps_provider_id := p, ps_market := m\<rparr>"
  have key: "reliability_record_key p m = Inr (p @ CHR ''|'' # m)"
    using record_key_of_ident [OF pm(2)] by simp
  have "check_state s0 = check_state ?s"
    by (simp add: check_state_def k key pm(1) partition_at_first [OF bar])
  then have "check_state ?s = Inr s" using assms by simp
  then have "s = ?s \<and> valid_state ?s" using check_state_iff [of ?s s] pm(2) by simp
  then show "valid_state s" and "\<exists>p m. s = s0\<lparr>ps_provider_id := p, ps_market := m\<rparr>" by blast+
qed

section \<open>Transitions on valid states\<close>

text \<open>On valid states and aware clocks no transition raises; these are their results.\<close>

definition recovery_due :: "provider_state \<Rightarrow> datetime \<Rightarrow> bool" where
  "recovery_due s now =
     (ps_state s = OPEN \<and> (case reopen_at s of None \<Rightarrow> False | Some r \<Rightarrow> micros r \<le> micros now))"

definition advanced :: "provider_state \<Rightarrow> datetime \<Rightarrow> provider_state" where
  "advanced s now = (if recovery_due s now then s\<lparr>ps_state := HALF_OPEN, ps_updated_at := now\<rparr> else s)"

definition noted :: "provider_state \<Rightarrow> failure_kind \<Rightarrow> datetime \<Rightarrow> provider_state" where
  "noted s kind now = s\<lparr>last_failure_category := Some kind, last_attempt_at := Some now, ps_updated_at := now\<rparr>"

definition opened :: "provider_state \<Rightarrow> datetime \<Rightarrow> int \<Rightarrow> provider_state" where
  "opened s now window_ms = no_probe_lease (s\<lparr>ps_state := OPEN, failures := failures s + 1,
     opened_at := Some now, reopen_at := Some (plus_millis now window_ms)\<rparr>)"

definition counted :: "provider_state \<Rightarrow> provider_state" where
  "counted s = no_probe_lease (s\<lparr>ps_state := CLOSED, failures := failures s + 1, opened_at := None,
     reopen_at := None\<rparr>)"

definition failed :: "provider_state \<Rightarrow> failure_kind \<Rightarrow> datetime \<Rightarrow> breaker_policy \<Rightarrow> provider_state" where
  "failed s kind now policy =
     (let r = noted (advanced s now) kind now in
      if \<not> failure_affects_breaker kind then r
      else if ps_state r = HALF_OPEN \<or> failures r + 1 \<ge> failure_threshold policy
      then opened r now (recovery_window_ms policy)
      else counted r)"

definition succeeded :: "provider_state \<Rightarrow> datetime \<Rightarrow> provider_state" where
  "succeeded s now =
     (if ps_state s = OPEN then s
      else no_probe_lease (s\<lparr>ps_state := CLOSED, failures := 0, opened_at := None,
            reopen_at := None, last_success_at := Some now, last_attempt_at := Some now,
            ps_updated_at := now\<rparr>))"

lemmas valid_defs = valid_state_def window_ok_def no_lease_def has_lease_def aware_opt_def

lemma valid_advanced: "valid_state s \<Longrightarrow> is_aware now \<Longrightarrow> valid_state (advanced s now)"
  by (auto simp: advanced_def recovery_due_def valid_defs)

lemma valid_noted: "valid_state s \<Longrightarrow> is_aware now \<Longrightarrow> valid_state (noted s k now)"
  by (auto simp: noted_def valid_defs split: breaker.splits)

lemma valid_opened: "valid_state s \<Longrightarrow> is_aware now \<Longrightarrow> valid_state (opened s now w)"
  by (auto simp: opened_def no_probe_lease_def valid_defs)

lemma valid_counted: "valid_state s \<Longrightarrow> valid_state (counted s)"
  by (auto simp: counted_def no_probe_lease_def valid_defs)

lemma valid_failed: "valid_state s \<Longrightarrow> is_aware now \<Longrightarrow> valid_state (failed s k now p)"
  by (simp add: failed_def Let_def valid_advanced valid_noted valid_opened valid_counted)

lemma valid_succeeded: "valid_state s \<Longrightarrow> is_aware now \<Longrightarrow> valid_state (succeeded s now)"
  by (auto simp: succeeded_def no_probe_lease_def valid_defs)

lemma advance_recovery_valid:
  assumes "valid_state s" and "is_aware now"
  shows "advance_recovery s now = Inr (advanced s now)"
proof (cases "ps_state s = OPEN")
  case False
  then show ?thesis using assms(2)
    by (simp add: advance_recovery_def advanced_def recovery_due_def require_aware_def)
next
  case True
  then obtain r where r: "reopen_at s = Some r" "is_aware r"
    using assms(1) by (auto simp: valid_defs)
  have "valid_state (s\<lparr>ps_state := HALF_OPEN, ps_updated_at := now\<rparr>)"
    using assms True by (auto simp: valid_defs)
  then show ?thesis
    using True r assms(2)
    by (auto simp: advance_recovery_def advanced_def recovery_due_def require_aware_def dt_less_aware
        check_valid split: bool.splits)
qed

lemma record_failure_valid:
  assumes "valid_state s" and "is_aware now"
  shows "record_failure s k now p = Inr (failed s k now p)"
proof -
  define a where "a = advanced s now"
  have va: "valid_state a" using valid_advanced [OF assms] by (simp add: a_def)
  have n: "check_state (a\<lparr>last_failure_category := Some k, last_attempt_at := Some now, ps_updated_at := now\<rparr>) =
      Inr (noted a k now)"
    using check_valid [OF valid_noted [OF va assms(2)]] by (simp add: noted_def)
  have vn: "valid_state (noted a k now)" using valid_noted [OF va assms(2)] .
  show ?thesis
    using assms n check_valid [OF valid_opened [OF vn assms(2)]] check_valid [OF valid_counted [OF vn]]
    by (simp add: record_failure_def require_aware_def advance_recovery_valid a_def [symmetric] failed_def
        opened_def counted_def Let_def)
qed

lemma record_success_valid:
  assumes "valid_state s" and "is_aware now"
  shows "record_success s now = Inr (succeeded s now)"
  using check_valid [OF valid_succeeded [OF assms]] assms(2)
  by (auto simp: record_success_def succeeded_def require_aware_def)

lemma probe_active_valid:
  assumes "valid_state s" and "is_aware now"
  shows "probe_lease_is_active s now =
    Inr (has_lease s \<and> (case probe_expires_at s of None \<Rightarrow> False | Some e \<Rightarrow> micros now < micros e))"
proof (cases "no_lease s")
  case True
  then show ?thesis
    using assms(2) by (auto simp: probe_lease_is_active_def require_aware_def no_lease_def has_lease_def)
next
  case False
  then have "has_lease s" using assms(1) by (simp add: valid_state_def)
  then show ?thesis
    using assms(2) hex64_nonempty [of "[]"]
    by (auto simp: probe_lease_is_active_def require_aware_def has_lease_def dt_less_aware)
qed

definition leased :: "provider_state \<Rightarrow> datetime \<Rightarrow> int \<Rightarrow> string \<Rightarrow> provider_state" where
  "leased s now lease_micros digest = (advanced s now)\<lparr>probe_digest := Some digest,
     probe_claimed_at := Some now, probe_expires_at := Some (plus_micros now lease_micros),
     ps_updated_at := now\<rparr>"

lemma apply_lease_valid:
  assumes "valid_state s" and "is_aware now" and "0 < lease"
  shows "apply_half_open_probe_lease s now lease cap =
    (if ps_state (advanced s now) \<noteq> HALF_OPEN then Inl RelValueError
     else if has_lease s \<and> (case probe_expires_at s of None \<Rightarrow> False | Some e \<Rightarrow> micros now < micros e)
     then Inl HalfOpenProbeAlreadyClaimed
     else and_then (half_open_probe_digest cap) (\<lambda>d. Inr (leased s now lease d)))"
proof -
  have va: "valid_state (advanced s now)" using valid_advanced assms by blast
  have same: "has_lease (advanced s now) = has_lease s" if "ps_state (advanced s now) = HALF_OPEN"
    "probe_expires_at (advanced s now) = probe_expires_at s"
  proof (cases "recovery_due s now")
    case True
    then have "ps_state s = OPEN" by (simp add: recovery_due_def)
    then have "no_lease s" using assms(1) by (auto simp: valid_state_def has_lease_def)
    then show ?thesis by (auto simp: advanced_def has_lease_def no_lease_def)
  qed (simp add: advanced_def)
  have exp: "probe_expires_at (advanced s now) = probe_expires_at s" by (simp add: advanced_def)
  have chk: "check_state (leased s now lease d) = Inr (leased s now lease d)"
    if "hex64 d" "ps_state (advanced s now) = HALF_OPEN" for d
    by (rule check_valid) (use that va assms(2,3) in \<open>auto simp: leased_def valid_defs\<close>)
  have dig: "hex64 d" if "half_open_probe_digest cap = Inr d" for d
    using that by (auto simp: half_open_probe_digest_def split: if_splits)
  show ?thesis
  proof (cases "ps_state (advanced s now) = HALF_OPEN")
    case False
    then show ?thesis
      using assms by (cases "ps_state (advanced s now)")
        (auto simp: apply_half_open_probe_lease_def require_aware_def advance_recovery_valid)
  next
    case True
    then show ?thesis
      using assms same exp chk dig
      by (cases "half_open_probe_digest cap")
        (auto simp: apply_half_open_probe_lease_def require_aware_def advance_recovery_valid
          probe_active_valid va leased_def)
  qed
qed

lemma valid_leased:
  "valid_state s \<Longrightarrow> is_aware now \<Longrightarrow> 0 < lease \<Longrightarrow> ps_state (advanced s now) = HALF_OPEN \<Longrightarrow> hex64 d \<Longrightarrow>
     valid_state (leased s now lease d)"
  using valid_advanced [of s now] by (auto simp: leased_def valid_defs)

section \<open>Reachable states\<close>

text \<open>Every state a worker can build for one provider and market under one policy.\<close>

inductive breaker_step :: "breaker_policy \<Rightarrow> provider_state \<Rightarrow> provider_state \<Rightarrow> bool" for p where
  fail_step: "record_failure s k now p = Inr s' \<Longrightarrow> breaker_step p s s'"
| success_step: "record_success s now = Inr s' \<Longrightarrow> breaker_step p s s'"
| advance_step: "advance_recovery s now = Inr s' \<Longrightarrow> breaker_step p s s'"
| lease_step: "apply_half_open_probe_lease s now lease cap = Inr s' \<Longrightarrow> breaker_step p s s'"

inductive breaker_reachable :: "breaker_policy \<Rightarrow> provider_state \<Rightarrow> bool" for p where
  reach_closed: "closed_reliability_state provider market now = Inr s \<Longrightarrow> breaker_reachable p s"
| reach_step: "breaker_reachable p s \<Longrightarrow> breaker_step p s s' \<Longrightarrow> breaker_reachable p s'"

inductive_cases breaker_stepE: "breaker_step p s s'"

text \<open>An operation with a naive clock raises, so a step always had an aware one.\<close>

lemma step_clock_aware:
  "record_failure s k now p = Inr s' \<Longrightarrow> is_aware now"
  "record_success s now = Inr s' \<Longrightarrow> is_aware now"
  "advance_recovery s now = Inr s' \<Longrightarrow> is_aware now"
  "apply_half_open_probe_lease s now lease cap = Inr s' \<Longrightarrow> is_aware now \<and> 0 < lease"
  by (auto simp: record_failure_def record_success_def advance_recovery_def
      apply_half_open_probe_lease_def and_then_Inr_iff split: if_splits)

lemma lease_result:
  assumes "valid_state s" and "apply_half_open_probe_lease s now lease cap = Inr s'"
  shows "ps_state (advanced s now) = HALF_OPEN \<and>
    (\<exists>d. half_open_probe_digest cap = Inr d \<and> hex64 d \<and> s' = leased s now lease d)"
proof -
  have a: "is_aware now" "0 < lease" using step_clock_aware(4) [OF assms(2)] by auto
  show ?thesis
    using assms(2) apply_lease_valid [OF assms(1) a, of cap]
    by (auto simp: and_then_Inr_iff half_open_probe_digest_def split: if_splits)
qed

text \<open>The count tells the breaker's position under a fixed policy.\<close>

definition count_inv :: "breaker_policy \<Rightarrow> provider_state \<Rightarrow> bool" where
  "count_inv p s = (ps_state s = CLOSED \<longleftrightarrow> failures s < failure_threshold p)"

lemma count_inv_step:
  assumes "valid_state s" and "count_inv p s" and "1 \<le> failure_threshold p" and "breaker_step p s s'"
  shows "valid_state s' \<and> count_inv p s'"
proof -
  consider (1) k now where "record_failure s k now p = Inr s'" | (2) now where "record_success s now = Inr s'"
    | (3) now where "advance_recovery s now = Inr s'"
    | (4) now lease cap where "apply_half_open_probe_lease s now lease cap = Inr s'"
    using assms(4) by (rule breaker_stepE)
  then show ?thesis
  proof cases
  case (1 k now)
  have "is_aware now" using step_clock_aware(1) [OF 1] .
  then have s': "s' = failed s k now p" "valid_state s'"
    using 1 record_failure_valid [OF assms(1), of now k p] valid_failed [OF assms(1), of now k p] by auto
  then show ?thesis
    using assms(2,3)
    by (auto simp: count_inv_def failed_def Let_def noted_def opened_def counted_def no_probe_lease_def
        advanced_def recovery_due_def split: if_splits)
next
  case (2 now)
  have "is_aware now" using step_clock_aware(2) [OF 2] .
  then have s': "s' = succeeded s now" "valid_state s'"
    using 2 record_success_valid [OF assms(1), of now] valid_succeeded [OF assms(1), of now] by auto
  then show ?thesis
    using assms(2,3) by (auto simp: count_inv_def succeeded_def no_probe_lease_def)
next
  case (3 now)
  have "is_aware now" using step_clock_aware(3) [OF 3] .
  then have s': "s' = advanced s now" "valid_state s'"
    using 3 advance_recovery_valid [OF assms(1), of now] valid_advanced [OF assms(1), of now] by auto
  then show ?thesis
    using assms(2) by (auto simp: count_inv_def advanced_def recovery_due_def)
next
  case (4 now lease cap)
  have a: "is_aware now" "0 < lease" using step_clock_aware(4) [OF 4] by auto
  obtain d where "ps_state (advanced s now) = HALF_OPEN" "hex64 d" "s' = leased s now lease d"
    using lease_result [OF assms(1) 4] by auto
  then show ?thesis
    using assms(2) valid_leased [OF assms(1) a]
    by (auto simp: count_inv_def leased_def advanced_def recovery_due_def split: if_splits)
  qed
qed

lemma count_inv_closed:
  assumes "closed_reliability_state provider market now = Inr s" and "1 \<le> failure_threshold p"
  shows "valid_state s \<and> count_inv p s"
proof -
  have "ps_state s = CLOSED \<and> failures s = 0"
    using assms(1) check_state_valid(2) unfolding closed_reliability_state_def by fastforce
  then show ?thesis
    using assms check_state_valid(1) unfolding closed_reliability_state_def count_inv_def by fastforce
qed

section \<open>Properties\<close>

text \<open>
  C28: every state workers can reach under one policy is valid, and its failure count tells its
  position: the breaker is closed exactly while the count is below the threshold.
\<close>

theorem breaker_reachable_inv:
  assumes "breaker_reachable p s" and "check_breaker_policy p = Inr q"
  shows "valid_state s \<and> (ps_state s = CLOSED \<longleftrightarrow> failures s < failure_threshold p)"
proof -
  have thr: "1 \<le> failure_threshold p"
    using assms(2) by (auto simp: check_breaker_policy_def split: if_splits)
  from assms(1) have "valid_state s \<and> count_inv p s"
    by (induction rule: breaker_reachable.induct) (use thr count_inv_closed count_inv_step in blast)+
  then show ?thesis by (simp add: count_inv_def)
qed

definition example_closed :: provider_state where
  "example_closed =
     \<lparr>ps_provider_id = ''shopify'', ps_market = ''PH'', ps_updated_at = Aware 0, ps_state = CLOSED,
      failures = 0, last_failure_category = None, opened_at = None, last_attempt_at = None,
      last_success_at = None, reopen_at = None, ps_revision = 0, probe_digest = None,
      probe_claimed_at = None, probe_expires_at = None\<rparr>"

lemma example_ident: "ident_ok ''shopify'' ''PH''"
proof -
  have "strip ''shopify'' = ''shopify''" by code_simp
  then show ?thesis by (simp add: ident_ok_def valid_example)
qed

lemma example_valid: "valid_state example_closed"
  using example_ident by (simp add: example_closed_def valid_defs)

lemma example_built: "closed_reliability_state ''shopify'' ''PH'' (Aware 0) = Inr example_closed"
  using check_valid [OF example_valid] by (simp add: closed_reliability_state_def example_closed_def)

theorem breaker_reachable_inv_witness:
  "valid_state (failed example_closed TIMEOUT (Aware 1) \<lparr>failure_threshold = 1, recovery_window_ms = 1\<rparr>)"
proof -
  let ?p = "\<lparr>failure_threshold = 1, recovery_window_ms = 1\<rparr>"
  have "breaker_reachable ?p (failed example_closed TIMEOUT (Aware 1) ?p)"
    by (rule reach_step [OF reach_closed [OF example_built]])
      (rule fail_step, rule record_failure_valid [OF example_valid], simp)
  from breaker_reachable_inv [OF this] show ?thesis by (simp add: check_breaker_policy_def)
qed

text \<open>A run of failures.\<close>

fun record_failures ::
  "provider_state \<Rightarrow> (failure_kind \<times> datetime) list \<Rightarrow> breaker_policy \<Rightarrow> rel_error + provider_state" where
  "record_failures s [] p = Inr s"
| "record_failures s ((k, now) # ks) p =
     and_then (record_failure s k now p) (\<lambda>s'. record_failures s' ks p)"

definition affecting :: "(failure_kind \<times> datetime) list \<Rightarrow> int" where
  "affecting ks = int (length (filter (failure_affects_breaker \<circ> fst) ks))"

lemma affecting_simps [simp]:
  "affecting [] = 0"
  "affecting (x # ks) = (if failure_affects_breaker (fst x) then 1 else 0) + affecting ks"
  by (simp_all add: affecting_def)

lemma affecting_nonneg: "0 \<le> affecting ks"
  by (simp add: affecting_def)

lemma record_failures_closed:
  assumes "valid_state s" and "ps_state s = CLOSED" and "list_all (is_aware \<circ> snd) ks"
    and "failures s + affecting ks < failure_threshold p"
  shows "\<exists>s'. record_failures s ks p = Inr s' \<and> valid_state s' \<and> ps_state s' = CLOSED \<and>
    failures s' = failures s + affecting ks"
  using assms
proof (induction ks arbitrary: s)
  case Nil
  then show ?case by simp
next
  case (Cons x ks)
  obtain k now where x: "x = (k, now)" by (cases x)
  from Cons.prems x have now: "is_aware now" by simp
  let ?s = "failed s k now p"
  have adv: "advanced s now = s" using Cons.prems(2) by (simp add: advanced_def recovery_due_def)
  note nn = affecting_nonneg [of ks]
  have "ps_state ?s = CLOSED \<and> failures ?s = failures s + (if failure_affects_breaker k then 1 else 0)"
    using Cons.prems(2,4) adv x nn
    by (auto simp: failed_def Let_def noted_def opened_def counted_def no_probe_lease_def)
  moreover have "valid_state ?s" using valid_failed [OF Cons.prems(1) now] .
  ultimately show ?case
    using Cons.IH [of ?s] Cons.prems(3,4) record_failure_valid [OF Cons.prems(1) now, of k p] x by auto
qed

text \<open>
  the breaker opens at its threshold and not before.  On a closed breaker, a run of failures
  with fewer breaker-worthy ones than remain to the threshold (the other categories never count)
  leaves it closed with the exact count; the failure that reaches the threshold opens it, at that
  failure's time, until that time plus the recovery window.
\<close>

theorem breaker_opens_at_threshold:
  assumes "valid_state s" and "ps_state s = CLOSED" and "list_all (is_aware \<circ> snd) ks"
    and "failures s + affecting ks + 1 = failure_threshold p"
    and "failure_affects_breaker k" and "is_aware t"
  shows "\<exists>s1 s2. record_failures s ks p = Inr s1 \<and> ps_state s1 = CLOSED \<and>
      failures s1 = failures s + affecting ks \<and>
    record_failures s (ks @ [(k, t)]) p = Inr s2 \<and> ps_state s2 = OPEN \<and>
      failures s2 = failure_threshold p \<and> opened_at s2 = Some t \<and>
      reopen_at s2 = Some (plus_millis t (recovery_window_ms p))"
proof -
  obtain s1 where s1: "record_failures s ks p = Inr s1" "valid_state s1" "ps_state s1 = CLOSED"
    "failures s1 = failures s + affecting ks"
    using record_failures_closed [OF assms(1-3), of p] assms(4) by auto
  have run: "record_failures s (ks @ [(k, t)]) p = and_then (record_failures s ks p) (\<lambda>s'. record_failure s' k t p)"
    by (induction s ks p rule: record_failures.induct)
      (auto simp: and_then_def split: sum.splits)
  have "record_failure s1 k t p = Inr (failed s1 k t p)"
    by (rule record_failure_valid [OF s1(2) assms(6)])
  moreover have "advanced s1 t = s1" using s1(3) by (simp add: advanced_def recovery_due_def)
  ultimately show ?thesis
    using s1 assms(4,5) run
    by (simp add: failed_def Let_def noted_def opened_def no_probe_lease_def)
qed

theorem breaker_opens_at_threshold_witness:
  "\<exists>s2. record_failures example_closed
      ([(TIMEOUT, Aware 1), (QUOTA, Aware 2), (UNKNOWN, Aware 3)] @ [(UNAVAILABLE, Aware 4)])
      default_breaker_policy = Inr s2 \<and> ps_state s2 = OPEN \<and> reopen_at s2 = Some (Aware 30000004)"
  using breaker_opens_at_threshold [OF example_valid, of "[(TIMEOUT, Aware 1), (QUOTA, Aware 2), (UNKNOWN, Aware 3)]"
      default_breaker_policy UNAVAILABLE "Aware 4"]
  by (auto simp: example_closed_def default_breaker_policy_def failure_affects_breaker_def plus_millis_def)

text \<open>
  the gate follows its order of controls.  On a valid state an attempt is permitted exactly
  when the kill switch is off, the provider is available, and the breaker is not inside an open
  window; a block names the strongest control that fired; the decision carries the breaker advanced
  to half-open only when the breaker was asked.
\<close>

theorem execution_gate:
  assumes "valid_state s" and "is_aware now"
  shows "\<exists>d. assess_execution_permission s status ks now = Inr d \<and>
    (execution_permitted d \<longleftrightarrow> \<not> engaged ks \<and> status = AVAILABLE \<and> (ps_state s = OPEN \<longrightarrow> recovery_due s now)) \<and>
    block_reason d = (if engaged ks then Some ''kill_switch''
      else if status = DISABLED then Some ''provider_disabled''
      else if status = OPUNAVAILABLE then Some ''provider_unavailable''
      else if ps_state s = OPEN \<and> \<not> recovery_due s now then Some ''circuit_open'' else None) \<and>
    decision_breaker d = (if \<not> engaged ks \<and> status = AVAILABLE then advanced s now else s)"
  using assms advance_recovery_valid [OF assms]
  by (cases status) (auto simp: assess_execution_permission_def require_aware_def check_decision_def
      advanced_def recovery_due_def)

theorem execution_gate_witness:
  "\<exists>d. assess_execution_permission example_closed AVAILABLE \<lparr>engaged = True, kill_reason = None\<rparr> (Aware 5) =
      Inr d \<and> \<not> execution_permitted d \<and> block_reason d = Some ''kill_switch''"
  using execution_gate [OF example_valid, of "Aware 5" AVAILABLE "\<lparr>engaged = True, kill_reason = None\<rparr>"] by auto

text \<open>
  an open breaker stays shut for its whole window and then half-opens.  After a failure opened
  it at \<open>t\<close>, for every time before \<open>t\<close> plus the window an attempt on an available provider is
  blocked, a success changes nothing and no probe lease is granted; from then on the attempt is
  permitted as half-open, and one more breaker-worthy failure opens it again whatever the threshold.
\<close>

theorem open_window_holds:
  assumes "valid_state s" and "ps_state s = OPEN" and "reopen_at s = Some r" and "is_aware now"
    and "\<not> engaged ks" and "0 < lease"
  shows "(if micros now < micros r
    then (\<exists>d. assess_execution_permission s AVAILABLE ks now = Inr d \<and> \<not> execution_permitted d) \<and>
      record_success s now = Inr s \<and> apply_half_open_probe_lease s now lease cap = Inl RelValueError
    else (\<exists>d. assess_execution_permission s AVAILABLE ks now = Inr d \<and> execution_permitted d \<and>
        ps_state (decision_breaker d) = HALF_OPEN) \<and>
      (failure_affects_breaker k \<longrightarrow> (\<exists>s'. record_failure s k now p = Inr s' \<and> ps_state s' = OPEN \<and>
        reopen_at s' = Some (plus_millis now (recovery_window_ms p)))))"
proof -
  have due: "recovery_due s now \<longleftrightarrow> micros r \<le> micros now"
    using assms(2,3) by (simp add: recovery_due_def)
  have gate: "assess_execution_permission s AVAILABLE ks now = check_decision
      (if ps_state (advanced s now) = OPEN
       then \<lparr>execution_permitted = False, block_reason = Some ''circuit_open'', decision_breaker = advanced s now\<rparr>
       else \<lparr>execution_permitted = True, block_reason = None, decision_breaker = advanced s now\<rparr>)"
    using assms(4,5) advance_recovery_valid [OF assms(1,4)]
    by (simp add: assess_execution_permission_def require_aware_def)
  show ?thesis
  proof (cases "micros now < micros r")
    case True
    then have "advanced s now = s" using due by (simp add: advanced_def)
    then show ?thesis
      using True gate assms(2,4) apply_lease_valid [OF assms(1,4,6), of cap]
      by (simp add: check_decision_def record_success_def require_aware_def)
  next
    case False
    then have adv: "advanced s now = s\<lparr>ps_state := HALF_OPEN, ps_updated_at := now\<rparr>"
      using due by (simp add: advanced_def)
    then show ?thesis
      using False gate record_failure_valid [OF assms(1,4), of k p]
      by (simp add: check_decision_def failed_def Let_def noted_def opened_def no_probe_lease_def)
  qed
qed

definition example_open :: provider_state where
  "example_open = opened example_closed (Aware 0) 1000"

lemma example_open_valid: "valid_state example_open"
  using valid_opened [OF example_valid, of "Aware 0" 1000] by (simp add: example_open_def)

theorem open_window_holds_witness:
  "record_success example_open (Aware 999999) = Inr example_open"
  using open_window_holds [OF example_open_valid, of "Aware 1000000" "Aware 999999"
      "\<lparr>engaged = False, kill_reason = None\<rparr>" 1]
  by (auto simp: example_open_def opened_def no_probe_lease_def plus_millis_def)

lemma neutral_keeps_lease:
  assumes "valid_state s" and "ps_state s = HALF_OPEN"
    and "list_all (\<lambda>(k, t). is_aware t \<and> \<not> failure_affects_breaker k) ks"
  shows "\<exists>s'. record_failures s ks p = Inr s' \<and> valid_state s' \<and> ps_state s' = HALF_OPEN \<and>
    probe_digest s' = probe_digest s \<and> probe_claimed_at s' = probe_claimed_at s \<and>
    probe_expires_at s' = probe_expires_at s"
  using assms
proof (induction ks arbitrary: s)
  case Nil
  then show ?case by simp
next
  case (Cons x ks)
  obtain k now where x: "x = (k, now)" by (cases x)
  from Cons.prems x have now: "is_aware now" and neutral: "\<not> failure_affects_breaker k" by auto
  have adv: "advanced s now = s" using Cons.prems(2) by (simp add: advanced_def recovery_due_def)
  have f: "failed s k now p = noted s k now" using neutral adv by (simp add: failed_def Let_def)
  show ?case
    using Cons.IH [of "noted s k now"] Cons.prems record_failure_valid [OF Cons.prems(1) now, of k p]
      valid_noted [OF Cons.prems(1) now, of k] f x by (auto simp: noted_def)
qed

text \<open>
  C29: at most one worker holds the half-open probe.  Once a lease is granted at \<open>t\<close> for a positive
  duration, every other request before its expiry is refused with AlreadyClaimed, also after any
  run of breaker-neutral failures; from the expiry on the next worker gets it.
\<close>

theorem half_open_probe_exclusive:
  assumes "valid_state s" and "apply_half_open_probe_lease s t lease cap = Inr s1"
    and "list_all (\<lambda>(k, t). is_aware t \<and> \<not> failure_affects_breaker k) ks"
    and "is_aware now" and "0 < lease2" and "16 \<le> length cap2"
  shows "\<exists>s2. record_failures s1 ks p = Inr s2 \<and>
    (if micros now < micros t + lease
     then apply_half_open_probe_lease s2 now lease2 cap2 = Inl HalfOpenProbeAlreadyClaimed
     else \<exists>s3. apply_half_open_probe_lease s2 now lease2 cap2 = Inr s3 \<and> ps_state s3 = HALF_OPEN \<and>
       probe_expires_at s3 = Some (plus_micros now lease2))"
proof -
  have t: "is_aware t" "0 < lease" using step_clock_aware(4) [OF assms(2)] by auto
  obtain d where s1: "ps_state (advanced s t) = HALF_OPEN" "hex64 d" "s1 = leased s t lease d"
    using lease_result [OF assms(1,2)] by auto
  have v1: "valid_state s1" using valid_leased [OF assms(1) t s1(1,2)] s1(3) by simp
  have h1: "ps_state s1 = HALF_OPEN" "probe_expires_at s1 = Some (plus_micros t lease)"
    "probe_digest s1 = Some d"
    using s1 by (simp_all add: leased_def)
  obtain s2 where s2: "record_failures s1 ks p = Inr s2" "valid_state s2" "ps_state s2 = HALF_OPEN"
    "probe_digest s2 = Some d" "probe_expires_at s2 = Some (plus_micros t lease)"
    using neutral_keeps_lease [OF v1 h1(1) assms(3), of p] h1 by auto
  have "has_lease s2" using s2 by (auto simp: valid_state_def no_lease_def)
  moreover have "advanced s2 now = s2" using s2(3) by (simp add: advanced_def recovery_due_def)
  ultimately show ?thesis
    using apply_lease_valid [OF s2(2) assms(4,5), of cap2] s2 assms(6)
    by (auto simp: half_open_probe_digest_def leased_def)
qed

definition example_capability :: string where
  "example_capability = replicate 16 (CHR ''x'')"

theorem half_open_probe_exclusive_witness:
  "\<exists>s1. apply_half_open_probe_lease example_open (Aware 1000000) 500 example_capability = Inr s1 \<and>
    apply_half_open_probe_lease s1 (Aware 1000499) 500 example_capability = Inl HalfOpenProbeAlreadyClaimed"
proof -
  have adv: "ps_state (advanced example_open (Aware 1000000)) = HALF_OPEN"
    by (simp add: example_open_def opened_def no_probe_lease_def advanced_def recovery_due_def plus_millis_def)
  have none: "\<not> has_lease example_open"
    by (simp add: example_open_def opened_def has_lease_def no_probe_lease_def)
  obtain s1 where s1: "apply_half_open_probe_lease example_open (Aware 1000000) 500 example_capability = Inr s1"
    using apply_lease_valid [OF example_open_valid, of "Aware 1000000" 500 example_capability] adv none
    by (auto simp: half_open_probe_digest_def example_capability_def)
  then show ?thesis
    using half_open_probe_exclusive [OF example_open_valid s1, of "[]" "Aware 1000499" 500 example_capability]
    by (simp add: example_capability_def)
qed

text \<open>
  a health row never claims more than its facts.  Building one never raises; it is never live,
  merchant availability needs an available status, no kill switch, a closed breaker and no test
  fixture, health needs a recorded success on top, and the aggregate over any rows so built is
  available exactly when one row is.
\<close>

theorem health_row_honest:
  "\<exists>h. build_research_provider_health pid mkt status kill brk routing cert fixture = Inr h \<and>
    \<not> live h \<and> (merchant_available h \<longleftrightarrow> status = AVAILABLE \<and> \<not> kill \<and> ps_state brk = CLOSED \<and> \<not> fixture) \<and>
    (healthy h \<longleftrightarrow> merchant_available h \<and> last_success_at brk \<noteq> None) \<and>
    (\<exists>r. aggregate_research_provider_health (h # rows) = Inr r \<and> \<not> report_live r \<and>
      (report_merchant_available r \<longleftrightarrow> merchant_available h \<or> list_ex merchant_available rows))"
  by (cases status; cases "ps_state brk")
    (auto simp: build_research_provider_health_def check_health_def Let_def is_merchant_available_def
      is_operationally_available_def evidence_backed_healthy_def aggregate_research_provider_health_def
      check_health_report_def)

end
