(* ===== verification/Authorization.thy ===== *)
theory Authorization
  imports Digest
begin

text \<open>
  app/domain/entities/research_proposal.py and research_authorization.py (the values and their
  constructor checks) and app/services/research_authorization.py: the digests that bind an
  authorization to its owner, decision and frozen scope, its creation from a confirmed proposal,
  validation before execution and before a resume, the handoff packet, and its status changes.
  A function returns \<open>Inl\<close> where the source raises.  A conversation is modelled by the three fields
  these functions use; \<open>replace\<close> keeps the others.
\<close>

section \<open>Values\<close>

datatype research_reason =
  OutsideEvaluatedSet | InsufficientEvidence | FreshnessRequired | RequestedSource
  | ReevaluationRequired | EvaluatedSetExpansion

fun reason_value :: "research_reason \<Rightarrow> string" where
  "reason_value OutsideEvaluatedSet = ''outside_evaluated_set''"
| "reason_value InsufficientEvidence = ''insufficient_evidence''"
| "reason_value FreshnessRequired = ''freshness_required''"
| "reason_value RequestedSource = ''requested_source''"
| "reason_value ReevaluationRequired = ''reevaluation_required''"
| "reason_value EvaluatedSetExpansion = ''evaluated_set_expansion''"

datatype proposal_status = PendingConfirmation | ProposalCancelled | ProposalReplaced | ConfirmationReceived

datatype auth_status = AuthPending | AuthConsumed | AuthCancelled | AuthInvalidated

datatype principal_type = Guest | Account

fun principal_value :: "principal_type \<Rightarrow> string" where
  "principal_value Guest = ''guest''"
| "principal_value Account = ''account''"

datatype auth_error =
    AuthValueError
  | ShoppingAssistantValidationError
  | ShoppingAssistantNotFoundError string
  | AuthorizationConsumptionConflict string string

record conversation_owner =
  owner_principal_type :: principal_type
  owner_principal_id :: string
  owner_session_id :: string
  owner_expires_at :: datetime

definition check_owner :: "conversation_owner \<Rightarrow> auth_error + conversation_owner" where
  "check_owner o' =
     (if owner_principal_id o' = [] \<or> length (owner_principal_id o') > 128 then Inl AuthValueError
      else if owner_session_id o' = [] \<or> length (owner_session_id o') > 128 then Inl AuthValueError
      else if \<not> is_aware (owner_expires_at o') then Inl AuthValueError
      else Inr o')"

definition has_same_identity :: "conversation_owner \<Rightarrow> conversation_owner \<Rightarrow> bool" where
  "has_same_identity a b =
     ((owner_principal_type a, owner_principal_id a, owner_session_id a) =
      (owner_principal_type b, owner_principal_id b, owner_session_id b))"

record research_proposal =
  rp_proposal_id :: string
  rp_decision_id :: string
  rp_proposal_version :: int
  rp_reason :: research_reason
  rp_status :: proposal_status
  rp_proposal_text :: string
  rp_scope_text :: string
  rp_evaluated_product_ids :: "string list"
  rp_conversation_id :: "string option"
  rp_requested_evidence_topics :: "string list"
  rp_outside_set_product_names :: "string list"
  rp_requested_sources :: "string list"
  rp_destination_label :: "string option"
  rp_expansion_required :: bool
  rp_freshness_required :: bool
  rp_canonical_update_may_be_required :: bool
  rp_confirmation_required :: bool
  rp_canonical_context_version :: int
  rp_session_best_piq_product_id :: "string option"
  rp_original_best_piq_product_id :: "string option"
  rp_replaced_proposal_id :: "string option"
  rp_authorization_id :: "string option"
  rp_created_at :: "datetime option"
  rp_updated_at :: "datetime option"

definition check_proposal :: "research_proposal \<Rightarrow> auth_error + research_proposal" where
  "check_proposal p =
     (if rp_proposal_id p = [] then Inl AuthValueError
      else if rp_decision_id p = [] then Inl AuthValueError
      else if rp_proposal_version p < 1 then Inl AuthValueError
      else if rp_canonical_context_version p < 1 then Inl AuthValueError
      else if strip (rp_proposal_text p) = [] then Inl AuthValueError
      else if strip (rp_scope_text p) = [] then Inl AuthValueError
      else if rp_status p = PendingConfirmation \<and> \<not> rp_confirmation_required p then Inl AuthValueError
      else Inr p)"

record frozen_scope =
  fs_reason :: research_reason
  fs_evaluated_product_ids :: "string list"
  fs_outside_set_product_names :: "string list"
  fs_requested_evidence_topics :: "string list"
  fs_requested_sources :: "string list"
  fs_destination_label :: "string option"
  fs_expansion_required :: bool
  fs_freshness_required :: bool
  fs_canonical_update_may_be_required :: bool

definition jstrs :: "string list \<Rightarrow> json" where
  "jstrs xs = JArr (map JStr xs)"

definition jopt :: "string option \<Rightarrow> json" where
  "jopt v = (case v of None \<Rightarrow> JNull | Some s \<Rightarrow> JStr s)"

definition digest_payload :: "frozen_scope \<Rightarrow> (string \<times> json) list" where
  "digest_payload s =
     [(''reason'', JStr (reason_value (fs_reason s))),
      (''evaluated_product_ids'', jstrs (fs_evaluated_product_ids s)),
      (''outside_set_product_names'', jstrs (fs_outside_set_product_names s)),
      (''requested_evidence_topics'', jstrs (fs_requested_evidence_topics s)),
      (''requested_sources'', jstrs (fs_requested_sources s)),
      (''destination_label'', jopt (fs_destination_label s)),
      (''expansion_required'', JBool (fs_expansion_required s)),
      (''freshness_required'', JBool (fs_freshness_required s)),
      (''canonical_update_may_be_required'', JBool (fs_canonical_update_may_be_required s))]"

record research_authorization =
  ra_id :: string
  ra_version :: int
  ra_owner_binding :: string
  ra_conversation_id :: string
  ra_decision_id :: string
  ra_context_version :: int
  ra_proposal_id :: string
  ra_proposal_version :: int
  ra_scope :: frozen_scope
  ra_scope_digest :: string
  ra_proposal_reason :: research_reason
  ra_evaluated_product_ids :: "string list"
  ra_idempotency_key :: string
  ra_status :: auth_status
  ra_created_at :: datetime
  ra_updated_at :: "datetime option"
  ra_execution_available :: bool

definition check_authorization :: "research_authorization \<Rightarrow> auth_error + research_authorization" where
  "check_authorization a =
     (if ra_id a = [] then Inl AuthValueError
      else if ra_version a < 1 then Inl AuthValueError
      else if ra_owner_binding a = [] then Inl AuthValueError
      else if ra_conversation_id a = [] then Inl AuthValueError
      else if ra_decision_id a = [] then Inl AuthValueError
      else if ra_context_version a < 1 then Inl AuthValueError
      else if ra_proposal_id a = [] then Inl AuthValueError
      else if ra_proposal_version a < 1 then Inl AuthValueError
      else if ra_scope_digest a = [] \<or> length (ra_scope_digest a) \<noteq> 64 then Inl AuthValueError
      else if ra_idempotency_key a = [] then Inl AuthValueError
      else if ra_execution_available a then Inl AuthValueError
      else Inr a)"

record auth_validation =
  av_valid :: bool
  av_reason :: string
  av_authorization :: "research_authorization option"
  av_execution_available :: bool

record research_handoff =
  rh_authorization_id :: string
  rh_authorization_version :: int
  rh_conversation_id :: string
  rh_decision_id :: string
  rh_context_version :: int
  rh_proposal_id :: string
  rh_proposal_version :: int
  rh_scope :: frozen_scope
  rh_scope_digest :: string
  rh_idempotency_key :: string
  rh_status :: auth_status
  rh_execution_available :: bool

definition check_handoff :: "research_handoff \<Rightarrow> auth_error + research_handoff" where
  "check_handoff h =
     (if rh_execution_available h then Inl AuthValueError
      else if rh_status h \<noteq> AuthPending then Inl AuthValueError
      else Inr h)"

record conversation =
  cv_id :: string
  cv_owner :: "conversation_owner option"
  cv_authorizations :: "research_authorization list"

section \<open>Digests and identity\<close>

definition owner_binding_digest :: "conversation_owner \<Rightarrow> string" where
  "owner_binding_digest o' = stable_sha256 (JObj
     [(''principal_type'', JStr (principal_value (owner_principal_type o'))),
      (''principal_id'', JStr (owner_principal_id o')),
      (''session_id'', JStr (owner_session_id o'))])"

definition frozen_scope_from_proposal :: "research_proposal \<Rightarrow> frozen_scope" where
  "frozen_scope_from_proposal p =
     \<lparr>fs_reason = rp_reason p, fs_evaluated_product_ids = rp_evaluated_product_ids p,
      fs_outside_set_product_names = rp_outside_set_product_names p,
      fs_requested_evidence_topics = rp_requested_evidence_topics p,
      fs_requested_sources = rp_requested_sources p, fs_destination_label = rp_destination_label p,
      fs_expansion_required = rp_expansion_required p, fs_freshness_required = rp_freshness_required p,
      fs_canonical_update_may_be_required = rp_canonical_update_may_be_required p\<rparr>"

text \<open>\<open>digest_payload\<close> repeats the key "reason" with the same value.\<close>

definition research_scope_digest ::
  "string \<Rightarrow> int \<Rightarrow> string \<Rightarrow> int \<Rightarrow> frozen_scope \<Rightarrow> string" where
  "research_scope_digest decision_id context_version proposal_id proposal_version scope =
     stable_sha256 (JObj
       ([(''decision_id'', JStr decision_id), (''canonical_context_version'', JInt context_version),
         (''proposal_id'', JStr proposal_id), (''proposal_version'', JInt proposal_version)] @
        digest_payload scope))"

definition derive_authorization_idempotency_key ::
  "conversation_owner \<Rightarrow> string \<Rightarrow> string \<Rightarrow> int \<Rightarrow> string \<Rightarrow> int \<Rightarrow> string \<Rightarrow> string" where
  "derive_authorization_idempotency_key o' conversation_id decision_id context_version proposal_id
       proposal_version scope_digest =
     ''research-auth:'' @ stable_sha256 (JObj
       [(''kind'', JStr ''research_authorization_v1''),
        (''authority'', JStr ''server_derived_owner_conversation_proposal_scope''),
        (''owner_binding'', JStr (owner_binding_digest o')),
        (''conversation_id'', JStr conversation_id), (''decision_id'', JStr decision_id),
        (''canonical_context_version'', JInt context_version), (''proposal_id'', JStr proposal_id),
        (''proposal_version'', JInt proposal_version), (''scope_digest'', JStr scope_digest)])"

text \<open>app/services/research_execution.py, \<open>authorized_execution_id\<close>.\<close>

definition authorized_execution_id :: "string \<Rightarrow> auth_error + string" where
  "authorized_execution_id key =
     (if \<not> starts_with key ''research-auth:'' then Inl AuthValueError
      else Inr (''research-exec:'' @ take 32 (stable_sha256 (JObj
        [(''kind'', JStr ''sprint38_authorized_execution_v1''),
         (''authorization_idempotency_key'', JStr key)]))))"

section \<open>Creation\<close>

definition require_authorizable_proposal ::
  "research_proposal \<Rightarrow> string \<Rightarrow> auth_error + unit" where
  "require_authorizable_proposal p conversation_id =
     (if rp_status p = ProposalCancelled \<or> rp_status p = ProposalReplaced
      then Inl ShoppingAssistantValidationError
      else if rp_status p \<noteq> PendingConfirmation \<and> rp_status p \<noteq> ConfirmationReceived
      then Inl ShoppingAssistantValidationError
      else if rp_proposal_id p = [] \<or> rp_decision_id p = [] then Inl ShoppingAssistantValidationError
      else if (case rp_conversation_id p of None \<Rightarrow> False | Some c \<Rightarrow> c \<noteq> [] \<and> c \<noteq> conversation_id)
      then Inl ShoppingAssistantValidationError
      else if strip (rp_scope_text p) = [] \<or> reason_value (rp_reason p) = []
      then Inl ShoppingAssistantValidationError
      else Inr ())"

definition last_opt :: "'a list \<Rightarrow> 'a option" where
  "last_opt xs = (if xs = [] then None else Some (last xs))"

definition find_by_idempotency ::
  "research_authorization list \<Rightarrow> string \<Rightarrow> research_authorization option" where
  "find_by_idempotency existing key = last_opt (filter (\<lambda>a. ra_idempotency_key a = key) existing)"

definition supported_schema :: "string \<Rightarrow> bool" where
  "supported_schema v = (v \<in> {''1.0'', ''1.1'', ''1.2''})"

definition proposal_digest :: "research_proposal \<Rightarrow> string" where
  "proposal_digest p = research_scope_digest (rp_decision_id p) (rp_canonical_context_version p)
     (rp_proposal_id p) (rp_proposal_version p) (frozen_scope_from_proposal p)"

text \<open>\<open>new_id\<close> is what \<open>id_factory\<close> (by default a random UUID) returns.\<close>

definition create_research_authorization_from_proposal ::
  "research_proposal \<Rightarrow> conversation_owner \<Rightarrow> string \<Rightarrow> datetime \<Rightarrow> string \<Rightarrow> research_authorization list
     \<Rightarrow> string option \<Rightarrow> auth_error + research_authorization" where
  "create_research_authorization_from_proposal p o' conversation_id now new_id existing schema_version =
     and_then (require_authorizable_proposal p conversation_id) (\<lambda>_.
     if (case schema_version of None \<Rightarrow> False | Some v \<Rightarrow> \<not> supported_schema v)
     then Inl ShoppingAssistantValidationError
     else
       (let scope = frozen_scope_from_proposal p;
            digest = research_scope_digest (rp_decision_id p) (rp_canonical_context_version p)
              (rp_proposal_id p) (rp_proposal_version p) scope;
            key = derive_authorization_idempotency_key o' conversation_id (rp_decision_id p)
              (rp_canonical_context_version p) (rp_proposal_id p) (rp_proposal_version p) digest
        in case find_by_idempotency existing key of
             Some matched \<Rightarrow> Inr matched
           | None \<Rightarrow> check_authorization
               \<lparr>ra_id = new_id, ra_version = 1, ra_owner_binding = owner_binding_digest o',
                ra_conversation_id = conversation_id, ra_decision_id = rp_decision_id p,
                ra_context_version = rp_canonical_context_version p, ra_proposal_id = rp_proposal_id p,
                ra_proposal_version = rp_proposal_version p, ra_scope = scope, ra_scope_digest = digest,
                ra_proposal_reason = rp_reason p,
                ra_evaluated_product_ids = rp_evaluated_product_ids p, ra_idempotency_key = key,
                ra_status = AuthPending, ra_created_at = now, ra_updated_at = Some now,
                ra_execution_available = False\<rparr>))"

section \<open>Validation and handoff\<close>

abbreviation invalid :: "string \<Rightarrow> research_authorization \<Rightarrow> auth_validation" where
  "invalid reason a \<equiv> \<lparr>av_valid = False, av_reason = reason, av_authorization = Some a,
          av_execution_available = False\<rparr>"

definition validate_research_authorization_for_execution ::
  "research_authorization option \<Rightarrow> conversation_owner \<Rightarrow> string \<Rightarrow> string \<Rightarrow> int
     \<Rightarrow> research_proposal option \<Rightarrow> string option \<Rightarrow> string option \<Rightarrow> int option
     \<Rightarrow> auth_error + auth_validation" where
  "validate_research_authorization_for_execution authorization o' conversation_id decision_id
       context_version proposal expected_scope_digest expected_proposal_id expected_proposal_version =
     (case authorization of
        None \<Rightarrow> Inr \<lparr>av_valid = False, av_reason = ''not_found'', av_authorization = None,
          av_execution_available = False\<rparr>
      | Some a \<Rightarrow>
        if ra_owner_binding a \<noteq> owner_binding_digest o' then Inl (ShoppingAssistantNotFoundError (ra_id a))
        else Inr
         (if ra_conversation_id a \<noteq> conversation_id then invalid ''wrong_conversation'' a
          else if ra_decision_id a \<noteq> decision_id then invalid ''wrong_decision'' a
          else if ra_context_version a \<noteq> context_version then invalid ''stale_context_version'' a
          else if (case expected_proposal_id of None \<Rightarrow> False | Some e \<Rightarrow> e \<noteq> [] \<and> ra_proposal_id a \<noteq> e)
          then invalid ''proposal_id_mismatch'' a
          else if (case expected_proposal_version of None \<Rightarrow> False | Some e \<Rightarrow> ra_proposal_version a \<noteq> e)
          then invalid ''proposal_version_mismatch'' a
          else if (case proposal of None \<Rightarrow> False | Some p \<Rightarrow> rp_proposal_id p \<noteq> ra_proposal_id a)
          then invalid ''proposal_id_mismatch'' a
          else if (case proposal of None \<Rightarrow> False | Some p \<Rightarrow> rp_proposal_version p \<noteq> ra_proposal_version a)
          then invalid ''proposal_version_mismatch'' a
          else if (case proposal of None \<Rightarrow> False | Some p \<Rightarrow> proposal_digest p \<noteq> ra_scope_digest a)
          then invalid ''scope_digest_mismatch'' a
          else if (case expected_scope_digest of None \<Rightarrow> False | Some e \<Rightarrow> e \<noteq> [] \<and> e \<noteq> ra_scope_digest a)
          then invalid ''scope_digest_mismatch'' a
          else (case ra_status a of
              AuthCancelled \<Rightarrow> invalid ''cancelled'' a
            | AuthInvalidated \<Rightarrow> invalid ''invalidated'' a
            | AuthConsumed \<Rightarrow> invalid ''consumed'' a
            | AuthPending \<Rightarrow> \<lparr>av_valid = True, av_reason = ''authorized_pending_execution'',
                              av_authorization = Some a,
          av_execution_available = False\<rparr>)))"

definition get_authorized_research_handoff ::
  "research_authorization option \<Rightarrow> conversation_owner \<Rightarrow> string \<Rightarrow> string \<Rightarrow> int
     \<Rightarrow> research_proposal option \<Rightarrow> string option \<Rightarrow> auth_error + research_handoff option" where
  "get_authorized_research_handoff authorization o' conversation_id decision_id context_version
       proposal expected_scope_digest =
     and_then (validate_research_authorization_for_execution authorization o' conversation_id decision_id
       context_version proposal expected_scope_digest None None) (\<lambda>result.
     case av_authorization result of
       None \<Rightarrow> Inr None
     | Some a \<Rightarrow>
         if \<not> av_valid result then Inr None
         else and_then (check_handoff
           \<lparr>rh_authorization_id = ra_id a, rh_authorization_version = ra_version a,
            rh_conversation_id = ra_conversation_id a, rh_decision_id = ra_decision_id a,
            rh_context_version = ra_context_version a, rh_proposal_id = ra_proposal_id a,
            rh_proposal_version = ra_proposal_version a, rh_scope = ra_scope a,
            rh_scope_digest = ra_scope_digest a, rh_idempotency_key = ra_idempotency_key a,
            rh_status = ra_status a, rh_execution_available = False\<rparr>) (\<lambda>h. Inr (Some h)))"

text \<open>\<open>get_for_owner\<close> is the conversation repository's owner-bound lookup.\<close>

definition load_research_authorization_for_owner ::
  "(string \<Rightarrow> conversation_owner \<Rightarrow> 'c conversation_scheme option) \<Rightarrow> string \<Rightarrow> conversation_owner \<Rightarrow> string
     \<Rightarrow> auth_error + research_authorization" where
  "load_research_authorization_for_owner get_for_owner authorization_id o' conversation_id =
     (case get_for_owner conversation_id o' of
        None \<Rightarrow> Inl (ShoppingAssistantNotFoundError conversation_id)
      | Some context \<Rightarrow>
          (case find (\<lambda>a. ra_id a = authorization_id) (cv_authorizations context) of
             None \<Rightarrow> Inl (ShoppingAssistantNotFoundError authorization_id)
           | Some found \<Rightarrow>
               if ra_owner_binding found \<noteq> owner_binding_digest o'
               then Inl (ShoppingAssistantNotFoundError authorization_id)
               else Inr found))"

section \<open>Status changes\<close>

definition cancel_research_authorization ::
  "research_authorization \<Rightarrow> datetime \<Rightarrow> auth_error + research_authorization" where
  "cancel_research_authorization a now =
     (if ra_status a = AuthConsumed then Inr a
      else if ra_status a = AuthCancelled then Inr a
      else check_authorization (a\<lparr>ra_status := AuthCancelled, ra_updated_at := Some now,
             ra_execution_available := False\<rparr>))"

definition invalidate_research_authorization ::
  "research_authorization \<Rightarrow> datetime \<Rightarrow> auth_error + research_authorization" where
  "invalidate_research_authorization a now =
     (if ra_status a \<in> {AuthConsumed, AuthCancelled, AuthInvalidated} then Inr a
      else check_authorization (a\<lparr>ra_status := AuthInvalidated, ra_updated_at := Some now,
             ra_execution_available := False\<rparr>))"

definition mark_research_authorization_consumed ::
  "research_authorization \<Rightarrow> datetime \<Rightarrow> auth_error + research_authorization" where
  "mark_research_authorization_consumed a now =
     (if ra_status a \<noteq> AuthPending then Inl ShoppingAssistantValidationError
      else check_authorization (a\<lparr>ra_status := AuthConsumed, ra_updated_at := Some now,
             ra_execution_available := False\<rparr>))"

text \<open>What the caller says about the execution that wants to resume.\<close>

record resume_request =
  rq_conversation_id :: string
  rq_decision_id :: string
  rq_context_version :: int
  rq_proposal_id :: string
  rq_proposal_version :: int
  rq_scope_digest :: string
  rq_execution_id :: string
  rq_execution_plan_id :: string
  rq_execution_authorization_id :: string
  rq_execution_authorization_version :: int
  rq_execution_decision_id :: string
  rq_execution_state :: string
  rq_claim_active :: bool
  rq_requested_plan_id :: string

definition validate_consumed_authorization_for_execution_resume ::
  "research_authorization option \<Rightarrow> conversation_owner \<Rightarrow> resume_request \<Rightarrow> auth_error + auth_validation"
  where
  "validate_consumed_authorization_for_execution_resume authorization o' q =
     (case authorization of
        None \<Rightarrow> Inr \<lparr>av_valid = False, av_reason = ''not_found'', av_authorization = None,
          av_execution_available = False\<rparr>
      | Some a \<Rightarrow>
        if ra_owner_binding a \<noteq> owner_binding_digest o' then Inr (invalid ''wrong_owner'' a)
        else if ra_conversation_id a \<noteq> rq_conversation_id q then Inr (invalid ''wrong_conversation'' a)
        else if ra_decision_id a \<noteq> rq_decision_id q \<or> ra_decision_id a \<noteq> rq_execution_decision_id q
        then Inr (invalid ''wrong_decision'' a)
        else if ra_context_version a \<noteq> rq_context_version q then Inr (invalid ''stale_context_version'' a)
        else if ra_proposal_id a \<noteq> rq_proposal_id q then Inr (invalid ''proposal_id_mismatch'' a)
        else if ra_proposal_version a \<noteq> rq_proposal_version q
        then Inr (invalid ''proposal_version_mismatch'' a)
        else if ra_scope_digest a \<noteq> rq_scope_digest q then Inr (invalid ''scope_digest_mismatch'' a)
        else if ra_status a = AuthCancelled then Inr (invalid ''cancelled'' a)
        else if ra_status a = AuthInvalidated then Inr (invalid ''invalidated'' a)
        else if ra_status a \<noteq> AuthConsumed then Inr (invalid ''not_consumed'' a)
        else if rq_claim_active q then Inr (invalid ''execution_already_claimed'' a)
        else if rq_execution_state q \<noteq> ''claimed_for_attempt''
        then Inr (invalid ''consumed_authorization_not_resumable'' a)
        else if ra_id a \<noteq> rq_execution_authorization_id q \<or>
                ra_version a \<noteq> rq_execution_authorization_version q
        then Inr (invalid ''consumed_authorization_execution_mismatch'' a)
        else if rq_requested_plan_id q \<noteq> rq_execution_plan_id q
        then Inr (invalid ''authorization_plan_conflict'' a)
        else and_then (authorized_execution_id (ra_idempotency_key a)) (\<lambda>expected.
          if rq_execution_id q \<noteq> expected
          then Inr (invalid ''consumed_authorization_execution_mismatch'' a)
          else Inr \<lparr>av_valid = True, av_reason = ''consumed_execution_resumable'',
                    av_authorization = Some a,
          av_execution_available = False\<rparr>))"

record consume_request =
  cq_authorization_id :: string
  cq_authorization_version :: int
  cq_decision_id :: string
  cq_context_version :: int
  cq_proposal_id :: string
  cq_proposal_version :: int
  cq_scope_digest :: string
  cq_idempotency_key :: string

definition identity_matches :: "research_authorization \<Rightarrow> string \<Rightarrow> consume_request \<Rightarrow> bool" where
  "identity_matches a conversation_id q =
     (ra_version a = cq_authorization_version q \<and> ra_conversation_id a = conversation_id \<and>
      ra_decision_id a = cq_decision_id q \<and> ra_context_version a = cq_context_version q \<and>
      ra_proposal_id a = cq_proposal_id q \<and> ra_proposal_version a = cq_proposal_version q \<and>
      ra_scope_digest a = cq_scope_digest q \<and> ra_idempotency_key a = cq_idempotency_key q)"

definition consume_exact_research_authorization ::
  "'c conversation_scheme \<Rightarrow> conversation_owner \<Rightarrow> consume_request \<Rightarrow> datetime
     \<Rightarrow> auth_error + 'c conversation_scheme" where
  "consume_exact_research_authorization context o' q now =
     (let conflict = AuthorizationConsumptionConflict (cv_id context) in
      if (case cv_owner context of None \<Rightarrow> True | Some w \<Rightarrow> \<not> has_same_identity w o')
      then Inl (conflict ''wrong_owner'')
      else
        (case filter (\<lambda>a. ra_id a = cq_authorization_id q) (cv_authorizations context) of
           [current] \<Rightarrow>
             if ra_owner_binding current \<noteq> owner_binding_digest o' then Inl (conflict ''wrong_owner'')
             else if \<not> identity_matches current (cv_id context) q
             then Inl (conflict ''authorization_identity_mismatch'')
             else if ra_status current = AuthConsumed then Inl (conflict ''already_consumed'')
             else if ra_status current \<noteq> AuthPending then Inl (conflict ''not_pending'')
             else and_then (mark_research_authorization_consumed current now) (\<lambda>consumed.
               Inr (context\<lparr>cv_authorizations := map (\<lambda>a.
                 if ra_id a = cq_authorization_id q then consumed else a) (cv_authorizations context)\<rparr>))
         | _ \<Rightarrow> Inl (conflict ''authorization_not_found'')))"

definition upsert_authorization ::
  "research_authorization list \<Rightarrow> research_authorization \<Rightarrow> research_authorization list" where
  "upsert_authorization existing a =
     (let updated = map (\<lambda>item. if ra_id item = ra_id a then a else item) existing
      in if list_ex (\<lambda>item. ra_id item = ra_id a) existing then updated else updated @ [a])"

definition current_unconsumed_authorization ::
  "research_authorization list \<Rightarrow> research_authorization option" where
  "current_unconsumed_authorization existing = last_opt (filter (\<lambda>a. ra_status a = AuthPending) existing)"

definition client_scope_keys :: "string list" where
  "client_scope_keys =
     [''requested_sources'', ''outside_set_product_names'', ''requested_evidence_topics'',
      ''destination_label'', ''expansion_required'', ''freshness_required'', ''research_scope'',
      ''scope'', ''evaluated_product_ids'']"

definition ignore_client_scope_overrides :: "(string, 'v) dict \<Rightarrow> (string, 'v) dict" where
  "ignore_client_scope_overrides payload = filter (\<lambda>(k, v). k \<notin> set client_scope_keys) payload"

section \<open>Lemmas\<close>

lemma check_authorization_id: "check_authorization a = Inr b \<Longrightarrow> b = a"
  by (auto simp: check_authorization_def split: if_splits)

definition valid_authorization :: "research_authorization \<Rightarrow> bool" where
  "valid_authorization a = (check_authorization a = Inr a)"

lemma check_status_change:
  assumes "valid_authorization a"
  shows "check_authorization (a\<lparr>ra_status := st, ra_updated_at := u, ra_execution_available := False\<rparr>) =
    Inr (a\<lparr>ra_status := st, ra_updated_at := u, ra_execution_available := False\<rparr>)"
  using assms by (auto simp: valid_authorization_def check_authorization_def split: if_splits)

lemma last_filter_all: "xs \<noteq> [] \<Longrightarrow> \<forall>x\<in>set xs. x = a \<Longrightarrow> last xs = a"
  using last_in_set by blast

lemma upsert_member: "a \<in> set (upsert_authorization existing a)"
  by (cases "list_ex (\<lambda>item. ra_id item = ra_id a) existing")
    (auto simp: upsert_authorization_def Let_def list_ex_iff)

text \<open>After an upsert the derived key finds the authorization that was put there.\<close>

lemma find_after_upsert:
  assumes "ra_idempotency_key a = k"
    and "find_by_idempotency existing k = Some a \<or> find_by_idempotency existing k = None"
  shows "find_by_idempotency (upsert_authorization existing a) k = Some a"
proof -
  define f where "f = (\<lambda>item. if ra_id item = ra_id a then a else item)"
  have tail: "\<forall>x\<in>set (filter (\<lambda>x. ra_idempotency_key x = k) (map f ys)). x = a"
    if "\<forall>y\<in>set ys. ra_idempotency_key y \<noteq> k" for ys
    using that by (auto simp: f_def)
  show ?thesis
  proof (cases "find_by_idempotency existing k")
    case None
    then have none: "\<forall>y\<in>set existing. ra_idempotency_key y \<noteq> k"
      by (auto simp: find_by_idempotency_def last_opt_def filter_empty_conv split: if_splits)
    define ls where "ls = filter (\<lambda>x. ra_idempotency_key x = k) (upsert_authorization existing a)"
    have all: "\<forall>x\<in>set ls. x = a"
      using tail [OF none] assms(1)
      by (cases "list_ex (\<lambda>item. ra_id item = ra_id a) existing")
        (simp_all add: ls_def upsert_authorization_def Let_def f_def [symmetric] ball_Un)
    have "a \<in> set (upsert_authorization existing a)" by (rule upsert_member)
    then have ne: "ls \<noteq> []" using assms(1) by (auto simp: ls_def filter_empty_conv)
    have "last ls = a" by (rule last_filter_all [OF ne all])
    with ne show ?thesis by (simp add: find_by_idempotency_def ls_def [symmetric] last_opt_def)
  next
    case (Some b)
    then have b: "find_by_idempotency existing k = Some a" using assms(2) by simp
    then have ne: "filter (\<lambda>x. ra_idempotency_key x = k) existing \<noteq> []"
      and last: "last (filter (\<lambda>x. ra_idempotency_key x = k) existing) = a"
      by (auto simp: find_by_idempotency_def last_opt_def split: if_splits)
    obtain zs where zs: "filter (\<lambda>x. ra_idempotency_key x = k) existing = zs @ [a]"
      using ne last append_butlast_last_id by metis
    from filter_eq_ConsD [of "\<lambda>x. ra_idempotency_key x = k" "rev existing" a "rev zs"] zs
    obtain us vs where "rev existing = us @ a # vs" "\<forall>u\<in>set us. ra_idempotency_key u \<noteq> k"
      by (auto simp: rev_filter [symmetric])
    then have ex: "existing = rev vs @ a # rev us" "\<forall>u\<in>set (rev us). ra_idempotency_key u \<noteq> k"
      by (metis append_assoc append_Cons append_Nil rev.simps(2) rev_append rev_rev_ident, simp)
    have up: "upsert_authorization existing a = map f (rev vs) @ a # map f (rev us)"
      by (simp add: upsert_authorization_def Let_def ex(1) f_def [abs_def] list_ex_iff)
    define ls where "ls = filter (\<lambda>x. ra_idempotency_key x = k) (map f (rev us))"
    have "\<forall>x\<in>set (a # ls). x = a" using tail [OF ex(2)] by (auto simp: ls_def)
    then have "last (a # ls) = a" by (rule last_filter_all [rotated]) simp
    then show ?thesis
      using assms(1) by (simp add: find_by_idempotency_def up last_opt_def ls_def)
  qed
qed

lemma find_key: "find_by_idempotency existing k = Some a \<Longrightarrow> ra_idempotency_key a = k \<and> a \<in> set existing"
  using last_in_set [of "filter (\<lambda>x. ra_idempotency_key x = k) existing"]
  by (auto simp: find_by_idempotency_def last_opt_def split: if_splits)

text \<open>The authorization a first confirmation creates.\<close>

definition proposal_key :: "research_proposal \<Rightarrow> conversation_owner \<Rightarrow> string \<Rightarrow> string" where
  "proposal_key p o' conv = derive_authorization_idempotency_key o' conv (rp_decision_id p)
     (rp_canonical_context_version p) (rp_proposal_id p) (rp_proposal_version p) (proposal_digest p)"

definition fresh_authorization ::
  "research_proposal \<Rightarrow> conversation_owner \<Rightarrow> string \<Rightarrow> datetime \<Rightarrow> string \<Rightarrow> research_authorization" where
  "fresh_authorization p o' conv now new_id =
     \<lparr>ra_id = new_id, ra_version = 1, ra_owner_binding = owner_binding_digest o',
      ra_conversation_id = conv, ra_decision_id = rp_decision_id p,
      ra_context_version = rp_canonical_context_version p, ra_proposal_id = rp_proposal_id p,
      ra_proposal_version = rp_proposal_version p, ra_scope = frozen_scope_from_proposal p,
      ra_scope_digest = proposal_digest p, ra_proposal_reason = rp_reason p,
      ra_evaluated_product_ids = rp_evaluated_product_ids p, ra_idempotency_key = proposal_key p o' conv,
      ra_status = AuthPending, ra_created_at = now, ra_updated_at = Some now,
      ra_execution_available = False\<rparr>"

lemma digest_shapes [simp]:
  "owner_binding_digest o' \<noteq> []" "length (proposal_digest p) = 64" "proposal_digest p \<noteq> []"
  "proposal_key p o' conv \<noteq> []" "starts_with (proposal_key p o' conv) ''research-auth:''"
  by (simp_all add: owner_binding_digest_def proposal_digest_def research_scope_digest_def proposal_key_def
      derive_authorization_idempotency_key_def starts_with_iff)

lemma fresh_valid:
  assumes "check_proposal p = Inr p" and "conv \<noteq> []" and "new_id \<noteq> []"
  shows "valid_authorization (fresh_authorization p o' conv now new_id)"
  using assms
  by (auto simp: valid_authorization_def check_authorization_def fresh_authorization_def check_proposal_def
      split: if_splits)

lemma create_unfold:
  "create_research_authorization_from_proposal p o' conv now new_id existing sv =
     and_then (require_authorizable_proposal p conv) (\<lambda>_.
     if (case sv of None \<Rightarrow> False | Some v \<Rightarrow> \<not> supported_schema v) then Inl ShoppingAssistantValidationError
     else (case find_by_idempotency existing (proposal_key p o' conv) of
        Some matched \<Rightarrow> Inr matched
      | None \<Rightarrow> check_authorization (fresh_authorization p o' conv now new_id)))"
  unfolding create_research_authorization_from_proposal_def Let_def fresh_authorization_def
    proposal_key_def proposal_digest_def
  by (rule refl)

lemma create_fresh:
  assumes "check_proposal p = Inr p" and "require_authorizable_proposal p conv = Inr ()"
    and "conv \<noteq> []" and "new_id \<noteq> []" and "sv = None"
    and "find_by_idempotency existing (proposal_key p o' conv) = None"
  shows "create_research_authorization_from_proposal p o' conv now new_id existing sv =
    Inr (fresh_authorization p o' conv now new_id)"
  using fresh_valid [OF assms(1,3,4)] assms(2,5,6)
  by (simp add: create_unfold valid_authorization_def)

text \<open>
  What an authorization must satisfy to be executed on behalf of a caller: it is that owner's, of this
  conversation, decision and context version, still pending, and whatever the caller knows of the
  proposal and the scope digest agrees with what was confirmed.
\<close>

definition executable_for ::
  "research_authorization \<Rightarrow> conversation_owner \<Rightarrow> string \<Rightarrow> string \<Rightarrow> int \<Rightarrow> research_proposal option
     \<Rightarrow> string option \<Rightarrow> string option \<Rightarrow> int option \<Rightarrow> bool" where
  "executable_for a o' c d v p e ep epv =
     (ra_owner_binding a = owner_binding_digest o' \<and> ra_conversation_id a = c \<and>
      ra_decision_id a = d \<and> ra_context_version a = v \<and> ra_status a = AuthPending \<and>
      (\<forall>q. p = Some q \<longrightarrow> rp_proposal_id q = ra_proposal_id a \<and>
         rp_proposal_version q = ra_proposal_version a \<and> proposal_digest q = ra_scope_digest a) \<and>
      (\<forall>q. e = Some q \<longrightarrow> q = [] \<or> q = ra_scope_digest a) \<and>
      (\<forall>q. ep = Some q \<longrightarrow> q = [] \<or> q = ra_proposal_id a) \<and>
      (\<forall>q. epv = Some q \<longrightarrow> q = ra_proposal_version a))"

lemma validation_chain:
  "av_valid (if c then invalid s a else r) \<longleftrightarrow> \<not> c \<and> av_valid r"
  "av_authorization (if c then invalid s a else r) = (if c then Some a else av_authorization r)"
  "(case x of None \<Rightarrow> False | Some y \<Rightarrow> P y) \<longleftrightarrow> (\<exists>y. x = Some y \<and> P y)"
  by (simp_all split: option.splits)

lemma validation_run:
  "validate_research_authorization_for_execution (Some a) o' c d v p e ep epv = Inr r \<Longrightarrow>
   av_authorization r = Some a"
  unfolding validate_research_authorization_for_execution_def
  by (cases "ra_status a") (auto simp: validation_chain(2) simp del: if_split split: if_split_asm)

lemma validation_valid_iff:
  "(\<exists>r. validate_research_authorization_for_execution (Some a) o' c d v p e ep epv = Inr r \<and> av_valid r) \<longleftrightarrow>
   executable_for a o' c d v p e ep epv"
proof (cases "ra_owner_binding a = owner_binding_digest o'")
  case True
  have ex: "(\<exists>r. (Inr u :: auth_error + auth_validation) = Inr r \<and> av_valid r) \<longleftrightarrow> av_valid u" for u by simp
  have st: "av_valid (case ra_status a of AuthCancelled \<Rightarrow> invalid s1 a | AuthInvalidated \<Rightarrow> invalid s2 a
      | AuthConsumed \<Rightarrow> invalid s3 a | AuthPending \<Rightarrow> \<lparr>av_valid = True, av_reason = s4,
          av_authorization = Some a, av_execution_available = False\<rparr>) \<longleftrightarrow> ra_status a = AuthPending"
    for s1 s2 s3 s4 by (cases "ra_status a") simp_all
  show ?thesis
    unfolding validate_research_authorization_for_execution_def executable_for_def option.case
    using True by (simp only: ex validation_chain st not_not if_False simp_thms) blast
next
  case False
  then show ?thesis by (simp add: validate_research_authorization_for_execution_def executable_for_def)
qed

lemma validation_authorization:
  "validate_research_authorization_for_execution auth o' c d v p e ep epv = Inr r \<Longrightarrow>
   av_authorization r = auth"
proof (cases auth)
  case None
  assume "validate_research_authorization_for_execution auth o' c d v p e ep epv = Inr r"
  with None show ?thesis by (auto simp: validate_research_authorization_for_execution_def)
next
  case (Some a)
  assume "validate_research_authorization_for_execution auth o' c d v p e ep epv = Inr r"
  with Some show ?thesis using validation_run by simp
qed

definition handoff_of :: "research_authorization \<Rightarrow> research_handoff" where
  "handoff_of a =
     \<lparr>rh_authorization_id = ra_id a, rh_authorization_version = ra_version a,
      rh_conversation_id = ra_conversation_id a, rh_decision_id = ra_decision_id a,
      rh_context_version = ra_context_version a, rh_proposal_id = ra_proposal_id a,
      rh_proposal_version = ra_proposal_version a, rh_scope = ra_scope a,
      rh_scope_digest = ra_scope_digest a, rh_idempotency_key = ra_idempotency_key a,
      rh_status = ra_status a, rh_execution_available = False\<rparr>"

lemma handoff_pending: "ra_status a = AuthPending \<Longrightarrow> check_handoff (handoff_of a) = Inr (handoff_of a)"
  by (simp add: check_handoff_def handoff_of_def)

lemma handoff_iff:
  "get_authorized_research_handoff (Some a) o' c d v p e = Inr (Some h) \<longleftrightarrow>
   executable_for a o' c d v p e None None \<and> h = handoff_of a"
proof (cases "validate_research_authorization_for_execution (Some a) o' c d v p e None None")
  case (Inl x)
  then have "\<not> executable_for a o' c d v p e None None"
    using validation_valid_iff [of a o' c d v p e None None] by simp
  with Inl show ?thesis by (simp add: get_authorized_research_handoff_def)
next
  case (Inr r)
  then have valid: "av_valid r = executable_for a o' c d v p e None None"
    using validation_valid_iff [of a o' c d v p e None None] by simp
  have auth: "av_authorization r = Some a" by (rule validation_authorization [OF Inr])
  show ?thesis
  proof (cases "av_valid r")
    case True
    then have "ra_status a = AuthPending" using valid by (simp add: executable_for_def)
    note c = handoff_pending [OF this, unfolded handoff_of_def]
    show ?thesis
      using Inr auth valid True by (auto simp: get_authorized_research_handoff_def c handoff_of_def)
  next
    case False
    with Inr auth valid show ?thesis by (simp add: get_authorized_research_handoff_def)
  qed
qed

lemma handoff_foreign:
  "ra_owner_binding a \<noteq> owner_binding_digest w \<Longrightarrow>
   get_authorized_research_handoff (Some a) w c d v p e = Inl (ShoppingAssistantNotFoundError (ra_id a))"
  by (simp add: get_authorized_research_handoff_def validate_research_authorization_for_execution_def)

lemma fresh_executable:
  "executable_for (fresh_authorization p o' conv now new_id) o' conv (rp_decision_id p)
     (rp_canonical_context_version p) (Some p) None None None"
  by (simp add: executable_for_def fresh_authorization_def)

text \<open>A resume succeeds only for a consumed authorization and its own execution.\<close>

definition resumable_for :: "research_authorization \<Rightarrow> conversation_owner \<Rightarrow> resume_request \<Rightarrow> bool" where
  "resumable_for a o' q =
     (ra_owner_binding a = owner_binding_digest o' \<and> ra_conversation_id a = rq_conversation_id q \<and>
      ra_decision_id a = rq_decision_id q \<and> ra_decision_id a = rq_execution_decision_id q \<and>
      ra_context_version a = rq_context_version q \<and> ra_proposal_id a = rq_proposal_id q \<and>
      ra_proposal_version a = rq_proposal_version q \<and> ra_scope_digest a = rq_scope_digest q \<and>
      ra_status a = AuthConsumed \<and> \<not> rq_claim_active q \<and>
      rq_execution_state q = ''claimed_for_attempt'' \<and> ra_id a = rq_execution_authorization_id q \<and>
      ra_version a = rq_execution_authorization_version q \<and>
      rq_requested_plan_id q = rq_execution_plan_id q \<and>
      authorized_execution_id (ra_idempotency_key a) = Inr (rq_execution_id q))"

lemma resume_valid_iff:
  "(\<exists>r. validate_consumed_authorization_for_execution_resume (Some a) o' q = Inr r \<and> av_valid r) \<longleftrightarrow>
   resumable_for a o' q"
  unfolding validate_consumed_authorization_for_execution_resume_def resumable_for_def
  by (cases "ra_status a"; cases "authorized_execution_id (ra_idempotency_key a)") auto

section \<open>Exact consumption\<close>

lemma consume_cases:
  assumes "consume_exact_research_authorization cv o' q now = Inr cv'"
  obtains a b where "filter (\<lambda>a. ra_id a = cq_authorization_id q) (cv_authorizations cv) = [a]"
    "ra_owner_binding a = owner_binding_digest o'" "identity_matches a (cv_id cv) q"
    "ra_status a = AuthPending" "mark_research_authorization_consumed a now = Inr b"
    "cv' = cv\<lparr>cv_authorizations := map (\<lambda>x. if ra_id x = cq_authorization_id q then b else x)
       (cv_authorizations cv)\<rparr>"
    "\<exists>w. cv_owner cv = Some w \<and> has_same_identity w o'"
  using assms unfolding consume_exact_research_authorization_def Let_def
  by (auto simp: and_then_Inr_iff split: if_splits option.splits list.splits)

lemma consumed_form:
  "mark_research_authorization_consumed a now = Inr b \<Longrightarrow>
   b = a\<lparr>ra_status := AuthConsumed, ra_updated_at := Some now, ra_execution_available := False\<rparr>"
  by (auto simp: mark_research_authorization_consumed_def split: if_splits dest!: check_authorization_id)

lemma filter_map_same:
  assumes "\<And>x. P (f x) = P x" shows "filter P (map f xs) = map f (filter P xs)"
  using assms by (induction xs) simp_all

lemma find_distinct_id:
  "a \<in> set xs \<Longrightarrow> distinct (map ra_id xs) \<Longrightarrow> ra_id a = i \<Longrightarrow> find (\<lambda>a. ra_id a = i) xs = Some a"
  by (induction xs) (auto simp: image_iff)

section \<open>The status machine\<close>

inductive auth_step :: "research_authorization \<Rightarrow> research_authorization \<Rightarrow> bool" where
  cancel_step: "cancel_research_authorization a now = Inr b \<Longrightarrow> auth_step a b"
| invalidate_step: "invalidate_research_authorization a now = Inr b \<Longrightarrow> auth_step a b"
| consume_step: "mark_research_authorization_consumed a now = Inr b \<Longrightarrow> auth_step a b"

inductive_simps auth_step_iff: "auth_step a b"

text \<open>Everything a status change leaves alone.\<close>

definition same_binding :: "research_authorization \<Rightarrow> research_authorization \<Rightarrow> bool" where
  "same_binding a b = (b = a\<lparr>ra_status := ra_status b, ra_updated_at := ra_updated_at b,
     ra_execution_available := ra_execution_available b\<rparr>)"

lemma same_binding_refl: "same_binding a a"
  by (simp add: same_binding_def)

lemma same_binding_change:
  "same_binding a (a\<lparr>ra_status := st, ra_updated_at := u, ra_execution_available := v\<rparr>)"
  by (simp add: same_binding_def)

lemma same_binding_trans: "same_binding a b \<Longrightarrow> same_binding b c \<Longrightarrow> same_binding a c"
  unfolding same_binding_def by (cases a; cases b; cases c) simp

fun status_step_ok :: "auth_status \<Rightarrow> auth_status \<Rightarrow> bool" where
  "status_step_ok AuthPending _ = True"
| "status_step_ok AuthInvalidated b = (b = AuthInvalidated \<or> b = AuthCancelled)"
| "status_step_ok a b = (b = a)"

lemma status_step_refl: "status_step_ok x x"
  by (cases x) simp_all

lemma status_step_trans: "status_step_ok x y \<Longrightarrow> status_step_ok y z \<Longrightarrow> status_step_ok x z"
  by (cases x; cases y; cases z) simp_all

lemma status_step_pending: "status_step_ok x y \<Longrightarrow> x \<noteq> AuthPending \<Longrightarrow> y \<noteq> AuthPending"
  by (cases x; cases y) simp_all

lemma auth_step_effect:
  assumes "auth_step a b"
  shows "same_binding a b \<and> status_step_ok (ra_status a) (ra_status b) \<and> (ra_status a = AuthConsumed \<longrightarrow> b = a)"
  using assms unfolding auth_step_iff
  by (cases "ra_status a")
    (auto simp: cancel_research_authorization_def invalidate_research_authorization_def
      mark_research_authorization_consumed_def same_binding_refl
      dest!: check_authorization_id intro: same_binding_change)

section \<open>Properties\<close>

text \<open>
  C12: an authorization never comes back.  Through any sequence of cancellations, invalidations and
  consumptions its owner, decision, proposal, scope and idempotency key stay what they were; a
  consumed one is final; one that left the pending status never returns to it, and one that was
  invalidated can only be cancelled.
\<close>

theorem authorization_never_resurrected:
  assumes "auth_step\<^sup>*\<^sup>* a b"
  shows "same_binding a b \<and> (ra_status a = AuthConsumed \<longrightarrow> b = a) \<and>
    status_step_ok (ra_status a) (ra_status b) \<and>
    (ra_status a \<noteq> AuthPending \<longrightarrow> ra_status b \<noteq> AuthPending)"
  using assms
proof (induction rule: rtranclp_induct)
  case base
  then show ?case by (simp add: same_binding_refl status_step_refl)
next
  case (step b c)
  note e = auth_step_effect [OF step.hyps(2)]
  have "same_binding a c" using step.IH e same_binding_trans by blast
  moreover have "status_step_ok (ra_status a) (ra_status c)"
    using step.IH e status_step_trans by blast
  moreover have "ra_status a = AuthConsumed \<longrightarrow> c = a" using step.IH e by auto
  ultimately show ?case using status_step_pending by blast
qed

definition example_owner :: conversation_owner where
  "example_owner = \<lparr>owner_principal_type = Guest, owner_principal_id = ''p'', owner_session_id = ''s'',
     owner_expires_at = Aware 0\<rparr>"

definition example_proposal :: research_proposal where
  "example_proposal =
     \<lparr>rp_proposal_id = ''prop'', rp_decision_id = ''dec'', rp_proposal_version = 1,
      rp_reason = InsufficientEvidence, rp_status = PendingConfirmation, rp_proposal_text = ''text'',
      rp_scope_text = ''scope'', rp_evaluated_product_ids = [''a''], rp_conversation_id = None,
      rp_requested_evidence_topics = [], rp_outside_set_product_names = [], rp_requested_sources = [],
      rp_destination_label = None, rp_expansion_required = False, rp_freshness_required = False,
      rp_canonical_update_may_be_required = False, rp_confirmation_required = True,
      rp_canonical_context_version = 1, rp_session_best_piq_product_id = None,
      rp_original_best_piq_product_id = None, rp_replaced_proposal_id = None, rp_authorization_id = None,
      rp_created_at = None, rp_updated_at = None\<rparr>"

lemma example_authorizable: "require_authorizable_proposal example_proposal c = Inr ()"
proof -
  have "strip ''scope'' \<noteq> []" by code_simp
  then show ?thesis by (simp add: require_authorizable_proposal_def example_proposal_def)
qed

lemma example_proposal_ok: "check_proposal example_proposal = Inr example_proposal"
proof -
  have "strip ''scope'' \<noteq> []" "strip ''text'' \<noteq> []" by code_simp+
  then show ?thesis by (simp add: check_proposal_def example_proposal_def)
qed

lemma example_created:
  "create_research_authorization_from_proposal example_proposal example_owner ''conv'' (Aware 0) ''auth'' []
     None = Inr (fresh_authorization example_proposal example_owner ''conv'' (Aware 0) ''auth'')"
  by (rule create_fresh) (simp_all add: example_proposal_ok example_authorizable find_by_idempotency_def
      last_opt_def)

theorem authorization_never_resurrected_witness:
  "\<exists>a b. cancel_research_authorization a (Aware 1) = Inr b \<and> ra_status b = AuthCancelled \<and>
    \<not> auth_step\<^sup>*\<^sup>* b a"
proof -
  define a where "a = fresh_authorization example_proposal example_owner ''conv'' (Aware 0) ''auth''"
  have "valid_authorization a" by (simp add: a_def fresh_valid example_proposal_ok)
  have pending: "ra_status a = AuthPending" by (simp add: a_def fresh_authorization_def)
  define b where "b = a\<lparr>ra_status := AuthCancelled, ra_updated_at := Some (Aware 1), ra_execution_available := False\<rparr>"
  have "cancel_research_authorization a (Aware 1) = Inr b"
    using pending check_status_change [OF \<open>valid_authorization a\<close>]
    by (simp add: cancel_research_authorization_def b_def)
  moreover have "\<not> auth_step\<^sup>*\<^sup>* b a"
    using authorization_never_resurrected [of b a] pending by (auto simp: b_def)
  ultimately show ?thesis by (intro exI [of _ a] exI [of _ b]) (simp add: b_def)
qed

text \<open>
  confirming a proposal again mints nothing.  Once a confirmation produced an authorization and
  it was put into the conversation, every repetition of the same bound proposal by the same owner,
  at any time and whatever new id it would draw, returns that very authorization.
\<close>

theorem confirmation_idempotent:
  assumes "create_research_authorization_from_proposal p o' conv now new_id existing sv = Inr a"
  shows "create_research_authorization_from_proposal p o' conv later other_id
    (upsert_authorization existing a) sv = Inr a"
proof -
  let ?k = "proposal_key p o' conv"
  have gate: "require_authorizable_proposal p conv = Inr ()"
    "\<not> (case sv of None \<Rightarrow> False | Some v \<Rightarrow> \<not> supported_schema v)"
    using assms by (auto simp: create_unfold and_then_Inr_iff split: if_splits)
  then have res: "(case find_by_idempotency existing ?k of Some matched \<Rightarrow> Inr matched
      | None \<Rightarrow> check_authorization (fresh_authorization p o' conv now new_id)) = Inr a"
    using assms by (simp add: create_unfold)
  have "ra_idempotency_key a = ?k \<and>
      (find_by_idempotency existing ?k = Some a \<or> find_by_idempotency existing ?k = None)"
  proof (cases "find_by_idempotency existing ?k")
    case None
    then have "a = fresh_authorization p o' conv now new_id" using res check_authorization_id by simp
    with None show ?thesis by (simp add: fresh_authorization_def)
  next
    case (Some b)
    with res show ?thesis using find_key by simp
  qed
  then have "find_by_idempotency (upsert_authorization existing a) ?k = Some a"
    using find_after_upsert by blast
  then show ?thesis using gate by (simp add: create_unfold)
qed

theorem confirmation_idempotent_witness:
  "\<exists>a. create_research_authorization_from_proposal example_proposal example_owner ''conv'' (Aware 9)
    ''other'' (upsert_authorization [] a) None = Inr a \<and> ra_id a = ''auth''"
  using confirmation_idempotent [OF example_created, of "Aware 9" "''other''"]
  by (auto simp: fresh_authorization_def)

text \<open>
  C11: a confirmed proposal is executed as it was approved and by nobody else.  The authorization a
  first confirmation creates hands its owner a packet with exactly the proposal's frozen scope and
  digest; every other caller, conversation, decision, context version or proposal gets none; and once
  the authorization was cancelled, invalidated or consumed nobody gets one.
\<close>

theorem handoff_exactly_as_confirmed:
  assumes created: "create_research_authorization_from_proposal p o' conv now new_id existing sv = Inr a"
    and first: "find_by_idempotency existing (proposal_key p o' conv) = None"
  shows "(\<exists>h. get_authorized_research_handoff (Some a) o' conv (rp_decision_id p)
      (rp_canonical_context_version p) (Some p) None = Inr (Some h) \<and>
      rh_scope h = frozen_scope_from_proposal p \<and> rh_scope_digest h = proposal_digest p \<and>
      rh_idempotency_key h = proposal_key p o' conv \<and> \<not> rh_execution_available h) \<and>
    (\<forall>w c d v q e h. get_authorized_research_handoff (Some a) w c d v q e = Inr (Some h) \<longrightarrow>
      owner_binding_digest w = owner_binding_digest o' \<and> c = conv \<and> d = rp_decision_id p \<and>
      v = rp_canonical_context_version p \<and> rh_scope h = frozen_scope_from_proposal p \<and>
      (\<forall>r. q = Some r \<longrightarrow> proposal_digest r = proposal_digest p)) \<and>
    (\<forall>b w c d v q e h. auth_step a b \<and> ra_status b \<noteq> AuthPending \<longrightarrow>
      get_authorized_research_handoff (Some b) w c d v q e \<noteq> Inr (Some h))"
proof (intro conjI)
  have a: "a = fresh_authorization p o' conv now new_id"
    using created first by (auto simp: create_unfold and_then_Inr_iff split: if_splits dest: check_authorization_id)
  show "\<exists>h. get_authorized_research_handoff (Some a) o' conv (rp_decision_id p)
      (rp_canonical_context_version p) (Some p) None = Inr (Some h) \<and>
      rh_scope h = frozen_scope_from_proposal p \<and> rh_scope_digest h = proposal_digest p \<and>
      rh_idempotency_key h = proposal_key p o' conv \<and> \<not> rh_execution_available h"
    by (rule exI [of _ "handoff_of a"])
      (simp add: a handoff_iff fresh_executable, simp add: handoff_of_def fresh_authorization_def)
  show "\<forall>w c d v q e h. get_authorized_research_handoff (Some a) w c d v q e = Inr (Some h) \<longrightarrow>
      owner_binding_digest w = owner_binding_digest o' \<and> c = conv \<and> d = rp_decision_id p \<and>
      v = rp_canonical_context_version p \<and> rh_scope h = frozen_scope_from_proposal p \<and>
      (\<forall>r. q = Some r \<longrightarrow> proposal_digest r = proposal_digest p)"
  proof (intro allI impI)
    fix w c d v q e h
    assume "get_authorized_research_handoff (Some a) w c d v q e = Inr (Some h)"
    then have ex: "executable_for a w c d v q e None None" and h: "h = handoff_of a"
      unfolding handoff_iff by blast+
    have shape: "ra_owner_binding a = owner_binding_digest o'" "ra_conversation_id a = conv"
      "ra_decision_id a = rp_decision_id p" "ra_context_version a = rp_canonical_context_version p"
      "ra_scope_digest a = proposal_digest p" "ra_scope a = frozen_scope_from_proposal p"
      unfolding a by (simp_all add: fresh_authorization_def)
    show "owner_binding_digest w = owner_binding_digest o' \<and> c = conv \<and> d = rp_decision_id p \<and>
      v = rp_canonical_context_version p \<and> rh_scope h = frozen_scope_from_proposal p \<and>
      (\<forall>r. q = Some r \<longrightarrow> proposal_digest r = proposal_digest p)"
      using ex shape unfolding executable_for_def h by (simp add: handoff_of_def)
  qed
  show "\<forall>b w c d v q e h. auth_step a b \<and> ra_status b \<noteq> AuthPending \<longrightarrow>
      get_authorized_research_handoff (Some b) w c d v q e \<noteq> Inr (Some h)"
    unfolding handoff_iff by (simp add: executable_for_def)
qed

theorem handoff_exactly_as_confirmed_witness:
  "\<exists>a h. get_authorized_research_handoff (Some a) example_owner ''conv'' ''dec'' 1 (Some example_proposal)
      None = Inr (Some h) \<and> fs_evaluated_product_ids (rh_scope h) = [''a'']"
proof -
  have "find_by_idempotency [] k = None" for k by (simp add: find_by_idempotency_def last_opt_def)
  from handoff_exactly_as_confirmed [OF example_created this]
  obtain h where "get_authorized_research_handoff (Some (fresh_authorization example_proposal example_owner
      ''conv'' (Aware 0) ''auth'')) example_owner ''conv'' (rp_decision_id example_proposal)
      (rp_canonical_context_version example_proposal) (Some example_proposal) None = Inr (Some h)"
    "rh_scope h = frozen_scope_from_proposal example_proposal" by blast
  moreover have "rp_decision_id example_proposal = ''dec''" "rp_canonical_context_version example_proposal = 1"
    "fs_evaluated_product_ids (frozen_scope_from_proposal example_proposal) = [''a'']"
    by (simp_all add: example_proposal_def frozen_scope_from_proposal_def)
  ultimately show ?thesis by (metis (no_types))
qed

text \<open>
  C9: an authorization is consumed exactly once, and exactly the one asked for.  A successful
  consumption marks the single authorization with that id, which was pending and matched the request
  in every field, and changes nothing else of it or of the others; the same request repeated is
  refused as already consumed, and any other owner's as the wrong owner's.
\<close>

theorem consumed_exactly_once:
  assumes "consume_exact_research_authorization cv o' q now = Inr cv'"
  shows "(\<exists>us a b vs. cv_authorizations cv = us @ a # vs \<and> cv_authorizations cv' = us @ b # vs \<and>
      (\<forall>x\<in>set us \<union> set vs. ra_id x \<noteq> cq_authorization_id q) \<and> ra_id a = cq_authorization_id q \<and>
      ra_owner_binding a = owner_binding_digest o' \<and> ra_scope_digest a = cq_scope_digest q \<and>
      ra_status a = AuthPending \<and> ra_status b = AuthConsumed \<and> ra_updated_at b = Some now \<and>
      same_binding a b) \<and> cv_id cv' = cv_id cv \<and> cv_owner cv' = cv_owner cv \<and>
    consume_exact_research_authorization cv' o' q later =
      Inl (AuthorizationConsumptionConflict (cv_id cv) ''already_consumed'') \<and>
    (\<forall>w. \<not> has_same_identity o' w \<longrightarrow> consume_exact_research_authorization cv w q later =
      Inl (AuthorizationConsumptionConflict (cv_id cv) ''wrong_owner''))"
proof -
  obtain a b where f: "filter (\<lambda>a. ra_id a = cq_authorization_id q) (cv_authorizations cv) = [a]"
    and own: "ra_owner_binding a = owner_binding_digest o'" and id: "identity_matches a (cv_id cv) q"
    and pend: "ra_status a = AuthPending" and mark: "mark_research_authorization_consumed a now = Inr b"
    and cv': "cv' = cv\<lparr>cv_authorizations := map (\<lambda>x. if ra_id x = cq_authorization_id q then b else x)
       (cv_authorizations cv)\<rparr>"
    and owner: "\<exists>w. cv_owner cv = Some w \<and> has_same_identity w o'"
    using assms by (rule consume_cases)
  let ?f = "\<lambda>x. if ra_id x = cq_authorization_id q then b else x"
  obtain us vs where split: "cv_authorizations cv = us @ a # vs"
    and us: "\<forall>x\<in>set us. ra_id x \<noteq> cq_authorization_id q" and aid: "ra_id a = cq_authorization_id q"
    and "filter (\<lambda>a. ra_id a = cq_authorization_id q) vs = []"
    using filter_eq_ConsD [OF f] by auto
  then have vs: "\<forall>x\<in>set vs. ra_id x \<noteq> cq_authorization_id q" by (simp add: filter_empty_conv)
  note b = consumed_form [OF mark]
  have mus: "map ?f us = us" using us by (intro map_idI) simp
  have mvs: "map ?f vs = vs" using vs by (intro map_idI) simp
  have new: "cv_authorizations cv' = us @ b # vs" by (simp add: cv' split mus mvs aid)
  have fnew: "filter (\<lambda>a. ra_id a = cq_authorization_id q) (us @ b # vs) = [b]"
    using us vs aid by (simp add: filter_empty_conv b)
  have idb: "identity_matches b (cv_id cv) q" using id by (simp add: identity_matches_def b)
  have second: "consume_exact_research_authorization cv' o' q later =
      Inl (AuthorizationConsumptionConflict (cv_id cv) ''already_consumed'')"
    unfolding consume_exact_research_authorization_def Let_def new fnew
    using owner own idb by (auto simp: cv' b)
  have other: "consume_exact_research_authorization cv w q later =
      Inl (AuthorizationConsumptionConflict (cv_id cv) ''wrong_owner'')" if "\<not> has_same_identity o' w" for w
    using owner that unfolding consume_exact_research_authorization_def Let_def
    by (auto simp: has_same_identity_def)
  have sb: "same_binding a b" unfolding b by (rule same_binding_change)
  have "\<exists>us a b vs. cv_authorizations cv = us @ a # vs \<and> cv_authorizations cv' = us @ b # vs \<and>
      (\<forall>x\<in>set us \<union> set vs. ra_id x \<noteq> cq_authorization_id q) \<and> ra_id a = cq_authorization_id q \<and>
      ra_owner_binding a = owner_binding_digest o' \<and> ra_scope_digest a = cq_scope_digest q \<and>
      ra_status a = AuthPending \<and> ra_status b = AuthConsumed \<and> ra_updated_at b = Some now \<and>
      same_binding a b"
    by (rule exI [of _ us], rule exI [of _ a], rule exI [of _ b], rule exI [of _ vs])
      (use split new us vs aid own id pend sb in \<open>simp add: ball_Un identity_matches_def b\<close>)
  with second other show ?thesis by (simp add: cv')
qed

definition example_consume :: consume_request where
  "example_consume =
     \<lparr>cq_authorization_id = ''auth'', cq_authorization_version = 1, cq_decision_id = ''dec'',
      cq_context_version = 1, cq_proposal_id = ''prop'', cq_proposal_version = 1,
      cq_scope_digest = proposal_digest example_proposal,
      cq_idempotency_key = proposal_key example_proposal example_owner ''conv''\<rparr>"

definition example_authorization :: research_authorization where
  "example_authorization = fresh_authorization example_proposal example_owner ''conv'' (Aware 0) ''auth''"

definition example_conversation :: conversation where
  "example_conversation =
     \<lparr>cv_id = ''conv'', cv_owner = Some example_owner, cv_authorizations = [example_authorization]\<rparr>"

lemma example_auth_valid: "valid_authorization example_authorization"
  by (simp add: example_authorization_def fresh_valid example_proposal_ok)

lemma example_marked:
  "mark_research_authorization_consumed example_authorization now =
     Inr (example_authorization\<lparr>ra_status := AuthConsumed, ra_updated_at := Some now,
       ra_execution_available := False\<rparr>)"
  using check_status_change [OF example_auth_valid]
  by (simp add: mark_research_authorization_consumed_def,
      simp add: example_authorization_def fresh_authorization_def)

lemma example_consumes:
  "consume_exact_research_authorization example_conversation example_owner example_consume now =
     Inr (example_conversation\<lparr>cv_authorizations := [example_authorization\<lparr>ra_status := AuthConsumed,
       ra_updated_at := Some now, ra_execution_available := False\<rparr>]\<rparr>)"
proof -
  have "ra_id example_authorization = ''auth''"
    "ra_owner_binding example_authorization = owner_binding_digest example_owner"
    "ra_status example_authorization = AuthPending"
    "identity_matches example_authorization ''conv'' example_consume"
    by (simp_all add: example_authorization_def fresh_authorization_def identity_matches_def
        example_consume_def, simp_all add: example_proposal_def)
  then show ?thesis
    unfolding consume_exact_research_authorization_def Let_def
    by (simp add: example_conversation_def has_same_identity_def example_marked)
      (simp add: example_consume_def)
qed

theorem consumed_exactly_once_witness:
  "\<exists>cv' :: conversation. consume_exact_research_authorization cv' example_owner example_consume (Aware 7) =
    Inl (AuthorizationConsumptionConflict ''conv'' ''already_consumed'')"
  using consumed_exactly_once [OF example_consumes, of "Aware 7"]
  by (auto simp: example_conversation_def)

text \<open>
  consumption moves an authorization from "may start" to "may resume its own execution", never
  both.  A pending one validates no resume; a consumed one validates no execution; and what it
  resumes is, of all requests, the one for the execution id derived from its own idempotency key,
  unclaimed, under the plan already bound and with every binding unchanged.
\<close>

theorem consumption_start_to_resume:
  assumes "mark_research_authorization_consumed a now = Inr b"
  shows "(\<forall>w q r. validate_consumed_authorization_for_execution_resume (Some a) w q = Inr r \<longrightarrow>
      \<not> av_valid r) \<and>
    (\<forall>w c d v p e ep epv r. validate_research_authorization_for_execution (Some b) w c d v p e ep epv = Inr r
      \<longrightarrow> \<not> av_valid r) \<and>
    (\<forall>w q. (\<exists>r. validate_consumed_authorization_for_execution_resume (Some b) w q = Inr r \<and> av_valid r) \<longrightarrow>
      authorized_execution_id (ra_idempotency_key a) = Inr (rq_execution_id q) \<and> \<not> rq_claim_active q \<and>
      rq_requested_plan_id q = rq_execution_plan_id q \<and> ra_owner_binding a = owner_binding_digest w \<and>
      ra_scope_digest a = rq_scope_digest q)"
proof -
  have pend: "ra_status a = AuthPending"
    using assms by (simp add: mark_research_authorization_consumed_def split: if_splits)
  note b = consumed_form [OF assms]
  have 1: "\<not> av_valid r" if "validate_consumed_authorization_for_execution_resume (Some a) w q = Inr r" for w q r
    using resume_valid_iff [of a w q] that pend by (auto simp: resumable_for_def)
  have 2: "\<not> av_valid r"
    if "validate_research_authorization_for_execution (Some b) w c d v p e ep epv = Inr r" for w c d v p e ep epv r
    using validation_valid_iff [of b w c d v p e ep epv] that by (auto simp: executable_for_def b)
  have 3: "\<forall>w q. (\<exists>r. validate_consumed_authorization_for_execution_resume (Some b) w q = Inr r \<and> av_valid r) \<longrightarrow>
      authorized_execution_id (ra_idempotency_key a) = Inr (rq_execution_id q) \<and> \<not> rq_claim_active q \<and>
      rq_requested_plan_id q = rq_execution_plan_id q \<and> ra_owner_binding a = owner_binding_digest w \<and>
      ra_scope_digest a = rq_scope_digest q"
    unfolding resume_valid_iff by (simp add: resumable_for_def b)
  show ?thesis using 1 2 3 by blast
qed

theorem consumption_start_to_resume_witness:
  "\<exists>b. ra_status b = AuthConsumed \<and>
    (\<forall>r. validate_research_authorization_for_execution (Some b) example_owner ''conv'' ''dec'' 1 None None None
      None = Inr r \<longrightarrow> \<not> av_valid r)"
  using consumption_start_to_resume [OF example_marked [of "Aware 1"]]
  by (intro exI [of _ "example_authorization\<lparr>ra_status := AuthConsumed, ra_updated_at := Some (Aware 1),
       ra_execution_available := False\<rparr>"]) simp

text \<open>
  the lookup by owner tells a stranger nothing.  An id that does not exist and one that only
  another owner's authorizations carry raise the same error; what is returned is in the owner's
  conversation, has that id and is bound to the caller; and where ids are distinct the caller's own
  authorization is found.
\<close>

theorem lookup_hides_foreign_authorizations:
  assumes "get_for_owner c w = Some cv"
  shows "((\<forall>a\<in>set (cv_authorizations cv). ra_id a = i \<longrightarrow> ra_owner_binding a \<noteq> owner_binding_digest w) \<longrightarrow>
      load_research_authorization_for_owner get_for_owner i w c = Inl (ShoppingAssistantNotFoundError i)) \<and>
    (\<forall>a. load_research_authorization_for_owner get_for_owner i w c = Inr a \<longrightarrow>
      a \<in> set (cv_authorizations cv) \<and> ra_id a = i \<and> ra_owner_binding a = owner_binding_digest w) \<and>
    (\<forall>a\<in>set (cv_authorizations cv). distinct (map ra_id (cv_authorizations cv)) \<and> ra_id a = i \<and>
      ra_owner_binding a = owner_binding_digest w \<longrightarrow>
      load_research_authorization_for_owner get_for_owner i w c = Inr a)"
proof (intro conjI)
  let ?P = "\<lambda>a. ra_id a = i"
  have found: "find ?P xs = Some a \<Longrightarrow> a \<in> set xs \<and> ?P a" for xs a
    by (auto simp: find_Some_iff)
  show "(\<forall>a\<in>set (cv_authorizations cv). ra_id a = i \<longrightarrow> ra_owner_binding a \<noteq> owner_binding_digest w) \<longrightarrow>
      load_research_authorization_for_owner get_for_owner i w c = Inl (ShoppingAssistantNotFoundError i)"
    using assms found
    by (cases "find ?P (cv_authorizations cv)") (auto simp: load_research_authorization_for_owner_def)
  show "\<forall>a. load_research_authorization_for_owner get_for_owner i w c = Inr a \<longrightarrow>
      a \<in> set (cv_authorizations cv) \<and> ra_id a = i \<and> ra_owner_binding a = owner_binding_digest w"
    using assms found
    by (cases "find ?P (cv_authorizations cv)")
      (auto simp: load_research_authorization_for_owner_def split: if_splits)
  show "\<forall>a\<in>set (cv_authorizations cv). distinct (map ra_id (cv_authorizations cv)) \<and> ra_id a = i \<and>
      ra_owner_binding a = owner_binding_digest w \<longrightarrow>
      load_research_authorization_for_owner get_for_owner i w c = Inr a"
  proof (intro ballI impI, elim conjE)
    fix a
    assume a: "a \<in> set (cv_authorizations cv)" "distinct (map ra_id (cv_authorizations cv))" "ra_id a = i"
      "ra_owner_binding a = owner_binding_digest w"
    have "find ?P (cv_authorizations cv) = Some a" using a(1-3) by (simp add: find_distinct_id)
    then show "load_research_authorization_for_owner get_for_owner i w c = Inr a"
      using assms a(4) by (simp add: load_research_authorization_for_owner_def)
  qed
qed

theorem lookup_hides_foreign_authorizations_witness:
  "load_research_authorization_for_owner (\<lambda>c w. if c = ''conv'' \<and> w = example_owner
     then Some example_conversation else None) ''auth'' example_owner ''conv'' = Inr example_authorization"
proof -
  let ?g = "\<lambda>c w. if c = ''conv'' \<and> w = example_owner then Some example_conversation else None"
  have "?g ''conv'' example_owner = Some example_conversation" by simp
  from lookup_hides_foreign_authorizations [of ?g, OF this] show ?thesis
    by (simp add: example_conversation_def example_authorization_def fresh_authorization_def)
qed

end
