(* ===== verification/SqlTable.thy ===== *)
theory SqlTable
  imports Prelude
begin

text \<open>
  The part of SQL and of a database session the SQL adapters under
  app/infrastructure/database use: one table as a dictionary from primary key to row, the
  statements UPDATE .. RETURNING, DELETE and INSERT, and the retry loop around one transaction.

  A transaction body runs on the table it sees and either commits a new table with a value or
  raises: then the session rolls back and the table is unchanged.  What the database itself does
  to an attempt (a competing writer, a lost connection) is not decided by this code, so it is an
  input: the list \<open>faults\<close> gives the exception of each attempt in turn, \<open>None\<close> where the
  attempt meets none; an exhausted list means no further fault.
\<close>

section \<open>Statements\<close>

text \<open>UPDATE: the new table and the rows RETURNING gives, in table order.\<close>

definition sql_update ::
  "('k \<Rightarrow> 'r \<Rightarrow> bool) \<Rightarrow> ('r \<Rightarrow> 'r) \<Rightarrow> ('k, 'r) dict \<Rightarrow> ('k, 'r) dict \<times> 'r list" where
  "sql_update P f t =
     (map (\<lambda>(k, r). (k, if P k r then f r else r)) t,
      map (\<lambda>(k, r). f r) (filter (\<lambda>(k, r). P k r) t))"

definition sql_delete :: "('k \<Rightarrow> 'r \<Rightarrow> bool) \<Rightarrow> ('k, 'r) dict \<Rightarrow> ('k, 'r) dict \<times> nat" where
  "sql_delete P t =
     (filter (\<lambda>(k, r). \<not> P k r) t, length (filter (\<lambda>(k, r). P k r) t))"

text \<open>INSERT raises IntegrityError, here \<open>None\<close>, when the primary key is taken.\<close>

definition sql_insert :: "'k \<Rightarrow> 'r \<Rightarrow> ('k, 'r) dict \<Rightarrow> ('k, 'r) dict option" where
  "sql_insert k r t = (if dict_get t k = None then Some (t @ [(k, r)]) else None)"

definition first_row :: "'r list \<Rightarrow> 'r option" where
  "first_row rs = (case rs of [] \<Rightarrow> None | r # _ \<Rightarrow> Some r)"

lemma sql_update_get [dict_simps]:
  "dict_get (fst (sql_update P f t)) k =
     map_option (\<lambda>r. if P k r then f r else r) (dict_get t k)"
  by (simp add: sql_update_def dict_get_map_val)

lemma sql_update_ok [simp, intro]: "dict_ok t \<Longrightarrow> dict_ok (fst (sql_update P f t))"
  by (simp add: sql_update_def)

lemma sql_delete_get [dict_simps]:
  assumes "dict_ok t"
  shows "dict_get (fst (sql_delete P t)) k =
    (case dict_get t k of None \<Rightarrow> None | Some r \<Rightarrow> if P k r then None else Some r)"
  using dict_get_filter [OF assms, of "\<lambda>k r. \<not> P k r" k]
  by (auto simp: sql_delete_def split: option.splits)

lemma sql_delete_ok [simp, intro]: "dict_ok t \<Longrightarrow> dict_ok (fst (sql_delete P t))"
  by (simp add: sql_delete_def)

lemma sql_insert_get [dict_simps]:
  "sql_insert k r t = Some t' \<Longrightarrow> dict_get t' k' = (if k' = k then Some r else dict_get t k')"
  by (auto simp: sql_insert_def map_add_def split: if_splits option.splits)

lemma sql_insert_ok: "sql_insert k r t = Some t' \<Longrightarrow> dict_ok t \<Longrightarrow> dict_ok t'"
  by (auto simp: sql_insert_def dict_ok_def map_of_eq_None_iff split: if_splits)

text \<open>A statement on one primary key touches at most one row.\<close>

lemma filter_one_key:
  assumes "dict_ok t"
  shows "filter (\<lambda>(k, r). k = i \<and> P r) t =
    (case dict_get t i of None \<Rightarrow> [] | Some r \<Rightarrow> if P r then [(i, r)] else [])"
  using assms
proof (induction t)
  case Nil
  then show ?case by simp
next
  case (Cons kr t)
  obtain k r where kr: "kr = (k, r)" by (cases kr)
  from Cons.prems kr have ok: "dict_ok t" and new: "dict_get t k = None"
    by (auto simp: dict_ok_def map_of_eq_None_iff)
  show ?case
    using Cons.IH [OF ok] new by (auto simp: kr split: option.splits)
qed

lemma sql_update_one_key:
  assumes "dict_ok t"
  shows "snd (sql_update (\<lambda>k r. k = i \<and> P r) f t) =
    (case dict_get t i of None \<Rightarrow> [] | Some r \<Rightarrow> if P r then [f r] else [])"
  using filter_one_key [OF assms, of i P] by (simp add: sql_update_def split: option.splits)

lemma sql_update_key:
  assumes "dict_ok t" and "sql_update (\<lambda>k r. k = i \<and> P r) f t = (t', rows)"
  shows "dict_ok t' \<and>
    (case dict_get t i of
       Some r \<Rightarrow> if P r then dict_get t' = (dict_get t)(i \<mapsto> f r) \<and> rows = [f r]
                 else dict_get t' = dict_get t \<and> rows = []
     | None \<Rightarrow> dict_get t' = dict_get t \<and> rows = [])"
proof -
  have t': "t' = fst (sql_update (\<lambda>k r. k = i \<and> P r) f t)"
    and rows: "rows = snd (sql_update (\<lambda>k r. k = i \<and> P r) f t)"
    using assms(2) by simp_all
  have get: "dict_get t' k = (if k = i then map_option (\<lambda>r. if P r then f r else r) (dict_get t i)
      else dict_get t k)" for k
    by (auto simp: t' dict_simps map_option_case split: option.splits)
  have "dict_ok t'" using assms(1) by (simp add: t')
  then show ?thesis
    using assms(1) by (auto simp: rows sql_update_one_key fun_eq_iff get split: option.splits)
qed

lemma sql_delete_one_key:
  assumes "dict_ok t"
  shows "snd (sql_delete (\<lambda>k r. k = i \<and> P r) t) =
    (case dict_get t i of None \<Rightarrow> 0 | Some r \<Rightarrow> if P r then 1 else 0)"
  using filter_one_key [OF assms, of i P] by (simp add: sql_delete_def split: option.splits)

lemma sql_update_none_id: "(\<forall>(k, r) \<in> set t. \<not> P k r) \<Longrightarrow> fst (sql_update P f t) = t"
  by (induction t) (auto simp: sql_update_def)

section \<open>Exceptions and retries\<close>

datatype db_exc = IntegrityError | OperationalError string | OtherDbError

definition retry_tokens :: "string list" where
  "retry_tokens =
     [''locked'', ''busy'', ''deadlock'', ''serialization'', ''could not serialize'']"

fun retryable :: "db_exc \<Rightarrow> bool" where
  "retryable IntegrityError = True"
| "retryable (OperationalError m) = list_ex (contains (map to_lower m)) retry_tokens"
| "retryable OtherDbError = False"

text \<open>
  \<open>for _ in range(n)\<close> around one transaction.  The body returns \<open>None\<close> where it raises the
  adapter's own \<open>_Retry\<close> or a raced \<open>IntegrityError\<close>.  The result is \<open>None\<close> where the
  adapter raises its Unavailable error: after a fault that is not retryable, or when every attempt
  was used.
\<close>

fun with_retries ::
  "nat \<Rightarrow> db_exc option list \<Rightarrow> ('t \<Rightarrow> ('t \<times> 'a) option) \<Rightarrow> 't \<Rightarrow> 't \<times> 'a option" where
  "with_retries 0 fs body t = (t, None)"
| "with_retries (Suc n) (Some e # fs) body t =
     (if retryable e then with_retries n fs body t else (t, None))"
| "with_retries (Suc n) fs body t =
     (case body t of
        Some (t', x) \<Rightarrow> (t', Some x)
      | None \<Rightarrow> with_retries n (tl fs) body t)"

text \<open>All or nothing: the loop either commits one run of the body or leaves the table alone.\<close>

lemma with_retries_atomic:
  "with_retries n fs body t = (t, None) \<or>
   (\<exists>t' x. body t = Some (t', x) \<and> with_retries n fs body t = (t', Some x))"
  by (induction n fs body t rule: with_retries.induct) (auto split: option.splits)

lemma with_retries_clean:
  assumes "0 < n" and "body t = Some (t', x)"
  shows "with_retries n [] body t = (t', Some x)"
  using assms by (cases n) auto

text \<open>Fewer retryable faults than attempts only delay the commit.\<close>

lemma with_retries_survives:
  assumes "length es < n" and "list_all retryable es" and "body t = Some (t', x)"
  shows "with_retries n (map Some es) body t = (t', Some x)"
  using assms
proof (induction es arbitrary: n)
  case Nil
  then show ?case by (simp add: with_retries_clean)
next
  case (Cons e es)
  then obtain m where "n = Suc m" by (cases n) auto
  with Cons show ?case by simp
qed

lemma with_retries_exhausted:
  assumes "n \<le> length es" and "list_all retryable es"
  shows "with_retries n (map Some es) body t = (t, None)"
  using assms
proof (induction es arbitrary: n)
  case Nil
  then show ?case by simp
next
  case (Cons e es)
  then show ?case by (cases n) auto
qed

end
