(* ===== verification/OperationalStore.thy ===== *)
theory OperationalStore
  imports SqlTable
begin

text \<open>
  app/infrastructure/persistence/operational_store.py: the versioned operations on the
  operational_entities table that the research repositories use.  A table here holds the rows of
  one store namespace, by entity id; the JSON payload is kept as the entity itself (the codec is not
  modelled), and \<open>seq\<close> is the row version.
\<close>

record 'e op_row =
  op_payload :: 'e
  op_seq :: int
  op_owner :: "string option"

type_synonym 'e op_table = "(string, 'e op_row) dict"

definition get_versioned :: "'e op_table \<Rightarrow> string \<Rightarrow> ('e \<times> int \<times> string option) option" where
  "get_versioned t entity_id =
     map_option (\<lambda>r. (op_payload r, op_seq r, op_owner r)) (dict_get t entity_id)"

text \<open>\<open>None\<close> is PersistenceConflictError: the entity id is taken.\<close>

definition insert_versioned ::
  "'e op_table \<Rightarrow> string \<Rightarrow> 'e \<Rightarrow> int \<Rightarrow> string option \<Rightarrow> 'e op_table option" where
  "insert_versioned t entity_id entity version owner_id =
     sql_insert entity_id \<lparr>op_payload = entity, op_seq = version, op_owner = owner_id\<rparr> t"

definition compare_and_swap ::
  "'e op_table \<Rightarrow> string \<Rightarrow> 'e \<Rightarrow> int \<Rightarrow> int \<Rightarrow> string option \<Rightarrow> 'e op_table \<times> bool" where
  "compare_and_swap t entity_id entity expected_version new_version owner_id =
     (let (t', rows) = sql_update (\<lambda>k r. k = entity_id \<and> op_seq r = expected_version)
        (\<lambda>r. r\<lparr>op_payload := entity, op_owner := owner_id, op_seq := new_version\<rparr>) t
      in (t', rows \<noteq> []))"

definition delete_versioned :: "'e op_table \<Rightarrow> string \<Rightarrow> int \<Rightarrow> 'e op_table \<times> bool" where
  "delete_versioned t entity_id expected_version =
     (let (t', n) = sql_delete (\<lambda>k r. k = entity_id \<and> op_seq r = expected_version) t in (t', n \<noteq> 0))"

text \<open>
  \<open>list\<close> with a predicate (which may raise): the rows of an owner, where one is given, by version and then
  by insertion, the predicate, and then the limit.
\<close>

fun filter_raising :: "('a \<Rightarrow> 'x + bool) \<Rightarrow> 'a list \<Rightarrow> 'x + 'a list" where
  "filter_raising p [] = Inr []"
| "filter_raising p (x # xs) =
     and_then (p x) (\<lambda>b. and_then (filter_raising p xs) (\<lambda>ys. Inr (if b then x # ys else ys)))"

definition op_list ::
  "'e op_table \<Rightarrow> string option \<Rightarrow> nat option \<Rightarrow> ('e \<Rightarrow> 'x + bool) \<Rightarrow> 'x + 'e list" where
  "op_list t owner_id limit predicate =
     (let rows = sort_key op_seq (map snd t);
          mine = (if owner_id = None then rows else filter (\<lambda>r. op_owner r = owner_id) rows)
      in and_then (filter_raising predicate (map op_payload mine)) (\<lambda>items.
         Inr (case limit of None \<Rightarrow> items | Some n \<Rightarrow> take n items)))"

text \<open>Compare-and-swap replaces the row exactly when its version is the expected one.\<close>

lemma compare_and_swap_result:
  assumes "dict_ok t" and "compare_and_swap t i e ev nv ow = (t', b)"
  shows "dict_ok t' \<and> (b \<longleftrightarrow> (\<exists>r. dict_get t i = Some r \<and> op_seq r = ev)) \<and>
    (if b then dict_get t' = (dict_get t)(i \<mapsto> \<lparr>op_payload = e, op_seq = nv, op_owner = ow\<rparr>)
     else dict_get t' = dict_get t)"
proof -
  obtain rows where upd: "sql_update (\<lambda>k r. k = i \<and> op_seq r = ev)
      (\<lambda>r. r\<lparr>op_payload := e, op_owner := ow, op_seq := nv\<rparr>) t = (t', rows)" and b: "b = (rows \<noteq> [])"
    using assms(2) by (auto simp: compare_and_swap_def split: prod.splits)
  have eq: "r\<lparr>op_payload := e, op_owner := ow, op_seq := nv\<rparr> = \<lparr>op_payload = e, op_seq = nv, op_owner = ow\<rparr>"
    for r :: "'a op_row" by simp
  show ?thesis
    using sql_update_key [OF assms(1) upd] by (auto simp: b eq split: option.splits if_splits)
qed

lemma insert_versioned_None: "insert_versioned t i e v ow = None \<longleftrightarrow> dict_get t i \<noteq> None"
  by (simp add: insert_versioned_def sql_insert_def)

lemma insert_versioned_result:
  assumes "dict_ok t" and "insert_versioned t i e v ow = Some t'"
  shows "dict_ok t' \<and> dict_get t' = (dict_get t)(i \<mapsto> \<lparr>op_payload = e, op_seq = v, op_owner = ow\<rparr>)"
  using sql_insert_ok [OF assms(2) [unfolded insert_versioned_def] assms(1)]
    sql_insert_get [OF assms(2) [unfolded insert_versioned_def]]
  by (auto simp: fun_eq_iff)

lemma delete_versioned_result:
  assumes "dict_ok t" and "delete_versioned t i ev = (t', b)"
  shows "dict_ok t' \<and> (b \<longleftrightarrow> (\<exists>r. dict_get t i = Some r \<and> op_seq r = ev)) \<and>
    dict_get t' = (if b then (dict_get t)(i := None) else dict_get t)"
proof -
  have t': "t' = filter (\<lambda>(k, r). \<not> (k = i \<and> op_seq r = ev)) t"
    and b: "b = (filter (\<lambda>(k, r). k = i \<and> op_seq r = ev) t \<noteq> [])"
    using assms(2) by (auto simp: delete_versioned_def sql_delete_def)
  have "b \<longleftrightarrow> (\<exists>r. dict_get t i = Some r \<and> op_seq r = ev)"
    using assms(1) by (force simp: b filter_empty_conv dict_get_in_set)
  moreover have "dict_get t' = (if b then (dict_get t)(i := None) else dict_get t)"
    using calculation by (auto simp: t' fun_eq_iff dict_get_filter [OF assms(1)] split: option.split)
  ultimately show ?thesis using assms(1) by (simp add: t')
qed

end
