(* ===== verification/Execution.thy ===== *)
theory Execution
  imports Authorization OperationalStore
begin

text \<open>
  app/domain/entities/research_execution.py (the authoritative trace), app/services/research_execution.py
  (the in-process binding ledger) and app/research/authorized_execution_repository.py: the durable
  execution record with its constructor checks, and the repositories that bind an authorization to one
  plan and replace a row only at its expected revision, in process memory and in the operational store.
  The locale \<open>execution_repository\<close> is their contract: both are the map of \<open>spec_exec_repository\<close>.
\<close>

section \<open>The authoritative trace\<close>

datatype research_capability =
  ProductDiscovery | OfferDiscovery | CurrentPricing | Availability | Shipping | TaxesImport |
  PromotionEvidence | WarrantyEvidence | ProductSpecification | ReviewCommunityEvidence

datatype attempt_status = NotAttempted | AttemptSucceeded | AttemptFailed | AttemptTimedOut | AttemptUnknown

text \<open>\<open>not x\<close> on an optional string: \<open>None\<close> and the empty string are false.\<close>

definition blank :: "string option \<Rightarrow> bool" where
  "blank v = (case v of None \<Rightarrow> True | Some s \<Rightarrow> s = [])"

definition naive_or_none :: "datetime option \<Rightarrow> bool" where
  "naive_or_none v = (case v of None \<Rightarrow> True | Some d \<Rightarrow> \<not> is_aware d)"

definition require_durable_evidence_reference :: "string \<Rightarrow> auth_error + unit" where
  "require_durable_evidence_reference evidence_id =
     (if evidence_id = [] \<or> evidence_id \<noteq> strip evidence_id then Inl AuthValueError
      else if length evidence_id = 64 \<and> list_all is_lower_hex evidence_id then Inl AuthValueError
      else Inr ())"

text \<open>A loop that raises at the first element that fails.\<close>

fun each_ok :: "('a \<Rightarrow> 'e + unit) \<Rightarrow> 'a list \<Rightarrow> 'e + unit" where
  "each_ok f [] = Inr ()"
| "each_ok f (x # xs) = and_then (f x) (\<lambda>_. each_ok f xs)"

record trace_step =
  ts_plan_id :: string
  ts_provider_id :: string
  ts_requested_capability :: research_capability
  ts_market :: "string option"
  ts_source :: "string option"
  ts_attempted :: bool
  ts_attempt_status :: attempt_status
  ts_evidence_ids :: "string list"
  ts_started_at :: "datetime option"
  ts_finished_at :: "datetime option"
  ts_error_category :: "string option"
  ts_evaluated_offer_count :: int
  ts_freshness_checked_at :: "datetime option"

definition check_freshness :: "trace_step \<Rightarrow> auth_error + trace_step" where
  "check_freshness s =
     (if ts_freshness_checked_at s = None then Inr s
      else if naive_or_none (ts_freshness_checked_at s) then Inl AuthValueError
      else if ts_attempt_status s \<noteq> AttemptSucceeded then Inl AuthValueError
      else Inr s)"

definition check_trace_step :: "trace_step \<Rightarrow> auth_error + trace_step" where
  "check_trace_step s =
     (if ts_evaluated_offer_count s < 0 then Inl AuthValueError
      else if \<not> ts_attempted s then
        (if ts_attempt_status s \<noteq> NotAttempted then Inl AuthValueError
         else if ts_evidence_ids s \<noteq> [] \<or> ts_started_at s \<noteq> None \<or> ts_finished_at s \<noteq> None
         then Inl AuthValueError
         else if ts_evaluated_offer_count s \<noteq> 0 \<or> ts_freshness_checked_at s \<noteq> None then Inl AuthValueError
         else if ts_error_category s \<noteq> None \<or> ts_source s \<noteq> None then Inl AuthValueError
         else Inr s)
      else if ts_attempt_status s = NotAttempted then Inl AuthValueError
      else if blank (ts_source s) \<or> ts_market s = None then Inl AuthValueError
      else if ts_started_at s = None \<or> ts_finished_at s = None then Inl AuthValueError
      else if naive_or_none (ts_started_at s) \<or> naive_or_none (ts_finished_at s) then Inl AuthValueError
      else if micros (the (ts_finished_at s)) < micros (the (ts_started_at s)) then Inl AuthValueError
      else if ts_attempt_status s = AttemptSucceeded then
        (if ts_evaluated_offer_count s < 1 \<or> ts_error_category s \<noteq> None then Inl AuthValueError
         else and_then (each_ok require_durable_evidence_reference (ts_evidence_ids s)) (\<lambda>_. check_freshness s))
      else if ts_evaluated_offer_count s \<noteq> 0 \<or> ts_evidence_ids s \<noteq> [] then Inl AuthValueError
      else if blank (ts_error_category s) then Inl AuthValueError
      else check_freshness s)"

record execution_trace =
  tr_plan_id :: string
  tr_steps :: "trace_step list"
  tr_attempted_sources :: "string list"
  tr_succeeded_sources :: "string list"
  tr_failed_sources :: "string list"
  tr_timed_out_sources :: "string list"
  tr_evaluated_offer_count :: int

text \<open>\<open>tuple(step.source for step in steps if ... and step.source)\<close>.\<close>

definition step_sources :: "(trace_step \<Rightarrow> bool) \<Rightarrow> trace_step list \<Rightarrow> string list" where
  "step_sources P steps = map (\<lambda>s. the (ts_source s)) (filter (\<lambda>s. P s \<and> \<not> blank (ts_source s)) steps)"

definition has_status :: "attempt_status \<Rightarrow> trace_step \<Rightarrow> bool" where
  "has_status st s = (ts_attempt_status s = st)"

definition check_trace :: "execution_trace \<Rightarrow> auth_error + execution_trace" where
  "check_trace t =
     (if tr_steps t = [] then
        (if tr_attempted_sources t \<noteq> [] \<or> tr_succeeded_sources t \<noteq> [] \<or> tr_failed_sources t \<noteq> [] \<or>
            tr_timed_out_sources t \<noteq> [] \<or> tr_evaluated_offer_count t \<noteq> 0
         then Inl AuthValueError else Inr t)
      else if list_ex (\<lambda>s. \<not> ts_attempted s) (tr_steps t) then Inl AuthValueError
      else if list_ex (\<lambda>s. ts_plan_id s \<noteq> tr_plan_id t) (tr_steps t) then Inl AuthValueError
      else if step_sources (\<lambda>_. True) (tr_steps t) \<noteq> tr_attempted_sources t then Inl AuthValueError
      else if step_sources (has_status AttemptSucceeded) (tr_steps t) \<noteq> tr_succeeded_sources t
      then Inl AuthValueError
      else if step_sources (has_status AttemptFailed) (tr_steps t) \<noteq> tr_failed_sources t
      then Inl AuthValueError
      else if step_sources (has_status AttemptTimedOut) (tr_steps t) \<noteq> tr_timed_out_sources t
      then Inl AuthValueError
      else if sum_list (map ts_evaluated_offer_count (tr_steps t)) \<noteq> tr_evaluated_offer_count t
      then Inl AuthValueError
      else Inr t)"

definition empty_execution_trace :: "string \<Rightarrow> auth_error + execution_trace" where
  "empty_execution_trace plan_id =
     check_trace \<lparr>tr_plan_id = plan_id, tr_steps = [], tr_attempted_sources = [], tr_succeeded_sources = [],
       tr_failed_sources = [], tr_timed_out_sources = [], tr_evaluated_offer_count = 0\<rparr>"

section \<open>The durable record\<close>

datatype exec_state = PreparedUnavailable | ClaimedForAttempt | Running | Completed | Failed | OutcomeUnknown

record durable_execution =
  dx_execution_id :: string
  dx_authorization_id :: string
  dx_authorization_version :: int
  dx_decision_id :: string
  dx_plan_id :: string
  dx_created_at :: datetime
  dx_updated_at :: datetime
  dx_revision :: int
  dx_state :: exec_state
  dx_claimed_at :: "datetime option"
  dx_claim_expires_at :: "datetime option"
  dx_claim_digest :: "string option"
  dx_attempt_started_at :: "datetime option"
  dx_finished_at :: "datetime option"
  dx_attempted_provider_id :: "string option"
  dx_attempted_capability :: "string option"
  dx_attempted_market :: "string option"
  dx_attempted_source :: "string option"
  dx_outcome :: "string option"
  dx_error_category :: "string option"
  dx_evaluated_offer_count :: int
  dx_normalized_offer_count :: int
  dx_returned_currencies :: "string list"
  dx_normalized_amount_minors :: "int list"
  dx_evidence_ids :: "string list"
  dx_normalized_offer_digests :: "string list"
  dx_observation_kind :: "string option"
  dx_request_digest :: "string option"
  dx_trace :: "execution_trace option"
  dx_raw_response_persisted :: bool

definition terminal_execution_states :: "exec_state set" where
  "terminal_execution_states = {Completed, Failed, OutcomeUnknown}"

definition claim_states :: "exec_state set" where
  "claim_states = {ClaimedForAttempt, Running}"

definition sha256_text :: "string \<Rightarrow> auth_error + unit" where
  "sha256_text digest =
     (if length digest \<noteq> 64 \<or> list_ex (\<lambda>c. \<not> is_lower_hex c) digest then Inl AuthValueError else Inr ())"

definition validate_claim_fields :: "durable_execution \<Rightarrow> auth_error + unit" where
  "validate_claim_fields r =
     (let present = (dx_claimed_at r \<noteq> None \<or> dx_claim_expires_at r \<noteq> None \<or> dx_claim_digest r \<noteq> None) in
      if dx_state r = PreparedUnavailable \<or> dx_state r \<in> terminal_execution_states
      then (if present then Inl AuthValueError else Inr ())
      else if dx_state r \<notin> claim_states then Inl AuthValueError
      else if dx_claimed_at r = None \<or> dx_claim_expires_at r = None \<or> blank (dx_claim_digest r)
      then Inl AuthValueError
      else if naive_or_none (dx_claimed_at r) \<or> naive_or_none (dx_claim_expires_at r) then Inl AuthValueError
      else if micros (the (dx_claim_expires_at r)) \<le> micros (the (dx_claimed_at r)) then Inl AuthValueError
      else sha256_text (the (dx_claim_digest r)))"

definition require_offer_digests :: "string list \<Rightarrow> auth_error + unit" where
  "require_offer_digests digests = each_ok sha256_text digests"

definition attempt_identity :: "durable_execution \<Rightarrow> string option list" where
  "attempt_identity r =
     [dx_attempted_provider_id r, dx_attempted_capability r, dx_attempted_market r, dx_attempted_source r]"

definition no_attempt_facts :: "durable_execution \<Rightarrow> auth_error + unit" where
  "no_attempt_facts r =
     (if dx_attempt_started_at r \<noteq> None \<or> dx_finished_at r \<noteq> None \<or> dx_outcome r \<noteq> None
      then Inl AuthValueError
      else if list_ex (\<lambda>v. \<not> blank v) (attempt_identity r) \<or> dx_trace r \<noteq> None \<or> dx_request_digest r \<noteq> None
      then Inl AuthValueError
      else if dx_evidence_ids r \<noteq> [] \<or> dx_normalized_offer_digests r \<noteq> [] \<or>
              dx_returned_currencies r \<noteq> [] \<or> dx_normalized_amount_minors r \<noteq> []
      then Inl AuthValueError
      else if dx_evaluated_offer_count r \<noteq> 0 \<or> dx_normalized_offer_count r \<noteq> 0 then Inl AuthValueError
      else if dx_observation_kind r \<noteq> None \<or> dx_error_category r \<noteq> None then Inl AuthValueError
      else Inr ())"

definition no_outcome_yet :: "durable_execution \<Rightarrow> auth_error + unit" where
  "no_outcome_yet r =
     (if dx_finished_at r \<noteq> None \<or> dx_outcome r \<noteq> None \<or> dx_trace r \<noteq> None then Inl AuthValueError
      else if dx_evidence_ids r \<noteq> [] \<or> dx_normalized_offer_digests r \<noteq> [] \<or>
              dx_evaluated_offer_count r \<noteq> 0 \<or> dx_normalized_offer_count r \<noteq> 0
      then Inl AuthValueError
      else Inr ())"

text \<open>The last branch of \<open>_validate_attempt_fields\<close>, by terminal state.\<close>

definition outcome_matches_state :: "durable_execution \<Rightarrow> auth_error + unit" where
  "outcome_matches_state r =
     (case dx_state r of
        Completed \<Rightarrow>
          if dx_outcome r \<noteq> Some ''succeeded'' \<or> dx_error_category r \<noteq> None then Inl AuthValueError
          else if dx_evaluated_offer_count r < 1 then Inl AuthValueError
          else if dx_observation_kind r \<notin> {Some ''synthetic'', Some ''production''} then Inl AuthValueError
          else if int (length (dx_normalized_offer_digests r)) \<noteq> dx_normalized_offer_count r
          then Inl AuthValueError
          else Inr ()
      | Failed \<Rightarrow>
          if dx_outcome r \<notin> {Some ''failed'', Some ''timed_out''} \<or> blank (dx_error_category r)
          then Inl AuthValueError
          else if dx_evaluated_offer_count r \<noteq> 0 \<or> dx_evidence_ids r \<noteq> [] \<or> dx_normalized_offer_digests r \<noteq> []
          then Inl AuthValueError
          else if dx_observation_kind r \<notin> {None, Some ''synthetic''} then Inl AuthValueError
          else Inr ()
      | OutcomeUnknown \<Rightarrow>
          if dx_outcome r \<noteq> Some ''outcome_unknown'' \<or> dx_error_category r \<noteq> Some ''outcome_unknown''
          then Inl AuthValueError
          else if dx_evaluated_offer_count r \<noteq> 0 \<or> dx_evidence_ids r \<noteq> [] \<or>
                  dx_normalized_offer_digests r \<noteq> [] \<or> dx_observation_kind r \<noteq> None
          then Inl AuthValueError
          else Inr ()
      | _ \<Rightarrow> Inl AuthValueError)"

definition validate_attempt_fields :: "durable_execution \<Rightarrow> auth_error + unit" where
  "validate_attempt_fields r =
     (if dx_state r \<in> {PreparedUnavailable, ClaimedForAttempt} then no_attempt_facts r
      else if naive_or_none (dx_attempt_started_at r) then Inl AuthValueError
      else if list_ex blank (attempt_identity r) then Inl AuthValueError
      else if dx_state r = Running then no_outcome_yet r
      else if naive_or_none (dx_finished_at r) \<or>
              micros (the (dx_finished_at r)) < micros (the (dx_attempt_started_at r))
      then Inl AuthValueError
      else if (case dx_trace r of None \<Rightarrow> True | Some t \<Rightarrow> tr_plan_id t \<noteq> dx_plan_id r) then Inl AuthValueError
      else if dx_outcome r = None then Inl AuthValueError
      else and_then (each_ok require_durable_evidence_reference (dx_evidence_ids r)) (\<lambda>_.
        and_then (require_offer_digests (dx_normalized_offer_digests r)) (\<lambda>_.
        if int (length (dx_returned_currencies r)) \<noteq> dx_normalized_offer_count r then Inl AuthValueError
        else if int (length (dx_normalized_amount_minors r)) \<noteq> dx_normalized_offer_count r
        then Inl AuthValueError
        else if dx_evaluated_offer_count r \<noteq> dx_normalized_offer_count r then Inl AuthValueError
        else outcome_matches_state r)))"

definition check_execution :: "durable_execution \<Rightarrow> auth_error + durable_execution" where
  "check_execution r =
     (if \<not> starts_with (dx_execution_id r) ''research-exec:'' then Inl AuthValueError
      else if dx_authorization_id r = [] then Inl AuthValueError
      else if dx_authorization_version r < 1 then Inl AuthValueError
      else if dx_decision_id r = [] \<or> dx_plan_id r = [] then Inl AuthValueError
      else if dx_revision r < 1 then Inl AuthValueError
      else if \<not> is_aware (dx_created_at r) \<or> \<not> is_aware (dx_updated_at r) then Inl AuthValueError
      else if dx_raw_response_persisted r then Inl AuthValueError
      else if dx_observation_kind r = Some ''live'' then Inl AuthValueError
      else if dx_evaluated_offer_count r < 0 \<or> dx_normalized_offer_count r < 0 then Inl AuthValueError
      else and_then (validate_claim_fields r) (\<lambda>_. and_then (validate_attempt_fields r) (\<lambda>_. Inr r)))"

section \<open>Binding rules\<close>

datatype exec_error =
    ExecInvalid auth_error
  | AuthorizationPlanConflict durable_execution
  | AuthorizedExecutionRevisionConflict string int
  | ExecPersistenceConflict

definition lift_exec :: "auth_error + 'a \<Rightarrow> exec_error + 'a" where
  "lift_exec r = (case r of Inl e \<Rightarrow> Inl (ExecInvalid e) | Inr x \<Rightarrow> Inr x)"

lemma lift_exec_simps [simp]: "lift_exec (Inl e) = Inl (ExecInvalid e)" "lift_exec (Inr x) = Inr x"
  by (simp_all add: lift_exec_def)

definition require_same_plan :: "durable_execution \<Rightarrow> string \<Rightarrow> string \<Rightarrow> exec_error + durable_execution" where
  "require_same_plan existing decision_id plan_id =
     (if dx_decision_id existing \<noteq> decision_id then Inl (ExecInvalid AuthValueError)
      else if dx_plan_id existing \<noteq> plan_id then Inl (AuthorizationPlanConflict existing)
      else Inr existing)"

definition require_same_pins :: "durable_execution \<Rightarrow> durable_execution \<Rightarrow> exec_error + unit" where
  "require_same_pins current r =
     (if dx_plan_id r \<noteq> dx_plan_id current then Inl (AuthorizationPlanConflict current)
      else if dx_decision_id r \<noteq> dx_decision_id current \<or>
              dx_authorization_id r \<noteq> dx_authorization_id current \<or>
              dx_authorization_version r \<noteq> dx_authorization_version current \<or>
              dx_execution_id r \<noteq> dx_execution_id current
      then Inl (ExecInvalid AuthValueError)
      else Inr ())"

text \<open>The keyword arguments of \<open>bind\<close>.\<close>

record bind_request =
  bq_authorization_idempotency_key :: string
  bq_decision_id :: string
  bq_plan_id :: string
  bq_authorization_id :: string
  bq_authorization_version :: int
  bq_now :: datetime

definition new_execution :: "bind_request \<Rightarrow> string \<Rightarrow> durable_execution" where
  "new_execution q execution_id =
     \<lparr>dx_execution_id = execution_id, dx_authorization_id = bq_authorization_id q,
      dx_authorization_version = bq_authorization_version q, dx_decision_id = bq_decision_id q,
      dx_plan_id = bq_plan_id q, dx_created_at = bq_now q, dx_updated_at = bq_now q, dx_revision = 1,
      dx_state = PreparedUnavailable, dx_claimed_at = None, dx_claim_expires_at = None,
      dx_claim_digest = None, dx_attempt_started_at = None, dx_finished_at = None,
      dx_attempted_provider_id = None, dx_attempted_capability = None, dx_attempted_market = None,
      dx_attempted_source = None, dx_outcome = None, dx_error_category = None,
      dx_evaluated_offer_count = 0, dx_normalized_offer_count = 0, dx_returned_currencies = [],
      dx_normalized_amount_minors = [], dx_evidence_ids = [], dx_normalized_offer_digests = [],
      dx_observation_kind = None, dx_request_digest = None, dx_trace = None,
      dx_raw_response_persisted = False\<rparr>"

section \<open>InMemoryAuthorizedExecutionRepository\<close>

type_synonym exec_rows = "(string, durable_execution) dict"

definition mem_exec_get :: "exec_rows \<Rightarrow> string \<Rightarrow> durable_execution option" where
  "mem_exec_get rows execution_id = dict_get rows execution_id"

definition mem_exec_row_count :: "exec_rows \<Rightarrow> nat" where
  "mem_exec_row_count rows = length rows"

text \<open>The second look-up (\<open>raced\<close>) sees the same dictionary as the first: nothing runs in between.\<close>

definition mem_exec_bind ::
  "exec_rows \<Rightarrow> bind_request \<Rightarrow> exec_rows \<times> (exec_error + durable_execution)" where
  "mem_exec_bind rows q =
     (case authorized_execution_id (bq_authorization_idempotency_key q) of
        Inl e \<Rightarrow> (rows, Inl (ExecInvalid e))
      | Inr execution_id \<Rightarrow>
        (case dict_get rows execution_id of
           Some existing \<Rightarrow> (rows, require_same_plan existing (bq_decision_id q) (bq_plan_id q))
         | None \<Rightarrow>
           (case check_execution (new_execution q execution_id) of
              Inl e \<Rightarrow> (rows, Inl (ExecInvalid e))
            | Inr r \<Rightarrow>
              (case dict_get rows execution_id of
                 Some raced \<Rightarrow> (rows, require_same_plan raced (bq_decision_id q) (bq_plan_id q))
               | None \<Rightarrow> (dict_set execution_id r rows, Inr r)))))"

definition mem_exec_save ::
  "exec_rows \<Rightarrow> durable_execution \<Rightarrow> int \<Rightarrow> exec_rows \<times> (exec_error + durable_execution)" where
  "mem_exec_save rows r expected_revision =
     (case dict_get rows (dx_execution_id r) of
        None \<Rightarrow> (rows, Inl (AuthorizedExecutionRevisionConflict (dx_execution_id r) expected_revision))
      | Some current \<Rightarrow>
        if dx_revision current \<noteq> expected_revision
        then (rows, Inl (AuthorizedExecutionRevisionConflict (dx_execution_id r) expected_revision))
        else
          (case require_same_plan current (dx_decision_id r) (dx_plan_id r) of
             Inl e \<Rightarrow> (rows, Inl e)
           | Inr _ \<Rightarrow>
             (case check_execution (current\<lparr>dx_updated_at := dx_updated_at r,
                     dx_revision := expected_revision + 1\<rparr>) of
                Inl e \<Rightarrow> (rows, Inl (ExecInvalid e))
              | Inr stored \<Rightarrow> (dict_set (dx_execution_id r) stored rows, Inr stored))))"

definition mem_exec_cas_replace ::
  "exec_rows \<Rightarrow> durable_execution \<Rightarrow> int \<Rightarrow> exec_rows \<times> (exec_error + durable_execution)" where
  "mem_exec_cas_replace rows r expected_revision =
     (case dict_get rows (dx_execution_id r) of
        None \<Rightarrow> (rows, Inl (AuthorizedExecutionRevisionConflict (dx_execution_id r) expected_revision))
      | Some current \<Rightarrow>
        if dx_revision current \<noteq> expected_revision
        then (rows, Inl (AuthorizedExecutionRevisionConflict (dx_execution_id r) expected_revision))
        else
          (case require_same_pins current r of
             Inl e \<Rightarrow> (rows, Inl e)
           | Inr _ \<Rightarrow>
             (case check_execution (r\<lparr>dx_created_at := dx_created_at current,
                     dx_revision := expected_revision + 1\<rparr>) of
                Inl e \<Rightarrow> (rows, Inl (ExecInvalid e))
              | Inr stored \<Rightarrow> (dict_set (dx_execution_id r) stored rows, Inr stored))))"

definition mem_exec_restore_row :: "exec_rows \<Rightarrow> string \<Rightarrow> durable_execution option \<Rightarrow> exec_rows" where
  "mem_exec_restore_row rows execution_id r =
     (case r of None \<Rightarrow> dict_del execution_id rows | Some x \<Rightarrow> dict_set execution_id x rows)"

section \<open>OperationalAuthorizedExecutionRepository\<close>

type_synonym exec_table = "durable_execution op_table"

definition op_exec_load :: "exec_table \<Rightarrow> string \<Rightarrow> exec_error + durable_execution option" where
  "op_exec_load t execution_id =
     (case get_versioned t execution_id of
        None \<Rightarrow> Inr None
      | Some (r, seq, owner) \<Rightarrow>
          if dx_revision r \<noteq> seq
          then and_then (lift_exec (check_execution (r\<lparr>dx_revision := seq\<rparr>))) (\<lambda>r'. Inr (Some r'))
          else Inr (Some r))"

definition op_exec_row_count :: "exec_table \<Rightarrow> nat" where
  "op_exec_row_count t = length t"

text \<open>
  \<open>others\<close> is what other sessions commit between the look-up and the insert (the identity when
  there are none).  A failed insert rolls back and reads the winner.
\<close>

definition op_exec_bind ::
  "(exec_table \<Rightarrow> exec_table) \<Rightarrow> exec_table \<Rightarrow> bind_request
     \<Rightarrow> exec_table \<times> (exec_error + durable_execution)" where
  "op_exec_bind others t q =
     (case authorized_execution_id (bq_authorization_idempotency_key q) of
        Inl e \<Rightarrow> (t, Inl (ExecInvalid e))
      | Inr execution_id \<Rightarrow>
        (case op_exec_load t execution_id of
           Inl e \<Rightarrow> (t, Inl e)
         | Inr (Some existing) \<Rightarrow> (t, require_same_plan existing (bq_decision_id q) (bq_plan_id q))
         | Inr None \<Rightarrow>
           (case check_execution (new_execution q execution_id) of
              Inl e \<Rightarrow> (t, Inl (ExecInvalid e))
            | Inr r \<Rightarrow>
              (case insert_versioned (others t) execution_id r 1 None of
                 Some t' \<Rightarrow> (t', Inr r)
               | None \<Rightarrow>
                 (others t,
                  (case op_exec_load (others t) execution_id of
                     Inl e \<Rightarrow> Inl e
                   | Inr None \<Rightarrow> Inl ExecPersistenceConflict
                   | Inr (Some winner) \<Rightarrow>
                       require_same_plan winner (bq_decision_id q) (bq_plan_id q)))))))"

text \<open>The compare-and-swap both writes end with.\<close>

definition op_exec_swap ::
  "exec_table \<Rightarrow> string \<Rightarrow> durable_execution \<Rightarrow> int \<Rightarrow> exec_table \<times> (exec_error + durable_execution)" where
  "op_exec_swap t execution_id stored expected_revision =
     (case compare_and_swap t execution_id stored expected_revision (dx_revision stored) None of
        (t', updated) \<Rightarrow>
          if updated then (t', Inr stored)
          else (t', Inl (AuthorizedExecutionRevisionConflict execution_id expected_revision)))"

definition op_exec_save ::
  "exec_table \<Rightarrow> durable_execution \<Rightarrow> int \<Rightarrow> exec_table \<times> (exec_error + durable_execution)" where
  "op_exec_save t r expected_revision =
     (case op_exec_load t (dx_execution_id r) of
        Inl e \<Rightarrow> (t, Inl e)
      | Inr None \<Rightarrow> (t, Inl (AuthorizedExecutionRevisionConflict (dx_execution_id r) expected_revision))
      | Inr (Some current) \<Rightarrow>
        if dx_revision current \<noteq> expected_revision
        then (t, Inl (AuthorizedExecutionRevisionConflict (dx_execution_id r) expected_revision))
        else
          (case require_same_plan current (dx_decision_id r) (dx_plan_id r) of
             Inl e \<Rightarrow> (t, Inl e)
           | Inr _ \<Rightarrow>
             (case check_execution (current\<lparr>dx_updated_at := dx_updated_at r,
                     dx_revision := expected_revision + 1\<rparr>) of
                Inl e \<Rightarrow> (t, Inl (ExecInvalid e))
              | Inr stored \<Rightarrow> op_exec_swap t (dx_execution_id r) stored expected_revision)))"

definition op_exec_cas_replace ::
  "exec_table \<Rightarrow> durable_execution \<Rightarrow> int \<Rightarrow> exec_table \<times> (exec_error + durable_execution)" where
  "op_exec_cas_replace t r expected_revision =
     (case op_exec_load t (dx_execution_id r) of
        Inl e \<Rightarrow> (t, Inl e)
      | Inr None \<Rightarrow> (t, Inl (AuthorizedExecutionRevisionConflict (dx_execution_id r) expected_revision))
      | Inr (Some current) \<Rightarrow>
        if dx_revision current \<noteq> expected_revision
        then (t, Inl (AuthorizedExecutionRevisionConflict (dx_execution_id r) expected_revision))
        else
          (case require_same_pins current r of
             Inl e \<Rightarrow> (t, Inl e)
           | Inr _ \<Rightarrow>
             (case check_execution (r\<lparr>dx_created_at := dx_created_at current,
                     dx_revision := expected_revision + 1\<rparr>) of
                Inl e \<Rightarrow> (t, Inl (ExecInvalid e))
              | Inr stored \<Rightarrow> op_exec_swap t (dx_execution_id r) stored expected_revision)))"

section \<open>AuthorizedExecutionLedger\<close>

record execution_binding =
  eb_execution_id :: string
  eb_decision_id :: string
  eb_plan_id :: string
  eb_state :: exec_state

definition check_binding :: "execution_binding \<Rightarrow> auth_error + execution_binding" where
  "check_binding b = (if eb_state b \<noteq> PreparedUnavailable then Inl AuthValueError else Inr b)"

datatype ledger_error = LedgerInvalid auth_error | LedgerPlanConflict execution_binding

type_synonym exec_ledger = "(string, execution_binding) dict"

definition ledger_bind :: "exec_ledger \<Rightarrow> bind_request \<Rightarrow> exec_ledger \<times> (ledger_error + execution_binding)" where
  "ledger_bind l q =
     (let key = bq_authorization_idempotency_key q in
      case dict_get l key of
        Some existing \<Rightarrow>
          (l, if eb_decision_id existing \<noteq> bq_decision_id q then Inl (LedgerInvalid AuthValueError)
              else if eb_plan_id existing \<noteq> bq_plan_id q then Inl (LedgerPlanConflict existing)
              else Inr existing)
      | None \<Rightarrow>
          (case authorized_execution_id key of
             Inl e \<Rightarrow> (l, Inl (LedgerInvalid e))
           | Inr execution_id \<Rightarrow>
             (case check_binding \<lparr>eb_execution_id = execution_id, eb_decision_id = bq_decision_id q,
                     eb_plan_id = bq_plan_id q, eb_state = PreparedUnavailable\<rparr> of
                Inl e \<Rightarrow> (l, Inl (LedgerInvalid e))
              | Inr b \<Rightarrow> (dict_set key b l, Inr b))))"

definition ledger_get :: "exec_ledger \<Rightarrow> string \<Rightarrow> execution_binding option" where
  "ledger_get l key = dict_get l key"

section \<open>The repository contract\<close>

record 's exec_repository =
  ex_get :: "'s \<Rightarrow> string \<Rightarrow> exec_error + durable_execution option"
  ex_bind :: "'s \<Rightarrow> bind_request \<Rightarrow> 's \<times> (exec_error + durable_execution)"
  ex_save :: "'s \<Rightarrow> durable_execution \<Rightarrow> int \<Rightarrow> 's \<times> (exec_error + durable_execution)"
  ex_cas :: "'s \<Rightarrow> durable_execution \<Rightarrow> int \<Rightarrow> 's \<times> (exec_error + durable_execution)"

definition memory_exec_repository :: "exec_rows exec_repository" where
  "memory_exec_repository =
     \<lparr>ex_get = (\<lambda>s i. Inr (mem_exec_get s i)), ex_bind = mem_exec_bind, ex_save = mem_exec_save,
      ex_cas = mem_exec_cas_replace\<rparr>"

definition operational_exec_repository :: "exec_table exec_repository" where
  "operational_exec_repository =
     \<lparr>ex_get = op_exec_load, ex_bind = op_exec_bind id, ex_save = op_exec_save,
      ex_cas = op_exec_cas_replace\<rparr>"

datatype exec_op =
    GetExecution string
  | BindExecution bind_request
  | SaveExecution durable_execution int
  | ReplaceExecution durable_execution int

fun exec_apply :: "'s exec_repository \<Rightarrow> 's \<Rightarrow> exec_op \<Rightarrow> 's \<times> (exec_error + durable_execution option)" where
  "exec_apply repo s (GetExecution i) = (s, ex_get repo s i)"
| "exec_apply repo s (BindExecution q) = apsnd (\<lambda>a. and_then a (\<lambda>r. Inr (Some r))) (ex_bind repo s q)"
| "exec_apply repo s (SaveExecution r e) = apsnd (\<lambda>a. and_then a (\<lambda>r. Inr (Some r))) (ex_save repo s r e)"
| "exec_apply repo s (ReplaceExecution r e) = apsnd (\<lambda>a. and_then a (\<lambda>r. Inr (Some r))) (ex_cas repo s r e)"

fun exec_run :: "'s exec_repository \<Rightarrow> 's \<Rightarrow> exec_op list \<Rightarrow> 's \<times> (exec_error + durable_execution option) list" where
  "exec_run repo s [] = (s, [])"
| "exec_run repo s (x # xs) =
     (case exec_apply repo s x of (s', a) \<Rightarrow> apsnd (\<lambda>as. a # as) (exec_run repo s' xs))"

text \<open>What either repository stands for: the current row of each execution id.\<close>

type_synonym exec_map = "string \<Rightarrow> durable_execution option"

definition spec_bind :: "exec_map \<Rightarrow> bind_request \<Rightarrow> exec_map \<times> (exec_error + durable_execution)" where
  "spec_bind V q =
     (case authorized_execution_id (bq_authorization_idempotency_key q) of
        Inl e \<Rightarrow> (V, Inl (ExecInvalid e))
      | Inr i \<Rightarrow>
        (case V i of
           Some existing \<Rightarrow> (V, require_same_plan existing (bq_decision_id q) (bq_plan_id q))
         | None \<Rightarrow>
           (case check_execution (new_execution q i) of
              Inl e \<Rightarrow> (V, Inl (ExecInvalid e))
            | Inr r \<Rightarrow> (V(i \<mapsto> r), Inr r))))"

text \<open>A write: refused unless the row is at the expected revision, else the new row if it is valid.\<close>

definition spec_write ::
  "(durable_execution \<Rightarrow> exec_error + durable_execution) \<Rightarrow> exec_map \<Rightarrow> string \<Rightarrow> int
     \<Rightarrow> exec_map \<times> (exec_error + durable_execution)" where
  "spec_write change V i e =
     (case V i of
        None \<Rightarrow> (V, Inl (AuthorizedExecutionRevisionConflict i e))
      | Some c \<Rightarrow>
          if dx_revision c \<noteq> e then (V, Inl (AuthorizedExecutionRevisionConflict i e))
          else (case change c of Inl x \<Rightarrow> (V, Inl x) | Inr r \<Rightarrow> (V(i \<mapsto> r), Inr r)))"

definition touched :: "durable_execution \<Rightarrow> int \<Rightarrow> durable_execution \<Rightarrow> exec_error + durable_execution" where
  "touched r e c =
     and_then (require_same_plan c (dx_decision_id r) (dx_plan_id r)) (\<lambda>_.
     lift_exec (check_execution (c\<lparr>dx_updated_at := dx_updated_at r, dx_revision := e + 1\<rparr>)))"

definition replaced :: "durable_execution \<Rightarrow> int \<Rightarrow> durable_execution \<Rightarrow> exec_error + durable_execution" where
  "replaced r e c =
     and_then (require_same_pins c r) (\<lambda>_.
     lift_exec (check_execution (r\<lparr>dx_created_at := dx_created_at c, dx_revision := e + 1\<rparr>)))"

definition spec_exec_repository :: "exec_map exec_repository" where
  "spec_exec_repository =
     \<lparr>ex_get = (\<lambda>V i. Inr (V i)), ex_bind = spec_bind,
      ex_save = (\<lambda>V r e. spec_write (touched r e) V (dx_execution_id r) e),
      ex_cas = (\<lambda>V r e. spec_write (replaced r e) V (dx_execution_id r) e)\<rparr>"

definition valid_execution :: "durable_execution \<Rightarrow> bool" where
  "valid_execution r = (check_execution r = Inr r)"

definition rows_valid :: "exec_map \<Rightarrow> bool" where
  "rows_valid V = (\<forall>i r. V i = Some r \<longrightarrow> dx_execution_id r = i \<and> valid_execution r)"

lemma check_execution_id: "check_execution r = Inr r' \<Longrightarrow> r' = r"
  unfolding check_execution_def by (auto simp: and_then_Inr_iff split: if_split_asm)

lemma checked_valid: "check_execution r = Inr r' \<Longrightarrow> valid_execution r'"
  using check_execution_id by (auto simp: valid_execution_def)

lemma new_execution_id [simp]: "dx_execution_id (new_execution q i) = i"
  by (simp add: new_execution_def)

lemma touched_form:
  "touched r e c = Inr n \<Longrightarrow> valid_execution n \<and> n = c\<lparr>dx_updated_at := dx_updated_at r, dx_revision := e + 1\<rparr>"
  by (cases "check_execution (c\<lparr>dx_updated_at := dx_updated_at r, dx_revision := e + 1\<rparr>)")
    (auto simp: touched_def and_then_Inr_iff dest: check_execution_id checked_valid)

lemma replaced_form:
  "replaced r e c = Inr n \<Longrightarrow> valid_execution n \<and> require_same_pins c r = Inr () \<and>
     n = r\<lparr>dx_created_at := dx_created_at c, dx_revision := e + 1\<rparr>"
  by (cases "check_execution (r\<lparr>dx_created_at := dx_created_at c, dx_revision := e + 1\<rparr>)")
    (auto simp: replaced_def and_then_Inr_iff dest: check_execution_id checked_valid)

section \<open>Rows only move forward\<close>

definition pins :: "durable_execution \<Rightarrow> string \<times> string \<times> int \<times> string \<times> string \<times> datetime" where
  "pins r = (dx_execution_id r, dx_authorization_id r, dx_authorization_version r, dx_decision_id r,
     dx_plan_id r, dx_created_at r)"

definition evolves :: "exec_map \<Rightarrow> exec_map \<Rightarrow> bool" where
  "evolves V V' = (\<forall>i r. V i = Some r \<longrightarrow>
     (\<exists>r'. V' i = Some r' \<and> pins r' = pins r \<and> dx_revision r \<le> dx_revision r'))"

lemma evolves_refl [simp]: "evolves V V"
  by (simp add: evolves_def)

lemma evolves_trans:
  assumes "evolves A B" and "evolves B C" shows "evolves A C"
  unfolding evolves_def
proof (intro allI impI)
  fix i r assume "A i = Some r"
  then obtain r1 where 1: "B i = Some r1" "pins r1 = pins r" "dx_revision r \<le> dx_revision r1"
    using assms(1) unfolding evolves_def by blast
  then obtain r2 where "C i = Some r2" "pins r2 = pins r1" "dx_revision r1 \<le> dx_revision r2"
    using assms(2) unfolding evolves_def by blast
  with 1 show "\<exists>r'. C i = Some r' \<and> pins r' = pins r \<and> dx_revision r \<le> dx_revision r'" by auto
qed

lemma evolves_insert: "V i = None \<Longrightarrow> evolves V (V(i \<mapsto> r))"
  by (auto simp: evolves_def)

lemma evolves_advance:
  "V i = Some c \<Longrightarrow> pins n = pins c \<Longrightarrow> dx_revision c \<le> dx_revision n \<Longrightarrow> evolves V (V(i \<mapsto> n))"
  by (auto simp: evolves_def)

definition advancing :: "(durable_execution \<Rightarrow> exec_error + durable_execution) \<Rightarrow> int \<Rightarrow> bool" where
  "advancing change e = (\<forall>c n. change c = Inr n \<longrightarrow> valid_execution n \<and> pins n = pins c \<and> dx_revision n = e + 1)"

lemma advancing_touched: "advancing (touched r e) e"
  unfolding advancing_def using touched_form by (fastforce simp: pins_def)

lemma advancing_replaced: "advancing (replaced r e) e"
  unfolding advancing_def
  by (auto dest!: replaced_form simp: pins_def require_same_pins_def split: if_splits)

lemma spec_write_moves:
  assumes "rows_valid V" and "advancing change e"
  shows "rows_valid (fst (spec_write change V i e)) \<and> evolves V (fst (spec_write change V i e))"
proof (cases "V i")
  case None
  then show ?thesis using assms by (simp add: spec_write_def)
next
  case (Some c)
  show ?thesis
  proof (cases "dx_revision c = e \<and> (\<exists>n. change c = Inr n)")
    case True
    then obtain n where n: "change c = Inr n" and e: "dx_revision c = e" by blast
    then have "valid_execution n" "pins n = pins c" "dx_revision n = e + 1"
      using assms(2) by (simp_all add: advancing_def)
    moreover have "spec_write change V i e = (V(i \<mapsto> n), Inr n)" using Some n e by (simp add: spec_write_def)
    moreover have "dx_execution_id c = i" using assms(1) Some by (simp add: rows_valid_def)
    ultimately show ?thesis
      using assms(1) Some e evolves_advance [of V i c n] by (auto simp: rows_valid_def pins_def)
  next
    case False
    then show ?thesis using assms Some by (cases "change c") (auto simp: spec_write_def)
  qed
qed

lemma spec_bind_moves:
  assumes "rows_valid V"
  shows "rows_valid (fst (spec_bind V q)) \<and> evolves V (fst (spec_bind V q))"
proof -
  have "valid_execution r \<and> dx_execution_id r = i" if "check_execution (new_execution q i) = Inr r" for r i
    using checked_valid [OF that] check_execution_id [OF that] by simp
  then show ?thesis
    using assms evolves_insert
    by (auto simp: spec_bind_def rows_valid_def split: sum.splits option.splits)
qed

lemma spec_apply_moves:
  assumes "rows_valid V"
  shows "rows_valid (fst (exec_apply spec_exec_repository V x)) \<and>
    evolves V (fst (exec_apply spec_exec_repository V x))"
proof (cases x)
  case (GetExecution i)
  then show ?thesis using assms by simp
next
  case (BindExecution q)
  then show ?thesis using spec_bind_moves [OF assms] by (simp add: spec_exec_repository_def)
next
  case (SaveExecution r e)
  then show ?thesis
    using spec_write_moves [OF assms advancing_touched] by (simp add: spec_exec_repository_def)
next
  case (ReplaceExecution r e)
  then show ?thesis
    using spec_write_moves [OF assms advancing_replaced] by (simp add: spec_exec_repository_def)
qed

lemma exec_run_Cons_fst [simp]: "fst (exec_run repo s (x # xs)) = fst (exec_run repo (fst (exec_apply repo s x)) xs)"
  by (simp add: split: prod.splits)

lemma exec_run_Cons_snd: "snd (exec_run repo s (x # xs)) =
    snd (exec_apply repo s x) # snd (exec_run repo (fst (exec_apply repo s x)) xs)"
  by (simp add: split: prod.splits)

lemma spec_run_moves:
  "rows_valid V \<Longrightarrow> rows_valid (fst (exec_run spec_exec_repository V ops)) \<and>
    evolves V (fst (exec_run spec_exec_repository V ops))"
proof (induction ops arbitrary: V)
  case Nil
  then show ?case by simp
next
  case (Cons x xs)
  note step = spec_apply_moves [OF Cons.prems, of x]
  note rest = Cons.IH [OF conjunct1 [OF step]]
  show ?case
    unfolding exec_run_Cons_fst
    using rest evolves_trans [OF conjunct2 [OF step] conjunct2 [OF rest]] by blast
qed

text \<open>A write at a revision the row has passed is refused and changes nothing.\<close>

lemma spec_write_stale:
  "V i = Some c \<Longrightarrow> dx_revision c \<noteq> e \<Longrightarrow>
   spec_write change V i e = (V, Inl (AuthorizedExecutionRevisionConflict i e))"
  by (simp add: spec_write_def)

lemma spec_write_done:
  "spec_write change V i e = (V', Inr n) \<Longrightarrow> V' i = Some n \<and> (\<exists>c. V i = Some c \<and> change c = Inr n)"
  by (auto simp: spec_write_def split: option.splits if_splits sum.splits)

lemma spec_bind_done:
  assumes "rows_valid V" and "spec_bind V q = (V', Inr r)"
  shows "authorized_execution_id (bq_authorization_idempotency_key q) = Inr (dx_execution_id r) \<and>
    V' (dx_execution_id r) = Some r \<and> dx_decision_id r = bq_decision_id q \<and> dx_plan_id r = bq_plan_id q"
proof (cases "authorized_execution_id (bq_authorization_idempotency_key q)")
  case (Inl e)
  then show ?thesis using assms(2) by (simp add: spec_bind_def)
next
  case (Inr i)
  show ?thesis
  proof (cases "V i")
    case None
    then have "check_execution (new_execution q i) = Inr r" "V' = V(i \<mapsto> r)"
      using assms(2) Inr by (auto simp: spec_bind_def split: sum.splits)
    with Inr show ?thesis using check_execution_id [of "new_execution q i" r] by (simp add: new_execution_def)
  next
    case (Some c)
    then have "require_same_plan c (bq_decision_id q) (bq_plan_id q) = Inr r" "V' = V"
      using assms(2) Inr by (simp_all add: spec_bind_def)
    moreover have "dx_execution_id c = i" using assms(1) Some by (simp add: rows_valid_def)
    ultimately show ?thesis using Inr Some by (auto simp: require_same_plan_def split: if_splits)
  qed
qed

lemma spec_bind_existing:
  "authorized_execution_id (bq_authorization_idempotency_key q) = Inr i \<Longrightarrow> V i = Some c \<Longrightarrow>
   spec_bind V q = (V, require_same_plan c (bq_decision_id q) (bq_plan_id q))"
  by (simp add: spec_bind_def)

section \<open>Clients of the contract\<close>

text \<open>The authorization stays bound to its plan, whatever the store's state is.\<close>

definition pinned_in :: "'s exec_repository \<Rightarrow> 's \<Rightarrow> bind_request \<Rightarrow> durable_execution \<Rightarrow> bool" where
  "pinned_in repo s q r =
     (\<forall>q'. bq_authorization_idempotency_key q' = bq_authorization_idempotency_key q \<longrightarrow>
        (\<forall>i. ex_get repo (fst (ex_bind repo s q')) i = ex_get repo s i) \<and>
        (\<exists>r'. pins r' = pins r \<and> ex_get repo s (dx_execution_id r) = Inr (Some r') \<and>
           snd (ex_bind repo s q') =
             (if bq_decision_id q' \<noteq> bq_decision_id q then Inl (ExecInvalid AuthValueError)
              else if bq_plan_id q' \<noteq> bq_plan_id q then Inl (AuthorizationPlanConflict r')
              else Inr r')))"

text \<open>No write of this row at revision \<open>e\<close> can succeed any more.\<close>

definition closed_at :: "'s exec_repository \<Rightarrow> 's \<Rightarrow> string \<Rightarrow> int \<Rightarrow> bool" where
  "closed_at repo s i e =
     (\<forall>r. dx_execution_id r = i \<longrightarrow>
        snd (ex_cas repo s r e) = Inl (AuthorizedExecutionRevisionConflict i e) \<and>
        snd (ex_save repo s r e) = Inl (AuthorizedExecutionRevisionConflict i e) \<and>
        (\<forall>j. ex_get repo (fst (ex_cas repo s r e)) j = ex_get repo s j \<and>
             ex_get repo (fst (ex_save repo s r e)) j = ex_get repo s j))"

locale execution_repository =
  fixes repo :: "'s exec_repository" and ok :: "'s \<Rightarrow> bool" and view :: "'s \<Rightarrow> exec_map"
  assumes rows_law: "ok s \<Longrightarrow> rows_valid (view s)"
    and get_law: "ok s \<Longrightarrow> ex_get repo s i = Inr (view s i)"
    and bind_law: "ok s \<Longrightarrow> ok (fst (ex_bind repo s q)) \<and>
      view (fst (ex_bind repo s q)) = fst (spec_bind (view s) q) \<and>
      snd (ex_bind repo s q) = snd (spec_bind (view s) q)"
    and save_law: "ok s \<Longrightarrow> ok (fst (ex_save repo s r e)) \<and>
      view (fst (ex_save repo s r e)) = fst (spec_write (touched r e) (view s) (dx_execution_id r) e) \<and>
      snd (ex_save repo s r e) = snd (spec_write (touched r e) (view s) (dx_execution_id r) e)"
    and cas_law: "ok s \<Longrightarrow> ok (fst (ex_cas repo s r e)) \<and>
      view (fst (ex_cas repo s r e)) = fst (spec_write (replaced r e) (view s) (dx_execution_id r) e) \<and>
      snd (ex_cas repo s r e) = snd (spec_write (replaced r e) (view s) (dx_execution_id r) e)"
begin

lemma apply_refines:
  "ok s \<Longrightarrow> ok (fst (exec_apply repo s x)) \<and>
    view (fst (exec_apply repo s x)) = fst (exec_apply spec_exec_repository (view s) x) \<and>
    snd (exec_apply repo s x) = snd (exec_apply spec_exec_repository (view s) x)"
  by (cases x) (simp_all add: spec_exec_repository_def get_law bind_law save_law cas_law)

lemma run_refines:
  "ok s \<Longrightarrow> ok (fst (exec_run repo s ops)) \<and>
    view (fst (exec_run repo s ops)) = fst (exec_run spec_exec_repository (view s) ops) \<and>
    snd (exec_run repo s ops) = snd (exec_run spec_exec_repository (view s) ops)"
proof (induction ops arbitrary: s)
  case Nil
  then show ?case by simp
next
  case (Cons x xs)
  note step = apply_refines [OF Cons.prems, of x]
  show ?case
    using Cons.IH [OF conjunct1 [OF step]] step by (simp del: exec_run.simps(2) add: exec_run_Cons_snd)
qed

lemma run_evolves: "ok s \<Longrightarrow> evolves (view s) (view (fst (exec_run repo s ops)))"
  using run_refines rows_law spec_run_moves by metis

lemma run_ok: "ok s \<Longrightarrow> ok (fst (exec_run repo s ops))"
  using run_refines by blast

lemma bound_forever:
  assumes "ok s" and "snd (ex_bind repo s q) = Inr r"
  shows "pinned_in repo (fst (exec_run repo (fst (ex_bind repo s q)) ops)) q r"
proof -
  define s1 where "s1 = fst (ex_bind repo s q)"
  define s2 where "s2 = fst (exec_run repo s1 ops)"
  have ok1: "ok s1" using bind_law [OF assms(1)] by (simp add: s1_def)
  then have ok2: "ok s2" by (simp add: s2_def run_ok)
  have "spec_bind (view s) q = (view s1, Inr r)"
    using bind_law [OF assms(1), of q] assms(2) by (simp add: s1_def prod_eq_iff)
  note b = spec_bind_done [OF rows_law [OF assms(1)] this]
  then obtain r' where r': "view s2 (dx_execution_id r) = Some r'" "pins r' = pins r"
    using run_evolves [OF ok1, of ops] by (auto simp: evolves_def s2_def)
  have plan: "dx_decision_id r' = bq_decision_id q" "dx_plan_id r' = bq_plan_id q"
    using b r'(2) by (simp_all add: pins_def)
  have "(\<forall>i. ex_get repo (fst (ex_bind repo s2 q')) i = ex_get repo s2 i) \<and>
      snd (ex_bind repo s2 q') = require_same_plan r' (bq_decision_id q') (bq_plan_id q')"
    if "bq_authorization_idempotency_key q' = bq_authorization_idempotency_key q" for q'
  proof -
    have e: "spec_bind (view s2) q' = (view s2, require_same_plan r' (bq_decision_id q') (bq_plan_id q'))"
      by (rule spec_bind_existing [where i = "dx_execution_id r"]) (use that b r'(1) in simp_all)
    show ?thesis using bind_law [OF ok2, of q'] ok2 by (simp add: e get_law)
  qed
  then show ?thesis
    using r' plan unfolding s1_def [symmetric] s2_def [symmetric] pinned_in_def
    by (auto simp: get_law [OF ok2] require_same_plan_def)
qed

lemma stale_refused:
  assumes "ok s" and "view s i = Some c" and "e < dx_revision c"
  shows "closed_at repo s i e"
  unfolding closed_at_def
proof (intro allI impI)
  fix r :: durable_execution
  assume i: "dx_execution_id r = i"
  have w: "spec_write ch (view s) i e = (view s, Inl (AuthorizedExecutionRevisionConflict i e))" for ch
    by (rule spec_write_stale [of "view s" i c]) (use assms(2,3) in simp_all)
  show "snd (ex_cas repo s r e) = Inl (AuthorizedExecutionRevisionConflict i e) \<and>
      snd (ex_save repo s r e) = Inl (AuthorizedExecutionRevisionConflict i e) \<and>
      (\<forall>j. ex_get repo (fst (ex_cas repo s r e)) j = ex_get repo s j \<and>
           ex_get repo (fst (ex_save repo s r e)) j = ex_get repo s j)"
    using cas_law [OF assms(1), of r e] save_law [OF assms(1), of r e] assms(1)
    by (simp add: i w get_law)
qed

lemma write_then_stale:
  assumes "ok s1" and "spec_write ch (view s) i e = (view s1, Inr n)" and "advancing ch e"
  shows "dx_revision n = e + 1 \<and> ex_get repo s1 i = Inr (Some n) \<and>
    closed_at repo (fst (exec_run repo s1 ops)) i e"
proof -
  note d = spec_write_done [OF assms(2)]
  then have rev: "dx_revision n = e + 1" using assms(3) by (auto simp: advancing_def)
  obtain c where c: "view (fst (exec_run repo s1 ops)) i = Some c" "dx_revision n \<le> dx_revision c"
    using d run_evolves [OF assms(1), of ops] by (auto simp: evolves_def)
  have "closed_at repo (fst (exec_run repo s1 ops)) i e"
    by (rule stale_refused [OF run_ok [OF assms(1)] c(1)]) (use rev c(2) in simp)
  then show ?thesis using rev d by (simp add: get_law [OF assms(1)])
qed

lemma cas_then_stale:
  assumes "ok s" and "ex_cas repo s r e = (s1, Inr n)"
  shows "dx_revision n = e + 1 \<and> ex_get repo s1 (dx_execution_id r) = Inr (Some n) \<and>
    closed_at repo (fst (exec_run repo s1 ops)) (dx_execution_id r) e"
  by (rule write_then_stale [OF _ _ advancing_replaced [of r e]])
    (use cas_law [OF assms(1), of r e] assms(2) in \<open>simp_all add: prod_eq_iff\<close>)

lemma save_then_stale:
  assumes "ok s" and "ex_save repo s r e = (s1, Inr n)"
  shows "dx_revision n = e + 1 \<and> ex_get repo s1 (dx_execution_id r) = Inr (Some n) \<and>
    closed_at repo (fst (exec_run repo s1 ops)) (dx_execution_id r) e"
  by (rule write_then_stale [OF _ _ advancing_touched [of r e]])
    (use save_law [OF assms(1), of r e] assms(2) in \<open>simp_all add: prod_eq_iff\<close>)

end

section \<open>Both repositories are providers\<close>

definition mem_exec_ok :: "exec_rows \<Rightarrow> bool" where
  "mem_exec_ok rows = (dict_ok rows \<and> rows_valid (dict_get rows))"

lemma rows_valid_insert:
  "rows_valid V \<Longrightarrow> valid_execution r \<Longrightarrow> dx_execution_id r = i \<Longrightarrow> rows_valid (V(i \<mapsto> r))"
  by (simp add: rows_valid_def)

lemma mem_exec_bind_spec:
  assumes "mem_exec_ok rows"
  shows "mem_exec_ok (fst (mem_exec_bind rows q)) \<and>
    dict_get (fst (mem_exec_bind rows q)) = fst (spec_bind (dict_get rows) q) \<and>
    snd (mem_exec_bind rows q) = snd (spec_bind (dict_get rows) q)"
proof -
  have "rows_valid (fst (spec_bind (dict_get rows) q))"
    using spec_bind_moves assms by (simp add: mem_exec_ok_def)
  then show ?thesis
    using assms
    by (auto simp: mem_exec_ok_def mem_exec_bind_def spec_bind_def dict_get_set_map
        split: sum.splits option.splits)
qed

lemma mem_write_spec:
  assumes "mem_exec_ok rows" and "advancing change e"
    and "res = (case dict_get rows i of
        None \<Rightarrow> (rows, Inl (AuthorizedExecutionRevisionConflict i e))
      | Some c \<Rightarrow> if dx_revision c \<noteq> e then (rows, Inl (AuthorizedExecutionRevisionConflict i e))
          else (case change c of Inl x \<Rightarrow> (rows, Inl x) | Inr n \<Rightarrow> (dict_set i n rows, Inr n)))"
  shows "mem_exec_ok (fst res) \<and> dict_get (fst res) = fst (spec_write change (dict_get rows) i e) \<and>
    snd res = snd (spec_write change (dict_get rows) i e)"
proof -
  have "rows_valid (fst (spec_write change (dict_get rows) i e))"
    using spec_write_moves assms(1,2) by (simp add: mem_exec_ok_def)
  then show ?thesis
    using assms(1) unfolding assms(3)
    by (auto simp: mem_exec_ok_def spec_write_def dict_get_set_map split: sum.splits option.splits if_splits)
qed

lemma mem_exec_save_spec:
  assumes "mem_exec_ok rows"
  shows "mem_exec_ok (fst (mem_exec_save rows r e)) \<and>
    dict_get (fst (mem_exec_save rows r e)) = fst (spec_write (touched r e) (dict_get rows) (dx_execution_id r) e) \<and>
    snd (mem_exec_save rows r e) = snd (spec_write (touched r e) (dict_get rows) (dx_execution_id r) e)"
  by (rule mem_write_spec [OF assms advancing_touched])
    (auto simp: mem_exec_save_def touched_def split: option.splits sum.splits)

lemma mem_exec_cas_spec:
  assumes "mem_exec_ok rows"
  shows "mem_exec_ok (fst (mem_exec_cas_replace rows r e)) \<and>
    dict_get (fst (mem_exec_cas_replace rows r e)) =
      fst (spec_write (replaced r e) (dict_get rows) (dx_execution_id r) e) \<and>
    snd (mem_exec_cas_replace rows r e) = snd (spec_write (replaced r e) (dict_get rows) (dx_execution_id r) e)"
  by (rule mem_write_spec [OF assms advancing_replaced])
    (auto simp: mem_exec_cas_replace_def replaced_def split: option.splits sum.splits)

interpretation mem_exec: execution_repository memory_exec_repository mem_exec_ok dict_get
proof unfold_locales
  fix rows :: exec_rows and i
  assume "mem_exec_ok rows"
  then show "rows_valid (dict_get rows)" and "ex_get memory_exec_repository rows i = Inr (dict_get rows i)"
    by (simp_all add: mem_exec_ok_def memory_exec_repository_def mem_exec_get_def)
next
  fix rows q
  assume "mem_exec_ok rows"
  from mem_exec_bind_spec [OF this, of q]
  show "mem_exec_ok (fst (ex_bind memory_exec_repository rows q)) \<and>
      dict_get (fst (ex_bind memory_exec_repository rows q)) = fst (spec_bind (dict_get rows) q) \<and>
      snd (ex_bind memory_exec_repository rows q) = snd (spec_bind (dict_get rows) q)"
    by (simp add: memory_exec_repository_def)
next
  fix rows r and e :: int
  assume "mem_exec_ok rows"
  from mem_exec_save_spec [OF this, of r e]
  show "mem_exec_ok (fst (ex_save memory_exec_repository rows r e)) \<and>
      dict_get (fst (ex_save memory_exec_repository rows r e)) =
        fst (spec_write (touched r e) (dict_get rows) (dx_execution_id r) e) \<and>
      snd (ex_save memory_exec_repository rows r e) =
        snd (spec_write (touched r e) (dict_get rows) (dx_execution_id r) e)"
    by (simp add: memory_exec_repository_def)
next
  fix rows r and e :: int
  assume "mem_exec_ok rows"
  from mem_exec_cas_spec [OF this, of r e]
  show "mem_exec_ok (fst (ex_cas memory_exec_repository rows r e)) \<and>
      dict_get (fst (ex_cas memory_exec_repository rows r e)) =
        fst (spec_write (replaced r e) (dict_get rows) (dx_execution_id r) e) \<and>
      snd (ex_cas memory_exec_repository rows r e) =
        snd (spec_write (replaced r e) (dict_get rows) (dx_execution_id r) e)"
    by (simp add: memory_exec_repository_def)
qed

definition op_exec_view :: "exec_table \<Rightarrow> exec_map" where
  "op_exec_view t i = map_option op_payload (dict_get t i)"

definition op_exec_ok :: "exec_table \<Rightarrow> bool" where
  "op_exec_ok t = (dict_ok t \<and> rows_valid (op_exec_view t) \<and>
     (\<forall>i r. dict_get t i = Some r \<longrightarrow> op_seq r = dx_revision (op_payload r)))"

lemma op_exec_load_view: "op_exec_ok t \<Longrightarrow> op_exec_load t i = Inr (op_exec_view t i)"
  by (cases "dict_get t i") (simp_all add: op_exec_load_def get_versioned_def op_exec_view_def op_exec_ok_def)

lemma op_exec_put:
  assumes "op_exec_ok t" and "dict_ok t'"
    and "dict_get t' = (dict_get t)(i \<mapsto> \<lparr>op_payload = r, op_seq = dx_revision r, op_owner = w\<rparr>)"
    and "rows_valid ((op_exec_view t)(i \<mapsto> r))"
  shows "op_exec_ok t' \<and> op_exec_view t' = (op_exec_view t)(i \<mapsto> r)"
proof -
  have "op_exec_view t' = (op_exec_view t)(i \<mapsto> r)" using assms(3) by (auto simp: op_exec_view_def fun_eq_iff)
  with assms show ?thesis by (auto simp: op_exec_ok_def)
qed

lemma op_exec_bind_spec:
  assumes "op_exec_ok t"
  shows "op_exec_ok (fst (op_exec_bind id t q)) \<and>
    op_exec_view (fst (op_exec_bind id t q)) = fst (spec_bind (op_exec_view t) q) \<and>
    snd (op_exec_bind id t q) = snd (spec_bind (op_exec_view t) q)"
proof (cases "authorized_execution_id (bq_authorization_idempotency_key q)")
  case (Inl e)
  then show ?thesis using assms by (simp add: op_exec_bind_def spec_bind_def)
next
  case (Inr i)
  show ?thesis
  proof (cases "op_exec_view t i")
    case (Some c)
    then show ?thesis
      using assms Inr by (simp add: op_exec_bind_def spec_bind_def op_exec_load_view)
  next
    case None
    then have free: "dict_get t i = None" by (simp add: op_exec_view_def)
    show ?thesis
    proof (cases "check_execution (new_execution q i)")
      case (Inl e)
      then show ?thesis
        using assms Inr None by (simp add: op_exec_bind_def spec_bind_def op_exec_load_view)
    next
      case r: (Inr r)
      then have one: "dx_revision r = 1" "dx_execution_id r = i" "valid_execution r"
        using check_execution_id [OF r] checked_valid [OF r] by (simp_all add: new_execution_def)
      obtain t' where t': "insert_versioned t i r 1 None = Some t'"
        using free insert_versioned_None [of t i r 1 None] by auto
      have "op_exec_ok t' \<and> op_exec_view t' = (op_exec_view t)(i \<mapsto> r)"
        by (rule op_exec_put [OF assms, where w = None])
          (use insert_versioned_result [OF _ t'] assms one in
            \<open>simp_all add: op_exec_ok_def rows_valid_insert fun_eq_iff\<close>)
      then show ?thesis
        using assms Inr None r t' by (simp add: op_exec_bind_def spec_bind_def op_exec_load_view)
    qed
  qed
qed

lemma op_exec_bind_found:
  "authorized_execution_id (bq_authorization_idempotency_key q) = Inr i \<Longrightarrow> op_exec_load t i = Inr (Some c) \<Longrightarrow>
   op_exec_bind others t q = (t, require_same_plan c (bq_decision_id q) (bq_plan_id q))"
  by (simp add: op_exec_bind_def)

lemma op_exec_bind_lost:
  "authorized_execution_id (bq_authorization_idempotency_key q) = Inr i \<Longrightarrow> op_exec_load t i = Inr None \<Longrightarrow>
   check_execution (new_execution q i) = Inr r \<Longrightarrow> insert_versioned (others t) i r 1 None = None \<Longrightarrow>
   op_exec_load (others t) i = Inr (Some w) \<Longrightarrow>
   op_exec_bind others t q = (others t, require_same_plan w (bq_decision_id q) (bq_plan_id q))"
  by (simp add: op_exec_bind_def)

lemma op_write_spec:
  assumes "op_exec_ok t" and "advancing change e"
    and "res = (case op_exec_view t i of
        None \<Rightarrow> (t, Inl (AuthorizedExecutionRevisionConflict i e))
      | Some c \<Rightarrow> if dx_revision c \<noteq> e then (t, Inl (AuthorizedExecutionRevisionConflict i e))
          else (case change c of Inl x \<Rightarrow> (t, Inl x) | Inr n \<Rightarrow> op_exec_swap t i n e))"
  shows "op_exec_ok (fst res) \<and> op_exec_view (fst res) = fst (spec_write change (op_exec_view t) i e) \<and>
    snd res = snd (spec_write change (op_exec_view t) i e)"
proof (cases "op_exec_view t i")
  case None
  then show ?thesis using assms by (simp add: spec_write_def)
next
  case (Some c)
  show ?thesis
  proof (cases "dx_revision c = e \<and> (\<exists>n. change c = Inr n)")
    case False
    then show ?thesis using assms Some by (cases "change c") (auto simp: spec_write_def)
  next
    case True
    then obtain n where n: "change c = Inr n" and e: "dx_revision c = e" by blast
    have rev: "dx_revision n = e + 1" using assms(2) n by (auto simp: advancing_def)
    have w: "spec_write change (op_exec_view t) i e = ((op_exec_view t)(i \<mapsto> n), Inr n)"
      using Some n e by (simp add: spec_write_def)
    obtain row where row: "dict_get t i = Some row" "op_seq row = e"
      using Some assms(1) e by (auto simp: op_exec_view_def op_exec_ok_def)
    obtain t' b where sw: "compare_and_swap t i n e (e + 1) None = (t', b)" by force
    have "dict_ok t" using assms(1) by (simp add: op_exec_ok_def)
    note cas = compare_and_swap_result [OF this sw]
    have b: "b" using cas row by simp
    have "op_exec_ok t' \<and> op_exec_view t' = (op_exec_view t)(i \<mapsto> n)"
    proof (rule op_exec_put [OF assms(1), where w = None])
      show "dict_ok t'" using cas by simp
      show "dict_get t' = (dict_get t)(i \<mapsto> \<lparr>op_payload = n, op_seq = dx_revision n, op_owner = None\<rparr>)"
        using cas b rev by (simp add: fun_eq_iff)
      show "rows_valid ((op_exec_view t)(i \<mapsto> n))"
        using spec_write_moves [of "op_exec_view t" change e i] assms(1,2) w by (simp add: op_exec_ok_def)
    qed
    moreover have "res = (t', Inr n)"
      using Some n e sw b rev by (simp add: assms(3) op_exec_swap_def)
    ultimately show ?thesis by (simp add: w)
  qed
qed

lemma op_exec_save_spec:
  assumes "op_exec_ok t"
  shows "op_exec_ok (fst (op_exec_save t r e)) \<and>
    op_exec_view (fst (op_exec_save t r e)) =
      fst (spec_write (touched r e) (op_exec_view t) (dx_execution_id r) e) \<and>
    snd (op_exec_save t r e) = snd (spec_write (touched r e) (op_exec_view t) (dx_execution_id r) e)"
  by (rule op_write_spec [OF assms advancing_touched])
    (auto simp: op_exec_save_def op_exec_load_view [OF assms] touched_def split: option.splits sum.splits)

lemma op_exec_cas_spec:
  assumes "op_exec_ok t"
  shows "op_exec_ok (fst (op_exec_cas_replace t r e)) \<and>
    op_exec_view (fst (op_exec_cas_replace t r e)) =
      fst (spec_write (replaced r e) (op_exec_view t) (dx_execution_id r) e) \<and>
    snd (op_exec_cas_replace t r e) = snd (spec_write (replaced r e) (op_exec_view t) (dx_execution_id r) e)"
  by (rule op_write_spec [OF assms advancing_replaced])
    (auto simp: op_exec_cas_replace_def op_exec_load_view [OF assms] replaced_def split: option.splits sum.splits)

interpretation op_exec: execution_repository operational_exec_repository op_exec_ok op_exec_view
proof unfold_locales
  fix t i
  assume "op_exec_ok t"
  then show "rows_valid (op_exec_view t)" and "ex_get operational_exec_repository t i = Inr (op_exec_view t i)"
    by (simp_all add: op_exec_load_view operational_exec_repository_def) (simp add: op_exec_ok_def)
next
  fix t q
  assume "op_exec_ok t"
  from op_exec_bind_spec [OF this, of q]
  show "op_exec_ok (fst (ex_bind operational_exec_repository t q)) \<and>
      op_exec_view (fst (ex_bind operational_exec_repository t q)) = fst (spec_bind (op_exec_view t) q) \<and>
      snd (ex_bind operational_exec_repository t q) = snd (spec_bind (op_exec_view t) q)"
    by (simp add: operational_exec_repository_def)
next
  fix t r and e :: int
  assume "op_exec_ok t"
  from op_exec_save_spec [OF this, of r e]
  show "op_exec_ok (fst (ex_save operational_exec_repository t r e)) \<and>
      op_exec_view (fst (ex_save operational_exec_repository t r e)) =
        fst (spec_write (touched r e) (op_exec_view t) (dx_execution_id r) e) \<and>
      snd (ex_save operational_exec_repository t r e) =
        snd (spec_write (touched r e) (op_exec_view t) (dx_execution_id r) e)"
    by (simp add: operational_exec_repository_def)
next
  fix t r and e :: int
  assume "op_exec_ok t"
  from op_exec_cas_spec [OF this, of r e]
  show "op_exec_ok (fst (ex_cas operational_exec_repository t r e)) \<and>
      op_exec_view (fst (ex_cas operational_exec_repository t r e)) =
        fst (spec_write (replaced r e) (op_exec_view t) (dx_execution_id r) e) \<and>
      snd (ex_cas operational_exec_repository t r e) =
        snd (spec_write (replaced r e) (op_exec_view t) (dx_execution_id r) e)"
    by (simp add: operational_exec_repository_def)
qed

lemma empty_exec_ok [simp]: "mem_exec_ok []" "op_exec_ok []"
  by (simp_all add: mem_exec_ok_def op_exec_ok_def rows_valid_def op_exec_view_def)

lemma empty_exec_views: "op_exec_view [] = dict_get []"
  by (simp add: op_exec_view_def fun_eq_iff)

section \<open>Properties\<close>

text \<open>What a valid record says, by state.\<close>

lemma valid_execution_parts:
  assumes "valid_execution r"
  shows "validate_claim_fields r = Inr ()" and "validate_attempt_fields r = Inr ()"
    and "dx_observation_kind r \<noteq> Some ''live''" and "\<not> dx_raw_response_persisted r"
    and "0 \<le> dx_evaluated_offer_count r" and "1 \<le> dx_revision r"
  using assms unfolding valid_execution_def check_execution_def
  by (auto simp: and_then_Inr_iff split: if_split_asm)

lemma claim_iff_claim_state:
  assumes "validate_claim_fields r = Inr ()"
  shows "(\<exists>d. dx_claim_digest r = Some d) \<longleftrightarrow> dx_state r \<in> claim_states"
    and "dx_state r \<in> claim_states \<Longrightarrow>
      \<exists>a b. dx_claimed_at r = Some a \<and> dx_claim_expires_at r = Some b \<and> micros a < micros b"
  using assms
  by (cases "dx_state r";
      auto simp: validate_claim_fields_def claim_states_def terminal_execution_states_def blank_def
        split: if_split_asm option.split_asm)+

lemma each_ok_iff: "each_ok f xs = Inr () \<longleftrightarrow> (\<forall>x\<in>set xs. f x = Inr ())"
  by (induction xs) (auto simp: and_then_Inr_iff)

lemma attempt_facts:
  assumes "validate_attempt_fields r = Inr ()"
  shows "dx_state r \<in> {PreparedUnavailable, ClaimedForAttempt} \<Longrightarrow> no_attempt_facts r = Inr ()"
    and "dx_state r = Running \<Longrightarrow> no_outcome_yet r = Inr ()"
    and "dx_state r \<in> terminal_execution_states \<Longrightarrow>
      outcome_matches_state r = Inr () \<and> dx_evaluated_offer_count r = dx_normalized_offer_count r \<and>
      (\<forall>i\<in>set (dx_evidence_ids r). require_durable_evidence_reference i = Inr ()) \<and>
      (\<exists>t. dx_trace r = Some t \<and> tr_plan_id t = dx_plan_id r)"
  using assms unfolding validate_attempt_fields_def terminal_execution_states_def
  by (cases "dx_state r";
      auto simp: and_then_Inr_iff each_ok_iff split: if_split_asm option.split_asm)+

text \<open>
  C23: what a repository returns is an honest record of how far the execution got, whatever was bound,
  saved or replaced before: a claim digest exactly in the claimed and running states; no attempt facts,
  offers or outcome before an attempt; offers and evidence only in a completed attempt, which has at
  least one offer and no error; a trace of the same plan in every terminal state; and never a live
  observation or a raw response.
\<close>

theorem execution_record_honest:
  assumes "mem_exec_get (fst (exec_run memory_exec_repository [] history)) i = Some r \<or>
    op_exec_load (fst (exec_run operational_exec_repository [] history)) i = Inr (Some r)"
  shows "dx_execution_id r = i \<and> ((\<exists>d. dx_claim_digest r = Some d) \<longleftrightarrow> dx_state r \<in> {ClaimedForAttempt, Running}) \<and>
    (dx_state r \<in> {PreparedUnavailable, ClaimedForAttempt} \<longrightarrow>
       dx_attempt_started_at r = None \<and> dx_outcome r = None \<and> dx_trace r = None \<and> dx_request_digest r = None) \<and>
    (dx_state r \<noteq> Completed \<longrightarrow> dx_evaluated_offer_count r = 0 \<and> dx_evidence_ids r = []) \<and>
    (dx_state r = Completed \<longrightarrow> 1 \<le> dx_evaluated_offer_count r \<and> dx_error_category r = None \<and>
       int (length (dx_normalized_offer_digests r)) = dx_evaluated_offer_count r) \<and>
    (dx_state r \<in> {Completed, Failed, OutcomeUnknown} \<longrightarrow>
       (\<exists>t. dx_trace r = Some t \<and> tr_plan_id t = dx_plan_id r)) \<and>
    dx_observation_kind r \<noteq> Some ''live'' \<and> \<not> dx_raw_response_persisted r"
proof -
  have ok: "mem_exec_ok (fst (exec_run memory_exec_repository [] history))"
    "op_exec_ok (fst (exec_run operational_exec_repository [] history))"
    by (simp_all add: mem_exec.run_ok op_exec.run_ok)
  then have "(\<exists>V. rows_valid V \<and> V i = Some r)"
    using assms op_exec_load_view [OF ok(2), of i] by (auto simp: mem_exec_ok_def op_exec_ok_def mem_exec_get_def)
  then have i: "dx_execution_id r = i" and v: "valid_execution r" by (auto simp: rows_valid_def)
  note parts = valid_execution_parts [OF v]
  note cl = claim_iff_claim_state [OF parts(1)]
  note at = attempt_facts [OF parts(2)]
  show ?thesis
  proof (cases "dx_state r")
    case PreparedUnavailable
    with at(1) i parts cl show ?thesis
      by (auto simp: no_attempt_facts_def claim_states_def split: if_split_asm)
  next
    case ClaimedForAttempt
    with at(1) i parts cl show ?thesis
      by (auto simp: no_attempt_facts_def claim_states_def split: if_split_asm)
  next
    case Running
    with at(2) i parts cl show ?thesis
      by (auto simp: no_outcome_yet_def claim_states_def split: if_split_asm)
  next
    case Completed
    with at(3) i parts cl show ?thesis
      by (auto simp: outcome_matches_state_def claim_states_def terminal_execution_states_def split: if_split_asm)
  next
    case Failed
    with at(3) i parts cl show ?thesis
      by (auto simp: outcome_matches_state_def claim_states_def terminal_execution_states_def split: if_split_asm)
  next
    case OutcomeUnknown
    with at(3) i parts cl show ?thesis
      by (auto simp: outcome_matches_state_def claim_states_def terminal_execution_states_def split: if_split_asm)
  qed
qed

definition example_bind :: bind_request where
  "example_bind =
     \<lparr>bq_authorization_idempotency_key = ''research-auth:k'', bq_decision_id = ''dec'', bq_plan_id = ''plan'',
      bq_authorization_id = ''auth'', bq_authorization_version = 1, bq_now = Aware 0\<rparr>"

definition example_execution :: durable_execution where
  "example_execution = new_execution example_bind
     (''research-exec:'' @ take 32 (stable_sha256 (JObj
        [(''kind'', JStr ''sprint38_authorized_execution_v1''),
         (''authorization_idempotency_key'', JStr ''research-auth:k'')])))"

lemma example_execution_id:
  "authorized_execution_id ''research-auth:k'' = Inr (dx_execution_id example_execution)"
  by (simp add: authorized_execution_id_def example_execution_def)

lemma example_execution_valid: "check_execution example_execution = Inr example_execution"
  by (simp add: check_execution_def example_execution_def new_execution_def example_bind_def starts_with_iff
      validate_claim_fields_def validate_attempt_fields_def no_attempt_facts_def attempt_identity_def blank_def)

lemma example_bound: "spec_bind (dict_get []) example_bind =
    ((dict_get [])(dx_execution_id example_execution \<mapsto> example_execution), Inr example_execution)"
proof -
  have "bq_authorization_idempotency_key example_bind = ''research-auth:k''" by (simp add: example_bind_def)
  moreover have "new_execution example_bind (dx_execution_id example_execution) = example_execution"
    by (simp add: example_execution_def)
  ultimately show ?thesis
    by (simp add: spec_bind_def example_execution_id example_execution_valid)
qed

lemma example_mem_bound: "mem_exec_bind [] example_bind =
    (dict_set (dx_execution_id example_execution) example_execution [], Inr example_execution)"
proof -
  have "bq_authorization_idempotency_key example_bind = ''research-auth:k''" by (simp add: example_bind_def)
  moreover have "new_execution example_bind (dx_execution_id example_execution) = example_execution"
    by (simp add: example_execution_def)
  ultimately show ?thesis
    by (simp add: mem_exec_bind_def example_execution_id example_execution_valid)
qed

lemma example_get:
  "mem_exec_get (fst (exec_run memory_exec_repository [] [BindExecution example_bind]))
     (dx_execution_id example_execution) = Some example_execution"
  by (simp add: memory_exec_repository_def example_mem_bound mem_exec_get_def)

theorem execution_record_honest_witness:
  "dx_state example_execution = PreparedUnavailable \<and> dx_claim_digest example_execution = None \<and>
    dx_trace example_execution = None"
proof -
  have s: "dx_state example_execution = PreparedUnavailable" "dx_claim_digest example_execution = None"
    by (simp_all add: example_execution_def new_execution_def)
  show ?thesis
    using execution_record_honest [OF disjI1, OF example_get] s by simp
qed

text \<open>
  C10: an authorization executes one plan only.  Once it was bound to a plan, on either repository and
  after any history, every later bind of the same authorization key returns that execution, with the
  same pins, for the same decision and plan; raises a plan conflict naming it for another plan; is
  rejected for another decision; and leaves every row as it is.
\<close>

theorem execution_bound_to_one_plan:
  "(snd (mem_exec_bind (fst (exec_run memory_exec_repository [] before)) q) = Inr r \<longrightarrow>
     pinned_in memory_exec_repository
       (fst (exec_run memory_exec_repository
          (fst (mem_exec_bind (fst (exec_run memory_exec_repository [] before)) q)) after)) q r) \<and>
   (snd (op_exec_bind id (fst (exec_run operational_exec_repository [] before)) q) = Inr r \<longrightarrow>
     pinned_in operational_exec_repository
       (fst (exec_run operational_exec_repository
          (fst (op_exec_bind id (fst (exec_run operational_exec_repository [] before)) q)) after)) q r)"
  using mem_exec.bound_forever [OF mem_exec.run_ok [OF empty_exec_ok(1)], of before q r after]
    op_exec.bound_forever [OF op_exec.run_ok [OF empty_exec_ok(2)], of before q r after]
  by (simp_all add: memory_exec_repository_def operational_exec_repository_def)

theorem execution_bound_to_one_plan_witness:
  "\<exists>r'. snd (mem_exec_bind (fst (mem_exec_bind [] example_bind)) (example_bind\<lparr>bq_plan_id := ''other''\<rparr>)) =
     Inl (AuthorizationPlanConflict r') \<and> pins r' = pins example_execution"
proof -
  have "snd (mem_exec_bind (fst (exec_run memory_exec_repository [] [])) example_bind) = Inr example_execution"
    by (simp add: example_mem_bound)
  from mp [OF conjunct1 [OF execution_bound_to_one_plan] this, of "[]"]
  show ?thesis
    by (auto simp: pinned_in_def memory_exec_repository_def example_bind_def
        dest!: spec [of _ "example_bind\<lparr>bq_plan_id := ''other''\<rparr>"])
qed

text \<open>
  C22: no update of an execution is lost.  A replacement or save that succeeded at revision \<open>e\<close> stored
  its row at revision \<open>e + 1\<close>; from then on, after any history, every write of that execution at
  revision \<open>e\<close> raises a revision conflict and changes no row, on both repositories.
\<close>

theorem execution_cas_no_lost_update:
  assumes "s = fst (exec_run memory_exec_repository [] before)"
    and "t = fst (exec_run operational_exec_repository [] before)"
  shows "(mem_exec_cas_replace s r e = (s', Inr n) \<or> mem_exec_save s r e = (s', Inr n) \<longrightarrow>
      dx_revision n = e + 1 \<and> mem_exec_get s' (dx_execution_id r) = Some n \<and>
      closed_at memory_exec_repository (fst (exec_run memory_exec_repository s' after)) (dx_execution_id r) e) \<and>
    (op_exec_cas_replace t r e = (t', Inr n) \<or> op_exec_save t r e = (t', Inr n) \<longrightarrow>
      dx_revision n = e + 1 \<and> op_exec_load t' (dx_execution_id r) = Inr (Some n) \<and>
      closed_at operational_exec_repository (fst (exec_run operational_exec_repository t' after)) (dx_execution_id r) e)"
proof -
  have ok: "mem_exec_ok s" "op_exec_ok t" by (simp_all add: assms mem_exec.run_ok op_exec.run_ok)
  have m: "dx_revision n = e + 1 \<and> mem_exec_get s' (dx_execution_id r) = Some n \<and>
      closed_at memory_exec_repository (fst (exec_run memory_exec_repository s' after)) (dx_execution_id r) e"
    if "mem_exec_cas_replace s r e = (s', Inr n) \<or> mem_exec_save s r e = (s', Inr n)"
    using that mem_exec.cas_then_stale [OF ok(1), of r e s' n after]
      mem_exec.save_then_stale [OF ok(1), of r e s' n after]
    by (auto simp: memory_exec_repository_def)
  have p: "dx_revision n = e + 1 \<and> op_exec_load t' (dx_execution_id r) = Inr (Some n) \<and>
      closed_at operational_exec_repository (fst (exec_run operational_exec_repository t' after)) (dx_execution_id r) e"
    if "op_exec_cas_replace t r e = (t', Inr n) \<or> op_exec_save t r e = (t', Inr n)"
    using that op_exec.cas_then_stale [OF ok(2), of r e t' n after]
      op_exec.save_then_stale [OF ok(2), of r e t' n after]
    by (auto simp: operational_exec_repository_def)
  show ?thesis using m p by blast
qed

theorem execution_cas_no_lost_update_witness:
  "\<exists>s. closed_at memory_exec_repository s (dx_execution_id example_execution) 1"
proof -
  let ?s = "dict_set (dx_execution_id example_execution) example_execution []"
  let ?n = "example_execution\<lparr>dx_updated_at := dx_updated_at example_execution, dx_revision := 2\<rparr>"
  have v: "check_execution ?n = Inr ?n"
    by (simp add: check_execution_def example_execution_def new_execution_def example_bind_def starts_with_iff
        validate_claim_fields_def validate_attempt_fields_def no_attempt_facts_def attempt_identity_def blank_def)
  have "dx_revision example_execution = 1" by (simp add: example_execution_def new_execution_def)
  then have "mem_exec_save ?s example_execution 1 = (dict_set (dx_execution_id example_execution) ?n ?s, Inr ?n)"
    using v by (simp add: mem_exec_save_def dict_get_set require_same_plan_def)
  moreover have "?s = fst (exec_run memory_exec_repository [] [BindExecution example_bind])"
    by (simp add: memory_exec_repository_def example_mem_bound)
  ultimately show ?thesis
    using execution_cas_no_lost_update [OF _ refl, of ?s "[BindExecution example_bind]" example_execution 1 _ ?n "[]"]
    by blast
qed

text \<open>
  C21: both repositories implement the map of executions: from empty, after any sequence of gets,
  binds, saves and replacements, each has given the answers of the abstract repository and holds its
  rows, and so the process-local double and production agree.
\<close>

theorem execution_repositories_refine:
  "snd (exec_run memory_exec_repository [] ops) = snd (exec_run spec_exec_repository (\<lambda>_. None) ops) \<and>
   snd (exec_run operational_exec_repository [] ops) = snd (exec_run spec_exec_repository (\<lambda>_. None) ops) \<and>
   mem_exec_get (fst (exec_run memory_exec_repository [] ops)) i =
     fst (exec_run spec_exec_repository (\<lambda>_. None) ops) i \<and>
   op_exec_load (fst (exec_run operational_exec_repository [] ops)) i =
     Inr (fst (exec_run spec_exec_repository (\<lambda>_. None) ops) i)"
proof -
  have e: "dict_get [] = (\<lambda>_. None)" by (simp add: fun_eq_iff)
  show ?thesis
    using mem_exec.run_refines [OF empty_exec_ok(1), of ops] op_exec.run_refines [OF empty_exec_ok(2), of ops]
    by (simp add: empty_exec_views e op_exec_load_view mem_exec_get_def)
qed

text \<open>
  two sessions binding one authorization at the same time bind one plan.  If another session's
  bind commits between the look-up and the insert, the slower bind writes nothing and answers as if
  it had come second: with the other's execution for the same plan and decision, else a conflict.
\<close>

theorem concurrent_binds_agree:
  assumes "t = fst (exec_run operational_exec_repository [] before)"
    and "bq_authorization_idempotency_key q1 = bq_authorization_idempotency_key q2"
    and "snd (op_exec_bind id t q2) = Inr r2"
    and "check_execution (new_execution q1 (dx_execution_id r2)) = Inr r1"
  shows "op_exec_bind (\<lambda>t. fst (op_exec_bind id t q2)) t q1 =
      (fst (op_exec_bind id t q2), require_same_plan r2 (bq_decision_id q1) (bq_plan_id q1))"
proof -
  define t2 where "t2 = fst (op_exec_bind id t q2)"
  define i where "i = dx_execution_id r2"
  have ok: "op_exec_ok t" by (simp add: assms(1) op_exec.run_ok)
  note b = op_exec_bind_spec [OF ok, of q2]
  then have ok2: "op_exec_ok t2" by (simp add: t2_def)
  have sp: "spec_bind (op_exec_view t) q2 = (op_exec_view t2, Inr r2)"
    using b assms(3) by (simp add: t2_def prod_eq_iff)
  have "rows_valid (op_exec_view t)" using ok by (simp add: op_exec_ok_def)
  note d = spec_bind_done [OF this sp]
  have id1: "authorized_execution_id (bq_authorization_idempotency_key q1) = Inr i" using d assms(2) by (simp add: i_def)
  have id2: "authorized_execution_id (bq_authorization_idempotency_key q2) = Inr i" using d by (simp add: i_def)
  have row2: "op_exec_view t2 i = Some r2" using d by (simp add: i_def)
  show ?thesis
  proof (cases "op_exec_view t i")
    case (Some c)
    then have first: "op_exec_bind id t q2 = (t, require_same_plan c (bq_decision_id q2) (bq_plan_id q2))"
      using ok by (intro op_exec_bind_found [OF id2]) (simp add: op_exec_load_view)
    then have "c = r2" using assms(3) by (auto simp: require_same_plan_def split: if_split_asm)
    with first op_exec_bind_found [OF id1, of t c] show ?thesis
      using Some ok by (simp add: op_exec_load_view)
  next
    case None
    have taken: "insert_versioned t2 i r1 1 None = None"
      using row2 insert_versioned_None [of t2 i r1 1 None] by (auto simp: op_exec_view_def)
    from op_exec_bind_lost [OF id1 _ assms(4) [folded i_def], of t "\<lambda>t. fst (op_exec_bind id t q2)" r2]
    show ?thesis
      using None ok ok2 row2 taken by (simp add: op_exec_load_view t2_def [symmetric])
  qed
qed

theorem concurrent_binds_agree_witness:
  "snd (op_exec_bind (\<lambda>t. fst (op_exec_bind id t example_bind)) [] (example_bind\<lparr>bq_plan_id := ''other''\<rparr>)) =
     Inl (AuthorizationPlanConflict example_execution)"
proof -
  let ?q = "example_bind\<lparr>bq_plan_id := ''other''\<rparr>"
  have 1: "[] = fst (exec_run operational_exec_repository [] [])" by simp
  have 2: "bq_authorization_idempotency_key ?q = bq_authorization_idempotency_key example_bind" by simp
  have 3: "snd (op_exec_bind id [] example_bind) = Inr example_execution"
    using op_exec_bind_spec [OF empty_exec_ok(2), of example_bind] example_bound
    by (simp add: empty_exec_views)
  have 4: "check_execution (new_execution ?q (dx_execution_id example_execution)) =
      Inr (new_execution ?q (dx_execution_id example_execution))"
    by (simp add: check_execution_def example_execution_def new_execution_def example_bind_def starts_with_iff
      validate_claim_fields_def validate_attempt_fields_def no_attempt_facts_def attempt_identity_def blank_def)
  show ?thesis
    using concurrent_binds_agree [OF 1 2 3 4]
    by (simp add: require_same_plan_def example_execution_def new_execution_def example_bind_def)
qed

end
