(* ===== verification/Catalog.thy ===== *)
theory Catalog
  imports Reliability Execution
begin

text \<open>
  app/domain/entities/research_execution.py (certifications, certification evidence, routing policies,
  provider descriptors and trusted markets, with their constructor checks), app/research/registry.py,
  certification.py, certification_evidence.py, routing.py and app/market/support.py: the four server-owned
  catalogs.  A catalog's dictionary keeps insertion order, which is what the separate \<open>_order\<close> list
  holds.  A provider is its descriptor.  \<open>keyed_catalog\<close> is the contract all four share: records
  are found by their exact key only, duplicates and, in production, test fixtures are refused.
\<close>

section \<open>Values\<close>

fun capability_value :: "research_capability \<Rightarrow> string" where
  "capability_value ProductDiscovery = ''product_discovery''"
| "capability_value OfferDiscovery = ''offer_discovery''"
| "capability_value CurrentPricing = ''current_pricing''"
| "capability_value Availability = ''availability''"
| "capability_value Shipping = ''shipping''"
| "capability_value TaxesImport = ''taxes_import''"
| "capability_value PromotionEvidence = ''promotion_evidence''"
| "capability_value WarrantyEvidence = ''warranty_evidence''"
| "capability_value ProductSpecification = ''product_specification''"
| "capability_value ReviewCommunityEvidence = ''review_community_evidence''"

definition destination_sensitive_capabilities :: "research_capability set" where
  "destination_sensitive_capabilities = {Shipping, TaxesImport}"

datatype cert_status = Certified | Revoked | CertDisabled | CertPending | CertExpired

fun cert_status_value :: "cert_status \<Rightarrow> string" where
  "cert_status_value Certified = ''certified''"
| "cert_status_value Revoked = ''revoked''"
| "cert_status_value CertDisabled = ''disabled''"
| "cert_status_value CertPending = ''pending''"
| "cert_status_value CertExpired = ''expired''"

datatype policy_state = Allowed | Restricted | Prohibited | PolicyUnknown

fun policy_value :: "policy_state \<Rightarrow> string" where
  "policy_value Allowed = ''allowed''"
| "policy_value Restricted = ''restricted''"
| "policy_value Prohibited = ''prohibited''"
| "policy_value PolicyUnknown = ''unknown''"

datatype source_scope = Exact | SourceAgnostic

fun scope_value :: "source_scope \<Rightarrow> string" where
  "scope_value Exact = ''exact''"
| "scope_value SourceAgnostic = ''source_agnostic''"

datatype provider_type = Merchant | Manufacturer | Community | PublicWeb | TestProvider

text \<open>The market every record names: a valid ISO code, stored in normal form.\<close>

definition trusted_market_code :: "string \<Rightarrow> auth_error + string" where
  "trusted_market_code m =
     (case normalize_country_code (Some m) of
        None \<Rightarrow> Inl AuthValueError
      | Some c \<Rightarrow> if is_valid_country_code (Some c) then Inr c else Inl AuthValueError)"

record trusted_market =
  tm_country_code :: string

definition check_trusted_market :: "trusted_market \<Rightarrow> auth_error + trusted_market" where
  "check_trusted_market m =
     and_then (trusted_market_code (tm_country_code m)) (\<lambda>c. Inr (m\<lparr>tm_country_code := c\<rparr>))"

record certification =
  ct_provider_id :: string
  ct_capability :: research_capability
  ct_market :: string
  ct_certification_version :: string
  ct_status :: cert_status
  ct_policy :: policy_state
  ct_source :: "string option"
  ct_source_scope :: source_scope
  ct_test_fixture :: bool
  ct_certification_id :: string

definition source_matches_scope :: "string option \<Rightarrow> source_scope \<Rightarrow> bool" where
  "source_matches_scope source scope =
     (case scope of Exact \<Rightarrow> \<not> blank source | SourceAgnostic \<Rightarrow> source = None)"

definition check_certification :: "certification \<Rightarrow> auth_error + certification" where
  "check_certification r =
     (if ct_provider_id r = [] then Inl AuthValueError
      else if ct_certification_version r = [] then Inl AuthValueError
      else and_then (trusted_market_code (ct_market r)) (\<lambda>code.
        if \<not> source_matches_scope (ct_source r) (ct_source_scope r) then Inl AuthValueError
        else Inr (r\<lparr>ct_market := code\<rparr>)))"

definition cert_is_executable :: "certification \<Rightarrow> bool" where
  "cert_is_executable r = (ct_status r = Certified \<and> ct_policy r = Allowed)"

definition cert_is_production_eligible :: "certification \<Rightarrow> bool" where
  "cert_is_production_eligible r = (ct_status r = Certified \<and> ct_policy r = Allowed \<and> \<not> ct_test_fixture r)"

type_synonym target_key = "string \<times> string \<times> string \<times> string \<times> string"

definition source_or_empty :: "string option \<Rightarrow> string" where
  "source_or_empty v = (case v of None \<Rightarrow> [] | Some s \<Rightarrow> s)"

definition cert_lookup_key :: "certification \<Rightarrow> target_key" where
  "cert_lookup_key r =
     (ct_provider_id r, capability_value (ct_capability r), ct_market r, scope_value (ct_source_scope r),
      source_or_empty (ct_source r))"

definition cert_to_dict :: "certification \<Rightarrow> json" where
  "cert_to_dict r = JObj
     [(''certification_id'', JStr (ct_certification_id r)), (''provider_id'', JStr (ct_provider_id r)),
      (''capability'', JStr (capability_value (ct_capability r))), (''market'', JStr (ct_market r)),
      (''source'', jopt (ct_source r)), (''source_scope'', JStr (scope_value (ct_source_scope r))),
      (''status'', JStr (cert_status_value (ct_status r))), (''policy'', JStr (policy_value (ct_policy r))),
      (''certification_version'', JStr (ct_certification_version r)),
      (''test_fixture'', JBool (ct_test_fixture r))]"

text \<open>A calendar date is its day number.\<close>

datatype completeness = Incomplete | Recorded

fun completeness_value :: "completeness \<Rightarrow> string" where
  "completeness_value Incomplete = ''incomplete''"
| "completeness_value Recorded = ''recorded''"

record cert_evidence =
  ev_provider_id :: string
  ev_capability :: research_capability
  ev_market :: string
  ev_evidence_source :: string
  ev_source :: "string option"
  ev_source_scope :: source_scope
  ev_certification_version :: string
  ev_program_reference :: string
  ev_evidence_date :: "int option"
  ev_review_date :: "int option"
  ev_reviewer :: string
  ev_restrictions :: "string list"
  ev_attribution_requirements :: "string list"
  ev_review_after :: "int option"
  ev_completeness :: completeness
  ev_notes :: string
  ev_test_fixture :: bool
  ev_evidence_id :: string

definition require_text_items :: "string list \<Rightarrow> auth_error + string list" where
  "require_text_items items =
     (if list_ex (\<lambda>s. strip s = []) items then Inl AuthValueError else Inr (map strip items))"

definition check_evidence :: "cert_evidence \<Rightarrow> auth_error + cert_evidence" where
  "check_evidence r =
     (if ev_provider_id r = [] then Inl AuthValueError
      else if strip (ev_evidence_source r) = [] then Inl AuthValueError
      else and_then (trusted_market_code (ev_market r)) (\<lambda>code.
        if \<not> source_matches_scope (ev_source r) (ev_source_scope r) then Inl AuthValueError
        else if ev_review_date r \<noteq> None \<and> strip (ev_reviewer r) = [] then Inl AuthValueError
        else and_then (require_text_items (ev_restrictions r)) (\<lambda>restrictions.
        and_then (require_text_items (ev_attribution_requirements r)) (\<lambda>attribution.
        Inr (r\<lparr>ev_market := code, ev_restrictions := restrictions,
               ev_attribution_requirements := attribution, ev_notes := strip (ev_notes r),
               ev_program_reference := strip (ev_program_reference r),
               ev_certification_version := strip (ev_certification_version r),
               ev_reviewer := strip (ev_reviewer r), ev_evidence_source := strip (ev_evidence_source r)\<rparr>)))))"

definition evidence_lookup_key :: "cert_evidence \<Rightarrow> target_key" where
  "evidence_lookup_key r =
     (ev_provider_id r, capability_value (ev_capability r), ev_market r, scope_value (ev_source_scope r),
      source_or_empty (ev_source r))"

definition evidence_binds_to :: "cert_evidence \<Rightarrow> certification \<Rightarrow> bool" where
  "evidence_binds_to r c =
     (evidence_lookup_key r = cert_lookup_key c \<and>
      (ev_certification_version r = [] \<or> ev_certification_version r = ct_certification_version c))"

definition decision_readiness_reason :: "cert_evidence \<Rightarrow> int \<Rightarrow> string option" where
  "decision_readiness_reason r as_of =
     (if ev_completeness r \<noteq> Recorded then Some ''evidence_incomplete''
      else if ev_review_date r = None \<or> ev_reviewer r = [] then Some ''reviewer_missing''
      else if (case ev_review_after r of None \<Rightarrow> False | Some d \<Rightarrow> d < as_of) then Some ''evidence_stale''
      else None)"

definition is_decision_ready :: "cert_evidence \<Rightarrow> int \<Rightarrow> bool" where
  "is_decision_ready r as_of = (decision_readiness_reason r as_of = None)"

record routing_policy =
  rt_provider_id :: string
  rt_routing_priority :: int
  rt_test_fixture :: bool

definition check_routing_policy :: "routing_policy \<Rightarrow> auth_error + routing_policy" where
  "check_routing_policy r = (if rt_provider_id r = [] then Inl AuthValueError else Inr r)"

text \<open>The commission rate is a float the planner must not read; it is kept as an arbitrary value.\<close>

record 'f descriptor =
  de_provider_id :: string
  de_provider_type :: provider_type
  de_supported_markets :: "string list"
  de_supported_capabilities :: "research_capability list"
  de_supported_sources :: "string list"
  de_operational_status :: operational_status
  de_test_fixture :: bool
  de_kill_switch :: kill_switch
  de_breaker_state :: breaker
  de_breaker_reason :: "string option"
  de_affiliate_commission_rate :: "'f option"
  de_may_expand_evaluated_set :: bool
  de_can_provide_pricing :: bool
  de_can_provide_shipping_taxes :: bool
  de_can_provide_product_evidence :: bool
  de_can_provide_review_evidence :: bool

definition check_descriptor :: "'f descriptor \<Rightarrow> auth_error + 'f descriptor" where
  "check_descriptor d =
     (let codes = map (\<lambda>m. normalize_country_code (Some m)) (de_supported_markets d) in
      if de_provider_id d = [] then Inl AuthValueError
      else if list_ex (\<lambda>c. c = None \<or> \<not> is_valid_country_code c) codes then Inl AuthValueError
      else if de_test_fixture d \<and> de_provider_type d \<noteq> TestProvider then Inl AuthValueError
      else if \<not> de_test_fixture d \<and> de_provider_type d = TestProvider then Inl AuthValueError
      else Inr (d\<lparr>de_supported_markets := map the codes\<rparr>))"

definition allows_execution :: "breaker \<Rightarrow> bool" where
  "allows_execution b = (b \<noteq> OPEN)"

definition is_operationally_available_descriptor :: "'f descriptor \<Rightarrow> bool" where
  "is_operationally_available_descriptor d =
     (de_operational_status d = AVAILABLE \<and> \<not> engaged (de_kill_switch d) \<and>
      allows_execution (de_breaker_state d))"

section \<open>ResearchProviderRegistry\<close>

text \<open>A constructor registers its records one by one and raises where one is refused.\<close>

fun register_all :: "('c \<Rightarrow> 'r \<Rightarrow> 'e + 'c) \<Rightarrow> 'c \<Rightarrow> 'r list \<Rightarrow> 'e + 'c" where
  "register_all reg c [] = Inr c"
| "register_all reg c (r # rs) = and_then (reg c r) (\<lambda>c'. register_all reg c' rs)"

record 'f registry =
  rg_allow_test_providers :: bool
  rg_providers :: "(string, 'f descriptor) dict"

definition registry_register :: "'f registry \<Rightarrow> 'f descriptor \<Rightarrow> auth_error + 'f registry" where
  "registry_register c d =
     (if de_test_fixture d \<and> \<not> rg_allow_test_providers c then Inl AuthValueError
      else if dict_get (rg_providers c) (de_provider_id d) \<noteq> None then Inl AuthValueError
      else Inr (c\<lparr>rg_providers := dict_set (de_provider_id d) d (rg_providers c)\<rparr>))"

definition mk_registry :: "'f descriptor list \<Rightarrow> bool \<Rightarrow> auth_error + 'f registry" where
  "mk_registry ds allow =
     register_all registry_register \<lparr>rg_allow_test_providers = allow, rg_providers = []\<rparr> ds"

definition registry_get :: "'f registry \<Rightarrow> string \<Rightarrow> 'f descriptor option" where
  "registry_get c provider_id = dict_get (rg_providers c) provider_id"

definition list_providers :: "'f registry \<Rightarrow> 'f descriptor list" where
  "list_providers c = map snd (rg_providers c)"

definition registry_fingerprint :: "'f registry \<Rightarrow> string" where
  "registry_fingerprint c = stable_sha256 (JObj
     [(''kind'', JStr ''research_provider_registry_v1''),
      (''providers'', JArr (map (\<lambda>d. JObj
        [(''provider_id'', JStr (de_provider_id d)),
         (''supported_markets'', jstrs (de_supported_markets d)),
         (''supported_capabilities'', jstrs (map capability_value (de_supported_capabilities d))),
         (''supported_sources'', jstrs (de_supported_sources d))]) (list_providers c)))])"

section \<open>ResearchProviderCertificationCatalog\<close>

record cert_catalog =
  cc_allow_test_certifications :: bool
  cc_records :: "(target_key, certification) dict"

definition certification_id :: "certification \<Rightarrow> string" where
  "certification_id r = ''research-cert:'' @ stable_sha256 (JObj
     [(''kind'', JStr ''research_provider_certification_v1''), (''provider_id'', JStr (ct_provider_id r)),
      (''capability'', JStr (capability_value (ct_capability r))), (''market'', JStr (ct_market r)),
      (''source'', jopt (ct_source r)), (''source_scope'', JStr (scope_value (ct_source_scope r))),
      (''status'', JStr (cert_status_value (ct_status r))), (''policy'', JStr (policy_value (ct_policy r))),
      (''certification_version'', JStr (ct_certification_version r))])"

definition with_certification_id :: "certification \<Rightarrow> certification" where
  "with_certification_id r =
     (if ct_certification_id r = [] then r\<lparr>ct_certification_id := certification_id r\<rparr> else r)"

definition cert_register :: "cert_catalog \<Rightarrow> certification \<Rightarrow> auth_error + cert_catalog" where
  "cert_register c r =
     (if ct_test_fixture r \<and> \<not> cc_allow_test_certifications c then Inl AuthValueError
      else
        (let stored = with_certification_id r; key = cert_lookup_key stored in
         if dict_get (cc_records c) key \<noteq> None then Inl AuthValueError
         else Inr (c\<lparr>cc_records := dict_set key stored (cc_records c)\<rparr>)))"

definition cert_replace :: "cert_catalog \<Rightarrow> certification \<Rightarrow> auth_error + cert_catalog" where
  "cert_replace c r =
     (if ct_test_fixture r \<and> \<not> cc_allow_test_certifications c then Inl AuthValueError
      else
        (let stored = with_certification_id r; key = cert_lookup_key stored in
         if dict_get (cc_records c) key = None then Inl AuthValueError
         else Inr (c\<lparr>cc_records := dict_set key stored (cc_records c)\<rparr>)))"

definition mk_cert_catalog :: "certification list \<Rightarrow> bool \<Rightarrow> auth_error + cert_catalog" where
  "mk_cert_catalog rs allow =
     register_all cert_register \<lparr>cc_allow_test_certifications = allow, cc_records = []\<rparr> rs"

definition cert_records :: "cert_catalog \<Rightarrow> certification list" where
  "cert_records c = map snd (cc_records c)"

definition records_for_provider :: "cert_catalog \<Rightarrow> string \<Rightarrow> certification list" where
  "records_for_provider c provider_id = filter (\<lambda>r. ct_provider_id r = provider_id) (cert_records c)"

text \<open>The key an exact look-up asks for: a missing source is the source-agnostic record only.\<close>

definition target_lookup_key ::
  "string \<Rightarrow> research_capability \<Rightarrow> string \<Rightarrow> string option \<Rightarrow> target_key" where
  "target_lookup_key provider_id capability market source =
     (case source of
        None \<Rightarrow> (provider_id, capability_value capability, market, ''source_agnostic'', [])
      | Some s \<Rightarrow> (provider_id, capability_value capability, market, ''exact'', s))"

definition cert_lookup ::
  "cert_catalog \<Rightarrow> string \<Rightarrow> research_capability \<Rightarrow> string \<Rightarrow> string option \<Rightarrow> certification option" where
  "cert_lookup c provider_id capability market source =
     dict_get (cc_records c) (target_lookup_key provider_id capability market source)"

definition cert_fingerprint :: "cert_catalog \<Rightarrow> string" where
  "cert_fingerprint c = stable_sha256 (JObj
     [(''kind'', JStr ''research_provider_certification_catalog_v1''),
      (''records'', JArr (map cert_to_dict (cert_records c)))])"

section \<open>ResearchProviderCertificationEvidenceCatalog\<close>

record evidence_catalog =
  ec_allow_test_evidence :: bool
  ec_records :: "(target_key, cert_evidence) dict"

definition evidence_id :: "cert_evidence \<Rightarrow> string" where
  "evidence_id r = ''research-cert-evidence:'' @ stable_sha256 (JObj
     [(''kind'', JStr ''research_provider_certification_evidence_v1''),
      (''provider_id'', JStr (ev_provider_id r)),
      (''capability'', JStr (capability_value (ev_capability r))), (''market'', JStr (ev_market r)),
      (''source'', jopt (ev_source r)), (''source_scope'', JStr (scope_value (ev_source_scope r))),
      (''certification_version'', JStr (ev_certification_version r)),
      (''evidence_source'', JStr (ev_evidence_source r)),
      (''completeness'', JStr (completeness_value (ev_completeness r)))])"

definition with_evidence_id :: "cert_evidence \<Rightarrow> cert_evidence" where
  "with_evidence_id r = (if ev_evidence_id r = [] then r\<lparr>ev_evidence_id := evidence_id r\<rparr> else r)"

definition evidence_register :: "evidence_catalog \<Rightarrow> cert_evidence \<Rightarrow> auth_error + evidence_catalog" where
  "evidence_register c r =
     (if ev_test_fixture r \<and> \<not> ec_allow_test_evidence c then Inl AuthValueError
      else
        (let stored = with_evidence_id r; key = evidence_lookup_key stored in
         if dict_get (ec_records c) key \<noteq> None then Inl AuthValueError
         else Inr (c\<lparr>ec_records := dict_set key stored (ec_records c)\<rparr>)))"

definition mk_evidence_catalog :: "cert_evidence list \<Rightarrow> bool \<Rightarrow> auth_error + evidence_catalog" where
  "mk_evidence_catalog rs allow =
     register_all evidence_register \<lparr>ec_allow_test_evidence = allow, ec_records = []\<rparr> rs"

definition evidence_records :: "evidence_catalog \<Rightarrow> cert_evidence list" where
  "evidence_records c = map snd (ec_records c)"

definition evidence_for_provider :: "evidence_catalog \<Rightarrow> string \<Rightarrow> cert_evidence list" where
  "evidence_for_provider c provider_id = filter (\<lambda>r. ev_provider_id r = provider_id) (evidence_records c)"

definition evidence_lookup ::
  "evidence_catalog \<Rightarrow> string \<Rightarrow> research_capability \<Rightarrow> string \<Rightarrow> string option \<Rightarrow> cert_evidence option" where
  "evidence_lookup c provider_id capability market source =
     dict_get (ec_records c) (target_lookup_key provider_id capability market source)"

section \<open>ResearchProviderRoutingPolicyCatalog\<close>

record routing_catalog =
  rc_allow_test_policies :: bool
  rc_records :: "(string, routing_policy) dict"

definition routing_register :: "routing_catalog \<Rightarrow> routing_policy \<Rightarrow> auth_error + routing_catalog" where
  "routing_register c r =
     (if rt_test_fixture r \<and> \<not> rc_allow_test_policies c then Inl AuthValueError
      else if dict_get (rc_records c) (rt_provider_id r) \<noteq> None then Inl AuthValueError
      else Inr (c\<lparr>rc_records := dict_set (rt_provider_id r) r (rc_records c)\<rparr>))"

definition mk_routing_catalog :: "routing_policy list \<Rightarrow> bool \<Rightarrow> auth_error + routing_catalog" where
  "mk_routing_catalog rs allow =
     register_all routing_register \<lparr>rc_allow_test_policies = allow, rc_records = []\<rparr> rs"

definition routing_records :: "routing_catalog \<Rightarrow> routing_policy list" where
  "routing_records c = map snd (rc_records c)"

definition routing_lookup :: "routing_catalog \<Rightarrow> string \<Rightarrow> routing_policy option" where
  "routing_lookup c provider_id = dict_get (rc_records c) provider_id"

definition routing_sort_key :: "routing_catalog \<Rightarrow> string \<Rightarrow> int \<times> int \<times> string" where
  "routing_sort_key c provider_id =
     (case routing_lookup c provider_id of
        None \<Rightarrow> (1, 0, provider_id)
      | Some r \<Rightarrow> (0, rt_routing_priority r, provider_id))"

definition routing_fingerprint :: "routing_catalog \<Rightarrow> string" where
  "routing_fingerprint c = stable_sha256 (JObj
     [(''kind'', JStr ''research_provider_routing_policy_catalog_v1''),
      (''records'', JArr (map (\<lambda>r. JObj
        [(''provider_id'', JStr (rt_provider_id r)), (''routing_priority'', JInt (rt_routing_priority r))])
        (sort_key rt_provider_id (routing_records c))))])"

section \<open>CertifiedShoppingMarketCatalog\<close>

definition is_certified_market :: "string set \<Rightarrow> string option \<Rightarrow> bool" where
  "is_certified_market markets country_code =
     (case normalize_country_code country_code of None \<Rightarrow> False | Some c \<Rightarrow> c \<in> markets)"

definition may_invoke_connector :: "string set \<Rightarrow> string option \<Rightarrow> bool" where
  "may_invoke_connector markets country_code = is_certified_market markets country_code"

definition production_certified_shopping_markets :: "string set" where
  "production_certified_shopping_markets = {}"

section \<open>The catalog contract\<close>

locale keyed_catalog =
  fixes add :: "'c \<Rightarrow> 'r \<Rightarrow> auth_error + 'c" and find :: "'c \<Rightarrow> 'k \<Rightarrow> 'r option"
    and items :: "'c \<Rightarrow> 'r list" and key :: "'r \<Rightarrow> 'k" and stored :: "'r \<Rightarrow> 'r"
    and fixture :: "'r \<Rightarrow> bool" and allows :: "'c \<Rightarrow> bool" and ok :: "'c \<Rightarrow> bool"
  assumes add_law: "ok c \<Longrightarrow> (fixture r \<and> \<not> allows c) \<or> find c (key r) \<noteq> None \<Longrightarrow> add c r = Inl AuthValueError"
    and added_law: "ok c \<Longrightarrow> \<not> (fixture r \<and> \<not> allows c) \<Longrightarrow> find c (key r) = None \<Longrightarrow>
      \<exists>c'. add c r = Inr c' \<and> ok c' \<and> allows c' = allows c \<and> items c' = items c @ [stored r]"
    and find_law: "ok c \<Longrightarrow> find c k = Some r \<longleftrightarrow> r \<in> set (items c) \<and> key r = k"
    and key_law: "ok c \<Longrightarrow> distinct (map key (items c))"
    and stored_law: "key (stored r) = key r" "fixture (stored r) = fixture r"
begin

lemma find_None:
  assumes "ok c"
  shows "find c k = None \<longleftrightarrow> k \<notin> key ` set (items c)"
proof (cases "find c k")
  case None
  have "r \<notin> set (items c)" if "key r = k" for r
    using find_law [OF assms, of k r] None that by simp
  with None show ?thesis by auto
next
  case (Some r)
  then show ?thesis using find_law [OF assms, of k r] by auto
qed

text \<open>Loading a list of records succeeds exactly when no key repeats and no fixture is refused.\<close>

lemma load_iff:
  "ok c \<Longrightarrow> (\<exists>c'. register_all add c rs = Inr c') \<longleftrightarrow>
     distinct (map key (items c @ rs)) \<and> (allows c \<or> (\<forall>r\<in>set rs. \<not> fixture r))"
proof (induction rs arbitrary: c)
  case Nil
  then show ?case by (simp add: key_law)
next
  case (Cons r rs)
  show ?case
  proof (cases "(fixture r \<and> \<not> allows c) \<or> find c (key r) \<noteq> None")
    case True
    then show ?thesis
      using add_law [OF Cons.prems True] find_None [OF Cons.prems, of "key r"]
      by (auto simp: image_iff)
  next
    case False
    then obtain c' where c': "add c r = Inr c'" "ok c'" "allows c' = allows c" "items c' = items c @ [stored r]"
      using added_law [OF Cons.prems] by blast
    show ?thesis
      using Cons.IH [OF c'(2)] False c' find_None [OF Cons.prems, of "key r"]
      by (auto simp: stored_law)
  qed
qed

lemma load_items:
  "ok c \<Longrightarrow> register_all add c rs = Inr c' \<Longrightarrow>
     ok c' \<and> allows c' = allows c \<and> items c' = items c @ map stored rs"
proof (induction rs arbitrary: c)
  case Nil
  then show ?case by simp
next
  case (Cons r rs)
  have "\<not> ((fixture r \<and> \<not> allows c) \<or> find c (key r) \<noteq> None)"
  proof
    assume "(fixture r \<and> \<not> allows c) \<or> find c (key r) \<noteq> None"
    from add_law [OF Cons.prems(1) this] show False using Cons.prems(2) by simp
  qed
  then obtain c1 where c1: "add c r = Inr c1" "ok c1" "allows c1 = allows c" "items c1 = items c @ [stored r]"
    using added_law [OF Cons.prems(1), of r] by blast
  then show ?case using Cons.IH [OF c1(2)] Cons.prems(2) by simp
qed

text \<open>What a catalog loaded from a list answers.\<close>

lemma load_find:
  assumes "ok c" and "items c = []" and "register_all add c rs = Inr c'"
  shows "find c' k = Some r \<longleftrightarrow> (\<exists>q\<in>set rs. r = stored q \<and> key q = k)"
    and "\<not> allows c \<Longrightarrow> find c' k = Some r \<Longrightarrow> \<not> fixture r"
proof -
  have l: "ok c'" "items c' = map stored rs" using load_items [OF assms(1,3)] assms(2) by simp_all
  show f: "find c' k = Some r \<longleftrightarrow> (\<exists>q\<in>set rs. r = stored q \<and> key q = k)"
    using find_law [OF l(1), of k r] by (auto simp: l(2) stored_law)
  show "\<not> fixture r" if "\<not> allows c" "find c' k = Some r"
    using that f load_iff [OF assms(1), of rs] assms(3) by (auto simp: stored_law)
qed

end

section \<open>The four catalogs are providers\<close>

text \<open>One dictionary of records by their key carries all four.\<close>

definition keyed_ok :: "('r \<Rightarrow> 'k) \<Rightarrow> ('k, 'r) dict \<Rightarrow> bool" where
  "keyed_ok key d = (dict_ok d \<and> (\<forall>(k, r)\<in>set d. key r = k))"

lemma keyed_ok_Nil [simp]: "keyed_ok key []"
  by (simp add: keyed_ok_def)

lemma keyed_find:
  assumes "keyed_ok key d"
  shows "dict_get d k = Some r \<longleftrightarrow> r \<in> set (map snd d) \<and> key r = k"
proof -
  have "dict_ok d" using assms by (simp add: keyed_ok_def)
  then have "dict_get d k = Some r \<longleftrightarrow> (k, r) \<in> set d" by (rule dict_get_in_set)
  then show ?thesis using assms by (force simp: keyed_ok_def)
qed

lemma keyed_distinct: "keyed_ok key d \<Longrightarrow> distinct (map key (map snd d))"
proof -
  assume ok: "keyed_ok key d"
  have "map key (map snd d) = map fst d" using ok by (auto simp: keyed_ok_def)
  then show ?thesis using ok by (simp only: keyed_ok_def dict_ok_def)
qed

lemma keyed_distinct': "keyed_ok key d \<Longrightarrow> distinct (map (key \<circ> snd) d)"
  using keyed_distinct [of key d] by simp

lemma keyed_add:
  assumes "keyed_ok key d" and "dict_get d (key r) = None"
  shows "keyed_ok key (dict_set (key r) r d) \<and> map snd (dict_set (key r) r d) = map snd d @ [r]"
proof -
  have "key r \<notin> fst ` set d" using assms(2) by (simp add: map_of_eq_None_iff)
  then have eq: "dict_set (key r) r d = d @ [(key r, r)]" by (induction d) auto
  have "dict_ok (dict_set (key r) r d)" using assms(1) by (simp add: keyed_ok_def)
  then show ?thesis using assms unfolding eq by (auto simp: keyed_ok_def)
qed

interpretation registry: keyed_catalog registry_register registry_get list_providers de_provider_id
  "\<lambda>d. d" de_test_fixture rg_allow_test_providers "\<lambda>c. keyed_ok de_provider_id (rg_providers c)"
proof unfold_locales
  fix c :: "'a registry" and r :: "'a descriptor"
  assume ok: "keyed_ok de_provider_id (rg_providers c)" and "\<not> (de_test_fixture r \<and> \<not> rg_allow_test_providers c)"
    and "registry_get c (de_provider_id r) = None"
  then show "\<exists>c'. registry_register c r = Inr c' \<and> keyed_ok de_provider_id (rg_providers c') \<and>
      rg_allow_test_providers c' = rg_allow_test_providers c \<and> list_providers c' = list_providers c @ [r]"
    using keyed_add [OF ok, of r] by (simp add: registry_register_def registry_get_def list_providers_def)
qed (auto simp: registry_register_def registry_get_def list_providers_def keyed_find keyed_distinct')

lemma with_certification_id_simps [simp]:
  "cert_lookup_key (with_certification_id r) = cert_lookup_key r"
  "ct_test_fixture (with_certification_id r) = ct_test_fixture r"
  by (simp_all add: with_certification_id_def cert_lookup_key_def)

interpretation certifications: keyed_catalog cert_register "\<lambda>c. dict_get (cc_records c)" cert_records
  cert_lookup_key with_certification_id ct_test_fixture cc_allow_test_certifications
  "\<lambda>c. keyed_ok cert_lookup_key (cc_records c)"
proof unfold_locales
  fix c :: cert_catalog and r :: certification
  assume ok: "keyed_ok cert_lookup_key (cc_records c)" and "\<not> (ct_test_fixture r \<and> \<not> cc_allow_test_certifications c)"
    and "dict_get (cc_records c) (cert_lookup_key r) = None"
  then show "\<exists>c'. cert_register c r = Inr c' \<and> keyed_ok cert_lookup_key (cc_records c') \<and>
      cc_allow_test_certifications c' = cc_allow_test_certifications c \<and>
      cert_records c' = cert_records c @ [with_certification_id r]"
    using keyed_add [OF ok, of "with_certification_id r"] by (simp add: cert_register_def cert_records_def Let_def)
qed (auto simp: cert_register_def cert_records_def keyed_find keyed_distinct' Let_def)

lemma with_evidence_id_simps [simp]:
  "evidence_lookup_key (with_evidence_id r) = evidence_lookup_key r"
  "ev_test_fixture (with_evidence_id r) = ev_test_fixture r"
  by (simp_all add: with_evidence_id_def evidence_lookup_key_def)

interpretation evidences: keyed_catalog evidence_register "\<lambda>c. dict_get (ec_records c)" evidence_records
  evidence_lookup_key with_evidence_id ev_test_fixture ec_allow_test_evidence
  "\<lambda>c. keyed_ok evidence_lookup_key (ec_records c)"
proof unfold_locales
  fix c :: evidence_catalog and r :: cert_evidence
  assume ok: "keyed_ok evidence_lookup_key (ec_records c)" and "\<not> (ev_test_fixture r \<and> \<not> ec_allow_test_evidence c)"
    and "dict_get (ec_records c) (evidence_lookup_key r) = None"
  then show "\<exists>c'. evidence_register c r = Inr c' \<and> keyed_ok evidence_lookup_key (ec_records c') \<and>
      ec_allow_test_evidence c' = ec_allow_test_evidence c \<and>
      evidence_records c' = evidence_records c @ [with_evidence_id r]"
    using keyed_add [OF ok, of "with_evidence_id r"] by (simp add: evidence_register_def evidence_records_def Let_def)
qed (auto simp: evidence_register_def evidence_records_def keyed_find keyed_distinct' Let_def)

interpretation routings: keyed_catalog routing_register routing_lookup routing_records rt_provider_id
  "\<lambda>r. r" rt_test_fixture rc_allow_test_policies "\<lambda>c. keyed_ok rt_provider_id (rc_records c)"
proof unfold_locales
  fix c :: routing_catalog and r :: routing_policy
  assume ok: "keyed_ok rt_provider_id (rc_records c)" and "\<not> (rt_test_fixture r \<and> \<not> rc_allow_test_policies c)"
    and "routing_lookup c (rt_provider_id r) = None"
  then show "\<exists>c'. routing_register c r = Inr c' \<and> keyed_ok rt_provider_id (rc_records c') \<and>
      rc_allow_test_policies c' = rc_allow_test_policies c \<and> routing_records c' = routing_records c @ [r]"
    using keyed_add [OF ok, of r] by (simp add: routing_register_def routing_lookup_def routing_records_def)
qed (auto simp: routing_register_def routing_lookup_def routing_records_def keyed_find keyed_distinct')

end
