(* ===== verification/Planning.thy ===== *)
theory Planning
  imports Catalog "HOL-Library.Product_Lexorder"
begin

text \<open>
  app/research/capabilities.py, providers.py, eligibility.py, app/services/research_execution_router.py
  and the planning values of app/domain/entities/research_execution.py: what a frozen scope requires,
  which provider may serve a capability, and the plan a validated authorization gets.  \<open>sort_key\<close>
  is Python's stable sort; tuples and strings compare lexicographically, characters by code point.
  \<open>str.casefold\<close> is exact on U+0000 to U+00FF except that U+00B5 stays itself (its folding,
  U+03BC, is in no needle either).
\<close>

section \<open>Required capabilities\<close>

definition casefold :: "string \<Rightarrow> string" where
  "casefold s = concat (map (\<lambda>c. if code c = 223 then ''ss'' else [to_lower c]) s)"

definition topic_capabilities :: "(string list \<times> research_capability) list" where
  "topic_capabilities =
     [([''price'', ''pricing'', ''cost''], CurrentPricing),
      ([''ship'', ''delivery'', ''deliver''], Shipping),
      ([''tax'', ''duty'', ''duties'', ''import''], TaxesImport),
      ([''warrant''], WarrantyEvidence),
      ([''review'', ''reddit'', ''community'', ''youtube''], ReviewCommunityEvidence),
      ([''spec'', ''microphone'', ''mic'', ''battery'', ''anc''], ProductSpecification),
      ([''available'', ''availability'', ''stock''], Availability),
      ([''promo'', ''voucher'', ''discount''], PromotionEvidence)]"

definition capabilities_for_topic :: "string \<Rightarrow> research_capability list" where
  "capabilities_for_topic topic =
     (let lowered = casefold topic in
      map snd (filter (\<lambda>(needles, c). list_ex (\<lambda>needle. contains lowered needle) needles) topic_capabilities))"

definition derive_required_capabilities :: "frozen_scope \<Rightarrow> research_capability list" where
  "derive_required_capabilities s =
     (let r1 = (if fs_reason s = OutsideEvaluatedSet \<or> fs_outside_set_product_names s \<noteq> []
                then [ProductDiscovery, OfferDiscovery] else []);
          r2 = r1 @ (if fs_reason s = EvaluatedSetExpansion \<or> fs_expansion_required s
                then [ProductDiscovery, OfferDiscovery] else []);
          r3 = r2 @ (if fs_reason s = FreshnessRequired \<or> fs_freshness_required s then [CurrentPricing] else []);
          r4 = r3 @ (if fs_reason s = RequestedSource \<or> fs_requested_sources s \<noteq> []
                then [OfferDiscovery, CurrentPricing] else []);
          r5 = r4 @ (if fs_reason s = ReevaluationRequired \<or> \<not> blank (fs_destination_label s)
                then [Shipping, TaxesImport] else []);
          r6 = r5 @ (if fs_reason s = InsufficientEvidence \<and> r5 = [] then [ProductSpecification] else [])
      in dedupe (r6 @ concat (map capabilities_for_topic (fs_requested_evidence_topics s))))"

section \<open>Planning values\<close>

record provider_eligibility =
  pe_provider_id :: string
  pe_eligible :: bool
  pe_reasons :: "string list"
  pe_capability :: "research_capability option"
  pe_market :: "string option"
  pe_source :: "string option"

record execution_request =
  er_execution_request_id :: string
  er_execution_request_version :: int
  er_authorization_id :: string
  er_authorization_version :: int
  er_decision_id :: string
  er_context_version :: int
  er_conversation_id :: string
  er_proposal_id :: string
  er_proposal_version :: int
  er_scope :: frozen_scope
  er_scope_digest :: string
  er_idempotency_key :: string
  er_market :: "trusted_market option"

definition check_request :: "execution_request \<Rightarrow> auth_error + execution_request" where
  "check_request r =
     (if er_execution_request_id r = [] then Inl AuthValueError
      else if er_execution_request_version r < 1 then Inl AuthValueError
      else if er_authorization_id r = [] then Inl AuthValueError
      else if er_scope_digest r = [] \<or> length (er_scope_digest r) \<noteq> 64 then Inl AuthValueError
      else if er_idempotency_key r = [] then Inl AuthValueError
      else Inr r)"

record provider_step =
  st_step_index :: int
  st_provider_id :: string
  st_provider_type :: provider_type
  st_capability :: research_capability
  st_source_identities :: "string list"
  st_market :: "string option"
  st_certification_id :: string
  st_certification_version :: string
  st_selection_reason :: string
  st_attempted :: bool

definition check_step :: "provider_step \<Rightarrow> auth_error + provider_step" where
  "check_step s =
     (if st_attempted s then Inl AuthValueError else if st_step_index s < 1 then Inl AuthValueError else Inr s)"

text \<open>\<open>unknown\<close> is always true and \<open>fabricated_value\<close> always \<open>None\<close> here.\<close>

record blocked_requirement =
  bl_capability :: research_capability
  bl_reason :: string
  bl_detail :: string
  bl_material_to_final_cost :: bool

record execution_plan =
  pn_plan_id :: string
  pn_plan_version :: int
  pn_authorization_id :: string
  pn_authorization_version :: int
  pn_decision_id :: string
  pn_context_version :: int
  pn_conversation_id :: string
  pn_proposal_id :: string
  pn_proposal_version :: int
  pn_scope_digest :: string
  pn_required_capabilities :: "research_capability list"
  pn_eligible_steps :: "provider_step list"
  pn_blocked_requirements :: "blocked_requirement list"
  pn_eligibility_audit :: "provider_eligibility list"
  pn_support_status :: string
  pn_plan_digest :: string
  pn_outside_set_product_names :: "string list"
  pn_requested_sources :: "string list"
  pn_market :: "trusted_market option"
  pn_execution_available :: bool
  pn_execution_implemented :: bool
  pn_plan_ready :: bool
  pn_source_checked :: bool
  pn_attempted :: bool

definition check_plan :: "execution_plan \<Rightarrow> auth_error + execution_plan" where
  "check_plan p =
     (if pn_plan_id p = [] then Inl AuthValueError
      else if pn_plan_version p < 1 then Inl AuthValueError
      else if pn_plan_digest p = [] \<or> length (pn_plan_digest p) \<noteq> 64 then Inl AuthValueError
      else if pn_execution_available p then Inl AuthValueError
      else if pn_execution_implemented p then Inl AuthValueError
      else if pn_source_checked p \<or> pn_attempted p then Inl AuthValueError
      else if pn_plan_ready p \<and> pn_support_status p \<noteq> ''ready'' then Inl AuthValueError
      else if pn_support_status p = ''ready'' \<and> \<not> pn_plan_ready p then Inl AuthValueError
      else if pn_support_status p = ''ready'' \<and> pn_blocked_requirements p \<noteq> [] then Inl AuthValueError
      else if pn_support_status p = ''ready'' \<and> pn_eligible_steps p = [] then Inl AuthValueError
      else Inr p)"

record planning_result =
  pl_planned :: bool
  pl_reason :: string
  pl_plan :: "execution_plan option"

definition check_planning_result :: "planning_result \<Rightarrow> auth_error + planning_result" where
  "check_planning_result r =
     (if pl_planned r \<and> pl_plan r = None then Inl AuthValueError
      else if \<not> pl_planned r \<and> pl_plan r \<noteq> None then Inl AuthValueError
      else Inr r)"

section \<open>Eligibility of one provider\<close>

definition technical_ineligibility_reasons ::
  "'f descriptor \<Rightarrow> research_capability \<Rightarrow> string option \<Rightarrow> string option \<Rightarrow> string list" where
  "technical_ineligibility_reasons d capability market source =
     dedupe
      ((if \<not> is_operationally_available_descriptor d then
          [if engaged (de_kill_switch d) then ''kill_switch''
           else if \<not> allows_execution (de_breaker_state d) then ''circuit_open''
           else ''provider_unavailable''] else []) @
       (if capability \<notin> set (de_supported_capabilities d) then [''provider_capability_not_supported''] else []) @
       (case market of
          None \<Rightarrow> [''missing_market_context'']
        | Some m \<Rightarrow> if m \<notin> set (de_supported_markets d) then [''provider_market_not_supported''] else []) @
       (case source of
          None \<Rightarrow> []
        | Some s \<Rightarrow> if s \<notin> set (de_supported_sources d) then [''source_not_supported''] else []))"

definition provider_supports ::
  "'f descriptor \<Rightarrow> research_capability \<Rightarrow> string option \<Rightarrow> string option \<Rightarrow> provider_eligibility" where
  "provider_supports d capability market source =
     (let reasons = technical_ineligibility_reasons d capability market source in
      \<lparr>pe_provider_id = de_provider_id d, pe_eligible = (reasons = []),
       pe_reasons = (if reasons \<noteq> [] then reasons else [''technical_capability_market_source'']),
       pe_capability = Some capability, pe_market = market, pe_source = source\<rparr>)"

definition missing_certification_reasons ::
  "cert_catalog \<Rightarrow> string \<Rightarrow> research_capability \<Rightarrow> string \<Rightarrow> string option \<Rightarrow> string list" where
  "missing_certification_reasons catalog provider_id capability market source =
     (let records = records_for_provider catalog provider_id;
          same_capability = filter (\<lambda>r. ct_capability r = capability) records;
          same_market = filter (\<lambda>r. ct_market r = market) same_capability in
      if records = [] then [''certification_missing'']
      else if same_capability = [] then [''certification_capability_mismatch'']
      else if same_market = [] then [''certification_market_mismatch'']
      else
        (case source of
           None \<Rightarrow> [''certification_missing'']
         | Some s \<Rightarrow>
             if list_ex (\<lambda>r. ct_source_scope r = Exact \<and> ct_source r = Some s) same_market
             then [''certification_missing''] else [''certification_source_mismatch'']))"

definition certification_decision ::
  "cert_catalog \<Rightarrow> string \<Rightarrow> research_capability \<Rightarrow> string \<Rightarrow> string option
     \<Rightarrow> certification option \<times> string list" where
  "certification_decision catalog provider_id capability market source =
     (case cert_lookup catalog provider_id capability market source of
        Some r \<Rightarrow>
          (Some r,
           (if ct_status r \<noteq> Certified then [''certification_'' @ cert_status_value (ct_status r)] else []) @
           (if ct_policy r \<noteq> Allowed then [''policy_not_allowed''] else []))
      | None \<Rightarrow> (None, missing_certification_reasons catalog provider_id capability market source))"

definition evaluate_provider ::
  "'f descriptor \<Rightarrow> cert_catalog \<Rightarrow> research_capability \<Rightarrow> string option \<Rightarrow> string option
     \<Rightarrow> provider_eligibility \<times> certification option" where
  "evaluate_provider d catalog capability market source =
     (let technical = provider_supports d capability market source;
          reasons = (if pe_reasons technical = [''technical_capability_market_source''] then []
                     else pe_reasons technical);
          (r, cert_reasons) =
            (case market of
               None \<Rightarrow> (None, [])
             | Some m \<Rightarrow>
                 if ''missing_market_context'' \<in> set reasons then (None, [])
                 else certification_decision catalog (de_provider_id d) capability m source);
          ordered = dedupe (reasons @ cert_reasons);
          eligible = (ordered = [])
      in (\<lparr>pe_provider_id = de_provider_id d, pe_eligible = eligible,
           pe_reasons = (if ordered \<noteq> [] then ordered else [''certified_capability_market_source'']),
           pe_capability = Some capability, pe_market = market, pe_source = source\<rparr>,
          if eligible then r else None))"

section \<open>Selection\<close>

definition sources_to_try :: "'f descriptor \<Rightarrow> string option \<Rightarrow> string option list" where
  "sources_to_try d source =
     (case source of
        Some s \<Rightarrow> [Some s]
      | None \<Rightarrow> None # map Some (sort (de_supported_sources d)))"

text \<open>One provider's turn in the selection loop: its audits, and its first eligible match.\<close>

definition try_provider ::
  "cert_catalog \<Rightarrow> research_capability \<Rightarrow> string option \<Rightarrow> string option \<Rightarrow> 'f descriptor
     \<Rightarrow> provider_eligibility list \<times> ('f descriptor \<times> certification \<times> string option) option" where
  "try_provider catalog capability market source d =
     foldl (\<lambda>(audits, matched) try_source.
       let (decision, r) = evaluate_provider d catalog capability market try_source in
       (audits @ [decision],
        case (matched, r) of
          (None, Some c) \<Rightarrow> if pe_eligible decision then Some (d, c, try_source) else None
        | _ \<Rightarrow> matched)) ([], None) (sources_to_try d source)"

definition select_certified_provider ::
  "'f registry \<Rightarrow> cert_catalog \<Rightarrow> routing_catalog \<Rightarrow> research_capability \<Rightarrow> string option \<Rightarrow> string option
     \<Rightarrow> ('f descriptor \<times> certification \<times> string option) option \<times> provider_eligibility list" where
  "select_certified_provider registry catalog routing capability market source =
     (let tried = map (try_provider catalog capability market source) (list_providers registry);
          audits = concat (map fst tried);
          eligible = List.map_filter snd tried
      in case sort_key (\<lambda>item. routing_sort_key routing (de_provider_id (fst item))) eligible of
           [] \<Rightarrow> (None, audits)
         | chosen # _ \<Rightarrow> (Some chosen, audits))"

definition selection_reason :: "provider_eligibility list \<Rightarrow> string \<Rightarrow> routing_catalog \<Rightarrow> string" where
  "selection_reason audits selected_id routing =
     (let eligible_ids = dedupe (map pe_provider_id (filter pe_eligible audits)) in
      if length eligible_ids \<le> 1 then ''certified_capability_market_source''
      else if routing_lookup routing selected_id \<noteq> None then ''trusted_routing_priority''
      else ''provider_id_fallback'')"

definition all_have :: "provider_eligibility list \<Rightarrow> string \<Rightarrow> bool" where
  "all_have audits reason = list_all (\<lambda>a. reason \<in> set (pe_reasons a)) audits"

definition all_have_either :: "provider_eligibility list \<Rightarrow> string \<Rightarrow> string \<Rightarrow> bool" where
  "all_have_either audits r1 r2 =
     list_all (\<lambda>a. r1 \<in> set (pe_reasons a) \<or> r2 \<in> set (pe_reasons a)) audits"

definition blocked_reason :: "provider_eligibility list \<Rightarrow> string option \<Rightarrow> string" where
  "blocked_reason audits source =
     (if audits = [] \<or> list_ex pe_eligible audits then ''blocked_missing_certified_provider''
      else if all_have audits ''certification_missing'' then ''certification_missing''
      else if all_have audits ''kill_switch'' then ''kill_switch''
      else if all_have audits ''circuit_open'' then ''circuit_open''
      else if all_have audits ''provider_unavailable'' then ''provider_unavailable''
      else if all_have audits ''certification_revoked'' then ''certification_revoked''
      else if all_have audits ''certification_disabled'' then ''certification_disabled''
      else if all_have audits ''certification_pending'' then ''certification_pending''
      else if all_have audits ''certification_expired'' then ''certification_expired''
      else if source \<noteq> None \<and> all_have_either audits ''source_not_supported'' ''certification_source_mismatch''
      then (if all_have audits ''source_not_supported'' then ''source_not_supported''
            else ''certification_source_mismatch'')
      else if all_have audits ''provider_market_not_supported'' then ''provider_market_not_supported''
      else if all_have audits ''certification_market_mismatch'' then ''certification_market_mismatch''
      else if all_have_either audits ''provider_capability_not_supported'' ''certification_capability_mismatch''
      then (if all_have audits ''provider_capability_not_supported'' then ''provider_capability_not_supported''
            else ''certification_capability_mismatch'')
      else if all_have audits ''policy_not_allowed'' then ''policy_not_allowed''
      else ''blocked_missing_certified_provider'')"

definition blocked_detail :: "research_capability \<Rightarrow> string option \<Rightarrow> string \<Rightarrow> string" where
  "blocked_detail capability source market =
     ''No certified provider for '' @ capability_value capability @ '' in '' @ market @ '' from '' @
     (if blank source then ''any permitted source'' else the source) @ ''.''"

section \<open>Steps\<close>

definition step_sources_of :: "string option \<Rightarrow> string option \<Rightarrow> string list" where
  "step_sources_of requested matched =
     (if \<not> blank requested then [the requested] else if \<not> blank matched then [the matched] else [])"

text \<open>One turn of the loop over the requested sources.\<close>

definition assign_source ::
  "'f registry \<Rightarrow> cert_catalog \<Rightarrow> routing_catalog \<Rightarrow> research_capability \<Rightarrow> string \<Rightarrow> int
     \<Rightarrow> provider_step list \<times> blocked_requirement list \<times> provider_eligibility list \<Rightarrow> string option
     \<Rightarrow> auth_error + (provider_step list \<times> blocked_requirement list \<times> provider_eligibility list)" where
  "assign_source registry catalog routing capability market step_index acc requested_source =
     (case acc of (steps, blocked, audits) \<Rightarrow>
      case select_certified_provider registry catalog routing capability (Some market) requested_source of
        (None, source_audits) \<Rightarrow>
          Inr (steps, blocked @
            [\<lparr>bl_capability = capability, bl_reason = blocked_reason source_audits requested_source,
              bl_detail = blocked_detail capability requested_source market,
              bl_material_to_final_cost = (capability \<in> destination_sensitive_capabilities)\<rparr>],
            audits @ source_audits)
      | (Some (d, r, matched_source), source_audits) \<Rightarrow>
          and_then (check_step
            \<lparr>st_step_index = step_index + int (length steps), st_provider_id = de_provider_id d,
             st_provider_type = de_provider_type d, st_capability = capability,
             st_source_identities = step_sources_of requested_source matched_source,
             st_market = Some market, st_certification_id = ct_certification_id r,
             st_certification_version = ct_certification_version r,
             st_selection_reason = selection_reason source_audits (de_provider_id d) routing,
             st_attempted = False\<rparr>) (\<lambda>step.
          Inr (steps @ [step], blocked, audits @ source_audits)))"

fun assign_sources ::
  "('b \<Rightarrow> string option \<Rightarrow> auth_error + 'b) \<Rightarrow> 'b \<Rightarrow> string option list \<Rightarrow> auth_error + 'b" where
  "assign_sources f acc [] = Inr acc"
| "assign_sources f acc (s # ss) = and_then (f acc s) (\<lambda>acc'. assign_sources f acc' ss)"

definition assign_capability_step ::
  "'f registry \<Rightarrow> cert_catalog \<Rightarrow> routing_catalog \<Rightarrow> research_capability \<Rightarrow> trusted_market option
     \<Rightarrow> string list \<Rightarrow> int \<Rightarrow> bool
     \<Rightarrow> auth_error + (provider_step list \<times> blocked_requirement list \<times> provider_eligibility list)" where
  "assign_capability_step registry catalog routing capability market sources step_index destination_sensitive =
     (if destination_sensitive \<and> capability \<in> destination_sensitive_capabilities
      then Inr ([], [\<lparr>bl_capability = capability, bl_reason = ''destination_support_not_ready'',
             bl_detail = ''Destination-sensitive cost is owned by Sprint 37. '' @
               ''The router will not estimate shipping or taxes.'',
             bl_material_to_final_cost = True\<rparr>], [])
      else
        (case market of
           None \<Rightarrow>
             Inr ([], [\<lparr>bl_capability = capability, bl_reason = ''missing_market_context'',
               bl_detail = ''Trusted market context is required and must not be fabricated.'',
               bl_material_to_final_cost = (capability \<in> destination_sensitive_capabilities)\<rparr>], [])
         | Some m \<Rightarrow>
             assign_sources (assign_source registry catalog routing capability (tm_country_code m) step_index)
               ([], [], []) (if sources \<noteq> [] then map Some sources else [None])))"

section \<open>The plan\<close>

definition destination_sensitive_required :: "bool \<Rightarrow> bool" where
  "destination_sensitive_required scope_has_destination = scope_has_destination"

definition support_status ::
  "research_capability list \<Rightarrow> provider_step list \<Rightarrow> blocked_requirement list \<Rightarrow> bool
     \<Rightarrow> trusted_market option \<Rightarrow> research_reason \<Rightarrow> string" where
  "support_status required steps blocked destination_sensitive market reason =
     (let blocked_caps = set (map bl_capability blocked);
          covered = set (map st_capability steps) - blocked_caps;
          missing = filter (\<lambda>c. c \<notin> covered) required;
          blocked_reasons = set (map bl_reason blocked) in
      if required = [] then ''unsupported''
      else if missing = [] then ''ready''
      else if steps = [] then
        (if market = None \<or> ''missing_market_context'' \<in> blocked_reasons then ''blocked_market_context''
         else if destination_sensitive \<and> missing \<noteq> [] \<and> set missing \<subseteq> destination_sensitive_capabilities
         then ''blocked_market_context''
         else if reason = ReevaluationRequired \<and> ''destination_support_not_ready'' \<in> blocked_reasons
         then ''blocked_market_context''
         else ''blocked_missing_certified_provider'')
      else if destination_sensitive \<and> reason = ReevaluationRequired \<and>
              set missing \<subseteq> destination_sensitive_capabilities
      then ''blocked_market_context''
      else ''partially_supported'')"

definition research_plan_digest ::
  "execution_request \<Rightarrow> research_capability list \<Rightarrow> provider_step list \<Rightarrow> blocked_requirement list \<Rightarrow> string
     \<Rightarrow> string \<Rightarrow> string \<Rightarrow> string \<Rightarrow> string" where
  "research_plan_digest request required steps blocked status registry_fp cert_fp routing_fp =
     stable_sha256 (JObj
       [(''kind'', JStr ''research_execution_plan_v1''),
        (''authorization_id'', JStr (er_authorization_id request)),
        (''authorization_version'', JInt (er_authorization_version request)),
        (''scope_digest'', JStr (er_scope_digest request)),
        (''market'', jopt (map_option tm_country_code (er_market request))),
        (''required_capabilities'', jstrs (map capability_value required)),
        (''provider_ids'', jstrs (map st_provider_id steps)),
        (''capability_assignments'', JArr (map (\<lambda>s. JObj
          [(''provider_id'', JStr (st_provider_id s)),
           (''capability'', JStr (capability_value (st_capability s))),
           (''sources'', jstrs (st_source_identities s)), (''market'', jopt (st_market s)),
           (''certification_id'', JStr (st_certification_id s)),
           (''certification_version'', JStr (st_certification_version s))]) steps)),
        (''blocked'', JArr (map (\<lambda>b. JObj
          [(''capability'', JStr (capability_value (bl_capability b))),
           (''reason'', JStr (bl_reason b))]) blocked)),
        (''status'', JStr status), (''registry_fingerprint'', JStr registry_fp),
        (''certification_fingerprint'', JStr cert_fp), (''routing_policy_fingerprint'', JStr routing_fp)])"

type_synonym plan_parts =
  "provider_step list \<times> blocked_requirement list \<times> provider_eligibility list \<times> int"

fun assign_capabilities ::
  "(research_capability \<Rightarrow> int
      \<Rightarrow> auth_error + (provider_step list \<times> blocked_requirement list \<times> provider_eligibility list))
     \<Rightarrow> plan_parts \<Rightarrow> research_capability list \<Rightarrow> auth_error + plan_parts" where
  "assign_capabilities assign parts [] = Inr parts"
| "assign_capabilities assign (steps, blocked, audits, next_index) (c # cs) =
     and_then (assign c next_index) (\<lambda>(assigned, blocked_items, capability_audits).
     assign_capabilities assign
       (steps @ assigned, blocked @ blocked_items, audits @ capability_audits,
        next_index + max (int (length assigned)) 1) cs)"

definition build_execution_plan ::
  "execution_request \<Rightarrow> 'f registry \<Rightarrow> cert_catalog \<Rightarrow> routing_catalog \<Rightarrow> auth_error + execution_plan" where
  "build_execution_plan request registry catalog routing =
     (let scope = er_scope request;
          required = derive_required_capabilities scope;
          sensitive = destination_sensitive_required (\<not> blank (fs_destination_label scope));
          sensitive' = (sensitive \<or> fs_reason scope = ReevaluationRequired)
      in and_then (assign_capabilities (\<lambda>c i. assign_capability_step registry catalog routing c
             (er_market request) (fs_requested_sources scope) i sensitive') ([], [], [], 1) required)
        (\<lambda>(steps, blocked, audits, _).
      let status = support_status required steps blocked sensitive' (er_market request) (fs_reason scope);
          digest = research_plan_digest request required steps blocked status
            (registry_fingerprint registry) (cert_fingerprint catalog) (routing_fingerprint routing)
      in and_then (check_plan
           \<lparr>pn_plan_id = ''research-plan:'' @ digest, pn_plan_version = 1,
            pn_authorization_id = er_authorization_id request,
            pn_authorization_version = er_authorization_version request,
            pn_decision_id = er_decision_id request, pn_context_version = er_context_version request,
            pn_conversation_id = er_conversation_id request, pn_proposal_id = er_proposal_id request,
            pn_proposal_version = er_proposal_version request, pn_scope_digest = er_scope_digest request,
            pn_required_capabilities = required, pn_eligible_steps = steps,
            pn_blocked_requirements = blocked, pn_eligibility_audit = audits, pn_support_status = status,
            pn_plan_digest = digest, pn_outside_set_product_names = fs_outside_set_product_names scope,
            pn_requested_sources = fs_requested_sources scope, pn_market = er_market request,
            pn_execution_available = False, pn_execution_implemented = False,
            pn_plan_ready = (status = ''ready''), pn_source_checked = False, pn_attempted = False\<rparr>) (\<lambda>plan.
         and_then (empty_execution_trace (pn_plan_id plan)) (\<lambda>_. Inr plan))))"

definition execution_request_from_handoff ::
  "research_handoff \<Rightarrow> trusted_market option \<Rightarrow> auth_error + execution_request" where
  "execution_request_from_handoff h market =
     (let request_id = ''research-exec-req:'' @ stable_sha256 (JObj
            [(''kind'', JStr ''research_execution_request_v1''),
             (''authorization_id'', JStr (rh_authorization_id h)),
             (''authorization_version'', JInt (rh_authorization_version h)),
             (''scope_digest'', JStr (rh_scope_digest h))])
      in check_request
        \<lparr>er_execution_request_id = request_id, er_execution_request_version = 1,
         er_authorization_id = rh_authorization_id h, er_authorization_version = rh_authorization_version h,
         er_decision_id = rh_decision_id h, er_context_version = rh_context_version h,
         er_conversation_id = rh_conversation_id h, er_proposal_id = rh_proposal_id h,
         er_proposal_version = rh_proposal_version h, er_scope = rh_scope h,
         er_scope_digest = rh_scope_digest h, er_idempotency_key = rh_idempotency_key h,
         er_market = market\<rparr>)"

text \<open>The catalogs a caller leaves out are the production ones; here they are always passed.\<close>

definition plan_authorized_research ::
  "research_authorization option \<Rightarrow> conversation_owner \<Rightarrow> string \<Rightarrow> string \<Rightarrow> int \<Rightarrow> 'f registry
     \<Rightarrow> cert_catalog \<Rightarrow> routing_catalog \<Rightarrow> trusted_market option \<Rightarrow> research_proposal option
     \<Rightarrow> string option \<Rightarrow> string option \<Rightarrow> int option \<Rightarrow> auth_error + planning_result" where
  "plan_authorized_research authorization o' conversation_id decision_id context_version registry
       catalog routing market proposal expected_digest expected_proposal expected_version =
     and_then (validate_research_authorization_for_execution authorization o' conversation_id decision_id
       context_version proposal expected_digest expected_proposal expected_version) (\<lambda>validation.
     if \<not> av_valid validation
     then check_planning_result \<lparr>pl_planned = False, pl_reason = av_reason validation, pl_plan = None\<rparr>
     else and_then (get_authorized_research_handoff authorization o' conversation_id decision_id
       context_version proposal expected_digest) (\<lambda>handoff.
     case handoff of
       None \<Rightarrow> check_planning_result \<lparr>pl_planned = False, pl_reason = ''stale_authorization'', pl_plan = None\<rparr>
     | Some h \<Rightarrow>
         and_then (execution_request_from_handoff h market) (\<lambda>request.
         and_then (build_execution_plan request registry catalog routing) (\<lambda>plan.
         check_planning_result
           \<lparr>pl_planned = True, pl_reason = pn_support_status plan, pl_plan = Some plan\<rparr>))))"

section \<open>Eligibility\<close>

text \<open>What a provider must support for a target.\<close>

definition technically_fits :: "'f descriptor \<Rightarrow> research_capability \<Rightarrow> string \<Rightarrow> string option \<Rightarrow> bool" where
  "technically_fits d capability market source =
     (is_operationally_available_descriptor d \<and> capability \<in> set (de_supported_capabilities d) \<and>
      market \<in> set (de_supported_markets d) \<and> (\<forall>s. source = Some s \<longrightarrow> s \<in> set (de_supported_sources d)))"

lemma technical_reasons_iff:
  "technical_ineligibility_reasons d capability (Some market) source = [] \<longleftrightarrow>
   technically_fits d capability market source"
  by (cases source) (auto simp: technical_ineligibility_reasons_def technically_fits_def)

lemma technical_reasons_subset:
  "set (technical_ineligibility_reasons d capability market source) \<subseteq>
     {''kill_switch'', ''circuit_open'', ''provider_unavailable''} \<union> {''provider_capability_not_supported''} \<union>
     {''missing_market_context'', ''provider_market_not_supported''} \<union> {''source_not_supported''}"
  unfolding technical_ineligibility_reasons_def dedupe_set set_append Un_assoc
  by (intro Un_mono) (auto split: option.split)

lemma technical_not_supported:
  "technical_ineligibility_reasons d capability market source \<noteq> [''technical_capability_market_source'']"
proof
  assume "technical_ineligibility_reasons d capability market source = [''technical_capability_market_source'']"
  then show False using technical_reasons_subset [of d capability market source] by simp
qed

lemma missing_market_only:
  "''missing_market_context'' \<in> set (technical_ineligibility_reasons d capability (Some m) source) \<Longrightarrow> False"
  by (cases source) (auto simp: technical_ineligibility_reasons_def split: if_split_asm)

lemma missing_reasons_nonempty: "missing_certification_reasons catalog p c m s \<noteq> []"
  by (simp add: missing_certification_reasons_def Let_def split: option.splits)

lemma evaluate_form:
  "evaluate_provider d catalog capability (Some m) source =
     (let ordered = dedupe (technical_ineligibility_reasons d capability (Some m) source @
            snd (certification_decision catalog (de_provider_id d) capability m source))
      in (\<lparr>pe_provider_id = de_provider_id d, pe_eligible = (ordered = []),
           pe_reasons = (if ordered \<noteq> [] then ordered else [''certified_capability_market_source'']),
           pe_capability = Some capability, pe_market = Some m, pe_source = source\<rparr>,
          if ordered = [] then fst (certification_decision catalog (de_provider_id d) capability m source)
          else None))"
proof -
  define T where "T = technical_ineligibility_reasons d capability (Some m) source"
  have T: "T \<noteq> [''technical_capability_market_source'']" "''missing_market_context'' \<notin> set T"
    using technical_not_supported missing_market_only unfolding T_def by blast+
  have r: "pe_reasons (provider_supports d capability (Some m) source) =
      (if T \<noteq> [] then T else [''technical_capability_market_source''])"
    by (simp add: provider_supports_def T_def Let_def)
  have reasons: "(if pe_reasons (provider_supports d capability (Some m) source) =
      [''technical_capability_market_source''] then [] else pe_reasons (provider_supports d capability (Some m) source)) = T"
    using T(1) by (simp add: r)
  show ?thesis
    unfolding evaluate_provider_def Let_def reasons using T(2)
    by (simp add: T_def [symmetric] case_prod_beta)
qed

lemma certification_decision_iff:
  "snd (certification_decision catalog p c m s) = [] \<and> fst (certification_decision catalog p c m s) = Some x \<longleftrightarrow>
   cert_lookup catalog p c m s = Some x \<and> cert_is_executable x"
  using missing_reasons_nonempty
  by (auto simp: certification_decision_def cert_is_executable_def split: option.splits)

lemma evaluate_provider_iff:
  "snd (evaluate_provider d catalog capability (Some m) source) = Some x \<and>
   pe_eligible (fst (evaluate_provider d catalog capability (Some m) source)) \<longleftrightarrow>
   technically_fits d capability m source \<and>
   cert_lookup catalog (de_provider_id d) capability m source = Some x \<and> cert_is_executable x"
  using certification_decision_iff [of catalog "de_provider_id d" capability m source x]
    technical_reasons_iff [of d capability m source]
  by (auto simp: evaluate_form Let_def)

lemma evaluate_no_market: "pe_eligible (fst (evaluate_provider d catalog capability None source)) = False"
proof -
  have "technical_ineligibility_reasons d capability None source \<noteq> []"
    by (simp add: technical_ineligibility_reasons_def)
  moreover have "technical_ineligibility_reasons d capability None source \<noteq> [''technical_capability_market_source'']"
    by (rule technical_not_supported)
  ultimately show ?thesis by (simp add: evaluate_provider_def provider_supports_def Let_def)
qed

section \<open>Selection\<close>

abbreviation match_of ::
  "cert_catalog \<Rightarrow> research_capability \<Rightarrow> string option \<Rightarrow> 'f descriptor \<Rightarrow> string option
     \<Rightarrow> ('f descriptor \<times> certification \<times> string option) option" where
  "match_of catalog capability market d s \<equiv>
     (case evaluate_provider d catalog capability market s of
        (decision, Some c) \<Rightarrow> if pe_eligible decision then Some (d, c, s) else None
      | (_, None) \<Rightarrow> None)"

fun first_some :: "('a \<Rightarrow> 'b option) \<Rightarrow> 'a list \<Rightarrow> 'b option" where
  "first_some f [] = None"
| "first_some f (x # xs) = (case f x of None \<Rightarrow> first_some f xs | Some y \<Rightarrow> Some y)"

lemma first_some_Some: "first_some f xs = Some y \<Longrightarrow> \<exists>x\<in>set xs. f x = Some y"
  by (induction xs) (auto split: option.splits)

lemma first_some_None: "first_some f xs = None \<longleftrightarrow> (\<forall>x\<in>set xs. f x = None)"
  by (induction xs) (auto split: option.splits)

lemma first_some_map: "first_some (\<lambda>x. map_option g (f x)) xs = map_option g (first_some f xs)"
  by (induction xs) (auto split: option.splits)

lemma try_provider_form:
  "try_provider catalog capability market source d =
     (map (\<lambda>s. fst (evaluate_provider d catalog capability market s)) (sources_to_try d source),
      first_some (match_of catalog capability market d) (sources_to_try d source))"
proof -
  have "foldl (\<lambda>(audits, matched) try_source.
       let (decision, r) = evaluate_provider d catalog capability market try_source in
       (audits @ [decision],
        case (matched, r) of
          (None, Some c) \<Rightarrow> if pe_eligible decision then Some (d, c, try_source) else None
        | _ \<Rightarrow> matched)) (au, ma) xs =
     (au @ map (\<lambda>s. fst (evaluate_provider d catalog capability market s)) xs,
      case ma of Some y \<Rightarrow> Some y | None \<Rightarrow> first_some (match_of catalog capability market d) xs)"
    for au ma xs
  proof (induction xs arbitrary: au ma)
    case Nil
    then show ?case by (cases ma) simp_all
  next
    case (Cons s xs)
    obtain dec r where e: "evaluate_provider d catalog capability market s = (dec, r)" by force
    show ?case using Cons.IH by (cases ma; cases r) (simp_all add: e)
  qed
  from this [of "[]" None] show ?thesis by (simp add: try_provider_def)
qed

definition eligible_items ::
  "cert_catalog \<Rightarrow> research_capability \<Rightarrow> string option \<Rightarrow> string option \<Rightarrow> 'f descriptor list
     \<Rightarrow> ('f descriptor \<times> certification \<times> string option) list" where
  "eligible_items catalog capability market source ds =
     List.map_filter (\<lambda>d. snd (try_provider catalog capability market source d)) ds"

lemma map_filter_map: "List.map_filter f (map g xs) = List.map_filter (\<lambda>x. f (g x)) xs"
  by (induction xs) (simp_all add: List.map_filter_simps split: option.split)

lemma select_form:
  "fst (select_certified_provider registry catalog routing capability market source) =
     (case sort_key (\<lambda>item. routing_sort_key routing (de_provider_id (fst item)))
             (eligible_items catalog capability market source (list_providers registry)) of
        [] \<Rightarrow> None | x # _ \<Rightarrow> Some x)"
  by (simp add: select_certified_provider_def eligible_items_def map_filter_map Let_def comp_def
      split: list.splits)

lemma eligible_item_fits:
  assumes "(d, c, s) \<in> set (eligible_items catalog capability (Some m) source ds)"
  shows "d \<in> set ds \<and> s \<in> set (sources_to_try d source) \<and> technically_fits d capability m s \<and>
    cert_lookup catalog (de_provider_id d) capability m s = Some c \<and> cert_is_executable c"
proof -
  obtain d0 where d0: "d0 \<in> set ds" "first_some (match_of catalog capability (Some m) d0) (sources_to_try d0 source) = Some (d, c, s)"
    using assms by (auto simp: eligible_items_def List.map_filter_def try_provider_form)
  then obtain s0 where s0: "s0 \<in> set (sources_to_try d0 source)" "match_of catalog capability (Some m) d0 s0 = Some (d, c, s)"
    using first_some_Some by fastforce
  then have "d0 = d" "s0 = s" "snd (evaluate_provider d catalog capability (Some m) s) = Some c"
    "pe_eligible (fst (evaluate_provider d catalog capability (Some m) s))"
    by (auto split: prod.splits option.splits if_split_asm)
  with d0 s0 evaluate_provider_iff [of d catalog capability m s c] show ?thesis by auto
qed

lemma select_Some:
  assumes "select_certified_provider registry catalog routing capability (Some m) source = (Some (d, c, s), audits)"
  shows "d \<in> set (list_providers registry) \<and> s \<in> set (sources_to_try d source) \<and>
    technically_fits d capability m s \<and>
    cert_lookup catalog (de_provider_id d) capability m s = Some c \<and> cert_is_executable c"
proof -
  have "fst (select_certified_provider registry catalog routing capability (Some m) source) = Some (d, c, s)"
    using assms by simp
  then obtain rest where "sort_key (\<lambda>item. routing_sort_key routing (de_provider_id (fst item)))
      (eligible_items catalog capability (Some m) source (list_providers registry)) = (d, c, s) # rest"
    unfolding select_form by (auto split: list.splits)
  then have "(d, c, s) \<in> set (eligible_items catalog capability (Some m) source (list_providers registry))"
    by (metis list.set_intros(1) set_sort)
  then show ?thesis by (rule eligible_item_fits)
qed

end
