(* ===== verification/LiveMode.thy ===== *)
theory LiveMode
  imports Planning
begin

text \<open>
  app/research/sprint38_live_execution.py, the live-mode gate: \<open>assess_live_research_mode\<close> with its gaps, the
  assessment's constructor check, and the connector health report.  The production compositions
  (\<open>production_live_mode_assessment\<close> and the Shopify refusals) apply these to fixed catalogs and are not
  repeated here.
\<close>

section \<open>The gate\<close>

record live_target =
  lt_market :: string
  lt_capability :: research_capability
  lt_source :: string

record live_assessment =
  la_enabled :: bool
  la_mode :: string
  la_reasons :: "string list"
  la_fixture_accepted :: bool

definition check_assessment :: "live_assessment \<Rightarrow> auth_error + live_assessment" where
  "check_assessment a =
     (if la_enabled a \<and> la_reasons a \<noteq> [] then Inl AuthValueError
      else if la_fixture_accepted a then Inl AuthValueError
      else Inr a)"

definition technical_support_gaps :: "'f descriptor \<Rightarrow> live_target \<Rightarrow> string list" where
  "technical_support_gaps d t =
     (if de_test_fixture d then [''fixture_cannot_satisfy_live_gate''] else []) @
     (if lt_capability t \<notin> set (de_supported_capabilities d) then [''provider_capability_not_supported''] else []) @
     (if lt_market t \<notin> set (de_supported_markets d) then [''provider_market_not_supported''] else []) @
     (if lt_source t \<notin> set (de_supported_sources d) then [''source_not_supported''] else [])"

text \<open>What one record lacks; the loop below stops at the first record that lacks nothing.\<close>

definition record_gaps ::
  "live_target \<Rightarrow> 'f registry \<Rightarrow> routing_catalog \<Rightarrow> certification \<Rightarrow> string list" where
  "record_gaps t registry routing r =
     (case registry_get registry (ct_provider_id r) of
        None \<Rightarrow> [''provider_not_registered'']
      | Some d \<Rightarrow>
          technical_support_gaps d t @
          (if (case routing_lookup routing (ct_provider_id r) of None \<Rightarrow> True | Some p \<Rightarrow> rt_test_fixture p)
           then [''routing_absent''] else []) @
          (if \<not> is_operationally_available_descriptor d then [''provider_not_operationally_eligible''] else []))"

fun eligibility_gaps_from ::
  "live_target \<Rightarrow> 'f registry \<Rightarrow> routing_catalog \<Rightarrow> string list \<Rightarrow> certification list \<Rightarrow> string list" where
  "eligibility_gaps_from t registry routing seen [] = seen"
| "eligibility_gaps_from t registry routing seen (r # rs) =
     (let gaps = record_gaps t registry routing r in
      if gaps = [] then []
      else eligibility_gaps_from t registry routing
        (foldl (\<lambda>acc g. if g \<in> set acc then acc else acc @ [g]) seen gaps) rs)"

definition eligibility_gaps ::
  "certification list \<Rightarrow> live_target \<Rightarrow> 'f registry \<Rightarrow> routing_catalog \<Rightarrow> string list" where
  "eligibility_gaps records t registry routing = eligibility_gaps_from t registry routing [] records"

definition matches_target :: "live_target \<Rightarrow> certification \<Rightarrow> bool" where
  "matches_target t r =
     (ct_capability r = lt_capability t \<and> ct_market r = lt_market t \<and> ct_source r = Some (lt_source t) \<and>
      ct_source_scope r = Exact)"

definition assess_live_research_mode ::
  "string \<Rightarrow> live_target \<Rightarrow> 'f registry \<Rightarrow> cert_catalog \<Rightarrow> routing_catalog \<Rightarrow> string set \<Rightarrow> bool
     \<Rightarrow> auth_error + live_assessment" where
  "assess_live_research_mode mode t registry certifications routing markets trace_handling =
     (let matching = filter (matches_target t) (cert_records certifications);
          real = filter (\<lambda>r. cert_is_production_eligible r \<and> \<not> ct_test_fixture r) matching;
          reasons =
            (if mode \<noteq> ''live'' then [''mode_not_live''] else []) @
            (if \<not> trace_handling then [''trace_handling_absent''] else []) @
            (if lt_market t \<notin> markets then [''market_not_eligible''] else []) @
            (if real = []
             then ''no_certified_real_connector'' #
               (if list_ex ct_test_fixture matching then [''fixture_cannot_satisfy_live_gate''] else [])
             else eligibility_gaps real t registry routing);
          unique = dedupe reasons
      in check_assessment \<lparr>la_enabled = (unique = []), la_mode = mode, la_reasons = unique,
           la_fixture_accepted = False\<rparr>)"

section \<open>Connector health\<close>

record connector_health_row =
  ch_provider_id :: string
  ch_operational_status :: string
  ch_healthy :: bool
  ch_live :: bool
  ch_available :: bool
  ch_kill_switch_engaged :: bool
  ch_breaker_state :: string
  ch_test_fixture :: bool

record connector_health_report =
  hr_rows :: "connector_health_row list"
  hr_merchant_available :: bool
  hr_readiness_implies :: bool

definition check_connector_report :: "connector_health_report \<Rightarrow> auth_error + connector_health_report" where
  "check_connector_report r = (if hr_readiness_implies r then Inl AuthValueError else Inr r)"

definition aggregate_connector_health :: "'f descriptor list \<Rightarrow> auth_error + connector_health_report" where
  "aggregate_connector_health ds =
     (let serves = (\<lambda>d. is_operationally_available_descriptor d \<and> \<not> de_test_fixture d) in
      check_connector_report
        \<lparr>hr_rows = map (\<lambda>d.
           \<lparr>ch_provider_id = de_provider_id d, ch_operational_status = status_value (de_operational_status d),
            ch_healthy = False, ch_live = False, ch_available = serves d,
            ch_kill_switch_engaged = engaged (de_kill_switch d),
            ch_breaker_state = breaker_value (de_breaker_state d), ch_test_fixture = de_test_fixture d\<rparr>) ds,
         hr_merchant_available = list_ex serves ds, hr_readiness_implies = False\<rparr>)"

section \<open>When the gate opens\<close>

lemma seen_all:
  "set (foldl (\<lambda>acc g. if g \<in> set acc then acc else acc @ [g]) seen gaps) = set seen \<union> set gaps"
  by (induction gaps arbitrary: seen) auto

lemma gaps_from_empty:
  "eligibility_gaps_from t registry routing seen rs = [] \<longleftrightarrow>
     (\<exists>r\<in>set rs. record_gaps t registry routing r = []) \<or> (rs = [] \<and> seen = [])"
proof (induction rs arbitrary: seen)
  case Nil
  then show ?case by simp
next
  case (Cons r rs)
  let ?gaps = "record_gaps t registry routing r"
  let ?seen = "foldl (\<lambda>acc g. if g \<in> set acc then acc else acc @ [g]) seen ?gaps"
  have "?seen \<noteq> []" if "?gaps \<noteq> []" using seen_all [of seen ?gaps] that by (metis Un_empty set_empty)
  then show ?case using Cons.IH [of ?seen] by (auto simp: Let_def)
qed

definition serves_target ::
  "live_target \<Rightarrow> 'f registry \<Rightarrow> routing_catalog \<Rightarrow> certification \<Rightarrow> bool" where
  "serves_target t registry routing r =
     (\<exists>d p. registry_get registry (ct_provider_id r) = Some d \<and> routing_lookup routing (ct_provider_id r) = Some p \<and>
        \<not> de_test_fixture d \<and> \<not> rt_test_fixture p \<and> lt_capability t \<in> set (de_supported_capabilities d) \<and>
        lt_market t \<in> set (de_supported_markets d) \<and> lt_source t \<in> set (de_supported_sources d) \<and>
        de_operational_status d = AVAILABLE \<and> \<not> engaged (de_kill_switch d) \<and> de_breaker_state d \<noteq> OPEN)"

lemma record_gaps_none: "record_gaps t registry routing r = [] \<longleftrightarrow> serves_target t registry routing r"
  by (auto simp: record_gaps_def serves_target_def technical_support_gaps_def allows_execution_def
      is_operationally_available_descriptor_def split: option.splits)

lemma live_gate_verdict:
  "\<exists>a. assess_live_research_mode mode t registry certifications routing markets trace_handling = Inr a \<and>
     (la_enabled a \<longleftrightarrow> la_reasons a = []) \<and> distinct (la_reasons a) \<and> \<not> la_fixture_accepted a \<and>
     (la_enabled a \<longleftrightarrow>
        mode = ''live'' \<and> trace_handling \<and> lt_market t \<in> markets \<and>
        list_ex (\<lambda>r. ct_capability r = lt_capability t \<and> ct_market r = lt_market t \<and>
          ct_source r = Some (lt_source t) \<and> ct_source_scope r = Exact \<and> ct_status r = Certified \<and>
          ct_policy r = Allowed \<and> \<not> ct_test_fixture r \<and> serves_target t registry routing r)
          (cert_records certifications))"
proof -
  define real where "real = filter (\<lambda>r. cert_is_production_eligible r \<and> \<not> ct_test_fixture r)
    (filter (matches_target t) (cert_records certifications))"
  have open_: "(if real = [] then x # xs else eligibility_gaps real t registry routing) = [] \<longleftrightarrow>
      (\<exists>r\<in>set real. serves_target t registry routing r)" for x xs
    by (simp add: eligibility_gaps_def gaps_from_empty record_gaps_none)
  have target: "list_ex (\<lambda>r. ct_capability r = lt_capability t \<and> ct_market r = lt_market t \<and>
          ct_source r = Some (lt_source t) \<and> ct_source_scope r = Exact \<and> ct_status r = Certified \<and>
          ct_policy r = Allowed \<and> \<not> ct_test_fixture r \<and> serves_target t registry routing r)
          (cert_records certifications) \<longleftrightarrow> (\<exists>r\<in>set real. serves_target t registry routing r)"
    by (auto simp: real_def list_ex_iff matches_target_def cert_is_production_eligible_def)
  show ?thesis
    unfolding assess_live_research_mode_def Let_def target real_def [symmetric]
    by (simp add: check_assessment_def dedupe_empty dedupe_distinct open_) blast
qed

text \<open>
  C40: the live gate is exactly as closed as it says.  Assessing never raises, the verdict is enabled exactly
  when it gives no reason, each reason is given once, and it is enabled exactly when the mode is live, traces are
  handled, the market is certified, and one certification for exactly the requested market, capability and source,
  certified and allowed and no test fixture, names a registered, routed and available provider, neither of them
  a fixture, that supports all three.
\<close>

theorem live_gate_exact:
  "\<exists>a. assess_live_research_mode mode t registry certifications routing markets trace_handling = Inr a \<and>
     (la_enabled a \<longleftrightarrow> la_reasons a = []) \<and> distinct (la_reasons a) \<and> \<not> la_fixture_accepted a \<and>
     (la_enabled a \<longleftrightarrow>
        mode = ''live'' \<and> trace_handling \<and> lt_market t \<in> markets \<and>
        list_ex (\<lambda>r. ct_capability r = lt_capability t \<and> ct_market r = lt_market t \<and>
          ct_source r = Some (lt_source t) \<and> ct_source_scope r = Exact \<and> ct_status r = Certified \<and>
          ct_policy r = Allowed \<and> \<not> ct_test_fixture r \<and> serves_target t registry routing r)
          (cert_records certifications))"
  by (rule live_gate_verdict)

end
