(* ===== verification/ScriptedRun.thy ===== *)
theory ScriptedRun
  imports LiveMode
begin

text \<open>
  app/research/sprint38_live_execution.py, the scripted execution: the connectors that replay a list of
  responses, the retry loop \<open>_run_connector\<close>, the trace, and \<open>ResearchExecutionLedger\<close>.

  The clock is a sequence of readings; \<open>k\<close> is how many have been taken.  The connectors of one run are
  different objects.  RuntimeError is what a connector without a further response raises; an exception leaves
  the connectors as they are at that point.
\<close>

section \<open>Connectors\<close>

datatype scripted_kind = SuccessReply | TimeoutReply | RateLimitReply | ServerErrorReply | CredentialReply

record scripted_response =
  sc_kind :: scripted_kind
  sc_offers :: "string list"

datatype run_error = RunValueError | RunRuntimeError

definition check_response :: "scripted_response \<Rightarrow> run_error + scripted_response" where
  "check_response r = (if sc_kind r \<noteq> SuccessReply \<and> sc_offers r \<noteq> [] then Inl RunValueError else Inr r)"

record connector =
  cn_provider_id :: string
  cn_responses :: "scripted_response list"
  cn_capability :: research_capability
  cn_test_fixture :: bool
  cn_status :: operational_status
  cn_kill_switch :: kill_switch
  cn_breaker :: breaker
  cn_breaker_reason :: "string option"
  cn_max_attempts :: int
  cn_retry_on :: "string list"
  cn_timeout_ms :: int
  cn_index :: nat

definition check_connector :: "connector \<Rightarrow> run_error + connector" where
  "check_connector c =
     (if cn_max_attempts c < 1 then Inl RunValueError
      else if \<not> cn_test_fixture c then Inl RunValueError
      else if cn_timeout_ms c < 1 then Inl RunValueError
      else Inr c)"

definition next_response :: "connector \<Rightarrow> (connector \<times> scripted_response) option" where
  "next_response c =
     (if length (cn_responses c) \<le> cn_index c then None
      else Some (c\<lparr>cn_index := cn_index c + 1\<rparr>, cn_responses c ! cn_index c))"

fun kind_for :: "scripted_kind \<Rightarrow> failure_kind" where
  "kind_for TimeoutReply = TIMEOUT"
| "kind_for RateLimitReply = RATE_LIMIT"
| "kind_for ServerErrorReply = UNAVAILABLE"
| "kind_for CredentialReply = CREDENTIAL"
| "kind_for SuccessReply = UNKNOWN"

definition retryable_kind :: "failure_kind \<Rightarrow> bool" where
  "retryable_kind k = (k \<in> {TIMEOUT, RATE_LIMIT, UNAVAILABLE})"

definition may_retry :: "connector \<Rightarrow> failure_kind \<Rightarrow> int \<Rightarrow> bool" where
  "may_retry c kind attempts =
     (if attempts \<ge> cn_max_attempts c then False
      else if \<not> retryable_kind kind then False
      else kind_value kind \<in> set (cn_retry_on c))"

definition connector_operational :: "connector \<Rightarrow> bool" where
  "connector_operational c =
     (cn_status c = AVAILABLE \<and> \<not> engaged (cn_kill_switch c) \<and> allows_execution (cn_breaker c))"

definition connector_blocked_reason :: "connector \<Rightarrow> string" where
  "connector_blocked_reason c =
     (if engaged (cn_kill_switch c) then kind_value KILL_SWITCH
      else if cn_breaker c = OPEN then kind_value CIRCUIT_OPEN
      else ''provider_disabled'')"

section \<open>Trace\<close>

datatype step_outcome = Succeeded | StepFailed | StepTimedOut | StepNotAttempted

record scripted_step =
  ss_provider_id :: string
  ss_capability :: research_capability
  ss_outcome :: step_outcome
  ss_attempted :: bool
  ss_offers :: int
  ss_test_fixture :: bool
  ss_live :: bool
  ss_error :: "string option"
  ss_started_at :: "datetime option"
  ss_finished_at :: "datetime option"
  ss_attempts :: int

definition check_scripted_step :: "scripted_step \<Rightarrow> run_error + scripted_step" where
  "check_scripted_step s =
     (if ss_live s then Inl RunValueError
      else if ss_offers s < 0 then Inl RunValueError
      else if ss_outcome s \<noteq> Succeeded \<and> ss_offers s \<noteq> 0 then Inl RunValueError
      else Inr s)"

definition scripted_step_for ::
  "connector \<Rightarrow> step_outcome \<Rightarrow> bool \<Rightarrow> int \<Rightarrow> string option \<Rightarrow> datetime option \<Rightarrow> datetime option \<Rightarrow> int
     \<Rightarrow> run_error + scripted_step" where
  "scripted_step_for c outcome attempted offers error started finished attempts = check_scripted_step
     \<lparr>ss_provider_id = cn_provider_id c, ss_capability = cn_capability c, ss_outcome = outcome,
      ss_attempted = attempted, ss_offers = offers, ss_test_fixture = True, ss_live = False,
      ss_error = error, ss_started_at = started, ss_finished_at = finished, ss_attempts = attempts\<rparr>"

record exec_trace =
  et_execution_id :: string
  et_steps :: "scripted_step list"
  et_started_at :: "datetime option"
  et_finished_at :: "datetime option"

definition attempted_sources :: "exec_trace \<Rightarrow> string list" where
  "attempted_sources t = map ss_provider_id (filter ss_attempted (et_steps t))"

definition sources_with :: "step_outcome \<Rightarrow> exec_trace \<Rightarrow> string list" where
  "sources_with outcome t = map ss_provider_id (filter (\<lambda>s. ss_outcome s = outcome) (et_steps t))"

definition evaluated_offer_count :: "exec_trace \<Rightarrow> int" where
  "evaluated_offer_count t = sum_list (map ss_offers (et_steps t))"

section \<open>The retry loop\<close>

text \<open>The connector after the loop, and the step or RuntimeError.\<close>

function attempt_loop ::
  "datetime option \<Rightarrow> datetime option \<Rightarrow> int \<Rightarrow> connector \<Rightarrow> int \<Rightarrow> int \<Rightarrow> connector \<times> (run_error + scripted_step)" where
  "attempt_loop started finished threshold c attempts consecutive =
     (case next_response c of
        None \<Rightarrow> (c, Inl RunRuntimeError)
      | Some (c', response) \<Rightarrow>
          (let attempts' = attempts + 1; kind = kind_for (sc_kind response) in
           if sc_kind response = SuccessReply
           then (c', scripted_step_for c' Succeeded True (int (length (sc_offers response))) None started finished attempts')
           else
             (let consecutive' = consecutive + 1;
                  c'' = (if consecutive' \<ge> threshold
                    then c'\<lparr>cn_breaker := OPEN, cn_breaker_reason := Some (kind_value kind)\<rparr> else c')
              in if may_retry c'' kind attempts'
                 then attempt_loop started finished threshold c'' attempts' consecutive'
                 else (c'', scripted_step_for c'' (if kind = TIMEOUT then StepTimedOut else StepFailed) True 0
                   (Some (kind_value kind)) started finished attempts'))))"
  by pat_completeness auto

termination
  by (relation "measure (\<lambda>(_, _, _, c, _, _). length (cn_responses c) - cn_index c)")
    (auto simp: next_response_def split: if_splits)

declare attempt_loop.simps [simp del]

definition run_connector ::
  "(nat \<Rightarrow> datetime) \<Rightarrow> int \<Rightarrow> nat \<Rightarrow> connector \<Rightarrow> connector \<times> nat \<times> (run_error + scripted_step)" where
  "run_connector clock threshold k c =
     (if engaged (cn_kill_switch c) \<or> \<not> connector_operational c
      then (c, k + 1, scripted_step_for c StepNotAttempted False 0 (Some (connector_blocked_reason c)) None None 0)
      else if cn_breaker c = OPEN
      then (c, k + 1, scripted_step_for c StepNotAttempted False 0 (Some (kind_value CIRCUIT_OPEN)) None None 0)
      else
        (case attempt_loop (Some (clock k)) (Some (clock (k + 1))) threshold c 0 0 of
           (c', Inl e) \<Rightarrow> (c', k + 1, Inl e)
         | (c', Inr s) \<Rightarrow> (c', k + 2, Inr s)))"

fun run_connectors ::
  "(nat \<Rightarrow> datetime) \<Rightarrow> int \<Rightarrow> nat \<Rightarrow> connector list \<Rightarrow> connector list \<times> nat \<times> (run_error + scripted_step list)" where
  "run_connectors clock threshold k [] = ([], k, Inr [])"
| "run_connectors clock threshold k (c # cs) =
     (case run_connector clock threshold k c of
        (c', k', Inl e) \<Rightarrow> (c' # cs, k', Inl e)
      | (c', k', Inr s) \<Rightarrow>
          (case run_connectors clock threshold k' cs of
             (cs', k'', r) \<Rightarrow> (c' # cs', k'', map_sum (\<lambda>e. e) (\<lambda>ss. s # ss) r)))"

section \<open>Executions and the ledger\<close>

datatype live_state = Queued | Running | PartialRun | CompletedRun | FailedRun | CancelledRun

record live_execution =
  lx_execution_id :: string
  lx_owner_id :: string
  lx_decision_id :: string
  lx_confirmation_key :: string
  lx_state :: live_state
  lx_explicit_confirmation :: bool
  lx_trace :: exec_trace
  lx_replaces_prior :: bool
  lx_no_merchants :: bool
  lx_disclosure :: "string option"

definition check_live_execution :: "live_execution \<Rightarrow> run_error + live_execution" where
  "check_live_execution x = (if lx_replaces_prior x then Inl RunValueError else Inr x)"

definition live_execution_id :: "string \<Rightarrow> string \<Rightarrow> string" where
  "live_execution_id owner_id confirmation_key = ''research-exec:'' @ take 32 (stable_sha256 (JObj
     [(''kind'', JStr ''sprint38_research_execution_v1''), (''owner_id'', JStr owner_id),
      (''confirmation_key'', JStr confirmation_key)]))"

type_synonym live_ledger = "(string \<times> string, live_execution) dict"

datatype 'a refusable = Refused string | Granted 'a

definition ledger_confirm ::
  "live_ledger \<Rightarrow> string \<Rightarrow> string \<Rightarrow> string \<Rightarrow> bool \<Rightarrow> live_ledger \<times> (run_error + live_execution refusable)" where
  "ledger_confirm records owner_id confirmation_key decision_id explicit =
     (if \<not> explicit then (records, Inr (Refused ''explicit_confirmation_required''))
      else if owner_id = [] \<or> confirmation_key = [] \<or> decision_id = []
      then (records, Inr (Refused ''owner_bound_confirmation_required''))
      else
        (case dict_get records (owner_id, confirmation_key) of
           Some existing \<Rightarrow>
             if lx_decision_id existing \<noteq> decision_id
             then (records, Inr (Refused ''confirmation_key_decision_conflict''))
             else (records, Inr (Granted existing))
         | None \<Rightarrow>
             (let execution_id = live_execution_id owner_id confirmation_key in
              case check_live_execution
                \<lparr>lx_execution_id = execution_id, lx_owner_id = owner_id, lx_decision_id = decision_id,
                 lx_confirmation_key = confirmation_key, lx_state = Queued, lx_explicit_confirmation = True,
                 lx_trace = \<lparr>et_execution_id = execution_id, et_steps = [], et_started_at = None,
                   et_finished_at = None\<rparr>,
                 lx_replaces_prior = False, lx_no_merchants = False, lx_disclosure = None\<rparr> of
                Inl e \<Rightarrow> (records, Inl e)
              | Inr x \<Rightarrow> (dict_set (owner_id, confirmation_key) x records, Inr (Granted x)))))"

definition is_authoritative :: "live_execution \<Rightarrow> live_execution \<Rightarrow> bool" where
  "is_authoritative stored supplied =
     (lx_explicit_confirmation stored \<and> lx_owner_id supplied = lx_owner_id stored \<and>
      lx_confirmation_key supplied = lx_confirmation_key stored \<and>
      lx_execution_id supplied = lx_execution_id stored \<and> lx_decision_id supplied = lx_decision_id stored)"

definition NO_MERCHANTS_DISCLOSURE :: string where
  "NO_MERCHANTS_DISCLOSURE =
     ''No live merchant result is available for this request. Your previous decision is unchanged.''"

definition finish_live_execution :: "live_execution \<Rightarrow> exec_trace \<Rightarrow> int \<Rightarrow> run_error + live_execution" where
  "finish_live_execution x trace certified_count =
     (let succeeded = sources_with Succeeded trace; attempted = attempted_sources trace;
          one_down = certified_count \<le> 1 \<and> succeeded = [];
          (state, none, disclosure) =
            (if attempted = [] \<or> one_down then (FailedRun, True, Some NO_MERCHANTS_DISCLOSURE)
             else if length succeeded < length attempted
             then (PartialRun, False, Some (''Some non-live test sources failed. This is not a live multi-merchant result. '' @
               ''The previous decision is unchanged.''))
             else (CompletedRun, False, None))
      in check_live_execution (x\<lparr>lx_state := state, lx_explicit_confirmation := True, lx_trace := trace,
           lx_replaces_prior := False, lx_no_merchants := none, lx_disclosure := disclosure\<rparr>))"

definition ledger_run ::
  "(nat \<Rightarrow> datetime) \<Rightarrow> int \<Rightarrow> nat \<Rightarrow> live_ledger \<Rightarrow> live_execution \<Rightarrow> connector list \<Rightarrow> int
     \<Rightarrow> live_ledger \<times> connector list \<times> (run_error + live_execution refusable)" where
  "ledger_run clock threshold k records x connectors certified_count =
     (case dict_get records (lx_owner_id x, lx_confirmation_key x) of
        None \<Rightarrow> (records, connectors, Inr (Refused ''explicit_confirmation_required''))
      | Some current \<Rightarrow>
          if \<not> is_authoritative current x
          then (records, connectors, Inr (Refused ''explicit_confirmation_required''))
          else if lx_state current \<noteq> Queued then (records, connectors, Inr (Granted current))
          else if certified_count \<noteq> int (length connectors)
          then (records, connectors, Inr (Refused ''connector_count_mismatch''))
          else
            (case check_live_execution (current\<lparr>lx_state := Running, lx_replaces_prior := False\<rparr>) of
               Inl e \<Rightarrow> (records, connectors, Inl e)
             | Inr running \<Rightarrow>
                 (case run_connectors clock threshold (k + 1) connectors of
                    (cs, k', Inl e) \<Rightarrow> (records, cs, Inl e)
                  | (cs, k', Inr steps) \<Rightarrow>
                      (case finish_live_execution running
                         \<lparr>et_execution_id = lx_execution_id x, et_steps = steps,
                          et_started_at = Some (clock k), et_finished_at = Some (clock k')\<rparr> certified_count of
                         Inl e \<Rightarrow> (records, cs, Inl e)
                       | Inr completed \<Rightarrow>
                           (dict_set (lx_owner_id x, lx_confirmation_key x) completed records, cs,
                            Inr (Granted completed))))))"

definition preserve_prior_decision :: "string \<Rightarrow> live_execution \<Rightarrow> string \<times> string \<times> bool \<times> string" where
  "preserve_prior_decision prior x = (prior, prior, False, ''prior decision preserved'')"

section \<open>The loop is bounded\<close>

definition used :: "connector \<Rightarrow> connector \<Rightarrow> int" where
  "used c c' = int (cn_index c') - int (cn_index c)"

text \<open>What the loop has done when it stops, \<open>a\<close> attempts after its start.\<close>

definition loop_result :: "int \<Rightarrow> int \<Rightarrow> connector \<Rightarrow> connector \<Rightarrow> run_error + scripted_step \<Rightarrow> bool" where
  "loop_result threshold a c c' r =
     (cn_responses c' = cn_responses c \<and> cn_index c \<le> cn_index c' \<and>
      (case r of
         Inl e \<Rightarrow> e = RunRuntimeError \<and> length (cn_responses c) \<le> cn_index c' \<and>
           (used c c' = 0 \<or> a + used c c' < cn_max_attempts c)
       | Inr s \<Rightarrow> ss_attempts s = a + used c c' \<and> ss_attempted s \<and> cn_index c < cn_index c' \<and>
           cn_index c' \<le> length (cn_responses c) \<and>
           (used c c' = 1 \<or> a + used c c' \<le> cn_max_attempts c) \<and>
           (ss_outcome s = Succeeded \<longleftrightarrow> sc_kind (cn_responses c ! (cn_index c' - 1)) = SuccessReply) \<and>
           cn_breaker c' =
             (if 0 < used c c' - (if ss_outcome s = Succeeded then 1 else 0) \<and>
                 threshold \<le> a + used c c' - (if ss_outcome s = Succeeded then 1 else 0)
              then OPEN else cn_breaker c)))"

lemma scripted_step_fields:
  assumes "scripted_step_for c outcome attempted offers error started finished attempts = r"
    and "0 \<le> offers" and "outcome = Succeeded \<or> offers = 0"
  shows "\<exists>s. r = Inr s \<and> ss_attempts s = attempts \<and> ss_outcome s = outcome \<and> ss_attempted s = attempted \<and>
    ss_provider_id s = cn_provider_id c \<and> ss_offers s = offers \<and> \<not> ss_live s"
  using assms by (auto simp: scripted_step_for_def check_scripted_step_def)

lemma attempt_loop_result:
  "attempt_loop started finished threshold c a a = (c', r) \<Longrightarrow> loop_result threshold a c c' r"
proof (induction "length (cn_responses c) - cn_index c" arbitrary: c a c' r rule: less_induct)
  case less
  show ?case
  proof (cases "next_response c")
    case None
    then show ?thesis using less.prems
      by (auto simp: attempt_loop.simps [of _ _ _ c] loop_result_def used_def next_response_def split: if_splits)
  next
    case (Some pr)
    then obtain c1 reply where n: "next_response c = Some (c1, reply)" by (cases pr) auto
    then have c1: "c1 = c\<lparr>cn_index := cn_index c + 1\<rparr>" "reply = cn_responses c ! cn_index c"
      "cn_index c < length (cn_responses c)"
      by (auto simp: next_response_def split: if_splits)
    show ?thesis
    proof (cases "sc_kind reply = SuccessReply")
      case True
      then have "c' = c1 \<and> scripted_step_for c1 Succeeded True (int (length (sc_offers reply))) None started finished (a + 1) = r"
        using less.prems n by (auto simp: attempt_loop.simps [of _ _ _ c])
      then show ?thesis
        using scripted_step_fields [of c1 Succeeded True "int (length (sc_offers reply))" None started finished "a + 1" r]
          True c1 by (auto simp: loop_result_def used_def)
    next
      case False
      define k where "k = kind_for (sc_kind reply)"
      define c2 where "c2 = (if a + 1 \<ge> threshold
        then c1\<lparr>cn_breaker := OPEN, cn_breaker_reason := Some (kind_value k)\<rparr> else c1)"
      have c2: "cn_responses c2 = cn_responses c" "cn_index c2 = cn_index c + 1" "cn_max_attempts c2 = cn_max_attempts c"
        "cn_breaker c2 = (if threshold \<le> a + 1 then OPEN else cn_breaker c)"
        by (simp_all add: c2_def c1(1))
      have eq: "attempt_loop started finished threshold c a a =
          (if may_retry c2 k (a + 1) then attempt_loop started finished threshold c2 (a + 1) (a + 1)
           else (c2, scripted_step_for c2 (if k = TIMEOUT then StepTimedOut else StepFailed) True 0
             (Some (kind_value k)) started finished (a + 1)))"
        unfolding k_def c2_def
        by (simp only: attempt_loop.simps [of _ _ _ c] n option.case prod.case Let_def False if_False)
      show ?thesis
      proof (cases "may_retry c2 k (a + 1)")
        case True
        then have rest: "attempt_loop started finished threshold c2 (a + 1) (a + 1) = (c', r)"
          using less.prems by (simp add: eq)
        have "length (cn_responses c2) - cn_index c2 < length (cn_responses c) - cn_index c"
          using c1(3) by (simp add: c2)
        from less.hyps [OF this rest] have ih: "loop_result threshold (a + 1) c2 c' r" .
        have "a + 1 < cn_max_attempts c" using True by (auto simp: may_retry_def c2 split: if_splits)
        moreover have "used c2 c' = used c c' - 1" "Suc (cn_index c) < cn_index c' \<longrightarrow> 1 < used c c'"
          by (simp_all add: used_def c2)
        ultimately show ?thesis
          using ih by (auto simp: loop_result_def c2 split: sum.splits if_splits)
      next
        case stop: False
        then have "c' = c2 \<and> scripted_step_for c2 (if k = TIMEOUT then StepTimedOut else StepFailed) True 0
            (Some (kind_value k)) started finished (a + 1) = r"
          using less.prems stop unfolding eq by auto
        then show ?thesis
          using scripted_step_fields [of c2 "if k = TIMEOUT then StepTimedOut else StepFailed" True 0
              "Some (kind_value k)" started finished "a + 1" r] False c1(2,3)
          by (auto simp: loop_result_def c2 used_def split: if_splits)
      qed
    qed
  qed
qed

text \<open>
  C38: the retry loop of a connector ends.  It takes at most \<open>max_attempts\<close> replies, at least one, and
  reports how many; it stops at the first success; it can only raise when the script runs out of replies, so
  with \<open>max_attempts\<close> replies left it always yields a step.  The breaker is open afterwards exactly when it was or
  when the failures reached the threshold.
\<close>

theorem retry_loop_bounded:
  assumes "check_connector c = Inr c" and "connector_operational c"
  shows "\<exists>c' k' r. run_connector clock threshold k c = (c', k', r) \<and> cn_responses c' = cn_responses c \<and>
    used c c' \<le> cn_max_attempts c \<and>
    (int (cn_index c) + cn_max_attempts c \<le> int (length (cn_responses c)) \<longrightarrow> (\<exists>s. r = Inr s)) \<and>
    (\<forall>s. r = Inr s \<longrightarrow> 1 \<le> ss_attempts s \<and> ss_attempts s = used c c' \<and>
       (ss_outcome s = Succeeded \<longleftrightarrow> sc_kind (cn_responses c ! (cn_index c' - 1)) = SuccessReply) \<and>
       (cn_breaker c' = OPEN \<longleftrightarrow> ss_outcome s \<noteq> Succeeded \<and> threshold \<le> used c c' \<or>
          ss_outcome s = Succeeded \<and> 1 < used c c' \<and> threshold \<le> used c c' - 1))"
proof -
  obtain c' r where run: "attempt_loop (Some (clock k)) (Some (clock (k + 1))) threshold c 0 0 = (c', r)" by force
  have max: "1 \<le> cn_max_attempts c" using assms(1) by (auto simp: check_connector_def split: if_splits)
  have closed: "cn_breaker c \<noteq> OPEN" "\<not> engaged (cn_kill_switch c)"
    using assms(2) by (auto simp: connector_operational_def allows_execution_def)
  have "\<exists>k'. run_connector clock threshold k c = (c', k', r)"
    using run closed assms(2) by (cases r) (auto simp: run_connector_def)
  then obtain k' where k': "run_connector clock threshold k c = (c', k', r)" by blast
  note loop = attempt_loop_result [OF run, unfolded loop_result_def]
  show ?thesis
  proof (cases r)
    case (Inl e)
    then show ?thesis using k' loop max by (auto simp: used_def)
  next
    case (Inr s)
    then show ?thesis using k' loop max closed by (auto simp: used_def split: if_splits)
  qed
qed

definition example_connector :: connector where
  "example_connector =
     \<lparr>cn_provider_id = ''shop'', cn_responses = [\<lparr>sc_kind = TimeoutReply, sc_offers = []\<rparr>,
        \<lparr>sc_kind = SuccessReply, sc_offers = [''offer'']\<rparr>],
      cn_capability = CurrentPricing, cn_test_fixture = True, cn_status = AVAILABLE,
      cn_kill_switch = \<lparr>engaged = False, kill_reason = None\<rparr>, cn_breaker = CLOSED, cn_breaker_reason = None,
      cn_max_attempts = 2, cn_retry_on = [''timeout'', ''rate_limit'', ''unavailable''], cn_timeout_ms = 5000,
      cn_index = 0\<rparr>"

theorem retry_loop_bounded_witness:
  "\<exists>c' k' s. run_connector (\<lambda>k. Aware (int k)) 3 0 example_connector = (c', k', Inr s) \<and> ss_attempts s \<le> 2"
proof -
  have "check_connector example_connector = Inr example_connector" "connector_operational example_connector"
    by (simp_all add: example_connector_def check_connector_def connector_operational_def allows_execution_def)
  from retry_loop_bounded [OF this, of "\<lambda>k. Aware (int k)" 3 0] show ?thesis
    by (fastforce simp: example_connector_def)
qed

section \<open>The ledger\<close>

text \<open>The ledgers a process can reach: it starts empty, and confirms or runs with any arguments.\<close>

inductive reached :: "live_ledger \<Rightarrow> bool" where
  reached_empty: "reached []"
| reached_confirm: "reached records \<Longrightarrow> ledger_confirm records owner_id key decision_id explicit = (records', r) \<Longrightarrow>
    reached records'"
| reached_run: "reached records \<Longrightarrow> ledger_run clock threshold k records x cs n = (records', cs', r) \<Longrightarrow>
    reached records'"

text \<open>A stored execution says what its trace shows.\<close>

definition honest_live :: "string \<times> string \<Rightarrow> live_execution \<Rightarrow> bool" where
  "honest_live key e =
     (key = (lx_owner_id e, lx_confirmation_key e) \<and> lx_explicit_confirmation e \<and> \<not> lx_replaces_prior e \<and>
      lx_execution_id e = live_execution_id (lx_owner_id e) (lx_confirmation_key e) \<and>
      (lx_state e = Queued \<and> et_steps (lx_trace e) = [] \<and> \<not> lx_no_merchants e \<or>
       lx_state e = FailedRun \<and> lx_no_merchants e \<and> lx_disclosure e = Some NO_MERCHANTS_DISCLOSURE \<or>
       lx_state e = PartialRun \<and> attempted_sources (lx_trace e) \<noteq> [] \<and> lx_disclosure e \<noteq> None \<and>
         length (sources_with Succeeded (lx_trace e)) < length (attempted_sources (lx_trace e)) \<or>
       lx_state e = CompletedRun \<and> attempted_sources (lx_trace e) \<noteq> [] \<and> lx_disclosure e = None \<and>
         length (attempted_sources (lx_trace e)) \<le> length (sources_with Succeeded (lx_trace e))))"

definition ledger_ok :: "live_ledger \<Rightarrow> bool" where
  "ledger_ok records = (\<forall>key e. dict_get records key = Some e \<longrightarrow> honest_live key e)"

lemma ledger_ok_set: "ledger_ok records \<Longrightarrow> honest_live key e \<Longrightarrow> ledger_ok (dict_set key e records)"
  by (auto simp: ledger_ok_def dict_get_set_map split: if_splits)

lemma honest_not_running: "honest_live key e \<Longrightarrow> lx_state e \<noteq> Running"
  by (auto simp: honest_live_def)

lemma confirm_ok:
  assumes "ledger_ok records" and "ledger_confirm records owner_id key decision_id explicit = (records', r)"
  shows "ledger_ok records'"
  using assms
  by (auto simp: ledger_confirm_def Let_def check_live_execution_def honest_live_def intro!: ledger_ok_set
      split: if_splits option.splits)

lemma finish_honest:
  assumes "finish_live_execution x trace n = Inr y" and "lx_execution_id x = live_execution_id (lx_owner_id x) (lx_confirmation_key x)"
  shows "honest_live (lx_owner_id x, lx_confirmation_key x) y \<and> lx_decision_id y = lx_decision_id x \<and>
    lx_state y \<notin> {Queued, Running} \<and> lx_trace y = trace"
proof -
  let ?down = "attempted_sources trace = [] \<or> n \<le> 1 \<and> sources_with Succeeded trace = []"
  let ?some = "length (sources_with Succeeded trace) < length (attempted_sources trace)"
  note run = assms(1) [unfolded finish_live_execution_def Let_def check_live_execution_def]
  consider ?down | "\<not> ?down" ?some | "\<not> ?down" "\<not> ?some" by blast
  then show ?thesis
  proof cases
    case 1
    then have "y = x\<lparr>lx_state := FailedRun, lx_explicit_confirmation := True, lx_trace := trace,
        lx_replaces_prior := False, lx_no_merchants := True, lx_disclosure := Some NO_MERCHANTS_DISCLOSURE\<rparr>"
      using run by (simp only: if_True prod.case) simp
    then show ?thesis using assms(2) by (simp add: honest_live_def)
  next
    case 2
    then have "\<exists>d. y = x\<lparr>lx_state := PartialRun, lx_explicit_confirmation := True, lx_trace := trace,
        lx_replaces_prior := False, lx_no_merchants := False, lx_disclosure := Some d\<rparr>"
      using run by (simp only: if_False if_True prod.case) auto
    then show ?thesis using 2 assms(2) by (auto simp: honest_live_def)
  next
    case 3
    then have "y = x\<lparr>lx_state := CompletedRun, lx_explicit_confirmation := True, lx_trace := trace,
        lx_replaces_prior := False, lx_no_merchants := False, lx_disclosure := None\<rparr>"
      using run by (simp only: if_False prod.case) simp
    then show ?thesis using 3 assms(2) by (auto simp: honest_live_def)
  qed
qed

lemma run_cases:
  assumes "ledger_run clock threshold k records x cs n = (records', cs', r)"
  obtains "records' = records" "cs' = cs" "\<exists>m. r = Inr (Refused m)"
  | current where "records' = records" "cs' = cs" "r = Inr (Granted current)" "lx_state current \<noteq> Queued"
      "dict_get records (lx_owner_id x, lx_confirmation_key x) = Some current"
  | e where "records' = records" "r = Inl e"
  | current trace y where "dict_get records (lx_owner_id x, lx_confirmation_key x) = Some current"
      "is_authoritative current x" "lx_state current = Queued" "r = Inr (Granted y)"
      "finish_live_execution (current\<lparr>lx_state := Running, lx_replaces_prior := False\<rparr>) trace n = Inr y"
      "records' = dict_set (lx_owner_id x, lx_confirmation_key x) y records"
proof (cases "dict_get records (lx_owner_id x, lx_confirmation_key x)")
  case None
  then show ?thesis using assms that(1) by (auto simp: ledger_run_def)
next
  case (Some current)
  show ?thesis
  proof (cases "is_authoritative current x \<and> lx_state current = Queued \<and> n = int (length cs)")
    case False
    then show ?thesis using assms Some that(1,2) by (auto simp: ledger_run_def split: if_splits)
  next
    case True
    obtain cs1 k' rs where runs: "run_connectors clock threshold (Suc k) cs = (cs1, k', rs)" by (metis prod_cases3)
    note run = assms [unfolded ledger_run_def Some, simplified, unfolded check_live_execution_def]
    show ?thesis
    proof (cases rs)
      case (Inl e)
      then show ?thesis using run True runs that(3) by auto
    next
      case (Inr steps)
      let ?fin = "finish_live_execution (current\<lparr>lx_state := Running, lx_replaces_prior := False\<rparr>)
        \<lparr>et_execution_id = lx_execution_id x, et_steps = steps, et_started_at = Some (clock k),
         et_finished_at = Some (clock k')\<rparr> n"
      show ?thesis
      proof (cases ?fin)
        case (Inl e)
        then show ?thesis using run True runs Inr that(3) by auto
      next
        case y: (Inr y)
        then show ?thesis using run True runs Inr that(4) [OF Some _ _ _ y] by auto
      qed
    qed
  qed
qed

lemma ledger_run_ok:
  assumes ok: "ledger_ok records" and run: "ledger_run clock threshold k records x cs n = (records', cs', r)"
  shows "ledger_ok records'"
proof (rule run_cases [OF run])
  fix current trace y
  assume cur: "dict_get records (lx_owner_id x, lx_confirmation_key x) = Some current"
    and fin: "finish_live_execution (current\<lparr>lx_state := Running, lx_replaces_prior := False\<rparr>) trace n = Inr y"
    and rec: "records' = dict_set (lx_owner_id x, lx_confirmation_key x) y records"
  have "honest_live (lx_owner_id x, lx_confirmation_key x) current" using ok cur by (simp add: ledger_ok_def)
  then have "honest_live (lx_owner_id x, lx_confirmation_key x) y"
    using finish_honest [OF fin] by (auto simp: honest_live_def)
  then show ?thesis unfolding rec by (rule ledger_ok_set [OF ok])
qed (use ok in auto)

lemma reached_ok: "reached records \<Longrightarrow> ledger_ok records"
  by (induction rule: reached.induct) (simp add: ledger_ok_def, rule confirm_ok, assumption+, rule ledger_run_ok, assumption+)

text \<open>
  C39: a confirmed execution runs once, and the record tells the truth.  In every ledger a process can reach, a
  stored execution is bound to its owner and key, never replaces a decision, and its state, disclosure and
  trace agree.  Running it hands back what is stored afterwards; from then on any further run, with any connectors,
  is answered with that execution or refused and touches neither the ledger nor a connector.
\<close>

theorem scripted_run_once:
  assumes "reached records"
    and "ledger_run clock threshold k records x cs n = (records', cs', Inr (Granted y))"
  shows "dict_get records' (lx_owner_id x, lx_confirmation_key x) = Some y \<and>
    honest_live (lx_owner_id x, lx_confirmation_key x) y \<and> lx_state y \<notin> {Queued, Running} \<and>
    (\<forall>clock' threshold' k' x' ds m. lx_owner_id x' = lx_owner_id x \<and> lx_confirmation_key x' = lx_confirmation_key x \<longrightarrow>
       (\<exists>answer. ledger_run clock' threshold' k' records' x' ds m = (records', ds, Inr answer) \<and>
         (answer = Granted y \<or> answer = Refused ''explicit_confirmation_required'')))"
proof -
  have ok: "ledger_ok records'" using assms reached_ok reached.reached_run by blast
  have stored: "dict_get records' (lx_owner_id x, lx_confirmation_key x) = Some y \<and> lx_state y \<notin> {Queued, Running}"
  proof (rule run_cases [OF assms(2)])
    fix current
    assume a: "records' = records" "Inr (Granted y) = (Inr (Granted current) :: run_error + live_execution refusable)"
      "lx_state current \<noteq> Queued" "dict_get records (lx_owner_id x, lx_confirmation_key x) = Some current"
    then have "honest_live (lx_owner_id x, lx_confirmation_key x) current" using ok by (simp add: ledger_ok_def)
    from honest_not_running [OF this] show ?thesis using a by simp
  next
    fix current trace z
    assume "Inr (Granted y) = (Inr (Granted z) :: run_error + live_execution refusable)"
      and cur: "dict_get records (lx_owner_id x, lx_confirmation_key x) = Some current"
      and fin: "finish_live_execution (current\<lparr>lx_state := Running, lx_replaces_prior := False\<rparr>) trace n = Inr z"
      and rec: "records' = dict_set (lx_owner_id x, lx_confirmation_key x) z records"
    moreover have "honest_live (lx_owner_id x, lx_confirmation_key x) current"
      using cur reached_ok [OF assms(1)] by (simp add: ledger_ok_def)
    ultimately show ?thesis
      using finish_honest [OF fin] by (auto simp: honest_live_def dict_get_set_map)
  qed auto
  then have "honest_live (lx_owner_id x, lx_confirmation_key x) y" using ok by (simp add: ledger_ok_def)
  then show ?thesis using stored by (auto simp: ledger_run_def)
qed

definition example_queued :: live_execution where
  "example_queued =
     \<lparr>lx_execution_id = live_execution_id ''owner'' ''key'', lx_owner_id = ''owner'', lx_decision_id = ''dec'',
      lx_confirmation_key = ''key'', lx_state = Queued, lx_explicit_confirmation = True,
      lx_trace = \<lparr>et_execution_id = live_execution_id ''owner'' ''key'', et_steps = [], et_started_at = None,
        et_finished_at = None\<rparr>,
      lx_replaces_prior = False, lx_no_merchants = False, lx_disclosure = None\<rparr>"

theorem scripted_run_once_witness:
  "\<exists>records' y. ledger_run (\<lambda>k. Aware (int k)) 3 0 [((''owner'', ''key''), example_queued)] example_queued [] 0 =
     (records', [], Inr (Granted y)) \<and> lx_state y \<noteq> Queued"
proof -
  let ?r = "[((''owner'', ''key''), example_queued)] :: live_ledger"
  have "ledger_confirm [] ''owner'' ''key'' ''dec'' True = (?r, Inr (Granted example_queued))"
    by (simp add: ledger_confirm_def Let_def check_live_execution_def example_queued_def)
  then have reached: "reached ?r" using reached_empty reached_confirm by blast
  obtain records' y where "ledger_run (\<lambda>k. Aware (int k)) 3 0 ?r example_queued [] 0 = (records', [], Inr (Granted y))"
    by (simp add: ledger_run_def is_authoritative_def check_live_execution_def finish_live_execution_def
        attempted_sources_def example_queued_def)
  with scripted_run_once [OF reached this] show ?thesis by auto
qed

end
