(* ===== verification/SessionRefinement.thy ===== *)
theory SessionRefinement
  imports Authorization
begin

text \<open>
  app/domain/entities/session_refinement.py: the preferences a shopper states in one conversation, how a
  later statement is merged into them, and the session overlay of a Recommendation.  The budget is a
  float the code only carries; it is kept as an arbitrary value.  The overlay digest is not
  modelled, since it needs the text Python gives a float.
\<close>

record 'f session_priorities =
  sp_top_priority :: "string option"
  sp_priorities :: "string list"
  sp_required_features :: "string list"
  sp_preferred_features :: "string list"
  sp_deprioritized :: "string list"
  sp_use_case :: "string option"
  sp_budget_max :: "'f option"
  sp_budget_label :: "string option"
  sp_reset_to_original :: bool
  sp_hard_constraint :: bool

text \<open>\<open>a or b\<close> on optional texts: the empty text counts as absent.\<close>

definition or_else :: "string option \<Rightarrow> string option \<Rightarrow> string option" where
  "or_else a b = (case a of None \<Rightarrow> b | Some s \<Rightarrow> if s = [] then b else a)"

definition named :: "string option \<Rightarrow> string list" where
  "named a = (case a of None \<Rightarrow> [] | Some s \<Rightarrow> if s = [] then [] else [s])"

definition merge_priorities :: "'f session_priorities \<Rightarrow> 'f session_priorities \<Rightarrow> 'f session_priorities" where
  "merge_priorities self incoming =
     (if sp_reset_to_original incoming then incoming
      else
        (let p1 = dedupe (named (sp_top_priority incoming) @ sp_priorities incoming @ sp_priorities self);
             p2 = (if named (sp_top_priority incoming) \<noteq> []
                   then dedupe (named (sp_top_priority incoming) @ p1) else p1)
         in \<lparr>sp_top_priority = or_else (sp_top_priority incoming) (sp_top_priority self),
             sp_priorities = p2,
             sp_required_features = dedupe (sp_required_features self @ sp_required_features incoming),
             sp_preferred_features = dedupe (sp_preferred_features self @ sp_preferred_features incoming),
             sp_deprioritized = dedupe (sp_deprioritized self @ sp_deprioritized incoming),
             sp_use_case = or_else (sp_use_case incoming) (sp_use_case self),
             sp_budget_max = (if sp_budget_max incoming \<noteq> None then sp_budget_max incoming
                              else sp_budget_max self),
             sp_budget_label = or_else (sp_budget_label incoming) (sp_budget_label self),
             sp_reset_to_original = False,
             sp_hard_constraint = (sp_hard_constraint self \<or> sp_hard_constraint incoming)\<rparr>))"

datatype qualification_state = Unqualified | Qualified

record session_qualification =
  sq_state :: qualification_state
  sq_reasons :: "string list"
  sq_material_unknowns :: "string list"
  sq_could_change_recommendation :: bool

definition check_qualification :: "session_qualification \<Rightarrow> auth_error + session_qualification" where
  "check_qualification q =
     (if list_ex (\<lambda>s. strip s = []) (sq_reasons q) then Inl AuthValueError
      else if list_ex (\<lambda>s. strip s = []) (sq_material_unknowns q) then Inl AuthValueError
      else if sq_state q = Qualified \<and> sq_reasons q = [] \<and> sq_material_unknowns q = []
      then Inl AuthValueError
      else Inr q)"

fun join_with :: "string \<Rightarrow> string list \<Rightarrow> string" where
  "join_with sep [] = []"
| "join_with sep [s] = s"
| "join_with sep (s # t # ss) = s @ sep @ join_with sep (t # ss)"

definition qualification_message :: "session_qualification \<Rightarrow> string option" where
  "qualification_message q =
     (if sq_state q \<noteq> Qualified then None
      else
        (let parts = sq_reasons q @
               (if sq_material_unknowns q \<noteq> []
                then [''Material unknown: '' @ join_with ''; '' (sq_material_unknowns q)] else []) @
               (if sq_could_change_recommendation q
                then [''This unknown could materially change the Recommendation.''] else [])
         in if parts \<noteq> [] then Some (join_with '' '' parts)
            else Some ''This is a qualified session Best Piq for You.''))"

record 'f session_refinement =
  sr_decision_id :: string
  sr_canonical_context_version :: int
  sr_refinement_version :: int
  sr_original_best_piq_product_id :: string
  sr_session_best_piq_product_id :: string
  sr_priorities :: "'f session_priorities"
  sr_recommendation_changed :: bool
  sr_status :: string
  sr_evidence_ids :: "string list"
  sr_reasons :: "string list"
  sr_qualification :: "session_qualification option"
  sr_created_at :: "datetime option"
  sr_updated_at :: "datetime option"
  sr_conversation_id :: "string option"

definition check_refinement :: "'f session_refinement \<Rightarrow> auth_error + 'f session_refinement" where
  "check_refinement r =
     (if sr_decision_id r = [] then Inl AuthValueError
      else if sr_canonical_context_version r < 1 then Inl AuthValueError
      else if sr_refinement_version r < 1 then Inl AuthValueError
      else if sr_original_best_piq_product_id r = [] \<or> sr_session_best_piq_product_id r = []
      then Inl AuthValueError
      else Inr r)"

section \<open>Merging\<close>

lemma named_single: "named a = [p] \<longleftrightarrow> a = Some p \<and> p \<noteq> []"
  by (auto simp: named_def split: option.splits)

lemma named_Some [simp]: "p \<noteq> [] \<Longrightarrow> named (Some p) = [p]"
  by (simp add: named_def)

text \<open>
  a later statement refines an earlier one.  A reset is taken as it stands.  Otherwise merging keeps
  every priority and every required feature of both, once each, puts a newly named top priority first, keeps a
  hard constraint, and overrides the budget only where the new statement gives one.
\<close>

theorem merge_refines:
  fixes self incoming :: "'f session_priorities"
  defines "m \<equiv> merge_priorities self incoming"
  shows "(sp_reset_to_original incoming \<longrightarrow> m = incoming) \<and>
   (\<not> sp_reset_to_original incoming \<longrightarrow>
     set (sp_priorities m) =
       set (named (sp_top_priority incoming)) \<union> set (sp_priorities incoming) \<union> set (sp_priorities self) \<and>
     distinct (sp_priorities m) \<and>
     (\<forall>p. named (sp_top_priority incoming) = [p] \<longrightarrow>
        hd (sp_priorities m) = p \<and> sp_top_priority m = Some p) \<and>
     set (sp_required_features m) = set (sp_required_features self) \<union> set (sp_required_features incoming) \<and>
     distinct (sp_required_features m) \<and> \<not> sp_reset_to_original m \<and>
     sp_hard_constraint m = (sp_hard_constraint self \<or> sp_hard_constraint incoming) \<and>
     sp_budget_max m = (if sp_budget_max incoming = None then sp_budget_max self else sp_budget_max incoming))"
  unfolding m_def merge_priorities_def Let_def
  by (auto simp: named_single or_else_def)

definition example_priorities :: "string \<Rightarrow> string list \<Rightarrow> int session_priorities" where
  "example_priorities first ps =
     \<lparr>sp_top_priority = Some first, sp_priorities = ps, sp_required_features = [''anc''],
      sp_preferred_features = [], sp_deprioritized = [], sp_use_case = None, sp_budget_max = None,
      sp_budget_label = None, sp_reset_to_original = False, sp_hard_constraint = True\<rparr>"

theorem merge_refines_witness:
  "hd (sp_priorities (merge_priorities (example_priorities ''price'' [''price'', ''battery''])
     (example_priorities ''battery'' []))) = ''battery''"
  using merge_refines [of "example_priorities ''battery'' []" "example_priorities ''price'' [''price'', ''battery'']"]
  by (simp add: example_priorities_def)

end
