(* ===== verification/Conversation.thy ===== *)
theory Conversation
  imports SessionRefinement OperationalStore "HOL-Library.Product_Lexorder"
begin

text \<open>
  app/domain/entities/shopping_assistant.py (decision references, turns, conversation contexts),
  app/domain/conversation_continuity.py and the two conversation repositories:
  app/intelligence/shopping_assistant/memory.py and
  app/infrastructure/database/repositories/shopping_conversation_repository.py.

  The clock is read several times in one operation; every reading in it is the same \<open>now\<close>.
  An operation of the process-local repository runs under its lock.  The database operations that use
  two transactions (a look-up, then a write) take \<open>others\<close>, what other sessions do to the table
  in between.  \<open>replace\<close> reruns the constructor check; only \<open>create\<close> and a
  compare-and-swap to a negative version can fail it, since the other updates keep a valid context valid.
\<close>

section \<open>Values\<close>

record decision_reference =
  dc_decision_id :: string
  dc_context_version :: int
  dc_evaluated_product_ids :: "string list"
  dc_piqscore_sha256 :: string
  dc_recommendation_sha256 :: string
  dc_evidence_ids :: "string list"

definition check_decision_reference :: "decision_reference \<Rightarrow> auth_error + decision_reference" where
  "check_decision_reference d =
     (if dc_decision_id d = [] then Inl AuthValueError
      else if dc_context_version d < 1 then Inl AuthValueError
      else if dc_evaluated_product_ids d = [] then Inl AuthValueError
      else if \<not> distinct (dc_evaluated_product_ids d) then Inl AuthValueError
      else if [] \<in> set (dc_evaluated_product_ids d) then Inl AuthValueError
      else if \<not> distinct (dc_evidence_ids d) then Inl AuthValueError
      else if \<not> hex64 (dc_piqscore_sha256 d) then Inl AuthValueError
      else if \<not> hex64 (dc_recommendation_sha256 d) then Inl AuthValueError
      else Inr d)"

record conversation_turn =
  tn_role :: string
  tn_intent :: "string option"
  tn_product_ids :: "string list"
  tn_product_names :: "string list"
  tn_query :: string
  tn_created_at :: datetime
  tn_turn_id :: "string option"
  tn_decision_id :: "string option"
  tn_context_version :: "int option"
  tn_action :: "string option"

record 'f conversation_context = conversation +
  cx_turns :: "conversation_turn list"
  cx_expires_at :: datetime
  cx_last_intent :: "string option"
  cx_last_product_ids :: "string list"
  cx_last_product_names :: "string list"
  cx_last_category :: "string option"
  cx_decision_context :: "decision_reference option"
  cx_session_refinement :: "'f session_refinement option"
  cx_research_proposal :: "research_proposal option"
  cx_version :: int

datatype conv_error =
    ConversationVersionConflict string int
  | ConversationOwnership string
  | ConversationDrift string
  | ConversationKeyError string
  | ConversationSchemaError string
  | ConversationTypeError
  | ConversationValueError
  | ConversationAuthError auth_error

definition check_context :: "'f conversation_context \<Rightarrow> conv_error + 'f conversation_context" where
  "check_context c =
     (if cx_decision_context c \<noteq> None \<and> cv_owner c = None then Inl ConversationValueError
      else if cx_version c < 0 then Inl ConversationValueError
      else Inr c)"

definition shopping_intents :: "string list" where
  "shopping_intents =
     [''recommendation'', ''comparison'', ''worth_buying'', ''best_offer'', ''complaints'',
      ''buy_now_or_wait'', ''use_case'', ''seller_trust'', ''general'']"

text \<open>\<open>turns[-n:]\<close> for a positive n.\<close>

definition last_turns :: "nat \<Rightarrow> 'a list \<Rightarrow> 'a list" where
  "last_turns n xs = drop (length xs - n) xs"

section \<open>Continuity\<close>

definition turn_fits :: "decision_reference \<Rightarrow> conversation_turn \<Rightarrow> bool" where
  "turn_fits r t =
     ((case tn_decision_id t of None \<Rightarrow> True | Some d \<Rightarrow> d = dc_decision_id r) \<and>
      (case tn_context_version t of None \<Rightarrow> True | Some v \<Rightarrow> 1 \<le> v \<and> v \<le> dc_context_version r) \<and>
      set (tn_product_ids t) \<subseteq> set (dc_evaluated_product_ids r))"

definition require_context_membership :: "'f conversation_context \<Rightarrow> conv_error + unit" where
  "require_context_membership c =
     (case cx_decision_context c of
        None \<Rightarrow> Inr ()
      | Some r \<Rightarrow>
          if \<not> set (cx_last_product_ids c) \<subseteq> set (dc_evaluated_product_ids r)
          then Inl (ConversationDrift (cv_id c))
          else if list_ex (\<lambda>t. \<not> turn_fits r t) (cx_turns c) then Inl (ConversationDrift (cv_id c))
          else Inr ())"

definition require_stable_decision_context ::
  "'f conversation_context option \<Rightarrow> 'f conversation_context \<Rightarrow> conv_error + unit" where
  "require_stable_decision_context existing updated =
     (if (case existing of None \<Rightarrow> False
          | Some e \<Rightarrow> cx_decision_context e \<noteq> None \<and> cx_decision_context updated \<noteq> cx_decision_context e)
      then Inl (ConversationDrift (cv_id updated))
      else require_context_membership updated)"

definition require_verified_research_context_advance ::
  "'f conversation_context \<Rightarrow> 'f conversation_context \<Rightarrow> conv_error + unit" where
  "require_verified_research_context_advance existing updated =
     (let drift = Inl (ConversationDrift (cv_id updated)) in
      case (cx_decision_context existing, cx_decision_context updated) of
        (Some previous, Some nxt) \<Rightarrow>
          (case (cv_owner existing, cv_owner updated) of
             (Some w, Some w') \<Rightarrow>
               if \<not> has_same_identity w w' then drift
               else if dc_decision_id previous \<noteq> dc_decision_id nxt then drift
               else if dc_context_version nxt \<noteq> dc_context_version previous + 1 then drift
               else if dc_evaluated_product_ids previous \<noteq> dc_evaluated_product_ids nxt then drift
               else if dc_piqscore_sha256 previous \<noteq> dc_piqscore_sha256 nxt then drift
               else if dc_recommendation_sha256 previous \<noteq> dc_recommendation_sha256 nxt then drift
               else require_context_membership updated
           | _ \<Rightarrow> drift)
      | _ \<Rightarrow> drift)"

section \<open>Expiry and ownership\<close>

text \<open>\<open>a <= b\<close>; \<open>Inl\<close> is the TypeError of a naive and an aware reading.\<close>

definition dt_at_most :: "datetime \<Rightarrow> datetime \<Rightarrow> conv_error + bool" where
  "dt_at_most a b = (case dt_less b a of None \<Rightarrow> Inl ConversationTypeError | Some x \<Rightarrow> Inr (\<not> x))"

definition is_expired :: "datetime \<Rightarrow> 'f conversation_context \<Rightarrow> conv_error + bool" where
  "is_expired now c =
     and_then (dt_at_most (cx_expires_at c) now) (\<lambda>late.
       if late then Inr True
       else (case cv_owner c of None \<Rightarrow> Inr False | Some w \<Rightarrow> dt_at_most (owner_expires_at w) now))"

definition require_active_owner ::
  "datetime \<Rightarrow> string \<Rightarrow> conversation_owner option \<Rightarrow> conv_error + unit" where
  "require_active_owner now conversation_id o' =
     (case o' of
        None \<Rightarrow> Inr ()
      | Some w \<Rightarrow>
          and_then (dt_at_most (owner_expires_at w) now) (\<lambda>late.
            if late then Inl (ConversationOwnership conversation_id) else Inr ()))"

text \<open>The settings of a repository: the time to live in seconds and the number of turns kept.\<close>

record conv_settings =
  ttl_seconds :: int
  max_turns :: nat

definition check_settings :: "conv_settings \<Rightarrow> conv_error + conv_settings" where
  "check_settings cfg =
     (if ttl_seconds cfg < 1 then Inl ConversationValueError
      else if max_turns cfg < 1 then Inl ConversationValueError
      else Inr cfg)"

definition default_conv_settings :: conv_settings where
  "default_conv_settings = \<lparr>ttl_seconds = 30 * 60, max_turns = 12\<rparr>"

definition fresh_context ::
  "conv_settings \<Rightarrow> datetime \<Rightarrow> string \<Rightarrow> conversation_owner option \<Rightarrow> decision_reference option
     \<Rightarrow> 'f conversation_context" where
  "fresh_context cfg now conversation_id o' decision =
     \<lparr>cv_id = conversation_id, cv_owner = o', cv_authorizations = [], cx_turns = [],
      cx_expires_at = plus_seconds now (ttl_seconds cfg), cx_last_intent = None, cx_last_product_ids = [],
      cx_last_product_names = [], cx_last_category = None, cx_decision_context = decision,
      cx_session_refinement = None, cx_research_proposal = None, cx_version = 0\<rparr>"

text \<open>The updates both repositories make the same way.\<close>

definition bound_context ::
  "conv_settings \<Rightarrow> datetime \<Rightarrow> 'f conversation_context \<Rightarrow> conversation_owner \<Rightarrow> decision_reference
     \<Rightarrow> 'f conversation_context" where
  "bound_context cfg now existing o' d =
     existing\<lparr>cv_owner := Some o', cx_decision_context := Some d,
       cx_last_product_ids := dc_evaluated_product_ids d,
       cx_expires_at := plus_seconds now (ttl_seconds cfg)\<rparr>"

record turn_update =
  tu_turn :: conversation_turn
  tu_last_intent :: "string option"
  tu_last_product_ids :: "string list"
  tu_last_product_names :: "string list"
  tu_last_category :: "string option"

definition turned_context ::
  "conv_settings \<Rightarrow> datetime \<Rightarrow> 'f conversation_context \<Rightarrow> turn_update \<Rightarrow> 'f conversation_context" where
  "turned_context cfg now existing u =
     existing\<lparr>cx_turns := last_turns (max_turns cfg) (cx_turns existing @ [tu_turn u]),
       cx_expires_at := plus_seconds now (ttl_seconds cfg),
       cx_last_intent := (case tu_last_intent u of
          Some i \<Rightarrow> if i \<in> set shopping_intents then Some i else cx_last_intent existing
        | None \<Rightarrow> cx_last_intent existing),
       cx_last_product_ids := (if tu_last_product_ids u \<noteq> [] then tu_last_product_ids u
          else cx_last_product_ids existing),
       cx_last_product_names := (if tu_last_product_names u \<noteq> [] then tu_last_product_names u
          else cx_last_product_names existing),
       cx_last_category := or_else (tu_last_category u) (cx_last_category existing)\<rparr>"

definition stored_context :: "conv_settings \<Rightarrow> 'f conversation_context \<Rightarrow> int \<Rightarrow> 'f conversation_context" where
  "stored_context cfg c version =
     c\<lparr>cx_turns := last_turns (max_turns cfg) (cx_turns c), cx_version := version\<rparr>"

text \<open>Refinement version, then row version; the last of the matches in that order is returned.\<close>

definition bound_rank :: "'f conversation_context \<Rightarrow> int \<times> int" where
  "bound_rank c =
     (case cx_session_refinement c of None \<Rightarrow> 0 | Some r \<Rightarrow> sr_refinement_version r, cx_version c)"

definition best_bound :: "'f conversation_context list \<Rightarrow> 'f conversation_context option" where
  "best_bound matches = (if matches = [] then None else Some (last (sort_key bound_rank matches)))"

section \<open>InMemoryConversationRepository\<close>

type_synonym 'f conv_rows = "(string, 'f conversation_context) dict"

type_synonym 'f conv_answer = "conv_error + 'f conversation_context"

definition mem_conv_get ::
  "datetime \<Rightarrow> 'f conv_rows \<Rightarrow> string \<Rightarrow> 'f conv_rows \<times> (conv_error + 'f conversation_context option)" where
  "mem_conv_get now rows conversation_id =
     (case dict_get rows conversation_id of
        None \<Rightarrow> (rows, Inr None)
      | Some c \<Rightarrow>
          (case is_expired now c of
             Inl e \<Rightarrow> (rows, Inl e)
           | Inr True \<Rightarrow> (dict_del conversation_id rows, Inr None)
           | Inr False \<Rightarrow> (rows, Inr (Some c))))"

definition owned_by :: "conversation_owner \<Rightarrow> 'f conversation_context option \<Rightarrow> 'f conversation_context option" where
  "owned_by o' found =
     (case found of
        None \<Rightarrow> None
      | Some c \<Rightarrow>
          (case cv_owner c of
             None \<Rightarrow> None
           | Some w \<Rightarrow> if has_same_identity w o' then Some c else None))"

definition mem_conv_get_for_owner ::
  "datetime \<Rightarrow> 'f conv_rows \<Rightarrow> string \<Rightarrow> conversation_owner
     \<Rightarrow> 'f conv_rows \<times> (conv_error + 'f conversation_context option)" where
  "mem_conv_get_for_owner now rows conversation_id o' =
     apsnd (map_sum (\<lambda>e. e) (owned_by o')) (mem_conv_get now rows conversation_id)"

text \<open>Whether an update keeps the owner a conversation already has.\<close>

definition changes_owner :: "'f conversation_context \<Rightarrow> 'f conversation_context \<Rightarrow> bool" where
  "changes_owner existing updated =
     (case cv_owner existing of
        None \<Rightarrow> False
      | Some w \<Rightarrow>
          (case cv_owner updated of None \<Rightarrow> True | Some w' \<Rightarrow> \<not> has_same_identity w w'))"

definition expected_or :: "int option \<Rightarrow> int \<Rightarrow> int" where
  "expected_or expected current = (case expected of None \<Rightarrow> current | Some v \<Rightarrow> v)"

definition mem_conv_save ::
  "conv_settings \<Rightarrow> datetime \<Rightarrow> 'f conv_rows \<Rightarrow> 'f conversation_context \<Rightarrow> int option
     \<Rightarrow> 'f conv_rows \<times> 'f conv_answer" where
  "mem_conv_save cfg now rows context expected_version =
     (case require_active_owner now (cv_id context) (cv_owner context) of
        Inl e \<Rightarrow> (rows, Inl e)
      | Inr _ \<Rightarrow>
        (case mem_conv_get now rows (cv_id context) of
           (rows', Inl e) \<Rightarrow> (rows', Inl e)
         | (rows', Inr existing) \<Rightarrow>
           (case require_stable_decision_context existing context of
              Inl e \<Rightarrow> (rows', Inl e)
            | Inr _ \<Rightarrow>
              (let expected = expected_or expected_version (cx_version context);
                   conflict = (rows', Inl (ConversationVersionConflict (cv_id context) expected))
               in case existing of
                    None \<Rightarrow>
                      if expected \<noteq> 0 then conflict
                      else (let stored = stored_context cfg context 1
                            in (dict_set (cv_id context) stored rows', Inr stored))
                  | Some e \<Rightarrow>
                      if expected \<noteq> cx_version e then conflict
                      else if changes_owner e context
                      then (rows', Inl (ConversationOwnership (cv_id context)))
                      else (let stored = stored_context cfg context (cx_version e + 1)
                            in (dict_set (cv_id context) stored rows', Inr stored))))))"

definition mem_conv_create ::
  "conv_settings \<Rightarrow> datetime \<Rightarrow> string \<Rightarrow> 'f conv_rows \<Rightarrow> conversation_owner option \<Rightarrow> decision_reference option
     \<Rightarrow> 'f conv_rows \<times> 'f conv_answer" where
  "mem_conv_create cfg now new_id rows o' decision =
     (case check_context (fresh_context cfg now new_id o' decision) of
        Inl e \<Rightarrow> (rows, Inl e)
      | Inr c \<Rightarrow> mem_conv_save cfg now rows c None)"

definition mem_conv_bind ::
  "conv_settings \<Rightarrow> datetime \<Rightarrow> 'f conv_rows \<Rightarrow> string \<Rightarrow> conversation_owner \<Rightarrow> decision_reference \<Rightarrow> int option
     \<Rightarrow> 'f conv_rows \<times> 'f conv_answer" where
  "mem_conv_bind cfg now rows conversation_id o' d expected_version =
     (case require_active_owner now conversation_id (Some o') of
        Inl e \<Rightarrow> (rows, Inl e)
      | Inr _ \<Rightarrow>
        (case mem_conv_get now rows conversation_id of
           (rows', Inl e) \<Rightarrow> (rows', Inl e)
         | (rows', Inr None) \<Rightarrow> (rows', Inl (ConversationKeyError conversation_id))
         | (rows', Inr (Some existing)) \<Rightarrow>
             if (case cv_owner existing of None \<Rightarrow> False | Some w \<Rightarrow> \<not> has_same_identity w o')
             then (rows', Inl (ConversationOwnership conversation_id))
             else if (case cx_decision_context existing of None \<Rightarrow> False | Some d' \<Rightarrow> d' \<noteq> d)
             then (rows', Inl (ConversationDrift conversation_id))
             else mem_conv_save cfg now rows' (bound_context cfg now existing o' d)
               (Some (expected_or expected_version (cx_version existing)))))"

definition mem_conv_advance ::
  "conv_settings \<Rightarrow> datetime \<Rightarrow> 'f conv_rows \<Rightarrow> string \<Rightarrow> conversation_owner \<Rightarrow> decision_reference \<Rightarrow> int option
     \<Rightarrow> 'f conv_rows \<times> 'f conv_answer" where
  "mem_conv_advance cfg now rows conversation_id o' d expected_version =
     (case require_active_owner now conversation_id (Some o') of
        Inl e \<Rightarrow> (rows, Inl e)
      | Inr _ \<Rightarrow>
        (case mem_conv_get now rows conversation_id of
           (rows', Inl e) \<Rightarrow> (rows', Inl e)
         | (rows', Inr None) \<Rightarrow> (rows', Inl (ConversationKeyError conversation_id))
         | (rows', Inr (Some existing)) \<Rightarrow>
             if (case cv_owner existing of None \<Rightarrow> True | Some w \<Rightarrow> \<not> has_same_identity w o')
             then (rows', Inl (ConversationOwnership conversation_id))
             else if cx_decision_context existing = Some d then (rows', Inr existing)
             else
               (let updated = bound_context cfg now existing o' d;
                    expected = expected_or expected_version (cx_version existing)
                in case require_verified_research_context_advance existing updated of
                     Inl e \<Rightarrow> (rows', Inl e)
                   | Inr _ \<Rightarrow>
                       if expected \<noteq> cx_version existing
                       then (rows', Inl (ConversationVersionConflict conversation_id expected))
                       else
                         (let stored = stored_context cfg updated (cx_version existing + 1)
                          in case require_context_membership stored of
                               Inl e \<Rightarrow> (rows', Inl e)
                             | Inr _ \<Rightarrow> (dict_set conversation_id stored rows', Inr stored)))))"

definition mem_conv_rebind ::
  "conv_settings \<Rightarrow> datetime \<Rightarrow> 'f conv_rows \<Rightarrow> string \<Rightarrow> conversation_owner \<Rightarrow> conversation_owner \<Rightarrow> int option
     \<Rightarrow> 'f conv_rows \<times> 'f conv_answer" where
  "mem_conv_rebind cfg now rows conversation_id current_owner new_owner expected_version =
     (case require_active_owner now conversation_id (Some new_owner) of
        Inl e \<Rightarrow> (rows, Inl e)
      | Inr _ \<Rightarrow>
        (case mem_conv_get now rows conversation_id of
           (rows', Inl e) \<Rightarrow> (rows', Inl e)
         | (rows', Inr None) \<Rightarrow> (rows', Inl (ConversationKeyError conversation_id))
         | (rows', Inr (Some existing)) \<Rightarrow>
             if (case cv_owner existing of None \<Rightarrow> True | Some w \<Rightarrow> \<not> has_same_identity w current_owner)
             then (rows', Inl (ConversationOwnership conversation_id))
             else
               (let expected = expected_or expected_version (cx_version existing)
                in if expected \<noteq> cx_version existing
                   then (rows', Inl (ConversationVersionConflict conversation_id expected))
                   else
                     (let rebound = existing\<lparr>cv_owner := Some new_owner,
                            cx_expires_at := plus_seconds now (ttl_seconds cfg),
                            cx_version := cx_version existing + 1\<rparr>
                      in (dict_set conversation_id rebound rows', Inr rebound)))))"

definition mem_conv_append ::
  "conv_settings \<Rightarrow> datetime \<Rightarrow> string \<Rightarrow> 'f conv_rows \<Rightarrow> string \<Rightarrow> turn_update \<Rightarrow> int option
     \<Rightarrow> 'f conv_rows \<times> 'f conv_answer" where
  "mem_conv_append cfg now new_id rows conversation_id u expected_version =
     (case mem_conv_get now rows conversation_id of
        (rows', Inl e) \<Rightarrow> (rows', Inl e)
      | (rows', Inr found) \<Rightarrow>
          if found = None \<and> expected_version \<noteq> None
          then (rows', Inl (ConversationVersionConflict conversation_id (the expected_version)))
          else
            (let existing = (case found of
                   Some c \<Rightarrow> c
                 | None \<Rightarrow> fresh_context cfg now
                     (if conversation_id \<noteq> [] then conversation_id else new_id) None None);
                 updated = turned_context cfg now existing u
             in case require_context_membership updated of
                  Inl e \<Rightarrow> (rows', Inl e)
                | Inr _ \<Rightarrow> mem_conv_save cfg now rows' updated
                    (Some (expected_or expected_version (cx_version existing)))))"

text \<open>A comprehension that raises leaves the store as it was.\<close>

definition mem_conv_cleanup :: "datetime \<Rightarrow> 'f conv_rows \<Rightarrow> int \<Rightarrow> 'f conv_rows \<times> (conv_error + nat)" where
  "mem_conv_cleanup now rows limit =
     (if limit \<le> 0 then (rows, Inr 0)
      else
        (case filter_raising (\<lambda>(k, c). is_expired now c) rows of
           Inl e \<Rightarrow> (rows, Inl e)
         | Inr late \<Rightarrow>
             (let expired = take (nat limit) (map fst late)
              in (dict_del_all expired rows, Inr (length expired)))))"

definition lift_auth :: "auth_error + 'a \<Rightarrow> conv_error + 'a" where
  "lift_auth r = map_sum ConversationAuthError (\<lambda>x. x) r"

definition mem_conv_consume ::
  "conv_settings \<Rightarrow> datetime \<Rightarrow> 'f conv_rows \<Rightarrow> string \<Rightarrow> conversation_owner \<Rightarrow> consume_request \<Rightarrow> datetime \<Rightarrow> int
     \<Rightarrow> 'f conv_rows \<times> 'f conv_answer" where
  "mem_conv_consume cfg now rows conversation_id o' q at expected_version =
     (case mem_conv_get now rows conversation_id of
        (rows', Inl e) \<Rightarrow> (rows', Inl e)
      | (rows', Inr None) \<Rightarrow> (rows', Inl (ConversationAuthError
          (AuthorizationConsumptionConflict conversation_id ''conversation_missing'')))
      | (rows', Inr (Some context)) \<Rightarrow>
          (case lift_auth (consume_exact_research_authorization context o' q at) of
             Inl e \<Rightarrow> (rows', Inl e)
           | Inr updated \<Rightarrow> mem_conv_save cfg now rows' updated (Some expected_version)))"

definition mem_conv_restore_row ::
  "'f conv_rows \<Rightarrow> string \<Rightarrow> 'f conversation_context option \<Rightarrow> 'f conv_rows" where
  "mem_conv_restore_row rows conversation_id context =
     (case context of
        None \<Rightarrow> dict_del conversation_id rows
      | Some c \<Rightarrow> dict_set conversation_id c rows)"

definition bound_match ::
  "datetime \<Rightarrow> conversation_owner \<Rightarrow> string \<Rightarrow> 'f conversation_context \<Rightarrow> conv_error + bool" where
  "bound_match now o' decision_id c =
     and_then (is_expired now c) (\<lambda>late.
       Inr (\<not> late \<and> owned_by o' (Some c) \<noteq> None \<and>
         (case cx_decision_context c of None \<Rightarrow> False | Some d \<Rightarrow> dc_decision_id d = decision_id)))"

definition mem_conv_find_bound ::
  "datetime \<Rightarrow> 'f conv_rows \<Rightarrow> conversation_owner \<Rightarrow> string
     \<Rightarrow> conv_error + 'f conversation_context option" where
  "mem_conv_find_bound now rows o' decision_id =
     and_then (filter_raising (bound_match now o' decision_id) (map snd rows)) (\<lambda>matches.
       Inr (best_bound matches))"

section \<open>SqlAlchemyConversationRepository\<close>

type_synonym 'f conv_table = "'f conversation_context op_table"

definition owner_key :: "conversation_owner option \<Rightarrow> string option" where
  "owner_key o' =
     (case o' of
        None \<Rightarrow> None
      | Some w \<Rightarrow>
          Some (principal_value (owner_principal_type w) @ '':'' @
            sha256_hex (utf8 (join_with [CHR 0x00]
              [principal_value (owner_principal_type w), owner_principal_id w, owner_session_id w]))))"

definition require_version_integrity :: "'f conversation_context \<Rightarrow> int \<Rightarrow> conv_error + unit" where
  "require_version_integrity c row_version =
     (if cx_version c \<noteq> row_version then Inl (ConversationSchemaError (cv_id c)) else Inr ())"

text \<open>The versioned row, with the integrity check the callers make on it.\<close>

definition op_conv_load :: "'f conv_table \<Rightarrow> string \<Rightarrow> conv_error + 'f conversation_context option" where
  "op_conv_load t conversation_id =
     (case get_versioned t conversation_id of
        None \<Rightarrow> Inr None
      | Some (c, row_version, _) \<Rightarrow>
          and_then (require_version_integrity c row_version) (\<lambda>_. Inr (Some c)))"

definition op_conv_get ::
  "datetime \<Rightarrow> 'f conv_table \<Rightarrow> string \<Rightarrow> 'f conv_table \<times> (conv_error + 'f conversation_context option)" where
  "op_conv_get now t conversation_id =
     (case op_conv_load t conversation_id of
        Inl e \<Rightarrow> (t, Inl e)
      | Inr None \<Rightarrow> (t, Inr None)
      | Inr (Some c) \<Rightarrow>
          (case is_expired now c of
             Inl e \<Rightarrow> (t, Inl e)
           | Inr True \<Rightarrow> (fst (delete_versioned t conversation_id (cx_version c)), Inr None)
           | Inr False \<Rightarrow> (t, Inr (Some c))))"

definition op_conv_get_for_owner ::
  "datetime \<Rightarrow> 'f conv_table \<Rightarrow> string \<Rightarrow> conversation_owner
     \<Rightarrow> 'f conv_table \<times> (conv_error + 'f conversation_context option)" where
  "op_conv_get_for_owner now t conversation_id o' =
     apsnd (map_sum (\<lambda>e. e) (owned_by o')) (op_conv_get now t conversation_id)"

definition op_conv_swap ::
  "conv_settings \<Rightarrow> 'f conv_table \<Rightarrow> 'f conversation_context \<Rightarrow> int \<Rightarrow> 'f conv_table \<times> 'f conv_answer" where
  "op_conv_swap cfg t context expected =
     (case check_context (stored_context cfg context (expected + 1)) of
        Inl e \<Rightarrow> (t, Inl e)
      | Inr stored \<Rightarrow>
          (case compare_and_swap t (cv_id context) stored expected (expected + 1)
                  (owner_key (cv_owner stored)) of
             (t', updated) \<Rightarrow>
               if updated then (t', Inr stored)
               else (t', Inl (ConversationVersionConflict (cv_id context) expected))))"

definition op_conv_save ::
  "conv_settings \<Rightarrow> datetime \<Rightarrow> 'f conv_table \<Rightarrow> 'f conversation_context \<Rightarrow> int option
     \<Rightarrow> 'f conv_table \<times> 'f conv_answer" where
  "op_conv_save cfg now t context expected_version =
     (case require_active_owner now (cv_id context) (cv_owner context) of
        Inl e \<Rightarrow> (t, Inl e)
      | Inr _ \<Rightarrow>
        (let bounded = stored_context cfg context (cx_version context);
             expected = expected_or expected_version (cx_version context)
         in case require_context_membership bounded of
              Inl e \<Rightarrow> (t, Inl e)
            | Inr _ \<Rightarrow>
              (case op_conv_load t (cv_id context) of
                 Inl e \<Rightarrow> (t, Inl e)
               | Inr None \<Rightarrow>
                   if expected \<noteq> 0
                   then (t, Inl (ConversationVersionConflict (cv_id context) expected))
                   else
                     (let stored = bounded\<lparr>cx_version := 1\<rparr>
                      in case insert_versioned t (cv_id context) stored 1 (owner_key (cv_owner stored)) of
                           None \<Rightarrow> (t, Inl (ConversationVersionConflict (cv_id context) expected))
                         | Some t' \<Rightarrow> (t', Inr stored))
               | Inr (Some existing) \<Rightarrow>
                   if changes_owner existing bounded
                   then (t, Inl (ConversationOwnership (cv_id existing)))
                   else
                     (case require_stable_decision_context (Some existing) bounded of
                        Inl e \<Rightarrow> (t, Inl e)
                      | Inr _ \<Rightarrow> op_conv_swap cfg t bounded expected))))"

definition op_conv_create ::
  "conv_settings \<Rightarrow> datetime \<Rightarrow> string \<Rightarrow> 'f conv_table \<Rightarrow> conversation_owner option \<Rightarrow> decision_reference option
     \<Rightarrow> 'f conv_table \<times> 'f conv_answer" where
  "op_conv_create cfg now new_id t o' decision =
     (case check_context (fresh_context cfg now new_id o' decision) of
        Inl e \<Rightarrow> (t, Inl e)
      | Inr c \<Rightarrow> op_conv_save cfg now t c None)"

definition op_conv_bind ::
  "conv_settings \<Rightarrow> datetime \<Rightarrow> ('f conv_table \<Rightarrow> 'f conv_table) \<Rightarrow> 'f conv_table \<Rightarrow> string \<Rightarrow> conversation_owner
     \<Rightarrow> decision_reference \<Rightarrow> int option \<Rightarrow> 'f conv_table \<times> 'f conv_answer" where
  "op_conv_bind cfg now others t conversation_id o' d expected_version =
     (case require_active_owner now conversation_id (Some o') of
        Inl e \<Rightarrow> (t, Inl e)
      | Inr _ \<Rightarrow>
        (case op_conv_get now t conversation_id of
           (t', Inl e) \<Rightarrow> (t', Inl e)
         | (t', Inr None) \<Rightarrow> (t', Inl (ConversationKeyError conversation_id))
         | (t', Inr (Some existing)) \<Rightarrow>
             if (case cv_owner existing of None \<Rightarrow> False | Some w \<Rightarrow> \<not> has_same_identity w o')
             then (t', Inl (ConversationOwnership conversation_id))
             else if (case cx_decision_context existing of None \<Rightarrow> False | Some d' \<Rightarrow> d' \<noteq> d)
             then (t', Inl (ConversationDrift conversation_id))
             else
               (let updated = bound_context cfg now existing o' d
                in case require_context_membership updated of
                     Inl e \<Rightarrow> (t', Inl e)
                   | Inr _ \<Rightarrow> op_conv_swap cfg (others t') updated
                       (expected_or expected_version (cx_version existing)))))"

definition op_conv_advance ::
  "conv_settings \<Rightarrow> datetime \<Rightarrow> ('f conv_table \<Rightarrow> 'f conv_table) \<Rightarrow> 'f conv_table \<Rightarrow> string \<Rightarrow> conversation_owner
     \<Rightarrow> decision_reference \<Rightarrow> int option \<Rightarrow> 'f conv_table \<times> 'f conv_answer" where
  "op_conv_advance cfg now others t conversation_id o' d expected_version =
     (case require_active_owner now conversation_id (Some o') of
        Inl e \<Rightarrow> (t, Inl e)
      | Inr _ \<Rightarrow>
        (case op_conv_get now t conversation_id of
           (t', Inl e) \<Rightarrow> (t', Inl e)
         | (t', Inr None) \<Rightarrow> (t', Inl (ConversationKeyError conversation_id))
         | (t', Inr (Some existing)) \<Rightarrow>
             if (case cv_owner existing of None \<Rightarrow> True | Some w \<Rightarrow> \<not> has_same_identity w o')
             then (t', Inl (ConversationOwnership conversation_id))
             else if cx_decision_context existing = Some d then (t', Inr existing)
             else
               (let updated = bound_context cfg now existing o' d;
                    expected = expected_or expected_version (cx_version existing)
                in case require_verified_research_context_advance existing updated of
                     Inl e \<Rightarrow> (t', Inl e)
                   | Inr _ \<Rightarrow>
                     (case op_conv_load (others t') conversation_id of
                        Inl e \<Rightarrow> (others t', Inl e)
                      | Inr None \<Rightarrow> (others t', Inl (ConversationKeyError conversation_id))
                      | Inr (Some current) \<Rightarrow>
                          if cx_version current \<noteq> expected
                          then (others t', Inl (ConversationVersionConflict conversation_id expected))
                          else
                            (case require_verified_research_context_advance current updated of
                               Inl e \<Rightarrow> (others t', Inl e)
                             | Inr _ \<Rightarrow> op_conv_swap cfg (others t') updated expected)))))"

definition op_conv_rebind ::
  "conv_settings \<Rightarrow> datetime \<Rightarrow> ('f conv_table \<Rightarrow> 'f conv_table) \<Rightarrow> 'f conv_table \<Rightarrow> string \<Rightarrow> conversation_owner
     \<Rightarrow> conversation_owner \<Rightarrow> int option \<Rightarrow> 'f conv_table \<times> 'f conv_answer" where
  "op_conv_rebind cfg now others t conversation_id current_owner new_owner expected_version =
     (case require_active_owner now conversation_id (Some new_owner) of
        Inl e \<Rightarrow> (t, Inl e)
      | Inr _ \<Rightarrow>
        (case op_conv_get now t conversation_id of
           (t', Inl e) \<Rightarrow> (t', Inl e)
         | (t', Inr None) \<Rightarrow> (t', Inl (ConversationKeyError conversation_id))
         | (t', Inr (Some existing)) \<Rightarrow>
             if (case cv_owner existing of None \<Rightarrow> True | Some w \<Rightarrow> \<not> has_same_identity w current_owner)
             then (t', Inl (ConversationOwnership conversation_id))
             else op_conv_swap cfg (others t')
               (existing\<lparr>cv_owner := Some new_owner, cx_expires_at := plus_seconds now (ttl_seconds cfg)\<rparr>)
               (expected_or expected_version (cx_version existing))))"

definition op_conv_append ::
  "conv_settings \<Rightarrow> datetime \<Rightarrow> ('f conv_table \<Rightarrow> 'f conv_table) \<Rightarrow> string \<Rightarrow> 'f conv_table \<Rightarrow> string \<Rightarrow> turn_update
     \<Rightarrow> int option \<Rightarrow> 'f conv_table \<times> 'f conv_answer" where
  "op_conv_append cfg now others new_id t conversation_id u expected_version =
     (case op_conv_get now t conversation_id of
        (t', Inl e) \<Rightarrow> (t', Inl e)
      | (t', Inr found) \<Rightarrow>
          if found = None \<and> expected_version \<noteq> None
          then (t', Inl (ConversationVersionConflict conversation_id (the expected_version)))
          else
            (let existing = (case found of
                   Some c \<Rightarrow> c
                 | None \<Rightarrow> fresh_context cfg now
                     (if conversation_id \<noteq> [] then conversation_id else new_id) None None);
                 updated = turned_context cfg now existing u
             in case require_context_membership updated of
                  Inl e \<Rightarrow> (t', Inl e)
                | Inr _ \<Rightarrow> op_conv_save cfg now (others t') updated
                    (Some (expected_or expected_version (cx_version existing)))))"

definition op_conv_consume ::
  "conv_settings \<Rightarrow> datetime \<Rightarrow> ('f conv_table \<Rightarrow> 'f conv_table) \<Rightarrow> 'f conv_table \<Rightarrow> string \<Rightarrow> conversation_owner
     \<Rightarrow> consume_request \<Rightarrow> datetime \<Rightarrow> int \<Rightarrow> 'f conv_table \<times> 'f conv_answer" where
  "op_conv_consume cfg now others t conversation_id o' q at expected_version =
     (case op_conv_get now t conversation_id of
        (t', Inl e) \<Rightarrow> (t', Inl e)
      | (t', Inr None) \<Rightarrow> (t', Inl (ConversationAuthError
          (AuthorizationConsumptionConflict conversation_id ''conversation_missing'')))
      | (t', Inr (Some context)) \<Rightarrow>
          (case lift_auth (consume_exact_research_authorization context o' q at) of
             Inl e \<Rightarrow> (t', Inl e)
           | Inr updated \<Rightarrow> op_conv_save cfg now (others t') updated (Some expected_version)))"

definition op_conv_find_bound ::
  "datetime \<Rightarrow> 'f conv_table \<Rightarrow> conversation_owner \<Rightarrow> string
     \<Rightarrow> conv_error + 'f conversation_context option" where
  "op_conv_find_bound now t o' decision_id =
     and_then (op_list t (owner_key (Some o')) None (bound_match now o' decision_id)) (\<lambda>matches.
       Inr (best_bound matches))"

text \<open>The deletions of a clean-up; each counts when the row still has the version that was read.\<close>

definition op_conv_cleanup :: "datetime \<Rightarrow> 'f conv_table \<Rightarrow> int \<Rightarrow> 'f conv_table \<times> (conv_error + nat)" where
  "op_conv_cleanup now t limit =
     (if limit \<le> 0 then (t, Inr 0)
      else
        (case op_list t None (Some (nat limit)) (is_expired now) of
           Inl e \<Rightarrow> (t, Inl e)
         | Inr expired \<Rightarrow>
             (case foldl (\<lambda>(tt, n) c.
                  let (t', gone) = delete_versioned tt (cv_id c) (cx_version c)
                  in (t', if gone then n + 1 else n)) (t, 0) expired of
                (t', removed) \<Rightarrow> (t', Inr removed))))"

end
