(* ===== verification/ConversationFacts.thy ===== *)
theory ConversationFacts
  imports Conversation
begin

text \<open>
  What the two conversation repositories promise.  \<open>conversation_repository\<close> is their contract: every
  operation leaves every row as it was, drops it when it has expired, or stores the one successor the contract
  allows.  Both repositories are providers; continuity and the absence of lost updates are proved from the
  contract.
\<close>

section \<open>Operations\<close>

datatype 'f conv_op =
    CSave "'f conversation_context" "int option"
  | CCreate string "conversation_owner option" "decision_reference option"
  | CBind string conversation_owner decision_reference "int option"
  | CAdvance string conversation_owner decision_reference "int option"
  | CRebind string conversation_owner conversation_owner "int option"
  | CAppend string string turn_update "int option"
  | CConsume string conversation_owner consume_request datetime int

fun mem_conv_apply ::
  "conv_settings \<Rightarrow> datetime \<Rightarrow> 'f conv_rows \<Rightarrow> 'f conv_op \<Rightarrow> 'f conv_rows \<times> 'f conv_answer" where
  "mem_conv_apply cfg now s (CSave c ev) = mem_conv_save cfg now s c ev"
| "mem_conv_apply cfg now s (CCreate n o' d) = mem_conv_create cfg now n s o' d"
| "mem_conv_apply cfg now s (CBind i o' d ev) = mem_conv_bind cfg now s i o' d ev"
| "mem_conv_apply cfg now s (CAdvance i o' d ev) = mem_conv_advance cfg now s i o' d ev"
| "mem_conv_apply cfg now s (CRebind i w w' ev) = mem_conv_rebind cfg now s i w w' ev"
| "mem_conv_apply cfg now s (CAppend n i u ev) = mem_conv_append cfg now n s i u ev"
| "mem_conv_apply cfg now s (CConsume i o' q at ev) = mem_conv_consume cfg now s i o' q at ev"

text \<open>The database repository with what others do between its two transactions.\<close>

fun op_conv_apply ::
  "conv_settings \<Rightarrow> datetime \<Rightarrow> ('f conv_table \<Rightarrow> 'f conv_table) \<Rightarrow> 'f conv_table \<Rightarrow> 'f conv_op
     \<Rightarrow> 'f conv_table \<times> 'f conv_answer" where
  "op_conv_apply cfg now others s (CSave c ev) = op_conv_save cfg now s c ev"
| "op_conv_apply cfg now others s (CCreate n o' d) = op_conv_create cfg now n s o' d"
| "op_conv_apply cfg now others s (CBind i o' d ev) = op_conv_bind cfg now others s i o' d ev"
| "op_conv_apply cfg now others s (CAdvance i o' d ev) = op_conv_advance cfg now others s i o' d ev"
| "op_conv_apply cfg now others s (CRebind i w w' ev) = op_conv_rebind cfg now others s i w w' ev"
| "op_conv_apply cfg now others s (CAppend n i u ev) = op_conv_append cfg now others n s i u ev"
| "op_conv_apply cfg now others s (CConsume i o' q at ev) = op_conv_consume cfg now others s i o' q at ev"

text \<open>A context handed to \<open>save\<close> went through its constructor.\<close>

fun valid_op :: "'f conv_op \<Rightarrow> bool" where
  "valid_op (CSave c _) = (check_context c = Inr c)"
| "valid_op _ = True"

text \<open>The version an operation insists on, where it does.\<close>

fun expects :: "'f conv_op \<Rightarrow> int option" where
  "expects (CSave c ev) = Some (expected_or ev (cx_version c))"
| "expects (CCreate _ _ _) = Some 0"
| "expects (CBind _ _ _ ev) = ev"
| "expects (CAdvance _ _ _ ev) = ev"
| "expects (CRebind _ _ _ ev) = ev"
| "expects (CAppend _ _ _ ev) = ev"
| "expects (CConsume _ _ _ _ ev) = Some ev"

section \<open>The contract\<close>

definition well_formed :: "conv_settings \<Rightarrow> 'f conversation_context \<Rightarrow> bool" where
  "well_formed cfg c =
     (require_context_membership c = Inr () \<and> length (cx_turns c) \<le> max_turns cfg \<and> 1 \<le> cx_version c \<and>
      (cx_decision_context c \<noteq> None \<longrightarrow> cv_owner c \<noteq> None))"

text \<open>The reference a research advance moves to.\<close>

definition next_reference :: "decision_reference \<Rightarrow> decision_reference \<Rightarrow> bool" where
  "next_reference d d' =
     (dc_decision_id d' = dc_decision_id d \<and> dc_context_version d' = dc_context_version d + 1 \<and>
      dc_evaluated_product_ids d' = dc_evaluated_product_ids d \<and>
      dc_piqscore_sha256 d' = dc_piqscore_sha256 d \<and> dc_recommendation_sha256 d' = dc_recommendation_sha256 d)"

fun rebinds :: "'f conv_op \<Rightarrow> (conversation_owner \<times> conversation_owner) option" where
  "rebinds (CRebind _ w w' _) = Some (w, w')"
| "rebinds _ = None"

fun advances :: "'f conv_op \<Rightarrow> decision_reference option" where
  "advances (CAdvance _ _ d _) = Some d"
| "advances _ = None"

definition keeps_owner :: "'f conv_op \<Rightarrow> 'f conversation_context \<Rightarrow> 'f conversation_context \<Rightarrow> bool" where
  "keeps_owner x p c =
     (\<forall>w. cv_owner p = Some w \<longrightarrow>
        (\<exists>w'. cv_owner c = Some w' \<and>
          (has_same_identity w w' \<or> (\<exists>cur. rebinds x = Some (cur, w') \<and> has_same_identity w cur))))"

definition keeps_decision :: "'f conv_op \<Rightarrow> 'f conversation_context \<Rightarrow> 'f conversation_context \<Rightarrow> bool" where
  "keeps_decision x p c =
     (\<forall>d. cx_decision_context p = Some d \<longrightarrow>
        (\<exists>d'. cx_decision_context c = Some d' \<and> (d' = d \<or> (advances x = Some d' \<and> next_reference d d'))))"

definition successor :: "'f conv_op \<Rightarrow> 'f conversation_context \<Rightarrow> 'f conversation_context \<Rightarrow> bool" where
  "successor x p c =
     (cx_version c = cx_version p + 1 \<and> keeps_owner x p c \<and> keeps_decision x p c)"

definition late :: "datetime \<Rightarrow> 'f conversation_context \<Rightarrow> bool" where
  "late now p = (is_expired now p = Inr True)"

text \<open>What an operation may do to one row.\<close>

definition conv_effect ::
  "datetime \<Rightarrow> 'f conv_op \<Rightarrow> 'f conversation_context option \<Rightarrow> 'f conversation_context option
     \<Rightarrow> 'f conv_answer \<Rightarrow> bool" where
  "conv_effect now x before after r =
     (after = before \<or>
      (\<exists>p. before = Some p \<and> late now p \<and> after = None) \<or>
      (\<exists>c. r = Inr c \<and> after = Some c \<and>
        (case before of
           None \<Rightarrow> cx_version c = 1 \<and> expects x \<in> {None, Some 0}
         | Some p \<Rightarrow> (successor x p c \<and> expects x \<in> {None, Some (cx_version p)}) \<or>
             (late now p \<and> cx_version c = 1 \<and> expects x \<in> {None, Some 0}))))"

locale conversation_repository =
  fixes cfg :: conv_settings and run :: "datetime \<Rightarrow> 's \<Rightarrow> 'f conv_op \<Rightarrow> 's \<times> 'f conv_answer"
    and ok :: "'s \<Rightarrow> bool" and view :: "'s \<Rightarrow> string \<Rightarrow> 'f conversation_context option"
  assumes view_law: "ok s \<Longrightarrow> view s i = Some c \<Longrightarrow> cv_id c = i \<and> well_formed cfg c"
    and step_law: "ok s \<Longrightarrow> valid_op x \<Longrightarrow> run now s x = (s', r) \<Longrightarrow>
      ok s' \<and> (\<forall>i. conv_effect now x (view s i) (view s' i) r)"

section \<open>Helper facts\<close>

lemma membership_last_turns:
  "require_context_membership c = Inr () \<Longrightarrow> require_context_membership (stored_context cfg c v) = Inr ()"
  by (auto simp: require_context_membership_def stored_context_def last_turns_def list_ex_iff Ball_def
      split: option.splits if_split_asm dest: in_set_dropD)

lemma length_last_turns [simp]: "length (last_turns n xs) \<le> n"
  by (simp add: last_turns_def)

lemma last_turns_short: "length xs \<le> n \<Longrightarrow> last_turns n xs = xs"
  by (simp add: last_turns_def)

lemma stored_context_simps [simp]:
  "cv_id (stored_context cfg c v) = cv_id c" "cv_owner (stored_context cfg c v) = cv_owner c"
  "cx_version (stored_context cfg c v) = v" "cx_decision_context (stored_context cfg c v) = cx_decision_context c"
  "length (cx_turns (stored_context cfg c v)) \<le> max_turns cfg"
  "stored_context cfg (stored_context cfg c u) v = stored_context cfg c v"
  by (simp_all add: stored_context_def last_turns_def)

lemma changes_owner_stored [simp]: "changes_owner p (stored_context cfg c v) = changes_owner p c"
  by (simp add: changes_owner_def split: option.split)

lemma bound_context_simps [simp]:
  "cv_id (bound_context cfg now c w d) = cv_id c" "cv_owner (bound_context cfg now c w d) = Some w"
  "cx_version (bound_context cfg now c w d) = cx_version c"
  "cx_decision_context (bound_context cfg now c w d) = Some d"
  by (simp_all add: bound_context_def)

lemma turned_context_simps [simp]:
  "cv_id (turned_context cfg now c u) = cv_id c" "cv_owner (turned_context cfg now c u) = cv_owner c"
  "cx_version (turned_context cfg now c u) = cx_version c"
  "cx_decision_context (turned_context cfg now c u) = cx_decision_context c"
  by (simp_all add: turned_context_def)

lemma same_identity_refl [simp]: "has_same_identity w w"
  by (simp add: has_same_identity_def)

lemma same_identity_trans: "has_same_identity u v \<Longrightarrow> has_same_identity v w \<Longrightarrow> has_same_identity u w"
  by (simp add: has_same_identity_def)

section \<open>Histories\<close>

fun conv_final ::
  "(datetime \<Rightarrow> 's \<Rightarrow> 'f conv_op \<Rightarrow> 's \<times> 'f conv_answer) \<Rightarrow> 's \<Rightarrow> (datetime \<times> 'f conv_op) list \<Rightarrow> 's" where
  "conv_final run s [] = s"
| "conv_final run s ((now, x) # h) = conv_final run (fst (run now s x)) h"

text \<open>The conversation is there, and has not expired, whenever something happens.\<close>

fun alive ::
  "(datetime \<Rightarrow> 's \<Rightarrow> 'f conv_op \<Rightarrow> 's \<times> 'f conv_answer) \<Rightarrow> ('s \<Rightarrow> string \<Rightarrow> 'f conversation_context option)
     \<Rightarrow> string \<Rightarrow> 's \<Rightarrow> (datetime \<times> 'f conv_op) list \<Rightarrow> bool" where
  "alive run view i s [] = True"
| "alive run view i s ((now, x) # h) =
     ((case view s i of None \<Rightarrow> False | Some p \<Rightarrow> \<not> late now p) \<and> alive run view i (fst (run now s x)) h)"

definition continued :: "bool \<Rightarrow> 'f conversation_context \<Rightarrow> 'f conversation_context \<Rightarrow> bool" where
  "continued rebound p c =
     (cx_version p \<le> cx_version c \<and> (cx_version c = cx_version p \<longrightarrow> c = p) \<and>
      (\<forall>w. cv_owner p = Some w \<longrightarrow> (\<exists>w'. cv_owner c = Some w' \<and> (rebound \<or> has_same_identity w w'))) \<and>
      (\<forall>d. cx_decision_context p = Some d \<longrightarrow> (\<exists>d'. cx_decision_context c = Some d' \<and>
         dc_decision_id d' = dc_decision_id d \<and> dc_evaluated_product_ids d' = dc_evaluated_product_ids d \<and>
         dc_piqscore_sha256 d' = dc_piqscore_sha256 d \<and>
         dc_recommendation_sha256 d' = dc_recommendation_sha256 d \<and>
         dc_context_version d \<le> dc_context_version d')))"

lemma continued_refl [simp]: "continued b p p"
  by (auto simp: continued_def)

lemma continued_trans:
  assumes "continued b p q" and "continued b' q c"
  shows "continued (b \<or> b') p c"
  using assms same_identity_trans unfolding continued_def by (intro conjI) (simp, force, fastforce, fastforce)

lemma successor_continued: "successor x p c \<Longrightarrow> continued (rebinds x \<noteq> None) p c"
  unfolding successor_def continued_def keeps_owner_def keeps_decision_def next_reference_def by fastforce

context conversation_repository begin

lemma row_step:
  assumes "ok s" and "valid_op x" and "run now s x = (s', r)" and "view s i = Some p" and "\<not> late now p"
  shows "view s' i = Some p \<or>
    (\<exists>c. r = Inr c \<and> view s' i = Some c \<and> successor x p c \<and> expects x \<in> {None, Some (cx_version p)})"
proof -
  have "conv_effect now x (view s i) (view s' i) r" using step_law [OF assms(1-3)] by blast
  then show ?thesis using assms(4,5) by (auto simp: conv_effect_def)
qed

lemma history:
  assumes "ok s" and "\<forall>(now, x)\<in>set h. valid_op x" and "alive run view i s h" and "view s i = Some p"
  shows "ok (conv_final run s h) \<and> (\<exists>c. view (conv_final run s h) i = Some c \<and>
    continued (\<exists>(now, x)\<in>set h. rebinds x \<noteq> None) p c)"
  using assms
proof (induction h arbitrary: s p)
  case Nil
  then show ?case by simp
next
  case (Cons a h)
  obtain now x where a: "a = (now, x)" by force
  obtain s' r where run: "run now s x = (s', r)" by force
  have x: "valid_op x" and live: "\<not> late now p" using Cons.prems by (auto simp: a)
  have ok': "ok s'" using step_law [OF Cons.prems(1) x run] by blast
  obtain q where q: "view s' i = Some q" "continued (rebinds x \<noteq> None) p q"
    using row_step [OF Cons.prems(1) x run Cons.prems(4) live] successor_continued continued_refl by blast
  have "ok (conv_final run s' h) \<and> (\<exists>c. view (conv_final run s' h) i = Some c \<and>
      continued (\<exists>(now, x)\<in>set h. rebinds x \<noteq> None) q c)"
    using Cons.IH [OF ok' _ _ q(1)] Cons.prems(2,3) by (simp add: a run)
  then show ?case using continued_trans [OF q(2)] by (auto simp: a run)
qed

text \<open>Two writes that insist on the same version: the second does not touch the conversation.\<close>

lemma second_write_refused:
  assumes "ok s" and "valid_op x" and "run now s x = (s1, Inr c)" and "view s1 i = Some c" and "view s i \<noteq> Some c"
    and "expects x = Some e" and "valid_op y" and "expects y = Some e" and "run later s1 y = (s2, r)"
    and "\<not> late later c"
  shows "view s2 i = Some c"
proof -
  have "conv_effect now x (view s i) (Some c) (Inr c)" and ok1: "ok s1"
    using step_law [OF assms(1-3)] assms(4) by metis+
  then have "cx_version c = e + 1"
    using assms(5,6) by (auto simp: conv_effect_def successor_def split: option.splits)
  then show ?thesis
    using row_step [OF ok1 assms(7,9,4,10)] assms(8) by auto
qed

end

section \<open>One row through a look-up and a save\<close>

definition get_effect ::
  "datetime \<Rightarrow> 'f conversation_context option \<Rightarrow> 'f conversation_context option \<Rightarrow> bool" where
  "get_effect now before after =
     (after = before \<or> (\<exists>p. before = Some p \<and> late now p \<and> after = None))"

text \<open>Every save both repositories make, for the version \<open>e\<close> it insists on.\<close>

definition save_effect ::
  "datetime \<Rightarrow> int \<Rightarrow> 'f conversation_context option \<Rightarrow> 'f conversation_context option
     \<Rightarrow> 'f conv_answer \<Rightarrow> bool" where
  "save_effect now e before after r =
     (get_effect now before after \<or>
      (\<exists>c. r = Inr c \<and> after = Some c \<and>
        (case before of
           None \<Rightarrow> cx_version c = 1 \<and> e = 0
         | Some p \<Rightarrow>
             (cx_version c = cx_version p + 1 \<and> e = cx_version p \<and> \<not> changes_owner p c \<and>
              (cx_decision_context p \<noteq> None \<longrightarrow> cx_decision_context c = cx_decision_context p)) \<or>
             (late now p \<and> cx_version c = 1 \<and> e = 0))))"

lemma get_effect_refl [simp]: "get_effect now b b"
  by (simp add: get_effect_def)

lemma get_then_save: "get_effect now b m \<Longrightarrow> save_effect now e m a r \<Longrightarrow> save_effect now e b a r"
  unfolding get_effect_def save_effect_def by (auto split: option.splits)

lemma get_effect_conv: "get_effect now b a \<Longrightarrow> conv_effect now x b a r"
  by (auto simp: get_effect_def conv_effect_def)

lemma save_effect_conv:
  assumes "save_effect now e b a r" and "expects x \<in> {None, Some e}"
  shows "conv_effect now x b a r"
proof (cases "get_effect now b a")
  case True
  then show ?thesis by (rule get_effect_conv)
next
  case False
  then obtain c where c: "r = Inr c" "a = Some c" "case b of None \<Rightarrow> cx_version c = 1 \<and> e = 0
      | Some p \<Rightarrow> (cx_version c = cx_version p + 1 \<and> e = cx_version p \<and> \<not> changes_owner p c \<and>
          (cx_decision_context p \<noteq> None \<longrightarrow> cx_decision_context c = cx_decision_context p)) \<or>
        (late now p \<and> cx_version c = 1 \<and> e = 0)"
    using assms(1) by (auto simp: save_effect_def)
  show ?thesis
  proof (cases b)
    case None
    then show ?thesis using c assms(2) by (auto simp: conv_effect_def)
  next
    case (Some p)
    have "\<not> changes_owner p c \<Longrightarrow> keeps_owner x p c"
      by (auto simp: changes_owner_def keeps_owner_def split: option.splits)
    moreover have "(cx_decision_context p \<noteq> None \<longrightarrow> cx_decision_context c = cx_decision_context p) \<Longrightarrow>
        keeps_decision x p c" by (auto simp: keeps_decision_def)
    ultimately show ?thesis using c assms(2) Some by (auto simp: conv_effect_def successor_def)
  qed
qed

lemma expected_or_expects: "expected_or ev v = e \<Longrightarrow> ev \<in> {None, Some e}"
  by (auto simp: expected_or_def split: option.splits)

section \<open>The process-local repository\<close>

definition mem_conv_ok :: "conv_settings \<Rightarrow> 'f conv_rows \<Rightarrow> bool" where
  "mem_conv_ok cfg rows =
     (dict_ok rows \<and> (\<forall>i c. dict_get rows i = Some c \<longrightarrow> cv_id c = i \<and> well_formed cfg c))"

lemma mem_ok_del: "mem_conv_ok cfg rows \<Longrightarrow> mem_conv_ok cfg (dict_del i rows)"
  by (auto simp: mem_conv_ok_def dict_simps split: if_splits)

lemma mem_ok_set:
  "mem_conv_ok cfg rows \<Longrightarrow> cv_id c = i \<Longrightarrow> well_formed cfg c \<Longrightarrow> mem_conv_ok cfg (dict_set i c rows)"
  by (auto simp: mem_conv_ok_def dict_simps split: if_splits)

lemma mem_get_effect:
  assumes "mem_conv_ok cfg rows" and "mem_conv_get now rows i = (rows', r)"
  shows "mem_conv_ok cfg rows' \<and> (\<forall>j. get_effect now (dict_get rows j) (dict_get rows' j)) \<and>
    (\<forall>found. r = Inr found \<longrightarrow> dict_get rows' i = found \<and> (found \<noteq> None \<longrightarrow> rows' = rows) \<and>
       (\<forall>p. found = Some p \<longrightarrow> is_expired now p = Inr False))"
proof (cases "dict_get rows i")
  case None
  then show ?thesis using assms by (auto simp: mem_conv_get_def)
next
  case (Some c)
  show ?thesis
  proof (cases "is_expired now c")
    case (Inl e)
    then show ?thesis using assms Some by (simp add: mem_conv_get_def) (auto simp: get_effect_def)
  next
    case (Inr b)
    show ?thesis
    proof (cases b)
      case True
      then have "rows' = dict_del i rows" "r = Inr None" using assms Some Inr by (simp_all add: mem_conv_get_def)
      moreover have "late now c" using Inr True by (simp add: late_def)
      ultimately show ?thesis
        using Some mem_ok_del [OF assms(1), of i] by (auto simp: get_effect_def dict_simps)
    next
      case False
      then have "rows' = rows" "r = Inr (Some c)" using assms Some Inr by (simp_all add: mem_conv_get_def)
      then show ?thesis using assms(1) Some Inr False by simp
    qed
  qed
qed

lemma mem_save_effect:
  assumes ok: "mem_conv_ok cfg rows" and valid: "cx_decision_context c \<noteq> None \<longrightarrow> cv_owner c \<noteq> None"
    and run: "mem_conv_save cfg now rows c ev = (rows', r)"
  shows "mem_conv_ok cfg rows' \<and>
    (\<forall>j. save_effect now (expected_or ev (cx_version c)) (dict_get rows j) (dict_get rows' j) r)"
proof (cases "require_active_owner now (cv_id c) (cv_owner c)")
  case (Inl e)
  then show ?thesis using assms by (simp add: mem_conv_save_def save_effect_def)
next
  case (Inr u)
  obtain rows1 g where get: "mem_conv_get now rows (cv_id c) = (rows1, g)" by force
  note g = mem_get_effect [OF ok get]
  define e where "e = expected_or ev (cx_version c)"
  have stop: "mem_conv_ok cfg rows1 \<and> (\<forall>j. save_effect now e (dict_get rows j) (dict_get rows1 j) q)" for q
    using g by (simp add: save_effect_def)
  show ?thesis
  proof (cases g)
    case (Inl x)
    then show ?thesis using run stop Inr get by (simp add: mem_conv_save_def e_def)
  next
    case found: (Inr found)
    show ?thesis
    proof (cases "require_stable_decision_context found c")
      case (Inl x)
      then show ?thesis using run stop Inr get found by (simp add: mem_conv_save_def e_def)
    next
      case stable: (Inr u')
      have member: "require_context_membership c = Inr ()"
        using stable by (auto simp: require_stable_decision_context_def split: if_split_asm)
      have wf: "well_formed cfg (stored_context cfg c v)" if "1 \<le> v" for v
        using that valid membership_last_turns [OF member] by (simp add: well_formed_def)
      show ?thesis
      proof (cases found)
        case None
        show ?thesis
        proof (cases "e = 0")
          case True
          then have res: "r = Inr (stored_context cfg c 1)" "rows' = dict_set (cv_id c) (stored_context cfg c 1) rows1"
            using run Inr get found stable None by (simp_all add: mem_conv_save_def e_def Let_def)
          have "mem_conv_ok cfg rows'"
            unfolding res(2) using g wf [of 1] by (intro mem_ok_set) simp_all
          moreover have "save_effect now e (dict_get rows1 j) (dict_get rows' j) r" for j
            using g found None True by (auto simp: res save_effect_def dict_simps)
          ultimately show ?thesis using get_then_save g e_def by blast
        next
          case False
          then show ?thesis using run stop Inr get found stable None by (simp add: mem_conv_save_def e_def Let_def)
        qed
      next
        case (Some p)
        show ?thesis
        proof (cases "e = cx_version p \<and> \<not> changes_owner p c")
          case False
          then show ?thesis using run stop Inr get found stable Some
            by (auto simp: mem_conv_save_def e_def Let_def split: if_split_asm)
        next
          case True
          define st where "st = stored_context cfg c (cx_version p + 1)"
          have res: "r = Inr st" "rows' = dict_set (cv_id c) st rows1"
            using run Inr get found stable Some True by (simp_all add: mem_conv_save_def e_def Let_def st_def)
          have "dict_get rows1 (cv_id c) = Some p" using g found Some by auto
          then have "1 \<le> cx_version p" using g by (auto simp: mem_conv_ok_def well_formed_def)
          then have "mem_conv_ok cfg rows'"
            unfolding res(2) using g wf by (intro mem_ok_set) (simp_all add: st_def)
          moreover have "cx_decision_context p \<noteq> None \<longrightarrow> cx_decision_context c = cx_decision_context p"
            using stable Some by (auto simp: require_stable_decision_context_def split: if_split_asm)
          then have "save_effect now e (dict_get rows1 j) (dict_get rows' j) r" for j
            using g found Some True
            by (auto simp: res save_effect_def dict_simps st_def)
          ultimately show ?thesis using get_then_save g e_def by blast
        qed
      qed
    qed
  qed
qed

text \<open>A save after a look-up, as the composite operations do it.\<close>

lemma mem_get_save:
  assumes ok: "mem_conv_ok cfg rows" and get: "mem_conv_get now rows i = (rows1, Inr found)"
    and valid: "cx_decision_context c \<noteq> None \<longrightarrow> cv_owner c \<noteq> None"
    and save: "mem_conv_save cfg now rows1 c (Some e) = (rows', r)" and "expects x \<in> {None, Some e}"
  shows "mem_conv_ok cfg rows' \<and> (\<forall>j. conv_effect now x (dict_get rows j) (dict_get rows' j) r)"
proof -
  note g = mem_get_effect [OF ok get]
  have "mem_conv_ok cfg rows'" "\<forall>j. save_effect now e (dict_get rows1 j) (dict_get rows' j) r"
    using mem_save_effect [OF conjunct1 [OF g] valid save] by (simp_all add: expected_or_def)
  moreover have "conv_effect now x (dict_get rows j) (dict_get rows' j) r" for j
    by (rule save_effect_conv [OF get_then_save assms(5)]) (use g calculation(2) in blast)+
  ultimately show ?thesis by blast
qed

lemma mem_get_stop:
  assumes "mem_conv_ok cfg rows" and "mem_conv_get now rows i = (rows1, q)"
  shows "mem_conv_ok cfg rows1 \<and> (\<forall>j. conv_effect now x (dict_get rows j) (dict_get rows1 j) r)"
proof -
  note g = mem_get_effect [OF assms]
  have "conv_effect now x (dict_get rows j) (dict_get rows1 j) r" for j
    by (rule get_effect_conv) (use g in blast)
  then show ?thesis using g by blast
qed

lemma consume_keeps:
  "consume_exact_research_authorization p o' q at = Inr c \<Longrightarrow> \<exists>as. c = p\<lparr>cv_authorizations := as\<rparr>"
  unfolding consume_exact_research_authorization_def Let_def
  by (auto simp: and_then_Inr_iff split: if_split_asm list.splits)

lemma lift_consume_keeps:
  assumes "lift_auth (consume_exact_research_authorization p o' q at) = Inr c"
  shows "cx_decision_context c = cx_decision_context p" "cv_owner c = cv_owner p" "cv_id c = cv_id p"
    "cx_turns c = cx_turns p" "cx_last_product_ids c = cx_last_product_ids p" "cx_version c = cx_version p"
proof -
  have "consume_exact_research_authorization p o' q at = Inr c"
    using assms by (cases "consume_exact_research_authorization p o' q at") (simp_all add: lift_auth_def)
  then obtain as where "c = p\<lparr>cv_authorizations := as\<rparr>" using consume_keeps by blast
  then show "cx_decision_context c = cx_decision_context p" "cv_owner c = cv_owner p" "cv_id c = cv_id p"
    "cx_turns c = cx_turns p" "cx_last_product_ids c = cx_last_product_ids p" "cx_version c = cx_version p"
    by simp_all
qed

lemma mem_step_simple:
  fixes x :: "'f conv_op"
  assumes "mem_conv_ok cfg rows" and "valid_op x" and "mem_conv_apply cfg now rows x = (rows', r)"
    and "rebinds x = None" and "advances x = None"
  shows "mem_conv_ok cfg rows' \<and> (\<forall>j. conv_effect now x (dict_get rows j) (dict_get rows' j) r)"
proof (cases x)
  case (CSave c ev)
  have "cx_decision_context c \<noteq> None \<longrightarrow> cv_owner c \<noteq> None"
    using assms(2) CSave by (auto simp: check_context_def split: if_split_asm)
  from mem_save_effect [OF assms(1) this, of now ev rows' r] show ?thesis
    using assms(3) CSave save_effect_conv [of now "expected_or ev (cx_version c)" _ _ r x] by simp
next
  case (CCreate n o' d)
  define c :: "'f conversation_context" where "c = fresh_context cfg now n o' d"
  show ?thesis
  proof (cases "check_context c")
    case (Inl e)
    then show ?thesis using assms(1,3) CCreate
      by (simp add: mem_conv_create_def c_def conv_effect_def)
  next
    case (Inr c')
    then have c': "c' = c" "cx_decision_context c \<noteq> None \<longrightarrow> cv_owner c \<noteq> None"
      by (auto simp: check_context_def split: if_split_asm)
    have "cx_version c = 0" by (simp add: c_def fresh_context_def)
    moreover have "mem_conv_save cfg now rows c None = (rows', r)"
      using assms(3) CCreate Inr c'(1) by (simp add: mem_conv_create_def c_def)
    from mem_save_effect [OF assms(1) c'(2) this]
    have "mem_conv_ok cfg rows'" "save_effect now 0 (dict_get rows j) (dict_get rows' j) r" for j
      by (simp_all add: expected_or_def \<open>cx_version c = 0\<close>)
    moreover have "expects x \<in> {None, Some 0}" using CCreate by simp
    ultimately show ?thesis using save_effect_conv by blast
  qed
next
  case (CBind i o' d ev)
  obtain rows1 q where get: "mem_conv_get now rows i = (rows1, q)" by force
  note stop = mem_get_stop [OF assms(1) get, of x r]
  have run: "mem_conv_bind cfg now rows i o' d ev = (rows', r)" using assms(3) CBind by simp
  consider (halt) "rows' = rows \<or> rows' = rows1"
    | (save) p where "q = Inr (Some p)"
      "mem_conv_save cfg now rows1 (bound_context cfg now p o' d) (Some (expected_or ev (cx_version p))) = (rows', r)"
    using run get unfolding mem_conv_bind_def
    by (auto split: sum.splits option.splits if_split_asm)
  then show ?thesis
  proof cases
    case halt
    then show ?thesis using stop assms(1) by (auto simp: conv_effect_def)
  next
    case save
    have "mem_conv_get now rows i = (rows1, Inr (Some p))" using get save(1) by simp
    moreover have "expects x \<in> {None, Some (expected_or ev (cx_version p))}"
      using CBind expected_or_expects [OF refl] by simp
    ultimately show ?thesis by (intro mem_get_save [OF assms(1) _ _ save(2)]) simp_all
  qed
next
  case (CAppend n i u ev)
  obtain rows1 q where get: "mem_conv_get now rows i = (rows1, q)" by force
  note stop = mem_get_stop [OF assms(1) get, of x r]
  have run: "mem_conv_append cfg now n rows i u ev = (rows', r)" using assms(3) CAppend by simp
  show ?thesis
  proof (cases q)
    case (Inl e)
    then show ?thesis using run get stop by (simp add: mem_conv_append_def)
  next
    case (Inr found)
    define c where "c = (case found of Some c \<Rightarrow> c
      | None \<Rightarrow> fresh_context cfg now (if i \<noteq> [] then i else n) None None)"
    have valid: "cx_decision_context c \<noteq> None \<longrightarrow> cv_owner c \<noteq> None"
    proof (cases found)
      case None
      then show ?thesis by (simp add: c_def fresh_context_def)
    next
      case (Some p)
      then have "mem_conv_ok cfg rows1" "dict_get rows1 i = Some p"
        using mem_get_effect [OF assms(1) get] Inr by blast+
      then have "well_formed cfg p" by (simp add: mem_conv_ok_def)
      with Some show ?thesis by (simp add: c_def well_formed_def)
    qed
    have "mem_conv_append cfg now n rows i u ev =
        (if found = None \<and> ev \<noteq> None then (rows1, Inl (ConversationVersionConflict i (the ev)))
         else case require_context_membership (turned_context cfg now c u) of
           Inl e \<Rightarrow> (rows1, Inl e)
         | Inr _ \<Rightarrow> mem_conv_save cfg now rows1 (turned_context cfg now c u)
             (Some (expected_or ev (cx_version c))))"
      by (simp only: mem_conv_append_def get Inr c_def Let_def prod.case sum.case)
    then consider (conflict) "rows' = rows1"
      | (save) "mem_conv_save cfg now rows1 (turned_context cfg now c u) (Some (expected_or ev (cx_version c))) = (rows', r)"
      using run by (auto split: if_split_asm sum.splits)
    then show ?thesis
    proof cases
      case conflict
      then show ?thesis using stop by simp
    next
      case save
      have "mem_conv_get now rows i = (rows1, Inr found)" using get Inr by simp
      moreover have "expects x \<in> {None, Some (expected_or ev (cx_version c))}"
        using CAppend expected_or_expects [OF refl] by simp
      ultimately show ?thesis by (intro mem_get_save [OF assms(1) _ _ save]) (simp_all add: valid)
    qed
  qed
next
  case (CConsume i o' q at ev)
  obtain rows1 g where get: "mem_conv_get now rows i = (rows1, g)" by force
  note stop = mem_get_stop [OF assms(1) get, of x r]
  have run: "mem_conv_consume cfg now rows i o' q at ev = (rows', r)" using assms(3) CConsume by simp
  show ?thesis
  proof (cases "\<exists>p c. g = Inr (Some p) \<and> lift_auth (consume_exact_research_authorization p o' q at) = Inr c")
    case True
    then obtain p c where g: "g = Inr (Some p)" "lift_auth (consume_exact_research_authorization p o' q at) = Inr c"
      by blast
    note keep = lift_consume_keeps [OF g(2)]
    have "mem_conv_ok cfg rows1" "dict_get rows1 i = Some p"
      using mem_get_effect [OF assms(1) get] g(1) by blast+
    then have "cx_decision_context p \<noteq> None \<longrightarrow> cv_owner p \<noteq> None"
      by (auto simp: mem_conv_ok_def well_formed_def)
    then have valid: "cx_decision_context c \<noteq> None \<longrightarrow> cv_owner c \<noteq> None" by (simp add: keep)
    have save: "mem_conv_save cfg now rows1 c (Some ev) = (rows', r)"
      using run get g by (simp add: mem_conv_consume_def)
    have "mem_conv_get now rows i = (rows1, Inr (Some p))" using get g by simp
    moreover have "expects x \<in> {None, Some ev}" using CConsume by simp
    ultimately show ?thesis by (intro mem_get_save [OF assms(1) _ valid save])
  next
    case False
    then have "rows' = rows1"
      using run get by (auto simp: mem_conv_consume_def split: sum.splits option.splits)
    then show ?thesis using stop by simp
  qed
qed (use assms(4,5) in simp_all)

lemma member_owner_change:
  "require_context_membership (c\<lparr>cv_owner := w, cx_expires_at := u, cx_version := v\<rparr>) =
   require_context_membership c"
  by (simp add: require_context_membership_def split: option.split)

lemma member_owner_expiry:
  "require_context_membership (c\<lparr>cv_owner := w, cx_expires_at := u\<rparr>) = require_context_membership c"
  by (simp add: require_context_membership_def split: option.split)

lemma mem_step_rebind:
  fixes x :: "'f conv_op"
  assumes ok: "mem_conv_ok cfg rows" and run: "mem_conv_apply cfg now rows x = (rows', r)"
    and x: "x = CRebind i cur new ev"
  shows "mem_conv_ok cfg rows' \<and> (\<forall>j. conv_effect now x (dict_get rows j) (dict_get rows' j) r)"
proof -
  obtain rows1 q where get: "mem_conv_get now rows i = (rows1, q)" by force
  note stop = mem_get_stop [OF ok get, of x r] and g = mem_get_effect [OF ok get]
  have "mem_conv_rebind cfg now rows i cur new ev = (rows', r)" using run x by simp
  then consider (halt) "rows' = rows \<or> rows' = rows1"
    | (store) p w where "q = Inr (Some p)" "cv_owner p = Some w" "has_same_identity w cur"
      "expected_or ev (cx_version p) = cx_version p"
      "rows' = dict_set i (p\<lparr>cv_owner := Some new, cx_expires_at := plus_seconds now (ttl_seconds cfg),
         cx_version := cx_version p + 1\<rparr>) rows1"
      "r = Inr (p\<lparr>cv_owner := Some new, cx_expires_at := plus_seconds now (ttl_seconds cfg),
         cx_version := cx_version p + 1\<rparr>)"
    using get unfolding mem_conv_rebind_def Let_def
    by (auto split: sum.splits option.splits if_split_asm)
  then show ?thesis
  proof cases
    case halt
    then show ?thesis using stop ok by (auto simp: conv_effect_def)
  next
    case store
    define c where "c = p\<lparr>cv_owner := Some new, cx_expires_at := plus_seconds now (ttl_seconds cfg),
         cx_version := cx_version p + 1\<rparr>"
    have p: "dict_get rows i = Some p" "rows1 = rows" using g store(1) by auto
    then have wf: "cv_id p = i" "well_formed cfg p" using ok by (auto simp: mem_conv_ok_def)
    have "well_formed cfg c" "cv_id c = i"
      using wf by (auto simp: well_formed_def c_def member_owner_change)
    then have "mem_conv_ok cfg rows'" unfolding store(5) c_def [symmetric] p(2) using ok by (intro mem_ok_set)
    moreover have "keeps_owner x p c" using store(2,3) by (simp add: keeps_owner_def c_def x)
    then have "successor x p c" by (simp add: successor_def c_def keeps_decision_def)
    then have "conv_effect now x (dict_get rows j) (dict_get rows' j) r" for j
      using store(4) p expected_or_expects [OF store(4)]
      by (auto simp: store(5,6) c_def [symmetric] conv_effect_def dict_simps x)
    ultimately show ?thesis by blast
  qed
qed

lemma advance_next:
  "require_verified_research_context_advance p c = Inr () \<Longrightarrow>
   \<exists>d d' w w'. cx_decision_context p = Some d \<and> cx_decision_context c = Some d' \<and> next_reference d d' \<and>
     cv_owner p = Some w \<and> cv_owner c = Some w' \<and> has_same_identity w w' \<and> require_context_membership c = Inr ()"
  unfolding require_verified_research_context_advance_def Let_def next_reference_def
  by (auto split: option.splits if_split_asm)

lemma mem_step_advance:
  fixes x :: "'f conv_op"
  assumes ok: "mem_conv_ok cfg rows" and run: "mem_conv_apply cfg now rows x = (rows', r)"
    and x: "x = CAdvance i o' d ev"
  shows "mem_conv_ok cfg rows' \<and> (\<forall>j. conv_effect now x (dict_get rows j) (dict_get rows' j) r)"
proof -
  obtain rows1 q where get: "mem_conv_get now rows i = (rows1, q)" by force
  note stop = mem_get_stop [OF ok get, of x r] and g = mem_get_effect [OF ok get]
  have "mem_conv_advance cfg now rows i o' d ev = (rows', r)" using run x by simp
  then consider (halt) "rows' = rows \<or> rows' = rows1"
    | (store) p where "q = Inr (Some p)" "expected_or ev (cx_version p) = cx_version p"
      "require_verified_research_context_advance p (bound_context cfg now p o' d) = Inr ()"
      "rows' = dict_set i (stored_context cfg (bound_context cfg now p o' d) (cx_version p + 1)) rows1"
      "r = Inr (stored_context cfg (bound_context cfg now p o' d) (cx_version p + 1))"
    using get unfolding mem_conv_advance_def Let_def
    by (auto split: sum.splits option.splits if_split_asm)
  then show ?thesis
  proof cases
    case halt
    then show ?thesis using stop ok by (auto simp: conv_effect_def)
  next
    case store
    define c where "c = stored_context cfg (bound_context cfg now p o' d) (cx_version p + 1)"
    have p: "dict_get rows i = Some p" "rows1 = rows" using g store(1) by auto
    then have wf: "cv_id p = i" "well_formed cfg p" using ok by (auto simp: mem_conv_ok_def)
    obtain d0 w where adv: "cx_decision_context p = Some d0" "next_reference d0 d" "cv_owner p = Some w"
      "has_same_identity w o'" "require_context_membership (bound_context cfg now p o' d) = Inr ()"
      using advance_next [OF store(3)] by auto
    have "well_formed cfg c" "cv_id c = i"
      using wf membership_last_turns [OF adv(5)] by (auto simp: well_formed_def c_def)
    then have "mem_conv_ok cfg rows'" unfolding store(4) c_def [symmetric] p(2) using ok by (intro mem_ok_set)
    moreover have "keeps_owner x p c" "keeps_decision x p c"
      using adv by (simp_all add: keeps_owner_def keeps_decision_def c_def x)
    then have "successor x p c" by (simp add: successor_def c_def)
    then have "conv_effect now x (dict_get rows j) (dict_get rows' j) r" for j
      using p expected_or_expects [OF store(2)]
      by (auto simp: store(4,5) c_def [symmetric] conv_effect_def dict_simps x)
    ultimately show ?thesis by blast
  qed
qed

lemma mem_step:
  assumes "mem_conv_ok cfg rows" and "valid_op x" and "mem_conv_apply cfg now rows x = (rows', r)"
  shows "mem_conv_ok cfg rows' \<and> (\<forall>j. conv_effect now x (dict_get rows j) (dict_get rows' j) r)"
proof (cases x)
  case CRebind
  then show ?thesis using mem_step_rebind [OF assms(1,3)] by blast
next
  case CAdvance
  then show ?thesis using mem_step_advance [OF assms(1,3)] by blast
qed (use mem_step_simple [OF assms] in simp_all)

interpretation mem_conv: conversation_repository cfg "mem_conv_apply cfg" "mem_conv_ok cfg" dict_get
  for cfg :: conv_settings
proof
  fix s i and c :: "'a conversation_context"
  assume "mem_conv_ok cfg s" "dict_get s i = Some c"
  then show "cv_id c = i \<and> well_formed cfg c" by (simp add: mem_conv_ok_def)
next
  fix s x now s' and r :: "'a conv_answer"
  assume "mem_conv_ok cfg s" "valid_op x" "mem_conv_apply cfg now s x = (s', r)"
  then show "mem_conv_ok cfg s' \<and> (\<forall>i. conv_effect now x (dict_get s i) (dict_get s' i) r)" by (rule mem_step)
qed

section \<open>The database repository\<close>

definition op_conv_view :: "'f conv_table \<Rightarrow> string \<Rightarrow> 'f conversation_context option" where
  "op_conv_view t i = map_option op_payload (dict_get t i)"

definition op_conv_ok :: "conv_settings \<Rightarrow> 'f conv_table \<Rightarrow> bool" where
  "op_conv_ok cfg t =
     (dict_ok t \<and>
      (\<forall>i row. dict_get t i = Some row \<longrightarrow>
         op_seq row = cx_version (op_payload row) \<and> cv_id (op_payload row) = i \<and> well_formed cfg (op_payload row)))"

lemma op_conv_load_view:
  "op_conv_ok cfg t \<Longrightarrow> op_conv_load t i = Inr (op_conv_view t i)"
  by (cases "dict_get t i")
    (auto simp: op_conv_load_def get_versioned_def op_conv_view_def op_conv_ok_def require_version_integrity_def)

lemma op_conv_ok_row:
  assumes "op_conv_ok cfg t" and "op_conv_view t i = Some p"
  shows "\<exists>row. dict_get t i = Some row \<and> op_payload row = p \<and> op_seq row = cx_version p \<and> cv_id p = i \<and>
    well_formed cfg p"
  using assms by (auto simp: op_conv_view_def op_conv_ok_def)

lemma op_get_effect:
  assumes ok: "op_conv_ok cfg t" and run: "op_conv_get now t i = (t', r)"
  shows "op_conv_ok cfg t' \<and> (\<forall>j. get_effect now (op_conv_view t j) (op_conv_view t' j)) \<and>
    (\<forall>found. r = Inr found \<longrightarrow> op_conv_view t' i = found \<and> (found \<noteq> None \<longrightarrow> t' = t) \<and>
       (\<forall>p. found = Some p \<longrightarrow> is_expired now p = Inr False))"
proof (cases "op_conv_view t i")
  case None
  then show ?thesis using ok run by (auto simp: op_conv_get_def op_conv_load_view)
next
  case (Some c)
  show ?thesis
  proof (cases "is_expired now c")
    case (Inl e)
    then show ?thesis using ok run Some by (simp add: op_conv_get_def op_conv_load_view) (auto simp: get_effect_def)
  next
    case (Inr b)
    show ?thesis
    proof (cases b)
      case True
      obtain gone where del: "delete_versioned t i (cx_version c) = (t', gone)" and r: "r = Inr None"
        using ok run Some Inr True
        by (cases "delete_versioned t i (cx_version c)") (simp add: op_conv_get_def op_conv_load_view)
      have "dict_ok t" using ok by (simp add: op_conv_ok_def)
      from delete_versioned_result [OF this del]
      have d: "dict_ok t'" "dict_get t' = (dict_get t)(i := None)"
        using op_conv_ok_row [OF ok Some] by auto
      then have "op_conv_ok cfg t'" using ok by (auto simp: op_conv_ok_def)
      moreover have "late now c" using Inr True by (simp add: late_def)
      ultimately show ?thesis using Some r d by (auto simp: get_effect_def op_conv_view_def)
    next
      case False
      then have "t' = t" "r = Inr (Some c)" using ok run Some Inr by (simp_all add: op_conv_get_def op_conv_load_view)
      then show ?thesis using ok Some Inr False by simp
    qed
  qed
qed

lemma op_write_row:
  assumes "op_conv_ok cfg t" and "dict_ok t'" and "cv_id c = i" and "well_formed cfg c"
    and "dict_get t' = (dict_get t)(i \<mapsto> \<lparr>op_payload = c, op_seq = cx_version c, op_owner = w\<rparr>)"
  shows "op_conv_ok cfg t' \<and> op_conv_view t' = (op_conv_view t)(i \<mapsto> c)"
  using assms by (auto simp: op_conv_ok_def op_conv_view_def fun_eq_iff)

lemma op_swap_effect:
  assumes ok: "op_conv_ok cfg t" and run: "op_conv_swap cfg t c e = (t', r)"
    and valid: "cx_decision_context c \<noteq> None \<longrightarrow> cv_owner c \<noteq> None"
    and member: "require_context_membership c = Inr ()"
  shows "op_conv_ok cfg t' \<and>
    ((op_conv_view t' = op_conv_view t \<and> (\<exists>x. r = Inl x)) \<or>
     (\<exists>p. op_conv_view t (cv_id c) = Some p \<and> cx_version p = e \<and> r = Inr (stored_context cfg c (e + 1)) \<and>
        op_conv_view t' = (op_conv_view t)(cv_id c \<mapsto> stored_context cfg c (e + 1))))"
proof (cases "check_context (stored_context cfg c (e + 1))")
  case (Inl x)
  then have "t' = t" "r = Inl x" using run by (simp_all add: op_conv_swap_def)
  then show ?thesis using ok by simp
next
  case (Inr st)
  then have st: "st = stored_context cfg c (e + 1)" by (auto simp: check_context_def split: if_split_asm)
  obtain b where cas: "compare_and_swap t (cv_id c) st e (e + 1) (owner_key (cv_owner st)) = (t', b)"
    and r: "r = (if b then Inr st else Inl (ConversationVersionConflict (cv_id c) e))"
    using run Inr by (auto simp: op_conv_swap_def split: prod.splits if_split_asm)
  have "dict_ok t" using ok by (simp add: op_conv_ok_def)
  note res = compare_and_swap_result [OF this cas]
  show ?thesis
  proof (cases b)
    case False
    then show ?thesis using res ok r by (auto simp: op_conv_ok_def op_conv_view_def fun_eq_iff)
  next
    case True
    then obtain row where row: "dict_get t (cv_id c) = Some row" "op_seq row = e" using res by auto
    then have p: "op_conv_view t (cv_id c) = Some (op_payload row)" "cx_version (op_payload row) = e" "1 \<le> e"
      using ok by (auto simp: op_conv_view_def op_conv_ok_def well_formed_def)
    have "well_formed cfg st"
      using valid membership_last_turns [OF member] p(3) by (simp add: well_formed_def st)
    then have "op_conv_ok cfg t' \<and> op_conv_view t' = (op_conv_view t)(cv_id c \<mapsto> st)"
      using res True st by (intro op_write_row [OF ok]) auto
    then show ?thesis using p r True st by auto
  qed
qed

lemma op_save_effect:
  assumes ok: "op_conv_ok cfg t" and valid: "cx_decision_context c \<noteq> None \<longrightarrow> cv_owner c \<noteq> None"
    and run: "op_conv_save cfg now t c ev = (t', r)"
  shows "op_conv_ok cfg t' \<and>
    (\<forall>j. save_effect now (expected_or ev (cx_version c)) (op_conv_view t j) (op_conv_view t' j) r)"
proof -
  define e where "e = expected_or ev (cx_version c)"
  define st where "st = stored_context cfg c (cx_version c)"
  have stop: "t' = t \<Longrightarrow> ?thesis" using ok by (simp add: save_effect_def)
  consider (halt) "t' = t"
    | (insert) t1 where "require_context_membership st = Inr ()" "op_conv_view t (cv_id c) = None" "e = 0"
      "insert_versioned t (cv_id c) (st\<lparr>cx_version := 1\<rparr>) 1 (owner_key (cv_owner st)) = Some t1"
      "t' = t1" "r = Inr (st\<lparr>cx_version := 1\<rparr>)"
    | (swap) p where "require_context_membership st = Inr ()" "op_conv_view t (cv_id c) = Some p"
      "\<not> changes_owner p st" "require_stable_decision_context (Some p) st = Inr ()"
      "op_conv_swap cfg t st e = (t', r)"
    using run unfolding op_conv_save_def Let_def e_def [symmetric] st_def [symmetric]
    by (auto simp: op_conv_load_view [OF ok] split: sum.splits option.splits if_split_asm)
  then show ?thesis
  proof cases
    case halt
    then show ?thesis by (rule stop)
  next
    case insert
    have "dict_ok t" using ok by (simp add: op_conv_ok_def)
    from insert_versioned_result [OF this insert(4)]
    have ins: "dict_ok t1" "dict_get t1 = (dict_get t)(cv_id c \<mapsto>
        \<lparr>op_payload = st\<lparr>cx_version := 1\<rparr>, op_seq = 1, op_owner = owner_key (cv_owner st)\<rparr>)" by (simp_all add: fun_eq_iff)
    have "st\<lparr>cx_version := 1\<rparr> = stored_context cfg st 1" by (simp add: st_def stored_context_def last_turns_def)
    then have "well_formed cfg (st\<lparr>cx_version := 1\<rparr>)"
      using valid membership_last_turns [OF insert(1), of cfg 1] by (simp add: well_formed_def) (simp add: st_def)
    then have "op_conv_ok cfg t1 \<and> op_conv_view t1 = (op_conv_view t)(cv_id c \<mapsto> st\<lparr>cx_version := 1\<rparr>)"
      using ins by (intro op_write_row [OF ok]) (auto simp: st_def)
    then show ?thesis using insert by (auto simp: save_effect_def e_def)
  next
    case swap
    have "cx_decision_context st \<noteq> None \<longrightarrow> cv_owner st \<noteq> None" using valid by (simp add: st_def)
    from op_swap_effect [OF ok swap(5) this swap(1)] show ?thesis
      using swap(2,3,4)
      by (auto simp: save_effect_def e_def st_def require_stable_decision_context_def split: if_split_asm)
  qed
qed

lemma op_get_stop:
  assumes "op_conv_ok cfg t" and "op_conv_get now t i = (t1, q)"
  shows "op_conv_ok cfg t1 \<and> (\<forall>j. conv_effect now x (op_conv_view t j) (op_conv_view t1 j) r)"
proof -
  note g = op_get_effect [OF assms]
  have "conv_effect now x (op_conv_view t j) (op_conv_view t1 j) r" for j
    by (rule get_effect_conv) (use g in blast)
  then show ?thesis using g by blast
qed

lemma op_get_save:
  assumes ok: "op_conv_ok cfg t" and get: "op_conv_get now t i = (t1, Inr found)"
    and valid: "cx_decision_context c \<noteq> None \<longrightarrow> cv_owner c \<noteq> None"
    and save: "op_conv_save cfg now t1 c (Some e) = (t', r)" and "expects x \<in> {None, Some e}"
  shows "op_conv_ok cfg t' \<and> (\<forall>j. conv_effect now x (op_conv_view t j) (op_conv_view t' j) r)"
proof -
  note g = op_get_effect [OF ok get]
  have "op_conv_ok cfg t'" "\<forall>j. save_effect now e (op_conv_view t1 j) (op_conv_view t' j) r"
    using op_save_effect [OF conjunct1 [OF g] valid save] by (simp_all add: expected_or_def)
  moreover have "conv_effect now x (op_conv_view t j) (op_conv_view t' j) r" for j
    by (rule save_effect_conv [OF get_then_save assms(5)]) (use g calculation(2) in blast)+
  ultimately show ?thesis by blast
qed

text \<open>A direct compare-and-swap onto the row that was read.\<close>

lemma op_get_swap:
  assumes ok: "op_conv_ok cfg t" and get: "op_conv_get now t i = (t1, Inr (Some p))"
    and valid: "cx_decision_context c \<noteq> None \<longrightarrow> cv_owner c \<noteq> None" "require_context_membership c = Inr ()"
    and id: "cv_id c = cv_id p" and swap: "op_conv_swap cfg t1 c e = (t', r)"
    and x: "expects x \<in> {None, Some e}" "keeps_owner x p c" "keeps_decision x p c"
  shows "op_conv_ok cfg t' \<and> (\<forall>j. conv_effect now x (op_conv_view t j) (op_conv_view t' j) r)"
proof -
  note g = op_get_effect [OF ok get]
  have t1: "t1 = t" "op_conv_view t i = Some p" using g by auto
  then have i: "cv_id c = i" using op_conv_ok_row [OF ok] id by auto
  from op_swap_effect [OF ok swap [unfolded t1(1)] valid]
  consider (halt) "op_conv_ok cfg t'" "op_conv_view t' = op_conv_view t"
    | (store) "op_conv_ok cfg t'" "cx_version p = e" "r = Inr (stored_context cfg c (e + 1))"
      "op_conv_view t' = (op_conv_view t)(i \<mapsto> stored_context cfg c (e + 1))"
    using t1(2) i by auto
  then show ?thesis
  proof cases
    case halt
    then show ?thesis by (simp add: conv_effect_def)
  next
    case store
    have "keeps_owner x p (stored_context cfg c (e + 1))" "keeps_decision x p (stored_context cfg c (e + 1))"
      using x(2,3) by (simp_all add: keeps_owner_def keeps_decision_def)
    then have "successor x p (stored_context cfg c (e + 1))" by (simp add: successor_def store(2))
    then show ?thesis using store t1(2) x(1) by (auto simp: conv_effect_def)
  qed
qed

lemma op_step_saves:
  fixes x :: "'f conv_op"
  assumes ok: "op_conv_ok cfg t" and "valid_op x" and run: "op_conv_apply cfg now (\<lambda>t. t) t x = (t', r)"
    and "rebinds x = None" and "advances x = None" and "\<forall>i o' d ev. x \<noteq> CBind i o' d ev"
  shows "op_conv_ok cfg t' \<and> (\<forall>j. conv_effect now x (op_conv_view t j) (op_conv_view t' j) r)"
proof (cases x)
  case (CSave c ev)
  have valid: "cx_decision_context c \<noteq> None \<longrightarrow> cv_owner c \<noteq> None"
    using assms(2) CSave by (auto simp: check_context_def split: if_split_asm)
  have "op_conv_save cfg now t c ev = (t', r)" using run CSave by simp
  from op_save_effect [OF ok valid this] show ?thesis
    using CSave save_effect_conv [of now "expected_or ev (cx_version c)" _ _ r x] by simp
next
  case (CCreate n ow d)
  define c :: "'f conversation_context" where "c = fresh_context cfg now n ow d"
  show ?thesis
  proof (cases "check_context c")
    case (Inl e)
    then show ?thesis using ok run CCreate by (simp add: op_conv_create_def c_def conv_effect_def)
  next
    case (Inr c')
    then have c': "c' = c" "cx_decision_context c \<noteq> None \<longrightarrow> cv_owner c \<noteq> None"
      by (auto simp: check_context_def split: if_split_asm)
    have "cx_version c = 0" by (simp add: c_def fresh_context_def)
    moreover have "op_conv_save cfg now t c None = (t', r)"
      using run CCreate Inr c'(1) by (simp add: op_conv_create_def c_def)
    from op_save_effect [OF ok c'(2) this]
    have "op_conv_ok cfg t'" "save_effect now 0 (op_conv_view t j) (op_conv_view t' j) r" for j
      by (simp_all add: expected_or_def \<open>cx_version c = 0\<close>)
    moreover have "expects x \<in> {None, Some 0}" using CCreate by simp
    ultimately show ?thesis using save_effect_conv by blast
  qed
next
  case (CAppend n i u ev)
  obtain t1 q where get: "op_conv_get now t i = (t1, q)" by force
  note stop = op_get_stop [OF ok get, of x r]
  have run: "op_conv_append cfg now (\<lambda>t. t) n t i u ev = (t', r)" using run CAppend by simp
  show ?thesis
  proof (cases q)
    case (Inl e)
    then show ?thesis using run get stop by (simp add: op_conv_append_def)
  next
    case (Inr found)
    define c where "c = (case found of Some c \<Rightarrow> c
      | None \<Rightarrow> fresh_context cfg now (if i \<noteq> [] then i else n) None None)"
    have valid: "cx_decision_context c \<noteq> None \<longrightarrow> cv_owner c \<noteq> None"
    proof (cases found)
      case None
      then show ?thesis by (simp add: c_def fresh_context_def)
    next
      case (Some p)
      then have "op_conv_ok cfg t1" "op_conv_view t1 i = Some p"
        using op_get_effect [OF ok get] Inr by blast+
      then have "well_formed cfg p" using op_conv_ok_row by blast
      with Some show ?thesis by (simp add: c_def well_formed_def)
    qed
    have "op_conv_append cfg now (\<lambda>t. t) n t i u ev =
        (if found = None \<and> ev \<noteq> None then (t1, Inl (ConversationVersionConflict i (the ev)))
         else case require_context_membership (turned_context cfg now c u) of
           Inl e \<Rightarrow> (t1, Inl e)
         | Inr _ \<Rightarrow> op_conv_save cfg now t1 (turned_context cfg now c u) (Some (expected_or ev (cx_version c))))"
      by (simp only: op_conv_append_def get Inr c_def Let_def prod.case sum.case)
    then consider (conflict) "t' = t1"
      | (save) "op_conv_save cfg now t1 (turned_context cfg now c u) (Some (expected_or ev (cx_version c))) = (t', r)"
      using run by (auto split: if_split_asm sum.splits)
    then show ?thesis
    proof cases
      case conflict
      then show ?thesis using stop by simp
    next
      case save
      have "op_conv_get now t i = (t1, Inr found)" using get Inr by simp
      moreover have "expects x \<in> {None, Some (expected_or ev (cx_version c))}"
        using CAppend expected_or_expects [OF refl] by simp
      ultimately show ?thesis by (intro op_get_save [OF ok _ _ save]) (simp_all add: valid)
    qed
  qed
next
  case (CConsume i o' q at ev)
  obtain t1 g where get: "op_conv_get now t i = (t1, g)" by force
  note stop = op_get_stop [OF ok get, of x r]
  have run: "op_conv_consume cfg now (\<lambda>t. t) t i o' q at ev = (t', r)" using run CConsume by simp
  show ?thesis
  proof (cases "\<exists>p c. g = Inr (Some p) \<and> lift_auth (consume_exact_research_authorization p o' q at) = Inr c")
    case True
    then obtain p c where g: "g = Inr (Some p)" "lift_auth (consume_exact_research_authorization p o' q at) = Inr c"
      by blast
    note keep = lift_consume_keeps [OF g(2)]
    have "op_conv_ok cfg t1" "op_conv_view t1 i = Some p"
      using op_get_effect [OF ok get] g(1) by blast+
    then have "cx_decision_context p \<noteq> None \<longrightarrow> cv_owner p \<noteq> None"
      using op_conv_ok_row by (fastforce simp: well_formed_def)
    then have valid: "cx_decision_context c \<noteq> None \<longrightarrow> cv_owner c \<noteq> None" by (simp add: keep)
    have save: "op_conv_save cfg now t1 c (Some ev) = (t', r)"
      using run get g by (simp add: op_conv_consume_def)
    have "op_conv_get now t i = (t1, Inr (Some p))" using get g by simp
    moreover have "expects x \<in> {None, Some ev}" using CConsume by simp
    ultimately show ?thesis by (intro op_get_save [OF ok _ valid save])
  next
    case False
    then have "t' = t1"
      using run get by (auto simp: op_conv_consume_def split: sum.splits option.splits)
    then show ?thesis using stop by simp
  qed
qed (use assms(4-6) in simp_all)

lemma op_step_swaps:
  fixes x :: "'f conv_op"
  assumes ok: "op_conv_ok cfg t" and run: "op_conv_apply cfg now (\<lambda>t. t) t x = (t', r)"
    and "rebinds x \<noteq> None \<or> advances x \<noteq> None \<or> (\<exists>i o' d ev. x = CBind i o' d ev)"
  shows "op_conv_ok cfg t' \<and> (\<forall>j. conv_effect now x (op_conv_view t j) (op_conv_view t' j) r)"
proof (cases x)
  case (CBind i o' d ev)
  obtain t1 q where get: "op_conv_get now t i = (t1, q)" by force
  note stop = op_get_stop [OF ok get, of x r]
  have "op_conv_bind cfg now (\<lambda>t. t) t i o' d ev = (t', r)" using run CBind by simp
  then consider (halt) "t' = t \<or> t' = t1"
    | (swap) p where "q = Inr (Some p)" "\<not> changes_owner p (bound_context cfg now p o' d)"
      "cx_decision_context p \<in> {None, Some d}" "require_context_membership (bound_context cfg now p o' d) = Inr ()"
      "op_conv_swap cfg t1 (bound_context cfg now p o' d) (expected_or ev (cx_version p)) = (t', r)"
    using get unfolding op_conv_bind_def Let_def
    by (auto simp: changes_owner_def split: sum.splits option.splits if_split_asm)
  then show ?thesis
  proof cases
    case halt
    then show ?thesis using stop ok by (auto simp: conv_effect_def)
  next
    case swap
    have found: "op_conv_get now t i = (t1, Inr (Some p))" using get swap(1) by simp
    have "keeps_owner x p (bound_context cfg now p o' d)"
      using swap(2) by (auto simp: keeps_owner_def changes_owner_def split: option.splits)
    moreover have "keeps_decision x p (bound_context cfg now p o' d)"
      using swap(3) by (auto simp: keeps_decision_def)
    moreover have "expects x \<in> {None, Some (expected_or ev (cx_version p))}"
      using CBind expected_or_expects [OF refl] by simp
    ultimately show ?thesis by (intro op_get_swap [OF ok found _ swap(4) _ swap(5)]) simp_all
  qed
next
  case (CRebind i cur new ev)
  obtain t1 q where get: "op_conv_get now t i = (t1, q)" by force
  note stop = op_get_stop [OF ok get, of x r]
  have "op_conv_rebind cfg now (\<lambda>t. t) t i cur new ev = (t', r)" using run CRebind by simp
  then consider (halt) "t' = t \<or> t' = t1"
    | (swap) p w where "q = Inr (Some p)" "cv_owner p = Some w" "has_same_identity w cur"
      "op_conv_swap cfg t1 (p\<lparr>cv_owner := Some new, cx_expires_at := plus_seconds now (ttl_seconds cfg)\<rparr>)
         (expected_or ev (cx_version p)) = (t', r)"
    using get unfolding op_conv_rebind_def Let_def
    by (auto split: sum.splits option.splits if_split_asm)
  then show ?thesis
  proof cases
    case halt
    then show ?thesis using stop ok by (auto simp: conv_effect_def)
  next
    case swap
    define c where "c = p\<lparr>cv_owner := Some new, cx_expires_at := plus_seconds now (ttl_seconds cfg)\<rparr>"
    have found: "op_conv_get now t i = (t1, Inr (Some p))" using get swap(1) by simp
    have "op_conv_view t i = Some p" using op_get_effect [OF ok found] by auto
    then have "well_formed cfg p" using op_conv_ok_row [OF ok] by blast
    then have "require_context_membership c = Inr ()"
      by (simp add: well_formed_def c_def member_owner_expiry)
    moreover have "keeps_owner x p c" "keeps_decision x p c"
      using swap(2,3) by (simp_all add: keeps_owner_def keeps_decision_def c_def CRebind)
    moreover have "expects x \<in> {None, Some (expected_or ev (cx_version p))}"
      using CRebind expected_or_expects [OF refl] by simp
    moreover have "cx_decision_context c \<noteq> None \<longrightarrow> cv_owner c \<noteq> None" "cv_id c = cv_id p"
      by (simp_all add: c_def)
    ultimately show ?thesis by (intro op_get_swap [OF ok found _ _ _ swap(4) [folded c_def]])
  qed
next
  case (CAdvance i o' d ev)
  obtain t1 q where get: "op_conv_get now t i = (t1, q)" by force
  note stop = op_get_stop [OF ok get, of x r] and g = op_get_effect [OF ok get]
  have load: "op_conv_load t1 i = Inr (op_conv_view t1 i)" by (rule op_conv_load_view [OF conjunct1 [OF g]])
  have "op_conv_advance cfg now (\<lambda>t. t) t i o' d ev = (t', r)" using run CAdvance by simp
  then consider (halt) "t' = t \<or> t' = t1"
    | (swap) p where "q = Inr (Some p)" "cx_version p = expected_or ev (cx_version p)"
      "require_verified_research_context_advance p (bound_context cfg now p o' d) = Inr ()"
      "op_conv_swap cfg t1 (bound_context cfg now p o' d) (expected_or ev (cx_version p)) = (t', r)"
  proof -
    assume a: "op_conv_advance cfg now (\<lambda>t. t) t i o' d ev = (t', r)"
      and halt: "t' = t \<or> t' = t1 \<Longrightarrow> thesis"
      and swap: "\<And>p. q = Inr (Some p) \<Longrightarrow> cx_version p = expected_or ev (cx_version p) \<Longrightarrow>
        require_verified_research_context_advance p (bound_context cfg now p o' d) = Inr () \<Longrightarrow>
        op_conv_swap cfg t1 (bound_context cfg now p o' d) (expected_or ev (cx_version p)) = (t', r) \<Longrightarrow> thesis"
    show thesis
    proof (cases "\<exists>p. q = Inr (Some p)")
      case False
      then show ?thesis using a get halt
        unfolding op_conv_advance_def by (auto split: sum.splits option.splits)
    next
      case True
      then obtain p where p: "q = Inr (Some p)" by blast
      then have view: "op_conv_view t1 i = Some p" using g by blast
      show ?thesis
        using a get halt swap [OF p] unfolding op_conv_advance_def Let_def
        by (auto simp: p load view split: sum.splits option.splits if_split_asm)
    qed
  qed
  then show ?thesis
  proof cases
    case halt
    then show ?thesis using stop ok by (auto simp: conv_effect_def)
  next
    case swap
    have found: "op_conv_get now t i = (t1, Inr (Some p))" using get swap(1) by simp
    obtain d0 w where adv: "cx_decision_context p = Some d0" "next_reference d0 d" "cv_owner p = Some w"
      "has_same_identity w o'" "require_context_membership (bound_context cfg now p o' d) = Inr ()"
      using advance_next [OF swap(3)] by auto
    have "keeps_owner x p (bound_context cfg now p o' d)" "keeps_decision x p (bound_context cfg now p o' d)"
      using adv by (simp_all add: keeps_owner_def keeps_decision_def CAdvance)
    moreover have "expects x \<in> {None, Some (expected_or ev (cx_version p))}"
      using CAdvance expected_or_expects [OF refl] by simp
    ultimately show ?thesis by (intro op_get_swap [OF ok found _ adv(5) _ swap(4)]) simp_all
  qed
qed (use assms(3) in auto)

lemma op_step:
  assumes "op_conv_ok cfg t" and "valid_op x" and "op_conv_apply cfg now (\<lambda>t. t) t x = (t', r)"
  shows "op_conv_ok cfg t' \<and> (\<forall>j. conv_effect now x (op_conv_view t j) (op_conv_view t' j) r)"
  using op_step_saves [OF assms] op_step_swaps [OF assms(1,3)] by blast

interpretation op_conv: conversation_repository cfg "\<lambda>now. op_conv_apply cfg now (\<lambda>t. t)" "op_conv_ok cfg" op_conv_view
  for cfg :: conv_settings
proof
  fix s i and c :: "'a conversation_context"
  assume "op_conv_ok cfg s" "op_conv_view s i = Some c"
  then show "cv_id c = i \<and> well_formed cfg c" using op_conv_ok_row by blast
next
  fix s x now s' and r :: "'a conv_answer"
  assume "op_conv_ok cfg s" "valid_op x" "op_conv_apply cfg now (\<lambda>t. t) s x = (s', r)"
  then show "op_conv_ok cfg s' \<and> (\<forall>i. conv_effect now x (op_conv_view s i) (op_conv_view s' i) r)" by (rule op_step)
qed


section \<open>Interleaved sessions\<close>

fun addresses :: "'f conv_op \<Rightarrow> string option" where
  "addresses (CBind i _ _ _) = Some i"
| "addresses (CAdvance i _ _ _) = Some i"
| "addresses (CRebind i _ _ _) = Some i"
| "addresses (CAppend _ i _ _) = Some i"
| "addresses (CConsume i _ _ _ _) = Some i"
| "addresses _ = None"

lemma op_swap_stale:
  assumes "op_conv_ok cfg t" and "op_conv_view t (cv_id c) = Some q" and "cx_version q \<noteq> e"
  shows "\<exists>x. op_conv_swap cfg t c e = (t, Inl x)"
proof (cases "check_context (stored_context cfg c (e + 1))")
  case (Inl x)
  then show ?thesis by (simp add: op_conv_swap_def)
next
  case (Inr st)
  have "dict_ok t" using assms(1) by (simp add: op_conv_ok_def)
  moreover have "op_seq row \<noteq> e" if "dict_get t (cv_id c) = Some row" for row
    using that assms by (auto simp: op_conv_ok_def op_conv_view_def)
  ultimately have none: "\<forall>(k, r)\<in>set t. \<not> (k = cv_id c \<and> op_seq r = e)"
    by (auto simp: dict_get_in_set)
  have "sql_update (\<lambda>k r. k = cv_id c \<and> op_seq r = e) f t = (t, [])" for f
    using sql_update_none_id [OF none, of f] none by (auto simp: sql_update_def filter_empty_conv)
  then have "compare_and_swap t (cv_id c) st e (e + 1) w = (t, False)" for w
    by (simp add: compare_and_swap_def)
  then show ?thesis using Inr by (simp add: op_conv_swap_def)
qed

lemma op_save_stale:
  assumes "op_conv_ok cfg t" and "op_conv_view t (cv_id c) = Some q" and "cx_version q \<noteq> e"
  shows "\<exists>x. op_conv_save cfg now t c (Some e) = (t, Inl x)"
proof -
  have swap: "\<exists>x. op_conv_swap cfg t (stored_context cfg c v) e = (t, Inl x)" for v
    using op_swap_stale [OF assms(1), of "stored_context cfg c v" q e] assms(2,3) by simp
  show ?thesis
    unfolding op_conv_save_def Let_def op_conv_load_view [OF assms(1)] assms(2) expected_or_def
    using swap [of "cx_version c"] by (auto split: sum.split)
qed

text \<open>
  A session that read version v, while another committed a different version in between, writes nothing: it
  raises, or, where the reference was already the one asked for, returns what it read.
\<close>

lemma op_interleaved:
  fixes x :: "'f conv_op"
  assumes get: "op_conv_get now t i = (t1, Inr (Some p))" and x: "addresses x = Some i"
    and "expects x \<in> {None, Some (cx_version p)}" and ok: "op_conv_ok cfg (others t1)"
    and q: "op_conv_view (others t1) i = Some q" "cx_version q \<noteq> cx_version p" and id: "cv_id p = i"
    and run: "op_conv_apply cfg now others t x = (t', r)"
  shows "(t' = t \<or> t' = t1 \<or> t' = others t1) \<and> (\<forall>c. r = Inr c \<longrightarrow> advances x \<noteq> None \<and> c = p)"
proof (cases x)
  case (CBind j o' d ev)
  then have j: "j = i" "expected_or ev (cx_version p) = cx_version p"
    using x assms(3) by (auto simp: expected_or_def)
  obtain e where "op_conv_swap cfg (others t1) (bound_context cfg now p o' d) (cx_version p) = (others t1, Inl e)"
    using op_swap_stale [OF ok, of "bound_context cfg now p o' d" q "cx_version p"] q id by auto
  then show ?thesis
    using run CBind get by (auto simp: op_conv_bind_def Let_def j split: sum.splits if_split_asm)
next
  case (CAdvance j o' d ev)
  then have j: "j = i" "expected_or ev (cx_version p) = cx_version p"
    using x assms(3) by (auto simp: expected_or_def)
  show ?thesis
    using run CAdvance get q
    by (auto simp: op_conv_advance_def Let_def j op_conv_load_view [OF ok] split: sum.splits if_split_asm)
next
  case (CRebind j cur new ev)
  then have j: "j = i" "expected_or ev (cx_version p) = cx_version p"
    using x assms(3) by (auto simp: expected_or_def)
  let ?c = "p\<lparr>cv_owner := Some new, cx_expires_at := plus_seconds now (ttl_seconds cfg)\<rparr>"
  obtain e where "op_conv_swap cfg (others t1) ?c (cx_version p) = (others t1, Inl e)"
    using op_swap_stale [OF ok, of ?c q "cx_version p"] q id by auto
  then show ?thesis
    using run CRebind get by (auto simp: op_conv_rebind_def Let_def j split: sum.splits if_split_asm)
next
  case (CAppend n j u ev)
  then have j: "j = i" "expected_or ev (cx_version p) = cx_version p"
    using x assms(3) by (auto simp: expected_or_def)
  obtain e where "op_conv_save cfg now (others t1) (turned_context cfg now p u) (Some (cx_version p)) =
      (others t1, Inl e)"
    using op_save_stale [OF ok, of "turned_context cfg now p u" q "cx_version p"] q id by auto
  then show ?thesis
    using run CAppend get by (auto simp: op_conv_append_def Let_def j split: sum.splits)
next
  case (CConsume j o' qq at ev)
  then have j: "j = i" "ev = cx_version p" using x assms(3) by auto
  show ?thesis
  proof (cases "lift_auth (consume_exact_research_authorization p o' qq at)")
    case (Inl e)
    then show ?thesis using run CConsume get by (auto simp: op_conv_consume_def j)
  next
    case (Inr c)
    obtain e where "op_conv_save cfg now (others t1) c (Some (cx_version p)) = (others t1, Inl e)"
      using op_save_stale [OF ok, of c q "cx_version p"] q id lift_consume_keeps(3) [OF Inr] by auto
    then show ?thesis using run CConsume get Inr by (auto simp: op_conv_consume_def j)
  qed
qed (use x in simp_all)

end
