(* ===== verification/ConversationAgree.thy ===== *)
theory ConversationAgree
  imports ConversationFacts
begin

text \<open>
  The two conversation repositories answer alike on conversations that have not expired: every save in closed
  form, then each operation, from equal rows, with the same rows and the same answer.
\<close>

section \<open>Both saves in closed form\<close>

definition no_late :: "datetime \<Rightarrow> (string \<Rightarrow> 'f conversation_context option) \<Rightarrow> bool" where
  "no_late now rows = (\<forall>i p. rows i = Some p \<longrightarrow> is_expired now p = Inr False)"

definition may_save ::
  "datetime \<Rightarrow> (string \<Rightarrow> 'f conversation_context option) \<Rightarrow> 'f conversation_context \<Rightarrow> int \<Rightarrow> bool" where
  "may_save now rows c e =
     (require_active_owner now (cv_id c) (cv_owner c) = Inr () \<and>
      require_stable_decision_context (rows (cv_id c)) c = Inr () \<and>
      (case rows (cv_id c) of None \<Rightarrow> e = 0 | Some p \<Rightarrow> e = cx_version p \<and> \<not> changes_owner p c))"

definition next_version :: "'f conversation_context option \<Rightarrow> int" where
  "next_version before = (case before of None \<Rightarrow> 1 | Some p \<Rightarrow> cx_version p + 1)"

text \<open>The outcome of a write to \<open>i\<close>: it happened, or it was refused and nothing changed.\<close>

definition write_outcome ::
  "bool \<Rightarrow> string \<Rightarrow> 'f conversation_context \<Rightarrow> (string \<Rightarrow> 'f conversation_context option)
     \<Rightarrow> (string \<Rightarrow> 'f conversation_context option) \<Rightarrow> 'f conv_answer \<Rightarrow> bool" where
  "write_outcome b i st before after r =
     (if b then r = Inr st \<and> after = before(i \<mapsto> st) else (\<exists>e. r = Inl e) \<and> after = before)"

lemma unit_sum [simp]: "(\<forall>u :: unit. r \<noteq> Inr u) \<longleftrightarrow> r \<noteq> Inr ()"
  by auto

lemma mem_get_live:
  "no_late now (dict_get rows) \<Longrightarrow> mem_conv_get now rows i = (rows, Inr (dict_get rows i))"
  by (auto simp: mem_conv_get_def no_late_def split: option.split)

lemma op_get_live:
  "op_conv_ok cfg t \<Longrightarrow> no_late now (op_conv_view t) \<Longrightarrow> op_conv_get now t i = (t, Inr (op_conv_view t i))"
  by (auto simp: op_conv_get_def no_late_def op_conv_load_view split: option.split)

lemma mem_save_form:
  assumes "no_late now (dict_get rows)" and "mem_conv_save cfg now rows c (Some e) = (rows', r)"
  shows "write_outcome (may_save now (dict_get rows) c e) (cv_id c)
    (stored_context cfg c (next_version (dict_get rows (cv_id c)))) (dict_get rows) (dict_get rows') r"
proof -
  let ?p = "dict_get rows (cv_id c)"
  note run = assms(2) [unfolded mem_conv_save_def mem_get_live [OF assms(1)] Let_def expected_or_def]
  show ?thesis
  proof (cases "require_active_owner now (cv_id c) (cv_owner c)")
    case (Inl x)
    then show ?thesis using run by (auto simp: write_outcome_def may_save_def)
  next
    case active: (Inr u)
    show ?thesis
    proof (cases "require_stable_decision_context ?p c")
      case (Inl x)
      then show ?thesis using run active by (auto simp: write_outcome_def may_save_def)
    next
      case (Inr u')
      then show ?thesis
        using run active
        by (cases ?p) (auto simp: write_outcome_def may_save_def next_version_def dict_get_set_map
            split: if_split_asm)
    qed
  qed
qed

lemma op_swap_fresh:
  assumes ok: "op_conv_ok cfg t" and p: "op_conv_view t (cv_id c) = Some p" "cx_version p = e"
    and valid: "cx_decision_context c \<noteq> None \<longrightarrow> cv_owner c \<noteq> None"
    and member: "require_context_membership c = Inr ()"
    and run: "op_conv_swap cfg t c e = (t', r)"
  shows "r = Inr (stored_context cfg c (e + 1)) \<and>
    op_conv_view t' = (op_conv_view t)(cv_id c \<mapsto> stored_context cfg c (e + 1))"
proof -
  have "0 \<le> e" using op_conv_ok_row [OF ok p(1)] p(2) by (auto simp: well_formed_def)
  then have check: "check_context (stored_context cfg c (e + 1)) = Inr (stored_context cfg c (e + 1))"
    using valid by (auto simp: check_context_def)
  have row: "\<exists>row. dict_get t (cv_id c) = Some row \<and> op_seq row = e"
    using op_conv_ok_row [OF ok p(1)] p(2) by auto
  have "dict_ok t" using ok by (simp add: op_conv_ok_def)
  obtain t1 b where cas: "compare_and_swap t (cv_id c) (stored_context cfg c (e + 1)) e (e + 1)
      (owner_key (cv_owner c)) = (t1, b)" by force
  from compare_and_swap_result [OF \<open>dict_ok t\<close> cas] row have b by blast
  then have "r = Inr (stored_context cfg c (e + 1))"
    using run check cas by (simp add: op_conv_swap_def)
  then show ?thesis using op_swap_effect [OF ok run valid member] by auto
qed

lemma op_swap_form:
  assumes ok: "op_conv_ok cfg t" and p: "op_conv_view t (cv_id c) = Some p"
    and valid: "cx_decision_context c \<noteq> None \<longrightarrow> cv_owner c \<noteq> None"
    and member: "require_context_membership c = Inr ()"
    and run: "op_conv_swap cfg t c e = (t', r)"
  shows "write_outcome (e = cx_version p) (cv_id c) (stored_context cfg c (cx_version p + 1))
    (op_conv_view t) (op_conv_view t') r"
proof (cases "e = cx_version p")
  case True
  then show ?thesis using op_swap_fresh [OF ok p _ valid member run] by (simp add: write_outcome_def)
next
  case False
  then obtain x where "op_conv_swap cfg t c e = (t, Inl x)" using op_swap_stale [OF ok p] by metis
  then show ?thesis using run False by (simp add: write_outcome_def)
qed

lemma op_save_form:
  assumes ok: "op_conv_ok cfg t" and valid: "cx_decision_context c \<noteq> None \<longrightarrow> cv_owner c \<noteq> None"
    and short: "length (cx_turns c) \<le> max_turns cfg"
    and run: "op_conv_save cfg now t c (Some e) = (t', r)"
  shows "write_outcome (may_save now (op_conv_view t) c e) (cv_id c)
    (stored_context cfg c (next_version (op_conv_view t (cv_id c)))) (op_conv_view t) (op_conv_view t') r"
proof -
  let ?p = "op_conv_view t (cv_id c)"
  have same: "stored_context cfg c (cx_version c) = c"
    using short by (simp add: stored_context_def last_turns_short)
  note run = run [unfolded op_conv_save_def Let_def expected_or_def same op_conv_load_view [OF ok]]
  show ?thesis
  proof (cases "require_active_owner now (cv_id c) (cv_owner c) = Inr () \<and> require_context_membership c = Inr ()")
    case False
    then have "\<exists>x. r = Inl x" "t' = t" using run by (auto split: sum.splits)
    moreover have "\<not> may_save now (op_conv_view t) c e"
      using False by (auto simp: may_save_def require_stable_decision_context_def split: if_split_asm)
    ultimately show ?thesis by (auto simp: write_outcome_def)
  next
    case True
    show ?thesis
    proof (cases ?p)
      case None
      have stable: "require_stable_decision_context None c = Inr ()"
        using True by (simp add: require_stable_decision_context_def)
      show ?thesis
      proof (cases "e = 0")
        case False
        then show ?thesis using run True None by (auto simp: write_outcome_def may_save_def)
      next
        case zero: True
        have "dict_get t (cv_id c) = None" using None by (simp add: op_conv_view_def)
        then obtain t1 where ins: "insert_versioned t (cv_id c) (c\<lparr>cx_version := 1\<rparr>) 1 (owner_key (cv_owner c)) = Some t1"
          using insert_versioned_None by (metis not_Some_eq)
        have "dict_ok t" using ok by (simp add: op_conv_ok_def)
        from insert_versioned_result [OF this ins]
        have "op_conv_view t1 = (op_conv_view t)(cv_id c \<mapsto> c\<lparr>cx_version := 1\<rparr>)"
          by (simp add: op_conv_view_def fun_eq_iff)
        moreover have "c\<lparr>cx_version := 1\<rparr> = stored_context cfg c 1"
          using short by (simp add: stored_context_def last_turns_short)
        ultimately show ?thesis
          using run True None zero ins stable by (simp add: write_outcome_def may_save_def next_version_def)
      qed
    next
      case (Some p)
      show ?thesis
      proof (cases "changes_owner p c \<or> require_stable_decision_context (Some p) c \<noteq> Inr ()")
        case bad: True
        then have "\<exists>x. r = Inl x" "t' = t"
          using run True Some by (auto split: if_split_asm sum.splits)
        then show ?thesis using bad Some by (auto simp: write_outcome_def may_save_def)
      next
        case good: False
        then have swap: "op_conv_swap cfg t c e = (t', r)"
          using run True Some by (auto split: sum.splits)
        show ?thesis
          using op_swap_form [OF ok Some valid _ swap] True good Some
          by (simp add: may_save_def next_version_def)
      qed
    qed
  qed
qed

section \<open>Agreement\<close>

definition same_answer :: "'f conv_answer \<Rightarrow> 'f conv_answer \<Rightarrow> bool" where
  "same_answer r r' = (\<forall>c. r = Inr c \<longleftrightarrow> r' = Inr c)"

lemma outcomes_agree:
  "write_outcome b i st before after r \<Longrightarrow> write_outcome b i st before after' r' \<Longrightarrow>
   after' = after \<and> same_answer r r'"
  by (auto simp: write_outcome_def same_answer_def split: if_split_asm)

lemma refused_agree: "same_answer (Inl e) (Inl e')"
  by (simp add: same_answer_def)

text \<open>Equal live rows on both sides, none of them expired.\<close>

definition live_pair :: "conv_settings \<Rightarrow> datetime \<Rightarrow> 'f conv_rows \<Rightarrow> 'f conv_table \<Rightarrow> bool" where
  "live_pair cfg now rows t =
     (mem_conv_ok cfg rows \<and> op_conv_ok cfg t \<and> op_conv_view t = dict_get rows \<and> no_late now (dict_get rows))"

lemma live_pair_parts:
  assumes "live_pair cfg now rows t"
  shows "mem_conv_ok cfg rows" "op_conv_ok cfg t" "op_conv_view t = dict_get rows" "no_late now (dict_get rows)"
  using assms by (simp_all add: live_pair_def)

lemma gets:
  assumes lp: "live_pair cfg now rows t"
  shows "mem_conv_get now rows i = (rows, Inr (dict_get rows i))" "op_conv_get now t i = (t, Inr (dict_get rows i))"
    "op_conv_load t i = Inr (dict_get rows i)"
  using mem_get_live [of now rows i] op_get_live [of cfg t now i] op_conv_load_view [of cfg t i] live_pair_parts [OF lp]
  by simp_all

lemma row_ok: "live_pair cfg now rows t \<Longrightarrow> dict_get rows i = Some p \<Longrightarrow> cv_id p = i \<and> well_formed cfg p"
  by (simp add: live_pair_def mem_conv_ok_def)

lemma expected_or_Some [simp]: "expected_or (Some e) v = e"
  by (simp add: expected_or_def)

lemma save_expected:
  "mem_conv_save cfg now rows c ev = mem_conv_save cfg now rows c (Some (expected_or ev (cx_version c)))"
  "op_conv_save cfg now t c ev = op_conv_save cfg now t c (Some (expected_or ev (cx_version c)))"
  unfolding mem_conv_save_def op_conv_save_def expected_or_Some by (rule refl)+

lemma saves:
  assumes lp: "live_pair cfg now rows t" and "cx_decision_context c \<noteq> None \<longrightarrow> cv_owner c \<noteq> None" and "length (cx_turns c) \<le> max_turns cfg"
    and "mem_conv_save cfg now rows c (Some e) = (rows', r)" and "op_conv_save cfg now t c (Some e) = (t', r')"
  shows "op_conv_view t' = dict_get rows' \<and> same_answer r r'"
  using outcomes_agree [OF mem_save_form [OF live_pair_parts(4) [OF lp] assms(4)]
      op_save_form [OF live_pair_parts(2) [OF lp] assms(2,3,5), unfolded live_pair_parts(3) [OF lp]]]
  by blast

text \<open>Both write the row they read when the version is the expected one.\<close>

lemma swaps:
  assumes lp: "live_pair cfg now rows t" and "dict_get rows i = Some p" and "cv_id c = i" and "length (cx_turns c) \<le> max_turns cfg"
    and "cx_decision_context c \<noteq> None \<longrightarrow> cv_owner c \<noteq> None" and "require_context_membership c = Inr ()"
    and "op_conv_swap cfg t c e = (t', r')"
    and "write_outcome (e = cx_version p) i (stored_context cfg c (cx_version p + 1)) (dict_get rows) (dict_get rows') r"
  shows "op_conv_view t' = dict_get rows' \<and> same_answer r r'"
  using outcomes_agree [OF assms(8)] op_swap_form [OF live_pair_parts(2) [OF lp] _ assms(5-7), of p]
    assms(2,3) live_pair_parts(3) [OF lp] by simp

lemma saves_agree:
  fixes x :: "'f conv_op"
  assumes lp: "live_pair cfg now rows t" and "valid_op x" and "\<forall>c ev. x = CSave c ev \<longrightarrow> length (cx_turns c) \<le> max_turns cfg"
    and mem: "mem_conv_apply cfg now rows x = (rows', r)" and op: "op_conv_apply cfg now (\<lambda>t. t) t x = (t', r')"
    and "rebinds x = None" and "advances x = None" and "\<forall>i o' d ev. x \<noteq> CBind i o' d ev"
  shows "op_conv_view t' = dict_get rows' \<and> same_answer r r'"
proof -
  note same = live_pair_parts(3) [OF lp] and gets = gets [OF lp] and row_ok = row_ok [OF lp] and saves = saves [OF lp]
  show ?thesis
proof (cases x)
  case (CSave c ev)
  define e where "e = expected_or ev (cx_version c)"
  have "mem_conv_save cfg now rows c (Some e) = (rows', r)" "op_conv_save cfg now t c (Some e) = (t', r')"
    using mem op CSave save_expected [of cfg now _ c ev] by (simp_all add: e_def)
  moreover have "cx_decision_context c \<noteq> None \<longrightarrow> cv_owner c \<noteq> None"
    using assms(2) CSave by (auto simp: check_context_def split: if_split_asm)
  ultimately show ?thesis using saves assms(3) CSave by blast
next
  case (CCreate n ow d)
  define c :: "'f conversation_context" where "c = fresh_context cfg now n ow d"
  show ?thesis
  proof (cases "check_context c")
    case (Inl e)
    have "rows' = rows \<and> r = Inl e"
      using mem CCreate Inl by (auto simp: mem_conv_create_def c_def)
    moreover have "t' = t \<and> r' = Inl e"
      using op CCreate Inl by (auto simp: op_conv_create_def c_def)
    ultimately show ?thesis using same by (simp add: same_answer_def)
  next
    case (Inr c')
    then have c': "c' = c" "cx_decision_context c \<noteq> None \<longrightarrow> cv_owner c \<noteq> None"
      by (auto simp: check_context_def split: if_split_asm)
    have ran: "mem_conv_save cfg now rows c (Some 0) = (rows', r)" "op_conv_save cfg now t c (Some 0) = (t', r')"
      using mem op CCreate Inr c'(1) save_expected [of cfg now _ c None]
      by (simp_all add: mem_conv_create_def op_conv_create_def c_def [symmetric])
        (simp_all add: c_def fresh_context_def expected_or_def)
    show ?thesis by (rule saves [OF c'(2) _ ran]) (simp add: c_def fresh_context_def)
  qed
next
  case (CAppend n i u ev)
  define c where "c = (case dict_get rows i of Some c \<Rightarrow> c
    | None \<Rightarrow> fresh_context cfg now (if i \<noteq> [] then i else n) None None)"
  have valid: "cx_decision_context c \<noteq> None \<longrightarrow> cv_owner c \<noteq> None"
    using row_ok by (auto simp: c_def fresh_context_def well_formed_def split: option.split)
  have forms: "mem_conv_append cfg now n rows i u ev =
      (if dict_get rows i = None \<and> ev \<noteq> None then (rows, Inl (ConversationVersionConflict i (the ev)))
       else case require_context_membership (turned_context cfg now c u) of
         Inl e \<Rightarrow> (rows, Inl e)
       | Inr _ \<Rightarrow> mem_conv_save cfg now rows (turned_context cfg now c u) (Some (expected_or ev (cx_version c))))"
    "op_conv_append cfg now (\<lambda>t. t) n t i u ev =
      (if dict_get rows i = None \<and> ev \<noteq> None then (t, Inl (ConversationVersionConflict i (the ev)))
       else case require_context_membership (turned_context cfg now c u) of
         Inl e \<Rightarrow> (t, Inl e)
       | Inr _ \<Rightarrow> op_conv_save cfg now t (turned_context cfg now c u) (Some (expected_or ev (cx_version c))))"
    by (simp_all only: mem_conv_append_def op_conv_append_def gets c_def Let_def prod.case sum.case)
  have short: "length (cx_turns (turned_context cfg now c u)) \<le> max_turns cfg"
    by (simp add: turned_context_def)
  show ?thesis
    using mem op CAppend same saves [of "turned_context cfg now c u"] valid short
    by (cases "require_context_membership (turned_context cfg now c u)")
      (auto simp: forms same_answer_def split: if_split_asm)
next
  case (CConsume i o' q at ev)
  show ?thesis
  proof (cases "dict_get rows i")
    case None
    then show ?thesis using mem op CConsume same
      by (auto simp: mem_conv_consume_def op_conv_consume_def gets same_answer_def)
  next
    case (Some p)
    show ?thesis
    proof (cases "lift_auth (consume_exact_research_authorization p o' q at)")
      case (Inl e)
      have "rows' = rows \<and> r = Inl e"
        using mem CConsume Some Inl by (auto simp: mem_conv_consume_def gets)
      moreover have "t' = t \<and> r' = Inl e"
        using op CConsume Some Inl by (auto simp: op_conv_consume_def gets)
      ultimately show ?thesis using same by (simp add: same_answer_def)
    next
      case (Inr c)
      note keep = lift_consume_keeps [OF Inr]
      have "cx_decision_context c \<noteq> None \<longrightarrow> cv_owner c \<noteq> None" "length (cx_turns c) \<le> max_turns cfg"
        using row_ok [OF Some] by (auto simp: well_formed_def keep)
      then show ?thesis
        using mem op CConsume Some Inr saves
        by (simp add: mem_conv_consume_def op_conv_consume_def gets)
    qed
  qed
qed (use assms(6-8) in simp_all)
qed

lemma bind_agrees:
  assumes lp: "live_pair cfg now rows t"
    and mem: "mem_conv_bind cfg now rows i o' d ev = (rows', r)"
    and op: "op_conv_bind cfg now (\<lambda>t. t) t i o' d ev = (t', r')"
  shows "op_conv_view t' = dict_get rows' \<and> same_answer r r'"
proof -
  note same = live_pair_parts(3) [OF lp] and gets = gets [OF lp]
  show ?thesis
  proof (cases "\<exists>u p. require_active_owner now i (Some o') = Inr u \<and> dict_get rows i = Some p \<and>
      \<not> changes_owner p (bound_context cfg now p o' d) \<and> cx_decision_context p \<in> {None, Some d}")
    case False
    then have "(rows' = rows \<and> (\<exists>e. r = Inl e)) \<and> (t' = t \<and> (\<exists>e. r' = Inl e))"
      using mem op unfolding mem_conv_bind_def op_conv_bind_def gets Let_def
      by (auto simp: changes_owner_def split: sum.splits option.splits if_split_asm)
    then show ?thesis using same by (auto simp: same_answer_def)
  next
    case True
    then obtain p where p: "require_active_owner now i (Some o') = Inr ()" "dict_get rows i = Some p"
      "\<not> changes_owner p (bound_context cfg now p o' d)" "cx_decision_context p \<in> {None, Some d}" by auto
    define c where "c = bound_context cfg now p o' d"
    define e where "e = expected_or ev (cx_version p)"
    have guard: "\<not> (case cv_owner p of None \<Rightarrow> False | Some w \<Rightarrow> \<not> has_same_identity w o')"
      "\<not> (case cx_decision_context p of None \<Rightarrow> False | Some d' \<Rightarrow> d' \<noteq> d)"
      using p(3,4) by (auto simp: changes_owner_def split: option.splits)
    have ms: "mem_conv_save cfg now rows c (Some e) = (rows', r)"
      using mem guard p by (simp add: mem_conv_bind_def gets c_def e_def)
    have os: "(case require_context_membership c of Inl e \<Rightarrow> (t, Inl e) | Inr _ \<Rightarrow> op_conv_swap cfg t c e) = (t', r')"
      using op guard p by (cases "require_context_membership c") (simp_all add: op_conv_bind_def gets Let_def c_def e_def)
    have id: "cv_id c = i" and wf: "well_formed cfg p" using row_ok [OF lp p(2)] by (simp_all add: c_def)
    have may: "may_save now (dict_get rows) c e \<longleftrightarrow> require_context_membership c = Inr () \<and> e = cx_version p"
      using p id by (auto simp: may_save_def require_stable_decision_context_def c_def)
    have out: "write_outcome (require_context_membership c = Inr () \<and> e = cx_version p) i
        (stored_context cfg c (cx_version p + 1)) (dict_get rows) (dict_get rows') r"
      using mem_save_form [OF live_pair_parts(4) [OF lp] ms] p(2) by (simp add: id may next_version_def)
    show ?thesis
    proof (cases "require_context_membership c")
      case (Inl x)
      then have "dict_get rows' = dict_get rows" "\<exists>e. r = Inl e" using out by (simp_all add: write_outcome_def)
      then show ?thesis using os Inl same by (auto simp: same_answer_def)
    next
      case (Inr u)
      then have swap: "op_conv_swap cfg t c e = (t', r')" and member: "require_context_membership c = Inr ()"
        using os by simp_all
      have "length (cx_turns c) \<le> max_turns cfg" using wf by (simp add: well_formed_def c_def bound_context_def)
      then show ?thesis
        using swaps [OF lp p(2) id _ _ member swap] out member by (simp add: c_def)
    qed
  qed
qed

lemma rebind_agrees:
  assumes lp: "live_pair cfg now rows t"
    and mem: "mem_conv_rebind cfg now rows i cur new ev = (rows', r)"
    and op: "op_conv_rebind cfg now (\<lambda>t. t) t i cur new ev = (t', r')"
  shows "op_conv_view t' = dict_get rows' \<and> same_answer r r'"
proof -
  note same = live_pair_parts(3) [OF lp] and gets = gets [OF lp]
  show ?thesis
  proof (cases "\<exists>u p w. require_active_owner now i (Some new) = Inr u \<and> dict_get rows i = Some p \<and>
      cv_owner p = Some w \<and> has_same_identity w cur")
    case False
    then have "(rows' = rows \<and> (\<exists>e. r = Inl e)) \<and> (t' = t \<and> (\<exists>e. r' = Inl e))"
      using mem op unfolding mem_conv_rebind_def op_conv_rebind_def gets Let_def
      by (auto split: sum.splits option.splits if_split_asm)
    then show ?thesis using same by (auto simp: same_answer_def)
  next
    case True
    then obtain p w where p: "require_active_owner now i (Some new) = Inr ()" "dict_get rows i = Some p"
      "cv_owner p = Some w" "has_same_identity w cur" by auto
    define c where "c = p\<lparr>cv_owner := Some new, cx_expires_at := plus_seconds now (ttl_seconds cfg)\<rparr>"
    define e where "e = expected_or ev (cx_version p)"
    have id: "cv_id p = i" and wf: "well_formed cfg p" using row_ok [OF lp p(2)] by simp_all
    have c: "cv_id c = i" "length (cx_turns c) \<le> max_turns cfg" "cv_owner c \<noteq> None"
      "require_context_membership c = Inr ()"
      using wf id by (simp_all add: c_def well_formed_def member_owner_expiry)
    have "stored_context cfg c (cx_version p + 1) = p\<lparr>cv_owner := Some new,
        cx_expires_at := plus_seconds now (ttl_seconds cfg), cx_version := cx_version p + 1\<rparr>"
      using wf by (simp add: stored_context_def c_def last_turns_short well_formed_def)
    then have out: "write_outcome (e = cx_version p) i (stored_context cfg c (cx_version p + 1))
        (dict_get rows) (dict_get rows') r"
      using mem p by (auto simp: mem_conv_rebind_def gets e_def Let_def write_outcome_def dict_get_set_map
          split: if_split_asm)
    have swap: "op_conv_swap cfg t c e = (t', r')"
      using op p by (simp add: op_conv_rebind_def gets e_def c_def)
    show ?thesis using swaps [OF lp p(2) c(1,2) _ c(4) swap out] c(3) by simp
  qed
qed

lemma advance_agrees:
  assumes lp: "live_pair cfg now rows t"
    and mem: "mem_conv_advance cfg now rows i o' d ev = (rows', r)"
    and op: "op_conv_advance cfg now (\<lambda>t. t) t i o' d ev = (t', r')"
  shows "op_conv_view t' = dict_get rows' \<and> same_answer r r'"
proof -
  note same = live_pair_parts(3) [OF lp] and gets = gets [OF lp]
  show ?thesis
  proof (cases "\<exists>u p w. require_active_owner now i (Some o') = Inr u \<and> dict_get rows i = Some p \<and>
      cv_owner p = Some w \<and> has_same_identity w o' \<and> cx_decision_context p \<noteq> Some d")
    case False
    then have "rows' = rows \<and> t' = t \<and> same_answer r r'"
      using mem op unfolding mem_conv_advance_def op_conv_advance_def gets Let_def
      by (auto simp: same_answer_def split: sum.splits option.splits if_split_asm)
    then show ?thesis using same by simp
  next
    case True
    then obtain p w where p: "require_active_owner now i (Some o') = Inr ()" "dict_get rows i = Some p"
      "cv_owner p = Some w" "has_same_identity w o'" "cx_decision_context p \<noteq> Some d" by auto
    define c where "c = bound_context cfg now p o' d"
    define e where "e = expected_or ev (cx_version p)"
    have id: "cv_id c = i" and wf: "well_formed cfg p" using row_ok [OF lp p(2)] by (simp_all add: c_def)
    have short: "length (cx_turns c) \<le> max_turns cfg" using wf by (simp add: well_formed_def c_def bound_context_def)
    have forms: "mem_conv_advance cfg now rows i o' d ev =
       (case require_verified_research_context_advance p c of
          Inl e \<Rightarrow> (rows, Inl e)
        | Inr _ \<Rightarrow> if e \<noteq> cx_version p then (rows, Inl (ConversationVersionConflict i e))
            else case require_context_membership (stored_context cfg c (cx_version p + 1)) of
              Inl e \<Rightarrow> (rows, Inl e)
            | Inr _ \<Rightarrow> (dict_set i (stored_context cfg c (cx_version p + 1)) rows,
                Inr (stored_context cfg c (cx_version p + 1))))"
      "op_conv_advance cfg now (\<lambda>t. t) t i o' d ev =
       (case require_verified_research_context_advance p c of
          Inl e \<Rightarrow> (t, Inl e)
        | Inr _ \<Rightarrow> if cx_version p \<noteq> e then (t, Inl (ConversationVersionConflict i e))
            else case require_verified_research_context_advance p c of
              Inl e \<Rightarrow> (t, Inl e)
            | Inr _ \<Rightarrow> op_conv_swap cfg t c e)"
      using p by (cases "require_verified_research_context_advance p c";
        simp add: mem_conv_advance_def op_conv_advance_def gets Let_def flip: c_def e_def)+
    show ?thesis
    proof (cases "require_verified_research_context_advance p c = Inr () \<and> e = cx_version p")
      case False
      then have "rows' = rows \<and> t' = t \<and> same_answer r r'"
        using mem op unfolding forms by (auto simp: same_answer_def split: sum.splits if_split_asm)
      then show ?thesis using same by simp
    next
      case go: True
      then have member: "require_context_membership c = Inr ()" using advance_next [of p c] by blast
      then have "require_context_membership (stored_context cfg c (cx_version p + 1)) = Inr ()"
        by (rule membership_last_turns)
      then have out: "write_outcome (e = cx_version p) i (stored_context cfg c (cx_version p + 1))
          (dict_get rows) (dict_get rows') r"
        using mem go unfolding forms by (auto simp: write_outcome_def dict_get_set_map)
      have swap: "op_conv_swap cfg t c e = (t', r')" using op go unfolding forms by simp
      show ?thesis using swaps [OF lp p(2) id short _ member swap out] by (simp add: c_def)
    qed
  qed
qed

end
