(* ===== verification/ConversationProps.thy ===== *)
theory ConversationProps
  imports ConversationAgree
begin

text \<open>
  The properties of the conversation repositories, over both of them, and the inputs their witnesses use.
\<close>

section \<open>Example conversations\<close>

definition stranger :: "string \<Rightarrow> int \<Rightarrow> conversation_owner" where
  "stranger who expires =
     \<lparr>owner_principal_type = Guest, owner_principal_id = who, owner_session_id = ''session'',
      owner_expires_at = Aware expires\<rparr>"

definition first_context :: "int conversation_context" where
  "first_context = (fresh_context default_conv_settings (Aware 0) ''conv'' (Some (stranger ''p'' (10 ^ 10))) None)
     \<lparr>cx_version := 1\<rparr>"

definition first_turn :: turn_update where
  "first_turn =
     \<lparr>tu_turn = \<lparr>tn_role = ''user'', tn_intent = None, tn_product_ids = [], tn_product_names = [], tn_query = ''q'',
        tn_created_at = Aware 0, tn_turn_id = None, tn_decision_id = None, tn_context_version = None,
        tn_action = None\<rparr>,
      tu_last_intent = None, tu_last_product_ids = [], tu_last_product_names = [], tu_last_category = None\<rparr>"

definition first_rows :: "int conv_rows" where
  "first_rows = [(''conv'', first_context)]"

definition first_table :: "int conv_table" where
  "first_table = [(''conv'', \<lparr>op_payload = first_context, op_seq = 1, op_owner = None\<rparr>)]"

lemmas example_defs = first_context_def first_turn_def first_rows_def first_table_def stranger_def
  fresh_context_def default_conv_settings_def

lemma dict_get_single: "dict_get [(k, v)] = [k \<mapsto> v]"
  by (auto simp: fun_eq_iff)

lemma first_get: "dict_get first_rows = [''conv'' \<mapsto> first_context]"
  "op_conv_view first_table = [''conv'' \<mapsto> first_context]"
  by (auto simp: first_rows_def first_table_def op_conv_view_def fun_eq_iff)

lemma first_well_formed: "cv_id first_context = ''conv''" "well_formed default_conv_settings first_context"
  by (simp_all add: example_defs well_formed_def require_context_membership_def)

lemma first_ok: "mem_conv_ok default_conv_settings first_rows" "op_conv_ok default_conv_settings first_table"
  using first_well_formed by (simp_all add: mem_conv_ok_def op_conv_ok_def first_rows_def first_table_def dict_ok_def)
    (simp add: first_context_def)

lemma first_on_time: "is_expired (Aware 1) first_context = Inr False" "\<not> late (Aware 1) first_context"
  by (simp_all add: example_defs is_expired_def dt_at_most_def and_then_def late_def plus_seconds_def)

lemma first_pair: "live_pair default_conv_settings (Aware 1) first_rows first_table"
  using first_ok first_get first_on_time by (simp add: live_pair_def no_late_def fun_upd_def)

section \<open>Continuity\<close>

text \<open>
  C18: a conversation stays itself.  Whatever is done to a repository, as long as the conversation has not
  expired, it is still there, well formed, with a version that only grew, its owner unchanged unless it was
  rebound, and its decision the same but for verified research advances.  This holds of both repositories.
\<close>

theorem conversation_continuity:
  fixes p :: "'f conversation_context"
  assumes valid: "\<forall>(now, x)\<in>set h. valid_op x"
  shows "(mem_conv_ok cfg rows \<and> alive (mem_conv_apply cfg) dict_get i rows h \<and> dict_get rows i = Some p \<longrightarrow>
      (\<exists>c. dict_get (conv_final (mem_conv_apply cfg) rows h) i = Some c \<and> cv_id c = i \<and> well_formed cfg c \<and>
         continued (\<exists>(now, x)\<in>set h. rebinds x \<noteq> None) p c)) \<and>
    (op_conv_ok cfg t \<and> alive (\<lambda>now. op_conv_apply cfg now (\<lambda>t. t)) op_conv_view i t h \<and>
     op_conv_view t i = Some p \<longrightarrow>
      (\<exists>c. op_conv_view (conv_final (\<lambda>now. op_conv_apply cfg now (\<lambda>t. t)) t h) i = Some c \<and> cv_id c = i \<and>
         well_formed cfg c \<and> continued (\<exists>(now, x)\<in>set h. rebinds x \<noteq> None) p c))"
proof (intro conjI impI, goal_cases)
  case 1
  then show ?case using mem_conv.history [of cfg rows h i p] mem_conv.view_law valid by blast
next
  case 2
  then show ?case using op_conv.history [of cfg t h i p] op_conv.view_law valid by blast
qed

theorem conversation_continuity_witness:
  "\<exists>c. dict_get (conv_final (mem_conv_apply default_conv_settings) first_rows
      [(Aware 1, CAppend ''new'' ''conv'' first_turn (Some 1))]) ''conv'' = Some c \<and> continued False first_context c"
proof -
  let ?h = "[(Aware 1, CAppend ''new'' ''conv'' first_turn (Some 1) :: int conv_op)]"
  have "\<forall>(now, x)\<in>set ?h. valid_op x" by simp
  from conversation_continuity [OF this, of default_conv_settings first_rows "''conv''" first_context]
  show ?thesis using first_ok first_get first_on_time by auto
qed

section \<open>No lost update\<close>

text \<open>
  of two writes that insist on the same version of a conversation, the second changes nothing.  What the
  first stored is what is found afterwards, in either repository.
\<close>

theorem conversation_second_write_refused:
  fixes c :: "'f conversation_context"
  assumes "valid_op x" and "valid_op y" and "expects x = Some e" and "expects y = Some e" and "\<not> late later c"
  shows "(mem_conv_ok cfg m \<and> mem_conv_apply cfg now m x = (m1, Inr c) \<and> dict_get m1 i = Some c \<and>
      dict_get m i \<noteq> Some c \<longrightarrow> dict_get (fst (mem_conv_apply cfg later m1 y)) i = Some c) \<and>
    (op_conv_ok cfg t \<and> op_conv_apply cfg now (\<lambda>t. t) t x = (t1, Inr c) \<and> op_conv_view t1 i = Some c \<and>
      op_conv_view t i \<noteq> Some c \<longrightarrow>
      op_conv_view (fst (op_conv_apply cfg later (\<lambda>t. t) t1 y)) i = Some c)"
proof (intro conjI impI, goal_cases)
  case 1
  then show ?case
    using mem_conv.second_write_refused [of cfg m x now m1 c i e y later] assms
    by (metis prod.collapse)
next
  case 2
  then show ?case
    using op_conv.second_write_refused [of cfg t x now t1 c i e y later] assms
    by (metis prod.collapse)
qed

definition second_context :: "int conversation_context" where
  "second_context =
     stored_context default_conv_settings (turned_context default_conv_settings (Aware 1) first_context first_turn) 2"

lemma first_append:
  "mem_conv_apply default_conv_settings (Aware 1) first_rows (CAppend ''new'' ''conv'' first_turn (Some 1)) =
     ([(''conv'', second_context)], Inr second_context)"
proof -
  have "require_active_owner (Aware 1) ''conv'' (cv_owner first_context) = Inr ()"
    by (simp add: example_defs require_active_owner_def dt_at_most_def and_then_def)
  moreover have "cx_version first_context = 1" "cx_decision_context first_context = None"
    by (simp_all add: first_context_def fresh_context_def)
  moreover have "mem_conv_get (Aware 1) first_rows ''conv'' = (first_rows, Inr (Some first_context))"
    by (simp add: mem_conv_get_def first_get first_on_time)
  moreover have "dict_set ''conv'' c first_rows = [(''conv'', c)]" for c by (simp add: first_rows_def)
  ultimately show ?thesis
    using first_well_formed(1)
    by (simp add: mem_conv_append_def mem_conv_save_def expected_or_def require_context_membership_def
        require_stable_decision_context_def second_context_def changes_owner_def Let_def split: option.split)
qed

theorem conversation_second_write_refused_witness:
  "dict_get (fst (mem_conv_apply default_conv_settings (Aware 2) [(''conv'', second_context)]
     (CAppend ''new'' ''conv'' first_turn (Some 1)))) ''conv'' = Some second_context"
proof -
  let ?x = "CAppend ''new'' ''conv'' first_turn (Some 1) :: int conv_op"
  have "\<not> late (Aware 2) second_context"
    by (simp add: second_context_def stored_context_def turned_context_def example_defs is_expired_def
        dt_at_most_def and_then_def late_def plus_seconds_def)
  moreover have "first_context \<noteq> second_context"
    by (simp add: second_context_def stored_context_def first_context_def)
      (metis conversation_context.select_convs(10) conversation_context.surjective
        conversation_context.update_convs(10) one_eq_numeral_iff semiring_norm(85))
  ultimately show ?thesis
    using conversation_second_write_refused [of ?x ?x 1 "Aware 2" second_context default_conv_settings first_rows
        "Aware 1" "[(''conv'', second_context)]" "''conv''"] first_append first_ok first_get
    by simp
qed

text \<open>
  C25: a session that read a conversation and writes it back in a second transaction cannot overwrite a
  change another session committed in between: it raises and leaves the table as it found it.  Only an advance to the
  reference that is already bound answers, with what it had read.
\<close>

theorem stale_session_writes_nothing:
  fixes x :: "'f conv_op"
  assumes "op_conv_get now t i = (t1, Inr (Some p))" and "addresses x = Some i"
    and "expects x \<in> {None, Some (cx_version p)}" and "op_conv_ok cfg (others t1)"
    and "op_conv_view (others t1) i = Some q" and "cx_version q \<noteq> cx_version p" and "cv_id p = i"
  shows "fst (op_conv_apply cfg now others t x) \<in> {t, t1, others t1} \<and>
    (\<forall>c. snd (op_conv_apply cfg now others t x) = Inr c \<longrightarrow> advances x \<noteq> None \<and> c = p)"
  using op_interleaved [where others = others, OF assms prod.collapse [symmetric]] by auto

lemma second_well_formed: "well_formed default_conv_settings second_context" "cv_id second_context = ''conv''"
  "cx_version second_context = 2"
  by (simp_all add: second_context_def stored_context_def turned_context_def example_defs well_formed_def
      require_context_membership_def last_turns_def)

theorem stale_session_writes_nothing_witness:
  "fst (op_conv_apply default_conv_settings (Aware 1)
      (\<lambda>t. [(''conv'', \<lparr>op_payload = second_context, op_seq = 2, op_owner = None\<rparr>)]) first_table
      (CAppend ''new'' ''conv'' first_turn None))
   \<in> {first_table, [(''conv'', \<lparr>op_payload = second_context, op_seq = 2, op_owner = None\<rparr>)]}"
proof -
  let ?t = "[(''conv'', \<lparr>op_payload = second_context, op_seq = 2, op_owner = None\<rparr>)] :: int conv_table"
  have get: "op_conv_get (Aware 1) first_table ''conv'' = (first_table, Inr (Some first_context))"
    using op_get_live [of default_conv_settings first_table "Aware 1"] first_pair first_get
    by (simp add: live_pair_def)
  have ok: "op_conv_ok default_conv_settings ?t" "op_conv_view ?t ''conv'' = Some second_context"
    using second_well_formed by (simp_all add: op_conv_ok_def op_conv_view_def dict_ok_def)
  have v: "cx_version first_context = 1" by (simp add: first_context_def)
  show ?thesis
    using stale_session_writes_nothing [OF get, of "CAppend ''new'' ''conv'' first_turn None"
        default_conv_settings "\<lambda>t. ?t" second_context] ok second_well_formed first_well_formed v
    by auto
qed

section \<open>Agreement\<close>

lemma one_step_agrees:
  fixes x :: "'f conv_op"
  assumes lp: "live_pair cfg now rows t" and valid: "valid_op x"
    and short: "\<forall>c ev. x = CSave c ev \<longrightarrow> length (cx_turns c) \<le> max_turns cfg"
    and mem: "mem_conv_apply cfg now rows x = (rows', r)"
    and op: "op_conv_apply cfg now (\<lambda>t. t) t x = (t', r')"
  shows "mem_conv_ok cfg rows' \<and> op_conv_ok cfg t' \<and> op_conv_view t' = dict_get rows' \<and> same_answer r r'"
proof -
  have "op_conv_view t' = dict_get rows' \<and> same_answer r r'"
  proof (cases x)
    case (CBind i o' d ev)
    then show ?thesis using bind_agrees [OF lp] mem op by simp
  next
    case (CAdvance i o' d ev)
    then show ?thesis using advance_agrees [OF lp] mem op by simp
  next
    case (CRebind i w w' ev)
    then show ?thesis using rebind_agrees [OF lp] mem op by simp
  qed (use saves_agree [OF lp valid short mem op] in simp_all)
  then show ?thesis
    using mem_conv.step_law [OF _ valid mem] op_conv.step_law [OF _ valid op] live_pair_parts [OF lp] by blast
qed

fun conv_answers ::
  "(datetime \<Rightarrow> 's \<Rightarrow> 'f conv_op \<Rightarrow> 's \<times> 'f conv_answer) \<Rightarrow> 's \<Rightarrow> (datetime \<times> 'f conv_op) list
     \<Rightarrow> 'f conv_answer list" where
  "conv_answers run s [] = []"
| "conv_answers run s ((now, x) # h) = snd (run now s x) # conv_answers run (fst (run now s x)) h"

text \<open>No row expires before the history is over.\<close>

fun in_time ::
  "conv_settings \<Rightarrow> 'f conv_rows \<Rightarrow> (datetime \<times> 'f conv_op) list \<Rightarrow> bool" where
  "in_time cfg rows [] = True"
| "in_time cfg rows ((now, x) # h) =
     (no_late now (dict_get rows) \<and> in_time cfg (fst (mem_conv_apply cfg now rows x)) h)"

text \<open>
  C24: the process-local and the database repository are interchangeable while nothing expires.  From the
  same conversations, over any history of operations (a saved context having at most the turns a repository keeps),
  both give the same conversations back, refuse the same operations, and end with the same rows.
\<close>

theorem conversation_repositories_agree:
  fixes h :: "(datetime \<times> 'f conv_op) list"
  assumes "mem_conv_ok cfg rows" and "op_conv_ok cfg t" and "op_conv_view t = dict_get rows"
    and "in_time cfg rows h"
    and "\<forall>(now, x)\<in>set h. valid_op x \<and> (\<forall>c ev. x = CSave c ev \<longrightarrow> length (cx_turns c) \<le> max_turns cfg)"
  shows "list_all2 same_answer (conv_answers (mem_conv_apply cfg) rows h)
      (conv_answers (\<lambda>now. op_conv_apply cfg now (\<lambda>t. t)) t h) \<and>
    op_conv_view (conv_final (\<lambda>now. op_conv_apply cfg now (\<lambda>t. t)) t h) =
      dict_get (conv_final (mem_conv_apply cfg) rows h)"
  using assms
proof (induction h arbitrary: rows t)
  case Nil
  then show ?case by simp
next
  case (Cons a h)
  obtain now x where a: "a = (now, x)" by force
  obtain rows' r where mem: "mem_conv_apply cfg now rows x = (rows', r)" by force
  obtain t' r' where op: "op_conv_apply cfg now (\<lambda>t. t) t x = (t', r')" by force
  have "live_pair cfg now rows t" using Cons.prems by (simp add: live_pair_def a)
  from one_step_agrees [OF this _ _ mem op] Cons.prems(5)
  have step: "mem_conv_ok cfg rows'" "op_conv_ok cfg t'" "op_conv_view t' = dict_get rows'" "same_answer r r'"
    by (simp_all add: a)
  show ?case using Cons.IH [OF step(1-3)] step(4) Cons.prems(4,5) by (simp add: a mem op)
qed

theorem conversation_repositories_agree_witness:
  "op_conv_view (conv_final (\<lambda>now. op_conv_apply default_conv_settings now (\<lambda>t. t)) first_table
     [(Aware 1, CAppend ''new'' ''conv'' first_turn (Some 1))]) = [''conv'' \<mapsto> second_context]"
proof -
  let ?h = "[(Aware 1, CAppend ''new'' ''conv'' first_turn (Some 1) :: int conv_op)]"
  have "in_time default_conv_settings first_rows ?h" using first_pair by (simp add: live_pair_def)
  moreover have "op_conv_view first_table = dict_get first_rows" by (simp only: first_get)
  ultimately show ?thesis
    using conversation_repositories_agree [OF first_ok, of ?h] first_append by (simp add: fun_upd_def)
qed

section \<open>Where they differ\<close>

text \<open>
  once a conversation has expired the two repositories part.  A save with the version of the expired row
  is refused by the process-local repository, which drops the row first; the database repository, whose save
  does not look at the expiry, accepts it and brings the conversation back.
\<close>

theorem expired_save_diverges:
  fixes p c :: "'f conversation_context"
  assumes "mem_conv_ok cfg rows" and "op_conv_ok cfg t" and "dict_get rows i = Some p"
    and "op_conv_view t i = Some p" and "late now p" and "cv_id c = i" and "check_context c = Inr c"
    and "require_active_owner now i (cv_owner c) = Inr ()" and "\<not> changes_owner p c"
    and "require_stable_decision_context (Some p) c = Inr ()" and "length (cx_turns c) \<le> max_turns cfg"
  shows "(\<exists>e. snd (mem_conv_save cfg now rows c (Some (cx_version p))) = Inl e) \<and>
    dict_get (fst (mem_conv_save cfg now rows c (Some (cx_version p)))) i = None \<and>
    snd (op_conv_save cfg now t c (Some (cx_version p))) = Inr (stored_context cfg c (cx_version p + 1)) \<and>
    op_conv_view (fst (op_conv_save cfg now t c (Some (cx_version p)))) i =
      Some (stored_context cfg c (cx_version p + 1))"
proof -
  have member: "require_context_membership c = Inr ()" "require_context_membership p = Inr ()"
    using assms(10) mem_conv.view_law [OF assms(1,3)]
    by (auto simp: require_stable_decision_context_def well_formed_def split: if_split_asm)
  have pos: "cx_version p \<noteq> 0" using mem_conv.view_law [OF assms(1,3)] by (auto simp: well_formed_def)
  have get: "mem_conv_get now rows i = (dict_del i rows, Inr None)"
    using assms(3,5) by (simp add: mem_conv_get_def late_def)
  have none: "require_stable_decision_context None c = Inr ()"
    using member by (simp add: require_stable_decision_context_def)
  have mem: "mem_conv_save cfg now rows c (Some (cx_version p)) =
      (dict_del i rows, Inl (ConversationVersionConflict i (cx_version p)))"
    using assms(6,8) get none pos by (simp add: mem_conv_save_def expected_or_def)
  obtain t' r where run: "op_conv_save cfg now t c (Some (cx_version p)) = (t', r)" by force
  have "cx_decision_context c \<noteq> None \<longrightarrow> cv_owner c \<noteq> None"
    using assms(7) by (auto simp: check_context_def split: if_split_asm)
  from op_save_form [OF assms(2) this assms(11) run]
  have "r = Inr (stored_context cfg c (cx_version p + 1)) \<and>
      op_conv_view t' = (op_conv_view t)(i \<mapsto> stored_context cfg c (cx_version p + 1))"
    using assms(4,6,8-10) by (simp add: write_outcome_def may_save_def next_version_def)
  then show ?thesis using mem run by (simp add: dict_simps)
qed

theorem expired_save_diverges_witness:
  "snd (op_conv_save default_conv_settings (Aware 2000000000) first_table first_context (Some 1)) =
     Inr (stored_context default_conv_settings first_context 2)"
proof -
  have "late (Aware 2000000000) first_context"
    by (simp add: example_defs is_expired_def dt_at_most_def and_then_def late_def plus_seconds_def)
  moreover have "check_context first_context = Inr first_context"
    "require_active_owner (Aware 2000000000) ''conv'' (cv_owner first_context) = Inr ()"
    "\<not> changes_owner first_context first_context" "length (cx_turns first_context) \<le> max_turns default_conv_settings"
    "require_stable_decision_context (Some first_context) first_context = Inr ()" "cx_version first_context = 1"
    by (simp_all add: example_defs check_context_def require_active_owner_def dt_at_most_def and_then_def
        changes_owner_def require_stable_decision_context_def require_context_membership_def)
  ultimately show ?thesis
    using expired_save_diverges [OF first_ok, of "''conv''" first_context "Aware 2000000000" first_context]
      first_get first_well_formed by simp
qed

end
