(* ===== verification/FailedLogin.thy ===== *)
theory FailedLogin
  imports Prelude
begin

text \<open>
  app/launch/failed_login_lock.py: the failed-login memory of one opaque identity, the policy
  object over a store, and the process-local store.  The two stores (this one and the SQL one in
  FailedLoginSql) are providers of one interface, the locale \<open>failed_login_store\<close>, whose
  laws say what a store's rows look like at millisecond precision after each operation; the
  policy's properties are proved once from those laws.
\<close>

section \<open>Constants and data\<close>

definition FAILED_LOGIN_LOCK_THRESHOLD :: int where
  "FAILED_LOGIN_LOCK_THRESHOLD = 20"

definition FAILED_LOGIN_LOCK_DURATION_SECONDS :: int where
  "FAILED_LOGIN_LOCK_DURATION_SECONDS = 15 * 60"

definition FAILED_LOGIN_FAILURE_RETENTION_SECONDS :: int where
  "FAILED_LOGIN_FAILURE_RETENTION_SECONDS = 15 * 60"

definition IDENTITY_MAX_LENGTH :: nat where
  "IDENTITY_MAX_LENGTH = 128"

text \<open>The exceptions: \<open>FailedLoginLockUnavailable\<close> and the constructor's \<open>ValueError\<close>.\<close>

datatype lock_error = FailedLoginLockUnavailable | LockPolicyMustBePositive

record lock_state =
  identity_key :: string
  failure_count :: int
  locked_until :: "datetime option"
  first_failure_at :: datetime
  last_failure_at :: datetime

type_synonym lock_rows = "(string, lock_state) dict"

section \<open>Module functions\<close>

definition require_opaque_login_identity :: "string \<Rightarrow> lock_error + string" where
  "require_opaque_login_identity i =
     (if i = [] \<or> length i > IDENTITY_MAX_LENGTH \<or> contains_char (CHR ''@'') i
         \<or> contains_char (CHR 0x00) i \<or> list_ex isspace i
      then Inl FailedLoginLockUnavailable else Inr i)"

definition opaque_identity :: "string \<Rightarrow> bool" where
  "opaque_identity i = is_ok (require_opaque_login_identity i)"

definition lock_deadline :: "datetime \<Rightarrow> int \<Rightarrow> datetime" where
  "lock_deadline now lock_duration_seconds = plus_seconds now lock_duration_seconds"

definition retention_cutoff_ms :: "datetime \<Rightarrow> int \<Rightarrow> int" where
  "retention_cutoff_ms now failure_retention_seconds =
     epoch_ms now - failure_retention_seconds * 1000"

definition reapable :: "lock_state \<Rightarrow> int \<Rightarrow> int \<Rightarrow> bool" where
  "reapable s now_ms cutoff_ms =
     (case locked_until s of
        None \<Rightarrow> epoch_ms (last_failure_at s) \<le> cutoff_ms
      | Some l \<Rightarrow> epoch_ms l \<le> now_ms)"

definition purge_memory_rows :: "lock_rows \<Rightarrow> datetime \<Rightarrow> int \<Rightarrow> lock_rows" where
  "purge_memory_rows rows now failure_retention_seconds =
     (let now_ms = epoch_ms now;
          cutoff_ms = retention_cutoff_ms now failure_retention_seconds;
          stale = map fst (filter (\<lambda>(key, s). reapable s now_ms cutoff_ms) rows)
      in dict_del_all stale rows)"

definition unlocked_sequence_expired :: "lock_state \<Rightarrow> datetime \<Rightarrow> int \<Rightarrow> bool" where
  "unlocked_sequence_expired s now failure_retention_seconds =
     (if locked_until s \<noteq> None then False
      else epoch_ms (last_failure_at s) \<le> retention_cutoff_ms now failure_retention_seconds)"

definition lock_expired :: "lock_state \<Rightarrow> datetime \<Rightarrow> bool" where
  "lock_expired s now =
     (case locked_until s of None \<Rightarrow> False | Some l \<Rightarrow> epoch_ms l \<le> epoch_ms now)"

definition next_memory_state ::
  "string \<Rightarrow> lock_state option \<Rightarrow> datetime \<Rightarrow> int \<Rightarrow> int \<Rightarrow> int \<Rightarrow> lock_state" where
  "next_memory_state i current now threshold lock_duration_seconds failure_retention_seconds =
     (let fresh =
        \<lparr>identity_key = i, failure_count = 1,
         locked_until = (if 1 \<ge> threshold then Some (lock_deadline now lock_duration_seconds)
                         else None),
         first_failure_at = now, last_failure_at = now\<rparr>
      in case current of
        None \<Rightarrow> fresh
      | Some c \<Rightarrow>
          if lock_expired c now \<or> unlocked_sequence_expired c now failure_retention_seconds
          then fresh
          else
            (let count = failure_count c + 1;
                 lu = (if (case locked_until c of None \<Rightarrow> False
                           | Some l \<Rightarrow> epoch_ms l > epoch_ms now)
                       then locked_until c
                       else if count \<ge> threshold
                       then Some (lock_deadline now lock_duration_seconds)
                       else None)
             in \<lparr>identity_key = i, failure_count = count, locked_until = lu,
                 first_failure_at = first_failure_at c, last_failure_at = now\<rparr>))"

section \<open>InMemoryFailedLoginLockStore\<close>

definition mem_get :: "lock_rows \<Rightarrow> string \<Rightarrow> lock_error + lock_state option" where
  "mem_get rows i =
     and_then (require_opaque_login_identity i) (\<lambda>i. Inr (dict_get rows i))"

definition mem_record_failure ::
  "lock_rows \<Rightarrow> string \<Rightarrow> datetime \<Rightarrow> int \<Rightarrow> int \<Rightarrow> int \<Rightarrow> lock_rows \<times> (lock_error + lock_state)" where
  "mem_record_failure rows i now threshold lock_duration_seconds failure_retention_seconds =
     (case require_opaque_login_identity i of
        Inl e \<Rightarrow> (rows, Inl e)
      | Inr i \<Rightarrow>
        if threshold < 1 \<or> lock_duration_seconds < 1 \<or> failure_retention_seconds < 1
        then (rows, Inl FailedLoginLockUnavailable)
        else
          (let current_time = aware_utc now;
               rows1 = purge_memory_rows rows current_time failure_retention_seconds;
               current = dict_get rows1 i;
               s = next_memory_state i current current_time threshold lock_duration_seconds
                     failure_retention_seconds
           in (dict_set i s rows1, Inr s)))"

text \<open>
  \<open>clear\<close> pops the row before it checks the retention argument, so an invalid retention raises
  with the row already gone.
\<close>

definition mem_clear ::
  "lock_rows \<Rightarrow> string \<Rightarrow> datetime option \<Rightarrow> int option \<Rightarrow> lock_rows \<times> (lock_error + unit)" where
  "mem_clear rows i now failure_retention_seconds =
     (case require_opaque_login_identity i of
        Inl e \<Rightarrow> (rows, Inl e)
      | Inr i \<Rightarrow>
        (let rows1 = dict_del i rows
         in case (now, failure_retention_seconds) of
              (Some t, Some r) \<Rightarrow>
                if r < 1 then (rows1, Inl FailedLoginLockUnavailable)
                else (purge_memory_rows rows1 (aware_utc t) r, Inr ())
            | _ \<Rightarrow> (rows1, Inr ())))"

section \<open>FailedLoginLock, the policy over a store\<close>

record lock_policy =
  pol_threshold :: int
  pol_lock_duration_seconds :: int
  pol_failure_retention_seconds :: int

definition mk_lock_policy :: "int \<Rightarrow> int \<Rightarrow> int \<Rightarrow> lock_error + lock_policy" where
  "mk_lock_policy threshold lock_duration_seconds failure_retention_seconds =
     (if threshold < 1 \<or> lock_duration_seconds < 1 \<or> failure_retention_seconds < 1
      then Inl LockPolicyMustBePositive
      else Inr \<lparr>pol_threshold = threshold, pol_lock_duration_seconds = lock_duration_seconds,
                pol_failure_retention_seconds = failure_retention_seconds\<rparr>)"

definition default_lock_policy :: lock_policy where
  "default_lock_policy =
     \<lparr>pol_threshold = FAILED_LOGIN_LOCK_THRESHOLD,
      pol_lock_duration_seconds = FAILED_LOGIN_LOCK_DURATION_SECONDS,
      pol_failure_retention_seconds = FAILED_LOGIN_FAILURE_RETENTION_SECONDS\<rparr>"

definition policy_ok :: "lock_policy \<Rightarrow> bool" where
  "policy_ok p = (1 \<le> pol_threshold p \<and> 1 \<le> pol_lock_duration_seconds p
     \<and> 1 \<le> pol_failure_retention_seconds p)"

text \<open>The store is whatever implements the protocol: its operations on its state \<open>'s\<close>.\<close>

record 's lock_store =
  store_get :: "'s \<Rightarrow> string \<Rightarrow> lock_error + lock_state option"
  store_record_failure ::
    "'s \<Rightarrow> string \<Rightarrow> datetime \<Rightarrow> int \<Rightarrow> int \<Rightarrow> int \<Rightarrow> 's \<times> (lock_error + lock_state)"
  store_clear ::
    "'s \<Rightarrow> string \<Rightarrow> datetime option \<Rightarrow> int option \<Rightarrow> 's \<times> (lock_error + unit)"

definition memory_lock_store :: "lock_rows lock_store" where
  "memory_lock_store =
     \<lparr>store_get = mem_get, store_record_failure = mem_record_failure, store_clear = mem_clear\<rparr>"

definition lock_is_locked :: "'s lock_store \<Rightarrow> 's \<Rightarrow> string \<Rightarrow> datetime \<Rightarrow> lock_error + bool" where
  "lock_is_locked st s i now =
     and_then (store_get st s i) (\<lambda>row.
       Inr (case row of
              None \<Rightarrow> False
            | Some r \<Rightarrow> (case locked_until r of
                None \<Rightarrow> False | Some l \<Rightarrow> epoch_ms l > epoch_ms now)))"

definition lock_record_failure ::
  "'s lock_store \<Rightarrow> lock_policy \<Rightarrow> 's \<Rightarrow> string \<Rightarrow> datetime \<Rightarrow> 's \<times> (lock_error + lock_state)" where
  "lock_record_failure st p s i now =
     store_record_failure st s i now (pol_threshold p) (pol_lock_duration_seconds p)
       (pol_failure_retention_seconds p)"

definition lock_clear ::
  "'s lock_store \<Rightarrow> lock_policy \<Rightarrow> 's \<Rightarrow> string \<Rightarrow> datetime option \<Rightarrow> 's \<times> (lock_error + unit)" where
  "lock_clear st p s i now = store_clear st s i now (Some (pol_failure_retention_seconds p))"

text \<open>What the application does to the lock over time, and a run of it.\<close>

datatype lock_op = Fail string datetime | Succeed string "datetime option"

fun lock_step :: "'s lock_store \<Rightarrow> lock_policy \<Rightarrow> 's \<Rightarrow> lock_op \<Rightarrow> 's" where
  "lock_step st p s (Fail i now) = fst (lock_record_failure st p s i now)"
| "lock_step st p s (Succeed i now) = fst (lock_clear st p s i now)"

definition lock_run :: "'s lock_store \<Rightarrow> lock_policy \<Rightarrow> 's \<Rightarrow> lock_op list \<Rightarrow> 's" where
  "lock_run st p s ops = foldl (lock_step st p) s ops"

section \<open>What a store promises\<close>

text \<open>
  A row at the precision the SQL table keeps: milliseconds.  \<open>spec_record\<close> and
  \<open>spec_clear\<close> say what one failure and one success do to the rows as a whole.
\<close>

record lock_view =
  v_count :: int
  v_locked :: "int option"
  v_first :: int
  v_last :: int

definition abs_lock :: "lock_state \<Rightarrow> lock_view" where
  "abs_lock s = \<lparr>v_count = failure_count s, v_locked = map_option epoch_ms (locked_until s),
     v_first = epoch_ms (first_failure_at s), v_last = epoch_ms (last_failure_at s)\<rparr>"

definition spec_reapable :: "int \<Rightarrow> int \<Rightarrow> lock_view \<Rightarrow> bool" where
  "spec_reapable now_ms cutoff_ms v =
     (case v_locked v of None \<Rightarrow> v_last v \<le> cutoff_ms | Some l \<Rightarrow> l \<le> now_ms)"

definition spec_live ::
  "int \<Rightarrow> int \<Rightarrow> (string \<Rightarrow> lock_view option) \<Rightarrow> string \<Rightarrow> lock_view option" where
  "spec_live now_ms cutoff_ms V k =
     (case V k of None \<Rightarrow> None
      | Some v \<Rightarrow> if spec_reapable now_ms cutoff_ms v then None else Some v)"

definition spec_next :: "int \<Rightarrow> int \<Rightarrow> int \<Rightarrow> lock_view option \<Rightarrow> lock_view" where
  "spec_next now_ms threshold duration_ms current =
     (case current of
        None \<Rightarrow> \<lparr>v_count = 1, v_locked = (if threshold \<le> 1 then Some (now_ms + duration_ms) else None),
                 v_first = now_ms, v_last = now_ms\<rparr>
      | Some v \<Rightarrow> v\<lparr>v_count := v_count v + 1,
                    v_locked := (case v_locked v of Some l \<Rightarrow> Some l
                       | None \<Rightarrow> if threshold \<le> v_count v + 1 then Some (now_ms + duration_ms)
                               else None),
                    v_last := now_ms\<rparr>)"

definition spec_record ::
  "(string \<Rightarrow> lock_view option) \<Rightarrow> string \<Rightarrow> datetime \<Rightarrow> int \<Rightarrow> int \<Rightarrow> int
     \<Rightarrow> string \<Rightarrow> lock_view option" where
  "spec_record V i now threshold duration retention =
     (let n = epoch_ms now; L = spec_live n (n - retention * 1000) V
      in L(i \<mapsto> spec_next n threshold (duration * 1000) (L i)))"

definition spec_clear ::
  "(string \<Rightarrow> lock_view option) \<Rightarrow> string \<Rightarrow> datetime option \<Rightarrow> int \<Rightarrow> string \<Rightarrow> lock_view option"
  where
  "spec_clear V i now retention =
     (case now of None \<Rightarrow> V(i := None)
      | Some t \<Rightarrow> spec_live (epoch_ms t) (epoch_ms t - retention * 1000) (V(i := None)))"

fun spec_step :: "lock_policy \<Rightarrow> (string \<Rightarrow> lock_view option) \<Rightarrow> lock_op \<Rightarrow> string \<Rightarrow> lock_view option"
  where
  "spec_step p V (Fail i now) =
     (if opaque_identity i
      then spec_record V i now (pol_threshold p) (pol_lock_duration_seconds p)
             (pol_failure_retention_seconds p)
      else V)"
| "spec_step p V (Succeed i now) =
     (if opaque_identity i then spec_clear V i now (pol_failure_retention_seconds p) else V)"

text \<open>
  \<open>attempts_within r i prev ops\<close>: identity \<open>i\<close> never logs in successfully during
  \<open>ops\<close>, and no operation comes later than \<open>r\<close> seconds after the last failure of
  \<open>i\<close> before it.
\<close>

fun attempts_within :: "int \<Rightarrow> string \<Rightarrow> int \<Rightarrow> lock_op list \<Rightarrow> bool" where
  "attempts_within r i prev [] = True"
| "attempts_within r i prev (Fail j t # ops) =
     (epoch_ms t - r * 1000 < prev \<and>
      attempts_within r i (if j = i then epoch_ms t else prev) ops)"
| "attempts_within r i prev (Succeed j t # ops) =
     (j \<noteq> i \<and> (case t of None \<Rightarrow> True | Some u \<Rightarrow> epoch_ms u - r * 1000 < prev) \<and>
      attempts_within r i prev ops)"

fun is_failure_of :: "string \<Rightarrow> lock_op \<Rightarrow> bool" where
  "is_failure_of i (Fail j _) = (j = i)"
| "is_failure_of i (Succeed _ _) = False"

definition failures_of :: "string \<Rightarrow> lock_op list \<Rightarrow> int" where
  "failures_of i ops = int (length (filter (is_failure_of i) ops))"

text \<open>\<open>before i l ops\<close>: every operation's clock is before \<open>l\<close>, and \<open>i\<close> never succeeds.\<close>

fun before :: "string \<Rightarrow> int \<Rightarrow> lock_op \<Rightarrow> bool" where
  "before i l (Fail j t) = (epoch_ms t < l)"
| "before i l (Succeed j t) = (j \<noteq> i \<and> (case t of None \<Rightarrow> True | Some u \<Rightarrow> epoch_ms u < l))"

lemma attempts_within_prefix: "attempts_within r i q (xs @ ys) \<Longrightarrow> attempts_within r i q xs"
  by (induction r i q xs rule: attempts_within.induct) auto

lemma failures_of_simps [simp]:
  "failures_of i [] = 0"
  "failures_of i (op # ops) = (if is_failure_of i op then 1 else 0) + failures_of i ops"
  by (simp_all add: failures_of_def)

lemmas spec_defs = spec_record_def spec_clear_def spec_live_def spec_next_def spec_reapable_def
  Let_def

text \<open>An active lock survives a step before its deadline, with the same deadline.\<close>

lemma spec_step_keeps_lock:
  assumes "V i = Some v" and "v_locked v = Some l" and "before i l op"
  shows "\<exists>v'. spec_step p V op i = Some v' \<and> v_locked v' = Some l"
  using assms by (cases op) (auto simp: spec_defs split: option.splits)

lemma spec_run_keeps_lock:
  assumes "V i = Some v" and "v_locked v = Some l" and "list_all (before i l) ops"
  shows "\<exists>v'. foldl (spec_step p) V ops i = Some v' \<and> v_locked v' = Some l"
  using assms
proof (induction ops arbitrary: V v)
  case Nil
  then show ?case by simp
next
  case (Cons op ops)
  then obtain v' where "spec_step p V op i = Some v'" and "v_locked v' = Some l"
    using spec_step_keeps_lock [of V i v l op p] by auto
  with Cons show ?case by simp
qed

text \<open>Below the threshold a recent unlocked sequence is counted exactly.\<close>

lemma spec_step_counts:
  assumes "opaque_identity i" and "V i = Some v" and "v_locked v = None"
    and "attempts_within (pol_failure_retention_seconds p) i (v_last v) [op]"
  shows "\<exists>v'. spec_step p V op i = Some v' \<and>
    v_count v' = v_count v + (if is_failure_of i op then 1 else 0) \<and>
    v_last v' = (case op of Fail j t \<Rightarrow> if j = i then epoch_ms t else v_last v | _ \<Rightarrow> v_last v) \<and>
    v_locked v' = (case op of
        Fail j t \<Rightarrow> if j = i \<and> pol_threshold p \<le> v_count v + 1
          then Some (epoch_ms t + pol_lock_duration_seconds p * 1000) else None
      | _ \<Rightarrow> None)"
  using assms by (cases op) (auto simp: spec_defs split: option.splits)

lemma spec_run_counts:
  assumes "opaque_identity i" and "V i = Some v" and "v_locked v = None"
    and "attempts_within (pol_failure_retention_seconds p) i (v_last v) (ops @ rest)"
    and "v_count v + failures_of i ops < pol_threshold p"
  shows "\<exists>v'. foldl (spec_step p) V ops i = Some v' \<and>
    v_count v' = v_count v + failures_of i ops \<and> v_locked v' = None \<and>
    attempts_within (pol_failure_retention_seconds p) i (v_last v') rest"
  using assms
proof (induction ops arbitrary: V v)
  case Nil
  then show ?case by simp
next
  case (Cons op ops)
  have nn: "0 \<le> failures_of i ops" by (simp add: failures_of_def)
  from Cons.prems(4) have w: "attempts_within (pol_failure_retention_seconds p) i (v_last v) [op]"
    by (cases op) auto
  obtain v' where v': "spec_step p V op i = Some v'"
    "v_count v' = v_count v + (if is_failure_of i op then 1 else 0)"
    "v_last v' = (case op of Fail j t \<Rightarrow> if j = i then epoch_ms t else v_last v | _ \<Rightarrow> v_last v)"
    and locked: "v_locked v' = (case op of
        Fail j t \<Rightarrow> if j = i \<and> pol_threshold p \<le> v_count v + 1
          then Some (epoch_ms t + pol_lock_duration_seconds p * 1000) else None
      | _ \<Rightarrow> None)"
    using spec_step_counts [of i V v p op, OF Cons.prems(1-3) w] by blast
  have "v_locked v' = None"
    using locked Cons.prems(5) nn by (cases op) auto
  moreover have "attempts_within (pol_failure_retention_seconds p) i (v_last v') (ops @ rest)"
    using Cons.prems(4) v'(3) by (cases op) auto
  ultimately show ?case
    using Cons.IH [of "spec_step p V op" v'] Cons.prems(1,5) v'(1,2) by auto
qed

text \<open>
  \<open>recent_attempts r i ops\<close>: identity \<open>i\<close> never logs in successfully during \<open>ops\<close>, and from its first
  failure on no operation comes later than \<open>r\<close> seconds after its last failure before it.
\<close>

fun recent_attempts :: "int \<Rightarrow> string \<Rightarrow> lock_op list \<Rightarrow> bool" where
  "recent_attempts r i [] = True"
| "recent_attempts r i (Fail j t # ops) =
     (if j = i then attempts_within r i (epoch_ms t) ops else recent_attempts r i ops)"
| "recent_attempts r i (Succeed j t # ops) = (j \<noteq> i \<and> recent_attempts r i ops)"

text \<open>From no row, the failures are counted exactly until they reach the threshold.\<close>

lemma spec_first_failure:
  assumes "opaque_identity i" and "V i = None"
  shows "spec_step p V (Fail i t) i = Some \<lparr>v_count = 1,
    v_locked = (if pol_threshold p \<le> 1 then Some (epoch_ms t + pol_lock_duration_seconds p * 1000) else None),
    v_first = epoch_ms t, v_last = epoch_ms t\<rparr>"
  using assms by (simp add: spec_defs)

lemma spec_step_still_none:
  assumes "V i = None" and "\<not> is_failure_of i op"
  shows "spec_step p V op i = None"
  using assms by (cases op) (auto simp: spec_defs split: option.splits)

lemma spec_run_from_nothing:
  assumes "opaque_identity i" and "V i = None"
    and "recent_attempts (pol_failure_retention_seconds p) i (ops @ rest)" and "failures_of i ops < pol_threshold p"
  shows "(foldl (spec_step p) V ops i = None \<and> failures_of i ops = 0 \<and>
      recent_attempts (pol_failure_retention_seconds p) i rest) \<or>
    (\<exists>v. foldl (spec_step p) V ops i = Some v \<and> v_count v = failures_of i ops \<and> v_locked v = None \<and>
      attempts_within (pol_failure_retention_seconds p) i (v_last v) rest)"
  using assms(2-)
proof (induction ops arbitrary: V)
  case Nil
  then show ?case by simp
next
  case (Cons op ops)
  show ?case
  proof (cases "is_failure_of i op")
    case False
    with Cons.prems(2,3) have "recent_attempts (pol_failure_retention_seconds p) i (ops @ rest)"
      "failures_of i ops < pol_threshold p" by (cases op; simp)+
    with Cons.IH [of "spec_step p V op"] spec_step_still_none [where V = V and i = i and p = p, OF Cons.prems(1) False] False show ?thesis by simp
  next
    case True
    then obtain t where op: "op = Fail i t" by (cases op) auto
    have "0 \<le> failures_of i ops" by (simp add: failures_of_def)
    with Cons.prems(3) have "\<not> pol_threshold p \<le> 1" by (simp add: op)
    with Cons.prems show ?thesis
      using spec_run_counts [where V = "spec_step p V (Fail i t)" and i = i and p = p, OF assms(1) spec_first_failure [where V = V and i = i and p = p and t = t, OF assms(1) Cons.prems(1)],
          of ops rest]
      by (simp add: op)
  qed
qed

lemma spec_run_reaches_threshold:
  assumes "opaque_identity i" and "V i = None"
    and "recent_attempts (pol_failure_retention_seconds p) i (ops @ [Fail i t])" and "failures_of i ops + 1 = pol_threshold p"
  shows "\<exists>v. foldl (spec_step p) V (ops @ [Fail i t]) i = Some v \<and>
    v_locked v = Some (epoch_ms t + pol_lock_duration_seconds p * 1000)"
proof -
  let ?V = "foldl (spec_step p) V ops"
  consider "?V i = None" "failures_of i ops = 0"
    | v where "?V i = Some v" "v_count v = failures_of i ops" "v_locked v = None"
        "attempts_within (pol_failure_retention_seconds p) i (v_last v) [Fail i t]"
    using spec_run_from_nothing [where V = V and i = i, OF assms(1-3)] assms(4) by auto
  then show ?thesis
  proof cases
    case 1
    then show ?thesis using spec_first_failure [where V = "?V" and i = i and p = p and t = t, OF assms(1) 1(1)] assms(4) by (simp del: spec_step.simps)
  next
    case 2
    then show ?thesis
      using spec_step_counts [where V = "?V" and i = i and op = "Fail i t", OF assms(1) 2(1,3,4)] assms(4) by (auto simp del: spec_step.simps)
  qed
qed

section \<open>The store interface\<close>

locale failed_login_store =
  fixes st :: "'s lock_store"
    and ok :: "'s \<Rightarrow> bool"
    and view :: "'s \<Rightarrow> string \<Rightarrow> lock_view option"
  assumes get_law: "ok s \<Longrightarrow> opaque_identity i \<Longrightarrow>
      \<exists>row. store_get st s i = Inr row \<and> map_option abs_lock row = view s i"
    and record_law: "ok s \<Longrightarrow> opaque_identity i \<Longrightarrow> 1 \<le> thr \<Longrightarrow> 1 \<le> dur \<Longrightarrow> 1 \<le> ret \<Longrightarrow>
      ok (fst (store_record_failure st s i now thr dur ret)) \<and>
      view (fst (store_record_failure st s i now thr dur ret)) = spec_record (view s) i now thr dur ret \<and>
      (\<exists>row. snd (store_record_failure st s i now thr dur ret) = Inr row \<and>
         Some (abs_lock row) = spec_record (view s) i now thr dur ret i)"
    and clear_law: "ok s \<Longrightarrow> opaque_identity i \<Longrightarrow> 1 \<le> ret \<Longrightarrow>
      ok (fst (store_clear st s i t (Some ret))) \<and>
      view (fst (store_clear st s i t (Some ret))) = spec_clear (view s) i t ret \<and>
      snd (store_clear st s i t (Some ret)) = Inr ()"
    and record_refuses: "\<not> opaque_identity i \<Longrightarrow>
      store_record_failure st s i now thr dur ret = (s, Inl FailedLoginLockUnavailable)"
    and clear_refuses: "\<not> opaque_identity i \<Longrightarrow>
      store_clear st s i t r = (s, Inl FailedLoginLockUnavailable)"
begin

lemma step_refines:
  assumes "policy_ok p" and "ok s"
  shows "ok (lock_step st p s op) \<and> view (lock_step st p s op) = spec_step p (view s) op"
proof (cases op)
  case (Fail i now)
  then show ?thesis
    using assms record_law [of s i "pol_threshold p" "pol_lock_duration_seconds p"
        "pol_failure_retention_seconds p" now]
    by (cases "opaque_identity i") (auto simp: lock_record_failure_def policy_ok_def record_refuses)
next
  case (Succeed i now)
  then show ?thesis
    using assms clear_law [of s i "pol_failure_retention_seconds p" now]
    by (cases "opaque_identity i") (auto simp: lock_clear_def policy_ok_def clear_refuses)
qed

lemma run_refines:
  assumes "policy_ok p" and "ok s"
  shows "ok (lock_run st p s ops) \<and> view (lock_run st p s ops) = foldl (spec_step p) (view s) ops"
  using assms(2)
proof (induction ops arbitrary: s)
  case Nil
  then show ?case by (simp add: lock_run_def)
next
  case (Cons op ops)
  then have "ok (lock_step st p s op)" and "view (lock_step st p s op) = spec_step p (view s) op"
    using step_refines [OF assms(1), of s op] by auto
  with Cons.IH [of "lock_step st p s op"] show ?case by (simp add: lock_run_def)
qed

lemma is_locked_view:
  assumes "ok s" and "opaque_identity i"
  shows "lock_is_locked st s i now = Inr (case view s i of None \<Rightarrow> False
    | Some v \<Rightarrow> (case v_locked v of None \<Rightarrow> False | Some l \<Rightarrow> epoch_ms now < l))"
proof -
  obtain row where row: "store_get st s i = Inr row" "map_option abs_lock row = view s i"
    using get_law [OF assms] by blast
  show ?thesis
    by (cases row) (auto simp: lock_is_locked_def row(1) row(2) [symmetric] abs_lock_def split: option.splits)
qed

lemma lock_never_extended:
  assumes "policy_ok p" and "ok s" and "opaque_identity i"
    and "view s i = Some v" and "v_locked v = Some l" and "list_all (before i l) ops"
  shows "lock_is_locked st (lock_run st p s ops) i now = Inr (epoch_ms now < l)"
proof -
  have ok: "ok (lock_run st p s ops)"
    and view: "view (lock_run st p s ops) = foldl (spec_step p) (view s) ops"
    using run_refines [OF assms(1,2)] by auto
  obtain v' where "foldl (spec_step p) (view s) ops i = Some v'" and "v_locked v' = Some l"
    using spec_run_keeps_lock [of "view s" i v l ops p] assms(4-6) by blast
  with is_locked_view [OF ok assms(3)] view show ?thesis by simp
qed

text \<open>A history from no row: unlocked below the threshold, and locked by the failure that reaches it.\<close>

lemma unlocked_below_threshold:
  assumes "policy_ok p" and "ok s" and "opaque_identity i" and "view s i = None"
    and "recent_attempts (pol_failure_retention_seconds p) i ops" and "failures_of i ops < pol_threshold p"
  shows "lock_is_locked st (lock_run st p s ops) i now = Inr False"
proof -
  have ok: "ok (lock_run st p s ops)"
    and view: "view (lock_run st p s ops) = foldl (spec_step p) (view s) ops"
    using run_refines [OF assms(1,2)] by auto
  show ?thesis
    using spec_run_from_nothing [where V = "view s" and i = i and p = p and ops = ops and rest = "[]"] assms(3,4) assms(5,6) is_locked_view [OF ok assms(3), of now]
    by (auto simp: view)
qed

lemma locked_at_threshold:
  assumes "policy_ok p" and "ok s" and "opaque_identity i" and "view s i = None"
    and "recent_attempts (pol_failure_retention_seconds p) i (ops @ [Fail i t])"
    and "failures_of i ops + 1 = pol_threshold p"
  shows "lock_is_locked st (lock_run st p s (ops @ [Fail i t])) i now =
    Inr (epoch_ms now < epoch_ms t + pol_lock_duration_seconds p * 1000)"
proof -
  have ok: "ok (lock_run st p s (ops @ [Fail i t]))"
    and view: "view (lock_run st p s (ops @ [Fail i t])) = foldl (spec_step p) (view s) (ops @ [Fail i t])"
    using run_refines [OF assms(1,2)] by auto
  from spec_run_reaches_threshold [where V = "view s" and i = i, OF assms(3-6)] is_locked_view [OF ok assms(3), of now] show ?thesis
    by (auto simp: view simp del: foldl_append)
qed

end

section \<open>The process-local store is a provider\<close>

definition mem_view :: "lock_rows \<Rightarrow> string \<Rightarrow> lock_view option" where
  "mem_view rows i = map_option abs_lock (dict_get rows i)"

lemma opaque_identity_iff: "opaque_identity i \<longleftrightarrow> require_opaque_login_identity i = Inr i"
  by (simp add: opaque_identity_def require_opaque_login_identity_def)

lemma not_opaque_identity_iff:
  "\<not> opaque_identity i \<longleftrightarrow> require_opaque_login_identity i = Inl FailedLoginLockUnavailable"
  by (simp add: opaque_identity_def require_opaque_login_identity_def)

lemma reapable_abs: "reapable s n c = spec_reapable n c (abs_lock s)"
  by (cases "locked_until s") (simp_all add: reapable_def spec_reapable_def abs_lock_def)

lemma mem_view_purge:
  assumes "dict_ok rows"
  shows "mem_view (purge_memory_rows rows now ret) =
    spec_live (epoch_ms now) (epoch_ms now - ret * 1000) (mem_view rows)"
proof
  fix k
  show "mem_view (purge_memory_rows rows now ret) k =
    spec_live (epoch_ms now) (epoch_ms now - ret * 1000) (mem_view rows) k"
    using assms
    by (simp add: mem_view_def purge_memory_rows_def Let_def dict_purge_get spec_live_def
        retention_cutoff_ms_def reapable_abs split: option.splits)
qed

lemma dict_ok_purge [intro, simp]: "dict_ok rows \<Longrightarrow> dict_ok (purge_memory_rows rows now ret)"
  by (simp add: purge_memory_rows_def Let_def)

text \<open>A row that survived the purge is extended, and only such a row.\<close>

lemma next_memory_state_abs:
  assumes "case c of None \<Rightarrow> True
    | Some r \<Rightarrow> \<not> spec_reapable (epoch_ms now) (epoch_ms now - ret * 1000) (abs_lock r)"
  shows "abs_lock (next_memory_state i c now thr dur ret) =
    spec_next (epoch_ms now) thr (dur * 1000) (map_option abs_lock c)"
  using assms
  by (auto simp: next_memory_state_def Let_def abs_lock_def spec_next_def spec_reapable_def
      lock_expired_def unlocked_sequence_expired_def retention_cutoff_ms_def lock_deadline_def
      split: option.splits)

lemma spec_live_not_reapable:
  "spec_live n c V k = Some v \<Longrightarrow> \<not> spec_reapable n c v"
  by (auto simp: spec_live_def split: option.splits if_splits)

lemma mem_record_refines:
  assumes "dict_ok rows" and "opaque_identity i" and "1 \<le> thr" and "1 \<le> dur" and "1 \<le> ret"
  shows "dict_ok (fst (mem_record_failure rows i now thr dur ret)) \<and>
    mem_view (fst (mem_record_failure rows i now thr dur ret)) =
      spec_record (mem_view rows) i now thr dur ret \<and>
    (\<exists>row. snd (mem_record_failure rows i now thr dur ret) = Inr row \<and>
       Some (abs_lock row) = spec_record (mem_view rows) i now thr dur ret i)"
proof -
  let ?t = "aware_utc now"
  let ?n = "epoch_ms now"
  let ?rows1 = "purge_memory_rows rows ?t ret"
  let ?s = "next_memory_state i (dict_get ?rows1 i) ?t thr dur ret"
  let ?L = "spec_live ?n (?n - ret * 1000) (mem_view rows)"
  have run: "mem_record_failure rows i now thr dur ret = (dict_set i ?s ?rows1, Inr ?s)"
    using assms(2-5) by (simp add: mem_record_failure_def opaque_identity_iff Let_def)
  have live: "mem_view ?rows1 = ?L"
    using mem_view_purge [OF assms(1), of ?t ret] by simp
  have "abs_lock ?s = spec_next ?n thr (dur * 1000) (?L i)"
    using next_memory_state_abs [where c = "dict_get ?rows1 i" and now = ?t and ret = ret and i = i and thr = thr and dur = dur]
      spec_live_not_reapable [of ?n "?n - ret * 1000" "mem_view rows" i]
    by (auto simp: live [symmetric] mem_view_def split: option.splits)
  moreover have "mem_view (dict_set i ?s ?rows1) = ?L(i \<mapsto> abs_lock ?s)"
    by (rule ext) (simp add: mem_view_def dict_simps live [symmetric])
  ultimately show ?thesis
    using assms(1) unfolding run by (simp add: spec_record_def Let_def)
qed

lemma mem_clear_refines:
  assumes "dict_ok rows" and "opaque_identity i" and "1 \<le> ret"
  shows "dict_ok (fst (mem_clear rows i t (Some ret))) \<and>
    mem_view (fst (mem_clear rows i t (Some ret))) = spec_clear (mem_view rows) i t ret \<and>
    snd (mem_clear rows i t (Some ret)) = Inr ()"
proof -
  have del: "mem_view (dict_del i rows) = (mem_view rows)(i := None)"
    by (rule ext) (simp add: mem_view_def dict_simps)
  show ?thesis
    using assms mem_view_purge [of "dict_del i rows"]
    by (cases t) (auto simp: mem_clear_def opaque_identity_iff spec_clear_def del)
qed

interpretation mem_lock: failed_login_store memory_lock_store dict_ok mem_view
proof unfold_locales
  fix s :: lock_rows and i
  assume "dict_ok s" and "opaque_identity i"
  then show "\<exists>row. store_get memory_lock_store s i = Inr row \<and> map_option abs_lock row = mem_view s i"
    by (simp add: memory_lock_store_def mem_get_def opaque_identity_iff mem_view_def)
qed (use mem_record_refines mem_clear_refines in
  \<open>auto simp: memory_lock_store_def mem_record_failure_def mem_clear_def not_opaque_identity_iff\<close>)

section \<open>Properties\<close>

text \<open>Concrete values the witnesses share.\<close>

lemma opaque_k: "opaque_identity ''k''"
  by (simp add: opaque_identity_def require_opaque_login_identity_def IDENTITY_MAX_LENGTH_def
      contains_char_def isspace_def code_def)

lemma default_policy_ok: "policy_ok default_lock_policy"
  by (simp add: policy_ok_def default_lock_policy_def FAILED_LOGIN_LOCK_THRESHOLD_def
      FAILED_LOGIN_LOCK_DURATION_SECONDS_def FAILED_LOGIN_FAILURE_RETENTION_SECONDS_def)

text \<open>
  an active lock is neither lifted nor extended.  Whatever happens before its deadline except
  a successful login of the same identity (more failures of it, failures and successes of others,
  purges), the process-local store answers locked exactly until the deadline that was set when the
  threshold was reached.
\<close>

theorem mem_lock_never_extended:
  assumes "policy_ok p" and "dict_ok rows" and "opaque_identity i"
    and "dict_get rows i = Some r" and "locked_until r = Some d"
    and "list_all (before i (epoch_ms d)) ops"
  shows "lock_is_locked memory_lock_store (lock_run memory_lock_store p rows ops) i now =
    Inr (epoch_ms now < epoch_ms d)"
  using mem_lock.lock_never_extended [of p rows i "abs_lock r" "epoch_ms d" ops now] assms
  by (simp add: mem_view_def abs_lock_def)

theorem mem_lock_never_extended_witness:
  "lock_is_locked memory_lock_store
     (lock_run memory_lock_store default_lock_policy
        [(''k'', \<lparr>identity_key = ''k'', failure_count = 20, locked_until = Some (Aware 900000000),
                  first_failure_at = Aware 0, last_failure_at = Aware 0\<rparr>)]
        [Fail ''k'' (Aware 800000000), Succeed ''j'' (Some (Aware 850000000))])
     ''k'' (Aware 899000000) = Inr (epoch_ms (Aware 899000000) < epoch_ms (Aware 900000000))"
  by (rule mem_lock_never_extended [where r =
        "\<lparr>identity_key = ''k'', failure_count = 20, locked_until = Some (Aware 900000000),
          first_failure_at = Aware 0, last_failure_at = Aware 0\<rparr>"])
    (simp_all add: default_policy_ok opaque_k dict_ok_def epoch_ms_def)

text \<open>
  \<open>clear\<close> with an invalid retention raises, but only after it has removed the row: the
  error path of the process-local store is not atomic.
\<close>

theorem mem_clear_raises_after_removal:
  assumes "opaque_identity i" and "r < 1"
  shows "mem_clear rows i (Some now) (Some r) = (dict_del i rows, Inl FailedLoginLockUnavailable)"
  using assms by (simp add: mem_clear_def opaque_identity_iff)

theorem mem_clear_raises_after_removal_witness:
  "mem_clear [(''k'', \<lparr>identity_key = ''k'', failure_count = 1, locked_until = None,
       first_failure_at = Aware 0, last_failure_at = Aware 0\<rparr>)] ''k'' (Some (Aware 5)) (Some 0)
   = ([], Inl FailedLoginLockUnavailable)"
  by (subst mem_clear_raises_after_removal) (simp_all add: opaque_k)

end
