(* ===== verification/FailedLoginSql.thy ===== *)
theory FailedLoginSql
  imports FailedLogin SqlTable
begin

text \<open>
  app/infrastructure/database/failed_login_lock_store.py: the shared failed-login store, one row
  per identity, each operation one transaction.  The store is the second provider of
  \<open>failed_login_store\<close>; with the process-local provider this gives that both backends answer
  alike over every history.  \<open>faults\<close> lists the exceptions the database raises, attempt by
  attempt (see SqlTable).
\<close>

record lock_row =
  r_failure_count :: int
  r_locked_until_ms :: "int option"
  r_first_failure_ms :: int
  r_last_failure_ms :: int

type_synonym lock_table = "(string, lock_row) dict"

definition SQL_LOCK_MAX_ATTEMPTS :: nat where
  "SQL_LOCK_MAX_ATTEMPTS = 16"

definition state_from_row :: "string \<Rightarrow> lock_row \<Rightarrow> lock_state" where
  "state_from_row i r =
     \<lparr>identity_key = i, failure_count = r_failure_count r,
      locked_until = map_option from_epoch_ms (r_locked_until_ms r),
      first_failure_at = from_epoch_ms (r_first_failure_ms r),
      last_failure_at = from_epoch_ms (r_last_failure_ms r)\<rparr>"

text \<open>
  The WHERE clauses and SET lists of the two UPDATEs.  SQL comparisons with NULL are not true.
\<close>

definition increment_where :: "int \<Rightarrow> int \<Rightarrow> lock_row \<Rightarrow> bool" where
  "increment_where now_ms cutoff_ms r =
     (case r_locked_until_ms r of
        Some l \<Rightarrow> l > now_ms
      | None \<Rightarrow> r_last_failure_ms r > cutoff_ms)"

definition increment_set :: "int \<Rightarrow> int \<Rightarrow> int \<Rightarrow> lock_row \<Rightarrow> lock_row" where
  "increment_set now_ms threshold lock_until_ms r =
     r\<lparr>r_failure_count := r_failure_count r + 1,
       r_last_failure_ms := now_ms,
       r_locked_until_ms :=
         (if r_locked_until_ms r = None \<and> r_failure_count r + 1 \<ge> threshold
          then Some lock_until_ms else r_locked_until_ms r)\<rparr>"

definition increment_active ::
  "lock_table \<Rightarrow> string \<Rightarrow> int \<Rightarrow> int \<Rightarrow> int \<Rightarrow> int \<Rightarrow> lock_table \<times> lock_state option" where
  "increment_active t i now_ms threshold lock_until_ms cutoff_ms =
     (let (t', rows) = sql_update (\<lambda>k r. k = i \<and> increment_where now_ms cutoff_ms r)
        (increment_set now_ms threshold lock_until_ms) t
      in (t', map_option (state_from_row i) (first_row rows)))"

definition reset_where :: "int \<Rightarrow> int \<Rightarrow> bool \<Rightarrow> lock_row \<Rightarrow> bool" where
  "reset_where now_ms cutoff_ms expired_lock r =
     (if expired_lock
      then (case r_locked_until_ms r of Some l \<Rightarrow> l \<le> now_ms | None \<Rightarrow> False)
      else r_locked_until_ms r = None \<and> r_last_failure_ms r \<le> cutoff_ms)"

definition fresh_row :: "int \<Rightarrow> int \<Rightarrow> int \<Rightarrow> lock_row" where
  "fresh_row now_ms threshold lock_until_ms =
     \<lparr>r_failure_count = 1,
      r_locked_until_ms = (if threshold \<le> 1 then Some lock_until_ms else None),
      r_first_failure_ms = now_ms, r_last_failure_ms = now_ms\<rparr>"

definition reset_matching ::
  "lock_table \<Rightarrow> string \<Rightarrow> int \<Rightarrow> int \<Rightarrow> int \<Rightarrow> bool \<Rightarrow> int \<Rightarrow> lock_table \<times> lock_state option" where
  "reset_matching t i now_ms threshold lock_until_ms expired_lock cutoff_ms =
     (let (t', rows) = sql_update (\<lambda>k r. k = i \<and> reset_where now_ms cutoff_ms expired_lock r)
        (\<lambda>r. fresh_row now_ms threshold lock_until_ms) t
      in (t', map_option (state_from_row i) (first_row rows)))"

text \<open>\<open>_insert_first\<close>: \<open>None\<close> where the insert raises IntegrityError.\<close>

definition insert_first ::
  "lock_table \<Rightarrow> string \<Rightarrow> int \<Rightarrow> int \<Rightarrow> int \<Rightarrow> (lock_table \<times> lock_state) option" where
  "insert_first t i now_ms threshold lock_until_ms =
     (let r = fresh_row now_ms threshold lock_until_ms
      in map_option (\<lambda>t'. (t', state_from_row i r)) (sql_insert i r t))"

definition apply_failure ::
  "lock_table \<Rightarrow> string \<Rightarrow> int \<Rightarrow> int \<Rightarrow> int \<Rightarrow> int \<Rightarrow> (lock_table \<times> lock_state) option" where
  "apply_failure t i now_ms threshold lock_until_ms cutoff_ms =
     (case increment_active t i now_ms threshold lock_until_ms cutoff_ms of
        (t1, Some s) \<Rightarrow> Some (t1, s)
      | (t1, None) \<Rightarrow>
        (case reset_matching t1 i now_ms threshold lock_until_ms True cutoff_ms of
           (t2, Some s) \<Rightarrow> Some (t2, s)
         | (t2, None) \<Rightarrow>
           (case reset_matching t2 i now_ms threshold lock_until_ms False cutoff_ms of
              (t3, Some s) \<Rightarrow> Some (t3, s)
            | (t3, None) \<Rightarrow> insert_first t3 i now_ms threshold lock_until_ms)))"

definition purge_stale_rows :: "lock_table \<Rightarrow> int \<Rightarrow> int \<Rightarrow> lock_table" where
  "purge_stale_rows t now_ms cutoff_ms =
     fst (sql_delete (\<lambda>k r. case r_locked_until_ms r of
         None \<Rightarrow> r_last_failure_ms r \<le> cutoff_ms
       | Some l \<Rightarrow> l \<le> now_ms) t)"

definition sql_get ::
  "db_exc option \<Rightarrow> lock_table \<Rightarrow> string \<Rightarrow> lock_error + lock_state option" where
  "sql_get fault t i =
     and_then (require_opaque_login_identity i) (\<lambda>i.
       if fault \<noteq> None then Inl FailedLoginLockUnavailable
       else Inr (map_option (state_from_row i) (dict_get t i)))"

definition sql_record_failure ::
  "db_exc option list \<Rightarrow> lock_table \<Rightarrow> string \<Rightarrow> datetime \<Rightarrow> int \<Rightarrow> int \<Rightarrow> int
     \<Rightarrow> lock_table \<times> (lock_error + lock_state)" where
  "sql_record_failure faults t i now threshold lock_duration_seconds failure_retention_seconds =
     (case require_opaque_login_identity i of
        Inl e \<Rightarrow> (t, Inl e)
      | Inr i \<Rightarrow>
        if threshold < 1 \<or> lock_duration_seconds < 1 \<or> failure_retention_seconds < 1
        then (t, Inl FailedLoginLockUnavailable)
        else
          (let now_ms = epoch_ms now;
               lock_until_ms = now_ms + lock_duration_seconds * 1000;
               cutoff_ms = now_ms - failure_retention_seconds * 1000;
               body = (\<lambda>t. map_option (\<lambda>(t', s). (purge_stale_rows t' now_ms cutoff_ms, s))
                        (apply_failure t i now_ms threshold lock_until_ms cutoff_ms))
           in case with_retries SQL_LOCK_MAX_ATTEMPTS faults body t of
                (t', Some s) \<Rightarrow> (t', Inr s)
              | (t', None) \<Rightarrow> (t', Inl FailedLoginLockUnavailable)))"

text \<open>\<open>clear\<close> checks the retention argument first and runs once, without retries.\<close>

definition sql_clear ::
  "db_exc option \<Rightarrow> lock_table \<Rightarrow> string \<Rightarrow> datetime option \<Rightarrow> int option
     \<Rightarrow> lock_table \<times> (lock_error + unit)" where
  "sql_clear fault t i now failure_retention_seconds =
     (case require_opaque_login_identity i of
        Inl e \<Rightarrow> (t, Inl e)
      | Inr i \<Rightarrow>
        if (case failure_retention_seconds of None \<Rightarrow> False | Some r \<Rightarrow> r < 1)
        then (t, Inl FailedLoginLockUnavailable)
        else if fault \<noteq> None then (t, Inl FailedLoginLockUnavailable)
        else
          (let t1 = fst (sql_delete (\<lambda>k r. k = i) t)
           in case (now, failure_retention_seconds) of
                (Some n, Some r) \<Rightarrow>
                  (purge_stale_rows t1 (epoch_ms n) (epoch_ms n - r * 1000), Inr ())
              | _ \<Rightarrow> (t1, Inr ())))"

text \<open>The store with no database faults, as the protocol object.\<close>

definition sql_lock_store :: "lock_table lock_store" where
  "sql_lock_store =
     \<lparr>store_get = sql_get None, store_record_failure = sql_record_failure [],
      store_clear = sql_clear None\<rparr>"

section \<open>Refinement\<close>

definition row_view :: "lock_row \<Rightarrow> lock_view" where
  "row_view r = \<lparr>v_count = r_failure_count r, v_locked = r_locked_until_ms r,
     v_first = r_first_failure_ms r, v_last = r_last_failure_ms r\<rparr>"

definition sql_view :: "lock_table \<Rightarrow> string \<Rightarrow> lock_view option" where
  "sql_view t i = map_option row_view (dict_get t i)"

lemma abs_state_from_row [simp]: "abs_lock (state_from_row i r) = row_view r"
  by (cases "r_locked_until_ms r") (simp_all add: abs_lock_def state_from_row_def row_view_def)

lemma first_row_simps [simp]: "first_row [] = None" "first_row (r # rs) = Some r"
  by (simp_all add: first_row_def)

text \<open>What the whole statement sequence leaves under the identity, by the row found there.\<close>

definition failure_row :: "lock_row option \<Rightarrow> int \<Rightarrow> int \<Rightarrow> int \<Rightarrow> int \<Rightarrow> lock_row" where
  "failure_row ro now_ms threshold lock_until_ms cutoff_ms =
     (case ro of
        None \<Rightarrow> fresh_row now_ms threshold lock_until_ms
      | Some r \<Rightarrow>
          if increment_where now_ms cutoff_ms r then increment_set now_ms threshold lock_until_ms r
          else fresh_row now_ms threshold lock_until_ms)"

lemma where_clauses_cover:
  "increment_where n c r \<or> reset_where n c True r \<or> reset_where n c False r"
  by (auto simp: increment_where_def reset_where_def split: option.splits)

lemma increment_active_result:
  assumes "dict_ok t" and "increment_active t i n thr lu c = (t', so)"
  shows "dict_ok t' \<and>
    (case dict_get t i of
       Some r \<Rightarrow>
         if increment_where n c r
         then dict_get t' = (dict_get t)(i \<mapsto> failure_row (Some r) n thr lu c) \<and>
              so = Some (state_from_row i (failure_row (Some r) n thr lu c))
         else dict_get t' = dict_get t \<and> so = None
     | None \<Rightarrow> dict_get t' = dict_get t \<and> so = None)"
  using assms(2) unfolding increment_active_def
  by (auto dest!: sql_update_key [OF assms(1)] simp: failure_row_def split: prod.splits option.splits)

lemma reset_matching_result:
  assumes "dict_ok t" and "reset_matching t i n thr lu e c = (t', so)"
  shows "dict_ok t' \<and>
    (case dict_get t i of
       Some r \<Rightarrow>
         if reset_where n c e r
         then dict_get t' = (dict_get t)(i \<mapsto> fresh_row n thr lu) \<and>
              so = Some (state_from_row i (fresh_row n thr lu))
         else dict_get t' = dict_get t \<and> so = None
     | None \<Rightarrow> dict_get t' = dict_get t \<and> so = None)"
  using assms(2) unfolding reset_matching_def
  by (auto dest!: sql_update_key [OF assms(1)] split: prod.splits option.splits if_splits)

lemma insert_first_result:
  assumes "dict_ok t" and "dict_get t i = None"
  shows "\<exists>t'. insert_first t i n thr lu = Some (t', state_from_row i (fresh_row n thr lu)) \<and>
    dict_ok t' \<and> dict_get t' = (dict_get t)(i \<mapsto> fresh_row n thr lu)"
proof -
  obtain t' where t': "sql_insert i (fresh_row n thr lu) t = Some t'"
    using assms(2) by (simp add: sql_insert_def)
  moreover from t' have "dict_get t' = (dict_get t)(i \<mapsto> fresh_row n thr lu)"
    by (auto simp: fun_eq_iff sql_insert_get)
  ultimately show ?thesis
    using sql_insert_ok [OF t' assms(1)] by (simp add: insert_first_def)
qed

text \<open>The four statements together write one row, the one \<open>failure_row\<close> names, and never race.\<close>

lemma apply_failure_result:
  assumes "dict_ok t"
  shows "\<exists>t'. apply_failure t i n thr lu c =
      Some (t', state_from_row i (failure_row (dict_get t i) n thr lu c)) \<and>
    dict_ok t' \<and> dict_get t' = (dict_get t)(i \<mapsto> failure_row (dict_get t i) n thr lu c)"
proof -
  obtain t1 s1 where inc: "increment_active t i n thr lu c = (t1, s1)" by force
  obtain t2 s2 where res: "reset_matching t1 i n thr lu True c = (t2, s2)" by force
  obtain t3 s3 where stale: "reset_matching t2 i n thr lu False c = (t3, s3)" by force
  note r1 = increment_active_result [OF assms inc]
  then have ok1: "dict_ok t1" by simp
  note r2 = reset_matching_result [OF ok1 res]
  then have ok2: "dict_ok t2" by simp
  note r3 = reset_matching_result [OF ok2 stale]
  then have ok3: "dict_ok t3" by simp
  show ?thesis
  proof (cases "dict_get t i")
    case None
    with r1 r2 r3 have s: "s1 = None" "s2 = None" "s3 = None" and same: "dict_get t3 = dict_get t"
      by (simp_all split: option.splits)
    obtain t4 where "insert_first t3 i n thr lu = Some (t4, state_from_row i (fresh_row n thr lu))"
      and "dict_ok t4" and "dict_get t4 = (dict_get t)(i \<mapsto> fresh_row n thr lu)"
      using insert_first_result [OF ok3, of i n thr lu] None same by auto
    then show ?thesis
      using None s by (simp add: apply_failure_def inc res stale failure_row_def)
  next
    case (Some r)
    show ?thesis
    proof (cases s1)
      case (Some s)
      then show ?thesis
        using r1 \<open>dict_get t i = Some r\<close> by (auto simp: apply_failure_def inc split: if_splits)
    next
      case None
      then have old: "failure_row (dict_get t i) n thr lu c = fresh_row n thr lu"
        and g1: "dict_get t1 = dict_get t"
        using r1 Some by (auto simp: failure_row_def split: if_splits)
      show ?thesis
      proof (cases s2)
        case (Some s)
        then show ?thesis
          using r2 \<open>dict_get t i = Some r\<close> None old g1
          by (auto simp: apply_failure_def inc res split: if_splits)
      next
        case None
        then have g2: "dict_get t2 = dict_get t"
          using r2 g1 \<open>dict_get t i = Some r\<close> by (auto split: if_splits)
        have "s3 \<noteq> None"
          using r1 r2 r3 \<open>s1 = None\<close> None g1 g2 \<open>dict_get t i = Some r\<close>
            where_clauses_cover [of n c r]
          by (auto split: if_splits option.splits)
        then show ?thesis
          using r3 g2 \<open>dict_get t i = Some r\<close> \<open>s1 = None\<close> None old
          by (auto simp: apply_failure_def inc res stale split: if_splits)
      qed
    qed
  qed
qed

lemma sql_view_purge:
  assumes "dict_ok t"
  shows "sql_view (purge_stale_rows t n c) = spec_live n c (sql_view t)"
  by (rule ext) (simp add: sql_view_def purge_stale_rows_def sql_delete_get [OF assms]
      spec_live_def spec_reapable_def row_view_def split: option.splits)

lemma dict_ok_purge_stale [simp, intro]: "dict_ok t \<Longrightarrow> dict_ok (purge_stale_rows t n c)"
  by (simp add: purge_stale_rows_def)

section \<open>The SQL store is a provider\<close>

lemma failure_row_view:
  "row_view (failure_row ro n thr (n + d) c) =
     spec_next n thr d (case map_option row_view ro of
       None \<Rightarrow> None | Some v \<Rightarrow> if spec_reapable n c v then None else Some v)"
  by (cases ro)
    (auto simp: failure_row_def fresh_row_def increment_where_def increment_set_def row_view_def
      spec_next_def spec_reapable_def split: option.splits)

lemma spec_next_not_reapable:
  assumes "0 < d" and "c < n" and "\<forall>v. o' = Some v \<longrightarrow> \<not> spec_reapable n c v"
  shows "\<not> spec_reapable n c (spec_next n thr d o')"
  using assms by (auto simp: spec_next_def spec_reapable_def split: option.splits)

lemma spec_live_upd:
  assumes "\<not> spec_reapable n c v"
  shows "spec_live n c (V(i \<mapsto> v)) = (spec_live n c V)(i \<mapsto> v)"
  using assms by (auto simp: spec_live_def)

lemma sql_record_clean:
  assumes "dict_ok t" and "opaque_identity i" and "1 \<le> thr" and "1 \<le> dur" and "1 \<le> ret"
  shows "\<exists>t'. sql_record_failure [] t i now thr dur ret =
      (t', Inr (state_from_row i (failure_row (dict_get t i) (epoch_ms now) thr
         (epoch_ms now + dur * 1000) (epoch_ms now - ret * 1000)))) \<and>
    dict_ok t' \<and> sql_view t' = spec_record (sql_view t) i now thr dur ret"
proof -
  let ?n = "epoch_ms now"
  let ?c = "?n - ret * 1000"
  let ?row = "failure_row (dict_get t i) ?n thr (?n + dur * 1000) ?c"
  obtain t' where t': "apply_failure t i ?n thr (?n + dur * 1000) ?c = Some (t', state_from_row i ?row)"
    "dict_ok t'" "dict_get t' = (dict_get t)(i \<mapsto> ?row)"
    using apply_failure_result [OF assms(1)] by blast
  have row: "row_view ?row = spec_next ?n thr (dur * 1000) (spec_live ?n ?c (sql_view t) i)"
    unfolding failure_row_view by (simp add: spec_live_def sql_view_def)
  have fresh: "\<not> spec_reapable ?n ?c (row_view ?row)"
    unfolding row using assms(4,5)
    by (intro spec_next_not_reapable) (auto dest: spec_live_not_reapable)
  have "sql_view t' = (sql_view t)(i \<mapsto> row_view ?row)"
    by (rule ext) (simp add: sql_view_def t'(3))
  then have "sql_view (purge_stale_rows t' ?n ?c) = spec_record (sql_view t) i now thr dur ret"
    using sql_view_purge [OF t'(2), of ?n ?c] spec_live_upd [OF fresh] row
    by (simp add: spec_record_def Let_def)
  moreover have "sql_record_failure [] t i now thr dur ret =
      (purge_stale_rows t' ?n ?c, Inr (state_from_row i ?row))"
    using assms(2-5) t'(1)
    by (simp add: sql_record_failure_def opaque_identity_iff Let_def SQL_LOCK_MAX_ATTEMPTS_def
        with_retries_clean [where t' = "purge_stale_rows t' ?n ?c" and x = "state_from_row i ?row"])
  ultimately show ?thesis using t'(2) by auto
qed

lemma sql_record_refines:
  assumes "dict_ok t" and "opaque_identity i" and "1 \<le> thr" and "1 \<le> dur" and "1 \<le> ret"
  shows "dict_ok (fst (sql_record_failure [] t i now thr dur ret)) \<and>
    sql_view (fst (sql_record_failure [] t i now thr dur ret)) =
      spec_record (sql_view t) i now thr dur ret \<and>
    (\<exists>row. snd (sql_record_failure [] t i now thr dur ret) = Inr row \<and>
       Some (abs_lock row) = spec_record (sql_view t) i now thr dur ret i)"
  using sql_record_clean [OF assms, of now]
  by (auto simp: failure_row_view spec_record_def Let_def spec_live_def sql_view_def)

lemma sql_clear_refines:
  assumes "dict_ok t" and "opaque_identity i" and "1 \<le> ret"
  shows "dict_ok (fst (sql_clear None t i now (Some ret))) \<and>
    sql_view (fst (sql_clear None t i now (Some ret))) = spec_clear (sql_view t) i now ret \<and>
    snd (sql_clear None t i now (Some ret)) = Inr ()"
proof -
  have del: "sql_view (fst (sql_delete (\<lambda>k r. k = i) t)) = (sql_view t)(i := None)"
    by (rule ext) (simp add: sql_view_def sql_delete_get [OF assms(1)] split: option.splits)
  show ?thesis
    using assms by (cases now)
      (auto simp: sql_clear_def opaque_identity_iff spec_clear_def del sql_view_purge Let_def)
qed

interpretation sql_lock: failed_login_store sql_lock_store dict_ok sql_view
proof unfold_locales
  fix s :: lock_table and i
  assume "dict_ok s" and "opaque_identity i"
  then show "\<exists>row. store_get sql_lock_store s i = Inr row \<and> map_option abs_lock row = sql_view s i"
    by (auto simp: sql_lock_store_def sql_get_def opaque_identity_iff sql_view_def option.map_comp comp_def)
qed (use sql_record_refines sql_clear_refines in
  \<open>auto simp: sql_lock_store_def sql_record_failure_def sql_clear_def not_opaque_identity_iff\<close>)

section \<open>Properties\<close>

text \<open>
  C32: the two backends are interchangeable.  From empty stores, any history of failures and
  successful logins leaves the process-local rows and the SQL rows with the same counts, lock
  deadlines and timestamps at millisecond precision, and both then answer every lock question the
  same way.
\<close>

theorem lock_backends_agree:
  assumes "policy_ok p" and "opaque_identity i"
  shows "mem_view (lock_run memory_lock_store p [] ops) = sql_view (lock_run sql_lock_store p [] ops) \<and>
    lock_is_locked memory_lock_store (lock_run memory_lock_store p [] ops) i now =
    lock_is_locked sql_lock_store (lock_run sql_lock_store p [] ops) i now"
proof -
  have start: "mem_view [] = sql_view []"
    by (simp add: fun_eq_iff mem_view_def sql_view_def)
  have m: "dict_ok (lock_run memory_lock_store p [] ops)"
    "mem_view (lock_run memory_lock_store p [] ops) = foldl (spec_step p) (sql_view []) ops"
    using mem_lock.run_refines [OF assms(1), of "[]" ops] by (simp_all add: start)
  have q: "dict_ok (lock_run sql_lock_store p [] ops)"
    "sql_view (lock_run sql_lock_store p [] ops) = foldl (spec_step p) (sql_view []) ops"
    using sql_lock.run_refines [OF assms(1), of "[]" ops] by simp_all
  show ?thesis
    using mem_lock.is_locked_view [OF m(1) assms(2), of now]
      sql_lock.is_locked_view [OF q(1) assms(2), of now] m(2) q(2) by simp
qed

theorem lock_backends_agree_witness:
  "lock_is_locked memory_lock_store
     (lock_run memory_lock_store default_lock_policy [] [Fail ''k'' (Aware 0)]) ''k'' (Aware 7) =
   lock_is_locked sql_lock_store
     (lock_run sql_lock_store default_lock_policy [] [Fail ''k'' (Aware 0)]) ''k'' (Aware 7)"
  using lock_backends_agree [OF default_policy_ok opaque_k, of "[Fail ''k'' (Aware 0)]" "Aware 7"]
  by simp

text \<open>
  C36: the shared store locks on the threshold-th failure and not before.  Take an identity with no row and
  any history of failures and successes of any identities in which it does not log in and, from its first
  failure on, no operation comes later than the retention after its last failure.  With fewer failures of it than
  the threshold, whatever the threshold, it is unlocked at every time; the failure that reaches the threshold,
  which may be its first, locks it until that failure's time plus the lock duration.
\<close>

theorem sql_locks_at_threshold:
  assumes "policy_ok p" and "dict_ok t" and "opaque_identity i" and "dict_get t i = None"
  shows "(recent_attempts (pol_failure_retention_seconds p) i ops \<and> failures_of i ops < pol_threshold p \<longrightarrow>
      lock_is_locked sql_lock_store (lock_run sql_lock_store p t ops) i now = Inr False) \<and>
    (recent_attempts (pol_failure_retention_seconds p) i (ops @ [Fail i t1]) \<and>
      failures_of i ops + 1 = pol_threshold p \<longrightarrow>
      lock_is_locked sql_lock_store (lock_run sql_lock_store p t (ops @ [Fail i t1])) i now =
        Inr (epoch_ms now < epoch_ms t1 + pol_lock_duration_seconds p * 1000))"
proof -
  have view: "sql_view t i = None" using assms(4) by (simp add: sql_view_def)
  show ?thesis
    using sql_lock.unlocked_below_threshold [OF assms(1-3) view, of ops now]
      sql_lock.locked_at_threshold [OF assms(1-3) view, of ops t1 now] by blast
qed

theorem sql_locks_at_threshold_witness:
  "lock_is_locked sql_lock_store
     (lock_run sql_lock_store
        \<lparr>pol_threshold = 3, pol_lock_duration_seconds = 60, pol_failure_retention_seconds = 10\<rparr> []
        ([Fail ''k'' (Aware 0), Fail ''j'' (Aware 1000000), Fail ''k'' (Aware 2000000)] @
          [Fail ''k'' (Aware 4000000)])) ''k'' (Aware 63000000) = Inr True \<and>
   lock_is_locked sql_lock_store
     (lock_run sql_lock_store
        \<lparr>pol_threshold = 3, pol_lock_duration_seconds = 60, pol_failure_retention_seconds = 10\<rparr> []
        [Fail ''k'' (Aware 0)]) ''k'' (Aware 1000000) = Inr False \<and>
   lock_is_locked sql_lock_store
     (lock_run sql_lock_store
        \<lparr>pol_threshold = 1, pol_lock_duration_seconds = 60, pol_failure_retention_seconds = 10\<rparr> []
        ([] @ [Fail ''k'' (Aware 0)])) ''k'' (Aware 1000000) = Inr True"
  using sql_locks_at_threshold [of
      "\<lparr>pol_threshold = 3, pol_lock_duration_seconds = 60, pol_failure_retention_seconds = 10\<rparr>" "[]" "''k''"
      "[Fail ''k'' (Aware 0), Fail ''j'' (Aware 1000000), Fail ''k'' (Aware 2000000)]" "Aware 63000000" "Aware 4000000"]
    sql_locks_at_threshold [of
      "\<lparr>pol_threshold = 3, pol_lock_duration_seconds = 60, pol_failure_retention_seconds = 10\<rparr>" "[]" "''k''"
      "[Fail ''k'' (Aware 0)]" "Aware 1000000"]
    sql_locks_at_threshold [of
      "\<lparr>pol_threshold = 1, pol_lock_duration_seconds = 60, pol_failure_retention_seconds = 10\<rparr>" "[]" "''k''"
      "[]" "Aware 1000000" "Aware 0"]
  by (simp add: policy_ok_def opaque_k epoch_ms_def)

text \<open>
  a failed-login record is all or nothing under database faults.  Either the store raises
  Unavailable and the table is exactly as before, or it commits what the fault-free run commits;
  up to fifteen retryable faults are survived, sixteen exhaust the attempts.
\<close>

theorem sql_record_failure_atomic:
  assumes "dict_ok t" and "opaque_identity i" and "1 \<le> thr" and "1 \<le> dur" and "1 \<le> ret"
  shows "(sql_record_failure fs t i now thr dur ret = (t, Inl FailedLoginLockUnavailable) \<or>
       sql_record_failure fs t i now thr dur ret = sql_record_failure [] t i now thr dur ret) \<and>
    (list_all retryable es \<and> length es < 16 \<longrightarrow>
       sql_record_failure (map Some es) t i now thr dur ret =
         sql_record_failure [] t i now thr dur ret) \<and>
    (list_all retryable es \<and> 16 \<le> length es \<longrightarrow>
       sql_record_failure (map Some es) t i now thr dur ret = (t, Inl FailedLoginLockUnavailable))"
proof -
  let ?n = "epoch_ms now"
  let ?c = "?n - ret * 1000"
  define body where "body = (\<lambda>t. map_option (\<lambda>(t', s). (purge_stale_rows t' ?n ?c, s))
    (apply_failure t i ?n thr (?n + dur * 1000) ?c))"
  define k :: "lock_table \<times> lock_state option \<Rightarrow> lock_table \<times> (lock_error + lock_state)"
    where "k = (\<lambda>(t', so). case so of Some s \<Rightarrow> (t', Inr s) | None \<Rightarrow> (t', Inl FailedLoginLockUnavailable))"
  have run: "sql_record_failure fs t i now thr dur ret = k (with_retries 16 fs body t)" for fs
    using assms(2-5)
    by (simp add: sql_record_failure_def opaque_identity_iff Let_def SQL_LOCK_MAX_ATTEMPTS_def
        body_def k_def split: prod.splits option.splits)
  obtain t' s where ok: "body t = Some (t', s)"
    using apply_failure_result [OF assms(1), of i ?n thr "?n + dur * 1000" ?c]
    by (auto simp: body_def)
  have clean: "with_retries 16 [] body t = (t', Some s)"
    by (rule with_retries_clean) (simp_all add: ok)
  show ?thesis
    using with_retries_atomic [of 16 fs body t] with_retries_survives [of es 16 body t t' s]
      with_retries_exhausted [of 16 es body t]
    by (auto simp: run clean ok k_def)
qed

theorem sql_record_failure_atomic_witness:
  "sql_record_failure (map Some [IntegrityError, OperationalError ''database is LOCKED'']) [] ''k''
     (Aware 0) 20 900 900 = sql_record_failure [] [] ''k'' (Aware 0) 20 900 900"
proof -
  have "list_all retryable [IntegrityError, OperationalError ''database is LOCKED'']"
    by code_simp
  then show ?thesis
    using sql_record_failure_atomic [of "[]" "''k''" 20 900 900 "[]" "Aware 0"
        "[IntegrityError, OperationalError ''database is LOCKED'']"]
    by (simp add: opaque_k)
qed

end
