(* ===== verification/Submission.thy ===== *)
theory Submission
  imports Digest
begin

text \<open>
  app/shopping/submission_idempotency.py: the replay ledger of one shopping-assistant submission,
  its process-local store, and \<open>apply_shopping_submission\<close>, which runs the mutation only for
  the winner of the claim.  The locale \<open>submission_store\<close> is the store protocol with the laws
  both backends keep; the ledger's properties are proved in it.  Not modelled here: the HTTP header
  and authority-scope helpers, which read Starlette requests, and the fingerprint document, whose
  values may be floats.
\<close>

section \<open>Constants and data\<close>

definition SUBMISSION_RETENTION_SECONDS :: int where
  "SUBMISSION_RETENTION_SECONDS = 24 * 60 * 60"

definition PROCESSING_HORIZON_SECONDS :: int where
  "PROCESSING_HORIZON_SECONDS = 15 * 60"

definition MAX_RESPONSE_CHARS :: nat where
  "MAX_RESPONSE_CHARS = 262144"

datatype sub_error = ShoppingSubmissionUnavailable

text \<open>\<open>SubmissionIdentityError\<close> with its two messages.\<close>

datatype submission_identity_error = KeyRequired | KeyInvalid

datatype sub_state = Processing | Completed | Indeterminate

datatype claim_outcome = Execute | Replay | InProgress | Conflict | UnknownOutcome

record submission_claim =
  outcome :: claim_outcome
  claim_response_json :: "string option"

record submission_record =
  sub_scope :: string
  sub_key_hash :: string
  sub_fingerprint :: string
  sub_state :: sub_state
  response_body :: "string option"
  http_status :: "int option"
  created_at :: datetime
  updated_at :: datetime
  expires_at :: datetime

type_synonym sub_key = "string \<times> string"
type_synonym sub_rows = "(sub_key, submission_record) dict"

abbreviation no_claim :: "claim_outcome \<Rightarrow> submission_claim" where
  "no_claim oc \<equiv> \<lparr>outcome = oc, claim_response_json = None\<rparr>"

section \<open>The client key\<close>

definition is_key_char :: "char \<Rightarrow> bool" where
  "is_key_char c = (let n = code c in
     (48 \<le> n \<and> n \<le> 57) \<or> (65 \<le> n \<and> n \<le> 90) \<or> (97 \<le> n \<and> n \<le> 122) \<or> n = 95 \<or> n = 45)"

text \<open>\<open>_KEY_RE = ^[A-Za-z0-9_-]{16,128}$\<close>\<close>

definition key_re :: "string \<Rightarrow> bool" where
  "key_re s = (16 \<le> length s \<and> length s \<le> 128 \<and> list_all is_key_char s)"

definition parse_submission_key :: "string option \<Rightarrow> submission_identity_error + string" where
  "parse_submission_key raw =
     (case raw of None \<Rightarrow> Inl KeyRequired
      | Some r \<Rightarrow>
          if strip r = [] then Inl KeyRequired
          else (let key = strip r in
            if contains_char (CHR '','') r \<or> \<not> key_re key then Inl KeyInvalid else Inr key))"

definition submission_key_hash :: "string \<Rightarrow> string" where
  "submission_key_hash key = sha256_hex (utf8 key)"

definition require_opaque_parts :: "string \<Rightarrow> string \<Rightarrow> string \<Rightarrow> bool" where
  "require_opaque_parts scope key_hash fingerprint =
     (\<not> (scope = [] \<or> length scope > 128 \<or> contains_char (CHR ''@'') scope
         \<or> list_ex isspace scope \<or> \<not> hex64 key_hash \<or> \<not> hex64 fingerprint))"

text \<open>\<open>"0" * 64\<close>\<close>

definition zero_fingerprint :: string where
  "zero_fingerprint = replicate 64 (CHR ''0'')"

section \<open>Reading a row\<close>

definition interpret_record :: "submission_record \<Rightarrow> string \<Rightarrow> datetime \<Rightarrow> submission_claim" where
  "interpret_record r fingerprint now =
     (if sub_fingerprint r \<noteq> fingerprint then no_claim Conflict
      else
        (let current = epoch_ms now in
         if sub_state r = Completed \<and> epoch_ms (expires_at r) > current then
           (case response_body r of
              Some b \<Rightarrow> if b \<noteq> [] then \<lparr>outcome = Replay, claim_response_json = Some b\<rparr>
                        else no_claim UnknownOutcome
            | None \<Rightarrow> no_claim UnknownOutcome)
         else if sub_state r = Processing then no_claim InProgress
         else if sub_state r = Indeterminate \<and> epoch_ms (expires_at r) > current
         then no_claim UnknownOutcome
         else no_claim UnknownOutcome))"

definition processing_record :: "string \<Rightarrow> string \<Rightarrow> string \<Rightarrow> datetime \<Rightarrow> submission_record" where
  "processing_record scope key_hash fingerprint now =
     \<lparr>sub_scope = scope, sub_key_hash = key_hash, sub_fingerprint = fingerprint,
      sub_state = Processing, response_body = None, http_status = None,
      created_at = now, updated_at = now,
      expires_at = plus_seconds now PROCESSING_HORIZON_SECONDS\<rparr>"

text \<open>The record \<open>fail_closed\<close> and the seal write over a processing row.\<close>

definition indeterminate_record :: "submission_record \<Rightarrow> datetime \<Rightarrow> submission_record" where
  "indeterminate_record r now =
     r\<lparr>sub_state := Indeterminate, response_body := None, http_status := None,
       updated_at := now, expires_at := plus_seconds now SUBMISSION_RETENTION_SECONDS\<rparr>"

section \<open>InMemoryShoppingSubmissionStore\<close>

definition seal_due :: "int \<Rightarrow> submission_record \<Rightarrow> bool" where
  "seal_due current r = (sub_state r = Processing \<and> epoch_ms (expires_at r) \<le> current)"

definition purge_due :: "int \<Rightarrow> submission_record \<Rightarrow> bool" where
  "purge_due current r = (sub_state r \<noteq> Processing \<and> epoch_ms (expires_at r) \<le> current)"

definition seal_unlocked :: "sub_rows \<Rightarrow> datetime \<Rightarrow> sub_rows \<times> nat" where
  "seal_unlocked rows now =
     (let current = epoch_ms now in
      (dict_rewrite (seal_due current) (\<lambda>r. indeterminate_record r now) rows,
       length (filter (\<lambda>(k, r). seal_due current r) rows)))"

definition purge_unlocked :: "sub_rows \<Rightarrow> datetime \<Rightarrow> sub_rows \<times> nat" where
  "purge_unlocked rows now =
     (let current = epoch_ms now;
          expired = map fst (filter (\<lambda>(k, r). purge_due current r) rows)
      in (dict_del_all expired rows, length expired))"

definition mem_claim ::
  "sub_rows \<Rightarrow> string \<Rightarrow> string \<Rightarrow> string \<Rightarrow> datetime \<Rightarrow> sub_rows \<times> (sub_error + submission_claim)" where
  "mem_claim rows scope key_hash fingerprint now =
     (if \<not> require_opaque_parts scope key_hash fingerprint
      then (rows, Inl ShoppingSubmissionUnavailable)
      else
        (let current = aware_utc now;
             rows1 = fst (seal_unlocked rows current);
             rows2 = fst (purge_unlocked rows1 current);
             fresh = processing_record scope key_hash fingerprint current
         in case dict_get rows2 (scope, key_hash) of
              None \<Rightarrow> (dict_set (scope, key_hash) fresh rows2, Inr (no_claim Execute))
            | Some existing \<Rightarrow>
                if sub_state existing \<noteq> Processing \<and>
                   epoch_ms (expires_at existing) \<le> epoch_ms current
                then (dict_set (scope, key_hash) fresh (dict_del (scope, key_hash) rows2),
                      Inr (no_claim Execute))
                else (rows2, Inr (interpret_record existing fingerprint current))))"

definition mem_fail_closed ::
  "sub_rows \<Rightarrow> string \<Rightarrow> string \<Rightarrow> datetime \<Rightarrow> sub_rows \<times> (sub_error + unit)" where
  "mem_fail_closed rows scope key_hash now =
     (if \<not> require_opaque_parts scope key_hash zero_fingerprint
      then (rows, Inl ShoppingSubmissionUnavailable)
      else
        (case dict_get rows (scope, key_hash) of
           None \<Rightarrow> (rows, Inr ())
         | Some existing \<Rightarrow>
             if sub_state existing \<noteq> Processing then (rows, Inr ())
             else (dict_set (scope, key_hash)
                     (indeterminate_record
                        (existing\<lparr>sub_scope := scope, sub_key_hash := key_hash\<rparr>) (aware_utc now)) rows,
                   Inr ())))"

definition mem_complete ::
  "sub_rows \<Rightarrow> string \<Rightarrow> string \<Rightarrow> string \<Rightarrow> string \<Rightarrow> datetime \<Rightarrow> sub_rows \<times> (sub_error + bool)" where
  "mem_complete rows scope key_hash fingerprint response_json now =
     (if \<not> require_opaque_parts scope key_hash fingerprint
      then (rows, Inl ShoppingSubmissionUnavailable)
      else if length response_json > MAX_RESPONSE_CHARS then
        (case mem_fail_closed rows scope key_hash now of
           (rows', Inl e) \<Rightarrow> (rows', Inl e)
         | (rows', Inr _) \<Rightarrow> (rows', Inr False))
      else
        (case dict_get rows (scope, key_hash) of
           None \<Rightarrow> (rows, Inr False)
         | Some existing \<Rightarrow>
             if sub_state existing \<noteq> Processing \<or> sub_fingerprint existing \<noteq> fingerprint
             then (rows, Inr False)
             else (dict_set (scope, key_hash)
                     \<lparr>sub_scope = scope, sub_key_hash = key_hash, sub_fingerprint = fingerprint,
                      sub_state = Completed, response_body = Some response_json,
                      http_status = Some 200, created_at = created_at existing,
                      updated_at = aware_utc now,
                      expires_at = plus_seconds (aware_utc now) SUBMISSION_RETENTION_SECONDS\<rparr> rows,
                   Inr True)))"

definition mem_release_unentered ::
  "sub_rows \<Rightarrow> string \<Rightarrow> string \<Rightarrow> sub_rows \<times> (sub_error + bool)" where
  "mem_release_unentered rows scope key_hash =
     (if \<not> require_opaque_parts scope key_hash zero_fingerprint
      then (rows, Inl ShoppingSubmissionUnavailable)
      else
        (case dict_get rows (scope, key_hash) of
           None \<Rightarrow> (rows, Inr False)
         | Some existing \<Rightarrow>
             if sub_state existing \<noteq> Processing then (rows, Inr False)
             else (dict_del (scope, key_hash) rows, Inr True)))"

definition mem_cleanup :: "sub_rows \<Rightarrow> datetime \<Rightarrow> sub_rows \<times> (sub_error + nat)" where
  "mem_cleanup rows now = (case purge_unlocked rows (aware_utc now) of (r, n) \<Rightarrow> (r, Inr n))"

definition mem_seal_stale_processing :: "sub_rows \<Rightarrow> datetime \<Rightarrow> sub_rows \<times> (sub_error + nat)" where
  "mem_seal_stale_processing rows now =
     (case seal_unlocked rows (aware_utc now) of (r, n) \<Rightarrow> (r, Inr n))"

definition mem_read :: "sub_rows \<Rightarrow> string \<Rightarrow> string \<Rightarrow> sub_error + submission_record option" where
  "mem_read rows scope key_hash =
     (if \<not> require_opaque_parts scope key_hash zero_fingerprint
      then Inl ShoppingSubmissionUnavailable
      else Inr (dict_get rows (scope, key_hash)))"

section \<open>The store protocol and the ledger\<close>

record 's submission_store =
  do_claim :: "'s \<Rightarrow> string \<Rightarrow> string \<Rightarrow> string \<Rightarrow> datetime \<Rightarrow> 's \<times> (sub_error + submission_claim)"
  do_complete ::
    "'s \<Rightarrow> string \<Rightarrow> string \<Rightarrow> string \<Rightarrow> string \<Rightarrow> datetime \<Rightarrow> 's \<times> (sub_error + bool)"
  do_fail_closed :: "'s \<Rightarrow> string \<Rightarrow> string \<Rightarrow> datetime \<Rightarrow> 's \<times> (sub_error + unit)"
  do_release_unentered :: "'s \<Rightarrow> string \<Rightarrow> string \<Rightarrow> 's \<times> (sub_error + bool)"
  do_cleanup :: "'s \<Rightarrow> datetime \<Rightarrow> 's \<times> (sub_error + nat)"
  do_seal_stale_processing :: "'s \<Rightarrow> datetime \<Rightarrow> 's \<times> (sub_error + nat)"
  do_read :: "'s \<Rightarrow> string \<Rightarrow> string \<Rightarrow> sub_error + submission_record option"

definition memory_submission_store :: "sub_rows submission_store" where
  "memory_submission_store =
     \<lparr>do_claim = mem_claim, do_complete = mem_complete, do_fail_closed = mem_fail_closed,
      do_release_unentered = mem_release_unentered, do_cleanup = mem_cleanup,
      do_seal_stale_processing = mem_seal_stale_processing, do_read = mem_read\<rparr>"

definition ledger_begin ::
  "'s submission_store \<Rightarrow> 's \<Rightarrow> string \<Rightarrow> string \<Rightarrow> string \<Rightarrow> datetime
     \<Rightarrow> 's \<times> (sub_error + submission_claim)" where
  "ledger_begin st s scope key fingerprint now =
     do_claim st s scope (submission_key_hash key) fingerprint now"

definition ledger_complete ::
  "'s submission_store \<Rightarrow> 's \<Rightarrow> string \<Rightarrow> string \<Rightarrow> string \<Rightarrow> string \<Rightarrow> datetime
     \<Rightarrow> 's \<times> (sub_error + bool)" where
  "ledger_complete st s scope key fingerprint response_json now =
     do_complete st s scope (submission_key_hash key) fingerprint response_json now"

definition ledger_fail_closed ::
  "'s submission_store \<Rightarrow> 's \<Rightarrow> string \<Rightarrow> string \<Rightarrow> datetime \<Rightarrow> 's \<times> (sub_error + unit)" where
  "ledger_fail_closed st s scope key now = do_fail_closed st s scope (submission_key_hash key) now"

definition ledger_release_unentered ::
  "'s submission_store \<Rightarrow> 's \<Rightarrow> string \<Rightarrow> string \<Rightarrow> 's \<times> (sub_error + bool)" where
  "ledger_release_unentered st s scope key =
     do_release_unentered st s scope (submission_key_hash key)"

definition ledger_cleanup :: "'s submission_store \<Rightarrow> 's \<Rightarrow> datetime \<Rightarrow> 's \<times> (sub_error + nat)" where
  "ledger_cleanup st s now = do_cleanup st s now"

definition ledger_read ::
  "'s submission_store \<Rightarrow> 's \<Rightarrow> string \<Rightarrow> string \<Rightarrow> sub_error + submission_record option" where
  "ledger_read st s scope key = do_read st s scope (submission_key_hash key)"

section \<open>apply_shopping_submission\<close>

datatype apply_outcome = ApCompleted | ApReplay | ApInProgress | ApConflict | ApIndeterminate

record apply_result =
  ap_outcome :: apply_outcome
  ap_response_json :: "string option"
  fresh :: bool

datatype apply_error = StoreUnavailable | ExecuteRaised

text \<open>
  \<open>execute\<close> is the mutation: a callback that returns the response, or raises (\<open>None\<close>).
  It runs outside the store's lock, so it maps the store it finds to the store it leaves: other
  requests may work on the ledger meanwhile.
\<close>

definition apply_shopping_submission ::
  "'s submission_store \<Rightarrow> 's \<Rightarrow> string \<Rightarrow> string \<Rightarrow> string \<Rightarrow> ('s \<Rightarrow> 's \<times> string option) \<Rightarrow> datetime
     \<Rightarrow> 's \<times> (apply_error + apply_result)" where
  "apply_shopping_submission st s scope key fingerprint execute now =
     (case ledger_begin st s scope key fingerprint now of
        (s1, Inl _) \<Rightarrow> (s1, Inl StoreUnavailable)
      | (s1, Inr claim) \<Rightarrow>
        (case outcome claim of
           Replay \<Rightarrow> (s1, Inr \<lparr>ap_outcome = ApReplay,
                         ap_response_json = claim_response_json claim, fresh = False\<rparr>)
         | InProgress \<Rightarrow> (s1, Inr \<lparr>ap_outcome = ApInProgress, ap_response_json = None, fresh = False\<rparr>)
         | Conflict \<Rightarrow> (s1, Inr \<lparr>ap_outcome = ApConflict, ap_response_json = None, fresh = False\<rparr>)
         | UnknownOutcome \<Rightarrow>
             (s1, Inr \<lparr>ap_outcome = ApIndeterminate, ap_response_json = None, fresh = False\<rparr>)
         | Execute \<Rightarrow>
           (case execute s1 of
              (s2, None) \<Rightarrow> (fst (ledger_fail_closed st s2 scope key now), Inl ExecuteRaised)
            | (s2, Some response_json) \<Rightarrow>
              (let (s3, res) = ledger_complete st s2 scope key fingerprint response_json now;
                   stored = (case res of Inl ShoppingSubmissionUnavailable \<Rightarrow> False | Inr b \<Rightarrow> b);
                   s4 = (if stored then s3 else fst (ledger_fail_closed st s3 scope key now))
               in (s4, Inr \<lparr>ap_outcome = ApCompleted, ap_response_json = Some response_json,
                            fresh = True\<rparr>)))))"

text \<open>A history of ledger calls by any number of requests, with the answer of each \<open>begin\<close>.\<close>

datatype ledger_op =
    OpBegin string string string datetime
  | OpComplete string string string string datetime
  | OpFail string string datetime
  | OpRelease string string
  | OpCleanup datetime

fun ledger_step :: "'s submission_store \<Rightarrow> 's \<Rightarrow> ledger_op \<Rightarrow> 's \<times> claim_outcome option" where
  "ledger_step st s (OpBegin sc k f now) =
     (case ledger_begin st s sc k f now of
        (s', Inl _) \<Rightarrow> (s', None) | (s', Inr c) \<Rightarrow> (s', Some (outcome c)))"
| "ledger_step st s (OpComplete sc k f body now) = (fst (ledger_complete st s sc k f body now), None)"
| "ledger_step st s (OpFail sc k now) = (fst (ledger_fail_closed st s sc k now), None)"
| "ledger_step st s (OpRelease sc k) = (fst (ledger_release_unentered st s sc k), None)"
| "ledger_step st s (OpCleanup now) = (fst (ledger_cleanup st s now), None)"

fun ledger_run ::
  "'s submission_store \<Rightarrow> 's \<Rightarrow> ledger_op list \<Rightarrow> 's \<times> claim_outcome option list" where
  "ledger_run st s [] = (s, [])"
| "ledger_run st s (op # ops) =
     (let (s1, a) = ledger_step st s op; (s2, as) = ledger_run st s1 ops in (s2, a # as))"

section \<open>What the ledger promises\<close>

text \<open>
  The abstract ledger: what a row means at millisecond precision, for either backend.  A spec
  operation is a function of the view; \<open>epoch_ms\<close> of the clock is its only time.
\<close>

record sub_view =
  w_fp :: string
  w_state :: sub_state
  w_body :: "string option"
  w_status :: "int option"
  w_created :: int
  w_updated :: int
  w_expires :: int

definition retention_ms :: int where
  "retention_ms = SUBMISSION_RETENTION_SECONDS * 1000"

definition view_processing :: "string \<Rightarrow> int \<Rightarrow> sub_view" where
  "view_processing f n = \<lparr>w_fp = f, w_state = Processing, w_body = None, w_status = None,
     w_created = n, w_updated = n, w_expires = n + PROCESSING_HORIZON_SECONDS * 1000\<rparr>"

definition view_sealed :: "int \<Rightarrow> sub_view \<Rightarrow> sub_view" where
  "view_sealed n v = v\<lparr>w_state := Indeterminate, w_body := None, w_status := None, w_updated := n,
     w_expires := n + retention_ms\<rparr>"

definition view_done :: "string \<Rightarrow> int \<Rightarrow> sub_view \<Rightarrow> sub_view" where
  "view_done body n v = v\<lparr>w_state := Completed, w_body := Some body, w_status := Some 200,
     w_updated := n, w_expires := n + retention_ms\<rparr>"

definition spec_sweep :: "int \<Rightarrow> (sub_key \<Rightarrow> sub_view option) \<Rightarrow> sub_key \<Rightarrow> sub_view option" where
  "spec_sweep n V k =
     (case V k of None \<Rightarrow> None
      | Some v \<Rightarrow> if n < w_expires v then Some v
                  else if w_state v = Processing then Some (view_sealed n v) else None)"

definition spec_answer :: "sub_view \<Rightarrow> string \<Rightarrow> submission_claim" where
  "spec_answer v f =
     (if w_fp v \<noteq> f then no_claim Conflict
      else (case w_state v of
              Processing \<Rightarrow> no_claim InProgress
            | Indeterminate \<Rightarrow> no_claim UnknownOutcome
            | Completed \<Rightarrow> (case w_body v of None \<Rightarrow> no_claim UnknownOutcome
                | Some b \<Rightarrow> if b = [] then no_claim UnknownOutcome
                            else \<lparr>outcome = Replay, claim_response_json = Some b\<rparr>)))"

definition spec_claim ::
  "int \<Rightarrow> (sub_key \<Rightarrow> sub_view option) \<Rightarrow> sub_key \<Rightarrow> string
     \<Rightarrow> (sub_key \<Rightarrow> sub_view option) \<times> submission_claim" where
  "spec_claim n V k f =
     (let W = spec_sweep n V
      in case W k of None \<Rightarrow> (W(k \<mapsto> view_processing f n), no_claim Execute)
         | Some v \<Rightarrow> (W, spec_answer v f))"

definition spec_fail :: "int \<Rightarrow> (sub_key \<Rightarrow> sub_view option) \<Rightarrow> sub_key \<Rightarrow> sub_key \<Rightarrow> sub_view option" where
  "spec_fail n V k =
     (case V k of None \<Rightarrow> V
      | Some v \<Rightarrow> if w_state v = Processing then V(k \<mapsto> view_sealed n v) else V)"

definition spec_completes :: "(sub_key \<Rightarrow> sub_view option) \<Rightarrow> sub_key \<Rightarrow> string \<Rightarrow> string \<Rightarrow> bool" where
  "spec_completes V k f body =
     (length body \<le> MAX_RESPONSE_CHARS \<and>
      (case V k of None \<Rightarrow> False | Some v \<Rightarrow> w_state v = Processing \<and> w_fp v = f))"

definition spec_complete ::
  "int \<Rightarrow> (sub_key \<Rightarrow> sub_view option) \<Rightarrow> sub_key \<Rightarrow> string \<Rightarrow> string \<Rightarrow> sub_key \<Rightarrow> sub_view option"
  where
  "spec_complete n V k f body =
     (if length body > MAX_RESPONSE_CHARS then spec_fail n V k
      else if spec_completes V k f body then V(k := map_option (view_done body n) (V k)) else V)"

definition spec_release :: "(sub_key \<Rightarrow> sub_view option) \<Rightarrow> sub_key \<Rightarrow> sub_key \<Rightarrow> sub_view option" where
  "spec_release V k =
     (case V k of None \<Rightarrow> V
      | Some v \<Rightarrow> if w_state v = Processing then V(k := None) else V)"

definition spec_seal :: "int \<Rightarrow> (sub_key \<Rightarrow> sub_view option) \<Rightarrow> sub_key \<Rightarrow> sub_view option" where
  "spec_seal n V k =
     map_option (\<lambda>v. if w_state v = Processing \<and> w_expires v \<le> n then view_sealed n v else v) (V k)"

definition spec_purge :: "int \<Rightarrow> (sub_key \<Rightarrow> sub_view option) \<Rightarrow> sub_key \<Rightarrow> sub_view option" where
  "spec_purge n V k =
     (case V k of None \<Rightarrow> None
      | Some v \<Rightarrow> if w_state v \<noteq> Processing \<and> w_expires v \<le> n then None else Some v)"

lemmas sub_constants = SUBMISSION_RETENTION_SECONDS_def PROCESSING_HORIZON_SECONDS_def retention_ms_def
lemmas sub_view_defs = view_processing_def view_sealed_def view_done_def

text \<open>A row sealed by the sweep is not purged by the same sweep.\<close>

lemma spec_sweep_eq: "spec_purge n (spec_seal n V) = spec_sweep n V"
  by (rule ext) (auto simp: spec_purge_def spec_seal_def spec_sweep_def sub_view_defs sub_constants
      split: option.splits)

text \<open>
  \<open>held k t0 V\<close>: the ledger remembers a submission of \<open>k\<close> claimed at \<open>t0\<close>, at least until
  the retention has passed.
\<close>

definition held :: "sub_key \<Rightarrow> int \<Rightarrow> (sub_key \<Rightarrow> sub_view option) \<Rightarrow> bool" where
  "held k t0 V =
     (case V k of None \<Rightarrow> False
      | Some v \<Rightarrow> w_state v = Processing \<or> t0 + retention_ms \<le> w_expires v)"

lemma held_claimed: "snd (spec_claim n V k f) = no_claim Execute \<Longrightarrow> held k n (fst (spec_claim n V k f))"
  by (auto simp: spec_claim_def Let_def held_def view_processing_def spec_answer_def
      split: option.splits if_splits sub_state.splits)

lemma held_sweep:
  assumes "held k t0 V" and "t0 \<le> n" and "n < t0 + retention_ms"
  shows "held k t0 (spec_sweep n V)"
  using assms by (auto simp: held_def spec_sweep_def view_sealed_def split: option.splits)

lemma held_claim:
  assumes "held k t0 V" and "t0 \<le> n" and "n < t0 + retention_ms"
  shows "held k t0 (fst (spec_claim n V j f))"
    and "j = k \<Longrightarrow> outcome (snd (spec_claim n V j f)) \<noteq> Execute"
  using held_sweep [OF assms]
  by (auto simp: spec_claim_def Let_def held_def view_processing_def spec_answer_def
      split: option.splits sub_state.splits)

lemma held_fail:
  assumes "held k t0 V" and "t0 \<le> n"
  shows "held k t0 (spec_fail n V j)"
  using assms by (auto simp: spec_fail_def held_def view_sealed_def split: option.splits)

lemma held_complete:
  assumes "held k t0 V" and "t0 \<le> n"
  shows "held k t0 (spec_complete n V j f body)"
  using assms held_fail [OF assms, of j]
  by (auto simp: spec_complete_def spec_completes_def held_def view_done_def split: option.splits)

lemma held_release: "held k t0 V \<Longrightarrow> j \<noteq> k \<Longrightarrow> held k t0 (spec_release V j)"
  by (auto simp: spec_release_def held_def split: option.splits)

lemma held_purge:
  assumes "held k t0 V" and "n < t0 + retention_ms"
  shows "held k t0 (spec_purge n V)"
  using assms by (auto simp: spec_purge_def held_def split: option.splits)

text \<open>The ledger operations on the view.\<close>

fun spec_step ::
  "(sub_key \<Rightarrow> sub_view option) \<Rightarrow> ledger_op \<Rightarrow> (sub_key \<Rightarrow> sub_view option) \<times> claim_outcome option"
  where
  "spec_step V (OpBegin sc k f now) =
     (if require_opaque_parts sc (submission_key_hash k) f
      then (let (W, c) = spec_claim (epoch_ms now) V (sc, submission_key_hash k) f
            in (W, Some (outcome c)))
      else (V, None))"
| "spec_step V (OpComplete sc k f body now) =
     (if require_opaque_parts sc (submission_key_hash k) f
      then spec_complete (epoch_ms now) V (sc, submission_key_hash k) f body else V, None)"
| "spec_step V (OpFail sc k now) =
     (if require_opaque_parts sc (submission_key_hash k) zero_fingerprint
      then spec_fail (epoch_ms now) V (sc, submission_key_hash k) else V, None)"
| "spec_step V (OpRelease sc k) =
     (if require_opaque_parts sc (submission_key_hash k) zero_fingerprint
      then spec_release V (sc, submission_key_hash k) else V, None)"
| "spec_step V (OpCleanup now) = (spec_purge (epoch_ms now) V, None)"

fun spec_run ::
  "(sub_key \<Rightarrow> sub_view option) \<Rightarrow> ledger_op list
     \<Rightarrow> (sub_key \<Rightarrow> sub_view option) \<times> claim_outcome option list" where
  "spec_run V [] = (V, [])"
| "spec_run V (op # ops) =
     (let (V1, a) = spec_step V op; (V2, as) = spec_run V1 ops in (V2, a # as))"

text \<open>
  \<open>within sc k t0 op\<close>: the clock of \<open>op\<close> is inside the retention window that starts at
  \<open>t0\<close>, and \<open>op\<close> does not release the submission \<open>k\<close> of \<open>sc\<close>.
\<close>

fun within :: "string \<Rightarrow> string \<Rightarrow> int \<Rightarrow> ledger_op \<Rightarrow> bool" where
  "within sc k t0 (OpBegin _ _ _ now) = (t0 \<le> epoch_ms now \<and> epoch_ms now < t0 + retention_ms)"
| "within sc k t0 (OpComplete _ _ _ _ now) = (t0 \<le> epoch_ms now)"
| "within sc k t0 (OpFail _ _ now) = (t0 \<le> epoch_ms now)"
| "within sc k t0 (OpRelease sc' k') =
     (sc' \<noteq> sc \<or> submission_key_hash k' \<noteq> submission_key_hash k)"
| "within sc k t0 (OpCleanup now) = (epoch_ms now < t0 + retention_ms)"

fun begins :: "string \<Rightarrow> string \<Rightarrow> ledger_op \<Rightarrow> bool" where
  "begins sc k (OpBegin sc' k' _ _) = (sc' = sc \<and> k' = k)"
| "begins sc k _ = False"

text \<open>\<open>executions sc k ops answers\<close>: how many begins of the submission were told to execute.\<close>

definition executions :: "string \<Rightarrow> string \<Rightarrow> ledger_op list \<Rightarrow> claim_outcome option list \<Rightarrow> nat" where
  "executions sc k ops answers =
     length (filter (\<lambda>(op, a). begins sc k op \<and> a = Some Execute) (zip ops answers))"

text \<open>
  The same window with releases of any submission, and the releases of one submission that a run
  grants: those the store answers with True.
\<close>

fun in_window :: "int \<Rightarrow> ledger_op \<Rightarrow> bool" where
  "in_window t0 (OpBegin _ _ _ now) = (t0 \<le> epoch_ms now \<and> epoch_ms now < t0 + retention_ms)"
| "in_window t0 (OpComplete _ _ _ _ now) = (t0 \<le> epoch_ms now)"
| "in_window t0 (OpFail _ _ now) = (t0 \<le> epoch_ms now)"
| "in_window t0 (OpRelease _ _) = True"
| "in_window t0 (OpCleanup now) = (epoch_ms now < t0 + retention_ms)"

fun releases :: "'s submission_store \<Rightarrow> 's \<Rightarrow> string \<Rightarrow> string \<Rightarrow> ledger_op \<Rightarrow> bool" where
  "releases st s sc k (OpRelease sc' k') =
     (sc' = sc \<and> submission_key_hash k' = submission_key_hash k \<and>
      snd (ledger_release_unentered st s sc' k') = Inr True)"
| "releases st s sc k _ = False"

fun granted_releases :: "'s submission_store \<Rightarrow> 's \<Rightarrow> string \<Rightarrow> string \<Rightarrow> ledger_op list \<Rightarrow> nat" where
  "granted_releases st s sc k [] = 0"
| "granted_releases st s sc k (op # ops) =
     (if releases st s sc k op then 1 else 0) + granted_releases st (fst (ledger_step st s op)) sc k ops"

lemma executions_simps [simp]:
  "executions sc k [] as = 0" "executions sc k ops [] = 0"
  "executions sc k (op # ops) (a # as) =
     (if begins sc k op \<and> a = Some Execute then 1 else 0) + executions sc k ops as"
  by (simp_all add: executions_def)

lemma within_in_window: "in_window t0 op \<Longrightarrow> within sc k t0 op \<or>
    (\<exists>k'. op = OpRelease sc k' \<and> submission_key_hash k' = submission_key_hash k)"
  by (cases op) auto

lemma held_cong: "V k = W k \<Longrightarrow> held k t0 V = held k t0 W"
  by (simp add: held_def)

lemma executed_held:
  assumes "begins sc k op" and "snd (spec_step V op) = Some Execute"
  shows "held (sc, submission_key_hash k) t0 (fst (spec_step V op))"
  using assms by (cases op) (auto simp: case_prod_beta Let_def held_def spec_claim_def spec_answer_def
    view_processing_def split: if_splits option.splits sub_state.splits)

lemma held_step:
  assumes "held (sc, submission_key_hash k) t0 V" and "within sc k t0 op"
  shows "held (sc, submission_key_hash k) t0 (fst (spec_step V op))"
    and "begins sc k op \<Longrightarrow> snd (spec_step V op) \<noteq> Some Execute"
proof -
  show "held (sc, submission_key_hash k) t0 (fst (spec_step V op))"
    by (cases op) (use assms in \<open>simp_all add: case_prod_beta Let_def held_claim(1) held_complete
        held_fail held_release held_purge\<close>)
  assume "begins sc k op"
  then show "snd (spec_step V op) \<noteq> Some Execute"
    using assms(2) by (cases op) (simp_all add: case_prod_beta Let_def held_claim(2) [OF assms(1)])
qed

lemma held_run:
  assumes "held (sc, submission_key_hash k) t0 V" and "list_all (within sc k t0) ops"
  shows "executions sc k ops (snd (spec_run V ops)) = 0"
  using assms
proof (induction ops arbitrary: V)
  case Nil
  then show ?case by (simp add: executions_def)
next
  case (Cons op ops)
  then have "executions sc k ops (snd (spec_run (fst (spec_step V op)) ops)) = 0"
    using held_step(1) [of sc k t0 V op] by simp
  moreover have "begins sc k op \<longrightarrow> snd (spec_step V op) \<noteq> Some Execute"
    using held_step(2) [of sc k t0 V op] Cons.prems by auto
  ultimately show ?case by (auto simp: executions_def split: prod.splits)
qed

text \<open>A settled row stays as it is until it expires, whatever else is asked of the ledger.\<close>

fun op_before :: "int \<Rightarrow> ledger_op \<Rightarrow> bool" where
  "op_before e (OpBegin _ _ _ now) = (epoch_ms now < e)"
| "op_before e (OpCleanup now) = (epoch_ms now < e)"
| "op_before e _ = True"

lemma settled_step:
  assumes "V j = Some v" and "w_state v \<noteq> Processing" and "op_before (w_expires v) op"
  shows "fst (spec_step V op) j = Some v"
  using assms
  by (cases op) (auto simp: case_prod_beta Let_def spec_claim_def spec_sweep_def spec_complete_def
      spec_completes_def spec_fail_def spec_release_def spec_purge_def split: option.splits)

lemma settled_run:
  assumes "V j = Some v" and "w_state v \<noteq> Processing" and "list_all (op_before (w_expires v)) ops"
  shows "fst (spec_run V ops) j = Some v"
  using assms
proof (induction ops arbitrary: V)
  case Nil
  then show ?case by simp
next
  case (Cons op ops)
  then show ?case
    using settled_step [of V j v op] by (simp add: case_prod_beta Let_def)
qed

lemma settled_claim:
  assumes "V j = Some v" and "w_state v \<noteq> Processing" and "n < w_expires v"
  shows "spec_claim n V j f = (spec_sweep n V, spec_answer v f)" and "spec_sweep n V j = Some v"
  using assms by (simp_all add: spec_claim_def spec_sweep_def)

section \<open>The store interface\<close>

lemma hex64_zero: "hex64 zero_fingerprint"
  by code_simp

lemma require_opaque_zero: "require_opaque_parts sc kh f \<Longrightarrow> require_opaque_parts sc kh zero_fingerprint"
  by (simp add: require_opaque_parts_def hex64_zero)

locale submission_backend =
  fixes st :: "'s submission_store"
    and ok :: "'s \<Rightarrow> bool"
    and view :: "'s \<Rightarrow> sub_key \<Rightarrow> sub_view option"
  assumes claim_law: "ok s \<Longrightarrow> require_opaque_parts sc kh f \<Longrightarrow>
      ok (fst (do_claim st s sc kh f now)) \<and>
      view (fst (do_claim st s sc kh f now)) = fst (spec_claim (epoch_ms now) (view s) (sc, kh) f) \<and>
      snd (do_claim st s sc kh f now) = Inr (snd (spec_claim (epoch_ms now) (view s) (sc, kh) f))"
    and complete_law: "ok s \<Longrightarrow> require_opaque_parts sc kh f \<Longrightarrow>
      ok (fst (do_complete st s sc kh f body now)) \<and>
      view (fst (do_complete st s sc kh f body now)) =
        spec_complete (epoch_ms now) (view s) (sc, kh) f body \<and>
      (\<exists>b. snd (do_complete st s sc kh f body now) = Inr b \<and>
        (spec_completes (view s) (sc, kh) f body \<longrightarrow> b) \<and>
        (b \<longrightarrow> (\<exists>v. view (fst (do_complete st s sc kh f body now)) (sc, kh) = Some v \<and>
           w_state v = Completed \<and> w_fp v = f \<and> w_body v = Some body)))"
    and fail_law: "ok s \<Longrightarrow> require_opaque_parts sc kh zero_fingerprint \<Longrightarrow>
      ok (fst (do_fail_closed st s sc kh now)) \<and>
      view (fst (do_fail_closed st s sc kh now)) = spec_fail (epoch_ms now) (view s) (sc, kh)"
    and release_law: "ok s \<Longrightarrow> require_opaque_parts sc kh zero_fingerprint \<Longrightarrow>
      ok (fst (do_release_unentered st s sc kh)) \<and>
      view (fst (do_release_unentered st s sc kh)) = spec_release (view s) (sc, kh) \<and>
      (spec_release (view s) (sc, kh) (sc, kh) \<noteq> view s (sc, kh) \<longrightarrow>
         snd (do_release_unentered st s sc kh) = Inr True)"
    and cleanup_law: "ok s \<Longrightarrow> ok (fst (do_cleanup st s now)) \<and>
      view (fst (do_cleanup st s now)) = spec_purge (epoch_ms now) (view s)"
    and claim_refuses: "\<not> require_opaque_parts sc kh f \<Longrightarrow>
      do_claim st s sc kh f now = (s, Inl ShoppingSubmissionUnavailable)"
    and complete_refuses: "\<not> require_opaque_parts sc kh f \<Longrightarrow>
      do_complete st s sc kh f body now = (s, Inl ShoppingSubmissionUnavailable)"
    and fail_refuses: "\<not> require_opaque_parts sc kh zero_fingerprint \<Longrightarrow>
      do_fail_closed st s sc kh now = (s, Inl ShoppingSubmissionUnavailable)"
    and release_refuses: "\<not> require_opaque_parts sc kh zero_fingerprint \<Longrightarrow>
      do_release_unentered st s sc kh = (s, Inl ShoppingSubmissionUnavailable)"
begin

lemmas claim_laws = claim_law [THEN conjunct1] claim_law [THEN conjunct2, THEN conjunct1]
  claim_law [THEN conjunct2, THEN conjunct2]
lemmas complete_laws = complete_law [THEN conjunct1] complete_law [THEN conjunct2, THEN conjunct1]
lemmas fail_laws = fail_law [THEN conjunct1] fail_law [THEN conjunct2]
lemmas release_laws = release_law [THEN conjunct1] release_law [THEN conjunct2, THEN conjunct1]
lemmas cleanup_laws = cleanup_law [THEN conjunct1] cleanup_law [THEN conjunct2]
lemmas refusals = claim_refuses complete_refuses fail_refuses release_refuses
lemmas ledger_defs = ledger_begin_def ledger_complete_def ledger_fail_closed_def
  ledger_release_unentered_def ledger_cleanup_def

lemma step_refines:
  assumes "ok s"
  shows "ok (fst (ledger_step st s op)) \<and> view (fst (ledger_step st s op)) = fst (spec_step (view s) op) \<and>
    snd (ledger_step st s op) = snd (spec_step (view s) op)"
proof (cases op)
  case (OpBegin sc k f now)
  then show ?thesis
    using claim_law [OF assms, of sc "submission_key_hash k" f now]
    by (cases "require_opaque_parts sc (submission_key_hash k) f")
      (use assms in \<open>auto simp: ledger_defs refusals split: prod.splits sum.splits\<close>)
qed (use assms in \<open>auto simp: ledger_defs refusals complete_laws fail_laws release_laws cleanup_laws\<close>)

lemma run_refines:
  assumes "ok s"
  shows "ok (fst (ledger_run st s ops)) \<and> view (fst (ledger_run st s ops)) = fst (spec_run (view s) ops) \<and>
    snd (ledger_run st s ops) = snd (spec_run (view s) ops)"
  using assms
proof (induction ops arbitrary: s)
  case Nil
  then show ?case by simp
next
  case (Cons op ops)
  obtain s1 a where s1: "ledger_step st s op = (s1, a)" by force
  obtain V1 b where V1: "spec_step (view s) op = (V1, b)" by force
  have "ok s1" and "view s1 = V1" and "a = b"
    using step_refines [OF Cons.prems, of op] by (simp_all add: s1 V1)
  then show ?case
    using Cons.IH [of s1] by (simp add: s1 V1 case_prod_beta Let_def)
qed

text \<open>A row that is held is given up only by a release that the store grants.\<close>

lemma held_or_released:
  assumes "ok s" and held: "held (sc, submission_key_hash k) t0 (view s)" and "in_window t0 op"
  shows "held (sc, submission_key_hash k) t0 (view (fst (ledger_step st s op))) \<or> releases st s sc k op"
    and "begins sc k op \<Longrightarrow> snd (ledger_step st s op) \<noteq> Some Execute"
proof -
  let ?j = "(sc, submission_key_hash k)"
  note step = step_refines [OF assms(1), of op]
  show "held ?j t0 (view (fst (ledger_step st s op))) \<or> releases st s sc k op"
  proof (cases "within sc k t0 op")
    case True
    then show ?thesis using held_step(1) [OF held] step by simp
  next
    case False
    then obtain k' where op: "op = OpRelease sc k'" "submission_key_hash k' = submission_key_hash k"
      using within_in_window [OF assms(3)] by blast
    show ?thesis
    proof (cases "view (fst (ledger_step st s op)) ?j = view s ?j")
      case True
      then show ?thesis using held held_cong by blast
    next
      case False
      then have moved: "fst (spec_step (view s) op) ?j \<noteq> view s ?j" using step by simp
      then have parts: "require_opaque_parts sc (submission_key_hash k) zero_fingerprint"
        by (auto simp: op split: if_splits)
      with moved release_law [OF assms(1) parts] show ?thesis by (simp add: op ledger_defs)
    qed
  qed
  show "snd (ledger_step st s op) \<noteq> Some Execute" if "begins sc k op"
  proof -
    from that have "within sc k t0 op" using assms(3) by (cases op) auto
    then show ?thesis using held_step(2) [OF held] that step by simp
  qed
qed

text \<open>A run from any row: one execution, if the row is not held, and one more for every release granted.\<close>

lemma executions_released:
  assumes "ok s" and "list_all (in_window t0) ops"
  shows "executions sc k ops (snd (ledger_run st s ops)) \<le>
    granted_releases st s sc k ops + (if held (sc, submission_key_hash k) t0 (view s) then 0 else 1)"
  using assms
proof (induction ops arbitrary: s)
  case Nil
  then show ?case by simp
next
  case (Cons op ops)
  obtain s1 a where s1: "ledger_step st s op = (s1, a)" by force
  have ok: "ok s1" and a: "view s1 = fst (spec_step (view s) op)" "a = snd (spec_step (view s) op)"
    using step_refines [OF Cons.prems(1), of op] by (simp_all add: s1)
  have w: "in_window t0 op" "list_all (in_window t0) ops" using Cons.prems(2) by simp_all
  have run: "executions sc k (op # ops) (snd (ledger_run st s (op # ops))) =
      (if begins sc k op \<and> a = Some Execute then 1 else 0) + executions sc k ops (snd (ledger_run st s1 ops))"
    by (simp add: s1 case_prod_beta Let_def)
  have freed: "granted_releases st s sc k (op # ops) =
      (if releases st s sc k op then 1 else 0) + granted_releases st s1 sc k ops" by (simp add: s1)
  show ?case
  proof (cases "held (sc, submission_key_hash k) t0 (view s)")
    case True
    from held_or_released [OF Cons.prems(1) True w(1)] Cons.IH [OF ok w(2)] True run freed s1
    show ?thesis by (auto split: if_splits)
  next
    case False
    have "a = Some Execute \<Longrightarrow> begins sc k op \<Longrightarrow> held (sc, submission_key_hash k) t0 (view s1)"
      using executed_held [of sc k op "view s" t0] a by simp
    with Cons.IH [OF ok w(2)] False run freed show ?thesis by (auto split: if_splits)
  qed
qed

lemma executes_once_per_release:
  assumes "ok s" and "ledger_begin st s sc k f now = (s1, Inr c)" and "outcome c = Execute"
    and "list_all (in_window (epoch_ms now)) ops"
  shows "executions sc k ops (snd (ledger_run st s1 ops)) \<le> granted_releases st s1 sc k ops"
proof -
  have parts: "require_opaque_parts sc (submission_key_hash k) f"
    using assms(2) claim_refuses [of sc "submission_key_hash k" f s now] by (auto simp: ledger_defs)
  note law = claim_law [OF assms(1) parts, of now]
  from law have "ok s1" and "view s1 = fst (spec_claim (epoch_ms now) (view s) (sc, submission_key_hash k) f)"
    and c: "c = snd (spec_claim (epoch_ms now) (view s) (sc, submission_key_hash k) f)"
    using assms(2) by (auto simp: ledger_defs)
  moreover have "c = no_claim Execute"
    using c assms(3) by (auto simp: spec_claim_def Let_def spec_answer_def
        split: option.splits sub_state.splits if_splits)
  ultimately have "held (sc, submission_key_hash k) (epoch_ms now) (view s1)"
    using held_claimed by simp
  with executions_released [OF \<open>ok s1\<close> assms(4), of sc k] show ?thesis by simp
qed

lemma fresh_begin_executes:
  assumes "ok s" and "require_opaque_parts sc (submission_key_hash k) f" and "view s = (\<lambda>_. None)"
  shows "snd (ledger_begin st s sc k f now) = Inr (no_claim Execute)"
  using claim_law [OF assms(1,2), of now] assms(3)
  by (simp add: ledger_defs spec_claim_def spec_sweep_def)

text \<open>
  \<open>quiet\<close>: the callback runs while other requests use the ledger, but nobody else touches
  this submission's row.
\<close>

definition quiet :: "sub_key \<Rightarrow> ('s \<Rightarrow> 's \<times> string option) \<Rightarrow> bool" where
  "quiet j execute =
     (\<forall>x. ok x \<longrightarrow> ok (fst (execute x)) \<and> view (fst (execute x)) j = view x j)"

text \<open>The row a fresh application leaves behind.\<close>

definition settled_row :: "string option \<Rightarrow> int \<Rightarrow> sub_view \<Rightarrow> sub_view" where
  "settled_row res n v =
     (case res of Some body \<Rightarrow> if length body \<le> MAX_RESPONSE_CHARS then view_done body n v
                               else view_sealed n v
      | None \<Rightarrow> view_sealed n v)"

lemma apply_settles:
  assumes "ok s" and "require_opaque_parts sc (submission_key_hash k) f"
    and "quiet (sc, submission_key_hash k) execute"
    and "spec_sweep (epoch_ms now) (view s) (sc, submission_key_hash k) = None"
  shows "\<exists>s1 s2 res. execute s1 = (s2, res) \<and>
    ok (fst (apply_shopping_submission st s sc k f execute now)) \<and>
    view (fst (apply_shopping_submission st s sc k f execute now)) (sc, submission_key_hash k) =
      Some (settled_row res (epoch_ms now) (view_processing f (epoch_ms now))) \<and>
    snd (apply_shopping_submission st s sc k f execute now) =
      (case res of None \<Rightarrow> Inl ExecuteRaised
       | Some body \<Rightarrow> Inr \<lparr>ap_outcome = ApCompleted, ap_response_json = Some body, fresh = True\<rparr>)"
proof -
  let ?h = "submission_key_hash k"
  let ?n = "epoch_ms now"
  obtain s1 a where claim: "do_claim st s sc ?h f now = (s1, a)" by force
  note law = claim_law [OF assms(1,2), of now, unfolded claim]
  from law have ok1: "ok s1" and a: "a = Inr (no_claim Execute)"
    and v1: "view s1 (sc, ?h) = Some (view_processing f ?n)"
    using assms(4) by (auto simp: spec_claim_def Let_def)
  obtain s2 res where ex: "execute s1 = (s2, res)" by force
  have ok2: "ok s2" and v2: "view s2 (sc, ?h) = Some (view_processing f ?n)"
    using assms(3) ok1 v1 ex by (auto simp: quiet_def dest: spec [of _ s1])
  have zero: "require_opaque_parts sc ?h zero_fingerprint"
    using require_opaque_zero [OF assms(2)] .
  have sealed: "ok (fst (do_fail_closed st x sc ?h now))"
    "view (fst (do_fail_closed st x sc ?h now)) = spec_fail ?n (view x) (sc, ?h)" if "ok x" for x
    using fail_law [OF that zero, of now] by simp_all
  show ?thesis
  proof (cases res)
    case None
    then show ?thesis
      using claim a ex sealed [OF ok2] v2
      by (intro exI [of _ s1] exI [of _ s2] exI [of _ res])
        (simp add: apply_shopping_submission_def ledger_defs settled_row_def spec_fail_def
          view_processing_def)
  next
    case (Some body)
    obtain s3 b where fin: "do_complete st s2 sc ?h f body now = (s3, Inr b)"
      using complete_law [OF ok2 assms(2), of body now] by (metis prod.collapse)
    note claw = complete_law [OF ok2 assms(2), of body now, unfolded fin]
    from claw have ok3: "ok s3" and v3: "view s3 = spec_complete ?n (view s2) (sc, ?h) f body"
      and b1: "spec_completes (view s2) (sc, ?h) f body \<Longrightarrow> b"
      and b2: "b \<Longrightarrow> \<exists>v. view s3 (sc, ?h) = Some v \<and> w_state v = Completed" by auto
    have done3: "b = (length body \<le> MAX_RESPONSE_CHARS) \<and> view s3 (sc, ?h) =
        Some (settled_row res ?n (view_processing f ?n))"
      using b1 b2 v3 v2 Some
      by (auto simp: spec_complete_def spec_completes_def settled_row_def view_processing_def
          spec_fail_def view_sealed_def not_le)
    have "view (fst (do_fail_closed st s3 sc ?h now)) (sc, ?h) = view s3 (sc, ?h)"
      using sealed [OF ok3] done3 Some
      by (auto simp: spec_fail_def settled_row_def view_sealed_def view_done_def)
    then show ?thesis
      using claim a ex Some fin done3 ok3 sealed [OF ok3]
      by (intro exI [of _ s1] exI [of _ s2] exI [of _ res])
        (simp add: apply_shopping_submission_def ledger_defs Let_def)
  qed
qed

lemma apply_returning:
  assumes "ok s" and "require_opaque_parts sc (submission_key_hash k) f" and "view s = (\<lambda>_. None)"
  shows "\<exists>s1. apply_shopping_submission st s sc k f (\<lambda>s. (s, res)) now = (s1,
      case res of None \<Rightarrow> Inl ExecuteRaised
      | Some body \<Rightarrow> Inr \<lparr>ap_outcome = ApCompleted, ap_response_json = Some body, fresh = True\<rparr>)"
proof -
  have "spec_sweep (epoch_ms now) (view s) (sc, submission_key_hash k) = None"
    by (simp add: assms(3) spec_sweep_def)
  from apply_settles [OF assms(1,2) _ this, of "\<lambda>s. (s, res)"]
  have "snd (apply_shopping_submission st s sc k f (\<lambda>s. (s, res)) now) =
      (case res of None \<Rightarrow> Inl ExecuteRaised
       | Some body \<Rightarrow> Inr \<lparr>ap_outcome = ApCompleted, ap_response_json = Some body, fresh = True\<rparr>)"
    by (auto simp: quiet_def)
  then show ?thesis by (metis prod.collapse)
qed

lemma apply_on_settled:
  assumes "ok s" and "require_opaque_parts sc (submission_key_hash k) f"
    and "view s (sc, submission_key_hash k) = Some v" and "w_state v \<noteq> Processing"
    and "epoch_ms now < w_expires v"
  shows "\<exists>s'. (\<forall>execute. apply_shopping_submission st s sc k f execute now = (s',
      Inr (if w_fp v \<noteq> f then \<lparr>ap_outcome = ApConflict, ap_response_json = None, fresh = False\<rparr>
           else (case (w_state v, w_body v) of
               (Completed, Some (c # cs)) \<Rightarrow>
                 \<lparr>ap_outcome = ApReplay, ap_response_json = Some (c # cs), fresh = False\<rparr>
             | _ \<Rightarrow> \<lparr>ap_outcome = ApIndeterminate, ap_response_json = None, fresh = False\<rparr>)))) \<and>
    view s' (sc, submission_key_hash k) = Some v"
proof -
  let ?h = "submission_key_hash k"
  obtain s1 a where claim: "do_claim st s sc ?h f now = (s1, a)" by force
  have "a = Inr (spec_answer v f)" and "view s1 (sc, ?h) = Some v"
    using claim_law [OF assms(1,2), of now] settled_claim [of "view s" "(sc, submission_key_hash k)" v, OF assms(3-5)] by (simp_all add: claim)
  then show ?thesis
    using claim assms(4)
    by (intro exI [of _ s1]) (auto simp: apply_shopping_submission_def ledger_defs spec_answer_def
        split: option.splits list.splits sub_state.splits)
qed

end

section \<open>The process-local store is a provider\<close>

definition abs_sub :: "submission_record \<Rightarrow> sub_view" where
  "abs_sub r = \<lparr>w_fp = sub_fingerprint r, w_state = sub_state r, w_body = response_body r,
     w_status = http_status r, w_created = epoch_ms (created_at r),
     w_updated = epoch_ms (updated_at r), w_expires = epoch_ms (expires_at r)\<rparr>"

definition mem_sub_view :: "sub_rows \<Rightarrow> sub_key \<Rightarrow> sub_view option" where
  "mem_sub_view rows j = map_option abs_sub (dict_get rows j)"

lemma abs_sub_simps [simp]:
  "w_fp (abs_sub r) = sub_fingerprint r" "w_state (abs_sub r) = sub_state r"
  "w_body (abs_sub r) = response_body r" "w_expires (abs_sub r) = epoch_ms (expires_at r)"
  by (simp_all add: abs_sub_def)

lemma abs_processing: "abs_sub (processing_record sc kh f now) = view_processing f (epoch_ms now)"
  by (simp add: abs_sub_def processing_record_def view_processing_def time_simps)

lemma abs_indeterminate: "abs_sub (indeterminate_record r now) = view_sealed (epoch_ms now) (abs_sub r)"
  by (simp add: abs_sub_def indeterminate_record_def view_sealed_def retention_ms_def time_simps)

lemma abs_sub_named: "abs_sub (r\<lparr>sub_scope := sc, sub_key_hash := kh\<rparr>) = abs_sub r"
  by (simp add: abs_sub_def)

lemma mem_seal_view:
  assumes "dict_ok rows"
  shows "dict_ok (fst (seal_unlocked rows now)) \<and>
    mem_sub_view (fst (seal_unlocked rows now)) = spec_seal (epoch_ms now) (mem_sub_view rows)"
  using assms
  by (auto simp: seal_unlocked_def Let_def mem_sub_view_def spec_seal_def dict_simps seal_due_def
      abs_indeterminate map_option_case fun_eq_iff split: option.splits)

lemma mem_purge_view:
  assumes "dict_ok rows"
  shows "dict_ok (fst (purge_unlocked rows now)) \<and>
    mem_sub_view (fst (purge_unlocked rows now)) = spec_purge (epoch_ms now) (mem_sub_view rows)"
  using assms
  by (auto simp: purge_unlocked_def Let_def mem_sub_view_def spec_purge_def dict_purge_get purge_due_def
      fun_eq_iff split: option.splits)

lemma mem_sweep_view:
  assumes "dict_ok rows"
  shows "dict_ok (fst (purge_unlocked (fst (seal_unlocked rows now)) now)) \<and>
    mem_sub_view (fst (purge_unlocked (fst (seal_unlocked rows now)) now)) =
      spec_sweep (epoch_ms now) (mem_sub_view rows)"
  using mem_seal_view [OF assms, of now] mem_purge_view [of "fst (seal_unlocked rows now)" now]
  by (simp add: spec_sweep_eq)

lemma mem_sub_view_set: "mem_sub_view (dict_set j r rows) = (mem_sub_view rows)(j \<mapsto> abs_sub r)"
  by (simp add: fun_eq_iff mem_sub_view_def dict_simps)

lemma mem_sub_view_del: "mem_sub_view (dict_del j rows) = (mem_sub_view rows)(j := None)"
  by (simp add: fun_eq_iff mem_sub_view_def dict_simps)

lemmas mem_sub_views = mem_sub_view_set mem_sub_view_del abs_processing abs_indeterminate abs_sub_named

text \<open>
  After the sweep no row is both settled and expired, so the branch of \<open>claim\<close> that drops such a
  row is never taken.
\<close>

lemma swept_row_live:
  assumes "spec_sweep n V j = Some v" and "w_state v \<noteq> Processing"
  shows "n < w_expires v"
  using assms by (auto simp: spec_sweep_def view_sealed_def sub_constants split: option.splits if_splits)

lemma interpret_live:
  assumes "sub_state r \<noteq> Processing \<longrightarrow> epoch_ms now < epoch_ms (expires_at r)"
  shows "interpret_record r f now = spec_answer (abs_sub r) f"
  using assms
  by (cases "sub_state r") (auto simp: interpret_record_def spec_answer_def Let_def split: option.splits)

lemma mem_claim_refines:
  assumes "dict_ok rows" and "require_opaque_parts sc kh f"
  shows "dict_ok (fst (mem_claim rows sc kh f now)) \<and>
    mem_sub_view (fst (mem_claim rows sc kh f now)) =
      fst (spec_claim (epoch_ms now) (mem_sub_view rows) (sc, kh) f) \<and>
    snd (mem_claim rows sc kh f now) = Inr (snd (spec_claim (epoch_ms now) (mem_sub_view rows) (sc, kh) f))"
proof -
  define rows2 where
    "rows2 = fst (purge_unlocked (fst (seal_unlocked rows (aware_utc now))) (aware_utc now))"
  have sweep: "dict_ok rows2" "mem_sub_view rows2 = spec_sweep (epoch_ms now) (mem_sub_view rows)"
    using mem_sweep_view [OF assms(1), of "aware_utc now"] by (simp_all add: rows2_def)
  show ?thesis
  proof (cases "dict_get rows2 (sc, kh)")
    case None
    moreover from this have "spec_sweep (epoch_ms now) (mem_sub_view rows) (sc, kh) = None"
      by (simp add: sweep(2) [symmetric] mem_sub_view_def)
    ultimately show ?thesis
      using sweep assms(2)
      by (simp add: mem_claim_def Let_def rows2_def [symmetric] spec_claim_def mem_sub_views)
  next
    case (Some r)
    then have w: "spec_sweep (epoch_ms now) (mem_sub_view rows) (sc, kh) = Some (abs_sub r)"
      by (simp add: sweep(2) [symmetric] mem_sub_view_def)
    then have live: "sub_state r \<noteq> Processing \<longrightarrow> epoch_ms now < epoch_ms (expires_at r)"
      using swept_row_live [OF w] by simp
    then show ?thesis
      using sweep assms(2) Some w interpret_live [of r "aware_utc now" f]
      by (auto simp: mem_claim_def Let_def rows2_def [symmetric] spec_claim_def)
  qed
qed

lemma mem_fail_refines:
  assumes "dict_ok rows" and "require_opaque_parts sc kh zero_fingerprint"
  shows "dict_ok (fst (mem_fail_closed rows sc kh now)) \<and>
    mem_sub_view (fst (mem_fail_closed rows sc kh now)) = spec_fail (epoch_ms now) (mem_sub_view rows) (sc, kh)"
    and "snd (mem_fail_closed rows sc kh now) = Inr ()"
  using assms
  by (auto simp: mem_fail_closed_def spec_fail_def mem_sub_views mem_sub_view_def [of rows]
      split: option.splits)

lemma mem_complete_refines:
  assumes "dict_ok rows" and "require_opaque_parts sc kh f"
  shows "dict_ok (fst (mem_complete rows sc kh f body now)) \<and>
    mem_sub_view (fst (mem_complete rows sc kh f body now)) =
      spec_complete (epoch_ms now) (mem_sub_view rows) (sc, kh) f body \<and>
    snd (mem_complete rows sc kh f body now) = Inr (spec_completes (mem_sub_view rows) (sc, kh) f body)"
proof (cases "length body > MAX_RESPONSE_CHARS")
  case True
  then show ?thesis
    using mem_fail_refines [OF assms(1) require_opaque_zero [OF assms(2)], of now] assms(2)
    by (cases "mem_fail_closed rows sc kh now")
      (simp add: mem_complete_def spec_complete_def spec_completes_def)
next
  case False
  then show ?thesis
    using assms
    by (auto simp: mem_complete_def spec_complete_def spec_completes_def mem_sub_view_set
        mem_sub_view_def [of rows] abs_sub_def view_done_def retention_ms_def time_simps
        split: option.splits)
qed

lemma mem_release_refines:
  assumes "dict_ok rows" and "require_opaque_parts sc kh zero_fingerprint"
  shows "dict_ok (fst (mem_release_unentered rows sc kh)) \<and>
    mem_sub_view (fst (mem_release_unentered rows sc kh)) = spec_release (mem_sub_view rows) (sc, kh) \<and>
    (spec_release (mem_sub_view rows) (sc, kh) (sc, kh) \<noteq> mem_sub_view rows (sc, kh) \<longrightarrow>
       snd (mem_release_unentered rows sc kh) = Inr True)"
  using assms
  by (auto simp: mem_release_unentered_def spec_release_def mem_sub_views mem_sub_view_def [of rows]
      split: option.splits)

lemma mem_cleanup_refines:
  assumes "dict_ok rows"
  shows "dict_ok (fst (mem_cleanup rows now)) \<and>
    mem_sub_view (fst (mem_cleanup rows now)) = spec_purge (epoch_ms now) (mem_sub_view rows)"
  using mem_purge_view [OF assms, of "aware_utc now"] by (simp add: mem_cleanup_def case_prod_beta)

lemma mem_refusals:
  "\<not> require_opaque_parts sc kh f \<Longrightarrow> mem_claim s sc kh f now = (s, Inl ShoppingSubmissionUnavailable)"
  "\<not> require_opaque_parts sc kh f \<Longrightarrow>
     mem_complete s sc kh f body now = (s, Inl ShoppingSubmissionUnavailable)"
  "\<not> require_opaque_parts sc kh zero_fingerprint \<Longrightarrow>
     mem_fail_closed s sc kh now = (s, Inl ShoppingSubmissionUnavailable)"
  "\<not> require_opaque_parts sc kh zero_fingerprint \<Longrightarrow>
     mem_release_unentered s sc kh = (s, Inl ShoppingSubmissionUnavailable)"
  by (simp_all add: mem_claim_def mem_complete_def mem_fail_closed_def mem_release_unentered_def)

interpretation mem_sub: submission_backend memory_submission_store dict_ok mem_sub_view
proof unfold_locales
  fix rows :: sub_rows and sc kh f body and now :: datetime
  assume "dict_ok rows" and "require_opaque_parts sc kh f"
  from mem_complete_refines [OF this, of body now] show "dict_ok (fst (do_complete memory_submission_store rows sc kh f body now)) \<and>
      mem_sub_view (fst (do_complete memory_submission_store rows sc kh f body now)) =
        spec_complete (epoch_ms now) (mem_sub_view rows) (sc, kh) f body \<and>
      (\<exists>b. snd (do_complete memory_submission_store rows sc kh f body now) = Inr b \<and>
        (spec_completes (mem_sub_view rows) (sc, kh) f body \<longrightarrow> b) \<and>
        (b \<longrightarrow> (\<exists>v. mem_sub_view (fst (do_complete memory_submission_store rows sc kh f body now))
             (sc, kh) = Some v \<and> w_state v = Completed \<and> w_fp v = f \<and> w_body v = Some body)))"
    by (auto simp: memory_submission_store_def spec_complete_def spec_completes_def view_done_def
        split: option.splits)
qed (simp_all add: memory_submission_store_def mem_claim_refines mem_fail_refines(1)
    mem_release_refines mem_cleanup_refines mem_refusals)

section \<open>The client key: property\<close>

lemma key_chars_no_space: "list_all is_key_char s \<Longrightarrow> list_all (\<lambda>c. \<not> isspace c) s"
  by (force simp: list_all_iff is_key_char_def isspace_def Let_def)

lemma key_chars_no_comma: "list_all is_key_char s \<Longrightarrow> \<not> contains_char (CHR '','') s"
  by (auto simp: contains_char_def list_all_iff is_key_char_def Let_def code_def)

text \<open>
  an accepted idempotency key is in canonical form.  It has 16 to 128 characters of the key
  alphabet, it is accepted unchanged when sent again (so padding never makes two submissions of
  one), and what is stored of it is a 64-digit hash that the store accepts for every valid scope.
\<close>

theorem parse_submission_key_canonical:
  assumes "parse_submission_key raw = Inr key"
  shows "16 \<le> length key \<and> length key \<le> 128 \<and> list_all is_key_char key \<and>
    parse_submission_key (Some key) = Inr key \<and> hex64 (submission_key_hash key)"
proof -
  have key: "key_re key"
    using assms by (auto simp: parse_submission_key_def Let_def split: option.splits if_splits)
  then have chars: "list_all is_key_char key" and len: "16 \<le> length key" "length key \<le> 128"
    by (simp_all add: key_re_def)
  have "strip key = key"
    using strip_no_space key_chars_no_space [OF chars] by blast
  then show ?thesis
    using key chars len key_chars_no_comma [OF chars]
    by (auto simp: parse_submission_key_def Let_def submission_key_hash_def sha256_hex64)
qed

theorem parse_submission_key_canonical_witness:
  "list_all is_key_char ''0123456789abcdef_-'' \<and>
   parse_submission_key (Some ''0123456789abcdef_-'') = Inr ''0123456789abcdef_-''"
proof -
  have "parse_submission_key (Some ''  0123456789abcdef_- '') = Inr ''0123456789abcdef_-''"
    by code_simp
  from parse_submission_key_canonical [OF this] show ?thesis by simp
qed

end
