(* ===== verification/SubmissionSql.thy ===== *)
theory SubmissionSql
  imports Submission SqlTable
begin

text \<open>
  app/infrastructure/database/shopping_submission_store.py: the shared submission ledger, one row
  per scope and key hash, each operation one transaction whose statements see one table.  The store
  is the second provider of \<open>submission_backend\<close>.  \<open>faults\<close> are the exceptions the database
  raises (see SqlTable).
\<close>

section \<open>Rows\<close>

record sub_row =
  s_fingerprint :: string
  s_state :: string
  s_http_status :: "int option"
  s_response_body :: "string option"
  s_created_ms :: int
  s_updated_ms :: int
  s_expires_ms :: int

type_synonym sub_table = "(sub_key, sub_row) dict"

definition SUB_MAX_ATTEMPTS :: nat where
  "SUB_MAX_ATTEMPTS = 8"

definition state_of_string :: "string \<Rightarrow> sub_state option" where
  "state_of_string s =
     (if s = ''processing'' then Some Processing
      else if s = ''completed'' then Some Completed
      else if s = ''indeterminate'' then Some Indeterminate else None)"

definition to_record :: "sub_key \<Rightarrow> sub_row \<Rightarrow> sub_error + submission_record" where
  "to_record j row =
     (case state_of_string (s_state row) of
        None \<Rightarrow> Inl ShoppingSubmissionUnavailable
      | Some state \<Rightarrow> Inr
          \<lparr>sub_scope = fst j, sub_key_hash = snd j, sub_fingerprint = s_fingerprint row,
           sub_state = state, response_body = s_response_body row, http_status = s_http_status row,
           created_at = from_epoch_ms (s_created_ms row), updated_at = from_epoch_ms (s_updated_ms row),
           expires_at = from_epoch_ms (s_expires_ms row)\<rparr>)"

text \<open>\<open>epoch_ms(from_epoch_ms(now_ms) + timedelta(seconds=SUBMISSION_RETENTION_SECONDS))\<close>\<close>

definition sub_retention_end :: "int \<Rightarrow> int" where
  "sub_retention_end now_ms = epoch_ms (plus_seconds (from_epoch_ms now_ms) SUBMISSION_RETENTION_SECONDS)"

definition indeterminate_values :: "int \<Rightarrow> sub_row \<Rightarrow> sub_row" where
  "indeterminate_values now_ms r =
     r\<lparr>s_state := ''indeterminate'', s_http_status := None, s_response_body := None,
       s_updated_ms := now_ms, s_expires_ms := sub_retention_end now_ms\<rparr>"

section \<open>Statements\<close>

definition sub_seal :: "sub_table \<Rightarrow> int \<Rightarrow> sub_table \<times> nat" where
  "sub_seal t now_ms =
     (let (t', rows) = sql_update (\<lambda>k r. s_state r = ''processing'' \<and> s_expires_ms r \<le> now_ms)
        (indeterminate_values now_ms) t
      in (t', length rows))"

definition purge_where :: "int \<Rightarrow> sub_row \<Rightarrow> bool" where
  "purge_where now_ms r =
     ((s_state r = ''completed'' \<or> s_state r = ''indeterminate'') \<and> s_expires_ms r \<le> now_ms)"

definition sub_purge :: "sub_table \<Rightarrow> int \<Rightarrow> sub_table \<times> nat" where
  "sub_purge t now_ms = sql_delete (\<lambda>k r. purge_where now_ms r) t"

definition sub_load :: "sub_table \<Rightarrow> string \<Rightarrow> string \<Rightarrow> sub_row option" where
  "sub_load t scope key_hash = dict_get t (scope, key_hash)"

definition processing_row :: "string \<Rightarrow> int \<Rightarrow> sub_row" where
  "processing_row fingerprint now_ms =
     \<lparr>s_fingerprint = fingerprint, s_state = ''processing'', s_http_status = None,
      s_response_body = None, s_created_ms = now_ms, s_updated_ms = now_ms,
      s_expires_ms = now_ms + PROCESSING_HORIZON_SECONDS * 1000\<rparr>"

text \<open>
  \<open>_claim_once\<close>: \<open>None\<close> where it raises \<open>_Retry\<close>.  An error of \<open>_to_record\<close> rolls the
  transaction back.
\<close>

definition claim_once ::
  "string \<Rightarrow> string \<Rightarrow> string \<Rightarrow> int \<Rightarrow> sub_table
     \<Rightarrow> (sub_table \<times> (sub_error + submission_claim)) option" where
  "claim_once scope key_hash fingerprint now_ms t =
     (let t1 = fst (sub_seal t now_ms); t2 = fst (sub_purge t1 now_ms) in
      case sql_insert (scope, key_hash) (processing_row fingerprint now_ms) t2 of
        Some t3 \<Rightarrow> Some (t3, Inr (no_claim Execute))
      | None \<Rightarrow>
        (case sub_load t2 scope key_hash of
           None \<Rightarrow> None
         | Some row \<Rightarrow>
             if s_state row \<noteq> ''processing'' \<and> s_expires_ms row \<le> now_ms then None
             else (case to_record (scope, key_hash) row of
                     Inl e \<Rightarrow> Some (t, Inl e)
                   | Inr r \<Rightarrow> Some (t2, Inr (interpret_record r fingerprint (from_epoch_ms now_ms))))))"

section \<open>SqlShoppingSubmissionStore\<close>

definition sql_sub_claim ::
  "db_exc option list \<Rightarrow> sub_table \<Rightarrow> string \<Rightarrow> string \<Rightarrow> string \<Rightarrow> datetime
     \<Rightarrow> sub_table \<times> (sub_error + submission_claim)" where
  "sql_sub_claim faults t scope key_hash fingerprint now =
     (if \<not> require_opaque_parts scope key_hash fingerprint
      then (t, Inl ShoppingSubmissionUnavailable)
      else
        (case with_retries SUB_MAX_ATTEMPTS faults
                (claim_once scope key_hash fingerprint (epoch_ms now)) t of
           (t', Some res) \<Rightarrow> (t', res)
         | (t', None) \<Rightarrow> (t', Inl ShoppingSubmissionUnavailable)))"

definition sql_sub_fail_closed ::
  "db_exc option \<Rightarrow> sub_table \<Rightarrow> string \<Rightarrow> string \<Rightarrow> datetime \<Rightarrow> sub_table \<times> (sub_error + unit)" where
  "sql_sub_fail_closed fault t scope key_hash now =
     (if \<not> require_opaque_parts scope key_hash zero_fingerprint
      then (t, Inl ShoppingSubmissionUnavailable)
      else if fault \<noteq> None then (t, Inl ShoppingSubmissionUnavailable)
      else
        (fst (sql_update (\<lambda>k r. k = (scope, key_hash) \<and> s_state r = ''processing'')
                (indeterminate_values (epoch_ms now)) t),
         Inr ()))"

definition completed_values :: "string \<Rightarrow> int \<Rightarrow> sub_row \<Rightarrow> sub_row" where
  "completed_values response_json now_ms r =
     r\<lparr>s_state := ''completed'', s_http_status := Some 200, s_response_body := Some response_json,
       s_updated_ms := now_ms, s_expires_ms := sub_retention_end now_ms\<rparr>"

definition sql_sub_complete ::
  "db_exc option \<Rightarrow> sub_table \<Rightarrow> string \<Rightarrow> string \<Rightarrow> string \<Rightarrow> string \<Rightarrow> datetime
     \<Rightarrow> sub_table \<times> (sub_error + bool)" where
  "sql_sub_complete fault t scope key_hash fingerprint response_json now =
     (if \<not> require_opaque_parts scope key_hash fingerprint
      then (t, Inl ShoppingSubmissionUnavailable)
      else if length response_json > MAX_RESPONSE_CHARS then
        (case sql_sub_fail_closed fault t scope key_hash now of
           (t', Inl e) \<Rightarrow> (t', Inl e)
         | (t', Inr _) \<Rightarrow> (t', Inr False))
      else if fault \<noteq> None then (t, Inl ShoppingSubmissionUnavailable)
      else
        (let (t', rows) = sql_update
               (\<lambda>k r. k = (scope, key_hash) \<and> (s_fingerprint r = fingerprint \<and> s_state r = ''processing''))
               (completed_values response_json (epoch_ms now)) t
         in if length rows = 1 then (t', Inr True)
            else (t', Inr (case sub_load t' scope key_hash of
                None \<Rightarrow> False
              | Some row \<Rightarrow> s_state row = ''completed'' \<and> s_fingerprint row = fingerprint \<and>
                            s_response_body row = Some response_json))))"

definition sql_sub_release_unentered ::
  "db_exc option \<Rightarrow> sub_table \<Rightarrow> string \<Rightarrow> string \<Rightarrow> sub_table \<times> (sub_error + bool)" where
  "sql_sub_release_unentered fault t scope key_hash =
     (if \<not> require_opaque_parts scope key_hash zero_fingerprint
      then (t, Inl ShoppingSubmissionUnavailable)
      else if fault \<noteq> None then (t, Inl ShoppingSubmissionUnavailable)
      else (let (t', n) = sql_delete (\<lambda>k r. k = (scope, key_hash) \<and> s_state r = ''processing'') t
            in (t', Inr (n = 1))))"

definition sql_sub_cleanup ::
  "db_exc option \<Rightarrow> sub_table \<Rightarrow> datetime \<Rightarrow> sub_table \<times> (sub_error + nat)" where
  "sql_sub_cleanup fault t now =
     (if fault \<noteq> None then (t, Inl ShoppingSubmissionUnavailable)
      else (case sub_purge t (epoch_ms now) of (t', n) \<Rightarrow> (t', Inr n)))"

definition sql_sub_seal_stale_processing ::
  "db_exc option \<Rightarrow> sub_table \<Rightarrow> datetime \<Rightarrow> sub_table \<times> (sub_error + nat)" where
  "sql_sub_seal_stale_processing fault t now =
     (if fault \<noteq> None then (t, Inl ShoppingSubmissionUnavailable)
      else (case sub_seal t (epoch_ms now) of (t', n) \<Rightarrow> (t', Inr n)))"

definition sql_sub_read ::
  "db_exc option \<Rightarrow> sub_table \<Rightarrow> string \<Rightarrow> string \<Rightarrow> sub_error + submission_record option" where
  "sql_sub_read fault t scope key_hash =
     (if \<not> require_opaque_parts scope key_hash zero_fingerprint then Inl ShoppingSubmissionUnavailable
      else if fault \<noteq> None then Inl ShoppingSubmissionUnavailable
      else (case sub_load t scope key_hash of
              None \<Rightarrow> Inr None
            | Some row \<Rightarrow> and_then (to_record (scope, key_hash) row) (\<lambda>r. Inr (Some r))))"

text \<open>The store under given faults: the attempts of \<open>claim\<close>, and one per other operation.\<close>

record sub_faults =
  on_claim :: "db_exc option list"
  on_complete :: "db_exc option"
  on_fail_closed :: "db_exc option"
  on_other :: "db_exc option"

definition no_faults :: sub_faults where
  "no_faults = \<lparr>on_claim = [], on_complete = None, on_fail_closed = None, on_other = None\<rparr>"

definition sql_submission_store :: "sub_faults \<Rightarrow> sub_table submission_store" where
  "sql_submission_store fs =
     \<lparr>do_claim = sql_sub_claim (on_claim fs), do_complete = sql_sub_complete (on_complete fs),
      do_fail_closed = sql_sub_fail_closed (on_fail_closed fs),
      do_release_unentered = sql_sub_release_unentered (on_other fs),
      do_cleanup = sql_sub_cleanup (on_other fs),
      do_seal_stale_processing = sql_sub_seal_stale_processing (on_other fs),
      do_read = sql_sub_read (on_other fs)\<rparr>"

section \<open>Refinement\<close>

text \<open>Only the adapter writes the table, and it writes the three states it reads.\<close>

definition sub_table_ok :: "sub_table \<Rightarrow> bool" where
  "sub_table_ok t = (dict_ok t \<and> (\<forall>j r. dict_get t j = Some r \<longrightarrow> state_of_string (s_state r) \<noteq> None))"

definition abs_row :: "sub_row \<Rightarrow> sub_view" where
  "abs_row r = \<lparr>w_fp = s_fingerprint r, w_state = the (state_of_string (s_state r)),
     w_body = s_response_body r, w_status = s_http_status r, w_created = s_created_ms r,
     w_updated = s_updated_ms r, w_expires = s_expires_ms r\<rparr>"

definition sql_sub_view :: "sub_table \<Rightarrow> sub_key \<Rightarrow> sub_view option" where
  "sql_sub_view t j = map_option abs_row (dict_get t j)"

lemma state_of_string_simps [simp]:
  "state_of_string ''processing'' = Some Processing"
  "state_of_string ''completed'' = Some Completed"
  "state_of_string ''indeterminate'' = Some Indeterminate"
  by (simp_all add: state_of_string_def)

lemma stored_state_known:
  "sub_table_ok t \<Longrightarrow> dict_get t j = Some r \<Longrightarrow> \<exists>st. state_of_string (s_state r) = Some st"
  unfolding sub_table_ok_def by blast

lemma stored_state:
  assumes "sub_table_ok t" and "dict_get t j = Some r"
  obtains "s_state r = ''processing''" | "s_state r = ''completed''" | "s_state r = ''indeterminate''"
  using stored_state_known [OF assms] by (auto simp: state_of_string_def split: if_splits)

lemma abs_row_simps [simp]:
  "w_fp (abs_row r) = s_fingerprint r" "w_body (abs_row r) = s_response_body r"
  "w_state (abs_row r) = the (state_of_string (s_state r))"
  "w_expires (abs_row r) = s_expires_ms r"
  by (simp_all add: abs_row_def)

lemma sub_retention_end_eq: "sub_retention_end n = n + retention_ms"
  by (simp add: sub_retention_end_def retention_ms_def time_simps)

lemma abs_indeterminate_values: "abs_row (indeterminate_values n r) = view_sealed n (abs_row r)"
  by (simp add: abs_row_def indeterminate_values_def view_sealed_def sub_retention_end_eq)

lemma abs_completed_values: "abs_row (completed_values body n r) = view_done body n (abs_row r)"
  by (simp add: abs_row_def completed_values_def view_done_def sub_retention_end_eq)

lemma abs_processing_row: "abs_row (processing_row f n) = view_processing f n"
  by (simp add: abs_row_def processing_row_def view_processing_def)

lemma value_states [simp]:
  "s_state (indeterminate_values n r) = ''indeterminate''"
  "s_state (completed_values body n r) = ''completed''"
  "s_state (processing_row f n) = ''processing''"
  by (simp_all add: indeterminate_values_def completed_values_def processing_row_def)

lemmas abs_rows = abs_indeterminate_values abs_completed_values abs_processing_row

lemma sub_seal_get:
  "dict_get (fst (sub_seal t n)) j = map_option (\<lambda>r. if s_state r = ''processing'' \<and> s_expires_ms r \<le> n
     then indeterminate_values n r else r) (dict_get t j)"
  by (simp add: sub_seal_def case_prod_beta Let_def dict_simps)

lemma sub_seal_view:
  assumes "sub_table_ok t"
  shows "sub_table_ok (fst (sub_seal t n)) \<and> sql_sub_view (fst (sub_seal t n)) = spec_seal n (sql_sub_view t)"
proof -
  have "dict_ok (fst (sub_seal t n))"
    using assms by (simp add: sub_table_ok_def sub_seal_def case_prod_beta Let_def)
  moreover have "sql_sub_view (fst (sub_seal t n)) j = spec_seal n (sql_sub_view t) j" for j
    by (cases "dict_get t j")
      (auto simp: sql_sub_view_def spec_seal_def sub_seal_get abs_rows elim: stored_state [OF assms])
  ultimately show ?thesis
    using assms by (auto simp: sub_table_ok_def sub_seal_get fun_eq_iff)
qed

lemma sub_purge_get:
  assumes "dict_ok t"
  shows "dict_get (fst (sub_purge t n)) j =
    (case dict_get t j of None \<Rightarrow> None | Some r \<Rightarrow> if purge_where n r then None else Some r)"
  using sql_delete_get [OF assms] by (simp add: sub_purge_def)

lemma sub_purge_view:
  assumes "sub_table_ok t"
  shows "sub_table_ok (fst (sub_purge t n)) \<and> sql_sub_view (fst (sub_purge t n)) = spec_purge n (sql_sub_view t)"
proof -
  have ok: "dict_ok t" using assms by (simp add: sub_table_ok_def)
  have "sql_sub_view (fst (sub_purge t n)) j = spec_purge n (sql_sub_view t) j" for j
    by (cases "dict_get t j")
      (auto simp: sql_sub_view_def spec_purge_def sub_purge_get [OF ok] purge_where_def
        elim: stored_state [OF assms])
  then show ?thesis
    using assms ok by (auto simp: sub_table_ok_def sub_purge_get [OF ok] fun_eq_iff
        split: option.splits) (simp_all add: sub_purge_def)
qed

text \<open>One attempt of \<open>claim\<close> always decides: the row it cannot insert is there, and is live.\<close>

lemma to_record_answer:
  assumes "state_of_string (s_state row) = Some st" and "st \<noteq> Processing \<longrightarrow> n < s_expires_ms row"
  shows "\<exists>r. to_record j row = Inr r \<and>
    interpret_record r f (from_epoch_ms n) = spec_answer (abs_row row) f"
  using assms
  by (cases st) (auto simp: to_record_def interpret_record_def spec_answer_def Let_def time_simps
      split: option.splits)

lemma claim_once_refines:
  assumes "sub_table_ok t"
  shows "\<exists>t'. claim_once sc kh f n t = Some (t', Inr (snd (spec_claim n (sql_sub_view t) (sc, kh) f))) \<and>
    sub_table_ok t' \<and> sql_sub_view t' = fst (spec_claim n (sql_sub_view t) (sc, kh) f)"
proof -
  define t2 where "t2 = fst (sub_purge (fst (sub_seal t n)) n)"
  have ok2: "sub_table_ok t2" and v2: "sql_sub_view t2 = spec_sweep n (sql_sub_view t)"
    using sub_seal_view [OF assms, of n] sub_purge_view [of "fst (sub_seal t n)" n]
    by (simp_all add: t2_def spec_sweep_eq)
  show ?thesis
  proof (cases "dict_get t2 (sc, kh)")
    case None
    then obtain t3 where t3: "sql_insert (sc, kh) (processing_row f n) t2 = Some t3"
      by (simp add: sql_insert_def)
    have "sub_table_ok t3" and "sql_sub_view t3 = (sql_sub_view t2)((sc, kh) \<mapsto> view_processing f n)"
      using sql_insert_ok [OF t3] ok2
      by (auto simp: sub_table_ok_def sql_sub_view_def fun_eq_iff sql_insert_get [OF t3] abs_rows)
    moreover have "spec_sweep n (sql_sub_view t) (sc, kh) = None"
      using None by (simp add: v2 [symmetric] sql_sub_view_def)
    ultimately show ?thesis
      by (simp add: claim_once_def Let_def t2_def [symmetric] t3 spec_claim_def v2)
  next
    case (Some row)
    then have w: "spec_sweep n (sql_sub_view t) (sc, kh) = Some (abs_row row)"
      by (simp add: v2 [symmetric] sql_sub_view_def)
    obtain st where st: "state_of_string (s_state row) = Some st"
      using stored_state_known [OF ok2 Some] by blast
    have live: "st \<noteq> Processing \<longrightarrow> n < s_expires_ms row"
      using swept_row_live [OF w] st by simp
    obtain r where "to_record (sc, kh) row = Inr r"
      "interpret_record r f (from_epoch_ms n) = spec_answer (abs_row row) f"
      using to_record_answer [OF st live] by blast
    moreover have "\<not> (s_state row \<noteq> ''processing'' \<and> s_expires_ms row \<le> n)"
      using live st by (auto simp: state_of_string_def split: if_splits)
    ultimately show ?thesis
      using Some w ok2 v2
      by (auto simp: claim_once_def Let_def t2_def [symmetric] sql_insert_def sub_load_def spec_claim_def)
  qed
qed

lemma sql_claim_refines:
  assumes "sub_table_ok t" and "require_opaque_parts sc kh f"
  shows "sub_table_ok (fst (sql_sub_claim [] t sc kh f now)) \<and>
    sql_sub_view (fst (sql_sub_claim [] t sc kh f now)) =
      fst (spec_claim (epoch_ms now) (sql_sub_view t) (sc, kh) f) \<and>
    snd (sql_sub_claim [] t sc kh f now) =
      Inr (snd (spec_claim (epoch_ms now) (sql_sub_view t) (sc, kh) f))"
proof -
  obtain t' where t': "claim_once sc kh f (epoch_ms now) t =
      Some (t', Inr (snd (spec_claim (epoch_ms now) (sql_sub_view t) (sc, kh) f)))"
    "sub_table_ok t'" "sql_sub_view t' = fst (spec_claim (epoch_ms now) (sql_sub_view t) (sc, kh) f)"
    using claim_once_refines [OF assms(1)] by blast
  have "with_retries SUB_MAX_ATTEMPTS [] (claim_once sc kh f (epoch_ms now)) t =
      (t', Some (Inr (snd (spec_claim (epoch_ms now) (sql_sub_view t) (sc, kh) f))))"
    by (rule with_retries_clean) (simp_all add: t'(1) SUB_MAX_ATTEMPTS_def)
  with t'(2,3) assms(2) show ?thesis by (simp add: sql_sub_claim_def)
qed

text \<open>An UPDATE of one processing row, for the two SET lists.\<close>

lemma update_processing:
  assumes "sub_table_ok t" and "\<And>r. state_of_string (s_state (g r)) \<noteq> None"
    and "\<And>r. abs_row (g r) = G (abs_row r)"
    and upd: "sql_update (\<lambda>k r. k = j \<and> P r) g t = (t', rows)"
  shows "sub_table_ok t' \<and> sql_sub_view t' = (case dict_get t j of
        None \<Rightarrow> sql_sub_view t
      | Some r \<Rightarrow> if P r then (sql_sub_view t)(j \<mapsto> G (abs_row r)) else sql_sub_view t) \<and>
    length rows = (case dict_get t j of None \<Rightarrow> 0 | Some r \<Rightarrow> if P r then 1 else 0)"
proof -
  have okd: "dict_ok t" using assms(1) by (simp add: sub_table_ok_def)
  note key = sql_update_key [OF okd upd]
  have get: "dict_get t' = (case dict_get t j of None \<Rightarrow> dict_get t
      | Some r \<Rightarrow> if P r then (dict_get t)(j \<mapsto> g r) else dict_get t)"
    using key by (auto split: option.splits)
  have ok': "state_of_string (s_state r') \<noteq> None" if r': "dict_get t' i = Some r'" for i r'
  proof (cases "\<exists>r. r' = g r")
    case True
    then show ?thesis using assms(2) by blast
  next
    case False
    then have "dict_get t i = Some r'"
      using r' by (auto simp: get split: option.splits if_splits)
    then show ?thesis using stored_state_known [OF assms(1), of i r'] by auto
  qed
  then have "sub_table_ok t'"
    using key unfolding sub_table_ok_def by blast
  moreover have "sql_sub_view t' = (case dict_get t j of None \<Rightarrow> sql_sub_view t
      | Some r \<Rightarrow> if P r then (sql_sub_view t)(j \<mapsto> G (abs_row r)) else sql_sub_view t)"
    by (auto simp: fun_eq_iff sql_sub_view_def get assms(3) split: option.splits)
  moreover have "length rows = (case dict_get t j of None \<Rightarrow> 0 | Some r \<Rightarrow> if P r then 1 else 0)"
    using key by (auto split: option.splits)
  ultimately show ?thesis by blast
qed

lemma processing_iff:
  "sub_table_ok t \<Longrightarrow> dict_get t j = Some r \<Longrightarrow>
     w_state (abs_row r) = Processing \<longleftrightarrow> s_state r = ''processing''"
  by (erule (1) stored_state) simp_all

lemma sql_fail_refines:
  assumes "sub_table_ok t" and "require_opaque_parts sc kh zero_fingerprint"
  shows "sub_table_ok (fst (sql_sub_fail_closed None t sc kh now)) \<and>
    sql_sub_view (fst (sql_sub_fail_closed None t sc kh now)) =
      spec_fail (epoch_ms now) (sql_sub_view t) (sc, kh)"
    and "snd (sql_sub_fail_closed None t sc kh now) = Inr ()"
proof -
  obtain t' rows where upd: "sql_update (\<lambda>k r. k = (sc, kh) \<and> s_state r = ''processing'')
      (indeterminate_values (epoch_ms now)) t = (t', rows)" by force
  note res = update_processing [where G = "view_sealed (epoch_ms now)", OF assms(1) _ _ upd]
  show "snd (sql_sub_fail_closed None t sc kh now) = Inr ()"
    using assms(2) by (simp add: sql_sub_fail_closed_def)
  show "sub_table_ok (fst (sql_sub_fail_closed None t sc kh now)) \<and>
      sql_sub_view (fst (sql_sub_fail_closed None t sc kh now)) =
        spec_fail (epoch_ms now) (sql_sub_view t) (sc, kh)"
    using res assms(2) processing_iff [OF assms(1), of "(sc, kh)"]
    by (cases "dict_get t (sc, kh)")
      (simp_all add: sql_sub_fail_closed_def upd abs_rows spec_fail_def sql_sub_view_def [of t])
qed

lemma sql_complete_refines:
  assumes "sub_table_ok t" and "require_opaque_parts sc kh f"
  shows "sub_table_ok (fst (sql_sub_complete None t sc kh f body now)) \<and>
    sql_sub_view (fst (sql_sub_complete None t sc kh f body now)) =
      spec_complete (epoch_ms now) (sql_sub_view t) (sc, kh) f body \<and>
    snd (sql_sub_complete None t sc kh f body now) = Inr (length body \<le> MAX_RESPONSE_CHARS \<and>
      (case spec_complete (epoch_ms now) (sql_sub_view t) (sc, kh) f body (sc, kh) of None \<Rightarrow> False
       | Some v \<Rightarrow> w_state v = Completed \<and> w_fp v = f \<and> w_body v = Some body))"
proof (cases "length body > MAX_RESPONSE_CHARS")
  case True
  then show ?thesis
    using sql_fail_refines [OF assms(1) require_opaque_zero [OF assms(2)], of now] assms(2)
    by (cases "sql_sub_fail_closed None t sc kh now") (simp add: sql_sub_complete_def spec_complete_def)
next
  case False
  obtain t' rows where upd: "sql_update (\<lambda>k r. k = (sc, kh) \<and>
        (s_fingerprint r = f \<and> s_state r = ''processing'')) (completed_values body (epoch_ms now)) t =
      (t', rows)" by force
  have res: "sub_table_ok t' \<and> sql_sub_view t' = (case dict_get t (sc, kh) of
        None \<Rightarrow> sql_sub_view t
      | Some r \<Rightarrow> if s_fingerprint r = f \<and> s_state r = ''processing''
          then (sql_sub_view t)((sc, kh) \<mapsto> view_done body (epoch_ms now) (abs_row r)) else sql_sub_view t) \<and>
    length rows = (case dict_get t (sc, kh) of None \<Rightarrow> 0
      | Some r \<Rightarrow> if s_fingerprint r = f \<and> s_state r = ''processing'' then 1 else 0)"
    by (rule update_processing [OF assms(1) _ _ upd]) (simp_all add: abs_rows)
  have view: "sql_sub_view t' = spec_complete (epoch_ms now) (sql_sub_view t) (sc, kh) f body"
    using res processing_iff [OF assms(1), of "(sc, kh)"] False
    by (cases "dict_get t (sc, kh)")
      (auto simp: spec_complete_def spec_completes_def sql_sub_view_def [of t])
  have "(if length rows = 1 then True else case sub_load t' sc kh of None \<Rightarrow> False
      | Some row \<Rightarrow> s_state row = ''completed'' \<and> s_fingerprint row = f \<and> s_response_body row = Some body) =
    (case sql_sub_view t' (sc, kh) of None \<Rightarrow> False
       | Some v \<Rightarrow> w_state v = Completed \<and> w_fp v = f \<and> w_body v = Some body)"
  proof (cases "length rows = 1")
    case True
    then obtain r where "dict_get t (sc, kh) = Some r" "s_fingerprint r = f" "s_state r = ''processing''"
      using res by (auto split: option.splits if_splits)
    with res True show ?thesis by (simp add: view_done_def)
  next
    case False
    have "sub_table_ok t'" using res by simp
    then show ?thesis
      using False by (cases "dict_get t' (sc, kh)")
        (auto simp: sub_load_def sql_sub_view_def elim: stored_state)
  qed
  then show ?thesis
    using False assms(2) res view [symmetric]
    by (simp add: sql_sub_complete_def upd split: if_splits)
qed

lemma sql_release_refines:
  assumes "sub_table_ok t" and "require_opaque_parts sc kh zero_fingerprint"
  shows "sub_table_ok (fst (sql_sub_release_unentered None t sc kh)) \<and>
    sql_sub_view (fst (sql_sub_release_unentered None t sc kh)) = spec_release (sql_sub_view t) (sc, kh) \<and>
    (spec_release (sql_sub_view t) (sc, kh) (sc, kh) \<noteq> sql_sub_view t (sc, kh) \<longrightarrow>
       snd (sql_sub_release_unentered None t sc kh) = Inr True)"
proof -
  have okd: "dict_ok t" using assms(1) by (simp add: sub_table_ok_def)
  define t' where "t' = fst (sql_delete (\<lambda>k r. k = (sc, kh) \<and> s_state r = ''processing'') t)"
  have get: "dict_get t' j = (case dict_get t j of None \<Rightarrow> None
      | Some r \<Rightarrow> if j = (sc, kh) \<and> s_state r = ''processing'' then None else Some r)" for j
    unfolding t'_def by (rule sql_delete_get [OF okd])
  have "sub_table_ok t'"
    using assms(1) by (auto simp: sub_table_ok_def get t'_def sql_delete_get [OF okd] split: option.splits)
  moreover have "sql_sub_view t' j = spec_release (sql_sub_view t) (sc, kh) j" for j
    using processing_iff [OF assms(1), of "(sc, kh)"]
    by (auto simp: sql_sub_view_def get spec_release_def split: option.splits)
  moreover have "snd (sql_sub_release_unentered None t sc kh) = Inr True"
    if "spec_release (sql_sub_view t) (sc, kh) (sc, kh) \<noteq> sql_sub_view t (sc, kh)"
    using that assms(2) processing_iff [OF assms(1), of "(sc, kh)"]
      sql_delete_one_key [OF okd, of "(sc, kh)" "\<lambda>r. s_state r = ''processing''"]
    by (auto simp: sql_sub_release_unentered_def case_prod_beta Let_def sql_sub_view_def spec_release_def
        split: option.splits if_splits)
  ultimately show ?thesis
    using assms(2) by (auto simp: sql_sub_release_unentered_def case_prod_beta Let_def t'_def [symmetric])
qed

lemma sql_cleanup_refines:
  assumes "sub_table_ok t"
  shows "sub_table_ok (fst (sql_sub_cleanup None t now)) \<and>
    sql_sub_view (fst (sql_sub_cleanup None t now)) = spec_purge (epoch_ms now) (sql_sub_view t)"
  using sub_purge_view [OF assms, of "epoch_ms now"] by (simp add: sql_sub_cleanup_def case_prod_beta)

lemma sql_sub_refusals:
  "\<not> require_opaque_parts sc kh f \<Longrightarrow> sql_sub_claim fs s sc kh f now = (s, Inl ShoppingSubmissionUnavailable)"
  "\<not> require_opaque_parts sc kh f \<Longrightarrow>
     sql_sub_complete e s sc kh f body now = (s, Inl ShoppingSubmissionUnavailable)"
  "\<not> require_opaque_parts sc kh zero_fingerprint \<Longrightarrow>
     sql_sub_fail_closed e s sc kh now = (s, Inl ShoppingSubmissionUnavailable)"
  "\<not> require_opaque_parts sc kh zero_fingerprint \<Longrightarrow>
     sql_sub_release_unentered e s sc kh = (s, Inl ShoppingSubmissionUnavailable)"
  by (simp_all add: sql_sub_claim_def sql_sub_complete_def sql_sub_fail_closed_def
      sql_sub_release_unentered_def)

interpretation sql_sub: submission_backend "sql_submission_store no_faults" sub_table_ok sql_sub_view
proof unfold_locales
  fix t :: sub_table and sc kh f body and now :: datetime
  assume "sub_table_ok t" and "require_opaque_parts sc kh f"
  from sql_complete_refines [OF this, of body now]
  show "sub_table_ok (fst (do_complete (sql_submission_store no_faults) t sc kh f body now)) \<and>
      sql_sub_view (fst (do_complete (sql_submission_store no_faults) t sc kh f body now)) =
        spec_complete (epoch_ms now) (sql_sub_view t) (sc, kh) f body \<and>
      (\<exists>b. snd (do_complete (sql_submission_store no_faults) t sc kh f body now) = Inr b \<and>
        (spec_completes (sql_sub_view t) (sc, kh) f body \<longrightarrow> b) \<and>
        (b \<longrightarrow> (\<exists>v. sql_sub_view (fst (do_complete (sql_submission_store no_faults) t sc kh f body now))
             (sc, kh) = Some v \<and> w_state v = Completed \<and> w_fp v = f \<and> w_body v = Some body)))"
    by (auto simp: sql_submission_store_def no_faults_def spec_complete_def spec_completes_def view_done_def
        split: option.splits)
qed (simp_all add: sql_submission_store_def no_faults_def sql_claim_refines sql_fail_refines(1)
    sql_release_refines sql_cleanup_refines sql_sub_refusals)

section \<open>Properties\<close>

lemma empty_views: "mem_sub_view [] = (\<lambda>_. None)" "sql_sub_view [] = (\<lambda>_. None)"
  by (simp_all add: mem_sub_view_def sql_sub_view_def fun_eq_iff)

lemma empty_table_ok [simp]: "sub_table_ok []"
  by (simp add: sub_table_ok_def)

lemma example_parts: "require_opaque_parts ''acct'' (submission_key_hash k) zero_fingerprint"
proof -
  have "\<not> list_ex isspace ''acct''" by code_simp
  then show ?thesis
    by (simp add: require_opaque_parts_def submission_key_hash_def sha256_hex64 hex64_zero contains_char_def)
qed

text \<open>
  C17: one submission executes at most once per retention window and granted release, on either backend.  Once
  a \<open>begin\<close> was told to execute, whatever any requests do to the ledger in the 24 hours from that claim
  (completions, failures, sweeps, other submissions, releases, clocks out of order), the later begins of the
  same submission that are told to execute are at most as many as the releases of exactly this submission
  that the store granted; none is, where there is no such release.
\<close>

theorem submission_at_most_once:
  assumes "dict_ok rows" and "sub_table_ok t" and "list_all (in_window (epoch_ms now)) ops"
  shows "(\<forall>s1 c. ledger_begin memory_submission_store rows sc k f now = (s1, Inr c) \<and> outcome c = Execute \<longrightarrow>
      executions sc k ops (snd (ledger_run memory_submission_store s1 ops)) \<le>
        granted_releases memory_submission_store s1 sc k ops) \<and>
    (\<forall>s1 c. ledger_begin (sql_submission_store no_faults) t sc k f now = (s1, Inr c) \<and> outcome c = Execute \<longrightarrow>
      executions sc k ops (snd (ledger_run (sql_submission_store no_faults) s1 ops)) \<le>
        granted_releases (sql_submission_store no_faults) s1 sc k ops)"
  using mem_sub.executes_once_per_release [OF assms(1) _ _ assms(3)]
    sql_sub.executes_once_per_release [OF assms(2) _ _ assms(3)] by blast

theorem submission_at_most_once_witness:
  "\<exists>s1. ledger_begin (sql_submission_store no_faults) [] ''acct'' ''k'' zero_fingerprint (Aware 0) =
      (s1, Inr (no_claim Execute)) \<and>
    executions ''acct'' ''k''
      [OpBegin ''acct'' ''k'' zero_fingerprint (Aware 1000000), OpFail ''acct'' ''k'' (Aware 2000000),
       OpCleanup (Aware 86399000000), OpBegin ''acct'' ''k'' zero_fingerprint (Aware 86399000000)]
      (snd (ledger_run (sql_submission_store no_faults) s1
      [OpBegin ''acct'' ''k'' zero_fingerprint (Aware 1000000), OpFail ''acct'' ''k'' (Aware 2000000),
       OpCleanup (Aware 86399000000), OpBegin ''acct'' ''k'' zero_fingerprint (Aware 86399000000)])) = 0"
proof -
  let ?ops = "[OpBegin ''acct'' ''k'' zero_fingerprint (Aware 1000000),
    OpFail ''acct'' ''k'' (Aware 2000000), OpCleanup (Aware 86399000000),
    OpBegin ''acct'' ''k'' zero_fingerprint (Aware 86399000000)]"
  obtain s1 where s1: "ledger_begin (sql_submission_store no_faults) [] ''acct'' ''k'' zero_fingerprint
      (Aware 0) = (s1, Inr (no_claim Execute))"
    using sql_sub.fresh_begin_executes [of "[]" "''acct''" "''k''" zero_fingerprint "Aware 0"]
    by (metis empty_table_ok empty_views(2) example_parts prod.collapse)
  have "list_all (in_window (epoch_ms (Aware 0))) ?ops"
    by (simp add: epoch_ms_def sub_constants)
  moreover have "granted_releases (sql_submission_store no_faults) s1 ''acct'' ''k'' ?ops = 0"
    by simp
  ultimately show ?thesis
    using s1 submission_at_most_once [of "[]" "[]" "Aware 0" ?ops "''acct''" "''k''" zero_fingerprint]
    by auto
qed

text \<open>
  C31: the two ledgers are interchangeable.  From empty stores, any history of ledger calls gets the
  same answer to every \<open>begin\<close>, and leaves the same fingerprints, states, bodies and deadlines.
\<close>

theorem submission_backends_agree:
  "snd (ledger_run memory_submission_store [] ops) = snd (ledger_run (sql_submission_store no_faults) [] ops) \<and>
   mem_sub_view (fst (ledger_run memory_submission_store [] ops)) =
     sql_sub_view (fst (ledger_run (sql_submission_store no_faults) [] ops))"
  using mem_sub.run_refines [of "[]" ops] sql_sub.run_refines [of "[]" ops]
  by (simp add: empty_views)

text \<open>
  C30: a finished submission is replayed word for word.  After a first application that ran the
  mutation and got a response of 1 to 262144 characters, and any history of ledger calls, the same
  request within the retention gets exactly that response, marked not fresh, and its own mutation
  is never called: the outcome does not depend on it.
\<close>

theorem submission_replayed_verbatim:
  assumes "require_opaque_parts sc (submission_key_hash k) f"
    and "sql_sub.quiet (sc, submission_key_hash k) execute"
    and "apply_shopping_submission (sql_submission_store no_faults) [] sc k f execute t0 =
      (s1, Inr \<lparr>ap_outcome = ApCompleted, ap_response_json = Some (c # cs), fresh = True\<rparr>)"
    and "length cs < MAX_RESPONSE_CHARS"
    and "list_all (op_before (epoch_ms t0 + retention_ms)) ops"
    and "epoch_ms t1 < epoch_ms t0 + retention_ms"
  shows "\<exists>s3. \<forall>execute2. apply_shopping_submission (sql_submission_store no_faults)
      (fst (ledger_run (sql_submission_store no_faults) s1 ops)) sc k f execute2 t1 =
    (s3, Inr \<lparr>ap_outcome = ApReplay, ap_response_json = Some (c # cs), fresh = False\<rparr>)"
proof -
  let ?j = "(sc, submission_key_hash k)"
  let ?v = "view_done (c # cs) (epoch_ms t0) (view_processing f (epoch_ms t0))"
  have ok1: "sub_table_ok s1" and v1: "sql_sub_view s1 ?j = Some ?v"
    using sql_sub.apply_settles [OF empty_table_ok assms(1,2), of t0] assms(3,4)
    by (auto simp: empty_views spec_sweep_def sql_sub.settled_row_def split: option.splits)
  have exp: "w_expires ?v = epoch_ms t0 + retention_ms" "w_state ?v = Completed" "w_fp ?v = f"
    "w_body ?v = Some (c # cs)"
    by (simp_all add: view_done_def view_processing_def)
  have "fst (spec_run (sql_sub_view s1) ops) ?j = Some ?v"
    by (rule settled_run) (use v1 exp assms(5) in simp_all)
  then have s2: "sub_table_ok (fst (ledger_run (sql_submission_store no_faults) s1 ops))"
    "sql_sub_view (fst (ledger_run (sql_submission_store no_faults) s1 ops)) ?j = Some ?v"
    using sql_sub.run_refines [OF ok1, of ops] by simp_all
  show ?thesis
    using sql_sub.apply_on_settled [OF s2(1) assms(1) s2(2), of t1] exp assms(6) by auto
qed

lemma quiet_return: "sql_sub.quiet j (\<lambda>s. (s, res))" "mem_sub.quiet j (\<lambda>s. (s, res))"
  by (simp_all add: sql_sub.quiet_def mem_sub.quiet_def)

theorem submission_replayed_verbatim_witness:
  "\<exists>s1 s3. apply_shopping_submission (sql_submission_store no_faults) [] ''acct'' ''k'' zero_fingerprint
      (\<lambda>s. (s, Some ''{}'')) (Aware 0) =
      (s1, Inr \<lparr>ap_outcome = ApCompleted, ap_response_json = Some ''{}'', fresh = True\<rparr>) \<and>
    apply_shopping_submission (sql_submission_store no_faults) s1 ''acct'' ''k'' zero_fingerprint
      (\<lambda>s. (s, None)) (Aware 5000000) =
      (s3, Inr \<lparr>ap_outcome = ApReplay, ap_response_json = Some ''{}'', fresh = False\<rparr>)"
proof -
  obtain s1 where s1: "apply_shopping_submission (sql_submission_store no_faults) [] ''acct'' ''k''
      zero_fingerprint (\<lambda>s. (s, Some ''{}'')) (Aware 0) =
      (s1, Inr \<lparr>ap_outcome = ApCompleted, ap_response_json = Some ''{}'', fresh = True\<rparr>)"
    using sql_sub.apply_returning [OF empty_table_ok example_parts empty_views(2), of "''k''" "Some ''{}''"]
    by auto
  show ?thesis
    using s1 submission_replayed_verbatim [OF example_parts quiet_return(1) s1, of "[]" "Aware 5000000"]
    by (auto simp: MAX_RESPONSE_CHARS_def epoch_ms_def sub_constants)
qed

text \<open>
  a mutation that raised is never run again within the retention.  The exception reaches the
  caller, the claim is sealed, and every later request for the submission is told that the outcome
  is unknown (or conflicts, for another fingerprint), without calling its own mutation.
\<close>

theorem submission_raise_sealed:
  assumes "require_opaque_parts sc (submission_key_hash k) f" and "require_opaque_parts sc (submission_key_hash k) f2"
    and "mem_sub.quiet (sc, submission_key_hash k) execute"
    and "apply_shopping_submission memory_submission_store [] sc k f execute t0 = (s1, Inl ExecuteRaised)"
    and "list_all (op_before (epoch_ms t0 + retention_ms)) ops"
    and "epoch_ms t1 < epoch_ms t0 + retention_ms"
  shows "\<exists>s3. \<forall>execute2. apply_shopping_submission memory_submission_store
      (fst (ledger_run memory_submission_store s1 ops)) sc k f2 execute2 t1 =
    (s3, Inr \<lparr>ap_outcome = (if f2 = f then ApIndeterminate else ApConflict),
              ap_response_json = None, fresh = False\<rparr>)"
proof -
  let ?j = "(sc, submission_key_hash k)"
  let ?v = "view_sealed (epoch_ms t0) (view_processing f (epoch_ms t0))"
  have ok1: "dict_ok s1" and v1: "mem_sub_view s1 ?j = Some ?v"
    using mem_sub.apply_settles [OF dict_ok_Nil assms(1,3), of t0] assms(4)
    by (auto simp: empty_views spec_sweep_def mem_sub.settled_row_def split: option.splits)
  have exp: "w_expires ?v = epoch_ms t0 + retention_ms" "w_state ?v = Indeterminate" "w_fp ?v = f"
    by (simp_all add: view_sealed_def view_processing_def)
  have "fst (spec_run (mem_sub_view s1) ops) ?j = Some ?v"
    by (rule settled_run) (use v1 exp assms(5) in simp_all)
  then have s2: "dict_ok (fst (ledger_run memory_submission_store s1 ops))"
    "mem_sub_view (fst (ledger_run memory_submission_store s1 ops)) ?j = Some ?v"
    using mem_sub.run_refines [OF ok1, of ops] by simp_all
  show ?thesis
    using mem_sub.apply_on_settled [OF s2(1) assms(2) s2(2), of t1] exp assms(6) by auto
qed

theorem submission_raise_sealed_witness:
  "\<exists>s1 s3. apply_shopping_submission memory_submission_store [] ''acct'' ''k'' zero_fingerprint
      (\<lambda>s. (s, None)) (Aware 0) = (s1, Inl ExecuteRaised) \<and>
    apply_shopping_submission memory_submission_store s1 ''acct'' ''k'' zero_fingerprint
      (\<lambda>s. (s, Some ''{}'')) (Aware 5000000) =
      (s3, Inr \<lparr>ap_outcome = ApIndeterminate, ap_response_json = None, fresh = False\<rparr>)"
proof -
  obtain s1 where s1: "apply_shopping_submission memory_submission_store [] ''acct'' ''k''
      zero_fingerprint (\<lambda>s. (s, None)) (Aware 0) = (s1, Inl ExecuteRaised)"
    using mem_sub.apply_returning [OF dict_ok_Nil example_parts empty_views(1), of "''k''" None]
    by auto
  show ?thesis
    using s1 submission_raise_sealed [OF example_parts example_parts quiet_return(2) s1, of "[]" "Aware 5000000"]
    by (auto simp: epoch_ms_def sub_constants)
qed

lemma held_faulty_complete:
  assumes "sub_table_ok t" and "held j t0 (sql_sub_view t)" and "t0 \<le> epoch_ms now"
  shows "sub_table_ok (fst (sql_sub_complete e t sc kh f body now)) \<and>
    held j t0 (sql_sub_view (fst (sql_sub_complete e t sc kh f body now)))"
proof (cases "e = None \<and> require_opaque_parts sc kh f")
  case True
  then show ?thesis
    using sql_complete_refines [OF assms(1), of sc kh f body now] held_complete [OF assms(2,3)] by simp
next
  case False
  then show ?thesis
    using assms by (auto simp: sql_sub_complete_def sql_sub_fail_closed_def)
qed

lemma held_faulty_fail:
  assumes "sub_table_ok t" and "held j t0 (sql_sub_view t)" and "t0 \<le> epoch_ms now"
  shows "sub_table_ok (fst (sql_sub_fail_closed e t sc kh now)) \<and>
    held j t0 (sql_sub_view (fst (sql_sub_fail_closed e t sc kh now)))"
proof (cases "e = None \<and> require_opaque_parts sc kh zero_fingerprint")
  case True
  then show ?thesis
    using sql_fail_refines(1) [OF assms(1), of sc kh now] held_fail [OF assms(2,3)] by simp
next
  case False
  then show ?thesis using assms by (auto simp: sql_sub_fail_closed_def)
qed

text \<open>
  losing the result is safe.  Whatever faults the database raises while a fresh application
  records its outcome (\<open>complete\<close> may fail, and \<open>fail_closed\<close> after it), and whether the mutation
  returned or raised, the submission is not executed again by any history within the retention.
\<close>

theorem submission_lost_result_not_rerun:
  assumes "require_opaque_parts sc (submission_key_hash k) f"
    and "sql_sub.quiet (sc, submission_key_hash k) execute"
    and "apply_shopping_submission
      (sql_submission_store \<lparr>on_claim = [], on_complete = e1, on_fail_closed = e2, on_other = e3\<rparr>)
      [] sc k f execute t0 = (s1, res)"
    and "list_all (within sc k (epoch_ms t0)) ops"
  shows "executions sc k ops (snd (ledger_run (sql_submission_store no_faults) s1 ops)) = 0"
proof -
  let ?h = "submission_key_hash k"
  let ?n = "epoch_ms t0"
  obtain s0 where claim: "sql_sub_claim [] [] sc ?h f t0 = (s0, Inr (no_claim Execute))"
    and ok0: "sub_table_ok s0" and v0: "sql_sub_view s0 (sc, ?h) = Some (view_processing f ?n)"
    using sql_claim_refines [OF empty_table_ok assms(1), of t0]
    by (cases "sql_sub_claim [] [] sc ?h f t0") (auto simp: empty_views spec_claim_def spec_sweep_def)
  obtain s2 r where ex: "execute s0 = (s2, r)" by force
  have "sub_table_ok (fst (execute s0)) \<and>
      sql_sub_view (fst (execute s0)) (sc, ?h) = sql_sub_view s0 (sc, ?h)"
    using assms(2) ok0 unfolding sql_sub.quiet_def by blast
  then have ok2: "sub_table_ok s2" and "sql_sub_view s2 (sc, ?h) = Some (view_processing f ?n)"
    using v0 by (simp_all add: ex)
  then have h2: "held (sc, ?h) ?n (sql_sub_view s2)" by (simp add: held_def view_processing_def)
  have "sub_table_ok s1 \<and> held (sc, ?h) ?n (sql_sub_view s1)"
  proof (cases r)
    case None
    then have "s1 = fst (sql_sub_fail_closed e2 s2 sc ?h t0)"
      using assms(3) by (simp add: apply_shopping_submission_def sql_submission_store_def
          sql_sub.ledger_defs claim ex)
    then show ?thesis using held_faulty_fail [OF ok2 h2] by simp
  next
    case (Some body)
    define s3 where "s3 = fst (sql_sub_complete e1 s2 sc ?h f body t0)"
    have h3: "sub_table_ok s3 \<and> held (sc, ?h) ?n (sql_sub_view s3)"
      using held_faulty_complete [OF ok2 h2] by (simp add: s3_def)
    have "s1 = s3 \<or> s1 = fst (sql_sub_fail_closed e2 s3 sc ?h t0)"
      using assms(3) Some by (auto simp: apply_shopping_submission_def sql_submission_store_def
          sql_sub.ledger_defs claim ex s3_def case_prod_beta Let_def split: if_splits)
    then show ?thesis using held_faulty_fail [of s3 "(sc, ?h)" ?n] h3 by auto
  qed
  then show ?thesis
    using held_run [OF _ assms(4)] sql_sub.run_refines [of s1 ops] by simp
qed

theorem submission_lost_result_not_rerun_witness:
  "executions ''acct'' ''k'' [OpBegin ''acct'' ''k'' zero_fingerprint (Aware 1000000000)]
     (snd (ledger_run (sql_submission_store no_faults)
       (fst (apply_shopping_submission
         (sql_submission_store \<lparr>on_claim = [], on_complete = Some OtherDbError,
            on_fail_closed = Some OtherDbError, on_other = None\<rparr>)
         [] ''acct'' ''k'' zero_fingerprint (\<lambda>s. (s, Some ''{}'')) (Aware 0)))
       [OpBegin ''acct'' ''k'' zero_fingerprint (Aware 1000000000)])) = 0"
  by (rule submission_lost_result_not_rerun [OF example_parts quiet_return(1) surjective_pairing])
    (simp add: epoch_ms_def sub_constants)

text \<open>
  a claim is all or nothing under database faults.  It either raises Unavailable with the table
  as it was, or has the fault-free result; seven retryable faults are survived, eight exhaust it.
\<close>

theorem submission_claim_atomic:
  assumes "sub_table_ok t" and "require_opaque_parts sc kh f"
  shows "(sql_sub_claim fs t sc kh f now = (t, Inl ShoppingSubmissionUnavailable) \<or>
       sql_sub_claim fs t sc kh f now = sql_sub_claim [] t sc kh f now) \<and>
    (list_all retryable es \<and> length es < 8 \<longrightarrow>
       sql_sub_claim (map Some es) t sc kh f now = sql_sub_claim [] t sc kh f now) \<and>
    (list_all retryable es \<and> 8 \<le> length es \<longrightarrow>
       sql_sub_claim (map Some es) t sc kh f now = (t, Inl ShoppingSubmissionUnavailable))"
proof -
  define body where "body = claim_once sc kh f (epoch_ms now)"
  obtain t' x where ok: "body t = Some (t', x)"
    using claim_once_refines [OF assms(1), of sc kh f "epoch_ms now"] by (auto simp: body_def)
  have run: "sql_sub_claim fs t sc kh f now = (case with_retries 8 fs body t of
      (t', Some res) \<Rightarrow> (t', res) | (t', None) \<Rightarrow> (t', Inl ShoppingSubmissionUnavailable))" for fs
    using assms(2) by (simp add: sql_sub_claim_def SUB_MAX_ATTEMPTS_def body_def)
  have clean: "with_retries 8 [] body t = (t', Some x)"
    by (rule with_retries_clean) (simp_all add: ok)
  show ?thesis
    using with_retries_atomic [of 8 fs body t] with_retries_survives [of es 8 body t t' x]
      with_retries_exhausted [of 8 es body t]
    by (auto simp: run clean ok)
qed

theorem submission_claim_atomic_witness:
  "sql_sub_claim (map Some [IntegrityError, OperationalError ''deadlock detected'']) []
     ''acct'' (submission_key_hash ''k'') zero_fingerprint (Aware 0) =
   sql_sub_claim [] [] ''acct'' (submission_key_hash ''k'') zero_fingerprint (Aware 0)"
proof -
  have "list_all retryable [IntegrityError, OperationalError ''deadlock detected'']"
    by code_simp
  then show ?thesis
    using submission_claim_atomic [OF empty_table_ok example_parts [of "''k''"], of "[]" "Aware 0"
        "[IntegrityError, OperationalError ''deadlock detected'']"] by simp
qed

text \<open>
  recording a completion twice is answered differently by the two backends: for a live claim,
  the first \<open>complete\<close> is True on both; the identical second one is False on the process-local
  store and True on the shared one, although neither changes its row.
\<close>

theorem repeated_complete_diverges:
  assumes "dict_ok rows" and "sub_table_ok t" and "require_opaque_parts sc kh f"
    and "mem_sub_view rows (sc, kh) = Some (view_processing f n)"
    and "sql_sub_view t (sc, kh) = Some (view_processing f n)"
    and "length body \<le> MAX_RESPONSE_CHARS"
  shows "snd (mem_complete rows sc kh f body now) = Inr True \<and>
    snd (mem_complete (fst (mem_complete rows sc kh f body now)) sc kh f body later) = Inr False \<and>
    snd (sql_sub_complete None t sc kh f body now) = Inr True \<and>
    snd (sql_sub_complete None (fst (sql_sub_complete None t sc kh f body now)) sc kh f body later) = Inr True"
proof -
  note m = mem_complete_refines [OF assms(1,3), of body now]
  note q = sql_complete_refines [OF assms(2,3), of body now]
  have "sub_table_ok (fst (sql_sub_complete None t sc kh f body now))" using q by simp
  note q2 = sql_complete_refines [OF this assms(3), of body later]
  have "dict_ok (fst (mem_complete rows sc kh f body now))" using m by simp
  note m2 = mem_complete_refines [OF this assms(3), of body later]
  show ?thesis
    using m q m2 q2 assms(4-6)
    by (simp add: spec_complete_def spec_completes_def view_done_def view_processing_def)
qed

theorem repeated_complete_diverges_witness:
  "snd (mem_complete (fst (mem_complete (fst (mem_claim [] ''acct'' (submission_key_hash ''k'')
       zero_fingerprint (Aware 0))) ''acct'' (submission_key_hash ''k'') zero_fingerprint ''{}'' (Aware 0)))
     ''acct'' (submission_key_hash ''k'') zero_fingerprint ''{}'' (Aware 0)) = Inr False"
proof -
  let ?h = "submission_key_hash ''k''"
  have "mem_sub_view (fst (mem_claim [] ''acct'' ?h zero_fingerprint (Aware 0))) (''acct'', ?h) =
      Some (view_processing zero_fingerprint 0)"
    using mem_claim_refines [OF dict_ok_Nil example_parts, of "''k''" "Aware 0"]
    by (simp add: empty_views spec_claim_def spec_sweep_def epoch_ms_def)
  moreover have "sql_sub_view (fst (sql_sub_claim [] [] ''acct'' ?h zero_fingerprint (Aware 0))) (''acct'', ?h) =
      Some (view_processing zero_fingerprint 0)"
    using sql_claim_refines [OF empty_table_ok example_parts, of "''k''" "Aware 0"]
    by (simp add: empty_views spec_claim_def spec_sweep_def epoch_ms_def)
  moreover have "dict_ok (fst (mem_claim [] ''acct'' ?h zero_fingerprint (Aware 0)))"
    "sub_table_ok (fst (sql_sub_claim [] [] ''acct'' ?h zero_fingerprint (Aware 0)))"
    using mem_claim_refines [OF dict_ok_Nil example_parts, of "''k''" "Aware 0"]
      sql_claim_refines [OF empty_table_ok example_parts, of "''k''" "Aware 0"] by simp_all
  ultimately show ?thesis
    using repeated_complete_diverges [OF _ _ example_parts [of "''k''"], where n = 0 and body = "''{}''"]
    by (simp add: MAX_RESPONSE_CHARS_def)
qed

end
