(* ===== verification/RateLimit.thy ===== *)
theory RateLimit
  imports Prelude
begin

text \<open>
  app/launch/rate_limit_backend.py and app/launch/rate_limit.py: backend selection, the
  process-local sliding-window store, the configurable limiter over a store, and the path
  classification.  The locale \<open>rate_limit_store\<close> is the store protocol with the shape of answer
  the limiter relies on; the shared store is the second provider.
\<close>

section \<open>Backend selection\<close>

datatype rate_error = RateLimitUnavailable | RateLimitConfigurationError | RateIndexError

datatype backend_name = Memory | Postgres

record rate_settings =
  app_env :: string
  rate_limit_backend :: "backend_name option"

definition shared_environment :: "string \<Rightarrow> bool" where
  "shared_environment e = (e = ''staging'' \<or> e = ''production'')"

definition resolve_rate_limit_backend :: "rate_settings \<Rightarrow> rate_error + backend_name" where
  "resolve_rate_limit_backend cfg =
     (if shared_environment (app_env cfg)
      then (if rate_limit_backend cfg = Some Memory then Inl RateLimitConfigurationError
            else Inr Postgres)
      else if rate_limit_backend cfg = Some Postgres then Inr Postgres
      else Inr Memory)"

section \<open>InMemoryRateLimitStore\<close>

record rate_consumption =
  rc_allowed :: bool
  rc_limit :: int
  rc_remaining :: int
  rc_retry_after_seconds :: int
  rc_hits :: int

type_synonym rate_key = "string \<times> string"

text \<open>The deque of each key, oldest first; the default dictionary creates an empty one.\<close>

type_synonym rate_events = "(rate_key, datetime list) dict"

definition rate_expired :: "datetime \<Rightarrow> int \<Rightarrow> datetime \<Rightarrow> bool" where
  "rate_expired now window_seconds event = (micros now - micros event > window_seconds * 1000000)"

definition mem_consume ::
  "rate_events \<Rightarrow> string \<Rightarrow> string \<Rightarrow> int \<Rightarrow> int \<Rightarrow> datetime
     \<Rightarrow> rate_events \<times> (rate_error + rate_consumption)" where
  "mem_consume events scope identity limit window_seconds now =
     (let now = aware_utc now;
          found = (case dict_get events (scope, identity) of None \<Rightarrow> [] | Some b \<Rightarrow> b);
          bucket = dropWhile (rate_expired now window_seconds) found;
          events1 = (if bucket = [] then dict_set (scope, identity) [] (dict_del (scope, identity) events)
                     else dict_set (scope, identity) bucket events)
      in if int (length bucket) \<ge> limit then
           (case bucket of
              [] \<Rightarrow> (events1, Inl RateIndexError)
            | oldest # _ \<Rightarrow>
                (events1, Inr \<lparr>rc_allowed = False, rc_limit = limit, rc_remaining = 0,
                   rc_retry_after_seconds =
                     max 1 ((micros oldest + window_seconds * 1000000 - micros now) div 1000000 + 1),
                   rc_hits = int (length bucket)\<rparr>))
         else
           (let bucket2 = bucket @ [now]; hits = int (length bucket2)
            in (dict_set (scope, identity) bucket2 events1,
                Inr \<lparr>rc_allowed = True, rc_limit = limit, rc_remaining = max 0 (limit - hits),
                     rc_retry_after_seconds = 0, rc_hits = hits\<rparr>)))"

definition mem_rate_reset :: "rate_events \<Rightarrow> string option \<Rightarrow> string option \<Rightarrow> rate_events" where
  "mem_rate_reset events scope identity =
     (case (scope, identity) of
        (None, None) \<Rightarrow> []
      | (Some s, None) \<Rightarrow> filter (\<lambda>(k, _). fst k \<noteq> s) events
      | (None, Some i) \<Rightarrow> filter (\<lambda>(k, _). snd k \<noteq> i) events
      | (Some s, Some i) \<Rightarrow> dict_del (s, i) events)"

record 's rate_store =
  rs_consume :: "'s \<Rightarrow> string \<Rightarrow> string \<Rightarrow> int \<Rightarrow> int \<Rightarrow> datetime \<Rightarrow> 's \<times> (rate_error + rate_consumption)"
  rs_reset :: "'s \<Rightarrow> string option \<Rightarrow> string option \<Rightarrow> 's \<times> (rate_error + unit)"

definition memory_rate_store :: "rate_events rate_store" where
  "memory_rate_store =
     \<lparr>rs_consume = mem_consume, rs_reset = (\<lambda>s sc i. (mem_rate_reset s sc i, Inr ()))\<rparr>"

section \<open>ConfigurableRateLimiter\<close>

datatype rate_bucket =
  BDefault | BLogin | BRegistration | BAuthEmail | BAffiliate | BMerchant | BSearch
  | BRecommendations | BEarlyAccessEvents

text \<open>The literal is its string: the scope of the counter and the prefix of the key.\<close>

fun bucket_name :: "rate_bucket \<Rightarrow> string" where
  "bucket_name BDefault = ''default''"
| "bucket_name BLogin = ''login''"
| "bucket_name BRegistration = ''registration''"
| "bucket_name BAuthEmail = ''auth_email''"
| "bucket_name BAffiliate = ''affiliate''"
| "bucket_name BMerchant = ''merchant''"
| "bucket_name BSearch = ''search''"
| "bucket_name BRecommendations = ''recommendations''"
| "bucket_name BEarlyAccessEvents = ''early_access_events''"

record rate_rule =
  rule_bucket :: rate_bucket
  max_requests :: int
  rule_window_seconds :: int

record rate_decision =
  rd_allowed :: bool
  rd_bucket :: rate_bucket
  rd_limit :: int
  rd_remaining :: int
  rd_retry_after_seconds :: int
  rd_key :: string
  rd_unavailable :: bool

text \<open>
  \<open>check\<close>: \<open>Inl\<close> is an exception other than Unavailable, which the limiter answers itself.  The
  \<open>KeyError\<close> of a rule set without a default rule is the outer \<open>None\<close>.
\<close>

definition rate_check ::
  "'s rate_store \<Rightarrow> (rate_bucket, rate_rule) dict \<Rightarrow> bool \<Rightarrow> 's \<Rightarrow> rate_bucket \<Rightarrow> string \<Rightarrow> datetime
     \<Rightarrow> ('s \<times> (rate_error + rate_decision)) option" where
  "rate_check st rules enabled s bucket identity now =
     map_option (\<lambda>rule.
       let key = bucket_name bucket @ '':'' @ identity in
       if \<not> enabled then
         (s, Inr \<lparr>rd_allowed = True, rd_bucket = bucket, rd_limit = max_requests rule,
                  rd_remaining = max_requests rule, rd_retry_after_seconds = 0, rd_key = key,
                  rd_unavailable = False\<rparr>)
       else
         (case rs_consume st s (bucket_name bucket) identity (max_requests rule)
                 (rule_window_seconds rule) now of
            (s', Inl RateLimitUnavailable) \<Rightarrow>
              (s', Inr \<lparr>rd_allowed = False, rd_bucket = bucket, rd_limit = max_requests rule,
                        rd_remaining = 0, rd_retry_after_seconds = 0, rd_key = key,
                        rd_unavailable = True\<rparr>)
          | (s', Inl e) \<Rightarrow> (s', Inl e)
          | (s', Inr c) \<Rightarrow>
              (s', Inr \<lparr>rd_allowed = rc_allowed c, rd_bucket = bucket, rd_limit = rc_limit c,
                        rd_remaining = rc_remaining c,
                        rd_retry_after_seconds = rc_retry_after_seconds c, rd_key = key,
                        rd_unavailable = False\<rparr>)))
     (case dict_get rules bucket of Some r \<Rightarrow> Some r | None \<Rightarrow> dict_get rules BDefault)"

text \<open>\<open>reset\<close>: the stores' reset may raise, which ends the loop over the rules.\<close>

fun reset_scopes :: "'s rate_store \<Rightarrow> 's \<Rightarrow> rate_bucket list \<Rightarrow> 's \<times> (rate_error + unit)" where
  "reset_scopes st s [] = (s, Inr ())"
| "reset_scopes st s (b # bs) =
     (case rs_reset st s (Some (bucket_name b)) None of
        (s', Inl e) \<Rightarrow> (s', Inl e)
      | (s', Inr _) \<Rightarrow> reset_scopes st s' bs)"

definition rate_limiter_reset ::
  "'s rate_store \<Rightarrow> (rate_bucket, rate_rule) dict \<Rightarrow> 's \<Rightarrow> string option \<Rightarrow> 's \<times> (rate_error + unit)"
  where
  "rate_limiter_reset st rules s key =
     (case key of
        None \<Rightarrow> reset_scopes st s (map fst rules)
      | Some k \<Rightarrow>
          (case partition_at (CHR '':'') k of
             (scope, separator, identity) \<Rightarrow>
               if separator \<and> list_ex (\<lambda>(b, _). bucket_name b = scope) rules
               then rs_reset st s (Some scope) (Some identity)
               else rs_reset st s None (Some k)))"

section \<open>classify_path\<close>

definition normalize_path :: "string \<Rightarrow> string" where
  "normalize_path path =
     (let p = rstrip_char (CHR ''/'') (split_head (CHR ''#'') (split_head (CHR ''?'') path))
      in if p = [] then ''/'' else p)"

definition classify_path :: "string \<Rightarrow> string \<Rightarrow> rate_bucket" where
  "classify_path http_method path =
     (let n = normalize_path path; post = (upper http_method = ''POST'') in
      if ends_with n ''/auth/login'' \<and> post then BLogin
      else if ends_with n ''/auth/register'' \<and> post then BRegistration
      else if (ends_with n ''/auth/password-reset'' \<or> ends_with n ''/auth/password-reset/confirm''
               \<or> ends_with n ''/auth/verify-email'' \<or> ends_with n ''/auth/verify-email/confirm''
               \<or> ends_with n ''/auth/email-change'' \<or> ends_with n ''/auth/email-change/confirm'') \<and> post
      then BAuthEmail
      else if ends_with n ''/early-access/events'' \<and> post then BEarlyAccessEvents
      else if ends_with n ''/early-access'' \<and> post then BRegistration
      else if contains n ''/affiliate'' then BAffiliate
      else if contains n ''/merchants'' \<or> starts_with n ''/api/v1/admin'' then BMerchant
      else if contains n ''/recommendations'' then BRecommendations
      else if contains n ''/marketplace/search'' \<or> contains n ''/dealscore/search''
              \<or> contains n ''/price-history/search'' \<or> ends_with n ''/search'' then BSearch
      else BDefault)"

section \<open>The store interface\<close>

text \<open>A history of requests to one store.\<close>

record rate_hit =
  hit_scope :: string
  hit_identity :: string
  hit_limit :: int
  hit_window :: int
  hit_now :: datetime

fun rate_run ::
  "'s rate_store \<Rightarrow> 's \<Rightarrow> rate_hit list \<Rightarrow> 's \<times> (rate_error + rate_consumption) list" where
  "rate_run st s [] = (s, [])"
| "rate_run st s (h # hs) =
     (let (s1, r) = rs_consume st s (hit_scope h) (hit_identity h) (hit_limit h) (hit_window h) (hit_now h);
          (s2, rs) = rate_run st s1 hs
      in (s2, r # rs))"

definition is_admitted :: "rate_error + rate_consumption \<Rightarrow> bool" where
  "is_admitted r = (case r of Inl _ \<Rightarrow> False | Inr c \<Rightarrow> rc_allowed c)"

definition hits_key :: "rate_key \<Rightarrow> rate_hit \<Rightarrow> bool" where
  "hits_key k h = ((hit_scope h, hit_identity h) = k)"

text \<open>The instants, in microseconds, at which requests of the key were admitted.\<close>

definition admitted ::
  "rate_key \<Rightarrow> rate_hit list \<Rightarrow> (rate_error + rate_consumption) list \<Rightarrow> int list" where
  "admitted k hs rs =
     map (\<lambda>(h, r). micros (hit_now h)) (filter (\<lambda>(h, r). hits_key k h \<and> is_admitted r) (zip hs rs))"

text \<open>\<open>spaced n w ts\<close>: any \<open>n + 1\<close> consecutive instants of \<open>ts\<close> span more than \<open>w\<close>.\<close>

definition spaced :: "nat \<Rightarrow> int \<Rightarrow> int list \<Rightarrow> bool" where
  "spaced n w ts = (\<forall>i<length ts. i + n < length ts \<longrightarrow> w < ts ! (i + n) - ts ! i)"

text \<open>\<open>uniform k l w t hs\<close>: the requests of \<open>k\<close> share limit and window, with clocks from \<open>t\<close> on that never run back.\<close>

fun uniform :: "rate_key \<Rightarrow> int \<Rightarrow> int \<Rightarrow> int \<Rightarrow> rate_hit list \<Rightarrow> bool" where
  "uniform k l w t [] = True"
| "uniform k l w t (h # hs) =
     (if hits_key k h
      then hit_limit h = l \<and> hit_window h = w \<and> t \<le> micros (hit_now h) \<and>
           uniform k l w (micros (hit_now h)) hs
      else uniform k l w t hs)"

locale rate_limit_store =
  fixes st :: "'s rate_store" and ok :: "'s \<Rightarrow> bool"
  assumes consume_ok: "ok s \<Longrightarrow> ok (fst (rs_consume st s sc i l w now))"
    and consume_shape: "ok s \<Longrightarrow> 1 \<le> l \<Longrightarrow> 1 \<le> w \<Longrightarrow> rs_consume st s sc i l w now = (s', Inr c) \<Longrightarrow>
      rc_limit c = l \<and>
      (if rc_allowed c then 1 \<le> rc_hits c \<and> rc_hits c \<le> l \<and> rc_remaining c = l - rc_hits c \<and>
         rc_retry_after_seconds c = 0
       else l \<le> rc_hits c \<and> rc_remaining c = 0 \<and> 1 \<le> rc_retry_after_seconds c)"
    and consume_error: "ok s \<Longrightarrow> 1 \<le> l \<Longrightarrow> rs_consume st s sc i l w now = (s', Inl e) \<Longrightarrow> e = RateLimitUnavailable"
    and retry_law: "ok s \<Longrightarrow> 1 \<le> l \<Longrightarrow> 1 \<le> w \<Longrightarrow> rs_consume st s sc i l w now = (s', Inr c) \<Longrightarrow>
      \<not> rc_allowed c \<Longrightarrow> rc_hits c = l \<Longrightarrow>
      micros now + rc_retry_after_seconds c * 1000000 \<le> micros later \<Longrightarrow>
      is_admitted (snd (rs_consume st s' sc i l w later))"
begin

lemma check_decides:
  assumes "ok s" and "dict_get rules BDefault \<noteq> None"
    and "\<forall>b r. dict_get rules b = Some r \<longrightarrow> 1 \<le> max_requests r \<and> 1 \<le> rule_window_seconds r"
  shows "\<exists>s' d. rate_check st rules enabled s b i now = Some (s', Inr d) \<and> ok s' \<and>
    (rd_unavailable d \<longrightarrow> \<not> rd_allowed d) \<and>
    (\<not> enabled \<longrightarrow> rd_allowed d \<and> s' = s) \<and>
    (enabled \<longrightarrow> (if rd_allowed d then 0 \<le> rd_remaining d \<and> rd_remaining d < rd_limit d \<and>
                    rd_retry_after_seconds d = 0
                  else rd_remaining d = 0 \<and> (rd_unavailable d \<or> 1 \<le> rd_retry_after_seconds d)))"
proof -
  obtain rule where rule: "(case dict_get rules b of Some r \<Rightarrow> Some r | None \<Rightarrow> dict_get rules BDefault) = Some rule"
    and pos: "1 \<le> max_requests rule" "1 \<le> rule_window_seconds rule"
    using assms(2,3) by (cases "dict_get rules b") auto
  show ?thesis
  proof (cases enabled)
    case False
    then show ?thesis using assms(1) by (simp add: rate_check_def rule)
  next
    case True
    obtain s' r where c: "rs_consume st s (bucket_name b) i (max_requests rule) (rule_window_seconds rule) now = (s', r)"
      by force
    have "ok s'" using consume_ok [OF assms(1), of "bucket_name b" i "max_requests rule" "rule_window_seconds rule" now] c
      by simp
    then show ?thesis
      using True consume_error [OF assms(1) pos(1), of "bucket_name b" i "rule_window_seconds rule" now s']
        consume_shape [OF assms(1) pos, of "bucket_name b" i now s'] c
      by (cases r) (auto simp: rate_check_def rule)
  qed
qed

end

section \<open>The process-local store is a provider\<close>

definition bucket_of :: "rate_events \<Rightarrow> rate_key \<Rightarrow> int list" where
  "bucket_of s k = map micros (case dict_get s k of None \<Rightarrow> [] | Some b \<Rightarrow> b)"

definition live_part :: "int \<Rightarrow> int \<Rightarrow> int list \<Rightarrow> int list" where
  "live_part t w b = dropWhile (\<lambda>x. w * 1000000 < t - x) b"

lemma map_dropWhile: "map f (dropWhile (\<lambda>x. P (f x)) xs) = dropWhile P (map f xs)"
  by (induction xs) auto

text \<open>What \<open>consume\<close> does to the bucket of a key, and what it answers.\<close>

lemma mem_consume_bucket:
  assumes "mem_consume s sc i l w now = (s', r)"
  shows "bucket_of s' k = (if k \<noteq> (sc, i) then bucket_of s k
      else if int (length (live_part (micros now) w (bucket_of s k))) \<ge> l
        then live_part (micros now) w (bucket_of s k)
      else live_part (micros now) w (bucket_of s k) @ [micros now])"
    and "is_admitted r \<longleftrightarrow> int (length (live_part (micros now) w (bucket_of s (sc, i)))) < l"
    and "dict_ok s \<Longrightarrow> dict_ok s'"
proof -
  define found where "found = (case dict_get s (sc, i) of None \<Rightarrow> [] | Some b \<Rightarrow> b)"
  define bucket where "bucket = dropWhile (rate_expired (aware_utc now) w) found"
  have live: "live_part (micros now) w (bucket_of s (sc, i)) = map micros bucket"
    unfolding live_part_def bucket_of_def bucket_def found_def [symmetric]
    by (subst map_dropWhile [symmetric]) (simp add: rate_expired_def [abs_def])
  show "is_admitted r \<longleftrightarrow> int (length (live_part (micros now) w (bucket_of s (sc, i)))) < l"
    using assms
    by (auto simp: live mem_consume_def Let_def found_def [symmetric] bucket_def [symmetric] is_admitted_def
        split: if_splits list.splits)
  show "bucket_of s' k = (if k \<noteq> (sc, i) then bucket_of s k
      else if int (length (live_part (micros now) w (bucket_of s k))) \<ge> l
        then live_part (micros now) w (bucket_of s k)
      else live_part (micros now) w (bucket_of s k) @ [micros now])"
  proof (cases "k = (sc, i)")
    case True
    then show ?thesis
      using assms live
      by (auto simp: mem_consume_def Let_def found_def [symmetric] bucket_def [symmetric]
          bucket_of_def [of s'] dict_simps split: if_splits list.splits)
  next
    case False
    then show ?thesis
      using assms by (auto simp: mem_consume_def Let_def found_def [symmetric] bucket_def [symmetric]
          bucket_of_def dict_simps split: if_splits list.splits)
  qed
  show "dict_ok s \<Longrightarrow> dict_ok s'"
    using assms by (auto simp: mem_consume_def Let_def split: if_splits list.splits)
qed

lemma mem_consume_result:
  assumes "1 \<le> l" and "1 \<le> w" and "mem_consume s sc i l w now = (s', r)"
  shows "\<exists>c. r = Inr c \<and> rc_limit c = l \<and>
    (if rc_allowed c then 1 \<le> rc_hits c \<and> rc_hits c \<le> l \<and> rc_remaining c = l - rc_hits c \<and>
       rc_retry_after_seconds c = 0
     else l \<le> rc_hits c \<and> rc_remaining c = 0 \<and> 1 \<le> rc_retry_after_seconds c)"
  using assms by (auto simp: mem_consume_def Let_def split: if_splits list.splits)

lemma mem_consume_denied:
  assumes "1 \<le> l" and "mem_consume s sc i l w now = (s', Inr c)" and "\<not> rc_allowed c"
  shows "\<exists>x xs. bucket_of s' (sc, i) = x # xs \<and> rc_hits c = 1 + int (length xs) \<and>
    rc_retry_after_seconds c = max 1 ((x + w * 1000000 - micros now) div 1000000 + 1)"
  using assms
  by (auto simp: mem_consume_def Let_def bucket_of_def dict_simps split: if_splits list.splits)

text \<open>Once the hint has passed, the oldest request is outside the window.\<close>

lemma retry_hint_expires:
  fixes x n w later :: int
  assumes "n + max 1 ((x + w * 1000000 - n) div 1000000 + 1) * 1000000 \<le> later"
  shows "w * 1000000 < later - x"
proof -
  define q where "q = (x + w * 1000000 - n) div 1000000"
  have "x + w * 1000000 - n < (q + 1) * 1000000"
    unfolding q_def by (rule div_next_bound) simp
  moreover have "(q + 1) * 1000000 \<le> later - n"
    using assms by (simp add: q_def [symmetric] max_def split: if_splits)
  ultimately show ?thesis by linarith
qed

lemma mem_retry:
  assumes "1 \<le> l" and "mem_consume s sc i l w now = (s', Inr c)" and "\<not> rc_allowed c"
    and "rc_hits c = l" and "micros now + rc_retry_after_seconds c * 1000000 \<le> micros later"
  shows "is_admitted (snd (mem_consume s' sc i l w later))"
proof -
  obtain x xs where b: "bucket_of s' (sc, i) = x # xs" "l = 1 + int (length xs)"
    "rc_retry_after_seconds c = max 1 ((x + w * 1000000 - micros now) div 1000000 + 1)"
    using mem_consume_denied [OF assms(1-3)] assms(4) by auto
  then have "w * 1000000 < micros later - x"
    using assms(5) retry_hint_expires by auto
  then have "length (live_part (micros later) w (bucket_of s' (sc, i))) \<le> length xs"
    by (simp add: b live_part_def length_dropWhile_le)
  then show ?thesis
    using mem_consume_bucket(2) [of s' sc i l w later] b(2)
    by (cases "mem_consume s' sc i l w later") simp
qed

interpretation mem_rate: rate_limit_store memory_rate_store dict_ok
proof unfold_locales
  fix s :: rate_events and sc i l w and now :: datetime
  assume "dict_ok s"
  then show "dict_ok (fst (rs_consume memory_rate_store s sc i l w now))"
    using mem_consume_bucket(3) [of s sc i l w now]
    by (cases "mem_consume s sc i l w now") (simp add: memory_rate_store_def)
next
  fix s s' :: rate_events and sc i l w c and now :: datetime
  assume "1 \<le> l" and "1 \<le> w" and "rs_consume memory_rate_store s sc i l w now = (s', Inr c)"
  then show "rc_limit c = l \<and>
      (if rc_allowed c then 1 \<le> rc_hits c \<and> rc_hits c \<le> l \<and> rc_remaining c = l - rc_hits c \<and>
         rc_retry_after_seconds c = 0
       else l \<le> rc_hits c \<and> rc_remaining c = 0 \<and> 1 \<le> rc_retry_after_seconds c)"
    using mem_consume_result [of l w s sc i now s' "Inr c"] by (simp add: memory_rate_store_def)
next
  fix s s' :: rate_events and sc i l w e and now :: datetime
  assume "1 \<le> l" and "rs_consume memory_rate_store s sc i l w now = (s', Inl e)"
  then show "e = RateLimitUnavailable"
    by (auto simp: memory_rate_store_def mem_consume_def Let_def split: if_splits list.splits)
next
  fix s s' :: rate_events and sc i l w c and now later :: datetime
  assume "1 \<le> l" and "rs_consume memory_rate_store s sc i l w now = (s', Inr c)"
    and "\<not> rc_allowed c" and "rc_hits c = l"
    and "micros now + rc_retry_after_seconds c * 1000000 \<le> micros later"
  then show "is_admitted (snd (rs_consume memory_rate_store s' sc i l w later))"
    using mem_retry [of l s sc i w now s' c later] by (simp add: memory_rate_store_def)
qed

text \<open>
  \<open>window_inv n w t ts b\<close>: after admitting at \<open>ts\<close>, last at time \<open>t\<close>, the bucket \<open>b\<close> holds the
  admitted instants but those that have left the window.
\<close>

definition window_inv :: "nat \<Rightarrow> int \<Rightarrow> int \<Rightarrow> int list \<Rightarrow> int list \<Rightarrow> bool" where
  "window_inv n w t ts b =
     (spaced n w ts \<and> list_all (\<lambda>x. x \<le> t) ts \<and>
      (\<exists>j\<le>length ts. b = drop j ts \<and> list_all (\<lambda>x. w < t - x) (take j ts)))"

lemma spaced_snoc:
  assumes "spaced n w ts" and "n \<le> length ts \<Longrightarrow> 0 < n \<Longrightarrow> w < t - ts ! (length ts - n)"
    and "0 < n"
  shows "spaced n w (ts @ [t])"
  unfolding spaced_def
proof (intro allI impI)
  fix i
  assume i: "i < length (ts @ [t])" "i + n < length (ts @ [t])"
  show "w < (ts @ [t]) ! (i + n) - (ts @ [t]) ! i"
  proof (cases "i + n < length ts")
    case True
    then show ?thesis using assms(1) i by (auto simp: spaced_def nth_append)
  next
    case False
    with i have "i = length ts - n" "n \<le> length ts" by auto
    moreover from this assms(3) have "length ts - n < length ts" by linarith
    ultimately show ?thesis using assms(2,3) by (simp add: nth_append)
  qed
qed

lemma window_inv_later:
  assumes "window_inv n w t ts b" and "t \<le> t'"
  shows "window_inv n w t' ts (dropWhile (\<lambda>x. w < t' - x) b)"
proof -
  obtain j where j: "j \<le> length ts" "b = drop j ts" "list_all (\<lambda>x. w < t - x) (take j ts)"
    using assms(1) by (auto simp: window_inv_def)
  define m where "m = length (takeWhile (\<lambda>x. w < t' - x) b)"
  have "m \<le> length b" by (simp add: m_def length_takeWhile_le)
  have b: "b = take m b @ dropWhile (\<lambda>x. w < t' - x) b"
    by (simp add: m_def takeWhile_eq_take [symmetric])
  have "dropWhile (\<lambda>x. w < t' - x) b = drop (j + m) ts"
    by (simp add: m_def dropWhile_eq_drop j(2) add.commute)
  moreover have "take (j + m) ts = take j ts @ take m b" by (simp add: j(2) take_add)
  moreover have "list_all (\<lambda>x. w < t' - x) (take m b)"
    using set_takeWhileD [of _ "\<lambda>x. w < t' - x" b]
    by (auto simp: m_def takeWhile_eq_take [symmetric] list_all_iff)
  moreover have "list_all (\<lambda>x. w < t' - x) (take j ts)"
    using j(3) assms(2) by (auto simp: list_all_iff)
  moreover have "j + m \<le> length ts" using j(1,2) \<open>m \<le> length b\<close> by simp
  ultimately show ?thesis
    using assms by (auto simp: window_inv_def list_all_iff intro!: exI [of _ "j + m"])
qed

lemma window_inv_admit:
  assumes "window_inv n w t ts b" and "length b < n" and "0 \<le> w"
  shows "window_inv n w t (ts @ [t]) (b @ [t])"
proof -
  obtain j where j: "j \<le> length ts" "b = drop j ts" "list_all (\<lambda>x. w < t - x) (take j ts)"
    using assms(1) by (auto simp: window_inv_def)
  have "spaced n w (ts @ [t])"
  proof (rule spaced_snoc)
    show "spaced n w ts" using assms(1) by (simp add: window_inv_def)
    show "0 < n" using assms(2) by simp
    assume "n \<le> length ts"
    then have "length ts - n < j" using assms(2) j(1,2) by simp
    then have "ts ! (length ts - n) \<in> set (take j ts)"
      using j(1) by (auto simp: in_set_conv_nth intro!: exI [of _ "length ts - n"])
    then show "w < t - ts ! (length ts - n)" using j(3) by (auto simp: list_all_iff)
  qed
  then show ?thesis
    using assms(1) j by (auto simp: window_inv_def intro!: exI [of _ j])
qed

lemma mem_run_window:
  assumes "window_inv (nat l) (w * 1000000) t ts (bucket_of s k)" and "1 \<le> l" and "0 \<le> w"
    and "uniform k l w t hs"
  shows "spaced (nat l) (w * 1000000) (ts @ admitted k hs (snd (rate_run memory_rate_store s hs)))"
  using assms
proof (induction hs arbitrary: s ts t)
  case Nil
  then show ?case by (simp add: admitted_def window_inv_def)
next
  case (Cons h hs)
  obtain s1 r where c: "mem_consume s (hit_scope h) (hit_identity h) (hit_limit h) (hit_window h) (hit_now h) = (s1, r)"
    by force
  note bucket = mem_consume_bucket [OF c]
  have run: "snd (rate_run memory_rate_store s (h # hs)) = r # snd (rate_run memory_rate_store s1 hs)"
    using c by (simp add: memory_rate_store_def case_prod_beta Let_def)
  show ?case
  proof (cases "hits_key k h")
    case False
    then have "bucket_of s1 k = bucket_of s k" using bucket(1) [of k] by (auto simp: hits_key_def)
    then show ?thesis
      using Cons False unfolding run by (simp add: admitted_def)
  next
    case True
    let ?n = "micros (hit_now h)"
    from True Cons.prems(4) have h: "hit_limit h = l" "hit_window h = w" "t \<le> ?n"
      "uniform k l w ?n hs" and k: "(hit_scope h, hit_identity h) = k"
      by (auto simp: hits_key_def)
    have live: "window_inv (nat l) (w * 1000000) ?n ts (live_part ?n w (bucket_of s k))"
      using window_inv_later [OF Cons.prems(1) h(3)] by (simp add: live_part_def)
    show ?thesis
    proof (cases "is_admitted r")
      case True
      then have len: "length (live_part ?n w (bucket_of s k)) < nat l"
        using bucket(2) h k Cons.prems(2) by auto
      then have b1: "bucket_of s1 k = live_part ?n w (bucket_of s k) @ [?n]"
        using bucket(1) [of k] h k by auto
      have "window_inv (nat l) (w * 1000000) ?n (ts @ [?n]) (bucket_of s1 k)"
        using window_inv_admit [OF live len] Cons.prems(3) by (simp add: b1)
      from Cons.IH [OF this Cons.prems(2,3) h(4)] show ?thesis
        using True \<open>hits_key k h\<close> unfolding run by (simp add: admitted_def)
    next
      case False
      then have b1: "bucket_of s1 k = live_part ?n w (bucket_of s k)"
        using bucket h k by auto
      from live have "window_inv (nat l) (w * 1000000) ?n ts (bucket_of s1 k)" by (simp add: b1)
      from Cons.IH [OF this Cons.prems(2,3) h(4)] show ?thesis
        using False unfolding run by (simp add: admitted_def)
    qed
  qed
qed

end
