(* ===== verification/RateLimitSql.thy ===== *)
theory RateLimitSql
  imports RateLimit SqlTable Digest
begin

text \<open>
  app/infrastructure/database/rate_limit_store.py: the shared fixed-window counter, one row per
  scope and stored identity, one transaction per attempt.  It is the second provider of
  \<open>rate_limit_store\<close>.  \<open>faults\<close> are the exceptions the database raises (see SqlTable).
\<close>

section \<open>SqlRateLimitStore\<close>

record rate_row =
  rr_window_started_ms :: int
  rr_hits :: int
  rr_expires_ms :: int

type_synonym rate_table = "(rate_key, rate_row) dict"

definition RATE_MAX_ATTEMPTS :: nat where
  "RATE_MAX_ATTEMPTS = 8"

definition storage_identity :: "string \<Rightarrow> string" where
  "storage_identity i =
     (if length i \<le> 128 \<and> \<not> contains_char (CHR 0x00) i then i
      else ''h:'' @ sha256_hex (utf8 i))"

definition purge_counters :: "int \<Rightarrow> rate_table \<Rightarrow> rate_table" where
  "purge_counters now_ms t = fst (sql_delete (\<lambda>k r. rr_expires_ms r < now_ms) t)"

definition bump_where :: "int \<Rightarrow> int \<Rightarrow> rate_row \<Rightarrow> bool" where
  "bump_where limit now_ms r = (rr_hits r < limit \<and> rr_expires_ms r \<ge> now_ms)"

definition bump :: "rate_row \<Rightarrow> rate_row" where
  "bump r = r\<lparr>rr_hits := rr_hits r + 1\<rparr>"

definition first_counter :: "int \<Rightarrow> int \<Rightarrow> rate_row" where
  "first_counter window_seconds now_ms =
     \<lparr>rr_window_started_ms = now_ms, rr_hits = 1, rr_expires_ms = now_ms + window_seconds * 1000\<rparr>"

text \<open>\<open>_consume_once\<close>: \<open>None\<close> where it raises \<open>_Retry\<close>.\<close>

definition consume_once ::
  "string \<Rightarrow> string \<Rightarrow> int \<Rightarrow> int \<Rightarrow> int \<Rightarrow> rate_table \<Rightarrow> (rate_table \<times> rate_consumption) option" where
  "consume_once scope identity limit window_seconds now_ms t =
     (let t1 = purge_counters now_ms t;
          (t2, updated) = sql_update (\<lambda>k r. k = (scope, identity) \<and> bump_where limit now_ms r) bump t1
      in case first_row updated of
           Some r \<Rightarrow> Some (t2, \<lparr>rc_allowed = True, rc_limit = limit,
                       rc_remaining = max 0 (limit - rr_hits r), rc_retry_after_seconds = 0,
                       rc_hits = rr_hits r\<rparr>)
         | None \<Rightarrow>
           (case sql_insert (scope, identity) (first_counter window_seconds now_ms) t2 of
              Some t3 \<Rightarrow> Some (t3, \<lparr>rc_allowed = True, rc_limit = limit,
                          rc_remaining = max 0 (limit - 1), rc_retry_after_seconds = 0, rc_hits = 1\<rparr>)
            | None \<Rightarrow>
              (case dict_get t2 (scope, identity) of
                 None \<Rightarrow> None
               | Some r \<Rightarrow>
                   if rr_expires_ms r < now_ms then None
                   else if rr_hits r < limit then None
                   else Some (t2, \<lparr>rc_allowed = False, rc_limit = limit, rc_remaining = 0,
                          rc_retry_after_seconds = max 1 ((rr_expires_ms r - now_ms) div 1000 + 1),
                          rc_hits = rr_hits r\<rparr>))))"

definition sql_consume ::
  "db_exc option list \<Rightarrow> rate_table \<Rightarrow> string \<Rightarrow> string \<Rightarrow> int \<Rightarrow> int \<Rightarrow> datetime
     \<Rightarrow> rate_table \<times> (rate_error + rate_consumption)" where
  "sql_consume faults t scope identity limit window_seconds now =
     (if limit < 1 \<or> window_seconds < 1 \<or> scope = [] \<or> length scope > 64
      then (t, Inl RateLimitUnavailable)
      else
        (case with_retries RATE_MAX_ATTEMPTS faults
                (consume_once scope (storage_identity identity) limit window_seconds (epoch_ms now)) t of
           (t', Some c) \<Rightarrow> (t', Inr c)
         | (t', None) \<Rightarrow> (t', Inl RateLimitUnavailable)))"

definition sql_rate_reset ::
  "db_exc option \<Rightarrow> rate_table \<Rightarrow> string option \<Rightarrow> string option \<Rightarrow> rate_table \<times> (rate_error + unit)"
  where
  "sql_rate_reset fault t scope identity =
     (if fault \<noteq> None then (t, Inl RateLimitUnavailable)
      else
        (fst (sql_delete (\<lambda>k r.
            (case scope of None \<Rightarrow> True | Some s \<Rightarrow> fst k = s) \<and>
            (case identity of None \<Rightarrow> True | Some i \<Rightarrow> snd k = storage_identity i)) t),
         Inr ()))"

definition sql_rate_store :: "rate_table rate_store" where
  "sql_rate_store = \<lparr>rs_consume = sql_consume [], rs_reset = sql_rate_reset None\<rparr>"

section \<open>One attempt\<close>

definition rate_table_ok :: "rate_table \<Rightarrow> bool" where
  "rate_table_ok t = (dict_ok t \<and> (\<forall>k r. dict_get t k = Some r \<longrightarrow> 1 \<le> rr_hits r))"

definition live_row :: "int \<Rightarrow> rate_row option \<Rightarrow> rate_row option" where
  "live_row n ro = (case ro of None \<Rightarrow> None | Some r \<Rightarrow> if rr_expires_ms r < n then None else Some r)"

lemma purge_counters_get:
  "dict_ok t \<Longrightarrow> dict_get (purge_counters n t) k = live_row n (dict_get t k)"
  by (simp add: purge_counters_def sql_delete_get live_row_def)

text \<open>One attempt always decides, by the live row of the key.\<close>

lemma consume_once_result:
  assumes "dict_ok t"
  shows "\<exists>t' c. consume_once sc i l w n t = Some (t', c) \<and> dict_ok t' \<and>
    (case live_row n (dict_get t (sc, i)) of
       None \<Rightarrow> rc_allowed c \<and> rc_hits c = 1 \<and>
         dict_get t' = (\<lambda>k. live_row n (dict_get t k))((sc, i) \<mapsto> first_counter w n)
     | Some r \<Rightarrow>
         if rr_hits r < l then rc_allowed c \<and> rc_hits c = rr_hits r + 1 \<and>
           dict_get t' = (\<lambda>k. live_row n (dict_get t k))((sc, i) \<mapsto> bump r)
         else \<not> rc_allowed c \<and> rc_hits c = rr_hits r \<and>
           dict_get t' = (\<lambda>k. live_row n (dict_get t k)) \<and>
           rc_retry_after_seconds c = max 1 ((rr_expires_ms r - n) div 1000 + 1)) \<and>
    rc_limit c = l \<and> rc_remaining c = (if rc_allowed c then max 0 (l - rc_hits c) else 0) \<and>
    (rc_allowed c \<longrightarrow> rc_retry_after_seconds c = 0)"
proof -
  define t1 where "t1 = purge_counters n t"
  have ok1: "dict_ok t1" and g1: "dict_get t1 = (\<lambda>k. live_row n (dict_get t k))"
    using assms by (simp_all add: t1_def purge_counters_get fun_eq_iff)
      (simp add: purge_counters_def)
  obtain t2 rows where upd: "sql_update (\<lambda>k r. k = (sc, i) \<and> bump_where l n r) bump t1 = (t2, rows)"
    by force
  note key = sql_update_key [OF ok1 upd]
  show ?thesis
  proof (cases "live_row n (dict_get t (sc, i))")
    case None
    then have rows: "rows = []" and g2: "dict_get t2 = dict_get t1" and ok2: "dict_ok t2"
      using key g1 by simp_all
    then obtain t3 where t3: "sql_insert (sc, i) (first_counter w n) t2 = Some t3"
      using None g1 by (simp add: sql_insert_def)
    have "dict_get t3 = (\<lambda>k. live_row n (dict_get t k))((sc, i) \<mapsto> first_counter w n)"
      by (auto simp: fun_eq_iff sql_insert_get [OF t3] g2 g1)
    then show ?thesis
      using None rows upd t3 sql_insert_ok [OF t3 ok2]
      by (simp add: consume_once_def Let_def t1_def [symmetric] first_row_def)
  next
    case (Some r)
    then have r1: "dict_get t1 (sc, i) = Some r" and live: "\<not> rr_expires_ms r < n"
      by (auto simp: g1 live_row_def split: option.splits if_splits)
    show ?thesis
    proof (cases "rr_hits r < l")
      case True
      then have "rows = [bump r]" "dict_get t2 = (dict_get t1)((sc, i) \<mapsto> bump r)" "dict_ok t2"
        using key r1 live by (auto simp: bump_where_def)
      then show ?thesis
        using Some True upd
        by (simp add: consume_once_def Let_def t1_def [symmetric] first_row_def g1 bump_def)
    next
      case False
      then have "rows = []" "dict_get t2 = dict_get t1" "dict_ok t2"
        using key r1 by (auto simp: bump_where_def)
      then show ?thesis
        using Some False upd r1 live
        by (simp add: consume_once_def Let_def t1_def [symmetric] first_row_def g1 sql_insert_def)
    qed
  qed
qed

lemma sql_consume_once:
  assumes "1 \<le> l" and "1 \<le> w" and "sc \<noteq> []" and "length sc \<le> 64"
    and "consume_once sc (storage_identity i) l w (epoch_ms now) t = Some (t', c)"
  shows "sql_consume [] t sc i l w now = (t', Inr c)"
proof -
  have "with_retries RATE_MAX_ATTEMPTS []
      (consume_once sc (storage_identity i) l w (epoch_ms now)) t = (t', Some c)"
    by (rule with_retries_clean) (simp_all add: RATE_MAX_ATTEMPTS_def assms(5))
  with assms(1-4) show ?thesis by (simp add: sql_consume_def)
qed

lemma live_row_Some: "live_row n ro = Some r \<longleftrightarrow> ro = Some r \<and> \<not> rr_expires_ms r < n"
  by (auto simp: live_row_def split: option.splits)

text \<open>What the store does to the counter of a stored key, and what it answers.\<close>

lemma sql_consume_result:
  assumes "rate_table_ok t" and "1 \<le> l" and "1 \<le> w" and "sc \<noteq> []" and "length sc \<le> 64"
    and "sql_consume [] t sc i l w now = (t', r)"
  shows "\<exists>c. r = Inr c \<and> rate_table_ok t' \<and>
    (case live_row (epoch_ms now) (dict_get t (sc, storage_identity i)) of
       None \<Rightarrow> rc_allowed c \<and> rc_hits c = 1 \<and>
         dict_get t' = (\<lambda>k. live_row (epoch_ms now) (dict_get t k))
           ((sc, storage_identity i) \<mapsto> first_counter w (epoch_ms now))
     | Some row \<Rightarrow>
         if rr_hits row < l then rc_allowed c \<and> rc_hits c = rr_hits row + 1 \<and>
           dict_get t' = (\<lambda>k. live_row (epoch_ms now) (dict_get t k))
             ((sc, storage_identity i) \<mapsto> bump row)
         else \<not> rc_allowed c \<and> rc_hits c = rr_hits row \<and>
           dict_get t' = (\<lambda>k. live_row (epoch_ms now) (dict_get t k)) \<and>
           rc_retry_after_seconds c = max 1 ((rr_expires_ms row - epoch_ms now) div 1000 + 1)) \<and>
    rc_limit c = l \<and> rc_remaining c = (if rc_allowed c then max 0 (l - rc_hits c) else 0) \<and>
    (rc_allowed c \<longrightarrow> rc_retry_after_seconds c = 0)"
proof -
  have "dict_ok t" using assms(1) by (simp add: rate_table_ok_def)
  from consume_once_result [OF this, of sc "storage_identity i" l w "epoch_ms now"]
  obtain t2 c where c: "consume_once sc (storage_identity i) l w (epoch_ms now) t = Some (t2, c)"
    and ok: "dict_ok t2"
    and res: "(case live_row (epoch_ms now) (dict_get t (sc, storage_identity i)) of
       None \<Rightarrow> rc_allowed c \<and> rc_hits c = 1 \<and>
         dict_get t2 = (\<lambda>k. live_row (epoch_ms now) (dict_get t k))
           ((sc, storage_identity i) \<mapsto> first_counter w (epoch_ms now))
     | Some row \<Rightarrow>
         if rr_hits row < l then rc_allowed c \<and> rc_hits c = rr_hits row + 1 \<and>
           dict_get t2 = (\<lambda>k. live_row (epoch_ms now) (dict_get t k))
             ((sc, storage_identity i) \<mapsto> bump row)
         else \<not> rc_allowed c \<and> rc_hits c = rr_hits row \<and>
           dict_get t2 = (\<lambda>k. live_row (epoch_ms now) (dict_get t k)) \<and>
           rc_retry_after_seconds c = max 1 ((rr_expires_ms row - epoch_ms now) div 1000 + 1))"
    and rest: "rc_limit c = l \<and> rc_remaining c = (if rc_allowed c then max 0 (l - rc_hits c) else 0) \<and>
      (rc_allowed c \<longrightarrow> rc_retry_after_seconds c = 0)" by blast
  have eq: "t' = t2" "r = Inr c"
    using sql_consume_once [OF assms(2-5) c] assms(6) by simp_all
  have pos: "1 \<le> rr_hits row" if "live_row n (dict_get t k) = Some row" for n k row
    using that assms(1) unfolding live_row_Some rate_table_ok_def by blast
  have "1 \<le> rr_hits row" if "dict_get t2 k = Some row" for k row
    using that res pos
    by (auto simp: first_counter_def bump_def split: option.splits if_splits) (smt (verit) pos)+
  then have "rate_table_ok t2" using ok by (simp add: rate_table_ok_def)
  with res rest show ?thesis unfolding eq by blast
qed

lemma sql_consume_refused:
  "\<not> (1 \<le> l \<and> 1 \<le> w \<and> sc \<noteq> [] \<and> length sc \<le> 64) \<Longrightarrow>
     sql_consume fs t sc i l w now = (t, Inl RateLimitUnavailable)"
  by (auto simp: sql_consume_def)

lemma sql_retry:
  assumes "rate_table_ok t" and "1 \<le> l" and "1 \<le> w" and "sql_consume [] t sc i l w now = (t', Inr c)"
    and "\<not> rc_allowed c" and "micros now + rc_retry_after_seconds c * 1000000 \<le> micros later"
  shows "is_admitted (snd (sql_consume [] t' sc i l w later))"
proof -
  have args: "sc \<noteq> []" "length sc \<le> 64"
    using assms(2-4) sql_consume_refused [of l w sc "[]" t i now] by auto
  from sql_consume_result [OF assms(1-3) args assms(4)]
  obtain row where ok: "rate_table_ok t'"
    and row: "live_row (epoch_ms now) (dict_get t (sc, storage_identity i)) = Some row"
    and hint: "rc_retry_after_seconds c = max 1 ((rr_expires_ms row - epoch_ms now) div 1000 + 1)"
    and t': "dict_get t' = (\<lambda>k. live_row (epoch_ms now) (dict_get t k))"
    using assms(5) by (auto split: option.splits if_splits)
  have "epoch_ms now + rc_retry_after_seconds c * 1000 \<le> epoch_ms later"
    using assms(6) epoch_ms_mono [of "plus_seconds now (rc_retry_after_seconds c)" later]
    by (simp add: time_simps)
  moreover have "rr_expires_ms row - epoch_ms now < ((rr_expires_ms row - epoch_ms now) div 1000 + 1) * 1000"
    by (rule div_next_bound) simp
  ultimately have "rr_expires_ms row < epoch_ms later" using hint by linarith
  then have "live_row (epoch_ms later) (dict_get t' (sc, storage_identity i)) = None"
    using t' row by (simp add: live_row_def)
  moreover obtain t3 r where c2: "sql_consume [] t' sc i l w later = (t3, r)" by force
  ultimately show ?thesis
    using sql_consume_result [OF ok assms(2,3) args c2] by (auto simp: is_admitted_def)
qed

interpretation sql_rate: rate_limit_store sql_rate_store rate_table_ok
proof unfold_locales
  fix t :: rate_table and sc i l w and now :: datetime
  assume "rate_table_ok t"
  then show "rate_table_ok (fst (rs_consume sql_rate_store t sc i l w now))"
    using sql_consume_result [of t l w sc i now] sql_consume_refused [of l w sc "[]" t i now]
    by (cases "1 \<le> l \<and> 1 \<le> w \<and> sc \<noteq> [] \<and> length sc \<le> 64"; cases "sql_consume [] t sc i l w now")
      (auto simp: sql_rate_store_def)
next
  fix t t' :: rate_table and sc i l w c and now :: datetime
  assume ok: "rate_table_ok t" "1 \<le> l" "1 \<le> w" and c: "rs_consume sql_rate_store t sc i l w now = (t', Inr c)"
  then have c': "sql_consume [] t sc i l w now = (t', Inr c)" by (simp add: sql_rate_store_def)
  with ok have args: "sc \<noteq> []" "length sc \<le> 64"
    using sql_consume_refused [of l w sc "[]" t i now] by auto
  have hits: "1 \<le> rr_hits row" if "live_row (epoch_ms now) (dict_get t k) = Some row" for k row
    using that ok(1) unfolding live_row_Some rate_table_ok_def by blast
  show "rc_limit c = l \<and>
      (if rc_allowed c then 1 \<le> rc_hits c \<and> rc_hits c \<le> l \<and> rc_remaining c = l - rc_hits c \<and>
         rc_retry_after_seconds c = 0
       else l \<le> rc_hits c \<and> rc_remaining c = 0 \<and> 1 \<le> rc_retry_after_seconds c)"
    using sql_consume_result [OF ok args c'] hits ok(2) by (force split: option.splits if_splits)
next
  fix t t' :: rate_table and sc i l w e and now :: datetime
  assume "rate_table_ok t" and "rs_consume sql_rate_store t sc i l w now = (t', Inl e)"
  then show "e = RateLimitUnavailable"
    by (auto simp: sql_rate_store_def sql_consume_def split: if_splits prod.splits option.splits)
next
  fix t t' :: rate_table and sc i l w c and now later :: datetime
  assume "rate_table_ok t" and "1 \<le> l" and "1 \<le> w" and "rs_consume sql_rate_store t sc i l w now = (t', Inr c)"
    and "\<not> rc_allowed c" and "micros now + rc_retry_after_seconds c * 1000000 \<le> micros later"
  then show "is_admitted (snd (rs_consume sql_rate_store t' sc i l w later))"
    using sql_retry [of t l w sc i now t' c later] by (simp add: sql_rate_store_def)
qed

section \<open>The fixed windows of a counter\<close>

text \<open>
  The admitted instants of one counter, cut into its windows: each group holds at most \<open>n\<close>
  instants, and the first instant of a group lies more than \<open>w\<close> after that of the group before.
\<close>

definition windows :: "nat \<Rightarrow> int \<Rightarrow> int list list \<Rightarrow> bool" where
  "windows n w gs =
     (sorted (concat gs) \<and> list_all (\<lambda>g. g \<noteq> [] \<and> length g \<le> n) gs \<and>
      successively (\<lambda>g g'. hd g + w < hd g') gs)"

lemma windows_spaced: "windows n w gs \<Longrightarrow> spaced (2 * n) w (concat gs)"
proof (induction gs)
  case Nil
  then show ?case by (simp add: spaced_def)
next
  case (Cons g gs)
  have "windows n w gs"
    using Cons.prems by (auto simp: windows_def sorted_append successively_Cons)
  then have IH: "spaced (2 * n) w (concat gs)" by (rule Cons.IH)
  show ?case unfolding spaced_def
  proof (intro allI impI)
    fix i
    assume i: "i < length (concat (g # gs))" "i + 2 * n < length (concat (g # gs))"
    show "w < concat (g # gs) ! (i + 2 * n) - concat (g # gs) ! i"
    proof (cases "i < length g")
      case False
      then have "i = length g + (i - length g)" by simp
      then show ?thesis
        using IH i False by (auto simp: spaced_def nth_append dest!: spec [of _ "i - length g"])
    next
      case True
      have len: "length g \<le> n" "sorted (concat gs)" "\<forall>x\<in>set g. \<forall>y\<in>set (concat gs). x \<le> y"
        using Cons.prems by (auto simp: windows_def sorted_append)
      define m where "m = i + 2 * n - length g"
      have m: "n \<le> m" "m < length (concat gs)" "concat (g # gs) ! (i + 2 * n) = concat gs ! m"
        using i True len(1) by (auto simp: m_def nth_append)
      then obtain g2 gs2 where gs: "gs = g2 # gs2" by (cases gs) auto
      have g2: "g2 \<noteq> []" "length g2 \<le> n" using Cons.prems by (auto simp: windows_def gs)
      then have k: "m - length g2 < length (concat gs2)" "concat gs ! m = concat gs2 ! (m - length g2)"
        using m(1,2) by (auto simp: gs nth_append)
      then obtain g3 gs3 where gs2: "gs2 = g3 # gs3" by (cases gs2) auto
      have g3: "g3 \<noteq> []" "hd g2 + w < hd g3" using Cons.prems by (auto simp: windows_def gs gs2)
      have "sorted (concat gs2)" using len(2) by (simp add: gs sorted_append)
      then have "hd g3 \<le> concat gs2 ! (m - length g2)"
        using sorted_nth_mono [of "concat gs2" 0 "m - length g2"] k(1) g3(1)
        by (cases g3) (auto simp: gs2)
      moreover have "concat (g # gs) ! i \<le> hd g2"
        using len(3) True g2(1) by (auto simp: nth_append gs)
      ultimately show ?thesis using g3(2) m(3) k(2) by linarith
    qed
  qed
qed

definition window_state :: "nat \<Rightarrow> int \<Rightarrow> int \<Rightarrow> int list list \<Rightarrow> rate_row option \<Rightarrow> bool" where
  "window_state n w t gs ro =
     (windows n w gs \<and> (\<forall>x\<in>set (concat gs). x \<le> t) \<and>
      (case ro of None \<Rightarrow> gs = [] \<or> hd (last gs) + w < t
       | Some r \<Rightarrow> gs \<noteq> [] \<and> rr_hits r = int (length (last gs)) \<and> rr_expires_ms r = hd (last gs) + w))"

lemma window_state_live:
  "window_state n w t gs ro \<Longrightarrow> t \<le> t' \<Longrightarrow> window_state n w t' gs (live_row t' ro)"
  by (force simp: window_state_def live_row_def split: option.splits)

lemma window_state_first:
  assumes "window_state n (w * 1000) t gs None" and "0 < n"
  shows "window_state n (w * 1000) t (gs @ [[t]]) (Some (first_counter w t))"
  using assms
  by (auto simp: window_state_def windows_def first_counter_def sorted_append successively_append_iff)

lemma window_state_bump:
  assumes "window_state n w t gs (Some r)" and "rr_hits r < int n"
  shows "window_state n w t (butlast gs @ [last gs @ [t]]) (Some (bump r))"
    and "concat (butlast gs @ [last gs @ [t]]) = concat gs @ [t]"
proof -
  obtain hs g where gs: "gs = hs @ [g]"
    using assms(1) by (cases gs rule: rev_cases) (auto simp: window_state_def)
  have g: "g \<noteq> []" using assms(1) by (simp add: gs window_state_def windows_def)
  then show "window_state n w t (butlast gs @ [last gs @ [t]]) (Some (bump r))"
    using assms
    by (auto simp: gs window_state_def windows_def bump_def sorted_append successively_append_iff)
  show "concat (butlast gs @ [last gs @ [t]]) = concat gs @ [t]" by (simp add: gs)
qed

definition hits_stored :: "rate_key \<Rightarrow> rate_hit \<Rightarrow> bool" where
  "hits_stored k h = ((hit_scope h, storage_identity (hit_identity h)) = k)"

text \<open>The instants, in milliseconds, at which requests of the counter were admitted.\<close>

definition admitted_stored ::
  "rate_key \<Rightarrow> rate_hit list \<Rightarrow> (rate_error + rate_consumption) list \<Rightarrow> int list" where
  "admitted_stored k hs rs =
     map (\<lambda>(h, r). epoch_ms (hit_now h)) (filter (\<lambda>(h, r). hits_stored k h \<and> is_admitted r) (zip hs rs))"

text \<open>
  \<open>orderly k l w t hs\<close>: the clocks of all requests never run back from \<open>t\<close>, and the requests of
  the counter \<open>k\<close> share limit and window.
\<close>

fun orderly :: "rate_key \<Rightarrow> int \<Rightarrow> int \<Rightarrow> int \<Rightarrow> rate_hit list \<Rightarrow> bool" where
  "orderly k l w t [] = True"
| "orderly k l w t (h # hs) =
     (t \<le> epoch_ms (hit_now h) \<and> (hits_stored k h \<longrightarrow> hit_limit h = l \<and> hit_window h = w) \<and>
      orderly k l w (epoch_ms (hit_now h)) hs)"

lemma sql_step_window:
  assumes "rate_table_ok s" and "window_state (nat l) (w * 1000) t gs (dict_get s k)"
    and "1 \<le> l" and "t \<le> epoch_ms (hit_now h)"
    and "hits_stored k h \<longrightarrow> hit_limit h = l \<and> hit_window h = w"
    and c: "sql_consume [] s (hit_scope h) (hit_identity h) (hit_limit h) (hit_window h) (hit_now h) = (s1, r)"
  shows "rate_table_ok s1 \<and> (\<exists>gs1. window_state (nat l) (w * 1000) (epoch_ms (hit_now h)) gs1 (dict_get s1 k) \<and>
    concat gs1 = concat gs @ admitted_stored k [h] [r])"
proof (cases "1 \<le> hit_limit h \<and> 1 \<le> hit_window h \<and> hit_scope h \<noteq> [] \<and> length (hit_scope h) \<le> 64")
  case False
  then have "s1 = s" "r = Inl RateLimitUnavailable"
    using sql_consume_refused [OF False, of "[]" s "hit_identity h" "hit_now h"] c by simp_all
  moreover have "window_state (nat l) (w * 1000) (epoch_ms (hit_now h)) gs (dict_get s k)"
    using assms(2,4) by (force simp: window_state_def split: option.splits)
  ultimately show ?thesis
    using assms(1) by (auto simp: admitted_stored_def is_admitted_def)
next
  case True
  let ?n = "epoch_ms (hit_now h)"
  let ?k = "(hit_scope h, storage_identity (hit_identity h))"
  have "\<exists>d. r = Inr d \<and> rate_table_ok s1 \<and> (case live_row ?n (dict_get s ?k) of
       None \<Rightarrow> rc_allowed d \<and> dict_get s1 = (\<lambda>k. live_row ?n (dict_get s k))
           (?k \<mapsto> first_counter (hit_window h) ?n)
     | Some row \<Rightarrow>
         if rr_hits row < hit_limit h then rc_allowed d \<and>
           dict_get s1 = (\<lambda>k. live_row ?n (dict_get s k))(?k \<mapsto> bump row)
         else \<not> rc_allowed d \<and> dict_get s1 = (\<lambda>k. live_row ?n (dict_get s k)))"
    using sql_consume_result [OF assms(1) _ _ _ _ c] True
    by (cases "live_row ?n (dict_get s ?k)") (auto split: if_splits)
  then obtain d where d: "r = Inr d" "rate_table_ok s1"
    and res: "case live_row ?n (dict_get s ?k) of
       None \<Rightarrow> rc_allowed d \<and> dict_get s1 = (\<lambda>k. live_row ?n (dict_get s k))
           (?k \<mapsto> first_counter (hit_window h) ?n)
     | Some row \<Rightarrow>
         if rr_hits row < hit_limit h then rc_allowed d \<and>
           dict_get s1 = (\<lambda>k. live_row ?n (dict_get s k))(?k \<mapsto> bump row)
         else \<not> rc_allowed d \<and> dict_get s1 = (\<lambda>k. live_row ?n (dict_get s k))" by blast
  have live: "window_state (nat l) (w * 1000) ?n gs (live_row ?n (dict_get s k))"
    using window_state_live [OF assms(2,4)] .
  show ?thesis
  proof (cases "hits_stored k h")
    case False
    then have "dict_get s1 k = live_row ?n (dict_get s k)"
      using res by (auto simp: hits_stored_def split: option.splits if_splits)
    then show ?thesis using live d(2) False by (auto simp: admitted_stored_def)
  next
    case True
    then have k: "?k = k" and lw: "hit_limit h = l" "hit_window h = w"
      using assms(5) by (simp_all add: hits_stored_def)
    have adm: "admitted_stored k [h] [r] = (if rc_allowed d then [?n] else [])"
      using True by (simp add: admitted_stored_def is_admitted_def d(1))
    show ?thesis
    proof (cases "live_row ?n (dict_get s k)")
      case None
      then show ?thesis
        using window_state_first [of "nat l" w ?n gs] live res d(2) adm assms(3) k lw
        by (intro conjI exI [of _ "gs @ [[?n]]"]) auto
    next
      case (Some row)
      show ?thesis
      proof (cases "rr_hits row < l")
        case True
        then show ?thesis
          using window_state_bump [of "nat l" "w * 1000" ?n gs row] live Some res d(2) adm k lw
          by (intro conjI exI [of _ "butlast gs @ [last gs @ [?n]]"]) auto
      next
        case False
        then show ?thesis
          using live Some res d(2) adm k lw by (intro conjI exI [of _ gs]) auto
      qed
    qed
  qed
qed

lemma sql_run_window:
  assumes "rate_table_ok s" and "window_state (nat l) (w * 1000) t gs (dict_get s k)"
    and "1 \<le> l" and "orderly k l w t hs"
  shows "spaced (2 * nat l) (w * 1000)
    (concat gs @ admitted_stored k hs (snd (rate_run sql_rate_store s hs)))"
  using assms
proof (induction hs arbitrary: s gs t)
  case Nil
  then show ?case
    using windows_spaced [of "nat l" "w * 1000" gs] by (simp add: admitted_stored_def window_state_def)
next
  case (Cons h hs)
  obtain s1 r where c: "sql_consume [] s (hit_scope h) (hit_identity h) (hit_limit h) (hit_window h) (hit_now h) = (s1, r)"
    by force
  from Cons.prems(4) have h: "t \<le> epoch_ms (hit_now h)" "orderly k l w (epoch_ms (hit_now h)) hs"
    "hits_stored k h \<longrightarrow> hit_limit h = l \<and> hit_window h = w" by auto
  obtain gs1 where gs1: "rate_table_ok s1"
    "window_state (nat l) (w * 1000) (epoch_ms (hit_now h)) gs1 (dict_get s1 k)"
    "concat gs1 = concat gs @ admitted_stored k [h] [r]"
    using sql_step_window [OF Cons.prems(1-3) h(1,3) c] by blast
  have "snd (rate_run sql_rate_store s (h # hs)) = r # snd (rate_run sql_rate_store s1 hs)"
    using c by (simp add: sql_rate_store_def case_prod_beta Let_def)
  then show ?case
    using Cons.IH [OF gs1(1,2) Cons.prems(3) h(2)] gs1(3)
    by (auto simp: admitted_stored_def split: if_splits)
qed

section \<open>Properties\<close>

text \<open>
  C37: the process-local limiter is an exact sliding window.  Whatever else the store serves, if the
  requests of one key share limit and window and their clocks do not run back, any limit + 1
  consecutive admitted requests of the key span more than the window.
\<close>

theorem sliding_window_bound:
  assumes "dict_get s k = None" and "1 \<le> l" and "0 \<le> w" and "uniform k l w t hs"
  shows "spaced (nat l) (w * 1000000) (admitted k hs (snd (rate_run memory_rate_store s hs)))"
proof -
  have "window_inv (nat l) (w * 1000000) t [] (bucket_of s k)"
    using assms(1) by (simp add: window_inv_def spaced_def bucket_of_def)
  from mem_run_window [OF this assms(2-4)] show ?thesis by simp
qed

abbreviation example_hit :: "int \<Rightarrow> rate_hit" where
  "example_hit t \<equiv> \<lparr>hit_scope = ''login'', hit_identity = ''ip'', hit_limit = 2, hit_window = 10,
     hit_now = Aware (t * 1000000)\<rparr>"

theorem sliding_window_bound_witness:
  "spaced 2 10000000 (admitted (''login'', ''ip'') [example_hit 0, example_hit 9, example_hit 10, example_hit 11]
     (snd (rate_run memory_rate_store [] [example_hit 0, example_hit 9, example_hit 10, example_hit 11])))"
  using sliding_window_bound [of "[]" "(''login'', ''ip'')" 2 10 0
      "[example_hit 0, example_hit 9, example_hit 10, example_hit 11]"]
  by (simp add: hits_key_def)

text \<open>
  the shared limiter is a fixed-window counter.  From a table without the counter, if the
  requests of the counter share limit and window and no clock runs back, any 2 * limit + 1
  consecutive admitted requests span more than the window: a burst over a window boundary can reach
  twice the limit, never more.
\<close>

theorem fixed_window_bound:
  assumes "rate_table_ok s" and "dict_get s k = None" and "1 \<le> l" and "orderly k l w t hs"
  shows "spaced (2 * nat l) (w * 1000) (admitted_stored k hs (snd (rate_run sql_rate_store s hs)))"
proof -
  have "window_state (nat l) (w * 1000) t [] (dict_get s k)"
    using assms(2) by (simp add: window_state_def windows_def)
  from sql_run_window [OF assms(1) this assms(3,4)] show ?thesis by simp
qed

lemma empty_rate_table [simp]: "rate_table_ok []"
  by (simp add: rate_table_ok_def)

theorem fixed_window_bound_witness:
  "spaced 4 10000 (admitted_stored (''login'', ''ip'') [example_hit 0, example_hit 10, example_hit 11]
     (snd (rate_run sql_rate_store [] [example_hit 0, example_hit 10, example_hit 11])))"
proof -
  have "storage_identity ''ip'' = ''ip''" by (simp add: storage_identity_def contains_char_def)
  then show ?thesis
    using fixed_window_bound [of "[]" "(''login'', ''ip'')" 2 10 0
        "[example_hit 0, example_hit 10, example_hit 11]"]
    by (simp add: epoch_ms_def hits_stored_def)
qed

text \<open>
  the retry hint is sufficient on both backends.  A request that was denied with as many
  recorded hits as the limit is admitted when it is repeated, with the same limit and window, at
  any time at least the hinted number of seconds later.
\<close>

theorem retry_hint_sufficient:
  assumes "1 \<le> l" and "1 \<le> w" and "rate_table_ok t" and "dict_ok s"
    and "\<not> rc_allowed c" and "rc_hits c = l"
    and "micros now + rc_retry_after_seconds c * 1000000 \<le> micros later"
  shows "(sql_consume [] t sc i l w now = (t', Inr c) \<longrightarrow> is_admitted (snd (sql_consume [] t' sc i l w later))) \<and>
    (mem_consume s sc i l w now = (s', Inr c) \<longrightarrow> is_admitted (snd (mem_consume s' sc i l w later)))"
  using sql_rate.retry_law [OF assms(3,1,2) _ assms(5-7), of sc i t']
    mem_rate.retry_law [OF assms(4,1,2) _ assms(5-7), of sc i s']
  by (simp add: sql_rate_store_def memory_rate_store_def)

theorem retry_hint_sufficient_witness:
  "is_admitted (snd (mem_consume [((''login'', ''ip''), [Aware 0])] ''login'' ''ip'' 1 10 (Aware 11000000)))"
proof -
  have "mem_consume [((''login'', ''ip''), [Aware 0])] ''login'' ''ip'' 1 10 (Aware 5000000) =
    ([((''login'', ''ip''), [Aware 0])],
     Inr \<lparr>rc_allowed = False, rc_limit = 1, rc_remaining = 0, rc_retry_after_seconds = 6, rc_hits = 1\<rparr>)"
    by code_simp
  then show ?thesis
    using retry_hint_sufficient [of 1 10 "[]" "[((''login'', ''ip''), [Aware 0])]"
        "\<lparr>rc_allowed = False, rc_limit = 1, rc_remaining = 0, rc_retry_after_seconds = 6, rc_hits = 1\<rparr>"
        "Aware 5000000" "Aware 11000000" "''login''" "''ip''"]
    by (simp add: dict_ok_def)
qed

text \<open>
  the limiter always decides and fails closed.  With a default rule and positive limits and
  windows, \<open>check\<close> on either store never raises; when the store is unavailable the request is
  denied; an admitted request leaves a remaining budget below the limit and no retry hint, a denied
  one no budget and a hint of at least a second (or the unavailable flag); a disabled limiter admits
  everything and touches no counter.
\<close>

theorem rate_check_fails_closed:
  assumes "dict_get rules BDefault \<noteq> None"
    and "\<forall>b r. dict_get rules b = Some r \<longrightarrow> 1 \<le> max_requests r \<and> 1 \<le> rule_window_seconds r"
    and "dict_ok s" and "rate_table_ok t"
  shows "(\<exists>s' d. rate_check memory_rate_store rules enabled s b i now = Some (s', Inr d) \<and>
      (rd_unavailable d \<longrightarrow> \<not> rd_allowed d) \<and> (\<not> enabled \<longrightarrow> rd_allowed d \<and> s' = s) \<and>
      (enabled \<longrightarrow> (if rd_allowed d then 0 \<le> rd_remaining d \<and> rd_remaining d < rd_limit d \<and>
          rd_retry_after_seconds d = 0
        else rd_remaining d = 0 \<and> (rd_unavailable d \<or> 1 \<le> rd_retry_after_seconds d)))) \<and>
    (\<exists>t' d. rate_check sql_rate_store rules enabled t b i now = Some (t', Inr d) \<and>
      (rd_unavailable d \<longrightarrow> \<not> rd_allowed d) \<and> (\<not> enabled \<longrightarrow> rd_allowed d \<and> t' = t) \<and>
      (enabled \<longrightarrow> (if rd_allowed d then 0 \<le> rd_remaining d \<and> rd_remaining d < rd_limit d \<and>
          rd_retry_after_seconds d = 0
        else rd_remaining d = 0 \<and> (rd_unavailable d \<or> 1 \<le> rd_retry_after_seconds d))))"
  using mem_rate.check_decides [OF assms(3,1,2), of enabled b i now]
    sql_rate.check_decides [OF assms(4,1,2), of enabled b i now] by blast

abbreviation example_rules :: "(rate_bucket, rate_rule) dict" where
  "example_rules \<equiv> [(BDefault, \<lparr>rule_bucket = BDefault, max_requests = 120, rule_window_seconds = 60\<rparr>)]"

theorem rate_check_fails_closed_witness:
  "\<exists>s' d. rate_check sql_rate_store example_rules True [] BLogin ''ip'' (Aware 0) = Some (s', Inr d) \<and>
    (rd_unavailable d \<longrightarrow> \<not> rd_allowed d)"
proof -
  have "\<forall>b r. dict_get example_rules b = Some r \<longrightarrow> 1 \<le> max_requests r \<and> 1 \<le> rule_window_seconds r"
    by auto
  then show ?thesis
    using rate_check_fails_closed [of example_rules "[]" "[]" True BLogin "''ip''" "Aware 0"] by auto
qed

text \<open>
  the class of a request depends on its path alone.  A query string, a fragment or trailing
  slashes after a path without them never move a request to another bucket.
\<close>

theorem classify_path_ignores_query:
  assumes "\<not> contains_char (CHR ''?'') p" and "\<not> contains_char (CHR ''#'') p"
    and "q = [] \<or> hd q = CHR ''?'' \<or> hd q = CHR ''#''"
  shows "classify_path req_method (p @ replicate n (CHR ''/'') @ q) = classify_path req_method p"
proof -
  have clean: "CHR ''?'' \<notin> set p" "CHR ''#'' \<notin> set p"
    "CHR ''?'' \<notin> set (p @ replicate n (CHR ''/''))" "CHR ''#'' \<notin> set (p @ replicate n (CHR ''/''))"
    using assms(1,2) by (auto simp: contains_char_def)
  have stop: "split_head (CHR ''#'') (split_head (CHR ''?'') ((p @ replicate n (CHR ''/'')) @ q)) =
      p @ replicate n (CHR ''/'')"
    using assms(3) clean by (cases q) (auto simp: split_head_append split_head_id split_head_simps)
  have self: "split_head (CHR ''#'') (split_head (CHR ''?'') p) = p"
    by (simp add: split_head_id clean)
  show ?thesis
    using stop by (simp add: classify_path_def normalize_path_def self rstrip_char_append)
qed

theorem classify_path_ignores_query_witness:
  "classify_path ''post'' ''/api/v1/auth/login//?next=/search'' = BLogin"
proof -
  have base: "classify_path ''post'' ''/api/v1/auth/login'' = BLogin" by code_simp
  show ?thesis
    using classify_path_ignores_query [of "''/api/v1/auth/login''" "''?next=/search''" "''post''" 2]
    by (simp add: contains_char_def numeral_2_eq_2 base)
qed

end
