(* ===== verification/ReliabilityRepo.thy ===== *)
theory ReliabilityRepo
  imports Reliability OperationalStore
begin

text \<open>
  app/research/reliability_repository.py: the persisted circuit breakers, in process memory and in
  the operational store, the gate service over either, and the permission for a future live attempt.
  The locale \<open>reliability_repository\<close> is the repository contract: a row per provider and market,
  replaced only at its expected revision.
\<close>

section \<open>Repositories\<close>

datatype repo_error = RepoInvalid rel_error | ReliabilityRevisionConflict

definition lift_rel :: "rel_error + 'a \<Rightarrow> repo_error + 'a" where
  "lift_rel r = (case r of Inl e \<Rightarrow> Inl (RepoInvalid e) | Inr x \<Rightarrow> Inr x)"

lemma lift_rel_simps [simp]: "lift_rel (Inl e) = Inl (RepoInvalid e)" "lift_rel (Inr x) = Inr x"
  by (simp_all add: lift_rel_def)

type_synonym reliability_rows = "(string, provider_state) dict"

definition mem_rel_load ::
  "reliability_rows \<Rightarrow> string \<Rightarrow> string \<Rightarrow> datetime \<Rightarrow> repo_error + provider_state" where
  "mem_rel_load rows provider_id market now =
     and_then (lift_rel (reliability_record_key provider_id market)) (\<lambda>key.
     case dict_get rows key of
       None \<Rightarrow> lift_rel (closed_reliability_state provider_id market now)
     | Some stored \<Rightarrow> Inr stored)"

definition mem_rel_save ::
  "reliability_rows \<Rightarrow> provider_state \<Rightarrow> int \<Rightarrow> reliability_rows \<times> (repo_error + provider_state)" where
  "mem_rel_save rows state expected_revision =
     (case reliability_record_key (ps_provider_id state) (ps_market state) of
        Inl e \<Rightarrow> (rows, Inl (RepoInvalid e))
      | Inr key \<Rightarrow>
          let current_revision = (case dict_get rows key of None \<Rightarrow> 0 | Some c \<Rightarrow> ps_revision c) in
          if current_revision \<noteq> expected_revision then (rows, Inl ReliabilityRevisionConflict)
          else
            (case check_state (state\<lparr>ps_revision := expected_revision + 1\<rparr>) of
               Inl e \<Rightarrow> (rows, Inl (RepoInvalid e))
             | Inr stored \<Rightarrow> (dict_set key stored rows, Inr stored)))"

definition mem_rel_row_count :: "reliability_rows \<Rightarrow> string \<Rightarrow> string \<Rightarrow> repo_error + nat" where
  "mem_rel_row_count rows provider_id market =
     and_then (lift_rel (reliability_record_key provider_id market)) (\<lambda>key.
       Inr (if dict_get rows key = None then 0 else 1))"

definition mem_rel_restore_row ::
  "reliability_rows \<Rightarrow> string \<Rightarrow> string \<Rightarrow> provider_state option \<Rightarrow> reliability_rows \<times> (repo_error + unit)"
  where
  "mem_rel_restore_row rows provider_id market state =
     (case reliability_record_key provider_id market of
        Inl e \<Rightarrow> (rows, Inl (RepoInvalid e))
      | Inr key \<Rightarrow>
          (case state of
             None \<Rightarrow> (dict_del key rows, Inr ())
           | Some st \<Rightarrow> (dict_set key st rows, Inr ())))"

definition op_rel_load ::
  "provider_state op_table \<Rightarrow> string \<Rightarrow> string \<Rightarrow> datetime \<Rightarrow> repo_error + provider_state" where
  "op_rel_load t provider_id market now =
     and_then (lift_rel (reliability_record_key provider_id market)) (\<lambda>key.
     case get_versioned t key of
       None \<Rightarrow> lift_rel (closed_reliability_state provider_id market now)
     | Some (state, seq, owner) \<Rightarrow>
         if ps_revision state \<noteq> seq then lift_rel (check_state (state\<lparr>ps_revision := seq\<rparr>))
         else Inr state)"

definition op_rel_save ::
  "provider_state op_table \<Rightarrow> provider_state \<Rightarrow> int
     \<Rightarrow> provider_state op_table \<times> (repo_error + provider_state)" where
  "op_rel_save t state expected_revision =
     (case reliability_record_key (ps_provider_id state) (ps_market state) of
        Inl e \<Rightarrow> (t, Inl (RepoInvalid e))
      | Inr key \<Rightarrow>
        (case check_state (state\<lparr>ps_revision := expected_revision + 1\<rparr>) of
           Inl e \<Rightarrow> (t, Inl (RepoInvalid e))
         | Inr stored \<Rightarrow>
           if expected_revision = 0 then
             (if get_versioned t key \<noteq> None then (t, Inl ReliabilityRevisionConflict)
              else
                (case insert_versioned t key stored (ps_revision stored) None of
                   None \<Rightarrow> (t, Inl ReliabilityRevisionConflict)
                 | Some t' \<Rightarrow> (t', Inr stored)))
           else
             (case compare_and_swap t key stored expected_revision (ps_revision stored) None of
                (t', updated) \<Rightarrow>
                  if updated then (t', Inr stored) else (t', Inl ReliabilityRevisionConflict))))"

record 's rel_repository =
  rel_load :: "'s \<Rightarrow> string \<Rightarrow> string \<Rightarrow> datetime \<Rightarrow> repo_error + provider_state"
  rel_save :: "'s \<Rightarrow> provider_state \<Rightarrow> int \<Rightarrow> 's \<times> (repo_error + provider_state)"

definition memory_rel_repository :: "reliability_rows rel_repository" where
  "memory_rel_repository = \<lparr>rel_load = mem_rel_load, rel_save = mem_rel_save\<rparr>"

definition operational_rel_repository :: "provider_state op_table rel_repository" where
  "operational_rel_repository = \<lparr>rel_load = op_rel_load, rel_save = op_rel_save\<rparr>"

section \<open>ResearchReliabilityGate\<close>

definition gate_record_failure ::
  "'s rel_repository \<Rightarrow> breaker_policy \<Rightarrow> 's \<Rightarrow> string \<Rightarrow> string \<Rightarrow> failure_kind \<Rightarrow> datetime
     \<Rightarrow> 's \<times> (repo_error + provider_state)" where
  "gate_record_failure repo policy s provider_id market kind now =
     (case rel_load repo s provider_id market now of
        Inl e \<Rightarrow> (s, Inl e)
      | Inr current \<Rightarrow>
        (case record_failure current kind now policy of
           Inl e \<Rightarrow> (s, Inl (RepoInvalid e))
         | Inr updated \<Rightarrow> rel_save repo s updated (ps_revision current)))"

definition gate_record_success ::
  "'s rel_repository \<Rightarrow> 's \<Rightarrow> string \<Rightarrow> string \<Rightarrow> datetime \<Rightarrow> 's \<times> (repo_error + provider_state)" where
  "gate_record_success repo s provider_id market now =
     (case rel_load repo s provider_id market now of
        Inl e \<Rightarrow> (s, Inl e)
      | Inr current \<Rightarrow>
        (case record_success current now of
           Inl e \<Rightarrow> (s, Inl (RepoInvalid e))
         | Inr updated \<Rightarrow>
             if updated = current then (s, Inr current)
             else rel_save repo s updated (ps_revision current)))"

definition gate_permission ::
  "'s rel_repository \<Rightarrow> 's \<Rightarrow> string \<Rightarrow> string \<Rightarrow> operational_status \<Rightarrow> kill_switch \<Rightarrow> datetime
     \<Rightarrow> 's \<times> (repo_error + reliability_decision)" where
  "gate_permission repo s provider_id market status ks now =
     (case rel_load repo s provider_id market now of
        Inl e \<Rightarrow> (s, Inl e)
      | Inr current \<Rightarrow>
        (case assess_execution_permission current status ks now of
           Inl e \<Rightarrow> (s, Inl (RepoInvalid e))
         | Inr decision \<Rightarrow>
             if ps_state (decision_breaker decision) \<noteq> ps_state current
             then (case rel_save repo s (decision_breaker decision) (ps_revision current) of
                     (s', Inl e) \<Rightarrow> (s', Inl e)
                   | (s', Inr saved) \<Rightarrow>
                       (s', lift_rel (check_decision (decision\<lparr>decision_breaker := saved\<rparr>))))
             else (s, Inr decision)))"

section \<open>FutureLiveConnectorPermission\<close>

record live_permission =
  lp_permitted :: bool
  lp_block_reason :: "string option"
  lp_reliability :: reliability_decision
  lp_live_mode_enabled :: bool
  lp_routing_present :: bool
  lp_certification_present :: bool

definition check_live_permission :: "live_permission \<Rightarrow> rel_error + live_permission" where
  "check_live_permission p =
     (if lp_permitted p \<and> lp_block_reason p \<noteq> None then Inl RelValueError
      else if \<not> lp_permitted p \<and> (lp_block_reason p = None \<or> lp_block_reason p = Some []) then Inl RelValueError
      else if lp_permitted p \<and> \<not> execution_permitted (lp_reliability p) then Inl RelValueError
      else if lp_permitted p \<and> \<not> lp_live_mode_enabled p then Inl RelValueError
      else Inr p)"

definition assess_persisted_live_permission ::
  "'s rel_repository \<Rightarrow> 's \<Rightarrow> string \<Rightarrow> string \<Rightarrow> operational_status \<Rightarrow> kill_switch \<Rightarrow> datetime
     \<Rightarrow> bool \<Rightarrow> bool \<Rightarrow> bool \<Rightarrow> 's \<times> (repo_error + live_permission)" where
  "assess_persisted_live_permission repo s provider_id market status ks now live_mode routing cert =
     (case gate_permission repo s provider_id market status ks now of
        (s', Inl e) \<Rightarrow> (s', Inl e)
      | (s', Inr d) \<Rightarrow>
          let (reason, permitted) =
            (if \<not> execution_permitted d then (block_reason d, False)
             else if \<not> routing then (Some ''routing_absent'', False)
             else if \<not> cert then (Some ''certification_absent'', False)
             else if \<not> live_mode then (Some ''mode_not_live'', False)
             else (None, True))
          in (s', lift_rel (check_live_permission
                \<lparr>lp_permitted = permitted, lp_block_reason = reason, lp_reliability = d,
                 lp_live_mode_enabled = live_mode, lp_routing_present = routing,
                 lp_certification_present = cert\<rparr>)))"

section \<open>The repository contract\<close>

text \<open>The breakers as a map from key to state: what a repository stands for.\<close>

type_synonym breaker_map = "string \<Rightarrow> provider_state option"

definition spec_load :: "breaker_map \<Rightarrow> string \<Rightarrow> string \<Rightarrow> datetime \<Rightarrow> repo_error + provider_state" where
  "spec_load V provider_id market now =
     and_then (lift_rel (reliability_record_key provider_id market)) (\<lambda>key.
     case V key of None \<Rightarrow> lift_rel (closed_reliability_state provider_id market now) | Some st \<Rightarrow> Inr st)"

definition revision_at :: "provider_state option \<Rightarrow> int" where
  "revision_at row = (case row of None \<Rightarrow> 0 | Some c \<Rightarrow> ps_revision c)"

definition spec_save :: "breaker_map \<Rightarrow> provider_state \<Rightarrow> int \<Rightarrow> breaker_map \<times> (repo_error + provider_state)" where
  "spec_save V st expected =
     (let key = ps_provider_id st @ ''|'' @ ps_market st; st' = st\<lparr>ps_revision := expected + 1\<rparr> in
      if revision_at (V key) = expected then (V(key \<mapsto> st'), Inr st')
      else (V, Inl ReliabilityRevisionConflict))"

definition spec_rel_repository :: "breaker_map rel_repository" where
  "spec_rel_repository = \<lparr>rel_load = spec_load, rel_save = spec_save\<rparr>"

definition stored_ok :: "breaker_map \<Rightarrow> bool" where
  "stored_ok V = (\<forall>key st. V key = Some st \<longrightarrow>
     valid_state st \<and> 1 \<le> ps_revision st \<and> key = ps_provider_id st @ ''|'' @ ps_market st)"

lemma valid_revision: "valid_state st \<Longrightarrow> 0 \<le> n \<Longrightarrow> valid_state (st\<lparr>ps_revision := n\<rparr>)"
  by (auto simp: valid_defs split: breaker.splits)

lemma stored_ok_save:
  assumes "stored_ok V" and "valid_state st" and "0 \<le> e"
  shows "stored_ok (fst (spec_save V st e))"
  using assms valid_revision [OF assms(2), of "e + 1"]
  by (auto simp: stored_ok_def spec_save_def Let_def)

lemma valid_key:
  "valid_state st \<Longrightarrow> reliability_record_key (ps_provider_id st) (ps_market st) =
     Inr (ps_provider_id st @ ''|'' @ ps_market st)"
  by (rule record_key_of_ident) (simp add: valid_state_def)

lemma closed_valid:
  assumes "closed_reliability_state p m now = Inr st"
  shows "valid_state st \<and> ps_revision st = 0 \<and> ps_state st = CLOSED \<and> failures st = 0"
  using assms check_state_valid unfolding closed_reliability_state_def by fastforce

lemma spec_load_valid:
  assumes "stored_ok V" and "spec_load V p m now = Inr st"
  shows "valid_state st \<and> 0 \<le> ps_revision st"
proof -
  obtain key where key: "reliability_record_key p m = Inr key"
    using assms(2) by (cases "reliability_record_key p m") (auto simp: spec_load_def)
  have "valid_state st"
  proof (cases "V key")
    case None
    then have "closed_reliability_state p m now = Inr st"
      using assms(2) key by (cases "closed_reliability_state p m now") (auto simp: spec_load_def)
    then show ?thesis using closed_valid by blast
  next
    case (Some x)
    then show ?thesis using assms key by (auto simp: spec_load_def stored_ok_def)
  qed
  then show ?thesis by (simp add: valid_state_def)
qed

locale reliability_repository =
  fixes repo :: "'s rel_repository" and ok :: "'s \<Rightarrow> bool" and view :: "'s \<Rightarrow> breaker_map"
  assumes stored_law: "ok s \<Longrightarrow> stored_ok (view s)"
    and load_law: "ok s \<Longrightarrow> rel_load repo s p m now = spec_load (view s) p m now"
    and save_law: "ok s \<Longrightarrow> valid_state st \<Longrightarrow> 0 \<le> e \<Longrightarrow>
      ok (fst (rel_save repo s st e)) \<and>
      view (fst (rel_save repo s st e)) = fst (spec_save (view s) st e) \<and>
      snd (rel_save repo s st e) = snd (spec_save (view s) st e)"
begin

lemma loaded_valid: "ok s \<Longrightarrow> spec_load (view s) p m now = Inr st \<Longrightarrow> valid_state st \<and> 0 \<le> ps_revision st"
  using spec_load_valid stored_law by blast

lemma failure_refines:
  assumes "ok s" and "is_aware now"
  shows "ok (fst (gate_record_failure repo pol s p m k now)) \<and>
    view (fst (gate_record_failure repo pol s p m k now)) =
      fst (gate_record_failure spec_rel_repository pol (view s) p m k now) \<and>
    snd (gate_record_failure repo pol s p m k now) =
      snd (gate_record_failure spec_rel_repository pol (view s) p m k now)"
proof (cases "spec_load (view s) p m now")
  case (Inl e)
  then show ?thesis
    using assms by (simp add: gate_record_failure_def load_law spec_rel_repository_def)
next
  case (Inr cur)
  then have v: "valid_state cur" "0 \<le> ps_revision cur" using loaded_valid assms(1) by blast+
  then show ?thesis
    using Inr assms record_failure_valid [OF v(1) assms(2)] save_law [OF assms(1) valid_failed [OF v(1) assms(2)] v(2)]
    by (simp add: gate_record_failure_def load_law spec_rel_repository_def)
qed

lemma success_refines:
  assumes "ok s" and "is_aware now"
  shows "ok (fst (gate_record_success repo s p m now)) \<and>
    view (fst (gate_record_success repo s p m now)) =
      fst (gate_record_success spec_rel_repository (view s) p m now) \<and>
    snd (gate_record_success repo s p m now) =
      snd (gate_record_success spec_rel_repository (view s) p m now)"
proof (cases "spec_load (view s) p m now")
  case (Inl e)
  then show ?thesis
    using assms by (simp add: gate_record_success_def load_law spec_rel_repository_def)
next
  case (Inr cur)
  then have v: "valid_state cur" "0 \<le> ps_revision cur" using loaded_valid assms(1) by blast+
  then show ?thesis
    using Inr assms record_success_valid [OF v(1) assms(2)]
      save_law [OF assms(1) valid_succeeded [OF v(1) assms(2)] v(2)]
    by (simp add: gate_record_success_def load_law spec_rel_repository_def)
qed

lemma permission_refines:
  assumes "ok s" and "is_aware now"
  shows "ok (fst (gate_permission repo s p m status ks now)) \<and>
    view (fst (gate_permission repo s p m status ks now)) =
      fst (gate_permission spec_rel_repository (view s) p m status ks now) \<and>
    snd (gate_permission repo s p m status ks now) =
      snd (gate_permission spec_rel_repository (view s) p m status ks now)"
proof (cases "spec_load (view s) p m now")
  case (Inl e)
  then show ?thesis
    using assms by (simp add: gate_permission_def load_law spec_rel_repository_def)
next
  case (Inr cur)
  then have v: "valid_state cur" "0 \<le> ps_revision cur" using loaded_valid assms(1) by blast+
  have g: "assess_execution_permission cur status ks now = Inr d \<Longrightarrow> valid_state (decision_breaker d)" for d
    using v(1) assms(2) valid_advanced [OF v(1) assms(2)] advance_recovery_valid [OF v(1) assms(2)]
    by (auto simp: assess_execution_permission_def require_aware_def check_decision_def split: if_splits)
  show ?thesis
  proof (cases "assess_execution_permission cur status ks now")
    case (Inl e)
    then show ?thesis
      using Inr assms by (simp add: gate_permission_def load_law spec_rel_repository_def)
  next
    case (Inr d)
    note law = save_law [OF assms(1) g [OF Inr] v(2)]
    obtain s' r where s': "rel_save repo s (decision_breaker d) (ps_revision cur) = (s', r)" by force
    obtain V' q where V': "spec_save (view s) (decision_breaker d) (ps_revision cur) = (V', q)" by force
    show ?thesis
      using Inr \<open>spec_load (view s) p m now = Inr cur\<close> assms law
      by (simp add: gate_permission_def load_law spec_rel_repository_def s' V' split: sum.splits)
  qed
qed

end

section \<open>Both repositories are providers\<close>

definition mem_rel_ok :: "reliability_rows \<Rightarrow> bool" where
  "mem_rel_ok rows = (dict_ok rows \<and> stored_ok (dict_get rows))"

definition op_rel_view :: "provider_state op_table \<Rightarrow> breaker_map" where
  "op_rel_view t k = map_option op_payload (dict_get t k)"

definition op_rel_ok :: "provider_state op_table \<Rightarrow> bool" where
  "op_rel_ok t = (dict_ok t \<and> stored_ok (op_rel_view t) \<and>
     (\<forall>k r. dict_get t k = Some r \<longrightarrow> op_seq r = ps_revision (op_payload r)))"

lemma mem_rel_save_refines:
  assumes "mem_rel_ok rows" and "valid_state st" and "0 \<le> e"
  shows "mem_rel_ok (fst (mem_rel_save rows st e)) \<and>
    dict_get (fst (mem_rel_save rows st e)) = fst (spec_save (dict_get rows) st e) \<and>
    snd (mem_rel_save rows st e) = snd (spec_save (dict_get rows) st e)"
proof -
  have v: "check_state (st\<lparr>ps_revision := e + 1\<rparr>) = Inr (st\<lparr>ps_revision := e + 1\<rparr>)"
    using check_valid valid_revision [OF assms(2), of "e + 1"] assms(3) by simp
  have "mem_rel_save rows st e = (let key = ps_provider_id st @ ''|'' @ ps_market st in
      if revision_at (dict_get rows key) = e
      then (dict_set key (st\<lparr>ps_revision := e + 1\<rparr>) rows, Inr (st\<lparr>ps_revision := e + 1\<rparr>))
      else (rows, Inl ReliabilityRevisionConflict))"
    using valid_key [OF assms(2)] v by (simp add: mem_rel_save_def revision_at_def Let_def)
  moreover have "stored_ok (fst (spec_save (dict_get rows) st e))"
    using stored_ok_save [OF _ assms(2,3)] assms(1) by (simp add: mem_rel_ok_def)
  ultimately show ?thesis
    using assms(1)
    by (cases "revision_at (dict_get rows (ps_provider_id st @ ''|'' @ ps_market st)) = e")
      (simp_all add: mem_rel_ok_def spec_save_def Let_def dict_get_set fun_upd_def)
qed

interpretation mem_rel: reliability_repository memory_rel_repository mem_rel_ok dict_get
proof unfold_locales
  fix rows st and e :: int
  assume "mem_rel_ok rows" and "valid_state st" and "0 \<le> e"
  then show "mem_rel_ok (fst (rel_save memory_rel_repository rows st e)) \<and>
      dict_get (fst (rel_save memory_rel_repository rows st e)) = fst (spec_save (dict_get rows) st e) \<and>
      snd (rel_save memory_rel_repository rows st e) = snd (spec_save (dict_get rows) st e)"
    using mem_rel_save_refines [of rows st e] by (simp add: memory_rel_repository_def)
qed (simp_all add: mem_rel_ok_def memory_rel_repository_def mem_rel_load_def spec_load_def)

lemma op_rel_save_refines:
  assumes "op_rel_ok t" and "valid_state st" and "0 \<le> e"
  shows "op_rel_ok (fst (op_rel_save t st e)) \<and>
    op_rel_view (fst (op_rel_save t st e)) = fst (spec_save (op_rel_view t) st e) \<and>
    snd (op_rel_save t st e) = snd (spec_save (op_rel_view t) st e)"
proof -
  define key where "key = ps_provider_id st @ ''|'' @ ps_market st"
  define st' where "st' = st\<lparr>ps_revision := e + 1\<rparr>"
  have ok: "dict_ok t" "stored_ok (op_rel_view t)" using assms(1) by (simp_all add: op_rel_ok_def)
  have v: "check_state st' = Inr st'" "ps_revision st' = e + 1"
    using check_valid valid_revision [OF assms(2), of "e + 1"] assms(3) by (simp_all add: st'_def)
  have run: "op_rel_save t st e =
      (if e = 0 then
         (if dict_get t key \<noteq> None then (t, Inl ReliabilityRevisionConflict)
          else (case insert_versioned t key st' (e + 1) None of
                  None \<Rightarrow> (t, Inl ReliabilityRevisionConflict) | Some t' \<Rightarrow> (t', Inr st')))
       else (case compare_and_swap t key st' e (e + 1) None of
               (t', updated) \<Rightarrow> if updated then (t', Inr st') else (t', Inl ReliabilityRevisionConflict)))"
    unfolding op_rel_save_def key_def valid_key [OF assms(2)] st'_def [symmetric] get_versioned_def
    by (simp add: v)
  have spec: "spec_save (op_rel_view t) st e = (if revision_at (op_rel_view t key) = e
      then ((op_rel_view t)(key \<mapsto> st'), Inr st') else (op_rel_view t, Inl ReliabilityRevisionConflict))"
    by (simp add: spec_save_def Let_def key_def st'_def)
  have rev: "revision_at (op_rel_view t key) = (case dict_get t key of None \<Rightarrow> 0 | Some r \<Rightarrow> op_seq r)"
    "\<And>r. dict_get t key = Some r \<Longrightarrow> 1 \<le> op_seq r"
    using assms(1) by (auto simp: op_rel_ok_def op_rel_view_def revision_at_def stored_ok_def split: option.splits)
  have new: "op_rel_ok t' \<and> op_rel_view t' = (op_rel_view t)(key \<mapsto> st')"
    if "dict_ok t'" "dict_get t' = (dict_get t)(key \<mapsto> \<lparr>op_payload = st', op_seq = e + 1, op_owner = None\<rparr>)"
      "revision_at (op_rel_view t key) = e" for t'
  proof -
    have view: "op_rel_view t' = (op_rel_view t)(key \<mapsto> st')"
      using that(2) by (auto simp: op_rel_view_def fun_eq_iff)
    moreover have "stored_ok ((op_rel_view t)(key \<mapsto> st'))"
      using stored_ok_save [OF ok(2) assms(2,3)] that(3) by (simp add: spec)
    ultimately show ?thesis
      using that assms(1) v(2) by (auto simp: op_rel_ok_def)
  qed
  have same: "op_rel_ok t' \<and> op_rel_view t' = op_rel_view t"
    if "dict_ok t'" "dict_get t' = dict_get t" for t'
    using that assms(1) by (auto simp: op_rel_ok_def op_rel_view_def [abs_def])
  show ?thesis
  proof (cases "e = 0")
    case True
    then show ?thesis
    proof (cases "dict_get t key")
      case None
      then obtain t' where t': "insert_versioned t key st' (e + 1) None = Some t'"
        using insert_versioned_None [of t key] by (metis not_None_eq)
      have zero: "revision_at (op_rel_view t key) = e" using None True rev(1) by simp
      note res = insert_versioned_result [OF ok(1) t']
      have "op_rel_ok t' \<and> op_rel_view t' = (op_rel_view t)(key \<mapsto> st')"
        by (rule new [OF res [THEN conjunct1] res [THEN conjunct2] zero])
      then show ?thesis
        using t' None True zero unfolding run spec by simp
    next
      case (Some r)
      then show ?thesis using rev(1) rev(2) [OF Some] True assms(1) unfolding run spec by simp
    qed
  next
    case False
    obtain t' b where cas: "compare_and_swap t key st' e (e + 1) None = (t', b)" by force
    note res = compare_and_swap_result [OF ok(1) cas]
    have b: "b \<longleftrightarrow> revision_at (op_rel_view t key) = e"
      using res False rev(1) by (auto split: option.splits)
    have "op_rel_ok t' \<and> op_rel_view t' = (if b then (op_rel_view t)(key \<mapsto> st') else op_rel_view t)"
    proof (cases b)
      case True
      then show ?thesis using res b by (metis new)
    next
      case False
      then show ?thesis using res by (metis same)
    qed
    then show ?thesis
      using b False unfolding run spec cas by (cases b) simp_all
  qed
qed

interpretation op_rel: reliability_repository operational_rel_repository op_rel_ok op_rel_view
proof unfold_locales
  fix t p m and now :: datetime
  assume "op_rel_ok t"
  then show "rel_load operational_rel_repository t p m now = spec_load (op_rel_view t) p m now"
    by (cases "reliability_record_key p m")
      (auto simp: operational_rel_repository_def op_rel_load_def spec_load_def get_versioned_def op_rel_view_def
        op_rel_ok_def split: option.splits)
next
  fix t st and e :: int
  assume "op_rel_ok t" and "valid_state st" and "0 \<le> e"
  then show "op_rel_ok (fst (rel_save operational_rel_repository t st e)) \<and>
      op_rel_view (fst (rel_save operational_rel_repository t st e)) = fst (spec_save (op_rel_view t) st e) \<and>
      snd (rel_save operational_rel_repository t st e) = snd (spec_save (op_rel_view t) st e)"
    using op_rel_save_refines [of t st e] by (simp add: operational_rel_repository_def)
qed (simp add: op_rel_ok_def)

section \<open>Properties\<close>

datatype gate_op =
    GateFailure string string failure_kind datetime
  | GateSuccess string string datetime
  | GatePermission string string operational_status kill_switch datetime

fun gate_clock :: "gate_op \<Rightarrow> datetime" where
  "gate_clock (GateFailure _ _ _ now) = now"
| "gate_clock (GateSuccess _ _ now) = now"
| "gate_clock (GatePermission _ _ _ _ now) = now"

text \<open>One call of the gate service, with the decision it gives, if any.\<close>

fun gate_step ::
  "'s rel_repository \<Rightarrow> breaker_policy \<Rightarrow> 's \<Rightarrow> gate_op \<Rightarrow> 's \<times> (repo_error + provider_state \<times> bool option)"
  where
  "gate_step repo pol s (GateFailure p m k now) =
     (let (s', r) = gate_record_failure repo pol s p m k now in (s', and_then r (\<lambda>x. Inr (x, None))))"
| "gate_step repo pol s (GateSuccess p m now) =
     (let (s', r) = gate_record_success repo s p m now in (s', and_then r (\<lambda>x. Inr (x, None))))"
| "gate_step repo pol s (GatePermission p m status ks now) =
     (let (s', r) = gate_permission repo s p m status ks now
      in (s', and_then r (\<lambda>d. Inr (decision_breaker d, Some (execution_permitted d)))))"

fun gate_run ::
  "'s rel_repository \<Rightarrow> breaker_policy \<Rightarrow> 's \<Rightarrow> gate_op list
     \<Rightarrow> 's \<times> (repo_error + provider_state \<times> bool option) list" where
  "gate_run repo pol s [] = (s, [])"
| "gate_run repo pol s (op # ops) =
     (let (s1, a) = gate_step repo pol s op; (s2, as) = gate_run repo pol s1 ops in (s2, a # as))"

context reliability_repository
begin

lemma gate_step_refines:
  assumes "ok s" and "is_aware (gate_clock op)"
  shows "ok (fst (gate_step repo pol s op)) \<and>
    view (fst (gate_step repo pol s op)) = fst (gate_step spec_rel_repository pol (view s) op) \<and>
    snd (gate_step repo pol s op) = snd (gate_step spec_rel_repository pol (view s) op)"
  using assms failure_refines [OF assms(1)] success_refines [OF assms(1)] permission_refines [OF assms(1)]
  by (cases op) (simp_all add: case_prod_beta Let_def)

lemma gate_run_refines:
  assumes "ok s" and "list_all (is_aware \<circ> gate_clock) ops"
  shows "ok (fst (gate_run repo pol s ops)) \<and>
    view (fst (gate_run repo pol s ops)) = fst (gate_run spec_rel_repository pol (view s) ops) \<and>
    snd (gate_run repo pol s ops) = snd (gate_run spec_rel_repository pol (view s) ops)"
  using assms
proof (induction ops arbitrary: s)
  case Nil
  then show ?case by simp
next
  case (Cons op ops)
  have st: "ok (fst (gate_step repo pol s op))"
    "view (fst (gate_step repo pol s op)) = fst (gate_step spec_rel_repository pol (view s) op)"
    "snd (gate_step repo pol s op) = snd (gate_step spec_rel_repository pol (view s) op)"
    using gate_step_refines [OF Cons.prems(1), of op pol] Cons.prems(2) by simp_all
  show ?case
    using Cons.IH [OF st(1)] Cons.prems(2) st by (simp add: case_prod_beta Let_def)
qed

text \<open>Of two saves of one breaker from the same revision, the second conflicts and changes nothing.\<close>

lemma second_save_conflicts:
  assumes "ok s" and "valid_state a" and "valid_state b" and "0 \<le> e"
    and "ps_provider_id a = ps_provider_id b" and "ps_market a = ps_market b"
    and "snd (rel_save repo s a e) = Inr a'"
  shows "snd (rel_save repo (fst (rel_save repo s a e)) b e) = Inl ReliabilityRevisionConflict \<and>
    view (fst (rel_save repo (fst (rel_save repo s a e)) b e)) = view (fst (rel_save repo s a e)) \<and>
    ps_revision a' = e + 1"
proof -
  note one = save_law [OF assms(1,2,4)]
  then have ok1: "ok (fst (rel_save repo s a e))" by simp
  note two = save_law [OF ok1 assms(3,4)]
  show ?thesis
    using one two assms(5-7) by (auto simp: spec_save_def Let_def revision_at_def split: if_splits)
qed

end

lemma empty_rel [simp]: "mem_rel_ok []" "op_rel_ok []" "op_rel_view [] = dict_get []"
  by (simp_all add: mem_rel_ok_def op_rel_ok_def stored_ok_def op_rel_view_def fun_eq_iff)

text \<open>
  C26: the persisted breaker behaves as the test double.  From empty repositories, any history of
  gate calls with aware clocks gives the same answers (states, decisions and errors) on the
  in-process and on the operational repository, and leaves the same breakers.
\<close>

theorem reliability_repositories_agree:
  assumes "list_all (is_aware \<circ> gate_clock) ops"
  shows "snd (gate_run memory_rel_repository pol [] ops) = snd (gate_run operational_rel_repository pol [] ops) \<and>
    dict_get (fst (gate_run memory_rel_repository pol [] ops)) =
      op_rel_view (fst (gate_run operational_rel_repository pol [] ops))"
  using mem_rel.gate_run_refines [of "[]" ops pol] op_rel.gate_run_refines [of "[]" ops pol] assms by simp

theorem reliability_repositories_agree_witness:
  "snd (gate_run memory_rel_repository default_breaker_policy []
     [GateFailure ''shopify'' ''PH'' TIMEOUT (Aware 1), GateSuccess ''shopify'' ''ph'' (Aware 2)]) =
   snd (gate_run operational_rel_repository default_breaker_policy []
     [GateFailure ''shopify'' ''PH'' TIMEOUT (Aware 1), GateSuccess ''shopify'' ''ph'' (Aware 2)])"
  using reliability_repositories_agree [of
      "[GateFailure ''shopify'' ''PH'' TIMEOUT (Aware 1), GateSuccess ''shopify'' ''ph'' (Aware 2)]"] by simp

text \<open>
  compare-and-swap loses no update.  When two workers computed their states from the same
  revision of one breaker, the first save stores the next revision and the second one raises a
  revision conflict and leaves every row as the first one left it, on both repositories.
\<close>

theorem reliability_cas_no_lost_update:
  assumes "valid_state a" and "valid_state b" and "0 \<le> e"
    and "ps_provider_id a = ps_provider_id b" and "ps_market a = ps_market b"
    and "mem_rel_ok rows" and "op_rel_ok t"
  shows "(\<forall>a'. snd (mem_rel_save rows a e) = Inr a' \<longrightarrow>
      ps_revision a' = e + 1 \<and>
      snd (mem_rel_save (fst (mem_rel_save rows a e)) b e) = Inl ReliabilityRevisionConflict \<and>
      dict_get (fst (mem_rel_save (fst (mem_rel_save rows a e)) b e)) = dict_get (fst (mem_rel_save rows a e))) \<and>
    (\<forall>a'. snd (op_rel_save t a e) = Inr a' \<longrightarrow>
      ps_revision a' = e + 1 \<and>
      snd (op_rel_save (fst (op_rel_save t a e)) b e) = Inl ReliabilityRevisionConflict \<and>
      op_rel_view (fst (op_rel_save (fst (op_rel_save t a e)) b e)) = op_rel_view (fst (op_rel_save t a e)))"
  using mem_rel.second_save_conflicts [OF assms(6) assms(1-5)] op_rel.second_save_conflicts [OF assms(7) assms(1-5)]
  by (simp add: memory_rel_repository_def operational_rel_repository_def)

theorem reliability_cas_no_lost_update_witness:
  "snd (op_rel_save (fst (op_rel_save [] example_closed 0)) example_open 0) = Inl ReliabilityRevisionConflict"
proof -
  have "snd (op_rel_save [] example_closed 0) = Inr (example_closed\<lparr>ps_revision := 1\<rparr>)"
    using op_rel_save_refines [OF empty_rel(2) example_valid, of 0]
    by (simp add: spec_save_def Let_def revision_at_def)
  then show ?thesis
    using reliability_cas_no_lost_update [OF example_valid example_open_valid _ _ _ empty_rel(1,2), of 0]
    by (simp add: example_open_def opened_def no_probe_lease_def)
qed

text \<open>
  no flag overrides the persisted breaker.  A future live attempt is permitted exactly when the
  gate permits it and routing, certification and live mode are all present; otherwise the reason is
  the gate's, or the first missing one in that order; the stored breakers are those the gate left.
\<close>

theorem live_permission_needs_everything:
  assumes "gate_permission operational_rel_repository t p m status ks now = (t', Inr d)"
  shows "\<exists>lp. assess_persisted_live_permission operational_rel_repository t p m status ks now live_mode routing cert =
      (t', Inr lp) \<and>
    (lp_permitted lp \<longleftrightarrow> execution_permitted d \<and> routing \<and> cert \<and> live_mode) \<and>
    lp_block_reason lp = (if \<not> execution_permitted d then block_reason d
      else if \<not> routing then Some ''routing_absent''
      else if \<not> cert then Some ''certification_absent''
      else if \<not> live_mode then Some ''mode_not_live'' else None)"
proof -
  have "(execution_permitted d \<longrightarrow> block_reason d = None) \<and>
      (\<not> execution_permitted d \<longrightarrow> block_reason d \<noteq> None \<and> block_reason d \<noteq> Some [])"
    using assms
    by (auto simp: gate_permission_def check_decision_def assess_execution_permission_def and_then_def
        lift_rel_def split: sum.splits if_splits prod.splits)
  then show ?thesis
    by (cases "execution_permitted d")
      (auto simp: assess_persisted_live_permission_def assms check_live_permission_def Let_def)
qed

theorem live_permission_needs_everything_witness:
  "\<exists>lp. snd (assess_persisted_live_permission operational_rel_repository [] ''shopify'' ''PH'' AVAILABLE
      \<lparr>engaged = False, kill_reason = None\<rparr> (Aware 0) False True True) = Inr lp \<and>
    lp_block_reason lp = Some ''mode_not_live''"
proof -
  have load: "op_rel_load [] ''shopify'' ''PH'' (Aware 0) = Inr example_closed"
    using op_rel.load_law [OF empty_rel(2), of "''shopify''" "''PH''" "Aware 0"] example_built
      record_key_of_ident [OF example_ident]
    by (simp add: operational_rel_repository_def spec_load_def)
  obtain d where d: "gate_permission operational_rel_repository [] ''shopify'' ''PH'' AVAILABLE
      \<lparr>engaged = False, kill_reason = None\<rparr> (Aware 0) = ([], Inr d)" "execution_permitted d"
    using load execution_gate [OF example_valid, of "Aware 0" AVAILABLE "\<lparr>engaged = False, kill_reason = None\<rparr>"]
    by (auto simp: gate_permission_def operational_rel_repository_def advanced_def recovery_due_def example_closed_def)
  show ?thesis
    using live_permission_needs_everything [OF d(1), of False True True] d(2) by auto
qed

end
