(* ===== verification/PlanningFacts.thy ===== *)
theory PlanningFacts
  imports Planning "HOL-Library.Multiset"
begin

text \<open>
  What a plan promises: every step is backed by an available provider and an exact, certified and allowed
  catalog record; planning never raises; a plan is ready exactly when every required capability has
  a step and nothing is blocked; and the choice of a provider depends only on trusted data.
\<close>

section \<open>One capability\<close>

text \<open>What backs a step: the market, the provider, the source and the catalog record.\<close>

definition step_backed ::
  "'f registry \<Rightarrow> cert_catalog \<Rightarrow> trusted_market option \<Rightarrow> string list \<Rightarrow> provider_step \<Rightarrow> bool" where
  "step_backed registry catalog market sources st =
     (\<exists>m d c requested s. market = Some m \<and> d \<in> set (list_providers registry) \<and>
        requested \<in> set (if sources \<noteq> [] then map Some sources else [None]) \<and>
        s \<in> set (sources_to_try d requested) \<and>
        technically_fits d (st_capability st) (tm_country_code m) s \<and>
        cert_lookup catalog (de_provider_id d) (st_capability st) (tm_country_code m) s = Some c \<and>
        cert_is_executable c \<and> \<not> st_attempted st \<and>
        st_provider_id st = de_provider_id d \<and> st_provider_type st = de_provider_type d \<and>
        st_market st = Some (tm_country_code m) \<and> st_source_identities st = step_sources_of requested s \<and>
        st_certification_id st = ct_certification_id c \<and>
        st_certification_version st = ct_certification_version c)"

text \<open>The loop over the requested sources cannot raise; an invariant of its turns holds at the end.\<close>

lemma assign_sources_total:
  assumes "P [] acc" and "\<And>tried a s. s \<in> set ss \<Longrightarrow> P tried a \<Longrightarrow> \<exists>a'. f a s = Inr a' \<and> P (tried @ [s]) a'"
  shows "\<exists>acc'. assign_sources f acc ss = Inr acc' \<and> P ss acc'"
proof -
  have "\<exists>acc'. assign_sources f a ss' = Inr acc' \<and> P (tried @ ss') acc'"
    if "P tried a" "set ss' \<subseteq> set ss" for tried a ss'
    using that
  proof (induction ss' arbitrary: a tried)
    case Nil
    then show ?case by simp
  next
    case (Cons s ss')
    then obtain a' where a': "f a s = Inr a'" "P (tried @ [s]) a'" using assms(2) by fastforce
    then show ?case using Cons.IH [OF a'(2)] Cons.prems(2) by simp
  qed
  from this [of "[]" acc ss] assms(1) show ?thesis by simp
qed

definition source_turns ::
  "'f registry \<Rightarrow> cert_catalog \<Rightarrow> trusted_market option \<Rightarrow> string list \<Rightarrow> research_capability \<Rightarrow> int \<Rightarrow> nat
     \<Rightarrow> provider_step list \<times> blocked_requirement list \<times> provider_eligibility list \<Rightarrow> bool" where
  "source_turns registry catalog market sources c i n acc =
     (case acc of (steps, blocked, audits) \<Rightarrow>
        (\<forall>st\<in>set steps. step_backed registry catalog market sources st \<and> st_capability st = c) \<and>
        (\<forall>b\<in>set blocked. bl_capability b = c) \<and>
        map st_step_index steps = map (\<lambda>k. i + int k) [0..<length steps] \<and>
        length steps + length blocked = n)"

lemma assign_source_turn:
  assumes "source_turns registry catalog (Some m) sources c i n acc" and "1 \<le> i"
    and "requested \<in> set (if sources \<noteq> [] then map Some sources else [None])"
  shows "\<exists>acc'. assign_source registry catalog routing c (tm_country_code m) i acc requested = Inr acc' \<and>
    source_turns registry catalog (Some m) sources c i (Suc n) acc'"
proof -
  obtain steps blocked audits where acc: "acc = (steps, blocked, audits)" by (cases acc) auto
  obtain r source_audits where sel: "select_certified_provider registry catalog routing c
      (Some (tm_country_code m)) requested = (r, source_audits)" by force
  show ?thesis
  proof (cases r)
    case None
    then show ?thesis using assms(1) by (simp add: assign_source_def acc sel source_turns_def)
  next
    case (Some item)
    then obtain d ct s where item: "r = Some (d, ct, s)" by (cases item) auto
    note fits = select_Some [OF sel [unfolded item]]
    define st where "st = \<lparr>st_step_index = i + int (length steps), st_provider_id = de_provider_id d,
      st_provider_type = de_provider_type d, st_capability = c,
      st_source_identities = step_sources_of requested s, st_market = Some (tm_country_code m),
      st_certification_id = ct_certification_id ct, st_certification_version = ct_certification_version ct,
      st_selection_reason = selection_reason source_audits (de_provider_id d) routing, st_attempted = False\<rparr>"
    have "step_backed registry catalog (Some m) sources st"
      unfolding step_backed_def using fits assms(3)
      by (intro exI [of _ m] exI [of _ d] exI [of _ ct] exI [of _ requested] exI [of _ s]) (simp add: st_def)
    moreover have "assign_source registry catalog routing c (tm_country_code m) i acc requested =
        Inr (steps @ [st], blocked, audits @ source_audits)"
      using assms(2) by (simp add: assign_source_def acc sel item check_step_def st_def)
    ultimately show ?thesis using assms(1) by (simp add: source_turns_def acc st_def)
  qed
qed

definition turns_expected :: "trusted_market option \<Rightarrow> string list \<Rightarrow> bool \<Rightarrow> research_capability \<Rightarrow> nat" where
  "turns_expected market sources sensitive c =
     (if sensitive \<and> c \<in> destination_sensitive_capabilities \<or> market = None then 1
      else max 1 (length sources))"

lemma assign_capability_total:
  assumes "1 \<le> i"
  shows "\<exists>acc. assign_capability_step registry catalog routing c market sources i sensitive = Inr acc \<and>
    source_turns registry catalog market sources c i (turns_expected market sources sensitive c) acc"
proof (cases "sensitive \<and> c \<in> destination_sensitive_capabilities \<or> market = None")
  case True
  then show ?thesis
    by (cases market) (auto simp: assign_capability_step_def source_turns_def turns_expected_def)
next
  case False
  then obtain m where m: "market = Some m" by auto
  define ss where "ss = (if sources \<noteq> [] then map Some sources else [None])"
  have "\<exists>acc. assign_sources (assign_source registry catalog routing c (tm_country_code m) i) ([], [], []) ss
      = Inr acc \<and> source_turns registry catalog market sources c i (length ss) acc"
  proof (rule assign_sources_total [where P = "\<lambda>tried :: string option list. source_turns registry catalog market sources c i (length tried)"])
    show "source_turns registry catalog market sources c i (length []) ([], [], [])"
      by (simp add: source_turns_def)
    fix tried :: "string option list" and a s
    assume "s \<in> set ss" and "source_turns registry catalog market sources c i (length tried) a"
    then show "\<exists>a'. assign_source registry catalog routing c (tm_country_code m) i a s = Inr a' \<and>
        source_turns registry catalog market sources c i (length (tried @ [s])) a'"
      using assign_source_turn [OF _ assms] by (simp add: m ss_def)
  qed
  moreover have "length ss = turns_expected market sources sensitive c"
    using False by (cases sources) (auto simp: ss_def turns_expected_def)
  moreover have "\<not> (sensitive \<and> c \<in> destination_sensitive_capabilities)" using False by simp
  ultimately show ?thesis by (simp only: assign_capability_step_def m ss_def if_False option.case)
qed

section \<open>All capabilities\<close>

definition of_capability :: "('b \<Rightarrow> research_capability) \<Rightarrow> research_capability \<Rightarrow> 'b list \<Rightarrow> nat" where
  "of_capability cap c xs = length (filter (\<lambda>x. cap x = c) xs)"

lemma of_capability_simps [simp]:
  "of_capability cap c (xs @ ys) = of_capability cap c xs + of_capability cap c ys"
  "\<forall>x\<in>set xs. cap x = c \<Longrightarrow> of_capability cap c xs = length xs"
  "c \<notin> cap ` set xs \<Longrightarrow> of_capability cap c xs = 0"
  by (auto simp: of_capability_def filter_empty_conv image_iff)

definition plan_rows ::
  "'f registry \<Rightarrow> cert_catalog \<Rightarrow> trusted_market option \<Rightarrow> string list \<Rightarrow> bool \<Rightarrow> int \<Rightarrow> research_capability list
     \<Rightarrow> provider_step list \<Rightarrow> blocked_requirement list \<Rightarrow> bool" where
  "plan_rows registry catalog market sources sensitive i cs steps blocked =
     ((\<forall>st\<in>set steps. step_backed registry catalog market sources st \<and> st_capability st \<in> set cs \<and>
         i \<le> st_step_index st) \<and>
      (\<forall>b\<in>set blocked. bl_capability b \<in> set cs) \<and>
      sorted_wrt (<) (map st_step_index steps) \<and>
      (\<forall>c\<in>set cs. of_capability st_capability c steps + of_capability bl_capability c blocked =
         turns_expected market sources sensitive c))"

lemma plan_rows_Cons:
  assumes "source_turns registry catalog market sources c i (turns_expected market sources sensitive c)
      (steps, blocked, audits)"
    and "plan_rows registry catalog market sources sensitive (i + max (int (length steps)) 1) cs steps' blocked'"
    and "c \<notin> set cs"
  shows "plan_rows registry catalog market sources sensitive i (c # cs) (steps @ steps') (blocked @ blocked')"
proof -
  have one: "\<forall>st\<in>set steps. step_backed registry catalog market sources st \<and> st_capability st = c"
    "\<forall>b\<in>set blocked. bl_capability b = c"
    "map st_step_index steps = map (\<lambda>k. i + int k) [0..<length steps]"
    "length steps + length blocked = turns_expected market sources sensitive c"
    using assms(1) by (simp_all add: source_turns_def)
  have idx: "st_step_index st \<in> {i..<i + int (length steps)}" if "st \<in> set steps" for st
  proof -
    have "st_step_index st \<in> set (map st_step_index steps)" using that by simp
    then show ?thesis unfolding one(3) by auto
  qed
  have incr: "sorted_wrt (<) (map st_step_index steps)"
    unfolding one(3) by (simp add: sorted_wrt_map sorted_wrt_iff_nth_less)
  have rest: "\<forall>st\<in>set steps'. step_backed registry catalog market sources st \<and> st_capability st \<in> set cs \<and>
      i + max (int (length steps)) 1 \<le> st_step_index st"
    "\<forall>b\<in>set blocked'. bl_capability b \<in> set cs" "sorted_wrt (<) (map st_step_index steps')"
    "\<forall>c\<in>set cs. of_capability st_capability c steps' + of_capability bl_capability c blocked' =
       turns_expected market sources sensitive c"
    using assms(2) by (simp_all add: plan_rows_def)
  have "\<forall>x\<in>set (map st_step_index steps). \<forall>y\<in>set (map st_step_index steps'). x < y"
    using idx rest(1) by fastforce
  then have "sorted_wrt (<) (map st_step_index (steps @ steps'))"
    using incr rest(3) by (simp add: sorted_wrt_append)
  moreover have "of_capability st_capability x (steps @ steps') + of_capability bl_capability x (blocked @ blocked') =
      turns_expected market sources sensitive x" if x: "x \<in> set (c # cs)" for x
  proof (cases "x = c")
    case True
    have "c \<notin> st_capability ` set steps'" "c \<notin> bl_capability ` set blocked'"
      using rest(1,2) assms(3) by auto
    then show ?thesis using one True by simp
  next
    case False
    then have "x \<notin> st_capability ` set steps" "x \<notin> bl_capability ` set blocked" "x \<in> set cs"
      using one(1,2) x by auto
    then show ?thesis using rest(4) by simp
  qed
  moreover have "\<forall>st\<in>set (steps @ steps'). step_backed registry catalog market sources st \<and>
      st_capability st \<in> set (c # cs) \<and> i \<le> st_step_index st"
    using one(1) rest(1) idx by fastforce
  moreover have "\<forall>b\<in>set (blocked @ blocked'). bl_capability b \<in> set (c # cs)"
    using one(2) rest(2) by auto
  ultimately show ?thesis unfolding plan_rows_def by blast
qed

lemma assign_capabilities_total:
  assumes "1 \<le> i" and "distinct cs"
  shows "\<exists>steps' blocked' audits' i'.
    assign_capabilities (\<lambda>c k. assign_capability_step registry catalog routing c market sources k sensitive)
      (steps, blocked, audits, i) cs = Inr (steps @ steps', blocked @ blocked', audits @ audits', i') \<and>
    plan_rows registry catalog market sources sensitive i cs steps' blocked'"
  using assms
proof (induction cs arbitrary: steps blocked audits i)
  case Nil
  then show ?case by (simp add: plan_rows_def)
next
  case (Cons c cs)
  obtain s1 b1 a1 where one: "assign_capability_step registry catalog routing c market sources i sensitive =
      Inr (s1, b1, a1)"
    "source_turns registry catalog market sources c i (turns_expected market sources sensitive c) (s1, b1, a1)"
    using assign_capability_total [OF Cons.prems(1), of registry catalog routing c market sources sensitive] by auto
  have "1 \<le> i + max (int (length s1)) 1" "distinct cs" using Cons.prems by auto
  from Cons.IH [OF this, of "steps @ s1" "blocked @ b1" "audits @ a1"]
  obtain s2 b2 a2 i2 where two: "assign_capabilities
      (\<lambda>c k. assign_capability_step registry catalog routing c market sources k sensitive)
      (steps @ s1, blocked @ b1, audits @ a1, i + max (int (length s1)) 1) cs =
      Inr ((steps @ s1) @ s2, (blocked @ b1) @ b2, (audits @ a1) @ a2, i2)"
    "plan_rows registry catalog market sources sensitive (i + max (int (length s1)) 1) cs s2 b2" by blast
  show ?case
    using plan_rows_Cons [OF one(2) two(2)] Cons.prems(2) one(1) two(1)
    by (intro exI [of _ "s1 @ s2"] exI [of _ "b1 @ b2"] exI [of _ "a1 @ a2"] exI [of _ i2]) simp
qed

section \<open>The plan\<close>

definition is_sensitive :: "execution_request \<Rightarrow> bool" where
  "is_sensitive request =
     (\<not> blank (fs_destination_label (er_scope request)) \<or> fs_reason (er_scope request) = ReevaluationRequired)"

lemma derive_distinct: "distinct (derive_required_capabilities scope)"
  by (simp add: derive_required_capabilities_def dedupe_def dedupe_from_distinct Let_def)

text \<open>Ready means: every required capability has a step, and nothing is blocked.\<close>

lemma support_ready_iff:
  assumes "plan_rows registry catalog market sources sensitive i required steps blocked"
  shows "support_status required steps blocked sensitive' market reason = ''ready'' \<longleftrightarrow>
    required \<noteq> [] \<and> blocked = [] \<and> set required = st_capability ` set steps"
proof -
  have caps: "st_capability ` set steps \<subseteq> set required" "bl_capability ` set blocked \<subseteq> set required"
    using assms by (auto simp: plan_rows_def)
  define missing where "missing = filter (\<lambda>c. c \<notin> set (map st_capability steps) - set (map bl_capability blocked)) required"
  have "support_status required steps blocked sensitive' market reason = ''ready'' \<longleftrightarrow>
      required \<noteq> [] \<and> missing = []"
    unfolding support_status_def Let_def missing_def [symmetric] by auto
  moreover have "missing = [] \<longleftrightarrow> blocked = [] \<and> set required = st_capability ` set steps"
    using caps by (cases blocked) (auto simp: missing_def filter_empty_conv)
  ultimately show ?thesis by blast
qed

lemma build_execution_plan_total:
  fixes registry :: "'f registry"
  shows "\<exists>plan. build_execution_plan request registry catalog routing = Inr plan \<and>
    plan_rows registry catalog (er_market request) (fs_requested_sources (er_scope request))
      (is_sensitive request) 1 (derive_required_capabilities (er_scope request))
      (pn_eligible_steps plan) (pn_blocked_requirements plan) \<and>
    pn_required_capabilities plan = derive_required_capabilities (er_scope request) \<and>
    pn_market plan = er_market request \<and>
    pn_support_status plan = support_status (pn_required_capabilities plan) (pn_eligible_steps plan)
      (pn_blocked_requirements plan) (is_sensitive request) (er_market request) (fs_reason (er_scope request)) \<and>
    pn_plan_ready plan = (pn_support_status plan = ''ready'') \<and>
    pn_authorization_id plan = er_authorization_id request \<and> pn_scope_digest plan = er_scope_digest request \<and>
    (\<exists>i. assign_capabilities (\<lambda>c k. assign_capability_step registry catalog routing c (er_market request)
       (fs_requested_sources (er_scope request)) k (is_sensitive request)) ([], [], [], 1)
       (derive_required_capabilities (er_scope request)) =
       Inr (pn_eligible_steps plan, pn_blocked_requirements plan, pn_eligibility_audit plan, i))"
proof -
  define required where "required = derive_required_capabilities (er_scope request)"
  define sensitive where "sensitive = is_sensitive request"
  obtain steps blocked audits i where parts: "assign_capabilities
      (\<lambda>c k. assign_capability_step registry catalog routing c (er_market request)
         (fs_requested_sources (er_scope request)) k sensitive) ([], [], [], 1) required =
      Inr (steps, blocked, audits, i)"
    "plan_rows registry catalog (er_market request) (fs_requested_sources (er_scope request)) sensitive 1
       required steps blocked"
    using assign_capabilities_total [where steps = "[]" and blocked = "[]" and audits = "[]" and i = 1
        and cs = required and registry = registry and catalog = catalog and routing = routing
        and market = "er_market request" and sources = "fs_requested_sources (er_scope request)"
        and sensitive = sensitive]
    by (auto simp: required_def derive_distinct)
  define status where "status = support_status required steps blocked sensitive (er_market request)
      (fs_reason (er_scope request))"
  have ready: "status = ''ready'' \<longleftrightarrow>
      required \<noteq> [] \<and> blocked = [] \<and> set required = st_capability ` set steps"
    unfolding status_def by (rule support_ready_iff [OF parts(2)])
  define digest where "digest = research_plan_digest request required steps blocked status
      (registry_fingerprint registry) (cert_fingerprint catalog) (routing_fingerprint routing)"
  define plan where "plan = \<lparr>pn_plan_id = ''research-plan:'' @ digest, pn_plan_version = 1,
      pn_authorization_id = er_authorization_id request,
      pn_authorization_version = er_authorization_version request, pn_decision_id = er_decision_id request,
      pn_context_version = er_context_version request, pn_conversation_id = er_conversation_id request,
      pn_proposal_id = er_proposal_id request, pn_proposal_version = er_proposal_version request,
      pn_scope_digest = er_scope_digest request, pn_required_capabilities = required,
      pn_eligible_steps = steps, pn_blocked_requirements = blocked, pn_eligibility_audit = audits,
      pn_support_status = status, pn_plan_digest = digest,
      pn_outside_set_product_names = fs_outside_set_product_names (er_scope request),
      pn_requested_sources = fs_requested_sources (er_scope request), pn_market = er_market request,
      pn_execution_available = False, pn_execution_implemented = False, pn_plan_ready = (status = ''ready''),
      pn_source_checked = False, pn_attempted = False\<rparr>"
  have "build_execution_plan request registry catalog routing =
      and_then (check_plan plan) (\<lambda>p. and_then (empty_execution_trace (pn_plan_id p)) (\<lambda>_. Inr p))"
    unfolding build_execution_plan_def Let_def destination_sensitive_required_def plan_def digest_def status_def
      required_def sensitive_def is_sensitive_def
    by (simp only: parts(1) [unfolded required_def sensitive_def is_sensitive_def] and_then_simps prod.case)
  moreover have "check_plan plan = Inr plan"
    using ready by (auto simp: check_plan_def plan_def digest_def research_plan_digest_def)
  moreover have "\<exists>t. empty_execution_trace (pn_plan_id plan) = Inr t"
    by (simp add: empty_execution_trace_def check_trace_def)
  ultimately have "build_execution_plan request registry catalog routing = Inr plan" by auto
  then show ?thesis
    using parts by (simp add: plan_def required_def status_def sensitive_def)
qed

lemma executable_drop: "executable_for a o' c d v p e ep epv \<Longrightarrow> executable_for a o' c d v p e None None"
  by (simp add: executable_for_def)

definition request_of :: "research_authorization \<Rightarrow> trusted_market option \<Rightarrow> execution_request" where
  "request_of a market =
     \<lparr>er_execution_request_id = ''research-exec-req:'' @ stable_sha256 (JObj
        [(''kind'', JStr ''research_execution_request_v1''), (''authorization_id'', JStr (ra_id a)),
         (''authorization_version'', JInt (ra_version a)), (''scope_digest'', JStr (ra_scope_digest a))]),
      er_execution_request_version = 1, er_authorization_id = ra_id a, er_authorization_version = ra_version a,
      er_decision_id = ra_decision_id a, er_context_version = ra_context_version a,
      er_conversation_id = ra_conversation_id a, er_proposal_id = ra_proposal_id a,
      er_proposal_version = ra_proposal_version a, er_scope = ra_scope a, er_scope_digest = ra_scope_digest a,
      er_idempotency_key = ra_idempotency_key a, er_market = market\<rparr>"

lemma request_from_handoff:
  "valid_authorization a \<Longrightarrow> execution_request_from_handoff (handoff_of a) market = Inr (request_of a market)"
  by (auto simp: execution_request_from_handoff_def handoff_of_def request_of_def check_request_def Let_def
      valid_authorization_def check_authorization_def split: if_split_asm)

lemma plan_authorized_unfold:
  assumes "valid_authorization a" and "ra_owner_binding a = owner_binding_digest o'"
  shows "\<exists>r. plan_authorized_research (Some a) o' c d v registry catalog routing market p e ep epv = Inr r \<and>
    (pl_planned r \<longleftrightarrow> executable_for a o' c d v p e ep epv) \<and>
    (case pl_plan r of
       None \<Rightarrow> \<not> pl_planned r
     | Some plan \<Rightarrow> pl_planned r \<and> pl_reason r = pn_support_status plan \<and>
         build_execution_plan (request_of a market) registry catalog routing = Inr plan)"
proof -
  have "\<exists>w. validate_research_authorization_for_execution (Some a) o' c d v p e ep epv = Inr w"
    using assms(2) by (simp add: validate_research_authorization_for_execution_def)
  then obtain w where w: "validate_research_authorization_for_execution (Some a) o' c d v p e ep epv = Inr w" ..
  then have valid: "av_valid w \<longleftrightarrow> executable_for a o' c d v p e ep epv"
    using validation_valid_iff [of a o' c d v p e ep epv] by simp
  show ?thesis
  proof (cases "av_valid w")
    case False
    then show ?thesis
      using valid by (simp add: plan_authorized_research_def w check_planning_result_def)
  next
    case True
    then have "executable_for a o' c d v p e None None" using valid executable_drop by blast
    then have h: "get_authorized_research_handoff (Some a) o' c d v p e = Inr (Some (handoff_of a))"
      by (simp add: handoff_iff)
    obtain plan where "build_execution_plan (request_of a market) registry catalog routing = Inr plan"
      using build_execution_plan_total by blast
    then show ?thesis
      using True valid
      by (simp add: plan_authorized_research_def w h request_from_handoff [OF assms(1)] check_planning_result_def)
  qed
qed

section \<open>Properties\<close>

text \<open>
  C20: a valid authorization always gets an answer, and the plan it gets is complete.  For the owner it
  is bound to, planning never raises; it plans exactly when the authorization may be executed; and the plan
  carries the authorization's own identity and scope, numbers its steps strictly upwards, accounts for every
  requested source of every required capability by one step or one blocked requirement, and is ready
  exactly when something is required, every required capability has a step and nothing is blocked.
\<close>

theorem planning_total:
  assumes "valid_authorization a" and "ra_owner_binding a = owner_binding_digest o'"
  shows "\<exists>r. plan_authorized_research (Some a) o' c d v registry catalog routing market p e ep epv = Inr r \<and>
    (pl_planned r \<longleftrightarrow> executable_for a o' c d v p e ep epv) \<and> (pl_planned r \<longleftrightarrow> pl_plan r \<noteq> None) \<and>
    (\<forall>plan. pl_plan r = Some plan \<longrightarrow>
       pl_reason r = pn_support_status plan \<and> pn_authorization_id plan = ra_id a \<and>
       pn_scope_digest plan = ra_scope_digest a \<and> pn_market plan = market \<and>
       pn_required_capabilities plan = derive_required_capabilities (ra_scope a) \<and>
       sorted_wrt (<) (map st_step_index (pn_eligible_steps plan)) \<and>
       (\<forall>cap\<in>set (pn_required_capabilities plan).
          of_capability st_capability cap (pn_eligible_steps plan) +
          of_capability bl_capability cap (pn_blocked_requirements plan) =
          turns_expected market (fs_requested_sources (ra_scope a)) (is_sensitive (request_of a market)) cap) \<and>
       (pn_plan_ready plan \<longleftrightarrow> pn_required_capabilities plan \<noteq> [] \<and> pn_blocked_requirements plan = [] \<and>
          set (pn_required_capabilities plan) = st_capability ` set (pn_eligible_steps plan)))"
proof -
  obtain r where r: "plan_authorized_research (Some a) o' c d v registry catalog routing market p e ep epv = Inr r"
    "pl_planned r \<longleftrightarrow> executable_for a o' c d v p e ep epv"
    "case pl_plan r of None \<Rightarrow> \<not> pl_planned r
     | Some plan \<Rightarrow> pl_planned r \<and> pl_reason r = pn_support_status plan \<and>
         build_execution_plan (request_of a market) registry catalog routing = Inr plan"
    using plan_authorized_unfold [OF assms] by blast
  have fields: "er_scope (request_of a market) = ra_scope a" "er_market (request_of a market) = market"
    "er_authorization_id (request_of a market) = ra_id a"
    "er_scope_digest (request_of a market) = ra_scope_digest a"
    by (simp_all add: request_of_def)
  obtain b where b: "build_execution_plan (request_of a market) registry catalog routing = Inr b"
    and rows: "plan_rows registry catalog market (fs_requested_sources (ra_scope a))
      (is_sensitive (request_of a market)) 1 (derive_required_capabilities (ra_scope a))
      (pn_eligible_steps b) (pn_blocked_requirements b)"
    and req: "pn_required_capabilities b = derive_required_capabilities (ra_scope a)" "pn_market b = market"
    "pn_plan_ready b = (support_status (pn_required_capabilities b) (pn_eligible_steps b)
      (pn_blocked_requirements b) (is_sensitive (request_of a market)) market (fs_reason (ra_scope a)) = ''ready'')"
    "pn_authorization_id b = ra_id a" "pn_scope_digest b = ra_scope_digest a"
    using build_execution_plan_total [of "request_of a market" registry catalog routing]
    unfolding fields by (elim exE conjE) (rule that, assumption+, simp_all only:)
  have ready: "pn_plan_ready b \<longleftrightarrow> pn_required_capabilities b \<noteq> [] \<and> pn_blocked_requirements b = [] \<and>
      set (pn_required_capabilities b) = st_capability ` set (pn_eligible_steps b)"
    unfolding req(1,3) by (rule support_ready_iff [OF rows])
  have plan: "pl_plan r = Some x \<Longrightarrow> pl_planned r \<and> pl_reason r = pn_support_status b \<and> x = b" for x
    using r(3) b by simp
  have flag: "pl_planned r \<longleftrightarrow> pl_plan r \<noteq> None" using r(3) by (cases "pl_plan r") simp_all
  show ?thesis
  proof (intro exI [of _ r] conjI allI)
    fix x
    show "pl_plan r = Some x \<longrightarrow> pl_reason r = pn_support_status x \<and> pn_authorization_id x = ra_id a \<and>
       pn_scope_digest x = ra_scope_digest a \<and> pn_market x = market \<and>
       pn_required_capabilities x = derive_required_capabilities (ra_scope a) \<and>
       sorted_wrt (<) (map st_step_index (pn_eligible_steps x)) \<and>
       (\<forall>cap\<in>set (pn_required_capabilities x).
          of_capability st_capability cap (pn_eligible_steps x) +
          of_capability bl_capability cap (pn_blocked_requirements x) =
          turns_expected market (fs_requested_sources (ra_scope a)) (is_sensitive (request_of a market)) cap) \<and>
       (pn_plan_ready x \<longleftrightarrow> pn_required_capabilities x \<noteq> [] \<and> pn_blocked_requirements x = [] \<and>
          set (pn_required_capabilities x) = st_capability ` set (pn_eligible_steps x))" (is "_ \<longrightarrow> ?P x")
    proof
      assume "pl_plan r = Some x"
      from plan [OF this] have x: "pl_reason r = pn_support_status x" "x = b" by simp_all
      show "?P x" using x(1) rows req(1,2,4,5) ready unfolding plan_rows_def x(2) by simp
    qed
  qed (rule r flag)+
qed

theorem planning_total_witness:
  "\<exists>r. plan_authorized_research (Some example_authorization) example_owner ''conv'' ''dec'' 1
      (\<lparr>rg_allow_test_providers = False, rg_providers = []\<rparr> :: int registry)
      \<lparr>cc_allow_test_certifications = False, cc_records = []\<rparr> \<lparr>rc_allow_test_policies = False, rc_records = []\<rparr>
      None (Some example_proposal) None None None = Inr r \<and> pl_planned r"
proof -
  have "executable_for example_authorization example_owner ''conv'' ''dec'' 1 (Some example_proposal) None None None"
    by (simp add: executable_for_def example_authorization_def fresh_authorization_def example_proposal_def)
  then show ?thesis
    using planning_total [OF example_auth_valid, of example_owner "''conv''" "''dec''" "1"
        "\<lparr>rg_allow_test_providers = False, rg_providers = []\<rparr> :: int registry"
        "\<lparr>cc_allow_test_certifications = False, cc_records = []\<rparr>"
        "\<lparr>rc_allow_test_policies = False, rc_records = []\<rparr>" None "Some example_proposal" None None None]
    by (auto simp: example_authorization_def fresh_authorization_def)
qed

text \<open>
  C19: nothing is planned that is not certified.  Every step of a plan names a registered provider that is
  available, not stopped and not behind an open breaker, supports the capability in the request's market and
  from the source; a source the caller asked for, where it asked for any; and the one record the catalog
  holds for exactly that target, which is certified and allowed.  No step is marked as attempted.
\<close>

theorem plan_steps_certified:
  assumes "build_execution_plan request registry catalog routing = Inr plan"
    and "st \<in> set (pn_eligible_steps plan)"
  shows "\<exists>m d c requested s. er_market request = Some m \<and> d \<in> set (list_providers registry) \<and>
    st_provider_id st = de_provider_id d \<and> is_operationally_available_descriptor d \<and>
    st_capability st \<in> set (de_supported_capabilities d) \<and> tm_country_code m \<in> set (de_supported_markets d) \<and>
    (\<forall>x. s = Some x \<longrightarrow> x \<in> set (de_supported_sources d)) \<and>
    (if fs_requested_sources (er_scope request) = [] then requested = None
     else requested \<in> Some ` set (fs_requested_sources (er_scope request))) \<and>
    (requested = None \<or> s = requested) \<and> st_source_identities st = step_sources_of requested s \<and>
    st_market st = Some (tm_country_code m) \<and>
    cert_lookup catalog (de_provider_id d) (st_capability st) (tm_country_code m) s = Some c \<and>
    ct_status c = Certified \<and> ct_policy c = Allowed \<and>
    st_certification_id st = ct_certification_id c \<and>
    st_certification_version st = ct_certification_version c \<and> \<not> st_attempted st"
proof -
  have "step_backed registry catalog (er_market request) (fs_requested_sources (er_scope request)) st"
    using build_execution_plan_total [of request registry catalog routing] assms by (auto simp: plan_rows_def)
  then obtain m d c requested s where backed: "er_market request = Some m" "d \<in> set (list_providers registry)"
    "requested \<in> set (if fs_requested_sources (er_scope request) \<noteq> []
       then map Some (fs_requested_sources (er_scope request)) else [None])"
    "s \<in> set (sources_to_try d requested)" "technically_fits d (st_capability st) (tm_country_code m) s"
    "cert_lookup catalog (de_provider_id d) (st_capability st) (tm_country_code m) s = Some c"
    "cert_is_executable c" "\<not> st_attempted st" "st_provider_id st = de_provider_id d"
    "st_market st = Some (tm_country_code m)" "st_source_identities st = step_sources_of requested s"
    "st_certification_id st = ct_certification_id c" "st_certification_version st = ct_certification_version c"
    unfolding step_backed_def by blast
  have "requested = None \<or> s = requested" using backed(4) by (cases requested) (auto simp: sources_to_try_def)
  then show ?thesis
    using backed
    by (intro exI [of _ m] exI [of _ d] exI [of _ c] exI [of _ requested] exI [of _ s])
      (auto simp: technically_fits_def cert_is_executable_def)
qed

section \<open>Selection depends on trusted data only\<close>

text \<open>A descriptor without its commission rate.\<close>

definition strip_rate :: "'f descriptor \<Rightarrow> 'f descriptor" where
  "strip_rate d = d\<lparr>de_affiliate_commission_rate := None\<rparr>"

lemma strip_rate_fields [simp]:
  "de_provider_id (strip_rate d) = de_provider_id d"
  "de_supported_capabilities (strip_rate d) = de_supported_capabilities d"
  "de_supported_markets (strip_rate d) = de_supported_markets d"
  "de_supported_sources (strip_rate d) = de_supported_sources d"
  "de_kill_switch (strip_rate d) = de_kill_switch d"
  "de_breaker_state (strip_rate d) = de_breaker_state d"
  "de_operational_status (strip_rate d) = de_operational_status d"
  by (simp_all add: strip_rate_def)

lemma strip_rate_simps [simp]:
  "technical_ineligibility_reasons (strip_rate d) c m s = technical_ineligibility_reasons d c m s"
  "sources_to_try (strip_rate d) s = sources_to_try d s"
  unfolding technical_ineligibility_reasons_def sources_to_try_def is_operationally_available_descriptor_def
    strip_rate_fields by (rule refl)+

lemma evaluate_strip [simp]: "evaluate_provider (strip_rate d) catalog c m s = evaluate_provider d catalog c m s"
  unfolding evaluate_provider_def provider_supports_def strip_rate_simps strip_rate_fields by (rule refl)

abbreviation strip_item :: "'f descriptor \<times> 'a \<times> 'b \<Rightarrow> 'f descriptor \<times> 'a \<times> 'b" where
  "strip_item \<equiv> \<lambda>(d, x). (strip_rate d, x)"

lemma match_strip:
  "match_of catalog c m (strip_rate d) s = map_option strip_item (match_of catalog c m d s)"
  by (simp split: prod.split option.split)

lemma turn_strip:
  "snd (try_provider catalog c m s (strip_rate d)) = map_option strip_item (snd (try_provider catalog c m s d))"
proof -
  have "match_of catalog c m (strip_rate d) = (\<lambda>s. map_option strip_item (match_of catalog c m d s))"
    by (rule ext) (rule match_strip)
  then show ?thesis by (simp only: try_provider_form snd_conv strip_rate_simps first_some_map)
qed

lemma map_filter_option: "List.map_filter (\<lambda>x. map_option g (f x)) xs = map g (List.map_filter f xs)"
  by (induction xs) (simp_all add: List.map_filter_simps split: option.split)

lemma eligible_strip:
  "eligible_items catalog c m s (map strip_rate ds) = map strip_item (eligible_items catalog c m s ds)"
  by (simp add: eligible_items_def map_filter_map turn_strip map_filter_option)

lemma map_insort_key: "map f (insort_key (\<lambda>x. k (f x)) x xs) = insort_key k (f x) (map f xs)"
  by (induction xs) simp_all

lemma map_sort_key: "map f (sort_key (\<lambda>x. k (f x)) xs) = sort_key k (map f xs)"
  by (induction xs) (simp_all add: map_insort_key)

lemma sort_strip:
  "sort_key (\<lambda>item. routing_sort_key routing (de_provider_id (fst item))) (map strip_item xs) =
     map strip_item (sort_key (\<lambda>item. routing_sort_key routing (de_provider_id (fst item))) xs)"
  unfolding map_sort_key [symmetric] by (simp add: case_prod_beta)

lemma select_strip:
  "map_option strip_item (fst (select_certified_provider registry catalog routing c m s)) =
     (case sort_key (\<lambda>item. routing_sort_key routing (de_provider_id (fst item)))
             (eligible_items catalog c m s (map strip_rate (list_providers registry))) of
        [] \<Rightarrow> None | x # _ \<Rightarrow> Some x)"
  unfolding select_form eligible_strip sort_strip
  by (cases "sort_key (\<lambda>item. routing_sort_key routing (de_provider_id (fst item)))
      (eligible_items catalog c m s (list_providers registry))") simp_all

lemma map_filter_perm: "mset xs = mset ys \<Longrightarrow> mset (List.map_filter f xs) = mset (List.map_filter f ys)"
  by (simp add: List.map_filter_def)

lemma map_filter_member: "z \<in> set (List.map_filter f xs) \<longleftrightarrow> (\<exists>x\<in>set xs. f x = Some z)"
  by (induction xs) (auto simp: List.map_filter_simps split: option.split)

lemma match_item: "match_of catalog c m d s = Some x \<Longrightarrow> fst x = d"
  by (auto split: prod.splits option.splits if_split_asm)

lemma eligible_keys:
  assumes "distinct (map de_provider_id ds)"
  shows "inj_on (\<lambda>item. routing_sort_key routing (de_provider_id (fst item))) (set (eligible_items catalog c m s ds))"
proof (rule inj_onI)
  fix x y
  assume x: "x \<in> set (eligible_items catalog c m s ds)" and y: "y \<in> set (eligible_items catalog c m s ds)"
    and "routing_sort_key routing (de_provider_id (fst x)) = routing_sort_key routing (de_provider_id (fst y))"
  then have id: "de_provider_id (fst x) = de_provider_id (fst y)"
    by (auto simp: routing_sort_key_def split: option.splits)
  have item: "fst z \<in> set ds \<and> first_some (match_of catalog c m (fst z)) (sources_to_try (fst z) s) = Some z"
    if z: "z \<in> set (eligible_items catalog c m s ds)" for z
  proof -
    obtain d where "d \<in> set ds" "snd (try_provider catalog c m s d) = Some z"
      using z unfolding eligible_items_def map_filter_member by blast
    then have d: "d \<in> set ds" "first_some (match_of catalog c m d) (sources_to_try d s) = Some z"
      by (simp_all only: try_provider_form snd_conv)
    from first_some_Some [OF d(2)] obtain s' where "match_of catalog c m d s' = Some z" by blast
    then have "fst z = d" by (rule match_item)
    show ?thesis unfolding \<open>fst z = d\<close> using d by (rule conjI)
  qed
  have "fst x \<in> set ds" "fst y \<in> set ds" using item [OF x] item [OF y] by blast+
  then have eq: "fst x = fst y" using id assms by (auto simp: distinct_map dest: inj_onD)
  have "Some x = Some y"
    by (rule trans [OF sym [OF conjunct2 [OF item [OF x], unfolded eq]] conjunct2 [OF item [OF y]]])
  then show "x = y" by simp
qed

text \<open>
  money and registration order decide nothing.  Two registries that hold the same providers, in any
  order and with any commission rates, choose the same provider, catalog record and source for every
  capability, market and requested source.
\<close>

theorem selection_trusted_only:
  assumes "distinct (map de_provider_id (list_providers r1))"
    and "mset (map strip_rate (list_providers r1)) = mset (map strip_rate (list_providers r2))"
  shows "map_option strip_item (fst (select_certified_provider r1 catalog routing c m s)) =
    map_option strip_item (fst (select_certified_provider r2 catalog routing c m s))"
proof -
  let ?k = "\<lambda>item. routing_sort_key routing (de_provider_id (fst item))"
  let ?e = "\<lambda>r. eligible_items catalog c m s (map strip_rate (list_providers r))"
  have "mset (?e r1) = mset (?e r2)"
    unfolding eligible_items_def by (rule map_filter_perm [OF assms(2)])
  moreover have "distinct (map de_provider_id (map strip_rate (list_providers r1)))"
    using assms(1) by (simp add: comp_def)
  then have "inj_on ?k (set (?e r1))" by (rule eligible_keys)
  ultimately have "sort_key ?k (?e r1) = sort_key ?k (?e r2)" by (rule sort_key_eq_sort_key)
  then show ?thesis by (simp add: select_strip)
qed

section \<open>The certification catalog\<close>

lemma capability_value_inj [simp]: "capability_value a = capability_value b \<longleftrightarrow> a = b"
  by (cases a; cases b) simp_all

definition cert_target :: "certification \<Rightarrow> string \<times> research_capability \<times> string \<times> string option" where
  "cert_target r = (ct_provider_id r, ct_capability r, ct_market r, ct_source r)"

lemma certification_key:
  assumes "check_certification q = Inr q"
  shows "cert_lookup_key q = target_lookup_key p c m s \<longleftrightarrow> cert_target q = (p, c, m, s)"
proof -
  have "source_matches_scope (ct_source q) (ct_source_scope q)"
    using assms by (auto simp: check_certification_def and_then_Inr_iff split: if_split_asm)
  then show ?thesis
    by (cases s; cases "ct_source q"; cases "ct_source_scope q")
      (auto simp: cert_lookup_key_def target_lookup_key_def cert_target_def source_matches_scope_def
        source_or_empty_def blank_def)
qed

lemma valid_keys:
  assumes "check_certification q = Inr q" and "check_certification r = Inr r"
  shows "cert_lookup_key q = cert_lookup_key r \<longleftrightarrow> cert_target q = cert_target r"
proof -
  have "source_matches_scope (ct_source r) (ct_source_scope r)"
    using assms(2) by (auto simp: check_certification_def and_then_Inr_iff split: if_split_asm)
  then have "cert_lookup_key r = target_lookup_key (ct_provider_id r) (ct_capability r) (ct_market r) (ct_source r)"
    by (cases "ct_source r"; cases "ct_source_scope r")
      (auto simp: cert_lookup_key_def target_lookup_key_def source_matches_scope_def source_or_empty_def blank_def)
  then show ?thesis using certification_key [OF assms(1)] by (simp add: cert_target_def)
qed

lemma distinct_targets:
  "\<forall>q\<in>set rs. check_certification q = Inr q \<Longrightarrow>
   distinct (map cert_lookup_key rs) = distinct (map cert_target rs)"
  by (induction rs) (auto simp: valid_keys image_iff)

text \<open>
  certifications are exact.  A catalog of valid records can be built exactly when no two are for the
  same provider, capability, market and source and, in production, none is a test fixture.  It then answers
  a look-up with the record for precisely that target and never with a wider or a narrower one.
\<close>

theorem certification_catalog_exact:
  assumes "\<forall>q\<in>set rs. check_certification q = Inr q"
  shows "((\<exists>catalog. mk_cert_catalog rs allow = Inr catalog) \<longleftrightarrow>
      distinct (map cert_target rs) \<and> (allow \<or> \<not> list_ex ct_test_fixture rs)) \<and>
    (\<forall>catalog p c m s r. mk_cert_catalog rs allow = Inr catalog \<longrightarrow>
      (cert_lookup catalog p c m s = Some r \<longleftrightarrow>
        (\<exists>q\<in>set rs. r = with_certification_id q \<and> cert_target q = (p, c, m, s))))"
proof (intro conjI allI impI)
  let ?c0 = "\<lparr>cc_allow_test_certifications = allow, cc_records = []\<rparr>"
  have ok: "keyed_ok cert_lookup_key (cc_records ?c0)" "cert_records ?c0 = []"
    by (simp_all add: cert_records_def)
  show "(\<exists>catalog. mk_cert_catalog rs allow = Inr catalog) \<longleftrightarrow>
      distinct (map cert_target rs) \<and> (allow \<or> \<not> list_ex ct_test_fixture rs)"
    using certifications.load_iff [OF ok(1), of rs]
    by (simp add: mk_cert_catalog_def ok(2) distinct_targets [OF assms] list_ex_iff)
  fix catalog p c m s r
  assume "mk_cert_catalog rs allow = Inr catalog"
  then have load: "register_all cert_register ?c0 rs = Inr catalog" by (simp add: mk_cert_catalog_def)
  show "cert_lookup catalog p c m s = Some r \<longleftrightarrow>
      (\<exists>q\<in>set rs. r = with_certification_id q \<and> cert_target q = (p, c, m, s))"
    unfolding cert_lookup_def certifications.load_find(1) [OF ok load] using assms certification_key by metis
qed

section \<open>Examples\<close>

definition example_provider :: "string \<Rightarrow> int option \<Rightarrow> int descriptor" where
  "example_provider i rate =
     \<lparr>de_provider_id = i, de_provider_type = Merchant, de_supported_markets = [''SG''],
      de_supported_capabilities = [CurrentPricing], de_supported_sources = [''shop''],
      de_operational_status = AVAILABLE, de_test_fixture = False,
      de_kill_switch = \<lparr>engaged = False, kill_reason = None\<rparr>, de_breaker_state = CLOSED,
      de_breaker_reason = None, de_affiliate_commission_rate = rate, de_may_expand_evaluated_set = False,
      de_can_provide_pricing = True, de_can_provide_shipping_taxes = False,
      de_can_provide_product_evidence = False, de_can_provide_review_evidence = False\<rparr>"

definition example_registry :: "int descriptor list \<Rightarrow> int registry" where
  "example_registry ds =
     \<lparr>rg_allow_test_providers = False, rg_providers = map (\<lambda>d. (de_provider_id d, d)) ds\<rparr>"

definition example_certification :: "string \<Rightarrow> certification" where
  "example_certification i =
     \<lparr>ct_provider_id = i, ct_capability = CurrentPricing, ct_market = ''SG'', ct_certification_version = ''v1'',
      ct_status = Certified, ct_policy = Allowed, ct_source = Some ''shop'', ct_source_scope = Exact,
      ct_test_fixture = False, ct_certification_id = ''cert-'' @ i\<rparr>"

definition example_certs :: "string list \<Rightarrow> cert_catalog" where
  "example_certs is =
     \<lparr>cc_allow_test_certifications = False,
      cc_records = map (\<lambda>i. (cert_lookup_key (example_certification i), example_certification i)) is\<rparr>"

definition example_routing :: routing_catalog where
  "example_routing = \<lparr>rc_allow_test_policies = False, rc_records = []\<rparr>"

definition example_market :: trusted_market where
  "example_market = \<lparr>tm_country_code = ''SG''\<rparr>"

definition example_scope :: frozen_scope where
  "example_scope =
     \<lparr>fs_reason = FreshnessRequired, fs_evaluated_product_ids = [''a''], fs_outside_set_product_names = [],
      fs_requested_evidence_topics = [''price''], fs_requested_sources = [], fs_destination_label = None,
      fs_expansion_required = False, fs_freshness_required = True,
      fs_canonical_update_may_be_required = False\<rparr>"

definition example_request :: execution_request where
  "example_request = (request_of example_authorization (Some example_market))\<lparr>er_scope := example_scope\<rparr>"

lemma example_assigned:
  "assign_capability_step (example_registry [example_provider ''p'' None]) (example_certs [''p''])
     example_routing CurrentPricing (Some example_market) [] 1 False =
   Inr ([\<lparr>st_step_index = 1, st_provider_id = ''p'', st_provider_type = Merchant,
      st_capability = CurrentPricing, st_source_identities = [''shop''], st_market = Some ''SG'',
      st_certification_id = ''cert-p'', st_certification_version = ''v1'',
      st_selection_reason = ''certified_capability_market_source'', st_attempted = False\<rparr>], [],
      [\<lparr>pe_provider_id = ''p'', pe_eligible = False, pe_reasons = [''certification_missing''],
        pe_capability = Some CurrentPricing, pe_market = Some ''SG'', pe_source = None\<rparr>,
       \<lparr>pe_provider_id = ''p'', pe_eligible = True, pe_reasons = [''certified_capability_market_source''],
        pe_capability = Some CurrentPricing, pe_market = Some ''SG'', pe_source = Some ''shop''\<rparr>])"
  by code_simp

lemma example_required: "derive_required_capabilities example_scope = [CurrentPricing]"
  by code_simp

theorem plan_steps_certified_witness:
  "\<exists>plan st. build_execution_plan example_request (example_registry [example_provider ''p'' None])
      (example_certs [''p'']) example_routing = Inr plan \<and> pn_eligible_steps plan = [st] \<and>
    st_provider_id st = ''p'' \<and>
    (\<exists>d\<in>set (list_providers (example_registry [example_provider ''p'' None])). st_provider_id st = de_provider_id d)"
proof -
  let ?r = "example_registry [example_provider ''p'' None]"
  have fields: "er_scope example_request = example_scope" "er_market example_request = Some example_market"
    "fs_requested_sources example_scope = []" "is_sensitive example_request = False"
    by (simp_all add: example_request_def request_of_def is_sensitive_def example_scope_def blank_def)
  obtain plan where plan: "build_execution_plan example_request ?r (example_certs [''p'']) example_routing = Inr plan"
    and "\<exists>i. assign_capabilities (\<lambda>c k. assign_capability_step ?r (example_certs [''p'']) example_routing c
       (Some example_market) [] k False) ([], [], [], 1) [CurrentPricing] =
       Inr (pn_eligible_steps plan, pn_blocked_requirements plan, pn_eligibility_audit plan, i)"
    using build_execution_plan_total [of example_request ?r "example_certs [''p'']" example_routing]
    unfolding fields example_required by blast
  then obtain st where st: "pn_eligible_steps plan = [st]" "st_provider_id st = ''p''"
    by (simp add: example_assigned) (metis provider_step.select_convs(2))
  have mem: "st \<in> set (pn_eligible_steps plan)" using st(1) by simp
  have "\<exists>d\<in>set (list_providers ?r). st_provider_id st = de_provider_id d"
    using plan_steps_certified [OF plan mem] by (elim exE conjE) (rule bexI, assumption+)
  then show ?thesis using plan st by blast
qed

theorem selection_trusted_only_witness:
  "\<exists>d. map_option strip_item (fst (select_certified_provider
      (example_registry [example_provider ''p'' (Some 90), example_provider ''b'' None]) (example_certs [''p'', ''b''])
      example_routing CurrentPricing (Some ''SG'') None)) = Some (d, example_certification ''b'', Some ''shop'') \<and>
    de_provider_id d = ''b''"
proof -
  have "map_option strip_item (fst (select_certified_provider
      (example_registry [example_provider ''b'' None, example_provider ''p'' (Some 1)]) (example_certs [''p'', ''b''])
      example_routing CurrentPricing (Some ''SG'') None)) =
      Some (example_provider ''b'' None, example_certification ''b'', Some ''shop'')"
    by code_simp
  moreover have "de_provider_id (example_provider ''b'' None) = ''b''" by (simp add: example_provider_def)
  ultimately show ?thesis
    using selection_trusted_only [of "example_registry [example_provider ''p'' (Some 90), example_provider ''b'' None]"
        "example_registry [example_provider ''b'' None, example_provider ''p'' (Some 1)]"
        "example_certs [''p'', ''b'']" example_routing CurrentPricing "Some ''SG''" None]
    by (auto simp: example_registry_def list_providers_def example_provider_def strip_rate_def)
qed

theorem certification_catalog_exact_witness:
  "\<exists>catalog. mk_cert_catalog [example_certification ''p'', example_certification ''b''] False = Inr catalog \<and>
    cert_lookup catalog ''b'' CurrentPricing ''SG'' (Some ''shop'') = Some (example_certification ''b'') \<and>
    cert_lookup catalog ''b'' CurrentPricing ''SG'' None = None"
proof -
  let ?rs = "[example_certification ''p'', example_certification ''b'']"
  have valid: "\<forall>q\<in>set ?rs. check_certification q = Inr q"
    by (simp add: check_certification_def trusted_market_code_def example_certification_def) code_simp
  note exact = certification_catalog_exact [OF valid, of False]
  have "distinct (map cert_target ?rs)" "\<not> list_ex ct_test_fixture ?rs"
    by (simp_all add: cert_target_def example_certification_def)
  then obtain catalog where c: "mk_cert_catalog ?rs False = Inr catalog" using exact by blast
  have look: "cert_lookup catalog p cap m s = Some r \<longleftrightarrow>
      (\<exists>q\<in>set ?rs. r = with_certification_id q \<and> cert_target q = (p, cap, m, s))" for p cap m s r
    using exact c by blast
  have "cert_lookup catalog ''b'' CurrentPricing ''SG'' (Some ''shop'') = Some (example_certification ''b'')"
    unfolding look by (simp add: cert_target_def example_certification_def with_certification_id_def)
  moreover have "cert_lookup catalog ''b'' CurrentPricing ''SG'' None \<noteq> Some r" for r
    unfolding look by (simp add: cert_target_def example_certification_def)
  ultimately show ?thesis using c by (cases "cert_lookup catalog ''b'' CurrentPricing ''SG'' None") auto
qed

end
