(* ===== verification/LiveStart.thy ===== *)
theory LiveStart
  imports LiveMode ReliabilityRepo Conversation
begin

text \<open>
  app/research/live_start_claim.py: the claim of one prepared execution for one connector attempt, over the
  execution, breaker and conversation rows, with the two transactions it runs on.

  A transaction is a record of operations, as \<open>ClaimTransaction\<close> is.  \<open>'s\<close> is what the rows are, \<open>'l\<close> what
  a transaction needs to undo its writes.  The process-local transaction writes the shared rows and keeps the rows
  it replaced; the database one keeps the rows as they were when it began, which is what a rollback, or closing the
  session after an exception, leaves.  The token factory and the two leases are arguments; the
  conversation repository has a clock of its own, whose reading in one claim is \<open>clk\<close>.

  What others commit during a claim is \<open>mid\<close>, once the execution and the breaker have been
  read, and \<open>late\<close>, before the first
  write.  The writes of one claim are not interleaved with others: the database holds the row locks until the commit.
  A database error at one stage is \<open>fault\<close>; a commit that raises has not committed.
  The flags for an invoked connector or request keep their default False.
\<close>

section \<open>Errors and answers\<close>

datatype claim_error =
    ClaimInvalid auth_error
  | ClaimRefusedValue string
  | ClaimTypeError
  | ExecutionAlreadyClaimed string
  | ClaimReliability rel_error
  | ClaimExecution exec_error
  | ClaimRepository repo_error
  | ClaimConversation conv_error
  | ClaimPersistence

fun exec_state_value :: "exec_state \<Rightarrow> string" where
  "exec_state_value PreparedUnavailable = ''prepared_unavailable''"
| "exec_state_value ClaimedForAttempt = ''claimed_for_attempt''"
| "exec_state_value Running = ''running''"
| "exec_state_value Completed = ''completed''"
| "exec_state_value Failed = ''failed''"
| "exec_state_value OutcomeUnknown = ''outcome_unknown''"

text \<open>A reading compared with another; mixing naive and aware ones is a TypeError.\<close>

definition claim_less :: "datetime \<Rightarrow> datetime \<Rightarrow> claim_error + bool" where
  "claim_less a b = (case dt_less a b of None \<Rightarrow> Inl ClaimTypeError | Some x \<Rightarrow> Inr x)"

definition relabel :: "('e \<Rightarrow> claim_error) \<Rightarrow> 'e + 'a \<Rightarrow> claim_error + 'a" where
  "relabel f r = map_sum f (\<lambda>x. x) r"

lemma relabel_simps [simp]: "relabel f (Inl e) = Inl (f e)" "relabel f (Inr x) = Inr x"
  by (simp_all add: relabel_def)

record active_claim_check =
  ac_valid :: bool
  ac_reason :: "string option"

definition check_active_claim :: "active_claim_check \<Rightarrow> auth_error + active_claim_check" where
  "check_active_claim c =
     (if ac_valid c \<and> ac_reason c \<noteq> None then Inl AuthValueError
      else if \<not> ac_valid c \<and> blank (ac_reason c) then Inl AuthValueError
      else Inr c)"

record claim_result =
  cl_claimed :: bool
  cl_execution_id :: "string option"
  cl_state :: "exec_state option"
  cl_block_reason :: "string option"
  cl_claim_expires_at :: "datetime option"
  cl_probe_acquired :: bool
  cl_authorization_consumed :: bool
  cl_claim_capability :: "string option"
  cl_probe_capability :: "string option"

definition check_claim_result :: "claim_result \<Rightarrow> claim_error + claim_result" where
  "check_claim_result r =
     (if cl_authorization_consumed r \<and> \<not> cl_claimed r then Inl (ClaimInvalid AuthValueError)
      else if cl_claimed r \<and> cl_block_reason r \<noteq> None then Inl (ClaimInvalid AuthValueError)
      else if \<not> cl_claimed r \<and> blank (cl_block_reason r) then Inl (ClaimInvalid AuthValueError)
      else if cl_claimed r \<and> cl_state r \<noteq> Some ClaimedForAttempt then Inl (ClaimInvalid AuthValueError)
      else if cl_claimed r \<and> cl_claim_expires_at r = None then Inl (ClaimInvalid AuthValueError)
      else if cl_probe_acquired r \<and> \<not> cl_claimed r then Inl (ClaimInvalid AuthValueError)
      else if cl_claimed r \<and> blank (cl_claim_capability r) then Inl (ClaimInvalid AuthValueError)
      else if cl_probe_acquired r \<and> blank (cl_probe_capability r) then Inl (ClaimInvalid AuthValueError)
      else if \<not> cl_probe_acquired r \<and> cl_probe_capability r \<noteq> None then Inl (ClaimInvalid AuthValueError)
      else Inr r)"

definition refused :: "string \<Rightarrow> string option \<Rightarrow> exec_state option \<Rightarrow> claim_error + claim_result" where
  "refused reason execution_id state = check_claim_result
     \<lparr>cl_claimed = False, cl_execution_id = execution_id, cl_state = state, cl_block_reason = Some reason,
      cl_claim_expires_at = None, cl_probe_acquired = False, cl_authorization_consumed = False,
      cl_claim_capability = None, cl_probe_capability = None\<rparr>"

section \<open>The claim on one execution\<close>

definition execution_claim_digest :: "string \<Rightarrow> claim_error + string" where
  "execution_claim_digest capability =
     (if length capability < 16 then Inl (ClaimInvalid AuthValueError)
      else Inr (stable_sha256 (JObj [(''kind'', JStr ''sprint38_execution_claim_v1''),
                                     (''capability'', JStr capability)])))"

definition claim_is_active :: "durable_execution \<Rightarrow> datetime \<Rightarrow> claim_error + bool" where
  "claim_is_active r now =
     (if dx_state r \<noteq> ClaimedForAttempt then Inr False
      else (case dx_claim_expires_at r of None \<Rightarrow> Inr False | Some e \<Rightarrow> claim_less now e))"

text \<open>\<open>ClaimRefusedValue\<close> is the ValueError whose message the caller turns into a refusal.\<close>

definition apply_execution_claim ::
  "durable_execution \<Rightarrow> datetime \<Rightarrow> int \<Rightarrow> string \<Rightarrow> claim_error + durable_execution" where
  "apply_execution_claim current now lease_micros capability =
     (if \<not> is_aware now then Inl (ClaimInvalid AuthValueError)
      else if lease_micros \<le> 0 then Inl (ClaimInvalid AuthValueError)
      else if dx_state current = Running
      then Inl (ClaimRefusedValue ''ambiguous_outcome_requires_reconciliation'')
      else if dx_state current \<in> terminal_execution_states then Inl (ClaimRefusedValue ''execution_terminal'')
      else if dx_state current \<notin> {PreparedUnavailable, ClaimedForAttempt}
      then Inl (ClaimRefusedValue ''execution state cannot be claimed'')
      else and_then (claim_is_active current now) (\<lambda>active.
        if active then Inl (ExecutionAlreadyClaimed (dx_execution_id current))
        else and_then (execution_claim_digest capability) (\<lambda>digest.
          relabel ClaimInvalid (check_execution (current
            \<lparr>dx_state := ClaimedForAttempt, dx_claimed_at := Some now,
             dx_claim_expires_at := Some (plus_micros now lease_micros), dx_claim_digest := Some digest,
             dx_updated_at := now\<rparr>)))))"

definition validate_active_execution_claim ::
  "durable_execution \<Rightarrow> string \<Rightarrow> datetime \<Rightarrow> claim_error + active_claim_check" where
  "validate_active_execution_claim r capability now =
     (let answer = (\<lambda>v why. relabel ClaimInvalid (check_active_claim \<lparr>ac_valid = v, ac_reason = why\<rparr>)) in
      if \<not> is_aware now then Inl (ClaimInvalid AuthValueError)
      else if dx_state r \<noteq> ClaimedForAttempt then answer False (Some ''execution_not_claimed'')
      else and_then (case dx_claim_expires_at r of None \<Rightarrow> Inr False | Some e \<Rightarrow> claim_less now e) (\<lambda>on_time.
        if \<not> on_time then answer False (Some ''execution_claim_expired'')
        else
          (case execution_claim_digest capability of
             Inl _ \<Rightarrow> answer False (Some ''execution_claim_identity_mismatch'')
           | Inr expected \<Rightarrow>
               if dx_claim_digest r \<noteq> Some expected then answer False (Some ''execution_claim_identity_mismatch'')
               else answer True None)))"

definition validate_active_half_open_probe ::
  "provider_state \<Rightarrow> string \<Rightarrow> datetime \<Rightarrow> claim_error + active_claim_check" where
  "validate_active_half_open_probe s capability now =
     (let answer = (\<lambda>v why. relabel ClaimInvalid (check_active_claim \<lparr>ac_valid = v, ac_reason = why\<rparr>)) in
      if \<not> is_aware now then Inl (ClaimInvalid AuthValueError)
      else if ps_state s \<noteq> HALF_OPEN then answer False (Some ''half_open_probe_not_active'')
      else and_then (relabel ClaimReliability (probe_lease_is_active s now)) (\<lambda>active.
        if \<not> active then answer False (Some ''half_open_probe_expired'')
        else
          (case half_open_probe_digest capability of
             Inl _ \<Rightarrow> answer False (Some ''half_open_probe_identity_mismatch'')
           | Inr expected \<Rightarrow>
               if probe_digest s \<noteq> Some expected then answer False (Some ''half_open_probe_identity_mismatch'')
               else answer True None)))"

section \<open>The request and its gates\<close>

record 'd claim_request =
  lq_authorization :: research_authorization
  lq_owner :: conversation_owner
  lq_plan :: execution_plan
  lq_provider_id :: string
  lq_market :: string
  lq_capability :: research_capability
  lq_source :: string
  lq_now :: datetime
  lq_status :: operational_status
  lq_kill_switch :: kill_switch
  lq_registry :: "'d registry"
  lq_certifications :: cert_catalog
  lq_routing :: routing_catalog
  lq_markets :: "string set"
  lq_mode :: string

definition pin_reason :: "durable_execution \<Rightarrow> 'd claim_request \<Rightarrow> string option" where
  "pin_reason x q =
     (let plan = lq_plan q; a = lq_authorization q in
      if pn_plan_id plan \<noteq> dx_plan_id x then Some ''authorization_plan_conflict''
      else if pn_authorization_id plan \<noteq> dx_authorization_id x \<or>
              pn_authorization_version plan \<noteq> dx_authorization_version x \<or>
              pn_decision_id plan \<noteq> dx_decision_id x \<or> pn_authorization_id plan \<noteq> ra_id a \<or>
              pn_authorization_version plan \<noteq> ra_version a \<or> pn_decision_id plan \<noteq> ra_decision_id a
      then Some ''execution_pin_mismatch''
      else None)"

definition plan_target_matches :: "'d claim_request \<Rightarrow> bool" where
  "plan_target_matches q =
     list_ex (\<lambda>s. st_provider_id s = lq_provider_id q \<and> st_market s = Some (lq_market q) \<and>
       st_capability s = lq_capability q \<and> lq_source q \<in> set (st_source_identities s))
       (pn_eligible_steps (lq_plan q))"

definition effective_status :: "'d claim_request \<Rightarrow> operational_status" where
  "effective_status q =
     (case registry_get (lq_registry q) (lq_provider_id q) of
        None \<Rightarrow> lq_status q
      | Some d \<Rightarrow> if de_operational_status d \<noteq> AVAILABLE then de_operational_status d else lq_status q)"

definition effective_kill_switch :: "'d claim_request \<Rightarrow> kill_switch" where
  "effective_kill_switch q =
     (if engaged (lq_kill_switch q) then lq_kill_switch q
      else
        (case registry_get (lq_registry q) (lq_provider_id q) of
           None \<Rightarrow> lq_kill_switch q
         | Some d \<Rightarrow> if engaged (de_kill_switch d) then de_kill_switch d else lq_kill_switch q))"

definition request_permission :: "'d claim_request \<Rightarrow> provider_state \<Rightarrow> claim_error + reliability_decision" where
  "request_permission q brk =
     relabel ClaimReliability
       (assess_execution_permission brk (effective_status q) (effective_kill_switch q) (lq_now q))"

definition gate_reason :: "'d claim_request \<Rightarrow> provider_state \<Rightarrow> claim_error + string option" where
  "gate_reason q brk =
     and_then (relabel ClaimInvalid (assess_live_research_mode (lq_mode q)
       \<lparr>lt_market = lq_market q, lt_capability = lq_capability q, lt_source = lq_source q\<rparr>
       (lq_registry q) (lq_certifications q) (lq_routing q) (lq_markets q) True)) (\<lambda>a.
     let earlier = filter (\<lambda>x. x \<noteq> ''provider_not_operationally_eligible'') (la_reasons a) in
     if ''fixture_cannot_satisfy_live_gate'' \<in> set (la_reasons a)
     then Inr (Some ''fixture_cannot_satisfy_live_gate'')
     else if \<not> la_enabled a \<and> earlier \<noteq> [] then Inr (Some (hd earlier))
     else and_then (request_permission q brk) (\<lambda>d.
       if \<not> execution_permitted d then Inr (block_reason d)
       else if \<not> la_enabled a then Inr (Some (hd (la_reasons a)))
       else Inr None))"

definition exact_stored_authorization ::
  "'c conversation_scheme \<Rightarrow> research_authorization \<Rightarrow> string + research_authorization" where
  "exact_stored_authorization context presented =
     (case filter (\<lambda>a. ra_id a = ra_id presented) (cv_authorizations context) of
        [stored] \<Rightarrow>
          if ra_version stored = ra_version presented \<and>
             ra_conversation_id stored = ra_conversation_id presented \<and>
             ra_decision_id stored = ra_decision_id presented \<and>
             ra_context_version stored = ra_context_version presented \<and>
             ra_proposal_id stored = ra_proposal_id presented \<and>
             ra_proposal_version stored = ra_proposal_version presented \<and>
             ra_scope_digest stored = ra_scope_digest presented \<and>
             ra_idempotency_key stored = ra_idempotency_key presented \<and>
             ra_owner_binding stored = ra_owner_binding presented
          then Inr stored else Inl ''authorization_identity_mismatch''
      | _ \<Rightarrow> Inl ''authorization_not_found'')"

section \<open>Transactions\<close>

record consumption =
  cm_conversation_id :: string
  cm_owner :: conversation_owner
  cm_request :: consume_request
  cm_expected_version :: int
  cm_now :: datetime

record observation =
  ob_execution :: durable_execution
  ob_expected_revision :: int
  ob_breaker :: "provider_state option"
  ob_expected_breaker_revision :: "int option"
  ob_claim_capability :: string
  ob_probe_capability :: "string option"
  ob_consumption :: "consumption option"

record ('s, 'l, 'f) claim_transaction =
  tx_begin :: "'s \<Rightarrow> 'l"
  tx_load_execution :: "'s \<Rightarrow> string \<Rightarrow> exec_error + durable_execution option"
  tx_load_breaker :: "'s \<Rightarrow> string \<Rightarrow> string \<Rightarrow> datetime \<Rightarrow> repo_error + provider_state"
  tx_load_conversation :: "'s \<Rightarrow> string \<Rightarrow> 's \<times> (conv_error + 'f conversation_context option)"
  tx_cas_execution :: "'s \<times> 'l \<Rightarrow> durable_execution \<Rightarrow> int \<Rightarrow> ('s \<times> 'l) \<times> (exec_error + durable_execution)"
  tx_cas_breaker :: "'s \<times> 'l \<Rightarrow> provider_state \<Rightarrow> int \<Rightarrow> ('s \<times> 'l) \<times> (repo_error + provider_state)"
  tx_consume :: "'s \<times> 'l \<Rightarrow> consumption \<Rightarrow> ('s \<times> 'l) \<times> 'f conv_answer"
  tx_rollback :: "'s \<times> 'l \<Rightarrow> 's"
  tx_close :: "'s \<times> 'l \<Rightarrow> 's"

subsection \<open>In process memory\<close>

record 'f claim_rows =
  cr_executions :: exec_rows
  cr_breakers :: reliability_rows
  cr_conversations :: "'f conv_rows"

text \<open>The rows a transaction has replaced; a row is kept at its first replacement.\<close>

record 'f claim_log =
  lg_executions :: "(string, durable_execution option) dict"
  lg_breakers :: "(string, string \<times> string \<times> provider_state option) dict"
  lg_conversations :: "(string, 'f conversation_context option) dict"

definition keep_first :: "'k \<Rightarrow> 'v \<Rightarrow> ('k, 'v) dict \<Rightarrow> ('k, 'v) dict" where
  "keep_first k v d = (if dict_get d k = None then dict_set k v d else d)"

definition mem_tx_load_conversation ::
  "datetime \<Rightarrow> 'f claim_rows \<Rightarrow> string \<Rightarrow> 'f claim_rows \<times> (conv_error + 'f conversation_context option)" where
  "mem_tx_load_conversation clk s i =
     (case mem_conv_get clk (cr_conversations s) i of (rows, r) \<Rightarrow> (s\<lparr>cr_conversations := rows\<rparr>, r))"

definition mem_tx_cas_execution ::
  "'f claim_rows \<times> 'f claim_log \<Rightarrow> durable_execution \<Rightarrow> int
     \<Rightarrow> ('f claim_rows \<times> 'f claim_log) \<times> (exec_error + durable_execution)" where
  "mem_tx_cas_execution w r expected =
     (case w of (s, l) \<Rightarrow>
        let l' = l\<lparr>lg_executions := keep_first (dx_execution_id r)
              (mem_exec_get (cr_executions s) (dx_execution_id r)) (lg_executions l)\<rparr>
        in case mem_exec_cas_replace (cr_executions s) r expected of
             (rows, a) \<Rightarrow> ((s\<lparr>cr_executions := rows\<rparr>, l'), a))"

definition mem_tx_cas_breaker ::
  "'f claim_rows \<times> 'f claim_log \<Rightarrow> provider_state \<Rightarrow> int
     \<Rightarrow> ('f claim_rows \<times> 'f claim_log) \<times> (repo_error + provider_state)" where
  "mem_tx_cas_breaker w st expected =
     (case w of (s, l) \<Rightarrow>
        (case reliability_record_key (ps_provider_id st) (ps_market st) of
           Inl e \<Rightarrow> ((s, l), Inl (RepoInvalid e))
         | Inr key \<Rightarrow>
             (case (if dict_get (lg_breakers l) key \<noteq> None then Inr l
                    else and_then (mem_rel_row_count (cr_breakers s) (ps_provider_id st) (ps_market st)) (\<lambda>n.
                      if n = 1
                      then and_then (mem_rel_load (cr_breakers s) (ps_provider_id st) (ps_market st)
                          (ps_updated_at st)) (\<lambda>previous.
                        Inr (l\<lparr>lg_breakers := dict_set key (ps_provider_id st, ps_market st, Some previous)
                          (lg_breakers l)\<rparr>))
                      else Inr (l\<lparr>lg_breakers := dict_set key (ps_provider_id st, ps_market st, None)
                        (lg_breakers l)\<rparr>))) of
                Inl e \<Rightarrow> ((s, l), Inl e)
              | Inr l' \<Rightarrow>
                  (case mem_rel_save (cr_breakers s) st expected of
                     (rows, a) \<Rightarrow> ((s\<lparr>cr_breakers := rows\<rparr>, l'), a)))))"

definition mem_tx_consume ::
  "conv_settings \<Rightarrow> datetime \<Rightarrow> 'f claim_rows \<times> 'f claim_log \<Rightarrow> consumption
     \<Rightarrow> ('f claim_rows \<times> 'f claim_log) \<times> 'f conv_answer" where
  "mem_tx_consume cfg clk w c =
     (case w of (s, l) \<Rightarrow>
        (case (if dict_get (lg_conversations l) (cm_conversation_id c) \<noteq> None
               then (cr_conversations s, Inr l)
               else (case mem_conv_get clk (cr_conversations s) (cm_conversation_id c) of
                  (rows, Inl e) \<Rightarrow> (rows, Inl e)
                | (rows, Inr found) \<Rightarrow> (rows, Inr (l\<lparr>lg_conversations :=
                    dict_set (cm_conversation_id c) found (lg_conversations l)\<rparr>)))) of
           (rows, Inl e) \<Rightarrow> ((s\<lparr>cr_conversations := rows\<rparr>, l), Inl e)
         | (rows, Inr l') \<Rightarrow>
             (case mem_conv_consume cfg clk rows (cm_conversation_id c) (cm_owner c) (cm_request c) (cm_now c)
                (cm_expected_version c) of
                (rows', a) \<Rightarrow> ((s\<lparr>cr_conversations := rows'\<rparr>, l'), a))))"

definition mem_tx_rollback :: "'f claim_rows \<times> 'f claim_log \<Rightarrow> 'f claim_rows" where
  "mem_tx_rollback w =
     (case w of (s, l) \<Rightarrow>
        s\<lparr>cr_executions := foldl (\<lambda>rows (i, previous). mem_exec_restore_row rows i previous)
            (cr_executions s) (lg_executions l),
          cr_breakers := foldl (\<lambda>rows (key, p, m, previous). fst (mem_rel_restore_row rows p m previous))
            (cr_breakers s) (lg_breakers l),
          cr_conversations := foldl (\<lambda>rows (i, previous). mem_conv_restore_row rows i previous)
            (cr_conversations s) (lg_conversations l)\<rparr>)"

definition in_memory_claim_transaction ::
  "conv_settings \<Rightarrow> datetime \<Rightarrow> ('f claim_rows, 'f claim_log, 'f) claim_transaction" where
  "in_memory_claim_transaction cfg clk =
     \<lparr>tx_begin = (\<lambda>_. \<lparr>lg_executions = [], lg_breakers = [], lg_conversations = []\<rparr>),
      tx_load_execution = (\<lambda>s i. Inr (mem_exec_get (cr_executions s) i)),
      tx_load_breaker = (\<lambda>s. mem_rel_load (cr_breakers s)),
      tx_load_conversation = mem_tx_load_conversation clk,
      tx_cas_execution = mem_tx_cas_execution, tx_cas_breaker = mem_tx_cas_breaker,
      tx_consume = mem_tx_consume cfg clk, tx_rollback = mem_tx_rollback, tx_close = fst\<rparr>"

subsection \<open>In one database session\<close>

record 'f claim_tables =
  ct_executions :: exec_table
  ct_breakers :: "provider_state op_table"
  ct_conversations :: "'f conv_table"

definition op_tx_load_conversation ::
  "datetime \<Rightarrow> 'f claim_tables \<Rightarrow> string \<Rightarrow> 'f claim_tables \<times> (conv_error + 'f conversation_context option)" where
  "op_tx_load_conversation clk s i =
     (case op_conv_get clk (ct_conversations s) i of (t, r) \<Rightarrow> (s\<lparr>ct_conversations := t\<rparr>, r))"

definition op_tx_cas_execution ::
  "'f claim_tables \<times> 'f claim_tables \<Rightarrow> durable_execution \<Rightarrow> int
     \<Rightarrow> ('f claim_tables \<times> 'f claim_tables) \<times> (exec_error + durable_execution)" where
  "op_tx_cas_execution w r expected =
     (case op_exec_cas_replace (ct_executions (fst w)) r expected of
        (t, a) \<Rightarrow> (((fst w)\<lparr>ct_executions := t\<rparr>, snd w), a))"

definition op_tx_cas_breaker ::
  "'f claim_tables \<times> 'f claim_tables \<Rightarrow> provider_state \<Rightarrow> int
     \<Rightarrow> ('f claim_tables \<times> 'f claim_tables) \<times> (repo_error + provider_state)" where
  "op_tx_cas_breaker w st expected =
     (case op_rel_save (ct_breakers (fst w)) st expected of
        (t, a) \<Rightarrow> (((fst w)\<lparr>ct_breakers := t\<rparr>, snd w), a))"

definition op_tx_consume ::
  "conv_settings \<Rightarrow> datetime \<Rightarrow> 'f claim_tables \<times> 'f claim_tables \<Rightarrow> consumption
     \<Rightarrow> ('f claim_tables \<times> 'f claim_tables) \<times> 'f conv_answer" where
  "op_tx_consume cfg clk w c =
     (case op_conv_consume cfg clk (\<lambda>t. t) (ct_conversations (fst w)) (cm_conversation_id c) (cm_owner c)
        (cm_request c) (cm_now c) (cm_expected_version c) of
        (t, a) \<Rightarrow> (((fst w)\<lparr>ct_conversations := t\<rparr>, snd w), a))"

definition operational_claim_transaction ::
  "conv_settings \<Rightarrow> datetime \<Rightarrow> ('f claim_tables, 'f claim_tables, 'f) claim_transaction" where
  "operational_claim_transaction cfg clk =
     \<lparr>tx_begin = (\<lambda>s. s),
      tx_load_execution = (\<lambda>s. op_exec_load (ct_executions s)),
      tx_load_breaker = (\<lambda>s. op_rel_load (ct_breakers s)),
      tx_load_conversation = op_tx_load_conversation clk,
      tx_cas_execution = op_tx_cas_execution, tx_cas_breaker = op_tx_cas_breaker,
      tx_consume = op_tx_consume cfg clk, tx_rollback = snd, tx_close = snd\<rparr>"

section \<open>Observing\<close>

text \<open>A stage raises, ends with an answer, or goes on.\<close>

type_synonym 'a stage = "claim_error + (claim_result + 'a)"

definition proceed :: "'a stage \<Rightarrow> ('a \<Rightarrow> 'b stage) \<Rightarrow> 'b stage" where
  "proceed r k = and_then r (\<lambda>a. case a of Inl answer \<Rightarrow> Inr (Inl answer) | Inr x \<Rightarrow> k x)"

definition stop_with :: "string \<Rightarrow> durable_execution \<Rightarrow> 'a stage" where
  "stop_with reason x = and_then (refused reason (Some (dx_execution_id x)) (Some (dx_state x))) (\<lambda>a. Inr (Inl a))"

definition or_raise :: "claim_error + 'a \<Rightarrow> 'a stage" where
  "or_raise r = and_then r (\<lambda>x. Inr (Inr x))"

text \<open>Up to the gate: the prepared execution and its breaker.\<close>

definition observe_execution ::
  "('s, 'l, 'f) claim_transaction \<Rightarrow> 's \<Rightarrow> 'd claim_request \<Rightarrow> durable_execution stage" where
  "observe_execution tx s q =
     and_then (relabel ClaimInvalid (authorized_execution_id (ra_idempotency_key (lq_authorization q)))) (\<lambda>i.
     and_then (relabel ClaimExecution (tx_load_execution tx s i)) (\<lambda>found.
     case found of
       None \<Rightarrow> and_then (refused ''execution_not_prepared'' (Some i) None) (\<lambda>a. Inr (Inl a))
     | Some x \<Rightarrow>
         (case pin_reason x q of
            Some reason \<Rightarrow> stop_with reason x
          | None \<Rightarrow>
              if \<not> plan_target_matches q then stop_with ''plan_target_mismatch'' x
              else if dx_state x = Running then stop_with ''ambiguous_outcome_requires_reconciliation'' x
              else if dx_state x \<in> terminal_execution_states then stop_with ''execution_terminal'' x
              else proceed (or_raise (claim_is_active x (lq_now q))) (\<lambda>active.
                if active then stop_with ''execution_already_claimed'' x else Inr (Inr x)))))"

definition observe_breaker ::
  "('s, 'l, 'f) claim_transaction \<Rightarrow> 's \<Rightarrow> 'd claim_request \<Rightarrow> durable_execution
     \<Rightarrow> (provider_state \<times> provider_state) stage" where
  "observe_breaker tx s q x =
     proceed (or_raise (relabel ClaimRepository
       (tx_load_breaker tx s (lq_provider_id q) (lq_market q) (lq_now q)))) (\<lambda>brk.
     proceed (or_raise (gate_reason q brk)) (\<lambda>blocked.
     case blocked of
       Some reason \<Rightarrow> stop_with reason x
     | None \<Rightarrow>
         proceed (or_raise (request_permission q brk)) (\<lambda>d.
         proceed (or_raise (if ps_state (decision_breaker d) = HALF_OPEN
             then relabel ClaimReliability (probe_lease_is_active (decision_breaker d) (lq_now q))
             else Inr False)) (\<lambda>active.
         if active then stop_with ''half_open_probe_already_claimed'' x
         else Inr (Inr (brk, decision_breaker d))))))"

definition claim_messages :: "string set" where
  "claim_messages =
     {''ambiguous_outcome_requires_reconciliation'', ''execution_terminal'', ''execution state cannot be claimed''}"

definition observe_claimed ::
  "'d claim_request \<Rightarrow> int \<Rightarrow> string \<Rightarrow> durable_execution \<Rightarrow> durable_execution stage" where
  "observe_claimed q lease token x =
     (case apply_execution_claim x (lq_now q) lease token of
        Inr nxt \<Rightarrow> Inr (Inr nxt)
      | Inl (ExecutionAlreadyClaimed _) \<Rightarrow> stop_with ''execution_already_claimed'' x
      | Inl (ClaimRefusedValue reason) \<Rightarrow>
          if reason \<in> claim_messages then stop_with reason x else Inl (ClaimRefusedValue reason)
      | Inl e \<Rightarrow> Inl e)"

definition observe_probe ::
  "'d claim_request \<Rightarrow> int \<Rightarrow> string \<Rightarrow> durable_execution \<Rightarrow> provider_state \<Rightarrow> (provider_state option) stage" where
  "observe_probe q lease token x permitted =
     (if ps_state permitted = HALF_OPEN then
        (case apply_half_open_probe_lease permitted (lq_now q) lease token of
           Inr nxt \<Rightarrow> Inr (Inr (Some nxt))
         | Inl HalfOpenProbeAlreadyClaimed \<Rightarrow> stop_with ''half_open_probe_already_claimed'' x
         | Inl e \<Rightarrow> Inl (ClaimReliability e))
      else if ps_state permitted \<noteq> CLOSED then stop_with ''circuit_open'' x
      else Inr (Inr None))"

definition resume_request_for :: "'d claim_request \<Rightarrow> durable_execution \<Rightarrow> bool \<Rightarrow> resume_request" where
  "resume_request_for q x active =
     \<lparr>rq_conversation_id = pn_conversation_id (lq_plan q), rq_decision_id = pn_decision_id (lq_plan q),
      rq_context_version = pn_context_version (lq_plan q), rq_proposal_id = pn_proposal_id (lq_plan q),
      rq_proposal_version = pn_proposal_version (lq_plan q), rq_scope_digest = pn_scope_digest (lq_plan q),
      rq_execution_id = dx_execution_id x, rq_execution_plan_id = dx_plan_id x,
      rq_execution_authorization_id = dx_authorization_id x,
      rq_execution_authorization_version = dx_authorization_version x, rq_execution_decision_id = dx_decision_id x,
      rq_execution_state = exec_state_value (dx_state x), rq_claim_active = active,
      rq_requested_plan_id = pn_plan_id (lq_plan q)\<rparr>"

text \<open>The stored authorization, once the conversation has been read.\<close>

definition commit_stored ::
  "('s, 'l, 'f) claim_transaction \<Rightarrow> 's \<Rightarrow> 'd claim_request \<Rightarrow> durable_execution \<Rightarrow> bool
     \<Rightarrow> 'f conversation_context \<Rightarrow> research_authorization \<Rightarrow> (consumption option) stage" where
  "commit_stored tx s q x active context stored =
     (if ra_status stored = AuthConsumed then
        proceed (or_raise (claim_is_active x (lq_now q))) (\<lambda>was_active.
        proceed (or_raise (if was_active then Inr x
            else and_then (relabel ClaimExecution (tx_load_execution tx s (dx_execution_id x))) (\<lambda>latest.
              Inr (case latest of None \<Rightarrow> x | Some y \<Rightarrow> y)))) (\<lambda>y.
        proceed (or_raise (claim_is_active y (lq_now q))) (\<lambda>now_active.
        if now_active then stop_with ''execution_already_claimed'' y
        else proceed (or_raise (relabel ClaimInvalid (validate_consumed_authorization_for_execution_resume
               (Some stored) (lq_owner q) (resume_request_for q y active)))) (\<lambda>resume.
             if \<not> av_valid resume then stop_with (av_reason resume) y else Inr (Inr None)))))
      else
        (case validate_research_authorization_for_execution (Some stored) (lq_owner q)
            (pn_conversation_id (lq_plan q)) (pn_decision_id (lq_plan q)) (pn_context_version (lq_plan q)) None
            (Some (pn_scope_digest (lq_plan q))) (Some (pn_proposal_id (lq_plan q)))
            (Some (pn_proposal_version (lq_plan q))) of
           Inl (ShoppingAssistantNotFoundError _) \<Rightarrow> stop_with ''wrong_owner'' x
         | Inl e \<Rightarrow> Inl (ClaimInvalid e)
         | Inr validation \<Rightarrow>
             if \<not> av_valid validation
             then stop_with (if av_reason validation = [] then ''invalid_status'' else av_reason validation) x
             else Inr (Inr (Some
               \<lparr>cm_conversation_id = cv_id context, cm_owner = lq_owner q,
                cm_request = \<lparr>cq_authorization_id = ra_id stored, cq_authorization_version = ra_version stored,
                  cq_decision_id = ra_decision_id stored, cq_context_version = ra_context_version stored,
                  cq_proposal_id = ra_proposal_id stored, cq_proposal_version = ra_proposal_version stored,
                  cq_scope_digest = ra_scope_digest stored, cq_idempotency_key = ra_idempotency_key stored\<rparr>,
                cm_expected_version = cx_version context, cm_now = lq_now q\<rparr>))))"

definition authorization_commitment ::
  "('s, 'l, 'f) claim_transaction \<Rightarrow> 's \<Rightarrow> 'd claim_request \<Rightarrow> durable_execution \<Rightarrow> bool
     \<Rightarrow> 's \<times> (consumption option) stage" where
  "authorization_commitment tx s q x active =
     (case tx_load_conversation tx s (ra_conversation_id (lq_authorization q)) of
        (s', Inl e) \<Rightarrow> (s', Inl (ClaimConversation e))
      | (s', Inr None) \<Rightarrow> (s', stop_with ''authorization_conversation_missing'' x)
      | (s', Inr (Some context)) \<Rightarrow>
          if (case cv_owner context of None \<Rightarrow> True | Some w \<Rightarrow> \<not> has_same_identity w (lq_owner q))
          then (s', stop_with ''wrong_owner'' x)
          else
            (case exact_stored_authorization context (lq_authorization q) of
               Inl reason \<Rightarrow> (s', stop_with reason x)
             | Inr stored \<Rightarrow> (s', commit_stored tx s' q x active context stored)))"

record claim_leases =
  execution_lease :: int
  probe_lease :: int

definition default_claim_leases :: claim_leases where
  "default_claim_leases = \<lparr>execution_lease = 30000000, probe_lease = 30000000\<rparr>"

text \<open>\<open>mid\<close> is what others commit once the execution and the breaker have been read.\<close>

definition observe_claim ::
  "('s, 'l, 'f) claim_transaction \<Rightarrow> claim_leases \<Rightarrow> string \<times> string \<Rightarrow> ('s \<Rightarrow> 's) \<Rightarrow> 's \<Rightarrow> 'd claim_request
     \<Rightarrow> 's \<times> observation stage" where
  "observe_claim tx leases tokens mid s q =
     (case proceed (observe_execution tx s q) (\<lambda>x.
         proceed (observe_breaker tx s q x) (\<lambda>(brk, permitted).
         proceed (observe_claimed q (execution_lease leases) (fst tokens) x) (\<lambda>nxt.
         proceed (observe_probe q (probe_lease leases) (snd tokens) x permitted) (\<lambda>leased_probe.
           Inr (Inr (x, brk, nxt, leased_probe)))))) of
        Inl e \<Rightarrow> (mid s, Inl e)
      | Inr (Inl answer) \<Rightarrow> (mid s, Inr (Inl answer))
      | Inr (Inr (x, brk, nxt, leased_probe)) \<Rightarrow>
          (case authorization_commitment tx (mid s) q x False of
             (s', commitment) \<Rightarrow>
               (s', proceed commitment (\<lambda>c. Inr (Inr
                 \<lparr>ob_execution = nxt, ob_expected_revision = dx_revision x, ob_breaker = leased_probe,
                  ob_expected_breaker_revision = (if leased_probe = None then None else Some (ps_revision brk)),
                  ob_claim_capability = fst tokens,
                  ob_probe_capability = (if leased_probe = None then None else Some (snd tokens)),
                  ob_consumption = c\<rparr>)))))"

section \<open>Committing\<close>

datatype claim_stage = AtLock | AtObserve | AtExecution | AtBreaker | AtConsume | AtCommit

text \<open>The exceptions that are database errors: the caller answers that persistence is unavailable.\<close>

fun is_persistence :: "claim_error \<Rightarrow> bool" where
  "is_persistence ClaimPersistence = True"
| "is_persistence (ClaimExecution ExecPersistenceConflict) = True"
| "is_persistence (ClaimConversation (ConversationSchemaError _)) = True"
| "is_persistence _ = False"

text \<open>The refusal a failed write is turned into, where it is.\<close>

fun conflict_reason :: "claim_error \<Rightarrow> string option" where
  "conflict_reason (ClaimExecution (AuthorizedExecutionRevisionConflict _ _)) = Some ''execution_already_claimed''"
| "conflict_reason (ClaimRepository ReliabilityRevisionConflict) = Some ''half_open_probe_already_claimed''"
| "conflict_reason (ClaimConversation (ConversationVersionConflict _ _)) = Some ''authorization_consumption_conflict''"
| "conflict_reason (ClaimConversation (ConversationOwnership _)) = Some ''authorization_consumption_conflict''"
| "conflict_reason (ClaimConversation (ConversationAuthError (AuthorizationConsumptionConflict _ _))) =
     Some ''authorization_consumption_conflict''"
| "conflict_reason (ClaimConversation (ConversationAuthError (ShoppingAssistantNotFoundError _))) =
     Some ''authorization_consumption_conflict''"
| "conflict_reason (ClaimConversation (ConversationAuthError ShoppingAssistantValidationError)) =
     Some ''authorization_consumption_conflict''"
| "conflict_reason _ = None"

definition fault_or :: "claim_stage option \<Rightarrow> claim_stage \<Rightarrow> 'w \<Rightarrow> 'w \<times> (claim_error + 'a) \<Rightarrow> 'w \<times> (claim_error + 'a)" where
  "fault_or fault stage w r = (if fault = Some stage then (w, Inl ClaimPersistence) else r)"

text \<open>The three writes, in order; the answer is the stored execution and whether a probe was leased.\<close>

definition write_breaker ::
  "('s, 'l, 'f) claim_transaction \<Rightarrow> claim_stage option \<Rightarrow> 's \<times> 'l \<Rightarrow> observation \<Rightarrow> ('s \<times> 'l) \<times> (claim_error + bool)" where
  "write_breaker tx fault w ob =
     (case (ob_breaker ob, ob_expected_breaker_revision ob) of
        (Some st, Some revision) \<Rightarrow>
          apsnd (map_sum (\<lambda>e. e) (\<lambda>_. True)) (fault_or fault AtBreaker w
            (apsnd (relabel ClaimRepository) (tx_cas_breaker tx w st revision)))
      | _ \<Rightarrow> (w, Inr False))"

definition write_consumption ::
  "('s, 'l, 'f) claim_transaction \<Rightarrow> claim_stage option \<Rightarrow> 's \<times> 'l \<Rightarrow> observation \<Rightarrow> ('s \<times> 'l) \<times> (claim_error + unit)" where
  "write_consumption tx fault w ob =
     (case ob_consumption ob of
        None \<Rightarrow> (w, Inr ())
      | Some c \<Rightarrow>
          apsnd (map_sum (\<lambda>e. e) (\<lambda>_. ())) (fault_or fault AtConsume w
            (apsnd (relabel ClaimConversation) (tx_consume tx w c))))"

definition write_claim ::
  "('s, 'l, 'f) claim_transaction \<Rightarrow> claim_stage option \<Rightarrow> 's \<times> 'l \<Rightarrow> observation
     \<Rightarrow> ('s \<times> 'l) \<times> (claim_error + durable_execution \<times> bool)" where
  "write_claim tx fault w ob =
     (case fault_or fault AtExecution w
         (apsnd (relabel ClaimExecution) (tx_cas_execution tx w (ob_execution ob) (ob_expected_revision ob))) of
        (w1, Inl e) \<Rightarrow> (w1, Inl e)
      | (w1, Inr stored) \<Rightarrow>
          (case write_breaker tx fault w1 ob of
             (w2, Inl e) \<Rightarrow> (w2, Inl e)
           | (w2, Inr acquired) \<Rightarrow>
               (case write_consumption tx fault w2 ob of
                  (w3, Inl e) \<Rightarrow> (w3, Inl e)
                | (w3, Inr _) \<Rightarrow> (w3, Inr (stored, acquired)))))"

definition finish_claim ::
  "('s, 'l, 'f) claim_transaction \<Rightarrow> claim_stage option \<Rightarrow> 's \<Rightarrow> observation \<Rightarrow> 's \<times> (claim_error + claim_result)" where
  "finish_claim tx fault s ob =
     (let eid = dx_execution_id (ob_execution ob) in
      case write_claim tx fault (s, tx_begin tx s) ob of
         (w, Inr (stored, acquired)) \<Rightarrow>
           if fault = Some AtCommit
           then (tx_rollback tx w, refused ''claim_persistence_unavailable'' (Some eid) None)
           else (fst w, check_claim_result
                \<lparr>cl_claimed = True, cl_execution_id = Some (dx_execution_id stored),
                 cl_state = Some (dx_state stored), cl_block_reason = None,
                 cl_claim_expires_at = dx_claim_expires_at stored, cl_probe_acquired = acquired,
                 cl_authorization_consumed = (ob_consumption ob \<noteq> None),
                 cl_claim_capability = Some (ob_claim_capability ob),
                 cl_probe_capability = ob_probe_capability ob\<rparr>)
       | (w, Inl e) \<Rightarrow>
           (case conflict_reason e of
              Some reason \<Rightarrow>
                (tx_rollback tx w,
                 and_then (relabel ClaimExecution (tx_load_execution tx (tx_rollback tx w) eid)) (\<lambda>current.
                   refused reason (Some eid) (map_option dx_state current)))
            | None \<Rightarrow>
                if is_persistence e
                then (tx_rollback tx w, refused ''claim_persistence_unavailable'' (Some eid) None)
                else (tx_close tx w, Inl e)))"

text \<open>An observation in its own transaction: what is not going to be committed is rolled back.\<close>

definition observe ::
  "('s, 'l, 'f) claim_transaction \<Rightarrow> claim_leases \<Rightarrow> string \<times> string \<Rightarrow> ('s \<Rightarrow> 's) \<Rightarrow> claim_stage option \<Rightarrow> 's
     \<Rightarrow> 'd claim_request \<Rightarrow> 's \<times> observation stage" where
  "observe tx leases tokens mid fault s q =
     (if fault = Some AtObserve
      then (s, and_then (refused ''claim_persistence_unavailable'' None None) (\<lambda>a. Inr (Inl a)))
      else
        (case observe_claim tx leases tokens mid s q of
           (s', Inr (Inr ob)) \<Rightarrow> (s', Inr (Inr ob))
         | (s', Inr (Inl answer)) \<Rightarrow> (tx_rollback tx (s', tx_begin tx (mid s)), Inr (Inl answer))
         | (s', Inl e) \<Rightarrow>
             if is_persistence e
             then (tx_rollback tx (s', tx_begin tx (mid s)),
               and_then (refused ''claim_persistence_unavailable'' None None) (\<lambda>a. Inr (Inl a)))
             else (tx_close tx (s', tx_begin tx (mid s)), Inl e)))"

definition claim ::
  "('s, 'l, 'f) claim_transaction \<Rightarrow> claim_leases \<Rightarrow> string \<times> string \<Rightarrow> ('s \<Rightarrow> 's) \<Rightarrow> ('s \<Rightarrow> 's)
     \<Rightarrow> claim_stage option \<Rightarrow> 's \<Rightarrow> 'd claim_request \<Rightarrow> 's \<times> (claim_error + claim_result)" where
  "claim tx leases tokens mid late fault s q =
     (if fault = Some AtLock then (s, refused ''claim_persistence_unavailable'' None None)
      else
        (case observe tx leases tokens mid fault s q of
           (s', Inl e) \<Rightarrow> (s', Inl e)
         | (s', Inr (Inl answer)) \<Rightarrow> (s', Inr answer)
         | (s', Inr (Inr ob)) \<Rightarrow> finish_claim tx fault (late s') ob))"

text \<open>Every request is observed before the first commit.\<close>

fun observe_all ::
  "('s, 'l, 'f) claim_transaction \<Rightarrow> claim_leases \<Rightarrow> 's \<Rightarrow> ((string \<times> string) \<times> 'd claim_request) list
     \<Rightarrow> 's \<times> (claim_error + (claim_result + observation) list)" where
  "observe_all tx leases s [] = (s, Inr [])"
| "observe_all tx leases s ((tokens, q) # qs) =
     (case observe tx leases tokens (\<lambda>s. s) None s q of
        (s', Inl e) \<Rightarrow> (s', Inl e)
      | (s', Inr a) \<Rightarrow>
          (case observe_all tx leases s' qs of (s'', r) \<Rightarrow> (s'', map_sum (\<lambda>e. e) (\<lambda>as. a # as) r)))"

fun finish_all ::
  "('s, 'l, 'f) claim_transaction \<Rightarrow> 's \<Rightarrow> (claim_result + observation) list
     \<Rightarrow> 's \<times> (claim_error + claim_result list)" where
  "finish_all tx s [] = (s, Inr [])"
| "finish_all tx s (Inl answer # as) =
     (case finish_all tx s as of (s', r) \<Rightarrow> (s', map_sum (\<lambda>e. e) (\<lambda>rs. answer # rs) r))"
| "finish_all tx s (Inr ob # as) =
     (case finish_claim tx None s ob of
        (s', Inl e) \<Rightarrow> (s', Inl e)
      | (s', Inr a) \<Rightarrow>
          (case finish_all tx s' as of (s'', r) \<Rightarrow> (s'', map_sum (\<lambda>e. e) (\<lambda>rs. a # rs) r)))"

definition claim_racing ::
  "('s, 'l, 'f) claim_transaction \<Rightarrow> claim_leases \<Rightarrow> 's \<Rightarrow> ((string \<times> string) \<times> 'd claim_request) list
     \<Rightarrow> 's \<times> (claim_error + claim_result list)" where
  "claim_racing tx leases s qs =
     (case observe_all tx leases s qs of
        (s', Inl e) \<Rightarrow> (s', Inl e)
      | (s', Inr observed) \<Rightarrow> finish_all tx s' observed)"

end
