(* ===== verification/LiveAttempt.thy ===== *)
theory LiveAttempt
  imports LiveStart
begin

text \<open>
  app/research/shopify_global_catalog_execution.py: one attempt of a claimed execution.  A first transaction checks the
  claim and moves the row to \<open>running\<close>; the call happens outside any transaction; a second one stores the outcome and
  updates the breaker.  A call whose outcome was lost is closed by \<open>reconcile_ambiguous\<close>.

  Arguments: the transaction (see LiveStart), the clock readings, what the transport answers (\<open>None\<close> where it
  raises), what others commit during the call, and how a response payload is read (\<open>catalog_reader\<close>: its envelope, its
  products, their variants and the normalisation of a variant).  A database error at one stage is \<open>fault\<close>.
\<close>

section \<open>Permits and transports\<close>

text \<open>\<open>ForeignPermit\<close> is any object that is none of the three permits.\<close>

datatype permit = FakePermit | HarnessPermit | ProductionPermit | ForeignPermit

text \<open>
  The HTTP transport, with or without the server's authority (its constructor takes no other), or any other one.
\<close>

datatype transport = UrllibTransport bool | InjectedTransport

datatype permit_mode = SyntheticMode | HarnessMode | ProductionMode

fun permit_mode_of :: "permit \<Rightarrow> permit_mode option" where
  "permit_mode_of FakePermit = Some SyntheticMode"
| "permit_mode_of HarnessPermit = Some HarnessMode"
| "permit_mode_of ProductionPermit = Some ProductionMode"
| "permit_mode_of ForeignPermit = None"

datatype execution_authority = NoAuthority | SyntheticAuthority | ProductionAuthority

definition result_authority :: "permit \<Rightarrow> execution_authority" where
  "result_authority p =
     (case permit_mode_of p of
        Some ProductionMode \<Rightarrow> ProductionAuthority
      | Some _ \<Rightarrow> SyntheticAuthority
      | None \<Rightarrow> NoAuthority)"

text \<open>A production permit, constructed directly or issued by the server, over the gates' block reasons.\<close>

definition direct_production_permit :: "string list \<Rightarrow> claim_error + permit" where
  "direct_production_permit reasons = (if reasons \<noteq> [] then Inl (ClaimInvalid AuthValueError) else Inr ProductionPermit)"

datatype permit_error = PermitRuntimeError

definition issue_production_shopify_transport_permit :: "string list \<Rightarrow> permit_error + permit" where
  "issue_production_shopify_transport_permit reasons =
     (if reasons \<noteq> [] then Inl PermitRuntimeError else Inr ProductionPermit)"

definition production_live_evidence_authorized :: "permit \<Rightarrow> transport \<Rightarrow> bool" where
  "production_live_evidence_authorized p t = (p = ProductionPermit \<and> t = UrllibTransport True)"

section \<open>The attempt and its result\<close>

record attempt =
  at_permit :: permit
  at_authorization :: research_authorization
  at_owner :: conversation_owner
  at_plan :: execution_plan
  at_step :: provider_step
  at_source :: string
  at_operation :: string
  at_claim_capability :: string
  at_status :: operational_status
  at_catalog_query :: "string option"
  at_product_id :: "string option"
  at_probe_capability :: "string option"
  at_kill_switch :: kill_switch

record offer_fact =
  fc_product_id :: string
  fc_variant_id :: "string option"
  fc_seller_identity :: string
  fc_amount_minor :: int
  fc_currency :: string
  fc_availability :: "string option"
  fc_observed_at :: datetime
  fc_offer_digest :: string
  fc_observation_kind :: string
  fc_source_mode :: string
  fc_provider_id :: string
  fc_capability :: string
  fc_market :: string
  fc_source :: string

text \<open>app/research/execution_evidence.py, \<open>VerifiedLiveOfferExecution\<close>; its permit marker and authority are fixed.\<close>

record verified_execution =
  vx_execution_id :: string
  vx_decision_id :: string
  vx_plan_id :: string
  vx_facts :: "offer_fact list"

definition live_fact :: "offer_fact \<Rightarrow> bool" where
  "live_fact f = (fc_observation_kind f = ''production'' \<and> fc_source_mode f = ''live'')"

definition check_verified :: "verified_execution \<Rightarrow> claim_error + verified_execution" where
  "check_verified v =
     (if vx_execution_id v = [] \<or> vx_decision_id v = [] \<or> vx_plan_id v = [] then Inl (ClaimInvalid AuthValueError)
      else if vx_facts v = [] then Inl (ClaimInvalid AuthValueError)
      else if list_ex (\<lambda>f. \<not> live_fact f) (vx_facts v) then Inl (ClaimInvalid AuthValueError)
      else Inr v)"

record attempt_result =
  xr_attempted :: bool
  xr_transport_invoked :: bool
  xr_persisted :: bool
  xr_state :: "exec_state option"
  xr_block_reason :: "string option"
  xr_outcome :: "string option"
  xr_error_category :: "string option"
  xr_failure_kind :: "string option"
  xr_evaluated_offer_count :: int
  xr_normalized_offer_count :: int
  xr_returned_currencies :: "string list"
  xr_observation_kind :: "string option"
  xr_source_mode_live :: bool
  xr_raw_response_persisted :: bool
  xr_live_operational :: bool
  xr_prior_decision_preserved :: bool
  xr_retry_count :: int
  xr_real_call_count :: int
  xr_claim_released :: bool
  xr_trace :: "execution_trace option"
  xr_blocking_reasons :: "string list"
  xr_unknown_costs :: "string list"
  xr_outcome_ambiguous :: bool
  xr_offer_facts :: "offer_fact list"
  xr_authority :: execution_authority
  xr_verified :: "verified_execution option"

definition durable_success :: "attempt_result \<Rightarrow> bool" where
  "durable_success r = (xr_persisted r \<and> xr_state r = Some Completed \<and> xr_outcome r = Some ''succeeded'')"

definition check_production_result :: "attempt_result \<Rightarrow> bool" where
  "check_production_result r =
     ((xr_source_mode_live r \<longrightarrow> durable_success r) \<and>
      (if durable_success r then xr_observation_kind r = Some ''production'' \<and> xr_verified r \<noteq> None
       else xr_verified r = None) \<and>
      \<not> list_ex (\<lambda>f. \<not> live_fact f) (xr_offer_facts r))"

definition check_synthetic_result :: "attempt_result \<Rightarrow> bool" where
  "check_synthetic_result r =
     (\<not> xr_source_mode_live r \<and> \<not> xr_live_operational r \<and> xr_verified r = None \<and>
      xr_observation_kind r \<noteq> Some ''production'' \<and>
      \<not> list_ex (\<lambda>f. fc_observation_kind f \<in> {''live'', ''production''} \<or> fc_source_mode f = ''live'')
        (xr_offer_facts r))"

definition check_result :: "attempt_result \<Rightarrow> claim_error + attempt_result" where
  "check_result r =
     (if xr_real_call_count r < 0 \<or> xr_retry_count r \<noteq> 0 \<or> xr_raw_response_persisted r \<or>
         xr_observation_kind r = Some ''live'' \<or> (xr_transport_invoked r \<and> \<not> xr_attempted r) \<or>
         (xr_persisted r \<and> (case xr_state r of None \<Rightarrow> True | Some st \<Rightarrow> st \<notin> terminal_execution_states)) \<or>
         \<not> xr_prior_decision_preserved r \<or> xr_evaluated_offer_count r < 0 \<or> xr_normalized_offer_count r < 0
      then Inl (ClaimInvalid AuthValueError)
      else if \<not> (if xr_authority r = ProductionAuthority then check_production_result r else check_synthetic_result r)
      then Inl (ClaimInvalid AuthValueError)
      else Inr r)"

text \<open>\<open>_refused\<close>, with the keyword arguments its callers give.\<close>

definition refusal_result :: "string \<Rightarrow> bool \<Rightarrow> bool \<Rightarrow> exec_state option \<Rightarrow> string list \<Rightarrow> bool \<Rightarrow> attempt_result" where
  "refusal_result reason attempted invoked state reasons ambiguous =
     \<lparr>xr_attempted = attempted, xr_transport_invoked = invoked, xr_persisted = False, xr_state = state,
      xr_block_reason = Some reason, xr_outcome = None, xr_error_category = None, xr_failure_kind = None,
      xr_evaluated_offer_count = 0, xr_normalized_offer_count = 0, xr_returned_currencies = [],
      xr_observation_kind = None, xr_source_mode_live = False, xr_raw_response_persisted = False,
      xr_live_operational = False, xr_prior_decision_preserved = True, xr_retry_count = 0, xr_real_call_count = 0,
      xr_claim_released = False, xr_trace = None,
      xr_blocking_reasons = (if reasons = [] then [reason] else reasons), xr_unknown_costs = [],
      xr_outcome_ambiguous = ambiguous, xr_offer_facts = [], xr_authority = NoAuthority, xr_verified = None\<rparr>"

abbreviation refuse :: "string \<Rightarrow> bool \<Rightarrow> bool \<Rightarrow> exec_state option \<Rightarrow> claim_error + attempt_result" where
  "refuse reason attempted invoked state \<equiv> check_result (refusal_result reason attempted invoked state [] False)"

text \<open>\<open>execute_production_shopify_catalog\<close>, over the block reasons and the continuation.\<close>

definition execute_production_shopify_catalog ::
  "string list \<Rightarrow> 's \<Rightarrow> ('s \<Rightarrow> 's \<times> (claim_error + attempt_result)) option \<Rightarrow> 's \<times> (claim_error + attempt_result)" where
  "execute_production_shopify_catalog reasons s continuation =
     (if reasons \<noteq> [] then (s, check_result (refusal_result (hd reasons) False False None reasons False))
      else
        (case continuation of
           None \<Rightarrow> (s, check_result (refusal_result ''production_composition_context_required'' False False None
             [''production_composition_context_required''] False))
         | Some k \<Rightarrow> k s))"

section \<open>What is refused without any store\<close>

definition supported_capabilities :: "research_capability set" where
  "supported_capabilities = {ProductDiscovery, OfferDiscovery, CurrentPricing, Availability}"

definition local_refusal_reason :: "attempt \<Rightarrow> transport \<Rightarrow> string option" where
  "local_refusal_reason a t =
     (case permit_mode_of (at_permit a) of
        None \<Rightarrow> Some ''transport_permit_required''
      | Some mode \<Rightarrow>
          if mode = ProductionMode \<and> \<not> production_live_evidence_authorized (at_permit a) t
          then Some ''production_transport_authority_required''
          else if mode \<noteq> ProductionMode \<and> (case t of UrllibTransport _ \<Rightarrow> True | InjectedTransport \<Rightarrow> False)
          then Some ''synthetic_permit_cannot_use_production_transport''
          else if st_capability (at_step a) \<notin> supported_capabilities then Some ''capability_not_supported''
          else if at_operation a = ''lookup_catalog'' \<or> at_operation a \<notin> {''search_catalog'', ''get_product''}
          then Some ''catalog_tool_forbidden''
          else if st_provider_id (at_step a) \<noteq> ''ph-shopify-global-catalog'' then Some ''provider_not_shopify''
          else if st_market (at_step a) \<noteq> Some ''PH'' then Some ''market_not_supported''
          else if at_source a \<noteq> ''shopify_global_catalog'' \<or> at_source a \<notin> set (st_source_identities (at_step a))
          then Some ''source_not_supported''
          else if at_operation a = ''search_catalog''
          then (if (case at_catalog_query a of None \<Rightarrow> True | Some q \<Rightarrow> strip q = []) \<or> \<not> blank (at_product_id a)
                then Some ''catalog_query_required'' else None)
          else if (case at_product_id a of None \<Rightarrow> True
                   | Some p \<Rightarrow> p = [] \<or> contains_char (CHR '','') p \<or> strip p = [])
          then Some ''catalog_product_id_invalid''
          else None)"

section \<open>The request\<close>

text \<open>app/research/shopify_global_catalog_ph_probe.py; \<open>None\<close> is ProbeContractError.\<close>

definition ph_catalog_context :: json where
  "ph_catalog_context = JObj [(''address_country'', JStr ''PH''), (''currency'', JStr ''PHP''), (''language'', JStr ''en'')]"

definition ph_catalog_filters :: json where
  "ph_catalog_filters = JObj [(''ships_to'', JObj [(''country'', JStr ''PH'')]), (''available'', JBool True)]"

definition agent_profile_meta :: json where
  "agent_profile_meta = JObj [(''ucp-agent'', JObj [(''profile'',
     JStr ''https://shopify.dev/ucp/agent-profiles/2026-08-25/valid-with-capabilities.json'')])]"

definition build_search_catalog_arguments :: "string \<Rightarrow> json" where
  "build_search_catalog_arguments query = JObj [(''meta'', agent_profile_meta), (''catalog'', JObj
     [(''query'', JStr query), (''filters'', ph_catalog_filters), (''context'', ph_catalog_context),
      (''view'', JStr ''offer''), (''pagination'', JObj [(''limit'', JInt 10)])])]"

definition build_get_product_arguments :: "string \<Rightarrow> json option" where
  "build_get_product_arguments product_id =
     (if product_id = [] \<or> contains_char (CHR '','') product_id then None
      else Some (JObj [(''meta'', agent_profile_meta), (''catalog'', JObj
        [(''id'', JStr product_id), (''filters'', ph_catalog_filters), (''context'', ph_catalog_context)])]))"

definition build_jsonrpc_request :: "string \<Rightarrow> json \<Rightarrow> int \<Rightarrow> json option" where
  "build_jsonrpc_request tool arguments request_id =
     (if tool = ''lookup_catalog'' then None
      else if tool \<notin> {''search_catalog'', ''get_product''} then None
      else Some (JObj [(''jsonrpc'', JStr ''2.0''), (''method'', JStr ''tools/call''), (''id'', JInt request_id),
        (''params'', JObj [(''name'', JStr tool), (''arguments'', arguments)])]))"

definition anonymous_http_headers :: "(string \<times> string) list" where
  "anonymous_http_headers =
     [(''Content-Type'', ''application/json''), (''Accept'', ''application/json''),
      (''User-Agent'', ''PiqSavi-Sprint32-PH-Coverage-Probe/1.0'')]"

definition text_or_empty :: "string option \<Rightarrow> string" where
  "text_or_empty v = strip (case v of None \<Rightarrow> [] | Some x \<Rightarrow> x)"

definition catalog_payload :: "attempt \<Rightarrow> json option" where
  "catalog_payload a =
     (if at_operation a = ''search_catalog''
      then build_jsonrpc_request (at_operation a) (build_search_catalog_arguments (text_or_empty (at_catalog_query a))) 1
      else
        (case build_get_product_arguments (text_or_empty (at_product_id a)) of
           None \<Rightarrow> None
         | Some arguments \<Rightarrow> build_jsonrpc_request (at_operation a) arguments 1))"

definition carries_credentials :: "(string \<times> string) list \<Rightarrow> bool" where
  "carries_credentials headers =
     list_ex (\<lambda>(k, _). k = ''Authorization'' \<or> map to_lower k \<in> {''authorization'', ''signature'', ''x-signature''}) headers"

definition request_digest :: "attempt \<Rightarrow> string" where
  "request_digest a =
     (let part = (\<lambda>key v. if text_or_empty v = [] then JNull
                   else JStr (stable_sha256 (JObj [(key, JStr (text_or_empty v))]))) in
      stable_sha256 (JObj
        [(''kind'', JStr ''shopify_catalog_request_v1''),
         (''endpoint'', JStr ''https://catalog.shopify.com/api/ucp/mcp''), (''tool'', JStr (at_operation a)),
         (''timeout_seconds'', JWhole 5), (''query_digest'', part ''query'' (at_catalog_query a)),
         (''product_id_digest'', part ''product_id'' (at_product_id a))]))"

section \<open>Beginning an attempt\<close>

definition same_step :: "provider_step \<Rightarrow> provider_step \<Rightarrow> bool" where
  "same_step l r =
     (st_step_index l = st_step_index r \<and> st_provider_id l = st_provider_id r \<and> st_capability l = st_capability r \<and>
      st_market l = st_market r \<and> st_source_identities l = st_source_identities r \<and>
      st_certification_id l = st_certification_id r \<and> st_certification_version l = st_certification_version r)"

text \<open>Five seconds of HTTP and one of clean-up must be left.\<close>

definition budget_ok :: "datetime option \<Rightarrow> datetime \<Rightarrow> claim_error + bool" where
  "budget_ok expires now =
     (case expires of
        None \<Rightarrow> Inr False
      | Some e \<Rightarrow> if is_aware e \<noteq> is_aware now then Inl ClaimTypeError else Inr (6000000 \<le> micros e - micros now))"

text \<open>The checks on the pins, the plan and the row's state, in order.\<close>

definition attempt_pin_reason :: "attempt \<Rightarrow> durable_execution \<Rightarrow> string option" where
  "attempt_pin_reason a x =
     (if dx_plan_id x \<noteq> pn_plan_id (at_plan a) then Some ''authorization_plan_conflict''
      else if dx_authorization_id x \<noteq> ra_id (at_authorization a) \<or>
              dx_authorization_version x \<noteq> ra_version (at_authorization a) \<or>
              dx_decision_id x \<noteq> pn_decision_id (at_plan a) \<or> dx_decision_id x \<noteq> ra_decision_id (at_authorization a)
      then Some ''execution_pin_mismatch''
      else if \<not> list_ex (same_step (at_step a)) (pn_eligible_steps (at_plan a)) then Some ''plan_target_mismatch''
      else if dx_state x = Running then Some ''ambiguous_outcome_requires_reconciliation''
      else if dx_state x \<in> terminal_execution_states then Some ''execution_terminal''
      else None)"

definition attempt_claim_reason :: "attempt \<Rightarrow> durable_execution \<Rightarrow> datetime \<Rightarrow> claim_error + string option" where
  "attempt_claim_reason a x now =
     and_then (validate_active_execution_claim x (at_claim_capability a) now) (\<lambda>c.
       if \<not> ac_valid c
       then Inr (Some (if blank (ac_reason c) then ''execution_not_claimed'' else the (ac_reason c)))
       else and_then (budget_ok (dx_claim_expires_at x) now) (\<lambda>enough.
         Inr (if enough then None else Some ''claim_budget_insufficient'')))"

text \<open>The stored authorization of the conversation, against the attempt and the row.\<close>

definition stored_authorization_reason ::
  "attempt \<Rightarrow> durable_execution \<Rightarrow> 'c conversation_scheme \<Rightarrow> claim_error + string option" where
  "stored_authorization_reason a x context =
     (if (case cv_owner context of None \<Rightarrow> True | Some w \<Rightarrow> \<not> has_same_identity w (at_owner a))
      then Inr (Some ''wrong_owner'')
      else
        (case filter (\<lambda>y. ra_id y = ra_id (at_authorization a)) (cv_authorizations context) of
           [stored] \<Rightarrow>
             if ra_status stored \<noteq> AuthConsumed then Inr (Some ''authorization_not_consumed'')
             else if ra_version stored \<noteq> dx_authorization_version x \<or> ra_decision_id stored \<noteq> dx_decision_id x \<or>
                     ra_idempotency_key stored \<noteq> ra_idempotency_key (at_authorization a) \<or>
                     ra_scope_digest stored \<noteq> pn_scope_digest (at_plan a)
             then Inr (Some ''authorization_identity_mismatch'')
             else if owner_binding_digest (at_owner a) \<noteq> ra_owner_binding stored then Inr (Some ''wrong_owner'')
             else and_then (relabel ClaimInvalid (authorized_execution_id (ra_idempotency_key stored))) (\<lambda>i.
               Inr (if dx_execution_id x \<noteq> i then Some ''consumed_authorization_execution_mismatch'' else None))
         | _ \<Rightarrow> Inr (Some ''authorization_not_found'')))"

definition authorization_reason ::
  "('s, 'l, 'f) claim_transaction \<Rightarrow> 's \<Rightarrow> attempt \<Rightarrow> durable_execution \<Rightarrow> 's \<times> (claim_error + string option)" where
  "authorization_reason tx s a x =
     (case tx_load_conversation tx s (ra_conversation_id (at_authorization a)) of
        (s', Inl e) \<Rightarrow> (s', Inl (ClaimConversation e))
      | (s', Inr None) \<Rightarrow> (s', Inr (Some ''authorization_conversation_missing''))
      | (s', Inr (Some context)) \<Rightarrow> (s', stored_authorization_reason a x context))"

definition probe_reason :: "provider_state \<Rightarrow> attempt \<Rightarrow> datetime \<Rightarrow> claim_error + string option" where
  "probe_reason brk a now =
     (if ps_state brk = HALF_OPEN then
        (if blank (at_probe_capability a) then Inr (Some ''half_open_probe_not_active'')
         else and_then (validate_active_half_open_probe brk (the (at_probe_capability a)) now) (\<lambda>c.
           if \<not> ac_valid c then Inr (ac_reason c)
           else and_then (budget_ok (probe_expires_at brk) now) (\<lambda>enough.
             Inr (if enough then None else Some ''claim_budget_insufficient''))))
      else Inr (if at_probe_capability a \<noteq> None then Some ''half_open_probe_not_active'' else None))"

definition attempt_market :: "attempt \<Rightarrow> string" where
  "attempt_market a = (if blank (st_market (at_step a)) then ''PH'' else the (st_market (at_step a)))"

definition breaker_reason ::
  "('s, 'l, 'f) claim_transaction \<Rightarrow> 's \<Rightarrow> attempt \<Rightarrow> datetime \<Rightarrow> claim_error + string option" where
  "breaker_reason tx s a now =
     and_then (relabel ClaimRepository (tx_load_breaker tx s (st_provider_id (at_step a)) (attempt_market a) now)) (\<lambda>brk.
     and_then (relabel ClaimReliability (assess_execution_permission brk (at_status a) (at_kill_switch a) now)) (\<lambda>d.
       if \<not> execution_permitted d then Inr (block_reason d) else probe_reason (decision_breaker d) a now))"

definition pre_transport_reason ::
  "('s, 'l, 'f) claim_transaction \<Rightarrow> 's \<Rightarrow> attempt \<Rightarrow> durable_execution option \<Rightarrow> datetime
     \<Rightarrow> 's \<times> (claim_error + string option)" where
  "pre_transport_reason tx s a found now =
     (case found of
        None \<Rightarrow> (s, Inr (Some ''execution_not_prepared''))
      | Some x \<Rightarrow>
          (case attempt_pin_reason a x of
             Some reason \<Rightarrow> (s, Inr (Some reason))
           | None \<Rightarrow>
               (case attempt_claim_reason a x now of
                  Inl e \<Rightarrow> (s, Inl e)
                | Inr (Some reason) \<Rightarrow> (s, Inr (Some reason))
                | Inr None \<Rightarrow>
                    (case authorization_reason tx s a x of
                       (s', Inr None) \<Rightarrow> (s', breaker_reason tx s' a now)
                     | other \<Rightarrow> other))))"

text \<open>The claimed row, moved to \<open>running\<close>.\<close>

definition running_row :: "attempt \<Rightarrow> datetime \<Rightarrow> durable_execution \<Rightarrow> claim_error + durable_execution" where
  "running_row a started x = relabel ClaimInvalid (check_execution (x
     \<lparr>dx_state := Running, dx_updated_at := started, dx_attempt_started_at := Some started,
      dx_attempted_provider_id := Some (st_provider_id (at_step a)),
      dx_attempted_capability := Some (capability_value (st_capability (at_step a))),
      dx_attempted_market := st_market (at_step a), dx_attempted_source := Some (at_source a),
      dx_request_digest := Some (request_digest a)\<rparr>))"

record prepared_call =
  pc_execution :: durable_execution
  pc_payload :: json
  pc_headers :: "(string \<times> string) list"
  pc_request_digest :: string

type_synonym call_stage = "claim_error + (attempt_result + prepared_call)"

definition answer_call :: "claim_error + attempt_result \<Rightarrow> call_stage" where
  "answer_call r = map_sum (\<lambda>e. e) Inl r"

definition attempt_execution_id :: "attempt \<Rightarrow> claim_error + string" where
  "attempt_execution_id a = relabel ClaimInvalid (authorized_execution_id (ra_idempotency_key (at_authorization a)))"

text \<open>\<open>_begin_attempt\<close> once nothing stands in the way: the row is written.\<close>

definition start_row ::
  "('s, 'l, 'f) claim_transaction \<Rightarrow> claim_stage option \<Rightarrow> 's \<times> 'l \<Rightarrow> attempt \<Rightarrow> datetime \<Rightarrow> durable_execution
     \<Rightarrow> ('s \<times> 'l) \<times> call_stage" where
  "start_row tx fault w a started x =
     (case catalog_payload a of
        None \<Rightarrow> (w, answer_call (refuse ''catalog_contract_rejected'' False False (Some (dx_state x))))
      | Some payload \<Rightarrow>
          if carries_credentials anonymous_http_headers
          then (w, answer_call (refuse ''catalog_contract_rejected'' False False (Some (dx_state x))))
          else
            (case running_row a started x of
               Inl e \<Rightarrow> (w, Inl e)
             | Inr running \<Rightarrow>
                 (case fault_or fault AtExecution w
                     (apsnd (relabel ClaimExecution) (tx_cas_execution tx w running (dx_revision x))) of
                    (w', Inl (ClaimExecution (AuthorizedExecutionRevisionConflict _ _))) \<Rightarrow>
                      (w', answer_call (refuse ''stale_claim_rejected'' False False (Some (dx_state x))))
                  | (w', Inl e) \<Rightarrow> (w', Inl e)
                  | (w', Inr stored) \<Rightarrow> (w', Inr (Inr \<lparr>pc_execution = stored, pc_payload = payload,
                      pc_headers = anonymous_http_headers, pc_request_digest = request_digest a\<rparr>)))))"

definition begin_attempt ::
  "('s, 'l, 'f) claim_transaction \<Rightarrow> claim_stage option \<Rightarrow> 's \<Rightarrow> attempt \<Rightarrow> datetime \<Rightarrow> ('s \<times> 'l) \<times> call_stage" where
  "begin_attempt tx fault s a started =
     (case and_then (attempt_execution_id a) (\<lambda>i. relabel ClaimExecution (tx_load_execution tx s i)) of
        Inl e \<Rightarrow> ((s, tx_begin tx s), Inl e)
      | Inr found \<Rightarrow>
          (case pre_transport_reason tx s a found started of
             (s', Inl e) \<Rightarrow> ((s', tx_begin tx s), Inl e)
           | (s', Inr (Some reason)) \<Rightarrow>
               ((s', tx_begin tx s), answer_call (refuse reason False False (map_option dx_state found)))
           | (s', Inr None) \<Rightarrow>
               (case found of
                  None \<Rightarrow> ((s', tx_begin tx s), Inl (ClaimInvalid AuthValueError))
                | Some x \<Rightarrow> start_row tx fault (s', tx_begin tx s) a started x)))"

text \<open>The first transaction: a prepared call is returned only once it is committed.\<close>

definition begin_call ::
  "('s, 'l, 'f) claim_transaction \<Rightarrow> claim_stage option \<Rightarrow> 's \<Rightarrow> attempt \<Rightarrow> datetime \<Rightarrow> 's \<times> call_stage" where
  "begin_call tx fault s a started =
     (let unavailable = answer_call (refuse ''attempt_persistence_unavailable'' False False None) in
      if fault = Some AtLock \<or> fault = Some AtObserve then (s, unavailable)
      else
        (case begin_attempt tx fault s a started of
           (w, Inr (Inr prepared)) \<Rightarrow>
             if fault = Some AtCommit then (tx_rollback tx w, unavailable) else (fst w, Inr (Inr prepared))
         | (w, Inr (Inl answer)) \<Rightarrow> (tx_rollback tx w, Inr (Inl answer))
         | (w, Inl e) \<Rightarrow>
             if is_persistence e then (tx_rollback tx w, unavailable) else (tx_close tx w, Inl e)))"

section \<open>Reading the answer\<close>

text \<open>app/research/shopify_global_catalog_transport.py, \<open>CatalogTransportResult\<close>.\<close>

record 'p transport_result =
  rp_status_code :: int
  rp_payload :: "'p option"
  rp_timed_out :: bool
  rp_malformed :: bool
  rp_unavailable :: bool
  rp_raw_body_persisted :: bool

definition check_transport_result :: "'p transport_result \<Rightarrow> claim_error + 'p transport_result" where
  "check_transport_result r =
     (if rp_raw_body_persisted r then Inl (ClaimInvalid AuthValueError)
      else if rp_timed_out r \<and> rp_unavailable r then Inl (ClaimInvalid AuthValueError)
      else if rp_timed_out r \<and> (rp_payload r \<noteq> None \<or> rp_malformed r) then Inl (ClaimInvalid AuthValueError)
      else if rp_unavailable r \<and> (rp_payload r \<noteq> None \<or> rp_malformed r \<or> rp_status_code r \<noteq> 0)
      then Inl (ClaimInvalid AuthValueError)
      else Inr r)"

text \<open>
  What the adapter reads of a normalized offer.  A cost line is its amount and status; \<open>nf_availability\<close> and
  \<open>nf_source_mode\<close> are the enumeration values.
\<close>

record normalized_offer =
  nf_product_id :: string
  nf_variant_id :: "string option"
  nf_seller_identity :: string
  nf_currency :: string
  nf_price_amount_minor :: int
  nf_availability :: string
  nf_checked_at :: datetime
  nf_observation_kind :: string
  nf_source_mode :: string
  nf_shipping :: "int option \<times> string"
  nf_taxes :: "int option \<times> string"
  nf_import_charges :: "int option \<times> string"
  nf_voucher :: "int option \<times> string"
  nf_price_state :: string

record envelope =
  ev_fail_closed :: bool
  ev_reason :: string
  ev_failure_kind :: "failure_kind option"

text \<open>How a payload is read; the last is \<open>Inl\<close> with the reason of a refusal.\<close>

record 'p catalog_reader =
  rd_envelope :: "'p \<Rightarrow> envelope"
  rd_products :: "'p \<Rightarrow> 'p list"
  rd_variants :: "'p \<Rightarrow> 'p list"
  rd_normalize :: "'p \<Rightarrow> 'p \<Rightarrow> datetime \<Rightarrow> string \<Rightarrow> string + normalized_offer"

record interpreted =
  it_success :: bool
  it_attempt_status :: attempt_status
  it_failure_kind :: "failure_kind option"
  it_error_category :: "string option"
  it_offers :: "normalized_offer list"

definition offer_is_live :: "normalized_offer \<Rightarrow> bool" where
  "offer_is_live f = (nf_observation_kind f = ''live'' \<or> nf_source_mode f = ''live'')"

text \<open>The offers of one product, and of all; \<open>Inl\<close> is the refusal that empties the whole answer.\<close>

fun normalize_variants ::
  "'p catalog_reader \<Rightarrow> datetime \<Rightarrow> bool \<Rightarrow> 'p \<Rightarrow> 'p list \<Rightarrow> string + normalized_offer list" where
  "normalize_variants rd checked_at production product [] = Inr []"
| "normalize_variants rd checked_at production product (v # vs) =
     and_then (rd_normalize rd product v checked_at (if production then ''live'' else ''synthetic'')) (\<lambda>f.
       if production \<and> \<not> offer_is_live f then Inl ''production_observation_required''
       else if \<not> production \<and> offer_is_live f then Inl ''live_observation_forbidden''
       else and_then (normalize_variants rd checked_at production product vs) (\<lambda>fs. Inr (f # fs)))"

fun normalize_products ::
  "'p catalog_reader \<Rightarrow> datetime \<Rightarrow> bool \<Rightarrow> 'p list \<Rightarrow> string + normalized_offer list" where
  "normalize_products rd checked_at production [] = Inr []"
| "normalize_products rd checked_at production (p # ps) =
     (if rd_variants rd p = [] then Inl ''normalization_refusal''
      else and_then (normalize_variants rd checked_at production p (rd_variants rd p)) (\<lambda>fs.
        and_then (normalize_products rd checked_at production ps) (\<lambda>gs. Inr (fs @ gs))))"

definition normalize_all :: "'p catalog_reader \<Rightarrow> datetime \<Rightarrow> bool \<Rightarrow> 'p \<Rightarrow> string + normalized_offer list" where
  "normalize_all rd checked_at production payload =
     (if rd_products rd payload = [] then Inl ''normalization_refusal''
      else normalize_products rd checked_at production (rd_products rd payload))"

definition failed_reading :: "attempt_status \<Rightarrow> failure_kind \<Rightarrow> string \<Rightarrow> interpreted" where
  "failed_reading status kind category =
     \<lparr>it_success = False, it_attempt_status = status, it_failure_kind = Some kind,
      it_error_category = Some category, it_offers = []\<rparr>"

definition interpret_payload :: "'p catalog_reader \<Rightarrow> datetime \<Rightarrow> bool \<Rightarrow> 'p \<Rightarrow> interpreted" where
  "interpret_payload rd checked_at production payload =
     (let env = rd_envelope rd payload in
      if ev_fail_closed env then
        (let kind = (case ev_failure_kind env of None \<Rightarrow> UNKNOWN | Some k \<Rightarrow> k) in
         failed_reading AttemptFailed kind (if ev_reason env = [] then kind_value kind else ev_reason env))
      else
        (case normalize_all rd checked_at production payload of
           Inl refusal \<Rightarrow> failed_reading AttemptFailed PARTIAL
             (if refusal = [] then ''normalization_refusal'' else refusal)
         | Inr [] \<Rightarrow> failed_reading AttemptFailed PARTIAL ''normalization_refusal''
         | Inr offers \<Rightarrow> \<lparr>it_success = True, it_attempt_status = AttemptSucceeded, it_failure_kind = None,
             it_error_category = None, it_offers = offers\<rparr>))"

definition interpret_response :: "'p catalog_reader \<Rightarrow> datetime \<Rightarrow> bool \<Rightarrow> 'p transport_result \<Rightarrow> interpreted" where
  "interpret_response rd checked_at production r =
     (let status = rp_status_code r in
      if rp_timed_out r then failed_reading AttemptTimedOut TIMEOUT ''timeout''
      else if rp_unavailable r then failed_reading AttemptFailed UNAVAILABLE ''unavailable''
      else if status = 429 then failed_reading AttemptFailed RATE_LIMIT ''rate_limit''
      else if status \<in> {401, 403} then failed_reading AttemptFailed CREDENTIAL ''credential''
      else if 500 \<le> status \<and> status \<le> 599 then failed_reading AttemptFailed UNAVAILABLE ''unavailable''
      else if status \<noteq> 200 then failed_reading AttemptFailed UNKNOWN ''http_error''
      else
        (case rp_payload r of
           Some payload \<Rightarrow>
             if rp_malformed r then failed_reading AttemptFailed UNKNOWN ''malformed_jsonrpc''
             else interpret_payload rd checked_at production payload
         | None \<Rightarrow> failed_reading AttemptFailed UNKNOWN ''malformed_jsonrpc''))"

section \<open>The outcome\<close>

fun attempt_status_value :: "attempt_status \<Rightarrow> string" where
  "attempt_status_value NotAttempted = ''not_attempted''"
| "attempt_status_value AttemptSucceeded = ''succeeded''"
| "attempt_status_value AttemptFailed = ''failed''"
| "attempt_status_value AttemptTimedOut = ''timed_out''"
| "attempt_status_value AttemptUnknown = ''outcome_unknown''"

definition normalized_offer_digest :: "normalized_offer \<Rightarrow> string" where
  "normalized_offer_digest f = stable_sha256 (JObj
     [(''kind'', JStr ''shopify_normalized_offer_v1''), (''product_id'', JStr (nf_product_id f)),
      (''variant_id'', (case nf_variant_id f of None \<Rightarrow> JNull | Some v \<Rightarrow> JStr v)),
      (''currency'', JStr (nf_currency f)), (''amount_minor'', JInt (nf_price_amount_minor f)),
      (''seller'', JStr (nf_seller_identity f))])"

definition state_for :: "string \<Rightarrow> exec_state" where
  "state_for result_text =
     (if result_text = ''succeeded'' then Completed
      else if result_text = ''outcome_unknown'' then OutcomeUnknown else Failed)"

definition attempt_trace ::
  "attempt \<Rightarrow> datetime \<Rightarrow> datetime \<Rightarrow> attempt_status \<Rightarrow> string option \<Rightarrow> int \<Rightarrow> claim_error + execution_trace" where
  "attempt_trace a started finished status category count =
     relabel ClaimInvalid (and_then (check_trace_step
       \<lparr>ts_plan_id = pn_plan_id (at_plan a), ts_provider_id = st_provider_id (at_step a),
        ts_requested_capability = st_capability (at_step a), ts_market = st_market (at_step a),
        ts_source = Some (at_source a), ts_attempted = True, ts_attempt_status = status, ts_evidence_ids = [],
        ts_started_at = Some started, ts_finished_at = Some finished, ts_error_category = category,
        ts_evaluated_offer_count = count, ts_freshness_checked_at = None\<rparr>) (\<lambda>step.
      check_trace
       \<lparr>tr_plan_id = pn_plan_id (at_plan a), tr_steps = [step], tr_attempted_sources = [at_source a],
        tr_succeeded_sources = (if status = AttemptSucceeded then [at_source a] else []),
        tr_failed_sources = (if status = AttemptFailed then [at_source a] else []),
        tr_timed_out_sources = (if status = AttemptTimedOut then [at_source a] else []),
        tr_evaluated_offer_count = count\<rparr>))"

definition terminal_record ::
  "durable_execution \<Rightarrow> attempt \<Rightarrow> datetime \<Rightarrow> attempt_status \<Rightarrow> string option \<Rightarrow> normalized_offer list \<Rightarrow> string option
     \<Rightarrow> string option \<Rightarrow> claim_error + durable_execution" where
  "terminal_record x a finished status category offers digest observation =
     (case dx_attempt_started_at x of
        None \<Rightarrow> Inl (ClaimInvalid AuthValueError)
      | Some started \<Rightarrow>
          and_then (attempt_trace a started finished status category (int (length offers))) (\<lambda>trace.
          relabel ClaimInvalid (check_execution (x
            \<lparr>dx_state := state_for (attempt_status_value status), dx_updated_at := finished,
             dx_finished_at := Some finished, dx_claimed_at := None, dx_claim_expires_at := None,
             dx_claim_digest := None, dx_outcome := Some (attempt_status_value status),
             dx_error_category := category, dx_evaluated_offer_count := int (length offers),
             dx_normalized_offer_count := int (length offers), dx_returned_currencies := map nf_currency offers,
             dx_normalized_amount_minors := map nf_price_amount_minor offers, dx_evidence_ids := [],
             dx_normalized_offer_digests := map normalized_offer_digest offers, dx_observation_kind := observation,
             dx_request_digest := digest, dx_trace := Some trace, dx_raw_response_persisted := False\<rparr>))))"

definition next_breaker ::
  "provider_state \<Rightarrow> interpreted \<Rightarrow> datetime \<Rightarrow> breaker_policy \<Rightarrow> claim_error + provider_state" where
  "next_breaker brk it now policy =
     relabel ClaimReliability
       (if it_success it then record_success brk now
        else
          (case it_failure_kind it of
             None \<Rightarrow> Inl RelValueError
           | Some kind \<Rightarrow> and_then (record_failure brk kind now policy) (\<lambda>updated.
               if ps_state updated = HALF_OPEN \<and> \<not> blank (probe_digest updated)
               then check_state (no_probe_lease updated) else Inr updated)))"

definition validate_running_claim :: "durable_execution \<Rightarrow> string \<Rightarrow> datetime \<Rightarrow> claim_error + active_claim_check" where
  "validate_running_claim r capability now =
     (let answer = (\<lambda>v why. relabel ClaimInvalid (check_active_claim \<lparr>ac_valid = v, ac_reason = why\<rparr>)) in
      if dx_state r \<noteq> Running then answer False (Some ''execution_not_running'')
      else and_then (case dx_claim_expires_at r of None \<Rightarrow> Inr False | Some e \<Rightarrow> claim_less now e) (\<lambda>on_time.
        if \<not> on_time then answer False (Some ''execution_claim_expired'')
        else
          (case execution_claim_digest capability of
             Inl _ \<Rightarrow> answer False (Some ''execution_claim_identity_mismatch'')
           | Inr expected \<Rightarrow>
               if dx_claim_digest r \<noteq> Some expected then answer False (Some ''execution_claim_identity_mismatch'')
               else answer True None)))"

definition stored_observation_kind :: "bool \<Rightarrow> bool \<Rightarrow> string option" where
  "stored_observation_kind success authority =
     (if authority then (if success then Some ''production'' else None) else Some ''synthetic'')"

definition offer_fact_of :: "attempt \<Rightarrow> bool \<Rightarrow> normalized_offer \<Rightarrow> offer_fact" where
  "offer_fact_of a authority f =
     \<lparr>fc_product_id = nf_product_id f, fc_variant_id = nf_variant_id f, fc_seller_identity = nf_seller_identity f,
      fc_amount_minor = nf_price_amount_minor f, fc_currency = nf_currency f,
      fc_availability = (if nf_availability f = ''unknown'' then None else Some (nf_availability f)),
      fc_observed_at = nf_checked_at f, fc_offer_digest = normalized_offer_digest f,
      fc_observation_kind = (if authority then ''production'' else ''synthetic''),
      fc_source_mode = (if authority then ''live'' else ''fixture''),
      fc_provider_id = st_provider_id (at_step a), fc_capability = capability_value (st_capability (at_step a)),
      fc_market = attempt_market a, fc_source = at_source a\<rparr>"

definition cost_unknown :: "normalized_offer \<Rightarrow> bool" where
  "cost_unknown f =
     (list_all (\<lambda>line. line = (None, ''unknown''))
        [nf_shipping f, nf_taxes f, nf_import_charges f, nf_voucher f] \<and>
      nf_price_state f \<noteq> ''final_effective_cost'')"

definition unknown_costs :: "normalized_offer list \<Rightarrow> string list" where
  "unknown_costs offers =
     (if offers = [] \<or> list_ex (\<lambda>f. \<not> cost_unknown f) offers then []
      else [''shipping'', ''tax'', ''import'', ''voucher''])"

definition verified_live_execution ::
  "attempt \<Rightarrow> transport \<Rightarrow> durable_execution \<Rightarrow> offer_fact list \<Rightarrow> claim_error + verified_execution option" where
  "verified_live_execution a t stored facts =
     (if \<not> production_live_evidence_authorized (at_permit a) t \<or> facts = [] then Inr None
      else if dx_state stored \<noteq> Completed \<or> dx_outcome stored \<noteq> Some ''succeeded'' then Inr None
      else map_sum (\<lambda>e. e) Some (check_verified
        \<lparr>vx_execution_id = dx_execution_id stored, vx_decision_id = dx_decision_id stored,
         vx_plan_id = dx_plan_id stored, vx_facts = facts\<rparr>))"

definition result_from_stored ::
  "durable_execution \<Rightarrow> bool \<Rightarrow> failure_kind option \<Rightarrow> string list \<Rightarrow> offer_fact list \<Rightarrow> execution_authority
     \<Rightarrow> verified_execution option \<Rightarrow> claim_error + attempt_result" where
  "result_from_stored x invoked kind costs facts given verified =
     (let authority = (if given = NoAuthority \<and> dx_observation_kind x = Some ''synthetic''
                       then SyntheticAuthority else given) in
      check_result
       \<lparr>xr_attempted = True, xr_transport_invoked = invoked, xr_persisted = True, xr_state = Some (dx_state x),
        xr_block_reason = None, xr_outcome = dx_outcome x, xr_error_category = dx_error_category x,
        xr_failure_kind = map_option kind_value kind, xr_evaluated_offer_count = dx_evaluated_offer_count x,
        xr_normalized_offer_count = dx_normalized_offer_count x, xr_returned_currencies = dx_returned_currencies x,
        xr_observation_kind = dx_observation_kind x,
        xr_source_mode_live = (authority = ProductionAuthority \<and> dx_state x = Completed \<and>
          dx_outcome x = Some ''succeeded''),
        xr_raw_response_persisted = False, xr_live_operational = False, xr_prior_decision_preserved = True,
        xr_retry_count = 0, xr_real_call_count = 0, xr_claim_released = (dx_claim_digest x = None),
        xr_trace = dx_trace x, xr_blocking_reasons = [], xr_unknown_costs = costs, xr_outcome_ambiguous = False,
        xr_offer_facts = facts, xr_authority = authority, xr_verified = verified\<rparr>)"

section \<open>Storing the outcome\<close>

text \<open>What the second transaction stores, or the reason it stores nothing.\<close>

definition outcome_rows ::
  "('s, 'l, 'f) claim_transaction \<Rightarrow> breaker_policy \<Rightarrow> transport \<Rightarrow> 's \<Rightarrow> attempt \<Rightarrow> prepared_call \<Rightarrow> interpreted \<Rightarrow> datetime
     \<Rightarrow> claim_error + (string \<times> exec_state option + durable_execution \<times> int \<times> provider_state \<times> int)" where
  "outcome_rows tx policy t s a prepared it finished =
     and_then (relabel ClaimExecution (tx_load_execution tx s (dx_execution_id (pc_execution prepared)))) (\<lambda>found.
     case found of
       None \<Rightarrow> Inr (Inl (''execution_not_prepared'', None))
     | Some x \<Rightarrow>
         if dx_state x \<noteq> Running then Inr (Inl (''execution_terminal'', Some (dx_state x)))
         else and_then (validate_running_claim x (at_claim_capability a) finished) (\<lambda>c.
         if \<not> ac_valid c
         then Inr (Inl (if blank (ac_reason c) then ''execution_claim_expired'' else the (ac_reason c), Some (dx_state x)))
         else and_then (relabel ClaimRepository
             (tx_load_breaker tx s (st_provider_id (at_step a)) (attempt_market a) finished)) (\<lambda>brk.
         and_then (probe_reason brk a finished) (\<lambda>probe.
         case probe of
           Some reason \<Rightarrow> Inr (Inl (reason, Some Running))
         | None \<Rightarrow>
             if it_success it \<and> ps_state brk = OPEN then Inr (Inl (''circuit_open'', Some Running))
             else and_then (next_breaker brk it finished policy) (\<lambda>nxt.
             and_then (terminal_record x a finished (it_attempt_status it) (it_error_category it) (it_offers it)
                 (Some (pc_request_digest prepared))
                 (stored_observation_kind (it_success it) (production_live_evidence_authorized (at_permit a) t))) (\<lambda>rec.
             Inr (Inr (rec, dx_revision x, nxt, ps_revision brk))))))))"

definition store_outcome ::
  "('s, 'l, 'f) claim_transaction \<Rightarrow> claim_stage option \<Rightarrow> 's \<times> 'l \<Rightarrow> durable_execution \<Rightarrow> int \<Rightarrow> provider_state \<Rightarrow> int
     \<Rightarrow> ('s \<times> 'l) \<times> (claim_error + durable_execution)" where
  "store_outcome tx fault w rec revision nxt brk_revision =
     (case fault_or fault AtExecution w (apsnd (relabel ClaimExecution) (tx_cas_execution tx w rec revision)) of
        (w1, Inl e) \<Rightarrow> (w1, Inl e)
      | (w1, Inr saved) \<Rightarrow>
          (case fault_or fault AtBreaker w1 (apsnd (relabel ClaimRepository) (tx_cas_breaker tx w1 nxt brk_revision)) of
             (w2, Inl e) \<Rightarrow> (w2, Inl e)
           | (w2, Inr _) \<Rightarrow> (w2, Inr saved)))"

fun outcome_conflict :: "claim_error \<Rightarrow> bool" where
  "outcome_conflict (ClaimExecution (AuthorizedExecutionRevisionConflict _ _)) = True"
| "outcome_conflict (ClaimRepository ReliabilityRevisionConflict) = True"
| "outcome_conflict _ = False"

definition outcome_result ::
  "transport \<Rightarrow> attempt \<Rightarrow> interpreted \<Rightarrow> durable_execution \<Rightarrow> bool \<Rightarrow> claim_error + attempt_result" where
  "outcome_result t a it saved invoked =
     (let authority = production_live_evidence_authorized (at_permit a) t;
          facts = (if it_success it then map (offer_fact_of a authority) (it_offers it) else []) in
      and_then (verified_live_execution a t saved facts) (\<lambda>verified.
        result_from_stored saved invoked (it_failure_kind it)
          (if it_success it then unknown_costs (it_offers it) else []) facts (result_authority (at_permit a)) verified))"

text \<open>A commit that raises has not committed.\<close>

definition commit_outcome ::
  "('s, 'l, 'f) claim_transaction \<Rightarrow> breaker_policy \<Rightarrow> transport \<Rightarrow> claim_stage option \<Rightarrow> 's \<Rightarrow> attempt \<Rightarrow> prepared_call
     \<Rightarrow> interpreted \<Rightarrow> datetime \<Rightarrow> bool \<Rightarrow> 's \<times> (claim_error + attempt_result)" where
  "commit_outcome tx policy t fault s a prepared it finished invoked =
     (let unavailable = refuse ''outcome_persistence_unavailable'' True invoked (Some Running); w0 = (s, tx_begin tx s) in
      if fault = Some AtLock \<or> fault = Some AtObserve then (s, unavailable)
      else
        (case outcome_rows tx policy t s a prepared it finished of
           Inl e \<Rightarrow> if is_persistence e then (tx_rollback tx w0, unavailable) else (tx_close tx w0, Inl e)
         | Inr (Inl (reason, state)) \<Rightarrow> (tx_rollback tx w0, refuse reason True invoked state)
         | Inr (Inr (rec, revision, nxt, brk_revision)) \<Rightarrow>
             (case store_outcome tx fault w0 rec revision nxt brk_revision of
                (w, Inr saved) \<Rightarrow>
                  if fault = Some AtCommit then (tx_rollback tx w, unavailable)
                  else (fst w, outcome_result t a it saved invoked)
              | (w, Inl e) \<Rightarrow>
                  if outcome_conflict e then (tx_rollback tx w, refuse ''stale_outcome_rejected'' True invoked (Some Running))
                  else if is_persistence e then (tx_rollback tx w, unavailable)
                  else (tx_close tx w, Inl e))))"

section \<open>The two operations of the service\<close>

definition read_clock :: "datetime \<Rightarrow> claim_error + datetime" where
  "read_clock moment = (if is_aware moment then Inr moment else Inl (ClaimInvalid AuthValueError))"

text \<open>After the call: \<open>None\<close> is a transport that raised.\<close>

definition settle_call ::
  "('s, 'l, 'f) claim_transaction \<Rightarrow> breaker_policy \<Rightarrow> 'p catalog_reader \<Rightarrow> transport \<Rightarrow> claim_stage option \<Rightarrow> 's \<Rightarrow> attempt
     \<Rightarrow> prepared_call \<Rightarrow> datetime \<Rightarrow> datetime \<Rightarrow> 'p transport_result option \<Rightarrow> 's \<times> (claim_error + attempt_result)" where
  "settle_call tx policy rd t fault s a prepared started finished response =
     (case response of
        None \<Rightarrow> (s, check_result (refusal_result ''ambiguous_transport_outcome'' True False (Some Running) [] True))
      | Some r \<Rightarrow>
          (case and_then (read_clock finished) (\<lambda>_. claim_less finished started) of
             Inl e \<Rightarrow> (s, Inl e)
           | Inr True \<Rightarrow> (s, refuse ''attempt_clock_regressed'' True True (Some Running))
           | Inr False \<Rightarrow>
               commit_outcome tx policy t fault s a prepared
                 (interpret_response rd finished (production_live_evidence_authorized (at_permit a) t) r) finished True))"

text \<open>
  The transport is asked at most once.  The third component is the request it was asked; \<open>mid\<close> is what others commit
  during the call, and the answer may depend on the request.
\<close>

definition execute ::
  "('s, 'l, 'f) claim_transaction \<Rightarrow> breaker_policy \<Rightarrow> 'p catalog_reader \<Rightarrow> transport \<Rightarrow> datetime \<times> datetime
     \<Rightarrow> (prepared_call \<Rightarrow> 'p transport_result option) \<Rightarrow> ('s \<Rightarrow> 's) \<Rightarrow> claim_stage option \<times> claim_stage option \<Rightarrow> 's \<Rightarrow> attempt
     \<Rightarrow> 's \<times> (claim_error + attempt_result) \<times> prepared_call option" where
  "execute tx policy rd t clocks post_json mid faults s a =
     (case local_refusal_reason a t of
        Some reason \<Rightarrow> (s, refuse reason False False None, None)
      | None \<Rightarrow>
          (case read_clock (fst clocks) of
             Inl e \<Rightarrow> (s, Inl e, None)
           | Inr started \<Rightarrow>
               (case begin_call tx (fst faults) s a started of
                  (s', Inl e) \<Rightarrow> (s', Inl e, None)
                | (s', Inr (Inl answer)) \<Rightarrow> (s', Inr answer, None)
                | (s', Inr (Inr prepared)) \<Rightarrow>
                    (case settle_call tx policy rd t (snd faults) (mid s') a prepared started (snd clocks)
                        (post_json prepared) of
                       (s'', r) \<Rightarrow> (s'', r, Some prepared)))))"

text \<open>What a reconciliation stores, or the reason it does not.\<close>

definition reconcile_row ::
  "('s, 'l, 'f) claim_transaction \<Rightarrow> 's \<Rightarrow> attempt \<Rightarrow> datetime
     \<Rightarrow> claim_error + (string \<times> bool \<times> exec_state option + durable_execution \<times> int)" where
  "reconcile_row tx s a finished =
     and_then (attempt_execution_id a) (\<lambda>i.
     and_then (relabel ClaimExecution (tx_load_execution tx s i)) (\<lambda>found.
     case found of
       None \<Rightarrow> Inr (Inl (''execution_not_prepared'', False, None))
     | Some x \<Rightarrow>
         if dx_state x \<noteq> Running
         then Inr (Inl (if dx_state x \<in> terminal_execution_states then ''execution_terminal'' else ''execution_not_running'',
           False, Some (dx_state x)))
         else and_then (case dx_claim_expires_at x of None \<Rightarrow> Inr False | Some e \<Rightarrow> claim_less finished e) (\<lambda>claimed.
         if claimed then Inr (Inl (''attempt_still_claimed'', True, Some Running))
         else and_then (case dx_attempt_started_at x of None \<Rightarrow> Inr False | Some b \<Rightarrow> claim_less finished b) (\<lambda>regressed.
         if regressed then Inr (Inl (''attempt_clock_regressed'', True, Some Running))
         else and_then (terminal_record x a finished AttemptUnknown (Some ''outcome_unknown'') [] (dx_request_digest x) None)
           (\<lambda>rec. Inr (Inr (rec, dx_revision x)))))))"

definition reconcile_ambiguous ::
  "('s, 'l, 'f) claim_transaction \<Rightarrow> claim_stage option \<Rightarrow> datetime \<Rightarrow> 's \<Rightarrow> attempt \<Rightarrow> 's \<times> (claim_error + attempt_result)" where
  "reconcile_ambiguous tx fault clock s a =
     (case read_clock clock of
        Inl e \<Rightarrow> (s, Inl e)
      | Inr finished \<Rightarrow>
          (let early = refuse ''outcome_persistence_unavailable'' False False None;
               late_fault = refuse ''outcome_persistence_unavailable'' True False (Some Running); w0 = (s, tx_begin tx s) in
           if fault = Some AtLock \<or> fault = Some AtObserve then (s, early)
           else
             (case reconcile_row tx s a finished of
                Inl e \<Rightarrow> if is_persistence e then (tx_rollback tx w0, early) else (tx_close tx w0, Inl e)
              | Inr (Inl (reason, attempted, state)) \<Rightarrow> (tx_rollback tx w0, refuse reason attempted False state)
              | Inr (Inr (rec, revision)) \<Rightarrow>
                  (case fault_or fault AtExecution w0 (apsnd (relabel ClaimExecution) (tx_cas_execution tx w0 rec revision)) of
                     (w, Inr saved) \<Rightarrow>
                       if fault = Some AtCommit then (tx_rollback tx w, late_fault)
                       else (fst w, result_from_stored saved False None [] [] NoAuthority None)
                   | (w, Inl e) \<Rightarrow>
                       if outcome_conflict e then (tx_rollback tx w, refuse ''stale_outcome_rejected'' True False (Some Running))
                       else if is_persistence e then (tx_rollback tx w, late_fault)
                       else (tx_close tx w, Inl e)))))"

end
