(* ===== verification/LiveStartFacts.thy ===== *)
theory LiveStartFacts
  imports LiveStart ConversationFacts
begin

text \<open>
  What a claim transaction promises, as a contract over the three kinds of rows, and that both transactions keep it.
  \<open>pending\<close> says that a rollback leads back to the rows the transaction began with.  The only trace a rolled
  back transaction may leave is that a conversation that had expired is gone (\<open>get_effect\<close>).
\<close>

section \<open>The contract\<close>

definition consumed_effect ::
  "conv_settings \<Rightarrow> datetime \<Rightarrow> consumption \<Rightarrow> (string \<Rightarrow> 'f conversation_context option)
     \<Rightarrow> (string \<Rightarrow> 'f conversation_context option) \<Rightarrow> bool" where
  "consumed_effect cfg clk c before after =
     (\<exists>p u. before (cm_conversation_id c) = Some p \<and> is_expired clk p = Inr False \<and>
        consume_exact_research_authorization p (cm_owner c) (cm_request c) (cm_now c) = Inr u \<and>
        cx_version p = cm_expected_version c \<and>
        after = before(cm_conversation_id c \<mapsto> stored_context cfg u (cx_version p + 1)))"

locale claim_store =
  fixes tx :: "('s, 'l, 'f) claim_transaction" and cfg :: conv_settings and clk :: datetime
    and ok :: "'s \<Rightarrow> bool" and ex :: "'s \<Rightarrow> exec_map" and br :: "'s \<Rightarrow> breaker_map"
    and cv :: "'s \<Rightarrow> string \<Rightarrow> 'f conversation_context option" and pending :: "'s \<Rightarrow> 's \<times> 'l \<Rightarrow> bool"
  assumes rows_law: "ok s \<Longrightarrow> rows_valid (ex s) \<and> stored_ok (br s)"
    and context_law: "ok s \<Longrightarrow> cv s i = Some p \<Longrightarrow> cv_id p = i \<and> well_formed cfg p"
    and begin_law: "ok s \<Longrightarrow> pending s (s, tx_begin tx s)"
    and load_execution_law: "ok s \<Longrightarrow> tx_load_execution tx s i = Inr (ex s i)"
    and load_breaker_law: "ok s \<Longrightarrow> tx_load_breaker tx s prov market now = spec_load (br s) prov market now"
    and load_conversation_law: "ok s \<Longrightarrow> tx_load_conversation tx s i = (s', r) \<Longrightarrow>
      ok s' \<and> pending s (s', tx_begin tx s) \<and> ex s' = ex s \<and> br s' = br s \<and>
      (\<forall>j. get_effect clk (cv s j) (cv s' j)) \<and>
      (\<forall>found. r = Inr found \<longrightarrow> cv s' i = found \<and> (found \<noteq> None \<longrightarrow> s' = s) \<and>
         (\<forall>p. found = Some p \<longrightarrow> is_expired clk p = Inr False))"
    and present_law: "ok s \<Longrightarrow> cv s i = Some p \<Longrightarrow> is_expired clk p = Inr False \<Longrightarrow>
      tx_load_conversation tx s i = (s, Inr (Some p))"
    and cas_execution_law: "pending s0 w \<Longrightarrow> ok (fst w) \<Longrightarrow> tx_cas_execution tx w x e = (w', a) \<Longrightarrow>
      pending s0 w' \<and> ok (fst w') \<and> br (fst w') = br (fst w) \<and> cv (fst w') = cv (fst w) \<and>
      (ex (fst w'), a) = spec_write (replaced x e) (ex (fst w)) (dx_execution_id x) e"
    and cas_breaker_law: "pending s0 w \<Longrightarrow> ok (fst w) \<Longrightarrow> valid_state st \<Longrightarrow> 0 \<le> e \<Longrightarrow>
      tx_cas_breaker tx w st e = (w', b) \<Longrightarrow>
      pending s0 w' \<and> ok (fst w') \<and> ex (fst w') = ex (fst w) \<and> cv (fst w') = cv (fst w) \<and>
      (br (fst w'), b) = spec_save (br (fst w)) st e"
    and consume_law: "pending s0 w \<Longrightarrow> ok (fst w) \<Longrightarrow> tx_consume tx w c = (w', d) \<Longrightarrow>
      pending s0 w' \<and> ok (fst w') \<and> ex (fst w') = ex (fst w) \<and> br (fst w') = br (fst w) \<and>
      (\<forall>st. d = Inr st \<longrightarrow> consumed_effect cfg clk c (cv (fst w)) (cv (fst w')))"
    and rollback_law: "ok s0 \<Longrightarrow> pending s0 w \<Longrightarrow> ok (fst w) \<Longrightarrow> ok (tx_rollback tx w) \<and>
      ex (tx_rollback tx w) = ex s0 \<and> br (tx_rollback tx w) = br s0 \<and>
      (\<forall>j. get_effect clk (cv s0 j) (cv (tx_rollback tx w) j))"

lemma get_effect_trans: "get_effect now b m \<Longrightarrow> get_effect now m a \<Longrightarrow> get_effect now b a"
  by (auto simp: get_effect_def)

section \<open>The database transaction\<close>

definition op_tx_ok :: "conv_settings \<Rightarrow> 'f claim_tables \<Rightarrow> bool" where
  "op_tx_ok cfg s =
     (op_exec_ok (ct_executions s) \<and> op_rel_ok (ct_breakers s) \<and> op_conv_ok cfg (ct_conversations s))"

definition op_tx_pending :: "'f claim_tables \<Rightarrow> 'f claim_tables \<times> 'f claim_tables \<Rightarrow> bool" where
  "op_tx_pending s0 w = (snd w = s0)"

lemma mem_save_stored:
  assumes "mem_conv_get now rows (cv_id c) = (rows, Inr (Some p))"
    and "mem_conv_save cfg now rows c (Some e) = (rows', Inr st)"
  shows "e = cx_version p \<and> st = stored_context cfg c (cx_version p + 1) \<and> rows' = dict_set (cv_id c) st rows"
  using assms
  by (auto simp: mem_conv_save_def expected_or_def Let_def split: sum.splits if_split_asm)

lemma op_save_stored:
  assumes ok: "op_conv_ok cfg t" and p: "op_conv_view t (cv_id c) = Some p"
    and valid: "cx_decision_context c \<noteq> None \<longrightarrow> cv_owner c \<noteq> None"
    and run: "op_conv_save cfg now t c (Some e) = (t', Inr st)"
  shows "e = cx_version p \<and> st = stored_context cfg c (cx_version p + 1) \<and>
    op_conv_view t' = (op_conv_view t)(cv_id c \<mapsto> st)"
proof -
  let ?b = "stored_context cfg c (cx_version c)"
  have member: "require_context_membership ?b = Inr ()" and swap: "op_conv_swap cfg t ?b e = (t', Inr st)"
    using run p by (auto simp: op_conv_save_def Let_def expected_or_def op_conv_load_view [OF ok]
        split: sum.splits if_split_asm)
  show ?thesis using op_swap_effect [OF ok swap _ member] valid p by auto
qed

lemma lift_auth_Inr: "lift_auth r = Inr x \<longleftrightarrow> r = Inr x"
  by (cases r) (simp_all add: lift_auth_def)

lemma op_consume_stored:
  assumes ok: "op_conv_ok cfg t"
    and run: "op_conv_consume cfg clk (\<lambda>t. t) t i o' q at e = (t', Inr st)"
  shows "\<exists>p u. op_conv_view t i = Some p \<and> is_expired clk p = Inr False \<and>
    consume_exact_research_authorization p o' q at = Inr u \<and> cx_version p = e \<and>
    op_conv_view t' = (op_conv_view t)(i \<mapsto> stored_context cfg u (cx_version p + 1))"
proof -
  obtain t1 g where get: "op_conv_get clk t i = (t1, g)" by force
  then obtain p u where p: "g = Inr (Some p)" "lift_auth (consume_exact_research_authorization p o' q at) = Inr u"
    "op_conv_save cfg clk t1 u (Some e) = (t', Inr st)"
    using run by (auto simp: op_conv_consume_def split: sum.splits option.splits)
  have g: "t1 = t" "op_conv_view t i = Some p" "is_expired clk p = Inr False"
    using op_get_effect [OF ok get] p(1) by auto
  have u: "cv_id u = i" "cx_decision_context u \<noteq> None \<longrightarrow> cv_owner u \<noteq> None" "cx_version u = cx_version p"
    using lift_consume_keeps [OF p(2)] op_conv_ok_row [OF ok g(2)] by (auto simp: well_formed_def)
  show ?thesis
    using op_save_stored [OF ok _ u(2), of p clk e t' st] u p g by (auto simp: lift_auth_Inr)
qed

lemma mem_consume_stored:
  assumes ok: "mem_conv_ok cfg rows"
    and run: "mem_conv_consume cfg clk rows i o' q at e = (rows', Inr st)"
  shows "\<exists>p u. dict_get rows i = Some p \<and> is_expired clk p = Inr False \<and>
    consume_exact_research_authorization p o' q at = Inr u \<and> cx_version p = e \<and>
    dict_get rows' = (dict_get rows)(i \<mapsto> stored_context cfg u (cx_version p + 1))"
proof -
  obtain rows1 g where get: "mem_conv_get clk rows i = (rows1, g)" by force
  then obtain p u where p: "g = Inr (Some p)" "lift_auth (consume_exact_research_authorization p o' q at) = Inr u"
    "mem_conv_save cfg clk rows1 u (Some e) = (rows', Inr st)"
    using run by (auto simp: mem_conv_consume_def split: sum.splits option.splits)
  have g: "rows1 = rows" "dict_get rows i = Some p" "is_expired clk p = Inr False"
    using mem_get_effect [OF ok get] p(1) by auto
  have u: "cv_id u = i" using lift_consume_keeps [OF p(2)] g(2) ok by (auto simp: mem_conv_ok_def)
  show ?thesis
    using mem_save_stored [of clk rows u p cfg e rows' st] u p g get by (auto simp: lift_auth_Inr dict_get_set_map)
qed

lemma op_step_ok:
  "op_conv_ok cfg t \<Longrightarrow> op_conv_consume cfg clk (\<lambda>t. t) t i o' q at e = (t', r) \<Longrightarrow> op_conv_ok cfg t'"
  using op_conv.step_law [of cfg t "CConsume i o' q at e" clk t' r] by simp

interpretation op_claim: claim_store "operational_claim_transaction cfg clk" cfg clk "op_tx_ok cfg"
  "\<lambda>s. op_exec_view (ct_executions s)" "\<lambda>s. op_rel_view (ct_breakers s)" "\<lambda>s. op_conv_view (ct_conversations s)"
  op_tx_pending
  for cfg :: conv_settings and clk :: datetime
proof
  fix s :: "'a claim_tables" and i p m and now :: datetime
  assume ok: "op_tx_ok cfg s"
  show "rows_valid (op_exec_view (ct_executions s)) \<and> stored_ok (op_rel_view (ct_breakers s))"
    using ok by (simp add: op_tx_ok_def op_exec_ok_def op_rel_ok_def)
  show "op_tx_pending s (s, tx_begin (operational_claim_transaction cfg clk) s)"
    by (simp add: op_tx_pending_def operational_claim_transaction_def)
  show "tx_load_execution (operational_claim_transaction cfg clk) s i = Inr (op_exec_view (ct_executions s) i)"
    using ok by (simp add: operational_claim_transaction_def op_tx_ok_def op_exec_load_view)
  show "tx_load_breaker (operational_claim_transaction cfg clk) s p m now =
      spec_load (op_rel_view (ct_breakers s)) p m now"
    using ok op_rel.load_law [of "ct_breakers s" p m now]
    by (simp add: operational_claim_transaction_def op_tx_ok_def operational_rel_repository_def)
next
  fix s :: "'a claim_tables" and i c
  assume "op_tx_ok cfg s" "op_conv_view (ct_conversations s) i = Some c"
  then show "cv_id c = i \<and> well_formed cfg c" using op_conv.view_law by (auto simp: op_tx_ok_def)
next
  fix s s' :: "'a claim_tables" and i r
  assume ok: "op_tx_ok cfg s" and run: "tx_load_conversation (operational_claim_transaction cfg clk) s i = (s', r)"
  obtain t where get: "op_conv_get clk (ct_conversations s) i = (t, r)" and s': "s' = s\<lparr>ct_conversations := t\<rparr>"
    using run by (auto simp: operational_claim_transaction_def op_tx_load_conversation_def split: prod.splits)
  have "op_conv_ok cfg (ct_conversations s)" using ok by (simp add: op_tx_ok_def)
  note g = op_get_effect [OF this get]
  show "op_tx_ok cfg s' \<and> op_tx_pending s (s', tx_begin (operational_claim_transaction cfg clk) s) \<and>
      op_exec_view (ct_executions s') = op_exec_view (ct_executions s) \<and>
      op_rel_view (ct_breakers s') = op_rel_view (ct_breakers s) \<and>
      (\<forall>j. get_effect clk (op_conv_view (ct_conversations s) j) (op_conv_view (ct_conversations s') j)) \<and>
      (\<forall>found. r = Inr found \<longrightarrow> op_conv_view (ct_conversations s') i = found \<and> (found \<noteq> None \<longrightarrow> s' = s) \<and>
         (\<forall>p. found = Some p \<longrightarrow> is_expired clk p = Inr False))"
    using ok g by (auto simp: s' op_tx_ok_def op_tx_pending_def operational_claim_transaction_def)
next
  fix s :: "'a claim_tables" and i p
  assume ok: "op_tx_ok cfg s" and p: "op_conv_view (ct_conversations s) i = Some p" "is_expired clk p = Inr False"
  have "op_conv_load (ct_conversations s) i = Inr (Some p)"
    using op_conv_load_view [of cfg "ct_conversations s" i] ok p by (simp add: op_tx_ok_def)
  then show "tx_load_conversation (operational_claim_transaction cfg clk) s i = (s, Inr (Some p))"
    using p by (simp add: operational_claim_transaction_def op_tx_load_conversation_def op_conv_get_def)
next
  fix s0 :: "'a claim_tables" and w x e w' a
  assume "op_tx_pending s0 w" and ok: "op_tx_ok cfg (fst w)"
    and run: "tx_cas_execution (operational_claim_transaction cfg clk) w x e = (w', a)"
  then show "op_tx_pending s0 w' \<and> op_tx_ok cfg (fst w') \<and>
      op_rel_view (ct_breakers (fst w')) = op_rel_view (ct_breakers (fst w)) \<and>
      op_conv_view (ct_conversations (fst w')) = op_conv_view (ct_conversations (fst w)) \<and>
      (op_exec_view (ct_executions (fst w')), a) =
        spec_write (replaced x e) (op_exec_view (ct_executions (fst w))) (dx_execution_id x) e"
    using op_exec_cas_spec [of "ct_executions (fst w)" x e]
    by (auto simp: operational_claim_transaction_def op_tx_cas_execution_def op_tx_ok_def op_tx_pending_def
        split: prod.splits)
next
  fix s0 :: "'a claim_tables" and w st and e :: int and w' b
  assume "op_tx_pending s0 w" and ok: "op_tx_ok cfg (fst w)" and st: "valid_state st" "0 \<le> e"
    and run: "tx_cas_breaker (operational_claim_transaction cfg clk) w st e = (w', b)"
  then show "op_tx_pending s0 w' \<and> op_tx_ok cfg (fst w') \<and>
      op_exec_view (ct_executions (fst w')) = op_exec_view (ct_executions (fst w)) \<and>
      op_conv_view (ct_conversations (fst w')) = op_conv_view (ct_conversations (fst w)) \<and>
      (op_rel_view (ct_breakers (fst w')), b) = spec_save (op_rel_view (ct_breakers (fst w))) st e"
    using op_rel_save_refines [of "ct_breakers (fst w)" st e]
    by (auto simp: operational_claim_transaction_def op_tx_cas_breaker_def op_tx_ok_def op_tx_pending_def
        split: prod.splits)
next
  fix s0 :: "'a claim_tables" and w c w' d
  assume pend: "op_tx_pending s0 w" and ok: "op_tx_ok cfg (fst w)"
    and run: "tx_consume (operational_claim_transaction cfg clk) w c = (w', d)"
  obtain t where t: "op_conv_consume cfg clk (\<lambda>t. t) (ct_conversations (fst w)) (cm_conversation_id c) (cm_owner c)
      (cm_request c) (cm_now c) (cm_expected_version c) = (t, d)" and w': "w' = ((fst w)\<lparr>ct_conversations := t\<rparr>, snd w)"
    using run by (auto simp: operational_claim_transaction_def op_tx_consume_def split: prod.splits)
  have conv: "op_conv_ok cfg (ct_conversations (fst w))" using ok by (simp add: op_tx_ok_def)
  show "op_tx_pending s0 w' \<and> op_tx_ok cfg (fst w') \<and>
      op_exec_view (ct_executions (fst w')) = op_exec_view (ct_executions (fst w)) \<and>
      op_rel_view (ct_breakers (fst w')) = op_rel_view (ct_breakers (fst w)) \<and>
      (\<forall>st. d = Inr st \<longrightarrow> consumed_effect cfg clk c (op_conv_view (ct_conversations (fst w)))
         (op_conv_view (ct_conversations (fst w'))))"
    using pend ok op_step_ok [OF conv t] op_consume_stored [OF conv] t
    by (auto simp: w' op_tx_pending_def op_tx_ok_def consumed_effect_def)
next
  fix s0 :: "'a claim_tables" and w
  assume "op_tx_ok cfg s0" "op_tx_pending s0 w" "op_tx_ok cfg (fst w)"
  then show "op_tx_ok cfg (tx_rollback (operational_claim_transaction cfg clk) w) \<and>
      op_exec_view (ct_executions (tx_rollback (operational_claim_transaction cfg clk) w)) = op_exec_view (ct_executions s0) \<and>
      op_rel_view (ct_breakers (tx_rollback (operational_claim_transaction cfg clk) w)) = op_rel_view (ct_breakers s0) \<and>
      (\<forall>j. get_effect clk (op_conv_view (ct_conversations s0) j)
         (op_conv_view (ct_conversations (tx_rollback (operational_claim_transaction cfg clk) w)) j))"
    by (simp add: operational_claim_transaction_def op_tx_pending_def)
qed

section \<open>The process-local transaction\<close>

definition put_back :: "('k, 'v) dict \<Rightarrow> 'k \<Rightarrow> 'v option \<Rightarrow> ('k, 'v) dict" where
  "put_back rows i previous = (case previous of None \<Rightarrow> dict_del i rows | Some v \<Rightarrow> dict_set i v rows)"

lemma restores_put_back:
  "mem_exec_restore_row = put_back" "mem_conv_restore_row = put_back"
  by (simp_all add: fun_eq_iff put_back_def mem_exec_restore_row_def mem_conv_restore_row_def split: option.split)

lemma rel_restore_put_back:
  "reliability_record_key p m = Inr key \<Longrightarrow> fst (mem_rel_restore_row rows p m previous) = put_back rows key previous"
  by (simp add: put_back_def mem_rel_restore_row_def split: option.split)

lemma put_back_get: "dict_get (put_back rows i previous) = (dict_get rows)(i := previous)"
  by (cases previous) (auto simp: put_back_def dict_simps fun_eq_iff)

lemma put_back_ok: "dict_ok rows \<Longrightarrow> dict_ok (put_back rows i previous)"
  by (cases previous) (simp_all add: put_back_def)

definition put_all_back :: "('k, 'v) dict \<Rightarrow> ('k, 'v option) dict \<Rightarrow> ('k, 'v) dict" where
  "put_all_back rows log = foldl (\<lambda>rows (i, previous). put_back rows i previous) rows log"

lemma put_all_back_get:
  "dict_ok log \<Longrightarrow> dict_get (put_all_back rows log) k =
     (case dict_get log k of None \<Rightarrow> dict_get rows k | Some previous \<Rightarrow> previous)"
proof (induction log arbitrary: rows)
  case Nil
  then show ?case by (simp add: put_all_back_def)
next
  case (Cons a log)
  obtain i previous where a: "a = (i, previous)" by force
  have "dict_ok log" "dict_get log i = None"
    using Cons.prems by (auto simp: dict_ok_def a map_of_eq_None_iff)
  then show ?case using Cons.IH [of "put_back rows i previous"]
    by (auto simp: put_all_back_def a put_back_get split: option.split)
qed

lemma put_all_back_ok: "dict_ok rows \<Longrightarrow> dict_ok (put_all_back rows log)"
  unfolding put_all_back_def by (induction log arbitrary: rows) (auto simp: put_back_ok)

text \<open>Undoing the log leads back, up to \<open>R\<close>, to the rows before.\<close>

definition undoes :: "('v option \<Rightarrow> 'v option \<Rightarrow> bool) \<Rightarrow> ('k, 'v option) dict \<Rightarrow> ('k \<Rightarrow> 'v option) \<Rightarrow> ('k \<Rightarrow> 'v option) \<Rightarrow> bool" where
  "undoes R log before after =
     (dict_ok log \<and> (\<forall>k. R (before k) (case dict_get log k of None \<Rightarrow> after k | Some previous \<Rightarrow> previous)))"

lemma undoes_put_back: "undoes R log before (dict_get rows) \<Longrightarrow> R (before k) (dict_get (put_all_back rows log) k)"
  by (simp add: undoes_def put_all_back_get)

lemma undoes_put_back_eq: "undoes (=) log before (dict_get rows) \<Longrightarrow> dict_get (put_all_back rows log) = before"
  using undoes_put_back [of "(=)"] by (metis ext)

lemma undoes_write:
  assumes "undoes R log before now" and "\<And>j. j \<noteq> i \<Longrightarrow> now' j = now j"
  shows "undoes R (keep_first i (now i) log) before now'"
  unfolding undoes_def
proof (intro conjI allI)
  show "dict_ok (keep_first i (now i) log)" using assms(1) by (simp add: keep_first_def undoes_def)
  fix k
  have "(case dict_get (keep_first i (now i) log) k of None \<Rightarrow> now' k | Some previous \<Rightarrow> previous) =
      (case dict_get log k of None \<Rightarrow> now k | Some previous \<Rightarrow> previous)"
    using assms(2) [of k] by (cases "k = i") (auto simp: keep_first_def dict_get_set split: option.split)
  then show "R (before k) (case dict_get (keep_first i (now i) log) k of None \<Rightarrow> now' k | Some previous \<Rightarrow> previous)"
    using assms(1) by (simp add: undoes_def)
qed

definition breaker_log :: "'f claim_log \<Rightarrow> (string, provider_state option) dict" where
  "breaker_log l = map (\<lambda>(key, p, m, previous). (key, previous)) (lg_breakers l)"

definition mem_tx_ok :: "conv_settings \<Rightarrow> 'f claim_rows \<Rightarrow> bool" where
  "mem_tx_ok cfg s =
     (mem_exec_ok (cr_executions s) \<and> mem_rel_ok (cr_breakers s) \<and> mem_conv_ok cfg (cr_conversations s))"

definition mem_tx_pending :: "datetime \<Rightarrow> 'f claim_rows \<Rightarrow> 'f claim_rows \<times> 'f claim_log \<Rightarrow> bool" where
  "mem_tx_pending clk s0 w =
     (undoes (=) (lg_executions (snd w)) (dict_get (cr_executions s0)) (dict_get (cr_executions (fst w))) \<and>
      undoes (=) (breaker_log (snd w)) (dict_get (cr_breakers s0)) (dict_get (cr_breakers (fst w))) \<and>
      (\<forall>(key, p, m, previous)\<in>set (lg_breakers (snd w)). reliability_record_key p m = Inr key) \<and>
      undoes (get_effect clk) (lg_conversations (snd w)) (dict_get (cr_conversations s0))
        (dict_get (cr_conversations (fst w))))"

lemma mem_tx_rollback_form:
  assumes "\<forall>(key, p, m, previous)\<in>set (lg_breakers l). reliability_record_key p m = Inr key"
  shows "mem_tx_rollback (s, l) =
    s\<lparr>cr_executions := put_all_back (cr_executions s) (lg_executions l),
      cr_breakers := put_all_back (cr_breakers s) (breaker_log l),
      cr_conversations := put_all_back (cr_conversations s) (lg_conversations l)\<rparr>"
proof -
  have "foldl (\<lambda>rows (key, p, m, previous). fst (mem_rel_restore_row rows p m previous)) rows log =
      put_all_back rows (map (\<lambda>(key, p, m, previous). (key, previous)) log)"
    if "\<forall>(key, p, m, previous)\<in>set log. reliability_record_key p m = Inr key" for rows log
    using that by (induction log arbitrary: rows) (auto simp: put_all_back_def rel_restore_put_back)
  from this [OF assms] show ?thesis
    by (simp add: mem_tx_rollback_def breaker_log_def put_all_back_def restores_put_back case_prod_unfold)
qed

lemma mem_tx_undone:
  assumes ok0: "mem_tx_ok cfg s0" and pend: "mem_tx_pending clk s0 w" and ok: "mem_tx_ok cfg (fst w)"
  shows "mem_tx_ok cfg (mem_tx_rollback w) \<and>
    dict_get (cr_executions (mem_tx_rollback w)) = dict_get (cr_executions s0) \<and>
    dict_get (cr_breakers (mem_tx_rollback w)) = dict_get (cr_breakers s0) \<and>
    (\<forall>j. get_effect clk (dict_get (cr_conversations s0) j) (dict_get (cr_conversations (mem_tx_rollback w)) j))"
proof -
  obtain s l where w: "w = (s, l)" by force
  note p = pend [unfolded mem_tx_pending_def w fst_conv snd_conv]
  have form: "mem_tx_rollback w = s\<lparr>cr_executions := put_all_back (cr_executions s) (lg_executions l),
      cr_breakers := put_all_back (cr_breakers s) (breaker_log l),
      cr_conversations := put_all_back (cr_conversations s) (lg_conversations l)\<rparr>"
    unfolding w using mem_tx_rollback_form p by blast
  have e: "dict_get (put_all_back (cr_executions s) (lg_executions l)) = dict_get (cr_executions s0)"
    and b: "dict_get (put_all_back (cr_breakers s) (breaker_log l)) = dict_get (cr_breakers s0)"
    by (rule undoes_put_back_eq, use p in blast)+
  have c: "\<forall>j. get_effect clk (dict_get (cr_conversations s0) j)
      (dict_get (put_all_back (cr_conversations s) (lg_conversations l)) j)"
    by (rule allI, rule undoes_put_back, use p in blast)
  have "dict_ok (cr_executions s)" "dict_ok (cr_breakers s)" "dict_ok (cr_conversations s)"
    using ok by (simp_all add: w mem_tx_ok_def mem_exec_ok_def mem_rel_ok_def mem_conv_ok_def)
  note dicts = this [THEN put_all_back_ok]
  have "mem_conv_ok cfg (put_all_back (cr_conversations s) (lg_conversations l))"
  proof -
    have "cv_id p = i \<and> well_formed cfg p"
      if "dict_get (put_all_back (cr_conversations s) (lg_conversations l)) i = Some p" for i p
    proof -
      have "get_effect clk (dict_get (cr_conversations s0) i) (Some p)" using spec [OF c, of i] that by simp
      then have "dict_get (cr_conversations s0) i = Some p" by (auto simp: get_effect_def)
      then show ?thesis using ok0 by (simp add: mem_tx_ok_def mem_conv_ok_def)
    qed
    then show ?thesis using dicts(3) by (simp add: mem_conv_ok_def)
  qed
  moreover have "mem_exec_ok (put_all_back (cr_executions s) (lg_executions l))"
    "mem_rel_ok (put_all_back (cr_breakers s) (breaker_log l))"
    using ok0 e b dicts by (simp_all add: mem_tx_ok_def mem_exec_ok_def mem_rel_ok_def)
  ultimately show ?thesis using e b c by (simp add: form mem_tx_ok_def)
qed

lemma mem_get_only: "mem_conv_get now rows i = (rows', r) \<Longrightarrow> j \<noteq> i \<Longrightarrow> dict_get rows' j = dict_get rows j"
  by (auto simp: mem_conv_get_def dict_get_del split: option.splits sum.splits bool.splits)

lemma mem_save_only:
  assumes "mem_conv_save cfg now rows c ev = (rows', r)" and "j \<noteq> cv_id c"
  shows "dict_get rows' j = dict_get rows j"
proof -
  obtain rows1 g where get: "mem_conv_get now rows (cv_id c) = (rows1, g)" by force
  have "dict_get rows' j = dict_get rows1 j \<or> rows' = rows"
    using assms get by (auto simp: mem_conv_save_def Let_def dict_get_set split: sum.splits option.splits if_split_asm)
  then show ?thesis using mem_get_only [OF get assms(2)] by auto
qed

lemma mem_consume_only:
  assumes ok: "mem_conv_ok cfg rows" and run: "mem_conv_consume cfg clk rows i o' q at e = (rows', r)" and "j \<noteq> i"
  shows "dict_get rows' j = dict_get rows j"
proof -
  obtain rows1 g where get: "mem_conv_get clk rows i = (rows1, g)" by force
  note only = mem_get_only [OF get \<open>j \<noteq> i\<close>]
  show ?thesis
  proof (cases "\<exists>p u. g = Inr (Some p) \<and> lift_auth (consume_exact_research_authorization p o' q at) = Inr u")
    case True
    then obtain p u where p: "g = Inr (Some p)" "lift_auth (consume_exact_research_authorization p o' q at) = Inr u"
      by blast
    have "rows1 = rows" "dict_get rows i = Some p" using mem_get_effect [OF ok get] p(1) by auto
    then have "cv_id u = i" using lift_consume_keeps [OF p(2)] ok by (auto simp: mem_conv_ok_def)
    moreover have "mem_conv_save cfg clk rows1 u (Some e) = (rows', r)"
      using run get p by (simp add: mem_conv_consume_def)
    ultimately show ?thesis using mem_save_only \<open>j \<noteq> i\<close> only by metis
  next
    case False
    then have "rows' = rows1"
      using run get by (auto simp: mem_conv_consume_def split: sum.splits option.splits)
    then show ?thesis using only by simp
  qed
qed

lemma undoes_get_effect:
  assumes "undoes (get_effect clk) log before (dict_get rows)" and "mem_conv_ok cfg rows"
    and "mem_conv_get clk rows i = (rows', r)"
  shows "undoes (get_effect clk) log before (dict_get rows')"
proof -
  have "get_effect clk (dict_get rows j) (dict_get rows' j)" for j using mem_get_effect [OF assms(2,3)] by blast
  then show ?thesis
    using assms(1) get_effect_trans unfolding undoes_def by (metis option.case_eq_if)
qed

lemma spec_write_only: "j \<noteq> i \<Longrightarrow> fst (spec_write change V i e) j = V j"
  by (auto simp: spec_write_def split: option.split sum.split)

lemma spec_save_only: "j \<noteq> ps_provider_id st @ ''|'' @ ps_market st \<Longrightarrow> fst (spec_save V st e) j = V j"
  by (simp add: spec_save_def Let_def)

lemma mem_tx_cas_execution_law:
  assumes pend: "mem_tx_pending clk s0 w" and ok: "mem_tx_ok cfg (fst w)"
    and run: "mem_tx_cas_execution w x e = (w', a)"
  shows "mem_tx_pending clk s0 w' \<and> mem_tx_ok cfg (fst w') \<and>
    cr_breakers (fst w') = cr_breakers (fst w) \<and> cr_conversations (fst w') = cr_conversations (fst w) \<and>
    (dict_get (cr_executions (fst w')), a) =
      spec_write (replaced x e) (dict_get (cr_executions (fst w))) (dx_execution_id x) e"
proof -
  obtain s l where w: "w = (s, l)" by force
  obtain rows where rows: "mem_exec_cas_replace (cr_executions s) x e = (rows, a)"
    and w': "w' = (s\<lparr>cr_executions := rows\<rparr>, l\<lparr>lg_executions := keep_first (dx_execution_id x)
      (dict_get (cr_executions s) (dx_execution_id x)) (lg_executions l)\<rparr>)"
    using run by (auto simp: w mem_tx_cas_execution_def Let_def mem_exec_get_def split: prod.splits)
  have "mem_exec_ok (cr_executions s)" using ok by (simp add: w mem_tx_ok_def)
  note spec = mem_exec_cas_spec [OF this, of x e, unfolded rows fst_conv snd_conv]
  have "undoes (=) (keep_first (dx_execution_id x) (dict_get (cr_executions s) (dx_execution_id x)) (lg_executions l))
      (dict_get (cr_executions s0)) (dict_get rows)"
    using pend spec spec_write_only by (intro undoes_write) (auto simp: w mem_tx_pending_def)
  then show ?thesis using pend ok spec by (auto simp: w w' mem_tx_pending_def mem_tx_ok_def breaker_log_def)
qed

lemma undoes_cong: "undoes R log before now \<Longrightarrow> dict_ok log' \<Longrightarrow> dict_get log' = dict_get log \<Longrightarrow> undoes R log' before now"
  by (simp add: undoes_def)

lemma breaker_log_get: "dict_get (breaker_log l) k = map_option (\<lambda>(p, m, previous). previous) (dict_get (lg_breakers l) k)"
proof -
  have "breaker_log l = map (\<lambda>(k, v). (k, (\<lambda>_ (p, m, previous). previous) k v)) (lg_breakers l)"
    by (auto simp: breaker_log_def)
  then show ?thesis by (simp only: dict_get_map_val)
qed

lemma breaker_log_ok: "dict_ok (breaker_log l) = dict_ok (lg_breakers l)"
  by (simp add: breaker_log_def dict_ok_def comp_def case_prod_unfold)

lemma breaker_log_keep_first:
  assumes "dict_ok (lg_breakers l)"
  shows "undoes R (keep_first key previous (breaker_log l)) before now \<Longrightarrow>
    undoes R (breaker_log (l\<lparr>lg_breakers := keep_first key (p, m, previous) (lg_breakers l)\<rparr>)) before now"
  by (rule undoes_cong, assumption)
    (use assms in \<open>auto simp: breaker_log_ok fun_eq_iff breaker_log_get keep_first_def dict_get_set\<close>)

lemma set_keep_first: "set (keep_first k v d) \<subseteq> insert (k, v) (set d)"
proof -
  have "set (dict_set k v d) \<subseteq> insert (k, v) (set d)" by (induction d) auto
  then show ?thesis by (auto simp: keep_first_def)
qed

lemma mem_cas_breaker_form:
  assumes st: "valid_state st" and rel: "mem_rel_ok (cr_breakers s)"
  shows "mem_tx_cas_breaker (s, l) st e =
    (case mem_rel_save (cr_breakers s) st e of (rows, a) \<Rightarrow>
       ((s\<lparr>cr_breakers := rows\<rparr>, l\<lparr>lg_breakers := keep_first (ps_provider_id st @ ''|'' @ ps_market st)
          (ps_provider_id st, ps_market st, dict_get (cr_breakers s) (ps_provider_id st @ ''|'' @ ps_market st))
          (lg_breakers l)\<rparr>), a))"
  using valid_key [OF st]
  by (cases "dict_get (cr_breakers s) (ps_provider_id st @ ''|'' @ ps_market st)")
    (auto simp: mem_tx_cas_breaker_def keep_first_def mem_rel_row_count_def mem_rel_load_def)

lemma mem_tx_cas_breaker_law:
  assumes pend: "mem_tx_pending clk s0 w" and ok: "mem_tx_ok cfg (fst w)" and st: "valid_state st" "0 \<le> e"
    and run: "mem_tx_cas_breaker w st e = (w', b)"
  shows "mem_tx_pending clk s0 w' \<and> mem_tx_ok cfg (fst w') \<and>
    cr_executions (fst w') = cr_executions (fst w) \<and> cr_conversations (fst w') = cr_conversations (fst w) \<and>
    (dict_get (cr_breakers (fst w')), b) = spec_save (dict_get (cr_breakers (fst w))) st e"
proof -
  obtain s l where w: "w = (s, l)" by force
  define key where "key = ps_provider_id st @ ''|'' @ ps_market st"
  define previous where "previous = dict_get (cr_breakers s) key"
  define l' where "l' = l\<lparr>lg_breakers := keep_first key (ps_provider_id st, ps_market st, previous) (lg_breakers l)\<rparr>"
  have rel: "mem_rel_ok (cr_breakers s)" using ok by (simp add: w mem_tx_ok_def)
  obtain rows a where rows: "mem_rel_save (cr_breakers s) st e = (rows, a)" by force
  have w': "w' = (s\<lparr>cr_breakers := rows\<rparr>, l')" and a: "b = a"
    using run mem_cas_breaker_form [OF st(1) rel, of l e] rows by (auto simp: w key_def l'_def previous_def)
  note spec = mem_rel_save_refines [OF rel st, unfolded rows fst_conv snd_conv]
  note p = pend [unfolded mem_tx_pending_def w fst_conv snd_conv]
  have "undoes (=) (breaker_log l) (dict_get (cr_breakers s0)) (dict_get (cr_breakers s))" using p by blast
  note old = this
  have only: "dict_get rows j = dict_get (cr_breakers s) j" if "j \<noteq> key" for j
    using spec that spec_save_only by (simp add: key_def)
  have "undoes (=) (keep_first key previous (breaker_log l)) (dict_get (cr_breakers s0)) (dict_get rows)"
    unfolding previous_def by (rule undoes_write [OF old]) (rule only)
  moreover have "dict_ok (lg_breakers l)" using old by (simp add: undoes_def breaker_log_ok)
  ultimately have new: "undoes (=) (breaker_log l') (dict_get (cr_breakers s0)) (dict_get rows)"
    unfolding l'_def by (intro breaker_log_keep_first)
  have keys: "\<forall>(key, p, m, previous)\<in>set (lg_breakers l'). reliability_record_key p m = Inr key"
    using p set_keep_first [of key "(ps_provider_id st, ps_market st, previous)" "lg_breakers l"] valid_key [OF st(1)]
    by (fastforce simp: l'_def key_def)
  have "lg_executions l' = lg_executions l" "lg_conversations l' = lg_conversations l" by (simp_all add: l'_def)
  then have "mem_tx_pending clk s0 w'" using p new keys by (simp add: mem_tx_pending_def w')
  moreover have "mem_tx_ok cfg (fst w')" using ok spec by (simp add: w w' mem_tx_ok_def)
  ultimately show ?thesis using spec by (simp add: w w' a)
qed

lemma mem_tx_consume_law:
  assumes pend: "mem_tx_pending clk s0 w" and ok: "mem_tx_ok cfg (fst w)"
    and run: "mem_tx_consume cfg clk w c = (w', d)"
  shows "mem_tx_pending clk s0 w' \<and> mem_tx_ok cfg (fst w') \<and>
    cr_executions (fst w') = cr_executions (fst w) \<and> cr_breakers (fst w') = cr_breakers (fst w) \<and>
    (\<forall>st. d = Inr st \<longrightarrow> consumed_effect cfg clk c (dict_get (cr_conversations (fst w)))
       (dict_get (cr_conversations (fst w'))))"
proof -
  obtain s l where w: "w = (s, l)" by force
  define i where "i = cm_conversation_id c"
  let ?rows = "cr_conversations s"
  have conv: "mem_conv_ok cfg ?rows" using ok by (simp add: w mem_tx_ok_def)
  have und: "undoes (get_effect clk) (lg_conversations l) (dict_get (cr_conversations s0)) (dict_get ?rows)"
    using pend by (simp add: w mem_tx_pending_def)
  have kept: "mem_tx_pending clk s0 (s\<lparr>cr_conversations := rows\<rparr>, l\<lparr>lg_conversations := log\<rparr>) \<and>
      mem_tx_ok cfg (s\<lparr>cr_conversations := rows\<rparr>)"
    if "undoes (get_effect clk) log (dict_get (cr_conversations s0)) (dict_get rows)" "mem_conv_ok cfg rows"
    for rows log
    using pend ok that by (simp add: w mem_tx_pending_def mem_tx_ok_def breaker_log_def)
  have consume: "mem_tx_pending clk s0 w' \<and> mem_tx_ok cfg (fst w') \<and> cr_executions (fst w') = cr_executions s \<and>
      cr_breakers (fst w') = cr_breakers s \<and>
      (\<forall>st. d = Inr st \<longrightarrow> consumed_effect cfg clk c (dict_get rows) (dict_get (cr_conversations (fst w'))))"
    if rows: "mem_conv_ok cfg rows" "undoes (get_effect clk) log (dict_get (cr_conversations s0)) (dict_get rows)"
      "dict_get log i \<noteq> None"
      "(case mem_conv_consume cfg clk rows i (cm_owner c) (cm_request c) (cm_now c) (cm_expected_version c) of
         (rows', a) \<Rightarrow> ((s\<lparr>cr_conversations := rows'\<rparr>, l\<lparr>lg_conversations := log\<rparr>), a)) = (w', d)" for rows log
  proof -
    obtain rows' where run': "mem_conv_consume cfg clk rows i (cm_owner c) (cm_request c) (cm_now c)
        (cm_expected_version c) = (rows', d)" and w': "w' = (s\<lparr>cr_conversations := rows'\<rparr>, l\<lparr>lg_conversations := log\<rparr>)"
      using rows(4) by (auto split: prod.splits)
    have "keep_first i (dict_get rows i) log = log" using rows(3) by (auto simp: keep_first_def)
    then have "undoes (get_effect clk) log (dict_get (cr_conversations s0)) (dict_get rows')"
      using undoes_write [OF rows(2), of i "dict_get rows'"] mem_consume_only [OF rows(1) run'] by simp
    moreover have "mem_conv_ok cfg rows'"
      using mem_conv.step_law [OF rows(1), of "CConsume i (cm_owner c) (cm_request c) (cm_now c) (cm_expected_version c)"]
        run' by simp
    ultimately show ?thesis
      using kept mem_consume_stored [OF rows(1)] run' by (auto simp: w' consumed_effect_def i_def)
  qed
  show ?thesis
  proof (cases "dict_get (lg_conversations l) i")
    case (Some prev)
    have "l\<lparr>lg_conversations := lg_conversations l\<rparr> = l" by simp
    then show ?thesis
      using consume [OF conv und, unfolded] Some run by (simp add: w mem_tx_consume_def i_def)
  next
    case None
    obtain rows1 g where get: "mem_conv_get clk ?rows i = (rows1, g)" by force
    note und1 = undoes_get_effect [OF und conv get] and g = mem_get_effect [OF conv get]
    show ?thesis
    proof (cases g)
      case (Inl e)
      then have "w' = (s\<lparr>cr_conversations := rows1\<rparr>, l)" "d = Inl e"
        using run get None by (simp_all add: w mem_tx_consume_def i_def)
      moreover have "l\<lparr>lg_conversations := lg_conversations l\<rparr> = l" by simp
      ultimately show ?thesis using kept [OF und1] g by (simp add: w)
    next
      case (Inr found)
      have found: "dict_get rows1 i = found" using g Inr by blast
      have log: "keep_first i found (lg_conversations l) = dict_set i found (lg_conversations l)"
        using None by (simp add: keep_first_def)
      have "undoes (get_effect clk) (dict_set i found (lg_conversations l)) (dict_get (cr_conversations s0)) (dict_get rows1)"
        using undoes_write [OF und1, of i "dict_get rows1"] by (simp add: found log)
      from consume [OF _ this] g have res: "mem_tx_pending clk s0 w' \<and> mem_tx_ok cfg (fst w') \<and>
          cr_executions (fst w') = cr_executions s \<and> cr_breakers (fst w') = cr_breakers s \<and>
          (\<forall>st. d = Inr st \<longrightarrow> consumed_effect cfg clk c (dict_get rows1) (dict_get (cr_conversations (fst w'))))"
        using run get None Inr by (simp add: w mem_tx_consume_def i_def dict_get_set)
      show ?thesis
      proof (cases found)
        case (Some p)
        then have "rows1 = ?rows" using g Inr by blast
        then show ?thesis using res by (simp add: w)
      next
        case nothing: None
        then have "\<not> consumed_effect cfg clk c (dict_get rows1) after" for after
          using found by (simp add: consumed_effect_def i_def)
        then show ?thesis using res by (auto simp: w)
      qed
    qed
  qed
qed

lemma mem_tx_loaded:
  assumes ok: "mem_tx_ok cfg s" and run: "mem_tx_load_conversation clk s i = (s', r)"
  shows "mem_tx_ok cfg s' \<and>
    mem_tx_pending clk s (s', \<lparr>lg_executions = [], lg_breakers = [], lg_conversations = []\<rparr>) \<and>
    cr_executions s' = cr_executions s \<and> cr_breakers s' = cr_breakers s \<and>
    (\<forall>j. get_effect clk (dict_get (cr_conversations s) j) (dict_get (cr_conversations s') j)) \<and>
    (\<forall>found. r = Inr found \<longrightarrow> dict_get (cr_conversations s') i = found \<and> (found \<noteq> None \<longrightarrow> s' = s) \<and>
       (\<forall>p. found = Some p \<longrightarrow> is_expired clk p = Inr False))"
proof -
  obtain rows where get: "mem_conv_get clk (cr_conversations s) i = (rows, r)" and s': "s' = s\<lparr>cr_conversations := rows\<rparr>"
    using run by (auto simp: mem_tx_load_conversation_def split: prod.splits)
  have "mem_conv_ok cfg (cr_conversations s)" using ok by (simp add: mem_tx_ok_def)
  from mem_get_effect [OF this get] show ?thesis
    using ok by (auto simp: s' mem_tx_ok_def mem_tx_pending_def undoes_def breaker_log_def)
qed

interpretation mem_claim: claim_store "in_memory_claim_transaction cfg clk" cfg clk "mem_tx_ok cfg"
  "\<lambda>s. dict_get (cr_executions s)" "\<lambda>s. dict_get (cr_breakers s)" "\<lambda>s. dict_get (cr_conversations s)"
  "mem_tx_pending clk"
  for cfg :: conv_settings and clk :: datetime
proof
  fix s :: "'a claim_rows" and i p m and now :: datetime
  assume ok: "mem_tx_ok cfg s"
  show "rows_valid (dict_get (cr_executions s)) \<and> stored_ok (dict_get (cr_breakers s))"
    using ok by (simp add: mem_tx_ok_def mem_exec_ok_def mem_rel_ok_def)
  show "mem_tx_pending clk s (s, tx_begin (in_memory_claim_transaction cfg clk) s)"
    by (simp add: mem_tx_pending_def in_memory_claim_transaction_def undoes_def breaker_log_def)
  show "tx_load_execution (in_memory_claim_transaction cfg clk) s i = Inr (dict_get (cr_executions s) i)"
    by (simp add: in_memory_claim_transaction_def mem_exec_get_def)
  show "tx_load_breaker (in_memory_claim_transaction cfg clk) s p m now = spec_load (dict_get (cr_breakers s)) p m now"
    by (simp add: in_memory_claim_transaction_def mem_rel_load_def spec_load_def)
next
  fix s :: "'a claim_rows" and i p
  assume "mem_tx_ok cfg s" "dict_get (cr_conversations s) i = Some p"
  then show "cv_id p = i \<and> well_formed cfg p" by (simp add: mem_tx_ok_def mem_conv_ok_def)
next
  fix s s' :: "'a claim_rows" and i r
  assume "mem_tx_ok cfg s" "tx_load_conversation (in_memory_claim_transaction cfg clk) s i = (s', r)"
  then show "mem_tx_ok cfg s' \<and> mem_tx_pending clk s (s', tx_begin (in_memory_claim_transaction cfg clk) s) \<and>
      dict_get (cr_executions s') = dict_get (cr_executions s) \<and> dict_get (cr_breakers s') = dict_get (cr_breakers s) \<and>
      (\<forall>j. get_effect clk (dict_get (cr_conversations s) j) (dict_get (cr_conversations s') j)) \<and>
      (\<forall>found. r = Inr found \<longrightarrow> dict_get (cr_conversations s') i = found \<and> (found \<noteq> None \<longrightarrow> s' = s) \<and>
         (\<forall>p. found = Some p \<longrightarrow> is_expired clk p = Inr False))"
    using mem_tx_loaded [of cfg s clk i s' r] by (simp add: in_memory_claim_transaction_def)
next
  fix s :: "'a claim_rows" and i p
  assume "mem_tx_ok cfg s" "dict_get (cr_conversations s) i = Some p" "is_expired clk p = Inr False"
  then show "tx_load_conversation (in_memory_claim_transaction cfg clk) s i = (s, Inr (Some p))"
    by (simp add: in_memory_claim_transaction_def mem_tx_load_conversation_def mem_conv_get_def)
next
  fix s0 :: "'a claim_rows" and w x e w' a
  assume "mem_tx_pending clk s0 w" "mem_tx_ok cfg (fst w)"
    "tx_cas_execution (in_memory_claim_transaction cfg clk) w x e = (w', a)"
  then show "mem_tx_pending clk s0 w' \<and> mem_tx_ok cfg (fst w') \<and>
      dict_get (cr_breakers (fst w')) = dict_get (cr_breakers (fst w)) \<and>
      dict_get (cr_conversations (fst w')) = dict_get (cr_conversations (fst w)) \<and>
      (dict_get (cr_executions (fst w')), a) =
        spec_write (replaced x e) (dict_get (cr_executions (fst w))) (dx_execution_id x) e"
    using mem_tx_cas_execution_law [of clk s0 w cfg x e w' a] by (simp add: in_memory_claim_transaction_def)
next
  fix s0 :: "'a claim_rows" and w st and e :: int and w' b
  assume "mem_tx_pending clk s0 w" "mem_tx_ok cfg (fst w)" "valid_state st" "0 \<le> e"
    "tx_cas_breaker (in_memory_claim_transaction cfg clk) w st e = (w', b)"
  then show "mem_tx_pending clk s0 w' \<and> mem_tx_ok cfg (fst w') \<and>
      dict_get (cr_executions (fst w')) = dict_get (cr_executions (fst w)) \<and>
      dict_get (cr_conversations (fst w')) = dict_get (cr_conversations (fst w)) \<and>
      (dict_get (cr_breakers (fst w')), b) = spec_save (dict_get (cr_breakers (fst w))) st e"
    using mem_tx_cas_breaker_law [of clk s0 w cfg st e w' b] by (simp add: in_memory_claim_transaction_def)
next
  fix s0 :: "'a claim_rows" and w c w' d
  assume "mem_tx_pending clk s0 w" "mem_tx_ok cfg (fst w)"
    "tx_consume (in_memory_claim_transaction cfg clk) w c = (w', d)"
  then show "mem_tx_pending clk s0 w' \<and> mem_tx_ok cfg (fst w') \<and>
      dict_get (cr_executions (fst w')) = dict_get (cr_executions (fst w)) \<and>
      dict_get (cr_breakers (fst w')) = dict_get (cr_breakers (fst w)) \<and>
      (\<forall>st. d = Inr st \<longrightarrow> consumed_effect cfg clk c (dict_get (cr_conversations (fst w)))
         (dict_get (cr_conversations (fst w'))))"
    using mem_tx_consume_law [of clk s0 w cfg c w' d] by (simp add: in_memory_claim_transaction_def)
next
  fix s0 :: "'a claim_rows" and w
  assume "mem_tx_ok cfg s0" "mem_tx_pending clk s0 w" "mem_tx_ok cfg (fst w)"
  then show "mem_tx_ok cfg (tx_rollback (in_memory_claim_transaction cfg clk) w) \<and>
      dict_get (cr_executions (tx_rollback (in_memory_claim_transaction cfg clk) w)) = dict_get (cr_executions s0) \<and>
      dict_get (cr_breakers (tx_rollback (in_memory_claim_transaction cfg clk) w)) = dict_get (cr_breakers s0) \<and>
      (\<forall>j. get_effect clk (dict_get (cr_conversations s0) j)
         (dict_get (cr_conversations (tx_rollback (in_memory_claim_transaction cfg clk) w)) j))"
    using mem_tx_undone [of cfg s0 clk w] by (simp add: in_memory_claim_transaction_def)
qed

end
