(* ===== verification/LiveStartClaims.thy ===== *)
theory LiveStartClaims
  imports LiveStartFacts
begin

text \<open>
  What a live-start claim guarantees, proved from the transaction contract: everything or nothing, one claimant at a
  time, and that an expired claim can be taken over without consuming the authorization again.
\<close>

section \<open>Stages\<close>

definition never_claims :: "'a stage \<Rightarrow> bool" where
  "never_claims r = (\<forall>a. r = Inr (Inl a) \<longrightarrow> \<not> cl_claimed a)"

lemma refused_not_claimed: "refused reason i st = Inr a \<Longrightarrow> \<not> cl_claimed a"
  by (auto simp: refused_def check_claim_result_def split: if_split_asm)

lemma refused_Inr: "reason \<noteq> [] \<Longrightarrow> \<exists>a. refused reason i st = Inr a"
  by (simp add: refused_def check_claim_result_def blank_def)

lemma proceed_simps [simp]:
  "proceed (Inl e) k = Inl e" "proceed (Inr (Inl a)) k = Inr (Inl a)" "proceed (Inr (Inr x)) k = k x"
  by (simp_all add: proceed_def)

lemma stage_cases:
  fixes r :: "'a stage"
  obtains e where "r = Inl e" | a where "r = Inr (Inl a)" | x where "r = Inr (Inr x)"
  by (metis sum.exhaust)

lemma proceed_goes_on: "proceed r k = Inr (Inr y) \<longleftrightarrow> (\<exists>x. r = Inr (Inr x) \<and> k x = Inr (Inr y))"
  by (rule stage_cases [of r]) auto

lemma or_raise_goes_on: "or_raise r = Inr (Inr x) \<longleftrightarrow> r = Inr x"
  by (cases r) (simp_all add: or_raise_def)

lemma stop_never_goes_on: "stop_with reason x \<noteq> Inr (Inr y)"
  by (auto simp: stop_with_def and_then_Inr_iff)

lemmas goes_on = proceed_goes_on or_raise_goes_on stop_never_goes_on

lemma never_claims_simps [simp]:
  "never_claims (Inl e)" "never_claims (Inr (Inr x))" "never_claims (Inr (Inl a)) \<longleftrightarrow> \<not> cl_claimed a"
  by (simp_all add: never_claims_def)

lemma never_claims_or_raise: "never_claims (or_raise r)"
  by (cases r) (simp_all add: or_raise_def)

lemma never_claims_and_then: "(\<And>x. r = Inr x \<Longrightarrow> never_claims (k x)) \<Longrightarrow> never_claims (and_then r k)"
  by (cases r) simp_all

lemma never_claims_refused: "never_claims (and_then (refused reason i st) (\<lambda>a. Inr (Inl a)))"
  by (rule never_claims_and_then) (simp add: refused_not_claimed)

lemma never_claims_stop: "never_claims (stop_with reason y)"
  unfolding stop_with_def by (rule never_claims_refused)

lemma never_claims_proceed: "never_claims r \<Longrightarrow> (\<And>x. never_claims (k x)) \<Longrightarrow> never_claims (proceed r k)"
  by (rule stage_cases [of r]) simp_all

lemmas never_claims_intros =
  never_claims_refused never_claims_stop never_claims_or_raise never_claims_and_then never_claims_proceed

lemma observe_execution_answers: "never_claims (observe_execution tx s q)"
  unfolding observe_execution_def
  by (intro never_claims_and_then) (auto split: option.split intro!: never_claims_intros)

lemma observe_breaker_answers: "never_claims (observe_breaker tx s q x)"
  unfolding observe_breaker_def
  by (intro never_claims_proceed never_claims_or_raise) (auto split: option.split intro!: never_claims_intros)

lemma observe_claimed_answers: "never_claims (observe_claimed q lease token x)"
  unfolding observe_claimed_def by (auto split: sum.split claim_error.split intro!: never_claims_intros)

lemma observe_probe_answers: "never_claims (observe_probe q lease token x permitted)"
  unfolding observe_probe_def by (auto split: sum.split rel_error.split intro!: never_claims_intros)

lemma commit_stored_answers: "never_claims (commit_stored tx s q x active context stored)"
  unfolding commit_stored_def by (auto split: sum.split auth_error.split intro!: never_claims_intros)

lemma commitment_answers: "authorization_commitment tx s q x active = (s', r) \<Longrightarrow> never_claims r"
  unfolding authorization_commitment_def
  by (auto split: prod.splits sum.splits option.splits if_splits intro: never_claims_stop commit_stored_answers)

text \<open>What every stage reads, when all of them go on.\<close>

definition first_stages ::
  "('s, 'l, 'f) claim_transaction \<Rightarrow> claim_leases \<Rightarrow> string \<times> string \<Rightarrow> 's \<Rightarrow> 'd claim_request
     \<Rightarrow> (durable_execution \<times> provider_state \<times> durable_execution \<times> provider_state option) stage" where
  "first_stages tx leases tokens s q =
     proceed (observe_execution tx s q) (\<lambda>x.
       proceed (observe_breaker tx s q x) (\<lambda>(brk, permitted).
       proceed (observe_claimed q (execution_lease leases) (fst tokens) x) (\<lambda>nxt.
       proceed (observe_probe q (probe_lease leases) (snd tokens) x permitted) (\<lambda>leased_probe.
         Inr (Inr (x, brk, nxt, leased_probe))))))"

lemma first_stages_answer: "never_claims (first_stages tx leases tokens s q)"
  unfolding first_stages_def
  by (intro never_claims_proceed observe_execution_answers)
    (auto split: prod.split intro!: never_claims_proceed observe_breaker_answers observe_claimed_answers
       observe_probe_answers)

lemma observation_answers: "observe_claim tx leases tokens mid s q = (s', r) \<Longrightarrow> never_claims r"
  using first_stages_answer [of tx leases tokens s q]
  unfolding observe_claim_def first_stages_def [symmetric]
  by (auto split: sum.splits prod.splits intro!: never_claims_proceed dest: commitment_answers)

section \<open>What an observation has seen\<close>

lemma relabel_Inr: "relabel f r = Inr x \<longleftrightarrow> r = Inr x"
  by (cases r) simp_all

lemma first_stages_on:
  "first_stages tx leases tokens s q = Inr (Inr (x, brk, nxt, lp)) \<longleftrightarrow>
     observe_execution tx s q = Inr (Inr x) \<and>
     (\<exists>permitted. observe_breaker tx s q x = Inr (Inr (brk, permitted)) \<and>
        observe_claimed q (execution_lease leases) (fst tokens) x = Inr (Inr nxt) \<and>
        observe_probe q (probe_lease leases) (snd tokens) x permitted = Inr (Inr lp))"
  unfolding first_stages_def by (auto simp: goes_on split: prod.splits)

lemma observe_claimed_on:
  "observe_claimed q lease token x = Inr (Inr nxt) \<longleftrightarrow> apply_execution_claim x (lq_now q) lease token = Inr nxt"
  by (simp add: observe_claimed_def stop_never_goes_on split: sum.split claim_error.split)

lemma observe_probe_on:
  "observe_probe q lease token x permitted = Inr (Inr lp) \<longleftrightarrow>
     (case ps_state permitted of
        HALF_OPEN \<Rightarrow> \<exists>nxt. apply_half_open_probe_lease permitted (lq_now q) lease token = Inr nxt \<and> lp = Some nxt
      | CLOSED \<Rightarrow> lp = None
      | OPEN \<Rightarrow> False)"
  by (cases "ps_state permitted")
    (auto simp: observe_probe_def stop_never_goes_on split: sum.splits rel_error.splits)

lemma observe_breaker_on:
  "observe_breaker tx s q x = Inr (Inr (brk, permitted)) \<longleftrightarrow>
     tx_load_breaker tx s (lq_provider_id q) (lq_market q) (lq_now q) = Inr brk \<and>
     gate_reason q brk = Inr None \<and>
     (\<exists>d. request_permission q brk = Inr d \<and> permitted = decision_breaker d) \<and>
     (ps_state permitted = HALF_OPEN \<longrightarrow> probe_lease_is_active permitted (lq_now q) = Inr False)"
  unfolding observe_breaker_def
  by (auto simp: goes_on relabel_Inr split: option.splits if_splits)

lemma observe_execution_on:
  "observe_execution tx s q = Inr (Inr x) \<longleftrightarrow>
     (\<exists>i. authorized_execution_id (ra_idempotency_key (lq_authorization q)) = Inr i \<and>
        tx_load_execution tx s i = Inr (Some x)) \<and>
     pin_reason x q = None \<and> plan_target_matches q \<and> dx_state x \<noteq> Running \<and>
     dx_state x \<notin> terminal_execution_states \<and> claim_is_active x (lq_now q) = Inr False"
proof (cases "authorized_execution_id (ra_idempotency_key (lq_authorization q))")
  case id: (Inr i)
  show ?thesis
  proof (cases "tx_load_execution tx s i")
    case load: (Inr found)
    then show ?thesis
      by (cases found; cases "pin_reason (the found) q")
        (auto simp: observe_execution_def id load goes_on and_then_Inr_iff)
  qed (simp add: observe_execution_def id)
qed (simp add: observe_execution_def)

lemma commit_stored_on:
  "commit_stored tx s q x False context stored = Inr (Inr c) \<longleftrightarrow>
     (if ra_status stored = AuthConsumed then
        c = None \<and>
        (\<exists>y. (claim_is_active x (lq_now q) = Inr True \<and> y = x \<or>
              claim_is_active x (lq_now q) = Inr False \<and> (\<exists>latest. tx_load_execution tx s (dx_execution_id x) = Inr latest \<and>
                y = (case latest of None \<Rightarrow> x | Some z \<Rightarrow> z))) \<and>
            claim_is_active y (lq_now q) = Inr False \<and> resumable_for stored (lq_owner q) (resume_request_for q y False))
      else
        executable_for stored (lq_owner q) (pn_conversation_id (lq_plan q)) (pn_decision_id (lq_plan q))
          (pn_context_version (lq_plan q)) None (Some (pn_scope_digest (lq_plan q)))
          (Some (pn_proposal_id (lq_plan q))) (Some (pn_proposal_version (lq_plan q))) \<and>
        c = Some \<lparr>cm_conversation_id = cv_id context, cm_owner = lq_owner q,
          cm_request = \<lparr>cq_authorization_id = ra_id stored, cq_authorization_version = ra_version stored,
            cq_decision_id = ra_decision_id stored, cq_context_version = ra_context_version stored,
            cq_proposal_id = ra_proposal_id stored, cq_proposal_version = ra_proposal_version stored,
            cq_scope_digest = ra_scope_digest stored, cq_idempotency_key = ra_idempotency_key stored\<rparr>,
          cm_expected_version = cx_version context, cm_now = lq_now q\<rparr>)"
proof (cases "ra_status stored = AuthConsumed")
  case True
  then show ?thesis
    unfolding commit_stored_def resume_valid_iff [symmetric]
    by (auto simp: goes_on relabel_Inr and_then_Inr_iff split: if_splits)
next
  case False
  then show ?thesis
    unfolding commit_stored_def validation_valid_iff [symmetric]
    by (auto simp: stop_never_goes_on split: sum.splits auth_error.splits if_splits)
qed

lemma observe_claim_on:
  "observe_claim tx leases tokens mid s q = (s', Inr (Inr ob)) \<longleftrightarrow>
     (\<exists>x brk nxt lp c. first_stages tx leases tokens s q = Inr (Inr (x, brk, nxt, lp)) \<and>
        authorization_commitment tx (mid s) q x False = (s', Inr (Inr c)) \<and>
        ob = \<lparr>ob_execution = nxt, ob_expected_revision = dx_revision x, ob_breaker = lp,
          ob_expected_breaker_revision = (if lp = None then None else Some (ps_revision brk)),
          ob_claim_capability = fst tokens, ob_probe_capability = (if lp = None then None else Some (snd tokens)),
          ob_consumption = c\<rparr>)"
proof (rule stage_cases [of "first_stages tx leases tokens s q"])
  fix y assume y: "first_stages tx leases tokens s q = Inr (Inr y)"
  obtain x brk nxt lp where form: "y = (x, brk, nxt, lp)" by (cases y)
  show ?thesis
    using y unfolding observe_claim_def first_stages_def [symmetric] form
    by (cases lp; cases "authorization_commitment tx (mid s) q x False") (auto simp: goes_on)
qed (simp_all add: observe_claim_def first_stages_def [symmetric])

text \<open>An execution that has just been claimed.\<close>

lemma claim_digest_nonblank: "execution_claim_digest token = Inr d \<Longrightarrow> token \<noteq> []"
  by (auto simp: execution_claim_digest_def split: if_splits)

lemma apply_execution_claim_form:
  assumes "apply_execution_claim x now lease token = Inr n"
  shows "is_aware now \<and> 0 < lease \<and> claim_is_active x now = Inr False \<and> valid_execution n \<and> token \<noteq> [] \<and>
    (\<exists>d. execution_claim_digest token = Inr d \<and>
       n = x\<lparr>dx_state := ClaimedForAttempt, dx_claimed_at := Some now,
         dx_claim_expires_at := Some (plus_micros now lease), dx_claim_digest := Some d, dx_updated_at := now\<rparr>)"
  using assms unfolding apply_execution_claim_def
  by (auto simp: and_then_Inr_iff relabel_Inr dest: check_execution_id checked_valid claim_digest_nonblank
      split: if_split_asm)

lemma lease_nonblank:
  "apply_half_open_probe_lease s now lease token = Inr n \<Longrightarrow> valid_state n \<and> token \<noteq> []"
  unfolding apply_half_open_probe_lease_def
  by (auto simp: and_then_Inr_iff half_open_probe_digest_def dest: check_state_valid(1) split: if_split_asm)

text \<open>Nothing else about the row stands in the way of a claim.\<close>

definition claimed_row :: "durable_execution \<Rightarrow> datetime \<Rightarrow> int \<Rightarrow> string \<Rightarrow> durable_execution" where
  "claimed_row x now lease d =
     x\<lparr>dx_state := ClaimedForAttempt, dx_claimed_at := Some now, dx_claim_expires_at := Some (plus_micros now lease),
       dx_claim_digest := Some d, dx_updated_at := now\<rparr>"

lemma claimed_row_valid:
  assumes "valid_execution x" and "dx_state x \<in> {PreparedUnavailable, ClaimedForAttempt}"
    and "is_aware now" and "0 < lease" and "hex64 d" and "1 \<le> n"
  shows "valid_execution (claimed_row x now lease d\<lparr>dx_created_at := dx_created_at x, dx_revision := n\<rparr>)"
proof -
  have "validate_claim_fields (claimed_row x now lease d\<lparr>dx_created_at := dx_created_at x, dx_revision := n\<rparr>) = Inr ()"
    using assms(3-5) hex64_nonempty [OF assms(5)]
    by (auto simp: validate_claim_fields_def claimed_row_def terminal_execution_states_def claim_states_def
        blank_def naive_or_none_def sha256_text_def hex64_def list_all_iff list_ex_iff micros_plus_micros)
  moreover have "validate_attempt_fields (claimed_row x now lease d\<lparr>dx_created_at := dx_created_at x, dx_revision := n\<rparr>) =
      validate_attempt_fields x"
    using assms(2) by (auto simp: validate_attempt_fields_def no_attempt_facts_def claimed_row_def attempt_identity_def)
  ultimately show ?thesis
    using assms(1,3,6) unfolding valid_execution_def check_execution_def
    by (auto simp: claimed_row_def and_then_Inr_iff split: if_split_asm)
qed

lemma claim_goes_on:
  assumes "valid_execution x" and "dx_state x \<in> {PreparedUnavailable, ClaimedForAttempt}"
    and "claim_is_active x now = Inr False" and "is_aware now" and "0 < lease" and "execution_claim_digest token = Inr d"
  shows "apply_execution_claim x now lease token = Inr (claimed_row x now lease d)"
    and "replaced (claimed_row x now lease d) (dx_revision x) x =
      Inr (claimed_row x now lease d\<lparr>dx_created_at := dx_created_at x, dx_revision := dx_revision x + 1\<rparr>)"
proof -
  have d: "hex64 d" using assms(6) by (auto simp: execution_claim_digest_def split: if_splits)
  have one: "1 \<le> dx_revision x"
    using assms(1) unfolding valid_execution_def check_execution_def by (auto split: if_split_asm)
  have "valid_execution (claimed_row x now lease d)"
    using claimed_row_valid [OF assms(1,2,4,5) d one] by (simp add: claimed_row_def)
  then have "check_execution (claimed_row x now lease d) = Inr (claimed_row x now lease d)"
    by (simp add: valid_execution_def)
  then show "apply_execution_claim x now lease token = Inr (claimed_row x now lease d)"
    using assms(2-6) unfolding apply_execution_claim_def
    by (auto simp: terminal_execution_states_def claimed_row_def [symmetric])
  have "valid_execution (claimed_row x now lease d\<lparr>dx_created_at := dx_created_at x, dx_revision := dx_revision x + 1\<rparr>)"
    using claimed_row_valid [OF assms(1,2,4,5) d, of "dx_revision x + 1"] one by simp
  then show "replaced (claimed_row x now lease d) (dx_revision x) x =
      Inr (claimed_row x now lease d\<lparr>dx_created_at := dx_created_at x, dx_revision := dx_revision x + 1\<rparr>)"
    by (simp add: replaced_def require_same_pins_def valid_execution_def) (simp add: claimed_row_def)
qed

text \<open>The observation of a claim that needs no probe and consumes nothing.\<close>

definition plain_observation :: "durable_execution \<Rightarrow> datetime \<Rightarrow> int \<Rightarrow> string \<Rightarrow> string \<Rightarrow> observation" where
  "plain_observation x now lease d token =
     \<lparr>ob_execution = claimed_row x now lease d, ob_expected_revision = dx_revision x, ob_breaker = None,
      ob_expected_breaker_revision = None, ob_claim_capability = token, ob_probe_capability = None,
      ob_consumption = None\<rparr>"

section \<open>Everything or nothing\<close>

type_synonym 'f claim_view = "exec_map \<times> breaker_map \<times> (string \<Rightarrow> 'f conversation_context option)"

text \<open>Nothing but a conversation that had expired may be gone.\<close>

definition rows_kept :: "datetime \<Rightarrow> 'f claim_view \<Rightarrow> 'f claim_view \<Rightarrow> bool" where
  "rows_kept clk b a =
     (fst a = fst b \<and> fst (snd a) = fst (snd b) \<and> (\<forall>j. get_effect clk (snd (snd b) j) (snd (snd a) j)))"

lemma rows_kept_refl [simp]: "rows_kept clk b b"
  by (simp add: rows_kept_def)

lemma rows_kept_trans: "rows_kept clk b m \<Longrightarrow> rows_kept clk m a \<Longrightarrow> rows_kept clk b a"
  unfolding rows_kept_def by (auto intro: get_effect_trans)

text \<open>What an observation is good for: everything a commit needs to be answered.\<close>

definition ob_ok :: "observation \<Rightarrow> bool" where
  "ob_ok ob =
     (dx_state (ob_execution ob) = ClaimedForAttempt \<and> dx_claim_expires_at (ob_execution ob) \<noteq> None \<and>
      ob_claim_capability ob \<noteq> [] \<and>
      (case ob_breaker ob of
         None \<Rightarrow> ob_expected_breaker_revision ob = None \<and> ob_probe_capability ob = None
       | Some st \<Rightarrow> valid_state st \<and> (\<exists>e. ob_expected_breaker_revision ob = Some e \<and> 0 \<le> e) \<and>
           (\<exists>t. ob_probe_capability ob = Some t \<and> t \<noteq> [])))"

definition committed ::
  "conv_settings \<Rightarrow> datetime \<Rightarrow> observation \<Rightarrow> 'f claim_view \<Rightarrow> 'f claim_view \<Rightarrow> durable_execution \<Rightarrow> bool \<Rightarrow> bool" where
  "committed cfg clk ob b a stored acquired =
     ((fst a, Inr stored) = spec_write (replaced (ob_execution ob) (ob_expected_revision ob)) (fst b)
        (dx_execution_id (ob_execution ob)) (ob_expected_revision ob) \<and>
      acquired = (ob_breaker ob \<noteq> None) \<and>
      (case ob_breaker ob of
         None \<Rightarrow> fst (snd a) = fst (snd b)
       | Some st \<Rightarrow> \<exists>st'. (fst (snd a), Inr st') =
           spec_save (fst (snd b)) st (the (ob_expected_breaker_revision ob))) \<and>
      (case ob_consumption ob of
         None \<Rightarrow> snd (snd a) = snd (snd b)
       | Some c \<Rightarrow> consumed_effect cfg clk c (snd (snd b)) (snd (snd a))))"

definition claimed_answer :: "observation \<Rightarrow> durable_execution \<Rightarrow> bool \<Rightarrow> claim_result" where
  "claimed_answer ob stored acquired =
     \<lparr>cl_claimed = True, cl_execution_id = Some (dx_execution_id stored), cl_state = Some (dx_state stored),
      cl_block_reason = None, cl_claim_expires_at = dx_claim_expires_at stored, cl_probe_acquired = acquired,
      cl_authorization_consumed = (ob_consumption ob \<noteq> None), cl_claim_capability = Some (ob_claim_capability ob),
      cl_probe_capability = ob_probe_capability ob\<rparr>"

lemma committed_row:
  assumes "committed cfg clk ob b a stored acquired"
  shows "\<exists>c. fst b (dx_execution_id (ob_execution ob)) = Some c \<and> dx_revision c = ob_expected_revision ob \<and>
    require_same_pins c (ob_execution ob) = Inr () \<and> valid_execution stored \<and>
    stored = (ob_execution ob)\<lparr>dx_created_at := dx_created_at c, dx_revision := ob_expected_revision ob + 1\<rparr> \<and>
    fst a = (fst b)(dx_execution_id (ob_execution ob) \<mapsto> stored)"
proof -
  have w: "spec_write (replaced (ob_execution ob) (ob_expected_revision ob)) (fst b)
      (dx_execution_id (ob_execution ob)) (ob_expected_revision ob) = (fst a, Inr stored)"
    using assms by (simp add: committed_def)
  obtain c where c: "fst b (dx_execution_id (ob_execution ob)) = Some c" "dx_revision c = ob_expected_revision ob"
    "replaced (ob_execution ob) (ob_expected_revision ob) c = Inr stored"
    "fst a = (fst b)(dx_execution_id (ob_execution ob) \<mapsto> stored)"
    using w by (auto simp: spec_write_def split: option.splits if_splits sum.splits)
  then show ?thesis using replaced_form by fastforce
qed

lemma claimed_answer_stands:
  assumes "ob_ok ob" and "committed cfg clk ob b a stored acquired"
  shows "check_claim_result (claimed_answer ob stored acquired) = Inr (claimed_answer ob stored acquired)"
proof -
  have "dx_state stored = ClaimedForAttempt" "dx_claim_expires_at stored \<noteq> None"
    using committed_row [OF assms(2)] assms(1) by (auto simp: ob_ok_def)
  moreover have "acquired = (ob_breaker ob \<noteq> None)" using assms(2) by (simp add: committed_def)
  ultimately show ?thesis
    using assms(1) by (cases "ob_breaker ob") (auto simp: check_claim_result_def claimed_answer_def ob_ok_def blank_def)
qed

text \<open>What the request had to find, and what a claim writes.\<close>

definition consume_request_of :: "research_authorization \<Rightarrow> consume_request" where
  "consume_request_of a =
     \<lparr>cq_authorization_id = ra_id a, cq_authorization_version = ra_version a, cq_decision_id = ra_decision_id a,
      cq_context_version = ra_context_version a, cq_proposal_id = ra_proposal_id a,
      cq_proposal_version = ra_proposal_version a, cq_scope_digest = ra_scope_digest a,
      cq_idempotency_key = ra_idempotency_key a\<rparr>"

definition claim_permitted :: "'d claim_request \<Rightarrow> 'f claim_view \<Rightarrow> bool" where
  "claim_permitted q b =
     (\<exists>i x brk. authorized_execution_id (ra_idempotency_key (lq_authorization q)) = Inr i \<and> fst b i = Some x \<and>
        pin_reason x q = None \<and> plan_target_matches q \<and> dx_state x \<noteq> Running \<and>
        dx_state x \<notin> terminal_execution_states \<and> claim_is_active x (lq_now q) = Inr False \<and>
        spec_load (fst (snd b)) (lq_provider_id q) (lq_market q) (lq_now q) = Inr brk \<and> gate_reason q brk = Inr None)"

definition claim_written ::
  "conv_settings \<Rightarrow> datetime \<Rightarrow> claim_leases \<Rightarrow> string \<Rightarrow> 'd claim_request \<Rightarrow> 'f claim_view \<Rightarrow> 'f claim_view
     \<Rightarrow> claim_result \<Rightarrow> bool" where
  "claim_written cfg clk leases token q b a res =
     ((\<exists>c stored d. fst b (dx_execution_id stored) = Some c \<and> pins stored = pins c \<and>
         authorized_execution_id (ra_idempotency_key (lq_authorization q)) = Inr (dx_execution_id stored) \<and>
         dx_revision stored = dx_revision c + 1 \<and> dx_state stored = ClaimedForAttempt \<and>
         dx_claim_expires_at stored = Some (plus_micros (lq_now q) (execution_lease leases)) \<and>
         execution_claim_digest token = Inr d \<and> dx_claim_digest stored = Some d \<and>
         fst a = (fst b)(dx_execution_id stored \<mapsto> stored) \<and>
         cl_execution_id res = Some (dx_execution_id stored) \<and>
         cl_claim_expires_at res = dx_claim_expires_at stored \<and> cl_claim_capability res = Some token) \<and>
      (if cl_probe_acquired res
       then \<exists>st. ps_state st = HALF_OPEN \<and>
          fst (snd a) = (fst (snd b))(ps_provider_id st @ ''|'' @ ps_market st \<mapsto> st)
       else fst (snd a) = fst (snd b)) \<and>
      (if cl_authorization_consumed res
       then \<exists>p u. snd (snd b) (ra_conversation_id (lq_authorization q)) = Some p \<and> is_expired clk p = Inr False \<and>
          consume_exact_research_authorization p (lq_owner q) (consume_request_of (lq_authorization q)) (lq_now q) =
            Inr u \<and>
          snd (snd a) = (snd (snd b))(ra_conversation_id (lq_authorization q)
            \<mapsto> stored_context cfg u (cx_version p + 1))
       else snd (snd a) = snd (snd b)))"

lemma exact_stored_member:
  assumes "exact_stored_authorization p a = Inr stored"
  shows "filter (\<lambda>x. ra_id x = ra_id a) (cv_authorizations p) = [stored] \<and>
    ra_id stored = ra_id a \<and> ra_conversation_id stored = ra_conversation_id a \<and>
    ra_owner_binding stored = ra_owner_binding a \<and> consume_request_of stored = consume_request_of a"
proof -
  have one: "filter (\<lambda>x. ra_id x = ra_id a) (cv_authorizations p) = [stored]"
    using assms unfolding exact_stored_authorization_def by (auto split: list.splits if_splits)
  then have "stored \<in> set (filter (\<lambda>x. ra_id x = ra_id a) (cv_authorizations p))" by simp
  then have "ra_id stored = ra_id a" by simp
  then show ?thesis
    using assms one unfolding exact_stored_authorization_def consume_request_of_def by (auto split: if_splits)
qed

lemma lease_half_open: "apply_half_open_probe_lease s now lease token = Inr n \<Longrightarrow> ps_state n = HALF_OPEN"
proof -
  assume "apply_half_open_probe_lease s now lease token = Inr n"
  then obtain b d where "ps_state b \<noteq> CLOSED" "ps_state b \<noteq> OPEN"
    "check_state (b\<lparr>probe_digest := Some d, probe_claimed_at := Some now,
       probe_expires_at := Some (plus_micros now lease), ps_updated_at := now\<rparr>) = Inr n"
    by (auto simp: apply_half_open_probe_lease_def and_then_Inr_iff split: if_split_asm)
  then show ?thesis using check_state_valid(2) by (cases "ps_state b") fastforce+
qed

lemma spec_save_done:
  assumes "spec_save V st e = (V', Inr st')"
  shows "st' = st\<lparr>ps_revision := e + 1\<rparr> \<and> V' = V(ps_provider_id st @ ''|'' @ ps_market st \<mapsto> st')"
  using assms by (auto simp: spec_save_def Let_def split: if_splits)

lemma written_execution:
  assumes nxt: "apply_execution_claim x (lq_now q) lease token = Inr n"
    and i: "authorized_execution_id (ra_idempotency_key (lq_authorization q)) = Inr (dx_execution_id x)"
    and ob: "ob_execution ob = n" "ob_claim_capability ob = token"
    and com: "committed cfg clk ob b a stored acquired"
  shows "\<exists>c stored' d. fst b (dx_execution_id stored') = Some c \<and> pins stored' = pins c \<and>
    authorized_execution_id (ra_idempotency_key (lq_authorization q)) = Inr (dx_execution_id stored') \<and>
    dx_revision stored' = dx_revision c + 1 \<and> dx_state stored' = ClaimedForAttempt \<and>
    dx_claim_expires_at stored' = Some (plus_micros (lq_now q) lease) \<and>
    execution_claim_digest token = Inr d \<and> dx_claim_digest stored' = Some d \<and>
    fst a = (fst b)(dx_execution_id stored' \<mapsto> stored') \<and>
    cl_execution_id (claimed_answer ob stored acquired) = Some (dx_execution_id stored') \<and>
    cl_claim_expires_at (claimed_answer ob stored acquired) = dx_claim_expires_at stored' \<and>
    cl_claim_capability (claimed_answer ob stored acquired) = Some token"
proof -
  obtain d where d: "execution_claim_digest token = Inr d"
    "n = x\<lparr>dx_state := ClaimedForAttempt, dx_claimed_at := Some (lq_now q),
      dx_claim_expires_at := Some (plus_micros (lq_now q) lease), dx_claim_digest := Some d, dx_updated_at := lq_now q\<rparr>"
    using apply_execution_claim_form [OF nxt] by blast
  obtain c where c: "fst b (dx_execution_id n) = Some c" "dx_revision c = ob_expected_revision ob"
    "require_same_pins c n = Inr ()"
    "stored = n\<lparr>dx_created_at := dx_created_at c, dx_revision := ob_expected_revision ob + 1\<rparr>"
    "fst a = (fst b)(dx_execution_id n \<mapsto> stored)"
    using committed_row [OF com] unfolding ob by blast
  show ?thesis
    using c d i by (intro exI [of _ c] exI [of _ stored] exI [of _ d])
      (auto simp: pins_def require_same_pins_def claimed_answer_def ob split: if_splits)
qed

lemma written_breaker:
  assumes probe: "observe_probe q lease token x permitted = Inr (Inr (ob_breaker ob))"
    and com: "committed cfg clk ob b a stored acquired"
  shows "if acquired
    then \<exists>st. ps_state st = HALF_OPEN \<and> fst (snd a) = (fst (snd b))(ps_provider_id st @ ''|'' @ ps_market st \<mapsto> st)
    else fst (snd a) = fst (snd b)"
proof (cases "ob_breaker ob")
  case None
  then show ?thesis using com by (simp add: committed_def)
next
  case (Some st)
  then have half: "ps_state st = HALF_OPEN"
    using probe unfolding observe_probe_on by (auto dest: lease_half_open split: breaker.splits)
  have acq: acquired and "\<exists>st'. (fst (snd a), Inr st') =
      spec_save (fst (snd b)) st (the (ob_expected_breaker_revision ob))"
    using com Some by (simp_all add: committed_def)
  then obtain st' where "spec_save (fst (snd b)) st (the (ob_expected_breaker_revision ob)) = (fst (snd a), Inr st')"
    by metis
  note spec_save_done [OF this]
  with half acq show ?thesis by (auto intro!: exI [of _ st'])
qed

context claim_store
begin

lemma execution_stage:
  assumes "pending s0 w" and "ok (fst w)"
    and "fault_or fault AtExecution w (apsnd (relabel ClaimExecution) (tx_cas_execution tx w x e)) = (w', r)"
  shows "pending s0 w' \<and> ok (fst w') \<and> br (fst w') = br (fst w) \<and> cv (fst w') = cv (fst w) \<and>
    (\<forall>stored. r = Inr stored \<longrightarrow>
       (ex (fst w'), Inr stored) = spec_write (replaced x e) (ex (fst w)) (dx_execution_id x) e)"
proof -
  obtain w1 a where run: "tx_cas_execution tx w x e = (w1, a)" by (metis surj_pair)
  show ?thesis
    using cas_execution_law [OF assms(1,2) run] assms
    by (cases "fault = Some AtExecution") (auto simp: fault_or_def run relabel_Inr)
qed

lemma breaker_stage:
  assumes "pending s0 w" and "ok (fst w)" and "valid_state st" and "0 \<le> e"
    and "fault_or fault AtBreaker w (apsnd (relabel ClaimRepository) (tx_cas_breaker tx w st e)) = (w', r)"
  shows "pending s0 w' \<and> ok (fst w') \<and> ex (fst w') = ex (fst w) \<and> cv (fst w') = cv (fst w) \<and>
    (\<forall>st'. r = Inr st' \<longrightarrow> (br (fst w'), Inr st') = spec_save (br (fst w)) st e)"
proof -
  obtain w1 a where run: "tx_cas_breaker tx w st e = (w1, a)" by (metis surj_pair)
  show ?thesis
    using cas_breaker_law [OF assms(1-4) run] assms
    by (cases "fault = Some AtBreaker") (auto simp: fault_or_def run relabel_Inr)
qed

lemma consume_stage:
  assumes "pending s0 w" and "ok (fst w)"
    and "fault_or fault AtConsume w (apsnd (relabel ClaimConversation) (tx_consume tx w c)) = (w', r)"
  shows "pending s0 w' \<and> ok (fst w') \<and> ex (fst w') = ex (fst w) \<and> br (fst w') = br (fst w) \<and>
    (\<forall>st. r = Inr st \<longrightarrow> consumed_effect cfg clk c (cv (fst w)) (cv (fst w')))"
proof -
  obtain w1 a where run: "tx_consume tx w c = (w1, a)" by (metis surj_pair)
  show ?thesis
    using consume_law [OF assms(1,2) run] assms
    by (cases "fault = Some AtConsume") (auto simp: fault_or_def run relabel_Inr)
qed

text \<open>The three writes together.\<close>

lemma breaker_choice:
  assumes "pending s0 w" and "ok (fst w)" and "ob_ok ob" and run: "write_breaker tx fault w ob = (w', r)"
  shows "pending s0 w' \<and> ok (fst w') \<and> ex (fst w') = ex (fst w) \<and> cv (fst w') = cv (fst w) \<and>
    (\<forall>acquired. r = Inr acquired \<longrightarrow> acquired = (ob_breaker ob \<noteq> None) \<and>
       (case ob_breaker ob of
          None \<Rightarrow> br (fst w') = br (fst w)
        | Some st \<Rightarrow> \<exists>st'. (br (fst w'), Inr st') =
            spec_save (br (fst w)) st (the (ob_expected_breaker_revision ob))))"
proof (cases "ob_breaker ob")
  case None
  then show ?thesis using assms by (auto simp: write_breaker_def)
next
  case (Some st)
  then obtain e where e: "ob_expected_breaker_revision ob = Some e" "0 \<le> e" "valid_state st"
    using assms(3) by (auto simp: ob_ok_def)
  obtain w1 r1 where 1: "fault_or fault AtBreaker w
      (apsnd (relabel ClaimRepository) (tx_cas_breaker tx w st e)) = (w1, r1)" by (metis surj_pair)
  show ?thesis
    using breaker_stage [OF assms(1,2) e(3,2) 1] run
    by (cases r1) (auto simp: write_breaker_def Some e(1) 1)
qed

lemma consume_choice:
  assumes "pending s0 w" and "ok (fst w)" and run: "write_consumption tx fault w ob = (w', r)"
  shows "pending s0 w' \<and> ok (fst w') \<and> ex (fst w') = ex (fst w) \<and> br (fst w') = br (fst w) \<and>
    (r = Inr () \<longrightarrow>
       (case ob_consumption ob of
          None \<Rightarrow> cv (fst w') = cv (fst w)
        | Some c \<Rightarrow> consumed_effect cfg clk c (cv (fst w)) (cv (fst w'))))"
proof (cases "ob_consumption ob")
  case None
  then show ?thesis using assms by (auto simp: write_consumption_def)
next
  case (Some c)
  obtain w1 r1 where 1: "fault_or fault AtConsume w
      (apsnd (relabel ClaimConversation) (tx_consume tx w c)) = (w1, r1)" by (metis surj_pair)
  show ?thesis
    using consume_stage [OF assms(1,2) 1] run by (cases r1) (auto simp: write_consumption_def Some 1)
qed

lemma writes:
  assumes "pending s0 w" and "ok (fst w)" and "ob_ok ob" and run: "write_claim tx fault w ob = (w', r)"
  shows "pending s0 w' \<and> ok (fst w') \<and>
    (\<forall>stored acquired. r = Inr (stored, acquired) \<longrightarrow>
       committed cfg clk ob (ex (fst w), br (fst w), cv (fst w)) (ex (fst w'), br (fst w'), cv (fst w')) stored acquired)"
proof -
  obtain w1 r1 where 1: "fault_or fault AtExecution w
      (apsnd (relabel ClaimExecution) (tx_cas_execution tx w (ob_execution ob) (ob_expected_revision ob))) = (w1, r1)"
    by (metis surj_pair)
  note s1 = execution_stage [OF assms(1,2) 1]
  obtain w2 r2 where 2: "write_breaker tx fault w1 ob = (w2, r2)" by (metis surj_pair)
  note s2 = breaker_choice [OF conjunct1 [OF s1] conjunct1 [OF conjunct2 [OF s1]] assms(3) 2]
  obtain w3 r3 where 3: "write_consumption tx fault w2 ob = (w3, r3)" by (metis surj_pair)
  note s3 = consume_choice [OF conjunct1 [OF s2] conjunct1 [OF conjunct2 [OF s2]] 3]
  consider e where "(w', r) = (w1, Inl e)" | e where "(w', r) = (w2, Inl e)" | e where "(w', r) = (w3, Inl e)"
    | stored acquired where "(w', r) = (w3, Inr (stored, acquired))" "r1 = Inr stored" "r2 = Inr acquired" "r3 = Inr ()"
    using run by (cases r1; cases r2; cases r3) (auto simp: write_claim_def 1 2 3)
  then show ?thesis
  proof cases
    case 4
    have "committed cfg clk ob (ex (fst w), br (fst w), cv (fst w)) (ex (fst w3), br (fst w3), cv (fst w3)) stored acquired"
      unfolding committed_def fst_conv snd_conv
      using s1 s2 s3 4(2-4) by (cases "ob_breaker ob"; cases "ob_consumption ob") simp_all
    then show ?thesis using s3 4(1) by simp
  qed (use s1 s2 s3 in simp_all)
qed

lemma rolled_back:
  assumes "ok s" and "pending s w" and "ok (fst w)"
  shows "ok (tx_rollback tx w)" and
    "rows_kept clk (ex s, br s, cv s) (ex (tx_rollback tx w), br (tx_rollback tx w), cv (tx_rollback tx w))"
  using rollback_law [OF assms] by (auto simp: rows_kept_def)

lemma conflict_reason_nonblank: "conflict_reason e = Some reason \<Longrightarrow> reason \<noteq> []"
  by (cases e rule: conflict_reason.cases) auto

lemma finishes:
  assumes "ok s" and "ob_ok ob" and run: "finish_claim tx fault s ob = (s', r)"
  obtains (refused) res where "r = Inr res" "\<not> cl_claimed res" "ok s'" "rows_kept clk (ex s, br s, cv s) (ex s', br s', cv s')"
  | (claimed) stored acquired where "r = Inr (claimed_answer ob stored acquired)" "ok s'"
      "committed cfg clk ob (ex s, br s, cv s) (ex s', br s', cv s') stored acquired"
  | (raised) e w where "r = Inl e" "s' = tx_close tx w" "pending s w" "ok (fst w)"
proof -
  obtain w a where w: "write_claim tx fault (s, tx_begin tx s) ob = (w, a)" by (metis surj_pair)
  have pend: "pending s w" "ok (fst w)"
    using writes [OF begin_law [OF assms(1)] _ assms(2) w] assms(1) by simp_all
  note undone = rolled_back [OF assms(1) pend]
  let ?i = "dx_execution_id (ob_execution ob)"
  have refusal: thesis if "reason \<noteq> []" "s' = tx_rollback tx w" "r = LiveStart.refused reason (Some ?i) st" for reason st
    using refused_Inr [OF that(1), of "Some ?i" st] refused_not_claimed that undone by (metis refused)
  note run' = run [unfolded finish_claim_def Let_def w]
  show thesis
  proof (cases a)
    case (Inr sa)
    then obtain stored acquired where a: "a = Inr (stored, acquired)" by (cases sa) simp
    have com: "committed cfg clk ob (ex s, br s, cv s) (ex (fst w), br (fst w), cv (fst w)) stored acquired"
      using writes [OF begin_law [OF assms(1)] _ assms(2) w] assms(1) a by simp
    show thesis
    proof (cases "fault = Some AtCommit")
      case True
      then have "s' = tx_rollback tx w" "r = LiveStart.refused ''claim_persistence_unavailable'' (Some ?i) None"
        using run' by (simp_all add: a)
      then show thesis by (rule refusal [rotated]) simp
    next
      case False
      then have "s' = fst w" "r = check_claim_result (claimed_answer ob stored acquired)"
        using run' by (simp_all add: a claimed_answer_def)
      then show thesis using claimed com pend(2) claimed_answer_stands [OF assms(2) com] by simp
    qed
  next
    case (Inl e)
    show thesis
    proof (cases "conflict_reason e")
      case (Some reason)
      have "s' = tx_rollback tx w"
        "r = LiveStart.refused reason (Some ?i) (map_option dx_state (ex (tx_rollback tx w) ?i))"
        using run' Some by (auto simp: Inl load_execution_law [OF undone(1)])
      then show thesis by (rule refusal [OF conflict_reason_nonblank [OF Some]])
    next
      case None
      show thesis
      proof (cases "is_persistence e")
        case True
        then have "s' = tx_rollback tx w" "r = LiveStart.refused ''claim_persistence_unavailable'' (Some ?i) None"
          using run' None by (simp_all add: Inl)
        then show thesis by (rule refusal [rotated]) simp
      next
        case False
        then have "s' = tx_close tx w" "r = Inl e"
          using run' None by (simp_all add: Inl)
        then show thesis by (rule raised [OF _ _ pend, rotated])
      qed
    qed
  qed
qed

lemma commitment_read:
  assumes "ok s" and run: "authorization_commitment tx s q x active = (s', r)"
  shows "pending s (s', tx_begin tx s)" and "ok s'" and "rows_kept clk (ex s, br s, cv s) (ex s', br s', cv s')"
    and "r = Inr (Inr c) \<Longrightarrow> s' = s \<and> (\<exists>p stored. cv s (ra_conversation_id (lq_authorization q)) = Some p \<and>
      is_expired clk p = Inr False \<and> (\<exists>w. cv_owner p = Some w \<and> has_same_identity w (lq_owner q)) \<and>
      exact_stored_authorization p (lq_authorization q) = Inr stored \<and>
      commit_stored tx s q x active p stored = Inr (Inr c))"
proof -
  obtain s1 found where load: "tx_load_conversation tx s (ra_conversation_id (lq_authorization q)) = (s1, found)"
    by (metis surj_pair)
  note law = load_conversation_law [OF assms(1) load]
  have s': "s' = s1"
    using run unfolding authorization_commitment_def load by (auto split: sum.splits option.splits if_splits)
  show "pending s (s', tx_begin tx s)" "ok s'" "rows_kept clk (ex s, br s, cv s) (ex s', br s', cv s')"
    using law by (auto simp: s' rows_kept_def)
  show "s' = s \<and> (\<exists>p stored. cv s (ra_conversation_id (lq_authorization q)) = Some p \<and>
      is_expired clk p = Inr False \<and> (\<exists>w. cv_owner p = Some w \<and> has_same_identity w (lq_owner q)) \<and>
      exact_stored_authorization p (lq_authorization q) = Inr stored \<and>
      commit_stored tx s q x active p stored = Inr (Inr c))" if on: "r = Inr (Inr c)"
  proof -
    have stop: "stop_with reason y \<noteq> Inr (Inr c)" for reason y by (rule stop_never_goes_on)
    obtain p where p: "found = Inr (Some p)"
      using run on stop unfolding authorization_commitment_def load by (auto split: sum.splits option.splits)
    then have s: "s1 = s" "cv s (ra_conversation_id (lq_authorization q)) = Some p" "is_expired clk p = Inr False"
      using law by auto
    show ?thesis
      using run on stop s unfolding authorization_commitment_def load p s'
      by (auto split: sum.splits option.splits if_splits)
  qed
qed

lemma loaded_breaker_ok:
  "ok s \<Longrightarrow> observe_breaker tx s q x = Inr (Inr (brk, permitted)) \<Longrightarrow> valid_state brk \<and> 0 \<le> ps_revision brk"
  using spec_load_valid [OF conjunct2 [OF rows_law]] unfolding observe_breaker_on load_breaker_law by blast

lemma observed_ok:
  assumes "ok s" and "observe_claim tx leases tokens mid s q = (s', Inr (Inr ob))"
  shows "ob_ok ob"
proof -
  obtain x brk nxt lp c where st: "first_stages tx leases tokens s q = Inr (Inr (x, brk, nxt, lp))"
    and ob: "ob = \<lparr>ob_execution = nxt, ob_expected_revision = dx_revision x, ob_breaker = lp,
      ob_expected_breaker_revision = (if lp = None then None else Some (ps_revision brk)),
      ob_claim_capability = fst tokens, ob_probe_capability = (if lp = None then None else Some (snd tokens)),
      ob_consumption = c\<rparr>"
    using assms(2) unfolding observe_claim_on by blast
  obtain permitted where on: "observe_breaker tx s q x = Inr (Inr (brk, permitted))"
    "observe_claimed q (execution_lease leases) (fst tokens) x = Inr (Inr nxt)"
    "observe_probe q (probe_lease leases) (snd tokens) x permitted = Inr (Inr lp)"
    using st unfolding first_stages_on by blast
  have nxt: "apply_execution_claim x (lq_now q) (execution_lease leases) (fst tokens) = Inr nxt"
    using on(2) by (simp add: observe_claimed_on)
  have lp: "lp = None \<or> (\<exists>st. lp = Some st \<and> valid_state st \<and> snd tokens \<noteq> [])"
    using on(3) unfolding observe_probe_on by (auto dest: lease_nonblank split: breaker.splits)
  show ?thesis
    using apply_execution_claim_form [OF nxt] lp loaded_breaker_ok [OF assms(1) on(1)] by (auto simp: ob_ok_def ob)
qed

lemma observed_state:
  assumes "ok (mid s)" and obs: "observe_claim tx leases tokens mid s q = (s', r)"
  shows "pending (mid s) (s', tx_begin tx (mid s)) \<and> ok s' \<and>
    rows_kept clk (ex (mid s), br (mid s), cv (mid s)) (ex s', br s', cv s') \<and> (\<forall>ob. r = Inr (Inr ob) \<longrightarrow> s' = mid s)"
proof (rule stage_cases [of "first_stages tx leases tokens s q"])
  fix y assume y: "first_stages tx leases tokens s q = Inr (Inr y)"
  obtain x brk nxt lp where form: "y = (x, brk, nxt, lp)" by (cases y)
  obtain s1 c where com: "authorization_commitment tx (mid s) q x False = (s1, c)" by (metis surj_pair)
  have "s' = s1" and on: "\<And>ob. r = Inr (Inr ob) \<Longrightarrow> \<exists>d. c = Inr (Inr d)"
    using obs y unfolding observe_claim_def first_stages_def [symmetric] form by (auto simp: com goes_on)
  then show ?thesis using commitment_read [OF assms(1) com] by blast
qed (use obs begin_law [OF assms(1)] assms(1) in \<open>auto simp: observe_claim_def first_stages_def [symmetric]\<close>)

lemma unavailable:
  obtains res where "LiveStart.refused ''claim_persistence_unavailable'' i st = Inr res" "\<not> cl_claimed res"
  using refused_Inr [of "''claim_persistence_unavailable''" i st] refused_not_claimed by (metis list.distinct(1))

lemma observations:
  assumes "ok s" and "ok (mid s)" and run: "observe tx leases tokens mid fault s q = (s', r)"
  obtains (answered) res where "r = Inr (Inl res)" "\<not> cl_claimed res" "ok s'"
      "s' = s \<or> rows_kept clk (ex (mid s), br (mid s), cv (mid s)) (ex s', br s', cv s')"
  | (raised) e w where "r = Inl e" "s' = tx_close tx w" "pending (mid s) w" "ok (fst w)"
  | (observed) ob where "r = Inr (Inr ob)" "s' = mid s" "ob_ok ob"
      "observe_claim tx leases tokens mid s q = (mid s, Inr (Inr ob))"
proof (cases "fault = Some AtObserve")
  case True
  obtain res where "LiveStart.refused ''claim_persistence_unavailable'' None None = Inr res" "\<not> cl_claimed res"
    by (rule unavailable)
  then show thesis using run assms(1) True by (intro answered [of res]) (auto simp: observe_def)
next
  case False
  obtain s1 r1 where obs: "observe_claim tx leases tokens mid s q = (s1, r1)" by (metis surj_pair)
  note run' = run [unfolded observe_def if_not_P [OF False] obs prod.case]
  note st = observed_state [OF assms(2) obs]
  have undone: "ok (tx_rollback tx (s1, tx_begin tx (mid s)))" "rows_kept clk (ex (mid s), br (mid s), cv (mid s))
      (ex (tx_rollback tx (s1, tx_begin tx (mid s))), br (tx_rollback tx (s1, tx_begin tx (mid s))),
       cv (tx_rollback tx (s1, tx_begin tx (mid s))))"
    using rolled_back [OF assms(2), of "(s1, tx_begin tx (mid s))"] st by simp_all
  show thesis
  proof (rule stage_cases [of r1])
    fix e assume e: "r1 = Inl e"
    show thesis
    proof (cases "is_persistence e")
      case True
      obtain res where "LiveStart.refused ''claim_persistence_unavailable'' None None = Inr res" "\<not> cl_claimed res"
        by (rule unavailable)
      then show thesis using run' undone answered True by (auto simp: e)
    next
      case False
      then show thesis using run' raised [of e "(s1, tx_begin tx (mid s))"] st by (simp add: e)
    qed
  next
    fix a assume a: "r1 = Inr (Inl a)"
    have "\<not> cl_claimed a" using observation_answers [OF obs] by (simp add: a)
    then show thesis using run' undone answered by (auto simp: a)
  next
    fix ob assume ob: "r1 = Inr (Inr ob)"
    then have "s1 = mid s" using st by blast
    then show thesis
      using run' obs observed_ok [OF assms(1) obs [unfolded ob]] by (intro observed [of ob]) (auto simp: ob)
  qed
qed

lemma claims:
  assumes "ok s" and "ok (mid s)" and "ok (lat (mid s))"
    and run: "claim tx leases tokens mid lat fault s q = (s', r)"
  obtains (refused) res b where "r = Inr res" "\<not> cl_claimed res" "ok s'" "b \<in> {s, mid s, lat (mid s)}"
      "rows_kept clk (ex b, br b, cv b) (ex s', br s', cv s')"
  | (claimed) ob stored acquired where "observe_claim tx leases tokens mid s q = (mid s, Inr (Inr ob))"
      "r = Inr (claimed_answer ob stored acquired)" "ok s'"
      "committed cfg clk ob (ex (lat (mid s)), br (lat (mid s)), cv (lat (mid s))) (ex s', br s', cv s')
         stored acquired"
  | (raised) e w b where "r = Inl e" "s' = tx_close tx w" "b \<in> {mid s, lat (mid s)}" "pending b w" "ok (fst w)"
proof (cases "fault = Some AtLock")
  case True
  obtain res where "LiveStart.refused ''claim_persistence_unavailable'' None None = Inr res" "\<not> cl_claimed res"
    by (rule unavailable)
  then show thesis using run assms(1) True by (intro that(1) [of res s]) (auto simp: claim_def)
next
  case False
  obtain s1 r1 where obs: "observe tx leases tokens mid fault s q = (s1, r1)" by (metis surj_pair)
  note run' = run [unfolded claim_def if_not_P [OF False] obs prod.case]
  from assms(1,2) obs show thesis
  proof (cases rule: observations)
    case (answered res)
    then have "r = Inr res" "s' = s1" using run' by simp_all
    then show thesis using that(1) [of res s] that(1) [of res "mid s"] answered by auto
  next
    case (raised e w)
    then show thesis using run' that(3) [of e w "mid s"] by simp
  next
    case (observed ob)
    have fin: "finish_claim tx fault (lat (mid s)) ob = (s', r)" using run' observed by simp
    from assms(3) observed(3) fin show thesis
    proof (cases rule: finishes)
      case (refused res)
      then show thesis using that(1) [of res "lat (mid s)"] by simp
    next
      case (claimed stored acquired)
      then show thesis using observed(4) that(2) by blast
    next
      case (raised e w)
      then show thesis using that(3) [of e w "lat (mid s)"] by simp
    qed
  qed
qed

lemma claim_effect:
  assumes "ok s" and "ok (mid s)" and obs: "observe_claim tx leases tokens mid s q = (mid s, Inr (Inr ob))"
    and com: "committed cfg clk ob b a stored acquired"
  shows "claim_permitted q (ex s, br s, cv s)"
    and "claim_written cfg clk leases (fst tokens) q b a (claimed_answer ob stored acquired)"
proof -
  obtain x brk nxt lp c where st: "first_stages tx leases tokens s q = Inr (Inr (x, brk, nxt, lp))"
    and auth: "authorization_commitment tx (mid s) q x False = (mid s, Inr (Inr c))"
    and ob: "ob = \<lparr>ob_execution = nxt, ob_expected_revision = dx_revision x, ob_breaker = lp,
      ob_expected_breaker_revision = (if lp = None then None else Some (ps_revision brk)),
      ob_claim_capability = fst tokens, ob_probe_capability = (if lp = None then None else Some (snd tokens)),
      ob_consumption = c\<rparr>"
    using obs unfolding observe_claim_on by blast
  obtain permitted where on: "observe_execution tx s q = Inr (Inr x)"
    "observe_breaker tx s q x = Inr (Inr (brk, permitted))"
    "observe_claimed q (execution_lease leases) (fst tokens) x = Inr (Inr nxt)"
    "observe_probe q (probe_lease leases) (snd tokens) x permitted = Inr (Inr lp)"
    using st unfolding first_stages_on by blast
  obtain i where i: "authorized_execution_id (ra_idempotency_key (lq_authorization q)) = Inr i" "ex s i = Some x"
    using on(1) unfolding observe_execution_on by (auto simp: load_execution_law [OF assms(1)])
  show "claim_permitted q (ex s, br s, cv s)"
    using on(1,2) i unfolding claim_permitted_def observe_execution_on observe_breaker_on
    by (auto simp: load_breaker_law [OF assms(1)])
  show "claim_written cfg clk leases (fst tokens) q b a (claimed_answer ob stored acquired)"
  proof -
    let ?i = "ra_conversation_id (lq_authorization q)"
    have id: "dx_execution_id x = i" using rows_law [OF assms(1)] i(2) by (auto simp: rows_valid_def)
    have 1: "apply_execution_claim x (lq_now q) (execution_lease leases) (fst tokens) = Inr nxt"
      using on(3) by (simp add: observe_claimed_on)
    obtain p auth where p: "cv (mid s) ?i = Some p" "is_expired clk p = Inr False"
      "exact_stored_authorization p (lq_authorization q) = Inr auth"
      "commit_stored tx (mid s) q x False p auth = Inr (Inr c)"
      using commitment_read(4) [OF assms(2) auth] by blast
    have cid: "cv_id p = ?i" using context_law [OF assms(2) p(1)] by simp
    have 2: "c = None \<or> c = Some \<lparr>cm_conversation_id = ?i, cm_owner = lq_owner q,
        cm_request = consume_request_of (lq_authorization q), cm_expected_version = cx_version p, cm_now = lq_now q\<rparr>"
      using p(4) exact_stored_member [OF p(3)] cid unfolding commit_stored_on
      by (auto simp: consume_request_of_def split: if_splits)
    have 3: "if c \<noteq> None
       then \<exists>p u. snd (snd b) ?i = Some p \<and> is_expired clk p = Inr False \<and>
          consume_exact_research_authorization p (lq_owner q) (consume_request_of (lq_authorization q)) (lq_now q) =
            Inr u \<and> snd (snd a) = (snd (snd b))(?i \<mapsto> stored_context cfg u (cx_version p + 1))
       else snd (snd a) = snd (snd b)"
      using 2 com by (auto simp: committed_def ob consumed_effect_def)
    show ?thesis
      unfolding claim_written_def
    proof (intro conjI)
      show "if cl_probe_acquired (claimed_answer ob stored acquired)
        then \<exists>st. ps_state st = HALF_OPEN \<and>
          fst (snd a) = (fst (snd b))(ps_provider_id st @ ''|'' @ ps_market st \<mapsto> st)
        else fst (snd a) = fst (snd b)"
        using written_breaker [of q "probe_lease leases" "snd tokens" x permitted ob, OF _ com] on(4)
        by (simp add: claimed_answer_def ob)
    qed (use written_execution [OF 1 i(1) [folded id] _ _ com] 3 in \<open>simp_all add: ob claimed_answer_def\<close>)
  qed
qed

lemma observed_revision:
  assumes "ok s" and "observe_claim tx leases tokens mid s q = (s', Inr (Inr ob))"
    and "authorized_execution_id (ra_idempotency_key (lq_authorization q)) = Inr i"
  shows "dx_execution_id (ob_execution ob) = i \<and> (\<exists>x. ex s i = Some x \<and> ob_expected_revision ob = dx_revision x)"
proof -
  obtain x brk nxt lp where st: "first_stages tx leases tokens s q = Inr (Inr (x, brk, nxt, lp))"
    and ob: "ob_execution ob = nxt" "ob_expected_revision ob = dx_revision x"
    using assms(2) unfolding observe_claim_on by auto
  have on: "observe_execution tx s q = Inr (Inr x)"
    "apply_execution_claim x (lq_now q) (execution_lease leases) (fst tokens) = Inr nxt"
    using st unfolding first_stages_on observe_claimed_on by blast+
  have x: "ex s i = Some x"
    using on(1) assms(3) unfolding observe_execution_on by (auto simp: load_execution_law [OF assms(1)])
  then have "dx_execution_id x = i" using rows_law [OF assms(1)] by (simp add: rows_valid_def)
  moreover have "dx_execution_id nxt = dx_execution_id x"
    using apply_execution_claim_form [OF on(2)] by auto
  ultimately show ?thesis using x ob by simp
qed

text \<open>Racing claims of one execution: all have read the same revision.\<close>

lemma observe_all_reads:
  assumes "observe_all tx leases s qs = (s', Inr as)" and "ok s"
    and "\<forall>(tokens, q)\<in>set qs. authorized_execution_id (ra_idempotency_key (lq_authorization q)) = Inr i"
  shows "ok s' \<and> ex s' = ex s \<and> list_all (\<lambda>a. case a of Inl res \<Rightarrow> \<not> cl_claimed res
    | Inr ob \<Rightarrow> ob_ok ob \<and> dx_execution_id (ob_execution ob) = i \<and>
        (\<exists>x. ex s i = Some x \<and> ob_expected_revision ob = dx_revision x)) as"
  using assms
proof (induction qs arbitrary: s s' as)
  case Nil
  then show ?case by auto
next
  case (Cons tq qs)
  obtain tokens q where tq: "tq = (tokens, q)" by (cases tq)
  obtain s1 r where one: "observe tx leases tokens (\<lambda>s. s) None s q = (s1, r)" by (metis surj_pair)
  obtain a where r: "r = Inr a" using Cons.prems(1) by (cases r) (simp_all add: tq one)
  obtain s2 rs where rest: "observe_all tx leases s1 qs = (s2, rs)" by (metis surj_pair)
  obtain as' where as': "rs = Inr as'" "s' = s2" "as = a # as'"
    using Cons.prems(1) by (cases rs) (auto simp: tq one r rest)
  have i: "authorized_execution_id (ra_idempotency_key (lq_authorization q)) = Inr i"
    using Cons.prems(3) by (simp add: tq)
  have here: "ok s1 \<and> ex s1 = ex s \<and> (case a of Inl res \<Rightarrow> \<not> cl_claimed res
      | Inr ob \<Rightarrow> ob_ok ob \<and> dx_execution_id (ob_execution ob) = i \<and>
          (\<exists>x. ex s i = Some x \<and> ob_expected_revision ob = dx_revision x))"
    using Cons.prems(2) Cons.prems(2) one
  proof (cases rule: observations)
    case (answered res)
    then show ?thesis by (auto simp: r rows_kept_def)
  next
    case (observed ob)
    then show ?thesis using observed_revision [OF Cons.prems(2) observed(4) i] Cons.prems(2) by (simp add: r)
  qed (simp add: r)
  have "ok s2 \<and> ex s2 = ex s1 \<and> list_all (\<lambda>a. case a of Inl res \<Rightarrow> \<not> cl_claimed res
    | Inr ob \<Rightarrow> ob_ok ob \<and> dx_execution_id (ob_execution ob) = i \<and>
        (\<exists>x. ex s1 i = Some x \<and> ob_expected_revision ob = dx_revision x)) as'"
    using Cons.prems(3) here by (intro Cons.IH) (simp_all add: rest as')
  from this [unfolded conjunct1 [OF conjunct2 [OF here]]] show ?case using here by (simp add: as')
qed

lemma finish_all_once:
  assumes "finish_all tx s as = (s', Inr rs)" and "ok s"
    and "list_all (\<lambda>a. case a of Inl res \<Rightarrow> \<not> cl_claimed res
      | Inr ob \<Rightarrow> ob_ok ob \<and> dx_execution_id (ob_execution ob) = i \<and> ob_expected_revision ob = n) as"
  shows "length (filter cl_claimed rs) \<le> (if map_option dx_revision (ex s i) = Some n then 1 else 0)"
  using assms
proof (induction as arbitrary: s rs)
  case Nil
  then show ?case by simp
next
  case (Cons a as)
  show ?case
  proof (cases a)
    case (Inl res)
    obtain s1 r where rest: "finish_all tx s as = (s1, r)" by (metis surj_pair)
    obtain rs' where "r = Inr rs'" "rs = res # rs'" "s' = s1"
      using Cons.prems(1) by (cases r) (auto simp: Inl rest)
    then show ?thesis using Cons.IH [of s rs'] Cons.prems by (simp add: rest Inl)
  next
    case (Inr ob)
    obtain s1 r1 where one: "finish_claim tx None s ob = (s1, r1)" by (metis surj_pair)
    obtain res where r1: "r1 = Inr res" using Cons.prems(1) by (cases r1) (simp_all add: Inr one)
    obtain s2 r where rest: "finish_all tx s1 as = (s2, r)" by (metis surj_pair)
    obtain rs' where rs': "r = Inr rs'" "rs = res # rs'" "s' = s2"
      using Cons.prems(1) by (cases r) (auto simp: Inr one r1 rest)
    have ob: "ob_ok ob" "dx_execution_id (ob_execution ob) = i" "ob_expected_revision ob = n"
      using Cons.prems(3) by (simp_all add: Inr)
    from Cons.prems(2) ob(1) one show ?thesis
    proof (cases rule: finishes)
      case (refused res')
      then have "ex s1 = ex s" "\<not> cl_claimed res" by (simp_all add: rows_kept_def r1)
      then show ?thesis using Cons.IH [of s1 rs'] Cons.prems(3) refused(3) by (simp add: rest rs')
    next
      case (claimed stored acquired)
      have rev: "map_option dx_revision (ex s i) = Some n" "map_option dx_revision (ex s1 i) = Some (n + 1)"
        using committed_row [OF claimed(3)] ob by auto
      have "length (filter cl_claimed rs') \<le> (if map_option dx_revision (ex s1 i) = Some n then 1 else 0)"
        using Cons.prems(3) claimed(2) by (intro Cons.IH) (simp_all add: rest rs')
      then have "length (filter cl_claimed rs') \<le> 0" unfolding rev(2) by simp
      then show ?thesis unfolding rev(1) by (simp add: rs')
    qed (simp add: r1)
  qed
qed

lemma racing_once:
  assumes "claim_racing tx leases s qs = (s', Inr rs)" and "ok s"
    and "\<forall>(tokens, q)\<in>set qs. authorized_execution_id (ra_idempotency_key (lq_authorization q)) = Inr i"
  shows "length (filter cl_claimed rs) \<le> 1"
proof -
  obtain s1 r where all: "observe_all tx leases s qs = (s1, r)" by (metis surj_pair)
  obtain as where as': "r = Inr as" "finish_all tx s1 as = (s', Inr rs)"
    using assms(1) by (cases r) (simp_all add: claim_racing_def all)
  note reads = observe_all_reads [OF all [unfolded as'(1)] assms(2,3)]
  define n where "n = (case ex s i of None \<Rightarrow> 0 | Some x \<Rightarrow> dx_revision x)"
  have "list_all (\<lambda>a. case a of Inl res \<Rightarrow> \<not> cl_claimed res
      | Inr ob \<Rightarrow> ob_ok ob \<and> dx_execution_id (ob_execution ob) = i \<and> ob_expected_revision ob = n) as"
    using reads by (elim conjE) (erule list.pred_mono_strong, auto simp: n_def split: sum.splits)
  then have "length (filter cl_claimed rs) \<le> (if map_option dx_revision (ex s1 i) = Some n then 1 else 0)"
    using finish_all_once [OF as'(2)] reads by blast
  then show ?thesis by (simp split: if_splits)
qed

text \<open>A claim that has run out can be made again, without touching the conversation.\<close>

lemma reclaim_observed:
  assumes "ok s"
    and row: "authorized_execution_id (ra_idempotency_key (lq_authorization q)) = Inr i" "ex s i = Some x"
      "dx_state x = ClaimedForAttempt" "claim_is_active x (lq_now q) = Inr False"
    and plan: "pin_reason x q = None" "plan_target_matches q"
    and gates: "spec_load (br s) (lq_provider_id q) (lq_market q) (lq_now q) = Inr brk" "gate_reason q brk = Inr None"
      "request_permission q brk = Inr dec" "ps_state (decision_breaker dec) = CLOSED"
    and conv: "cv s (ra_conversation_id (lq_authorization q)) = Some p" "is_expired clk p = Inr False"
      "cv_owner p = Some w" "has_same_identity w (lq_owner q)"
      "exact_stored_authorization p (lq_authorization q) = Inr auth" "ra_status auth = AuthConsumed"
      "resumable_for auth (lq_owner q) (resume_request_for q x False)"
    and fresh: "is_aware (lq_now q)" "0 < execution_lease leases" "execution_claim_digest (fst tokens) = Inr d"
  shows "observe tx leases tokens (\<lambda>s. s) None s q =
    (s, Inr (Inr (plain_observation x (lq_now q) (execution_lease leases) d (fst tokens))))"
proof -
  let ?n = "claimed_row x (lq_now q) (execution_lease leases) d"
  have x: "dx_execution_id x = i" "valid_execution x"
    using rows_law [OF assms(1)] row(2) by (simp_all add: rows_valid_def)
  note go = claim_goes_on [OF x(2) _ row(4) fresh]
  have st: "first_stages tx leases tokens s q = Inr (Inr (x, brk, ?n, None))"
    unfolding first_stages_on observe_execution_on observe_breaker_on observe_claimed_on observe_probe_on
    using row plan gates go(1)
    by (auto simp: load_execution_law [OF assms(1)] load_breaker_law [OF assms(1)] terminal_execution_states_def
        intro!: exI [of _ "decision_breaker dec"])
  have commit: "commit_stored tx s q x False p auth = Inr (Inr None)"
    unfolding commit_stored_on
    using conv(6,7) row by (auto simp: x(1) load_execution_law [OF assms(1)])
  have auth: "authorization_commitment tx s q x False = (s, Inr (Inr None))"
    unfolding authorization_commitment_def present_law [OF assms(1) conv(1,2)]
    using conv(3-5) commit by simp
  have "observe_claim tx leases tokens (\<lambda>s. s) s q =
      (s, Inr (Inr (plain_observation x (lq_now q) (execution_lease leases) d (fst tokens))))"
    unfolding observe_claim_on using st auth by (auto simp: plain_observation_def)
  then show ?thesis by (simp add: observe_def)
qed

lemma reclaim_finishes:
  assumes "ok s" and row: "ex s (dx_execution_id x) = Some x" "dx_state x = ClaimedForAttempt"
      "claim_is_active x now = Inr False"
    and fresh: "is_aware now" "0 < lease" "execution_claim_digest token = Inr d"
  shows "\<exists>s' stored. finish_claim tx None s (plain_observation x now lease d token) =
      (s', Inr (claimed_answer (plain_observation x now lease d token) stored False)) \<and>
    ok s' \<and> dx_revision stored = dx_revision x + 1 \<and> dx_claim_expires_at stored = Some (plus_micros now lease) \<and>
    ex s' = (ex s)(dx_execution_id x \<mapsto> stored) \<and> br s' = br s \<and> cv s' = cv s"
proof -
  let ?n = "claimed_row x now lease d" and ?ob = "plain_observation x now lease d token"
  have x: "valid_execution x" using rows_law [OF assms(1)] row(1) by (simp add: rows_valid_def)
  note go = claim_goes_on [OF x _ row(3) fresh]
  define stored where "stored = ?n\<lparr>dx_created_at := dx_created_at x, dx_revision := dx_revision x + 1\<rparr>"
  have id: "dx_execution_id ?n = dx_execution_id x" by (simp add: claimed_row_def)
  obtain w' a where cas: "tx_cas_execution tx (s, tx_begin tx s) ?n (dx_revision x) = (w', a)" by (metis surj_pair)
  have law: "ok (fst w') \<and> br (fst w') = br s \<and> cv (fst w') = cv s \<and>
      (ex (fst w'), a) = spec_write (replaced ?n (dx_revision x)) (ex s) (dx_execution_id x) (dx_revision x)"
    using cas_execution_law [OF begin_law [OF assms(1)] _ cas] assms(1) by (simp add: id)
  then have a: "a = Inr stored" "ex (fst w') = (ex s)(dx_execution_id x \<mapsto> stored)"
    using go(2) row(1,2) by (simp_all add: spec_write_def stored_def)
  have wr: "write_claim tx None (s, tx_begin tx s) ?ob = (w', Inr (stored, False))"
    unfolding write_claim_def write_breaker_def write_consumption_def fault_or_def
    by (simp add: plain_observation_def cas a)
  have facts: "dx_state stored = ClaimedForAttempt" "dx_claim_expires_at stored = Some (plus_micros now lease)"
    "dx_revision stored = dx_revision x + 1"
    by (simp_all add: stored_def claimed_row_def)
  have tok: "token \<noteq> []" using fresh(3) by (rule claim_digest_nonblank)
  have "check_claim_result (claimed_answer ?ob stored False) = Inr (claimed_answer ?ob stored False)"
    by (simp add: check_claim_result_def claimed_answer_def plain_observation_def facts blank_def tok)
  then have "finish_claim tx None s ?ob = (fst w', Inr (claimed_answer ?ob stored False))"
    unfolding finish_claim_def Let_def wr prod.case sum.case by (simp add: claimed_answer_def plain_observation_def)
  then show ?thesis using law a(2) facts by (intro exI [of _ "fst w'"] exI [of _ stored]) simp
qed

lemma reclaim:
  assumes "ok s"
    and row: "authorized_execution_id (ra_idempotency_key (lq_authorization q)) = Inr i" "ex s i = Some x"
      "dx_state x = ClaimedForAttempt" "claim_is_active x (lq_now q) = Inr False"
    and plan: "pin_reason x q = None" "plan_target_matches q"
    and gates: "spec_load (br s) (lq_provider_id q) (lq_market q) (lq_now q) = Inr brk" "gate_reason q brk = Inr None"
      "request_permission q brk = Inr dec" "ps_state (decision_breaker dec) = CLOSED"
    and conv: "cv s (ra_conversation_id (lq_authorization q)) = Some p" "is_expired clk p = Inr False"
      "cv_owner p = Some w" "has_same_identity w (lq_owner q)"
      "exact_stored_authorization p (lq_authorization q) = Inr auth" "ra_status auth = AuthConsumed"
      "resumable_for auth (lq_owner q) (resume_request_for q x False)"
    and fresh: "is_aware (lq_now q)" "0 < execution_lease leases" "execution_claim_digest (fst tokens) = Inr d"
  shows "\<exists>s' res. claim tx leases tokens (\<lambda>s. s) (\<lambda>s. s) None s q = (s', Inr res) \<and> cl_claimed res \<and>
    \<not> cl_authorization_consumed res \<and> cl_claim_capability res = Some (fst tokens) \<and>
    cl_claim_expires_at res = Some (plus_micros (lq_now q) (execution_lease leases)) \<and> cv s' = cv s"
proof -
  have id: "dx_execution_id x = i" using rows_law [OF assms(1)] row(2) by (simp add: rows_valid_def)
  have fin: "claim tx leases tokens (\<lambda>s. s) (\<lambda>s. s) None s q =
      finish_claim tx None s (plain_observation x (lq_now q) (execution_lease leases) d (fst tokens))"
    using reclaim_observed [OF assms] by (simp add: claim_def)
  show ?thesis
    unfolding fin
    using reclaim_finishes [OF assms(1) row(2) [folded id] row(3,4) fresh]
    by (auto simp: claimed_answer_def plain_observation_def)
qed

text \<open>A claim whose execution has moved on is refused.\<close>

lemma stale_claim_refused:
  assumes "ok s" and "ex s (dx_execution_id x) = Some y" and "dx_revision y \<noteq> dx_revision x"
  shows "\<exists>s' res. finish_claim tx None s (plain_observation x now lease d token) = (s', Inr res) \<and> \<not> cl_claimed res"
proof -
  let ?n = "claimed_row x now lease d" and ?ob = "plain_observation x now lease d token"
  obtain w' a where cas: "tx_cas_execution tx (s, tx_begin tx s) ?n (dx_revision x) = (w', a)" by (metis surj_pair)
  have id: "dx_execution_id ?n = dx_execution_id x" by (simp add: claimed_row_def)
  note law = cas_execution_law [OF begin_law [OF assms(1)] _ cas]
  have a: "a = Inl (AuthorizedExecutionRevisionConflict (dx_execution_id x) (dx_revision x))"
    using law spec_write_stale [of "ex s" "dx_execution_id x" y "dx_revision x"] assms by (simp add: id)
  have "write_claim tx None (s, tx_begin tx s) ?ob =
      (w', Inl (ClaimExecution (AuthorizedExecutionRevisionConflict (dx_execution_id x) (dx_revision x))))"
    unfolding write_claim_def fault_or_def by (simp add: plain_observation_def cas a)
  moreover have "ok (tx_rollback tx w')" using rolled_back(1) [OF assms(1)] law assms(1) by auto
  moreover obtain res where "LiveStart.refused ''execution_already_claimed'' (Some (dx_execution_id x))
      (map_option dx_state (ex (tx_rollback tx w') (dx_execution_id x))) = Inr res" "\<not> cl_claimed res"
    using refused_Inr [of "''execution_already_claimed''"] refused_not_claimed by (metis list.distinct(1))
  ultimately show ?thesis
    by (simp add: finish_claim_def Let_def plain_observation_def id load_execution_law)
qed

end

end
