(* ===== verification/LiveAttemptFacts.thy ===== *)
theory LiveAttemptFacts
  imports LiveAttempt LiveStartClaims
begin

text \<open>
  What one attempt promises, from the transaction contract: it begins only from a live claim, begins or changes nothing,
  stores the outcome with the breaker or neither, and a lost outcome can be closed once the lease is over.
\<close>

section \<open>Answers\<close>

lemma refusal_stands [simp]:
  "check_result (refusal_result reason True invoked st reasons ambiguous) =
     Inr (refusal_result reason True invoked st reasons ambiguous)"
  "check_result (refusal_result reason False False st reasons ambiguous) =
     Inr (refusal_result reason False False st reasons ambiguous)"
  by (simp_all add: check_result_def refusal_result_def check_synthetic_result_def)

lemma refusal_fields [simp]:
  "xr_persisted (refusal_result reason attempted invoked st reasons ambiguous) = False"
  "xr_attempted (refusal_result reason attempted invoked st reasons ambiguous) = attempted"
  "xr_verified (refusal_result reason attempted invoked st reasons ambiguous) = None"
  "xr_source_mode_live (refusal_result reason attempted invoked st reasons ambiguous) = False"
  "xr_observation_kind (refusal_result reason attempted invoked st reasons ambiguous) = None"
  by (simp_all add: refusal_result_def)

lemma answer_call_simps [simp]: "answer_call (Inl e) = Inl e" "answer_call (Inr r) = Inr (Inl r)"
  by (simp_all add: answer_call_def)

lemma check_result_form: "check_result r = Inr r' \<Longrightarrow> r' = r"
  by (auto simp: check_result_def Let_def split: if_split_asm)

lemma option_prod_cases:
  obtains s e where "p = (s, Inl e)" | s where "p = (s, Inr None)" | s r where "p = (s, Inr (Some r))"
  by (metis option.exhaust sum.exhaust surj_pair)

section \<open>When an attempt may begin\<close>

text \<open>The claim is held and has time left, for this row, plan and authorization.\<close>

definition claim_held :: "attempt \<Rightarrow> durable_execution \<Rightarrow> datetime \<Rightarrow> bool" where
  "claim_held a x now =
     (dx_state x = ClaimedForAttempt \<and> dx_plan_id x = pn_plan_id (at_plan a) \<and>
      dx_authorization_id x = ra_id (at_authorization a) \<and>
      dx_authorization_version x = ra_version (at_authorization a) \<and>
      dx_decision_id x = pn_decision_id (at_plan a) \<and> dx_decision_id x = ra_decision_id (at_authorization a) \<and>
      (\<exists>st\<in>set (pn_eligible_steps (at_plan a)). same_step (at_step a) st) \<and>
      (\<exists>d. execution_claim_digest (at_claim_capability a) = Inr d \<and> dx_claim_digest x = Some d) \<and>
      (\<exists>e. dx_claim_expires_at x = Some e \<and> is_aware e = is_aware now \<and> is_aware now \<and>
         micros now + 6000000 \<le> micros e))"

text \<open>The conversation holds the consumed authorization, and it is this owner's.\<close>

definition authorization_held :: "attempt \<Rightarrow> durable_execution \<Rightarrow> 'c conversation_scheme \<Rightarrow> bool" where
  "authorization_held a x p =
     (\<exists>w stored. cv_owner p = Some w \<and> has_same_identity w (at_owner a) \<and>
        filter (\<lambda>y. ra_id y = ra_id (at_authorization a)) (cv_authorizations p) = [stored] \<and>
        ra_status stored = AuthConsumed \<and> ra_version stored = dx_authorization_version x \<and>
        ra_decision_id stored = dx_decision_id x \<and>
        ra_idempotency_key stored = ra_idempotency_key (at_authorization a) \<and>
        ra_scope_digest stored = pn_scope_digest (at_plan a) \<and> ra_owner_binding stored = owner_binding_digest (at_owner a))"

text \<open>The breaker lets the call through, or this attempt holds its probe.\<close>

definition breaker_allows :: "provider_state \<Rightarrow> attempt \<Rightarrow> datetime \<Rightarrow> bool" where
  "breaker_allows brk a now =
     (\<not> engaged (at_kill_switch a) \<and> at_status a = AVAILABLE \<and>
      (\<exists>cur. advance_recovery brk now = Inr cur \<and>
         (case ps_state cur of
            CLOSED \<Rightarrow> at_probe_capability a = None
          | OPEN \<Rightarrow> False
          | HALF_OPEN \<Rightarrow> \<exists>token d. at_probe_capability a = Some token \<and> half_open_probe_digest token = Inr d \<and>
              probe_digest cur = Some d \<and> probe_lease_is_active cur now = Inr True \<and>
              budget_ok (probe_expires_at cur) now = Inr True)))"

text \<open>All of it, in the rows as they are.\<close>

definition attempt_granted :: "datetime \<Rightarrow> attempt \<Rightarrow> datetime \<Rightarrow> 'f claim_view \<Rightarrow> durable_execution \<Rightarrow> bool" where
  "attempt_granted clk a now v x =
     (claim_held a x now \<and>
      (\<exists>p. snd (snd v) (ra_conversation_id (at_authorization a)) = Some p \<and> is_expired clk p = Inr False \<and>
         authorization_held a x p) \<and>
      (\<exists>brk. spec_load (fst (snd v)) (st_provider_id (at_step a)) (attempt_market a) now = Inr brk \<and>
         breaker_allows brk a now))"

lemma attempt_pin_reason_on:
  "attempt_pin_reason a x = None \<longleftrightarrow>
     dx_plan_id x = pn_plan_id (at_plan a) \<and> dx_authorization_id x = ra_id (at_authorization a) \<and>
     dx_authorization_version x = ra_version (at_authorization a) \<and> dx_decision_id x = pn_decision_id (at_plan a) \<and>
     dx_decision_id x = ra_decision_id (at_authorization a) \<and>
     (\<exists>st\<in>set (pn_eligible_steps (at_plan a)). same_step (at_step a) st) \<and>
     dx_state x \<noteq> Running \<and> dx_state x \<notin> terminal_execution_states"
  by (auto simp: attempt_pin_reason_def list_ex_iff)

lemma active_check_on:
  "relabel ClaimInvalid (check_active_claim \<lparr>ac_valid = v, ac_reason = why\<rparr>) = Inr c \<and> ac_valid c \<longleftrightarrow>
     v \<and> why = None \<and> c = \<lparr>ac_valid = True, ac_reason = None\<rparr>"
  by (auto simp: check_active_claim_def)

lemma active_claim_on:
  "validate_active_execution_claim x capability now = Inr c \<and> ac_valid c \<longleftrightarrow>
     is_aware now \<and> dx_state x = ClaimedForAttempt \<and>
     (\<exists>e. dx_claim_expires_at x = Some e \<and> claim_less now e = Inr True) \<and>
     (\<exists>d. execution_claim_digest capability = Inr d \<and> dx_claim_digest x = Some d) \<and>
     c = \<lparr>ac_valid = True, ac_reason = None\<rparr>"
  unfolding validate_active_execution_claim_def Let_def
  by (auto simp: check_active_claim_def and_then_Inr_iff relabel_Inr split: option.splits sum.splits if_splits)

lemma active_probe_on:
  "validate_active_half_open_probe brk capability now = Inr c \<and> ac_valid c \<longleftrightarrow>
     is_aware now \<and> ps_state brk = HALF_OPEN \<and> probe_lease_is_active brk now = Inr True \<and>
     (\<exists>d. half_open_probe_digest capability = Inr d \<and> probe_digest brk = Some d) \<and>
     c = \<lparr>ac_valid = True, ac_reason = None\<rparr>"
  unfolding validate_active_half_open_probe_def Let_def
  by (auto simp: check_active_claim_def and_then_Inr_iff relabel_Inr split: option.splits sum.splits if_splits)

lemma inactive_reason:
  "validate_active_half_open_probe brk capability now = Inr c \<Longrightarrow> \<not> ac_valid c \<Longrightarrow> ac_reason c \<noteq> None"
  unfolding validate_active_half_open_probe_def Let_def
  by (auto simp: check_active_claim_def and_then_Inr_iff relabel_Inr blank_def
      split: option.splits sum.splits if_splits)

lemma budget_on:
  "budget_ok ex now = Inr True \<longleftrightarrow>
     (\<exists>e. ex = Some e \<and> is_aware e = is_aware now \<and> micros now + 6000000 \<le> micros e)"
  by (auto simp: budget_ok_def split: option.splits)

lemma attempt_claim_reason_on:
  assumes "attempt_pin_reason a x = None" and "attempt_claim_reason a x now = Inr None"
  shows "claim_held a x now"
proof -
  obtain c where c: "validate_active_execution_claim x (at_claim_capability a) now = Inr c" "ac_valid c"
    "budget_ok (dx_claim_expires_at x) now = Inr True"
    using assms(2) by (auto simp: attempt_claim_reason_def and_then_Inr_iff split: if_splits)
  then show ?thesis
    using assms(1) active_claim_on [of x "at_claim_capability a" now c]
    unfolding claim_held_def attempt_pin_reason_on budget_on by auto
qed

lemma stored_authorization_reason_on:
  assumes "stored_authorization_reason a x p = Inr None"
  shows "authorization_held a x p"
  using assms unfolding stored_authorization_reason_def authorization_held_def
  by (auto split: option.splits if_splits list.splits)

lemma probe_reason_on:
  assumes "probe_reason cur a now = Inr None" and "is_aware now"
  shows "ps_state cur \<noteq> HALF_OPEN \<and> at_probe_capability a = None \<or>
    ps_state cur = HALF_OPEN \<and> (\<exists>token d. at_probe_capability a = Some token \<and> half_open_probe_digest token = Inr d \<and>
      probe_digest cur = Some d \<and> probe_lease_is_active cur now = Inr True \<and>
      budget_ok (probe_expires_at cur) now = Inr True)"
proof (cases "ps_state cur = HALF_OPEN")
  case True
  then obtain c where c: "validate_active_half_open_probe cur (the (at_probe_capability a)) now = Inr c"
    "\<not> blank (at_probe_capability a)" "ac_valid c \<and> budget_ok (probe_expires_at cur) now = Inr True \<or>
      \<not> ac_valid c \<and> ac_reason c = None"
    using assms(1) by (auto simp: probe_reason_def and_then_Inr_iff split: if_splits)
  then have "ac_valid c" using inactive_reason by blast
  with c True show ?thesis
    using active_probe_on [of cur "the (at_probe_capability a)" now c] by (auto simp: blank_def split: option.splits)
qed (use assms in \<open>auto simp: probe_reason_def split: if_splits\<close>)

lemma permission_on:
  assumes "assess_execution_permission brk status ks now = Inr d" and "execution_permitted d"
  shows "\<not> engaged ks \<and> status = AVAILABLE \<and> advance_recovery brk now = Inr (decision_breaker d) \<and>
    ps_state (decision_breaker d) \<noteq> OPEN"
  using assms unfolding assess_execution_permission_def
  by (auto simp: and_then_Inr_iff check_decision_def split: if_splits)

lemma permission_refused:
  "assess_execution_permission brk status ks now = Inr d \<Longrightarrow> \<not> execution_permitted d \<Longrightarrow> block_reason d \<noteq> None"
  unfolding assess_execution_permission_def by (auto simp: and_then_Inr_iff check_decision_def split: if_splits)

lemma begin_allows:
  assumes "assess_execution_permission brk (at_status a) (at_kill_switch a) now = Inr d"
    and "(if \<not> execution_permitted d then Inr (block_reason d) else probe_reason (decision_breaker d) a now) = Inr None"
    and "is_aware now"
  shows "breaker_allows brk a now"
proof -
  have d: "execution_permitted d" "probe_reason (decision_breaker d) a now = Inr None"
    using assms(2) permission_refused [OF assms(1)] by (auto split: if_splits)
  from permission_on [OF assms(1) d(1)] probe_reason_on [OF d(2) assms(3)] show ?thesis
    by (auto simp: breaker_allows_def split: breaker.splits)
qed

section \<open>How a transaction ends\<close>

text \<open>An exception closes the session: what has been written stays, in process memory, or is undone.\<close>

locale closing_store = claim_store tx cfg clk ok ex br cv pending
  for tx :: "('s, 'l, 'f) claim_transaction" and cfg clk ok ex br cv pending +
  assumes close_law: "tx_close tx w = fst w \<or> tx_close tx w = tx_rollback tx w"
begin

abbreviation view :: "'s \<Rightarrow> 'f claim_view" where
  "view s \<equiv> (ex s, br s, cv s)"

lemma closed:
  assumes "ok s" and "pending s w" and "ok (fst w)" and "rows_kept clk (view s) (view (fst w))"
  shows "ok (tx_close tx w)" and "rows_kept clk (view s) (view (tx_close tx w))"
  using close_law [of w] rolled_back [OF assms(1-3)] assms(3,4) by auto

lemma unchanged: "ok s \<Longrightarrow> pending s (s, tx_begin tx s) \<and> ok (fst (s, tx_begin tx s)) \<and>
    rows_kept clk (view s) (view (fst (s, tx_begin tx s)))"
  using begin_law by simp

text \<open>A write of one execution row: done, refused as stale, or raised with nothing written.\<close>

lemma row_write:
  assumes "pending s w" and "ok (fst w)"
    and run: "fault_or fault AtExecution w (apsnd (relabel ClaimExecution) (tx_cas_execution tx w x e)) = (w', r)"
  shows "pending s w'" and "ok (fst w')" and "br (fst w') = br (fst w)" and "cv (fst w') = cv (fst w)"
    and "\<And>err. r = Inl err \<Longrightarrow> ex (fst w') = ex (fst w)"
    and "\<And>stored. r = Inr stored \<Longrightarrow> \<exists>c. ex (fst w) (dx_execution_id x) = Some c \<and> dx_revision c = e \<and>
      require_same_pins c x = Inr () \<and> valid_execution stored \<and>
      stored = x\<lparr>dx_created_at := dx_created_at c, dx_revision := e + 1\<rparr> \<and>
      ex (fst w') = (ex (fst w))(dx_execution_id x \<mapsto> stored)"
proof -
  obtain w1 a where cas: "tx_cas_execution tx w x e = (w1, a)" by (metis surj_pair)
  have law: "pending s w1 \<and> ok (fst w1) \<and> br (fst w1) = br (fst w) \<and> cv (fst w1) = cv (fst w) \<and>
      (ex (fst w1), a) = spec_write (replaced x e) (ex (fst w)) (dx_execution_id x) e"
    by (rule cas_execution_law [OF assms(1,2) cas])
  have r: "(w', r) = (if fault = Some AtExecution then (w, Inl ClaimPersistence) else (w1, relabel ClaimExecution a))"
    using run by (simp add: fault_or_def cas)
  show "pending s w'" "ok (fst w')" "br (fst w') = br (fst w)" "cv (fst w') = cv (fst w)"
    using r law assms(1,2) by (auto split: if_splits)
  show "ex (fst w') = ex (fst w)" if "r = Inl err" for err
    using r law that
    by (cases a) (auto simp: spec_write_def split: if_splits option.splits sum.splits)
  show "\<exists>c. ex (fst w) (dx_execution_id x) = Some c \<and> dx_revision c = e \<and>
      require_same_pins c x = Inr () \<and> valid_execution stored \<and>
      stored = x\<lparr>dx_created_at := dx_created_at c, dx_revision := e + 1\<rparr> \<and>
      ex (fst w') = (ex (fst w))(dx_execution_id x \<mapsto> stored)" if "r = Inr stored" for stored
  proof -
    have "w' = w1" "relabel ClaimExecution a = Inr stored" using r that by (auto split: if_splits)
    then have "w' = w1" "a = Inr stored" unfolding relabel_Inr by simp_all
    then have "spec_write (replaced x e) (ex (fst w)) (dx_execution_id x) e = (ex (fst w'), Inr stored)"
      using law by simp
    then obtain c where c: "ex (fst w) (dx_execution_id x) = Some c" "dx_revision c = e" "replaced x e c = Inr stored"
      "ex (fst w') = (ex (fst w))(dx_execution_id x \<mapsto> stored)"
      by (auto simp: spec_write_def split: option.splits if_splits sum.splits)
    then show ?thesis using replaced_form [OF c(3)] by blast
  qed
qed

section \<open>Beginning\<close>

lemma authorization_read:
  assumes "ok s" and run: "authorization_reason tx s a x = (s', r)"
  shows "pending s (s', tx_begin tx s)" and "ok s'" and "ex s' = ex s" and "br s' = br s"
    and "rows_kept clk (view s) (view s')"
    and "r = Inr None \<Longrightarrow> s' = s \<and> (\<exists>p. cv s (ra_conversation_id (at_authorization a)) = Some p \<and>
      is_expired clk p = Inr False \<and> authorization_held a x p)"
proof -
  obtain s1 found where load: "tx_load_conversation tx s (ra_conversation_id (at_authorization a)) = (s1, found)"
    by (metis surj_pair)
  note law = load_conversation_law [OF assms(1) load]
  have s': "s' = s1" using run unfolding authorization_reason_def load by (auto split: sum.splits option.splits)
  show "pending s (s', tx_begin tx s)" "ok s'" "ex s' = ex s" "br s' = br s" "rows_kept clk (view s) (view s')"
    using law by (auto simp: s' rows_kept_def)
  show "s' = s \<and> (\<exists>p. cv s (ra_conversation_id (at_authorization a)) = Some p \<and>
      is_expired clk p = Inr False \<and> authorization_held a x p)" if permitted: "r = Inr None"
  proof -
    obtain p where p: "found = Inr (Some p)" "stored_authorization_reason a x p = Inr None"
      using run permitted unfolding authorization_reason_def load
      by (cases found; cases "projr found") auto
    then show ?thesis using law stored_authorization_reason_on [OF p(2)] by (auto simp: s')
  qed
qed

lemma pre_transport_read:
  assumes "ok s" and run: "pre_transport_reason tx s a found now = (s', r)"
  shows "pending s (s', tx_begin tx s) \<and> ok s' \<and> ex s' = ex s \<and> br s' = br s \<and> rows_kept clk (view s) (view s') \<and>
    (r = Inr None \<longrightarrow> s' = s \<and> (\<exists>x. found = Some x \<and> attempt_granted clk a now (view s) x))"
proof (cases "\<exists>x. found = Some x \<and> attempt_pin_reason a x = None \<and> attempt_claim_reason a x now = Inr None")
  case False
  then have "s' = s \<and> r \<noteq> Inr None"
    using run unfolding pre_transport_reason_def
    by (auto split: option.splits sum.splits)
  then show ?thesis using begin_law [OF assms(1)] assms(1) by simp
next
  case True
  then obtain x where x: "found = Some x" "attempt_pin_reason a x = None" "attempt_claim_reason a x now = Inr None"
    by blast
  obtain s1 q where auth: "authorization_reason tx s a x = (s1, q)" by (metis surj_pair)
  note read = authorization_read [OF assms(1) auth]
  have held: "claim_held a x now" by (rule attempt_claim_reason_on [OF x(2,3)])
  have s1: "s' = s1" "r = (if q = Inr None then breaker_reason tx s1 a now else q)"
    using run x unfolding pre_transport_reason_def by (auto simp: auth split: sum.splits option.splits)
  have "\<exists>brk. spec_load (br s) (st_provider_id (at_step a)) (attempt_market a) now = Inr brk \<and> breaker_allows brk a now"
    if "r = Inr None"
  proof -
    have "breaker_reason tx s1 a now = Inr None" using s1 that by (simp split: if_splits)
    then obtain brk d where "spec_load (br s1) (st_provider_id (at_step a)) (attempt_market a) now = Inr brk"
      "assess_execution_permission brk (at_status a) (at_kill_switch a) now = Inr d"
      "(if \<not> execution_permitted d then Inr (block_reason d) else probe_reason (decision_breaker d) a now) = Inr None"
      unfolding breaker_reason_def by (auto simp: and_then_Inr_iff relabel_Inr load_breaker_law [OF read(2)])
    then show ?thesis using begin_allows held read(4) unfolding claim_held_def by auto
  qed
  moreover have "q = Inr None" if "r = Inr None" using s1 that by (simp split: if_splits)
  ultimately show ?thesis
    using read s1(1) held x(1) by (auto simp: attempt_granted_def)
qed

end

text \<open>The claimed row, as the first transaction stores it.\<close>

definition started_from :: "attempt \<Rightarrow> datetime \<Rightarrow> durable_execution \<Rightarrow> durable_execution \<Rightarrow> bool" where
  "started_from a started x y =
     (dx_state y = Running \<and> dx_revision y = dx_revision x + 1 \<and> pins y = pins x \<and>
      dx_attempt_started_at y = Some started \<and> dx_attempted_market y = st_market (at_step a) \<and>
      dx_attempted_source y = Some (at_source a) \<and> dx_claim_digest y = dx_claim_digest x \<and>
      dx_claim_expires_at y = dx_claim_expires_at x \<and> dx_request_digest y = Some (request_digest a) \<and> valid_execution y)"

text \<open>What the transport is asked.\<close>

definition asks_for :: "attempt \<Rightarrow> prepared_call \<Rightarrow> bool" where
  "asks_for a p =
     (catalog_payload a = Some (pc_payload p) \<and> pc_headers p = anonymous_http_headers \<and>
      \<not> carries_credentials (pc_headers p) \<and> pc_request_digest p = request_digest a)"

lemma running_row_form:
  assumes "running_row a started x = Inr y"
  shows "y = x\<lparr>dx_state := Running, dx_updated_at := started, dx_attempt_started_at := Some started,
      dx_attempted_provider_id := Some (st_provider_id (at_step a)),
      dx_attempted_capability := Some (capability_value (st_capability (at_step a))),
      dx_attempted_market := st_market (at_step a), dx_attempted_source := Some (at_source a),
      dx_request_digest := Some (request_digest a)\<rparr>"
  using assms check_execution_id unfolding running_row_def relabel_Inr by blast

context closing_store
begin

lemma begin_writes:
  assumes "ok s" and run: "start_row tx fault (s, tx_begin tx s) a started x = (w, r)"
    and x: "ex s (dx_execution_id x) = Some x"
  obtains (kept) "pending s w" "ok (fst w)" "rows_kept clk (view s) (view (fst w))" "\<And>p. r \<noteq> Inr (Inr p)"
    "\<And>res. r = Inr (Inl res) \<Longrightarrow> \<not> xr_attempted res"
  | (begun) p where "r = Inr (Inr p)" "pending s w" "ok (fst w)" "started_from a started x (pc_execution p)"
      "asks_for a p" "ex (fst w) = (ex s)(dx_execution_id x \<mapsto> pc_execution p)" "br (fst w) = br s" "cv (fst w) = cv s"
proof -
  note start = unchanged [OF assms(1)]
  show thesis
  proof (cases "catalog_payload a")
    case None
    then show thesis using start run by - (rule kept, auto simp: start_row_def)
  next
    case (Some payload)
    have cred: "\<not> carries_credentials anonymous_http_headers"
      by (simp add: carries_credentials_def anonymous_http_headers_def to_lower_def code_def)
    show thesis
    proof (cases "running_row a started x")
      case (Inl e)
      then show thesis using start run Some cred by - (rule kept, auto simp: start_row_def)
    next
      case (Inr running)
      obtain w1 q where cas: "fault_or fault AtExecution (s, tx_begin tx s) (apsnd (relabel ClaimExecution)
          (tx_cas_execution tx (s, tx_begin tx s) running (dx_revision x))) = (w1, q)" by (metis surj_pair)
      note wr = row_write [OF conjunct1 [OF start] conjunct1 [OF conjunct2 [OF start]] cas, unfolded fst_conv]
      note form = running_row_form [OF Inr]
      have id: "dx_execution_id running = dx_execution_id x" by (simp add: form)
      show thesis
      proof (cases q)
        case raised: (Inl e)
        have "w = w1" "\<And>p. r \<noteq> Inr (Inr p)" "\<And>res. r = Inr (Inl res) \<Longrightarrow> \<not> xr_attempted res"
          using run by (auto simp: start_row_def Some cred Inr cas raised split: claim_error.splits exec_error.splits)
        then show thesis using wr(1-5) raised by - (rule kept, auto simp: rows_kept_def)
      next
        case stored: (Inr y)
        have r: "w = w1" "r = Inr (Inr \<lparr>pc_execution = y, pc_payload = payload, pc_headers = anonymous_http_headers,
            pc_request_digest = request_digest a\<rparr>)"
          using run by (simp_all add: start_row_def Some cred Inr cas stored)
        have y: "valid_execution y" "y = running\<lparr>dx_created_at := dx_created_at x, dx_revision := dx_revision x + 1\<rparr>"
          "ex (fst w1) = (ex s)(dx_execution_id x \<mapsto> y)"
          using wr(6) [OF stored] x by (auto simp: id)
        then have "started_from a started x y" by (simp add: started_from_def form pins_def)
        then show thesis
          using begun [OF r(2)] wr(1-4) y(3) Some cred by (simp add: r asks_for_def)
      qed
    qed
  qed
qed

lemma begins:
  assumes "ok s" and run: "begin_call tx fault s a started = (s', r)"
  obtains (kept) "ok s'" "rows_kept clk (view s) (view s')" "\<And>p. r \<noteq> Inr (Inr p)"
    "\<And>res. r = Inr (Inl res) \<Longrightarrow> \<not> xr_attempted res"
  | (begun) x p where "r = Inr (Inr p)" "ok s'" "attempt_execution_id a = Inr (dx_execution_id x)"
      "ex s (dx_execution_id x) = Some x" "attempt_granted clk a started (view s) x"
      "started_from a started x (pc_execution p)" "asks_for a p"
      "ex s' = (ex s)(dx_execution_id x \<mapsto> pc_execution p)" "br s' = br s" "cv s' = cv s"
proof -
  obtain w q where beg: "begin_attempt tx fault s a started = (w, q)" by (metis surj_pair)
  have cases': thesis
    if w: "pending s w" "ok (fst w)" "rows_kept clk (view s) (view (fst w))" "\<And>p. q \<noteq> Inr (Inr p)"
      "\<And>res. q = Inr (Inl res) \<Longrightarrow> \<not> xr_attempted res"
  proof -
    have "s' = s \<or> s' = tx_rollback tx w \<or> s' = tx_close tx w" "\<And>p. r \<noteq> Inr (Inr p)"
      "\<And>res. r = Inr (Inl res) \<Longrightarrow> \<not> xr_attempted res"
      using run w(4,5) unfolding begin_call_def Let_def beg
      by (auto split: if_splits sum.splits)
    then show thesis
      using rolled_back [OF assms(1) w(1,2)] closed [OF assms(1) w(1-3)] assms(1) by - (rule kept, auto)
  qed
  show thesis
  proof (cases "and_then (attempt_execution_id a) (\<lambda>i. relabel ClaimExecution (tx_load_execution tx s i))")
    case (Inl e)
    then have "w = (s, tx_begin tx s)" "q = Inl e" using beg by (simp_all add: begin_attempt_def)
    then show thesis using unchanged [OF assms(1)] by - (rule cases', auto)
  next
    case (Inr found)
    obtain s1 reason where pre: "pre_transport_reason tx s a found started = (s1, reason)" by (metis surj_pair)
    note read = pre_transport_read [OF assms(1) pre]
    show thesis
    proof (cases "reason = Inr None")
      case False
      then have "w = (s1, tx_begin tx s)" "\<And>p. q \<noteq> Inr (Inr p)" "\<And>res. q = Inr (Inl res) \<Longrightarrow> \<not> xr_attempted res"
        using beg by (auto simp: begin_attempt_def Inr pre split: sum.splits option.splits)
      then show thesis using read by - (rule cases', auto)
    next
      case True
      then obtain x where x: "found = Some x" "s1 = s" "attempt_granted clk a started (view s) x" using read by blast
      obtain i where i: "attempt_execution_id a = Inr i" "ex s i = Some x"
        using Inr x(1) by (auto simp: and_then_Inr_iff relabel_Inr load_execution_law [OF assms(1)])
      then have id: "dx_execution_id x = i" using rows_law [OF assms(1)] by (simp add: rows_valid_def)
      have start: "start_row tx fault (s, tx_begin tx s) a started x = (w, q)"
        using beg Inr pre by (simp add: begin_attempt_def x(1,2) True)
      from assms(1) start i(2) [folded id] show thesis
      proof (cases rule: begin_writes)
        case kept
        then show thesis by (rule cases')
      next
        case (begun p)
        show thesis
        proof (cases "fault = Some AtLock \<or> fault = Some AtObserve \<or> fault = Some AtCommit")
          case True
          then have "(s' = s \<or> s' = tx_rollback tx w) \<and> (\<forall>p. r \<noteq> Inr (Inr p)) \<and>
              (\<forall>res. r = Inr (Inl res) \<longrightarrow> \<not> xr_attempted res)"
            using run [unfolded begin_call_def Let_def beg begun(1)] by auto
          then show thesis
            using rolled_back [OF assms(1) begun(2,3)] assms(1) by - (rule that(1), auto)
        next
          case False
          then have "s' = fst w" "r = Inr (Inr p)" using run [unfolded begin_call_def Let_def beg begun(1)] by auto
          then show thesis using that(2) [of p x] i id x(3) begun by simp
        qed
      qed
    qed
  qed
qed

end

section \<open>The outcome a row can take\<close>

text \<open>The three kinds of outcome the adapter produces.\<close>

definition outcome_fits :: "attempt_status \<Rightarrow> string option \<Rightarrow> normalized_offer list \<Rightarrow> string option \<Rightarrow> bool" where
  "outcome_fits status category offers observation =
     (case status of
        NotAttempted \<Rightarrow> False
      | AttemptSucceeded \<Rightarrow> category = None \<and> offers \<noteq> [] \<and> observation \<in> {Some ''synthetic'', Some ''production''}
      | AttemptUnknown \<Rightarrow> category = Some ''outcome_unknown'' \<and> offers = [] \<and> observation = None
      | _ \<Rightarrow> \<not> blank category \<and> offers = [] \<and> observation \<in> {None, Some ''synthetic''})"

lemma outcome_fits_cases:
  assumes "outcome_fits status category offers observation"
  obtains "status = AttemptSucceeded" "category = None" "offers \<noteq> []"
      "observation \<in> {Some ''synthetic'', Some ''production''}"
  | "status \<in> {AttemptFailed, AttemptTimedOut}" "\<not> blank category" "offers = []" "observation \<in> {None, Some ''synthetic''}"
  | "status = AttemptUnknown" "category = Some ''outcome_unknown''" "offers = []" "observation = None"
  using assms by (cases status) (auto simp: outcome_fits_def)

definition trace_of ::
  "attempt \<Rightarrow> datetime \<Rightarrow> datetime \<Rightarrow> attempt_status \<Rightarrow> string option \<Rightarrow> int \<Rightarrow> execution_trace" where
  "trace_of a started finished status category count =
     \<lparr>tr_plan_id = pn_plan_id (at_plan a), tr_steps =
        [\<lparr>ts_plan_id = pn_plan_id (at_plan a), ts_provider_id = st_provider_id (at_step a),
          ts_requested_capability = st_capability (at_step a), ts_market = st_market (at_step a),
          ts_source = Some (at_source a), ts_attempted = True, ts_attempt_status = status, ts_evidence_ids = [],
          ts_started_at = Some started, ts_finished_at = Some finished, ts_error_category = category,
          ts_evaluated_offer_count = count, ts_freshness_checked_at = None\<rparr>],
      tr_attempted_sources = [at_source a],
      tr_succeeded_sources = (if status = AttemptSucceeded then [at_source a] else []),
      tr_failed_sources = (if status = AttemptFailed then [at_source a] else []),
      tr_timed_out_sources = (if status = AttemptTimedOut then [at_source a] else []),
      tr_evaluated_offer_count = count\<rparr>"

lemma attempt_trace_stands:
  assumes "outcome_fits status category offers observation" and "is_aware started" and "is_aware finished"
    and "micros started \<le> micros finished" and "at_source a \<noteq> []" and "st_market (at_step a) \<noteq> None"
  shows "attempt_trace a started finished status category (int (length offers)) =
    Inr (trace_of a started finished status category (int (length offers)))"
proof -
  have len: "offers \<noteq> [] \<Longrightarrow> 1 \<le> int (length offers)" by (cases offers) simp_all
  show ?thesis
    using assms len unfolding attempt_trace_def
    by (cases rule: outcome_fits_cases [OF assms(1)])
      (auto simp: check_trace_step_def check_trace_def check_freshness_def trace_of_def blank_def naive_or_none_def
        step_sources_def has_status_def)
qed

definition ended_row ::
  "durable_execution \<Rightarrow> attempt \<Rightarrow> datetime \<Rightarrow> datetime \<Rightarrow> attempt_status \<Rightarrow> string option \<Rightarrow> normalized_offer list
     \<Rightarrow> string option \<Rightarrow> string option \<Rightarrow> durable_execution" where
  "ended_row x a started finished status category offers digest observation = x
     \<lparr>dx_state := state_for (attempt_status_value status), dx_updated_at := finished,
      dx_finished_at := Some finished, dx_claimed_at := None, dx_claim_expires_at := None, dx_claim_digest := None,
      dx_outcome := Some (attempt_status_value status), dx_error_category := category,
      dx_evaluated_offer_count := int (length offers), dx_normalized_offer_count := int (length offers),
      dx_returned_currencies := map nf_currency offers,
      dx_normalized_amount_minors := map nf_price_amount_minor offers, dx_evidence_ids := [],
      dx_normalized_offer_digests := map normalized_offer_digest offers, dx_observation_kind := observation,
      dx_request_digest := digest,
      dx_trace := Some (trace_of a started finished status category (int (length offers))),
      dx_raw_response_persisted := False\<rparr>"

lemma each_digest_ok: "each_ok sha256_text (map normalized_offer_digest offers) = Inr ()"
proof (induction offers)
  case (Cons f fs)
  have "hex64 (normalized_offer_digest f)" by (simp add: normalized_offer_digest_def)
  then have "sha256_text (normalized_offer_digest f) = Inr ()"
    by (auto simp: sha256_text_def hex64_def list_all_iff list_ex_iff)
  then show ?case using Cons by simp
qed simp

lemma state_for_fits:
  "outcome_fits status category offers observation \<Longrightarrow>
     state_for (attempt_status_value status) = (case status of AttemptSucceeded \<Rightarrow> Completed | AttemptUnknown \<Rightarrow> OutcomeUnknown
       | _ \<Rightarrow> Failed)"
  by (cases status) (auto simp: outcome_fits_def state_for_def)

lemma ended_row_valid:
  assumes x: "valid_execution x" "dx_state x = Running" "dx_attempt_started_at x = Some started"
    and plan: "dx_plan_id x = pn_plan_id (at_plan a)"
    and fits: "outcome_fits status category offers observation"
    and time: "is_aware finished" "micros started \<le> micros finished"
  shows "valid_execution (ended_row x a started finished status category offers digest observation)"
proof -
  let ?y = "ended_row x a started finished status category offers digest observation"
  have st: "dx_state ?y \<in> terminal_execution_states"
    using state_for_fits [OF fits] fits
    by (cases rule: outcome_fits_cases [OF fits]) (auto simp: ended_row_def terminal_execution_states_def)
  have old: "is_aware started" "\<not> list_ex blank (attempt_identity x)"
    using x unfolding valid_execution_def check_execution_def validate_attempt_fields_def naive_or_none_def
    by (auto simp: and_then_Inr_iff split: if_split_asm)
  have claim: "validate_claim_fields ?y = Inr ()"
    using st by (auto simp: validate_claim_fields_def ended_row_def)
  have outcome: "outcome_matches_state ?y = Inr ()"
    using fits state_for_fits [OF fits]
    by (cases rule: outcome_fits_cases [OF fits])
      (auto simp: outcome_matches_state_def ended_row_def neq_Nil_conv)
  have "validate_attempt_fields ?y = Inr ()"
    using st old time outcome plan x(3)
    unfolding validate_attempt_fields_def require_offer_digests_def
    by (auto simp: ended_row_def each_digest_ok terminal_execution_states_def naive_or_none_def attempt_identity_def
        trace_of_def)
  with claim show ?thesis
    using x(1) time(1) fits unfolding valid_execution_def check_execution_def
    by (cases rule: outcome_fits_cases [OF fits])
      (auto simp: ended_row_def and_then_Inr_iff split: if_split_asm)
qed

lemma terminal_record_stands:
  assumes x: "valid_execution x" "dx_state x = Running" "dx_attempt_started_at x = Some started"
    and plan: "dx_plan_id x = pn_plan_id (at_plan a)"
    and fits: "outcome_fits status category offers observation"
    and time: "is_aware finished" "micros started \<le> micros finished"
    and a: "at_source a \<noteq> []" "st_market (at_step a) \<noteq> None"
  shows "terminal_record x a finished status category offers digest observation =
    Inr (ended_row x a started finished status category offers digest observation)"
proof -
  have "is_aware started"
    using x unfolding valid_execution_def check_execution_def validate_attempt_fields_def naive_or_none_def
    by (auto simp: and_then_Inr_iff split: if_split_asm)
  note tr = attempt_trace_stands [OF fits this time a]
  show ?thesis
    using ended_row_valid [OF x plan fits time, of digest] unfolding valid_execution_def
    by (simp add: terminal_record_def x(3) tr ended_row_def [symmetric])
qed

section \<open>The reading of a response\<close>

definition reading_ok :: "interpreted \<Rightarrow> bool" where
  "reading_ok it =
     (if it_success it
      then it_attempt_status it = AttemptSucceeded \<and> it_failure_kind it = None \<and> it_error_category it = None \<and>
        it_offers it \<noteq> []
      else it_attempt_status it \<in> {AttemptFailed, AttemptTimedOut} \<and> it_failure_kind it \<noteq> None \<and>
        \<not> blank (it_error_category it) \<and> it_offers it = [])"

lemma failed_reading_ok:
  "status \<in> {AttemptFailed, AttemptTimedOut} \<Longrightarrow> category \<noteq> [] \<Longrightarrow> reading_ok (failed_reading status kind category)"
  by (simp add: reading_ok_def failed_reading_def blank_def)

lemma kind_value_nonempty: "kind_value k \<noteq> []"
  by (cases k) simp_all

lemma interpret_payload_ok: "reading_ok (interpret_payload rd now production payload)"
proof (cases "ev_fail_closed (rd_envelope rd payload)")
  case True
  then show ?thesis
    by (simp add: interpret_payload_def Let_def failed_reading_ok kind_value_nonempty)
next
  case False
  then show ?thesis
    unfolding interpret_payload_def Let_def
    by (auto split: sum.splits list.splits intro!: failed_reading_ok) (simp add: reading_ok_def)
qed

lemma interpret_ok: "reading_ok (interpret_response rd now production r)"
  unfolding interpret_response_def Let_def
  by (auto split: option.splits intro!: failed_reading_ok interpret_payload_ok)

lemma reading_fits:
  "reading_ok it \<Longrightarrow>
     outcome_fits (it_attempt_status it) (it_error_category it) (it_offers it) (stored_observation_kind (it_success it) authority)"
  by (auto simp: reading_ok_def outcome_fits_def stored_observation_kind_def split: if_splits)

section \<open>The breaker after an outcome\<close>

definition breaker_after :: "provider_state \<Rightarrow> interpreted \<Rightarrow> datetime \<Rightarrow> breaker_policy \<Rightarrow> provider_state" where
  "breaker_after brk it now policy =
     (if it_success it then succeeded brk now
      else (let u = failed brk (the (it_failure_kind it)) now policy in
        if ps_state u = HALF_OPEN then no_probe_lease u else u))"

lemma valid_no_probe_lease: "valid_state s \<Longrightarrow> valid_state (no_probe_lease s)"
  by (auto simp: valid_defs no_probe_lease_def split: breaker.splits)

lemma no_lease_fixed: "no_lease s \<Longrightarrow> no_probe_lease s = s"
  by (simp add: no_lease_def no_probe_lease_def)

lemma next_breaker_stands:
  assumes "valid_state brk" and "is_aware now" and "reading_ok it"
  shows "next_breaker brk it now policy = Inr (breaker_after brk it now policy)"
    and "valid_state (breaker_after brk it now policy)"
proof -
  show "valid_state (breaker_after brk it now policy)"
    using assms by (simp add: breaker_after_def Let_def valid_succeeded valid_failed valid_no_probe_lease)
  show "next_breaker brk it now policy = Inr (breaker_after brk it now policy)"
  proof (cases "it_success it")
    case True
    then show ?thesis
      by (simp add: next_breaker_def breaker_after_def record_success_valid [OF assms(1,2)])
  next
    case False
    then obtain kind where kind: "it_failure_kind it = Some kind" using assms(3) by (auto simp: reading_ok_def)
    let ?u = "failed brk kind now policy"
    have u: "valid_state ?u" by (rule valid_failed [OF assms(1,2)])
    have "no_probe_lease ?u = ?u" if "blank (probe_digest ?u)"
      using u that by (intro no_lease_fixed) (auto simp: valid_state_def has_lease_def blank_def hex64_def)
    then show ?thesis
      using False kind u check_valid [OF valid_no_probe_lease [OF u]]
      by (auto simp: next_breaker_def breaker_after_def Let_def record_failure_valid [OF assms(1,2)])
  qed
qed

lemma breaker_after_key:
  "ps_provider_id (breaker_after brk it now policy) = ps_provider_id brk"
  "ps_market (breaker_after brk it now policy) = ps_market brk"
  by (simp_all add: breaker_after_def Let_def succeeded_def failed_def no_probe_lease_def noted_def advanced_def
      opened_def counted_def)

lemma running_claim_on:
  "validate_running_claim x capability now = Inr c \<and> ac_valid c \<longleftrightarrow>
     dx_state x = Running \<and> (\<exists>e. dx_claim_expires_at x = Some e \<and> claim_less now e = Inr True) \<and>
     (\<exists>d. execution_claim_digest capability = Inr d \<and> dx_claim_digest x = Some d) \<and>
     c = \<lparr>ac_valid = True, ac_reason = None\<rparr>"
  unfolding validate_running_claim_def Let_def
  by (auto simp: check_active_claim_def and_then_Inr_iff relabel_Inr split: option.splits sum.splits if_splits)

section \<open>The answer to a stored outcome\<close>

text \<open>What the first checks leave: synthetic permits on an injected transport, or both authorities.\<close>

definition permit_fits :: "attempt \<Rightarrow> transport \<Rightarrow> bool" where
  "permit_fits a t =
     (case permit_mode_of (at_permit a) of
        None \<Rightarrow> False
      | Some ProductionMode \<Rightarrow> t = UrllibTransport True
      | Some _ \<Rightarrow> t = InjectedTransport)"

lemma permit_fits_cases:
  assumes "permit_fits a t"
  obtains "at_permit a = ProductionPermit" "t = UrllibTransport True"
  | "at_permit a \<in> {FakePermit, HarnessPermit}" "t = InjectedTransport"
  using assms by (cases "at_permit a") (auto simp: permit_fits_def)

lemma local_refusal_on:
  assumes "local_refusal_reason a t = None"
  shows "permit_fits a t \<and> st_capability (at_step a) \<in> supported_capabilities \<and>
    at_operation a \<in> {''search_catalog'', ''get_product''} \<and> st_provider_id (at_step a) = ''ph-shopify-global-catalog'' \<and>
    st_market (at_step a) = Some ''PH'' \<and> at_source a = ''shopify_global_catalog''"
  using assms unfolding local_refusal_reason_def permit_fits_def production_live_evidence_authorized_def
  by (cases "at_permit a"; cases t) (auto split: if_splits)

text \<open>A stored outcome always has an answer.\<close>

lemma valid_pins: "valid_execution x \<Longrightarrow> dx_execution_id x \<noteq> [] \<and> dx_decision_id x \<noteq> [] \<and> dx_plan_id x \<noteq> []"
  unfolding valid_execution_def check_execution_def by (auto split: if_split_asm)

lemma outcome_stands:
  assumes fit: "permit_fits a t" and it: "reading_ok it" and saved: "valid_execution saved"
    and row: "dx_state saved = (if it_success it then Completed else Failed)"
      "dx_outcome saved = Some (attempt_status_value (it_attempt_status it))"
      "dx_observation_kind saved =
        stored_observation_kind (it_success it) (production_live_evidence_authorized (at_permit a) t)"
      "dx_evaluated_offer_count saved = int (length (it_offers it))"
      "dx_normalized_offer_count saved = int (length (it_offers it))"
  shows "\<exists>res. outcome_result t a it saved True = Inr res \<and> xr_persisted res \<and> xr_attempted res \<and>
    xr_transport_invoked res \<and> xr_state res = Some (dx_state saved) \<and> xr_outcome res = dx_outcome saved \<and>
    xr_observation_kind res = dx_observation_kind saved \<and>
    (xr_verified res \<noteq> None \<longleftrightarrow> it_success it \<and> production_live_evidence_authorized (at_permit a) t) \<and>
    (xr_source_mode_live res \<longleftrightarrow> it_success it \<and> production_live_evidence_authorized (at_permit a) t)"
proof (cases rule: permit_fits_cases [OF fit])
  case 1
  then have auth: "production_live_evidence_authorized (at_permit a) t" "result_authority (at_permit a) = ProductionAuthority"
    by (simp_all add: production_live_evidence_authorized_def result_authority_def)
  show ?thesis
    using it row valid_pins [OF saved]
    by (cases "it_success it")
      (auto simp: Let_def outcome_result_def auth verified_live_execution_def result_from_stored_def check_result_def
        check_production_result_def durable_success_def reading_ok_def stored_observation_kind_def
        terminal_execution_states_def check_verified_def live_fact_def offer_fact_of_def list_ex_iff)
next
  case 2
  then have auth: "\<not> production_live_evidence_authorized (at_permit a) t" "result_authority (at_permit a) = SyntheticAuthority"
    by (auto simp: production_live_evidence_authorized_def result_authority_def)
  show ?thesis
    using it row
    by (cases "it_success it")
      (auto simp: Let_def outcome_result_def auth verified_live_execution_def result_from_stored_def check_result_def
        check_synthetic_result_def reading_ok_def stored_observation_kind_def
        terminal_execution_states_def offer_fact_of_def list_ex_iff)
qed

lemma attempt_trace_form:
  assumes "attempt_trace a started finished status category count = Inr t"
  shows "t = trace_of a started finished status category count"
  using assms unfolding attempt_trace_def relabel_Inr and_then_Inr_iff trace_of_def check_trace_step_def check_trace_def
    check_freshness_def
  by (auto simp: and_then_Inr_iff split: if_split_asm)

lemma terminal_record_form:
  assumes "terminal_record x a finished status category offers digest observation = Inr y"
  shows "\<exists>started. dx_attempt_started_at x = Some started \<and>
    y = ended_row x a started finished status category offers digest observation"
proof -
  obtain started t where "dx_attempt_started_at x = Some started"
    "attempt_trace a started finished status category (int (length offers)) = Inr t"
    "y = x\<lparr>dx_state := state_for (attempt_status_value status), dx_updated_at := finished,
      dx_finished_at := Some finished, dx_claimed_at := None, dx_claim_expires_at := None, dx_claim_digest := None,
      dx_outcome := Some (attempt_status_value status), dx_error_category := category,
      dx_evaluated_offer_count := int (length offers), dx_normalized_offer_count := int (length offers),
      dx_returned_currencies := map nf_currency offers,
      dx_normalized_amount_minors := map nf_price_amount_minor offers, dx_evidence_ids := [],
      dx_normalized_offer_digests := map normalized_offer_digest offers, dx_observation_kind := observation,
      dx_request_digest := digest, dx_trace := Some t, dx_raw_response_persisted := False\<rparr>"
    using assms check_execution_id unfolding terminal_record_def
    by (auto simp: and_then_Inr_iff relabel_Inr split: option.splits)
  then show ?thesis using attempt_trace_form by (auto simp: ended_row_def)
qed

lemma ended_row_pins [simp]: "pins (ended_row x a started finished status category offers digest observation) = pins x"
  by (simp add: pins_def ended_row_def)

lemma ended_row_terminal:
  "dx_state (ended_row x a started finished status category offers digest observation) \<in> terminal_execution_states"
  by (simp add: ended_row_def state_for_def terminal_execution_states_def)

lemma same_pins_on:
  "require_same_pins c x = Inr () \<longleftrightarrow>
     dx_plan_id x = dx_plan_id c \<and> dx_decision_id x = dx_decision_id c \<and>
     dx_authorization_id x = dx_authorization_id c \<and> dx_authorization_version x = dx_authorization_version c \<and>
     dx_execution_id x = dx_execution_id c"
  by (auto simp: require_same_pins_def)

text \<open>The row that stores an outcome, one revision on.\<close>

definition outcome_row ::
  "attempt \<Rightarrow> transport \<Rightarrow> interpreted \<Rightarrow> prepared_call \<Rightarrow> datetime \<Rightarrow> durable_execution \<Rightarrow> durable_execution \<Rightarrow> bool" where
  "outcome_row a t it p finished x y =
     (\<exists>started. dx_attempt_started_at x = Some started \<and>
        y = (ended_row x a started finished (it_attempt_status it) (it_error_category it) (it_offers it)
          (Some (pc_request_digest p))
          (stored_observation_kind (it_success it) (production_live_evidence_authorized (at_permit a) t)))
          \<lparr>dx_revision := dx_revision x + 1\<rparr>)"

text \<open>The attempt still holds the running row.\<close>

definition still_holds :: "attempt \<Rightarrow> durable_execution \<Rightarrow> datetime \<Rightarrow> bool" where
  "still_holds a x now =
     (dx_state x = Running \<and> (\<exists>e. dx_claim_expires_at x = Some e \<and> dt_less now e = Some True) \<and>
      (\<exists>d. execution_claim_digest (at_claim_capability a) = Inr d \<and> dx_claim_digest x = Some d))"

lemma claim_less_on: "claim_less a b = Inr v \<longleftrightarrow> dt_less a b = Some v"
  by (auto simp: claim_less_def split: option.splits)

context closing_store
begin

lemma outcome_read:
  assumes "ok s" and "outcome_rows tx policy t s a p it finished = Inr (Inr (rec, revision, nxt, brk_revision))"
    and "reading_ok it" and "is_aware finished"
  obtains x brk where "ex s (dx_execution_id (pc_execution p)) = Some x" "still_holds a x finished"
    "revision = dx_revision x" "terminal_record x a finished (it_attempt_status it) (it_error_category it) (it_offers it)
       (Some (pc_request_digest p))
       (stored_observation_kind (it_success it) (production_live_evidence_authorized (at_permit a) t)) = Inr rec"
    "spec_load (br s) (st_provider_id (at_step a)) (attempt_market a) finished = Inr brk" "valid_state brk"
    "nxt = breaker_after brk it finished policy" "brk_revision = ps_revision brk" "0 \<le> ps_revision brk"
    "it_success it \<Longrightarrow> ps_state brk \<noteq> OPEN" "probe_reason brk a finished = Inr None"
proof -
  obtain x where x: "ex s (dx_execution_id (pc_execution p)) = Some x"
    using assms(2) unfolding outcome_rows_def and_then_Inr_iff relabel_Inr load_execution_law [OF assms(1)]
    by (auto split: option.splits)
  note run = assms(2) [unfolded outcome_rows_def load_execution_law [OF assms(1)] x relabel_simps and_then_simps option.case]
  have state: "dx_state x = Running" using run by (auto split: if_splits)
  obtain c brk where c: "validate_running_claim x (at_claim_capability a) finished = Inr c" "ac_valid c"
    and brk: "spec_load (br s) (st_provider_id (at_step a)) (attempt_market a) finished = Inr brk"
      "probe_reason brk a finished = Inr None" "it_success it \<Longrightarrow> ps_state brk \<noteq> OPEN"
      "next_breaker brk it finished policy = Inr nxt"
    and rest: "terminal_record x a finished (it_attempt_status it) (it_error_category it) (it_offers it)
       (Some (pc_request_digest p))
       (stored_observation_kind (it_success it) (production_live_evidence_authorized (at_permit a) t)) = Inr rec"
      "revision = dx_revision x" "brk_revision = ps_revision brk"
    using run state
    by (auto simp: and_then_Inr_iff relabel_Inr load_breaker_law [OF assms(1)] split: if_splits option.splits)
  have valid: "valid_state brk \<and> 0 \<le> ps_revision brk"
    using spec_load_valid rows_law [OF assms(1)] brk(1) by blast
  have "still_holds a x finished"
    using running_claim_on [of x "at_claim_capability a" finished c] c by (simp add: still_holds_def claim_less_on)
  moreover have "nxt = breaker_after brk it finished policy"
    using next_breaker_stands(1) [of brk finished it policy] valid assms(3,4) brk(4) by simp
  ultimately show thesis using that x rest brk(1-3) valid by simp
qed

lemma outcome_writes:
  assumes "ok s" and st: "valid_state nxt" "0 \<le> brk_revision"
    and run: "store_outcome tx fault (s, tx_begin tx s) rec revision nxt brk_revision = (w, r)"
    and x: "ex s (dx_execution_id rec) = Some x" "revision = dx_revision x" "dx_created_at rec = dx_created_at x"
  obtains (kept) e where "r = Inl e" "pending s w" "ok (fst w)"
      "outcome_conflict e \<or> is_persistence e \<or> rows_kept clk (view s) (view (fst w))"
  | (stored) "r = Inr (rec\<lparr>dx_revision := dx_revision x + 1\<rparr>)" "pending s w" "ok (fst w)"
      "valid_execution (rec\<lparr>dx_revision := dx_revision x + 1\<rparr>)"
      "ex (fst w) = (ex s)(dx_execution_id rec \<mapsto> rec\<lparr>dx_revision := dx_revision x + 1\<rparr>)"
      "br (fst w) = (br s)(ps_provider_id nxt @ ''|'' @ ps_market nxt \<mapsto> nxt\<lparr>ps_revision := brk_revision + 1\<rparr>)"
      "cv (fst w) = cv s"
proof -
  note start = unchanged [OF assms(1)]
  obtain w1 q where one: "fault_or fault AtExecution (s, tx_begin tx s) (apsnd (relabel ClaimExecution)
      (tx_cas_execution tx (s, tx_begin tx s) rec revision)) = (w1, q)" by (metis surj_pair)
  note wr = row_write [OF conjunct1 [OF start] conjunct1 [OF conjunct2 [OF start]] one, unfolded fst_conv]
  show thesis
  proof (cases q)
    case (Inl e)
    then have "w = w1" "r = Inl e" using run by (simp_all add: store_outcome_def one)
    then show thesis using wr(1-5) Inl by - (rule kept [of e], auto simp: rows_kept_def)
  next
    case (Inr saved)
    have saved: "saved = rec\<lparr>dx_revision := dx_revision x + 1\<rparr>" "valid_execution saved"
      "ex (fst w1) = (ex s)(dx_execution_id rec \<mapsto> saved)"
      using wr(6) [OF Inr] x by auto
    obtain w2 b where two: "fault_or fault AtBreaker w1 (apsnd (relabel ClaimRepository)
        (tx_cas_breaker tx w1 nxt brk_revision)) = (w2, b)" by (metis surj_pair)
    note brk = breaker_stage [OF wr(1,2) st two]
    show thesis
    proof (cases b)
      case raised: (Inl e)
      obtain w3 b3 where cas: "tx_cas_breaker tx w1 nxt brk_revision = (w3, b3)" by (metis surj_pair)
      have "(br (fst w3), b3) = spec_save (br (fst w1)) nxt brk_revision"
        using cas_breaker_law [OF wr(1,2) st cas] by blast
      then have "e = ClaimPersistence \<or> e = ClaimRepository ReliabilityRevisionConflict"
        using two raised by (auto simp: fault_or_def cas spec_save_def Let_def split: if_splits)
      moreover have "w = w2" "r = Inl e" using run by (simp_all add: store_outcome_def one Inr two raised)
      ultimately show thesis using brk by - (rule kept [of e], auto)
    next
      case both: (Inr st')
      then have "w = w2" "r = Inr saved" using run by (simp_all add: store_outcome_def one Inr two)
      moreover have "spec_save (br (fst w1)) nxt brk_revision = (br (fst w2), Inr st')" using brk both by simp
      note spec_save_done [OF this]
      ultimately show thesis using stored brk wr(3,4) saved by simp
    qed
  qed
qed

lemma commits:
  assumes "ok s" and fit: "permit_fits a t" and it: "reading_ok it" and aware: "is_aware finished"
    and run: "commit_outcome tx policy t fault s a p it finished True = (s', r)"
  obtains (kept) "ok s'" "rows_kept clk (view s) (view s')" "\<And>res. r = Inr res \<Longrightarrow> \<not> xr_persisted res"
    "\<And>res. r = Inr res \<Longrightarrow> xr_verified res = None"
  | (stored) x y brk where "ok s'" "ex s (dx_execution_id x) = Some x" "dx_execution_id x = dx_execution_id (pc_execution p)"
      "still_holds a x finished" "outcome_row a t it p finished x y" "valid_execution y"
      "spec_load (br s) (st_provider_id (at_step a)) (attempt_market a) finished = Inr brk"
      "ex s' = (ex s)(dx_execution_id x \<mapsto> y)"
      "br s' = (br s)(ps_provider_id brk @ ''|'' @ ps_market brk \<mapsto>
         breaker_after brk it finished policy\<lparr>ps_revision := ps_revision brk + 1\<rparr>)"
      "cv s' = cv s" "r = outcome_result t a it y True"
proof -
  note start = unchanged [OF assms(1)]
  show thesis
  proof (cases "fault = Some AtLock \<or> fault = Some AtObserve")
    case True
    then show thesis using run assms(1) by - (rule kept, auto simp: commit_outcome_def Let_def)
  next
    case early: False
    show thesis
    proof (cases "outcome_rows tx policy t s a p it finished")
      case (Inl e)
      then have "(s' = tx_rollback tx (s, tx_begin tx s) \<or> s' = tx_close tx (s, tx_begin tx s)) \<and>
          (\<forall>res. r = Inr res \<longrightarrow> \<not> xr_persisted res \<and> xr_verified res = None)"
        using run early by (auto simp: commit_outcome_def Let_def split: if_splits)
      then show thesis
        using rolled_back [OF assms(1), of "(s, tx_begin tx s)"] closed [OF assms(1), of "(s, tx_begin tx s)"] start
        by - (rule kept, auto)
    next
      case (Inr answer)
      show thesis
      proof (cases answer)
        case stop: (Inl why)
        then have "s' = tx_rollback tx (s, tx_begin tx s) \<and>
            (\<forall>res. r = Inr res \<longrightarrow> \<not> xr_persisted res \<and> xr_verified res = None)"
          using run early by (cases why) (auto simp: commit_outcome_def Let_def Inr)
        then show thesis
          using rolled_back [OF assms(1), of "(s, tx_begin tx s)"] start by - (rule kept, auto)
      next
        case rows: (Inr four)
        obtain rec revision nxt brk_revision where four: "four = (rec, revision, nxt, brk_revision)" by (cases four)
        from assms(1) Inr [unfolded rows four] it aware show thesis
        proof (cases rule: outcome_read)
          case (1 x brk)
          obtain started where rec: "dx_attempt_started_at x = Some started"
            "rec = ended_row x a started finished (it_attempt_status it) (it_error_category it) (it_offers it)
              (Some (pc_request_digest p))
              (stored_observation_kind (it_success it) (production_live_evidence_authorized (at_permit a) t))"
            using terminal_record_form [OF 1(4)] by blast
          have id: "dx_execution_id x = dx_execution_id (pc_execution p)" "ex s (dx_execution_id x) = Some x"
            using 1(1) rows_law [OF assms(1)] by (auto simp: rows_valid_def)
          have keys: "dx_execution_id rec = dx_execution_id x" "dx_created_at rec = dx_created_at x"
            by (simp_all add: rec ended_row_def)
          have nxt: "valid_state nxt" using next_breaker_stands(2) [OF 1(6) aware it] 1(7) by simp
          obtain w q where wr: "store_outcome tx fault (s, tx_begin tx s) rec revision nxt brk_revision = (w, q)"
            by (metis surj_pair)
          note run' = run [unfolded commit_outcome_def Let_def Inr rows four]
          have brk0: "0 \<le> brk_revision" using 1(8,9) by simp
          note old = 1
          show thesis
          proof (cases rule: outcome_writes [OF assms(1) nxt brk0 wr id(2) [folded keys(1)] 1(3) keys(2)])
            case written: (1 e)
            have "(s' = tx_rollback tx w \<or> s' = tx_close tx w \<and> \<not> outcome_conflict e \<and> \<not> is_persistence e) \<and>
                (\<forall>res. r = Inr res \<longrightarrow> \<not> xr_persisted res \<and> xr_verified res = None)"
              using run' early wr by (auto simp: written(1) split: if_splits)
            then show thesis
              using rolled_back [OF assms(1) written(2,3)] closed [OF assms(1) written(2,3)] written(4)
              by - (rule that(1), auto)
          next
            case written: 2
            show thesis
            proof (cases "fault = Some AtCommit")
              case True
              then have "s' = tx_rollback tx w \<and> (\<forall>res. r = Inr res \<longrightarrow> \<not> xr_persisted res \<and> xr_verified res = None)"
                using run' early wr by (auto simp: written(1))
              then show thesis using rolled_back [OF assms(1) written(2,3)] by - (rule that(1), auto)
            next
              case False
              define y where "y = rec\<lparr>dx_revision := dx_revision x + 1\<rparr>"
              have "s' = fst w" "r = outcome_result t a it y True"
                using run' early False wr by (auto simp: written(1) y_def)
              moreover have "outcome_row a t it p finished x y"
                using rec by (simp add: outcome_row_def y_def)
              ultimately show thesis
                using written old id keys breaker_after_key [of brk it finished policy]
                by - (rule that(2) [of x y brk], auto simp: y_def)
            qed
          qed
        qed
      qed
    qed
  qed
qed

lemma settles_call:
  assumes "ok s" and fit: "permit_fits a t"
    and run: "settle_call tx policy rd t fault s a p started finished response = (s', r)"
  obtains (kept) "ok s'" "rows_kept clk (view s) (view s')" "\<And>res. r = Inr res \<Longrightarrow> \<not> xr_persisted res"
    "\<And>res. r = Inr res \<Longrightarrow> xr_verified res = None"
  | (stored) resp it x y brk where "response = Some resp"
      "it = interpret_response rd finished (production_live_evidence_authorized (at_permit a) t) resp"
      "ok s'" "ex s (dx_execution_id x) = Some x" "dx_execution_id x = dx_execution_id (pc_execution p)"
      "still_holds a x finished" "outcome_row a t it p finished x y" "valid_execution y"
      "spec_load (br s) (st_provider_id (at_step a)) (attempt_market a) finished = Inr brk"
      "ex s' = (ex s)(dx_execution_id x \<mapsto> y)"
      "br s' = (br s)(ps_provider_id brk @ ''|'' @ ps_market brk \<mapsto>
         breaker_after brk it finished policy\<lparr>ps_revision := ps_revision brk + 1\<rparr>)"
      "cv s' = cv s" "r = outcome_result t a it y True"
proof (cases response)
  case None
  then show thesis using run assms(1) by - (rule kept, auto simp: settle_call_def)
next
  case (Some resp)
  show thesis
  proof (cases "and_then (read_clock finished) (\<lambda>_. claim_less finished started) = Inr False")
    case False
    then show thesis
      using run assms(1) by - (rule kept, auto simp: settle_call_def Some split: sum.splits bool.splits)
  next
    case True
    let ?it = "interpret_response rd finished (production_live_evidence_authorized (at_permit a) t) resp"
    have aware: "is_aware finished" using True by (auto simp: read_clock_def and_then_Inr_iff split: if_splits)
    have "commit_outcome tx policy t fault s a p ?it finished True = (s', r)"
      using run True by (simp add: settle_call_def Some)
    with assms(1) fit interpret_ok aware show thesis
    proof (cases rule: commits)
      case (stored x y brk)
      then show thesis using that(2) [OF Some refl] by blast
    qed (rule kept)
  qed
qed

end

lemma valid_positive: "valid_execution x \<Longrightarrow> 1 \<le> dx_revision x"
  unfolding valid_execution_def check_execution_def by (auto split: if_split_asm)

lemma valid_execution_revision:
  assumes "valid_execution x" and "1 \<le> n"
  shows "valid_execution (x\<lparr>dx_revision := n\<rparr>)"
proof -
  have "no_attempt_facts (x\<lparr>dx_revision := n\<rparr>) = no_attempt_facts x" "no_outcome_yet (x\<lparr>dx_revision := n\<rparr>) = no_outcome_yet x"
    by (simp_all add: no_attempt_facts_def no_outcome_yet_def attempt_identity_def)
  moreover have "outcome_matches_state (x\<lparr>dx_revision := n\<rparr>) = outcome_matches_state x"
    by (cases "dx_state x") (simp_all add: outcome_matches_state_def)
  ultimately have "validate_claim_fields (x\<lparr>dx_revision := n\<rparr>) = validate_claim_fields x"
    "validate_attempt_fields (x\<lparr>dx_revision := n\<rparr>) = validate_attempt_fields x"
    by (simp_all add: validate_claim_fields_def validate_attempt_fields_def attempt_identity_def cong: option.case_cong)
  then show ?thesis
    using assms unfolding valid_execution_def check_execution_def
    by (auto simp: and_then_Inr_iff split: if_split_asm)
qed

section \<open>A granted attempt begins\<close>

text \<open>And what is held is enough.\<close>

lemma claim_held_enough:
  assumes "claim_held a x now"
  shows "attempt_pin_reason a x = None" and "attempt_claim_reason a x now = Inr None"
proof -
  show "attempt_pin_reason a x = None"
    using assms unfolding claim_held_def attempt_pin_reason_on by (auto simp: terminal_execution_states_def)
  obtain e where e: "dx_claim_expires_at x = Some e" "is_aware e" "is_aware now" "micros now + 6000000 \<le> micros e"
    using assms unfolding claim_held_def by auto
  then have "claim_less now e = Inr True" by (simp add: claim_less_def dt_less_aware)
  then have "validate_active_execution_claim x (at_claim_capability a) now = Inr \<lparr>ac_valid = True, ac_reason = None\<rparr>"
    using assms e active_claim_on [of x "at_claim_capability a" now "\<lparr>ac_valid = True, ac_reason = None\<rparr>"]
    unfolding claim_held_def by auto
  moreover have "budget_ok (dx_claim_expires_at x) now = Inr True" unfolding budget_on using e by auto
  ultimately show "attempt_claim_reason a x now = Inr None" by (simp add: attempt_claim_reason_def)
qed

lemma authorization_held_enough:
  assumes "authorization_held a x p" and "attempt_execution_id a = Inr (dx_execution_id x)"
  shows "stored_authorization_reason a x p = Inr None"
  using assms unfolding authorization_held_def stored_authorization_reason_def attempt_execution_id_def relabel_Inr
  by auto

lemma breaker_allows_enough:
  assumes "breaker_allows brk a now" and "is_aware now"
  shows "\<exists>d. assess_execution_permission brk (at_status a) (at_kill_switch a) now = Inr d \<and> execution_permitted d \<and>
    probe_reason (decision_breaker d) a now = Inr None"
proof -
  obtain cur where adv: "advance_recovery brk now = Inr cur" using assms(1) unfolding breaker_allows_def by blast
  have cur: "\<not> engaged (at_kill_switch a)" "at_status a = AVAILABLE" "advance_recovery brk now = Inr cur"
    "ps_state cur \<noteq> OPEN"
    using assms(1) adv unfolding breaker_allows_def by (cases "ps_state cur"; simp)+
  then have d: "assess_execution_permission brk (at_status a) (at_kill_switch a) now =
      Inr \<lparr>execution_permitted = True, block_reason = None, decision_breaker = cur\<rparr>"
    using assms(2) by (simp add: assess_execution_permission_def require_aware_def check_decision_def)
  have "probe_reason cur a now = Inr None"
  proof (cases "ps_state cur")
    case HALF_OPEN
    then obtain token dg where t: "at_probe_capability a = Some token" "half_open_probe_digest token = Inr dg"
      "probe_digest cur = Some dg" "probe_lease_is_active cur now = Inr True" "budget_ok (probe_expires_at cur) now = Inr True"
      using assms(1) cur(3) unfolding breaker_allows_def by auto
    have "token \<noteq> []" using t(2) by (auto simp: half_open_probe_digest_def)
    moreover have "validate_active_half_open_probe cur token now = Inr \<lparr>ac_valid = True, ac_reason = None\<rparr>"
      using active_probe_on [of cur token now "\<lparr>ac_valid = True, ac_reason = None\<rparr>"] t HALF_OPEN assms(2) by auto
    ultimately show ?thesis using HALF_OPEN t by (simp add: probe_reason_def blank_def)
  qed (use assms(1) cur in \<open>auto simp: breaker_allows_def probe_reason_def\<close>)
  with d show ?thesis by simp
qed

lemma payload_built:
  assumes "local_refusal_reason a t = None"
  shows "catalog_payload a \<noteq> None"
proof -
  note strip_subset
  then show ?thesis
    using assms unfolding local_refusal_reason_def catalog_payload_def
    by (auto simp: build_jsonrpc_request_def build_get_product_arguments_def text_or_empty_def contains_char_def
        split: option.splits if_splits)
qed

lemma running_row_stands:
  assumes x: "valid_execution x" "dx_state x = ClaimedForAttempt" and a: "local_refusal_reason a t = None"
    and now: "is_aware started"
  shows "\<exists>y. running_row a started x = Inr y"
proof -
  have st: "st_provider_id (at_step a) = ''ph-shopify-global-catalog''" "st_market (at_step a) = Some ''PH''"
    "at_source a = ''shopify_global_catalog''"
    using local_refusal_on [OF a] by simp_all
  let ?y = "x\<lparr>dx_state := Running, dx_updated_at := started, dx_attempt_started_at := Some started,
      dx_attempted_provider_id := Some (st_provider_id (at_step a)),
      dx_attempted_capability := Some (capability_value (st_capability (at_step a))),
      dx_attempted_market := st_market (at_step a), dx_attempted_source := Some (at_source a),
      dx_request_digest := Some (request_digest a)\<rparr>"
  have cap: "capability_value c \<noteq> []" for c by (cases c) simp_all
  have old: "validate_claim_fields x = Inr ()" "validate_attempt_fields x = Inr ()"
    using x(1) unfolding valid_execution_def check_execution_def by (auto simp: and_then_Inr_iff split: if_split_asm)
  have "validate_claim_fields ?y = Inr ()"
    using old(1) x(2)
    by (auto simp: validate_claim_fields_def Let_def claim_states_def terminal_execution_states_def
        split: if_split_asm)
  moreover have "validate_attempt_fields ?y = Inr ()"
    using old(2) x(2) now cap
    by (auto simp: validate_attempt_fields_def no_attempt_facts_def no_outcome_yet_def attempt_identity_def st blank_def
        naive_or_none_def split: if_split_asm)
  ultimately have "check_execution ?y = Inr ?y"
    using x(1) now unfolding valid_execution_def check_execution_def
    by (auto simp: and_then_Inr_iff split: if_split_asm)
  then show ?thesis by (simp add: running_row_def)
qed

text \<open>What is answered instead of a call is a refusal.\<close>

lemma begin_answer_unstored:
  assumes "begin_call tx fault s a started = (s', Inr (Inl res))"
  shows "\<not> xr_persisted res"
proof -
  have row: "\<not> xr_persisted res" if "start_row tx fault w a started x = (w', Inr (Inl res))" for w w' x
    using that unfolding start_row_def
    by (auto split: option.splits if_splits sum.splits prod.splits claim_error.splits exec_error.splits)
  have "\<not> xr_persisted res" if "begin_attempt tx fault s a started = (w, Inr (Inl res))" for w
    using that row unfolding begin_attempt_def by (auto split: option.splits sum.splits prod.splits)
  then show ?thesis
    using assms unfolding begin_call_def Let_def by (auto split: if_splits sum.splits prod.splits)
qed

context closing_store
begin

lemma granted_passes:
  assumes "ok s" and "attempt_granted clk a now (view s) x" and "attempt_execution_id a = Inr (dx_execution_id x)"
  shows "pre_transport_reason tx s a (Some x) now = (s, Inr None)"
proof -
  obtain p brk where held: "claim_held a x now" "cv s (ra_conversation_id (at_authorization a)) = Some p"
    "is_expired clk p = Inr False" "authorization_held a x p"
    "spec_load (br s) (st_provider_id (at_step a)) (attempt_market a) now = Inr brk" "breaker_allows brk a now"
    using assms(2) unfolding attempt_granted_def by auto
  have aware: "is_aware now" using held(1) unfolding claim_held_def by blast
  have auth: "authorization_reason tx s a x = (s, Inr None)"
    using present_law [OF assms(1) held(2,3)] authorization_held_enough [OF held(4) assms(3)]
    by (simp add: authorization_reason_def)
  have "breaker_reason tx s a now = Inr None"
    using breaker_allows_enough [OF held(6) aware]
    by (auto simp: breaker_reason_def load_breaker_law [OF assms(1)] held(5))
  then show ?thesis
    by (simp add: pre_transport_reason_def claim_held_enough [OF held(1)] auth)
qed

lemma granted_begins:
  assumes "ok s" and a: "local_refusal_reason a t = None" and id: "attempt_execution_id a = Inr (dx_execution_id x)"
    and x: "ex s (dx_execution_id x) = Some x" and granted: "attempt_granted clk a now (view s) x"
  shows "\<exists>s' p. begin_call tx None s a now = (s', Inr (Inr p))"
proof -
  have held: "is_aware now" "dx_state x = ClaimedForAttempt"
    using granted unfolding attempt_granted_def claim_held_def by blast+
  have v: "valid_execution x" using rows_law [OF assms(1)] x by (auto simp: rows_valid_def)
  obtain running where run: "running_row a now x = Inr running"
    using running_row_stands [OF v held(2) a held(1)] by blast
  note form = running_row_form [OF run]
  obtain w q where cas: "tx_cas_execution tx (s, tx_begin tx s) running (dx_revision x) = (w, q)" by (metis surj_pair)
  have rid: "dx_execution_id running = dx_execution_id x" by (simp add: form)
  have law: "(ex (fst w), q) = spec_write (replaced running (dx_revision x)) (ex s) (dx_execution_id x) (dx_revision x)"
    using cas_execution_law [OF begin_law [OF assms(1)] _ cas] assms(1) by (simp add: rid)
  have vr: "valid_execution running"
    using run unfolding running_row_def relabel_Inr by (rule checked_valid)
  define y where "y = running\<lparr>dx_revision := dx_revision x + 1\<rparr>"
  have vy: "valid_execution y"
    unfolding y_def using valid_execution_revision [OF vr] valid_positive [OF v] by simp
  have "require_same_pins x running = Inr ()" by (simp add: same_pins_on form)
  moreover have "running\<lparr>dx_created_at := dx_created_at x, dx_revision := dx_revision x + 1\<rparr> = y"
    by (simp add: y_def form)
  ultimately have "replaced running (dx_revision x) x = Inr y"
    using vy unfolding replaced_def valid_execution_def by simp
  then have q: "q = Inr y" using law x by (simp add: spec_write_def)
  obtain payload where payload: "catalog_payload a = Some payload" using payload_built [OF a] by blast
  have cred: "\<not> carries_credentials anonymous_http_headers"
    by (simp add: carries_credentials_def anonymous_http_headers_def to_lower_def code_def)
  have row: "start_row tx None (s, tx_begin tx s) a now x = (w, Inr (Inr \<lparr>pc_execution = y, pc_payload = payload,
      pc_headers = anonymous_http_headers, pc_request_digest = request_digest a\<rparr>))"
    by (simp add: start_row_def payload cred run fault_or_def cas q)
  show ?thesis
    by (simp add: begin_call_def begin_attempt_def id load_execution_law [OF assms(1)] x granted_passes [OF assms(1) granted id]
        row Let_def)
qed

text \<open>The transport is asked in exactly one way: by an attempt that has begun.\<close>

lemma executes:
  assumes "ok s"
    and run: "execute tx policy rd t clocks post_json mid faults s a = (s', r, asked)"
  obtains (refused) "asked = None" "ok s'" "rows_kept clk (view s) (view s')"
      "\<And>res. r = Inr res \<Longrightarrow> \<not> xr_persisted res" "\<And>res. r = Inr res \<Longrightarrow> \<not> xr_attempted res"
  | (called) p x s1 where "asked = Some p" "local_refusal_reason a t = None" "is_aware (fst clocks)"
      "begin_call tx (fst faults) s a (fst clocks) = (s1, Inr (Inr p))" "ok s1"
      "attempt_execution_id a = Inr (dx_execution_id x)" "ex s (dx_execution_id x) = Some x"
      "attempt_granted clk a (fst clocks) (view s) x" "started_from a (fst clocks) x (pc_execution p)" "asks_for a p"
      "ex s1 = (ex s)(dx_execution_id x \<mapsto> pc_execution p)" "br s1 = br s" "cv s1 = cv s"
      "settle_call tx policy rd t (snd faults) (mid s1) a p (fst clocks) (snd clocks) (post_json p) = (s', r)"
proof (cases "local_refusal_reason a t")
  case (Some reason)
  then show thesis using run assms(1) by - (rule refused, auto simp: execute_def)
next
  case local: None
  show thesis
  proof (cases "is_aware (fst clocks)")
    case False
    then show thesis using run assms(1) local by - (rule refused, auto simp: execute_def read_clock_def)
  next
    case aware: True
    obtain s1 q where beg: "begin_call tx (fst faults) s a (fst clocks) = (s1, q)" by (metis surj_pair)
    note run' = run [unfolded execute_def local read_clock_def]
    from assms(1) beg show thesis
    proof (cases rule: begins)
      case kept
      then have "asked = None \<and> s' = s1 \<and> (\<forall>res. r = Inr res \<longrightarrow> q = Inr (Inl res))"
        using run' aware beg by (cases q; cases "projr q") auto
      moreover have "\<not> xr_persisted res" if "q = Inr (Inl res)" for res
        by (rule begin_answer_unstored [OF beg [unfolded that]])
      ultimately show thesis using kept by - (rule refused, auto)
    next
      case (begun x p)
      then show thesis
        using run' aware beg local by - (rule called [of p s1 x], auto split: prod.splits)
    qed
  qed
qed

end

section \<open>Reconciliation\<close>

definition unknown_row :: "attempt \<Rightarrow> datetime \<Rightarrow> durable_execution \<Rightarrow> durable_execution \<Rightarrow> bool" where
  "unknown_row a finished x y =
     (\<exists>started. dx_attempt_started_at x = Some started \<and>
        y = (ended_row x a started finished AttemptUnknown (Some ''outcome_unknown'') [] (dx_request_digest x) None)
          \<lparr>dx_revision := dx_revision x + 1\<rparr>)"

text \<open>The running row's lease is over, by this reading.\<close>

definition lease_over :: "durable_execution \<Rightarrow> datetime \<Rightarrow> bool" where
  "lease_over x now =
     (dx_state x = Running \<and>
      (case dx_claim_expires_at x of None \<Rightarrow> True | Some e \<Rightarrow> dt_less now e = Some False) \<and>
      (case dx_attempt_started_at x of None \<Rightarrow> True | Some b \<Rightarrow> dt_less now b = Some False))"

lemma unknown_answer:
  assumes "unknown_row a finished x y"
  shows "\<exists>res. result_from_stored y False None [] [] NoAuthority None = Inr res \<and> xr_persisted res \<and>
    xr_state res = Some OutcomeUnknown \<and> xr_claim_released res \<and> xr_verified res = None \<and> \<not> xr_transport_invoked res"
  using assms by (auto simp: unknown_row_def result_from_stored_def ended_row_def check_result_def state_for_def
      check_synthetic_result_def terminal_execution_states_def)

context closing_store
begin

lemma reconcile_read:
  assumes "ok s" and "attempt_execution_id a = Inr i"
  shows "reconcile_row tx s a finished = Inr (Inr (rec, revision)) \<longleftrightarrow>
    (\<exists>x. ex s i = Some x \<and> lease_over x finished \<and> revision = dx_revision x \<and>
       terminal_record x a finished AttemptUnknown (Some ''outcome_unknown'') [] (dx_request_digest x) None = Inr rec)"
  unfolding reconcile_row_def load_execution_law [OF assms(1)] assms(2) lease_over_def
  by (auto simp: and_then_Inr_iff relabel_Inr claim_less_on split: option.splits if_splits)

lemma reconciles:
  assumes "ok s" and run: "reconcile_ambiguous tx fault clock s a = (s', r)"
  obtains (kept) "ok s'" "rows_kept clk (view s) (view s')" "\<And>res. r = Inr res \<Longrightarrow> \<not> xr_persisted res"
  | (shut) x y where "ok s'" "attempt_execution_id a = Inr (dx_execution_id x)" "ex s (dx_execution_id x) = Some x"
      "lease_over x clock" "unknown_row a clock x y" "valid_execution y"
      "ex s' = (ex s)(dx_execution_id x \<mapsto> y)" "br s' = br s" "cv s' = cv s"
      "r = result_from_stored y False None [] [] NoAuthority None"
proof -
  note start = unchanged [OF assms(1)]
  note ends = rolled_back [OF assms(1), of "(s, tx_begin tx s)"] closed [OF assms(1), of "(s, tx_begin tx s)"]
  show thesis
  proof (cases "is_aware clock \<and> fault \<noteq> Some AtLock \<and> fault \<noteq> Some AtObserve")
    case False
    then show thesis
      using run assms(1) by - (rule kept, auto simp: reconcile_ambiguous_def read_clock_def Let_def split: if_splits)
  next
    case early: True
    note run' = run [unfolded reconcile_ambiguous_def read_clock_def Let_def]
    show thesis
    proof (cases "reconcile_row tx s a clock")
      case (Inl e)
      then have "(s' = tx_rollback tx (s, tx_begin tx s) \<or> s' = tx_close tx (s, tx_begin tx s)) \<and>
          (\<forall>res. r = Inr res \<longrightarrow> \<not> xr_persisted res)"
        using run' early by (auto split: if_splits)
      then show thesis using ends start by - (rule kept, auto)
    next
      case (Inr answer)
      show thesis
      proof (cases answer)
        case stop: (Inl why)
        have "s' = tx_rollback tx (s, tx_begin tx s)" "\<And>res. r = Inr res \<Longrightarrow> \<not> xr_persisted res"
          using run' early
          by (cases why; auto simp: Inr stop check_result_def refusal_result_def split: if_splits)+
        then show thesis using ends start by - (rule kept, auto)
      next
        case rows: (Inr two)
        obtain rec revision where two: "two = (rec, revision)" by (cases two)
        obtain i where i: "attempt_execution_id a = Inr i"
          using Inr by (cases "attempt_execution_id a") (simp_all add: reconcile_row_def)
        obtain x where x: "ex s i = Some x" "lease_over x clock" "revision = dx_revision x"
          "terminal_record x a clock AttemptUnknown (Some ''outcome_unknown'') [] (dx_request_digest x) None = Inr rec"
          using Inr [unfolded rows two reconcile_read [OF assms(1) i]] by blast
        have id: "dx_execution_id x = i" using rows_law [OF assms(1)] x(1) by (simp add: rows_valid_def)
        obtain started where rec: "dx_attempt_started_at x = Some started"
          "rec = ended_row x a started clock AttemptUnknown (Some ''outcome_unknown'') [] (dx_request_digest x) None"
          using terminal_record_form [OF x(4)] by blast
        have keys: "dx_execution_id rec = i" "dx_created_at rec = dx_created_at x"
          by (simp_all add: rec ended_row_def id)
        obtain w q where one: "fault_or fault AtExecution (s, tx_begin tx s) (apsnd (relabel ClaimExecution)
            (tx_cas_execution tx (s, tx_begin tx s) rec revision)) = (w, q)" by (metis surj_pair)
        note wr = row_write [OF conjunct1 [OF start] conjunct1 [OF conjunct2 [OF start]] one, unfolded fst_conv]
        show thesis
        proof (cases q)
          case raised: (Inl e)
          then have "rows_kept clk (view s) (view (fst w))" using wr(3-5) by (simp add: rows_kept_def)
          moreover have "(s' = tx_rollback tx w \<or> s' = tx_close tx w) \<and> (\<forall>res. r = Inr res \<longrightarrow> \<not> xr_persisted res)"
            using run' early by (auto simp: Inr rows two one raised split: if_splits)
          ultimately show thesis
            using rolled_back [OF assms(1) wr(1,2)] closed [OF assms(1) wr(1,2)] by - (rule kept, auto)
        next
          case saved: (Inr y)
          have y: "y = rec\<lparr>dx_revision := dx_revision x + 1\<rparr>" "valid_execution y" "ex (fst w) = (ex s)(i \<mapsto> y)"
            using wr(6) [OF saved] x(1,3) keys by auto
          show thesis
          proof (cases "fault = Some AtCommit")
            case True
            then have "s' = tx_rollback tx w \<and> (\<forall>res. r = Inr res \<longrightarrow> \<not> xr_persisted res)"
              using run' early one by (auto simp: Inr rows two saved)
            then show thesis using rolled_back [OF assms(1) wr(1,2)] by - (rule kept, auto)
          next
            case False
            then have "s' = fst w" "r = result_from_stored y False None [] [] NoAuthority None"
              using run' early one by (auto simp: Inr rows two saved)
            moreover have "unknown_row a clock x y" using rec y(1) by (simp add: unknown_row_def)
            ultimately show thesis
              using that(2) [of x y] i id x y wr(2-4) by simp
          qed
        qed
      qed
    qed
  qed
qed

text \<open>Once the lease is over, a lost outcome can be closed.\<close>

lemma reconcile_closes:
  assumes "ok s" and x: "attempt_execution_id a = Inr i" "ex s i = Some x" "lease_over x clock"
    and a: "dx_plan_id x = pn_plan_id (at_plan a)" "at_source a \<noteq> []" "st_market (at_step a) \<noteq> None"
    and time: "is_aware clock"
  shows "\<exists>s' res. reconcile_ambiguous tx None clock s a = (s', Inr res) \<and> xr_persisted res \<and>
    xr_state res = Some OutcomeUnknown \<and> xr_claim_released res \<and> \<not> xr_transport_invoked res \<and>
    br s' = br s \<and> cv s' = cv s \<and> (\<exists>y. ex s' = (ex s)(i \<mapsto> y) \<and> unknown_row a clock x y)"
proof -
  have v: "valid_execution x" "dx_execution_id x = i" using rows_law [OF assms(1)] x(2) by (auto simp: rows_valid_def)
  have run: "dx_state x = Running" using x(3) by (simp add: lease_over_def)
  then obtain b where b: "dx_attempt_started_at x = Some b" "is_aware b"
    using v(1) unfolding valid_execution_def check_execution_def validate_attempt_fields_def naive_or_none_def
    by (auto simp: and_then_Inr_iff split: if_split_asm option.splits)
  then have late: "micros b \<le> micros clock" using x(3) time by (simp add: lease_over_def dt_less_aware)
  have fits: "outcome_fits AttemptUnknown (Some ''outcome_unknown'') [] None" by (simp add: outcome_fits_def)
  let ?rec = "ended_row x a b clock AttemptUnknown (Some ''outcome_unknown'') [] (dx_request_digest x) None"
  have rec: "reconcile_row tx s a clock = Inr (Inr (?rec, dx_revision x))"
    unfolding reconcile_read [OF assms(1) x(1)]
    using x(2,3) terminal_record_stands [OF v(1) run b(1) a(1) fits time late a(2,3)] by blast
  obtain w q where cas: "tx_cas_execution tx (s, tx_begin tx s) ?rec (dx_revision x) = (w, q)" by (metis surj_pair)
  have id: "dx_execution_id ?rec = i" by (simp add: ended_row_def v(2))
  have law: "(ex (fst w), q) = spec_write (replaced ?rec (dx_revision x)) (ex s) i (dx_revision x) \<and>
      br (fst w) = br s \<and> cv (fst w) = cv s"
    using cas_execution_law [OF begin_law [OF assms(1)] _ cas] assms(1) by (simp add: id)
  define y where "y = ?rec\<lparr>dx_revision := dx_revision x + 1\<rparr>"
  have vy: "valid_execution y"
    unfolding y_def
    using ended_row_valid [OF v(1) run b(1) a(1) fits time late, of "dx_request_digest x"] valid_positive [OF v(1)]
    by (intro valid_execution_revision) simp_all
  have "require_same_pins x ?rec = Inr ()" by (simp add: same_pins_on ended_row_def)
  moreover have "?rec\<lparr>dx_created_at := dx_created_at x, dx_revision := dx_revision x + 1\<rparr> = y"
    by (simp add: y_def ended_row_def)
  ultimately have "replaced ?rec (dx_revision x) x = Inr y"
    using vy unfolding replaced_def valid_execution_def by simp
  then have q: "q = Inr y" "ex (fst w) = (ex s)(i \<mapsto> y)" using law x(2) by (simp_all add: spec_write_def)
  have "reconcile_ambiguous tx None clock s a = (fst w, result_from_stored y False None [] [] NoAuthority None)"
    using time by (simp add: reconcile_ambiguous_def read_clock_def Let_def rec fault_or_def cas q(1))
  moreover have "unknown_row a clock x y" using b(1) by (simp add: unknown_row_def y_def)
  ultimately show ?thesis using unknown_answer [of a clock x y] law q(2) by auto
qed

end

end
