(* ===== verification/LiveSystem.thy ===== *)
theory LiveSystem
  imports LiveAttemptFacts
begin

text \<open>
  Many claims and attempts at once, on one set of rows: each operation is split where the code lets others in, and the
  steps of all of them are interleaved in any order.  An execution that has started is never started again.
\<close>

section \<open>How rows move on\<close>

definition execution_started :: "durable_execution \<Rightarrow> bool" where
  "execution_started x = (dx_state x \<noteq> PreparedUnavailable \<and> dx_state x \<noteq> ClaimedForAttempt)"

text \<open>No row is lost, none goes back, and one that has started stays so.\<close>

definition moves_on :: "exec_map \<Rightarrow> exec_map \<Rightarrow> bool" where
  "moves_on before after =
     (\<forall>i x. before i = Some x \<longrightarrow>
        (\<exists>y. after i = Some y \<and> dx_revision x \<le> dx_revision y \<and> (dx_revision y = dx_revision x \<longrightarrow> y = x) \<and>
           (execution_started x \<longrightarrow> execution_started y)))"

lemma moves_on_refl [simp]: "moves_on m m"
  by (simp add: moves_on_def)

lemma moves_onD:
  assumes "moves_on m m'" and "m i = Some x"
  obtains y where "m' i = Some y" "dx_revision x \<le> dx_revision y" "dx_revision y = dx_revision x \<Longrightarrow> y = x"
    "execution_started x \<Longrightarrow> execution_started y"
  using assms unfolding moves_on_def by blast

lemma moves_on_trans: "moves_on m1 m2 \<Longrightarrow> moves_on m2 m3 \<Longrightarrow> moves_on m1 m3"
proof (unfold moves_on_def [of m1 m3], intro allI impI)
  fix i x assume 12: "moves_on m1 m2" and 23: "moves_on m2 m3" and x: "m1 i = Some x"
  obtain y where y: "m2 i = Some y" "dx_revision x \<le> dx_revision y" "dx_revision y = dx_revision x \<Longrightarrow> y = x"
    "execution_started x \<Longrightarrow> execution_started y"
    using 12 x by (rule moves_onD) blast
  obtain z where z: "m3 i = Some z" "dx_revision y \<le> dx_revision z" "dx_revision z = dx_revision y \<Longrightarrow> z = y"
    "execution_started y \<Longrightarrow> execution_started z"
    using 23 y(1) by (rule moves_onD) blast
  have "z = x" if "dx_revision z = dx_revision x"
  proof -
    have "dx_revision y = dx_revision x" "dx_revision z = dx_revision y" using that y(2) z(2) by simp_all
    then show ?thesis using y(3) z(3) by simp
  qed
  then show "\<exists>z. m3 i = Some z \<and> dx_revision x \<le> dx_revision z \<and> (dx_revision z = dx_revision x \<longrightarrow> z = x) \<and>
      (execution_started x \<longrightarrow> execution_started z)"
    using y z by auto
qed

lemma moves_on_update:
  assumes "m i = Some x" and "dx_revision y = dx_revision x + 1" and "execution_started x \<Longrightarrow> execution_started y"
  shows "moves_on m (m(i \<mapsto> y))"
  using assms by (auto simp: moves_on_def)

section \<open>The system\<close>

text \<open>
  The rows; the observations that claims hold between their two transactions; the calls the transport was asked.  A
  transaction depends on the clock it reads, so it is a function of it; \<open>requests\<close> are the claims anyone makes.
\<close>

inductive live_steps ::
  "(datetime \<Rightarrow> ('s, 'l, 'f) claim_transaction) \<Rightarrow> ('s \<Rightarrow> bool) \<Rightarrow> ('s \<Rightarrow> exec_map) \<Rightarrow> 'd claim_request set
     \<Rightarrow> 'p catalog_reader \<Rightarrow> 's \<Rightarrow> 's \<times> observation list \<times> prepared_call list \<Rightarrow> bool"
  for tx ok ex requests rd s0 where
  initial: "live_steps tx ok ex requests rd s0 (s0, [], [])"
| others: "live_steps tx ok ex requests rd s0 (s, obs, calls) \<Longrightarrow> ok s' \<Longrightarrow> moves_on (ex s) (ex s') \<Longrightarrow>
    live_steps tx ok ex requests rd s0 (s', obs, calls)"
| observed: "live_steps tx ok ex requests rd s0 (s, obs, calls) \<Longrightarrow> q \<in> requests \<Longrightarrow> ok (mid s) \<Longrightarrow>
    moves_on (ex s) (ex (mid s)) \<Longrightarrow> observe (tx clk) leases tokens mid fault s q = (s', Inr (Inr ob)) \<Longrightarrow>
    live_steps tx ok ex requests rd s0 (s', ob # obs, calls)"
| finished: "live_steps tx ok ex requests rd s0 (s, obs, calls) \<Longrightarrow> ob \<in> set obs \<Longrightarrow>
    finish_claim (tx clk) fault s ob = (s', r) \<Longrightarrow> live_steps tx ok ex requests rd s0 (s', remove1 ob obs, calls)"
| called: "live_steps tx ok ex requests rd s0 (s, obs, calls) \<Longrightarrow>
    begin_call (tx clk) fault s a started = (s', Inr (Inr p)) \<Longrightarrow>
    live_steps tx ok ex requests rd s0 (s', obs, p # calls)"
| turned_down: "live_steps tx ok ex requests rd s0 (s, obs, calls) \<Longrightarrow>
    begin_call (tx clk) fault s a started = (s', r) \<Longrightarrow> \<forall>p. r \<noteq> Inr (Inr p) \<Longrightarrow>
    live_steps tx ok ex requests rd s0 (s', obs, calls)"
| settled: "live_steps tx ok ex requests rd s0 (s, obs, calls) \<Longrightarrow> p \<in> set calls \<Longrightarrow> local_refusal_reason a t = None \<Longrightarrow>
    settle_call (tx clk) policy rd t fault s a p started finished response = (s', r) \<Longrightarrow>
    live_steps tx ok ex requests rd s0 (s', obs, calls)"
| reconciled: "live_steps tx ok ex requests rd s0 (s, obs, calls) \<Longrightarrow>
    reconcile_ambiguous (tx clk) fault now s a = (s', r) \<Longrightarrow>
    live_steps tx ok ex requests rd s0 (s', obs, calls)"

definition called_execution :: "prepared_call \<Rightarrow> string" where
  "called_execution p = dx_execution_id (pc_execution p)"

text \<open>What an observation in flight still knows of its row.\<close>

definition observation_stands :: "exec_map \<Rightarrow> observation \<Rightarrow> bool" where
  "observation_stands m ob =
     (ob_ok ob \<and> (\<exists>x. m (dx_execution_id (ob_execution ob)) = Some x \<and> ob_expected_revision ob \<le> dx_revision x \<and>
        (dx_revision x = ob_expected_revision ob \<longrightarrow> \<not> execution_started x)))"

definition started_in :: "exec_map \<Rightarrow> string \<Rightarrow> bool" where
  "started_in m i = (\<exists>x. m i = Some x \<and> execution_started x)"

lemma observation_stands_on:
  assumes "observation_stands m ob" and "moves_on m m'"
  shows "observation_stands m' ob"
proof -
  obtain x where x: "m (dx_execution_id (ob_execution ob)) = Some x" "ob_expected_revision ob \<le> dx_revision x"
    "dx_revision x = ob_expected_revision ob \<Longrightarrow> \<not> execution_started x" "ob_ok ob"
    using assms(1) unfolding observation_stands_def by blast
  obtain y where "m' (dx_execution_id (ob_execution ob)) = Some y" "dx_revision x \<le> dx_revision y"
    "dx_revision y = dx_revision x \<Longrightarrow> y = x"
    using assms(2) x(1) by (rule moves_onD) blast
  then show ?thesis using x unfolding observation_stands_def by fastforce
qed

lemma started_in_on: "started_in m i \<Longrightarrow> moves_on m m' \<Longrightarrow> started_in m' i"
  unfolding started_in_def by (blast elim: moves_onD)

lemma started_revision [simp]: "execution_started (x\<lparr>dx_revision := n\<rparr>) = execution_started x"
  by (simp add: execution_started_def)

lemma ended_row_started:
  "execution_started (ended_row x a started finished status category offers digest observation)"
  by (simp add: execution_started_def ended_row_def state_for_def)

section \<open>Every operation moves the rows on\<close>

context closing_store
begin

text \<open>A claim writes its row only over the revision it read.\<close>

lemma claim_row:
  assumes "pending s0 w" and "ok (fst w)" and "ob_ok ob" and run: "write_claim tx fault w ob = (w', r)"
  shows "ex (fst w') = ex (fst w) \<or>
    (\<exists>c y. ex (fst w) (dx_execution_id (ob_execution ob)) = Some c \<and> dx_revision c = ob_expected_revision ob \<and>
       dx_revision y = dx_revision c + 1 \<and> dx_state y = ClaimedForAttempt \<and>
       ex (fst w') = (ex (fst w))(dx_execution_id (ob_execution ob) \<mapsto> y))"
proof -
  obtain w1 r1 where 1: "fault_or fault AtExecution w
      (apsnd (relabel ClaimExecution) (tx_cas_execution tx w (ob_execution ob) (ob_expected_revision ob))) = (w1, r1)"
    by (metis surj_pair)
  note s1 = row_write [OF assms(1,2) 1]
  obtain w2 r2 where 2: "write_breaker tx fault w1 ob = (w2, r2)" by (metis surj_pair)
  note s2 = breaker_choice [OF s1(1,2) assms(3) 2]
  obtain w3 r3 where 3: "write_consumption tx fault w2 ob = (w3, r3)" by (metis surj_pair)
  note s3 = consume_choice [OF conjunct1 [OF s2] conjunct1 [OF conjunct2 [OF s2]] 3]
  have "w' = w1 \<or> w' = w2 \<or> w' = w3"
    using run by (cases r1; cases r2; cases r3) (auto simp: write_claim_def 1 2 3)
  then have "ex (fst w') = ex (fst w1)" using s2 s3 by auto
  moreover have "dx_state (ob_execution ob) = ClaimedForAttempt" using assms(3) by (simp add: ob_ok_def)
  ultimately show ?thesis using s1(5,6) by (cases r1) fastforce+
qed

lemma claim_moves:
  assumes "ok s" and "observation_stands (ex s) ob" and run: "finish_claim tx fault s ob = (s', r)"
  shows "ok s' \<and> moves_on (ex s) (ex s')"
proof -
  have ob: "ob_ok ob" using assms(2) by (simp add: observation_stands_def)
  have over: "moves_on (ex s) ((ex s)(dx_execution_id (ob_execution ob) \<mapsto> y))"
    if "ex s (dx_execution_id (ob_execution ob)) = Some c" "dx_revision c = ob_expected_revision ob"
      "dx_revision y = dx_revision c + 1" for c y
    using moves_on_update [of "ex s" "dx_execution_id (ob_execution ob)" c y] that assms(2)
    by (auto simp: observation_stands_def)
  obtain w a where w: "write_claim tx fault (s, tx_begin tx s) ob = (w, a)" by (metis surj_pair)
  have pend: "pending s w" "ok (fst w)"
    using writes [OF begin_law [OF assms(1)] _ ob w] assms(1) by simp_all
  have "moves_on (ex s) (ex (fst w))"
    using claim_row [OF begin_law [OF assms(1)] _ ob w] assms(1) over by auto
  moreover have "s' = fst w \<or> s' = tx_rollback tx w \<or> s' = tx_close tx w"
    using run unfolding finish_claim_def Let_def w by (auto split: sum.splits option.splits if_splits)
  moreover have "tx_close tx w = fst w \<or> tx_close tx w = tx_rollback tx w" by (rule close_law)
  moreover have "ok (tx_rollback tx w)" "ex (tx_rollback tx w) = ex s"
    using rollback_law [OF assms(1) pend] by simp_all
  ultimately show ?thesis using pend by (elim disjE) simp_all
qed

lemma observation_fresh:
  assumes "ok s" and "ok (mid s)" and "moves_on (ex s) (ex (mid s))"
    and run: "observe tx leases tokens mid fault s q = (s', Inr (Inr ob))"
  shows "s' = mid s \<and> observation_stands (ex s') ob"
  using assms(1,2) run
proof (cases rule: observations)
  case (observed ob')
  then have obs: "observe_claim tx leases tokens mid s q = (mid s, Inr (Inr ob))" "s' = mid s" "ob_ok ob" by simp_all
  obtain x brk nxt lp where st: "first_stages tx leases tokens s q = Inr (Inr (x, brk, nxt, lp))"
    and ob: "ob_execution ob = nxt" "ob_expected_revision ob = dx_revision x"
    using obs(1) unfolding observe_claim_on by auto
  have on: "observe_execution tx s q = Inr (Inr x)"
    "apply_execution_claim x (lq_now q) (execution_lease leases) (fst tokens) = Inr nxt"
    using st unfolding first_stages_on observe_claimed_on by blast+
  have x: "ex s (dx_execution_id x) = Some x" "\<not> execution_started x"
    using on(1) rows_law [OF assms(1)] unfolding observe_execution_on
    by (cases "dx_state x"; auto simp: load_execution_law [OF assms(1)] rows_valid_def execution_started_def
        terminal_execution_states_def)+
  moreover have "dx_execution_id nxt = dx_execution_id x"
    using apply_execution_claim_form [OF on(2)] by auto
  ultimately have "observation_stands (ex s) ob" using obs(3) by (simp add: observation_stands_def ob)
  then show ?thesis using observation_stands_on [OF _ assms(3)] obs(2) by simp
qed simp_all

lemma begin_moves:
  assumes "ok s" and run: "begin_call tx fault s a started = (s', r)"
  shows "ok s' \<and> moves_on (ex s) (ex s') \<and>
    (\<forall>p. r = Inr (Inr p) \<longrightarrow> \<not> started_in (ex s) (called_execution p) \<and> started_in (ex s') (called_execution p))"
  using assms
proof (cases rule: begins)
  case kept
  then show ?thesis by (simp add: rows_kept_def)
next
  case (begun x p)
  have x: "dx_state x = ClaimedForAttempt" using begun(5) by (simp add: attempt_granted_def claim_held_def)
  have y: "dx_state (pc_execution p) = Running" "dx_revision (pc_execution p) = dx_revision x + 1"
    "dx_execution_id (pc_execution p) = dx_execution_id x"
    using begun(6) by (simp_all add: started_from_def pins_def)
  have "moves_on (ex s) (ex s')"
    using moves_on_update [of "ex s" "dx_execution_id x" x "pc_execution p"] begun(4,8) y
    by (simp add: execution_started_def)
  then show ?thesis
    using begun x y by (auto simp: started_in_def called_execution_def execution_started_def)
qed

lemma settle_moves:
  assumes "ok s" and "permit_fits a t"
    and run: "settle_call tx policy rd t fault s a p started finished response = (s', r)"
  shows "ok s' \<and> moves_on (ex s) (ex s')"
  using assms
proof (cases rule: settles_call)
  case kept
  then show ?thesis by (simp add: rows_kept_def)
next
  case (stored resp it x y brk)
  have "dx_revision y = dx_revision x + 1" "execution_started y"
    using stored(7) ended_row_started by (auto simp: outcome_row_def)
  then have "moves_on (ex s) ((ex s)(dx_execution_id x \<mapsto> y))"
    using moves_on_update [of "ex s" "dx_execution_id x" x y] stored(4) by simp
  then show ?thesis using stored by simp
qed

lemma reconcile_moves:
  assumes "ok s" and run: "reconcile_ambiguous tx fault now s a = (s', r)"
  shows "ok s' \<and> moves_on (ex s) (ex s')"
  using assms
proof (cases rule: reconciles)
  case kept
  then show ?thesis by (simp add: rows_kept_def)
next
  case (shut x y)
  have "dx_revision y = dx_revision x + 1" "execution_started y"
    using shut(5) ended_row_started by (auto simp: unknown_row_def)
  then have "moves_on (ex s) ((ex s)(dx_execution_id x \<mapsto> y))"
    using moves_on_update [of "ex s" "dx_execution_id x" x y] shut(3) by simp
  then show ?thesis using shut by simp
qed

end

section \<open>The invariant\<close>

definition live_invariant ::
  "('s \<Rightarrow> bool) \<Rightarrow> ('s \<Rightarrow> exec_map) \<Rightarrow> 's \<times> observation list \<times> prepared_call list \<Rightarrow> bool" where
  "live_invariant ok ex v =
     (case v of (s, obs, calls) \<Rightarrow>
        ok s \<and> distinct (map called_execution calls) \<and> (\<forall>p\<in>set calls. started_in (ex s) (called_execution p)) \<and>
        (\<forall>ob\<in>set obs. observation_stands (ex s) ob))"

lemma invariant_moves:
  assumes "live_invariant ok ex (s, obs, calls)" and "ok s' \<and> moves_on (ex s) (ex s')" and "set obs' \<subseteq> set obs"
  shows "live_invariant ok ex (s', obs', calls)"
  using assms unfolding live_invariant_def
  by (auto intro: started_in_on observation_stands_on)

lemma live_invariant_holds:
  fixes tx :: "datetime \<Rightarrow> ('s, 'l, 'f) claim_transaction"
  assumes store: "\<And>clk. closing_store (tx clk) cfg clk ok ex br cv (pending clk)"
    and "ok s0" and run: "live_steps tx ok ex requests rd s0 v"
  shows "live_invariant ok ex v"
  using run
proof (induction rule: live_steps.induct)
  case initial
  then show ?case using assms(2) by (simp add: live_invariant_def)
next
  case (others s obs calls s')
  then show ?case by - (rule invariant_moves [of ok ex s obs], simp_all)
next
  case (observed s obs calls q mid clk leases tokens fault s' ob)
  have "ok s" using observed.IH by (simp add: live_invariant_def)
  note fresh = closing_store.observation_fresh [OF store this observed.hyps(3,4,5)]
  have "live_invariant ok ex (s', obs, calls)"
    using fresh invariant_moves [OF observed.IH, of s' obs] observed.hyps(3,4) by simp
  then show ?case using conjunct2 [OF fresh] by (simp add: live_invariant_def)
next
  case (finished s obs calls ob clk fault s' r)
  have "ok s" "observation_stands (ex s) ob" using finished by (simp_all add: live_invariant_def)
  from closing_store.claim_moves [OF store this finished.hyps(3)]
  show ?case by (rule invariant_moves [OF finished.IH]) (simp_all add: set_remove1_subset)
next
  case (called s obs calls clk fault a started s' p)
  have "ok s" using called.IH by (simp add: live_invariant_def)
  note beg = closing_store.begin_moves [OF store this called.hyps(2)]
  then have "live_invariant ok ex (s', obs, calls)" using invariant_moves [OF called.IH, of s' obs] by simp
  moreover have "called_execution p \<notin> called_execution ` set calls"
    using beg called.IH by (auto simp: live_invariant_def)
  ultimately show ?case using beg by (simp add: live_invariant_def)
next
  case (turned_down s obs calls clk fault a started s' r)
  have "ok s" using turned_down.IH by (simp add: live_invariant_def)
  from closing_store.begin_moves [OF store this turned_down.hyps(2)]
  show ?case using invariant_moves [OF turned_down.IH, of s' obs] by simp
next
  case (settled s obs calls p a t clk policy fault started finished response s' r)
  have "ok s" "permit_fits a t"
    using settled.IH local_refusal_on [OF settled.hyps(3)] by (simp_all add: live_invariant_def)
  from closing_store.settle_moves [OF store this settled.hyps(4)]
  show ?case by (rule invariant_moves [OF settled.IH]) simp_all
next
  case (reconciled s obs calls clk fault now a s' r)
  have "ok s" using reconciled.IH by (simp add: live_invariant_def)
  from closing_store.reconcile_moves [OF store this reconciled.hyps(2)]
  show ?case by (rule invariant_moves [OF reconciled.IH]) simp_all
qed

end
