(* ===== verification/LiveStartProps.thy ===== *)
theory LiveStartProps
  imports LiveStartClaims PlanningFacts ConversationProps
begin

text \<open>
  The properties of a live-start claim on the two transactions: everything or nothing, one claimant at a time, and a
  claim that has run out can be taken over without consuming the authorization again.
\<close>

section \<open>What a claim leaves behind\<close>

lemma consumed_stored:
  assumes "exact_stored_authorization p a = Inr auth"
    and "consume_exact_research_authorization p o' (consume_request_of a) now = Inr u"
  shows "exact_stored_authorization (stored_context cfg u n) a =
      Inr (auth\<lparr>ra_status := AuthConsumed, ra_updated_at := Some now, ra_execution_available := False\<rparr>) \<and>
    cv_owner (stored_context cfg u n) = cv_owner p"
proof -
  obtain x b where x: "filter (\<lambda>y. ra_id y = ra_id a) (cv_authorizations p) = [x]"
    "mark_research_authorization_consumed x now = Inr b"
    "u = p\<lparr>cv_authorizations := map (\<lambda>y. if ra_id y = ra_id a then b else y) (cv_authorizations p)\<rparr>"
    by (rule consume_cases [OF assms(2)]) (simp add: consume_request_of_def that)
  have auth: "x = auth" "ra_id auth = ra_id a" using exact_stored_member [OF assms(1)] x(1) by simp_all
  note b = consumed_form [OF x(2)]
  have "filter (\<lambda>y. ra_id y = ra_id a) (cv_authorizations u) =
      map (\<lambda>y. if ra_id y = ra_id a then b else y) (filter (\<lambda>y. ra_id y = ra_id a) (cv_authorizations p))"
    unfolding x(3) by (simp, rule filter_map_same) (simp add: b auth)
  then have one: "filter (\<lambda>y. ra_id y = ra_id a) (cv_authorizations u) = [b]" using x(1) auth by simp
  show ?thesis
    using assms(1) exact_stored_member [OF assms(1)] one unfolding exact_stored_authorization_def
    by (simp add: stored_context_def b auth x(3) split: if_splits)
qed

lemma resume_of_executable:
  assumes "executable_for auth o' (pn_conversation_id (lq_plan q)) (pn_decision_id (lq_plan q))
      (pn_context_version (lq_plan q)) None (Some (pn_scope_digest (lq_plan q)))
      (Some (pn_proposal_id (lq_plan q))) (Some (pn_proposal_version (lq_plan q)))"
    and "exact_stored_authorization p (lq_authorization q) = Inr auth"
    and "pn_scope_digest (lq_plan q) \<noteq> []" and "pn_proposal_id (lq_plan q) \<noteq> []"
    and "pin_reason x q = None" and "dx_state x = ClaimedForAttempt"
    and "authorized_execution_id (ra_idempotency_key (lq_authorization q)) = Inr (dx_execution_id x)"
  shows "resumable_for (auth\<lparr>ra_status := AuthConsumed, ra_updated_at := u, ra_execution_available := False\<rparr>) o'
    (resume_request_for q x False)"
proof -
  have same: "ra_version auth = ra_version (lq_authorization q)" "ra_id auth = ra_id (lq_authorization q)"
    "ra_idempotency_key auth = ra_idempotency_key (lq_authorization q)"
    using exact_stored_member [OF assms(2)] by (auto simp: consume_request_of_def)
  show ?thesis
    using assms same unfolding executable_for_def pin_reason_def Let_def
    by (auto simp: resumable_for_def resume_request_for_def split: if_splits)
qed

lemma pin_reason_pins: "pins x' = pins x \<Longrightarrow> pin_reason x' q = pin_reason x q"
  by (simp add: pin_reason_def pins_def Let_def)

lemma resume_request_pins:
  "pins x' = pins x \<Longrightarrow> dx_state x' = dx_state x \<Longrightarrow> resume_request_for q x' active = resume_request_for q x active"
  by (simp add: resume_request_for_def pins_def)

lemma resumable_state: "resumable_for auth o' (resume_request_for q x active) \<Longrightarrow> dx_state x = ClaimedForAttempt"
  by (cases "dx_state x") (simp_all add: resumable_for_def resume_request_for_def)

text \<open>The same claim, at another time and under whatever gates hold then.\<close>

definition same_claim :: "'d claim_request \<Rightarrow> 'e claim_request \<Rightarrow> bool" where
  "same_claim q q' =
     (lq_authorization q' = lq_authorization q \<and> lq_owner q' = lq_owner q \<and> lq_plan q' = lq_plan q \<and>
      lq_provider_id q' = lq_provider_id q \<and> lq_market q' = lq_market q \<and> lq_capability q' = lq_capability q \<and>
      lq_source q' = lq_source q)"

text \<open>The rows after a claim nobody raced with: what the next claim of the same request finds.\<close>

definition claim_left ::
  "'d claim_request \<Rightarrow> 'f claim_view \<Rightarrow> datetime \<Rightarrow> bool" where
  "claim_left q b e =
     (\<exists>x p w auth.
        authorized_execution_id (ra_idempotency_key (lq_authorization q)) = Inr (dx_execution_id x) \<and>
        fst b (dx_execution_id x) = Some x \<and> dx_state x = ClaimedForAttempt \<and> dx_claim_expires_at x = Some e \<and>
        pin_reason x q = None \<and> plan_target_matches q \<and>
        snd (snd b) (ra_conversation_id (lq_authorization q)) = Some p \<and> cv_owner p = Some w \<and>
        has_same_identity w (lq_owner q) \<and> exact_stored_authorization p (lq_authorization q) = Inr auth \<and>
        ra_status auth = AuthConsumed \<and> resumable_for auth (lq_owner q) (resume_request_for q x False))"

context claim_store
begin

lemma claim_leaves:
  assumes "ok s" and run: "claim tx leases tokens (\<lambda>s. s) (\<lambda>s. s) fault s q = (s', Inr res)" and "cl_claimed res"
    and plan: "pn_scope_digest (lq_plan q) \<noteq> []" "pn_proposal_id (lq_plan q) \<noteq> []"
  shows "ok s'" and "cl_claim_expires_at res = Some (plus_micros (lq_now q) (execution_lease leases))"
    and "claim_left q (ex s', br s', cv s') (plus_micros (lq_now q) (execution_lease leases))"
proof -
  let ?i = "ra_conversation_id (lq_authorization q)"
  let ?e = "plus_micros (lq_now q) (execution_lease leases)"
  obtain ob stored acquired where obs: "observe_claim tx leases tokens (\<lambda>s. s) s q = (s, Inr (Inr ob))"
    and res: "res = claimed_answer ob stored acquired" and "ok s'"
    and com: "committed cfg clk ob (ex s, br s, cv s) (ex s', br s', cv s') stored acquired"
    using assms(1) assms(1) assms(1) run
    by (cases rule: claims) (use assms(3) in auto)
  then show "ok s'" by simp
  obtain x brk nxt lp c where st: "first_stages tx leases tokens s q = Inr (Inr (x, brk, nxt, lp))"
    and auth: "authorization_commitment tx s q x False = (s, Inr (Inr c))"
    and ob: "ob_execution ob = nxt" "ob_expected_revision ob = dx_revision x" "ob_consumption ob = c"
    using obs unfolding observe_claim_on by auto
  have on: "observe_execution tx s q = Inr (Inr x)"
    "apply_execution_claim x (lq_now q) (execution_lease leases) (fst tokens) = Inr nxt"
    using st unfolding first_stages_on observe_claimed_on by blast+
  have x: "authorized_execution_id (ra_idempotency_key (lq_authorization q)) = Inr (dx_execution_id x)"
    "ex s (dx_execution_id x) = Some x" "pin_reason x q = None" "plan_target_matches q"
    using on(1) rows_law [OF assms(1)] unfolding observe_execution_on
    by (auto simp: load_execution_law [OF assms(1)] rows_valid_def)
  obtain d where nxt: "nxt = x\<lparr>dx_state := ClaimedForAttempt, dx_claimed_at := Some (lq_now q),
      dx_claim_expires_at := Some ?e, dx_claim_digest := Some d, dx_updated_at := lq_now q\<rparr>"
    using apply_execution_claim_form [OF on(2)] by blast
  have row: "ex s' = (ex s)(dx_execution_id x \<mapsto> stored)"
    "stored = nxt\<lparr>dx_created_at := dx_created_at x, dx_revision := dx_revision x + 1\<rparr>"
    using committed_row [OF com] x(2) by (auto simp: ob nxt)
  have pins: "pins stored = pins x" "dx_state stored = ClaimedForAttempt" "dx_claim_expires_at stored = Some ?e"
    "dx_execution_id stored = dx_execution_id x"
    by (simp_all add: row(2) nxt pins_def)
  show "cl_claim_expires_at res = Some ?e" by (simp add: res claimed_answer_def pins)
  have pin: "pin_reason stored q = None"
    by (simp add: pin_reason_pins [OF pins(1)] x(3))
  obtain p auth w where p: "cv s ?i = Some p" "cv_owner p = Some w" "has_same_identity w (lq_owner q)"
    "exact_stored_authorization p (lq_authorization q) = Inr auth"
    "commit_stored tx s q x False p auth = Inr (Inr c)"
    using commitment_read(4) [OF assms(1) auth] by blast
  have "\<exists>p w auth. cv s' ?i = Some p \<and> cv_owner p = Some w \<and> has_same_identity w (lq_owner q) \<and>
      exact_stored_authorization p (lq_authorization q) = Inr auth \<and> ra_status auth = AuthConsumed \<and>
      resumable_for auth (lq_owner q) (resume_request_for q stored False)"
  proof (cases "ra_status auth = AuthConsumed")
    case True
    then have c: "c = None" "resumable_for auth (lq_owner q) (resume_request_for q x False)"
      using p(5) x(2) unfolding commit_stored_on by (auto simp: load_execution_law [OF assms(1)])
    have "resume_request_for q stored False = resume_request_for q x False"
      by (rule resume_request_pins) (use pins resumable_state [OF c(2)] in simp_all)
    moreover have "cv s' = cv s" using com by (simp add: committed_def ob(3) c(1))
    ultimately show ?thesis using p True c(2) by auto
  next
    case False
    let ?b = "auth\<lparr>ra_status := AuthConsumed, ra_updated_at := Some (lq_now q), ra_execution_available := False\<rparr>"
    have cid: "cv_id p = ?i" using context_law [OF assms(1) p(1)] by simp
    have ex: "executable_for auth (lq_owner q) (pn_conversation_id (lq_plan q)) (pn_decision_id (lq_plan q))
        (pn_context_version (lq_plan q)) None (Some (pn_scope_digest (lq_plan q)))
        (Some (pn_proposal_id (lq_plan q))) (Some (pn_proposal_version (lq_plan q)))"
      and c: "c = Some \<lparr>cm_conversation_id = ?i, cm_owner = lq_owner q,
        cm_request = consume_request_of (lq_authorization q), cm_expected_version = cx_version p, cm_now = lq_now q\<rparr>"
      using p(5) False exact_stored_member [OF p(4)] cid unfolding commit_stored_on
      by (auto simp: consume_request_of_def)
    obtain u where u: "consume_exact_research_authorization p (lq_owner q) (consume_request_of (lq_authorization q))
        (lq_now q) = Inr u" "cv s' = (cv s)(?i \<mapsto> stored_context cfg u (cx_version p + 1))"
      using com p(1) by (auto simp: committed_def ob(3) c consumed_effect_def)
    have "resumable_for ?b (lq_owner q) (resume_request_for q stored False)"
      by (rule resume_of_executable [OF ex p(4) plan pin pins(2)]) (simp add: x(1) pins(4))
    then show ?thesis
      using consumed_stored [OF p(4) u(1), of cfg "cx_version p + 1"] p(2,3) u(2) by auto
  qed
  then show "claim_left q (ex s', br s', cv s') ?e"
    unfolding claim_left_def fst_conv snd_conv
    using pins x(1,4) pin row(1) by (intro exI [of _ stored]) auto
qed

lemma left_excludes:
  assumes "ok s" and "claim_left q (ex s, br s, cv s) e"
    and "lq_authorization q' = lq_authorization q" and "dt_less (lq_now q') e = Some True"
    and run: "claim tx leases tokens (\<lambda>s. s) (\<lambda>s. s) fault s q' = (s', Inr res)"
  shows "\<not> cl_claimed res"
proof
  assume claimed: "cl_claimed res"
  obtain ob stored acquired where "observe_claim tx leases tokens (\<lambda>s. s) s q' = (s, Inr (Inr ob))"
    "committed cfg clk ob (ex s, br s, cv s) (ex s', br s', cv s') stored acquired"
    using assms(1) assms(1) assms(1) run by (cases rule: claims) (use claimed in auto)
  then have "claim_permitted q' (ex s, br s, cv s)"
    using claim_effect(1) [of s "\<lambda>s. s"] assms(1) by blast
  then show False
    using assms(2-4) unfolding claim_permitted_def claim_left_def
    by (auto simp: claim_is_active_def claim_less_def)
qed

lemma left_taken_over:
  assumes "ok s" and left: "claim_left q (ex s, br s, cv s) e" and same: "same_claim q q'"
    and "is_aware (lq_now q')" and "dt_less (lq_now q') e = Some False"
    and gates: "spec_load (br s) (lq_provider_id q') (lq_market q') (lq_now q') = Inr brk"
      "gate_reason q' brk = Inr None" "request_permission q' brk = Inr dec" "ps_state (decision_breaker dec) = CLOSED"
    and alive: "\<And>p. cv s (ra_conversation_id (lq_authorization q')) = Some p \<Longrightarrow> is_expired clk p = Inr False"
    and "0 < execution_lease leases" and "16 \<le> length (fst tokens)"
  shows "\<exists>s' res. claim tx leases tokens (\<lambda>s. s) (\<lambda>s. s) None s q' = (s', Inr res) \<and> cl_claimed res \<and>
    \<not> cl_authorization_consumed res \<and> cl_claim_capability res = Some (fst tokens) \<and>
    cl_claim_expires_at res = Some (plus_micros (lq_now q') (execution_lease leases)) \<and> cv s' = cv s"
proof -
  obtain x p w auth where x:
    "authorized_execution_id (ra_idempotency_key (lq_authorization q)) = Inr (dx_execution_id x)"
    "ex s (dx_execution_id x) = Some x" "dx_state x = ClaimedForAttempt" "dx_claim_expires_at x = Some e"
    "pin_reason x q = None" "plan_target_matches q"
    "cv s (ra_conversation_id (lq_authorization q)) = Some p" "cv_owner p = Some w"
    "has_same_identity w (lq_owner q)" "exact_stored_authorization p (lq_authorization q) = Inr auth"
    "ra_status auth = AuthConsumed" "resumable_for auth (lq_owner q) (resume_request_for q x False)"
    using left unfolding claim_left_def by auto
  obtain d where d: "execution_claim_digest (fst tokens) = Inr d"
    using assms(12) by (simp add: execution_claim_digest_def)
  note eqs = same [unfolded same_claim_def]
  have "pin_reason x q' = None" "plan_target_matches q'" "resume_request_for q' x False = resume_request_for q x False"
    using x(5,6) eqs by (simp_all add: pin_reason_def plan_target_matches_def resume_request_for_def Let_def)
  moreover have "claim_is_active x (lq_now q') = Inr False"
    using x(3,4) assms(5) by (simp add: claim_is_active_def claim_less_def)
  ultimately show ?thesis
    using x eqs alive by (intro reclaim [OF assms(1) _ x(2,3) _ _ _ gates _ _ x(8) _ _ _ _ assms(4,11) d]) simp_all
qed

end

section \<open>The properties\<close>

definition table_view :: "'f claim_tables \<Rightarrow> 'f claim_view" where
  "table_view s = (op_exec_view (ct_executions s), op_rel_view (ct_breakers s), op_conv_view (ct_conversations s))"

definition row_view :: "'f claim_rows \<Rightarrow> 'f claim_view" where
  "row_view s = (dict_get (cr_executions s), dict_get (cr_breakers s), dict_get (cr_conversations s))"

text \<open>\<open>seen\<close> is what the observation read, \<open>before\<close> what the writes found.\<close>

definition claim_settled ::
  "conv_settings \<Rightarrow> datetime \<Rightarrow> claim_leases \<Rightarrow> string \<Rightarrow> 'd claim_request \<Rightarrow> 'f claim_view \<Rightarrow> 'f claim_view
     \<Rightarrow> 'f claim_view \<Rightarrow> 'f claim_view \<Rightarrow> claim_result \<Rightarrow> bool" where
  "claim_settled cfg clk leases token q seen read before after res =
     (if cl_claimed res then claim_permitted q seen \<and> claim_written cfg clk leases token q before after res
      else \<exists>b\<in>{seen, read, before}. rows_kept clk b after)"

context claim_store
begin

lemma settles:
  assumes "ok s" and "ok (mid s)" and "ok (lat (mid s))" and "claim tx leases tokens mid lat fault s q = (s', Inr res)"
  shows "ok s' \<and> claim_settled cfg clk leases (fst tokens) q (ex s, br s, cv s) (ex (mid s), br (mid s), cv (mid s))
    (ex (lat (mid s)), br (lat (mid s)), cv (lat (mid s))) (ex s', br s', cv s') res"
  using assms
proof (cases rule: claims)
  case (refused res' b)
  then show ?thesis by (auto simp: claim_settled_def)
next
  case (claimed ob stored acquired)
  note eff = claim_effect [of s mid leases tokens q ob, OF assms(1,2) claimed(1,4)]
  have "cl_claimed res" using claimed(2) by (simp add: claimed_answer_def)
  then show ?thesis using eff claimed(2,3) by (simp add: claim_settled_def)
qed simp

end

lemma op_claim_raises:
  assumes "op_tx_ok cfg s" and "op_tx_ok cfg (mid s)" and "op_tx_ok cfg (lat (mid s))"
    and "claim (operational_claim_transaction cfg clk) leases tokens mid lat fault s q = (s', Inl e)"
  shows "s' \<in> {mid s, lat (mid s)}"
  using assms
proof (cases rule: op_claim.claims)
  case (raised e' w b)
  then show ?thesis by (auto simp: op_tx_pending_def operational_claim_transaction_def)
qed simp_all

text \<open>
  C4: a claim is everything or nothing, whatever others commit while it runs and wherever the database
  fails.  An answer that says claimed was given only where the execution read was pinned to the plan, unclaimed and
  behind open gates; then the row of that execution carries the claim, its lease and the digest of the capability, at
  the next revision, the breaker has at most its probe lease, and the conversation has at most this authorization
  consumed, as the answer says.  Any other answer leaves the rows as they were at one of the three moments, but for
  an expired conversation that a read dropped.  An exception leaves the tables as others committed them.
\<close>

theorem claim_all_or_nothing:
  fixes s :: "'f claim_tables" and u :: "'f claim_rows"
  assumes "op_tx_ok cfg s" and "op_tx_ok cfg (mid s)" and "op_tx_ok cfg (lat (mid s))"
    and "mem_tx_ok cfg u" and "mem_tx_ok cfg (mid' u)" and "mem_tx_ok cfg (lat' (mid' u))"
    and "claim (operational_claim_transaction cfg clk) leases tokens mid lat fault s q = (s', r)"
    and "claim (in_memory_claim_transaction cfg clk) leases tokens mid' lat' fault u q = (u', r')"
  shows "(case r of
      Inr res \<Rightarrow> op_tx_ok cfg s' \<and> claim_settled cfg clk leases (fst tokens) q (table_view s) (table_view (mid s))
        (table_view (lat (mid s))) (table_view s') res
    | Inl e \<Rightarrow> s' \<in> {mid s, lat (mid s)}) \<and>
    (case r' of
      Inr res \<Rightarrow> mem_tx_ok cfg u' \<and> claim_settled cfg clk leases (fst tokens) q (row_view u) (row_view (mid' u))
        (row_view (lat' (mid' u))) (row_view u') res
    | Inl e \<Rightarrow> True)"
  using op_claim.settles [of cfg s mid lat clk leases tokens fault q s'] op_claim_raises [of cfg s mid lat clk leases
      tokens fault q s'] mem_claim.settles [of cfg u mid' lat' clk leases tokens fault q u'] assms
  by (auto simp: table_view_def row_view_def split: sum.split)

text \<open>
  C5: of any number of claims of one execution that all looked before the first of them wrote, at most
  one is told that it holds the claim, with either transaction.
\<close>

theorem claim_race_one_winner:
  assumes "\<forall>(tokens, q)\<in>set qs. authorized_execution_id (ra_idempotency_key (lq_authorization q)) = Inr i"
    and "op_tx_ok cfg s" and "claim_racing (operational_claim_transaction cfg clk) leases s qs = (s', Inr rs)"
    and "mem_tx_ok cfg u" and "claim_racing (in_memory_claim_transaction cfg clk) leases u qs = (u', Inr rs')"
  shows "length (filter cl_claimed rs) \<le> 1 \<and> length (filter cl_claimed rs') \<le> 1"
  using op_claim.racing_once [OF assms(3,2,1)] mem_claim.racing_once [OF assms(5,4,1)] by simp

text \<open>
  C6: a claim cannot be taken before its lease ends, and can be taken after it.  Where the process that
  claimed has died, every later claim of the same authorization is refused up to the end of the lease; from then on
  the same request, with its gates open and its conversation unexpired, claims the execution again with a new
  capability and a new lease, and leaves the consumed authorization as it is.
\<close>

theorem claim_hands_over:
  fixes s :: "'f claim_tables"
  assumes "op_tx_ok cfg s" and "pn_scope_digest (lq_plan q) \<noteq> []" and "pn_proposal_id (lq_plan q) \<noteq> []"
    and "claim (operational_claim_transaction cfg clk) leases tokens (\<lambda>s. s) (\<lambda>s. s) fault s q = (s1, Inr res)"
    and "cl_claimed res" and "same_claim q q2" and "is_aware (lq_now q2)"
  shows "\<exists>e. cl_claim_expires_at res = Some e \<and>
    (dt_less (lq_now q2) e = Some True \<longrightarrow> (\<forall>clk2 leases2 tokens2 fault2 s2 res2.
       claim (operational_claim_transaction cfg clk2) leases2 tokens2 (\<lambda>s. s) (\<lambda>s. s) fault2 s1 q2 = (s2, Inr res2) \<longrightarrow>
       \<not> cl_claimed res2)) \<and>
    (dt_less (lq_now q2) e = Some False \<longrightarrow> (\<forall>clk2 leases2 tokens2 brk dec.
       op_rel_load (ct_breakers s1) (lq_provider_id q2) (lq_market q2) (lq_now q2) = Inr brk \<and>
       gate_reason q2 brk = Inr None \<and> request_permission q2 brk = Inr dec \<and>
       ps_state (decision_breaker dec) = CLOSED \<and>
       (\<forall>p. op_conv_view (ct_conversations s1) (ra_conversation_id (lq_authorization q2)) = Some p \<longrightarrow>
          is_expired clk2 p = Inr False) \<and>
       0 < execution_lease leases2 \<and> 16 \<le> length (fst tokens2) \<longrightarrow>
       (\<exists>s2 res2. claim (operational_claim_transaction cfg clk2) leases2 tokens2 (\<lambda>s. s) (\<lambda>s. s) None s1 q2 =
            (s2, Inr res2) \<and> cl_claimed res2 \<and> \<not> cl_authorization_consumed res2 \<and>
          cl_claim_capability res2 = Some (fst tokens2) \<and>
          cl_claim_expires_at res2 = Some (plus_micros (lq_now q2) (execution_lease leases2)) \<and>
          op_conv_view (ct_conversations s2) = op_conv_view (ct_conversations s1))))"
proof (intro exI [of _ "plus_micros (lq_now q) (execution_lease leases)"] conjI impI allI, goal_cases)
  note leaves = op_claim.claim_leaves [OF assms(1,4,5,2,3)]
  case 1
  show ?case by (rule leaves(2))
next
  note leaves = op_claim.claim_leaves [OF assms(1,4,5,2,3)]
  case (2 clk2 leases2 tokens2 fault2 s2 res2)
  then show ?case
    using op_claim.left_excludes [OF leaves(1,3) _ 2] assms(6) by (simp add: same_claim_def)
next
  note leaves = op_claim.claim_leaves [OF assms(1,4,5,2,3)]
  case (3 clk2 leases2 tokens2 brk dec)
  have "spec_load (op_rel_view (ct_breakers s1)) (lq_provider_id q2) (lq_market q2) (lq_now q2) = Inr brk"
    using 3 op_claim.load_breaker_law [OF leaves(1)] by (simp add: operational_claim_transaction_def)
  then show ?case
    using 3 by (intro op_claim.left_taken_over [OF leaves(1,3) assms(6,7)]) auto
qed

section \<open>An example\<close>

text \<open>A claim that ran out, over an authorization already consumed, in a table and in process memory.\<close>

definition claim_owner :: conversation_owner where
  "claim_owner = example_owner\<lparr>owner_expires_at := Aware 1000000000\<rparr>"

definition spent_authorization :: research_authorization where
  "spent_authorization = (fresh_authorization example_proposal claim_owner ''conv'' (Aware 0) ''auth'')
     \<lparr>ra_status := AuthConsumed, ra_updated_at := Some (Aware 0), ra_execution_available := False\<rparr>"

definition claim_conversation :: "int conversation_context" where
  "claim_conversation = first_context\<lparr>cv_owner := Some claim_owner, cv_authorizations := [spent_authorization],
     cx_expires_at := Aware 1000000000\<rparr>"

definition claim_plan :: execution_plan where
  "claim_plan =
     \<lparr>pn_plan_id = ''plan'', pn_plan_version = 1, pn_authorization_id = ''auth'', pn_authorization_version = 1,
      pn_decision_id = ''dec'', pn_context_version = 1, pn_conversation_id = ''conv'', pn_proposal_id = ''prop'',
      pn_proposal_version = 1, pn_scope_digest = proposal_digest example_proposal,
      pn_required_capabilities = [CurrentPricing],
      pn_eligible_steps = [\<lparr>st_step_index = 1, st_provider_id = ''p'', st_provider_type = Merchant,
        st_capability = CurrentPricing, st_source_identities = [''shop''], st_market = Some ''SG'',
        st_certification_id = ''cert-p'', st_certification_version = ''v1'',
        st_selection_reason = ''certified_capability_market_source'', st_attempted = False\<rparr>],
      pn_blocked_requirements = [], pn_eligibility_audit = [], pn_support_status = ''ready'', pn_plan_digest = [],
      pn_outside_set_product_names = [], pn_requested_sources = [], pn_market = Some example_market,
      pn_execution_available = False, pn_execution_implemented = False, pn_plan_ready = True,
      pn_source_checked = False, pn_attempted = False\<rparr>"

definition claim_example :: "datetime \<Rightarrow> int claim_request" where
  "claim_example now =
     \<lparr>lq_authorization = spent_authorization, lq_owner = claim_owner, lq_plan = claim_plan, lq_provider_id = ''p'',
      lq_market = ''SG'', lq_capability = CurrentPricing, lq_source = ''shop'', lq_now = now, lq_status = AVAILABLE,
      lq_kill_switch = \<lparr>engaged = False, kill_reason = None\<rparr>,
      lq_registry = example_registry [example_provider ''p'' None], lq_certifications = example_certs [''p''],
      lq_routing = \<lparr>rc_allow_test_policies = False, rc_records =
        [(''p'', \<lparr>rt_provider_id = ''p'', rt_routing_priority = 1, rt_test_fixture = False\<rparr>)]\<rparr>,
      lq_markets = {''SG''}, lq_mode = ''live''\<rparr>"

definition claim_key :: string where
  "claim_key = ''research-exec:'' @ take 32 (stable_sha256 (JObj
     [(''kind'', JStr ''sprint38_authorized_execution_v1''),
      (''authorization_idempotency_key'', JStr (ra_idempotency_key spent_authorization))]))"

definition stale_row :: durable_execution where
  "stale_row = claimed_row (new_execution
     \<lparr>bq_authorization_idempotency_key = ra_idempotency_key spent_authorization, bq_decision_id = ''dec'',
      bq_plan_id = ''plan'', bq_authorization_id = ''auth'', bq_authorization_version = 1, bq_now = Aware 0\<rparr> claim_key)
     (Aware 0) 1000000 (stable_sha256 (JObj []))"

definition claim_tables_example :: "int claim_tables" where
  "claim_tables_example =
     \<lparr>ct_executions = [(claim_key, \<lparr>op_payload = stale_row, op_seq = 1, op_owner = None\<rparr>)], ct_breakers = [],
      ct_conversations = [(''conv'', \<lparr>op_payload = claim_conversation, op_seq = 1, op_owner = None\<rparr>)]\<rparr>"

definition claim_rows_example :: "int claim_rows" where
  "claim_rows_example =
     \<lparr>cr_executions = [(claim_key, stale_row)], cr_breakers = [], cr_conversations = [(''conv'', claim_conversation)]\<rparr>"

lemma claim_key_derived: "authorized_execution_id (ra_idempotency_key spent_authorization) = Inr claim_key"
  by (simp add: authorized_execution_id_def claim_key_def spent_authorization_def fresh_authorization_def)

lemma stale_row_valid: "valid_execution stale_row" "dx_execution_id stale_row = claim_key"
  "dx_state stale_row = ClaimedForAttempt" "dx_claim_expires_at stale_row = Some (Aware 1000000)"
  "dx_revision stale_row = 1"
proof -
  let ?b = "new_execution \<lparr>bq_authorization_idempotency_key = ra_idempotency_key spent_authorization,
    bq_decision_id = ''dec'', bq_plan_id = ''plan'', bq_authorization_id = ''auth'', bq_authorization_version = 1,
    bq_now = Aware 0\<rparr> claim_key"
  have b: "valid_execution ?b" "dx_state ?b = PreparedUnavailable" "dx_revision ?b = 1" "dx_created_at ?b = Aware 0"
    by (simp_all add: valid_execution_def check_execution_def new_execution_def starts_with_iff claim_key_def
      validate_claim_fields_def validate_attempt_fields_def no_attempt_facts_def attempt_identity_def blank_def)
  show "valid_execution stale_row"
    using claimed_row_valid [OF b(1), of "Aware 0" 1000000 "stable_sha256 (JObj [])" 1] b
    by (simp add: stale_row_def) (simp add: claimed_row_def new_execution_def)
qed (simp_all add: stale_row_def claimed_row_def new_execution_def)

lemma claim_conversation_ok: "cv_id claim_conversation = ''conv''"
  "well_formed default_conv_settings claim_conversation" "cx_version claim_conversation = 1"
  by (simp_all add: claim_conversation_def well_formed_def require_context_membership_def example_defs)

lemma claim_tables_ok: "op_tx_ok default_conv_settings claim_tables_example"
  "table_view claim_tables_example = ([claim_key \<mapsto> stale_row], Map.empty, [''conv'' \<mapsto> claim_conversation])"
  using stale_row_valid claim_conversation_ok
  by (auto simp: op_tx_ok_def claim_tables_example_def op_exec_ok_def op_rel_ok_def op_conv_ok_def dict_ok_def
    op_exec_view_def op_rel_view_def op_conv_view_def rows_valid_def stored_ok_def table_view_def fun_eq_iff)

lemma claim_rows_ok: "mem_tx_ok default_conv_settings claim_rows_example"
  "row_view claim_rows_example = ([claim_key \<mapsto> stale_row], Map.empty, [''conv'' \<mapsto> claim_conversation])"
  using stale_row_valid claim_conversation_ok
  by (auto simp: mem_tx_ok_def claim_rows_example_def mem_exec_ok_def mem_rel_ok_def mem_conv_ok_def dict_ok_def
    rows_valid_def stored_ok_def row_view_def fun_eq_iff)

definition closed_row :: "int \<Rightarrow> provider_state" where
  "closed_row n =
     \<lparr>ps_provider_id = ''p'', ps_market = ''SG'', ps_updated_at = Aware n, ps_state = CLOSED, failures = 0,
      last_failure_category = None, opened_at = None, last_attempt_at = None, last_success_at = None,
      reopen_at = None, ps_revision = 0, probe_digest = None, probe_claimed_at = None, probe_expires_at = None\<rparr>"

lemma claim_breaker: "spec_load Map.empty ''p'' ''SG'' (Aware n) = Inr (closed_row n)"
proof -
  have "ident_ok ''p'' ''SG''" by code_simp
  then have "reliability_record_key ''p'' ''SG'' = Inr ''p|SG''" using record_key_of_ident [of "''p''" "''SG''"] by simp
  moreover have "valid_state (closed_row n)"
    using \<open>ident_ok ''p'' ''SG''\<close> by (simp add: closed_row_def valid_defs)
  then have "check_state (closed_row n) = Inr (closed_row n)" by (rule check_valid)
  ultimately show ?thesis
    by (simp add: spec_load_def closed_reliability_state_def closed_row_def)
qed

lemma claim_permission:
  "request_permission (claim_example (Aware n)) (closed_row n) =
     Inr \<lparr>execution_permitted = True, block_reason = None, decision_breaker = closed_row n\<rparr>"
proof -
  have "effective_status (claim_example (Aware n)) = AVAILABLE" "\<not> engaged (effective_kill_switch (claim_example (Aware n)))"
    by (simp_all add: effective_status_def effective_kill_switch_def claim_example_def example_registry_def
      registry_get_def example_provider_def)
  then show ?thesis
    by (simp add: request_permission_def assess_execution_permission_def require_aware_def claim_example_def
      advance_recovery_def closed_row_def check_decision_def)
qed

lemma claim_gate: "gate_reason (claim_example (Aware n)) (closed_row n) = Inr None"
proof -
  let ?q = "claim_example (Aware n)"
  let ?t = "\<lparr>lt_market = ''SG'', lt_capability = CurrentPricing, lt_source = ''shop''\<rparr>"
  have "serves_target ?t (lq_registry ?q) (lq_routing ?q) (example_certification ''p'')"
    by (simp add: serves_target_def claim_example_def example_registry_def registry_get_def routing_lookup_def
      example_certification_def example_provider_def)
  moreover have "example_certification ''p'' \<in> set (cert_records (lq_certifications ?q))"
    by (simp add: claim_example_def example_certs_def cert_records_def)
  moreover obtain a where a: "assess_live_research_mode ''live'' ?t (lq_registry ?q) (lq_certifications ?q) (lq_routing ?q)
      {''SG''} True = Inr a" "la_enabled a \<longleftrightarrow> la_reasons a = []"
    "la_enabled a \<longleftrightarrow> list_ex (\<lambda>r. ct_capability r = CurrentPricing \<and> ct_market r = ''SG'' \<and> ct_source r = Some ''shop'' \<and>
      ct_source_scope r = Exact \<and> ct_status r = Certified \<and> ct_policy r = Allowed \<and> \<not> ct_test_fixture r \<and>
      serves_target ?t (lq_registry ?q) (lq_routing ?q) r) (cert_records (lq_certifications ?q))"
    using live_gate_verdict [of "''live''" ?t "lq_registry ?q" "lq_certifications ?q" "lq_routing ?q" "{''SG''}" True]
    by auto
  ultimately have "la_enabled a" "la_reasons a = []"
    by (auto simp: list_ex_iff example_certification_def intro!: bexI)
  moreover have "lq_mode ?q = ''live''" "lq_market ?q = ''SG''" "lq_capability ?q = CurrentPricing"
    "lq_source ?q = ''shop''" "lq_markets ?q = {''SG''}"
    by (simp_all add: claim_example_def)
  ultimately show ?thesis
    unfolding gate_reason_def claim_permission by (simp add: a(1) Let_def)
qed

lemma claim_example_fields:
  "lq_authorization (claim_example now) = spent_authorization" "lq_owner (claim_example now) = claim_owner"
  "lq_plan (claim_example now) = claim_plan" "lq_provider_id (claim_example now) = ''p''"
  "lq_market (claim_example now) = ''SG''" "lq_now (claim_example now) = now"
  "ra_conversation_id spent_authorization = ''conv''" "pin_reason stale_row (claim_example now) = None"
  "plan_target_matches (claim_example now)" "cv_owner claim_conversation = Some claim_owner"
  "exact_stored_authorization claim_conversation spent_authorization = Inr spent_authorization"
  "ra_status spent_authorization = AuthConsumed"
  by (simp_all add: claim_example_def spent_authorization_def fresh_authorization_def pin_reason_def claim_plan_def
    stale_row_def claimed_row_def new_execution_def example_proposal_def plan_target_matches_def claim_conversation_def
    exact_stored_authorization_def Let_def)

lemma claim_resumes: "resumable_for spent_authorization claim_owner (resume_request_for (claim_example now) stale_row False)"
  using claim_key_derived stale_row_valid
  by (simp add: resumable_for_def resume_request_for_def claim_example_fields claim_plan_def)
    (simp add: spent_authorization_def fresh_authorization_def stale_row_def claimed_row_def new_execution_def
      example_proposal_def)

lemma claim_unexpired: "n < 1000000000 \<Longrightarrow> is_expired (Aware n) claim_conversation = Inr False"
  by (simp add: claim_conversation_def claim_owner_def is_expired_def dt_at_most_def)

lemma claim_same_identity: "has_same_identity claim_owner claim_owner"
  by (simp add: has_same_identity_def)

definition token_digest :: "string \<Rightarrow> string" where
  "token_digest token = stable_sha256 (JObj [(''kind'', JStr ''sprint38_execution_claim_v1''), (''capability'', JStr token)])"

lemma token_digest: "16 \<le> length token \<Longrightarrow> execution_claim_digest token = Inr (token_digest token)"
  by (simp add: execution_claim_digest_def token_digest_def)

lemma stale_inactive: "1000000 \<le> n \<Longrightarrow> claim_is_active stale_row (Aware n) = Inr False"
  by (simp add: claim_is_active_def stale_row_valid claim_less_def)

lemma tables_fields:
  "op_exec_view (ct_executions claim_tables_example) = [claim_key \<mapsto> stale_row]"
  "op_rel_view (ct_breakers claim_tables_example) = Map.empty"
  "op_conv_view (ct_conversations claim_tables_example) = [''conv'' \<mapsto> claim_conversation]"
  "dict_get (cr_executions claim_rows_example) = [claim_key \<mapsto> stale_row]"
  "dict_get (cr_breakers claim_rows_example) = Map.empty"
  "dict_get (cr_conversations claim_rows_example) = [''conv'' \<mapsto> claim_conversation]"
  using claim_tables_ok(2) claim_rows_ok(2) by (simp_all only: table_view_def row_view_def prod.inject)

lemma example_observed:
  assumes "1000000 \<le> n" and "n < 1000000000" and "0 < execution_lease leases" and "16 \<le> length (fst tokens)"
  shows "observe (operational_claim_transaction default_conv_settings (Aware n)) leases tokens (\<lambda>s. s) None
      claim_tables_example (claim_example (Aware n)) = (claim_tables_example, Inr (Inr (plain_observation stale_row
        (Aware n) (execution_lease leases) (token_digest (fst tokens)) (fst tokens))))"
    and "observe (in_memory_claim_transaction default_conv_settings (Aware n)) leases tokens (\<lambda>s. s) None
      claim_rows_example (claim_example (Aware n)) = (claim_rows_example, Inr (Inr (plain_observation stale_row
        (Aware n) (execution_lease leases) (token_digest (fst tokens)) (fst tokens))))"
  using op_claim.reclaim_observed [OF claim_tables_ok(1), of "claim_example (Aware n)" claim_key stale_row
      "closed_row n" "\<lparr>execution_permitted = True, block_reason = None, decision_breaker = closed_row n\<rparr>"
      claim_conversation "Aware n" claim_owner spent_authorization leases tokens "token_digest (fst tokens)"]
    mem_claim.reclaim_observed [OF claim_rows_ok(1), of "claim_example (Aware n)" claim_key stale_row
      "closed_row n" "\<lparr>execution_permitted = True, block_reason = None, decision_breaker = closed_row n\<rparr>"
      claim_conversation "Aware n" claim_owner spent_authorization leases tokens "token_digest (fst tokens)"]
    assms
  by (simp_all add: claim_example_fields tables_fields claim_key_derived stale_row_valid stale_inactive claim_breaker
      claim_gate claim_permission claim_unexpired claim_same_identity claim_resumes token_digest)
    (simp_all add: closed_row_def)

lemma example_finishes:
  assumes "1000000 \<le> n" and "n < 1000000000" and "0 < execution_lease leases" and "16 \<le> length (fst tokens)"
  defines "ob \<equiv> plain_observation stale_row (Aware n) (execution_lease leases) (token_digest (fst tokens)) (fst tokens)"
  shows "\<exists>s' stored. finish_claim (operational_claim_transaction default_conv_settings (Aware n)) None
      claim_tables_example ob = (s', Inr (claimed_answer ob stored False)) \<and>
    op_tx_ok default_conv_settings s' \<and> op_exec_view (ct_executions s') claim_key = Some stored \<and>
    dx_revision stored = 2 \<and> op_rel_view (ct_breakers s') = Map.empty \<and>
    op_conv_view (ct_conversations s') = [''conv'' \<mapsto> claim_conversation]"
    and "\<exists>s' stored. finish_claim (in_memory_claim_transaction default_conv_settings (Aware n)) None
      claim_rows_example ob = (s', Inr (claimed_answer ob stored False)) \<and>
    mem_tx_ok default_conv_settings s' \<and> dict_get (cr_executions s') claim_key = Some stored \<and> dx_revision stored = 2"
  using op_claim.reclaim_finishes [OF claim_tables_ok(1), of stale_row "Aware n" "execution_lease leases"
      "fst tokens" "token_digest (fst tokens)" "Aware n"]
    mem_claim.reclaim_finishes [OF claim_rows_ok(1), of stale_row "Aware n" "execution_lease leases"
      "fst tokens" "token_digest (fst tokens)" "Aware n"] assms
  by (auto simp: tables_fields stale_row_valid stale_inactive token_digest)

lemma example_claims:
  assumes "1000000 \<le> n" and "n < 1000000000" and "0 < execution_lease leases" and "16 \<le> length (fst tokens)"
  shows "claim (operational_claim_transaction default_conv_settings (Aware n)) leases tokens (\<lambda>s. s) (\<lambda>s. s) None
      claim_tables_example (claim_example (Aware n)) =
    finish_claim (operational_claim_transaction default_conv_settings (Aware n)) None claim_tables_example
      (plain_observation stale_row (Aware n) (execution_lease leases) (token_digest (fst tokens)) (fst tokens))"
    and "claim (in_memory_claim_transaction default_conv_settings (Aware n)) leases tokens (\<lambda>s. s) (\<lambda>s. s) None
      claim_rows_example (claim_example (Aware n)) =
    finish_claim (in_memory_claim_transaction default_conv_settings (Aware n)) None claim_rows_example
      (plain_observation stale_row (Aware n) (execution_lease leases) (token_digest (fst tokens)) (fst tokens))"
  using example_observed [OF assms] by (simp_all add: claim_def)

definition first_tokens :: "string \<times> string" where
  "first_tokens = (''token-0123456789'', ''probe-0123456789'')"

definition second_tokens :: "string \<times> string" where
  "second_tokens = (''token-9876543210'', ''probe-9876543210'')"

lemma example_terms: "16 \<le> length (fst first_tokens)" "16 \<le> length (fst second_tokens)"
  "0 < execution_lease default_claim_leases"
  by (simp_all add: first_tokens_def second_tokens_def default_claim_leases_def)

theorem claim_all_or_nothing_witness:
  "\<exists>s' res u' res'. cl_claimed res \<and> cl_claimed res' \<and>
    claim_written default_conv_settings (Aware 2000000) default_claim_leases (fst first_tokens)
      (claim_example (Aware 2000000)) (table_view claim_tables_example) (table_view s') res \<and>
    claim_written default_conv_settings (Aware 2000000) default_claim_leases (fst first_tokens)
      (claim_example (Aware 2000000)) (row_view claim_rows_example) (row_view u') res'"
proof -
  have n: "1000000 \<le> (2000000 :: int)" "(2000000 :: int) < 1000000000" by simp_all
  note fin = example_finishes [OF n example_terms(3,1), folded example_claims [OF n example_terms(3,1)]]
  obtain s' stored where s': "claim (operational_claim_transaction default_conv_settings (Aware 2000000))
      default_claim_leases first_tokens (\<lambda>s. s) (\<lambda>s. s) None claim_tables_example (claim_example (Aware 2000000)) =
    (s', Inr (claimed_answer (plain_observation stale_row (Aware 2000000) (execution_lease default_claim_leases)
      (token_digest (fst first_tokens)) (fst first_tokens)) stored False))"
    using fin(1) by blast
  obtain u' stored' where u': "claim (in_memory_claim_transaction default_conv_settings (Aware 2000000))
      default_claim_leases first_tokens (\<lambda>s. s) (\<lambda>s. s) None claim_rows_example (claim_example (Aware 2000000)) =
    (u', Inr (claimed_answer (plain_observation stale_row (Aware 2000000) (execution_lease default_claim_leases)
      (token_digest (fst first_tokens)) (fst first_tokens)) stored' False))"
    using fin(2) by blast
  have c: "cl_claimed (claimed_answer ob st b)" for ob st b by (simp add: claimed_answer_def)
  have "claim_written default_conv_settings (Aware 2000000) default_claim_leases (fst first_tokens)
      (claim_example (Aware 2000000)) (table_view claim_tables_example) (table_view s') (claimed_answer
        (plain_observation stale_row (Aware 2000000) (execution_lease default_claim_leases)
          (token_digest (fst first_tokens)) (fst first_tokens)) stored False) \<and>
    claim_written default_conv_settings (Aware 2000000) default_claim_leases (fst first_tokens)
      (claim_example (Aware 2000000)) (row_view claim_rows_example) (row_view u') (claimed_answer
        (plain_observation stale_row (Aware 2000000) (execution_lease default_claim_leases)
          (token_digest (fst first_tokens)) (fst first_tokens)) stored' False)"
    using claim_all_or_nothing [OF claim_tables_ok(1) _ _ claim_rows_ok(1) _ _ s' u']
      claim_tables_ok(1) claim_rows_ok(1)
    by (simp add: claim_settled_def c)
  then show ?thesis using c by blast
qed

theorem claim_race_one_winner_witness:
  "\<exists>s' rs. claim_racing (operational_claim_transaction default_conv_settings (Aware 2000000)) default_claim_leases
      claim_tables_example [(first_tokens, claim_example (Aware 2000000)), (second_tokens, claim_example (Aware 2000000))] =
      (s', Inr rs) \<and> length rs = 2 \<and> length (filter cl_claimed rs) = 1"
proof -
  let ?op = "operational_claim_transaction default_conv_settings (Aware 2000000) :: (int claim_tables, _, int) claim_transaction"
  let ?mem = "in_memory_claim_transaction default_conv_settings (Aware 2000000) :: (int claim_rows, _, int) claim_transaction"
  let ?q = "claim_example (Aware 2000000)"
  let ?ob = "\<lambda>t. plain_observation stale_row (Aware 2000000) (execution_lease default_claim_leases) (token_digest t) t"
  have n: "1000000 \<le> (2000000 :: int)" "(2000000 :: int) < 1000000000" by simp_all
  note obs = example_observed [OF n example_terms(3,1)] example_observed [OF n example_terms(3,2)]
  obtain s1 st where s1: "finish_claim ?op None claim_tables_example (?ob (fst first_tokens)) =
      (s1, Inr (claimed_answer (?ob (fst first_tokens)) st False))" "op_tx_ok default_conv_settings s1"
    "op_exec_view (ct_executions s1) claim_key = Some st" "dx_revision st = 2"
    using example_finishes(1) [OF n example_terms(3,1)] by blast
  obtain s2 res where s2: "finish_claim ?op None s1 (?ob (fst second_tokens)) = (s2, Inr res)"
    using op_claim.stale_claim_refused [OF s1(2), of stale_row st "Aware 2000000"
      "Aware 2000000" "execution_lease default_claim_leases" "token_digest (fst second_tokens)" "fst second_tokens"]
      s1(3,4) by (auto simp: stale_row_valid)
  let ?rs = "[claimed_answer (?ob (fst first_tokens)) st False, res]"
  have race: "claim_racing ?op default_claim_leases claim_tables_example [(first_tokens, ?q), (second_tokens, ?q)] =
      (s2, Inr ?rs)"
    by (simp add: claim_racing_def obs s1(1) s2)
  obtain u1 st' where u1: "finish_claim ?mem None claim_rows_example (?ob (fst first_tokens)) =
      (u1, Inr (claimed_answer (?ob (fst first_tokens)) st' False))" "mem_tx_ok default_conv_settings u1"
    "dict_get (cr_executions u1) claim_key = Some st'" "dx_revision st' = 2"
    using example_finishes(2) [OF n example_terms(3,1)] by blast
  obtain u2 res' where u2: "finish_claim ?mem None u1 (?ob (fst second_tokens)) = (u2, Inr res')"
    using mem_claim.stale_claim_refused [OF u1(2), of stale_row st' "Aware 2000000"
      "Aware 2000000" "execution_lease default_claim_leases" "token_digest (fst second_tokens)" "fst second_tokens"]
      u1(3,4) by (auto simp: stale_row_valid)
  have race': "claim_racing ?mem default_claim_leases claim_rows_example [(first_tokens, ?q), (second_tokens, ?q)] =
      (u2, Inr [claimed_answer (?ob (fst first_tokens)) st' False, res'])"
    by (simp add: claim_racing_def obs u1(1) u2)
  have "\<forall>(tokens, q)\<in>set [(first_tokens, ?q), (second_tokens, ?q)].
      authorized_execution_id (ra_idempotency_key (lq_authorization q)) = Inr claim_key"
    by (simp add: claim_example_fields claim_key_derived)
  from claim_race_one_winner [OF this claim_tables_ok(1) race claim_rows_ok(1) race']
  show ?thesis by (intro exI [of _ s2] exI [of _ ?rs]) (simp add: race claimed_answer_def split: if_splits)
qed

theorem claim_hands_over_witness:
  "\<exists>s1 res s2 res2.
    claim (operational_claim_transaction default_conv_settings (Aware 2000000)) default_claim_leases first_tokens
      (\<lambda>s. s) (\<lambda>s. s) None claim_tables_example (claim_example (Aware 2000000)) = (s1, Inr res) \<and> cl_claimed res \<and>
    claim (operational_claim_transaction default_conv_settings (Aware 40000000)) default_claim_leases second_tokens
      (\<lambda>s. s) (\<lambda>s. s) None s1 (claim_example (Aware 40000000)) = (s2, Inr res2) \<and> cl_claimed res2"
proof -
  let ?q2 = "claim_example (Aware 40000000)"
  let ?ob = "plain_observation stale_row (Aware 2000000) (execution_lease default_claim_leases)
    (token_digest (fst first_tokens)) (fst first_tokens)"
  have n: "1000000 \<le> (2000000 :: int)" "(2000000 :: int) < 1000000000" by simp_all
  obtain s1 stored where s1: "claim (operational_claim_transaction default_conv_settings (Aware 2000000))
      default_claim_leases first_tokens (\<lambda>s. s) (\<lambda>s. s) None claim_tables_example (claim_example (Aware 2000000)) =
      (s1, Inr (claimed_answer ?ob stored False))"
    "op_tx_ok default_conv_settings s1" "op_rel_view (ct_breakers s1) = Map.empty"
    "op_conv_view (ct_conversations s1) = [''conv'' \<mapsto> claim_conversation]"
    using example_finishes(1) [OF n example_terms(3,1), folded example_claims(1) [OF n example_terms(3,1)]] by blast
  have brk: "op_rel_load (ct_breakers s1) ''p'' ''SG'' (Aware 40000000) = Inr (closed_row 40000000)"
    using op_claim.load_breaker_law [OF s1(2), where clk = "Aware 0"] s1(3) claim_breaker
    by (simp add: operational_claim_transaction_def)
  have hyps: "pn_scope_digest (lq_plan (claim_example (Aware 2000000))) \<noteq> []"
    "pn_proposal_id (lq_plan (claim_example (Aware 2000000))) \<noteq> []"
    "cl_claimed (claimed_answer ?ob stored False)" "same_claim (claim_example (Aware 2000000)) ?q2" "is_aware (lq_now ?q2)"
    by (simp_all add: claim_example_fields claim_plan_def claimed_answer_def same_claim_def)
      (simp_all add: claim_example_def)
  let ?dec = "\<lparr>execution_permitted = True, block_reason = None, decision_breaker = closed_row 40000000\<rparr>"
  from claim_hands_over [OF claim_tables_ok(1) hyps(1,2) s1(1) hyps(3-5)]
  have "\<exists>s2 res2. claim (operational_claim_transaction default_conv_settings (Aware 40000000)) default_claim_leases
      second_tokens (\<lambda>s. s) (\<lambda>s. s) None s1 ?q2 = (s2, Inr res2) \<and> cl_claimed res2"
  proof (elim exE conjE, goal_cases)
    case (1 e)
    have "e = Aware 32000000"
      using op_claim.claim_leaves(2) [OF claim_tables_ok(1) s1(1) hyps(3,1,2)] 1(1)
      by (simp add: claim_example_fields default_claim_leases_def)
    then have late: "dt_less (lq_now ?q2) e = Some False" by (simp add: claim_example_fields)
    have "\<exists>s2 res2. claim (operational_claim_transaction default_conv_settings (Aware 40000000)) default_claim_leases
        second_tokens (\<lambda>s. s) (\<lambda>s. s) None s1 ?q2 = (s2, Inr res2) \<and> cl_claimed res2 \<and>
        \<not> cl_authorization_consumed res2 \<and> cl_claim_capability res2 = Some (fst second_tokens) \<and>
        cl_claim_expires_at res2 = Some (plus_micros (lq_now ?q2) (execution_lease default_claim_leases)) \<and>
        op_conv_view (ct_conversations s2) = op_conv_view (ct_conversations s1)"
      by (rule 1(3) [rule_format, OF late, of "closed_row 40000000" ?dec])
        (simp add: claim_example_fields brk claim_gate claim_permission s1(4) claim_unexpired example_terms,
          simp add: closed_row_def)
    then show ?case by blast
  qed
  then show ?thesis using s1(1) hyps(3) by blast
qed

end
