(* ===== verification/LiveAttemptProps.thy ===== *)
theory LiveAttemptProps
  imports LiveSystem LiveStartProps
begin

text \<open>
  The properties of an attempt on the two transactions: at most one call per execution, made exactly when it is
  granted, its outcome stored whole or not at all, and a lost outcome that can be closed.
\<close>

section \<open>The two transactions\<close>

interpretation op_attempt: closing_store "operational_claim_transaction cfg clk" cfg clk "op_tx_ok cfg"
  "\<lambda>s. op_exec_view (ct_executions s)" "\<lambda>s. op_rel_view (ct_breakers s)" "\<lambda>s. op_conv_view (ct_conversations s)"
  op_tx_pending
  for cfg :: conv_settings and clk :: datetime
  by unfold_locales (simp add: operational_claim_transaction_def)

interpretation mem_attempt: closing_store "in_memory_claim_transaction cfg clk" cfg clk "mem_tx_ok cfg"
  "\<lambda>s. dict_get (cr_executions s)" "\<lambda>s. dict_get (cr_breakers s)" "\<lambda>s. dict_get (cr_conversations s)"
  "mem_tx_pending clk"
  for cfg :: conv_settings and clk :: datetime
  by unfold_locales (simp add: in_memory_claim_transaction_def)

section \<open>What the properties say\<close>

definition call_allowed :: "datetime \<Rightarrow> attempt \<Rightarrow> transport \<Rightarrow> datetime \<Rightarrow> 'f claim_view \<Rightarrow> bool" where
  "call_allowed clk a t now v =
     (local_refusal_reason a t = None \<and> is_aware now \<and>
      (\<exists>x. attempt_execution_id a = Inr (dx_execution_id x) \<and> fst v (dx_execution_id x) = Some x \<and>
         attempt_granted clk a now v x))"

text \<open>The answer of the provider, in the execution row and in the breaker.\<close>

definition outcome_stored ::
  "breaker_policy \<Rightarrow> 'p catalog_reader \<Rightarrow> transport \<Rightarrow> attempt \<Rightarrow> prepared_call \<Rightarrow> datetime \<Rightarrow> 'p transport_result
     \<Rightarrow> 'f claim_view \<Rightarrow> 'f claim_view \<Rightarrow> attempt_result \<Rightarrow> bool" where
  "outcome_stored policy rd t a p finished resp b v res =
     (\<exists>it x y brk.
        it = interpret_response rd finished (production_live_evidence_authorized (at_permit a) t) resp \<and>
        fst b (called_execution p) = Some x \<and> still_holds a x finished \<and> outcome_row a t it p finished x y \<and>
        spec_load (fst (snd b)) (st_provider_id (at_step a)) (attempt_market a) finished = Inr brk \<and>
        v = ((fst b)(called_execution p \<mapsto> y),
             (fst (snd b))(ps_provider_id brk @ ''|'' @ ps_market brk \<mapsto>
                breaker_after brk it finished policy\<lparr>ps_revision := ps_revision brk + 1\<rparr>), snd (snd b)) \<and>
        xr_state res = Some (dx_state y) \<and> xr_outcome res = dx_outcome y \<and>
        (xr_verified res \<noteq> None \<longleftrightarrow> it_success it \<and> production_live_evidence_authorized (at_permit a) t))"

definition outcome_settled ::
  "datetime \<Rightarrow> breaker_policy \<Rightarrow> 'p catalog_reader \<Rightarrow> transport \<Rightarrow> attempt \<Rightarrow> prepared_call \<Rightarrow> datetime
     \<Rightarrow> 'p transport_result option \<Rightarrow> 'f claim_view \<Rightarrow> 'f claim_view \<Rightarrow> claim_error + attempt_result \<Rightarrow> bool" where
  "outcome_settled clk policy rd t a p finished response b v r =
     (case r of
        Inr res \<Rightarrow>
          if xr_persisted res then (\<exists>resp. response = Some resp \<and> outcome_stored policy rd t a p finished resp b v res)
          else rows_kept clk b v \<and> xr_verified res = None
      | Inl e \<Rightarrow> rows_kept clk b v)"

definition lost_outcome_closed ::
  "attempt \<Rightarrow> datetime \<Rightarrow> string \<Rightarrow> durable_execution \<Rightarrow> 'f claim_view \<Rightarrow> 'f claim_view \<Rightarrow> attempt_result \<Rightarrow> bool" where
  "lost_outcome_closed a now i x b v res =
     (xr_persisted res \<and> xr_state res = Some OutcomeUnknown \<and> xr_claim_released res \<and> \<not> xr_transport_invoked res \<and>
      (\<exists>y. v = ((fst b)(i \<mapsto> y), snd b) \<and> unknown_row a now x y))"

text \<open>What is answered without a call verifies nothing.\<close>

lemma begin_answer_unverified:
  assumes "begin_call tx fault s a started = (s', Inr (Inl res))"
  shows "xr_verified res = None"
proof -
  have row: "xr_verified res = None" if "start_row tx fault w a started x = (w', Inr (Inl res))" for w w' x
    using that unfolding start_row_def
    by (auto split: option.splits if_splits sum.splits prod.splits claim_error.splits exec_error.splits)
  have "xr_verified res = None" if "begin_attempt tx fault s a started = (w, Inr (Inl res))" for w
    using that row unfolding begin_attempt_def by (auto split: option.splits sum.splits prod.splits)
  then show ?thesis
    using assms unfolding begin_call_def Let_def by (auto split: if_splits sum.splits prod.splits)
qed

lemma execute_unverified:
  assumes "execute tx policy rd t clocks post_json mid faults s a = (s', Inr res, None)"
  shows "xr_verified res = None"
  using assms begin_answer_unverified [of tx "fst faults" s a _ _ res] unfolding execute_def
  by (auto split: option.splits sum.splits prod.splits)

section \<open>The same, from the contract\<close>

context closing_store
begin

lemma calls_exactly:
  assumes "ok s" and "fst faults = None"
    and run: "execute tx policy rd t clocks post_json mid faults s a = (s', r, asked)"
  shows "(asked \<noteq> None \<longleftrightarrow> call_allowed clk a t (fst clocks) (view s)) \<and> (\<forall>p. asked = Some p \<longrightarrow> asks_for a p)"
  using assms(1) run
proof (cases rule: executes)
  case (called p x s1)
  then show ?thesis unfolding call_allowed_def fst_conv by auto
next
  case refused
  have "\<not> call_allowed clk a t (fst clocks) (view s)"
  proof
    assume "call_allowed clk a t (fst clocks) (view s)"
    then obtain x where x: "local_refusal_reason a t = None" "is_aware (fst clocks)"
      "attempt_execution_id a = Inr (dx_execution_id x)" "ex s (dx_execution_id x) = Some x"
      "attempt_granted clk a (fst clocks) (view s) x"
      by (auto simp: call_allowed_def)
    obtain s1 p where "begin_call tx (fst faults) s a (fst clocks) = (s1, Inr (Inr p))"
      using granted_begins [OF assms(1) x(1,3-5)] assms(2) by auto
    then show False
      using run x(1,2) refused(1) by (auto simp: execute_def read_clock_def split: prod.splits)
  qed
  then show ?thesis using refused by simp
qed

lemma settles_outcome:
  assumes "ok s" and fit: "permit_fits a t"
    and run: "settle_call tx policy rd t fault s a p started finished response = (s', r)"
  shows "ok s' \<and> outcome_settled clk policy rd t a p finished response (view s) (view s') r"
  using assms
proof (cases rule: settles_call)
  case kept
  then show ?thesis by (cases r) (simp_all add: outcome_settled_def)
next
  case (stored resp it x y brk)
  have it: "reading_ok it" unfolding stored(2) by (rule interpret_ok)
  have row: "dx_state y = (if it_success it then Completed else Failed)"
    "dx_outcome y = Some (attempt_status_value (it_attempt_status it))"
    "dx_observation_kind y = stored_observation_kind (it_success it) (production_live_evidence_authorized (at_permit a) t)"
    "dx_evaluated_offer_count y = int (length (it_offers it))"
    "dx_normalized_offer_count y = int (length (it_offers it))"
    using stored(7) it by (auto simp: outcome_row_def ended_row_def state_for_def reading_ok_def split: if_splits)
  obtain res where res: "r = Inr res" "xr_persisted res" "xr_state res = Some (dx_state y)" "xr_outcome res = dx_outcome y"
    "xr_verified res \<noteq> None \<longleftrightarrow> it_success it \<and> production_live_evidence_authorized (at_permit a) t"
    using outcome_stands [OF fit it stored(8) row] stored(13) by auto
  have "outcome_stored policy rd t a p finished resp (view s) (view s') res"
    unfolding outcome_stored_def called_execution_def stored(5) [symmetric] fst_conv snd_conv
    using stored(2,4-7,9-12) res
    by (intro exI [of _ it] exI [of _ x] exI [of _ y] exI [of _ brk]) simp
  then show ?thesis using res stored(1,3) by (auto simp: outcome_settled_def)
qed

lemma verifies:
  assumes "ok s" and "\<And>u. ok u \<Longrightarrow> ok (mid u)"
    and run: "execute tx policy rd t clocks post_json mid faults s a = (s', Inr res, asked)"
    and "xr_verified res \<noteq> None"
  shows "at_permit a = ProductionPermit \<and> t = UrllibTransport True \<and> xr_persisted res \<and>
    (\<exists>p resp. asked = Some p \<and> asks_for a p \<and> post_json p = Some resp \<and>
       it_success (interpret_response rd (snd clocks) True resp))"
  using assms(1) run
proof (cases rule: executes)
  case refused
  have "xr_verified res = None"
    by (rule execute_unverified [OF run [unfolded refused(1)]])
  then show ?thesis using assms(4) by simp
next
  case (called p x s1)
  have fit: "permit_fits a t" using local_refusal_on [OF called(2)] by blast
  have "outcome_settled clk policy rd t a p (snd clocks) (post_json p) (view (mid s1)) (view s') (Inr res)"
    using settles_outcome [OF assms(2) [OF called(5)] fit called(14)] by blast
  then obtain resp where "xr_persisted res" "post_json p = Some resp"
    "outcome_stored policy rd t a p (snd clocks) resp (view (mid s1)) (view s') res"
    using assms(4) by (auto simp: outcome_settled_def split: if_splits)
  then show ?thesis
    using assms(4) called(1,10) by (auto simp: outcome_stored_def production_live_evidence_authorized_def)
qed

lemma closes_lost:
  assumes "ok s" and "attempt_execution_id a = Inr i" and "ex s i = Some x" and "lease_over x now" and "is_aware now"
    and "dx_plan_id x = pn_plan_id (at_plan a)" and "local_refusal_reason a t = None"
  shows "\<exists>s' res. reconcile_ambiguous tx None now s a = (s', Inr res) \<and>
    lost_outcome_closed a now i x (view s) (view s') res"
  using reconcile_closes [OF assms(1-4,6) _ _ assms(5)] local_refusal_on [OF assms(7)]
  by (auto simp: lost_outcome_closed_def)

end

text \<open>What a granted attempt leaves when it begins.\<close>

context closing_store
begin

lemma granted_begun:
  assumes "ok s" and a: "local_refusal_reason a t = None" and id: "attempt_execution_id a = Inr (dx_execution_id x)"
    and x: "ex s (dx_execution_id x) = Some x" and granted: "attempt_granted clk a now (view s) x"
  shows "\<exists>s' p. begin_call tx None s a now = (s', Inr (Inr p)) \<and> ok s' \<and> started_from a now x (pc_execution p) \<and>
    view s' = ((ex s)(dx_execution_id x \<mapsto> pc_execution p), br s, cv s)"
proof -
  obtain s' p where beg: "begin_call tx None s a now = (s', Inr (Inr p))"
    using granted_begins [OF assms] by blast
  from assms(1) beg show ?thesis
  proof (cases rule: begins)
    case (begun y q)
    have "y = x" "q = p" using begun(1,3,4) id x by simp_all
    then show ?thesis using beg begun(2,6,8-10) by (intro exI [of _ s'] exI [of _ p]) simp
  next
    case kept
    then show ?thesis using kept(3) [of p] by simp
  qed
qed

end

text \<open>Where the row is still held and the breaker lets the answer in, the outcome lands.\<close>

lemma check_state_key:
  assumes "check_state b = Inr st"
  shows "reliability_record_key (ps_provider_id b) (ps_market b) = Inr (ps_provider_id st @ ''|'' @ ps_market st)"
proof -
  obtain k where k: "reliability_record_key (ps_provider_id b) (ps_market b) = Inr k"
    using assms by (auto simp: check_state_def and_then_Inr_iff)
  then obtain p m where pm: "k = p @ CHR ''|'' # m" "ident_ok p m" using record_key_ident by force
  then have "CHR ''|'' \<notin> set p" by (simp add: ident_ok_def)
  then have "st = b\<lparr>ps_provider_id := p, ps_market := m\<rparr>"
    using assms unfolding check_state_def
    by (auto simp: Let_def and_then_Inr_iff k pm(1) partition_at_first split: breaker.splits if_split_asm)
  then show ?thesis using k pm(1) by simp
qed

lemma loaded_revision:
  assumes "stored_ok m" and "spec_load m prov market now = Inr brk"
  shows "revision_at (m (ps_provider_id brk @ ''|'' @ ps_market brk)) = ps_revision brk"
proof -
  obtain key where key: "reliability_record_key prov market = Inr key"
    "(case m key of None \<Rightarrow> lift_rel (closed_reliability_state prov market now) | Some st \<Rightarrow> Inr st) = Inr brk"
    using assms(2) by (cases "reliability_record_key prov market") (auto simp: spec_load_def)
  show ?thesis
  proof (cases "m key")
    case (Some st)
    then show ?thesis using key(2) assms(1) by (auto simp: stored_ok_def revision_at_def)
  next
    case None
    then have "closed_reliability_state prov market now = Inr brk"
      using key(2) by (cases "closed_reliability_state prov market now") simp_all
    then have "ps_revision brk = 0" "key = ps_provider_id brk @ ''|'' @ ps_market brk"
      using closed_valid check_state_key [of _ brk] key(1) unfolding closed_reliability_state_def by force+
    then show ?thesis using None by (simp add: revision_at_def)
  qed
qed

context closing_store
begin

lemma outcome_lands:
  assumes "ok s" and fit: "permit_fits a t" and a: "at_source a \<noteq> []" "st_market (at_step a) \<noteq> None"
    and x: "ex s (called_execution p) = Some x" "still_holds a x finished" "dx_plan_id x = pn_plan_id (at_plan a)"
      "dx_attempt_started_at x = Some started"
    and time: "is_aware finished" "is_aware started" "micros started \<le> micros finished"
    and brk: "spec_load (br s) (st_provider_id (at_step a)) (attempt_market a) finished = Inr brk"
      "probe_reason brk a finished = Inr None"
      "it_success (interpret_response rd finished (production_live_evidence_authorized (at_permit a) t) resp) \<Longrightarrow>
         ps_state brk \<noteq> OPEN"
  shows "\<exists>s' res. settle_call tx policy rd t None s a p started finished (Some resp) = (s', Inr res) \<and> xr_persisted res"
proof -
  let ?it = "interpret_response rd finished (production_live_evidence_authorized (at_permit a) t) resp"
  let ?obs = "stored_observation_kind (it_success ?it) (production_live_evidence_authorized (at_permit a) t)"
  let ?rec = "ended_row x a started finished (it_attempt_status ?it) (it_error_category ?it) (it_offers ?it)
    (Some (pc_request_digest p)) ?obs"
  let ?nxt = "breaker_after brk ?it finished policy"
  have it: "reading_ok ?it" by (rule interpret_ok)
  have v: "valid_execution x" "dx_execution_id x = called_execution p" "stored_ok (br s)"
    using rows_law [OF assms(1)] x(1) by (auto simp: rows_valid_def)
  have run: "dx_state x = Running" using x(2) by (simp add: still_holds_def)
  obtain c where c: "validate_running_claim x (at_claim_capability a) finished = Inr c" "ac_valid c"
    using x(2) running_claim_on [of x "at_claim_capability a" finished "\<lparr>ac_valid = True, ac_reason = None\<rparr>"]
    by (auto simp: still_holds_def claim_less_on)
  have b: "valid_state brk" "0 \<le> ps_revision brk" using spec_load_valid [OF v(3) brk(1)] by simp_all
  note nxt = next_breaker_stands [OF b(1) time(1) it, of policy]
  note fits = reading_fits [OF it, of "production_live_evidence_authorized (at_permit a) t"]
  have rec: "terminal_record x a finished (it_attempt_status ?it) (it_error_category ?it) (it_offers ?it)
      (Some (pc_request_digest p)) ?obs = Inr ?rec"
    by (rule terminal_record_stands [OF v(1) run x(4,3) fits time(1,3) a])
  have rows: "outcome_rows tx policy t s a p ?it finished = Inr (Inr (?rec, dx_revision x, ?nxt, ps_revision brk))"
    using x(1) run c brk by (auto simp: outcome_rows_def load_execution_law [OF assms(1)] called_execution_def
        load_breaker_law [OF assms(1)] nxt(1) rec)
  obtain w1 q1 where cas: "tx_cas_execution tx (s, tx_begin tx s) ?rec (dx_revision x) = (w1, q1)" by (metis surj_pair)
  have id: "dx_execution_id ?rec = called_execution p" by (simp add: ended_row_def v(2))
  have law: "pending s w1 \<and> ok (fst w1) \<and> br (fst w1) = br s \<and>
      (ex (fst w1), q1) = spec_write (replaced ?rec (dx_revision x)) (ex s) (called_execution p) (dx_revision x)"
    using cas_execution_law [OF begin_law [OF assms(1)] _ cas] assms(1) by (simp add: id)
  define y where "y = ?rec\<lparr>dx_revision := dx_revision x + 1\<rparr>"
  have vy: "valid_execution y"
    unfolding y_def
    using ended_row_valid [OF v(1) run x(4,3) fits time(1,3), of "Some (pc_request_digest p)"] valid_positive [OF v(1)]
    by (intro valid_execution_revision) simp_all
  have "require_same_pins x ?rec = Inr ()" by (simp add: same_pins_on ended_row_def)
  moreover have "?rec\<lparr>dx_created_at := dx_created_at x, dx_revision := dx_revision x + 1\<rparr> = y"
    by (simp add: y_def ended_row_def)
  ultimately have "replaced ?rec (dx_revision x) x = Inr y"
    using vy unfolding replaced_def valid_execution_def by simp
  then have q1: "q1 = Inr y" using law x(1) by (simp add: spec_write_def)
  obtain w2 q2 where two: "tx_cas_breaker tx w1 ?nxt (ps_revision brk) = (w2, q2)" by (metis surj_pair)
  have "(br (fst w2), q2) = spec_save (br s) ?nxt (ps_revision brk)"
    using cas_breaker_law [OF _ _ nxt(2) b(2) two] law by auto
  then have q2: "q2 = Inr (?nxt\<lparr>ps_revision := ps_revision brk + 1\<rparr>)"
    using loaded_revision [OF v(3) brk(1)] by (simp add: spec_save_def Let_def breaker_after_key)
  have "store_outcome tx None (s, tx_begin tx s) ?rec (dx_revision x) ?nxt (ps_revision brk) = (w2, Inr y)"
    by (simp add: store_outcome_def fault_or_def cas q1 two q2)
  moreover have "claim_less finished started = Inr False"
    using time by (simp add: claim_less_def dt_less_aware)
  ultimately have settled: "settle_call tx policy rd t None s a p started finished (Some resp) =
      (fst w2, outcome_result t a ?it y True)"
    using time(1) by (simp add: settle_call_def read_clock_def commit_outcome_def Let_def rows)
  have "dx_state y = (if it_success ?it then Completed else Failed)"
    "dx_outcome y = Some (attempt_status_value (it_attempt_status ?it))" "dx_observation_kind y = ?obs"
    "dx_evaluated_offer_count y = int (length (it_offers ?it))"
    "dx_normalized_offer_count y = int (length (it_offers ?it))"
    using it by (auto simp: y_def ended_row_def state_for_def reading_ok_def split: if_splits)
  from outcome_stands [OF fit it vy this] show ?thesis unfolding settled by blast
qed

end

section \<open>The properties\<close>

text \<open>
  C1: the external call of an execution is made at most once.  However the claims, attempts, outcomes and
  reconciliations of any number of processes interleave, whichever transaction fails or raises, whatever the transport
  answers, and whatever else is committed that only moves rows on, no two calls are of one execution, and every
  execution that was called has its attempt on record.
\<close>

theorem one_call_per_execution:
  fixes s :: "'f claim_tables" and u :: "'f claim_rows"
  assumes "op_tx_ok cfg s" and "mem_tx_ok cfg u"
    and "live_steps (operational_claim_transaction cfg) (op_tx_ok cfg) (\<lambda>s. op_exec_view (ct_executions s)) requests rd s
      (s', obs, calls)"
    and "live_steps (in_memory_claim_transaction cfg) (mem_tx_ok cfg) (\<lambda>u. dict_get (cr_executions u)) requests rd u
      (u', obs', calls')"
  shows "distinct (map called_execution calls) \<and> distinct (map called_execution calls') \<and>
    list_all (\<lambda>p. started_in (op_exec_view (ct_executions s')) (called_execution p)) calls \<and>
    list_all (\<lambda>p. started_in (dict_get (cr_executions u')) (called_execution p)) calls'"
  using live_invariant_holds [OF op_attempt.closing_store_axioms assms(1,3)]
    live_invariant_holds [OF mem_attempt.closing_store_axioms assms(2,4)]
  by (simp add: live_invariant_def list_all_iff)

text \<open>
  C2: the transport is asked exactly when the attempt is granted.  With no fault in the first transaction, an
  execution asks the provider if and only if the permit, transport, step, source and query pass the local checks, the
  clock is aware, and the stored rows grant it: the row of this authorization's execution is claimed by this capability
  for this plan with six seconds left, the conversation holds the consumed authorization of this owner, and the breaker
  lets the call through or this attempt holds its probe.  What is asked is the request of this attempt, without
  credentials.
\<close>

theorem called_exactly_when_granted:
  fixes s :: "'f claim_tables" and u :: "'f claim_rows"
  assumes "op_tx_ok cfg s" and "mem_tx_ok cfg u" and "fst faults = None"
    and "execute (operational_claim_transaction cfg clk) policy rd t clocks post_json mid faults s a = (s', r, asked)"
    and "execute (in_memory_claim_transaction cfg clk) policy rd t clocks post_json mid' faults u a = (u', r', asked')"
  shows "(asked \<noteq> None \<longleftrightarrow> call_allowed clk a t (fst clocks) (table_view s)) \<and> pred_option (asks_for a) asked \<and>
    (asked' \<noteq> None \<longleftrightarrow> call_allowed clk a t (fst clocks) (row_view u)) \<and> pred_option (asks_for a) asked'"
  using op_attempt.calls_exactly [OF assms(1,3,4)] mem_attempt.calls_exactly [OF assms(2,3,5)]
  by (auto simp: table_view_def row_view_def pred_option_def)

text \<open>
  C3: the outcome of a call is stored whole or not at all.  However the transport answers and wherever the second
  transaction fails, an answer that says persisted left the execution row terminal with this reading of the response,
  at the next revision, and the breaker with its effect, and nothing else changed; any other answer, or an exception,
  left the rows as they were.  An attempt that no longer holds the running row stores nothing.
\<close>

theorem outcome_all_or_nothing:
  fixes s :: "'f claim_tables" and u :: "'f claim_rows"
  assumes "op_tx_ok cfg s" and "mem_tx_ok cfg u" and "local_refusal_reason a t = None"
    and "settle_call (operational_claim_transaction cfg clk) policy rd t fault s a p started finished response = (s', r)"
    and "settle_call (in_memory_claim_transaction cfg clk) policy rd t fault u a p started finished response = (u', r')"
  shows "op_tx_ok cfg s' \<and> outcome_settled clk policy rd t a p finished response (table_view s) (table_view s') r \<and>
    mem_tx_ok cfg u' \<and> outcome_settled clk policy rd t a p finished response (row_view u) (row_view u') r'"
  using op_attempt.settles_outcome [OF assms(1) _ assms(4)] mem_attempt.settles_outcome [OF assms(2) _ assms(5)]
    local_refusal_on [OF assms(3)]
  by (simp add: table_view_def row_view_def)

text \<open>
  C7: an answer carries verified live evidence only where a production permit and the production transport
  were used, the attempt was granted and asked its request, the response was read as a success, and the outcome was
  stored with it; a synthetic or harness run never does.
\<close>

theorem verified_only_from_production:
  fixes s :: "'f claim_tables"
  assumes "op_tx_ok cfg s" and "\<And>v. op_tx_ok cfg v \<Longrightarrow> op_tx_ok cfg (mid v)"
    and "execute (operational_claim_transaction cfg clk) policy rd t clocks post_json mid faults s a = (s', Inr res, asked)"
    and "xr_verified res \<noteq> None"
  shows "at_permit a = ProductionPermit \<and> t = UrllibTransport True \<and> xr_persisted res \<and>
    (\<exists>p resp. asked = Some p \<and> asks_for a p \<and> post_json p = Some resp \<and>
       it_success (interpret_response rd (snd clocks) True resp))"
  by (rule op_attempt.verifies [OF assms])

text \<open>
  C8: a lost outcome does not stay open.  Once the lease of a running execution is over by a clock that has
  not gone back behind its start, one reconciliation without a database fault closes it, in either store: the row ends
  as unknown with its claim released, the breaker and the conversations are untouched, and the provider is not asked
  again.
\<close>

theorem lost_outcome_closes:
  fixes s :: "'f claim_tables" and u :: "'f claim_rows"
  assumes "op_tx_ok cfg s" and "mem_tx_ok cfg u" and "attempt_execution_id a = Inr i"
    and "local_refusal_reason a t = None" and "is_aware now"
    and "op_exec_view (ct_executions s) i = Some x" and "lease_over x now" and "dx_plan_id x = pn_plan_id (at_plan a)"
    and "dict_get (cr_executions u) i = Some y" and "lease_over y now" and "dx_plan_id y = pn_plan_id (at_plan a)"
  shows "(\<exists>s' res. reconcile_ambiguous (operational_claim_transaction cfg clk) None now s a = (s', Inr res) \<and>
      lost_outcome_closed a now i x (table_view s) (table_view s') res) \<and>
    (\<exists>u' res. reconcile_ambiguous (in_memory_claim_transaction cfg clk) None now u a = (u', Inr res) \<and>
      lost_outcome_closed a now i y (row_view u) (row_view u') res)"
  using op_attempt.closes_lost [OF assms(1,3,6,7,5,8,4)] mem_attempt.closes_lost [OF assms(2,3,9,10,5,11,4)]
  by (simp add: table_view_def row_view_def)

section \<open>An example\<close>

text \<open>One claimed execution of a catalog step, in a table and in process memory.\<close>

definition call_step :: provider_step where
  "call_step =
     \<lparr>st_step_index = 1, st_provider_id = ''ph-shopify-global-catalog'', st_provider_type = Merchant,
      st_capability = CurrentPricing, st_source_identities = [''shopify_global_catalog''], st_market = Some ''PH'',
      st_certification_id = ''cert-p'', st_certification_version = ''v1'',
      st_selection_reason = ''certified_capability_market_source'', st_attempted = False\<rparr>"

definition call_attempt :: "permit \<Rightarrow> attempt" where
  "call_attempt k =
     \<lparr>at_permit = k, at_authorization = spent_authorization, at_owner = claim_owner,
      at_plan = claim_plan\<lparr>pn_eligible_steps := [call_step]\<rparr>, at_step = call_step,
      at_source = ''shopify_global_catalog'', at_operation = ''search_catalog'',
      at_claim_capability = fst first_tokens, at_status = AVAILABLE, at_catalog_query = Some ''lens'',
      at_product_id = None, at_probe_capability = None, at_kill_switch = \<lparr>engaged = False, kill_reason = None\<rparr>\<rparr>"

definition held_row :: durable_execution where
  "held_row = claimed_row (new_execution
     \<lparr>bq_authorization_idempotency_key = ra_idempotency_key spent_authorization, bq_decision_id = ''dec'',
      bq_plan_id = ''plan'', bq_authorization_id = ''auth'', bq_authorization_version = 1, bq_now = Aware 0\<rparr> claim_key)
     (Aware 0) 30000000 (token_digest (fst first_tokens))"

definition call_tables :: "int claim_tables" where
  "call_tables = claim_tables_example
     \<lparr>ct_executions := [(claim_key, \<lparr>op_payload = held_row, op_seq = 1, op_owner = None\<rparr>)]\<rparr>"

definition call_rows :: "int claim_rows" where
  "call_rows = claim_rows_example\<lparr>cr_executions := [(claim_key, held_row)]\<rparr>"

lemma held_row_valid: "valid_execution held_row" "dx_execution_id held_row = claim_key"
  "dx_state held_row = ClaimedForAttempt" "dx_claim_expires_at held_row = Some (Aware 30000000)"
  "dx_claim_digest held_row = Some (token_digest (fst first_tokens))" "dx_plan_id held_row = ''plan''"
  "dx_authorization_id held_row = ''auth''" "dx_authorization_version held_row = 1" "dx_decision_id held_row = ''dec''"
  "dx_revision held_row = 1"
proof -
  let ?b = "new_execution \<lparr>bq_authorization_idempotency_key = ra_idempotency_key spent_authorization,
    bq_decision_id = ''dec'', bq_plan_id = ''plan'', bq_authorization_id = ''auth'', bq_authorization_version = 1,
    bq_now = Aware 0\<rparr> claim_key"
  have b: "valid_execution ?b" "dx_state ?b = PreparedUnavailable" "dx_revision ?b = 1" "dx_created_at ?b = Aware 0"
    by (simp_all add: valid_execution_def check_execution_def new_execution_def starts_with_iff claim_key_def
      validate_claim_fields_def validate_attempt_fields_def no_attempt_facts_def attempt_identity_def blank_def)
  have "hex64 (token_digest (fst first_tokens))" by (simp add: token_digest_def)
  then show "valid_execution held_row"
    using claimed_row_valid [OF b(1), of "Aware 0" 30000000 "token_digest (fst first_tokens)" 1] b
    by (simp add: held_row_def) (simp add: claimed_row_def new_execution_def)
qed (simp_all add: held_row_def claimed_row_def new_execution_def)

lemma call_tables_ok: "op_tx_ok default_conv_settings call_tables"
  "table_view call_tables = ([claim_key \<mapsto> held_row], Map.empty, [''conv'' \<mapsto> claim_conversation])"
proof -
  let ?t = "[(claim_key, \<lparr>op_payload = held_row, op_seq = 1, op_owner = None\<rparr>)]"
  have view: "op_exec_view ?t = [claim_key \<mapsto> held_row]" by (simp add: op_exec_view_def fun_eq_iff)
  have "op_exec_ok ?t" using held_row_valid(1,2,10) by (auto simp: op_exec_ok_def dict_ok_def view rows_valid_def)
  then show "op_tx_ok default_conv_settings call_tables"
    using claim_tables_ok(1) by (simp add: op_tx_ok_def call_tables_def)
  show "table_view call_tables = ([claim_key \<mapsto> held_row], Map.empty, [''conv'' \<mapsto> claim_conversation])"
    by (simp add: table_view_def call_tables_def view tables_fields)
qed

lemma call_rows_ok: "mem_tx_ok default_conv_settings call_rows"
  "row_view call_rows = ([claim_key \<mapsto> held_row], Map.empty, [''conv'' \<mapsto> claim_conversation])"
proof -
  have view: "dict_get [(claim_key, held_row)] = [claim_key \<mapsto> held_row]" by (simp add: fun_eq_iff)
  have "mem_exec_ok [(claim_key, held_row)]"
    using held_row_valid(1,2,10) by (auto simp: mem_exec_ok_def dict_ok_def view rows_valid_def)
  then show "mem_tx_ok default_conv_settings call_rows"
    using claim_rows_ok(1) by (simp add: mem_tx_ok_def call_rows_def)
  show "row_view call_rows = ([claim_key \<mapsto> held_row], Map.empty, [''conv'' \<mapsto> claim_conversation])"
    using claim_rows_ok(2) by (simp add: row_view_def call_rows_def fun_eq_iff)
qed

lemma call_fields:
  "op_exec_view (ct_executions call_tables) = [claim_key \<mapsto> held_row]" "op_rel_view (ct_breakers call_tables) = Map.empty"
  "op_conv_view (ct_conversations call_tables) = [''conv'' \<mapsto> claim_conversation]"
  "dict_get (cr_executions call_rows) = [claim_key \<mapsto> held_row]" "dict_get (cr_breakers call_rows) = Map.empty"
  "dict_get (cr_conversations call_rows) = [''conv'' \<mapsto> claim_conversation]"
  using call_tables_ok(2) call_rows_ok(2) by (simp_all only: table_view_def row_view_def prod.inject)

lemma call_attempt_id: "attempt_execution_id (call_attempt k) = Inr claim_key"
  by (simp add: attempt_execution_id_def call_attempt_def claim_key_derived)

lemma call_attempt_local: "local_refusal_reason (call_attempt FakePermit) InjectedTransport = None"
  "local_refusal_reason (call_attempt ProductionPermit) (UrllibTransport True) = None"
proof -
  have "strip ''lens'' = ''lens''" by code_simp
  then show "local_refusal_reason (call_attempt FakePermit) InjectedTransport = None"
    "local_refusal_reason (call_attempt ProductionPermit) (UrllibTransport True) = None"
    by (simp_all add: local_refusal_reason_def call_attempt_def call_step_def supported_capabilities_def blank_def
      production_live_evidence_authorized_def)
qed

definition catalog_closed :: "int \<Rightarrow> provider_state" where
  "catalog_closed n = (closed_row n)\<lparr>ps_provider_id := ''ph-shopify-global-catalog'', ps_market := ''PH''\<rparr>"

lemma catalog_breaker: "spec_load Map.empty ''ph-shopify-global-catalog'' ''PH'' (Aware n) = Inr (catalog_closed n)"
proof -
  have i: "ident_ok ''ph-shopify-global-catalog'' ''PH''" by code_simp
  then have "valid_state (catalog_closed n)" by (simp add: catalog_closed_def closed_row_def valid_defs)
  then have "check_state (catalog_closed n) = Inr (catalog_closed n)" by (rule check_valid)
  then show ?thesis
    using record_key_of_ident [OF i]
    by (simp add: spec_load_def closed_reliability_state_def catalog_closed_def closed_row_def)
qed

lemma call_granted:
  assumes "0 \<le> n" and "n \<le> 24000000"
  shows "attempt_granted (Aware n) (call_attempt k) (Aware n) ([claim_key \<mapsto> held_row], Map.empty, [''conv'' \<mapsto> claim_conversation])
    held_row"
proof -
  have "claim_held (call_attempt k) held_row (Aware n)"
    using assms token_digest [OF example_terms(1)]
    by (simp add: claim_held_def held_row_valid)
      (simp add: call_attempt_def claim_plan_def spent_authorization_def fresh_authorization_def example_proposal_def
        same_step_def)
  moreover have "authorization_held (call_attempt k) held_row claim_conversation"
    by (simp add: authorization_held_def held_row_valid)
      (simp add: call_attempt_def claim_conversation_def claim_plan_def spent_authorization_def fresh_authorization_def
        example_proposal_def claim_same_identity)
  moreover have "breaker_allows (catalog_closed n) (call_attempt k) (Aware n)"
    by (simp add: breaker_allows_def call_attempt_def advance_recovery_def require_aware_def catalog_closed_def closed_row_def)
  moreover have "attempt_market (call_attempt k) = ''PH''" "st_provider_id (at_step (call_attempt k)) = ''ph-shopify-global-catalog''"
    "ra_conversation_id (at_authorization (call_attempt k)) = ''conv''"
    by (simp_all add: attempt_market_def call_attempt_def call_step_def claim_example_fields(7))
  ultimately show ?thesis
    using claim_unexpired [of n] assms by (simp add: attempt_granted_def catalog_breaker)
qed

text \<open>The example, begun.\<close>

lemma call_begins:
  assumes "0 \<le> n" and "n \<le> 24000000" and "local_refusal_reason (call_attempt k) t = None"
  shows "\<exists>s p. begin_call (operational_claim_transaction default_conv_settings (Aware n)) None call_tables
      (call_attempt k) (Aware n) = (s, Inr (Inr p)) \<and> op_tx_ok default_conv_settings s \<and>
    started_from (call_attempt k) (Aware n) held_row (pc_execution p) \<and>
    table_view s = ([claim_key \<mapsto> pc_execution p], Map.empty, [''conv'' \<mapsto> claim_conversation])"
    and "\<exists>u p. begin_call (in_memory_claim_transaction default_conv_settings (Aware n)) None call_rows
      (call_attempt k) (Aware n) = (u, Inr (Inr p)) \<and> mem_tx_ok default_conv_settings u \<and>
    started_from (call_attempt k) (Aware n) held_row (pc_execution p) \<and>
    row_view u = ([claim_key \<mapsto> pc_execution p], Map.empty, [''conv'' \<mapsto> claim_conversation])"
proof -
  let ?a = "call_attempt k"
  have id: "attempt_execution_id ?a = Inr (dx_execution_id held_row)"
    using call_attempt_id by (simp add: attempt_execution_id_def held_row_valid)
  have granted: "attempt_granted (Aware n) ?a (Aware n)
      ([claim_key \<mapsto> held_row], Map.empty, [''conv'' \<mapsto> claim_conversation]) held_row"
    by (rule call_granted [OF assms(1,2)])
  show "\<exists>s p. begin_call (operational_claim_transaction default_conv_settings (Aware n)) None call_tables ?a (Aware n) =
      (s, Inr (Inr p)) \<and> op_tx_ok default_conv_settings s \<and> started_from ?a (Aware n) held_row (pc_execution p) \<and>
      table_view s = ([claim_key \<mapsto> pc_execution p], Map.empty, [''conv'' \<mapsto> claim_conversation])"
    using op_attempt.granted_begun [OF call_tables_ok(1) assms(3) id, unfolded call_fields held_row_valid(2), OF _ granted]
    by (simp add: table_view_def)
  show "\<exists>u p. begin_call (in_memory_claim_transaction default_conv_settings (Aware n)) None call_rows ?a (Aware n) =
      (u, Inr (Inr p)) \<and> mem_tx_ok default_conv_settings u \<and> started_from ?a (Aware n) held_row (pc_execution p) \<and>
      row_view u = ([claim_key \<mapsto> pc_execution p], Map.empty, [''conv'' \<mapsto> claim_conversation])"
    using mem_attempt.granted_begun [OF call_rows_ok(1) assms(3) id, unfolded call_fields held_row_valid(2), OF _ granted]
    by (simp only: row_view_def fun_upd_upd fun_upd_same simp_thms)
qed

definition timed_out :: "unit transport_result" where
  "timed_out = \<lparr>rp_status_code = 0, rp_payload = None, rp_timed_out = True, rp_malformed = False, rp_unavailable = False,
     rp_raw_body_persisted = False\<rparr>"

definition catalog_response :: "unit transport_result" where
  "catalog_response = \<lparr>rp_status_code = 200, rp_payload = Some (), rp_timed_out = False, rp_malformed = False,
     rp_unavailable = False, rp_raw_body_persisted = False\<rparr>"

text \<open>A payload of one product with one live offer.\<close>

definition one_offer :: "unit catalog_reader" where
  "one_offer =
     \<lparr>rd_envelope = (\<lambda>_. \<lparr>ev_fail_closed = False, ev_reason = [], ev_failure_kind = None\<rparr>),
      rd_products = (\<lambda>_. [()]), rd_variants = (\<lambda>_. [()]),
      rd_normalize = (\<lambda>_ _ checked_at kind. Inr
        \<lparr>nf_product_id = ''p'', nf_variant_id = None, nf_seller_identity = ''s'', nf_currency = ''PHP'',
         nf_price_amount_minor = 100, nf_availability = ''unknown'', nf_checked_at = checked_at,
         nf_observation_kind = kind, nf_source_mode = ''fixture'', nf_shipping = (None, ''unknown''),
         nf_taxes = (None, ''unknown''), nf_import_charges = (None, ''unknown''), nf_voucher = (None, ''unknown''),
         nf_price_state = ''observed''\<rparr>)\<rparr>"

lemma catalog_read: "it_success (interpret_response one_offer now True catalog_response)"
  by (simp add: interpret_response_def catalog_response_def interpret_payload_def one_offer_def normalize_all_def
    offer_is_live_def)

text \<open>What a begun example still needs for its outcome to land.\<close>

lemma begun_holds:
  assumes "started_from (call_attempt k) (Aware n) held_row y" and "m < 30000000"
  shows "still_holds (call_attempt k) y (Aware m)" and "dx_plan_id y = pn_plan_id (at_plan (call_attempt k))"
    and "dx_attempt_started_at y = Some (Aware n)" and "dx_execution_id y = claim_key"
    and "dx_state y = Running" "dx_claim_expires_at y = Some (Aware 30000000)"
  using assms token_digest [OF example_terms(1)] held_row_valid
  by (auto simp: started_from_def still_holds_def pins_def call_attempt_def claim_plan_def)

lemma call_attempt_fields:
  "at_source (call_attempt k) \<noteq> []" "st_market (at_step (call_attempt k)) \<noteq> None" "at_permit (call_attempt k) = k"
  "st_provider_id (at_step (call_attempt k)) = ''ph-shopify-global-catalog''" "attempt_market (call_attempt k) = ''PH''"
  "probe_reason (catalog_closed m) (call_attempt k) (Aware m) = Inr None" "ps_state (catalog_closed m) = CLOSED"
  by (simp_all add: call_attempt_def call_step_def attempt_market_def probe_reason_def catalog_closed_def closed_row_def)

lemma call_lands:
  assumes "local_refusal_reason (call_attempt k) t = None" and "started_from (call_attempt k) (Aware n) held_row (pc_execution p)"
    and "n \<le> m" and "m < 30000000"
  shows "op_tx_ok default_conv_settings s \<Longrightarrow>
      table_view s = ([claim_key \<mapsto> pc_execution p], Map.empty, [''conv'' \<mapsto> claim_conversation]) \<Longrightarrow>
      \<exists>s' res. settle_call (operational_claim_transaction default_conv_settings clk) policy rd t None s (call_attempt k) p
        (Aware n) (Aware m) (Some resp) = (s', Inr res) \<and> xr_persisted res"
    and "mem_tx_ok default_conv_settings u \<Longrightarrow>
      row_view u = ([claim_key \<mapsto> pc_execution p], Map.empty, [''conv'' \<mapsto> claim_conversation]) \<Longrightarrow>
      \<exists>u' res. settle_call (in_memory_claim_transaction default_conv_settings clk) policy rd t None u (call_attempt k) p
        (Aware n) (Aware m) (Some resp) = (u', Inr res) \<and> xr_persisted res"
proof -
  note held = begun_holds [OF assms(2,4)]
  have fit: "permit_fits (call_attempt k) t" using local_refusal_on [OF assms(1)] by blast
  show "\<exists>s' res. settle_call (operational_claim_transaction default_conv_settings clk) policy rd t None s (call_attempt k) p
        (Aware n) (Aware m) (Some resp) = (s', Inr res) \<and> xr_persisted res"
    if "op_tx_ok default_conv_settings s"
      "table_view s = ([claim_key \<mapsto> pc_execution p], Map.empty, [''conv'' \<mapsto> claim_conversation])"
    using op_attempt.outcome_lands [OF that(1) fit call_attempt_fields(1,2) _ held(1-3), of p "catalog_closed m" rd resp]
      that(2) [unfolded table_view_def prod.inject] catalog_breaker [of m] assms(3) held(4)
    by (simp add: call_attempt_fields called_execution_def)
  show "\<exists>u' res. settle_call (in_memory_claim_transaction default_conv_settings clk) policy rd t None u (call_attempt k) p
        (Aware n) (Aware m) (Some resp) = (u', Inr res) \<and> xr_persisted res"
    if "mem_tx_ok default_conv_settings u"
      "row_view u = ([claim_key \<mapsto> pc_execution p], Map.empty, [''conv'' \<mapsto> claim_conversation])"
    using mem_attempt.outcome_lands [OF that(1) fit call_attempt_fields(1,2) _ held(1-3), of p "catalog_closed m" rd resp]
      that(2) [unfolded row_view_def prod.inject] catalog_breaker [of m] assms(3) held(4)
    by (simp add: call_attempt_fields called_execution_def)
qed

lemma first_moment: "0 \<le> (1000000 :: int)" "(1000000 :: int) \<le> 24000000"
  by simp_all

lemma second_moment: "(1000000 :: int) \<le> 2000000" "(2000000 :: int) < 30000000"
  by simp_all

theorem one_call_per_execution_witness:
  "\<exists>s p u q.
    live_steps (operational_claim_transaction default_conv_settings) (op_tx_ok default_conv_settings)
      (\<lambda>s. op_exec_view (ct_executions s)) ({} :: unit claim_request set) one_offer call_tables (s, [], [p]) \<and>
    live_steps (in_memory_claim_transaction default_conv_settings) (mem_tx_ok default_conv_settings)
      (\<lambda>u. dict_get (cr_executions u)) ({} :: unit claim_request set) one_offer call_rows (u, [], [q]) \<and>
    started_in (op_exec_view (ct_executions s)) (called_execution p) \<and>
    started_in (dict_get (cr_executions u)) (called_execution q)"
proof -
  obtain s p where s: "begin_call (operational_claim_transaction default_conv_settings (Aware 1000000)) None call_tables
      (call_attempt FakePermit) (Aware 1000000) = (s, Inr (Inr p))"
    using call_begins(1) [OF first_moment call_attempt_local(1)] by blast
  obtain u q where u: "begin_call (in_memory_claim_transaction default_conv_settings (Aware 1000000)) None call_rows
      (call_attempt FakePermit) (Aware 1000000) = (u, Inr (Inr q))"
    using call_begins(2) [OF first_moment call_attempt_local(1)] by blast
  have 1: "live_steps (operational_claim_transaction default_conv_settings) (op_tx_ok default_conv_settings)
      (\<lambda>s. op_exec_view (ct_executions s)) ({} :: unit claim_request set) one_offer call_tables (s, [], [p])"
    by (rule live_steps.called [where tx = "operational_claim_transaction default_conv_settings", OF live_steps.initial s])
  have 2: "live_steps (in_memory_claim_transaction default_conv_settings) (mem_tx_ok default_conv_settings)
      (\<lambda>u. dict_get (cr_executions u)) ({} :: unit claim_request set) one_offer call_rows (u, [], [q])"
    by (rule live_steps.called [where tx = "in_memory_claim_transaction default_conv_settings", OF live_steps.initial u])
  from one_call_per_execution [OF call_tables_ok(1) call_rows_ok(1) 1 2] show ?thesis
    using 1 2 by auto
qed

theorem called_exactly_when_granted_witness:
  "call_allowed (Aware 1000000) (call_attempt FakePermit) InjectedTransport (Aware 1000000) (table_view call_tables) \<and>
   (\<exists>s' r p. execute (operational_claim_transaction default_conv_settings (Aware 1000000)) default_breaker_policy one_offer
      InjectedTransport (Aware 1000000, Aware 2000000) (\<lambda>_. Some timed_out) (\<lambda>s. s) (None, None) call_tables
      (call_attempt FakePermit) = (s', r, Some p) \<and> asks_for (call_attempt FakePermit) p)"
proof -
  let ?run = "execute (operational_claim_transaction default_conv_settings (Aware 1000000)) default_breaker_policy one_offer
      InjectedTransport (Aware 1000000, Aware 2000000) (\<lambda>_. Some timed_out) (\<lambda>s. s) (None, None) call_tables
      (call_attempt FakePermit)"
  let ?run' = "execute (in_memory_claim_transaction default_conv_settings (Aware 1000000)) default_breaker_policy one_offer
      InjectedTransport (Aware 1000000, Aware 2000000) (\<lambda>_. Some timed_out) (\<lambda>s. s) (None, None) call_rows
      (call_attempt FakePermit)"
  obtain s' r asked where run: "?run = (s', r, asked)" by (metis surj_pair)
  obtain u' r' asked' where run': "?run' = (u', r', asked')" by (metis surj_pair)
  have allowed: "call_allowed (Aware 1000000) (call_attempt FakePermit) InjectedTransport (Aware 1000000)
      (table_view call_tables)"
    unfolding call_allowed_def call_tables_ok(2) fst_conv
    using call_attempt_local(1) call_attempt_id call_granted [of 1000000 FakePermit]
    by (auto intro!: exI [of _ held_row] simp: held_row_valid)
  from called_exactly_when_granted [OF call_tables_ok(1) call_rows_ok(1) _ run run'] allowed
  show ?thesis by (auto simp: run)
qed

theorem outcome_all_or_nothing_witness:
  "\<exists>(s :: int claim_tables) p s' res. fst (table_view s) claim_key = Some (pc_execution p) \<and>
    settle_call (operational_claim_transaction default_conv_settings (Aware 2000000)) default_breaker_policy one_offer
      InjectedTransport None s (call_attempt FakePermit) p (Aware 1000000) (Aware 2000000) (Some timed_out) = (s', Inr res) \<and>
    outcome_stored default_breaker_policy one_offer InjectedTransport (call_attempt FakePermit) p (Aware 2000000) timed_out
      (table_view s) (table_view s') res"
proof -
  obtain s and p :: prepared_call where s: "op_tx_ok default_conv_settings s" "started_from (call_attempt FakePermit) (Aware 1000000) held_row (pc_execution p)"
    "table_view s = ([claim_key \<mapsto> pc_execution p], Map.empty, [''conv'' \<mapsto> claim_conversation])"
    using call_begins(1) [OF first_moment call_attempt_local(1)] by blast
  obtain s' res where run: "settle_call (operational_claim_transaction default_conv_settings (Aware 2000000)) default_breaker_policy
      one_offer InjectedTransport None s (call_attempt FakePermit) p (Aware 1000000) (Aware 2000000) (Some timed_out) =
      (s', Inr res)" "xr_persisted res"
    using call_lands(1) [OF call_attempt_local(1) s(2) second_moment s(1,3)] by blast
  obtain u' r' where run': "settle_call (in_memory_claim_transaction default_conv_settings (Aware 2000000)) default_breaker_policy
      one_offer InjectedTransport None call_rows (call_attempt FakePermit) p (Aware 1000000) (Aware 2000000) (Some timed_out) =
      (u', r')" by (metis surj_pair)
  from outcome_all_or_nothing [OF s(1) call_rows_ok(1) call_attempt_local(1) run(1) run']
  have "outcome_stored default_breaker_policy one_offer InjectedTransport (call_attempt FakePermit) p (Aware 2000000)
      timed_out (table_view s) (table_view s') res"
    using run(2) by (auto simp: outcome_settled_def)
  then show ?thesis using run(1) s(3)
    by (intro exI [of _ s] exI [of _ p] exI [of _ s'] exI [of _ res]) (simp only: fst_conv fun_upd_same simp_thms)
qed

theorem verified_only_from_production_witness:
  "\<exists>s' res p. execute (operational_claim_transaction default_conv_settings (Aware 1000000)) default_breaker_policy one_offer
      (UrllibTransport True) (Aware 1000000, Aware 2000000) (\<lambda>_. Some catalog_response) (\<lambda>s. s) (None, None) call_tables
      (call_attempt ProductionPermit) = (s', Inr res, Some p) \<and> xr_verified res \<noteq> None \<and> xr_persisted res"
proof -
  let ?tx = "operational_claim_transaction default_conv_settings (Aware 1000000) :: (int claim_tables, _, int) claim_transaction"
  obtain s p where s: "begin_call ?tx None call_tables (call_attempt ProductionPermit) (Aware 1000000) = (s, Inr (Inr p))"
    "op_tx_ok default_conv_settings s" "started_from (call_attempt ProductionPermit) (Aware 1000000) held_row (pc_execution p)"
    "table_view s = ([claim_key \<mapsto> pc_execution p], Map.empty, [''conv'' \<mapsto> claim_conversation])"
    using call_begins(1) [OF first_moment call_attempt_local(2)] by blast
  obtain s' res where run: "settle_call ?tx default_breaker_policy one_offer (UrllibTransport True) None s
      (call_attempt ProductionPermit) p (Aware 1000000) (Aware 2000000) (Some catalog_response) = (s', Inr res)"
      "xr_persisted res"
    using call_lands(1) [OF call_attempt_local(2) s(3) second_moment s(2,4)] by blast
  have fit: "permit_fits (call_attempt ProductionPermit) (UrllibTransport True)"
    using local_refusal_on [OF call_attempt_local(2)] by blast
  have "xr_verified res \<noteq> None"
    using op_attempt.settles_outcome [OF s(2) fit run(1)] run(2) catalog_read
    by (auto simp: outcome_settled_def outcome_stored_def production_live_evidence_authorized_def call_attempt_fields)
  moreover have exec: "execute ?tx default_breaker_policy one_offer (UrllibTransport True) (Aware 1000000, Aware 2000000)
      (\<lambda>_. Some catalog_response) (\<lambda>s. s) (None, None) call_tables (call_attempt ProductionPermit) = (s', Inr res, Some p)"
    by (simp add: execute_def call_attempt_local read_clock_def s(1) run(1))
  ultimately show ?thesis
    using verified_only_from_production [OF call_tables_ok(1) _ exec] by blast
qed

theorem lost_outcome_closes_witness:
  "\<exists>(s :: int claim_tables) x s' res. fst (table_view s) claim_key = Some x \<and> dx_state x = Running \<and>
    reconcile_ambiguous (operational_claim_transaction default_conv_settings (Aware 31000000)) None (Aware 31000000) s
      (call_attempt FakePermit) = (s', Inr res) \<and>
    lost_outcome_closed (call_attempt FakePermit) (Aware 31000000) claim_key x (table_view s) (table_view s') res"
proof -
  obtain s and p :: prepared_call where s: "op_tx_ok default_conv_settings s" "started_from (call_attempt FakePermit) (Aware 1000000) held_row (pc_execution p)"
    "table_view s = ([claim_key \<mapsto> pc_execution p], Map.empty, [''conv'' \<mapsto> claim_conversation])"
    using call_begins(1) [OF first_moment call_attempt_local(1)] by blast
  obtain u and q :: prepared_call where u: "mem_tx_ok default_conv_settings u" "started_from (call_attempt FakePermit) (Aware 1000000) held_row (pc_execution q)"
    "row_view u = ([claim_key \<mapsto> pc_execution q], Map.empty, [''conv'' \<mapsto> claim_conversation])"
    using call_begins(2) [OF first_moment call_attempt_local(1)] by blast
  have held: "lease_over y (Aware 31000000)" "dx_plan_id y = pn_plan_id (at_plan (call_attempt FakePermit))" "dx_state y = Running"
    if "started_from (call_attempt FakePermit) (Aware 1000000) held_row y" for y
    using begun_holds [OF that, of 0] by (simp_all add: lease_over_def)
  have rows: "op_exec_view (ct_executions s) claim_key = Some (pc_execution p)"
    "dict_get (cr_executions u) claim_key = Some (pc_execution q)"
    using s(3) u(3) by (simp_all add: table_view_def row_view_def)
  from lost_outcome_closes [OF s(1) u(1) call_attempt_id call_attempt_local(1) _ rows(1) held(1,2) [OF s(2)] rows(2)
      held(1,2) [OF u(2)], of "Aware 31000000"]
  obtain s' res where "reconcile_ambiguous (operational_claim_transaction default_conv_settings (Aware 31000000)) None
      (Aware 31000000) s (call_attempt FakePermit) = (s', Inr res)"
    "lost_outcome_closed (call_attempt FakePermit) (Aware 31000000) claim_key (pc_execution p) (table_view s) (table_view s') res"
    by auto
  then show ?thesis using rows(1) held(3) [OF s(2)]
    by (intro exI [of _ s] exI [of _ "pc_execution p"] exI [of _ s'] exI [of _ res]) (simp add: table_view_def)
qed

end
