(* ===== verification/KeyedStore.thy ===== *)
theory KeyedStore
  imports SqlTable
begin

text \<open>
  app/infrastructure/persistence/operational_store.py: the operations for rows with a secondary
  key, which the account repositories use.  A table holds the rows of one store namespace, by entity
  id, in the order of the primary key; (store, entity_id) and (store, secondary_key) are unique
  (app/infrastructure/database/models/operational_entity.py).  The JSON codec is not modelled.
\<close>

record 'e keyed_row =
  kr_payload :: 'e
  kr_secondary :: "string option"
  kr_owner :: "string option"
  kr_seq :: int

type_synonym 'e keyed_table = "(string, 'e keyed_row) dict"

text \<open>\<open>int(current or 0) + 1\<close>\<close>

definition next_seq :: "'e keyed_table \<Rightarrow> int" where
  "next_seq t = (if t = [] then 0 else Max (set (map (kr_seq \<circ> snd) t))) + 1"

text \<open>The unique constraint on the secondary key; SQL's NULL never collides.\<close>

definition secondary_taken :: "'e keyed_table \<Rightarrow> string \<Rightarrow> string option \<Rightarrow> bool" where
  "secondary_taken t entity_id secondary =
     (secondary \<noteq> None \<and> list_ex (\<lambda>(k, r). k \<noteq> entity_id \<and> kr_secondary r = secondary) t)"

text \<open>\<open>None\<close> is PersistenceConflictError, with the transaction rolled back.\<close>

definition keyed_upsert ::
  "'e keyed_table \<Rightarrow> string \<Rightarrow> 'e \<Rightarrow> string option \<Rightarrow> string option \<Rightarrow> 'e keyed_table option" where
  "keyed_upsert t entity_id entity secondary owner =
     (if secondary_taken t entity_id secondary then None
      else case dict_get t entity_id of
        None \<Rightarrow> Some (t @ [(entity_id, \<lparr>kr_payload = entity, kr_secondary = secondary, kr_owner = owner,
                                        kr_seq = next_seq t\<rparr>)])
      | Some r \<Rightarrow> Some (dict_set entity_id
                   (r\<lparr>kr_payload := entity, kr_secondary := secondary, kr_owner := owner\<rparr>) t))"

definition insert_immutable ::
  "'e keyed_table \<Rightarrow> string \<Rightarrow> 'e \<Rightarrow> string option \<Rightarrow> string option \<Rightarrow> int \<Rightarrow> 'e keyed_table option" where
  "insert_immutable t entity_id entity secondary owner version =
     (if secondary_taken t entity_id secondary \<or> dict_get t entity_id \<noteq> None then None
      else Some (t @ [(entity_id, \<lparr>kr_payload = entity, kr_secondary = secondary, kr_owner = owner,
                                   kr_seq = version\<rparr>)]))"

definition keyed_get :: "'e keyed_table \<Rightarrow> string \<Rightarrow> 'e option" where
  "keyed_get t entity_id = map_option kr_payload (dict_get t entity_id)"

definition get_by_secondary :: "'e keyed_table \<Rightarrow> string \<Rightarrow> 'e option" where
  "get_by_secondary t secondary =
     map_option (kr_payload \<circ> snd) (find (\<lambda>(_, r). kr_secondary r = Some secondary) t)"

text \<open>\<open>list\<close> and \<open>list_newest_inserted\<close>: by \<open>seq\<close> and then by insertion; newest insertion first.\<close>

definition keyed_list :: "'e keyed_table \<Rightarrow> string option \<Rightarrow> 'e list" where
  "keyed_list t owner =
     map kr_payload (filter (\<lambda>r. owner = None \<or> kr_owner r = owner) (sort_key kr_seq (map snd t)))"

definition list_newest_inserted :: "'e keyed_table \<Rightarrow> int \<Rightarrow> 'e list" where
  "list_newest_inserted t limit = take (nat (max 0 limit)) (rev (map (kr_payload \<circ> snd) t))"

definition keyed_delete :: "'e keyed_table \<Rightarrow> string \<Rightarrow> 'e keyed_table \<times> bool" where
  "keyed_delete t entity_id = (dict_del entity_id t, dict_get t entity_id \<noteq> None)"

definition keyed_count :: "'e keyed_table \<Rightarrow> string option \<Rightarrow> nat" where
  "keyed_count t owner = length (filter (\<lambda>(_, r). owner = None \<or> kr_owner r = owner) t)"

section \<open>The constraints and what the operations do under them\<close>

definition keyed_ok :: "'e keyed_table \<Rightarrow> bool" where
  "keyed_ok t = (dict_ok t \<and>
     (\<forall>(k, r)\<in>set t. \<forall>(k', r')\<in>set t. kr_secondary r = kr_secondary r' \<and> kr_secondary r \<noteq> None \<longrightarrow> k = k'))"

lemma keyed_ok_empty [simp]: "keyed_ok []"
  by (simp add: keyed_ok_def)

lemma keyed_okD: "keyed_ok t \<Longrightarrow> dict_ok t"
  by (simp add: keyed_ok_def)

text \<open>The rows as a map from entity ids, which determines everything but the order.\<close>

lemma keyed_unique:
  assumes "keyed_ok t" and "dict_get t k = Some r" and "dict_get t k' = Some r'"
    and "kr_secondary r = Some s" and "kr_secondary r' = Some s"
  shows "k = k'"
  using assms by (fastforce simp: keyed_ok_def dest: map_of_SomeD)

lemma keyed_ok_iff: "keyed_ok t \<longleftrightarrow> dict_ok t \<and>
    (\<forall>k k' r r'. dict_get t k = Some r \<and> dict_get t k' = Some r' \<and> kr_secondary r = kr_secondary r' \<and>
       kr_secondary r \<noteq> None \<longrightarrow> k = k')"
proof -
  have "(\<forall>(k, r)\<in>set t. \<forall>(k', r')\<in>set t. P k r k' r') \<longleftrightarrow>
      (\<forall>k k' r r'. dict_get t k = Some r \<and> dict_get t k' = Some r' \<longrightarrow> P k r k' r')" if "dict_ok t" for P
    using that by (auto simp: dict_get_in_set)
  then show ?thesis by (simp add: keyed_ok_def cong: conj_cong) blast
qed

lemma find_Some_member: "find P xs = Some x \<Longrightarrow> x \<in> set xs \<and> P x"
  by (induction xs) (auto split: if_splits)

lemma dict_get_append_new:
  assumes "dict_get t k = None"
  shows "dict_get (t @ [(k, v)]) = (dict_get t)(k \<mapsto> v)"
proof
  fix k'
  show "dict_get (t @ [(k, v)]) k' = ((dict_get t)(k \<mapsto> v)) k'"
    using assms by (cases "k' = k") (auto simp: map_add_def split: option.splits)
qed

lemma dict_ok_append_new: "dict_ok t \<Longrightarrow> dict_get t k = None \<Longrightarrow> dict_ok (t @ [(k, v)])"
  by (simp add: dict_ok_def map_of_eq_None_iff)

lemma get_by_secondary_iff:
  assumes "keyed_ok t"
  shows "get_by_secondary t s = Some e \<longleftrightarrow>
    (\<exists>k r. dict_get t k = Some r \<and> kr_secondary r = Some s \<and> kr_payload r = e)"
proof -
  have d: "dict_ok t" using assms by (rule keyed_okD)
  show ?thesis
  proof
    assume "get_by_secondary t s = Some e"
    then obtain k r where "find (\<lambda>(_, r). kr_secondary r = Some s) t = Some (k, r)" and "kr_payload r = e"
      by (auto simp: get_by_secondary_def)
    then show "\<exists>k r. dict_get t k = Some r \<and> kr_secondary r = Some s \<and> kr_payload r = e"
      using d by (auto simp: dict_get_in_set dest!: find_Some_member)
  next
    assume "\<exists>k r. dict_get t k = Some r \<and> kr_secondary r = Some s \<and> kr_payload r = e"
    then obtain k r where r: "dict_get t k = Some r" "kr_secondary r = Some s" "kr_payload r = e" by blast
    have "find (\<lambda>(_, r). kr_secondary r = Some s) t \<noteq> None"
      using r d by (auto simp: find_None_iff dict_get_in_set split: prod.splits)
    then obtain k' r' where f: "find (\<lambda>(_, r). kr_secondary r = Some s) t = Some (k', r')" by auto
    then have "(k', r') \<in> set t" and s': "kr_secondary r' = Some s"
      by (auto dest: find_Some_member)
    then have "dict_get t k' = Some r'" using d by (simp add: dict_get_in_set)
    with keyed_unique [OF assms r(1) _ r(2) s'] r(1) have "r' = r" by auto
    with f r show "get_by_secondary t s = Some e" by (simp add: get_by_secondary_def)
  qed
qed

lemma keyed_upsert_iff:
  assumes "keyed_ok t"
  shows "keyed_upsert t k e s ow = None \<longleftrightarrow>
    (\<exists>k' r. s \<noteq> None \<and> k' \<noteq> k \<and> dict_get t k' = Some r \<and> kr_secondary r = s)"
  using keyed_okD [OF assms]
  by (auto simp: keyed_upsert_def secondary_taken_def list_ex_iff dict_get_in_set split: option.splits prod.splits)

lemma keyed_upsert_result:
  assumes ok: "keyed_ok t" and up: "keyed_upsert t k e s ow = Some t'"
  shows "keyed_ok t' \<and> (\<exists>q. dict_get t' =
      (dict_get t)(k \<mapsto> \<lparr>kr_payload = e, kr_secondary = s, kr_owner = ow, kr_seq = q\<rparr>))"
proof -
  have d: "dict_ok t" using ok by (rule keyed_okD)
  have "\<exists>q. dict_ok t' \<and> dict_get t' =
      (dict_get t)(k \<mapsto> \<lparr>kr_payload = e, kr_secondary = s, kr_owner = ow, kr_seq = q\<rparr>)"
  proof (cases "dict_get t k")
    case None
    then have "t' = t @ [(k, \<lparr>kr_payload = e, kr_secondary = s, kr_owner = ow, kr_seq = next_seq t\<rparr>)]"
      using up by (simp add: keyed_upsert_def split: if_splits)
    then show ?thesis
      using dict_ok_append_new [OF d None] dict_get_append_new [OF None] by (metis (no_types))
  next
    case (Some r)
    then have "t' = dict_set k (r\<lparr>kr_payload := e, kr_secondary := s, kr_owner := ow\<rparr>) t"
      using up by (simp add: keyed_upsert_def split: if_splits)
    moreover have "r\<lparr>kr_payload := e, kr_secondary := s, kr_owner := ow\<rparr> =
        \<lparr>kr_payload = e, kr_secondary = s, kr_owner = ow, kr_seq = kr_seq r\<rparr>" by simp
    ultimately show ?thesis using d dict_ok_set dict_get_set_map by (metis (no_types))
  qed
  then obtain q where q: "dict_ok t'" "dict_get t' =
      (dict_get t)(k \<mapsto> \<lparr>kr_payload = e, kr_secondary = s, kr_owner = ow, kr_seq = q\<rparr>)" by blast
  have free: "s = None" if "dict_get t k' = Some r" "k' \<noteq> k" "kr_secondary r = s" for k' r
    using keyed_upsert_iff [OF ok, of k e s ow] up that by auto
  have "keyed_ok t'"
    unfolding keyed_ok_iff using q ok [unfolded keyed_ok_iff] by (auto split: if_splits dest: free)
  with q show ?thesis by blast
qed

lemma keyed_delete_result:
  assumes "keyed_ok t"
  shows "keyed_ok (fst (keyed_delete t k)) \<and> dict_get (fst (keyed_delete t k)) = (dict_get t)(k := None)"
  using assms by (auto simp: keyed_delete_def keyed_ok_iff dict_get_del_map split: if_splits)

lemma keyed_list_member:
  assumes "keyed_ok t"
  shows "e \<in> set (keyed_list t (Some ow)) \<longleftrightarrow>
    (\<exists>k r. dict_get t k = Some r \<and> kr_owner r = Some ow \<and> kr_payload r = e)"
  using keyed_okD [OF assms] by (force simp: keyed_list_def dict_get_in_set)

end
