(* ===== verification/PasswordHash.thy ===== *)
theory PasswordHash
  imports Digest
begin

text \<open>
  app/auth/password.py: PBKDF2-HMAC-SHA256 password hashes in the versioned text form
  \<open>pbkdf2_sha256$iterations$salt$digest\<close>.  HMAC (RFC 2104) and PBKDF2 (RFC 8018) are what
  \<open>hashlib.pbkdf2_hmac\<close> computes, over the SHA-256 of Digest; the random salt is an argument.
  HMAC also gives the opaque subject keys of app/launch/rate_limit_keys.py.
\<close>

section \<open>HMAC and PBKDF2\<close>

fun sha_bytes :: "sha_state \<Rightarrow> nat list" where
  "sha_bytes (a, b, c, d, e, f, g, h) = concat (map (\<lambda>w. be_bytes 4 (unat w)) [a, b, c, d, e, f, g, h])"

definition sha256_raw :: "nat list \<Rightarrow> nat list" where
  "sha256_raw m = (let p = sha256_pad m in sha_bytes (sha256_blocks (length p div 64) sha256_init p))"

definition hmac_key :: "nat list \<Rightarrow> nat list" where
  "hmac_key k = (let k' = (if length k > 64 then sha256_raw k else k) in k' @ replicate (64 - length k') 0)"

definition hmac_inner :: "nat list \<Rightarrow> nat list \<Rightarrow> nat list" where
  "hmac_inner k m = map (\<lambda>b. b XOR 92) (hmac_key k) @ sha256_raw (map (\<lambda>b. b XOR 54) (hmac_key k) @ m)"

definition hmac_raw :: "nat list \<Rightarrow> nat list \<Rightarrow> nat list" where
  "hmac_raw k m = sha256_raw (hmac_inner k m)"

definition hmac_hex :: "nat list \<Rightarrow> nat list \<Rightarrow> string" where
  "hmac_hex k m = sha256_hex (hmac_inner k m)"

fun pbkdf2_rounds :: "nat \<Rightarrow> nat list \<Rightarrow> nat list \<Rightarrow> nat list \<Rightarrow> nat list" where
  "pbkdf2_rounds 0 k u t = t"
| "pbkdf2_rounds (Suc n) k u t = (let u' = hmac_raw k u in pbkdf2_rounds n k u' (map2 (XOR) t u'))"

definition pbkdf2_block :: "nat list \<Rightarrow> nat list \<Rightarrow> nat \<Rightarrow> nat \<Rightarrow> nat list" where
  "pbkdf2_block k salt iterations i =
     (let u = hmac_raw k (salt @ be_bytes 4 i) in pbkdf2_rounds (iterations - 1) k u u)"

text \<open>
  The refusals of \<open>pbkdf2_hmac\<close>: \<open>ValueError\<close> for an iteration count or a key length below one,
  \<open>OverflowError\<close> for a count that is no C long.
\<close>

datatype hash_error = HashValueError | HashOverflowError

definition pbkdf2_hmac ::
  "nat list \<Rightarrow> nat list \<Rightarrow> int \<Rightarrow> nat \<Rightarrow> hash_error + nat list" where
  "pbkdf2_hmac password salt iterations dklen =
     (if iterations < - (2 ^ 63) \<or> 2 ^ 63 \<le> iterations then Inl HashOverflowError
      else if iterations < 1 \<or> dklen < 1 then Inl HashValueError
      else Inr (take dklen (concat (map (pbkdf2_block password salt (nat iterations))
                  [1..<Suc ((dklen + 31) div 32)]))))"

section \<open>Bytes and numbers as text\<close>

definition hex_bytes :: "nat list \<Rightarrow> string" where
  "hex_bytes bs = concat (map (\<lambda>b. [hex_digit (b div 16), hex_digit b]) bs)"

definition hex_value :: "char \<Rightarrow> nat option" where
  "hex_value c = (let n = code c in
     if 48 \<le> n \<and> n \<le> 57 then Some (n - 48) else if 97 \<le> n \<and> n \<le> 102 then Some (n - 87)
     else if 65 \<le> n \<and> n \<le> 70 then Some (n - 55) else None)"

text \<open>\<open>bytes.fromhex\<close>: ASCII white space is skipped between bytes; \<open>None\<close> is \<open>ValueError\<close>.\<close>

definition ascii_space :: "char \<Rightarrow> bool" where
  "ascii_space c = (code c = 32 \<or> (9 \<le> code c \<and> code c \<le> 13))"

fun bytes_fromhex :: "string \<Rightarrow> nat list option" where
  "bytes_fromhex [] = Some []"
| "bytes_fromhex [c] = (if ascii_space c then Some [] else None)"
| "bytes_fromhex (c # d # s) =
     (if ascii_space c then bytes_fromhex (d # s)
      else case (hex_value c, hex_value d) of
        (Some h, Some l) \<Rightarrow> map_option (\<lambda>bs. (16 * h + l) # bs) (bytes_fromhex s)
      | _ \<Rightarrow> None)"

text \<open>
  \<open>int(text)\<close>: blanks around, one sign, decimal digits with single underscores between them, at
  most 4300 digits; \<open>None\<close> is \<open>ValueError\<close>.
\<close>

definition digit_value :: "char \<Rightarrow> nat option" where
  "digit_value c = (let n = code c in if 48 \<le> n \<and> n \<le> 57 then Some (n - 48) else None)"

text \<open>\<open>after\<close> tells that the character before was a digit.\<close>

fun decimal_digits :: "bool \<Rightarrow> nat list \<Rightarrow> string \<Rightarrow> nat list option" where
  "decimal_digits after ds [] = (if after then Some (rev ds) else None)"
| "decimal_digits after ds (c # s) =
     (case digit_value c of
        Some d \<Rightarrow> decimal_digits True (d # ds) s
      | None \<Rightarrow> if c = CHR ''_'' \<and> after then decimal_digits False ds s else None)"

definition digits_int :: "nat list \<Rightarrow> int" where
  "digits_int ds = foldl (\<lambda>n d. 10 * n + int d) 0 ds"

definition python_int :: "string \<Rightarrow> int option" where
  "python_int s =
     (let t = strip s;
          negative = (t \<noteq> [] \<and> hd t = CHR ''-'');
          body = (if t \<noteq> [] \<and> (hd t = CHR ''-'' \<or> hd t = CHR ''+'') then tl t else t)
      in case decimal_digits False [] body of
           None \<Rightarrow> None
         | Some ds \<Rightarrow> if length ds > 4300 then None
                      else Some (if negative then - digits_int ds else digits_int ds))"

text \<open>\<open>s.split(c, n)\<close>: at most \<open>n\<close> cuts.\<close>

fun split_at_most :: "nat \<Rightarrow> char \<Rightarrow> string \<Rightarrow> string list" where
  "split_at_most 0 c s = [s]"
| "split_at_most (Suc n) c s =
     (case partition_at c s of (h, found, t) \<Rightarrow> if found then h # split_at_most n c t else [s])"

section \<open>PasswordHasher\<close>

definition PASSWORD_ALGORITHM :: string where
  "PASSWORD_ALGORITHM = ''pbkdf2_sha256''"

definition DEFAULT_ITERATIONS :: int where
  "DEFAULT_ITERATIONS = 260000"

definition SALT_BYTES :: nat where
  "SALT_BYTES = 16"

definition HASH_BYTES :: nat where
  "HASH_BYTES = 32"

definition mk_password_hasher :: "int \<Rightarrow> hash_error + int" where
  "mk_password_hasher iterations = (if iterations < 100000 then Inl HashValueError else Inr iterations)"

definition password_text :: "int \<Rightarrow> nat list \<Rightarrow> nat list \<Rightarrow> string" where
  "password_text iterations salt digest =
     PASSWORD_ALGORITHM @ ''$'' @ int_text iterations @ ''$'' @ hex_bytes salt @ ''$'' @ hex_bytes digest"

definition hash_password :: "int \<Rightarrow> nat list \<Rightarrow> string \<Rightarrow> hash_error + string" where
  "hash_password iterations salt password =
     (if password = [] then Inl HashValueError
      else and_then (pbkdf2_hmac (utf8 password) salt iterations HASH_BYTES) (\<lambda>digest.
        Inr (password_text iterations salt digest)))"

text \<open>
  \<open>verify\<close>: a text that is not of the form is \<open>False\<close>; what \<open>pbkdf2_hmac\<close> raises on the parsed
  numbers is not caught.
\<close>

definition verify_password :: "string \<Rightarrow> string \<Rightarrow> hash_error + bool" where
  "verify_password password password_hash =
     (if password = [] \<or> password_hash = [] then Inr False
      else case split_at_most 3 (CHR ''$'') password_hash of
        [algorithm, iterations_s, salt_hex, digest_hex] \<Rightarrow>
          if algorithm \<noteq> PASSWORD_ALGORITHM then Inr False
          else (case (python_int iterations_s, bytes_fromhex salt_hex, bytes_fromhex digest_hex) of
            (Some iterations, Some salt, Some expected) \<Rightarrow>
              and_then (pbkdf2_hmac (utf8 password) salt iterations (length expected)) (\<lambda>actual.
                Inr (actual = expected))
          | _ \<Rightarrow> Inr False)
      | _ \<Rightarrow> Inr False)"

section \<open>Shapes\<close>

lemma length_be_bytes [simp]: "length (be_bytes k n) = k"
  by (induction k arbitrary: n) auto

lemma be_bytes_bound: "b \<in> set (be_bytes k n) \<Longrightarrow> b < 256"
  by (induction k arbitrary: n) auto

lemma sha_bytes_shape: "length (sha_bytes st) = 32 \<and> (\<forall>b\<in>set (sha_bytes st). b < 256)"
  by (cases st rule: sha_bytes.cases) (auto simp del: be_bytes.simps dest: be_bytes_bound)

lemma hmac_shape: "length (hmac_raw k m) = 32" "b \<in> set (hmac_raw k m) \<Longrightarrow> b < 256"
  using sha_bytes_shape by (auto simp: hmac_raw_def sha256_raw_def Let_def)

lemma hmac_hex64 [simp]: "hex64 (hmac_hex k m)"
  by (simp add: hmac_hex_def)

lemma xor_byte:
  assumes "a < 256" and "b < 256"
  shows "(a XOR b :: nat) < 256"
proof -
  have byte: "take_bit 8 n = n \<longleftrightarrow> n < 256" for n :: nat
    by (simp add: take_bit_nat_eq_self_iff)
  show ?thesis using assms by (simp add: byte [symmetric] take_bit_xor)
qed

lemma rounds_shape:
  assumes "length t = 32" and "\<forall>b\<in>set t. b < 256"
  shows "length (pbkdf2_rounds n k u t) = 32 \<and> (\<forall>b\<in>set (pbkdf2_rounds n k u t). b < 256)"
  using assms
proof (induction n arbitrary: u t)
  case (Suc n)
  have "a XOR b < 256" if "(a, b) \<in> set (zip t (hmac_raw k u))" for a b
    using that Suc.prems(2) hmac_shape(2) by (intro xor_byte) (auto dest: set_zip_leftD set_zip_rightD)
  then have "\<forall>b\<in>set (map2 (XOR) t (hmac_raw k u)). b < 256" by auto
  with Suc.prems(1) Suc.IH [of "map2 (XOR) t (hmac_raw k u)" "hmac_raw k u"] show ?case
    by (simp add: Let_def hmac_shape(1) del: set_map)
qed simp

lemma block_shape: "length (pbkdf2_block k s n i) = 32 \<and> (\<forall>b\<in>set (pbkdf2_block k s n i). b < 256)"
  unfolding pbkdf2_block_def Let_def by (intro rounds_shape hmac_shape(1) ballI hmac_shape(2))

lemma derived_key_shape:
  assumes "pbkdf2_hmac p s n 32 = Inr key"
  shows "length key = 32 \<and> (\<forall>b\<in>set key. b < 256)"
  using assms block_shape by (auto simp: pbkdf2_hmac_def split: if_splits)

section \<open>Round trips of the text form\<close>

lemma hex_value_digit [simp]: "n < 16 \<Longrightarrow> hex_value (hex_digit n) = Some n"
proof -
  assume "n < 16"
  then have "n \<in> set [0..<16]" by simp
  moreover have "\<forall>k\<in>set [0..<16]. hex_value (hex_digit k) = Some k" by code_simp
  ultimately show ?thesis by blast
qed

lemma hex_digit_mod [simp]: "hex_digit (n mod 16) = hex_digit n"
  by (simp add: hex_digit_def)

lemma hex_digit_not_space [simp]: "\<not> ascii_space (hex_digit n)"
proof -
  have "\<forall>c\<in>set ''0123456789abcdef''. \<not> ascii_space c" by code_simp
  then show ?thesis using hex_digit_lower_hex [of n] by (auto simp: is_lower_hex_def)
qed

lemma fromhex_hex: "\<forall>b\<in>set bs. b < 256 \<Longrightarrow> bytes_fromhex (hex_bytes bs) = Some bs"
proof (induction bs)
  case (Cons b bs)
  have "hex_value (hex_digit b) = Some (b mod 16)"
    using hex_value_digit [of "b mod 16"] by simp
  moreover have "hex_value (hex_digit (b div 16)) = Some (b div 16)"
    using Cons.prems by (intro hex_value_digit) (simp add: div_less_iff_less_mult)
  ultimately show ?case using Cons by (simp add: hex_bytes_def)
qed (simp add: hex_bytes_def)

lemma no_dollar_hex: "CHR ''$'' \<notin> set (hex_bytes bs)"
proof -
  have "is_lower_hex (CHR ''$'') = False" by code_simp
  then show ?thesis using hex_digit_lower_hex by (auto simp: hex_bytes_def)
qed

lemma decimal_append:
  "list_all (\<lambda>c. digit_value c \<noteq> None) s \<Longrightarrow> decimal_digits a ds (s @ t) =
     decimal_digits (a \<or> s \<noteq> []) (rev (map (the \<circ> digit_value) s) @ ds) t"
  by (induction s arbitrary: a ds) auto

lemma digit_value_char [simp]: "d < 10 \<Longrightarrow> digit_value (char_of (48 + d)) = Some d"
  by (simp add: digit_value_def)

lemma nat_digits_digits: "list_all (\<lambda>c. digit_value c \<noteq> None) (nat_digits n) \<and> nat_digits n \<noteq> []"
proof (induction n rule: nat_digits.induct)
  case (1 n)
  then show ?case by (subst (1 2) nat_digits.simps) (simp add: )
qed

lemma digits_int_snoc: "digits_int (ds @ [d]) = 10 * digits_int ds + int d"
  by (simp add: digits_int_def)

lemma nat_digits_value: "digits_int (map (the \<circ> digit_value) (nat_digits n)) = int n"
proof (induction n rule: nat_digits.induct)
  case (1 n)
  show ?case
  proof (cases "n < 10")
    case True
    then show ?thesis by (subst nat_digits.simps) (simp add: digits_int_def)
  next
    case False
    have "int n = 10 * int (n div 10) + int (n mod 10)" by presburger
    with False 1 [OF False] show ?thesis by (subst nat_digits.simps) (simp add: digits_int_snoc comp_def)
  qed
qed

lemma nat_digits_short: "n < 10 ^ Suc k \<Longrightarrow> length (nat_digits n) \<le> Suc k"
proof (induction k arbitrary: n)
  case 0
  then show ?case by (subst nat_digits.simps) simp
next
  case (Suc k)
  then have "n div 10 < 10 ^ Suc k" by (simp add: div_less_iff_less_mult mult.commute)
  with Suc.IH [of "n div 10"] show ?case by (subst nat_digits.simps) simp
qed

text \<open>A number of at most 4300 digits is what its text says.\<close>

lemma python_int_text:
  assumes "0 \<le> i" and "i < 2 ^ 63"
  shows "python_int (int_text i) = Some i"
proof -
  let ?s = "nat_digits (nat i)"
  have digits: "list_all (\<lambda>c. digit_value c \<noteq> None) ?s" and ne: "?s \<noteq> []"
    using nat_digits_digits by auto
  have plain: "\<not> isspace c \<and> c \<noteq> CHR ''-'' \<and> c \<noteq> CHR ''+''" if "digit_value c \<noteq> None" for c
    using that by (auto simp: digit_value_def isspace_def Let_def code_def split: if_splits)
  have strip: "strip ?s = ?s"
    using digits plain by (intro strip_no_space) (auto simp: list_all_iff)
  have head: "hd ?s \<noteq> CHR ''-''" "hd ?s \<noteq> CHR ''+''"
    using digits ne plain [of "hd ?s"] by (auto simp: list_all_iff)
  have parsed: "decimal_digits False [] ?s = Some (map (the \<circ> digit_value) ?s)"
    using decimal_append [OF digits, of False "[]" "[]"] ne by simp
  have "nat i < 10 ^ Suc 19" using assms by simp
  then have "length ?s \<le> Suc 19" by (rule nat_digits_short)
  then have "length ?s \<le> 4300" by simp
  then show ?thesis
    using assms strip head parsed by (simp add: python_int_def int_text_def Let_def nat_digits_value)
qed

lemma no_dollar_int: "0 \<le> i \<Longrightarrow> CHR ''$'' \<notin> set (int_text i)"
proof -
  have "digit_value (CHR ''$'') = None" by code_simp
  then show "0 \<le> i \<Longrightarrow> CHR ''$'' \<notin> set (int_text i)"
    using nat_digits_digits [of "nat i"] by (auto simp: int_text_def list_all_iff)
qed

lemma split_cut: "c \<notin> set h \<Longrightarrow> split_at_most (Suc n) c (h @ c # t) = h # split_at_most n c t"
proof -
  assume "c \<notin> set h"
  then have "takeWhile (\<lambda>x. x \<noteq> c) (h @ c # t) = h" and "dropWhile (\<lambda>x. x \<noteq> c) (h @ c # t) = c # t"
    by (induction h) auto
  then show ?thesis by (simp add: partition_at_def)
qed

section \<open>What a stored password hash is worth\<close>

lemma stored_hash_split:
  assumes "0 \<le> n"
  shows "split_at_most 3 (CHR ''$'') (password_text n salt key) =
    [PASSWORD_ALGORITHM, int_text n, hex_bytes salt, hex_bytes key]"
proof -
  have "CHR ''$'' \<notin> set PASSWORD_ALGORITHM" by (simp add: PASSWORD_ALGORITHM_def)
  then show ?thesis
    using no_dollar_hex no_dollar_int [OF assms]
    by (simp add: password_text_def numeral_3_eq_3 split_cut del: split_at_most.simps(2))
qed

lemma hash_password_runs:
  assumes "1 \<le> n" and "n < 2 ^ 63" and "password \<noteq> []"
  shows "\<exists>stored. hash_password n salt password = Inr stored"
  using assms by (simp add: hash_password_def pbkdf2_hmac_def HASH_BYTES_def)

lemma stored_hash_checks:
  assumes stored: "hash_password n salt password = Inr stored"
    and n: "1 \<le> n" "n < 2 ^ 63" and salt: "\<forall>b\<in>set salt. b < 256"
  shows "\<exists>key. pbkdf2_hmac (utf8 password) salt n HASH_BYTES = Inr key \<and> password \<noteq> [] \<and>
    (\<forall>other. verify_password other stored =
       Inr (other \<noteq> [] \<and> pbkdf2_hmac (utf8 other) salt n HASH_BYTES = Inr key))"
proof -
  obtain key where key: "pbkdf2_hmac (utf8 password) salt n 32 = Inr key" "stored = password_text n salt key"
    and ne: "password \<noteq> []"
    using stored by (auto simp: hash_password_def HASH_BYTES_def and_then_Inr_iff split: if_splits)
  have "stored \<noteq> []" by (simp add: key(2) password_text_def)
  moreover have "length key = 32" "\<forall>b\<in>set key. b < 256" using derived_key_shape [OF key(1)] by auto
  moreover have "\<exists>k. pbkdf2_hmac p salt n 32 = Inr k" for p using n by (simp add: pbkdf2_hmac_def)
  ultimately have "verify_password other stored =
      Inr (other \<noteq> [] \<and> pbkdf2_hmac (utf8 other) salt n 32 = Inr key)" for other
    using n salt
    by (auto simp: key(2) verify_password_def stored_hash_split python_int_text fromhex_hex and_then_def
      split: sum.split) (metis sum.distinct(1))+
  with key(1) ne show ?thesis by (auto simp: HASH_BYTES_def)
qed

text \<open>
  C27: a password hash round-trips.  With a hasher the constructor accepts and 16 random bytes, hashing a
  nonblank password succeeds, and verifying any password against the text written answers exactly
  whether it is nonblank and derives the same key; the password itself is accepted.
\<close>

theorem password_roundtrip:
  assumes "mk_password_hasher iterations = Inr n" and "n < 2 ^ 63"
    and "length salt = SALT_BYTES" and "\<forall>b\<in>set salt. b < 256" and "password \<noteq> []"
  shows "\<exists>stored key. hash_password n salt password = Inr stored \<and>
    pbkdf2_hmac (utf8 password) salt n HASH_BYTES = Inr key \<and>
    verify_password password stored = Inr True \<and>
    (\<forall>other. verify_password other stored =
       Inr (other \<noteq> [] \<and> pbkdf2_hmac (utf8 other) salt n HASH_BYTES = Inr key))"
proof -
  have n: "1 \<le> n" using assms(1) by (simp add: mk_password_hasher_def split: if_splits)
  obtain stored where stored: "hash_password n salt password = Inr stored"
    using hash_password_runs [OF n assms(2,5)] by blast
  from stored_hash_checks [OF stored n assms(2,4)] stored show ?thesis by auto
qed

theorem password_roundtrip_witness:
  "\<exists>stored key. hash_password 260000 (replicate 16 7) ''Correct1horse'' = Inr stored \<and>
    pbkdf2_hmac (utf8 ''Correct1horse'') (replicate 16 7) 260000 HASH_BYTES = Inr key \<and>
    verify_password ''Correct1horse'' stored = Inr True \<and>
    (\<forall>other. verify_password other stored =
       Inr (other \<noteq> [] \<and> pbkdf2_hmac (utf8 other) (replicate 16 7) 260000 HASH_BYTES = Inr key))"
  by (rule password_roundtrip [of DEFAULT_ITERATIONS])
    (simp_all add: DEFAULT_ITERATIONS_def mk_password_hasher_def SALT_BYTES_def)

end
