(* ===== verification/AccountRepos.thy ===== *)
theory AccountRepos
  imports KeyedStore PasswordHash
begin

text \<open>
  The account records of app/domain/entities/user_platform.py and their repositories: the
  process-local ones of app/user/memory.py and the shared ones of
  app/infrastructure/database/repositories/user_platform_repository.py on the operational store.  Both
  are the same record of operations, \<open>account_ports\<close>, over one state, which is what AuthService
  holds.  Every repository call of the shared store is a transaction of its own.

  Password resets and e-mail verifications have the same fields and the same code; the model has it once,
  polymorphic in the record, and e-mail changes extend it.
\<close>

section \<open>Records\<close>

record user =
  u_user_id :: string
  u_email :: string
  u_password_hash :: string
  u_display_name :: string
  u_is_active :: bool
  u_email_verified :: bool
  u_created_at :: "datetime option"
  u_updated_at :: "datetime option"

record user_session =
  se_session_id :: string
  se_user_id :: string
  se_token_hash :: string
  se_created_at :: datetime
  se_expires_at :: datetime
  se_remember_me :: bool
  se_last_seen_at :: "datetime option"
  se_user_agent :: "string option"
  se_ip_hint :: "string option"
  se_csrf_token :: "string option"
  se_revoked :: bool

record token_request =
  tr_id :: string
  tr_user_id :: string
  tr_token_hash :: string
  tr_created_at :: datetime
  tr_expires_at :: datetime
  tr_consumed :: bool

record email_change = token_request +
  ec_new_email :: string
  ec_purpose :: string

record policy_acceptance =
  pa_record_id :: string
  pa_user_id :: string
  pa_policy_type :: string
  pa_version_id :: string
  pa_accepted_at :: datetime
  pa_source :: string
  pa_actor :: "string option"

text \<open>What registration writes of a profile and of its settings; their other fields are the defaults.\<close>

record user_profile =
  pf_user_id :: string
  pf_display_name :: string
  pf_version :: int
  pf_changed_at :: datetime

record user_settings =
  us_user_id :: string
  us_updated_at :: datetime

text \<open>
  The exceptions: the UserPlatform ones with their message, a comparison of an aware with a naive time,
  the persistence errors, a missing identity secret, and what the hasher and the limiter store raise.
\<close>

datatype auth_error =
    AuthError string
  | UserValidationError string
  | UserConflict string
  | UserNotFound string
  | TooMany string
  | AuthTypeError
  | PersistenceConflict
  | PersistenceUnavailable
  | IdentitySecretMissing
  | HasherError hash_error
  | LimiterIndexError

text \<open>\<open>email.strip().lower()\<close>\<close>

definition email_key :: "string \<Rightarrow> string" where
  "email_key email = map to_lower (strip email)"

definition already_registered :: "string \<Rightarrow> auth_error" where
  "already_registered email = UserValidationError (''Email already registered: '' @ email)"

section \<open>The operations of a store\<close>

record ('w, 't) token_ports =
  tp_save :: "'w \<Rightarrow> 't \<Rightarrow> 'w \<times> (auth_error + unit)"
  tp_by_hash :: "'w \<Rightarrow> string \<Rightarrow> 't option"
  tp_consume :: "'w \<Rightarrow> string \<Rightarrow> 'w \<times> (auth_error + unit)"

record 'w account_ports =
  ap_user_by_id :: "'w \<Rightarrow> string \<Rightarrow> user option"
  ap_user_by_email :: "'w \<Rightarrow> string \<Rightarrow> user option"
  ap_save_user :: "'w \<Rightarrow> user \<Rightarrow> 'w \<times> (auth_error + unit)"
  ap_session_by_hash :: "'w \<Rightarrow> string \<Rightarrow> user_session option"
  ap_save_session :: "'w \<Rightarrow> user_session \<Rightarrow> 'w \<times> (auth_error + unit)"
  ap_revoke :: "'w \<Rightarrow> string \<Rightarrow> 'w \<times> (auth_error + unit)"
  ap_revoke_all :: "'w \<Rightarrow> string \<Rightarrow> 'w \<times> (auth_error + unit)"
  ap_resets :: "('w, token_request) token_ports"
  ap_verifications :: "('w, token_request) token_ports"
  ap_changes :: "('w, email_change) token_ports"
  ap_changes_of :: "'w \<Rightarrow> string \<Rightarrow> email_change list"
  ap_consent :: "'w \<Rightarrow> string \<Rightarrow> string \<Rightarrow> string \<Rightarrow> policy_acceptance option"
  ap_save_consent :: "'w \<Rightarrow> policy_acceptance \<Rightarrow> 'w \<times> (auth_error + policy_acceptance)"
  ap_save_profile :: "'w \<Rightarrow> user_profile \<Rightarrow> 'w \<times> (auth_error + unit)"
  ap_save_settings :: "'w \<Rightarrow> user_settings \<Rightarrow> 'w \<times> (auth_error + unit)"

section \<open>app/user/memory.py\<close>

text \<open>A repository with an index: the entities by id, and the ids by e-mail or by token hash.\<close>

record 'e indexed =
  ix_by_id :: "(string, 'e) dict"
  ix_by_key :: "(string, string) dict"

text \<open>\<open>self._by_id.get(i) if i else None\<close> for what the index answers.\<close>

definition ix_find :: "'e indexed \<Rightarrow> string \<Rightarrow> 'e option" where
  "ix_find s key =
     (case dict_get (ix_by_key s) key of
        None \<Rightarrow> None | Some i \<Rightarrow> if i = [] then None else dict_get (ix_by_id s) i)"

definition mem_save_user :: "user indexed \<Rightarrow> user \<Rightarrow> user indexed \<times> (auth_error + unit)" where
  "mem_save_user s u =
     (let email = email_key (u_email u) in
      if (case dict_get (ix_by_key s) email of None \<Rightarrow> False | Some i \<Rightarrow> i \<noteq> [] \<and> i \<noteq> u_user_id u)
      then (s, Inl (already_registered email))
      else (\<lparr>ix_by_id = dict_set (u_user_id u) u (ix_by_id s),
             ix_by_key = dict_set email (u_user_id u)
               (filter (\<lambda>(k, i). \<not> (i = u_user_id u \<and> k \<noteq> email)) (ix_by_key s))\<rparr>, Inr ()))"

definition mem_delete_user :: "user indexed \<Rightarrow> string \<Rightarrow> user indexed \<times> bool" where
  "mem_delete_user s user_id =
     (case dict_get (ix_by_id s) user_id of
        None \<Rightarrow> (s, False)
      | Some u \<Rightarrow>
          (let email = email_key (u_email u) in
           (\<lparr>ix_by_id = dict_del user_id (ix_by_id s),
             ix_by_key = (if dict_get (ix_by_key s) email = Some user_id then dict_del email (ix_by_key s)
                          else ix_by_key s)\<rparr>, True)))"

definition mem_save_session :: "user_session indexed \<Rightarrow> user_session \<Rightarrow> user_session indexed" where
  "mem_save_session s se =
     (let i = se_session_id se;
          index = (case dict_get (ix_by_id s) i of
            None \<Rightarrow> ix_by_key s
          | Some previous \<Rightarrow>
              if dict_get (ix_by_key s) (se_token_hash previous) = Some i
              then dict_del (se_token_hash previous) (ix_by_key s) else ix_by_key s)
      in \<lparr>ix_by_id = dict_set i se (ix_by_id s), ix_by_key = dict_set (se_token_hash se) i index\<rparr>)"

definition mem_revoke :: "user_session indexed \<Rightarrow> string \<Rightarrow> user_session indexed" where
  "mem_revoke s session_id =
     (case dict_get (ix_by_id s) session_id of
        None \<Rightarrow> s | Some se \<Rightarrow> mem_save_session s (se\<lparr>se_revoked := True\<rparr>))"

definition mem_revoke_all :: "user_session indexed \<Rightarrow> string \<Rightarrow> user_session indexed" where
  "mem_revoke_all s user_id =
     foldl (\<lambda>s (_, se). if se_user_id se = user_id \<and> \<not> se_revoked se
              then mem_revoke s (se_session_id se) else s) s (ix_by_id s)"

definition mem_delete_sessions :: "user_session indexed \<Rightarrow> string \<Rightarrow> user_session indexed" where
  "mem_delete_sessions s user_id =
     foldl (\<lambda>s (_, se). if se_user_id se = user_id
              then \<lparr>ix_by_id = dict_del (se_session_id se) (ix_by_id s),
                    ix_by_key = (if dict_get (ix_by_key s) (se_token_hash se) = Some (se_session_id se)
                                 then dict_del (se_token_hash se) (ix_by_key s) else ix_by_key s)\<rparr>
              else s) s (ix_by_id s)"

definition mem_save_token ::
  "'a token_request_scheme indexed \<Rightarrow> 'a token_request_scheme \<Rightarrow> 'a token_request_scheme indexed" where
  "mem_save_token s t = \<lparr>ix_by_id = dict_set (tr_id t) t (ix_by_id s),
     ix_by_key = dict_set (tr_token_hash t) (tr_id t) (ix_by_key s)\<rparr>"

definition mem_mark_consumed ::
  "'a token_request_scheme indexed \<Rightarrow> string \<Rightarrow> 'a token_request_scheme indexed" where
  "mem_mark_consumed s i =
     (case dict_get (ix_by_id s) i of
        None \<Rightarrow> s
      | Some t \<Rightarrow> s\<lparr>ix_by_id := dict_set i (t\<lparr>tr_consumed := True\<rparr>) (ix_by_id s)\<rparr>)"

definition mem_tokens_of :: "'a token_request_scheme indexed \<Rightarrow> string \<Rightarrow> 'a token_request_scheme list" where
  "mem_tokens_of s user_id = filter (\<lambda>t. tr_user_id t = user_id) (map snd (ix_by_id s))"

definition mem_find_consent ::
  "(string, policy_acceptance) dict \<Rightarrow> string \<Rightarrow> string \<Rightarrow> string \<Rightarrow> policy_acceptance option" where
  "mem_find_consent s user_id policy_type version_id =
     find (\<lambda>r. pa_user_id r = user_id \<and> pa_policy_type r = policy_type \<and> pa_version_id r = version_id)
       (map snd s)"

definition mem_save_consent ::
  "(string, policy_acceptance) dict \<Rightarrow> policy_acceptance
     \<Rightarrow> (string, policy_acceptance) dict \<times> policy_acceptance" where
  "mem_save_consent s r =
     (case mem_find_consent s (pa_user_id r) (pa_policy_type r) (pa_version_id r) of
        Some existing \<Rightarrow> (s, existing)
      | None \<Rightarrow> (dict_set (pa_record_id r) r s, r))"

record mem_accounts =
  ma_users :: "user indexed"
  ma_sessions :: "user_session indexed"
  ma_resets :: "token_request indexed"
  ma_verifications :: "token_request indexed"
  ma_changes :: "email_change indexed"
  ma_consents :: "(string, policy_acceptance) dict"
  ma_profiles :: "(string, user_profile) dict"
  ma_settings :: "(string, user_settings) dict"

text \<open>The ports of the composite InMemoryUserPlatformStore.\<close>

definition mem_account_ports :: "mem_accounts account_ports" where
  "mem_account_ports = \<lparr>
     ap_user_by_id = (\<lambda>w i. dict_get (ix_by_id (ma_users w)) i),
     ap_user_by_email = (\<lambda>w e. ix_find (ma_users w) (email_key e)),
     ap_save_user = (\<lambda>w u. case mem_save_user (ma_users w) u of (s, r) \<Rightarrow> (w\<lparr>ma_users := s\<rparr>, r)),
     ap_session_by_hash = (\<lambda>w h. ix_find (ma_sessions w) h),
     ap_save_session = (\<lambda>w se. (w\<lparr>ma_sessions := mem_save_session (ma_sessions w) se\<rparr>, Inr ())),
     ap_revoke = (\<lambda>w i. (w\<lparr>ma_sessions := mem_revoke (ma_sessions w) i\<rparr>, Inr ())),
     ap_revoke_all = (\<lambda>w i. (w\<lparr>ma_sessions := mem_revoke_all (ma_sessions w) i\<rparr>, Inr ())),
     ap_resets = \<lparr>tp_save = (\<lambda>w t. (w\<lparr>ma_resets := mem_save_token (ma_resets w) t\<rparr>, Inr ())),
       tp_by_hash = (\<lambda>w h. ix_find (ma_resets w) h),
       tp_consume = (\<lambda>w i. (w\<lparr>ma_resets := mem_mark_consumed (ma_resets w) i\<rparr>, Inr ()))\<rparr>,
     ap_verifications =
       \<lparr>tp_save = (\<lambda>w t. (w\<lparr>ma_verifications := mem_save_token (ma_verifications w) t\<rparr>, Inr ())),
       tp_by_hash = (\<lambda>w h. ix_find (ma_verifications w) h),
       tp_consume = (\<lambda>w i. (w\<lparr>ma_verifications := mem_mark_consumed (ma_verifications w) i\<rparr>, Inr ()))\<rparr>,
     ap_changes = \<lparr>tp_save = (\<lambda>w t. (w\<lparr>ma_changes := mem_save_token (ma_changes w) t\<rparr>, Inr ())),
       tp_by_hash = (\<lambda>w h. ix_find (ma_changes w) h),
       tp_consume = (\<lambda>w i. (w\<lparr>ma_changes := mem_mark_consumed (ma_changes w) i\<rparr>, Inr ()))\<rparr>,
     ap_changes_of = (\<lambda>w i. mem_tokens_of (ma_changes w) i),
     ap_consent = (\<lambda>w. mem_find_consent (ma_consents w)),
     ap_save_consent = (\<lambda>w r. case mem_save_consent (ma_consents w) r of
        (s, saved) \<Rightarrow> (w\<lparr>ma_consents := s\<rparr>, Inr saved)),
     ap_save_profile = (\<lambda>w p. (w\<lparr>ma_profiles := dict_set (pf_user_id p) p (ma_profiles w)\<rparr>, Inr ())),
     ap_save_settings = (\<lambda>w p. (w\<lparr>ma_settings := dict_set (us_user_id p) p (ma_settings w)\<rparr>, Inr ()))\<rparr>"

section \<open>user_platform_repository.py\<close>

text \<open>An upsert in a transaction: a conflict leaves the table as it was.\<close>

definition sql_put ::
  "'e keyed_table \<Rightarrow> string \<Rightarrow> 'e \<Rightarrow> string option \<Rightarrow> string option \<Rightarrow> 'e keyed_table \<times> (auth_error + unit)" where
  "sql_put t i e secondary owner =
     (case keyed_upsert t i e secondary owner of
        None \<Rightarrow> (t, Inl PersistenceConflict) | Some t' \<Rightarrow> (t', Inr ()))"

definition sql_save_user :: "user keyed_table \<Rightarrow> user \<Rightarrow> user keyed_table \<times> (auth_error + unit)" where
  "sql_save_user t u =
     (let email = email_key (u_email u) in
      case get_by_secondary t email of
        Some existing \<Rightarrow>
          if u_user_id existing \<noteq> u_user_id u then (t, Inl (already_registered email))
          else (case keyed_upsert t (u_user_id u) u (Some email) None of
              None \<Rightarrow> (t, Inl (already_registered email)) | Some t' \<Rightarrow> (t', Inr ()))
      | None \<Rightarrow> (case keyed_upsert t (u_user_id u) u (Some email) None of
              None \<Rightarrow> (t, Inl (already_registered email)) | Some t' \<Rightarrow> (t', Inr ())))"

definition sql_delete_user :: "user keyed_table \<Rightarrow> string \<Rightarrow> user keyed_table \<times> bool" where
  "sql_delete_user t user_id =
     (if keyed_get t user_id = None then (t, False) else keyed_delete t user_id)"

definition sql_save_session ::
  "user_session keyed_table \<Rightarrow> user_session \<Rightarrow> user_session keyed_table \<times> (auth_error + unit)" where
  "sql_save_session t se =
     sql_put t (se_session_id se) se (Some (se_token_hash se)) (Some (se_user_id se))"

definition sql_revoke ::
  "user_session keyed_table \<Rightarrow> string \<Rightarrow> user_session keyed_table \<times> (auth_error + unit)" where
  "sql_revoke t session_id =
     (case keyed_get t session_id of
        None \<Rightarrow> (t, Inr ()) | Some se \<Rightarrow> sql_save_session t (se\<lparr>se_revoked := True\<rparr>))"

text \<open>One transaction: the upserts one after the other, and the table as it was if one of them fails.\<close>

fun sql_revoke_each :: "user_session keyed_table \<Rightarrow> user_session list \<Rightarrow> user_session keyed_table option" where
  "sql_revoke_each t [] = Some t"
| "sql_revoke_each t (se # ses) =
     (if se_revoked se then sql_revoke_each t ses
      else case sql_save_session t (se\<lparr>se_revoked := True\<rparr>) of
        (t', Inl _) \<Rightarrow> None | (t', Inr _) \<Rightarrow> sql_revoke_each t' ses)"

definition sql_revoke_all ::
  "user_session keyed_table \<Rightarrow> string \<Rightarrow> user_session keyed_table \<times> (auth_error + unit)" where
  "sql_revoke_all t user_id =
     (case sql_revoke_each t (keyed_list t (Some user_id)) of
        None \<Rightarrow> (t, Inl PersistenceConflict) | Some t' \<Rightarrow> (t', Inr ()))"

definition sql_delete_sessions :: "user_session keyed_table \<Rightarrow> string \<Rightarrow> user_session keyed_table" where
  "sql_delete_sessions t user_id =
     foldl (\<lambda>t se. fst (keyed_delete t (se_session_id se))) t (keyed_list t (Some user_id))"

definition sql_save_token ::
  "'a token_request_scheme keyed_table \<Rightarrow> 'a token_request_scheme
     \<Rightarrow> 'a token_request_scheme keyed_table \<times> (auth_error + unit)" where
  "sql_save_token t r = sql_put t (tr_id r) r (Some (tr_token_hash r)) (Some (tr_user_id r))"

definition sql_mark_consumed ::
  "'a token_request_scheme keyed_table \<Rightarrow> string
     \<Rightarrow> 'a token_request_scheme keyed_table \<times> (auth_error + unit)" where
  "sql_mark_consumed t i =
     (case keyed_get t i of
        None \<Rightarrow> (t, Inr ()) | Some r \<Rightarrow> sql_save_token t (r\<lparr>tr_consumed := True\<rparr>))"

definition consent_identity_key :: "string \<Rightarrow> string \<Rightarrow> string \<Rightarrow> string" where
  "consent_identity_key user_id policy_type version_id =
     user_id @ '':'' @ policy_type @ '':'' @ version_id"

definition sql_find_consent ::
  "policy_acceptance keyed_table \<Rightarrow> string \<Rightarrow> string \<Rightarrow> string \<Rightarrow> policy_acceptance option" where
  "sql_find_consent t user_id policy_type version_id =
     get_by_secondary t (consent_identity_key user_id policy_type version_id)"

definition sql_save_consent ::
  "policy_acceptance keyed_table \<Rightarrow> policy_acceptance
     \<Rightarrow> policy_acceptance keyed_table \<times> (auth_error + policy_acceptance)" where
  "sql_save_consent t r =
     (let key = consent_identity_key (pa_user_id r) (pa_policy_type r) (pa_version_id r) in
      case get_by_secondary t key of
        Some existing \<Rightarrow> (t, Inr existing)
      | None \<Rightarrow>
          (case keyed_upsert t (pa_record_id r) r (Some key) (Some (pa_user_id r)) of
             Some t' \<Rightarrow> (t', Inr r)
           | None \<Rightarrow> (case get_by_secondary t key of
               Some existing \<Rightarrow> (t, Inr existing) | None \<Rightarrow> (t, Inl PersistenceConflict))))"

record sql_accounts =
  sa_users :: "user keyed_table"
  sa_sessions :: "user_session keyed_table"
  sa_resets :: "token_request keyed_table"
  sa_verifications :: "token_request keyed_table"
  sa_changes :: "email_change keyed_table"
  sa_consents :: "policy_acceptance keyed_table"
  sa_profiles :: "user_profile keyed_table"
  sa_settings :: "user_settings keyed_table"

text \<open>The ports of the composite SqlAlchemyUserPlatformStore.\<close>

definition sql_account_ports :: "sql_accounts account_ports" where
  "sql_account_ports = \<lparr>
     ap_user_by_id = (\<lambda>w i. keyed_get (sa_users w) i),
     ap_user_by_email = (\<lambda>w e. get_by_secondary (sa_users w) (email_key e)),
     ap_save_user = (\<lambda>w u. case sql_save_user (sa_users w) u of (t, r) \<Rightarrow> (w\<lparr>sa_users := t\<rparr>, r)),
     ap_session_by_hash = (\<lambda>w h. get_by_secondary (sa_sessions w) h),
     ap_save_session = (\<lambda>w se. case sql_save_session (sa_sessions w) se of (t, r) \<Rightarrow> (w\<lparr>sa_sessions := t\<rparr>, r)),
     ap_revoke = (\<lambda>w i. case sql_revoke (sa_sessions w) i of (t, r) \<Rightarrow> (w\<lparr>sa_sessions := t\<rparr>, r)),
     ap_revoke_all = (\<lambda>w i. case sql_revoke_all (sa_sessions w) i of (t, r) \<Rightarrow> (w\<lparr>sa_sessions := t\<rparr>, r)),
     ap_resets =
       \<lparr>tp_save = (\<lambda>w t. case sql_save_token (sa_resets w) t of (s, r) \<Rightarrow> (w\<lparr>sa_resets := s\<rparr>, r)),
       tp_by_hash = (\<lambda>w h. get_by_secondary (sa_resets w) h),
       tp_consume = (\<lambda>w i. case sql_mark_consumed (sa_resets w) i of (s, r) \<Rightarrow> (w\<lparr>sa_resets := s\<rparr>, r))\<rparr>,
     ap_verifications =
       \<lparr>tp_save = (\<lambda>w t. case sql_save_token (sa_verifications w) t of (s, r) \<Rightarrow> (w\<lparr>sa_verifications := s\<rparr>, r)),
       tp_by_hash = (\<lambda>w h. get_by_secondary (sa_verifications w) h),
       tp_consume = (\<lambda>w i. case sql_mark_consumed (sa_verifications w) i of
          (s, r) \<Rightarrow> (w\<lparr>sa_verifications := s\<rparr>, r))\<rparr>,
     ap_changes =
       \<lparr>tp_save = (\<lambda>w t. case sql_save_token (sa_changes w) t of (s, r) \<Rightarrow> (w\<lparr>sa_changes := s\<rparr>, r)),
       tp_by_hash = (\<lambda>w h. get_by_secondary (sa_changes w) h),
       tp_consume = (\<lambda>w i. case sql_mark_consumed (sa_changes w) i of (s, r) \<Rightarrow> (w\<lparr>sa_changes := s\<rparr>, r))\<rparr>,
     ap_changes_of = (\<lambda>w i. keyed_list (sa_changes w) (Some i)),
     ap_consent = (\<lambda>w. sql_find_consent (sa_consents w)),
     ap_save_consent = (\<lambda>w r. case sql_save_consent (sa_consents w) r of (t, a) \<Rightarrow> (w\<lparr>sa_consents := t\<rparr>, a)),
     ap_save_profile = (\<lambda>w p. case sql_put (sa_profiles w) (pf_user_id p) p None (Some (pf_user_id p)) of
        (t, r) \<Rightarrow> (w\<lparr>sa_profiles := t\<rparr>, r)),
     ap_save_settings = (\<lambda>w p. case sql_put (sa_settings w) (us_user_id p) p None (Some (us_user_id p)) of
        (t, r) \<Rightarrow> (w\<lparr>sa_settings := t\<rparr>, r))\<rparr>"

end
