(* ===== verification/AccountStores.thy ===== *)
theory AccountStores
  imports AccountRepos
begin

text \<open>
  What AuthService relies on of an account store, as the locale \<open>account_store\<close> over three instances of
  \<open>token_store\<close>, and both stores as its providers.  A store is seen as the maps from ids to users,
  sessions and token requests; the laws say which entities are found by e-mail and by token hash, and what
  every write does to the maps.
\<close>

section \<open>The view of a store\<close>

record account_view =
  av_users :: "string \<Rightarrow> user option"
  av_sessions :: "string \<Rightarrow> user_session option"
  av_resets :: "string \<Rightarrow> token_request option"
  av_verifications :: "string \<Rightarrow> token_request option"
  av_changes :: "string \<Rightarrow> email_change option"

text \<open>Every entity is at its nonblank id, and no two of them share a key.\<close>

definition keyed_map :: "('e \<Rightarrow> string) \<Rightarrow> ('e \<Rightarrow> string) \<Rightarrow> (string \<Rightarrow> 'e option) \<Rightarrow> bool" where
  "keyed_map idf keyf m =
     ((\<forall>i e. m i = Some e \<longrightarrow> idf e = i \<and> i \<noteq> []) \<and>
      (\<forall>i j d e. m i = Some d \<longrightarrow> m j = Some e \<longrightarrow> keyf d = keyf e \<longrightarrow> i = j))"

definition view_ok :: "account_view \<Rightarrow> bool" where
  "view_ok v =
     (keyed_map u_user_id (email_key \<circ> u_email) (av_users v) \<and>
      keyed_map se_session_id se_token_hash (av_sessions v) \<and>
      keyed_map tr_id tr_token_hash (av_resets v) \<and>
      keyed_map tr_id tr_token_hash (av_verifications v) \<and>
      keyed_map tr_id tr_token_hash (av_changes v))"

text \<open>An entity of another id has the key.\<close>

definition key_elsewhere :: "('e \<Rightarrow> string) \<Rightarrow> (string \<Rightarrow> 'e option) \<Rightarrow> string \<Rightarrow> string \<Rightarrow> bool" where
  "key_elsewhere keyf m i k = (\<exists>j e. m j = Some e \<and> j \<noteq> i \<and> keyf e = k)"

definition revoked_for :: "string \<Rightarrow> (string \<Rightarrow> user_session option) \<Rightarrow> string \<Rightarrow> user_session option" where
  "revoked_for u m = (\<lambda>i. map_option (\<lambda>se. if se_user_id se = u then se\<lparr>se_revoked := True\<rparr> else se) (m i))"

definition revoked_at :: "string \<Rightarrow> (string \<Rightarrow> user_session option) \<Rightarrow> string \<Rightarrow> user_session option" where
  "revoked_at i m = (case m i of None \<Rightarrow> m | Some se \<Rightarrow> m(i \<mapsto> se\<lparr>se_revoked := True\<rparr>))"

definition consumed_at ::
  "string \<Rightarrow> (string \<Rightarrow> 'a token_request_scheme option) \<Rightarrow> string \<Rightarrow> 'a token_request_scheme option" where
  "consumed_at i m = (case m i of None \<Rightarrow> m | Some t \<Rightarrow> m(i \<mapsto> t\<lparr>tr_consumed := True\<rparr>))"

section \<open>The interfaces\<close>

locale token_store =
  fixes tp :: "('w, 'a token_request_scheme) token_ports"
    and ok :: "'w \<Rightarrow> bool"
    and view :: "'w \<Rightarrow> 'v"
    and tokens :: "'v \<Rightarrow> string \<Rightarrow> 'a token_request_scheme option"
    and with_tokens :: "(string \<Rightarrow> 'a token_request_scheme option) \<Rightarrow> 'v \<Rightarrow> 'v"
  assumes token_by_hash: "ok w \<Longrightarrow> tp_by_hash tp w h = Some t \<longleftrightarrow>
      (\<exists>i. tokens (view w) i = Some t \<and> tr_token_hash t = h)"
    and token_save: "ok w \<Longrightarrow> tr_id t \<noteq> [] \<Longrightarrow> tokens (view w) (tr_id t) = None \<Longrightarrow>
      \<not> key_elsewhere tr_token_hash (tokens (view w)) (tr_id t) (tr_token_hash t) \<Longrightarrow>
      \<exists>w'. tp_save tp w t = (w', Inr ()) \<and> ok w' \<and>
        view w' = with_tokens ((tokens (view w))(tr_id t \<mapsto> t)) (view w)"
    and token_consume: "ok w \<Longrightarrow>
      \<exists>w'. tp_consume tp w i = (w', Inr ()) \<and> ok w' \<and>
        view w' = with_tokens (consumed_at i (tokens (view w))) (view w)"

locale account_store =
  resets: token_store "ap_resets P" ok view av_resets "\<lambda>m v. v\<lparr>av_resets := m\<rparr>" +
  verifications: token_store "ap_verifications P" ok view av_verifications "\<lambda>m v. v\<lparr>av_verifications := m\<rparr>" +
  changes: token_store "ap_changes P" ok view av_changes "\<lambda>m v. v\<lparr>av_changes := m\<rparr>"
  for P :: "'w account_ports" and ok :: "'w \<Rightarrow> bool" and view :: "'w \<Rightarrow> account_view" +
  assumes well_formed: "ok w \<Longrightarrow> view_ok (view w)"
    and by_id: "ok w \<Longrightarrow> ap_user_by_id P w i = av_users (view w) i"
    and by_email: "ok w \<Longrightarrow> ap_user_by_email P w e = Some u \<longleftrightarrow>
      (\<exists>i. av_users (view w) i = Some u \<and> email_key (u_email u) = email_key e)"
    and save_user_taken: "ok w \<Longrightarrow> u_user_id u \<noteq> [] \<Longrightarrow>
      key_elsewhere (email_key \<circ> u_email) (av_users (view w)) (u_user_id u) (email_key (u_email u)) \<Longrightarrow>
      ap_save_user P w u = (w, Inl (already_registered (email_key (u_email u))))"
    and save_user: "ok w \<Longrightarrow> u_user_id u \<noteq> [] \<Longrightarrow>
      \<not> key_elsewhere (email_key \<circ> u_email) (av_users (view w)) (u_user_id u) (email_key (u_email u)) \<Longrightarrow>
      \<exists>w'. ap_save_user P w u = (w', Inr ()) \<and> ok w' \<and>
        view w' = (view w)\<lparr>av_users := (av_users (view w))(u_user_id u \<mapsto> u)\<rparr>"
    and by_hash: "ok w \<Longrightarrow> ap_session_by_hash P w h = Some se \<longleftrightarrow>
      (\<exists>i. av_sessions (view w) i = Some se \<and> se_token_hash se = h)"
    and save_session: "ok w \<Longrightarrow> se_session_id se \<noteq> [] \<Longrightarrow>
      \<not> key_elsewhere se_token_hash (av_sessions (view w)) (se_session_id se) (se_token_hash se) \<Longrightarrow>
      \<exists>w'. ap_save_session P w se = (w', Inr ()) \<and> ok w' \<and>
        view w' = (view w)\<lparr>av_sessions := (av_sessions (view w))(se_session_id se \<mapsto> se)\<rparr>"
    and revoke: "ok w \<Longrightarrow> \<exists>w'. ap_revoke P w i = (w', Inr ()) \<and> ok w' \<and>
        view w' = (view w)\<lparr>av_sessions := revoked_at i (av_sessions (view w))\<rparr>"
    and revoke_all: "ok w \<Longrightarrow> \<exists>w'. ap_revoke_all P w owner = (w', Inr ()) \<and> ok w' \<and>
        view w' = (view w)\<lparr>av_sessions := revoked_for owner (av_sessions (view w))\<rparr>"
    and changes_of: "ok w \<Longrightarrow> set (ap_changes_of P w owner) =
      {c. \<exists>i. av_changes (view w) i = Some c \<and> tr_user_id c = owner}"
    and save_consent: "ok w \<Longrightarrow> ok (fst (ap_save_consent P w r)) \<and> view (fst (ap_save_consent P w r)) = view w"
    and save_profile: "ok w \<Longrightarrow> ok (fst (ap_save_profile P w p)) \<and> view (fst (ap_save_profile P w p)) = view w"
    and save_settings: "ok w \<Longrightarrow> ok (fst (ap_save_settings P w s)) \<and> view (fst (ap_save_settings P w s)) = view w"

section \<open>The process-local store\<close>

text \<open>The ids index the entities, and the key index has exactly their keys.\<close>

definition ix_ok :: "('e \<Rightarrow> string) \<Rightarrow> ('e \<Rightarrow> string) \<Rightarrow> 'e indexed \<Rightarrow> bool" where
  "ix_ok idf keyf s =
     (dict_ok (ix_by_id s) \<and> dict_ok (ix_by_key s) \<and>
      (\<forall>i e. dict_get (ix_by_id s) i = Some e \<longrightarrow> idf e = i \<and> i \<noteq> [] \<and> dict_get (ix_by_key s) (keyf e) = Some i) \<and>
      (\<forall>k i. dict_get (ix_by_key s) k = Some i \<longrightarrow> (\<exists>e. dict_get (ix_by_id s) i = Some e \<and> keyf e = k)))"

lemma ix_ok_empty [simp]: "ix_ok idf keyf \<lparr>ix_by_id = [], ix_by_key = []\<rparr>"
  by (simp add: ix_ok_def)

lemma ix_ok_keyed: "ix_ok idf keyf s \<Longrightarrow> keyed_map idf keyf (dict_get (ix_by_id s))"
  unfolding ix_ok_def keyed_map_def by (metis option.inject)

lemma ix_find_iff:
  assumes "ix_ok idf keyf s"
  shows "ix_find s k = Some e \<longleftrightarrow> (\<exists>i. dict_get (ix_by_id s) i = Some e \<and> keyf e = k)"
proof
  assume "ix_find s k = Some e"
  then obtain i where "dict_get (ix_by_key s) k = Some i" "dict_get (ix_by_id s) i = Some e"
    by (auto simp: ix_find_def split: option.splits if_splits)
  with assms show "\<exists>i. dict_get (ix_by_id s) i = Some e \<and> keyf e = k"
    unfolding ix_ok_def by (metis option.inject)
next
  assume "\<exists>i. dict_get (ix_by_id s) i = Some e \<and> keyf e = k"
  then obtain i where "dict_get (ix_by_id s) i = Some e" "keyf e = k" by blast
  with assms show "ix_find s k = Some e" by (auto simp: ix_ok_def ix_find_def)
qed

text \<open>Writing one entity keeps the index when its key is free and its old key is dropped.\<close>

lemma ix_ok_put:
  assumes ok: "ix_ok idf keyf s" and i: "idf e = i" "i \<noteq> []"
    and free: "\<not> key_elsewhere keyf (dict_get (ix_by_id s)) i (keyf e)"
    and dicts: "dict_ok (ix_by_id s')" "dict_ok (ix_by_key s')"
    and ids: "dict_get (ix_by_id s') = (dict_get (ix_by_id s))(i \<mapsto> e)"
    and keys: "\<And>k. dict_get (ix_by_key s') k = (if k = keyf e then Some i
      else if dict_get (ix_by_key s) k = Some i then None else dict_get (ix_by_key s) k)"
  shows "ix_ok idf keyf s'"
proof -
  have at: "idf d = j \<and> j \<noteq> [] \<and> dict_get (ix_by_key s) (keyf d) = Some j" if "dict_get (ix_by_id s) j = Some d" for j d
    using ok that by (simp add: ix_ok_def)
  have to: "\<exists>d. dict_get (ix_by_id s) j = Some d \<and> keyf d = k" if "dict_get (ix_by_key s) k = Some j" for k j
    using ok that by (simp add: ix_ok_def)
  have "keyf d \<noteq> keyf e" if "dict_get (ix_by_id s) j = Some d" "j \<noteq> i" for j d
    using free that by (auto simp: key_elsewhere_def)
  then show ?thesis
    unfolding ix_ok_def ids keys using dicts i at to by (auto split: if_splits)
qed


lemma ix_key_taken:
  assumes "ix_ok idf keyf s"
  shows "(case dict_get (ix_by_key s) k of None \<Rightarrow> False | Some j \<Rightarrow> j \<noteq> [] \<and> j \<noteq> i) \<longleftrightarrow>
    key_elsewhere keyf (dict_get (ix_by_id s)) i k"
  using assms unfolding ix_ok_def key_elsewhere_def by (auto split: option.splits) blast+

abbreviation user_ix_ok :: "user indexed \<Rightarrow> bool" where
  "user_ix_ok \<equiv> ix_ok u_user_id (email_key \<circ> u_email)"

abbreviation session_ix_ok :: "user_session indexed \<Rightarrow> bool" where
  "session_ix_ok \<equiv> ix_ok se_session_id se_token_hash"

abbreviation token_ix_ok :: "'a token_request_scheme indexed \<Rightarrow> bool" where
  "token_ix_ok \<equiv> ix_ok tr_id tr_token_hash"

lemma mem_save_user_taken:
  assumes "user_ix_ok s"
    and "key_elsewhere (email_key \<circ> u_email) (dict_get (ix_by_id s)) (u_user_id u) (email_key (u_email u))"
  shows "mem_save_user s u = (s, Inl (already_registered (email_key (u_email u))))"
  using assms(2) ix_key_taken [OF assms(1), where k = "email_key (u_email u)" and i = "u_user_id u"]
  by (simp add: mem_save_user_def Let_def)

lemma mem_save_user_free:
  assumes ok: "user_ix_ok s" and u: "u_user_id u \<noteq> []"
    and free: "\<not> key_elsewhere (email_key \<circ> u_email) (dict_get (ix_by_id s)) (u_user_id u) (email_key (u_email u))"
  shows "\<exists>s'. mem_save_user s u = (s', Inr ()) \<and> user_ix_ok s' \<and>
    dict_get (ix_by_id s') = (dict_get (ix_by_id s))(u_user_id u \<mapsto> u)"
proof -
  let ?email = "email_key (u_email u)"
  let ?index = "filter (\<lambda>(k, i). \<not> (i = u_user_id u \<and> k \<noteq> ?email)) (ix_by_key s)"
  let ?s = "\<lparr>ix_by_id = dict_set (u_user_id u) u (ix_by_id s), ix_by_key = dict_set ?email (u_user_id u) ?index\<rparr>"
  have dicts: "dict_ok (ix_by_id s)" "dict_ok (ix_by_key s)" using ok by (simp_all add: ix_ok_def)
  have "mem_save_user s u = (?s, Inr ())"
    using free ix_key_taken [OF ok, where k = ?email and i = "u_user_id u"] by (simp add: mem_save_user_def Let_def)
  moreover have "user_ix_ok ?s"
    using dicts by (intro ix_ok_put [OF ok refl u]) (use free in
      \<open>auto simp: dict_get_set_map dict_get_set dict_get_filter [OF dicts(2)] split: option.split\<close>)
  ultimately show ?thesis by (auto simp: dict_get_set fun_eq_iff)
qed

lemma mem_save_session_free:
  assumes ok: "session_ix_ok s" and i: "se_session_id se \<noteq> []"
    and free: "\<not> key_elsewhere se_token_hash (dict_get (ix_by_id s)) (se_session_id se) (se_token_hash se)"
  shows "session_ix_ok (mem_save_session s se) \<and>
    dict_get (ix_by_id (mem_save_session s se)) = (dict_get (ix_by_id s))(se_session_id se \<mapsto> se)"
proof -
  have dicts: "dict_ok (ix_by_id s)" "dict_ok (ix_by_key s)" using ok by (simp_all add: ix_ok_def)
  have at: "dict_get (ix_by_key s) (se_token_hash d) = Some j" if "dict_get (ix_by_id s) j = Some d" for j d
    using ok that by (simp add: ix_ok_def)
  have to: "\<exists>d. dict_get (ix_by_id s) j = Some d \<and> se_token_hash d = k" if "dict_get (ix_by_key s) k = Some j" for k j
    using ok that by (simp add: ix_ok_def)
  have ids: "dict_get (ix_by_id (mem_save_session s se)) = (dict_get (ix_by_id s))(se_session_id se \<mapsto> se)"
    by (simp add: mem_save_session_def Let_def dict_get_set fun_eq_iff)
  have keys: "dict_get (ix_by_key (mem_save_session s se)) k = (if k = se_token_hash se then Some (se_session_id se)
      else if dict_get (ix_by_key s) k = Some (se_session_id se) then None else dict_get (ix_by_key s) k)" for k
    using to at by (fastforce simp: mem_save_session_def Let_def dict_get_set dict_get_del split: option.splits)
  have "session_ix_ok (mem_save_session s se)"
    using dicts by (intro ix_ok_put [OF ok refl i free _ _ ids keys])
      (auto simp: mem_save_session_def Let_def split: option.splits)
  with ids show ?thesis by blast
qed

lemma keyed_map_same:
  assumes "keyed_map idf keyf m" and "m i = Some e"
  shows "\<not> key_elsewhere keyf m i (keyf e)"
  using assms unfolding keyed_map_def key_elsewhere_def by metis

lemma mem_revoke_law:
  assumes "session_ix_ok s"
  shows "session_ix_ok (mem_revoke s i) \<and>
    dict_get (ix_by_id (mem_revoke s i)) = revoked_at i (dict_get (ix_by_id s))"
proof (cases "dict_get (ix_by_id s) i")
  case None
  then show ?thesis using assms by (simp add: mem_revoke_def revoked_at_def)
next
  case (Some se)
  then have i: "se_session_id se = i" "i \<noteq> []" using assms by (auto simp: ix_ok_def)
  let ?se = "se\<lparr>se_revoked := True\<rparr>"
  have kept: "se_session_id ?se = i" "se_token_hash ?se = se_token_hash se" using i by simp_all
  have "\<not> key_elsewhere se_token_hash (dict_get (ix_by_id s)) i (se_token_hash se)"
    by (rule keyed_map_same [OF ix_ok_keyed [OF assms] Some])
  then show ?thesis
    using mem_save_session_free [OF assms, of ?se, unfolded kept] i(2)
    unfolding mem_revoke_def revoked_at_def Some option.case by blast
qed

text \<open>The loop over a snapshot of the sessions.\<close>

lemma mem_revoke_each:
  assumes "f = (\<lambda>s (_ :: string, se). if se_user_id se = u \<and> \<not> se_revoked se
      then mem_revoke s (se_session_id se) else s)"
    and "session_ix_ok s" and "\<forall>(i, se)\<in>set xs. dict_get (ix_by_id s) i = Some se" and "distinct (map fst xs)"
  shows "session_ix_ok (foldl f s xs) \<and> dict_get (ix_by_id (foldl f s xs)) =
      (\<lambda>i. if i \<in> fst ` set xs then revoked_for u (dict_get (ix_by_id s)) i else dict_get (ix_by_id s) i)"
  using assms(2-4)
proof (induction xs arbitrary: s)
  case Nil
  then show ?case by simp
next
  case (Cons x xs)
  obtain i se where x: "x = (i, se)" by (cases x)
  have here: "dict_get (ix_by_id s) i = Some se" using Cons.prems(2) by (simp add: x)
  then have i: "se_session_id se = i" using Cons.prems(1) by (auto simp: ix_ok_def)
  define s1 where "s1 = f s x"
  have s1: "s1 = (if se_user_id se = u \<and> \<not> se_revoked se then mem_revoke s i else s)"
    by (simp add: s1_def assms(1) x i)
  have ok1: "session_ix_ok s1"
    using Cons.prems(1) mem_revoke_law [OF Cons.prems(1), of i] by (simp add: s1)
  have ids1: "dict_get (ix_by_id s1) j =
      (if j = i then revoked_for u (dict_get (ix_by_id s)) j else dict_get (ix_by_id s) j)" for j
    using mem_revoke_law [OF Cons.prems(1), of i] here
    by (auto simp: s1 revoked_at_def revoked_for_def)
  have "dict_get (ix_by_id s1) j = Some d" if jd: "(j, d) \<in> set xs" for j d
  proof -
    have "j \<noteq> i" using Cons.prems(3) jd by (force simp: x)
    moreover have "dict_get (ix_by_id s) j = Some d" using Cons.prems(2) jd by auto
    ultimately show ?thesis by (simp add: ids1)
  qed
  then have "\<forall>(j, d)\<in>set xs. dict_get (ix_by_id s1) j = Some d" by blast
  with Cons.IH [OF ok1] Cons.prems(3)
  have rest: "session_ix_ok (foldl f s1 xs)" "dict_get (ix_by_id (foldl f s1 xs)) j =
      (if j \<in> fst ` set xs then revoked_for u (dict_get (ix_by_id s1)) j else dict_get (ix_by_id s1) j)" for j
    by simp_all
  have "dict_get (ix_by_id (foldl f s1 xs)) j =
      (if j \<in> fst ` set (x # xs) then revoked_for u (dict_get (ix_by_id s)) j else dict_get (ix_by_id s) j)" for j
    using Cons.prems(3) by (auto simp: rest(2) ids1 x revoked_for_def)
  with rest(1) show ?case by (simp add: s1_def fun_eq_iff)
qed

lemma mem_revoke_all_law:
  assumes "session_ix_ok s"
  shows "session_ix_ok (mem_revoke_all s u) \<and>
    dict_get (ix_by_id (mem_revoke_all s u)) = revoked_for u (dict_get (ix_by_id s))"
proof -
  have d: "dict_ok (ix_by_id s)" using assms by (simp add: ix_ok_def)
  have "revoked_for u (dict_get (ix_by_id s)) i = dict_get (ix_by_id s) i" if "i \<notin> fst ` set (ix_by_id s)" for i
    using that by (simp add: revoked_for_def map_of_eq_None_iff [THEN iffD2])
  then have "(\<lambda>i. if i \<in> fst ` set (ix_by_id s) then revoked_for u (dict_get (ix_by_id s)) i
      else dict_get (ix_by_id s) i) = revoked_for u (dict_get (ix_by_id s))" by (auto simp: fun_eq_iff)
  with mem_revoke_each [OF refl assms, of "ix_by_id s" u] d show ?thesis
    by (auto simp: mem_revoke_all_def dict_ok_def dict_get_in_set [OF d])
qed

lemma mem_save_token_law:
  assumes ok: "token_ix_ok s" and i: "tr_id t \<noteq> []" and fresh: "dict_get (ix_by_id s) (tr_id t) = None"
    and free: "\<not> key_elsewhere tr_token_hash (dict_get (ix_by_id s)) (tr_id t) (tr_token_hash t)"
  shows "token_ix_ok (mem_save_token s t) \<and>
    dict_get (ix_by_id (mem_save_token s t)) = (dict_get (ix_by_id s))(tr_id t \<mapsto> t)"
proof -
  have dicts: "dict_ok (ix_by_id s)" "dict_ok (ix_by_key s)" using ok by (simp_all add: ix_ok_def)
  have ids: "dict_get (ix_by_id (mem_save_token s t)) = (dict_get (ix_by_id s))(tr_id t \<mapsto> t)"
    by (simp add: mem_save_token_def dict_get_set fun_eq_iff)
  have "dict_get (ix_by_key s) k \<noteq> Some (tr_id t)" for k
    using ok fresh unfolding ix_ok_def by (metis option.distinct(1))
  then have keys: "dict_get (ix_by_key (mem_save_token s t)) k = (if k = tr_token_hash t then Some (tr_id t)
      else if dict_get (ix_by_key s) k = Some (tr_id t) then None else dict_get (ix_by_key s) k)" for k
    by (simp add: mem_save_token_def dict_get_set)
  have "token_ix_ok (mem_save_token s t)"
    using dicts by (intro ix_ok_put [OF ok refl i free _ _ ids keys]) (auto simp: mem_save_token_def)
  with ids show ?thesis by blast
qed

lemma mem_mark_consumed_law:
  assumes ok: "token_ix_ok s"
  shows "token_ix_ok (mem_mark_consumed s i) \<and>
    dict_get (ix_by_id (mem_mark_consumed s i)) = consumed_at i (dict_get (ix_by_id s))"
proof (cases "dict_get (ix_by_id s) i")
  case None
  then show ?thesis using ok by (simp add: mem_mark_consumed_def consumed_at_def)
next
  case (Some t)
  then show ?thesis
    using ok by (auto simp: mem_mark_consumed_def consumed_at_def ix_ok_def dict_get_set_map) (metis option.inject)+
qed

definition mem_accounts_ok :: "mem_accounts \<Rightarrow> bool" where
  "mem_accounts_ok w = (user_ix_ok (ma_users w) \<and> session_ix_ok (ma_sessions w) \<and>
     token_ix_ok (ma_resets w) \<and> token_ix_ok (ma_verifications w) \<and> token_ix_ok (ma_changes w))"

definition mem_account_view :: "mem_accounts \<Rightarrow> account_view" where
  "mem_account_view w = \<lparr>av_users = dict_get (ix_by_id (ma_users w)),
     av_sessions = dict_get (ix_by_id (ma_sessions w)), av_resets = dict_get (ix_by_id (ma_resets w)),
     av_verifications = dict_get (ix_by_id (ma_verifications w)), av_changes = dict_get (ix_by_id (ma_changes w))\<rparr>"

lemmas mem_account_defs = mem_accounts_ok_def mem_account_view_def mem_account_ports_def

lemmas mem_laws =
  mem_save_session_free [THEN conjunct1] mem_save_session_free [THEN conjunct2]
  mem_revoke_law [THEN conjunct1] mem_revoke_law [THEN conjunct2]
  mem_revoke_all_law [THEN conjunct1] mem_revoke_all_law [THEN conjunct2]
  mem_save_token_law [THEN conjunct1] mem_save_token_law [THEN conjunct2]
  mem_mark_consumed_law [THEN conjunct1] mem_mark_consumed_law [THEN conjunct2]

lemmas ix_finds =
  ix_find_iff [of u_user_id "email_key \<circ> u_email"] ix_find_iff [of se_session_id se_token_hash]
  ix_find_iff [of tr_id tr_token_hash]

interpretation mem_accounts: account_store mem_account_ports mem_accounts_ok mem_account_view
proof unfold_locales
  fix w assume "mem_accounts_ok w"
  then show "view_ok (mem_account_view w)"
    using ix_ok_keyed [of u_user_id "email_key \<circ> u_email" "ma_users w"]
      ix_ok_keyed [of se_session_id se_token_hash "ma_sessions w"]
      ix_ok_keyed [of tr_id tr_token_hash "ma_resets w"]
      ix_ok_keyed [of tr_id tr_token_hash "ma_verifications w"]
      ix_ok_keyed [of tr_id tr_token_hash "ma_changes w"]
    by (simp add: mem_account_defs view_ok_def)
next
  fix w and u :: user assume "mem_accounts_ok w" "u_user_id u \<noteq> []"
    "\<not> key_elsewhere (email_key \<circ> u_email) (av_users (mem_account_view w)) (u_user_id u) (email_key (u_email u))"
  then obtain s' where "mem_save_user (ma_users w) u = (s', Inr ())" "user_ix_ok s'"
    "dict_get (ix_by_id s') = (dict_get (ix_by_id (ma_users w)))(u_user_id u \<mapsto> u)"
    using mem_save_user_free [of "ma_users w" u] by (auto simp: mem_account_defs)
  with \<open>mem_accounts_ok w\<close> show "\<exists>w'. ap_save_user mem_account_ports w u = (w', Inr ()) \<and> mem_accounts_ok w' \<and>
      mem_account_view w' = (mem_account_view w)\<lparr>av_users := (av_users (mem_account_view w))(u_user_id u \<mapsto> u)\<rparr>"
    by (simp add: mem_account_defs)
next
  fix w owner assume ok: "mem_accounts_ok w"
  then have "dict_ok (ix_by_id (ma_changes w))" by (simp add: mem_accounts_ok_def ix_ok_def)
  then show "set (ap_changes_of mem_account_ports w owner) =
      {c. \<exists>i. av_changes (mem_account_view w) i = Some c \<and> tr_user_id c = owner}"
    by (force simp: mem_account_defs mem_tokens_of_def dict_get_in_set)
qed (auto simp: mem_account_defs mem_laws ix_finds mem_save_user_taken split: prod.split)

section \<open>The shared store\<close>

text \<open>Every row is at its entity's nonblank id, under the entity's key and owner.\<close>

definition kt_ok ::
  "('e \<Rightarrow> string) \<Rightarrow> ('e \<Rightarrow> string) \<Rightarrow> ('e \<Rightarrow> string option) \<Rightarrow> 'e keyed_table \<Rightarrow> bool" where
  "kt_ok idf keyf ownf t = (keyed_ok t \<and>
     (\<forall>i r. dict_get t i = Some r \<longrightarrow> idf (kr_payload r) = i \<and> i \<noteq> [] \<and>
        kr_secondary r = Some (keyf (kr_payload r)) \<and> kr_owner r = ownf (kr_payload r)))"

lemma kt_ok_empty [simp]: "kt_ok idf keyf ownf []"
  by (simp add: kt_ok_def)

lemma kt_okD:
  assumes "kt_ok idf keyf ownf t" and "dict_get t i = Some r"
  shows "idf (kr_payload r) = i" "i \<noteq> []" "kr_secondary r = Some (keyf (kr_payload r))"
    "kr_owner r = ownf (kr_payload r)"
  using assms by (simp_all add: kt_ok_def)

lemma kt_keyed:
  assumes "kt_ok idf keyf ownf t"
  shows "keyed_map idf keyf (keyed_get t)"
proof -
  have "keyed_ok t" using assms by (simp add: kt_ok_def)
  then show ?thesis
    using kt_okD [OF assms] keyed_unique [of t] unfolding keyed_map_def keyed_get_def by auto
qed

lemma kt_find:
  assumes "kt_ok idf keyf ownf t"
  shows "get_by_secondary t k = Some e \<longleftrightarrow> (\<exists>i. keyed_get t i = Some e \<and> keyf e = k)"
proof -
  have "keyed_ok t" using assms by (simp add: kt_ok_def)
  from get_by_secondary_iff [OF this] show ?thesis
    unfolding keyed_get_def map_option_eq_Some using kt_okD(3) [OF assms] by (metis option.inject)
qed

lemma kt_put:
  assumes ok: "kt_ok idf keyf ownf t" and i: "idf e \<noteq> []"
    and free: "\<not> key_elsewhere keyf (keyed_get t) (idf e) (keyf e)"
  shows "\<exists>t'. keyed_upsert t (idf e) e (Some (keyf e)) (ownf e) = Some t' \<and> kt_ok idf keyf ownf t' \<and>
    keyed_get t' = (keyed_get t)(idf e \<mapsto> e)"
proof -
  have k: "keyed_ok t" using ok by (simp add: kt_ok_def)
  have "keyed_upsert t (idf e) e (Some (keyf e)) (ownf e) \<noteq> None"
    using free kt_okD(3) [OF ok] unfolding keyed_upsert_iff [OF k] key_elsewhere_def keyed_get_def by fastforce
  then obtain t' where t': "keyed_upsert t (idf e) e (Some (keyf e)) (ownf e) = Some t'" by blast
  obtain q where q: "keyed_ok t'" "dict_get t' = (dict_get t)(idf e \<mapsto>
      \<lparr>kr_payload = e, kr_secondary = Some (keyf e), kr_owner = ownf e, kr_seq = q\<rparr>)"
    using keyed_upsert_result [OF k t'] by blast
  have "kt_ok idf keyf ownf t'"
    using q kt_okD [OF ok] i by (auto simp: kt_ok_def)
  moreover have "keyed_get t' = (keyed_get t)(idf e \<mapsto> e)" by (auto simp: keyed_get_def q(2))
  ultimately show ?thesis using t' by blast
qed

lemma kt_list:
  assumes "kt_ok idf keyf ownf t"
  shows "e \<in> set (keyed_list t (Some ow)) \<longleftrightarrow> (\<exists>i. keyed_get t i = Some e \<and> ownf e = Some ow)"
proof -
  have "keyed_ok t" using assms by (simp add: kt_ok_def)
  from keyed_list_member [OF this] show ?thesis
    unfolding keyed_get_def map_option_eq_Some using kt_okD(4) [OF assms] by metis
qed

abbreviation user_kt_ok :: "user keyed_table \<Rightarrow> bool" where
  "user_kt_ok \<equiv> kt_ok u_user_id (email_key \<circ> u_email) (\<lambda>_. None)"

abbreviation session_kt_ok :: "user_session keyed_table \<Rightarrow> bool" where
  "session_kt_ok \<equiv> kt_ok se_session_id se_token_hash (Some \<circ> se_user_id)"

abbreviation token_kt_ok :: "'a token_request_scheme keyed_table \<Rightarrow> bool" where
  "token_kt_ok \<equiv> kt_ok tr_id tr_token_hash (Some \<circ> tr_user_id)"

lemma sql_save_user_taken:
  assumes ok: "user_kt_ok t"
    and taken: "key_elsewhere (email_key \<circ> u_email) (keyed_get t) (u_user_id u) (email_key (u_email u))"
  shows "sql_save_user t u = (t, Inl (already_registered (email_key (u_email u))))"
proof -
  obtain v j where v: "keyed_get t j = Some v" "j \<noteq> u_user_id u" "email_key (u_email v) = email_key (u_email u)"
    using taken by (auto simp: key_elsewhere_def)
  then have "u_user_id v = j" using kt_keyed [OF ok] by (simp add: keyed_map_def)
  moreover have "get_by_secondary t (email_key (u_email u)) = Some v"
    using v kt_find [OF ok] by auto
  ultimately show ?thesis using v(2) by (simp add: sql_save_user_def Let_def)
qed

lemma sql_save_user_free:
  assumes ok: "user_kt_ok t" and i: "u_user_id u \<noteq> []"
    and free: "\<not> key_elsewhere (email_key \<circ> u_email) (keyed_get t) (u_user_id u) (email_key (u_email u))"
  shows "\<exists>t'. sql_save_user t u = (t', Inr ()) \<and> user_kt_ok t' \<and>
    keyed_get t' = (keyed_get t)(u_user_id u \<mapsto> u)"
proof -
  have "(case get_by_secondary t (email_key (u_email u)) of None \<Rightarrow> True | Some v \<Rightarrow> u_user_id v = u_user_id u)"
    using free kt_find [OF ok] kt_keyed [OF ok]
    by (auto simp: key_elsewhere_def keyed_map_def split: option.split) metis
  then show ?thesis
    using kt_put [OF ok i] free by (auto simp: sql_save_user_def Let_def split: option.splits)
qed

lemma sql_save_session_free:
  assumes ok: "session_kt_ok t" and i: "se_session_id se \<noteq> []"
    and free: "\<not> key_elsewhere se_token_hash (keyed_get t) (se_session_id se) (se_token_hash se)"
  shows "\<exists>t'. sql_save_session t se = (t', Inr ()) \<and> session_kt_ok t' \<and>
    keyed_get t' = (keyed_get t)(se_session_id se \<mapsto> se)"
  using kt_put [OF ok i free] by (auto simp: sql_save_session_def sql_put_def)

lemma sql_save_same:
  assumes ok: "session_kt_ok t" and se: "keyed_get t i = Some se"
  shows "\<exists>t'. sql_save_session t (se\<lparr>se_revoked := True\<rparr>) = (t', Inr ()) \<and> session_kt_ok t' \<and>
    keyed_get t' = (keyed_get t)(i \<mapsto> se\<lparr>se_revoked := True\<rparr>)"
proof -
  let ?se = "se\<lparr>se_revoked := True\<rparr>"
  have i: "se_session_id se = i" "i \<noteq> []" using kt_keyed [OF ok] se by (auto simp: keyed_map_def)
  then have kept: "se_session_id ?se = i" "se_token_hash ?se = se_token_hash se" by simp_all
  have "\<not> key_elsewhere se_token_hash (keyed_get t) i (se_token_hash se)"
    by (rule keyed_map_same [OF kt_keyed [OF ok] se])
  then show ?thesis using sql_save_session_free [OF ok, of ?se, unfolded kept] i(2) by blast
qed

lemma sql_revoke_law:
  assumes ok: "session_kt_ok t"
  shows "\<exists>t'. sql_revoke t i = (t', Inr ()) \<and> session_kt_ok t' \<and> keyed_get t' = revoked_at i (keyed_get t)"
  using ok sql_save_same [OF ok, of i] by (cases "keyed_get t i") (auto simp: sql_revoke_def revoked_at_def)

lemma sql_revoke_each_law:
  assumes "session_kt_ok t" and "\<forall>se\<in>set ses. keyed_get t (se_session_id se) = Some se"
    and "distinct (map se_session_id ses)"
  shows "\<exists>t'. sql_revoke_each t ses = Some t' \<and> session_kt_ok t' \<and>
    keyed_get t' = (\<lambda>i. if i \<in> se_session_id ` set ses
      then map_option (\<lambda>se. se\<lparr>se_revoked := True\<rparr>) (keyed_get t i) else keyed_get t i)"
  using assms
proof (induction ses arbitrary: t)
  case (Cons se ses)
  have here: "keyed_get t (se_session_id se) = Some se" using Cons.prems(2) by simp
  obtain t1 where t1: "session_kt_ok t1"
      "keyed_get t1 = (keyed_get t)(se_session_id se \<mapsto> se\<lparr>se_revoked := True\<rparr>)"
      "sql_revoke_each t (se # ses) = sql_revoke_each t1 ses"
  proof (cases "se_revoked se")
    case True
    then have "(keyed_get t)(se_session_id se \<mapsto> se\<lparr>se_revoked := True\<rparr>) = keyed_get t"
      using here by (auto simp: fun_eq_iff)
    then show ?thesis using that [of t] Cons.prems(1) True by simp
  next
    case False
    with sql_save_same [OF Cons.prems(1) here] show ?thesis using that by auto
  qed
  have "keyed_get t1 (se_session_id d) = Some d" if d: "d \<in> set ses" for d
  proof -
    have "se_session_id d \<in> se_session_id ` set ses" using d by blast
    then have "se_session_id d \<noteq> se_session_id se" using Cons.prems(3) by auto
    moreover have "d \<in> set (se # ses)" using d by simp
    ultimately show ?thesis using bspec [OF Cons.prems(2)] unfolding t1(2) by (metis fun_upd_other)
  qed
  then have "\<forall>d\<in>set ses. keyed_get t1 (se_session_id d) = Some d" by blast
  moreover have "distinct (map se_session_id ses)" using Cons.prems(3) by simp
  ultimately obtain t' where t': "sql_revoke_each t1 ses = Some t'" "session_kt_ok t'"
    "keyed_get t' = (\<lambda>i. if i \<in> se_session_id ` set ses
       then map_option (\<lambda>se. se\<lparr>se_revoked := True\<rparr>) (keyed_get t1 i) else keyed_get t1 i)"
    using Cons.IH [OF t1(1)] by blast
  have "keyed_get t' i = (if i \<in> se_session_id ` set (se # ses)
      then map_option (\<lambda>se. se\<lparr>se_revoked := True\<rparr>) (keyed_get t i) else keyed_get t i)" for i
    using here Cons.prems(3) by (auto simp: t'(3) t1(2))
  with t'(1,2) show ?case unfolding t1(3) by (intro exI [of _ t'] conjI ext)
qed simp

lemma keyed_list_distinct:
  assumes "kt_ok idf keyf ownf t"
  shows "distinct (map idf (keyed_list t ow))"
proof -
  have d: "dict_ok t" using assms by (simp add: kt_ok_def keyed_okD)
  have "map (idf \<circ> kr_payload) (map snd t) = map fst t"
    using kt_okD(1) [OF assms] d by (auto simp: dict_get_in_set)
  then have "distinct (map (idf \<circ> kr_payload) (map snd t))" using d unfolding dict_ok_def by (simp only:)
  then have "distinct (map (idf \<circ> kr_payload) (sort_key kr_seq (map snd t)))"
    by (simp only: distinct_map distinct_sort set_sort)
  then show ?thesis
    unfolding keyed_list_def map_map by (rule distinct_map_filter)
qed

lemma sql_revoke_all_law:
  assumes ok: "session_kt_ok t"
  shows "\<exists>t'. sql_revoke_all t u = (t', Inr ()) \<and> session_kt_ok t' \<and> keyed_get t' = revoked_for u (keyed_get t)"
proof -
  let ?ses = "keyed_list t (Some u)"
  have member: "se \<in> set ?ses \<longleftrightarrow> (\<exists>i. keyed_get t i = Some se \<and> se_user_id se = u)" for se
    using kt_list [OF ok, of se u] by simp
  have at: "se_session_id se = i" if "keyed_get t i = Some se" for i se
    using kt_keyed [OF ok] that by (simp add: keyed_map_def)
  then have "\<forall>se\<in>set ?ses. keyed_get t (se_session_id se) = Some se" by (auto simp: member)
  from sql_revoke_each_law [OF ok this keyed_list_distinct [OF ok]] obtain t' where
    t': "sql_revoke_each t ?ses = Some t'" "session_kt_ok t'"
    "keyed_get t' = (\<lambda>i. if i \<in> se_session_id ` set ?ses
       then map_option (\<lambda>se. se\<lparr>se_revoked := True\<rparr>) (keyed_get t i) else keyed_get t i)" by blast
  have "i \<in> se_session_id ` set ?ses \<longleftrightarrow> se_user_id se = u" if "keyed_get t i = Some se" for i se
  proof
    assume "i \<in> se_session_id ` set ?ses"
    then obtain d j where "keyed_get t j = Some d" "se_user_id d = u" "i = se_session_id d" by (auto simp: member)
    with at that show "se_user_id se = u" by (metis option.inject)
  next
    assume "se_user_id se = u"
    with that have "se \<in> set ?ses" using member by blast
    then show "i \<in> se_session_id ` set ?ses" using at [OF that] by force
  qed
  then have "keyed_get t' = revoked_for u (keyed_get t)"
    unfolding t'(3) revoked_for_def by (rule_tac ext, case_tac "keyed_get t i") auto
  with t'(1,2) show ?thesis by (simp add: sql_revoke_all_def)
qed

lemma sql_save_token_law:
  assumes ok: "token_kt_ok t" and i: "tr_id r \<noteq> []"
    and free: "\<not> key_elsewhere tr_token_hash (keyed_get t) (tr_id r) (tr_token_hash r)"
  shows "\<exists>t'. sql_save_token t r = (t', Inr ()) \<and> token_kt_ok t' \<and> keyed_get t' = (keyed_get t)(tr_id r \<mapsto> r)"
  using kt_put [OF ok i free] by (auto simp: sql_save_token_def sql_put_def)

lemma sql_mark_consumed_law:
  assumes ok: "token_kt_ok t"
  shows "\<exists>t'. sql_mark_consumed t i = (t', Inr ()) \<and> token_kt_ok t' \<and> keyed_get t' = consumed_at i (keyed_get t)"
proof (cases "keyed_get t i")
  case None
  then show ?thesis using ok by (simp add: sql_mark_consumed_def consumed_at_def)
next
  case (Some r)
  let ?r = "r\<lparr>tr_consumed := True\<rparr>"
  have i: "tr_id r = i" "i \<noteq> []" using kt_keyed [OF ok] Some by (auto simp: keyed_map_def)
  then have kept: "tr_id ?r = i" "tr_token_hash ?r = tr_token_hash r" by simp_all
  have "\<not> key_elsewhere tr_token_hash (keyed_get t) i (tr_token_hash r)"
    by (rule keyed_map_same [OF kt_keyed [OF ok] Some])
  then show ?thesis
    using sql_save_token_law [OF ok, of ?r, unfolded kept] i(2) Some
    by (simp add: sql_mark_consumed_def consumed_at_def)
qed

definition sql_accounts_ok :: "sql_accounts \<Rightarrow> bool" where
  "sql_accounts_ok w = (user_kt_ok (sa_users w) \<and> session_kt_ok (sa_sessions w) \<and>
     token_kt_ok (sa_resets w) \<and> token_kt_ok (sa_verifications w) \<and> token_kt_ok (sa_changes w))"

definition sql_account_view :: "sql_accounts \<Rightarrow> account_view" where
  "sql_account_view w = \<lparr>av_users = keyed_get (sa_users w), av_sessions = keyed_get (sa_sessions w),
     av_resets = keyed_get (sa_resets w), av_verifications = keyed_get (sa_verifications w),
     av_changes = keyed_get (sa_changes w)\<rparr>"

lemmas sql_account_defs = sql_accounts_ok_def sql_account_view_def sql_account_ports_def

lemmas kt_finds =
  kt_find [of u_user_id "email_key \<circ> u_email"] kt_find [of se_session_id se_token_hash]
  kt_find [of tr_id tr_token_hash]

interpretation sql_accounts: account_store sql_account_ports sql_accounts_ok sql_account_view
proof unfold_locales
  fix w assume "sql_accounts_ok w"
  then show "view_ok (sql_account_view w)"
    by (auto simp: sql_account_defs view_ok_def dest!: kt_keyed)
next
  fix w and u :: user assume "sql_accounts_ok w" "u_user_id u \<noteq> []"
    "\<not> key_elsewhere (email_key \<circ> u_email) (av_users (sql_account_view w)) (u_user_id u) (email_key (u_email u))"
  then obtain t' where "sql_save_user (sa_users w) u = (t', Inr ())" "user_kt_ok t'"
    "keyed_get t' = (keyed_get (sa_users w))(u_user_id u \<mapsto> u)"
    using sql_save_user_free [of "sa_users w" u] by (auto simp: sql_account_defs)
  with \<open>sql_accounts_ok w\<close> show "\<exists>w'. ap_save_user sql_account_ports w u = (w', Inr ()) \<and> sql_accounts_ok w' \<and>
      sql_account_view w' = (sql_account_view w)\<lparr>av_users := (av_users (sql_account_view w))(u_user_id u \<mapsto> u)\<rparr>"
    by (simp add: sql_account_defs)
next
  fix w and se :: user_session assume "sql_accounts_ok w" "se_session_id se \<noteq> []"
    "\<not> key_elsewhere se_token_hash (av_sessions (sql_account_view w)) (se_session_id se) (se_token_hash se)"
  then obtain t' where "sql_save_session (sa_sessions w) se = (t', Inr ())" "session_kt_ok t'"
    "keyed_get t' = (keyed_get (sa_sessions w))(se_session_id se \<mapsto> se)"
    using sql_save_session_free [of "sa_sessions w" se] by (auto simp: sql_account_defs)
  with \<open>sql_accounts_ok w\<close> show "\<exists>w'. ap_save_session sql_account_ports w se = (w', Inr ()) \<and> sql_accounts_ok w' \<and>
      sql_account_view w' = (sql_account_view w)
        \<lparr>av_sessions := (av_sessions (sql_account_view w))(se_session_id se \<mapsto> se)\<rparr>"
    by (simp add: sql_account_defs)
next
  fix w i assume "sql_accounts_ok w"
  with sql_revoke_law [of "sa_sessions w" i]
  show "\<exists>w'. ap_revoke sql_account_ports w i = (w', Inr ()) \<and> sql_accounts_ok w' \<and>
      sql_account_view w' = (sql_account_view w)\<lparr>av_sessions := revoked_at i (av_sessions (sql_account_view w))\<rparr>"
    by (auto simp: sql_account_defs)
next
  fix w owner assume "sql_accounts_ok w"
  with sql_revoke_all_law [of "sa_sessions w" owner]
  show "\<exists>w'. ap_revoke_all sql_account_ports w owner = (w', Inr ()) \<and> sql_accounts_ok w' \<and>
      sql_account_view w' = (sql_account_view w)\<lparr>av_sessions := revoked_for owner (av_sessions (sql_account_view w))\<rparr>"
    by (auto simp: sql_account_defs)
next
  fix w and t :: token_request assume "sql_accounts_ok w" "tr_id t \<noteq> []"
    "\<not> key_elsewhere tr_token_hash (av_resets (sql_account_view w)) (tr_id t) (tr_token_hash t)"
  with sql_save_token_law [of "sa_resets w" t]
  show "\<exists>w'. tp_save (ap_resets sql_account_ports) w t = (w', Inr ()) \<and> sql_accounts_ok w' \<and>
      sql_account_view w' = (sql_account_view w)\<lparr>av_resets := (av_resets (sql_account_view w))(tr_id t \<mapsto> t)\<rparr>"
    by (auto simp: sql_account_defs)
next
  fix w and t :: token_request assume "sql_accounts_ok w" "tr_id t \<noteq> []"
    "\<not> key_elsewhere tr_token_hash (av_verifications (sql_account_view w)) (tr_id t) (tr_token_hash t)"
  with sql_save_token_law [of "sa_verifications w" t]
  show "\<exists>w'. tp_save (ap_verifications sql_account_ports) w t = (w', Inr ()) \<and> sql_accounts_ok w' \<and>
      sql_account_view w' = (sql_account_view w)
        \<lparr>av_verifications := (av_verifications (sql_account_view w))(tr_id t \<mapsto> t)\<rparr>"
    by (auto simp: sql_account_defs)
next
  fix w and t :: email_change assume "sql_accounts_ok w" "tr_id t \<noteq> []"
    "\<not> key_elsewhere tr_token_hash (av_changes (sql_account_view w)) (tr_id t) (tr_token_hash t)"
  with sql_save_token_law [of "sa_changes w" t]
  show "\<exists>w'. tp_save (ap_changes sql_account_ports) w t = (w', Inr ()) \<and> sql_accounts_ok w' \<and>
      sql_account_view w' = (sql_account_view w)\<lparr>av_changes := (av_changes (sql_account_view w))(tr_id t \<mapsto> t)\<rparr>"
    by (auto simp: sql_account_defs)
next
  fix w i assume ok: "sql_accounts_ok w"
  with sql_mark_consumed_law [of "sa_resets w" i]
  show "\<exists>w'. tp_consume (ap_resets sql_account_ports) w i = (w', Inr ()) \<and> sql_accounts_ok w' \<and>
      sql_account_view w' = (sql_account_view w)\<lparr>av_resets := consumed_at i (av_resets (sql_account_view w))\<rparr>"
    by (auto simp: sql_account_defs)
  from ok sql_mark_consumed_law [of "sa_verifications w" i]
  show "\<exists>w'. tp_consume (ap_verifications sql_account_ports) w i = (w', Inr ()) \<and> sql_accounts_ok w' \<and>
      sql_account_view w' = (sql_account_view w)
        \<lparr>av_verifications := consumed_at i (av_verifications (sql_account_view w))\<rparr>"
    by (auto simp: sql_account_defs)
  from ok sql_mark_consumed_law [of "sa_changes w" i]
  show "\<exists>w'. tp_consume (ap_changes sql_account_ports) w i = (w', Inr ()) \<and> sql_accounts_ok w' \<and>
      sql_account_view w' = (sql_account_view w)\<lparr>av_changes := consumed_at i (av_changes (sql_account_view w))\<rparr>"
    by (auto simp: sql_account_defs)
next
  fix w owner assume "sql_accounts_ok w"
  then show "set (ap_changes_of sql_account_ports w owner) =
      {c. \<exists>i. av_changes (sql_account_view w) i = Some c \<and> tr_user_id c = owner}"
    using kt_list [of tr_id tr_token_hash "Some \<circ> tr_user_id" "sa_changes w" _ owner]
    by (auto simp: sql_account_defs)
qed (auto simp: sql_account_defs kt_finds sql_save_user_taken split: prod.split)

end
