(* ===== verification/Accounts.thy ===== *)
theory Accounts
  imports AccountRepos FailedLoginSql RateLimitSql
begin

text \<open>
  app/auth/service.py: AuthService, with the hooks of app/auth/security.py (the attempt limiter over a
  rate-limit store, the audit trail) and the opaque subject keys of app/launch/rate_limit_keys.py.

  A service is its collaborators: the account ports, the failed-login lock over its store, the limiter
  over its store, the mail provider (\<open>send\<close>, which may refuse a message) and the legal catalogue, which
  read files and are parameters.  A call gets the readings of its clock and the fresh identifiers, tokens
  and salt it draws, each by its position in the handler.  \<open>sv_faults\<close> are the repository writes that
  raise in that call.  The audit trail keeps type, account and detail of an event; its own identifiers
  and clock, and the fixed texts of the messages, are left out.  A mail always carries its token here,
  also where no action URL is configured and the code's text has no link.  A session's validation is split into the
  reading part and the writing part, between which other requests can run.
\<close>

section \<open>State\<close>

datatype mail_kind = ResetMail | VerifyMail | ChangeMail | ChangedNotice

record outbound_mail =
  om_kind :: mail_kind
  om_to :: string
  om_token :: string

record audit_event =
  ae_type :: string
  ae_user :: "string option"
  ae_detail :: string

record ('w, 'l, 'r) auth_state =
  au_repo :: 'w
  au_lock :: 'l
  au_rate :: 'r
  au_mail :: "outbound_mail list"
  au_audit :: "audit_event list"

datatype auth_fault =
  AtUserSave | AtSessionSave | AtSessionRevoke | AtRevokeAll | AtTokenSave | AtConsume | AtInvalidate nat

record ('w, 'l, 'r) auth_service =
  sv_ports :: "'w account_ports"
  sv_lock_store :: "'l lock_store"
  sv_policy :: lock_policy
  sv_rate_store :: "'r rate_store"
  sv_max_attempts :: int
  sv_window_seconds :: int
  sv_secret :: "nat list option"
  sv_enabled :: bool
  sv_iterations :: int
  sv_session_ttl :: int
  sv_remember_ttl :: int
  sv_resets_on :: bool
  sv_verifications_on :: bool
  sv_changes_on :: bool
  sv_consents_on :: bool
  sv_inline_tokens :: bool
  sv_published :: "string \<Rightarrow> (string \<times> bool) option"
  sv_send :: "outbound_mail \<Rightarrow> bool"
  sv_faults :: "auth_fault list"

record call_inputs =
  in_clock :: "nat \<Rightarrow> datetime"
  in_id :: "nat \<Rightarrow> string"
  in_token :: "nat \<Rightarrow> string"
  in_salt :: "nat list"

record auth_result =
  ar_user :: user
  ar_session :: user_session
  ar_access_token :: string
  ar_csrf_token :: string

text \<open>A response dictionary: its status, and the demo token where the environment allows it.\<close>

record auth_response =
  re_status :: string
  re_token :: "string option"

text \<open>A state-passing step that may raise, and the next one.\<close>

definition run_then :: "'s \<times> ('e + 'a) \<Rightarrow> ('s \<Rightarrow> 'a \<Rightarrow> 's \<times> ('e + 'b)) \<Rightarrow> 's \<times> ('e + 'b)" where
  "run_then m k = (case m of (s, Inl e) \<Rightarrow> (s, Inl e) | (s, Inr x) \<Rightarrow> k s x)"

lemma run_then_simps [simp]:
  "run_then (s, Inl e) k = (s, Inl e)"
  "run_then (s, Inr x) k = k s x"
  by (simp_all add: run_then_def)

section \<open>Constants\<close>

definition MIN_PASSWORD_LENGTH :: nat where
  "MIN_PASSWORD_LENGTH = 8"

definition PASSWORD_RESET_TTL :: int where
  "PASSWORD_RESET_TTL = 3600"

definition EMAIL_VERIFICATION_TTL :: int where
  "EMAIL_VERIFICATION_TTL = 86400"

definition EMAIL_CHANGE_TTL :: int where
  "EMAIL_CHANGE_TTL = 86400"

definition EMAIL_CHANGE_PURPOSE :: string where
  "EMAIL_CHANGE_PURPOSE = ''email_change''"

definition INVALID_CREDENTIALS :: auth_error where
  "INVALID_CREDENTIALS = AuthError ''Invalid email or password.''"

definition INVALID_RESET_TOKEN :: auth_error where
  "INVALID_RESET_TOKEN = AuthError ''Invalid or expired reset token.''"

definition INVALID_VERIFY_TOKEN :: auth_error where
  "INVALID_VERIFY_TOKEN = AuthError ''Invalid or expired verification token.''"

definition INVALID_EMAIL_CHANGE_TOKEN :: auth_error where
  "INVALID_EMAIL_CHANGE_TOKEN = AuthError ''Invalid or expired email-change token.''"

definition EMAIL_CHANGE_COMPLETION_ERROR :: auth_error where
  "EMAIL_CHANGE_COMPLETION_ERROR = UserValidationError ''Unable to complete email change.''"

definition AUTH_DISABLED :: auth_error where
  "AUTH_DISABLED = UserValidationError ''User platform authentication is disabled.''"

definition LOGIN_ATTEMPT_LIMIT :: auth_error where
  "LOGIN_ATTEMPT_LIMIT = TooMany ''Too many login attempts. Try again later.''"

section \<open>Pure helpers\<close>

text \<open>
  \<open>^[^@\s]+@[^@\s]+\.[^@\s]+$\<close> on a stripped string: no space, one @ with something before it, and
  behind it a dot that is neither first nor last.
\<close>

definition email_shape :: "string \<Rightarrow> bool" where
  "email_shape s =
     (case partition_at (CHR ''@'') s of (name, found, domain) \<Rightarrow>
        found \<and> name \<noteq> [] \<and> CHR ''@'' \<notin> set domain \<and> \<not> list_ex isspace s \<and>
        domain \<noteq> [] \<and> CHR ''.'' \<in> set (butlast (tl domain)))"

definition normalize_email :: "string \<Rightarrow> auth_error + string" where
  "normalize_email email =
     (let cleaned = email_key email in
      if cleaned = [] \<or> \<not> email_shape cleaned then Inl (UserValidationError ''email must be a valid address.'')
      else Inr cleaned)"

text \<open>The characters \<open>str.upper\<close> changes, and the ones \<open>str.isdigit\<close> accepts, up to U+00FF.\<close>

definition has_upper_form :: "char \<Rightarrow> bool" where
  "has_upper_form c = (let n = code c in
     (97 \<le> n \<and> n \<le> 122) \<or> n = 181 \<or> (223 \<le> n \<and> n \<noteq> 247))"

definition isdigit :: "char \<Rightarrow> bool" where
  "isdigit c = (let n = code c in (48 \<le> n \<and> n \<le> 57) \<or> n = 178 \<or> n = 179 \<or> n = 185)"

definition validate_password :: "string \<Rightarrow> auth_error + unit" where
  "validate_password password =
     (if length password < MIN_PASSWORD_LENGTH
      then Inl (UserValidationError ''password must be at least 8 characters.'')
      else if map to_lower password = password \<or> \<not> list_ex has_upper_form password
      then Inl (UserValidationError ''password must include mixed case characters.'')
      else if \<not> list_ex isdigit password
      then Inl (UserValidationError ''password must include at least one digit.'')
      else Inr ())"

definition hash_token :: "string \<Rightarrow> string" where
  "hash_token token = sha256_hex (utf8 token)"

definition opaque_subject_key :: "nat list \<Rightarrow> string \<Rightarrow> string \<Rightarrow> string" where
  "opaque_subject_key secret action material =
     action @ '':'' @ hmac_hex secret
       (utf8 ''dealbrain-rate-limit-v1'' @ [0] @ utf8 action @ [0] @ utf8 material)"

definition abuse_key :: "('w, 'l, 'r) auth_service \<Rightarrow> string \<Rightarrow> string \<Rightarrow> auth_error + string" where
  "abuse_key sv action material =
     (case sv_secret sv of None \<Rightarrow> Inl IdentitySecretMissing | Some k \<Rightarrow> Inr (opaque_subject_key k action material))"

text \<open>\<open>expires_at <= now\<close>\<close>

definition is_over :: "datetime \<Rightarrow> datetime \<Rightarrow> auth_error + bool" where
  "is_over expires_at now = (case dt_less now expires_at of None \<Rightarrow> Inl AuthTypeError | Some b \<Rightarrow> Inr (\<not> b))"

text \<open>\<open>record is None or record.consumed or record.expires_at <= now\<close>: the token still stands.\<close>

definition standing :: "auth_error \<Rightarrow> 'a token_request_scheme option \<Rightarrow> datetime
     \<Rightarrow> auth_error + 'a token_request_scheme" where
  "standing refusal found now =
     (case found of
        None \<Rightarrow> Inl refusal
      | Some t \<Rightarrow> if tr_consumed t then Inl refusal
          else and_then (is_over (tr_expires_at t) now) (\<lambda>over. if over then Inl refusal else Inr t))"

definition live_account :: "auth_error \<Rightarrow> user option \<Rightarrow> auth_error + user" where
  "live_account refusal found =
     (case found of None \<Rightarrow> Inl refusal | Some u \<Rightarrow> if u_is_active u then Inr u else Inl refusal)"

section \<open>Hooks\<close>

definition audited :: "string \<Rightarrow> string option \<Rightarrow> string \<Rightarrow> ('w, 'l, 'r) auth_state \<Rightarrow> ('w, 'l, 'r) auth_state" where
  "audited kind u detail st = st\<lparr>au_audit := au_audit st @ [\<lparr>ae_type = kind, ae_user = u, ae_detail = detail\<rparr>]\<rparr>"

definition raising :: "'s \<Rightarrow> 'e + 'a \<Rightarrow> 's \<times> ('e + 'a)" where
  "raising st r = (st, r)"

text \<open>A repository write, which raises before it changes anything where the call has that fault.\<close>

definition on_repo ::
  "('w, 'l, 'r) auth_service \<Rightarrow> auth_fault \<Rightarrow> ('w \<Rightarrow> 'w \<times> (auth_error + 'a))
     \<Rightarrow> ('w, 'l, 'r) auth_state \<Rightarrow> ('w, 'l, 'r) auth_state \<times> (auth_error + 'a)" where
  "on_repo sv fault f st =
     (if fault \<in> set (sv_faults sv) then (st, Inl PersistenceUnavailable)
      else case f (au_repo st) of (w, r) \<Rightarrow> (st\<lparr>au_repo := w\<rparr>, r))"

text \<open>\<open>RateLimiterHook.check\<close>: an unavailable store denies the attempt.\<close>

definition limiter_check ::
  "('w, 'l, 'r) auth_service \<Rightarrow> string \<Rightarrow> datetime \<Rightarrow> ('w, 'l, 'r) auth_state
     \<Rightarrow> ('w, 'l, 'r) auth_state \<times> (auth_error + bool)" where
  "limiter_check sv key now st =
     (case rs_consume (sv_rate_store sv) (au_rate st) ''auth'' key (sv_max_attempts sv) (sv_window_seconds sv) now of
        (q, Inr c) \<Rightarrow> (st\<lparr>au_rate := q\<rparr>, Inr (rc_allowed c))
      | (q, Inl RateLimitUnavailable) \<Rightarrow> (st\<lparr>au_rate := q\<rparr>, Inr False)
      | (q, Inl _) \<Rightarrow> (st\<lparr>au_rate := q\<rparr>, Inl LimiterIndexError))"

definition limiter_reset ::
  "('w, 'l, 'r) auth_service \<Rightarrow> string \<Rightarrow> ('w, 'l, 'r) auth_state
     \<Rightarrow> ('w, 'l, 'r) auth_state \<times> (auth_error + unit)" where
  "limiter_reset sv key st =
     (case rs_reset (sv_rate_store sv) (au_rate st) (Some ''auth'') (Some key) of
        (q, Inr _) \<Rightarrow> (st\<lparr>au_rate := q\<rparr>, Inr ())
      | (q, Inl RateLimitUnavailable) \<Rightarrow> (st\<lparr>au_rate := q\<rparr>, Inr ())
      | (q, Inl _) \<Rightarrow> (st\<lparr>au_rate := q\<rparr>, Inl LimiterIndexError))"

text \<open>The limiter in front of an action: denied attempts are audited and refused.\<close>

definition limited ::
  "('w, 'l, 'r) auth_service \<Rightarrow> string \<Rightarrow> datetime \<Rightarrow> string option \<Rightarrow> string \<Rightarrow> string
     \<Rightarrow> ('w, 'l, 'r) auth_state \<Rightarrow> ('w, 'l, 'r) auth_state \<times> (auth_error + unit)" where
  "limited sv key now u detail message st =
     run_then (limiter_check sv key now st) (\<lambda>st allowed.
       if allowed then (st, Inr ()) else (audited ''rate_limited'' u detail st, Inl (TooMany message)))"

definition reject_if_login_locked ::
  "('w, 'l, 'r) auth_service \<Rightarrow> string \<Rightarrow> datetime \<Rightarrow> ('w, 'l, 'r) auth_state
     \<Rightarrow> ('w, 'l, 'r) auth_state \<times> (auth_error + unit)" where
  "reject_if_login_locked sv key now st =
     (case lock_is_locked (sv_lock_store sv) (au_lock st) key now of
        Inl _ \<Rightarrow> (audited ''rate_limited'' None ''login_lock_unavailable'' st, Inl LOGIN_ATTEMPT_LIMIT)
      | Inr True \<Rightarrow> (audited ''rate_limited'' None ''login_locked'' st, Inl LOGIN_ATTEMPT_LIMIT)
      | Inr False \<Rightarrow> (st, Inr ()))"

definition record_login_failure ::
  "('w, 'l, 'r) auth_service \<Rightarrow> string \<Rightarrow> datetime \<Rightarrow> ('w, 'l, 'r) auth_state
     \<Rightarrow> ('w, 'l, 'r) auth_state \<times> (auth_error + unit)" where
  "record_login_failure sv key now st =
     (case lock_record_failure (sv_lock_store sv) (sv_policy sv) (au_lock st) key now of
        (l, Inr _) \<Rightarrow> (st\<lparr>au_lock := l\<rparr>, Inr ())
      | (l, Inl _) \<Rightarrow> (audited ''rate_limited'' None ''login_lock_unavailable'' (st\<lparr>au_lock := l\<rparr>),
                       Inl LOGIN_ATTEMPT_LIMIT))"

definition clear_login_failure ::
  "('w, 'l, 'r) auth_service \<Rightarrow> string \<Rightarrow> datetime \<Rightarrow> ('w, 'l, 'r) auth_state
     \<Rightarrow> ('w, 'l, 'r) auth_state \<times> (auth_error + unit)" where
  "clear_login_failure sv key now st =
     (case lock_clear (sv_lock_store sv) (sv_policy sv) (au_lock st) key (Some now) of
        (l, Inr _) \<Rightarrow> (st\<lparr>au_lock := l\<rparr>, Inr ())
      | (l, Inl _) \<Rightarrow> (audited ''rate_limited'' None ''login_lock_unavailable'' (st\<lparr>au_lock := l\<rparr>),
                       Inl LOGIN_ATTEMPT_LIMIT))"

text \<open>\<open>self._email.send\<close>, with what is audited when the provider takes the message and when it refuses it.\<close>

definition mailed ::
  "('w, 'l, 'r) auth_service \<Rightarrow> outbound_mail \<Rightarrow> (('w, 'l, 'r) auth_state \<Rightarrow> ('w, 'l, 'r) auth_state)
     \<Rightarrow> (('w, 'l, 'r) auth_state \<Rightarrow> ('w, 'l, 'r) auth_state) \<Rightarrow> ('w, 'l, 'r) auth_state \<Rightarrow> ('w, 'l, 'r) auth_state" where
  "mailed sv m sent failed st =
     (if sv_send sv m then sent (st\<lparr>au_mail := au_mail st @ [m]\<rparr>) else failed st)"

text \<open>\<open>AuditLogger.recent\<close> without a repository: \<open>items[-limit:]\<close>, which for 0 is all of them.\<close>

definition audit_recent :: "audit_event list \<Rightarrow> string option \<Rightarrow> int \<Rightarrow> audit_event list" where
  "audit_recent buffer user_id limit =
     (let items = filter (\<lambda>e. user_id = None \<or> ae_user e = user_id) buffer
      in if 0 < limit then drop (length items - nat limit) items else drop (nat (- limit)) items)"

definition csrf_validate :: "string option \<Rightarrow> string option \<Rightarrow> bool" where
  "csrf_validate expected provided =
     (case (expected, provided) of
        (Some e, Some p) \<Rightarrow> e \<noteq> [] \<and> p \<noteq> [] \<and> e = p
      | _ \<Rightarrow> False)"

section \<open>Sessions\<close>

definition issue_session ::
  "('w, 'l, 'r) auth_service \<Rightarrow> user \<Rightarrow> bool \<Rightarrow> string option \<Rightarrow> string option \<Rightarrow> datetime \<Rightarrow> string \<Rightarrow> string \<Rightarrow> string
     \<Rightarrow> ('w, 'l, 'r) auth_state \<Rightarrow> ('w, 'l, 'r) auth_state \<times> (auth_error + auth_result)" where
  "issue_session sv u remember_me user_agent ip_hint now raw_token csrf session_id st =
     (let ttl = (if remember_me then sv_remember_ttl sv else sv_session_ttl sv);
          session = \<lparr>se_session_id = session_id, se_user_id = u_user_id u, se_token_hash = hash_token raw_token,
            se_created_at = now, se_expires_at = plus_seconds now ttl, se_remember_me = remember_me,
            se_last_seen_at = Some now, se_user_agent = user_agent, se_ip_hint = ip_hint,
            se_csrf_token = Some csrf, se_revoked = False\<rparr>
      in run_then (on_repo sv AtSessionSave (\<lambda>w. ap_save_session (sv_ports sv) w session) st) (\<lambda>st _.
           (st, Inr \<lparr>ar_user = u, ar_session = session, ar_access_token = raw_token, ar_csrf_token = csrf\<rparr>)))"

definition login ::
  "('w, 'l, 'r) auth_service \<Rightarrow> call_inputs \<Rightarrow> string \<Rightarrow> string \<Rightarrow> bool \<Rightarrow> string option \<Rightarrow> string option
     \<Rightarrow> ('w, 'l, 'r) auth_state \<Rightarrow> ('w, 'l, 'r) auth_state \<times> (auth_error + auth_result)" where
  "login sv inp email password remember_me user_agent ip_hint st =
     (if \<not> sv_enabled sv then (st, Inl AUTH_DISABLED) else
      run_then (raising st (normalize_email email)) (\<lambda>st cleaned.
      run_then (raising st (abuse_key sv ''login'' cleaned)) (\<lambda>st rate_key.
      run_then (reject_if_login_locked sv rate_key (in_clock inp 0) st) (\<lambda>st _.
      run_then (limited sv rate_key (in_clock inp 1) None ''login'' ''Too many login attempts. Try again later.'' st)
        (\<lambda>st _.
         case live_account INVALID_CREDENTIALS (ap_user_by_email (sv_ports sv) (au_repo st) cleaned) of
           Inl e \<Rightarrow>
             run_then (record_login_failure sv rate_key (in_clock inp 2) st) (\<lambda>st _.
               (audited ''login_failure'' None ''unknown_or_inactive'' st, Inl e))
         | Inr u \<Rightarrow>
             run_then (raising st (case verify_password password (u_password_hash u) of
                 Inl e \<Rightarrow> Inl (HasherError e) | Inr b \<Rightarrow> Inr b)) (\<lambda>st good.
               if \<not> good then
                 run_then (record_login_failure sv rate_key (in_clock inp 2) st) (\<lambda>st _.
                   (audited ''login_failure'' (Some (u_user_id u)) ''bad_password'' st, Inl INVALID_CREDENTIALS))
               else
                 run_then (clear_login_failure sv rate_key (in_clock inp 2) st) (\<lambda>st _.
                 run_then (limiter_reset sv rate_key st) (\<lambda>st _.
                   issue_session sv u remember_me user_agent ip_hint (in_clock inp 3) (in_token inp 0)
                     (in_token inp 1) (in_id inp 0) (audited ''login_success'' (Some (u_user_id u)) '''' st)))))))))"

text \<open>
  \<open>validate_session\<close>: what the reads decide, and what is then done about it.  The refresh writes the
  session that was read back with \<open>revoked=False\<close>.
\<close>

datatype session_verdict = Refuse string | Expire user_session | Refresh user_session

definition read_session ::
  "('w, 'l, 'r) auth_service \<Rightarrow> string option \<Rightarrow> datetime \<Rightarrow> 'w \<Rightarrow> auth_error + session_verdict" where
  "read_session sv access_token now w =
     (if \<not> sv_enabled sv then Inl AUTH_DISABLED
      else case access_token of
        None \<Rightarrow> Inr (Refuse ''Missing session token.'')
      | Some token \<Rightarrow>
          if strip token = [] then Inr (Refuse ''Missing session token.'')
          else (case ap_session_by_hash (sv_ports sv) w (hash_token (strip token)) of
              None \<Rightarrow> Inr (Refuse ''Invalid or revoked session.'')
            | Some se \<Rightarrow>
                if se_revoked se then Inr (Refuse ''Invalid or revoked session.'')
                else and_then (is_over (se_expires_at se) now) (\<lambda>over.
                  Inr (if over then Expire se else Refresh se))))"

definition refuse_session :: "bool \<Rightarrow> string \<Rightarrow> 's \<Rightarrow> 's \<times> (auth_error + user_session option)" where
  "refuse_session raise_on_invalid message st =
     (st, if raise_on_invalid then Inl (AuthError message) else Inr None)"

fun finish_session ::
  "('w, 'l, 'r) auth_service \<Rightarrow> datetime \<Rightarrow> bool \<Rightarrow> session_verdict
     \<Rightarrow> ('w, 'l, 'r) auth_state \<Rightarrow> ('w, 'l, 'r) auth_state \<times> (auth_error + user_session option)" where
  "finish_session sv now strict (Refuse message) st = refuse_session strict message st"
| "finish_session sv now strict (Expire se) st =
     run_then (on_repo sv AtSessionRevoke (\<lambda>w. ap_revoke (sv_ports sv) w (se_session_id se)) st) (\<lambda>st _.
       refuse_session strict ''Session expired.'' (audited ''session_expired'' (Some (se_user_id se)) '''' st))"
| "finish_session sv now strict (Refresh se) st =
     (let refreshed = se\<lparr>se_last_seen_at := Some now, se_revoked := False\<rparr> in
      run_then (on_repo sv AtSessionSave (\<lambda>w. ap_save_session (sv_ports sv) w refreshed) st) (\<lambda>st _.
        (st, Inr (Some refreshed))))"

definition validate_session ::
  "('w, 'l, 'r) auth_service \<Rightarrow> datetime \<Rightarrow> string option \<Rightarrow> bool
     \<Rightarrow> ('w, 'l, 'r) auth_state \<Rightarrow> ('w, 'l, 'r) auth_state \<times> (auth_error + user_session option)" where
  "validate_session sv now access_token strict st =
     run_then (raising st (read_session sv access_token now (au_repo st))) (\<lambda>st verdict.
       finish_session sv now strict verdict st)"

definition logout ::
  "('w, 'l, 'r) auth_service \<Rightarrow> call_inputs \<Rightarrow> string option
     \<Rightarrow> ('w, 'l, 'r) auth_state \<Rightarrow> ('w, 'l, 'r) auth_state \<times> (auth_error + unit)" where
  "logout sv inp access_token st =
     (if \<not> sv_enabled sv then (st, Inl AUTH_DISABLED)
      else if access_token = None \<or> access_token = Some [] then (st, Inr ())
      else run_then (validate_session sv (in_clock inp 0) access_token False st) (\<lambda>st found.
        case found of
          None \<Rightarrow> (st, Inr ())
        | Some se \<Rightarrow>
            run_then (on_repo sv AtSessionRevoke (\<lambda>w. ap_revoke (sv_ports sv) w (se_session_id se)) st) (\<lambda>st _.
              (audited ''logout'' (Some (se_user_id se)) (se_session_id se) st, Inr ()))))"

text \<open>\<open>assert session is not None\<close> cannot fail: with \<open>raise_on_invalid\<close> there is a session or an exception.\<close>

definition current_user ::
  "('w, 'l, 'r) auth_service \<Rightarrow> datetime \<Rightarrow> string option
     \<Rightarrow> ('w, 'l, 'r) auth_state \<Rightarrow> ('w, 'l, 'r) auth_state \<times> (auth_error + user)" where
  "current_user sv now access_token st =
     run_then (validate_session sv now access_token True st) (\<lambda>st found.
       case found of
         None \<Rightarrow> (st, Inl AuthTypeError)
       | Some se \<Rightarrow> (st, live_account (AuthError ''Authenticated user is inactive or missing.'')
                        (ap_user_by_id (sv_ports sv) (au_repo st) (se_user_id se))))"

section \<open>Password reset\<close>

definition inline_token :: "('w, 'l, 'r) auth_service \<Rightarrow> string \<Rightarrow> string option" where
  "inline_token sv raw = (if sv_inline_tokens sv then Some raw else None)"

definition create_password_reset ::
  "('w, 'l, 'r) auth_service \<Rightarrow> user \<Rightarrow> datetime \<Rightarrow> string \<Rightarrow> string
     \<Rightarrow> ('w, 'l, 'r) auth_state \<Rightarrow> ('w, 'l, 'r) auth_state \<times> (auth_error + string)" where
  "create_password_reset sv u now raw reset_id st =
     (let record = \<lparr>tr_id = reset_id, tr_user_id = u_user_id u, tr_token_hash = hash_token raw,
            tr_created_at = now, tr_expires_at = plus_seconds now PASSWORD_RESET_TTL, tr_consumed = False\<rparr>
      in run_then (on_repo sv AtTokenSave (\<lambda>w. tp_save (ap_resets (sv_ports sv)) w record) st) (\<lambda>st _.
        (mailed sv \<lparr>om_kind = ResetMail, om_to = u_email u, om_token = raw\<rparr>
           (audited ''password_reset_requested'' (Some (u_user_id u)) '''')
           (audited ''password_reset_requested'' (Some (u_user_id u)) ''email_delivery_failed'') st, Inr raw)))"

definition request_password_reset ::
  "('w, 'l, 'r) auth_service \<Rightarrow> call_inputs \<Rightarrow> string
     \<Rightarrow> ('w, 'l, 'r) auth_state \<Rightarrow> ('w, 'l, 'r) auth_state \<times> (auth_error + auth_response)" where
  "request_password_reset sv inp email st =
     (if \<not> sv_enabled sv then (st, Inl AUTH_DISABLED) else
      run_then (raising st (normalize_email email)) (\<lambda>st cleaned.
      run_then (raising st (abuse_key sv ''password_reset'' cleaned)) (\<lambda>st key.
      run_then (limited sv key (in_clock inp 0) None ''password_reset''
          ''Too many password reset attempts. Try again later.'' st) (\<lambda>st _.
        case ap_user_by_email (sv_ports sv) (au_repo st) cleaned of
          None \<Rightarrow> (st, Inr \<lparr>re_status = ''accepted'', re_token = None\<rparr>)
        | Some u \<Rightarrow>
            if \<not> sv_resets_on sv then (st, Inr \<lparr>re_status = ''accepted'', re_token = None\<rparr>)
            else run_then (create_password_reset sv u (in_clock inp 1) (in_token inp 0) (in_id inp 0) st) (\<lambda>st raw.
              (st, Inr \<lparr>re_status = ''accepted'', re_token = inline_token sv raw\<rparr>))))))"

definition confirm_password_reset ::
  "('w, 'l, 'r) auth_service \<Rightarrow> call_inputs \<Rightarrow> string \<Rightarrow> string
     \<Rightarrow> ('w, 'l, 'r) auth_state \<Rightarrow> ('w, 'l, 'r) auth_state \<times> (auth_error + string)" where
  "confirm_password_reset sv inp token new_password st =
     (if \<not> sv_enabled sv then (st, Inl AUTH_DISABLED) else
      run_then (raising st (validate_password new_password)) (\<lambda>st _.
      let raw = strip token; now = in_clock inp 0 in
      if raw = [] \<or> \<not> sv_resets_on sv then (st, Inl INVALID_RESET_TOKEN) else
      run_then (raising st (standing INVALID_RESET_TOKEN
          (tp_by_hash (ap_resets (sv_ports sv)) (au_repo st) (hash_token raw)) now)) (\<lambda>st record.
      run_then (raising st (live_account INVALID_RESET_TOKEN
          (ap_user_by_id (sv_ports sv) (au_repo st) (tr_user_id record)))) (\<lambda>st u.
      run_then (raising st (case hash_password (sv_iterations sv) (in_salt inp) new_password of
          Inl e \<Rightarrow> Inl (HasherError e) | Inr h \<Rightarrow> Inr h)) (\<lambda>st new_hash.
      run_then (on_repo sv AtUserSave (\<lambda>w. ap_save_user (sv_ports sv) w
          (u\<lparr>u_password_hash := new_hash, u_updated_at := Some now\<rparr>)) st) (\<lambda>st _.
      run_then (on_repo sv AtConsume (\<lambda>w. tp_consume (ap_resets (sv_ports sv)) w (tr_id record)) st) (\<lambda>st _.
      run_then (on_repo sv AtRevokeAll (\<lambda>w. ap_revoke_all (sv_ports sv) w (u_user_id u)) st) (\<lambda>st _.
        (audited ''password_changed'' (Some (u_user_id u)) ''password_reset_confirmed'' st,
         Inr ''password_changed'')))))))))"

section \<open>E-mail verification\<close>

definition issue_email_verification ::
  "('w, 'l, 'r) auth_service \<Rightarrow> user \<Rightarrow> datetime \<Rightarrow> string \<Rightarrow> string
     \<Rightarrow> ('w, 'l, 'r) auth_state \<Rightarrow> ('w, 'l, 'r) auth_state \<times> (auth_error + string)" where
  "issue_email_verification sv u now raw verification_id st =
     (if \<not> sv_verifications_on sv then (st, Inr [])
      else
       (let record = \<lparr>tr_id = verification_id, tr_user_id = u_user_id u, tr_token_hash = hash_token raw,
              tr_created_at = now, tr_expires_at = plus_seconds now EMAIL_VERIFICATION_TTL, tr_consumed = False\<rparr>
        in run_then (on_repo sv AtTokenSave (\<lambda>w. tp_save (ap_verifications (sv_ports sv)) w record) st) (\<lambda>st _.
          (mailed sv \<lparr>om_kind = VerifyMail, om_to = u_email u, om_token = raw\<rparr>
             (audited ''email_verification_requested'' (Some (u_user_id u)) '''')
             (audited ''email_verification_requested'' (Some (u_user_id u)) ''email_delivery_failed'') st, Inr raw))))"

definition request_email_verification ::
  "('w, 'l, 'r) auth_service \<Rightarrow> call_inputs \<Rightarrow> string
     \<Rightarrow> ('w, 'l, 'r) auth_state \<Rightarrow> ('w, 'l, 'r) auth_state \<times> (auth_error + auth_response)" where
  "request_email_verification sv inp user_id st =
     (if \<not> sv_enabled sv then (st, Inl AUTH_DISABLED)
      else case ap_user_by_id (sv_ports sv) (au_repo st) user_id of
        None \<Rightarrow> (st, Inl (UserNotFound user_id))
      | Some u \<Rightarrow>
          if \<not> sv_verifications_on sv then (st, Inr \<lparr>re_status = ''accepted'', re_token = None\<rparr>)
          else run_then (issue_email_verification sv u (in_clock inp 0) (in_token inp 0) (in_id inp 0) st) (\<lambda>st raw.
            (st, Inr \<lparr>re_status = ''accepted'', re_token = inline_token sv raw\<rparr>)))"

definition request_email_verification_by_email ::
  "('w, 'l, 'r) auth_service \<Rightarrow> call_inputs \<Rightarrow> string
     \<Rightarrow> ('w, 'l, 'r) auth_state \<Rightarrow> ('w, 'l, 'r) auth_state \<times> (auth_error + auth_response)" where
  "request_email_verification_by_email sv inp email st =
     (if \<not> sv_enabled sv then (st, Inl AUTH_DISABLED) else
      run_then (raising st (normalize_email email)) (\<lambda>st cleaned.
      run_then (raising st (abuse_key sv ''email_verification'' cleaned)) (\<lambda>st key.
      run_then (limited sv key (in_clock inp 0) None ''email_verification''
          ''Too many verification attempts. Try again later.'' st) (\<lambda>st _.
        case ap_user_by_email (sv_ports sv) (au_repo st) cleaned of
          None \<Rightarrow> (st, Inr \<lparr>re_status = ''accepted'', re_token = None\<rparr>)
        | Some u \<Rightarrow>
            if \<not> sv_verifications_on sv then (st, Inr \<lparr>re_status = ''accepted'', re_token = None\<rparr>)
            else run_then (issue_email_verification sv u (in_clock inp 1) (in_token inp 0) (in_id inp 0) st)
              (\<lambda>st raw. (st, Inr \<lparr>re_status = ''accepted'', re_token = inline_token sv raw\<rparr>))))))"

definition confirm_email_verification ::
  "('w, 'l, 'r) auth_service \<Rightarrow> call_inputs \<Rightarrow> string
     \<Rightarrow> ('w, 'l, 'r) auth_state \<Rightarrow> ('w, 'l, 'r) auth_state \<times> (auth_error + string)" where
  "confirm_email_verification sv inp token st =
     (if \<not> sv_enabled sv then (st, Inl AUTH_DISABLED) else
      let raw = strip token; now = in_clock inp 0 in
      if raw = [] \<or> \<not> sv_verifications_on sv then (st, Inl INVALID_VERIFY_TOKEN) else
      run_then (raising st (standing INVALID_VERIFY_TOKEN
          (tp_by_hash (ap_verifications (sv_ports sv)) (au_repo st) (hash_token raw)) now)) (\<lambda>st record.
      run_then (raising st (live_account INVALID_VERIFY_TOKEN
          (ap_user_by_id (sv_ports sv) (au_repo st) (tr_user_id record)))) (\<lambda>st u.
      run_then (on_repo sv AtUserSave (\<lambda>w. ap_save_user (sv_ports sv) w
          (u\<lparr>u_email_verified := True, u_updated_at := Some now\<rparr>)) st) (\<lambda>st _.
      run_then (on_repo sv AtConsume (\<lambda>w. tp_consume (ap_verifications (sv_ports sv)) w (tr_id record)) st)
        (\<lambda>st _. (audited ''email_verified'' (Some (u_user_id u)) '''' st, Inr ''email_verified''))))))"

section \<open>E-mail change\<close>

text \<open>\<open>(a.created_at, a.change_id) > (b.created_at, b.change_id)\<close>, and Python's \<open>max\<close> by that key: the first of the greatest.\<close>

definition later_change :: "email_change \<Rightarrow> email_change \<Rightarrow> auth_error + bool" where
  "later_change a b =
     (if tr_created_at a = tr_created_at b then Inr (tr_id b < tr_id a)
      else case dt_less (tr_created_at b) (tr_created_at a) of None \<Rightarrow> Inl AuthTypeError | Some earlier \<Rightarrow> Inr earlier)"

fun latest_change :: "email_change \<Rightarrow> email_change list \<Rightarrow> auth_error + email_change" where
  "latest_change best [] = Inr best"
| "latest_change best (c # cs) =
     and_then (later_change c best) (\<lambda>later. latest_change (if later then c else best) cs)"

definition latest_unconsumed_email_change :: "email_change list \<Rightarrow> auth_error + email_change option" where
  "latest_unconsumed_email_change changes =
     (case filter (\<lambda>c. \<not> tr_consumed c) changes of
        [] \<Rightarrow> Inr None
      | c # cs \<Rightarrow> and_then (latest_change c cs) (\<lambda>best. Inr (Some best)))"

text \<open>\<open>invalidate_for_user\<close>: one transaction per outstanding request.\<close>

fun invalidate_each ::
  "('w, 'l, 'r) auth_service \<Rightarrow> nat \<Rightarrow> email_change list
     \<Rightarrow> ('w, 'l, 'r) auth_state \<Rightarrow> ('w, 'l, 'r) auth_state \<times> (auth_error + unit)" where
  "invalidate_each sv n [] st = (st, Inr ())"
| "invalidate_each sv n (c # cs) st =
     (if tr_consumed c then invalidate_each sv n cs st
      else run_then (on_repo sv (AtInvalidate n) (\<lambda>w. tp_consume (ap_changes (sv_ports sv)) w (tr_id c)) st)
        (\<lambda>st _. invalidate_each sv (Suc n) cs st))"

definition invalidate_for_user ::
  "('w, 'l, 'r) auth_service \<Rightarrow> string
     \<Rightarrow> ('w, 'l, 'r) auth_state \<Rightarrow> ('w, 'l, 'r) auth_state \<times> (auth_error + unit)" where
  "invalidate_for_user sv user_id st =
     invalidate_each sv 0 (ap_changes_of (sv_ports sv) (au_repo st) user_id) st"

definition create_email_change ::
  "('w, 'l, 'r) auth_service \<Rightarrow> user \<Rightarrow> string \<Rightarrow> datetime \<Rightarrow> string \<Rightarrow> string
     \<Rightarrow> ('w, 'l, 'r) auth_state \<Rightarrow> ('w, 'l, 'r) auth_state \<times> (auth_error + string)" where
  "create_email_change sv u new_email now raw change_id st =
     run_then (invalidate_for_user sv (u_user_id u) st) (\<lambda>st _.
       (let record = \<lparr>tr_id = change_id, tr_user_id = u_user_id u, tr_token_hash = hash_token raw,
              tr_created_at = now, tr_expires_at = plus_seconds now EMAIL_CHANGE_TTL, tr_consumed = False,
              ec_new_email = new_email, ec_purpose = EMAIL_CHANGE_PURPOSE\<rparr>
        in run_then (on_repo sv AtTokenSave (\<lambda>w. tp_save (ap_changes (sv_ports sv)) w record) st) (\<lambda>st _.
          (mailed sv \<lparr>om_kind = ChangeMail, om_to = new_email, om_token = raw\<rparr>
             (audited ''email_change_requested'' (Some (u_user_id u)) '''')
             (audited ''email_change_delivery_failed'' (Some (u_user_id u)) '''') st, Inr raw))))"

definition request_email_change ::
  "('w, 'l, 'r) auth_service \<Rightarrow> call_inputs \<Rightarrow> string option \<Rightarrow> string \<Rightarrow> string
     \<Rightarrow> ('w, 'l, 'r) auth_state \<Rightarrow> ('w, 'l, 'r) auth_state \<times> (auth_error + auth_response)" where
  "request_email_change sv inp access_token new_email password st =
     (if \<not> sv_enabled sv then (st, Inl AUTH_DISABLED) else
      run_then (current_user sv (in_clock inp 0) access_token st) (\<lambda>st u.
      run_then (raising st (abuse_key sv ''email_change'' (u_user_id u))) (\<lambda>st key.
      run_then (limited sv key (in_clock inp 1) (Some (u_user_id u)) ''email_change''
          ''Too many email change attempts. Try again later.'' st) (\<lambda>st _.
      run_then (raising st (case verify_password password (u_password_hash u) of
          Inl e \<Rightarrow> Inl (HasherError e) | Inr b \<Rightarrow> Inr b)) (\<lambda>st good.
      if \<not> good then
        (audited ''login_failure'' (Some (u_user_id u)) ''email_change_bad_password'' st,
         Inl (AuthError ''Invalid credentials.''))
      else
      run_then (raising st (normalize_email new_email)) (\<lambda>st cleaned.
      if cleaned = u_email u then
        (st, Inl (UserValidationError ''New email must differ from the current account email.''))
      else if ap_user_by_email (sv_ports sv) (au_repo st) cleaned \<noteq> None \<or> \<not> sv_changes_on sv
      then (st, Inr \<lparr>re_status = ''accepted'', re_token = None\<rparr>)
      else run_then (create_email_change sv u cleaned (in_clock inp 2) (in_token inp 0) (in_id inp 0) st)
        (\<lambda>st raw. (st, Inr \<lparr>re_status = ''accepted'', re_token = inline_token sv raw\<rparr>))))))))"

text \<open>
  The stages of \<open>confirm_email_change\<close>: the checks, which only read; then revoke, apply and notify,
  consume.  \<open>except Exception\<close> turns every exception of a step into one error; \<open>users.save\<close> is only
  guarded against the validation error.
\<close>

definition reading_email_change ::
  "('w, 'l, 'r) auth_service \<Rightarrow> string \<Rightarrow> datetime \<Rightarrow> 'w \<Rightarrow> auth_error + email_change \<times> user" where
  "reading_email_change sv token now w =
     (let raw = strip token; ports = sv_ports sv in
      if raw = [] \<or> \<not> sv_changes_on sv then Inl INVALID_EMAIL_CHANGE_TOKEN else
      and_then (standing INVALID_EMAIL_CHANGE_TOKEN (tp_by_hash (ap_changes ports) w (hash_token raw)) now) (\<lambda>record.
      if ec_purpose record \<noteq> EMAIL_CHANGE_PURPOSE then Inl INVALID_EMAIL_CHANGE_TOKEN else
      and_then (latest_unconsumed_email_change (ap_changes_of ports w (tr_user_id record))) (\<lambda>latest.
      if (case latest of None \<Rightarrow> False | Some c \<Rightarrow> tr_id c \<noteq> tr_id record) then Inl INVALID_EMAIL_CHANGE_TOKEN else
      and_then (live_account INVALID_EMAIL_CHANGE_TOKEN (ap_user_by_id ports w (tr_user_id record))) (\<lambda>u.
      if (case ap_user_by_email ports w (ec_new_email record) of
            None \<Rightarrow> False | Some occupant \<Rightarrow> u_user_id occupant \<noteq> u_user_id u)
      then Inl INVALID_EMAIL_CHANGE_TOKEN else Inr (record, u)))))"

definition reported_as :: "(auth_error \<Rightarrow> auth_error) \<Rightarrow> 's \<times> (auth_error + 'a) \<Rightarrow> 's \<times> (auth_error + 'a)" where
  "reported_as f m = (case m of (s, Inl e) \<Rightarrow> (s, Inl (f e)) | (s, Inr x) \<Rightarrow> (s, Inr x))"

definition save_refusal :: "auth_error \<Rightarrow> auth_error" where
  "save_refusal e = (case e of UserValidationError _ \<Rightarrow> INVALID_EMAIL_CHANGE_TOKEN | _ \<Rightarrow> e)"

definition apply_email_change ::
  "('w, 'l, 'r) auth_service \<Rightarrow> email_change \<Rightarrow> user \<Rightarrow> datetime
     \<Rightarrow> ('w, 'l, 'r) auth_state \<Rightarrow> ('w, 'l, 'r) auth_state \<times> (auth_error + unit)" where
  "apply_email_change sv record u now st =
     (if u_email u = ec_new_email record \<and> u_email_verified u then (st, Inr ())
      else run_then (reported_as save_refusal (on_repo sv AtUserSave (\<lambda>w. ap_save_user (sv_ports sv) w
             (u\<lparr>u_email := ec_new_email record, u_email_verified := True, u_updated_at := Some now\<rparr>)) st))
           (\<lambda>st _. (mailed sv \<lparr>om_kind = ChangedNotice, om_to = u_email u, om_token = []\<rparr> id
              (audited ''email_change_delivery_failed'' None ''old_email_notice'') st, Inr ())))"

definition consume_email_change ::
  "('w, 'l, 'r) auth_service \<Rightarrow> email_change \<Rightarrow> user
     \<Rightarrow> ('w, 'l, 'r) auth_state \<Rightarrow> ('w, 'l, 'r) auth_state \<times> (auth_error + unit)" where
  "consume_email_change sv record u st =
     reported_as (\<lambda>_. EMAIL_CHANGE_COMPLETION_ERROR)
       (run_then (on_repo sv AtConsume (\<lambda>w. tp_consume (ap_changes (sv_ports sv)) w (tr_id record)) st)
         (\<lambda>st _. invalidate_for_user sv (u_user_id u) st))"

definition confirm_email_change ::
  "('w, 'l, 'r) auth_service \<Rightarrow> call_inputs \<Rightarrow> string
     \<Rightarrow> ('w, 'l, 'r) auth_state \<Rightarrow> ('w, 'l, 'r) auth_state \<times> (auth_error + string)" where
  "confirm_email_change sv inp token st =
     (if \<not> sv_enabled sv then (st, Inl AUTH_DISABLED) else
      run_then (raising st (reading_email_change sv token (in_clock inp 0) (au_repo st))) (\<lambda>st (record, u).
      run_then (reported_as (\<lambda>_. EMAIL_CHANGE_COMPLETION_ERROR)
          (on_repo sv AtRevokeAll (\<lambda>w. ap_revoke_all (sv_ports sv) w (u_user_id u)) st)) (\<lambda>st _.
      run_then (apply_email_change sv record u (in_clock inp 0) st) (\<lambda>st _.
      run_then (consume_email_change sv record u st) (\<lambda>st _.
        (audited ''email_change_confirmed'' (Some (u_user_id u)) '''' st, Inr ''email_changed''))))))"

text \<open>Linking an external identity is audited and answered with \<open>not_implemented\<close>.\<close>

definition begin_oauth_link ::
  "string \<Rightarrow> ('w, 'l, 'r) auth_state \<Rightarrow> ('w, 'l, 'r) auth_state \<times> auth_response" where
  "begin_oauth_link user_id st =
     (audited ''oauth_link_attempt'' (Some user_id) '''' st, \<lparr>re_status = ''not_implemented'', re_token = None\<rparr>)"

section \<open>Consents and registration\<close>

definition has_accepted :: "('w, 'l, 'r) auth_service \<Rightarrow> 'w \<Rightarrow> string \<Rightarrow> string \<Rightarrow> string \<Rightarrow> bool" where
  "has_accepted sv w user_id policy_type version_id =
     (sv_consents_on sv \<and> ap_consent (sv_ports sv) w user_id policy_type version_id \<noteq> None)"

definition accept_published_policy ::
  "('w, 'l, 'r) auth_service \<Rightarrow> string \<Rightarrow> string \<Rightarrow> string \<Rightarrow> string option \<Rightarrow> datetime \<Rightarrow> string
     \<Rightarrow> ('w, 'l, 'r) auth_state \<Rightarrow> ('w, 'l, 'r) auth_state \<times> (auth_error + policy_acceptance)" where
  "accept_published_policy sv user_id policy_type source actor now record_id st =
     (case sv_published sv policy_type of
        None \<Rightarrow> (st, Inl (UserValidationError ''No published policy version can be accepted.''))
      | Some (version_id, _) \<Rightarrow>
          if \<not> sv_consents_on sv then (st, Inl (UserValidationError ''Consent persistence is not configured.''))
          else (case ap_consent (sv_ports sv) (au_repo st) user_id policy_type version_id of
              Some existing \<Rightarrow> (st, Inr existing)
            | None \<Rightarrow>
                (let record = \<lparr>pa_record_id = record_id, pa_user_id = user_id, pa_policy_type = policy_type,
                       pa_version_id = version_id, pa_accepted_at = now, pa_source = source,
                       pa_actor = Some (case actor of None \<Rightarrow> user_id | Some a \<Rightarrow> if a = [] then user_id else a)\<rparr>
                 in run_then (on_repo sv AtTokenSave (\<lambda>w. ap_save_consent (sv_ports sv) w record) st) (\<lambda>st saved.
                   (if pa_record_id saved = record_id
                    then audited ''policy_accepted'' (Some user_id) policy_type st else st, Inr saved)))))"

definition requires_acceptance :: "('w, 'l, 'r) auth_service \<Rightarrow> string \<Rightarrow> bool" where
  "requires_acceptance sv policy_type = (case sv_published sv policy_type of None \<Rightarrow> False | Some (_, b) \<Rightarrow> b)"

definition require_registration_consents ::
  "('w, 'l, 'r) auth_service \<Rightarrow> bool \<Rightarrow> bool \<Rightarrow> auth_error + unit" where
  "require_registration_consents sv terms_accepted privacy_acknowledged =
     (if requires_acceptance sv ''terms'' \<and> \<not> terms_accepted
      then Inl (UserValidationError ''Terms of Service must be accepted.'')
      else if requires_acceptance sv ''privacy'' \<and> \<not> privacy_acknowledged
      then Inl (UserValidationError ''Privacy Policy must be acknowledged.'')
      else Inr ())"

definition persist_consent ::
  "('w, 'l, 'r) auth_service \<Rightarrow> bool \<Rightarrow> string \<Rightarrow> string \<Rightarrow> datetime \<Rightarrow> string
     \<Rightarrow> ('w, 'l, 'r) auth_state \<Rightarrow> ('w, 'l, 'r) auth_state \<times> (auth_error + unit)" where
  "persist_consent sv ticked user_id policy_type now record_id st =
     (if ticked \<and> sv_published sv policy_type \<noteq> None
      then run_then (accept_published_policy sv user_id policy_type ''registration'' None now record_id st)
             (\<lambda>st _. (st, Inr ()))
      else (st, Inr ()))"

definition persist_registration_consents ::
  "('w, 'l, 'r) auth_service \<Rightarrow> bool \<Rightarrow> bool \<Rightarrow> string \<Rightarrow> call_inputs
     \<Rightarrow> ('w, 'l, 'r) auth_state \<Rightarrow> ('w, 'l, 'r) auth_state \<times> (auth_error + unit)" where
  "persist_registration_consents sv terms_accepted privacy_acknowledged user_id inp st =
     run_then (persist_consent sv terms_accepted user_id ''terms'' (in_clock inp 3) (in_id inp 1) st) (\<lambda>st _.
       persist_consent sv privacy_acknowledged user_id ''privacy'' (in_clock inp 4) (in_id inp 2) st)"

definition bootstrap_profile ::
  "('w, 'l, 'r) auth_service \<Rightarrow> user \<Rightarrow> datetime
     \<Rightarrow> ('w, 'l, 'r) auth_state \<Rightarrow> ('w, 'l, 'r) auth_state \<times> (auth_error + unit)" where
  "bootstrap_profile sv u now st =
     run_then (on_repo sv AtTokenSave (\<lambda>w. ap_save_profile (sv_ports sv) w
         \<lparr>pf_user_id = u_user_id u, pf_display_name = u_display_name u, pf_version = 1, pf_changed_at = now\<rparr>) st)
       (\<lambda>st _. on_repo sv AtTokenSave (\<lambda>w. ap_save_settings (sv_ports sv) w
         \<lparr>us_user_id = u_user_id u, us_updated_at = now\<rparr>) st)"

definition register ::
  "('w, 'l, 'r) auth_service \<Rightarrow> call_inputs \<Rightarrow> string \<Rightarrow> string \<Rightarrow> string \<Rightarrow> bool \<Rightarrow> bool \<Rightarrow> bool
     \<Rightarrow> ('w, 'l, 'r) auth_state \<Rightarrow> ('w, 'l, 'r) auth_state \<times> (auth_error + auth_result)" where
  "register sv inp email password display_name remember_me terms_accepted privacy_acknowledged st =
     (if \<not> sv_enabled sv then (st, Inl AUTH_DISABLED) else
      run_then (raising st (normalize_email email)) (\<lambda>st cleaned.
      run_then (raising st (validate_password password)) (\<lambda>st _.
      if strip display_name = [] then (st, Inl (UserValidationError ''display_name must not be blank.'')) else
      run_then (raising st (require_registration_consents sv terms_accepted privacy_acknowledged)) (\<lambda>st _.
      run_then (raising st (abuse_key sv ''register'' cleaned)) (\<lambda>st key.
      run_then (limited sv key (in_clock inp 0) None ''register''
          ''Too many registration attempts. Try again later.'' st) (\<lambda>st _.
      if ap_user_by_email (sv_ports sv) (au_repo st) cleaned \<noteq> None
      then (st, Inl (UserConflict (''Email already registered: '' @ cleaned))) else
      run_then (raising st (case hash_password (sv_iterations sv) (in_salt inp) password of
          Inl e \<Rightarrow> Inl (HasherError e) | Inr h \<Rightarrow> Inr h)) (\<lambda>st hashed.
      let now = in_clock inp 1;
          u = \<lparr>u_user_id = in_id inp 0, u_email = cleaned, u_password_hash = hashed,
            u_display_name = strip display_name, u_is_active = True, u_email_verified = False,
            u_created_at = Some now, u_updated_at = Some now\<rparr> in
      run_then (on_repo sv AtUserSave (\<lambda>w. ap_save_user (sv_ports sv) w u) st) (\<lambda>st _.
      run_then (bootstrap_profile sv u (in_clock inp 2) st) (\<lambda>st _.
      run_then (persist_registration_consents sv terms_accepted privacy_acknowledged (u_user_id u) inp st) (\<lambda>st _.
      run_then (issue_email_verification sv u (in_clock inp 5) (in_token inp 0) (in_id inp 3)
          (audited ''register'' (Some (u_user_id u)) ''user_registered'' st)) (\<lambda>st _.
        issue_session sv u remember_me None None (in_clock inp 6) (in_token inp 1) (in_token inp 2)
          (in_id inp 4) st)))))))))))"

end
