(* ===== verification/AccountFacts.thy ===== *)
theory AccountFacts
  imports AccountStores Accounts
begin

text \<open>
  The handlers of AuthService over any store with the laws of \<open>account_store\<close>.  \<open>leads_to\<close> says where a
  step ends, by exception or by result; its equations turn a handler into the conditions on its writes.
\<close>

definition leads_to :: "('s \<Rightarrow> 'e \<Rightarrow> bool) \<Rightarrow> ('s \<Rightarrow> 'a \<Rightarrow> bool) \<Rightarrow> 's \<times> ('e + 'a) \<Rightarrow> bool" where
  "leads_to E Q m = (case m of (s, Inl e) \<Rightarrow> E s e | (s, Inr x) \<Rightarrow> Q s x)"

lemma leads_to_simps [simp]:
  "leads_to E Q (s, Inl e) = E s e"
  "leads_to E Q (s, Inr x) = Q s x"
  "leads_to E Q (raising s r) = (case r of Inl e \<Rightarrow> E s e | Inr x \<Rightarrow> Q s x)"
  by (simp_all add: leads_to_def raising_def split: sum.split)

lemma leads_to_run_then [simp]: "leads_to E Q (run_then m k) = leads_to E (\<lambda>s x. leads_to E Q (k s x)) m"
  by (cases m; cases "snd m") (auto simp: leads_to_def run_then_def)

lemma leads_to_reported_as [simp]: "leads_to E Q (reported_as f m) = leads_to (\<lambda>s e. E s (f e)) Q m"
  by (cases m; cases "snd m") (auto simp: leads_to_def reported_as_def)

lemma leads_to_mono:
  assumes "leads_to E Q m" and "\<And>s e. E s e \<Longrightarrow> E' s e" and "\<And>s x. Q s x \<Longrightarrow> Q' s x"
  shows "leads_to E' Q' m"
  using assms by (cases m; cases "snd m") (auto simp: leads_to_def)

lemma leads_to_result:
  assumes "leads_to E Q m" and "m = (s, r)"
  shows "case r of Inl e \<Rightarrow> E s e | Inr x \<Rightarrow> Q s x"
  using assms by (auto simp: leads_to_def)

text \<open>A write of the repository raises without an effect, or does what the store does.\<close>

lemma leads_to_on_repo:
  assumes "E st PersistenceUnavailable" and "f (au_repo st) = (w, Inr x)" and "Q (st\<lparr>au_repo := w\<rparr>) x"
  shows "leads_to E Q (on_repo sv fault f st)"
  using assms by (simp add: on_repo_def)

section \<open>What the handlers leave alone\<close>

lemma audited_fields [simp]:
  "au_repo (audited k u d st) = au_repo st" "au_lock (audited k u d st) = au_lock st"
  "au_rate (audited k u d st) = au_rate st" "au_mail (audited k u d st) = au_mail st"
  by (simp_all add: audited_def)

lemma mailed_fields [simp]:
  "(\<And>s. au_repo (f s) = au_repo s) \<Longrightarrow> (\<And>s. au_repo (g s) = au_repo s) \<Longrightarrow>
     au_repo (mailed sv m f g st) = au_repo st"
  "(\<And>s. au_lock (f s) = au_lock s) \<Longrightarrow> (\<And>s. au_lock (g s) = au_lock s) \<Longrightarrow>
     au_lock (mailed sv m f g st) = au_lock st"
  "(\<And>s. au_rate (f s) = au_rate s) \<Longrightarrow> (\<And>s. au_rate (g s) = au_rate s) \<Longrightarrow>
     au_rate (mailed sv m f g st) = au_rate st"
  by (simp_all add: mailed_def)

lemma limited_repo [simp]: "au_repo (fst (limited sv key now u d msg st)) = au_repo st"
  by (auto simp: limited_def limiter_check_def run_then_def split: prod.splits sum.splits rate_error.splits)

lemma limiter_reset_repo [simp]: "au_repo (fst (limiter_reset sv key st)) = au_repo st"
  by (auto simp: limiter_reset_def split: prod.splits sum.splits rate_error.splits)

lemma reject_if_login_locked_repo [simp]: "au_repo (fst (reject_if_login_locked sv key now st)) = au_repo st"
  by (auto simp: reject_if_login_locked_def split: sum.splits bool.splits)

lemma record_login_failure_repo [simp]: "au_repo (fst (record_login_failure sv key now st)) = au_repo st"
  by (auto simp: record_login_failure_def split: prod.splits sum.splits)

lemma clear_login_failure_repo [simp]: "au_repo (fst (clear_login_failure sv key now st)) = au_repo st"
  by (auto simp: clear_login_failure_def split: prod.splits sum.splits)

section \<open>Reading\<close>

lemma is_over_Inr: "is_over e now = Inr b \<longleftrightarrow> dt_less now e = Some (\<not> b)"
  by (auto simp: is_over_def split: option.splits)

lemma standing_Inr: "standing refusal found now = Inr t \<longleftrightarrow>
    found = Some t \<and> \<not> tr_consumed t \<and> is_over (tr_expires_at t) now = Inr False"
  by (auto simp: standing_def and_then_Inr_iff split: option.splits if_splits)

lemma live_account_Inr: "live_account refusal found = Inr u \<longleftrightarrow> found = Some u \<and> u_is_active u"
  by (auto simp: live_account_def split: option.splits if_splits)

text \<open>Where the reads find a live session: the token, and the session under its hash.\<close>

lemma read_session_found:
  assumes "read_session sv access_token now w = Inr verdict" and "verdict = Refresh se \<or> verdict = Expire se"
  shows "sv_enabled sv \<and> \<not> se_revoked se \<and> is_over (se_expires_at se) now = Inr (verdict = Expire se) \<and>
    (\<exists>token. access_token = Some token \<and> strip token \<noteq> [] \<and>
       ap_session_by_hash (sv_ports sv) w (hash_token (strip token)) = Some se)"
proof -
  obtain token where token: "access_token = Some token" and ne: "strip token \<noteq> []"
    using assms by (cases access_token) (auto simp: read_session_def split: if_splits)
  define found where "found = ap_session_by_hash (sv_ports sv) w (hash_token (strip token))"
  have read: "read_session sv access_token now w = (if \<not> sv_enabled sv then Inl AUTH_DISABLED else
      case found of None \<Rightarrow> Inr (Refuse ''Invalid or revoked session.'')
      | Some se \<Rightarrow> if se_revoked se then Inr (Refuse ''Invalid or revoked session.'')
          else and_then (is_over (se_expires_at se) now) (\<lambda>over. Inr (if over then Expire se else Refresh se)))"
    using ne by (simp add: read_session_def token found_def)
  have "sv_enabled sv \<and> found = Some se \<and> \<not> se_revoked se \<and>
      is_over (se_expires_at se) now = Inr (verdict = Expire se)"
  proof (cases found)
    case None
    then show ?thesis using assms by (auto simp: read split: if_splits)
  next
    case (Some d)
    then show ?thesis
      using assms by (cases "is_over (se_expires_at d) now") (auto simp: read split: if_splits)
  qed
  then show ?thesis using token ne by (simp add: found_def)
qed

lemma read_session_refresh:
  assumes "sv_enabled sv" and "strip token \<noteq> []"
    and "ap_session_by_hash (sv_ports sv) w (hash_token (strip token)) = Some se"
    and "\<not> se_revoked se" and "is_over (se_expires_at se) now = Inr False"
  shows "read_session sv (Some token) now w = Inr (Refresh se)"
  using assms by (simp add: read_session_def)

section \<open>Revoked sessions, consumed tokens\<close>

definition sessions_dead :: "string \<Rightarrow> account_view \<Rightarrow> bool" where
  "sessions_dead u v = (\<forall>i se. av_sessions v i = Some se \<longrightarrow> se_user_id se = u \<longrightarrow> se_revoked se)"

lemma revoked_for_revoked: "revoked_for u m i = Some se \<Longrightarrow> se_user_id se = u \<Longrightarrow> se_revoked se"
  by (cases "m i") (auto simp: revoked_for_def split: if_splits)

lemma revoked_for_dead:
  assumes "av_sessions v = revoked_for u m"
  shows "sessions_dead u v"
  unfolding sessions_dead_def assms using revoked_for_revoked by blast

text \<open>Requests of one account may have been consumed, and nothing else has changed.\<close>

definition consumes_for ::
  "string \<Rightarrow> (string \<Rightarrow> 'a token_request_scheme option) \<Rightarrow> (string \<Rightarrow> 'a token_request_scheme option) \<Rightarrow> bool" where
  "consumes_for u m m' = (\<forall>i. m' i = m i \<or>
     (\<exists>t. m i = Some t \<and> tr_user_id t = u \<and> m' i = Some (t\<lparr>tr_consumed := True\<rparr>)))"

lemma consumes_for_refl [simp]: "consumes_for u m m"
  by (simp add: consumes_for_def)

lemma consumes_for_cases:
  assumes "consumes_for u m m'"
  obtains "m' i = m i" | t where "m i = Some t" "tr_user_id t = u" "m' i = Some (t\<lparr>tr_consumed := True\<rparr>)"
  using assms unfolding consumes_for_def by blast

lemma consumes_for_trans:
  assumes ab: "consumes_for u a b" and bc: "consumes_for u b c"
  shows "consumes_for u a c"
  unfolding consumes_for_def
proof
  fix i
  show "c i = a i \<or> (\<exists>t. a i = Some t \<and> tr_user_id t = u \<and> c i = Some (t\<lparr>tr_consumed := True\<rparr>))"
  proof (rule consumes_for_cases [OF ab, of i])
    assume "b i = a i"
    with bc show ?thesis unfolding consumes_for_def by metis
  next
    fix t assume t: "a i = Some t" "tr_user_id t = u" "b i = Some (t\<lparr>tr_consumed := True\<rparr>)"
    show ?thesis by (rule consumes_for_cases [OF bc, of i]) (use t in auto)
  qed
qed

lemma consumed_at_for: "(\<And>t. m i = Some t \<Longrightarrow> tr_user_id t = u) \<Longrightarrow> consumes_for u m (consumed_at i m)"
  by (auto simp: consumes_for_def consumed_at_def split: option.split)

definition consumed_in :: "(string \<Rightarrow> 'a token_request_scheme option) \<Rightarrow> string \<Rightarrow> bool" where
  "consumed_in m i = (\<exists>t. m i = Some t \<and> tr_consumed t)"

lemma consumed_in_kept:
  assumes "consumed_in m i" and "consumes_for u m m'"
  shows "consumed_in m' i"
  by (rule consumes_for_cases [OF assms(2), of i]) (use assms(1) in \<open>auto simp: consumed_in_def\<close>)

lemma consumed_at_in: "m i \<noteq> None \<Longrightarrow> consumed_in (consumed_at i m) i"
  by (auto simp: consumed_in_def consumed_at_def)

definition changes_used :: "string \<Rightarrow> account_view \<Rightarrow> account_view \<Rightarrow> bool" where
  "changes_used u v v' = (consumes_for u (av_changes v) (av_changes v') \<and> v' = v\<lparr>av_changes := av_changes v'\<rparr>)"

lemma changes_used_refl [simp]: "changes_used u v v"
  by (simp add: changes_used_def)

lemma changes_used_trans: "changes_used u a b \<Longrightarrow> changes_used u b c \<Longrightarrow> changes_used u a c"
  unfolding changes_used_def by (metis (no_types, lifting) account_view.surjective account_view.update_convs(5) consumes_for_trans)

lemma changes_usedI:
  assumes "\<And>t. av_changes v i = Some t \<Longrightarrow> tr_user_id t = u"
  shows "changes_used u v (v\<lparr>av_changes := consumed_at i (av_changes v)\<rparr>)"
  using consumed_at_for [of "av_changes v" i u] assms by (simp add: changes_used_def)

lemma changes_used_fields:
  assumes "changes_used u v v'"
  shows "av_users v' = av_users v" "av_sessions v' = av_sessions v"
    "av_resets v' = av_resets v" "av_verifications v' = av_verifications v"
  using assms by (simp_all add: changes_used_def) (metis account_view.select_convs account_view.update_convs(5) account_view.surjective)+

text \<open>
  Where a confirmed e-mail change can stop: before anything, after the sessions are revoked, or with the new
  address applied and some requests of the account consumed; all of them when it completes.
\<close>

definition moved_user :: "email_change \<Rightarrow> user \<Rightarrow> datetime \<Rightarrow> user" where
  "moved_user c u now = (if u_email u = ec_new_email c \<and> u_email_verified u then u
     else u\<lparr>u_email := ec_new_email c, u_email_verified := True, u_updated_at := Some now\<rparr>)"

definition email_change_left ::
  "email_change \<Rightarrow> user \<Rightarrow> datetime \<Rightarrow> account_view \<Rightarrow> account_view \<Rightarrow> bool \<Rightarrow> bool" where
  "email_change_left c u now v v' completed =
     (let dead = v\<lparr>av_sessions := revoked_for (u_user_id u) (av_sessions v)\<rparr>;
          applied = dead\<lparr>av_users := (av_users v)(u_user_id u \<mapsto> moved_user c u now)\<rparr>
      in (\<not> completed \<and> (v' = v \<or> v' = dead)) \<or>
         (changes_used (u_user_id u) applied v' \<and>
          (completed \<longrightarrow> (\<forall>i d. av_changes v i = Some d \<longrightarrow> tr_user_id d = u_user_id u \<longrightarrow>
             consumed_in (av_changes v') i))))"

text \<open>What a confirmation of a password reset has read when it starts to write.\<close>

definition reset_ready ::
  "('w, 'l, 'r) auth_service \<Rightarrow> call_inputs \<Rightarrow> string \<Rightarrow> string \<Rightarrow> 'w \<Rightarrow> token_request \<Rightarrow> user \<Rightarrow> string \<Rightarrow> bool" where
  "reset_ready sv inp token new_password w t u h =
     (sv_enabled sv \<and> validate_password new_password = Inr () \<and> strip token \<noteq> [] \<and> sv_resets_on sv \<and>
      tp_by_hash (ap_resets (sv_ports sv)) w (hash_token (strip token)) = Some t \<and> \<not> tr_consumed t \<and>
      is_over (tr_expires_at t) (in_clock inp 0) = Inr False \<and>
      ap_user_by_id (sv_ports sv) w (tr_user_id t) = Some u \<and> u_is_active u \<and>
      hash_password (sv_iterations sv) (in_salt inp) new_password = Inr h)"

lemma run_then_Inr: "run_then m k = (s, Inr y) \<longleftrightarrow> (\<exists>s' x. m = (s', Inr x) \<and> k s' x = (s, Inr y))"
  by (cases m; cases "snd m") (auto simp: run_then_def)

lemma raising_Inr: "raising s r = (s', Inr x) \<longleftrightarrow> s' = s \<and> r = Inr x"
  by (auto simp: raising_def)

lemma hasher_Inr: "(case r of Inl e \<Rightarrow> Inl (HasherError e) | Inr h \<Rightarrow> Inr h) = Inr x \<longleftrightarrow> r = Inr x"
  by (auto split: sum.splits)

lemma confirmed_reset_ready:
  assumes "confirm_password_reset sv inp token new_password st = (st', Inr x)"
  shows "\<exists>t u h. reset_ready sv inp token new_password (au_repo st) t u h"
  using assms unfolding confirm_password_reset_def Let_def reset_ready_def
  by (auto simp: run_then_Inr raising_Inr hasher_Inr standing_Inr live_account_Inr split: if_splits)

lemma limited_alike:
  assumes "au_rate s = au_rate t"
  shows "snd (limited sv key now u d msg s) = snd (limited sv key now u d msg t) \<and>
    au_rate (fst (limited sv key now u d msg s)) = au_rate (fst (limited sv key now u d msg t)) \<and>
    au_mail (fst (limited sv key now u d msg s)) = au_mail s"
  using assms by (auto simp: limited_def limiter_check_def run_then_def
    split: prod.split sum.split rate_error.split)

text \<open>What a reset request does before it looks for the account, and the request it then stores.\<close>

definition reset_gate ::
  "('w, 'l, 'r) auth_service \<Rightarrow> call_inputs \<Rightarrow> string \<Rightarrow> ('w, 'l, 'r) auth_state
     \<Rightarrow> ('w, 'l, 'r) auth_state \<times> (auth_error + string)" where
  "reset_gate sv inp email st =
     (if \<not> sv_enabled sv then (st, Inl AUTH_DISABLED) else
      case and_then (normalize_email email) (\<lambda>c. and_then (abuse_key sv ''password_reset'' c) (\<lambda>k. Inr (c, k))) of
        Inl e \<Rightarrow> (st, Inl e)
      | Inr (c, k) \<Rightarrow> run_then (limited sv k (in_clock inp 0) None ''password_reset''
          ''Too many password reset attempts. Try again later.'' st) (\<lambda>st _. (st, Inr c)))"

definition ACCEPTED :: auth_response where
  "ACCEPTED = \<lparr>re_status = ''accepted'', re_token = None\<rparr>"

definition requested_reset :: "call_inputs \<Rightarrow> user \<Rightarrow> token_request" where
  "requested_reset inp u = \<lparr>tr_id = in_id inp 0, tr_user_id = u_user_id u, tr_token_hash = hash_token (in_token inp 0),
     tr_created_at = in_clock inp 1, tr_expires_at = plus_seconds (in_clock inp 1) PASSWORD_RESET_TTL,
     tr_consumed = False\<rparr>"

lemma reset_gate_alike:
  assumes "au_rate s = au_rate t"
  shows "snd (reset_gate sv inp email s) = snd (reset_gate sv inp email t) \<and>
    au_rate (fst (reset_gate sv inp email s)) = au_rate (fst (reset_gate sv inp email t)) \<and>
    au_mail (fst (reset_gate sv inp email s)) = au_mail s \<and>
    au_repo (fst (reset_gate sv inp email s)) = au_repo s"
proof (cases "and_then (normalize_email email) (\<lambda>c. and_then (abuse_key sv ''password_reset'' c) (\<lambda>k. Inr (c, k)))")
  case (Inl e)
  then show ?thesis using assms by (simp add: reset_gate_def)
next
  case (Inr ck)
  obtain c k where ck: "ck = (c, k)" by (cases ck)
  let ?gate = "limited sv k (in_clock inp 0) None ''password_reset'' ''Too many password reset attempts. Try again later.''"
  have "au_repo (fst (?gate s)) = au_repo s" by simp
  then show ?thesis
    using limited_alike [OF assms, of sv k "in_clock inp 0" None "''password_reset''"
        "''Too many password reset attempts. Try again later.''"] assms Inr
    by (cases "?gate s"; cases "?gate t"; cases "snd (?gate s)") (auto simp: reset_gate_def ck run_then_def)
qed

lemma request_after_gate:
  "request_password_reset sv inp email st = run_then (reset_gate sv inp email st) (\<lambda>st c.
     case ap_user_by_email (sv_ports sv) (au_repo st) c of
       None \<Rightarrow> (st, Inr ACCEPTED)
     | Some u \<Rightarrow>
         if \<not> sv_resets_on sv then (st, Inr ACCEPTED)
         else run_then (create_password_reset sv u (in_clock inp 1) (in_token inp 0) (in_id inp 0) st) (\<lambda>st raw.
           (st, Inr \<lparr>re_status = ''accepted'', re_token = inline_token sv raw\<rparr>)))"
proof (cases "normalize_email email")
  case (Inl e)
  then show ?thesis by (simp add: request_password_reset_def reset_gate_def raising_def)
next
  case c: (Inr c)
  show ?thesis
  proof (cases "abuse_key sv ''password_reset'' c")
    case Inl
    with c show ?thesis by (simp add: request_password_reset_def reset_gate_def raising_def)
  next
    case (Inr k)
    let ?gate = "limited sv k (in_clock inp 0) None ''password_reset'' ''Too many password reset attempts. Try again later.'' st"
    show ?thesis
      unfolding ACCEPTED_def using c Inr
      by (cases ?gate; cases "snd ?gate") (simp_all add: request_password_reset_def reset_gate_def raising_def)
  qed
qed

section \<open>Handlers over a store\<close>

context account_store begin

lemma invalidate_each_law:
  assumes sv: "sv_ports sv = P" and "ok (au_repo st)"
    and "\<forall>c\<in>set cs. \<exists>c'. av_changes (view (au_repo st)) (tr_id c) = Some c' \<and> tr_user_id c' = u \<and>
      (tr_consumed c \<longrightarrow> tr_consumed c')"
  shows "leads_to
    (\<lambda>s e. ok (au_repo s) \<and> changes_used u (view (au_repo st)) (view (au_repo s)))
    (\<lambda>s x. ok (au_repo s) \<and> changes_used u (view (au_repo st)) (view (au_repo s)) \<and>
       (\<forall>c\<in>set cs. consumed_in (av_changes (view (au_repo s))) (tr_id c)))
    (invalidate_each sv n cs st)"
  using assms(2,3)
proof (induction cs arbitrary: st n)
  case Nil
  then show ?case by simp
next
  case (Cons c cs)
  obtain c' where c': "av_changes (view (au_repo st)) (tr_id c) = Some c'" "tr_user_id c' = u"
    "tr_consumed c \<longrightarrow> tr_consumed c'" using Cons.prems(2) by auto
  show ?case
  proof (cases "tr_consumed c")
    case True
    then have "consumed_in (av_changes (view (au_repo st))) (tr_id c)"
      using c' by (simp add: consumed_in_def)
    then have kept: "consumed_in (av_changes v') (tr_id c)"
      if "changes_used u (view (au_repo st)) v'" for v'
      using that by (auto simp: changes_used_def intro: consumed_in_kept)
    have ih: "leads_to
      (\<lambda>s e. ok (au_repo s) \<and> changes_used u (view (au_repo st)) (view (au_repo s)))
      (\<lambda>s x. ok (au_repo s) \<and> changes_used u (view (au_repo st)) (view (au_repo s)) \<and>
         (\<forall>c\<in>set cs. consumed_in (av_changes (view (au_repo s))) (tr_id c)))
      (invalidate_each sv n cs st)"
      using Cons.IH [OF Cons.prems(1)] Cons.prems(2) by simp
    show ?thesis
      unfolding invalidate_each.simps if_P [OF True] by (rule leads_to_mono [OF ih]) (auto intro: kept)
  next
    case False
    obtain w' where w': "tp_consume (ap_changes P) (au_repo st) (tr_id c) = (w', Inr ())" "ok w'"
      "view w' = (view (au_repo st))\<lparr>av_changes := consumed_at (tr_id c) (av_changes (view (au_repo st)))\<rparr>"
      using changes.token_consume [OF Cons.prems(1), of "tr_id c"] by blast
    have step: "changes_used u (view (au_repo st)) (view w')"
      unfolding w'(3) by (rule changes_usedI) (use c' in simp)
    have "consumed_in (av_changes (view w')) (tr_id c)"
      unfolding w'(3) using c'(1) by (simp add: consumed_at_in)
    then have kept: "consumed_in (av_changes v') (tr_id c)" if "changes_used u (view w') v'" for v'
      using that by (auto simp: changes_used_def intro: consumed_in_kept)
    let ?st = "st\<lparr>au_repo := w'\<rparr>"
    have "\<exists>d'. av_changes (view (au_repo ?st)) (tr_id d) = Some d' \<and> tr_user_id d' = u \<and>
        (tr_consumed d \<longrightarrow> tr_consumed d')" if "d \<in> set cs" for d
      using that Cons.prems(2) c' by (auto simp: w'(3) consumed_at_def)
    then have "\<forall>d\<in>set cs. \<exists>d'. av_changes (view (au_repo ?st)) (tr_id d) = Some d' \<and> tr_user_id d' = u \<and>
        (tr_consumed d \<longrightarrow> tr_consumed d')" by blast
    moreover have "ok (au_repo ?st)" using w'(2) by simp
    ultimately have ih: "leads_to
      (\<lambda>s e. ok (au_repo s) \<and> changes_used u (view (au_repo ?st)) (view (au_repo s)))
      (\<lambda>s x. ok (au_repo s) \<and> changes_used u (view (au_repo ?st)) (view (au_repo s)) \<and>
         (\<forall>c\<in>set cs. consumed_in (av_changes (view (au_repo s))) (tr_id c)))
      (invalidate_each sv (Suc n) cs ?st)"
      using Cons.IH [of ?st "Suc n"] by blast
    have "leads_to
      (\<lambda>s e. ok (au_repo s) \<and> changes_used u (view (au_repo st)) (view (au_repo s)))
      (\<lambda>s x. ok (au_repo s) \<and> changes_used u (view (au_repo st)) (view (au_repo s)) \<and>
         (\<forall>d\<in>set (c # cs). consumed_in (av_changes (view (au_repo s))) (tr_id d)))
      (invalidate_each sv (Suc n) cs ?st)"
      by (rule leads_to_mono [OF ih]) (use step changes_used_trans kept in auto)
    then show ?thesis
      using False Cons.prems(1) by (auto simp: sv w'(1) intro!: leads_to_on_repo)
  qed
qed

lemma view_keyed:
  assumes "ok w"
  shows "keyed_map u_user_id (email_key \<circ> u_email) (av_users (view w))"
    "keyed_map se_session_id se_token_hash (av_sessions (view w))"
    "keyed_map tr_id tr_token_hash (av_resets (view w))"
    "keyed_map tr_id tr_token_hash (av_verifications (view w))"
    "keyed_map tr_id tr_token_hash (av_changes (view w))"
  using well_formed [OF assms] by (simp_all add: view_ok_def)

lemma found_change:
  assumes "ok w" and "tp_by_hash (ap_changes P) w h = Some c"
  shows "av_changes (view w) (tr_id c) = Some c \<and> tr_token_hash c = h"
  using assms changes.token_by_hash [OF assms(1), of h c] view_keyed(5) [OF assms(1)]
  by (auto simp: keyed_map_def)

lemma found_reset:
  assumes "ok w" and "tp_by_hash (ap_resets P) w h = Some t"
  shows "av_resets (view w) (tr_id t) = Some t \<and> tr_token_hash t = h"
  using assms resets.token_by_hash [OF assms(1), of h t] view_keyed(3) [OF assms(1)]
  by (auto simp: keyed_map_def)

lemma found_verification:
  assumes "ok w" and "tp_by_hash (ap_verifications P) w h = Some t"
  shows "av_verifications (view w) (tr_id t) = Some t \<and> tr_token_hash t = h"
  using assms verifications.token_by_hash [OF assms(1), of h t] view_keyed(4) [OF assms(1)]
  by (auto simp: keyed_map_def)

lemma found_session:
  assumes "ok w" and "ap_session_by_hash P w h = Some se"
  shows "av_sessions (view w) (se_session_id se) = Some se \<and> se_token_hash se = h \<and> se_session_id se \<noteq> []"
  using assms by_hash [OF assms(1), of h se] view_keyed(2) [OF assms(1)]
  by (auto simp: keyed_map_def)

lemma found_user:
  assumes "ok w" and "ap_user_by_id P w i = Some u"
  shows "av_users (view w) i = Some u \<and> u_user_id u = i \<and> i \<noteq> []"
  using assms by_id [OF assms(1)] view_keyed(1) [OF assms(1)] by (auto simp: keyed_map_def)

text \<open>Saving a user under the e-mail it has is never refused.\<close>

lemma resave_user:
  assumes "ok w" and "av_users (view w) (u_user_id u) = Some u0" and "u_email u = u_email u0"
  shows "\<exists>w'. ap_save_user P w u = (w', Inr ()) \<and> ok w' \<and>
    view w' = (view w)\<lparr>av_users := (av_users (view w))(u_user_id u \<mapsto> u)\<rparr>"
proof (rule save_user [OF assms(1)])
  show "u_user_id u \<noteq> []" using view_keyed(1) [OF assms(1)] assms(2) by (simp add: keyed_map_def)
  show "\<not> key_elsewhere (email_key \<circ> u_email) (av_users (view w)) (u_user_id u) (email_key (u_email u))"
    using keyed_map_same [OF view_keyed(1) [OF assms(1)] assms(2)] assms(3) by simp
qed

lemma free_email:
  assumes "ok w" and "case ap_user_by_email P w e of None \<Rightarrow> True | Some occupant \<Rightarrow> u_user_id occupant = i"
  shows "\<not> key_elsewhere (email_key \<circ> u_email) (av_users (view w)) i (email_key e)"
proof
  assume "key_elsewhere (email_key \<circ> u_email) (av_users (view w)) i (email_key e)"
  then obtain j d where d: "av_users (view w) j = Some d" "j \<noteq> i" "email_key (u_email d) = email_key e"
    by (auto simp: key_elsewhere_def)
  then have "ap_user_by_email P w e = Some d" using by_email [OF assms(1), of e d] by auto
  moreover have "u_user_id d = j" using view_keyed(1) [OF assms(1)] d(1) by (simp add: keyed_map_def)
  ultimately show False using assms(2) d(2) by simp
qed

lemma reading_law:
  assumes sv: "sv_ports sv = P" and w: "ok w" and read: "reading_email_change sv token now w = Inr (c, u)"
  shows "av_changes (view w) (tr_id c) = Some c" "\<not> tr_consumed c" "tr_user_id c = u_user_id u"
    "av_users (view w) (u_user_id u) = Some u" "u_user_id u \<noteq> []"
    "\<not> key_elsewhere (email_key \<circ> u_email) (av_users (view w)) (u_user_id u) (email_key (ec_new_email c))"
proof -
  from read have found: "tp_by_hash (ap_changes P) w (hash_token (strip token)) = Some c" "\<not> tr_consumed c"
    and u: "ap_user_by_id P w (tr_user_id c) = Some u"
    and free: "case ap_user_by_email P w (ec_new_email c) of None \<Rightarrow> True
      | Some occupant \<Rightarrow> u_user_id occupant = u_user_id u"
    by (auto simp: reading_email_change_def Let_def sv and_then_Inr_iff standing_Inr live_account_Inr
      split: if_splits option.splits)
  show "av_changes (view w) (tr_id c) = Some c" "\<not> tr_consumed c" using found_change [OF w found(1)] found(2) by auto
  show "tr_user_id c = u_user_id u" "av_users (view w) (u_user_id u) = Some u" "u_user_id u \<noteq> []"
    using found_user [OF w u] by auto
  show "\<not> key_elsewhere (email_key \<circ> u_email) (av_users (view w)) (u_user_id u) (email_key (ec_new_email c))"
    by (rule free_email [OF w free])
qed

lemma consume_email_change_law:
  assumes sv: "sv_ports sv = P" and w: "ok (au_repo st)"
    and c: "av_changes (view (au_repo st)) (tr_id c) = Some c" "tr_user_id c = u_user_id u"
  shows "leads_to
    (\<lambda>s e. ok (au_repo s) \<and> changes_used (u_user_id u) (view (au_repo st)) (view (au_repo s)))
    (\<lambda>s x. ok (au_repo s) \<and> changes_used (u_user_id u) (view (au_repo st)) (view (au_repo s)) \<and>
       (\<forall>i d. av_changes (view (au_repo st)) i = Some d \<longrightarrow> tr_user_id d = u_user_id u \<longrightarrow>
          consumed_in (av_changes (view (au_repo s))) i))
    (consume_email_change sv c u st)"
proof -
  let ?v = "view (au_repo st)"
  obtain w' where w': "tp_consume (ap_changes P) (au_repo st) (tr_id c) = (w', Inr ())" "ok w'"
    "view w' = ?v\<lparr>av_changes := consumed_at (tr_id c) (av_changes ?v)\<rparr>"
    using changes.token_consume [OF w, of "tr_id c"] by blast
  have step: "changes_used (u_user_id u) ?v (view w')"
    unfolding w'(3) by (rule changes_usedI) (use c in simp)
  let ?st = "st\<lparr>au_repo := w'\<rparr>"
  let ?cs = "ap_changes_of P w' (u_user_id u)"
  have at: "av_changes (view w') (tr_id d) = Some d \<and> tr_user_id d = u_user_id u" if "d \<in> set ?cs" for d
    using that changes_of [OF w'(2)] view_keyed(5) [OF w'(2)] by (auto simp: keyed_map_def)
  have all: "tr_id d \<in> tr_id ` set ?cs" if "av_changes (view w') (tr_id d) = Some d" "tr_user_id d = u_user_id u" for d
    using that changes_of [OF w'(2)] by blast
  have covered: "i \<in> tr_id ` set ?cs" if d: "av_changes ?v i = Some d" "tr_user_id d = u_user_id u" for i d
  proof -
    obtain d' where d': "av_changes (view w') i = Some d'" "tr_user_id d' = u_user_id u"
      using d c by (cases "i = tr_id c") (auto simp: w'(3) consumed_at_def)
    then have "tr_id d' = i" using view_keyed(5) [OF w'(2)] by (simp add: keyed_map_def)
    with d' all show ?thesis by blast
  qed
  have ih: "leads_to
    (\<lambda>s e. ok (au_repo s) \<and> changes_used (u_user_id u) (view (au_repo ?st)) (view (au_repo s)))
    (\<lambda>s x. ok (au_repo s) \<and> changes_used (u_user_id u) (view (au_repo ?st)) (view (au_repo s)) \<and>
       (\<forall>d\<in>set ?cs. consumed_in (av_changes (view (au_repo s))) (tr_id d)))
    (invalidate_for_user sv (u_user_id u) ?st)"
    using invalidate_each_law [OF sv, of ?st ?cs "u_user_id u" 0] at w'(2)
    by (simp add: invalidate_for_user_def sv)
  have "leads_to
    (\<lambda>s e. ok (au_repo s) \<and> changes_used (u_user_id u) ?v (view (au_repo s)))
    (\<lambda>s x. ok (au_repo s) \<and> changes_used (u_user_id u) ?v (view (au_repo s)) \<and>
       (\<forall>i d. av_changes ?v i = Some d \<longrightarrow> tr_user_id d = u_user_id u \<longrightarrow>
          consumed_in (av_changes (view (au_repo s))) i))
    (invalidate_for_user sv (u_user_id u) ?st)"
    by (rule leads_to_mono [OF ih]) (use step changes_used_trans covered in \<open>auto, blast\<close>)
  then show ?thesis
    using w by (auto simp: consume_email_change_def sv w'(1) intro!: leads_to_on_repo)
qed

lemma confirm_email_change_law:
  assumes sv: "sv_ports sv = P" and w: "ok (au_repo st)"
    and read: "reading_email_change sv token (in_clock inp 0) (au_repo st) = Inr (c, u)" and on: "sv_enabled sv"
  shows "leads_to
    (\<lambda>s e. ok (au_repo s) \<and> email_change_left c u (in_clock inp 0) (view (au_repo st)) (view (au_repo s)) False)
    (\<lambda>s x. ok (au_repo s) \<and> email_change_left c u (in_clock inp 0) (view (au_repo st)) (view (au_repo s)) True)
    (confirm_email_change sv inp token st)"
proof -
  let ?v = "view (au_repo st)" and ?now = "in_clock inp 0"
  note c = reading_law [OF sv w read]
  obtain w1 where w1: "ap_revoke_all P (au_repo st) (u_user_id u) = (w1, Inr ())" "ok w1"
    "view w1 = ?v\<lparr>av_sessions := revoked_for (u_user_id u) (av_sessions ?v)\<rparr>"
    using revoke_all [OF w, of "u_user_id u"] by blast
  let ?applied = "view w1\<lparr>av_users := (av_users ?v)(u_user_id u \<mapsto> moved_user c u ?now)\<rparr>"
  have moved: "leads_to (\<lambda>s e. au_repo s = w1)
      (\<lambda>s x. ok (au_repo s) \<and> view (au_repo s) = ?applied) (apply_email_change sv c u ?now (st\<lparr>au_repo := w1\<rparr>))"
  proof (cases "u_email u = ec_new_email c \<and> u_email_verified u")
    case True
    then have "(av_users ?v)(u_user_id u \<mapsto> moved_user c u ?now) = av_users ?v"
      using c(4) by (auto simp: moved_user_def fun_eq_iff)
    then show ?thesis using True w1(2) by (simp add: apply_email_change_def w1(3))
  next
    case False
    let ?u = "u\<lparr>u_email := ec_new_email c, u_email_verified := True, u_updated_at := Some ?now\<rparr>"
    have "\<exists>w'. ap_save_user P w1 ?u = (w', Inr ()) \<and> ok w' \<and>
        view w' = (view w1)\<lparr>av_users := (av_users (view w1))(u_user_id ?u \<mapsto> ?u)\<rparr>"
      by (rule save_user [OF w1(2)]) (use c(5,6) in \<open>simp_all add: w1(3)\<close>)
    then obtain w2 where "ap_save_user P w1 ?u = (w2, Inr ())" "ok w2" "view w2 = ?applied"
      using False by (auto simp: moved_user_def w1(3))
    then show ?thesis
      using False by (auto simp: apply_email_change_def sv intro!: leads_to_on_repo)
  qed
  have after: "leads_to
      (\<lambda>s e. ok (au_repo s) \<and> email_change_left c u ?now ?v (view (au_repo s)) False)
      (\<lambda>s x. ok (au_repo s) \<and> email_change_left c u ?now ?v (view (au_repo s)) True)
      (consume_email_change sv c u s)" if "ok (au_repo s)" "view (au_repo s) = ?applied" for s
    using c(1,3) by (intro leads_to_mono [OF consume_email_change_law [OF sv that(1)]])
      (auto simp: that(2) w1(3) email_change_left_def Let_def)
  have rest: "leads_to
      (\<lambda>s e. ok (au_repo s) \<and> email_change_left c u ?now ?v (view (au_repo s)) False)
      (\<lambda>s x. ok (au_repo s) \<and> email_change_left c u ?now ?v (view (au_repo s)) True)
      (run_then (apply_email_change sv c u ?now (st\<lparr>au_repo := w1\<rparr>)) (\<lambda>st _.
        run_then (consume_email_change sv c u st) (\<lambda>st _.
          (audited ''email_change_confirmed'' (Some (u_user_id u)) '''' st, Inr ''email_changed''))))"
    unfolding leads_to_run_then leads_to_simps audited_fields
    by (rule leads_to_mono [OF moved]) (use after w1 in \<open>auto simp: email_change_left_def Let_def\<close>)
  show ?thesis
    unfolding confirm_email_change_def if_not_P [OF iffD2 [OF not_not on]]
    unfolding leads_to_run_then leads_to_simps read sum.case prod.case leads_to_reported_as
    by (rule leads_to_on_repo) (use rest w in \<open>simp_all add: sv w1(1) email_change_left_def\<close>)
qed

text \<open>The writes of a confirmed reset, with the faults of the call where they strike.\<close>

lemma confirm_password_reset_law:
  assumes sv: "sv_ports sv = P" and w: "ok (au_repo st)"
    and ready: "reset_ready sv inp token new_password (au_repo st) t u h"
  shows "\<exists>w1 w2 w3.
    av_resets (view (au_repo st)) (tr_id t) = Some t \<and> tr_token_hash t = hash_token (strip token) \<and>
    av_users (view (au_repo st)) (tr_user_id t) = Some u \<and> u_user_id u = tr_user_id t \<and>
    ok w1 \<and> view w1 = (view (au_repo st))\<lparr>av_users := (av_users (view (au_repo st)))(tr_user_id t \<mapsto>
      u\<lparr>u_password_hash := h, u_updated_at := Some (in_clock inp 0)\<rparr>)\<rparr> \<and>
    ok w2 \<and> view w2 = (view w1)\<lparr>av_resets := consumed_at (tr_id t) (av_resets (view w1))\<rparr> \<and>
    ok w3 \<and> view w3 = (view w2)\<lparr>av_sessions := revoked_for (tr_user_id t) (av_sessions (view w2))\<rparr> \<and>
    confirm_password_reset sv inp token new_password st =
      (if AtUserSave \<in> set (sv_faults sv) then (st, Inl PersistenceUnavailable)
       else if AtConsume \<in> set (sv_faults sv) then (st\<lparr>au_repo := w1\<rparr>, Inl PersistenceUnavailable)
       else if AtRevokeAll \<in> set (sv_faults sv) then (st\<lparr>au_repo := w2\<rparr>, Inl PersistenceUnavailable)
       else (audited ''password_changed'' (Some (tr_user_id t)) ''password_reset_confirmed'' (st\<lparr>au_repo := w3\<rparr>),
             Inr ''password_changed''))"
proof -
  note r = ready [unfolded reset_ready_def sv]
  have t: "av_resets (view (au_repo st)) (tr_id t) = Some t" "tr_token_hash t = hash_token (strip token)"
    using found_reset [OF w] r by auto
  have u: "av_users (view (au_repo st)) (tr_user_id t) = Some u" "u_user_id u = tr_user_id t"
    using found_user [OF w] r by auto
  let ?u = "u\<lparr>u_password_hash := h, u_updated_at := Some (in_clock inp 0)\<rparr>"
  obtain w1 where w1: "ap_save_user P (au_repo st) ?u = (w1, Inr ())" "ok w1"
    "view w1 = (view (au_repo st))\<lparr>av_users := (av_users (view (au_repo st)))(tr_user_id t \<mapsto> ?u)\<rparr>"
    using resave_user [OF w, of ?u u] u by auto
  obtain w2 where w2: "tp_consume (ap_resets P) w1 (tr_id t) = (w2, Inr ())" "ok w2"
    "view w2 = (view w1)\<lparr>av_resets := consumed_at (tr_id t) (av_resets (view w1))\<rparr>"
    using resets.token_consume [OF w1(2)] by blast
  obtain w3 where w3: "ap_revoke_all P w2 (tr_user_id t) = (w3, Inr ())" "ok w3"
    "view w3 = (view w2)\<lparr>av_sessions := revoked_for (tr_user_id t) (av_sessions (view w2))\<rparr>"
    using revoke_all [OF w2(2)] by blast
  have "standing INVALID_RESET_TOKEN (tp_by_hash (ap_resets P) (au_repo st) (hash_token (strip token)))
      (in_clock inp 0) = Inr t"
    "live_account INVALID_RESET_TOKEN (ap_user_by_id P (au_repo st) (tr_user_id t)) = Inr u"
    using r by (simp_all add: standing_Inr live_account_Inr)
  then have "confirm_password_reset sv inp token new_password st =
      (if AtUserSave \<in> set (sv_faults sv) then (st, Inl PersistenceUnavailable)
       else if AtConsume \<in> set (sv_faults sv) then (st\<lparr>au_repo := w1\<rparr>, Inl PersistenceUnavailable)
       else if AtRevokeAll \<in> set (sv_faults sv) then (st\<lparr>au_repo := w2\<rparr>, Inl PersistenceUnavailable)
       else (audited ''password_changed'' (Some (tr_user_id t)) ''password_reset_confirmed'' (st\<lparr>au_repo := w3\<rparr>),
             Inr ''password_changed''))"
    using r u(2) by (simp add: confirm_password_reset_def sv raising_def on_repo_def w1(1) w2(1) w3(1))
  with t u w1(2,3) w2(2,3) w3(2,3) show ?thesis by blast
qed

lemma consumed_reset_refused:
  assumes "sv_ports sv = P" and w: "ok (au_repo st)" and "sv_enabled sv" and "validate_password new_password = Inr ()"
    and t: "av_resets (view (au_repo st)) i = Some t" "tr_consumed t" "tr_token_hash t = hash_token (strip token)"
  shows "confirm_password_reset sv inp token new_password st = (st, Inl INVALID_RESET_TOKEN)"
proof -
  have "tp_by_hash (ap_resets P) (au_repo st) (hash_token (strip token)) = Some t"
    using resets.token_by_hash [OF w] t by blast
  then show ?thesis
    using assms by (simp add: confirm_password_reset_def Let_def raising_def standing_def)
qed

lemma consumed_at_found: "m i = Some t \<Longrightarrow> consumed_at i m i = Some (t\<lparr>tr_consumed := True\<rparr>)"
  by (simp add: consumed_at_def)

lemma reset_confirmed:
  assumes sv: "sv_ports sv = P" and w: "ok (au_repo st)"
    and run: "confirm_password_reset sv inp token new_password st = (st', Inr x)"
  shows "\<exists>t u h. reset_ready sv inp token new_password (au_repo st) t u h \<and>
    av_resets (view (au_repo st)) (tr_id t) = Some t \<and> av_users (view (au_repo st)) (tr_user_id t) = Some u \<and>
    ok (au_repo st') \<and> view (au_repo st') = (view (au_repo st))
      \<lparr>av_users := (av_users (view (au_repo st)))(tr_user_id t \<mapsto>
         u\<lparr>u_password_hash := h, u_updated_at := Some (in_clock inp 0)\<rparr>),
       av_sessions := revoked_for (tr_user_id t) (av_sessions (view (au_repo st))),
       av_resets := consumed_at (tr_id t) (av_resets (view (au_repo st)))\<rparr> \<and>
    (\<forall>sv2 inp2 again. sv_ports sv2 = P \<longrightarrow> sv_enabled sv2 \<longrightarrow> validate_password again = Inr () \<longrightarrow>
       confirm_password_reset sv2 inp2 token again st' = (st', Inl INVALID_RESET_TOKEN))"
proof -
  obtain t u h where ready: "reset_ready sv inp token new_password (au_repo st) t u h"
    using confirmed_reset_ready [OF run] by blast
  obtain w1 w2 w3 where law:
    "av_resets (view (au_repo st)) (tr_id t) = Some t" "tr_token_hash t = hash_token (strip token)"
    "av_users (view (au_repo st)) (tr_user_id t) = Some u"
    "view w1 = (view (au_repo st))\<lparr>av_users := (av_users (view (au_repo st)))(tr_user_id t \<mapsto>
      u\<lparr>u_password_hash := h, u_updated_at := Some (in_clock inp 0)\<rparr>)\<rparr>"
    "view w2 = (view w1)\<lparr>av_resets := consumed_at (tr_id t) (av_resets (view w1))\<rparr>"
    "ok w3" "view w3 = (view w2)\<lparr>av_sessions := revoked_for (tr_user_id t) (av_sessions (view w2))\<rparr>"
    "confirm_password_reset sv inp token new_password st =
      (if AtUserSave \<in> set (sv_faults sv) then (st, Inl PersistenceUnavailable)
       else if AtConsume \<in> set (sv_faults sv) then (st\<lparr>au_repo := w1\<rparr>, Inl PersistenceUnavailable)
       else if AtRevokeAll \<in> set (sv_faults sv) then (st\<lparr>au_repo := w2\<rparr>, Inl PersistenceUnavailable)
       else (audited ''password_changed'' (Some (tr_user_id t)) ''password_reset_confirmed'' (st\<lparr>au_repo := w3\<rparr>),
             Inr ''password_changed''))"
    using confirm_password_reset_law [OF sv w ready] by blast
  have repo: "au_repo st' = w3" using run law(8) by (auto split: if_splits)
  have "av_resets (view (au_repo st')) (tr_id t) = Some (t\<lparr>tr_consumed := True\<rparr>)"
    unfolding repo law(7,5,4) using law(1) by (simp add: consumed_at_def)
  then have "confirm_password_reset sv2 inp2 token again st' = (st', Inl INVALID_RESET_TOKEN)"
    if "sv_ports sv2 = P" "sv_enabled sv2" "validate_password again = Inr ()" for sv2 inp2 again
    using consumed_reset_refused [OF that(1) _ that(2,3)] law(2,6) repo by auto
  moreover have "view (au_repo st') = (view (au_repo st))
      \<lparr>av_users := (av_users (view (au_repo st)))(tr_user_id t \<mapsto>
         u\<lparr>u_password_hash := h, u_updated_at := Some (in_clock inp 0)\<rparr>),
       av_sessions := revoked_for (tr_user_id t) (av_sessions (view (au_repo st))),
       av_resets := consumed_at (tr_id t) (av_resets (view (au_repo st)))\<rparr>"
    unfolding repo law(7,5,4) by simp
  ultimately show ?thesis using ready law(1,3,6) repo by blast
qed

lemma request_reset_law:
  assumes sv: "sv_ports sv = P" and "\<not> sv_inline_tokens sv" and "AtTokenSave \<notin> set (sv_faults sv)"
    and w: "ok (au_repo st)" and id: "in_id inp 0 \<noteq> []"
    and fresh: "av_resets (view (au_repo st)) (in_id inp 0) = None \<and>
      \<not> key_elsewhere tr_token_hash (av_resets (view (au_repo st))) (in_id inp 0) (hash_token (in_token inp 0))"
    and run: "request_password_reset sv inp email st = (st', r)"
  shows "r = (case snd (reset_gate sv inp email st) of Inl e \<Rightarrow> Inl e | Inr _ \<Rightarrow> Inr ACCEPTED) \<and>
    au_rate st' = au_rate (fst (reset_gate sv inp email st)) \<and> ok (au_repo st') \<and>
    av_users (view (au_repo st')) = av_users (view (au_repo st)) \<and>
    av_sessions (view (au_repo st')) = av_sessions (view (au_repo st)) \<and>
    (au_mail st' = au_mail st \<or> (\<exists>i u c. av_users (view (au_repo st)) i = Some u \<and>
       normalize_email email = Inr c \<and> email_key (u_email u) = email_key c \<and>
       au_mail st' = au_mail st @ [\<lparr>om_kind = ResetMail, om_to = u_email u, om_token = in_token inp 0\<rparr>] \<and>
       av_resets (view (au_repo st')) = (av_resets (view (au_repo st)))(in_id inp 0 \<mapsto> requested_reset inp u)))"
proof -
  obtain st1 g where gate: "reset_gate sv inp email st = (st1, g)" by (cases "reset_gate sv inp email st")
  have kept: "au_mail st1 = au_mail st" "au_repo st1 = au_repo st"
    using reset_gate_alike [OF refl, of sv inp email st] gate by simp_all
  show ?thesis
  proof (cases g)
    case (Inl e)
    then show ?thesis using run w kept by (simp add: request_after_gate gate)
  next
    case (Inr c)
    then have c: "normalize_email email = Inr c"
      using gate by (auto simp: reset_gate_def and_then_Inr_iff run_then_def split: if_splits sum.splits prod.splits)
    show ?thesis
    proof (cases "ap_user_by_email P (au_repo st) c = None \<or> \<not> sv_resets_on sv")
      case True
      then show ?thesis using run w kept Inr by (auto simp: request_after_gate gate sv split: option.splits)
    next
      case False
      then obtain u where u: "ap_user_by_email P (au_repo st) c = Some u" and on: "sv_resets_on sv" by auto
      then obtain i where i: "av_users (view (au_repo st)) i = Some u" "email_key (u_email u) = email_key c"
        using by_email [OF w] by blast
      obtain w' where save: "tp_save (ap_resets P) (au_repo st) (requested_reset inp u) = (w', Inr ())" and w': "ok w'"
        and v: "view w' = (view (au_repo st))\<lparr>av_resets := (av_resets (view (au_repo st)))(in_id inp 0 \<mapsto> requested_reset inp u)\<rparr>"
        using resets.token_save [OF w, of "requested_reset inp u"] id fresh by (auto simp: requested_reset_def)
      have "(st', r) = (mailed sv \<lparr>om_kind = ResetMail, om_to = u_email u, om_token = in_token inp 0\<rparr>
          (audited ''password_reset_requested'' (Some (u_user_id u)) '''')
          (audited ''password_reset_requested'' (Some (u_user_id u)) ''email_delivery_failed'') (st1\<lparr>au_repo := w'\<rparr>),
          Inr ACCEPTED)"
        using run assms(2,3) on save [unfolded requested_reset_def]
        by (simp add: request_after_gate gate Inr u sv kept create_password_reset_def on_repo_def Let_def
          inline_token_def ACCEPTED_def)
      then show ?thesis
        using w' v i c gate Inr kept by (auto simp: mailed_def)
    qed
  qed
qed

text \<open>A refresh writes back the session it has read, whatever has become of it.\<close>

lemma refresh_writes_back:
  assumes sv: "sv_ports sv = P" and "AtSessionSave \<notin> set (sv_faults sv)"
    and w: "ok w" and read: "read_session sv access_token now w = Inr (Refresh se)"
    and w1: "ok (au_repo st1)" and there: "av_sessions (view (au_repo st1)) (se_session_id se) = Some d"
      "se_token_hash d = se_token_hash se"
    and later: "is_over (se_expires_at se) later = Inr False"
  shows "\<exists>st2 se2. finish_session sv now strict (Refresh se) st1 = (st2, Inr (Some se2)) \<and> \<not> se_revoked se2 \<and>
    read_session sv access_token later (au_repo st2) = Inr (Refresh se2)"
proof -
  obtain token where token: "sv_enabled sv" "access_token = Some token" "strip token \<noteq> []"
    and found: "ap_session_by_hash P w (hash_token (strip token)) = Some se"
    using read_session_found [OF read disjI1 [OF refl], unfolded sv] by blast
  let ?se = "se\<lparr>se_last_seen_at := Some now, se_revoked := False\<rparr>"
  have kept: "se_session_id ?se = se_session_id se" "se_token_hash ?se = se_token_hash se" by simp_all
  have "\<not> key_elsewhere se_token_hash (av_sessions (view (au_repo st1))) (se_session_id se) (se_token_hash se)"
    using keyed_map_same [OF view_keyed(2) [OF w1] there(1)] there(2) by simp
  moreover have "se_session_id se \<noteq> []" using found_session [OF w found] by blast
  ultimately obtain w2 where w2: "ap_save_session P (au_repo st1) ?se = (w2, Inr ())" "ok w2"
    "view w2 = (view (au_repo st1))\<lparr>av_sessions := (av_sessions (view (au_repo st1)))(se_session_id se \<mapsto> ?se)\<rparr>"
    using save_session [OF w1, of ?se, unfolded kept] by blast
  let ?st = "st1\<lparr>au_repo := w2\<rparr>"
  have run: "finish_session sv now strict (Refresh se) st1 = (?st, Inr (Some ?se))"
    using assms(2) by (simp add: sv on_repo_def w2(1))
  have "av_sessions (view w2) (se_session_id se) = Some ?se" by (simp add: w2(3))
  moreover have "se_token_hash ?se = hash_token (strip token)" using found_session [OF w found] by simp
  ultimately have "ap_session_by_hash P w2 (hash_token (strip token)) = Some ?se"
    unfolding by_hash [OF w2(2)] by blast
  then have "read_session sv access_token later (au_repo ?st) = Inr (Refresh ?se)"
    using read_session_refresh [of sv token "au_repo ?st" ?se later] token later sv by simp
  with run show ?thesis by (intro exI [of _ ?st] exI [of _ ?se]) simp
qed

end

end
