(* ===== verification/AccountLogin.thy ===== *)
theory AccountLogin
  imports AccountFacts
begin

text \<open>
  Login against the failed-login lock: what one attempt does to the lock, and how many passwords can be
  tried at one address before the lock closes, over any store with the laws of \<open>failed_login_store\<close>.
\<close>

record login_attempt =
  la_inputs :: call_inputs
  la_email :: string
  la_password :: string
  la_remember_me :: bool
  la_user_agent :: "string option"
  la_ip_hint :: "string option"

definition attempt_login ::
  "('w, 'l, 'r) auth_service \<Rightarrow> login_attempt \<Rightarrow> ('w, 'l, 'r) auth_state
     \<Rightarrow> ('w, 'l, 'r) auth_state \<times> (auth_error + auth_result)" where
  "attempt_login sv a s = login sv (la_inputs a) (la_email a) (la_password a) (la_remember_me a)
     (la_user_agent a) (la_ip_hint a) s"

text \<open>The lock's identity for an address, where it has one.\<close>

definition login_key :: "('w, 'l, 'r) auth_service \<Rightarrow> string \<Rightarrow> auth_error + string" where
  "login_key sv email = and_then (normalize_email email) (abuse_key sv ''login'')"

definition password_tried :: "auth_error + auth_result \<Rightarrow> bool" where
  "password_tried r = (r = Inl INVALID_CREDENTIALS)"

text \<open>
  The password of an attempt is the one of the live account at its address, and the answer is one that
  only an attempt with the right password reaches: a session, or a failure to reset the limiter or to
  store the session.
\<close>

definition right_password :: "('w, 'l, 'r) auth_service \<Rightarrow> login_attempt \<Rightarrow> ('w, 'l, 'r) auth_state \<Rightarrow> bool" where
  "right_password sv a s =
     (case normalize_email (la_email a) of
        Inl _ \<Rightarrow> False
      | Inr e \<Rightarrow>
          (case live_account INVALID_CREDENTIALS (ap_user_by_email (sv_ports sv) (au_repo s) e) of
             Inl _ \<Rightarrow> False
           | Inr u \<Rightarrow> verify_password (la_password a) (u_password_hash u) = Inr True))"

definition past_password :: "auth_error + auth_result \<Rightarrow> bool" where
  "past_password r =
     (case r of
        Inr _ \<Rightarrow> True
      | Inl e \<Rightarrow> e = PersistenceConflict \<or> e = PersistenceUnavailable \<or> e = LimiterIndexError)"

text \<open>
  The wrong passwords checked for the key since the last attempt that got past the check with the right
  one: counted over the attempts of a run, each from the state the ones before it left.
\<close>

definition next_streak ::
  "('w, 'l, 'r) auth_service \<Rightarrow> string \<Rightarrow> ('w, 'l, 'r) auth_state \<Rightarrow> login_attempt
     \<Rightarrow> auth_error + auth_result \<Rightarrow> int \<Rightarrow> int" where
  "next_streak sv k s a r n =
     (if login_key sv (la_email a) \<noteq> Inr k then n
      else if password_tried r then n + 1
      else if right_password sv a s \<and> past_password r then 0
      else n)"

fun wrong_streak ::
  "('w, 'l, 'r) auth_service \<Rightarrow> string \<Rightarrow> int \<Rightarrow> ('w, 'l, 'r) auth_state \<Rightarrow> login_attempt list \<Rightarrow> int" where
  "wrong_streak sv k n s [] = n"
| "wrong_streak sv k n s (a # as) =
     (let (s1, r) = attempt_login sv a s in wrong_streak sv k (next_streak sv k s a r n) s1 as)"

text \<open>An attempt's clock readings at the lock: in the window, and the later one not before the earlier.\<close>

definition attempt_within :: "int \<Rightarrow> int \<Rightarrow> login_attempt \<Rightarrow> bool" where
  "attempt_within t w a =
     (let t0 = epoch_ms (in_clock (la_inputs a) 0); t2 = epoch_ms (in_clock (la_inputs a) 2)
      in t \<le> t0 \<and> t0 \<le> t2 \<and> t2 < t + w)"

lemma opaque_login_key:
  assumes "login_key sv email = Inr k"
  shows "opaque_identity k"
proof -
  obtain e sec where k: "k = opaque_subject_key sec ''login'' e"
    using assms by (auto simp: login_key_def and_then_Inr_iff abuse_key_def split: option.splits)
  define h where "h = hmac_hex sec (utf8 ''dealbrain-rate-limit-v1'' @ [0] @ utf8 ''login'' @ [0] @ utf8 e)"
  have "hex64 h" by (simp add: h_def)
  then have h: "length h = 64" "list_all is_lower_hex h" by (simp_all add: hex64_def)
  have plain: "\<forall>c\<in>set ''0123456789abcdef''. c \<noteq> CHR ''@'' \<and> c \<noteq> CHR 0x00 \<and> \<not> isspace c" by code_simp
  have hex: "c \<noteq> CHR ''@'' \<and> c \<noteq> CHR 0x00 \<and> \<not> isspace c" if "c \<in> set h" for c
    using that h(2) plain unfolding list_all_iff is_lower_hex_def by blast
  have head: "\<forall>c\<in>set ''login:''. c \<noteq> CHR ''@'' \<and> c \<noteq> CHR 0x00 \<and> \<not> isspace c" by code_simp
  have eq: "k = ''login:'' @ h" by (simp add: k opaque_subject_key_def h_def)
  have "c \<noteq> CHR ''@'' \<and> c \<noteq> CHR 0x00 \<and> \<not> isspace c" if "c \<in> set k" for c
    using that hex head unfolding eq set_append by blast
  moreover have "length k = 70" using eq h(1) by simp
  ultimately show ?thesis
    by (auto simp: opaque_identity_def require_opaque_login_identity_def IDENTITY_MAX_LENGTH_def
        contains_char_def list_ex_iff)
qed

text \<open>An address without a key is refused before the lock is touched.\<close>

lemma no_key_no_lock:
  assumes "login_key sv (la_email a) = Inl e"
  shows "au_lock (fst (attempt_login sv a s)) = au_lock s"
  using assms by (auto simp: attempt_login_def login_def login_key_def and_then_def raising_def run_then_def
    split: sum.splits)

lemma limited_lock [simp]: "au_lock (fst (limited sv key now u d msg s)) = au_lock s"
  by (auto simp: limited_def limiter_check_def run_then_def split: prod.splits sum.splits rate_error.splits)

lemma limiter_reset_lock [simp]: "au_lock (fst (limiter_reset sv key s)) = au_lock s"
  by (auto simp: limiter_reset_def split: prod.splits sum.splits rate_error.splits)

lemma issue_session_lock [simp]:
  "au_lock (fst (issue_session sv u rm ua ip now raw csrf sid s)) = au_lock s"
  by (auto simp: issue_session_def on_repo_def run_then_def Let_def split: prod.splits sum.splits)

lemma limited_refusal: "limited sv key now u d msg s = (s', Inl e) \<Longrightarrow> e \<noteq> INVALID_CREDENTIALS"
  by (auto simp: limited_def limiter_check_def run_then_def INVALID_CREDENTIALS_def
    split: prod.splits sum.splits rate_error.splits if_splits)

lemma limited_cases:
  obtains s1 where "limited sv key now u d msg s = (s1, Inr ())" "au_lock s1 = au_lock s" "au_repo s1 = au_repo s"
  | s1 e where "limited sv key now u d msg s = (s1, Inl e)" "au_lock s1 = au_lock s" "e \<noteq> INVALID_CREDENTIALS"
proof -
  obtain s1 r where run: "limited sv key now u d msg s = (s1, r)" by (cases "limited sv key now u d msg s")
  have kept: "au_lock s1 = au_lock s" "au_repo s1 = au_repo s"
    using limited_lock [of sv key now u d msg s] limited_repo [of sv key now u d msg s] run by simp_all
  show ?thesis
  proof (cases r)
    case (Inl e)
    with that(2) [of s1 e] run kept limited_refusal show ?thesis by blast
  next
    case (Inr x)
    with that(1) [of s1] run kept show ?thesis by simp
  qed
qed

lemma past_password_simps [simp]:
  "past_password (Inr x)" "past_password (Inl LimiterIndexError)" "past_password (Inl PersistenceUnavailable)"
  "past_password (Inl PersistenceConflict)"
  by (simp_all add: past_password_def)

lemma past_not_tried: "past_password r \<Longrightarrow> \<not> password_tried r"
  by (auto simp: past_password_def password_tried_def INVALID_CREDENTIALS_def)

lemma tried_simps [simp]:
  "password_tried (Inl INVALID_CREDENTIALS)" "\<not> password_tried (Inl LOGIN_ATTEMPT_LIMIT)"
  by (simp_all add: password_tried_def LOGIN_ATTEMPT_LIMIT_def INVALID_CREDENTIALS_def)

text \<open>A session that cannot be stored is never reported as a wrong password or as a limit.\<close>

definition honest_session_errors :: "'w account_ports \<Rightarrow> bool" where
  "honest_session_errors P = (\<forall>w se w' e. ap_save_session P w se = (w', Inl e) \<longrightarrow> e = PersistenceConflict)"

lemma issued_past_password:
  assumes "honest_session_errors (sv_ports sv)"
  shows "past_password (snd (issue_session sv u rm ua ip now raw csrf sid s))"
proof -
  have conflict: "ap_save_session (sv_ports sv) w se = (w', Inl e) \<Longrightarrow> e = PersistenceConflict" for w se w' e
    using assms by (simp add: honest_session_errors_def)
  show ?thesis
    by (auto simp: issue_session_def on_repo_def run_then_def Let_def split: prod.split sum.split dest!: conflict)
qed

text \<open>
  \<open>guess_inv p t w n vo\<close>: \<open>n\<close> wrong passwords have been checked since \<open>t\<close>, and the row of the identity
  accounts for them until \<open>t + w\<close>.
\<close>

definition guess_inv :: "lock_policy \<Rightarrow> int \<Rightarrow> int \<Rightarrow> int \<Rightarrow> lock_view option \<Rightarrow> bool" where
  "guess_inv p t w n vo = (0 \<le> n \<and>
     (case vo of
        None \<Rightarrow> n = 0
      | Some v \<Rightarrow> (case v_locked v of
          None \<Rightarrow> (n = 0 \<and> 0 \<le> v_count v) \<or> (n \<le> v_count v \<and> v_count v < pol_threshold p \<and> t \<le> v_last v)
        | Some l \<Rightarrow> n = 0 \<or> (t + w \<le> l \<and> n \<le> pol_threshold p))))"

lemma guess_inv_bound: "guess_inv p t w n vo \<Longrightarrow> policy_ok p \<Longrightarrow> n \<le> pol_threshold p"
  by (auto simp: guess_inv_def policy_ok_def split: option.splits)

lemma guess_inv_mono: "guess_inv p t w n vo \<Longrightarrow> 0 \<le> m \<Longrightarrow> m \<le> n \<Longrightarrow> guess_inv p t w m vo"
  by (auto simp: guess_inv_def split: option.splits)

lemma next_streak_range:
  assumes "0 \<le> n"
  shows "0 \<le> next_streak sv k s a r n" "next_streak sv k s a r n \<le> n + 1"
    "\<not> password_tried r \<Longrightarrow> next_streak sv k s a r n \<le> n"
    "login_key sv (la_email a) = Inr j \<Longrightarrow> j \<noteq> k \<Longrightarrow> next_streak sv k s a r n = n"
  using assms by (simp_all add: next_streak_def)

lemma guess_inv_live:
  assumes "guess_inv p t w n (V k)" and "t \<le> u" and "u < t + w" and "w \<le> ret * 1000"
  shows "guess_inv p t w n (spec_live u (u - ret * 1000) V k)"
  using assms by (auto simp: guess_inv_def spec_live_def spec_reapable_def split: option.splits)

lemma guess_inv_other:
  assumes "guess_inv p t w n (V k)" and "j \<noteq> k" and "op = Fail j u \<or> op = Succeed j (Some u)"
    and "t \<le> epoch_ms u" and "epoch_ms u < t + w" and "w \<le> pol_failure_retention_seconds p * 1000"
  shows "guess_inv p t w n (spec_step p V op k)"
proof -
  have "spec_step p V op k = V k \<or> spec_step p V op k =
      spec_live (epoch_ms u) (epoch_ms u - pol_failure_retention_seconds p * 1000) V k"
    using assms(2,3) by (auto simp: spec_record_def spec_clear_def Let_def spec_live_def)
  then show ?thesis using assms guess_inv_live by metis
qed

lemma guess_inv_fail:
  assumes inv: "guess_inv p t w n (V k)" and "opaque_identity k" and p: "policy_ok p"
    and unlocked: "case V k of None \<Rightarrow> True | Some v \<Rightarrow> (case v_locked v of None \<Rightarrow> True | Some l \<Rightarrow> l \<le> epoch_ms t0)"
    and time: "t \<le> epoch_ms t0" "epoch_ms t0 \<le> epoch_ms t2" "epoch_ms t2 < t + w"
    and w: "w \<le> pol_failure_retention_seconds p * 1000" "w \<le> pol_lock_duration_seconds p * 1000"
  shows "guess_inv p t w (n + 1) (spec_step p V (Fail k t2) k)"
proof -
  let ?n = "epoch_ms t2"
  let ?row = "spec_live ?n (?n - pol_failure_retention_seconds p * 1000) V k"
  have step: "spec_step p V (Fail k t2) k =
      Some (spec_next ?n (pol_threshold p) (pol_lock_duration_seconds p * 1000) ?row)"
    using assms(2) by (simp add: spec_record_def Let_def)
  have live: "guess_inv p t w n ?row" using guess_inv_live [where V = V and k = k, OF inv] time w(1) by simp
  show ?thesis
  proof (cases ?row)
    case None
    with live have "n = 0" by (simp add: guess_inv_def)
    then show ?thesis
      using p time w(2) unfolding step None by (simp add: guess_inv_def spec_next_def policy_ok_def)
  next
    case (Some v)
    then have V: "V k = Some v" and "\<not> spec_reapable ?n (?n - pol_failure_retention_seconds p * 1000) v"
      by (auto simp: spec_live_def split: option.splits if_splits)
    with unlocked time(2) have "v_locked v = None"
      by (cases "v_locked v") (simp_all add: spec_reapable_def)
    with live Some show ?thesis
      using p time w(2) unfolding step Some by (auto simp: guess_inv_def spec_next_def policy_ok_def)
  qed
qed

context failed_login_store begin

lemma record_login_failure_law:
  assumes "sv_lock_store sv = st" and "policy_ok (sv_policy sv)" and "ok (au_lock s)" and "opaque_identity k"
  shows "\<exists>s'. record_login_failure sv k now s = (s', Inr ()) \<and>
    au_lock s' = lock_step st (sv_policy sv) (au_lock s) (Fail k now)"
proof -
  obtain row where "snd (lock_record_failure st (sv_policy sv) (au_lock s) k now) = Inr row"
    using record_law [OF assms(3,4), of "pol_threshold (sv_policy sv)" "pol_lock_duration_seconds (sv_policy sv)"
        "pol_failure_retention_seconds (sv_policy sv)" now] assms(2)
    by (auto simp: lock_record_failure_def policy_ok_def)
  then show ?thesis
    by (cases "lock_record_failure st (sv_policy sv) (au_lock s) k now")
      (simp add: record_login_failure_def assms(1))
qed

lemma clear_login_failure_law:
  assumes "sv_lock_store sv = st" and "policy_ok (sv_policy sv)" and "ok (au_lock s)" and "opaque_identity k"
  shows "\<exists>s'. clear_login_failure sv k now s = (s', Inr ()) \<and>
    au_lock s' = lock_step st (sv_policy sv) (au_lock s) (Succeed k (Some now))"
proof -
  have "snd (lock_clear st (sv_policy sv) (au_lock s) k (Some now)) = Inr ()"
    using clear_law [OF assms(3,4), of "pol_failure_retention_seconds (sv_policy sv)" "Some now"] assms(2)
    by (simp add: lock_clear_def policy_ok_def)
  then show ?thesis
    by (cases "lock_clear st (sv_policy sv) (au_lock s) k (Some now)")
      (simp add: clear_login_failure_def assms(1))
qed

text \<open>
  One attempt: the lock is left alone, or one failure is recorded after the lock was found open, or one
  success, which takes the right password; a wrong one is reported only where its failure was recorded.
\<close>

lemma attempt_lock_effect:
  assumes sv: "sv_lock_store sv = st" "policy_ok (sv_policy sv)" "honest_session_errors (sv_ports sv)"
    and s: "ok (au_lock s)" and key: "login_key sv (la_email a) = Inr k"
    and run: "attempt_login sv a s = (s', r)"
  shows "(au_lock s' = au_lock s \<and> \<not> password_tried r) \<or>
    (lock_is_locked st (au_lock s) k (in_clock (la_inputs a) 0) = Inr False \<and>
     au_lock s' = lock_step st (sv_policy sv) (au_lock s) (Fail k (in_clock (la_inputs a) 2))) \<or>
    (au_lock s' = lock_step st (sv_policy sv) (au_lock s) (Succeed k (Some (in_clock (la_inputs a) 2))) \<and>
     right_password sv a s \<and> past_password r)"
proof -
  let ?t0 = "in_clock (la_inputs a) 0" and ?t2 = "in_clock (la_inputs a) 2"
  note opaque = opaque_login_key [OF key]
  obtain e where e: "normalize_email (la_email a) = Inr e" "abuse_key sv ''login'' e = Inr k"
    using key by (auto simp: login_key_def and_then_Inr_iff)
  show ?thesis
  proof (cases "sv_enabled sv \<and> lock_is_locked st (au_lock s) k ?t0 = Inr False")
    case False
    then have "au_lock s' = au_lock s \<and> \<not> password_tried r"
      using run unfolding attempt_login_def login_def
      by (auto simp: e raising_def reject_if_login_locked_def sv(1) AUTH_DISABLED_def password_tried_def
        INVALID_CREDENTIALS_def LOGIN_ATTEMPT_LIMIT_def split: sum.splits bool.splits if_splits)
    then show ?thesis by blast
  next
    case True
    then have gate: "reject_if_login_locked sv k ?t0 s = (s, Inr ())"
      by (simp add: reject_if_login_locked_def sv(1))
    show ?thesis
    proof (cases rule: limited_cases [of sv k "in_clock (la_inputs a) (Suc 0)" None "''login''"
          "''Too many login attempts. Try again later.''" s])
      case (2 s1 e')
      with run have "s' = s1" "r = Inl e'" unfolding attempt_login_def login_def
        using True by (simp_all add: e raising_def gate)
      with 2 show ?thesis by (simp add: password_tried_def)
    next
      case (1 s1)
      have s1: "ok (au_lock s1)" using s 1(2) by simp
      obtain sf where sf: "record_login_failure sv k ?t2 s1 = (sf, Inr ())"
        "au_lock sf = lock_step st (sv_policy sv) (au_lock s) (Fail k ?t2)"
        using record_login_failure_law [OF sv(1,2) s1 opaque] 1(2) by auto
      obtain sc where sc: "clear_login_failure sv k ?t2 s1 = (sc, Inr ())"
        "au_lock sc = lock_step st (sv_policy sv) (au_lock s) (Succeed k (Some ?t2))"
        using clear_login_failure_law [OF sv(1,2) s1 opaque] 1(2) by auto
      define found where "found = live_account INVALID_CREDENTIALS (ap_user_by_email (sv_ports sv) (au_repo s1) e)"
      show ?thesis
      proof (cases found)
        case (Inl e')
        then have "au_lock s' = au_lock sf"
          using run True unfolding attempt_login_def login_def
          by (auto simp: e raising_def gate 1(1) sf(1) found_def)
        with sf(2) True show ?thesis by simp
      next
        case (Inr u)
        define checked where "checked = verify_password (la_password a) (u_password_hash u)"
        show ?thesis
        proof (cases "checked = Inr True")
          case False
          then show ?thesis
            using run True Inr 1(2) unfolding attempt_login_def login_def checked_def found_def
            by (auto simp: e raising_def gate 1(1) sf password_tried_def INVALID_CREDENTIALS_def split: sum.splits if_splits)
        next
          case good: True
          have right: "right_password sv a s"
            using Inr good 1(3) unfolding found_def checked_def by (simp add: right_password_def e(1))
          have tail: "attempt_login sv a s = run_then (limiter_reset sv k sc) (\<lambda>st _.
              issue_session sv u (la_remember_me a) (la_user_agent a) (la_ip_hint a) (in_clock (la_inputs a) 3)
                (in_token (la_inputs a) 0) (in_token (la_inputs a) 1) (in_id (la_inputs a) 0)
                (audited ''login_success'' (Some (u_user_id u)) '''' st))"
            using True Inr good unfolding attempt_login_def login_def checked_def found_def
            by (simp add: e raising_def gate 1(1) sc(1))
          have lock: "au_lock (fst (limiter_reset sv k sc)) = au_lock sc" by simp
          show ?thesis
          proof (cases "limiter_reset sv k sc")
            case (Pair s2 r2)
            show ?thesis
            proof (cases r2)
              case (Inl e2)
              then have "e2 = LimiterIndexError"
                using Pair by (auto simp: limiter_reset_def split: prod.splits sum.splits rate_error.splits)
              with run Pair Inl lock sc(2) right show ?thesis unfolding tail by auto
            next
              case (Inr x)
              have "au_lock s' = au_lock s2 \<and> past_password r"
                using run Pair Inr issued_past_password [OF sv(3)] issue_session_lock unfolding tail
                by (metis audited_fields(2) fst_conv run_then_simps(2) snd_conv)
              with Pair lock sc(2) right show ?thesis by simp
            qed
          qed
        qed
      qed
    qed
  qed
qed

lemma attempt_keeps_guess_inv:
  assumes sv: "sv_lock_store sv = st" "policy_ok (sv_policy sv)" "honest_session_errors (sv_ports sv)"
    and s: "ok (au_lock s)" and k: "opaque_identity k" and inv: "guess_inv (sv_policy sv) t w n (view (au_lock s) k)"
    and time: "attempt_within t w a"
    and w: "w \<le> pol_failure_retention_seconds (sv_policy sv) * 1000" "w \<le> pol_lock_duration_seconds (sv_policy sv) * 1000"
    and run: "attempt_login sv a s = (s', r)"
  shows "ok (au_lock s') \<and> guess_inv (sv_policy sv) t w (next_streak sv k s a r n) (view (au_lock s') k)"
proof (cases "login_key sv (la_email a)")
  case (Inl e)
  with no_key_no_lock [of sv a e s] run s inv show ?thesis by (simp add: next_streak_def)
next
  case (Inr j)
  let ?p = "sv_policy sv" and ?t0 = "in_clock (la_inputs a) 0" and ?t2 = "in_clock (la_inputs a) 2"
  have t: "t \<le> epoch_ms ?t0" "epoch_ms ?t0 \<le> epoch_ms ?t2" "epoch_ms ?t2 < t + w"
    using time by (simp_all add: attempt_within_def Let_def)
  have steps: "ok (lock_step st ?p (au_lock s) op)"
    "view (lock_step st ?p (au_lock s) op) = spec_step ?p (view (au_lock s)) op" for op
    using step_refines [OF sv(2) s] by auto
  have "0 \<le> n" using inv by (simp add: guess_inv_def)
  note range = next_streak_range [where sv = sv and k = k and s = s and a = a and r = r, OF this]
  have other: ?thesis if "j \<noteq> k" "op = Fail j ?t2 \<or> op = Succeed j (Some ?t2)"
      "au_lock s' = lock_step st ?p (au_lock s) op" for op
    using guess_inv_other [where V = "view (au_lock s)" and k = k, OF inv that(1,2)] t w(1) steps [of op]
      range(4) [OF Inr that(1)] by (simp add: that(3) del: spec_step.simps lock_step.simps)
  consider (same) "au_lock s' = au_lock s" "\<not> password_tried r"
    | (failed) "lock_is_locked st (au_lock s) j ?t0 = Inr False" "au_lock s' = lock_step st ?p (au_lock s) (Fail j ?t2)"
    | (passed) "au_lock s' = lock_step st ?p (au_lock s) (Succeed j (Some ?t2))" "right_password sv a s" "past_password r"
    using attempt_lock_effect [OF sv s Inr run] by blast
  then show ?thesis
  proof cases
    case same
    then show ?thesis using s guess_inv_mono [OF inv range(1,3)] by simp
  next
    case failed
    show ?thesis
    proof (cases "j = k")
      case True
      have "case view (au_lock s) k of None \<Rightarrow> True
        | Some v \<Rightarrow> (case v_locked v of None \<Rightarrow> True | Some l \<Rightarrow> l \<le> epoch_ms ?t0)"
        using is_locked_view [OF s k, of ?t0] failed(1) True by (auto split: option.splits)
      then have "guess_inv ?p t w (n + 1) (view (au_lock s') k)"
        using guess_inv_fail [where V = "view (au_lock s)" and k = k, OF inv k sv(2) _ t w] steps(2) failed(2) True by (simp del: spec_step.simps lock_step.simps)
      from guess_inv_mono [OF this range(1,2)] steps(1) failed(2) show ?thesis by (simp del: lock_step.simps)
    next
      case False
      then show ?thesis using other failed(2) by blast
    qed
  next
    case passed
    show ?thesis
    proof (cases "j = k")
      case True
      then have "view (au_lock s') k = None" "next_streak sv k s a r n = 0"
        using passed past_not_tried [OF passed(3)] steps(2) Inr k by (simp_all add: next_streak_def spec_clear_def spec_live_def Let_def del: lock_step.simps)
      then show ?thesis using steps(1) passed(1) by (simp add: guess_inv_def del: lock_step.simps)
    next
      case False
      then show ?thesis using other passed(1) by blast
    qed
  qed
qed

lemma streak_bounded:
  assumes sv: "sv_lock_store sv = st" "policy_ok (sv_policy sv)" "honest_session_errors (sv_ports sv)"
    and k: "opaque_identity k"
    and w: "w \<le> pol_failure_retention_seconds (sv_policy sv) * 1000" "w \<le> pol_lock_duration_seconds (sv_policy sv) * 1000"
    and "ok (au_lock s)" and "guess_inv (sv_policy sv) t w n (view (au_lock s) k)"
    and "\<forall>a\<in>set as. attempt_within t w a"
  shows "wrong_streak sv k n s as \<le> pol_threshold (sv_policy sv)"
  using assms(7-)
proof (induction as arbitrary: s n)
  case Nil
  then show ?case using guess_inv_bound [OF _ sv(2)] by simp
next
  case (Cons a as)
  obtain s1 r where run: "attempt_login sv a s = (s1, r)" by (cases "attempt_login sv a s")
  have "attempt_within t w a" using Cons.prems(3) by simp
  from attempt_keeps_guess_inv [OF sv Cons.prems(1) k Cons.prems(2) this w run]
  have "ok (au_lock s1)" "guess_inv (sv_policy sv) t w (next_streak sv k s a r n) (view (au_lock s1) k)" by auto
  from Cons.IH [OF this] Cons.prems(3) show ?case by (simp add: run)
qed

end

end
