(* ===== verification/AccountProps.thy ===== *)
theory AccountProps
  imports AccountLogin
begin

text \<open>
  The properties of the accounts on the shared store, from the laws of the two interfaces, with a small
  installation (one active account with one session, one reset token and one e-mail change) as witness.
\<close>

section \<open>E-mail change\<close>

text \<open>
  C13: a confirmed e-mail change fails closed, whichever repository writes raise.  When the call has
  changed any account, every session of that account is revoked; when it has consumed a change request,
  that request's account has the requested address, verified, and no live session.  When it reports success, a
  standing request with the token's hash existed, its account has the requested address, and every request of the
  account is consumed.
\<close>

theorem email_change_fails_closed:
  assumes "sv_ports sv = sql_account_ports" and "sql_accounts_ok (au_repo st)"
    and "confirm_email_change sv inp token st = (st', r)"
    and "v = sql_account_view (au_repo st)" and "v' = sql_account_view (au_repo st')"
  shows "sql_accounts_ok (au_repo st') \<and>
    (\<forall>i. av_users v' i \<noteq> av_users v i \<longrightarrow> sessions_dead i v') \<and>
    (\<forall>i d. av_changes v i = Some d \<longrightarrow> av_changes v' i \<noteq> Some d \<longrightarrow> sessions_dead (tr_user_id d) v' \<and>
       (\<exists>c u. reading_email_change sv token (in_clock inp 0) (au_repo st) = Inr (c, u) \<and>
          av_users v' (tr_user_id d) = Some (moved_user c u (in_clock inp 0)))) \<and>
    (\<forall>x. r = Inr x \<longrightarrow> (\<exists>c u.
       reading_email_change sv token (in_clock inp 0) (au_repo st) = Inr (c, u) \<and>
       sessions_dead (u_user_id u) v' \<and>
       av_users v' = (av_users v)(u_user_id u \<mapsto> moved_user c u (in_clock inp 0)) \<and>
       (\<forall>i d. av_changes v i = Some d \<longrightarrow> tr_user_id d = u_user_id u \<longrightarrow> consumed_in (av_changes v') i)))"
proof (cases "\<exists>c u. sv_enabled sv \<and> reading_email_change sv token (in_clock inp 0) (au_repo st) = Inr (c, u)")
  case False
  then have "st' = st \<and> (\<exists>e. r = Inl e)"
    using assms(3) by (auto simp: confirm_email_change_def raising_def run_then_def split: if_splits sum.splits)
  with assms show ?thesis by auto
next
  case True
  then obtain c u where on: "sv_enabled sv"
    and read: "reading_email_change sv token (in_clock inp 0) (au_repo st) = Inr (c, u)" by blast
  let ?now = "in_clock inp 0"
  have left: "sql_accounts_ok (au_repo st') \<and> email_change_left c u ?now v v' (is_ok r)"
    using leads_to_result [OF sql_accounts.confirm_email_change_law [OF assms(1,2) read on] assms(3)]
    by (simp add: assms(4,5) split: sum.splits)
  show ?thesis
  proof (cases "v' = v \<or> v' = v\<lparr>av_sessions := revoked_for (u_user_id u) (av_sessions v)\<rparr>")
    case True
    show ?thesis
    proof (cases "is_ok r")
      case False
      with left True show ?thesis by (auto simp: is_ok_iff)
    next
      case ok: True
      with left have used: "changes_used (u_user_id u)
          (v\<lparr>av_sessions := revoked_for (u_user_id u) (av_sessions v),
             av_users := (av_users v)(u_user_id u \<mapsto> moved_user c u ?now)\<rparr>) v'"
        and all: "\<forall>i d. av_changes v i = Some d \<longrightarrow> tr_user_id d = u_user_id u \<longrightarrow> consumed_in (av_changes v') i"
        by (simp_all add: email_change_left_def Let_def)
      note f = changes_used_fields [OF used, simplified]
      have "sessions_dead (u_user_id u) v'" by (rule revoked_for_dead [OF f(2)])
      with left f all read True show ?thesis by auto
    qed
  next
    case False
    with left have used: "changes_used (u_user_id u)
        (v\<lparr>av_sessions := revoked_for (u_user_id u) (av_sessions v),
           av_users := (av_users v)(u_user_id u \<mapsto> moved_user c u ?now)\<rparr>) v'"
      and all: "is_ok r \<Longrightarrow> av_changes v i = Some d \<Longrightarrow> tr_user_id d = u_user_id u \<Longrightarrow> consumed_in (av_changes v') i" for i d
      by (auto simp: email_change_left_def Let_def)
    note f = changes_used_fields [OF used, simplified]
    have dead: "sessions_dead (u_user_id u) v'" by (rule revoked_for_dead [OF f(2)])
    have "tr_user_id d = u_user_id u" if "av_changes v i = Some d" "av_changes v' i \<noteq> Some d" for i d
      using used that by (auto simp: changes_used_def consumes_for_def) (metis option.inject)
    with left dead f(1) all read show ?thesis by (auto simp: is_ok_iff)
  qed
qed

section \<open>Password reset\<close>

text \<open>
  C15: a confirmed password reset changes the password, ends every session and spends its token.  When the
  call succeeds, a standing reset request with the token's hash existed for an active account; the new password
  verifies against the hash stored, every session of the account is revoked, the request is consumed,
  nothing else in the store has changed, and the same token is refused by every later call, whatever its
  inputs, without an effect.
\<close>

theorem reset_confirmed_once:
  assumes "sv_ports sv = sql_account_ports" and "sql_accounts_ok (au_repo st)"
    and "1 \<le> sv_iterations sv" and "sv_iterations sv < 2 ^ 63" and "\<forall>b\<in>set (in_salt inp). b < 256"
    and "confirm_password_reset sv inp token new_password st = (st', Inr x)"
    and "v = sql_account_view (au_repo st)"
  shows "\<exists>t u h. tr_token_hash t = hash_token (strip token) \<and> \<not> tr_consumed t \<and>
    is_over (tr_expires_at t) (in_clock inp 0) = Inr False \<and> av_resets v (tr_id t) = Some t \<and>
    av_users v (tr_user_id t) = Some u \<and> u_is_active u \<and> verify_password new_password h = Inr True \<and>
    sql_accounts_ok (au_repo st') \<and> sql_account_view (au_repo st') =
      v\<lparr>av_users := (av_users v)(tr_user_id t \<mapsto> u\<lparr>u_password_hash := h, u_updated_at := Some (in_clock inp 0)\<rparr>),
        av_sessions := revoked_for (tr_user_id t) (av_sessions v), av_resets := consumed_at (tr_id t) (av_resets v)\<rparr> \<and>
    (\<forall>sv2 inp2 again. sv_ports sv2 = sql_account_ports \<longrightarrow> sv_enabled sv2 \<longrightarrow> validate_password again = Inr () \<longrightarrow>
       confirm_password_reset sv2 inp2 token again st' = (st', Inl INVALID_RESET_TOKEN))"
proof -
  obtain t u h where t: "reset_ready sv inp token new_password (au_repo st) t u h"
    "av_resets v (tr_id t) = Some t" "av_users v (tr_user_id t) = Some u" "sql_accounts_ok (au_repo st')"
    "sql_account_view (au_repo st') =
      v\<lparr>av_users := (av_users v)(tr_user_id t \<mapsto> u\<lparr>u_password_hash := h, u_updated_at := Some (in_clock inp 0)\<rparr>),
        av_sessions := revoked_for (tr_user_id t) (av_sessions v), av_resets := consumed_at (tr_id t) (av_resets v)\<rparr>"
    "\<forall>sv2 inp2 again. sv_ports sv2 = sql_account_ports \<longrightarrow> sv_enabled sv2 \<longrightarrow> validate_password again = Inr () \<longrightarrow>
       confirm_password_reset sv2 inp2 token again st' = (st', Inl INVALID_RESET_TOKEN)"
    using sql_accounts.reset_confirmed [OF assms(1,2,6)] unfolding assms(7) by blast
  note r = t(1) [unfolded reset_ready_def assms(1)]
  have "tr_token_hash t = hash_token (strip token)"
    using sql_accounts.found_reset [OF assms(2)] r by blast
  moreover have hashed: "hash_password (sv_iterations sv) (in_salt inp) new_password = Inr h" using r by blast
  from stored_hash_checks [OF hashed assms(3-5)] obtain key where
    "pbkdf2_hmac (utf8 new_password) (in_salt inp) (sv_iterations sv) HASH_BYTES = Inr key" "new_password \<noteq> []"
    "\<forall>other. verify_password other h =
       Inr (other \<noteq> [] \<and> pbkdf2_hmac (utf8 other) (in_salt inp) (sv_iterations sv) HASH_BYTES = Inr key)" by blast
  then have "verify_password new_password h = Inr True" by simp
  ultimately show ?thesis using t(2-6) r by blast
qed

text \<open>
  C34: a reset that loses the store between spending its token and revoking sessions leaves both.  Where
  the call would succeed but \<open>revoke_all_for_user\<close> raises, the new password is stored and the token is
  spent, every session of the account is as it was, and a retry with the same token is refused.
\<close>

theorem interrupted_reset_keeps_sessions:
  assumes "sv_ports sv = sql_account_ports" and "sql_accounts_ok (au_repo st)"
    and "reset_ready sv inp token new_password (au_repo st) t u h" and "sv_faults sv = [AtRevokeAll]"
  shows "\<exists>st'. confirm_password_reset sv inp token new_password st = (st', Inl PersistenceUnavailable) \<and>
    av_users (sql_account_view (au_repo st')) (tr_user_id t) =
      Some (u\<lparr>u_password_hash := h, u_updated_at := Some (in_clock inp 0)\<rparr>) \<and>
    av_sessions (sql_account_view (au_repo st')) = av_sessions (sql_account_view (au_repo st)) \<and>
    confirm_password_reset (sv\<lparr>sv_faults := []\<rparr>) inp token new_password st' = (st', Inl INVALID_RESET_TOKEN)"
proof -
  obtain w1 w2 w3 where law:
    "av_resets (sql_account_view (au_repo st)) (tr_id t) = Some t" "tr_token_hash t = hash_token (strip token)"
    "sql_account_view w1 = (sql_account_view (au_repo st))\<lparr>av_users :=
      (av_users (sql_account_view (au_repo st)))(tr_user_id t \<mapsto>
        u\<lparr>u_password_hash := h, u_updated_at := Some (in_clock inp 0)\<rparr>)\<rparr>"
    "sql_accounts_ok w2"
    "sql_account_view w2 = (sql_account_view w1)\<lparr>av_resets := consumed_at (tr_id t) (av_resets (sql_account_view w1))\<rparr>"
    "confirm_password_reset sv inp token new_password st = (st\<lparr>au_repo := w2\<rparr>, Inl PersistenceUnavailable)"
    using sql_accounts.confirm_password_reset_law [OF assms(1-3)] by (auto simp: assms(4))
  let ?st = "st\<lparr>au_repo := w2\<rparr>"
  have "av_resets (sql_account_view w2) (tr_id t) = Some (t\<lparr>tr_consumed := True\<rparr>)"
    unfolding law(5,3) using law(1) by (simp add: consumed_at_def)
  then have "confirm_password_reset (sv\<lparr>sv_faults := []\<rparr>) inp token new_password ?st = (?st, Inl INVALID_RESET_TOKEN)"
    using assms(1,3) law(2,4) unfolding reset_ready_def
    by (intro sql_accounts.consumed_reset_refused [where t = "t\<lparr>tr_consumed := True\<rparr>"]) auto
  then show ?thesis using law by (intro exI [of _ ?st]) simp
qed

section \<open>Session refresh\<close>

text \<open>
  C35: a session refresh that is in flight undoes a revocation.  A request has read its session as live; a
  password reset of its account then succeeds, which revokes every session; the request then writes
  what it read: it succeeds, and the session is live again for every later request before it expires.
\<close>

theorem inflight_refresh_revives_session:
  assumes "sv_ports sv = sql_account_ports" and "sql_accounts_ok (au_repo st)"
    and "read_session sv access_token now (au_repo st) = Inr (Refresh se)" and "AtSessionSave \<notin> set (sv_faults sv)"
    and "reset_ready sv2 inp token new_password (au_repo st) t u h" and "tr_user_id t = se_user_id se"
    and "sv_ports sv2 = sql_account_ports" and "confirm_password_reset sv2 inp token new_password st = (st1, Inr x)"
    and "is_over (se_expires_at se) later = Inr False"
  shows "sessions_dead (se_user_id se) (sql_account_view (au_repo st1)) \<and>
    (\<exists>st2 se2. finish_session sv now True (Refresh se) st1 = (st2, Inr (Some se2)) \<and> \<not> se_revoked se2 \<and>
       read_session sv access_token later (au_repo st2) = Inr (Refresh se2))"
proof -
  have r: "reset_ready sv2 inp token new_password (au_repo st) t u h" by (rule assms(5))
  obtain w3 where w3: "sql_accounts_ok (au_repo st1)"
    "av_sessions (sql_account_view (au_repo st1)) =
       revoked_for (se_user_id se) (av_sessions (sql_account_view (au_repo st)))"
    using sql_accounts.confirm_password_reset_law [OF assms(7,2,5)] assms(6,8) by (auto split: if_splits)
  obtain hash where "ap_session_by_hash sql_account_ports (au_repo st) hash = Some se"
    using read_session_found [OF assms(3) disjI1 [OF refl], unfolded assms(1)] by blast
  then have "av_sessions (sql_account_view (au_repo st)) (se_session_id se) = Some se"
    using sql_accounts.found_session [OF assms(2)] by blast
  then have "av_sessions (sql_account_view (au_repo st1)) (se_session_id se) = Some (se\<lparr>se_revoked := True\<rparr>)"
    by (simp add: w3(2) revoked_for_def)
  from sql_accounts.refresh_writes_back [OF assms(1,4,2,3) w3(1) this _ assms(9)] revoked_for_dead [OF w3(2)]
  show ?thesis by simp
qed

section \<open>Login\<close>

text \<open>Why a login at an address is refused: no account, an inactive one, or another password.\<close>

definition rejected :: "('w, 'l, 'r) auth_service \<Rightarrow> string \<Rightarrow> string \<Rightarrow> 'w \<Rightarrow> bool" where
  "rejected sv email password w =
     (case normalize_email email of
        Inl _ \<Rightarrow> True
      | Inr e \<Rightarrow> (case ap_user_by_email (sv_ports sv) w e of
            None \<Rightarrow> True
          | Some u \<Rightarrow> \<not> u_is_active u \<or> verify_password password (u_password_hash u) = Inr False))"

lemma record_failure_alike:
  assumes "au_lock s = au_lock t"
  shows "snd (record_login_failure sv key now s) = snd (record_login_failure sv key now t) \<and>
    au_lock (fst (record_login_failure sv key now s)) = au_lock (fst (record_login_failure sv key now t)) \<and>
    au_rate (fst (record_login_failure sv key now s)) = au_rate s \<and>
    au_mail (fst (record_login_failure sv key now s)) = au_mail s"
  using assms by (auto simp: record_login_failure_def split: prod.split sum.split)

text \<open>The attempt once the lock and the limiter have let it through.\<close>

definition only_audits :: "(('w, 'l, 'r) auth_state \<Rightarrow> ('w, 'l, 'r) auth_state) \<Rightarrow> bool" where
  "only_audits f = (\<forall>s. au_lock (f s) = au_lock s \<and> au_rate (f s) = au_rate s \<and> au_mail (f s) = au_mail s \<and>
     au_repo (f s) = au_repo s)"

lemma rejected_attempt:
  assumes "rejected sv email password (au_repo s1)" and "sv_enabled sv" and e: "normalize_email email = Inr e"
    and k: "abuse_key sv ''login'' e = Inr k" and gate: "reject_if_login_locked sv k (in_clock inp 0) s = (s, Inr ())"
    and s1: "limited sv k (in_clock inp (Suc 0)) None ''login'' ''Too many login attempts. Try again later.'' s = (s1, Inr ())"
  shows "\<exists>f. only_audits f \<and> login sv inp email password rm ua ip s =
    run_then (record_login_failure sv k (in_clock inp 2) s1) (\<lambda>st _. (f st, Inl INVALID_CREDENTIALS))"
proof (cases "live_account INVALID_CREDENTIALS (ap_user_by_email (sv_ports sv) (au_repo s1) e)")
  case (Inl x)
  then have "x = INVALID_CREDENTIALS" by (auto simp: live_account_def split: option.splits if_splits)
  with Inl show ?thesis
    using assms(2) by (intro exI [of _ "audited ''login_failure'' None ''unknown_or_inactive''"])
      (simp add: only_audits_def login_def e k raising_def gate s1)
next
  case (Inr u)
  then have "verify_password password (u_password_hash u) = Inr False"
    using assms(1) e by (auto simp: rejected_def live_account_Inr)
  with Inr show ?thesis
    using assms(2) by (intro exI [of _ "audited ''login_failure'' (Some (u_user_id u)) ''bad_password''"])
      (simp add: only_audits_def login_def e k raising_def gate s1)
qed

text \<open>
  C16: a refused login does not say why.  Two installations with the same lock and limiter state but any
  account stores, and any two passwords that are refused there (no such account, an inactive one, a wrong
  password): the answers are the same, the lock and the limiter end in the same state, and neither
  the stores nor the mail have changed.
\<close>

theorem login_failures_alike:
  assumes "au_lock s = au_lock t" and "au_rate s = au_rate t"
    and "rejected sv email password (au_repo s)" and "rejected sv email other (au_repo t)"
    and "login sv inp email password rm ua ip s = (s', r)" and "login sv inp email other rm ua ip t = (t', q)"
  shows "r = q \<and> au_lock s' = au_lock t' \<and> au_rate s' = au_rate t' \<and>
    au_repo s' = au_repo s \<and> au_repo t' = au_repo t \<and> au_mail s' = au_mail s \<and> au_mail t' = au_mail t"
proof (cases "sv_enabled sv \<and> (\<exists>e k. normalize_email email = Inr e \<and> abuse_key sv ''login'' e = Inr k \<and>
    lock_is_locked (sv_lock_store sv) (au_lock s) k (in_clock inp 0) = Inr False)")
  case False
  then show ?thesis
    using assms(1,2,5,6) unfolding login_def
    by (auto simp: raising_def run_then_def reject_if_login_locked_def split: sum.splits bool.splits if_splits)
next
  case True
  then obtain e k where on: "sv_enabled sv" and e: "normalize_email email = Inr e"
    and k: "abuse_key sv ''login'' e = Inr k"
    and "lock_is_locked (sv_lock_store sv) (au_lock s) k (in_clock inp 0) = Inr False" by blast
  then have gates: "reject_if_login_locked sv k (in_clock inp 0) s = (s, Inr ())"
    "reject_if_login_locked sv k (in_clock inp 0) t = (t, Inr ())"
    using assms(1) by (simp_all add: reject_if_login_locked_def)
  let ?gate = "limited sv k (in_clock inp (Suc 0)) None ''login'' ''Too many login attempts. Try again later.''"
  obtain s1 a where s1: "?gate s = (s1, a)" by (cases "?gate s")
  obtain t1 b where t1: "?gate t = (t1, b)" by (cases "?gate t")
  have ab: "a = b" "au_rate s1 = au_rate t1" "au_mail s1 = au_mail s" "au_mail t1 = au_mail t"
    using limited_alike [OF assms(2), of sv k "in_clock inp (Suc 0)" None "''login''"
        "''Too many login attempts. Try again later.''"]
      limited_alike [OF refl, of sv k "in_clock inp (Suc 0)" None "''login''"
        "''Too many login attempts. Try again later.''" t] s1 t1 by simp_all
  have kept: "au_lock s1 = au_lock s" "au_repo s1 = au_repo s" "au_lock t1 = au_lock t" "au_repo t1 = au_repo t"
    using limited_lock [of sv k "in_clock inp (Suc 0)" None "''login''" "''Too many login attempts. Try again later.''"]
      limited_repo [of sv k "in_clock inp (Suc 0)" None "''login''" "''Too many login attempts. Try again later.''"]
      s1 t1 by (metis fst_conv)+
  show ?thesis
  proof (cases a)
    case (Inl x)
    then show ?thesis
      using assms(1,2,5,6) ab kept on unfolding login_def
      by (simp add: e k raising_def gates s1 t1)
  next
    case (Inr x)
    then have Inr: "a = Inr ()" by simp
    have "rejected sv email password (au_repo s1)" "rejected sv email other (au_repo t1)"
      using assms(3,4) kept by simp_all
    from rejected_attempt [OF this(1) on e k gates(1) s1 [unfolded Inr], of rm ua ip]
    obtain f where f: "only_audits f"
      "(s', r) = run_then (record_login_failure sv k (in_clock inp 2) s1) (\<lambda>st _. (f st, Inl INVALID_CREDENTIALS))"
      unfolding assms(5) by blast
    from rejected_attempt [OF \<open>rejected sv email other (au_repo t1)\<close> on e k gates(2) t1 [folded ab(1), unfolded Inr], of rm ua ip]
    obtain g where g: "only_audits g"
      "(t', q) = run_then (record_login_failure sv k (in_clock inp 2) t1) (\<lambda>st _. (g st, Inl INVALID_CREDENTIALS))"
      unfolding assms(6) by blast
    obtain s2 c where s2: "record_login_failure sv k (in_clock inp 2) s1 = (s2, c)"
      by (cases "record_login_failure sv k (in_clock inp 2) s1")
    obtain t2 d where t2: "record_login_failure sv k (in_clock inp 2) t1 = (t2, d)"
      by (cases "record_login_failure sv k (in_clock inp 2) t1")
    have "au_lock s1 = au_lock t1" using kept assms(1) by simp
    from record_failure_alike [OF this, of sv k "in_clock inp 2"]
      record_failure_alike [OF refl, of sv k "in_clock inp 2" t1] s2 t2
    have "c = d" "au_lock s2 = au_lock t2" "au_rate s2 = au_rate s1" "au_rate t2 = au_rate t1"
      "au_mail s2 = au_mail s1" "au_mail t2 = au_mail t1" by simp_all
    moreover have "au_repo s2 = au_repo s1" "au_repo t2 = au_repo t1"
      using record_login_failure_repo [of sv k "in_clock inp 2"] s2 t2 by (metis fst_conv)+
    ultimately show ?thesis
      using f g ab kept by (cases d) (simp_all add: s2 t2 only_audits_def)
  qed
qed

text \<open>The identifier and the token a reset request draws are not those of a stored request.\<close>

definition fresh_reset :: "call_inputs \<Rightarrow> sql_accounts \<Rightarrow> bool" where
  "fresh_reset inp w =
     (av_resets (sql_account_view w) (in_id inp 0) = None \<and>
      \<not> key_elsewhere tr_token_hash (av_resets (sql_account_view w)) (in_id inp 0) (hash_token (in_token inp 0)))"

text \<open>
  C33: a password-reset request does not tell whether the address has an account.  Two installations with the
  same limiter state and any two account stores, no failing write, and tokens that are not handed out in
  the response: the answers and the limiter's end state are the same.  No user and no session changes, and a mail
  only goes to the account at the address, with the token of a standing request that was stored for it.
\<close>

theorem reset_request_silent:
  assumes "sv_ports sv = sql_account_ports" and "\<not> sv_inline_tokens sv" and "AtTokenSave \<notin> set (sv_faults sv)"
    and "au_rate s = au_rate t" and "sql_accounts_ok (au_repo s)" and "sql_accounts_ok (au_repo t)"
    and "in_id inp 0 \<noteq> []" and "fresh_reset inp (au_repo s)" and "fresh_reset inp (au_repo t)"
    and "request_password_reset sv inp email s = (s', r)" and "request_password_reset sv inp email t = (t', q)"
    and "v = sql_account_view (au_repo s)" and "v' = sql_account_view (au_repo s')"
  shows "r = q \<and> au_rate s' = au_rate t' \<and> sql_accounts_ok (au_repo s') \<and> av_users v' = av_users v \<and>
    av_sessions v' = av_sessions v \<and>
    (au_mail s' = au_mail s \<or> (\<exists>i u c. av_users v i = Some u \<and> normalize_email email = Inr c \<and>
       email_key (u_email u) = email_key c \<and>
       au_mail s' = au_mail s @ [\<lparr>om_kind = ResetMail, om_to = u_email u, om_token = in_token inp 0\<rparr>] \<and>
       av_resets v' = (av_resets v)(in_id inp 0 \<mapsto> requested_reset inp u)))"
proof -
  note law = sql_accounts.request_reset_law [OF assms(1,2,3) _ assms(7)]
  note fresh = assms(8,9) [unfolded fresh_reset_def]
  have s: "r = (case snd (reset_gate sv inp email s) of Inl e \<Rightarrow> Inl e | Inr _ \<Rightarrow> Inr ACCEPTED)"
    "au_rate s' = au_rate (fst (reset_gate sv inp email s))"
    using law [OF assms(5) fresh(1) assms(10)] by blast+
  have t: "q = (case snd (reset_gate sv inp email t) of Inl e \<Rightarrow> Inl e | Inr _ \<Rightarrow> Inr ACCEPTED)"
    "au_rate t' = au_rate (fst (reset_gate sv inp email t))"
    using law [OF assms(6) fresh(2) assms(11)] by blast+
  have "snd (reset_gate sv inp email s) = snd (reset_gate sv inp email t) \<and>
      au_rate (fst (reset_gate sv inp email s)) = au_rate (fst (reset_gate sv inp email t))"
    using reset_gate_alike [OF assms(4)] by blast
  with s t law [OF assms(5) fresh(1) assms(10)] show ?thesis unfolding assms(12,13) by simp
qed

text \<open>
  C14: the failed-login lock bounds the passwords that can be guessed at one address.  Take any login
  requests, at any addresses and in any order, whose lock readings fall in a window no longer than the
  retention and the lock duration, some of which may get in.  Wherever the sequence stops, at most as many
  wrong passwords as the lock's threshold have been checked at the address since the last request there
  whose password was right and accepted (or since the start); every further request there was refused
  before its password was looked at.  The lock store answers every call.
\<close>

theorem login_guess_bound:
  assumes "sv_lock_store sv = sql_lock_store" and "sv_ports sv = sql_account_ports" and "policy_ok (sv_policy sv)"
    and "dict_ok (au_lock s)" and "login_key sv email = Inr k"
    and "case dict_get (au_lock s) k of None \<Rightarrow> True | Some row \<Rightarrow> 0 \<le> r_failure_count row"
    and "w \<le> pol_failure_retention_seconds (sv_policy sv) * 1000" and "w \<le> pol_lock_duration_seconds (sv_policy sv) * 1000"
    and "\<forall>a\<in>set attempts. attempt_within t w a"
  shows "wrong_streak sv k 0 s attempts \<le> pol_threshold (sv_policy sv)"
proof -
  have honest: "honest_session_errors (sv_ports sv)"
    by (auto simp: assms(2) honest_session_errors_def sql_account_ports_def sql_save_session_def sql_put_def
      split: prod.splits option.splits)
  have "guess_inv (sv_policy sv) t w 0 (sql_view (au_lock s) k)"
    using assms(6) by (auto simp: guess_inv_def sql_view_def row_view_def split: option.splits)
  from sql_lock.streak_bounded [OF assms(1,3) honest opaque_login_key [OF assms(5)] assms(7,8,4) this assms(9)]
  show ?thesis .
qed

section \<open>A small installation\<close>

definition shop_user :: user where
  "shop_user = \<lparr>u_user_id = ''u'', u_email = ''a@b.c'', u_password_hash = ''x'', u_display_name = ''A'',
     u_is_active = True, u_email_verified = False, u_created_at = None, u_updated_at = None\<rparr>"

definition shop_session :: user_session where
  "shop_session = \<lparr>se_session_id = ''s'', se_user_id = ''u'', se_token_hash = hash_token ''tok'',
     se_created_at = Aware 0, se_expires_at = Aware 3600000000, se_remember_me = False, se_last_seen_at = None,
     se_user_agent = None, se_ip_hint = None, se_csrf_token = None, se_revoked = False\<rparr>"

definition shop_reset :: token_request where
  "shop_reset = \<lparr>tr_id = ''r'', tr_user_id = ''u'', tr_token_hash = hash_token ''rst'', tr_created_at = Aware 0,
     tr_expires_at = Aware 3600000000, tr_consumed = False\<rparr>"

definition shop_change :: email_change where
  "shop_change = \<lparr>tr_id = ''c'', tr_user_id = ''u'', tr_token_hash = hash_token ''chg'', tr_created_at = Aware 0,
     tr_expires_at = Aware 3600000000, tr_consumed = False, ec_new_email = ''n@b.c'',
     ec_purpose = EMAIL_CHANGE_PURPOSE\<rparr>"

definition shop_repo :: sql_accounts where
  "shop_repo = \<lparr>
     sa_users = [(''u'', \<lparr>kr_payload = shop_user, kr_secondary = Some ''a@b.c'', kr_owner = None, kr_seq = 1\<rparr>)],
     sa_sessions = [(''s'', \<lparr>kr_payload = shop_session, kr_secondary = Some (hash_token ''tok''),
       kr_owner = Some ''u'', kr_seq = 1\<rparr>)],
     sa_resets = [(''r'', \<lparr>kr_payload = shop_reset, kr_secondary = Some (hash_token ''rst''),
       kr_owner = Some ''u'', kr_seq = 1\<rparr>)],
     sa_verifications = [],
     sa_changes = [(''c'', \<lparr>kr_payload = shop_change, kr_secondary = Some (hash_token ''chg''),
       kr_owner = Some ''u'', kr_seq = 1\<rparr>)],
     sa_consents = [], sa_profiles = [], sa_settings = []\<rparr>"

definition shop_service :: "auth_fault list \<Rightarrow> (sql_accounts, lock_table, rate_events) auth_service" where
  "shop_service faults = \<lparr>sv_ports = sql_account_ports, sv_lock_store = sql_lock_store, sv_policy = default_lock_policy,
     sv_rate_store = memory_rate_store, sv_max_attempts = 10, sv_window_seconds = 60, sv_secret = Some [1, 2, 3],
     sv_enabled = True, sv_iterations = 260000, sv_session_ttl = 3600, sv_remember_ttl = 2592000, sv_resets_on = True,
     sv_verifications_on = True, sv_changes_on = True, sv_consents_on = True, sv_inline_tokens = False,
     sv_published = (\<lambda>_. None), sv_send = (\<lambda>_. True), sv_faults = faults\<rparr>"

definition shop_state :: "sql_accounts \<Rightarrow> (sql_accounts, lock_table, rate_events) auth_state" where
  "shop_state w = \<lparr>au_repo = w, au_lock = [], au_rate = [], au_mail = [], au_audit = []\<rparr>"

definition shop_inputs :: call_inputs where
  "shop_inputs = \<lparr>in_clock = (\<lambda>_. Aware 1000000), in_id = (\<lambda>_. ''id''), in_token = (\<lambda>_. ''token''),
     in_salt = replicate 16 7\<rparr>"

lemmas shop_defs = shop_user_def shop_session_def shop_reset_def shop_change_def shop_repo_def

lemma shop_service_fields [simp]:
  "sv_ports (shop_service fs) = sql_account_ports" "sv_lock_store (shop_service fs) = sql_lock_store"
  "sv_policy (shop_service fs) = default_lock_policy" "sv_enabled (shop_service fs)"
  "sv_iterations (shop_service fs) = 260000" "sv_resets_on (shop_service fs)" "sv_changes_on (shop_service fs)"
  "sv_faults (shop_service fs) = fs" "(shop_service fs)\<lparr>sv_faults := gs\<rparr> = shop_service gs"
  by (simp_all add: shop_service_def)

lemma shop_state_fields [simp]:
  "au_repo (shop_state w) = w" "au_lock (shop_state w) = []" "au_rate (shop_state w) = []"
  by (simp_all add: shop_state_def)

lemma shop_inputs_fields [simp]:
  "in_clock shop_inputs n = Aware 1000000" "in_salt shop_inputs = replicate 16 7"
  by (simp_all add: shop_inputs_def)

lemma shop_ok: "sql_accounts_ok shop_repo"
proof -
  have "email_key ''a@b.c'' = ''a@b.c''" by code_simp
  then show ?thesis by (simp add: sql_accounts_ok_def kt_ok_def keyed_ok_def dict_ok_def shop_defs)
qed

lemma shop_token: "strip ''rst'' = ''rst''" "strip ''tok'' = ''tok''" "strip ''chg'' = ''chg''"
  by code_simp+

lemma shop_password: "validate_password ''Correct1horse'' = Inr ()"
  by code_simp

lemma shop_reset_ready:
  "\<exists>h. reset_ready (shop_service fs) shop_inputs ''rst'' ''Correct1horse'' shop_repo shop_reset shop_user h"
proof -
  obtain h where h: "hash_password 260000 (replicate 16 7) ''Correct1horse'' = Inr h"
    using hash_password_runs [of 260000 "''Correct1horse''" "replicate 16 7"] by auto
  show ?thesis
    by (rule exI [of _ h]) (simp add: reset_ready_def h shop_token shop_password sql_account_ports_def
      get_by_secondary_def keyed_get_def shop_defs is_over_def)
qed

lemma shop_view:
  "av_sessions (sql_account_view shop_repo) = [''s'' \<mapsto> shop_session]"
  "av_changes (sql_account_view shop_repo) = [''c'' \<mapsto> shop_change]"
  "av_users (sql_account_view shop_repo) = [''u'' \<mapsto> shop_user]"
  by (auto simp: sql_account_view_def shop_defs keyed_get_def fun_eq_iff)

text \<open>A reset that goes through, and one that loses the store at the revocation.\<close>

lemma shop_reset_runs:
  "\<exists>st'. confirm_password_reset (shop_service []) shop_inputs ''rst'' ''Correct1horse'' (shop_state shop_repo) =
     (st', Inr ''password_changed'')"
proof -
  obtain h where "reset_ready (shop_service []) shop_inputs ''rst'' ''Correct1horse'' shop_repo shop_reset shop_user h"
    using shop_reset_ready by blast
  with sql_accounts.confirm_password_reset_law [of "shop_service []" "shop_state shop_repo"] shop_ok
  show ?thesis by fastforce
qed

theorem reset_confirmed_once_witness:
  "\<exists>st' h. confirm_password_reset (shop_service []) shop_inputs ''rst'' ''Correct1horse'' (shop_state shop_repo) =
      (st', Inr ''password_changed'') \<and> verify_password ''Correct1horse'' h = Inr True \<and>
    confirm_password_reset (shop_service []) shop_inputs ''rst'' ''Correct1horse'' st' = (st', Inl INVALID_RESET_TOKEN)"
proof -
  obtain st' where run: "confirm_password_reset (shop_service []) shop_inputs ''rst'' ''Correct1horse''
      (shop_state shop_repo) = (st', Inr ''password_changed'')" using shop_reset_runs by blast
  from reset_confirmed_once [OF _ _ _ _ _ run refl] shop_ok shop_password run show ?thesis
    by fastforce
qed

theorem interrupted_reset_keeps_sessions_witness:
  "\<exists>st'. confirm_password_reset (shop_service [AtRevokeAll]) shop_inputs ''rst'' ''Correct1horse''
      (shop_state shop_repo) = (st', Inl PersistenceUnavailable) \<and>
    av_sessions (sql_account_view (au_repo st')) = [''s'' \<mapsto> shop_session] \<and>
    confirm_password_reset (shop_service []) shop_inputs ''rst'' ''Correct1horse'' st' = (st', Inl INVALID_RESET_TOKEN)"
proof -
  obtain h where ready: "reset_ready (shop_service [AtRevokeAll]) shop_inputs ''rst'' ''Correct1horse''
      (au_repo (shop_state shop_repo)) shop_reset shop_user h" using shop_reset_ready by auto
  from interrupted_reset_keeps_sessions [OF _ _ ready] shop_ok show ?thesis by (auto simp: shop_view)
qed

theorem inflight_refresh_revives_session_witness:
  "\<exists>st1 st2 se2. confirm_password_reset (shop_service []) shop_inputs ''rst'' ''Correct1horse''
      (shop_state shop_repo) = (st1, Inr ''password_changed'') \<and>
    sessions_dead ''u'' (sql_account_view (au_repo st1)) \<and>
    finish_session (shop_service []) (Aware 1000000) True (Refresh shop_session) st1 = (st2, Inr (Some se2)) \<and>
    read_session (shop_service []) (Some ''tok'') (Aware 2000000) (au_repo st2) = Inr (Refresh se2)"
proof -
  have read: "read_session (shop_service []) (Some ''tok'') (Aware 1000000) (au_repo (shop_state shop_repo)) =
      Inr (Refresh shop_session)"
    by (rule read_session_refresh) (simp_all add: shop_token sql_account_ports_def get_by_secondary_def
      keyed_get_def shop_defs is_over_def)
  obtain st1 where run: "confirm_password_reset (shop_service []) shop_inputs ''rst'' ''Correct1horse''
      (shop_state shop_repo) = (st1, Inr ''password_changed'')" using shop_reset_runs by blast
  obtain h where ready: "reset_ready (shop_service []) shop_inputs ''rst'' ''Correct1horse''
      (au_repo (shop_state shop_repo)) shop_reset shop_user h" using shop_reset_ready by auto
  have ids: "tr_user_id shop_reset = se_user_id shop_session" "se_user_id shop_session = ''u''"
    "is_over (se_expires_at shop_session) (Aware 2000000) = Inr False"
    by (simp_all add: shop_reset_def shop_session_def is_over_def)
  from inflight_refresh_revives_session [OF _ _ read _ ready ids(1) _ run ids(3)] shop_ok ids run
  show ?thesis by auto
qed

text \<open>A change that goes through.\<close>

lemma shop_change_reads:
  "reading_email_change (shop_service fs) ''chg'' (Aware 1000000) shop_repo = Inr (shop_change, shop_user)"
proof -
  have "email_key ''n@b.c'' = ''n@b.c''" by code_simp
  then show ?thesis
    by (simp add: reading_email_change_def shop_token sql_account_ports_def get_by_secondary_def keyed_get_def
      keyed_list_def latest_unconsumed_email_change_def standing_def live_account_def
      shop_defs is_over_def)
qed

definition shop_moved_user :: user where
  "shop_moved_user = shop_user\<lparr>u_email := ''n@b.c'', u_email_verified := True, u_updated_at := Some (Aware 1000000)\<rparr>"

definition shop_revoked :: sql_accounts where
  "shop_revoked = shop_repo\<lparr>sa_sessions := [(''s'', \<lparr>kr_payload = shop_session\<lparr>se_revoked := True\<rparr>,
     kr_secondary = Some (hash_token ''tok''), kr_owner = Some ''u'', kr_seq = 1\<rparr>)]\<rparr>"

definition shop_moved :: sql_accounts where
  "shop_moved = shop_revoked\<lparr>sa_users :=
     [(''u'', \<lparr>kr_payload = shop_moved_user, kr_secondary = Some ''n@b.c'', kr_owner = None, kr_seq = 1\<rparr>)]\<rparr>"

definition shop_consumed :: sql_accounts where
  "shop_consumed = shop_moved\<lparr>sa_changes := [(''c'', \<lparr>kr_payload = shop_change\<lparr>tr_consumed := True\<rparr>,
     kr_secondary = Some (hash_token ''chg''), kr_owner = Some ''u'', kr_seq = 1\<rparr>)]\<rparr>"

lemma shop_writes:
  "ap_revoke_all sql_account_ports shop_repo ''u'' = (shop_revoked, Inr ())"
  "ap_save_user sql_account_ports shop_revoked shop_moved_user = (shop_moved, Inr ())"
  "tp_consume (ap_changes sql_account_ports) shop_moved ''c'' = (shop_consumed, Inr ())"
  "ap_changes_of sql_account_ports shop_consumed ''u'' = [shop_change\<lparr>tr_consumed := True\<rparr>]"
proof -
  have e: "email_key ''n@b.c'' = ''n@b.c''" by code_simp
  note defs = sql_account_ports_def sql_save_session_def sql_put_def keyed_upsert_def secondary_taken_def
    get_by_secondary_def keyed_get_def keyed_list_def shop_defs shop_revoked_def
  show "ap_revoke_all sql_account_ports shop_repo ''u'' = (shop_revoked, Inr ())"
    by (simp add: defs sql_revoke_all_def)
  show "tp_consume (ap_changes sql_account_ports) shop_moved ''c'' = (shop_consumed, Inr ())"
    by (simp add: defs shop_moved_def shop_consumed_def sql_mark_consumed_def sql_save_token_def)
  show "ap_changes_of sql_account_ports shop_consumed ''u'' = [shop_change\<lparr>tr_consumed := True\<rparr>]"
    by (simp add: defs shop_moved_def shop_consumed_def)
  have u: "u_user_id shop_moved_user = ''u''" "u_email shop_moved_user = ''n@b.c''"
    by (simp_all add: shop_moved_user_def shop_user_def)
  have users: "sa_users shop_revoked =
      [(''u'', \<lparr>kr_payload = shop_user, kr_secondary = Some ''a@b.c'', kr_owner = None, kr_seq = 1\<rparr>)]"
    by (simp add: shop_revoked_def shop_repo_def)
  have "sql_save_user (sa_users shop_revoked) shop_moved_user = (sa_users shop_moved, Inr ())"
    by (simp add: users sql_save_user_def Let_def u e keyed_upsert_def secondary_taken_def
      get_by_secondary_def shop_moved_def)
  then show "ap_save_user sql_account_ports shop_revoked shop_moved_user = (shop_moved, Inr ())"
    by (simp add: sql_account_ports_def shop_moved_def)
qed

lemma shop_change_runs:
  "\<exists>st'. confirm_email_change (shop_service []) shop_inputs ''chg'' (shop_state shop_repo) = (st', Inr ''email_changed'')"
proof -
  have ids: "u_user_id shop_user = ''u''" "tr_id shop_change = ''c''" "ec_new_email shop_change = ''n@b.c''"
    "u_email_verified shop_user = False" by (simp_all add: shop_user_def shop_change_def)
  note moved = shop_moved_user_def [symmetric]
  show ?thesis
    unfolding confirm_email_change_def raising_def shop_state_fields shop_inputs_fields shop_change_reads
    by (simp add: on_repo_def reported_as_def apply_email_change_def consume_email_change_def
      invalidate_for_user_def ids moved shop_writes)
qed

theorem email_change_fails_closed_witness:
  "\<exists>st'. confirm_email_change (shop_service []) shop_inputs ''chg'' (shop_state shop_repo) = (st', Inr ''email_changed'') \<and>
    sessions_dead ''u'' (sql_account_view (au_repo st')) \<and>
    av_users (sql_account_view (au_repo st')) =
      [''u'' \<mapsto> shop_user\<lparr>u_email := ''n@b.c'', u_email_verified := True, u_updated_at := Some (Aware 1000000)\<rparr>] \<and>
    consumed_in (av_changes (sql_account_view (au_repo st'))) ''c''"
proof -
  obtain st' where run: "confirm_email_change (shop_service []) shop_inputs ''chg'' (shop_state shop_repo) =
      (st', Inr ''email_changed'')" using shop_change_runs by blast
  have ids: "u_user_id shop_user = ''u''" "tr_user_id shop_change = ''u''" "ec_new_email shop_change = ''n@b.c''"
    "u_email_verified shop_user = False" "u_email shop_user = ''a@b.c''"
    by (simp_all add: shop_defs)
  from email_change_fails_closed [OF _ _ run refl refl] shop_ok show ?thesis
    using run by (simp add: shop_change_reads shop_view ids moved_user_def)
qed

text \<open>One refused login at the address, whatever the stored hash or the missing account.\<close>

definition shop_attempt :: "string \<Rightarrow> login_attempt" where
  "shop_attempt password = \<lparr>la_inputs = shop_inputs, la_email = ''a@b.c'', la_password = password,
     la_remember_me = False, la_user_agent = None, la_ip_hint = None\<rparr>"

definition empty_repo :: sql_accounts where
  "empty_repo = \<lparr>sa_users = [], sa_sessions = [], sa_resets = [], sa_verifications = [], sa_changes = [],
     sa_consents = [], sa_profiles = [], sa_settings = []\<rparr>"

lemma shop_email: "normalize_email ''a@b.c'' = Inr ''a@b.c''" "email_key ''a@b.c'' = ''a@b.c''"
  by code_simp+

lemma shop_wrong_password: "verify_password ''wrong'' ''x'' = Inr False"
  by code_simp

lemma shop_rejected:
  "rejected (shop_service fs) ''a@b.c'' ''wrong'' shop_repo"
  "rejected (shop_service fs) ''a@b.c'' password empty_repo"
  by (simp_all add: rejected_def shop_email sql_account_ports_def get_by_secondary_def shop_defs
    shop_wrong_password empty_repo_def)

lemma shop_login_rejected:
  assumes "rejected (shop_service fs) ''a@b.c'' password w"
  shows "\<exists>s'. login (shop_service fs) shop_inputs ''a@b.c'' password False None None (shop_state w) =
    (s', Inl INVALID_CREDENTIALS)"
proof -
  obtain k where key: "login_key (shop_service fs) ''a@b.c'' = Inr k"
    and k: "abuse_key (shop_service fs) ''login'' ''a@b.c'' = Inr k"
    by (simp add: login_key_def shop_email abuse_key_def shop_service_def)
  have gate: "reject_if_login_locked (shop_service fs) k (Aware 1000000) (shop_state w) = (shop_state w, Inr ())"
    using sql_lock.is_locked_view [OF _ opaque_login_key [OF key], of "[]"]
    by (simp add: reject_if_login_locked_def sql_view_def)
  obtain s1 where s1: "limited (shop_service fs) k (Aware 1000000) None ''login''
      ''Too many login attempts. Try again later.'' (shop_state w) = (s1, Inr ())"
    by (simp add: limited_def limiter_check_def shop_service_def memory_rate_store_def mem_consume_def Let_def)
  have kept: "au_repo s1 = w" "au_lock s1 = []"
    using limited_repo [of "shop_service fs" k "Aware 1000000" None "''login''" "''Too many login attempts. Try again later.''"
        "shop_state w"]
      limited_lock [of "shop_service fs" k "Aware 1000000" None "''login''" "''Too many login attempts. Try again later.''"
        "shop_state w"] s1 by simp_all
  obtain s2 where "record_login_failure (shop_service fs) k (Aware 1000000) s1 = (s2, Inr ())"
    using sql_lock.record_login_failure_law [of "shop_service fs" s1 k "Aware 1000000"]
      opaque_login_key [OF key] default_policy_ok kept by auto
  with rejected_attempt [of "shop_service fs" "''a@b.c''" password s1 "''a@b.c''" k shop_inputs "shop_state w"
      False None None] assms kept gate s1 k shop_email show ?thesis by auto
qed

theorem login_failures_alike_witness:
  "\<exists>s' t'. login (shop_service []) shop_inputs ''a@b.c'' ''wrong'' False None None (shop_state shop_repo) =
      (s', Inl INVALID_CREDENTIALS) \<and>
    login (shop_service []) shop_inputs ''a@b.c'' ''other'' False None None (shop_state empty_repo) =
      (t', Inl INVALID_CREDENTIALS) \<and> au_lock s' = au_lock t' \<and> au_rate s' = au_rate t'"
proof -
  obtain s' where s': "login (shop_service []) shop_inputs ''a@b.c'' ''wrong'' False None None (shop_state shop_repo) =
      (s', Inl INVALID_CREDENTIALS)" using shop_login_rejected [OF shop_rejected(1)] by blast
  obtain t' where t': "login (shop_service []) shop_inputs ''a@b.c'' ''other'' False None None (shop_state empty_repo) =
      (t', Inl INVALID_CREDENTIALS)" using shop_login_rejected [OF shop_rejected(2)] by blast
  from login_failures_alike [OF _ _ _ _ s' t'] shop_rejected s' t' show ?thesis by auto
qed

theorem login_guess_bound_witness:
  "\<exists>k. login_key (shop_service []) ''a@b.c'' = Inr k \<and>
    wrong_streak (shop_service []) k 0 (shop_state shop_repo) [shop_attempt ''wrong''] = 1 \<and>
    wrong_streak (shop_service []) k 0 (shop_state shop_repo) (replicate 100 (shop_attempt ''wrong''))
      \<le> pol_threshold default_lock_policy"
proof -
  obtain k where key: "login_key (shop_service []) ''a@b.c'' = Inr k"
    by (simp add: login_key_def shop_email abuse_key_def shop_service_def)
  obtain s' where "attempt_login (shop_service []) (shop_attempt ''wrong'') (shop_state shop_repo) =
      (s', Inl INVALID_CREDENTIALS)"
    using shop_login_rejected [OF shop_rejected(1), of "[]"] by (auto simp: attempt_login_def shop_attempt_def)
  then have "wrong_streak (shop_service []) k 0 (shop_state shop_repo) [shop_attempt ''wrong''] = 1"
    using key by (simp add: next_streak_def shop_attempt_def)
  moreover have "wrong_streak (shop_service []) k 0 (shop_state shop_repo) (replicate 100 (shop_attempt ''wrong''))
      \<le> pol_threshold (sv_policy (shop_service []))"
    by (rule login_guess_bound [where w = 1 and t = "epoch_ms (Aware 1000000)", OF _ _ _ _ key])
      (use default_policy_ok in \<open>simp_all add: default_lock_policy_def policy_ok_def attempt_within_def shop_attempt_def
        FAILED_LOGIN_FAILURE_RETENTION_SECONDS_def FAILED_LOGIN_LOCK_DURATION_SECONDS_def\<close>)
  ultimately show ?thesis using key by simp
qed

text \<open>A reset is requested where the account exists and where it does not.\<close>

definition quiet_repo :: sql_accounts where
  "quiet_repo = shop_repo\<lparr>sa_resets := []\<rparr>"

lemma quiet_ok: "sql_accounts_ok quiet_repo" "sql_accounts_ok empty_repo"
  using shop_ok by (simp_all add: quiet_repo_def sql_accounts_ok_def empty_repo_def)

lemma quiet_fresh: "fresh_reset shop_inputs quiet_repo" "fresh_reset shop_inputs empty_repo"
  by (simp_all add: fresh_reset_def sql_account_view_def quiet_repo_def empty_repo_def keyed_get_def key_elsewhere_def)

lemma shop_request_answer:
  assumes "request_password_reset (shop_service []) shop_inputs ''a@b.c'' (shop_state w) = (s', r)"
    and "w = quiet_repo \<or> w = empty_repo"
  shows "r = Inr ACCEPTED"
proof -
  have "\<exists>st1. reset_gate (shop_service []) shop_inputs ''a@b.c'' (shop_state w) = (st1, Inr ''a@b.c'')"
    by (simp add: reset_gate_def shop_email abuse_key_def limited_def limiter_check_def shop_service_def
      memory_rate_store_def mem_consume_def Let_def)
  moreover have "\<not> sv_inline_tokens (shop_service [])" by (simp add: shop_service_def)
  moreover have "in_id shop_inputs 0 \<noteq> []" by (simp add: shop_inputs_def)
  ultimately show ?thesis
    using sql_accounts.request_reset_law [OF _ _ _ _ _ _ assms(1)] assms(2) quiet_ok quiet_fresh
    by (auto simp: fresh_reset_def)
qed

theorem reset_request_silent_witness:
  "\<exists>s' t'. request_password_reset (shop_service []) shop_inputs ''a@b.c'' (shop_state quiet_repo) = (s', Inr ACCEPTED) \<and>
    request_password_reset (shop_service []) shop_inputs ''a@b.c'' (shop_state empty_repo) = (t', Inr ACCEPTED) \<and>
    au_rate s' = au_rate t' \<and> av_users (sql_account_view (au_repo s')) = av_users (sql_account_view quiet_repo)"
proof -
  obtain s' r where s': "request_password_reset (shop_service []) shop_inputs ''a@b.c'' (shop_state quiet_repo) = (s', r)"
    by (cases "request_password_reset (shop_service []) shop_inputs ''a@b.c'' (shop_state quiet_repo)")
  obtain t' q where t': "request_password_reset (shop_service []) shop_inputs ''a@b.c'' (shop_state empty_repo) = (t', q)"
    by (cases "request_password_reset (shop_service []) shop_inputs ''a@b.c'' (shop_state empty_repo)")
  have "\<not> sv_inline_tokens (shop_service [])" "in_id shop_inputs 0 \<noteq> []"
    by (simp_all add: shop_service_def shop_inputs_def)
  with reset_request_silent [OF _ _ _ _ _ _ _ _ _ s' t' refl refl] quiet_ok quiet_fresh
    shop_request_answer [OF s'] shop_request_answer [OF t'] s' t'
  show ?thesis by auto
qed

end
