(* ===== verification/Spec2Isabelle.thy ===== *)
theory Spec2Isabelle
  imports ScriptedRun ConversationProps FailedLoginSql SubmissionSql RateLimitSql ReliabilityRepo PlanningFacts Countries
    LiveAttemptProps AccountProps
begin

text \<open>
  DealBrain: the stores, gates and state machines that decide whether a shopper's confirmed request may cause an
  external call.  This theory holds no definitions; it gathers the development.

  \<^bold>\<open>The program.\<close>  A shopper talks to an assistant inside a conversation.  The assistant may propose research; the
  shopper confirms the proposal, which becomes a research authorization inside the conversation; the authorization
  is routed to a plan of certified providers, bound to one durable execution, and claimed for one connector attempt
  while a circuit breaker and the live-mode gate permit it.  Submissions, logins and HTTP requests each pass
  a ledger, a lock or a rate limiter first.  Every store exists twice, in process memory and in a database.

  \<^bold>\<open>The shared layers.\<close>
  \<^item> \<open>Prelude\<close>: Python datetimes (naive and aware, microseconds), dictionaries as association lists, strings over
    the ASCII range, results as sums.
  \<^item> \<open>SqlTable\<close>: one SQL table, its statements, and the retry loop around a transaction
    (app/infrastructure/database/*); database faults are an argument, one per attempt.
  \<^item> \<open>Digest\<close>: SHA-256 on 32-bit words, canonical JSON and \<open>stable_sha256\<close> (app/research/digest.py).
  \<^item> \<open>OperationalStore\<close>: versioned rows with compare-and-swap
    (app/infrastructure/persistence/operational_store.py).
  \<^item> \<open>Countries\<close>: ISO 3166 codes (app/core/countries.py).

  \<^bold>\<open>Security stores.\<close>
  \<^item> \<open>FailedLogin\<close>, \<open>FailedLoginSql\<close>: the failed-login lock.  The locale \<open>failed_login_store\<close> is the contract of the two
    stores; the properties say that they agree, when the lock falls and that it is never extended.
  \<^item> \<open>Submission\<close>, \<open>SubmissionSql\<close>: the replay ledger of a shopping submission; a submission runs at most once for
    each release granted to it, a stored answer is replayed verbatim, and a lost one is not rerun.
  \<^item> \<open>RateLimit\<close>, \<open>RateLimitSql\<close>: the sliding window in process and the fixed window in the database.

  \<^bold>\<open>Research.\<close>
  \<^item> \<open>Reliability\<close>, \<open>ReliabilityRepo\<close>: the circuit breaker of a provider, its probe lease, the two repositories and the
    gate over them (app/research/reliability_state.py, reliability_repository.py).
  \<^item> \<open>Authorization\<close>: proposal and authorization (app/services/research_authorization.py); the status machine, owner
    binding, and what a hand-off and a resumption may see.
  \<^item> \<open>Catalog\<close>, \<open>Planning\<close>, \<open>PlanningFacts\<close>: providers, certifications, evidence, routing and markets, and the plan of an
    authorized request.
  \<^item> \<open>Execution\<close>: the durable execution record and its two repositories (app/research/authorized_execution_repository.py).
  \<^item> \<open>SessionRefinement\<close>: the values of a refinement of a recommendation.
  \<^item> \<open>Conversation\<close>, \<open>ConversationFacts\<close>, \<open>ConversationAgree\<close>, \<open>ConversationProps\<close>: conversations, their two repositories,
    the contract of both, and that they answer alike.
  \<^item> \<open>LiveMode\<close>, \<open>ScriptedRun\<close>: the live-mode gate and the scripted execution ledger (app/research/sprint38_live_execution.py).
  \<^item> \<open>LiveStart\<close>, \<open>LiveStartFacts\<close>, \<open>LiveStartClaims\<close>, \<open>LiveStartProps\<close>: the claim of one execution, over the execution,
    breaker and conversation rows at once (app/research/live_start_claim.py).  The locale \<open>claim_store\<close> is the contract of a
    transaction; both transactions meet it.
  \<^item> \<open>LiveAttempt\<close>, \<open>LiveAttemptFacts\<close>, \<open>LiveSystem\<close>, \<open>LiveAttemptProps\<close>: one connector attempt of a claimed
    execution (app/research/shopify_global_catalog_execution.py): its permits, request, first transaction, call, outcome
    and reconciliation.  \<open>LiveSystem\<close> interleaves the claims and attempts of any number of processes as one step
    relation; the call of an execution is made at most once.  How a payload is classified and normalised is an argument.

  \<^bold>\<open>Accounts.\<close>
  \<^item> \<open>PasswordHash\<close>: PBKDF2-HMAC-SHA256 and the stored text of a password (app/auth/password.py).
  \<^item> \<open>KeyedStore\<close>: rows of the operational store with a secondary key.
  \<^item> \<open>AccountRepos\<close>, \<open>AccountStores\<close>: users, sessions, reset, verification and e-mail change requests and consents in
    both stores (app/user/memory.py, user_platform_repository.py).  The locales \<open>token_store\<close> and \<open>account_store\<close> are
    their contract, and both stores meet it.
  \<^item> \<open>Accounts\<close>: AuthService (app/auth/service.py) over any such store, the failed-login lock and the limiter.  A call
    gets its clock readings, identifiers, tokens and salt, and the repository writes that fail in it.
  \<^item> \<open>AccountFacts\<close>, \<open>AccountLogin\<close>, \<open>AccountProps\<close>: where the handlers end when a write fails, what one login does to
    the lock, and the properties.  The lock bounds the wrong passwords between two right ones; refusals do not tell why; an
    e-mail change fails closed, while a password reset does not, and a refresh in flight undoes a revocation.

  \<^bold>\<open>How the code is read.\<close>  A dataclass is a record with a \<open>check_\<close> function for its \<open>__post_init__\<close>; an exception is
  \<open>Inl\<close>; a store is passed in and returned; a clock, a token factory and a database fault are arguments; others'
  commits are functions on the store, applied where the code lets them in.

  \<^bold>\<open>Bounds.\<close>  The database retry loops run over the source's number of attempts: sixteen for the login lock, eight
  for the rate counters and the submission ledger.  A connector's attempts are bounded by its own limit and by a measure.
  The leases are thirty seconds, an attempt needs six seconds of its lease.  Nothing runs on fuel.

  \<^bold>\<open>Not modelled.\<close>  The deal score, price statistics, marketplace recommendation and review intelligence are floating-point
  scoring without a discrete contract.  The HTTP endpoints, mappers and pages translate and render.  The JSON codec of stored
  entities is outside: a row keeps the entity.  Settings, dependency wiring, deployment scripts, migrations and the
  HTTP transport are configuration or I/O.  Text generation for proposals, refinements and answers composes prose from
  recommendation data.  Of an account's profile only what registration writes is kept, and of a mail its kind, address and
  token; the mail provider and the legal catalogue are arguments.
\<close>

end
